(* ===== verification/Prelude.thy ===== *)
theory Prelude
  imports Main "HOL-Library.Signed_Division"
begin

text \<open>
  Shared vocabulary of the development: the outcome of a C++ function that may return an
  error object or run into undefined behaviour, bounds-checked vector access, and the
  fixed-width integer conversions the sources rely on.

  Conventions. A C++ \<open>int32_t\<close> is an \<open>int\<close> kept inside the range of the type;
  every signed operation goes through \<open>chk32\<close>, which yields undefined behaviour when
  the exact result leaves that range. An unsigned value of width \<open>w\<close> is an \<open>int\<close>
  (or \<open>nat\<close>) reduced modulo \<open>2 ^ w\<close>. A failed assertion, an \<open>UNREACHABLE()\<close>,
  an out-of-range element access, a null dereference and a division by zero are all
  \<open>UB\<close>.
\<close>

section \<open>Outcomes\<close>

datatype internal_error_type = Validation | ContextLost | Internal | OutOfMemory

datatype fault = Error internal_error_type string | UB

type_synonym 'a res = "fault + 'a"

abbreviation ok :: "'a \<Rightarrow> 'a res" where
  "ok x \<equiv> Inr x"

abbreviation undef :: "'a res" where
  "undef \<equiv> Inl UB"

definition validation_error :: "string \<Rightarrow> 'a res" where
  "validation_error msg = Inl (Error Validation msg)"

definition unimplemented_error :: "string \<Rightarrow> 'a res" where
  "unimplemented_error msg = Inl (Error Internal (''Unimplemented: '' @ msg))"

fun bindR :: "'a res \<Rightarrow> ('a \<Rightarrow> 'b res) \<Rightarrow> 'b res" where
  "bindR (Inl e) f = Inl e"
| "bindR (Inr x) f = f x"

text \<open>A loop that runs a fallible body over a list, threading an accumulator.\<close>

fun foldR :: "('a \<Rightarrow> 's \<Rightarrow> 's res) \<Rightarrow> 'a list \<Rightarrow> 's \<Rightarrow> 's res" where
  "foldR f [] s = ok s"
| "foldR f (x # xs) s = bindR (f x s) (foldR f xs)"

text \<open>A debug assertion, whose failure is undefined behaviour.\<close>

definition assertR :: "bool \<Rightarrow> unit res" where
  "assertR c = (if c then ok () else undef)"

text \<open>Sequencing for functions that may not return.\<close>

definition bindRO :: "'a res option \<Rightarrow> ('a \<Rightarrow> 'b res option) \<Rightarrow> 'b res option" where
  "bindRO x f = Option.bind x (\<lambda>r. case r of Inl e \<Rightarrow> Some (Inl e) | Inr y \<Rightarrow> f y)"

lemma bindRO_simps [simp]:
  "bindRO None f = None" "bindRO (Some (Inl e)) f = Some (Inl e)" "bindRO (Some (Inr x)) f = f x"
  by (simp_all add: bindRO_def)

lemma bindRO_mono [partial_function_mono]:
  assumes "mono_option B" "\<And>y. mono_option (\<lambda>f. C y f)"
  shows "mono_option (\<lambda>f. bindRO (B f) (\<lambda>y. C y f))"
  unfolding bindRO_def
proof (rule bind_mono [OF assms(1)])
  fix r :: "fault + 'c"
  show "mono_option (\<lambda>f. case r of Inl e \<Rightarrow> Some (Inl e) | Inr y \<Rightarrow> C y f)"
    by (cases r) (auto intro: assms(2) option.const_mono)
qed

section \<open>Vectors\<close>

definition vec_at :: "'a list \<Rightarrow> int \<Rightarrow> 'a res" where
  "vec_at xs i = (if 0 \<le> i \<and> i < int (length xs) then ok (xs ! nat i) else undef)"

definition vec_set :: "'a list \<Rightarrow> int \<Rightarrow> 'a \<Rightarrow> 'a list res" where
  "vec_set xs i v = (if 0 \<le> i \<and> i < int (length xs) then ok (xs[nat i := v]) else undef)"

section \<open>Machine integers\<close>

definition in_i32 :: "int \<Rightarrow> bool" where
  "in_i32 x \<longleftrightarrow> - (2 ^ 31) \<le> x \<and> x < 2 ^ 31"

definition chk32 :: "int \<Rightarrow> int res" where
  "chk32 x = (if in_i32 x then ok x else undef)"

definition add32 :: "int \<Rightarrow> int \<Rightarrow> int res" where
  "add32 a b = chk32 (a + b)"

definition sub32 :: "int \<Rightarrow> int \<Rightarrow> int res" where
  "sub32 a b = chk32 (a - b)"

definition mul32 :: "int \<Rightarrow> int \<Rightarrow> int res" where
  "mul32 a b = chk32 (a * b)"

text \<open>Signed division truncates towards zero; a zero divisor is undefined.\<close>

definition div32 :: "int \<Rightarrow> int \<Rightarrow> int res" where
  "div32 a b = (if b = 0 then undef else chk32 (a sdiv b))"

definition to_u32 :: "int \<Rightarrow> int" where
  "to_u32 x = x mod 2 ^ 32"

definition to_u64 :: "int \<Rightarrow> int" where
  "to_u64 x = x mod 2 ^ 64"

text \<open>Narrowing to \<open>int32_t\<close> keeps the low 32 bits in two's complement.\<close>

definition to_i32 :: "int \<Rightarrow> int" where
  "to_i32 x = (x + 2 ^ 31) mod 2 ^ 32 - 2 ^ 31"

section \<open>Lemmas\<close>

named_theorems res_iff

lemma bindR_Inr_iff [res_iff]: "bindR r f = Inr y \<longleftrightarrow> (\<exists>x. r = Inr x \<and> f x = Inr y)"
  by (cases r) auto

lemma bindR_Inl_iff: "bindR r f = Inl e \<longleftrightarrow> r = Inl e \<or> (\<exists>x. r = Inr x \<and> f x = Inl e)"
  by (cases r) auto

lemma bindR_ok: "bindR r (foldR f []) = r"
  by (cases r) auto

lemma bindR_assoc: "bindR (bindR r f) g = bindR r (\<lambda>x. bindR (f x) g)"
  by (cases r) auto

lemma foldR_append: "foldR f (xs @ ys) s = bindR (foldR f xs s) (foldR f ys)"
proof (induction xs arbitrary: s)
  case (Cons x xs)
  then have "foldR f (xs @ ys) = (\<lambda>s. bindR (foldR f xs s) (foldR f ys))" by blast
  then show ?case by (simp add: bindR_assoc)
qed simp

text \<open>A loop whose body is itself a loop.\<close>

lemma foldR_flatten:
  assumes "\<And>x s. x \<in> set xs \<Longrightarrow> f x s = foldR g (h x) s"
  shows "foldR f xs s = foldR g (concat (map h xs)) s"
  using assms
proof (induction xs arbitrary: s)
  case (Cons x xs)
  then have "foldR f xs = foldR g (concat (map h xs))" by (intro ext) simp
  then show ?case using Cons.prems by (simp add: foldR_append)
qed simp

text \<open>The invariant rule of such a loop: the invariant speaks of the elements already visited.\<close>

lemma foldR_invariant:
  assumes "P [] s"
    and "\<And>ys x zs s. xs = ys @ x # zs \<Longrightarrow> P ys s \<Longrightarrow> \<exists>s'. f x s = Inr s' \<and> P (ys @ [x]) s'"
  shows "\<exists>s'. foldR f xs s = Inr s' \<and> P xs s'"
proof -
  have "\<exists>s'. foldR f ys s = Inr s' \<and> P ys s'" if "xs = ys @ zs" for ys zs
    using that
  proof (induction ys arbitrary: zs rule: rev_induct)
    case Nil
    then show ?case using assms(1) by simp
  next
    case (snoc x ys)
    then show ?case using assms(2) [of ys x zs] by (fastforce simp: foldR_append)
  qed
  then show ?thesis by simp
qed

lemma bindR_cong [fundef_cong]:
  "r = r' \<Longrightarrow> (\<And>x. r' = Inr x \<Longrightarrow> f x = g x) \<Longrightarrow> bindR r f = bindR r' g"
  by (cases r') auto

lemma assertR_simps [simp]: "assertR True = ok ()" "c \<Longrightarrow> assertR c = ok ()"
  by (simp_all add: assertR_def)

lemma validation_error_neq [simp]:
  "validation_error m \<noteq> Inr x" "Inr x \<noteq> validation_error m" "validation_error m \<noteq> undef"
  "undef \<noteq> validation_error m"
  by (simp_all add: validation_error_def)

lemma unimplemented_error_neq [simp]:
  "unimplemented_error m \<noteq> Inr x" "Inr x \<noteq> unimplemented_error m"
  "unimplemented_error m \<noteq> undef" "undef \<noteq> unimplemented_error m"
  by (simp_all add: unimplemented_error_def)

lemma bindR_validation_error [simp]: "bindR (validation_error m) f = validation_error m"
  by (simp add: validation_error_def)

text \<open>A guard that rejects, and an assertion, in an accepted run.\<close>

lemma guard_Inr_iff [res_iff]: "(if c then validation_error m else r) = Inr x \<longleftrightarrow> \<not> c \<and> r = Inr x"
  by simp

lemma assertR_Inr_iff [res_iff]: "assertR c = Inr x \<longleftrightarrow> c"
  by (simp add: assertR_def)

lemma vec_at_Inr_iff [res_iff]:
  "vec_at xs i = Inr x \<longleftrightarrow> 0 \<le> i \<and> i < int (length xs) \<and> xs ! nat i = x"
  by (auto simp: vec_at_def)

lemma vec_at_nat [simp]: "k < length xs \<Longrightarrow> vec_at xs (int k) = Inr (xs ! k)"
  by (simp add: vec_at_def)

lemma vec_set_Inr_iff [res_iff]:
  "vec_set xs i v = Inr ys \<longleftrightarrow> 0 \<le> i \<and> i < int (length xs) \<and> ys = xs[nat i := v]"
  by (auto simp: vec_set_def)

lemma vec_set_nat [simp]: "k < length xs \<Longrightarrow> vec_set xs (int k) v = Inr (xs[k := v])"
  by (simp add: vec_set_def)

lemma chk32_Inr_iff [res_iff]: "chk32 x = Inr y \<longleftrightarrow> in_i32 x \<and> y = x"
  by (auto simp: chk32_def)

lemma add32_Inr_iff [res_iff]: "add32 a b = Inr y \<longleftrightarrow> in_i32 (a + b) \<and> y = a + b"
  by (simp add: add32_def res_iff)

lemma sub32_Inr_iff [res_iff]: "sub32 a b = Inr y \<longleftrightarrow> in_i32 (a - b) \<and> y = a - b"
  by (simp add: sub32_def res_iff)

lemma mul32_Inr_iff [res_iff]: "mul32 a b = Inr y \<longleftrightarrow> in_i32 (a * b) \<and> y = a * b"
  by (simp add: mul32_def res_iff)

lemma div32_Inr_iff [res_iff]:
  "div32 a b = Inr y \<longleftrightarrow> b \<noteq> 0 \<and> in_i32 (a sdiv b) \<and> y = a sdiv b"
  by (auto simp: div32_def res_iff)

lemma sdiv_nonneg: "0 \<le> a \<Longrightarrow> 0 < b \<Longrightarrow> a sdiv b = a div (b :: int)"
  by (cases "a = 0") (simp_all add: signed_divide_int_def)

lemma to_i32_id: "in_i32 x \<Longrightarrow> to_i32 x = x"
  by (simp add: to_i32_def in_i32_def)

lemma in_i32_to_i32 [simp]: "in_i32 (to_i32 x)"
  by (simp add: to_i32_def in_i32_def)

lemma to_u32_id: "0 \<le> x \<Longrightarrow> x < 2 ^ 32 \<Longrightarrow> to_u32 x = x"
  by (simp add: to_u32_def)

lemma to_u64_id: "0 \<le> x \<Longrightarrow> x < 2 ^ 64 \<Longrightarrow> to_u64 x = x"
  by (simp add: to_u64_def)

lemma to_u32_range [simp]: "0 \<le> to_u32 x" "to_u32 x < 2 ^ 32"
  by (simp_all add: to_u32_def)

end
