(* ===== verification/Operands.thy ===== *)
theory Operands
  imports Prelude
begin

text \<open>
  Operands and the part of an operator every operator class shares: the operand record of
  \<open>webnn_native/Operand.h\<close>, the base validation of \<open>webnn_native/Operator.cpp\<close>,
  and the enumerations of \<open>webnn.json\<close> the option structures use. Floating-point option
  values are finite binary32 values \<open>m * 2 ^ e\<close>, with the rounding the one arithmetic
  use of them (\<open>Resample2d\<close>) needs.
\<close>

section \<open>Enumerations of the WebNN API\<close>

datatype operand_type = Float32 | Float16 | Int32 | Uint32 | Int8 | Uint8

datatype input_operand_layout = Nchw | Nhwc

text \<open>The C API passes enumerations as raw integers; the last constructor stands for a value
  outside the enumeration.\<close>

datatype filter_operand_layout = Oihw | Hwio | Ohwi | Ihwo | FilterLayoutOther nat

datatype auto_pad = AutoPadExplicit | SameUpper | SameLower | AutoPadOther nat

datatype padding_mode = PadConstant | PadEdge | PadReflection | PadSymmetric

datatype interpolation_mode = NearestNeighbor | Linear

datatype fusion_type = FusionClamp | FusionRelu | FusionSigmoid | FusionLeakyRelu
  | FusionHardSwish | FusionTanh

section \<open>Single-precision values\<close>

text \<open>\<open>Finite m e\<close> is the value \<open>m * 2 ^ e\<close>; infinities and NaNs are \<open>NonFinite\<close>.\<close>

datatype f32 = Finite int int | NonFinite

fun nbits :: "nat \<Rightarrow> nat" where
  "nbits n = (if n = 0 then 0 else Suc (nbits (n div 2)))"

declare nbits.simps [simp del]

text \<open>Round to nearest, ties to even, keeping 24 significant bits. Values outside the exponent
  range are not distinguished: they only reach a conversion to \<open>int32_t\<close>, which is
  undefined for huge values and zero for tiny ones in either reading.\<close>

definition f32_round :: "int \<Rightarrow> int \<Rightarrow> f32" where
  "f32_round m e =
     (let a = nat \<bar>m\<bar>; k = nbits a - 24; q = a div 2 ^ k; r = a mod 2 ^ k;
          up = (2 * r > 2 ^ k \<or> 2 * r = 2 ^ k \<and> odd q)
      in Finite (sgn m * int (if 0 < k \<and> up then q + 1 else q)) (e + int k))"

definition f32_of_int :: "int \<Rightarrow> f32" where
  "f32_of_int n = f32_round n 0"

fun f32_mul :: "f32 \<Rightarrow> f32 \<Rightarrow> f32" where
  "f32_mul (Finite m e) (Finite m' e') = f32_round (m * m') (e + e')"
| "f32_mul _ _ = NonFinite"

text \<open>Conversion to \<open>int32_t\<close> truncates; it is undefined when the result does not fit.\<close>

fun f32_to_i32 :: "f32 \<Rightarrow> int res" where
  "f32_to_i32 NonFinite = undef"
| "f32_to_i32 (Finite m e) =
     chk32 (if 0 \<le> e then m * 2 ^ nat e else m sdiv 2 ^ nat (- e))"

section \<open>Operands\<close>

text \<open>
  An operand knows the operator that produces it (\<open>mOperator\<close>, null for an error
  operand), its type and its shape. The error tag is the reference count's payload in
  \<open>ObjectBase\<close>.
\<close>

record operand =
  opd_operator :: "nat option"
  opd_type :: operand_type
  opd_shape :: "int list"
  opd_error :: bool

definition operand_new :: "nat \<Rightarrow> operand" where
  "operand_new oid = \<lparr>opd_operator = Some oid, opd_type = Float32, opd_shape = [], opd_error = False\<rparr>"

text \<open>The error constructor leaves \<open>mType\<close> uninitialised; nothing reads it, since every
  validation starts with the error tags of its inputs.\<close>

definition operand_MakeError :: operand where
  "operand_MakeError = \<lparr>opd_operator = None, opd_type = Float32, opd_shape = [], opd_error = True\<rparr>"

definition SetType :: "operand list \<Rightarrow> int \<Rightarrow> operand_type \<Rightarrow> operand list res" where
  "SetType outs i t = bindR (vec_at outs i) (\<lambda>o1. vec_set outs i (o1\<lparr>opd_type := t\<rparr>))"

definition SetShape :: "operand list \<Rightarrow> int \<Rightarrow> int list \<Rightarrow> operand list res" where
  "SetShape outs i s = bindR (vec_at outs i) (\<lambda>o1. vec_set outs i (o1\<lparr>opd_shape := s\<rparr>))"

text \<open>\<open>mInputs[i]->Shape()\<close> and \<open>mInputs[i]->Type()\<close>.\<close>

definition shape_of :: "operand list \<Rightarrow> int \<Rightarrow> int list res" where
  "shape_of ins i = bindR (vec_at ins i) (\<lambda>o1. ok (opd_shape o1))"

definition type_of :: "operand list \<Rightarrow> int \<Rightarrow> operand_type res" where
  "type_of ins i = bindR (vec_at ins i) (\<lambda>o1. ok (opd_type o1))"

definition rank_of :: "operand list \<Rightarrow> int \<Rightarrow> nat res" where
  "rank_of ins i = bindR (shape_of ins i) (\<lambda>s. ok (length s))"

text \<open>\<open>OperatorBase::ValidateAndInferOutputInfo\<close>: reject error inputs, and give the first
  output the type of the first input.\<close>

definition base_validate :: "operand list \<Rightarrow> operand list \<Rightarrow> operand list res" where
  "base_validate ins outs =
     (if \<exists>i \<in> set ins. opd_error i then validation_error ''Argument inputs are invalid.''
      else if ins \<noteq> [] then SetType outs 0 (opd_type (hd ins))
      else ok outs)"

section \<open>Lemmas\<close>

named_theorems infer_simps

lemma SetType_Inr_iff [res_iff]:
  "SetType outs i t = Inr outs' \<longleftrightarrow>
     0 \<le> i \<and> i < int (length outs) \<and> outs' = outs[nat i := (outs ! nat i)\<lparr>opd_type := t\<rparr>]"
  by (auto simp: SetType_def res_iff)

lemma SetShape_Inr_iff [res_iff]:
  "SetShape outs i s = Inr outs' \<longleftrightarrow>
     0 \<le> i \<and> i < int (length outs) \<and> outs' = outs[nat i := (outs ! nat i)\<lparr>opd_shape := s\<rparr>]"
  by (auto simp: SetShape_def res_iff)

lemma shape_of_Inr_iff [res_iff]:
  "shape_of ins i = Inr s \<longleftrightarrow> 0 \<le> i \<and> i < int (length ins) \<and> s = opd_shape (ins ! nat i)"
  by (auto simp: shape_of_def res_iff)

lemma type_of_Inr_iff [res_iff]:
  "type_of ins i = Inr t \<longleftrightarrow> 0 \<le> i \<and> i < int (length ins) \<and> t = opd_type (ins ! nat i)"
  by (auto simp: type_of_def res_iff)

lemma rank_of_Inr_iff [res_iff]:
  "rank_of ins i = Inr n \<longleftrightarrow> 0 \<le> i \<and> i < int (length ins) \<and> n = length (opd_shape (ins ! nat i))"
  by (auto simp: rank_of_def res_iff)

lemma base_validate_error:
  "i \<in> set ins \<Longrightarrow> opd_error i \<Longrightarrow>
     base_validate ins outs = validation_error ''Argument inputs are invalid.''"
  by (auto simp: base_validate_def)

lemma base_validate_Inr_iff [res_iff]:
  "base_validate ins outs = Inr outs' \<longleftrightarrow>
     (\<forall>i \<in> set ins. \<not> opd_error i) \<and>
     (if ins = [] then outs' = outs
      else outs \<noteq> [] \<and> outs' = outs[0 := (outs ! 0)\<lparr>opd_type := opd_type (hd ins)\<rparr>])"
  by (auto simp: base_validate_def res_iff)

text \<open>An operator with one input or one output.\<close>

lemma infer_single [simp]:
  "\<not> opd_error x \<Longrightarrow> base_validate (x # xs) [y] =
     (if \<exists>i \<in> set xs. opd_error i then validation_error ''Argument inputs are invalid.''
      else ok [y\<lparr>opd_type := opd_type x\<rparr>])"
  "shape_of (x # xs) 0 = ok (opd_shape x)" "rank_of (x # xs) 0 = ok (length (opd_shape x))"
  "SetShape [y] 0 s = ok [y\<lparr>opd_shape := s\<rparr>]"
  by (auto simp: base_validate_def shape_of_def rank_of_def SetType_def SetShape_def vec_at_def vec_set_def)

text \<open>A valid single-precision operand, for examples.\<close>

definition tensor :: "int list \<Rightarrow> operand" where
  "tensor s = \<lparr>opd_operator = Some 0, opd_type = Float32, opd_shape = s, opd_error = False\<rparr>"

lemma tensor_simps [simp]:
  "opd_shape (tensor s) = s" "\<not> opd_error (tensor s)" "opd_type (tensor s) = Float32"
  "tensor s\<lparr>opd_type := Float32\<rparr> = tensor s" "tensor s\<lparr>opd_shape := t\<rparr> = tensor t"
  by (simp_all add: tensor_def)

end
