(* ===== verification/Ops_Elementwise.thy ===== *)
theory Ops_Elementwise
  imports Operands
begin

text \<open>
  Shape inference of the element-wise operators and the matrix products:
  \<open>ops/Unary.cpp\<close>, \<open>ops/Clamp.h\<close>, \<open>ops/LeakyRelu.h\<close>, \<open>ops/Binary.cpp\<close>
  and \<open>ops/Gemm.cpp\<close>. Broadcasting is proved equal to a reference that walks the two
  shapes from their last dimension.
\<close>

section \<open>Unary, Clamp, LeakyRelu\<close>

datatype unary_op_type = kAbs | kCeil | kCos | kExp | kFloor | kHardSwish | kLog | kLeakyRelu
  | kNeg | kRelu | kSigmoid | kSin | kSoftmax | kTan | kTanh

definition Unary_infer :: "unary_op_type \<Rightarrow> operand list \<Rightarrow> operand list \<Rightarrow> operand list res" where
  "Unary_infer opType ins outs =
     bindR (base_validate ins outs) (\<lambda>outs.
     bindR (if opType = kSoftmax then rank_of ins 0 else ok 2) (\<lambda>r.
       if r \<noteq> 2 then validation_error ''Input dimensions is incorrect.''
       else if ins \<noteq> [] then bindR (shape_of ins 0) (SetShape outs 0)
       else ok outs))"

record clamp_options =
  clo_minValue :: f32
  clo_maxValue :: f32

record clamp =
  mMinValue :: f32
  mMaxValue :: f32

definition float_lowest :: f32 where
  "float_lowest = Finite (- (2 ^ 24 - 1)) 104"

definition float_max :: f32 where
  "float_max = Finite (2 ^ 24 - 1) 104"

definition ClampBase :: "clamp_options option \<Rightarrow> clamp" where
  "ClampBase options =
     \<lparr>mMinValue = (case options of None \<Rightarrow> float_lowest | Some opt \<Rightarrow> clo_minValue opt),
      mMaxValue = (case options of None \<Rightarrow> float_max | Some opt \<Rightarrow> clo_maxValue opt)\<rparr>"

definition Clamp_infer :: "operand list \<Rightarrow> operand list \<Rightarrow> operand list res" where
  "Clamp_infer ins outs =
     bindR (base_validate ins outs) (\<lambda>outs.
       if ins \<noteq> [] then bindR (shape_of ins 0) (SetShape outs 0) else ok outs)"

text \<open>\<open>LeakyReluBase\<close>: without options alpha is the single-precision value nearest 0.01.\<close>

definition LeakyReluBase :: "f32 option \<Rightarrow> f32" where
  "LeakyReluBase options = (case options of None \<Rightarrow> Finite 10737418 (- 30) | Some a \<Rightarrow> a)"

section \<open>Binary\<close>

datatype binary_op_type = kAdd | kSub | kMul | kDiv | kMax | kMin | kMatMul | kPower

definition broadcast_step ::
  "int list \<Rightarrow> int list \<Rightarrow> nat \<Rightarrow> nat \<Rightarrow> int list \<Rightarrow> int list res" where
  "broadcast_step shapeA shapeB skipAxes i newShape =
     (let rankA = length shapeA; rankB = length shapeB; rankOutput = length newShape in
      if skipAxes \<le> i then
        let dimA = (if i < rankA then shapeA ! (rankA - i - 1) else 1);
            dimB = (if i < rankB then shapeB ! (rankB - i - 1) else 1)
        in if dimA \<noteq> dimB \<and> dimA \<noteq> 1 \<and> dimB \<noteq> 1
           then validation_error ''Shapes are incompatible, broadcasting failed.''
           else ok (newShape[rankOutput - i - 1 := (if dimA > dimB then dimA else dimB)])
      else ok newShape)"

definition BroadcastShape :: "int list \<Rightarrow> int list \<Rightarrow> nat \<Rightarrow> int list res" where
  "BroadcastShape shapeA shapeB skipAxes =
     (let rankA = length shapeA; rankB = length shapeB;
          rankOutput = (if rankA \<ge> rankB then rankA else rankB)
      in if \<not> (rankA \<ge> skipAxes \<and> rankB \<ge> skipAxes) then undef
         else foldR (broadcast_step shapeA shapeB skipAxes) [0..<rankOutput] (replicate rankOutput 0))"

text \<open>The four rank cases of the source are tried in turn; a pair of ranks that none of them
  covers (a rank-0 operand, or rank 1 against rank 3) leaves the output shape empty.\<close>

definition CaculateMatMulShape :: "int list \<Rightarrow> int list \<Rightarrow> int list res" where
  "CaculateMatMulShape shapeA shapeB =
     (let rankA = length shapeA; rankB = length shapeB in
      bindR (if rankA = 1 \<and> rankB = 1 then
               if shapeA \<noteq> shapeB
               then validation_error ''The two 1D inputs of Matmul should have the same shape.''
               else ok [1]
             else ok []) (\<lambda>outputShape.
      bindR (if rankA = 2 \<and> rankB = 1 then
               if shapeA ! 1 \<noteq> shapeB ! 0
               then validation_error ''The input shapes are incompatible.''
               else ok [shapeA ! 0, 1]
             else ok outputShape) (\<lambda>outputShape.
      bindR (if rankA = 1 \<and> rankB = 2 then
               if shapeA ! 0 \<noteq> shapeB ! 0
               then validation_error ''The input shapes are incompatible.''
               else ok [1, shapeB ! 1]
             else ok outputShape) (\<lambda>outputShape.
      if rankA \<ge> 2 \<and> rankB \<ge> 2 then
        if shapeA ! (rankA - 1) \<noteq> shapeB ! (rankB - 2)
        then validation_error ''The input shapes are incompatible.''
        else bindR (BroadcastShape shapeA shapeB 2) (\<lambda>outputShape.
               ok (outputShape[length outputShape - 1 := shapeB ! (rankB - 1),
                               length outputShape - 2 := shapeA ! (rankA - 2)]))
      else ok outputShape))))"

definition CaculateElementWiseBinaryShape :: "int list \<Rightarrow> int list \<Rightarrow> int list res" where
  "CaculateElementWiseBinaryShape shapeA shapeB = BroadcastShape shapeA shapeB 0"

definition Binary_infer :: "binary_op_type \<Rightarrow> operand list \<Rightarrow> operand list \<Rightarrow> operand list res" where
  "Binary_infer opType ins outs =
     bindR (base_validate ins outs) (\<lambda>outs.
     bindR (vec_at ins 0) (\<lambda>a. bindR (vec_at ins 1) (\<lambda>b.
       if opd_type a \<noteq> opd_type b then validation_error ''Argument types are inconsistent.''
       else bindR (if opType = kMatMul then CaculateMatMulShape (opd_shape a) (opd_shape b)
                   else CaculateElementWiseBinaryShape (opd_shape a) (opd_shape b))
              (SetShape outs 0))))"

section \<open>Gemm\<close>

record gemm_options =
  gmo_c :: "nat option"
  gmo_alpha :: f32
  gmo_beta :: f32
  gmo_aTranspose :: bool
  gmo_bTranspose :: bool

record gemm =
  gm_alpha :: f32
  gm_beta :: f32
  gm_aTranspose :: bool
  gm_bTranspose :: bool

text \<open>The constructor: the members and the input list.\<close>

definition Gemm_new :: "nat \<Rightarrow> nat \<Rightarrow> gemm_options option \<Rightarrow> gemm \<times> nat list" where
  "Gemm_new a b options =
     (\<lparr>gm_alpha = (case options of None \<Rightarrow> Finite 1 0 | Some opt \<Rightarrow> gmo_alpha opt),
       gm_beta = (case options of None \<Rightarrow> Finite 1 0 | Some opt \<Rightarrow> gmo_beta opt),
       gm_aTranspose = (case options of None \<Rightarrow> False | Some opt \<Rightarrow> gmo_aTranspose opt),
       gm_bTranspose = (case options of None \<Rightarrow> False | Some opt \<Rightarrow> gmo_bTranspose opt)\<rparr>,
      [a, b] @ (case options of None \<Rightarrow> []
                | Some opt \<Rightarrow> (case gmo_c opt of None \<Rightarrow> [] | Some c \<Rightarrow> [c])))"

text \<open>The loop over the dimensions of \<open>c\<close> and of the output, both from the last one:
  here over the two reversed shapes, stopping at the shorter.\<close>

fun gemm_c_fits :: "int list \<Rightarrow> int list \<Rightarrow> bool" where
  "gemm_c_fits (c # cs) (d # ds) = ((c = d \<or> c = 1) \<and> gemm_c_fits cs ds)"
| "gemm_c_fits _ _ = True"

definition gemm_c_error :: "'a res" where
  "gemm_c_error = validation_error
     ''The specified third input is either a scalar, or of the shape that is unidirectionally broadcastable.''"

definition Gemm_CalculateShape :: "gemm \<Rightarrow> operand list \<Rightarrow> int list res" where
  "Gemm_CalculateShape op ins =
     bindR (shape_of ins 0) (\<lambda>sa. bindR (shape_of ins 1) (\<lambda>sb.
     bindR (vec_at sa 0) (\<lambda>a0. bindR (vec_at sa 1) (\<lambda>a1.
     bindR (vec_at sb 0) (\<lambda>b0. bindR (vec_at sb 1) (\<lambda>b1.
       if (if gm_aTranspose op then a0 else a1) \<noteq> (if gm_bTranspose op then b1 else b0)
       then validation_error
         ''Matrix multiplication failed, K should be same in the two input tensors.''
       else
         let outputShape = [if gm_aTranspose op then a1 else a0, if gm_bTranspose op then b0 else b1]
         in if length ins = 3 then
              bindR (shape_of ins 2) (\<lambda>cShape.
                if length cShape > 2 then gemm_c_error
                else if \<not> gemm_c_fits (rev cShape) (rev outputShape) then gemm_c_error
                else ok outputShape)
            else ok outputShape))))))"

definition Gemm_infer :: "gemm \<Rightarrow> operand list \<Rightarrow> operand list \<Rightarrow> operand list res" where
  "Gemm_infer op ins outs =
     bindR (base_validate ins outs) (\<lambda>outs.
     bindR (rank_of ins 0) (\<lambda>ra.
       if ra \<noteq> 2 then validation_error ''The first input is not 2D.''
       else bindR (rank_of ins 1) (\<lambda>rb.
         if rb \<noteq> 2 then validation_error ''The second input is not 2D.''
         else bindR (Gemm_CalculateShape op ins) (SetShape outs 0))))"

section \<open>Broadcasting against a reference\<close>

text \<open>The rule for two sizes and the walk over two reversed shapes, as the WebNN and NumPy
  documents state them.\<close>

definition broadcast_dim :: "int \<Rightarrow> int \<Rightarrow> int option" where
  "broadcast_dim a b = (if a = b \<or> b = 1 then Some a else if a = 1 then Some b else None)"

fun broadcast_ref :: "int list \<Rightarrow> int list \<Rightarrow> int list option" where
  "broadcast_ref [] ys = Some ys"
| "broadcast_ref xs [] = Some xs"
| "broadcast_ref (x # xs) (y # ys) =
     (case (broadcast_dim x y, broadcast_ref xs ys) of
        (Some d, Some ds) \<Rightarrow> Some (d # ds)
      | _ \<Rightarrow> None)"

definition broadcast_result :: "int list option \<Rightarrow> int list \<Rightarrow> int list res" where
  "broadcast_result r tl1 = (case r of
     None \<Rightarrow> validation_error ''Shapes are incompatible, broadcasting failed.''
   | Some s \<Rightarrow> ok (rev s @ tl1))"

definition positive_shape :: "int list \<Rightarrow> bool" where
  "positive_shape s \<longleftrightarrow> (\<forall>d \<in> set s. 1 \<le> d)"

text \<open>Size at distance \<open>i\<close> from the end, 1 beyond the rank.\<close>

definition dim_at :: "int list \<Rightarrow> nat \<Rightarrow> int" where
  "dim_at s i = (if i < length s then s ! (length s - i - 1) else 1)"

definition compatible :: "int \<Rightarrow> int \<Rightarrow> bool" where
  "compatible a b \<longleftrightarrow> a = b \<or> a = 1 \<or> b = 1"

lemma dim_at_rev_Cons [simp]:
  "dim_at (rev (x # xs)) 0 = x" "dim_at (rev (x # xs)) (Suc i) = dim_at (rev xs) i"
  by (auto simp: dim_at_def nth_append)

lemma dim_at_Nil [simp]: "dim_at [] i = 1"
  by (simp add: dim_at_def)

lemma dim_at_append: "dim_at (s @ t) (length t + i) = dim_at s i"
  by (auto simp: dim_at_def nth_append)

lemma dim_at_rev: "i < length xs \<Longrightarrow> dim_at (rev xs) i = xs ! i"
  by (simp add: dim_at_def rev_nth)

lemma map_dim_at_rev: "positive_shape xs \<Longrightarrow> map (\<lambda>i. max 1 (dim_at (rev xs) i)) [0..<length xs] = xs"
  by (intro nth_equalityI) (simp_all add: dim_at_rev positive_shape_def max_def)

lemma dim_at_pos: "positive_shape s \<Longrightarrow> 1 \<le> dim_at s i"
  by (simp add: dim_at_def positive_shape_def)

lemma broadcast_ref_pointwise:
  assumes "positive_shape xs" "positive_shape ys"
  shows "broadcast_ref xs ys =
    (if \<forall>i < max (length xs) (length ys). compatible (dim_at (rev xs) i) (dim_at (rev ys) i)
     then Some (map (\<lambda>i. max (dim_at (rev xs) i) (dim_at (rev ys) i)) [0..<max (length xs) (length ys)])
     else None)"
  using assms
proof (induction xs ys rule: broadcast_ref.induct)
  case (1 ys)
  then show ?case using map_dim_at_rev [of ys] by (simp add: compatible_def)
next
  case (2 x xs)
  then show ?case using map_dim_at_rev [of "x # xs"] by (simp add: compatible_def max.commute)
next
  case (3 x xs y ys)
  let ?m = "max (length xs) (length ys)"
  have m: "max (length (x # xs)) (length (y # ys)) = Suc ?m" by simp
  have upt: "[0..<Suc ?m] = 0 # map Suc [0..<?m]" by (simp add: upt_conv_Cons map_Suc_upt del: upt_Suc)
  have all: "(\<forall>i < Suc ?m. compatible (dim_at (rev (x # xs)) i) (dim_at (rev (y # ys)) i)) \<longleftrightarrow>
      compatible x y \<and> (\<forall>i < ?m. compatible (dim_at (rev xs) i) (dim_at (rev ys) i))"
    by (auto simp only: dim_at_rev_Cons All_less_Suc2)
  have "broadcast_dim x y = (if compatible x y then Some (max x y) else None)"
    using 3(2,3) by (auto simp: broadcast_dim_def compatible_def positive_shape_def)
  with 3 show ?case
    unfolding m all upt list.map map_map comp_def dim_at_rev_Cons broadcast_ref.simps
    by (auto simp: positive_shape_def)
qed

lemma broadcast_step_dims:
  "broadcast_step A B skip i s =
     (if skip \<le> i then
        if compatible (dim_at A i) (dim_at B i)
        then ok (s[length s - i - 1 := max (dim_at A i) (dim_at B i)])
        else validation_error ''Shapes are incompatible, broadcasting failed.''
      else ok s)"
  by (auto simp: broadcast_step_def dim_at_def compatible_def Let_def max_def)

text \<open>The loop run up to \<open>k\<close> has written the last \<open>k\<close> sizes.\<close>

lemma broadcast_loop:
  assumes "k \<le> length s"
  shows "foldR (broadcast_step A B skip) [0..<k] s =
    (if \<forall>i < k. skip \<le> i \<longrightarrow> compatible (dim_at A i) (dim_at B i)
     then ok (map (\<lambda>j. let i = length s - j - 1 in
                if i < k \<and> skip \<le> i then max (dim_at A i) (dim_at B i) else s ! j) [0..<length s])
     else validation_error ''Shapes are incompatible, broadcasting failed.'')"
  using assms
proof (induction k)
  case 0
  then show ?case by (simp add: map_nth)
next
  case (Suc k)
  let ?f = "\<lambda>k j. let i = length s - j - 1 in
      if i < k \<and> skip \<le> i then max (dim_at A i) (dim_at B i) else s ! j"
  have upd: "(map (?f k) [0..<length s])[length s - k - 1 := max (dim_at A k) (dim_at B k)] =
      map (?f (Suc k)) [0..<length s]" if "skip \<le> k"
    using Suc.prems that by (intro nth_equalityI) (auto simp: nth_list_update Let_def less_Suc_eq)
  have same: "map (?f k) [0..<length s] = map (?f (Suc k)) [0..<length s]" if "\<not> skip \<le> k"
    using that by (auto simp: Let_def less_Suc_eq)
  have all: "(\<forall>i < Suc k. skip \<le> i \<longrightarrow> compatible (dim_at A i) (dim_at B i)) \<longleftrightarrow>
      (\<forall>i < k. skip \<le> i \<longrightarrow> compatible (dim_at A i) (dim_at B i)) \<and>
      (skip \<le> k \<longrightarrow> compatible (dim_at A k) (dim_at B k))"
    by (auto simp: less_Suc_eq)
  show ?case
    using Suc upd same unfolding all by (simp add: foldR_append broadcast_step_dims)
qed

lemma broadcast_shape_of_dims:
  assumes "\<And>i. f (skip + i) = g i"
  shows "map (\<lambda>j. let i = m + skip - j - 1 in if i < m + skip \<and> skip \<le> i then f i else 0) [0..<m + skip] =
    rev (map g [0..<m]) @ replicate skip (0 :: int)" (is "?l = ?r")
proof (rule nth_equalityI)
  fix j assume "j < length ?l"
  then have j: "j < m + skip" by simp
  show "?l ! j = ?r ! j"
  proof (cases "j < m")
    case True
    then have i: "m + skip - j - 1 = skip + (m - j - 1)" by arith
    moreover have "skip \<le> m + skip - j - 1" "m + skip - j - 1 < m + skip" using True by arith+
    ultimately have "?l ! j = f (skip + (m - j - 1))"
      using j by (simp add: Let_def)
    also have "\<dots> = g (m - j - 1)" by (rule assms)
    also have "\<dots> = ?r ! j" using True by (simp add: nth_append rev_nth)
    finally show ?thesis .
  next
    case False
    with j have "\<not> skip \<le> m + skip - j - 1" by arith
    with False j show ?thesis by (simp add: nth_append Let_def)
  qed
qed simp

lemma BroadcastShape_ref:
  assumes pos: "positive_shape (rev batchA)" "positive_shape (rev batchB)"
    and len: "length ta = skip" "length tb = skip"
  shows "BroadcastShape (batchA @ ta) (batchB @ tb) skip =
    broadcast_result (broadcast_ref (rev batchA) (rev batchB)) (replicate skip 0)"
proof -
  define A where "A = batchA @ ta"
  define B where "B = batchB @ tb"
  define m where "m = max (length batchA) (length batchB)"
  define f where "f i = max (dim_at A i) (dim_at B i)" for i
  have dim: "dim_at A (skip + i) = dim_at batchA i" "dim_at B (skip + i) = dim_at batchB i" for i
    using len dim_at_append [of batchA ta i] dim_at_append [of batchB tb i]
    by (simp_all add: A_def B_def)
  have ok: "(\<forall>i < m + skip. skip \<le> i \<longrightarrow> compatible (dim_at A i) (dim_at B i)) \<longleftrightarrow>
      (\<forall>i < m. compatible (dim_at batchA i) (dim_at batchB i))"
    by (metis dim le_iff_add nat_add_left_cancel_less add.commute)
  have zero: "map (\<lambda>j. let i = m + skip - j - 1 in
        if i < m + skip \<and> skip \<le> i then f i else replicate (m + skip) 0 ! j) [0..<m + skip] =
      map (\<lambda>j. let i = m + skip - j - 1 in if i < m + skip \<and> skip \<le> i then f i else 0) [0..<m + skip]"
    by (rule map_cong) (simp_all add: Let_def)
  have "BroadcastShape A B skip =
      foldR (broadcast_step A B skip) [0..<m + skip] (replicate (m + skip) 0)"
    using len by (auto simp: BroadcastShape_def Let_def A_def B_def m_def max_def)
  also have "\<dots> = (if \<forall>i < m. compatible (dim_at batchA i) (dim_at batchB i)
      then ok (rev (map (\<lambda>i. max (dim_at batchA i) (dim_at batchB i)) [0..<m]) @ replicate skip 0)
      else validation_error ''Shapes are incompatible, broadcasting failed.'')"
    unfolding broadcast_loop [of "m + skip" "replicate (m + skip) 0", simplified] ok f_def [symmetric] length_replicate zero
    by (subst broadcast_shape_of_dims) (simp_all add: f_def dim)
  finally show ?thesis
    using broadcast_ref_pointwise [OF pos] by (simp add: broadcast_result_def A_def B_def m_def)
qed

text \<open>
  C9. Broadcasting two shapes of positive sizes follows the reference rule: the shapes are
  aligned at their last dimensions, equal sizes stay, a size 1 or a missing dimension takes the
  other size, and any other pair is a validation error.
\<close>

theorem BroadcastShape_is_reference:
  assumes "positive_shape shapeA" "positive_shape shapeB"
  shows "BroadcastShape shapeA shapeB 0 =
    (case broadcast_ref (rev shapeA) (rev shapeB) of
       None \<Rightarrow> validation_error ''Shapes are incompatible, broadcasting failed.''
     | Some s \<Rightarrow> ok (rev s))"
  using BroadcastShape_ref [of shapeA shapeB "[]" 0 "[]"] assms
  by (simp add: positive_shape_def broadcast_result_def split: option.split)

theorem BroadcastShape_is_reference_witness:
  "BroadcastShape [2, 1, 3] [4, 1] 0 = ok [2, 4, 3]"
  using BroadcastShape_is_reference [of "[2, 1, 3]" "[4, 1]"]
  by (simp add: positive_shape_def broadcast_dim_def)

text \<open>
  C10. The matrix product of two stacks of matrices with positive batch sizes has the broadcast
  batch sizes followed by the rows of the first and the columns of the second; it is rejected
  when the inner sizes differ or the batches do not broadcast.
\<close>

theorem CaculateMatMulShape_stack:
  assumes "positive_shape batchA" "positive_shape batchB"
  shows "CaculateMatMulShape (batchA @ [m, k]) (batchB @ [k', n]) =
    (if k \<noteq> k' then validation_error ''The input shapes are incompatible.''
     else case broadcast_ref (rev batchA) (rev batchB) of
       None \<Rightarrow> validation_error ''Shapes are incompatible, broadcasting failed.''
     | Some s \<Rightarrow> ok (rev s @ [m, n]))"
proof -
  have "BroadcastShape (batchA @ [m, k]) (batchB @ [k', n]) 2 =
      broadcast_result (broadcast_ref (rev batchA) (rev batchB)) [0, 0]"
    using BroadcastShape_ref [of batchA batchB "[m, k]" 2 "[k', n]"] assms
    by (simp add: positive_shape_def numeral_2_eq_2)
  then show ?thesis
    by (cases "k = k'"; cases "broadcast_ref (rev batchA) (rev batchB)")
      (simp_all add: CaculateMatMulShape_def Let_def nth_append broadcast_result_def list_update_append)
qed

theorem CaculateMatMulShape_stack_witness:
  "CaculateMatMulShape [5, 1, 2, 3] [4, 3, 7] = ok [5, 4, 2, 7]"
  using CaculateMatMulShape_stack [of "[5, 1]" "[4]" 2 3 3 7]
  by (simp add: positive_shape_def broadcast_dim_def)

section \<open>Gemm\<close>

lemma gemm_c_fits_ref:
  "(length c \<le> 2 \<and> gemm_c_fits c [n, m]) \<longleftrightarrow> broadcast_ref c [n, m] = Some [n, m]"
proof (cases c)
  case (Cons a as)
  have dim: "broadcast_dim a b = Some b \<longleftrightarrow> a = b \<or> a = 1" for a b
    by (auto simp: broadcast_dim_def)
  show ?thesis
  proof (cases as)
    case Nil
    with Cons show ?thesis by (auto simp: dim [symmetric] split: option.split)
  next
    case as: (Cons b bs)
    show ?thesis
    proof (cases bs)
      case Nil
      with Cons as show ?thesis by (auto simp: dim [symmetric] split: option.split)
    qed (simp add: Cons as split: option.split)
  qed
qed simp

text \<open>
  A general matrix product of two matrices is the shape (M, N) of the product of the
  possibly transposed inputs. It is rejected when the inner sizes differ, or when the third input
  does not broadcast to (M, N) in one direction.
\<close>

theorem Gemm_infer_shape:
  assumes "\<not> opd_error a" "\<not> opd_error b" "\<forall>c \<in> set cs. \<not> opd_error c" "length cs \<le> 1"
    and "opd_shape a = (if gm_aTranspose op then [k, m] else [m, k])"
    and "opd_shape b = (if gm_bTranspose op then [n, k'] else [k', n])"
  shows "Gemm_infer op (a # b # cs) [y] =
    (if k \<noteq> k'
     then validation_error ''Matrix multiplication failed, K should be same in the two input tensors.''
     else if \<forall>c \<in> set cs. broadcast_ref (rev (opd_shape c)) [n, m] = Some [n, m]
     then ok [y\<lparr>opd_type := opd_type a, opd_shape := [m, n]\<rparr>]
     else gemm_c_error)"
proof -
  have len: "length (opd_shape a) = 2" "length (opd_shape b) = 2" by (simp_all add: assms(5,6))
  have at: "shape_of (a # b # cs) 1 = ok (opd_shape b)" "rank_of (a # b # cs) 1 = ok 2"
    by (simp_all add: shape_of_def rank_of_def vec_at_def len)
  have shape: "Gemm_CalculateShape op (a # b # cs) =
    (if k \<noteq> k'
     then validation_error ''Matrix multiplication failed, K should be same in the two input tensors.''
     else if \<forall>c \<in> set cs. length (opd_shape c) \<le> 2 \<and> gemm_c_fits (rev (opd_shape c)) [n, m]
     then ok [m, n] else gemm_c_error)"
  proof (cases cs)
    case Nil
    then show ?thesis
      by (simp add: Gemm_CalculateShape_def at [unfolded Nil] assms(5,6) vec_at_def Let_def)
  next
    case (Cons c cs')
    with assms(4) have c: "cs = [c]" by simp
    have "shape_of [a, b, c] 2 = ok (opd_shape c)" by (simp add: shape_of_def vec_at_def)
    then show ?thesis
      using at by (simp add: c Gemm_CalculateShape_def assms(5,6) vec_at_def Let_def)
  qed
  have "Gemm_infer op (a # b # cs) [y] =
      bindR (Gemm_CalculateShape op (a # b # cs)) (SetShape [y\<lparr>opd_type := opd_type a\<rparr>] 0)"
    using assms(1-3) len at by (simp add: Gemm_infer_def)
  also have "\<dots> = (if k \<noteq> k'
     then validation_error ''Matrix multiplication failed, K should be same in the two input tensors.''
     else if \<forall>c \<in> set cs. broadcast_ref (rev (opd_shape c)) [n, m] = Some [n, m]
     then ok [y\<lparr>opd_type := opd_type a, opd_shape := [m, n]\<rparr>]
     else gemm_c_error)"
    unfolding shape gemm_c_fits_ref [symmetric] length_rev
    by (simp add: gemm_c_error_def)
  finally show ?thesis .
qed


theorem Gemm_infer_shape_witness:
  "Gemm_infer \<lparr>gm_alpha = Finite 1 0, gm_beta = Finite 1 0, gm_aTranspose = True, gm_bTranspose = False\<rparr>
     [tensor [3, 2], tensor [3, 5], tensor [5]] [tensor []] = ok [tensor [2, 5]]"
  using Gemm_infer_shape [of "tensor [3, 2]" "tensor [3, 5]" "[tensor [5]]"
      "\<lparr>gm_alpha = Finite 1 0, gm_beta = Finite 1 0, gm_aTranspose = True, gm_bTranspose = False\<rparr>"
      3 2 5 3 "tensor []"]
  by (simp add: broadcast_dim_def)

end
