(* ===== verification/Ops_Conv.thy ===== *)
theory Ops_Conv
  imports Operands
begin

text \<open>
  Sliding-window operators: the implicit padding of \<open>webnn_native/Utils.cpp\<close> and the
  constructors and shape inference of \<open>ops/Conv2d.cpp\<close> and \<open>ops/Pool2d.cpp\<close>. Every
  signed operation is checked, so a result of these functions is exact.
\<close>

section \<open>Implicit padding\<close>

definition ComputeImplicitPaddingForAutoPad ::
  "auto_pad \<Rightarrow> int \<Rightarrow> int \<Rightarrow> int \<Rightarrow> int \<Rightarrow> (int \<times> int) res" where
  "ComputeImplicitPaddingForAutoPad autoPad dilation inputSize filterSize stride =
     bindR (add32 inputSize stride) (\<lambda>t. bindR (sub32 t 1) (\<lambda>t. bindR (div32 t stride) (\<lambda>outSize.
     bindR (sub32 filterSize 1) (\<lambda>t. bindR (mul32 t dilation) (\<lambda>t. bindR (add32 t 1) (\<lambda>dilatedFilter.
     bindR (sub32 outSize 1) (\<lambda>t. bindR (mul32 t stride) (\<lambda>t. bindR (add32 t dilatedFilter) (\<lambda>neededInput.
     bindR (if neededInput > inputSize then sub32 neededInput inputSize else ok 0) (\<lambda>totalPadding.
       case autoPad of
         SameUpper \<Rightarrow>
           bindR (div32 totalPadding 2) (\<lambda>b. bindR (add32 totalPadding 1) (\<lambda>t.
           bindR (div32 t 2) (\<lambda>e. ok (b, e))))
       | SameLower \<Rightarrow>
           bindR (add32 totalPadding 1) (\<lambda>t. bindR (div32 t 2) (\<lambda>b.
           bindR (div32 totalPadding 2) (\<lambda>e. ok (b, e))))
       | _ \<Rightarrow> undef))))))))))"

section \<open>Conv2d\<close>

record conv2d_options =
  cvo_padding :: "int list option"
  cvo_strides :: "int list option"
  cvo_dilations :: "int list option"
  cvo_outputPadding :: "int list option"
  cvo_outputSizes :: "int list option"
  cvo_autoPad :: auto_pad
  cvo_transpose :: bool
  cvo_groups :: int
  cvo_inputLayout :: input_operand_layout
  cvo_filterLayout :: filter_operand_layout
  cvo_bias :: "nat option"
  cvo_activation :: "fusion_type option"

text \<open>The members of \<open>class Conv2d\<close>. The copy \<open>mOptions\<close> points into the vectors, so
  each array appears once; the counts are the lengths.\<close>

record conv2d =
  cv_padding :: "int list"
  cv_stride :: "int list"
  cv_dilations :: "int list"
  cv_outputPadding :: "int list"
  cv_outputSizes :: "int list option"
  cv_autoPad :: auto_pad
  cv_transpose :: bool
  cv_groups :: int
  cv_inputLayout :: input_operand_layout
  cv_filterLayout :: filter_operand_layout
  cv_bias :: "nat option"
  cv_activation :: "fusion_type option"

text \<open>\<open>options == nullptr || options->f == nullptr ? default : f\<close>.\<close>

definition opt_array :: "'o option \<Rightarrow> ('o \<Rightarrow> 'a list option) \<Rightarrow> 'a list \<Rightarrow> 'a list" where
  "opt_array options f dflt =
     (case options of None \<Rightarrow> dflt | Some opt \<Rightarrow> (case f opt of None \<Rightarrow> dflt | Some xs \<Rightarrow> xs))"

definition opt_field :: "'o option \<Rightarrow> ('o \<Rightarrow> 'a) \<Rightarrow> 'a \<Rightarrow> 'a" where
  "opt_field options f dflt = (case options of None \<Rightarrow> dflt | Some opt \<Rightarrow> f opt)"

text \<open>An optional operand the constructor appends to \<open>mInputs\<close>.\<close>

definition opt_input :: "'o option \<Rightarrow> ('o \<Rightarrow> nat option) \<Rightarrow> nat list" where
  "opt_input options f = (case opt_field options f None of None \<Rightarrow> [] | Some i \<Rightarrow> [i])"

definition Conv2d_new :: "nat \<Rightarrow> nat \<Rightarrow> conv2d_options option \<Rightarrow> conv2d \<times> nat list" where
  "Conv2d_new input filt options =
     (\<lparr>cv_padding = opt_array options cvo_padding [0, 0, 0, 0],
       cv_stride = opt_array options cvo_strides [1, 1],
       cv_dilations = opt_array options cvo_dilations [1, 1],
       cv_outputPadding = opt_array options cvo_outputPadding [0, 0],
       cv_outputSizes = opt_field options cvo_outputSizes None,
       cv_autoPad = opt_field options cvo_autoPad AutoPadExplicit,
       cv_transpose = opt_field options cvo_transpose False,
       cv_groups = opt_field options cvo_groups 1,
       cv_inputLayout = opt_field options cvo_inputLayout Nchw,
       cv_filterLayout = opt_field options cvo_filterLayout Oihw,
       cv_bias = opt_field options cvo_bias None,
       cv_activation = opt_field options cvo_activation None\<rparr>,
      [input, filt] @ opt_input options cvo_bias)"

text \<open>Position of (height, width, output channels, input depth) in the filter's shape.\<close>

definition filter_dims ::
  "filter_operand_layout \<Rightarrow> int list \<Rightarrow> (int \<times> int \<times> int \<times> int) res" where
  "filter_dims layout s =
     (let pick = (\<lambda>h w c d. bindR (vec_at s h) (\<lambda>fh. bindR (vec_at s w) (\<lambda>fw.
                    bindR (vec_at s c) (\<lambda>fc. bindR (vec_at s d) (\<lambda>fd. ok (fh, fw, fc, fd))))))
      in case layout of
           Hwio \<Rightarrow> pick 0 1 3 2
         | Ohwi \<Rightarrow> pick 1 2 0 3
         | Ihwo \<Rightarrow> pick 1 2 3 0
         | Oihw \<Rightarrow> pick 2 3 0 1
         | FilterLayoutOther _ \<Rightarrow> validation_error ''The filter layout is unsupported'')"

text \<open>The padding in one spatial dimension: the explicit one, or the implicit one that
  overwrites it.\<close>

definition axis_padding ::
  "auto_pad \<Rightarrow> int \<Rightarrow> int \<Rightarrow> int \<Rightarrow> int \<Rightarrow> int \<Rightarrow> int \<Rightarrow> (int \<times> int) res" where
  "axis_padding autoPad dilation inputSize filterSize stride pBegin pEnd =
     (if autoPad \<noteq> AutoPadExplicit
      then ComputeImplicitPaddingForAutoPad autoPad dilation inputSize filterSize stride
      else ok (pBegin, pEnd))"

text \<open>\<open>dilation * (filter - 1) + 1\<close>.\<close>

definition dilated :: "int \<Rightarrow> int \<Rightarrow> int res" where
  "dilated dilation filterSize =
     bindR (sub32 filterSize 1) (\<lambda>t. bindR (mul32 dilation t) (\<lambda>t. add32 t 1))"

text \<open>\<open>1 + (input - window + begin + end) / stride\<close>.\<close>

definition window_count :: "int \<Rightarrow> int \<Rightarrow> int \<Rightarrow> int \<Rightarrow> int \<Rightarrow> int res" where
  "window_count inputSize window pBegin pEnd stride =
     bindR (sub32 inputSize window) (\<lambda>t. bindR (add32 t pBegin) (\<lambda>t. bindR (add32 t pEnd) (\<lambda>t.
     bindR (div32 t stride) (\<lambda>t. add32 1 t))))"

text \<open>\<open>(input - 1) * stride + window - begin - end + outputPadding\<close>.\<close>

definition transposed_size :: "int \<Rightarrow> int \<Rightarrow> int \<Rightarrow> int \<Rightarrow> int \<Rightarrow> int \<Rightarrow> int res" where
  "transposed_size inputSize window pBegin pEnd stride outPad =
     bindR (sub32 inputSize 1) (\<lambda>t. bindR (mul32 t stride) (\<lambda>t. bindR (add32 t window) (\<lambda>t.
     bindR (sub32 t pBegin) (\<lambda>t. bindR (sub32 t pEnd) (\<lambda>t. add32 t outPad)))))"

definition conv2d_output_size ::
  "conv2d \<Rightarrow> nat \<Rightarrow> int \<Rightarrow> int \<Rightarrow> int \<Rightarrow> int \<Rightarrow> int res" where
  "conv2d_output_size op axis inputSize dilatedFilter pBegin pEnd =
     bindR (vec_at (cv_stride op) (int axis)) (\<lambda>stride.
       if cv_transpose op then
         (case cv_outputSizes op of
            None \<Rightarrow> bindR (vec_at (cv_outputPadding op) (int axis))
                     (transposed_size inputSize dilatedFilter pBegin pEnd stride)
          | Some sizes \<Rightarrow> vec_at sizes (int axis))
       else window_count inputSize dilatedFilter pBegin pEnd stride)"

definition Conv2d_CalculateShape :: "conv2d \<Rightarrow> int list \<Rightarrow> int list \<Rightarrow> int list res" where
  "Conv2d_CalculateShape op inputShape filterShape =
     (let nchw = (cv_inputLayout op = Nchw) in
      bindR (vec_at inputShape (if nchw then 2 else 1)) (\<lambda>inputHeight.
      bindR (vec_at inputShape (if nchw then 3 else 2)) (\<lambda>inputWidth.
      bindR (vec_at inputShape (if nchw then 1 else 3)) (\<lambda>inputChannels.
      bindR (filter_dims (cv_filterLayout op) filterShape)
        (\<lambda>(filterHeight, filterWidth, outputChannels, filterDepthIn).
      bindR (div32 inputChannels (cv_groups op)) (\<lambda>groupChannels.
        if filterDepthIn \<noteq> groupChannels
        then validation_error ''The groups is invalid, it must evenly divides the input channels.''
        else
      bindR (vec_at (cv_padding op) 0) (\<lambda>pbh. bindR (vec_at (cv_padding op) 1) (\<lambda>peh.
      bindR (vec_at (cv_padding op) 2) (\<lambda>pbw. bindR (vec_at (cv_padding op) 3) (\<lambda>pew.
      bindR (vec_at (cv_dilations op) 0) (\<lambda>dh. bindR (vec_at (cv_dilations op) 1) (\<lambda>dw.
      bindR (vec_at (cv_stride op) 0) (\<lambda>sh. bindR (vec_at (cv_stride op) 1) (\<lambda>sw.
      bindR (axis_padding (cv_autoPad op) dh inputHeight filterHeight sh pbh peh) (\<lambda>(pbh, peh).
      bindR (axis_padding (cv_autoPad op) dw inputWidth filterWidth sw pbw pew) (\<lambda>(pbw, pew).
      bindR (dilated dh filterHeight) (\<lambda>dilatedFilterHeight.
      bindR (dilated dw filterWidth) (\<lambda>dilatedFilterWidth.
      bindR (conv2d_output_size op 0 inputHeight dilatedFilterHeight pbh peh) (\<lambda>outputHeight.
      bindR (conv2d_output_size op 1 inputWidth dilatedFilterWidth pbw pew) (\<lambda>outputWidth.
      bindR (vec_at inputShape 0) (\<lambda>batches.
        ok (if nchw then [batches, outputChannels, outputHeight, outputWidth]
            else [batches, outputHeight, outputWidth, outputChannels]))))))))))))))))))))))"

definition Conv2d_infer :: "conv2d \<Rightarrow> operand list \<Rightarrow> operand list \<Rightarrow> operand list res" where
  "Conv2d_infer op ins outs =
     bindR (base_validate ins outs) (\<lambda>outs.
     bindR (vec_at ins 0) (\<lambda>input. bindR (vec_at ins 1) (\<lambda>filt.
       if opd_type input \<noteq> opd_type filt
       then validation_error ''Argument types are inconsistent.''
       else if length (opd_shape input) \<noteq> 4
       then validation_error ''Argument input is not a 4D tensor.''
       else if length (opd_shape filt) \<noteq> 4
       then validation_error ''Argument filter is not a 4D tensor.''
       else bindR (if cv_bias op \<noteq> None then rank_of ins 2 else ok 1) (\<lambda>biasRank.
         if biasRank \<noteq> 1 then validation_error ''Argument bias is not a 1D tensor.''
         else if length (cv_padding op) \<noteq> 4 then validation_error ''PaddingCount is incorrect.''
         else if length (cv_stride op) \<noteq> 2 then validation_error ''stridesCount is incorrect.''
         else if length (cv_dilations op) \<noteq> 2 then validation_error ''dilationsCount is incorrect.''
         else bindR (Conv2d_CalculateShape op (opd_shape input) (opd_shape filt))
                (SetShape outs 0)))))"

section \<open>Pool2d\<close>

datatype pool2d_type = kAveragePool2d | kL2Pool2d | kMaxPool2d

record pool2d_options =
  plo_windowDimensions :: "int list option"
  plo_padding :: "int list option"
  plo_strides :: "int list option"
  plo_dilations :: "int list option"
  plo_autoPad :: auto_pad
  plo_layout :: input_operand_layout

record pool2d =
  pl_windowDimensions :: "int list option"
  pl_padding :: "int list"
  pl_stride :: "int list"
  pl_dilations :: "int list"
  pl_autoPad :: auto_pad
  pl_layout :: input_operand_layout
  pl_type :: pool2d_type

definition Pool2d_new :: "pool2d_type \<Rightarrow> pool2d_options option \<Rightarrow> pool2d" where
  "Pool2d_new opType options =
     \<lparr>pl_windowDimensions = opt_field options plo_windowDimensions None,
      pl_padding = opt_array options plo_padding [0, 0, 0, 0],
      pl_stride = opt_array options plo_strides [1, 1],
      pl_dilations = opt_array options plo_dilations [1, 1],
      pl_autoPad = opt_field options plo_autoPad AutoPadExplicit,
      pl_layout = opt_field options plo_layout Nchw,
      pl_type = opType\<rparr>"

definition pool2d_window :: "pool2d \<Rightarrow> nat \<Rightarrow> int \<Rightarrow> int res" where
  "pool2d_window op axis inputSize =
     (case pl_windowDimensions op of None \<Rightarrow> ok inputSize | Some w \<Rightarrow> vec_at w (int axis))"

definition Pool2d_CalculateShape :: "pool2d \<Rightarrow> int list \<Rightarrow> int list res" where
  "Pool2d_CalculateShape op inputShape =
     (let nchw = (pl_layout op = Nchw) in
      bindR (vec_at inputShape (if nchw then 2 else 1)) (\<lambda>inputHeight.
      bindR (vec_at inputShape (if nchw then 3 else 2)) (\<lambda>inputWidth.
      bindR (pool2d_window op 0 inputHeight) (\<lambda>windowHeight.
      bindR (pool2d_window op 1 inputWidth) (\<lambda>windowWidth.
      bindR (vec_at (pl_padding op) 0) (\<lambda>pbh. bindR (vec_at (pl_padding op) 1) (\<lambda>peh.
      bindR (vec_at (pl_padding op) 2) (\<lambda>pbw. bindR (vec_at (pl_padding op) 3) (\<lambda>pew.
      bindR (vec_at (pl_dilations op) 0) (\<lambda>dh. bindR (vec_at (pl_dilations op) 1) (\<lambda>dw.
      bindR (vec_at (pl_stride op) 0) (\<lambda>sh. bindR (vec_at (pl_stride op) 1) (\<lambda>sw.
      bindR (axis_padding (pl_autoPad op) dh inputHeight windowHeight sh pbh peh) (\<lambda>(pbh, peh).
      bindR (axis_padding (pl_autoPad op) dw inputWidth windowWidth sw pbw pew) (\<lambda>(pbw, pew).
      bindR (window_count inputHeight windowHeight pbh peh sh) (\<lambda>outputHeight.
      bindR (window_count inputWidth windowWidth pbw pew sw) (\<lambda>outputWidth.
      bindR (vec_at inputShape 0) (\<lambda>batches.
      bindR (vec_at inputShape (if nchw then 1 else 3)) (\<lambda>channels.
        ok (if nchw then [batches, channels, outputHeight, outputWidth]
            else [batches, outputHeight, outputWidth, channels]))))))))))))))))))))"

definition Pool2d_infer :: "pool2d \<Rightarrow> operand list \<Rightarrow> operand list \<Rightarrow> operand list res" where
  "Pool2d_infer op ins outs =
     bindR (base_validate ins outs) (\<lambda>outs.
     bindR (vec_at ins 0) (\<lambda>input.
       let windowCount = (case pl_windowDimensions op of None \<Rightarrow> 0 | Some w \<Rightarrow> length w) in
       if length (opd_shape input) \<noteq> 4
       then validation_error ''Argument input is not a 4D tensor.''
       else if windowCount \<noteq> 2 \<and> windowCount \<noteq> 0
       then validation_error ''windowDimensionsCount is incorrect.''
       else if length (pl_padding op) \<noteq> 4 then validation_error ''paddingCount is incorrect.''
       else if length (pl_stride op) \<noteq> 2 then validation_error ''stridesCount is incorrect.''
       else if length (pl_dilations op) \<noteq> 2 then validation_error ''dilationsCount is incorrect.''
       else bindR (Pool2d_CalculateShape op (opd_shape input)) (SetShape outs 0)))"

section \<open>Output sizes\<close>

text \<open>The number of window positions along one axis: with explicit padding the windows of the
  dilated filter that fit, with "same" padding one window per stride.\<close>

definition extent :: "auto_pad \<Rightarrow> int \<Rightarrow> int \<Rightarrow> int \<Rightarrow> int \<Rightarrow> int \<Rightarrow> int \<Rightarrow> int" where
  "extent autoPad d n f s pb pe =
     (if autoPad = AutoPadExplicit then (n + pb + pe - (d * (f - 1) + 1)) div s + 1
      else (n + s - 1) div s)"

text \<open>Sizes for which nothing overflows and, with explicit padding, the filter fits.\<close>

definition axis_ok :: "auto_pad \<Rightarrow> int \<Rightarrow> int \<Rightarrow> int \<Rightarrow> int \<Rightarrow> int \<Rightarrow> int \<Rightarrow> bool" where
  "axis_ok autoPad d n f s pb pe \<longleftrightarrow>
     1 \<le> n \<and> n \<le> 2 ^ 28 \<and> 1 \<le> f \<and> 1 \<le> d \<and> d * (f - 1) < 2 ^ 28 \<and> 1 \<le> s \<and> s \<le> 2 ^ 28 \<and>
     autoPad \<in> {AutoPadExplicit, SameUpper, SameLower} \<and>
     (autoPad = AutoPadExplicit \<longrightarrow> 0 \<le> pb \<and> pb \<le> 2 ^ 28 \<and> 0 \<le> pe \<and> pe \<le> 2 ^ 28 \<and>
        d * (f - 1) + 1 \<le> n + pb + pe)"

lemma add32_ok: "in_i32 (a + b) \<Longrightarrow> add32 a b = ok (a + b)"
  by (simp add: add32_def chk32_def)

lemma sub32_ok: "in_i32 (a - b) \<Longrightarrow> sub32 a b = ok (a - b)"
  by (simp add: sub32_def chk32_def)

lemma mul32_ok: "in_i32 (a * b) \<Longrightarrow> mul32 a b = ok (a * b)"
  by (simp add: mul32_def chk32_def)

lemma div_le_dividend_pos: "0 \<le> a \<Longrightarrow> 0 < b \<Longrightarrow> a div b \<le> (a :: int)"
  using zdiv_mono2 [of a 1 b] by simp

lemma div32_ok: "0 \<le> a \<Longrightarrow> in_i32 a \<Longrightarrow> 0 < b \<Longrightarrow> div32 a b = ok (a div b)"
proof -
  assume a: "0 \<le> a" "in_i32 a" "0 < b"
  then have "0 \<le> a div b" "a div b \<le> a"
    by (simp_all add: pos_imp_zdiv_nonneg_iff div_le_dividend_pos)
  with a show "div32 a b = ok (a div b)"
    by (simp add: div32_def chk32_def sdiv_nonneg in_i32_def)
qed

lemmas checked_ok = add32_ok sub32_ok mul32_ok div32_ok

lemma strides_bounds:
  assumes "1 \<le> n" "1 \<le> s"
  shows "((n + s - 1) div s - 1) * s < (n :: int)" "n \<le> ((n + s - 1) div s) * s" "1 \<le> (n + s - 1) div s"
    "(n + s - 1) div s \<le> n"
proof -
  have eq: "(n + s - 1) div s * s + (n + s - 1) mod s = n + s - 1" by simp
  have r: "0 \<le> (n + s - 1) mod s" "(n + s - 1) mod s < s" using assms by simp_all
  show "((n + s - 1) div s - 1) * s < n" using eq r(1) unfolding left_diff_distrib by linarith
  show "n \<le> ((n + s - 1) div s) * s" using eq r(2) by linarith
  have "s \<le> n + s - 1" using assms by linarith
  then have "s div s \<le> (n + s - 1) div s" using assms by (intro zdiv_mono1) auto
  then show "1 \<le> (n + s - 1) div s" using assms by simp
  have "n + s - 1 \<le> n * s"
  proof -
    have "0 \<le> (n - 1) * (s - 1)" using assms by simp
    then show ?thesis by (simp add: algebra_simps)
  qed
  then have "(n + s - 1) div s \<le> n * s div s" using assms by (intro zdiv_mono1) auto
  then show "(n + s - 1) div s \<le> n" using assms by simp
qed

lemma same_window_count:
  assumes "1 \<le> n" "1 \<le> s" "0 \<le> w"
  defines "out \<equiv> (n + s - 1) div s"
  shows "(n - (w + 1) + max 0 ((out - 1) * s + w + 1 - n)) div s + 1 = (out :: int)"
proof -
  have b: "(out - 1) * s < n" "n \<le> out * s" "1 \<le> out"
    unfolding out_def using strides_bounds [OF assms(1,2)] by blast+
  let ?x = "n - (w + 1) + max 0 ((out - 1) * s + w + 1 - n)"
  have "?x div s = out - 1"
  proof (rule int_div_pos_eq)
    show "?x = s * (out - 1) + (?x - (out - 1) * s)" by (simp add: mult.commute)
    show "0 \<le> ?x - (out - 1) * s" by linarith
    show "?x - (out - 1) * s < s" using b assms by (simp add: left_diff_distrib max_def)
  qed
  then show ?thesis by simp
qed

lemma same_padding:
  assumes "1 \<le> n" "n \<le> 2 ^ 28" "1 \<le> f" "1 \<le> d" "d * (f - 1) < 2 ^ 28" "1 \<le> s" "s \<le> 2 ^ 28"
    and pad: "autoPad = SameUpper \<or> autoPad = SameLower"
  shows "\<exists>b e. ComputeImplicitPaddingForAutoPad autoPad d n f s = ok (b, e) \<and>
    b + e = max 0 (((n + s - 1) div s - 1) * s + d * (f - 1) + 1 - n) \<and> 0 \<le> b \<and> 0 \<le> e"
proof -
  define out where "out = (n + s - 1) div s"
  define p where "p = (out - 1) * s"
  define w where "w = d * (f - 1)"
  define t where "t = max 0 (p + w + 1 - n)"
  have out: "p < n" "1 \<le> out" "out \<le> n"
    unfolding p_def out_def using strides_bounds [OF assms(1,6)] by blast+
  have p0: "0 \<le> p" unfolding p_def using out(2) assms(6) by simp
  have f: "f - 1 \<le> w" "0 \<le> w"
    unfolding w_def using assms(3,4) mult_right_mono [of 1 d "f - 1"] by simp_all
  have bounds: "in_i32 (n + s)" "in_i32 (n + s - 1)" "in_i32 (f - 1)" "in_i32 w" "in_i32 (w + 1)"
      "in_i32 (out - 1)" "in_i32 p" "in_i32 (p + (w + 1))" "in_i32 (p + (w + 1) - n)"
      "in_i32 t" "in_i32 (t + 1)" "0 \<le> t"
    using assms out p0 f unfolding w_def [symmetric] by (auto simp: in_i32_def t_def)
  have t: "(if n < p + (w + 1) then ok (p + (w + 1) - n) else ok 0) = ok t"
    by (simp add: t_def max_def)
  have w': "(f - 1) * d = w" by (simp add: w_def mult.commute)
  have "ComputeImplicitPaddingForAutoPad autoPad d n f s =
      (if autoPad = SameUpper then ok (t div 2, (t + 1) div 2) else ok ((t + 1) div 2, t div 2))"
    using pad bounds assms(1,6) t
    by (auto simp: ComputeImplicitPaddingForAutoPad_def checked_ok w' out_def [symmetric] p_def [symmetric])
  moreover have "t div 2 + (t + 1) div 2 = t" "(t + 1) div 2 + t div 2 = t" by presburger+
  ultimately show ?thesis
    using bounds(12) unfolding out_def [symmetric] p_def [symmetric] w_def [symmetric] t_def [symmetric]
    by (auto simp: pos_imp_zdiv_nonneg_iff)
qed

lemma axis_size:
  assumes "axis_ok autoPad d n f s pb pe"
  shows "\<exists>b e. axis_padding autoPad d n f s pb pe = ok (b, e) \<and> dilated d f = ok (d * (f - 1) + 1) \<and>
    window_count n (d * (f - 1) + 1) b e s = ok (extent autoPad d n f s pb pe)"
proof -
  have dims: "1 \<le> n" "n \<le> 2 ^ 28" "1 \<le> f" "1 \<le> d" "d * (f - 1) < 2 ^ 28" "1 \<le> s" "s \<le> 2 ^ 28"
    using assms by (auto simp: axis_ok_def)
  define w where "w = d * (f - 1)"
  have w: "0 \<le> w" "w < 2 ^ 28" "f - 1 \<le> w"
    unfolding w_def using dims mult_right_mono [of 1 d "f - 1"] by simp_all
  have dil: "dilated d f = ok (w + 1)"
    using w dims by (simp add: dilated_def checked_ok in_i32_def w_def)
  have count: "window_count n (w + 1) b e s = ok ((n - (w + 1) + (b + e)) div s + 1)"
    if "0 \<le> b" "0 \<le> e" "b \<le> 2 ^ 29" "e \<le> 2 ^ 29" "w + 1 \<le> n + b + e" for b e
  proof -
    let ?x = "n - (w + 1) + b + e"
    have "0 \<le> ?x div s" "?x div s \<le> ?x"
      using that dims by (simp_all add: pos_imp_zdiv_nonneg_iff div_le_dividend_pos)
    with that dims w show ?thesis
      by (simp add: window_count_def checked_ok in_i32_def algebra_simps)
  qed
  show ?thesis
  proof (cases "autoPad = AutoPadExplicit")
    case True
    with assms count [of pb pe] dil show ?thesis
      by (auto simp: axis_padding_def extent_def axis_ok_def w_def algebra_simps)
  next
    case False
    with assms have "autoPad = SameUpper \<or> autoPad = SameLower" by (auto simp: axis_ok_def)
    from same_padding [OF dims this] obtain b e where
      pad: "ComputeImplicitPaddingForAutoPad autoPad d n f s = ok (b, e)"
        "b + e = max 0 (((n + s - 1) div s - 1) * s + w + 1 - n)" "0 \<le> b" "0 \<le> e"
      unfolding w_def by blast
    have "((n + s - 1) div s - 1) * s < n" "0 \<le> ((n + s - 1) div s - 1) * s"
      using strides_bounds [OF dims(1,6)] dims by simp_all
    then have "b + e \<le> w" "w + 1 \<le> n + (b + e)"
      using w(1) unfolding pad(2) by (auto simp: max_def)
    then have "b \<le> 2 ^ 29" "e \<le> 2 ^ 29" "w + 1 \<le> n + b + e" using pad(3,4) w(2) by simp_all
    then have "window_count n (w + 1) b e s = ok (extent autoPad d n f s pb pe)"
      using count pad False same_window_count [OF dims(1,6) w(1)] by (simp add: extent_def)
    with pad dil False show ?thesis by (simp add: axis_padding_def w_def)
  qed
qed

text \<open>The layouts of a tensor with batch \<open>n\<close>, channels \<open>c\<close>, height \<open>h\<close> and
  width \<open>w\<close>, and of a filter with \<open>oc\<close> output and \<open>ic\<close> input channels.\<close>

fun in_layout :: "input_operand_layout \<Rightarrow> int \<Rightarrow> int \<Rightarrow> int \<Rightarrow> int \<Rightarrow> int list" where
  "in_layout Nchw n c h w = [n, c, h, w]"
| "in_layout Nhwc n c h w = [n, h, w, c]"

fun filter_layout :: "filter_operand_layout \<Rightarrow> int \<Rightarrow> int \<Rightarrow> int \<Rightarrow> int \<Rightarrow> int list" where
  "filter_layout Oihw oc ic h w = [oc, ic, h, w]"
| "filter_layout Hwio oc ic h w = [h, w, ic, oc]"
| "filter_layout Ohwi oc ic h w = [oc, h, w, ic]"
| "filter_layout Ihwo oc ic h w = [ic, h, w, oc]"
| "filter_layout (FilterLayoutOther _) oc ic h w = []"

lemma filter_dims_layout:
  "filter_layout l oc ic h w \<noteq> [] \<Longrightarrow> filter_dims l (filter_layout l oc ic h w) = ok (h, w, oc, ic)"
  by (cases l) (simp_all add: filter_dims_def vec_at_def)

lemma in_layout_at:
  "vec_at (in_layout l n c h w) 0 = ok n"
  "vec_at (in_layout l n c h w) (if l = Nchw then 2 else 1) = ok h"
  "vec_at (in_layout l n c h w) (if l = Nchw then 3 else 2) = ok w"
  "vec_at (in_layout l n c h w) (if l = Nchw then 1 else 3) = ok c"
  by (cases l; simp add: vec_at_def)+

text \<open>
  C11. A convolution (not transposed) whose sizes do not overflow produces, in whichever layout
  the input has, the batch of the input, the output channels of the filter and, along each
  spatial axis, the number of positions of the dilated filter: with "same" padding that is the
  input size divided by the stride, rounded up.
\<close>

theorem Conv2d_output_shape:
  assumes "\<not> cv_transpose op" "0 \<le> c" "c < 2 ^ 31" "0 < cv_groups op"
    and "filter_layout (cv_filterLayout op) oc (c div cv_groups op) fh fw \<noteq> []"
    and "cv_padding op = [pbh, peh, pbw, pew]" "cv_stride op = [sh, sw]" "cv_dilations op = [dh, dw]"
    and h_ok: "axis_ok (cv_autoPad op) dh h fh sh pbh peh" and w_ok: "axis_ok (cv_autoPad op) dw w fw sw pbw pew"
  shows "Conv2d_CalculateShape op (in_layout (cv_inputLayout op) n c h w)
      (filter_layout (cv_filterLayout op) oc (c div cv_groups op) fh fw) =
    ok (in_layout (cv_inputLayout op) n oc
      (extent (cv_autoPad op) dh h fh sh pbh peh) (extent (cv_autoPad op) dw w fw sw pbw pew))"
proof -
  from axis_size [OF h_ok] obtain bh eh where
    H: "axis_padding (cv_autoPad op) dh h fh sh pbh peh = ok (bh, eh)" "dilated dh fh = ok (dh * (fh - 1) + 1)"
      "window_count h (dh * (fh - 1) + 1) bh eh sh = ok (extent (cv_autoPad op) dh h fh sh pbh peh)" by blast
  from axis_size [OF w_ok] obtain bw ew where
    W: "axis_padding (cv_autoPad op) dw w fw sw pbw pew = ok (bw, ew)" "dilated dw fw = ok (dw * (fw - 1) + 1)"
      "window_count w (dw * (fw - 1) + 1) bw ew sw = ok (extent (cv_autoPad op) dw w fw sw pbw pew)" by blast
  have "div32 c (cv_groups op) = ok (c div cv_groups op)"
    using assms(2-4) by (simp add: div32_ok in_i32_def)
  moreover have "conv2d_output_size op 0 h (dh * (fh - 1) + 1) bh eh = ok (extent (cv_autoPad op) dh h fh sh pbh peh)"
      "conv2d_output_size op 1 w (dw * (fw - 1) + 1) bw ew = ok (extent (cv_autoPad op) dw w fw sw pbw pew)"
    using assms(1,7) H(3) W(3) by (simp_all add: conv2d_output_size_def vec_at_def)
  ultimately show ?thesis
    using H(1,2) W(1,2) filter_dims_layout [OF assms(5)]
    by (cases "cv_inputLayout op") (simp_all add: Conv2d_CalculateShape_def assms(6-8) vec_at_def Let_def)
qed

theorem Conv2d_output_shape_witness:
  "Conv2d_CalculateShape
     (fst (Conv2d_new 0 1 (Some \<lparr>cvo_padding = None, cvo_strides = Some [2, 2], cvo_dilations = None,
        cvo_outputPadding = None, cvo_outputSizes = None, cvo_autoPad = SameUpper, cvo_transpose = False,
        cvo_groups = 1, cvo_inputLayout = Nhwc, cvo_filterLayout = Hwio, cvo_bias = None,
        cvo_activation = None\<rparr>)))
     [1, 224, 225, 3] [3, 3, 3, 32] = ok [1, 112, 113, 32]"
  using Conv2d_output_shape [of "fst (Conv2d_new 0 1 (Some \<lparr>cvo_padding = None, cvo_strides = Some [2, 2],
        cvo_dilations = None, cvo_outputPadding = None, cvo_outputSizes = None, cvo_autoPad = SameUpper,
        cvo_transpose = False, cvo_groups = 1, cvo_inputLayout = Nhwc, cvo_filterLayout = Hwio,
        cvo_bias = None, cvo_activation = None\<rparr>))" 3 32 3 3 0 0 0 0 2 2 1 1 224 225 1]
  by (simp add: Conv2d_new_def opt_array_def opt_field_def axis_ok_def extent_def)

text \<open>
  C12. A transposed convolution undoes the spatial size of a convolution with the same filter,
  stride, dilation and explicit padding, when the output padding is the part of the input the
  last window did not reach.
\<close>

theorem transposed_size_inverts:
  assumes "axis_ok AutoPadExplicit d n f s pb pe"
  shows "\<exists>w m. dilated d f = ok w \<and> window_count n w pb pe s = ok m \<and>
    transposed_size m w pb pe s ((n + pb + pe - w) mod s) = ok n"
proof -
  define w where "w = d * (f - 1) + 1"
  define m where "m = extent AutoPadExplicit d n f s pb pe"
  define x where "x = n + pb + pe - w"
  define p where "p = x div s * s"
  define r where "r = x mod s"
  have "axis_padding AutoPadExplicit d n f s pb pe = ok (pb, pe)" by (simp add: axis_padding_def)
  with axis_size [OF assms] have 1: "dilated d f = ok w" "window_count n w pb pe s = ok m"
    by (auto simp: w_def m_def)
  have m: "m - 1 = x div s" by (simp add: m_def extent_def x_def w_def)
  have d: "1 \<le> s" "s \<le> 2 ^ 28" "1 \<le> n" "n \<le> 2 ^ 28" "0 \<le> pb" "pb \<le> 2 ^ 28" "0 \<le> pe" "pe \<le> 2 ^ 28"
      "1 \<le> w" "w \<le> 2 ^ 28" "0 \<le> x"
    using assms by (auto simp: axis_ok_def w_def x_def)
  have "p + r = x" by (simp add: p_def r_def)
  moreover have r: "0 \<le> r" "r < s" using d(1) by (simp_all add: r_def)
  moreover have q: "0 \<le> x div s" "x div s \<le> x"
    using d by (auto simp: pos_imp_zdiv_nonneg_iff div_le_dividend_pos)
  moreover have "0 \<le> p" using q(1) d(1) by (simp add: p_def)
  ultimately have "in_i32 (x div s)" "in_i32 p" "in_i32 (p + w)" "in_i32 (p + w - pb)"
      "in_i32 (p + w - pb - pe)" "p + w - pb - pe + r = n"
    using d unfolding in_i32_def x_def by auto
  then have "transposed_size m w pb pe s r = ok n"
    using m d(3,4) by (simp add: transposed_size_def checked_ok p_def [symmetric] in_i32_def)
  with 1 show ?thesis by (auto simp: r_def x_def)
qed

theorem transposed_size_inverts_witness:
  "\<exists>w m. dilated 2 3 = ok w \<and> window_count 10 w 1 1 2 = ok m \<and>
    transposed_size m w 1 1 2 ((10 + 1 + 1 - w) mod 2) = ok 10"
  by (rule transposed_size_inverts) (simp add: axis_ok_def)

text \<open>
  A pooling without dilation whose sizes do not overflow keeps the batch and the channels,
  and has along each spatial axis the number of positions of the window, the whole input when no
  window is given.
\<close>

theorem Pool2d_output_shape:
  assumes "pl_padding op = [pbh, peh, pbw, pew]" "pl_stride op = [sh, sw]" "pl_dilations op = [1, 1]"
    and "pl_windowDimensions op = Some [wh, ww] \<or> pl_windowDimensions op = None \<and> wh = h \<and> ww = w"
    and h_ok: "axis_ok (pl_autoPad op) 1 h wh sh pbh peh" and w_ok: "axis_ok (pl_autoPad op) 1 w ww sw pbw pew"
  shows "Pool2d_CalculateShape op (in_layout (pl_layout op) n c h w) =
    ok (in_layout (pl_layout op) n c
      (extent (pl_autoPad op) 1 h wh sh pbh peh) (extent (pl_autoPad op) 1 w ww sw pbw pew))"
proof -
  from axis_size [OF h_ok] obtain bh eh where
    H: "axis_padding (pl_autoPad op) 1 h wh sh pbh peh = ok (bh, eh)"
      "window_count h wh bh eh sh = ok (extent (pl_autoPad op) 1 h wh sh pbh peh)" by auto
  from axis_size [OF w_ok] obtain bw ew where
    W: "axis_padding (pl_autoPad op) 1 w ww sw pbw pew = ok (bw, ew)"
      "window_count w ww bw ew sw = ok (extent (pl_autoPad op) 1 w ww sw pbw pew)" by auto
  have "pool2d_window op 0 h = ok wh" "pool2d_window op 1 w = ok ww"
    using assms(4) by (auto simp: pool2d_window_def vec_at_def)
  with H W show ?thesis
    by (cases "pl_layout op") (simp_all add: Pool2d_CalculateShape_def assms(1-3) vec_at_def Let_def)
qed

theorem Pool2d_output_shape_witness:
  "Pool2d_CalculateShape (Pool2d_new kMaxPool2d None) [1, 8, 7, 5] = ok [1, 8, 1, 1]"
  using Pool2d_output_shape [of "Pool2d_new kMaxPool2d None" 0 0 0 0 1 1 7 5 7 5 1 8]
  by (simp add: Pool2d_new_def opt_array_def opt_field_def axis_ok_def extent_def)

end
