(* ===== verification/Ops_Layout.thy ===== *)
theory Ops_Layout
  imports Operands "HOL-Library.Multiset"
begin

text \<open>
  Operators that rearrange a tensor: \<open>ops/Concat.cpp\<close>, \<open>ops/Split.h\<close>,
  \<open>ops/Slice.h\<close>, \<open>ops/Squeeze.h\<close>, \<open>ops/Transpose.cpp\<close> and
  \<open>ops/Reshape.cpp\<close>. Conversions between \<open>int32_t\<close>, \<open>uint32_t\<close> and
  \<open>size_t\<close> are written out where the sources mix them.
\<close>

section \<open>Concat\<close>

fun concat_dims_agree :: "nat \<Rightarrow> nat \<Rightarrow> int list \<Rightarrow> int list \<Rightarrow> bool" where
  "concat_dims_agree axis i (x # xs) (y # ys) =
     ((i \<noteq> axis \<longrightarrow> x = y) \<and> concat_dims_agree axis (Suc i) xs ys)"
| "concat_dims_agree axis i _ _ = True"

definition concat_check :: "nat \<Rightarrow> operand_type \<Rightarrow> int list \<Rightarrow> operand \<Rightarrow> unit \<Rightarrow> unit res" where
  "concat_check axis inputType inputShape input u =
     (if opd_type input \<noteq> inputType then validation_error ''Argument types are inconsistent.''
      else if length (opd_shape input) \<noteq> length inputShape
      then validation_error ''The input tensors must have the same rank.''
      else if \<not> concat_dims_agree axis 0 (opd_shape input) inputShape
      then validation_error ''Argument inputs must have same shape except for the size of the dimension to concatenate on.''
      else ok ())"

definition concat_add :: "nat \<Rightarrow> operand \<Rightarrow> int list \<Rightarrow> int list res" where
  "concat_add axis input outputShape =
     bindR (vec_at (opd_shape input) (int axis)) (\<lambda>d.
     bindR (vec_at outputShape (int axis)) (\<lambda>t.
     bindR (add32 t d) (\<lambda>t. vec_set outputShape (int axis) t)))"

definition Concat_CalculateShape :: "nat \<Rightarrow> operand list \<Rightarrow> int list res" where
  "Concat_CalculateShape axis ins =
     bindR (shape_of ins 0) (\<lambda>outputShape.
     bindR (vec_set outputShape (int axis) 0) (\<lambda>outputShape.
       foldR (concat_add axis) ins outputShape))"

definition Concat_infer :: "nat \<Rightarrow> operand list \<Rightarrow> operand list \<Rightarrow> operand list res" where
  "Concat_infer axis ins outs =
     bindR (base_validate ins outs) (\<lambda>outs.
       if ins = [] then validation_error ''Empty inputs is not supported.''
       else
         let inputType = opd_type (hd ins); inputShape = opd_shape (hd ins) in
         bindR (foldR (concat_check axis inputType inputShape) ins ()) (\<lambda>_.
           if axis \<ge> length inputShape then validation_error ''The axis is out of rank range.''
           else bindR (Concat_CalculateShape axis ins) (SetShape outs 0)))"

section \<open>Split\<close>

text \<open>\<open>axis += shape.size()\<close> on an \<open>int32_t\<close>: the addition is done in \<open>size_t\<close>
  and narrowed back.\<close>

definition wrap_axis :: "int \<Rightarrow> nat \<Rightarrow> int" where
  "wrap_axis axis rank = to_i32 (to_u64 (to_u64 axis + int rank))"

text \<open>Number of output operands the constructor allocates.\<close>

definition split_outputs :: "nat list \<Rightarrow> nat" where
  "split_outputs splits = (case splits of [n] \<Rightarrow> n | _ \<Rightarrow> length splits)"

definition split_step ::
  "nat list \<Rightarrow> int \<Rightarrow> nat \<Rightarrow> int list \<times> int \<times> operand list \<Rightarrow> (int list \<times> int \<times> operand list) res" where
  "split_step splits axis i = (\<lambda>(outputShape, dimSumAlongAxis, outs).
     bindR (if length splits \<noteq> 1
            then bindR (vec_at splits (int i)) (\<lambda>n. vec_set outputShape axis (to_i32 (int n)))
            else ok outputShape) (\<lambda>outputShape.
     bindR (vec_at outputShape axis) (\<lambda>d.
     bindR (add32 dimSumAlongAxis d) (\<lambda>dimSumAlongAxis.
     bindR (SetShape outs (int i) outputShape) (\<lambda>outs.
       ok (outputShape, dimSumAlongAxis, outs))))))"

definition Split_CalculateShape ::
  "nat list \<Rightarrow> int \<Rightarrow> int list \<Rightarrow> operand list \<Rightarrow> operand list res" where
  "Split_CalculateShape splits mAxis inputShape outs =
     (let axis = (if mAxis < 0 then wrap_axis mAxis (length inputShape) else mAxis) in
      bindR (case splits of
               [n] \<Rightarrow> bindR (vec_at inputShape axis) (\<lambda>d.
                 if n = 0 then undef
                 else bindR (vec_set inputShape axis (to_i32 (to_u64 d div int n)))
                        (\<lambda>s. ok (s, n)))
             | _ \<Rightarrow> ok (inputShape, length splits)) (\<lambda>(outputShape, outputSize).
      bindR (foldR (split_step splits axis) [0..<outputSize] (outputShape, 0, outs))
        (\<lambda>(_, dimSumAlongAxis, outs).
      bindR (vec_at inputShape axis) (\<lambda>d.
        if dimSumAlongAxis \<noteq> d
        then validation_error ''The sum of sizes must equal to the dimension size of input along options.axis.''
        else ok outs))))"

definition Split_infer :: "nat list \<Rightarrow> int \<Rightarrow> operand list \<Rightarrow> operand list \<Rightarrow> operand list res" where
  "Split_infer splits mAxis ins outs =
     bindR (base_validate ins outs) (\<lambda>outs.
     bindR (shape_of ins 0) (\<lambda>inputShape.
       let inputRank = int (length inputShape) in
       if mAxis \<ge> inputRank \<or> mAxis < - inputRank
       then validation_error ''Argument axis value is invalid.''
       else if splits = [] then validation_error ''Argument splits is invalid.''
       else Split_CalculateShape splits mAxis inputShape outs))"

section \<open>Slice\<close>

record slice =
  sl_starts :: "int list"
  sl_sizes :: "int list"
  sl_axes :: "int list"

text \<open>One axis: the checks on the target size and on the start, then the new extent.\<close>

definition slice_extent :: "int \<Rightarrow> int \<Rightarrow> int \<Rightarrow> int res" where
  "slice_extent dim start size1 =
     (if dim < size1
      then validation_error ''The target size should be smaller than the input size.''
      else if start \<ge> dim then validation_error ''The values of starts are out of range.''
      else bindR (chk32 (- dim)) (\<lambda>lowest.
        if start < lowest then validation_error ''The values of starts are out of range.''
        else bindR (if start < 0 then chk32 (- start) else sub32 dim start) (\<lambda>remainingSize.
          if size1 = - 1 then ok remainingSize
          else if remainingSize < size1
          then validation_error ''The target size should be smaller than the number of remaining elements from the starting index of the given axis.''
          else ok size1)))"

definition slice_step ::
  "slice \<Rightarrow> int list \<Rightarrow> int list \<Rightarrow> nat \<Rightarrow> int list \<Rightarrow> int list res" where
  "slice_step op inputShape axes i outputShape =
     bindR (vec_at axes (int i)) (\<lambda>a.
     let axis = (if a < 0 then wrap_axis a (length inputShape) else a) in
     bindR (vec_at inputShape axis) (\<lambda>dim.
     bindR (vec_at (sl_sizes op) (int i)) (\<lambda>size1.
     bindR (vec_at (sl_starts op) (int i)) (\<lambda>start.
     bindR (slice_extent dim start size1) (\<lambda>extent.
       vec_set outputShape axis extent)))))"

definition Slice_CalculateShape :: "slice \<Rightarrow> int list \<Rightarrow> int list res" where
  "Slice_CalculateShape op inputShape =
     bindR (if sl_axes op = [] then ok (map int [0..<length (sl_sizes op)])
            else if length (sl_axes op) \<noteq> length (sl_sizes op)
            then validation_error ''The size of axes is invalid.''
            else ok (sl_axes op)) (\<lambda>axes.
       foldR (slice_step op inputShape axes) [0..<length axes] inputShape)"

definition Slice_infer :: "slice \<Rightarrow> operand list \<Rightarrow> operand list \<Rightarrow> operand list res" where
  "Slice_infer op ins outs =
     bindR (base_validate ins outs) (\<lambda>outs.
     bindR (shape_of ins 0) (\<lambda>inputShape.
       let inputRank = int (length inputShape) in
       if \<exists>axis \<in> set (sl_axes op). axis \<ge> inputRank \<or> axis < - inputRank
       then validation_error ''The axes is invalid.''
       else if length (sl_starts op) \<noteq> length (sl_sizes op)
       then validation_error ''The size of starts are invalid.''
       else bindR (Slice_CalculateShape op inputShape) (SetShape outs 0)))"

section \<open>Squeeze\<close>

fun squeeze_axes :: "int list \<Rightarrow> nat \<Rightarrow> int list \<Rightarrow> int list res" where
  "squeeze_axes axes i [] = ok []"
| "squeeze_axes axes i (d # ds) =
     (if int i \<notin> set axes then bindR (squeeze_axes axes (Suc i) ds) (\<lambda>s. ok (d # s))
      else if d \<noteq> 1
      then validation_error ''Only shape dimensions of size 1 in the tensor can be eliminated.''
      else squeeze_axes axes (Suc i) ds)"

definition Squeeze_CalculateShape :: "int list \<Rightarrow> int list \<Rightarrow> int list res" where
  "Squeeze_CalculateShape axes inputShape =
     bindR (if axes = [] then ok (filter (\<lambda>d. d \<noteq> 1) inputShape)
            else squeeze_axes axes 0 inputShape) (\<lambda>outputShape.
       ok (if outputShape = [] then [1] else outputShape))"

definition Squeeze_infer :: "int list \<Rightarrow> operand list \<Rightarrow> operand list \<Rightarrow> operand list res" where
  "Squeeze_infer axes ins outs =
     bindR (base_validate ins outs) (\<lambda>outs.
     bindR (shape_of ins 0) (\<lambda>inputShape.
       if \<exists>a \<in> set axes. a \<ge> int (length inputShape) \<or> a < 0
       then validation_error ''Axes value is invalid.''
       else bindR (Squeeze_CalculateShape axes inputShape) (SetShape outs 0)))"

section \<open>Transpose\<close>

text \<open>The constructor's default: \<open>resize\<close> fills with zeros and the loop writes all but the
  last entry.\<close>

definition default_permutation :: "nat \<Rightarrow> int list" where
  "default_permutation rank =
     map (\<lambda>i. if i < rank - 1 then int (rank - 1 - i) else 0) [0..<rank]"

definition Transpose_new :: "int list \<Rightarrow> int list option \<Rightarrow> int list" where
  "Transpose_new inputShape permutation =
     (case permutation of None \<Rightarrow> default_permutation (length inputShape) | Some p \<Rightarrow> p)"

definition Transpose_CalculateShape :: "int list \<Rightarrow> int list \<Rightarrow> int list res" where
  "Transpose_CalculateShape perm inputShape =
     foldR (\<lambda>i outputShape. bindR (vec_at perm (int i)) (\<lambda>p. bindR (vec_at inputShape p) (\<lambda>d.
              vec_set outputShape (int i) d)))
       [0..<length inputShape] (replicate (length inputShape) 0)"

definition Transpose_infer :: "int list \<Rightarrow> operand list \<Rightarrow> operand list \<Rightarrow> operand list res" where
  "Transpose_infer perm ins outs =
     bindR (base_validate ins outs) (\<lambda>outs.
     bindR (shape_of ins 0) (\<lambda>inputShape.
       if length perm \<noteq> length inputShape then validation_error ''permutation size is invalid.''
       else if sort (map to_u32 perm) \<noteq> map int [0..<length inputShape]
       then validation_error ''permutation value is invalid.''
       else bindR (Transpose_CalculateShape perm inputShape) (SetShape outs 0)))"

section \<open>Reshape\<close>

definition product_u32 :: "int list \<Rightarrow> int" where
  "product_u32 s = foldl (\<lambda>acc d. to_u32 (acc * to_u32 d)) 1 s"

text \<open>The scan over \<open>newShape\<close>: the index of the last -1 if any, the wrapped product of
  the other entries, and the output shape with 0 at the -1 entries.\<close>

fun reshape_scan ::
  "int list \<Rightarrow> nat \<Rightarrow> nat option \<times> int \<times> int list \<Rightarrow> nat option \<times> int \<times> int list" where
  "reshape_scan [] i st = st"
| "reshape_scan (dim # ds) i (minus1, capacity, outputShape) =
     reshape_scan ds (Suc i)
       (if dim = - 1 then (Some i, capacity, outputShape)
        else (minus1, to_u32 (capacity * to_u32 dim), outputShape[i := dim]))"

definition Reshape_CalculateShape :: "int list \<Rightarrow> int list \<Rightarrow> int list res" where
  "Reshape_CalculateShape newShape inputShape =
     (let inputSize = product_u32 inputShape in
      case reshape_scan newShape 0 (None, 1, replicate (length newShape) 0) of
        (Some k, capacity, outputShape) \<Rightarrow>
          if capacity = 0 then undef
          else ok (outputShape[k := to_i32 (inputSize div capacity)])
      | (None, capacity, outputShape) \<Rightarrow>
          if inputSize \<noteq> capacity then validation_error ''Total size should keep consistent.''
          else ok outputShape)"

fun reshape_check :: "int list \<Rightarrow> bool \<Rightarrow> unit res" where
  "reshape_check [] hasMinus1 = ok ()"
| "reshape_check (i # is) hasMinus1 =
     (if i < - 1 \<or> i = 0 then validation_error ''Argument newShape is invalid.''
      else if i = - 1 then
        if hasMinus1 then validation_error ''Argument newShape is invalid.''
        else reshape_check is True
      else reshape_check is hasMinus1)"

definition Reshape_infer :: "int list \<Rightarrow> operand list \<Rightarrow> operand list \<Rightarrow> operand list res" where
  "Reshape_infer newShape ins outs =
     bindR (base_validate ins outs) (\<lambda>outs.
     bindR (reshape_check newShape False) (\<lambda>_.
     bindR (shape_of ins 0) (\<lambda>inputShape.
     bindR (Reshape_CalculateShape newShape inputShape) (SetShape outs 0))))"

section \<open>Transpose\<close>

lemma to_u32_i32:
  assumes "in_i32 x" "int n \<le> 2 ^ 31"
  shows "to_u32 x \<in> {0..<int n} \<longleftrightarrow> x \<in> {0..<int n}"
proof (cases "0 \<le> x")
  case True
  with assms show ?thesis by (simp add: to_u32_id in_i32_def)
next
  case False
  with assms(1) have "to_u32 x = x + 2 ^ 32"
    unfolding to_u32_def in_i32_def by (intro int_mod_pos_eq [where q = "- 1"]) auto
  with False assms show ?thesis by (simp add: in_i32_def)
qed

lemma permutation_check:
  assumes "\<forall>p \<in> set perm. in_i32 p" "int n \<le> 2 ^ 31"
  shows "sort (map to_u32 perm) = map int [0..<n] \<longleftrightarrow> mset perm = mset (map int [0..<n])"
proof -
  have set_int: "set (map int [0..<n]) = {0..<int n}"
    by (simp add: image_int_atLeastLessThan)
  have id: "map to_u32 perm = perm" if "set perm \<subseteq> {0..<int n}"
    using that assms(2) by (intro map_idI to_u32_id) auto
  have "sort (map to_u32 perm) = map int [0..<n] \<longleftrightarrow> mset (map to_u32 perm) = mset (map int [0..<n])"
  proof
    assume "mset (map to_u32 perm) = mset (map int [0..<n])"
    moreover have "sorted (map int [0..<n])" by (simp add: sorted_iff_nth_mono)
    ultimately show "sort (map to_u32 perm) = map int [0..<n]"
      by (metis properties_for_sort)
  qed (metis mset_sort)
  also have "\<dots> \<longleftrightarrow> mset perm = mset (map int [0..<n])"
  proof
    assume eq: "mset (map to_u32 perm) = mset (map int [0..<n])"
    then have "to_u32 ` set perm = {0..<int n}"
      using set_int by (metis image_set set_mset_mset)
    then have "set perm \<subseteq> {0..<int n}" using assms to_u32_i32 by blast
    with id eq show "mset perm = mset (map int [0..<n])" by simp
  next
    assume eq: "mset perm = mset (map int [0..<n])"
    then have "set perm = {0..<int n}" using set_int by (metis set_mset_mset)
    with id eq show "mset (map to_u32 perm) = mset (map int [0..<n])" by simp
  qed
  finally show ?thesis .
qed

lemma transpose_loop:
  fixes s :: "int list"
  assumes "length perm = length s" "\<forall>p \<in> set perm. 0 \<le> p \<and> p < int (length s)" "k \<le> length s"
  shows "foldR (\<lambda>i outputShape. bindR (vec_at perm (int i)) (\<lambda>p. bindR (vec_at s p) (\<lambda>d.
              vec_set outputShape (int i) d))) [0..<k] (replicate (length s) 0) =
    ok (map (\<lambda>p. s ! nat p) (take k perm) @ replicate (length s - k) 0)"
  using assms(3)
proof (induction k)
  case (Suc k)
  have k: "k < length perm" using Suc.prems assms(1) by simp
  then have "0 \<le> perm ! k \<and> perm ! k < int (length s)" using assms(2) nth_mem by blast
  moreover have "(replicate (length s - k) (0 :: int))[0 := v] = v # replicate (length s - Suc k) 0" for v
    using Suc.prems by (cases "length s - k") (auto simp: Suc_le_eq)
  ultimately show ?case
    using Suc k assms(1)
    by (simp add: foldR_append vec_at_def vec_set_def take_Suc_conv_app_nth list_update_append)
qed simp

lemma default_permutation_nth:
  "length (default_permutation n) = n" "i < n \<Longrightarrow> default_permutation n ! i = int (n - Suc i)"
  by (auto simp: default_permutation_def)

text \<open>
  C13. A transpose is accepted exactly when its permutation lists the axes of the input each
  once, and then axis \<open>i\<close> of the result is axis \<open>permutation[i]\<close> of the input; the
  default permutation reverses the shape.
\<close>

theorem Transpose_infer_iff:
  assumes "\<not> opd_error x" "length (opd_shape x) < 2 ^ 31" "\<forall>p \<in> set perm. in_i32 p"
  shows "Transpose_infer perm [x] [y] =
      (if mset perm = mset (map int [0..<length (opd_shape x)])
       then ok [y\<lparr>opd_type := opd_type x, opd_shape := map (\<lambda>p. opd_shape x ! nat p) perm\<rparr>]
       else if length perm \<noteq> length (opd_shape x) then validation_error ''permutation size is invalid.''
       else validation_error ''permutation value is invalid.'') \<and>
    map (\<lambda>p. opd_shape x ! nat p) (Transpose_new (opd_shape x) None) = rev (opd_shape x)"
proof
  let ?n = "length (opd_shape x)"
  have "int ?n \<le> int (2 ^ 31)" using assms(2) by linarith
  then have check: "sort (map to_u32 perm) = map int [0..<?n] \<longleftrightarrow> mset perm = mset (map int [0..<?n])"
    using assms(3) by (intro permutation_check) simp_all
  show "Transpose_infer perm [x] [y] =
      (if mset perm = mset (map int [0..<?n])
       then ok [y\<lparr>opd_type := opd_type x, opd_shape := map (\<lambda>p. opd_shape x ! nat p) perm\<rparr>]
       else if length perm \<noteq> ?n then validation_error ''permutation size is invalid.''
       else validation_error ''permutation value is invalid.'')"
  proof (cases "mset perm = mset (map int [0..<?n])")
    case True
    then have "length perm = ?n" by (metis length_map length_upt minus_nat.diff_0 size_mset)
    moreover have "\<forall>p \<in> set perm. 0 \<le> p \<and> p < int ?n"
    proof -
      have "set perm = int ` {0..<?n}" using True by (metis atLeastLessThan_upt set_map set_mset_mset)
      then show ?thesis by auto
    qed
    ultimately show ?thesis
      using transpose_loop [of perm "opd_shape x" ?n] True check assms(1)
      by (simp add: Transpose_infer_def Transpose_CalculateShape_def)
  next
    case False
    with check assms(1) show ?thesis by (simp add: Transpose_infer_def)
  qed
  show "map (\<lambda>p. opd_shape x ! nat p) (Transpose_new (opd_shape x) None) = rev (opd_shape x)"
    by (rule nth_equalityI) (simp_all add: Transpose_new_def default_permutation_nth rev_nth del: of_nat_diff)
qed

theorem Transpose_infer_iff_witness:
  "Transpose_infer [2, 0, 1] [tensor [4, 5, 6]] [tensor []] = ok [tensor [6, 4, 5]] \<and>
   map (\<lambda>p. [4, 5, 6] ! nat p) (Transpose_new [4, 5, 6] None) = [6, 5, 4 :: int]"
  using Transpose_infer_iff [of "tensor [4, 5, 6]" "[2, 0, 1]" "tensor []"]
  by (simp add: in_i32_def numeral_3_eq_3 upt_rec add.commute)

section \<open>Reshape\<close>

lemma to_u32_mult [simp]: "to_u32 (to_u32 a * to_u32 b) = to_u32 (a * b)"
  by (simp add: to_u32_def mod_mult_eq)

lemma product_u32_prod: "product_u32 s = to_u32 (prod_list s)"
proof -
  have "foldl (\<lambda>acc d. to_u32 (acc * to_u32 d)) (to_u32 a) s = to_u32 (a * prod_list s)" for a
    by (induction s arbitrary: a) (simp_all add: mult.assoc)
  from this [of 1] show ?thesis by (simp add: product_u32_def to_u32_def)
qed

text \<open>The scan over a new shape without -1, and over one with a single -1.\<close>

lemma reshape_scan_plain:
  assumes "- 1 \<notin> set ns"
  shows "reshape_scan ns (length pre) (m, to_u32 c, pre @ replicate (length ns) 0 @ post) =
    (m, to_u32 (c * prod_list ns), pre @ ns @ post)"
  using assms
proof (induction ns arbitrary: pre c)
  case (Cons d ns)
  have "(pre @ replicate (length (d # ns)) 0 @ post)[length pre := d] =
      (pre @ [d]) @ replicate (length ns) 0 @ post" by (simp add: list_update_append)
  then show ?case
    using Cons.IH [of "pre @ [d]" "c * d"] Cons.prems by (simp add: mult.assoc)
qed simp

lemma reshape_scan_append:
  "reshape_scan (xs @ ys) i st = reshape_scan ys (i + length xs) (reshape_scan xs i st)"
  by (induction xs i st rule: reshape_scan.induct) simp_all

lemma filter_all_but: "a \<notin> set xs \<Longrightarrow> filter (\<lambda>d. d \<noteq> a) xs = xs"
  by (induction xs) auto

lemma to_u32_1: "to_u32 1 = 1"
  by (simp add: to_u32_def)

lemma Reshape_plain:
  assumes "- 1 \<notin> set ns"
  shows "Reshape_CalculateShape ns s =
    (if to_u32 (prod_list s) = to_u32 (prod_list ns) then ok ns
     else validation_error ''Total size should keep consistent.'')"
  using reshape_scan_plain [OF assms, of "[]" None 1 "[]"]
  by (simp add: Reshape_CalculateShape_def product_u32_prod to_u32_1)

lemma Reshape_infer_dim:
  assumes "- 1 \<notin> set pre" "- 1 \<notin> set post"
  shows "Reshape_CalculateShape (pre @ - 1 # post) s =
    (if to_u32 (prod_list (pre @ post)) = 0 then undef
     else ok (pre @ to_i32 (to_u32 (prod_list s) div to_u32 (prod_list (pre @ post))) # post))"
proof -
  have "reshape_scan pre 0 (None, 1, replicate (length (pre @ - 1 # post)) 0) =
      (None, to_u32 (prod_list pre), pre @ 0 # replicate (length post) 0)"
    using reshape_scan_plain [OF assms(1), of "[]" None 1 "0 # replicate (length post) 0"]
    by (simp add: to_u32_1 replicate_add replicate_app_Cons_same)
  then have "reshape_scan (pre @ - 1 # post) 0 (None, 1, replicate (length (pre @ - 1 # post)) 0) =
      reshape_scan post (Suc (length pre))
        (Some (length pre), to_u32 (prod_list pre), pre @ 0 # replicate (length post) 0)"
    by (simp add: reshape_scan_append)
  also have "\<dots> = (Some (length pre), to_u32 (prod_list pre * prod_list post), pre @ 0 # post)"
    using reshape_scan_plain [OF assms(2), of "pre @ [0]" "Some (length pre)" "prod_list pre" "[]"] by simp
  finally show ?thesis
    by (simp add: Reshape_CalculateShape_def product_u32_prod list_update_append)
qed

lemma reshape_check_ok:
  "reshape_check ns m = ok () \<longleftrightarrow> (\<forall>d \<in> set ns. d = - 1 \<or> 0 < d) \<and>
     (if m then - 1 \<notin> set ns
      else - 1 \<notin> set ns \<or> (\<exists>pre post. ns = pre @ - 1 # post \<and> - 1 \<notin> set pre \<and> - 1 \<notin> set post))"
proof (induction ns m rule: reshape_check.induct)
  case (2 i ns m)
  show ?case
  proof (cases "i = - 1")
    case True
    have "(\<exists>pre post. i # ns = pre @ - 1 # post \<and> - 1 \<notin> set pre \<and> - 1 \<notin> set post) \<longleftrightarrow> - 1 \<notin> set ns"
      using True by (fastforce simp: Cons_eq_append_conv)
    with True 2 show ?thesis by (cases m) auto
  next
    case False
    then have "(\<exists>pre post. i # ns = pre @ - 1 # post \<and> - 1 \<notin> set pre \<and> - 1 \<notin> set post) \<longleftrightarrow>
        (\<exists>pre post. ns = pre @ - 1 # post \<and> - 1 \<notin> set pre \<and> - 1 \<notin> set post)"
      by (fastforce simp: Cons_eq_append_conv)
    with False 2 show ?thesis by auto
  qed
qed simp

text \<open>
  C14. An accepted reshape whose sizes do not overflow keeps the number of elements: without -1
  the new shape is taken as it is and has as many elements as the input; with -1 that entry is
  the quotient of the sizes, so the number of elements is kept exactly when the other entries
  divide it.
\<close>

theorem Reshape_keeps_count:
  assumes "\<not> opd_error x" "0 \<le> prod_list (opd_shape x)" "prod_list (opd_shape x) < 2 ^ 31"
    and "prod_list (filter (\<lambda>d. d \<noteq> - 1) newShape) < 2 ^ 32"
    and "Reshape_infer newShape [x] [y] = ok [z]"
  shows "if - 1 \<notin> set newShape
    then opd_shape z = newShape \<and> prod_list newShape = prod_list (opd_shape x)
    else \<exists>pre post. newShape = pre @ - 1 # post \<and>
      opd_shape z = pre @ (prod_list (opd_shape x) div prod_list (pre @ post)) # post \<and>
      (prod_list (opd_shape z) = prod_list (opd_shape x) \<longleftrightarrow> prod_list (pre @ post) dvd prod_list (opd_shape x))"
proof -
  let ?n = "prod_list (opd_shape x)"
  from assms(1,5) obtain t where check: "reshape_check newShape False = ok ()"
      and t: "Reshape_CalculateShape newShape (opd_shape x) = ok t" "opd_shape z = t"
    by (auto simp: Reshape_infer_def bindR_Inr_iff)
  have pos: "0 < prod_list (filter (\<lambda>d. d \<noteq> - 1) newShape)"
  proof -
    have "\<forall>d \<in> set newShape. d = - 1 \<or> 0 < d" using check unfolding reshape_check_ok by blast
    then show ?thesis by (induction newShape) auto
  qed
  have n: "to_u32 ?n = ?n" using assms(2,3) by (simp add: to_u32_id)
  show ?thesis
  proof (cases "- 1 \<in> set newShape")
    case False
    then have "filter (\<lambda>d. d \<noteq> - 1) newShape = newShape" by (rule filter_all_but)
    with pos assms(4) have "to_u32 (prod_list newShape) = prod_list newShape" by (simp add: to_u32_id)
    with False t n show ?thesis by (simp add: Reshape_plain split: if_splits)
  next
    case True
    with check obtain pre post where ns: "newShape = pre @ - 1 # post" "- 1 \<notin> set pre" "- 1 \<notin> set post"
      unfolding reshape_check_ok by auto
    let ?c = "prod_list (pre @ post)"
    have "filter (\<lambda>d. d \<noteq> - 1) newShape = pre @ post" using ns by (simp add: filter_all_but)
    with pos assms(4) have c: "0 < ?c" "to_u32 ?c = ?c" by (simp_all add: to_u32_id)
    have "0 \<le> ?n div ?c" "?n div ?c \<le> ?n"
      using c(1) assms(2) zdiv_mono2 [of ?n 1 ?c] by (simp_all add: pos_imp_zdiv_nonneg_iff)
    then have q: "to_i32 (?n div ?c) = ?n div ?c" using assms(3) by (simp add: to_i32_id in_i32_def)
    have "Reshape_CalculateShape newShape (opd_shape x) = ok (pre @ (?n div ?c) # post)"
      unfolding ns(1) Reshape_infer_dim [OF ns(2,3)] n c(2) q using c(1) by (intro if_not_P) linarith
    with t have z: "opd_shape z = pre @ (?n div ?c) # post" by simp
    then have "prod_list (opd_shape z) = ?c * (?n div ?c)" by simp
    then have "prod_list (opd_shape z) = ?n \<longleftrightarrow> ?c dvd ?n"
      using c(1) by (metis dvd_mult_div_cancel dvd_triv_left)
    with True ns z show ?thesis by auto
  qed
qed

theorem Reshape_keeps_count_witness:
  "\<exists>pre post. [2, - 1] = pre @ - 1 # post \<and> opd_shape (tensor [2, 12]) = pre @ (24 div prod_list (pre @ post)) # post \<and>
     (prod_list [2, 12] = (24 :: int) \<longleftrightarrow> prod_list (pre @ post) dvd 24)"
  using Reshape_keeps_count [of "tensor [3, 8]" "[2, - 1]" "tensor []" "tensor [2, 12]"]
  by (simp add: Reshape_infer_def Reshape_CalculateShape_def product_u32_def to_u32_def to_i32_def)

text \<open>
  The sizes are compared and divided in 32-bit unsigned arithmetic. So a reshape of
  \<open>2^32\<close> elements into \<open>2^33\<close> is accepted, a -1 next to entries whose product wraps to
  zero divides by zero, and a -1 next to entries that do not divide the size is accepted although
  elements are lost.
\<close>

theorem Reshape_size_wraps:
  "Reshape_infer [65536, 131072] [tensor [65536, 65536]] [tensor []] = ok [tensor [65536, 131072]] \<and>
   Reshape_infer [- 1, 65536, 65536] [tensor [2]] [tensor []] = undef \<and>
   Reshape_infer [- 1, 2] [tensor [3]] [tensor []] = ok [tensor [1, 2]]"
  by (simp add: Reshape_infer_def Reshape_CalculateShape_def product_u32_def to_u32_def to_i32_def)

section \<open>Split and Concat\<close>

text \<open>The sizes along the axis and the outputs they give.\<close>

definition split_sizes :: "nat list \<Rightarrow> int \<Rightarrow> int list" where
  "split_sizes splits dim = (case splits of [n] \<Rightarrow> replicate n (dim div int n) | _ \<Rightarrow> map int splits)"

definition with_sizes :: "int list \<Rightarrow> nat \<Rightarrow> int list \<Rightarrow> operand list \<Rightarrow> operand list" where
  "with_sizes s a sizes outs = map2 (\<lambda>n y. y\<lparr>opd_shape := s[a := n]\<rparr>) sizes outs"

lemma wrap_axis_neg:
  assumes "- int n \<le> axis" "axis < 0" "int n < 2 ^ 31"
  shows "wrap_axis axis n = axis + int n"
proof -
  have "to_u64 axis = axis + 2 ^ 64"
    unfolding to_u64_def using assms by (intro int_mod_pos_eq [where q = "- 1"]) auto
  moreover have "to_u64 (axis + 2 ^ 64 + int n) = axis + int n"
    unfolding to_u64_def using assms by (intro int_mod_pos_eq [where q = 1]) auto
  moreover have "in_i32 (axis + int n)" using assms by (simp add: in_i32_def)
  ultimately show ?thesis by (simp add: wrap_axis_def to_i32_id)
qed

lemma sum_take_le:
  "\<forall>n \<in> set xs. (0 :: int) \<le> n \<Longrightarrow> 0 \<le> sum_list (take k xs) \<and> sum_list (take k xs) \<le> sum_list xs"
proof (induction xs arbitrary: k)
  case (Cons x xs)
  then show ?case by (cases k) (auto simp: sum_list_nonneg)
qed simp

lemma split_loop:
  assumes "a < length s" "length outs = length sizes"
    and nonneg: "\<forall>n \<in> set sizes. 0 \<le> n" "sum_list sizes < 2 ^ 31"
    and one: "length splits = 1 \<Longrightarrow> sh0 = s[a := c] \<and> (\<forall>n \<in> set sizes. n = c)"
    and many: "length splits \<noteq> 1 \<Longrightarrow> sh0 = s \<and> sizes = map int splits"
    and "k \<le> length sizes"
  shows "\<exists>sh. foldR (split_step splits (int a)) [0..<k] (sh0, 0, outs) =
      ok (sh, sum_list (take k sizes), with_sizes s a (take k sizes) (take k outs) @ drop k outs) \<and>
    length sh = length s \<and> (\<forall>v. sh[a := v] = s[a := v]) \<and> (length splits = 1 \<longrightarrow> sh = s[a := c])"
  using assms(7)
proof (induction k)
  case 0
  then show ?case using one many by (cases "length splits = 1") (auto simp: with_sizes_def)
next
  case (Suc k)
  then obtain sh where sh: "foldR (split_step splits (int a)) [0..<k] (sh0, 0, outs) =
      ok (sh, sum_list (take k sizes), with_sizes s a (take k sizes) (take k outs) @ drop k outs)"
      "length sh = length s" "\<forall>v. sh[a := v] = s[a := v]" "length splits = 1 \<longrightarrow> sh = s[a := c]" by auto
  have k: "k < length sizes" "k < length outs" using Suc.prems assms(2) by simp_all
  let ?n = "sizes ! k"
  have take: "take (Suc k) sizes = take k sizes @ [?n]" using k by (simp add: take_Suc_conv_app_nth)
  have sum: "in_i32 (sum_list (take k sizes) + ?n)"
    using sum_take_le [OF nonneg(1), of "Suc k"] nonneg(2) unfolding take by (simp add: in_i32_def)
  have "0 \<le> ?n" using nonneg(1) k(1) nth_mem by blast
  then have "in_i32 ?n"
    using sum_take_le [OF nonneg(1), of k] sum_take_le [OF nonneg(1), of "Suc k"] nonneg(2)
    unfolding take in_i32_def by simp
  then have new: "(if length splits \<noteq> 1
      then bindR (vec_at splits (int k)) (\<lambda>n. vec_set sh (int a) (to_i32 (int n))) else ok sh) = ok (s[a := ?n])"
    using one many sh(2-4) k assms(1) by (cases "length splits = 1") (auto simp: to_i32_id)
  have outs: "SetShape (with_sizes s a (take k sizes) (take k outs) @ drop k outs) (int k) (s[a := ?n]) =
      ok (with_sizes s a (take (Suc k) sizes) (take (Suc k) outs) @ drop (Suc k) outs)"
    using k by (auto simp: SetShape_def with_sizes_def vec_at_def vec_set_def nth_append take
        take_Suc_conv_app_nth zip_append list_update_append Cons_nth_drop_Suc [symmetric])
  have "split_step splits (int a) k (sh, sum_list (take k sizes), with_sizes s a (take k sizes) (take k outs) @ drop k outs) =
      ok (s[a := ?n], sum_list (take (Suc k) sizes),
        with_sizes s a (take (Suc k) sizes) (take (Suc k) outs) @ drop (Suc k) outs)"
    unfolding split_step_def prod.case new bindR.simps
    using sum assms(1) outs by (simp add: add32_def chk32_def take)
  moreover have "length splits = 1 \<longrightarrow> s[a := ?n] = s[a := c]" using one nth_mem [OF k(1)] by auto
  ultimately show ?case using sh(1) by (simp add: foldR_append)
qed

lemma Split_CalculateShape_sizes:
  assumes "a < length s" "splits \<noteq> []" "splits \<noteq> [0]" "0 \<le> s ! a" "s ! a < 2 ^ 31"
    and "mAxis = int a \<or> mAxis < 0 \<and> mAxis + int (length s) = int a" "length s < 2 ^ 31"
    and "length outs = split_outputs splits" "sum_list (map int splits) < 2 ^ 31"
  shows "Split_CalculateShape splits mAxis s outs =
    (if sum_list (split_sizes splits (s ! a)) = s ! a then ok (with_sizes s a (split_sizes splits (s ! a)) outs)
     else validation_error ''The sum of sizes must equal to the dimension size of input along options.axis.'')"
proof -
  have "int (length s) < int (2 ^ 31)" using assms(7) by linarith
  then have axis: "(if mAxis < 0 then wrap_axis mAxis (length s) else mAxis) = int a"
    using assms(6) wrap_axis_neg [of "length s" mAxis] by auto
  let ?sizes = "split_sizes splits (s ! a)"
  have len: "length outs = length ?sizes"
    using assms(8) by (simp add: split_sizes_def split_outputs_def split: list.split)
  consider (one) n where "splits = [n]" "0 < n" | (many) "length splits \<noteq> 1"
    using assms(2,3) by (cases splits; cases "tl splits") auto
  then show ?thesis
  proof cases
    case one
    let ?c = "s ! a div int n"
    have "int n * ?c + s ! a mod int n = s ! a" "0 \<le> s ! a mod int n" using one by simp_all
    then have "int n * ?c \<le> s ! a" by linarith
    moreover have "0 \<le> ?c" "?c \<le> s ! a"
      using assms(4) one zdiv_mono2 [of "s ! a" 1 "int n"] by (simp_all add: pos_imp_zdiv_nonneg_iff)
    ultimately have c: "0 \<le> ?c" "?c \<le> s ! a" "int n * ?c \<le> s ! a" by blast+
    have sizes: "?sizes = replicate n ?c" using one by (simp add: split_sizes_def)
    then have sum: "sum_list ?sizes = int n * ?c" by (simp add: sum_list_replicate)
    have "\<forall>n \<in> set ?sizes. 0 \<le> n" "sum_list ?sizes < 2 ^ 31"
      using c assms(5) unfolding sum by (auto simp: sizes)
    from split_loop [OF assms(1) len this, of splits "s[a := ?c]" ?c "length ?sizes"] one sizes
    obtain sh where "foldR (split_step splits (int a)) [0..<n] (s[a := ?c], 0, outs) =
        ok (sh, sum_list ?sizes, with_sizes s a ?sizes outs)" using len by auto
    moreover have "to_i32 (to_u64 (s ! a) div int n) = ?c"
      using c assms(4,5) by (simp add: to_u64_id to_i32_id in_i32_def)
    ultimately show ?thesis
      using one axis assms(1) by (simp add: Split_CalculateShape_def Let_def)
  next
    case many
    then have sizes: "?sizes = map int splits" by (cases splits; cases "tl splits") (auto simp: split_sizes_def)
    have "\<forall>n \<in> set ?sizes. 0 \<le> n" "sum_list ?sizes < 2 ^ 31" using assms(9) by (auto simp: sizes)
    from split_loop [OF assms(1) len this, of splits s 0 "length ?sizes"] many sizes
    obtain sh where "foldR (split_step splits (int a)) [0..<length splits] (s, 0, outs) =
        ok (sh, sum_list ?sizes, with_sizes s a ?sizes outs)" using len by auto
    moreover have "(case splits of [n] \<Rightarrow> r n | _ \<Rightarrow> ok (s, length splits)) = ok (s, length splits)" for r
      using many by (cases splits; cases "tl splits") auto
    ultimately show ?thesis
      using axis assms(1) by (simp add: Split_CalculateShape_def Let_def)
  qed
qed

text \<open>
  A split is accepted exactly when its sizes add up to the input's size along the axis
  (counted from the end when negative), where a single number \<open>n\<close> asks for \<open>n\<close> equal
  parts; the outputs have those sizes along the axis and the input's sizes elsewhere.
\<close>

theorem Split_infer_sizes:
  assumes "\<not> opd_error x" "a < length (opd_shape x)" "length (opd_shape x) < 2 ^ 31"
    and "mAxis = int a \<or> mAxis < 0 \<and> mAxis + int (length (opd_shape x)) = int a"
    and "splits \<noteq> []" "splits \<noteq> [0]" "0 \<le> opd_shape x ! a" "opd_shape x ! a < 2 ^ 31"
    and "length outs = split_outputs splits" "sum_list (map int splits) < 2 ^ 31"
  shows "Split_infer splits mAxis [x] outs =
    (if sum_list (split_sizes splits (opd_shape x ! a)) = opd_shape x ! a
     then ok (with_sizes (opd_shape x) a (split_sizes splits (opd_shape x ! a))
       (outs[0 := (outs ! 0)\<lparr>opd_type := opd_type x\<rparr>]))
     else validation_error ''The sum of sizes must equal to the dimension size of input along options.axis.'')"
proof -
  have "outs \<noteq> []" using assms(5,6,9) by (auto simp: split_outputs_def split: list.splits)
  then have "base_validate [x] outs = ok (outs[0 := (outs ! 0)\<lparr>opd_type := opd_type x\<rparr>])"
    using assms(1) by (simp add: base_validate_Inr_iff)
  moreover have "\<not> (mAxis \<ge> int (length (opd_shape x)) \<or> mAxis < - int (length (opd_shape x)))"
    using assms(2,4) by auto
  ultimately show ?thesis
    using assms Split_CalculateShape_sizes [of a "opd_shape x" splits mAxis "outs[0 := (outs ! 0)\<lparr>opd_type := opd_type x\<rparr>]"]
    by (simp add: Split_infer_def Let_def)
qed

theorem Split_infer_sizes_witness:
  "Split_infer [1, 3] (- 1) [tensor [2, 4]] [tensor [], tensor []] = ok [tensor [2, 1], tensor [2, 3]]"
  using Split_infer_sizes [of "tensor [2, 4]" 1 "- 1" "[1, 3]" "[tensor [], tensor []]"]
  by (simp add: split_sizes_def split_outputs_def with_sizes_def)

lemma concat_loop:
  assumes "a < length s" "length ins = length sizes"
    and "\<forall>n \<in> set sizes. 0 \<le> n" "0 \<le> t" "t + sum_list sizes < 2 ^ 31"
  shows "foldR (concat_add a) (with_sizes s a sizes ins) (s[a := t]) = ok (s[a := t + sum_list sizes])"
  using assms(2-5)
proof (induction sizes arbitrary: ins t)
  case (Cons n sizes)
  then obtain y ys where ins: "ins = y # ys" "length ys = length sizes" by (cases ins) auto
  have "0 \<le> sum_list sizes" using Cons.prems(2) by (auto intro: sum_list_nonneg)
  with Cons.prems have "in_i32 (t + n)" by (simp add: in_i32_def)
  then have "concat_add a (y\<lparr>opd_shape := s[a := n]\<rparr>) (s[a := t]) = ok (s[a := t + n])"
    using assms(1) by (simp add: concat_add_def add32_def chk32_def)
  moreover have "foldR (concat_add a) (with_sizes s a sizes ys) (s[a := t + n]) =
      ok (s[a := t + n + sum_list sizes])"
    using Cons.prems ins by (intro Cons.IH) auto
  ultimately show ?case by (simp add: ins with_sizes_def add.assoc)
qed (simp add: with_sizes_def)

lemma split_sizes_nonneg:
  "0 \<le> dim \<Longrightarrow> splits \<noteq> [0] \<Longrightarrow> \<forall>n \<in> set (split_sizes splits dim). 0 \<le> n"
  by (auto simp: split_sizes_def pos_imp_zdiv_nonneg_iff split: list.split)

text \<open>The shape that a concatenation computes from the outputs of a split.\<close>

lemma Concat_shape_of_parts:
  assumes "a < length s" "length outs = length sizes" "outs \<noteq> []" "\<forall>n \<in> set sizes. 0 \<le> n"
    and "sum_list sizes = s ! a" "s ! a < 2 ^ 31"
  shows "Concat_CalculateShape a (with_sizes s a sizes outs) = ok s"
proof -
  obtain n ns y ys where cons: "sizes = n # ns" "outs = y # ys" using assms(2,3) by (metis length_0_conv list.exhaust)
  have "shape_of (with_sizes s a sizes outs) 0 = ok (s[a := n])" by (simp add: cons with_sizes_def)
  then have "Concat_CalculateShape a (with_sizes s a sizes outs) = foldR (concat_add a) (with_sizes s a sizes outs) (s[a := 0])"
    using assms(1) by (simp add: Concat_CalculateShape_def)
  also have "\<dots> = ok (s[a := 0 + sum_list sizes])" using assms by (intro concat_loop) simp_all
  finally show ?thesis by (simp add: assms(5))
qed

lemma dims_agree_update: "concat_dims_agree (i + a) i (xs[a := n]) (xs[a := m])"
proof (induction xs arbitrary: i a)
  case (Cons x xs)
  have "concat_dims_agree k j ys ys" for ys j k
    by (induction ys arbitrary: j) simp_all
  then show ?case using Cons [of "Suc i" "a - 1"] by (cases a) simp_all
qed simp

text \<open>The checks of a concatenation on the outputs of a split: their shapes agree, and their types do
  when the types of the operands they were made from agree.\<close>

lemma concat_checks_parts:
  assumes "a < length s" "length outs = length sizes" "outs = y # ys"
  shows "foldR (concat_check a (opd_type y) (s[a := m])) (with_sizes s a sizes outs) () =
    (if \<forall>z \<in> set ys. opd_type z = opd_type y then ok () else validation_error ''Argument types are inconsistent.'')"
proof -
  have "foldR (concat_check a t (s[a := m])) (with_sizes s a ns zs) () =
      (if \<forall>z \<in> set zs. opd_type z = t then ok () else validation_error ''Argument types are inconsistent.'')"
    if "length zs = length ns" for t ns zs
    using that
  proof (induction ns arbitrary: zs)
    case (Cons n ns)
    then obtain z zs' where zs: "zs = z # zs'" "length zs' = length ns" by (cases zs) auto
    have "concat_dims_agree a 0 (s[a := n]) (s[a := m])" using dims_agree_update [of 0 a s n m] by simp
    then show ?case using Cons.IH [OF zs(2)] by (simp add: zs with_sizes_def concat_check_def)
  qed (simp add: with_sizes_def)
  from this [of outs sizes "opd_type y"] assms(2,3) show ?thesis by simp
qed

text \<open>
  C15. Concatenating what an accepted split returned, along the same axis, gives an operand with the
  type and the shape of the input when that type is float32 or there is one part. With any other type
  the concatenation is refused, because a split sets the type of its first output only.
\<close>

theorem Concat_undoes_Split:
  assumes "\<not> opd_error x" "a < length (opd_shape x)" "length (opd_shape x) < 2 ^ 31"
    and "mAxis = int a \<or> mAxis < 0 \<and> mAxis + int (length (opd_shape x)) = int a"
    and "splits \<noteq> []" "splits \<noteq> [0]" "0 \<le> opd_shape x ! a" "opd_shape x ! a < 2 ^ 31" "sum_list (map int splits) < 2 ^ 31"
    and "Split_infer splits mAxis [x] (replicate (split_outputs splits) (operand_new oid)) = ok parts"
  shows "Concat_infer a parts [operand_new oid'] =
    (if opd_type x = Float32 \<or> split_outputs splits = 1
     then ok [(operand_new oid')\<lparr>opd_type := opd_type x, opd_shape := opd_shape x\<rparr>]
     else validation_error ''Argument types are inconsistent.'')"
proof -
  let ?s = "opd_shape x" and ?n = "split_outputs splits"
  let ?sizes = "split_sizes splits (?s ! a)"
  obtain k where k: "?n = Suc k" using assms(5,6) by (cases ?n) (auto simp: split_outputs_def split: list.splits)
  define y where "y = (operand_new oid)\<lparr>opd_type := opd_type x\<rparr>"
  define ys where "ys = replicate k (operand_new oid)"
  have "base_validate [x] (replicate ?n (operand_new oid)) = ok (y # ys)"
    using assms(1) by (simp add: base_validate_Inr_iff k y_def ys_def)
  with assms(10) have "Split_CalculateShape splits mAxis ?s (y # ys) = ok parts"
    by (auto simp: Split_infer_def Let_def split: if_splits)
  moreover have len: "length (y # ys) = length ?sizes"
    using k by (simp add: ys_def split_sizes_def split_outputs_def split: list.splits)
  ultimately have parts: "parts = with_sizes ?s a ?sizes (y # ys)" and sum: "sum_list ?sizes = ?s ! a"
    using Split_CalculateShape_sizes [of a ?s splits mAxis "y # ys"] assms k by (auto simp: ys_def split: if_splits)
  obtain m ns where sizes: "?sizes = m # ns" using len by (cases ?sizes) auto
  have hd: "parts \<noteq> []" "opd_type (hd parts) = opd_type y" "opd_shape (hd parts) = ?s[a := m]"
    by (simp_all add: parts sizes with_sizes_def)
  have "\<not> opd_error z" if "z \<in> set (y # ys)" for z using that by (auto simp: y_def ys_def operand_new_def)
  then have "\<not> opd_error z" if "z \<in> set parts" for z
    using that unfolding parts with_sizes_def by (auto dest!: set_zip_rightD simp del: list.set)
  then have base: "base_validate parts [operand_new oid'] = ok [(operand_new oid')\<lparr>opd_type := opd_type x\<rparr>]"
    using hd by (simp add: base_validate_Inr_iff y_def)
  have shape: "Concat_CalculateShape a parts = ok ?s"
    unfolding parts using len split_sizes_nonneg [OF assms(7,6)] sum assms(2,8) by (intro Concat_shape_of_parts) auto
  have "(\<forall>z \<in> set ys. opd_type z = opd_type y) \<longleftrightarrow> opd_type x = Float32 \<or> ?n = 1"
    using k by (cases k) (auto simp: ys_def y_def operand_new_def)
  then have check: "foldR (concat_check a (opd_type y) (?s[a := m])) parts () =
      (if opd_type x = Float32 \<or> ?n = 1 then ok () else validation_error ''Argument types are inconsistent.'')"
    unfolding parts using concat_checks_parts [OF assms(2) len refl, of m] by simp
  show ?thesis using base hd check shape assms(2) by (simp add: Concat_infer_def Let_def SetShape_def vec_at_def vec_set_def)
qed

theorem Concat_undoes_Split_witness:
  "Concat_infer 1 [(operand_new 5)\<lparr>opd_shape := [2, 1]\<rparr>, (operand_new 5)\<lparr>opd_shape := [2, 3]\<rparr>] [operand_new 6] =
     ok [(operand_new 6)\<lparr>opd_shape := [2, 4]\<rparr>]"
proof -
  have "Split_infer [1, 3] 1 [tensor [2, 4]] (replicate (split_outputs [1, 3]) (operand_new 5)) =
      ok [(operand_new 5)\<lparr>opd_shape := [2, 1]\<rparr>, (operand_new 5)\<lparr>opd_shape := [2, 3]\<rparr>]"
    by (simp add: Split_infer_def Split_CalculateShape_def base_validate_def SetType_def SetShape_def split_outputs_def
        split_step_def vec_at_def vec_set_def add32_def chk32_def in_i32_def to_i32_def upt_rec numeral_2_eq_2 operand_new_def)
  from Concat_undoes_Split [OF _ _ _ _ _ _ _ _ _ this, of 1 6] show ?thesis
    by (simp add: operand_new_def)
qed

section \<open>Slice\<close>

text \<open>Where a slice of \<open>e\<close> elements starts.\<close>

definition slice_start :: "int \<Rightarrow> int \<Rightarrow> int" where
  "slice_start dim start = (if start < 0 then start + dim else start)"

lemma slice_extent_window:
  assumes "slice_extent dim start size1 = ok e" "- 1 \<le> size1"
  shows "0 \<le> slice_start dim start" "slice_start dim start + e \<le> dim" "0 \<le> e"
    "size1 = - 1 \<longrightarrow> slice_start dim start + e = dim" "size1 \<noteq> - 1 \<longrightarrow> e = size1"
  using assms by (auto simp: slice_extent_def slice_start_def res_iff split: if_splits)

lemma slice_fold:
  assumes "foldR (slice_step op s axes) [0..<k] s = ok t"
  shows "length t = length s \<and> (\<forall>j < length s. t ! j = s ! j \<or>
    (\<exists>i < k. i < length axes \<and> slice_extent (s ! j) (sl_starts op ! i) (sl_sizes op ! i) = ok (t ! j) \<and>
      i < length (sl_sizes op) \<and>
      int j = (if axes ! i < 0 then wrap_axis (axes ! i) (length s) else axes ! i)))"
  using assms
proof (induction k arbitrary: t)
  case (Suc k)
  then obtain u where u: "foldR (slice_step op s axes) [0..<k] s = ok u" "slice_step op s axes k u = ok t"
    by (auto simp: foldR_append bindR_Inr_iff)
  define j where "j = (if axes ! k < 0 then wrap_axis (axes ! k) (length s) else axes ! k)"
  from u(2) obtain e where k: "k < length axes" "0 \<le> j" "j < int (length s)" "k < length (sl_sizes op)"
      "slice_extent (s ! nat j) (sl_starts op ! k) (sl_sizes op ! k) = ok e" "t = u[nat j := e]"
    unfolding slice_step_def by (auto simp: res_iff Let_def j_def split: if_splits)
  note IH = Suc.IH [OF u(1)]
  have "t ! m = s ! m \<or> (\<exists>i < Suc k. i < length axes \<and>
      slice_extent (s ! m) (sl_starts op ! i) (sl_sizes op ! i) = ok (t ! m) \<and> i < length (sl_sizes op) \<and>
      int m = (if axes ! i < 0 then wrap_axis (axes ! i) (length s) else axes ! i))" if "m < length s" for m
  proof (cases "m = nat j")
    case True
    with k IH that have "slice_extent (s ! m) (sl_starts op ! k) (sl_sizes op ! k) = ok (t ! m)"
      "int m = j" by auto
    with k show ?thesis unfolding j_def by blast
  next
    case False
    with k have "t ! m = u ! m" by simp
    with IH that show ?thesis by (metis less_SucI)
  qed
  with IH k show ?case by simp
qed simp

text \<open>
  An accepted slice whose sizes are at least -1 stays inside the input: every axis keeps its
  size or is cut to a window that starts and ends within the input's size, where -1 takes all
  that remains from the start.
\<close>

theorem Slice_stays_inside:
  assumes "Slice_CalculateShape op inputShape = ok outputShape" "\<forall>n \<in> set (sl_sizes op). - 1 \<le> n"
  shows "length outputShape = length inputShape \<and> (\<forall>j < length inputShape.
    outputShape ! j = inputShape ! j \<or> (\<exists>i < length (sl_sizes op).
      0 \<le> slice_start (inputShape ! j) (sl_starts op ! i) \<and> 0 \<le> outputShape ! j \<and>
      slice_start (inputShape ! j) (sl_starts op ! i) + outputShape ! j \<le> inputShape ! j \<and>
      (sl_sizes op ! i = - 1 \<longrightarrow>
         slice_start (inputShape ! j) (sl_starts op ! i) + outputShape ! j = inputShape ! j) \<and>
      (sl_sizes op ! i \<noteq> - 1 \<longrightarrow> outputShape ! j = sl_sizes op ! i)))"
proof -
  from assms(1) obtain axes where
    "foldR (slice_step op inputShape axes) [0..<length axes] inputShape = ok outputShape"
    by (auto simp: Slice_CalculateShape_def bindR_Inr_iff)
  note fold = slice_fold [OF this]
  have "\<exists>i < length (sl_sizes op).
      0 \<le> slice_start (inputShape ! j) (sl_starts op ! i) \<and> 0 \<le> outputShape ! j \<and>
      slice_start (inputShape ! j) (sl_starts op ! i) + outputShape ! j \<le> inputShape ! j \<and>
      (sl_sizes op ! i = - 1 \<longrightarrow>
         slice_start (inputShape ! j) (sl_starts op ! i) + outputShape ! j = inputShape ! j) \<and>
      (sl_sizes op ! i \<noteq> - 1 \<longrightarrow> outputShape ! j = sl_sizes op ! i)"
    if j: "j < length inputShape" "outputShape ! j \<noteq> inputShape ! j" for j
  proof -
    from fold j obtain i where i: "i < length (sl_sizes op)"
        "slice_extent (inputShape ! j) (sl_starts op ! i) (sl_sizes op ! i) = ok (outputShape ! j)" by blast
    with assms(2) have "- 1 \<le> sl_sizes op ! i" by auto
    from slice_extent_window [OF i(2) this] i(1) show ?thesis by blast
  qed
  with fold show ?thesis by blast
qed

definition example_slice :: slice where
  "example_slice = \<lparr>sl_starts = [1, - 3], sl_sizes = [2, - 1], sl_axes = [0, 1]\<rparr>"

lemma example_slice_shape: "Slice_CalculateShape example_slice [4, 5] = ok [2, 3]"
  by (simp add: Slice_CalculateShape_def slice_step_def slice_extent_def vec_at_def vec_set_def
      chk32_def sub32_def in_i32_def upt_rec example_slice_def)

theorem Slice_stays_inside_witness:
  "\<exists>i < length (sl_sizes example_slice). 0 \<le> slice_start 5 (sl_starts example_slice ! i) \<and>
     slice_start 5 (sl_starts example_slice ! i) + 3 \<le> 5"
proof -
  have "\<forall>n \<in> set (sl_sizes example_slice). - 1 \<le> n" by (simp add: example_slice_def)
  from Slice_stays_inside [OF example_slice_shape this, THEN conjunct2, rule_format, of 1]
  show ?thesis by auto
qed

section \<open>Squeeze\<close>

lemma prod_filter_ones: "prod_list (filter (\<lambda>d. d \<noteq> 1) s) = prod_list (s :: int list)"
  by (induction s) auto

lemma squeeze_axes_spec:
  "squeeze_axes axes i s =
     (if \<forall>k < length s. int (i + k) \<in> set axes \<longrightarrow> s ! k = 1
      then ok (map (\<lambda>k. s ! k) (filter (\<lambda>k. int (i + k) \<notin> set axes) [0..<length s]))
      else validation_error ''Only shape dimensions of size 1 in the tensor can be eliminated.'')"
proof (induction s arbitrary: i)
  case (Cons d s)
  have upt: "[0..<length (d # s)] = 0 # map Suc [0..<length s]"
    by (simp add: upt_conv_Cons map_Suc_upt del: upt_Suc)
  have all: "(\<forall>k < length (d # s). int (i + k) \<in> set axes \<longrightarrow> (d # s) ! k = 1) \<longleftrightarrow>
      (int i \<in> set axes \<longrightarrow> d = 1) \<and> (\<forall>k < length s. int (Suc i + k) \<in> set axes \<longrightarrow> s ! k = 1)"
    by (simp add: All_less_Suc2 del: of_nat_add of_nat_Suc)
  show ?case
    unfolding upt all by (simp add: Cons.IH filter_map comp_def del: of_nat_add of_nat_Suc)
qed simp

lemma prod_kept:
  assumes "\<forall>k < length s. P k \<longrightarrow> s ! k = (1 :: int)"
  shows "prod_list (map (\<lambda>k. s ! k) (filter (\<lambda>k. \<not> P k) [0..<length s])) = prod_list s"
  using assms
proof (induction s rule: rev_induct)
  case (snoc d s)
  have "map ((!) (s @ [d])) (filter (\<lambda>k. \<not> P k) [0..<length s]) =
      map ((!) s) (filter (\<lambda>k. \<not> P k) [0..<length s])"
    by (rule map_cong) (simp_all add: nth_append)
  moreover have "\<forall>k < length s. P k \<longrightarrow> s ! k = 1"
    using snoc.prems by (metis length_append_singleton less_SucI nth_append)
  moreover have "P (length s) \<longrightarrow> d = 1" using snoc.prems [rule_format, of "length s"] by auto
  ultimately show ?case using snoc.IH by (cases "P (length s)") (simp_all del: map_eq_conv)
qed simp

text \<open>
  A squeeze keeps the number of elements. Without axes it drops every size 1; with axes it
  drops exactly those, and is rejected when one of them has another size. A result without
  dimensions becomes the shape (1).
\<close>

theorem Squeeze_keeps_count:
  "Squeeze_CalculateShape axes s =
     (if axes \<noteq> [] \<and> (\<exists>k < length s. int k \<in> set axes \<and> s ! k \<noteq> 1)
      then validation_error ''Only shape dimensions of size 1 in the tensor can be eliminated.''
      else let kept = (if axes = [] then filter (\<lambda>d. d \<noteq> 1) s
                       else map (\<lambda>k. s ! k) (filter (\<lambda>k. int k \<notin> set axes) [0..<length s]))
           in ok (if kept = [] then [1] else kept)) \<and>
   (\<forall>t. Squeeze_CalculateShape axes s = ok t \<longrightarrow> prod_list t = prod_list s)"
proof -
  have eq: "Squeeze_CalculateShape axes s =
     (if axes \<noteq> [] \<and> (\<exists>k < length s. int k \<in> set axes \<and> s ! k \<noteq> 1)
      then validation_error ''Only shape dimensions of size 1 in the tensor can be eliminated.''
      else let kept = (if axes = [] then filter (\<lambda>d. d \<noteq> 1) s
                       else map (\<lambda>k. s ! k) (filter (\<lambda>k. int k \<notin> set axes) [0..<length s]))
           in ok (if kept = [] then [1] else kept))"
    by (auto simp: Squeeze_CalculateShape_def squeeze_axes_spec Let_def)
  moreover have "prod_list (if kept = [] then [1] else kept) = prod_list kept" for kept :: "int list"
    by simp
  ultimately show ?thesis
    using prod_filter_ones [of s] prod_kept [of s "\<lambda>k. int k \<in> set axes"]
    by (auto simp: Let_def simp del: if_split split: if_splits)
qed

theorem Squeeze_keeps_count_witness:
  "Squeeze_CalculateShape [0] [1, 3, 1] = ok [3, 1] \<and> prod_list [3, 1] = prod_list [1, 3, 1 :: int]"
proof -
  note sq = Squeeze_keeps_count [of "[0]" "[1, 3, 1]"]
  from sq have shape: "Squeeze_CalculateShape [0] [1, 3, 1] = ok [3, 1]"
    by (simp add: less_Suc_eq_0_disj upt_rec)
  with sq have "prod_list [3, 1] = prod_list [1, 3, 1 :: int]" by blast
  with shape show ?thesis by blast
qed

end
