(* ===== verification/Ops_Misc.thy ===== *)
theory Ops_Misc
  imports Operands
begin

text \<open>
  The remaining operators: \<open>ops/Reduce.cpp\<close>, \<open>ops/Resample2d.cpp\<close>,
  \<open>ops/Pad.cpp\<close>, \<open>ops/BatchNorm.cpp\<close>, \<open>ops/InstanceNorm.cpp\<close>,
  \<open>ops/Gru.cpp\<close>, \<open>ops/Input.h\<close> and \<open>ops/Constant.h\<close>.
\<close>

section \<open>Reduce\<close>

datatype reduce_type = kReduceL1 | kReduceL2 | kReduceMax | kReduceMean | kReduceMin
  | kReduceProduct | kReduceSum

record reduce_options =
  rdo_axes :: "int list option"
  rdo_keepDimensions :: bool

record reduce =
  rd_type :: reduce_type
  rd_axes :: "int list"
  rd_keepDimensions :: bool

definition Reduce_new :: "reduce_type \<Rightarrow> int list \<Rightarrow> reduce_options option \<Rightarrow> reduce" where
  "Reduce_new opType inputShape options =
     \<lparr>rd_type = opType,
      rd_axes = (case options of
                   None \<Rightarrow> map int [0..<length inputShape]
                 | Some opt \<Rightarrow> (case rdo_axes opt of
                     None \<Rightarrow> map int [0..<length inputShape] | Some axes \<Rightarrow> axes)),
      rd_keepDimensions = (case options of None \<Rightarrow> False | Some opt \<Rightarrow> rdo_keepDimensions opt)\<rparr>"

text \<open>\<open>-1\<close> stands for the last dimension.\<close>

definition reduce_axis :: "nat \<Rightarrow> int \<Rightarrow> int" where
  "reduce_axis rank a = (if a = - 1 then to_i32 (to_u64 (int rank - 1)) else a)"

definition Reduce_CalculateShape :: "reduce \<Rightarrow> int list \<Rightarrow> int list res" where
  "Reduce_CalculateShape op inputShape =
     (let axes = map (reduce_axis (length inputShape)) (rd_axes op) in
      bindR (foldR (\<lambda>a s. vec_set s a 1) axes inputShape) (\<lambda>reducedShape.
        ok (if \<not> rd_keepDimensions op then
              let outputShape = map (\<lambda>i. inputShape ! i)
                                  (filter (\<lambda>i. int i \<notin> set axes) [0..<length inputShape])
              in if outputShape = [] then [1] else outputShape
            else reducedShape)))"

fun reduce_check :: "nat \<Rightarrow> int list \<Rightarrow> int list \<Rightarrow> unit res" where
  "reduce_check rank [] seen = ok ()"
| "reduce_check rank (a # as) seen =
     (if a > to_i32 (to_u64 (int rank - 1)) \<or> a < - 1
      then validation_error ''axes value is invalid.''
      else if a \<in> set seen then validation_error ''all axes must be unique''
      else reduce_check rank as (a # seen))"

definition Reduce_infer :: "reduce \<Rightarrow> operand list \<Rightarrow> operand list \<Rightarrow> operand list res" where
  "Reduce_infer op ins outs =
     bindR (base_validate ins outs) (\<lambda>outs.
     bindR (shape_of ins 0) (\<lambda>inputShape.
       if length (rd_axes op) > length inputShape then validation_error ''Axes size is invalid.''
       else bindR (reduce_check (length inputShape) (rd_axes op) []) (\<lambda>_.
            bindR (Reduce_CalculateShape op inputShape) (SetShape outs 0))))"

section \<open>Resample2d\<close>

record resample2d_options =
  rso_mode :: interpolation_mode
  rso_scales :: "f32 list option"
  rso_sizes :: "int list option"
  rso_axes :: "int list option"

text \<open>The members: \<open>mOptions\<close> and the three vectors.\<close>

record resample2d =
  rs_options :: resample2d_options
  rs_scales :: "f32 list"
  rs_sizes :: "int list"
  rs_axes :: "int list"

text \<open>The constructor sets only the mode of \<open>mOptions\<close>; its arrays stay null.\<close>

definition Resample2d_new :: "resample2d_options option \<Rightarrow> resample2d" where
  "Resample2d_new options =
     \<lparr>rs_options = \<lparr>rso_mode = (case options of None \<Rightarrow> NearestNeighbor | Some opt \<Rightarrow> rso_mode opt),
                    rso_scales = None, rso_sizes = None, rso_axes = None\<rparr>,
      rs_scales = (case Option.bind options rso_scales of
                     None \<Rightarrow> [Finite 1 0, Finite 1 0] | Some xs \<Rightarrow> xs),
      rs_sizes = (case Option.bind options rso_sizes of None \<Rightarrow> [] | Some xs \<Rightarrow> xs),
      rs_axes = (case Option.bind options rso_axes of None \<Rightarrow> [2, 3] | Some xs \<Rightarrow> xs)\<rparr>"

definition resample_step :: "resample2d \<Rightarrow> nat \<Rightarrow> int list \<Rightarrow> int list res" where
  "resample_step op i outputShape =
     bindR (vec_at (rs_axes op) (int i)) (\<lambda>axis.
       if rs_sizes op \<noteq> [] then
         bindR (vec_at (rs_sizes op) (int i)) (\<lambda>n. vec_set outputShape axis n)
       else
         bindR (vec_at (rs_scales op) (int i)) (\<lambda>f.
         bindR (vec_at outputShape axis) (\<lambda>d.
         bindR (f32_to_i32 (f32_mul (f32_of_int d) f)) (\<lambda>n. vec_set outputShape axis n))))"

definition Resample2d_CalculateShape :: "resample2d \<Rightarrow> int list \<Rightarrow> int list res" where
  "Resample2d_CalculateShape op inputShape =
     foldR (resample_step op) [0..<length (rs_axes op)] inputShape"

definition resample_axes_check :: "int list option \<Rightarrow> unit res" where
  "resample_axes_check axes = (case axes of None \<Rightarrow> ok ()
     | Some xs \<Rightarrow>
         if length xs \<noteq> 2 then validation_error ''Argument axes is not a 2D tensor.''
         else bindR (add32 (xs ! 0) 1) (\<lambda>a.
           if xs ! 0 > 2 \<or> xs ! 1 \<noteq> a then validation_error ''The values of axes is invalid.''
           else ok ()))"

definition Resample2d_infer :: "resample2d \<Rightarrow> operand list \<Rightarrow> operand list \<Rightarrow> operand list res" where
  "Resample2d_infer op ins outs =
     bindR (base_validate ins outs) (\<lambda>outs.
     bindR (shape_of ins 0) (\<lambda>inputShape.
       if length inputShape \<noteq> 4 then validation_error ''Input is not a 4D tensor.''
       else if (case rso_scales (rs_options op) of None \<Rightarrow> False | Some xs \<Rightarrow> length xs \<noteq> 2)
       then validation_error ''Argument scales is not a 2D tensor.''
       else if (case rso_sizes (rs_options op) of None \<Rightarrow> False | Some xs \<Rightarrow> length xs \<noteq> 2)
       then validation_error ''Argument scales is not a 2D tensor.''
       else bindR (resample_axes_check (rso_axes (rs_options op))) (\<lambda>_.
            bindR (Resample2d_CalculateShape op inputShape) (SetShape outs 0))))"

section \<open>Pad\<close>

record pad_options =
  pdo_mode :: padding_mode
  pdo_value :: f32

definition Pad_new :: "pad_options option \<Rightarrow> pad_options" where
  "Pad_new options =
     (case options of None \<Rightarrow> \<lparr>pdo_mode = PadConstant, pdo_value = Finite 0 0\<rparr> | Some opt \<Rightarrow> opt)"

text \<open>\<open>padBuffer\<close> reads the constant behind the padding operand as \<open>uint32_t\<close>
  elements; the sum of an \<open>int32_t\<close> and two \<open>uint32_t\<close> is unsigned.\<close>

definition Pad_CalculateShape :: "(nat \<Rightarrow> int res) \<Rightarrow> int list \<Rightarrow> int list res" where
  "Pad_CalculateShape padBuffer inputShape =
     foldR (\<lambda>i outputShape.
        bindR (padBuffer (2 * i)) (\<lambda>before. bindR (padBuffer (2 * i + 1)) (\<lambda>after.
          ok (outputShape[i := to_i32 (to_u32 (to_u32 (inputShape ! i) + before + after))]))))
       [0..<length inputShape] (replicate (length inputShape) 0)"

definition Pad_infer ::
  "(nat \<Rightarrow> int res) \<Rightarrow> operand list \<Rightarrow> operand list \<Rightarrow> operand list res" where
  "Pad_infer padBuffer ins outs =
     bindR (base_validate ins outs) (\<lambda>outs.
     bindR (shape_of ins 0) (\<lambda>inputShape.
     bindR (shape_of ins 1) (\<lambda>paddingShape.
       if length paddingShape \<noteq> 2 \<or> int (length inputShape) \<noteq> to_u64 (paddingShape ! 0)
          \<or> paddingShape ! 1 \<noteq> 2
       then validation_error ''The padding tensor should has shape [n, 2] where n is the rank of the input tensor.''
       else bindR (Pad_CalculateShape padBuffer inputShape) (SetShape outs 0))))"

section \<open>BatchNorm and InstanceNorm\<close>

record batchnorm_options =
  bno_scale :: "nat option"
  bno_bias :: "nat option"
  bno_axis :: nat
  bno_epsilon :: f32
  bno_activation :: "fusion_type option"

definition batchnorm_default :: batchnorm_options where
  "batchnorm_default = \<lparr>bno_scale = None, bno_bias = None, bno_axis = 1,
     bno_epsilon = Finite 10995116 (- 40), bno_activation = None\<rparr>"

definition opt_list :: "'a option \<Rightarrow> 'a list" where
  "opt_list x = (case x of None \<Rightarrow> [] | Some y \<Rightarrow> [y])"

definition BatchNorm_new ::
  "nat \<Rightarrow> nat \<Rightarrow> nat \<Rightarrow> batchnorm_options option \<Rightarrow> batchnorm_options \<times> nat list" where
  "BatchNorm_new input mean variance options =
     (let opt = (case options of None \<Rightarrow> batchnorm_default | Some opt \<Rightarrow> opt)
      in (opt, [input, mean, variance] @ opt_list (bno_scale opt) @ opt_list (bno_bias opt)))"

text \<open>An optional input must have the given rank: \<open>mInputs[k]\<close> is only read when the option
  is present.\<close>

definition opt_rank_ok :: "'a option \<Rightarrow> operand list \<Rightarrow> int \<Rightarrow> nat \<Rightarrow> bool res" where
  "opt_rank_ok present ins k r =
     (if present \<noteq> None then bindR (rank_of ins k) (\<lambda>n. ok (n = r)) else ok True)"

definition BatchNorm_infer ::
  "batchnorm_options \<Rightarrow> operand list \<Rightarrow> operand list \<Rightarrow> operand list res" where
  "BatchNorm_infer opt ins outs =
     bindR (base_validate ins outs) (\<lambda>outs.
     bindR (rank_of ins 0) (\<lambda>r.
       if r \<noteq> 4 then validation_error ''Input is not a 4D tensor.'' else
     bindR (rank_of ins 1) (\<lambda>r.
       if r \<noteq> 1 then validation_error ''Argument mean is not a 1D tensor.'' else
     bindR (rank_of ins 2) (\<lambda>r.
       if r \<noteq> 1 then validation_error ''Argument variance is not a 1D tensor.'' else
     bindR (opt_rank_ok (bno_scale opt) ins 3 1) (\<lambda>good.
       if \<not> good then validation_error ''Argument scale is not a 1D tensor.'' else
     bindR (opt_rank_ok (bno_bias opt) ins (if bno_scale opt \<noteq> None then 4 else 3) 1) (\<lambda>good.
       if \<not> good then validation_error ''Argument bias is not a 1D tensor.''
       else if bno_axis opt \<noteq> 1 \<and> bno_axis opt \<noteq> 3
       then validation_error ''Argument axis is not supported.''
       else bindR (shape_of ins 0) (SetShape outs 0)))))))"

record instancenorm_options =
  ino_scale :: "nat option"
  ino_bias :: "nat option"
  ino_epsilon :: f32
  ino_layout :: input_operand_layout

definition instancenorm_default :: instancenorm_options where
  "instancenorm_default = \<lparr>ino_scale = None, ino_bias = None,
     ino_epsilon = Finite 10995116 (- 40), ino_layout = Nchw\<rparr>"

definition InstanceNorm_new ::
  "nat \<Rightarrow> instancenorm_options option \<Rightarrow> instancenorm_options \<times> nat list" where
  "InstanceNorm_new input options =
     (let opt = (case options of None \<Rightarrow> instancenorm_default | Some opt \<Rightarrow> opt)
      in (opt, [input] @ opt_list (ino_scale opt) @ opt_list (ino_bias opt)))"

definition InstanceNorm_infer ::
  "instancenorm_options \<Rightarrow> operand list \<Rightarrow> operand list \<Rightarrow> operand list res" where
  "InstanceNorm_infer opt ins outs =
     bindR (base_validate ins outs) (\<lambda>outs.
     bindR (rank_of ins 0) (\<lambda>r.
       if r \<noteq> 4 then validation_error ''Input is not a 4D tensor.'' else
     bindR (opt_rank_ok (ino_scale opt) ins 1 1) (\<lambda>good.
       if \<not> good then validation_error ''Argument scale is not a 1D tensor.'' else
     bindR (opt_rank_ok (ino_bias opt) ins (if ino_scale opt \<noteq> None then 2 else 1) 1) (\<lambda>good.
       if \<not> good then validation_error ''Argument bias is not a 1D tensor.''
       else bindR (shape_of ins 0) (SetShape outs 0)))))"

section \<open>Gru\<close>

datatype weight_layout = Zrn | Rzn

datatype gru_direction = Forward | Backward | Both

record gru_options =
  gro_bias :: "nat option"
  gro_recurrentBias :: "nat option"
  gro_initialHiddenState :: "nat option"
  gro_resetAfter :: bool
  gro_returnSequence :: bool
  gro_direction :: gru_direction
  gro_layout :: weight_layout
  gro_activations :: "fusion_type list option"

record gru =
  gr_options :: gru_options
  gr_steps :: int
  gr_hiddenSize :: int
  gr_activations :: "fusion_type list"

text \<open>\<open>options->returnSequence\<close> in the initialiser list dereferences \<open>options\<close> before it
  is tested for null. The result is the members, the inputs and the number of outputs. The step
  count and the hidden size are stored as \<open>size_t\<close>.\<close>

definition Gru_new ::
  "nat \<Rightarrow> nat \<Rightarrow> nat \<Rightarrow> int \<Rightarrow> int \<Rightarrow> gru_options option \<Rightarrow> (gru \<times> nat list \<times> nat) res" where
  "Gru_new input weight recurrentWeight steps hiddenSize options =
     (case options of None \<Rightarrow> undef
      | Some opt \<Rightarrow>
          ok (\<lparr>gr_options = opt, gr_steps = to_u64 steps, gr_hiddenSize = to_u64 hiddenSize,
               gr_activations = (case gro_activations opt of
                  None \<Rightarrow> [FusionSigmoid, FusionTanh] | Some acts \<Rightarrow> acts)\<rparr>,
              [input, weight, recurrentWeight] @ opt_list (gro_bias opt)
                @ opt_list (gro_recurrentBias opt) @ opt_list (gro_initialHiddenState opt),
              if gro_returnSequence opt then 2 else 1))"

definition Gru_CalculateShape :: "gru \<Rightarrow> operand list \<Rightarrow> operand list \<Rightarrow> operand list res" where
  "Gru_CalculateShape op ins outs =
     bindR (shape_of ins 0) (\<lambda>inputShape. bindR (shape_of ins 1) (\<lambda>weightShape.
     bindR (vec_at weightShape 0) (\<lambda>w0. bindR (vec_at inputShape 1) (\<lambda>i1.
     bindR (SetShape outs 0 [w0, i1, to_i32 (gr_hiddenSize op)]) (\<lambda>outs.
       if gro_returnSequence (gr_options op) then
         bindR (vec_at inputShape 0) (\<lambda>i0.
           SetShape outs 1 [i0, w0, i1, to_i32 (gr_hiddenSize op)])
       else ok outs)))))"

definition Gru_infer :: "gru \<Rightarrow> operand list \<Rightarrow> operand list \<Rightarrow> operand list res" where
  "Gru_infer op ins outs =
     (let opt = gr_options op;
          nb = 3;
          nr = nb + (if gro_bias opt \<noteq> None then 1 else 0);
          nh = nr + (if gro_recurrentBias opt \<noteq> None then 1 else 0)
      in
     bindR (base_validate ins outs) (\<lambda>outs.
     bindR (rank_of ins 0) (\<lambda>r.
       if r \<noteq> 3 then validation_error ''Argument input is not a 3D tensor.'' else
     bindR (rank_of ins 1) (\<lambda>r.
       if r \<noteq> 3 then validation_error ''Argument weight is not a 3D tensor.'' else
     bindR (rank_of ins 2) (\<lambda>r.
       if r \<noteq> 3 then validation_error ''Argument recurrentWeight is not a 3D tensor.''
       else if gr_steps op \<le> 0
       then validation_error ''Argument steps value must be greater than 0.''
       else if gr_hiddenSize op \<le> 0
       then validation_error ''Argument hiddenSize value must be a positive integer.'' else
     bindR (opt_rank_ok (gro_bias opt) ins nb 2) (\<lambda>good.
       if \<not> good then validation_error ''Argument bias is not a 2D tensor.'' else
     bindR (opt_rank_ok (gro_recurrentBias opt) ins nr 2) (\<lambda>good.
       if \<not> good then validation_error ''Argument recurrentBias is not a 2D tensor.'' else
     bindR (opt_rank_ok (gro_initialHiddenState opt) ins nh 3) (\<lambda>good.
       if \<not> good then validation_error ''Argument initialHiddenState is not a 3D tensor.''
       else if length (gr_activations op) \<noteq> 2
       then validation_error ''Argument activations is not a sequence of length 2.''
       else Gru_CalculateShape op ins outs))))))))"

section \<open>Input and Constant\<close>

record operand_descriptor =
  od_type :: operand_type
  od_dimensions :: "int list"

text \<open>The bytes from \<open>buffer + byteOffset\<close> to the end of the underlying allocation; \<open>None\<close>
  for a null pointer. \<open>abv_byteLength\<close> is what the caller claims.\<close>

record array_buffer_view =
  abv_bytes :: "nat list option"
  abv_byteLength :: nat

datatype const_op =
    ConstantData operand_descriptor "nat list option" nat
  | ConstantUninit

text \<open>A null descriptor or view leaves the constructor early, with \<open>mBuffer\<close> and
  \<open>mByteLength\<close> uninitialised.\<close>

definition Constant_new ::
  "operand_descriptor option \<Rightarrow> array_buffer_view option \<Rightarrow> const_op" where
  "Constant_new desc view = (case (desc, view) of
       (Some d, Some v) \<Rightarrow> ConstantData d (abv_bytes v) (abv_byteLength v)
     | _ \<Rightarrow> ConstantUninit)"

fun Constant_infer :: "const_op \<Rightarrow> operand list \<Rightarrow> operand list res" where
  "Constant_infer ConstantUninit outs = undef"
| "Constant_infer (ConstantData d buffer byteLength) outs =
     (if buffer = None \<or> byteLength = 0
      then validation_error ''Constant array buffer is invalid.''
      else bindR (SetType outs 0 (od_type d)) (\<lambda>outs. SetShape outs 0 (od_dimensions d)))"

definition Input_infer :: "operand_descriptor \<Rightarrow> operand list \<Rightarrow> operand list res" where
  "Input_infer d outs = bindR (SetType outs 0 (od_type d)) (\<lambda>outs. SetShape outs 0 (od_dimensions d))"

text \<open>Element \<open>k\<close> of the buffer as a little-endian \<open>uint32_t\<close>.\<close>

fun constant_u32 :: "const_op \<Rightarrow> nat \<Rightarrow> int res" where
  "constant_u32 (ConstantData d (Some bytes) n) k =
     (if 4 * k + 3 < length bytes
      then ok (int (bytes ! (4 * k)) + 256 * int (bytes ! (4 * k + 1))
               + 65536 * int (bytes ! (4 * k + 2)) + 16777216 * int (bytes ! (4 * k + 3)))
      else undef)"
| "constant_u32 _ k = undef"

section \<open>Reduced shapes\<close>

lemma last_axis: "rank < 2 ^ 31 \<Longrightarrow> to_i32 (to_u64 (int rank - 1)) = int rank - 1"
proof (cases "rank = 0")
  case True
  then show ?thesis by (simp add: to_i32_def to_u64_def)
next
  case False
  assume "rank < 2 ^ 31"
  then have "int rank < 2 ^ 31" by (simp add: nat_less_iff [symmetric])
  with False show ?thesis by (simp add: to_u64_id to_i32_id in_i32_def)
qed

lemma reduce_check_cases:
  assumes "rank < 2 ^ 31"
  shows "if (\<forall>a \<in> set axes. - 1 \<le> a \<and> a < int rank) \<and> distinct axes \<and> set axes \<inter> set seen = {}
    then reduce_check rank axes seen = ok ()
    else \<exists>msg. reduce_check rank axes seen = validation_error msg"
proof (induction axes arbitrary: seen)
  case (Cons a axes)
  show ?case
  proof (cases "a > int rank - 1 \<or> a < - 1 \<or> a \<in> set seen")
    case True
    then have "\<exists>msg. reduce_check rank (a # axes) seen = validation_error msg"
      using assms by (auto simp: last_axis)
    with True show ?thesis by auto
  next
    case False
    then have "reduce_check rank (a # axes) seen = reduce_check rank axes (a # seen)"
      using assms by (auto simp: last_axis)
    moreover have "((\<forall>a \<in> set (a # axes). - 1 \<le> a \<and> a < int rank) \<and> distinct (a # axes) \<and>
        set (a # axes) \<inter> set seen = {}) \<longleftrightarrow>
        ((\<forall>a \<in> set axes. - 1 \<le> a \<and> a < int rank) \<and> distinct axes \<and> set axes \<inter> set (a # seen) = {})"
      using False by auto
    ultimately show ?thesis using Cons.IH [of "a # seen"] by simp
  qed
qed simp

lemma set_ones:
  assumes "\<forall>a \<in> set axes. 0 \<le> a \<and> a < int (length s)"
  shows "foldR (\<lambda>a s. vec_set s a 1) axes s =
    ok (map (\<lambda>i. if int i \<in> set axes then 1 else s ! i) [0..<length s])"
  using assms
proof (induction axes arbitrary: s)
  case (Cons a axes)
  let ?s = "s[nat a := 1]"
  have "map (\<lambda>i. if int i \<in> set axes then 1 else ?s ! i) [0..<length ?s] =
      map (\<lambda>i. if int i \<in> set (a # axes) then 1 else s ! i) [0..<length s]"
    using Cons.prems by (intro nth_equalityI) (auto simp: nth_list_update)
  with Cons show ?case by (simp add: vec_set_def)
qed (simp add: map_nth)

text \<open>The axes a reduction reduces, with -1 read as the last one.\<close>

definition reduced_axes :: "nat \<Rightarrow> int list \<Rightarrow> nat set" where
  "reduced_axes rank axes = {i. i < rank \<and> (int i \<in> set axes \<or> - 1 \<in> set axes \<and> i = rank - 1)}"

text \<open>
  A reduction is accepted exactly when it names at most as many axes as the input has, each
  in range (-1 is the last) and none twice. Its result has size 1 at the reduced axes, or drops
  them when dimensions are not kept, with the shape (1) when nothing remains.
\<close>

theorem Reduce_infer_shape:
  fixes op :: reduce and x y :: operand
  assumes "\<not> opd_error x" "length (opd_shape x) < 2 ^ 31"
  defines "s \<equiv> opd_shape x" and "R \<equiv> reduced_axes (length (opd_shape x)) (rd_axes op)"
  shows "if length (rd_axes op) \<le> length s \<and> distinct (rd_axes op) \<and>
      (\<forall>a \<in> set (rd_axes op). - 1 \<le> a \<and> a < int (length s))
    then Reduce_infer op [x] [y] = ok [y\<lparr>opd_type := opd_type x, opd_shape :=
      (if rd_keepDimensions op then map (\<lambda>i. if i \<in> R then 1 else s ! i) [0..<length s]
       else let kept = map (\<lambda>i. s ! i) (filter (\<lambda>i. i \<notin> R) [0..<length s])
            in if kept = [] then [1] else kept)\<rparr>]
    else \<exists>msg. Reduce_infer op [x] [y] = validation_error msg"
proof -
  let ?axes = "rd_axes op"
  let ?valid = "length ?axes \<le> length s \<and> distinct ?axes \<and> (\<forall>a \<in> set ?axes. - 1 \<le> a \<and> a < int (length s))"
  note check = reduce_check_cases [OF assms(2), of ?axes "[]", folded s_def]
  show ?thesis
  proof (cases ?valid)
    case True
    let ?m = "map (reduce_axis (length s)) ?axes"
    have ne: "0 < length s" if "a \<in> set ?axes" for a using True that by (cases ?axes) auto
    have axis: "reduce_axis (length s) a = (if a = - 1 then int (length s) - 1 else a)" for a
      using assms(2) by (simp add: reduce_axis_def last_axis s_def)
    have "\<forall>a \<in> set ?m. 0 \<le> a \<and> a < int (length s)"
      using True ne by (fastforce simp: axis)
    note ones = set_ones [OF this]
    have R: "int i \<in> set ?m \<longleftrightarrow> i \<in> R" if "i < length s" for i
    proof -
      have "int i = int (length s) - 1 \<longleftrightarrow> i = length s - 1" using that by linarith
      then show ?thesis
        using that unfolding R_def reduced_axes_def s_def [symmetric] by (auto simp: axis image_iff)
    qed
    have "map (\<lambda>i. if int i \<in> set ?m then 1 else s ! i) [0..<length s] =
        map (\<lambda>i. if i \<in> R then 1 else s ! i) [0..<length s]"
      by (rule map_cong) (simp_all add: R del: set_map)
    moreover have "filter (\<lambda>i. int i \<notin> set ?m) [0..<length s] = filter (\<lambda>i. i \<notin> R) [0..<length s]"
      by (rule filter_cong) (simp_all add: R del: set_map)
    ultimately have "Reduce_CalculateShape op s = ok
        (if rd_keepDimensions op then map (\<lambda>i. if i \<in> R then 1 else s ! i) [0..<length s]
         else let kept = map (\<lambda>i. s ! i) (filter (\<lambda>i. i \<notin> R) [0..<length s])
              in if kept = [] then [1] else kept)"
      unfolding Reduce_CalculateShape_def Let_def ones by simp
    with True check assms(1) show ?thesis by (simp add: Reduce_infer_def s_def [symmetric])
  next
    case False
    then show ?thesis
      using check assms(1) by (auto simp: Reduce_infer_def s_def [symmetric] Let_def split: if_splits)
  qed
qed


theorem Reduce_infer_shape_witness:
  "Reduce_infer \<lparr>rd_type = kReduceSum, rd_axes = [- 1, 0], rd_keepDimensions = False\<rparr>
     [tensor [2, 3, 4]] [tensor []] = ok [tensor [3]]"
  using Reduce_infer_shape [of "tensor [2, 3, 4]"
      "\<lparr>rd_type = kReduceSum, rd_axes = [- 1, 0], rd_keepDimensions = False\<rparr>" "tensor []"]
  by (simp add: reduced_axes_def upt_rec)

end
