(* ===== verification/Error_Scopes.thy ===== *)
theory Error_Scopes
  imports Prelude
begin

text \<open>
  Error reporting of a context: the error-scope stack of \<open>dawn_native/ErrorScope.cpp\<close>,
  the conversions of \<open>webnn_native/Error.cpp\<close> and the context's error entry points in
  \<open>webnn_native/Context.cpp\<close>. Callbacks are numbered; every call to one is an event in
  the context's log.
\<close>

section \<open>Error types\<close>

datatype wgpu_error_type = NoError | ValidationE | OutOfMemoryE | UnknownE | DeviceLostE

datatype ml_error_type = MLNoError | MLValidation | MLOutOfMemory | MLUnknown | MLContextLost

datatype error_filter = FilterValidation | FilterOutOfMemory | FilterOther nat

fun ToDawnErrorType :: "internal_error_type \<Rightarrow> wgpu_error_type" where
  "ToDawnErrorType Validation = ValidationE"
| "ToDawnErrorType OutOfMemory = OutOfMemoryE"
| "ToDawnErrorType Internal = DeviceLostE"
| "ToDawnErrorType ContextLost = DeviceLostE"

fun ToMLErrorType :: "internal_error_type \<Rightarrow> ml_error_type" where
  "ToMLErrorType Validation = MLValidation"
| "ToMLErrorType OutOfMemory = MLOutOfMemory"
| "ToMLErrorType Internal = MLContextLost"
| "ToMLErrorType ContextLost = MLContextLost"

fun FromMLErrorType :: "ml_error_type \<Rightarrow> internal_error_type" where
  "FromMLErrorType MLValidation = Validation"
| "FromMLErrorType MLOutOfMemory = OutOfMemory"
| "FromMLErrorType MLContextLost = ContextLost"
| "FromMLErrorType _ = Internal"

text \<open>The cast \<open>static_cast<MLErrorType>\<close> of a \<open>wgpu::ErrorType\<close>: equal numeric values.\<close>

fun ml_of_wgpu :: "wgpu_error_type \<Rightarrow> ml_error_type" where
  "ml_of_wgpu NoError = MLNoError"
| "ml_of_wgpu ValidationE = MLValidation"
| "ml_of_wgpu OutOfMemoryE = MLOutOfMemory"
| "ml_of_wgpu UnknownE = MLUnknown"
| "ml_of_wgpu DeviceLostE = MLContextLost"

section \<open>Error scopes\<close>

record error_scope =
  mMatchedErrorType :: wgpu_error_type
  mCapturedError :: wgpu_error_type
  mErrorMessage :: string

text \<open>\<open>ErrorFilterToErrorType\<close> and the filter conversion: a value outside the enumeration
  is unreachable.\<close>

fun ErrorFilterToErrorType :: "error_filter \<Rightarrow> wgpu_error_type res" where
  "ErrorFilterToErrorType FilterValidation = ok ValidationE"
| "ErrorFilterToErrorType FilterOutOfMemory = ok OutOfMemoryE"
| "ErrorFilterToErrorType (FilterOther _) = undef"

definition ErrorScope_new :: "wgpu_error_type \<Rightarrow> error_scope" where
  "ErrorScope_new t = \<lparr>mMatchedErrorType = t, mCapturedError = NoError, mErrorMessage = ''''\<rparr>"

text \<open>The stack is the vector \<open>mScopes\<close>, innermost scope last.\<close>

definition ErrorScopeStack_Push :: "error_filter \<Rightarrow> error_scope list \<Rightarrow> error_scope list res" where
  "ErrorScopeStack_Push f scopes =
     bindR (ErrorFilterToErrorType f) (\<lambda>t. ok (scopes @ [ErrorScope_new t]))"

definition ErrorScopeStack_Pop :: "error_scope list \<Rightarrow> (error_scope \<times> error_scope list) res" where
  "ErrorScopeStack_Pop scopes =
     (if scopes = [] then undef else ok (last scopes, butlast scopes))"

text \<open>The loop of \<open>HandleError\<close>, over the scopes from the innermost outwards.\<close>

fun handle_scopes ::
  "wgpu_error_type \<Rightarrow> string \<Rightarrow> error_scope list \<Rightarrow> bool \<times> error_scope list" where
  "handle_scopes type1 msg [] = (False, [])"
| "handle_scopes type1 msg (s # ss) =
     (if mMatchedErrorType s \<noteq> type1
      then (let (c, ss') = handle_scopes type1 msg ss in (c, s # ss'))
      else
        let s1 = (if mCapturedError s = NoError
                  then s\<lparr>mCapturedError := type1, mErrorMessage := msg\<rparr> else s)
        in if type1 = DeviceLostE
           then let s2 = (if mCapturedError s1 \<noteq> DeviceLostE
                          then s1\<lparr>mCapturedError := type1, mErrorMessage := msg\<rparr> else s1);
                    (c, ss') = handle_scopes type1 msg ss
                in (c, s2 # ss')
           else (True, s1 # ss))"

definition ErrorScopeStack_HandleError ::
  "wgpu_error_type \<Rightarrow> string \<Rightarrow> error_scope list \<Rightarrow> bool \<times> error_scope list" where
  "ErrorScopeStack_HandleError type1 msg scopes =
     (let (c, r) = handle_scopes type1 msg (rev scopes) in (c, rev r))"

section \<open>Context\<close>

datatype event = Callback nat ml_error_type string

record context1 =
  mErrorScopeStack :: "error_scope list"
  mUncapturedErrorCallback :: "nat option"
  ctx_events :: "event list"

definition ContextBase :: context1 where
  "ContextBase = \<lparr>mErrorScopeStack = [], mUncapturedErrorCallback = None, ctx_events = []\<rparr>"

definition Context_HandleError :: "internal_error_type \<Rightarrow> string \<Rightarrow> context1 \<Rightarrow> context1" where
  "Context_HandleError type0 msg ctx =
     (let type1 = (if type0 = Internal then ContextLost else type0);
          (captured, scopes) =
            ErrorScopeStack_HandleError (ToDawnErrorType type1) msg (mErrorScopeStack ctx);
          ctx' = ctx\<lparr>mErrorScopeStack := scopes\<rparr>
      in if type1 = ContextLost then ctx'
         else case mUncapturedErrorCallback ctx' of
                Some cb \<Rightarrow>
                  if \<not> captured
                  then ctx'\<lparr>ctx_events := ctx_events ctx' @ [Callback cb (ToMLErrorType type1) msg]\<rparr>
                  else ctx'
              | None \<Rightarrow> ctx')"

text \<open>\<open>ConsumedError\<close>: whether there was an error, and the context after handling it.
  Undefined behaviour stays undefined.\<close>

fun ConsumedError :: "'a res \<Rightarrow> context1 \<Rightarrow> (bool \<times> context1) res" where
  "ConsumedError (Inl UB) ctx = undef"
| "ConsumedError (Inl (Error t msg)) ctx = ok (True, Context_HandleError t msg ctx)"
| "ConsumedError (Inr x) ctx = ok (False, ctx)"

fun ValidateErrorFilter :: "error_filter \<Rightarrow> unit res" where
  "ValidateErrorFilter FilterValidation = ok ()"
| "ValidateErrorFilter FilterOutOfMemory = ok ()"
| "ValidateErrorFilter (FilterOther _) = validation_error ''Invalid value for MLErrorFilter''"

definition APIPushErrorScope :: "error_filter \<Rightarrow> context1 \<Rightarrow> context1 res" where
  "APIPushErrorScope f ctx =
     bindR (ConsumedError (ValidateErrorFilter f) ctx) (\<lambda>(failed, ctx).
       if failed then ok ctx
       else bindR (ErrorScopeStack_Push f (mErrorScopeStack ctx)) (\<lambda>scopes.
              ok (ctx\<lparr>mErrorScopeStack := scopes\<rparr>)))"

definition APIPopErrorScope :: "nat option \<Rightarrow> context1 \<Rightarrow> (bool \<times> context1) res" where
  "APIPopErrorScope callback ctx =
     (if mErrorScopeStack ctx = [] then ok (False, ctx)
      else bindR (ErrorScopeStack_Pop (mErrorScopeStack ctx)) (\<lambda>(scope, scopes).
        let ctx' = ctx\<lparr>mErrorScopeStack := scopes\<rparr> in
        ok (True, case callback of None \<Rightarrow> ctx'
                  | Some cb \<Rightarrow> ctx'\<lparr>ctx_events := ctx_events ctx' @
                      [Callback cb (ml_of_wgpu (mCapturedError scope)) (mErrorMessage scope)]\<rparr>)))"

definition APISetUncapturedErrorCallback :: "nat option \<Rightarrow> context1 \<Rightarrow> context1" where
  "APISetUncapturedErrorCallback callback ctx = ctx\<lparr>mUncapturedErrorCallback := callback\<rparr>"

section \<open>Which scope an error reaches\<close>

text \<open>The record of an error in a scope that matches it: the first error is kept.\<close>

definition capture :: "wgpu_error_type \<Rightarrow> string \<Rightarrow> error_scope \<Rightarrow> error_scope" where
  "capture t msg s =
     (if mCapturedError s = NoError then s\<lparr>mCapturedError := t, mErrorMessage := msg\<rparr> else s)"

lemma matched_new [simp]: "mMatchedErrorType (ErrorScope_new w) = w"
  by (simp add: ErrorScope_new_def)

lemma handle_scopes_skip:
  "\<forall>x \<in> set inner. mMatchedErrorType x \<noteq> t \<Longrightarrow>
     handle_scopes t msg (inner @ ss) =
       (let (c, ss') = handle_scopes t msg ss in (c, inner @ ss'))"
  by (induction inner) (auto simp: split_beta Let_def)

lemma handle_scopes_none:
  "\<forall>x \<in> set ss. mMatchedErrorType x \<noteq> t \<Longrightarrow> handle_scopes t msg ss = (False, ss)"
  by (induction ss) auto

lemma HandleError_none:
  "\<forall>x \<in> set ss. mMatchedErrorType x \<noteq> t \<Longrightarrow> ErrorScopeStack_HandleError t msg ss = (False, ss)"
  by (simp add: ErrorScopeStack_HandleError_def handle_scopes_none)

lemma HandleError_snoc:
  "ErrorScopeStack_HandleError t msg (ss @ [s]) =
     (if mMatchedErrorType s = t \<and> t \<noteq> DeviceLostE then (True, ss @ [capture t msg s])
      else if mMatchedErrorType s = t
      then (let (c, ss') = ErrorScopeStack_HandleError t msg ss in
            (c, ss' @ [if mCapturedError (capture t msg s) \<noteq> DeviceLostE
                       then (capture t msg s)\<lparr>mCapturedError := t, mErrorMessage := msg\<rparr>
                       else capture t msg s]))
      else (let (c, ss') = ErrorScopeStack_HandleError t msg ss in (c, ss' @ [s])))"
  by (simp add: ErrorScopeStack_HandleError_def capture_def Let_def split: prod.split)

text \<open>
  C1. An error that is not a context loss is recorded by the innermost scope whose filter
  matches it, and by no other: that scope keeps its first error and the error counts as
  captured.
\<close>

theorem innermost_scope_captures:
  assumes "t \<noteq> DeviceLostE" and "mMatchedErrorType s = t"
    and "\<forall>x \<in> set inner. mMatchedErrorType x \<noteq> t"
  shows "ErrorScopeStack_HandleError t msg (outer @ s # inner) =
           (True, outer @ (if mCapturedError s = NoError
                           then s\<lparr>mCapturedError := t, mErrorMessage := msg\<rparr> else s) # inner)"
proof -
  have "handle_scopes t msg (rev inner @ s # rev outer) =
          (True, rev inner @ capture t msg s # rev outer)"
    using assms by (subst handle_scopes_skip) (auto simp: capture_def Let_def)
  then show ?thesis by (simp add: ErrorScopeStack_HandleError_def capture_def)
qed

theorem innermost_scope_captures_witness:
  "ErrorScopeStack_HandleError ValidationE ''bad''
     ([ErrorScope_new ValidationE] @ ErrorScope_new ValidationE # [ErrorScope_new OutOfMemoryE]) =
   (True, [ErrorScope_new ValidationE] @
     \<lparr>mMatchedErrorType = ValidationE, mCapturedError = ValidationE, mErrorMessage = ''bad''\<rparr>
     # [ErrorScope_new OutOfMemoryE])"
  using innermost_scope_captures [of ValidationE "ErrorScope_new ValidationE"
      "[ErrorScope_new OutOfMemoryE]" "''bad''" "[ErrorScope_new ValidationE]"]
  by (simp add: ErrorScope_new_def)

section \<open>A scope reports the first error of its kind\<close>

text \<open>A sequence of errors raised on a context.\<close>

fun raise_errors :: "(internal_error_type \<times> string) list \<Rightarrow> context1 \<Rightarrow> context1" where
  "raise_errors [] ctx = ctx"
| "raise_errors ((t, msg) # es) ctx = raise_errors es (Context_HandleError t msg ctx)"

text \<open>The error kind a filter selects, and what a scope with that filter should report.\<close>

definition selects :: "wgpu_error_type \<Rightarrow> internal_error_type \<times> string \<Rightarrow> bool" where
  "selects w e \<longleftrightarrow> ToDawnErrorType (fst e) = w"

definition first_report :: "wgpu_error_type \<Rightarrow> (internal_error_type \<times> string) list \<Rightarrow> ml_error_type \<times> string" where
  "first_report w es = (case filter (selects w) es of
       [] \<Rightarrow> (MLNoError, '''') | e # _ \<Rightarrow> (ml_of_wgpu w, snd e))"

lemma Context_HandleError_match:
  assumes "ToDawnErrorType t = mMatchedErrorType s" and "mMatchedErrorType s \<noteq> DeviceLostE"
  shows "Context_HandleError t msg (ctx\<lparr>mErrorScopeStack := ss @ [s]\<rparr>) =
           ctx\<lparr>mErrorScopeStack := ss @ [capture (mMatchedErrorType s) msg s]\<rparr>"
proof -
  from assms have "t \<noteq> Internal" "t \<noteq> ContextLost" by auto
  with assms show ?thesis
    by (simp add: Context_HandleError_def HandleError_snoc Let_def split: option.splits)
qed

lemma Context_HandleError_pass:
  assumes "ToDawnErrorType t \<noteq> mMatchedErrorType s"
  shows "Context_HandleError t msg (ctx\<lparr>mErrorScopeStack := ss @ [s]\<rparr>) =
           (let ctx' = Context_HandleError t msg (ctx\<lparr>mErrorScopeStack := ss\<rparr>)
            in ctx'\<lparr>mErrorScopeStack := mErrorScopeStack ctx' @ [s]\<rparr>)"
proof -
  have eq: "ToDawnErrorType (if t = Internal then ContextLost else t) = ToDawnErrorType t"
    by simp
  show ?thesis
    using assms unfolding Context_HandleError_def eq
    by (auto simp: HandleError_snoc Let_def split: prod.splits option.splits)
qed

lemma raise_errors_scope:
  assumes "w \<noteq> DeviceLostE" and "mMatchedErrorType s = w"
  shows "raise_errors es (ctx\<lparr>mErrorScopeStack := mErrorScopeStack ctx @ [s]\<rparr>) =
     (let ctx' = raise_errors (filter (\<lambda>e. \<not> selects w e) es) ctx
      in ctx'\<lparr>mErrorScopeStack := mErrorScopeStack ctx' @
           [foldl (\<lambda>s e. capture w (snd e) s) s (filter (selects w) es)]\<rparr>)"
  using assms(2)
proof (induction es arbitrary: ctx s)
  case Nil
  then show ?case by simp
next
  case (Cons e es)
  obtain t msg where e: "e = (t, msg)" by (cases e)
  show ?case
  proof (cases "selects w e")
    case True
    then have "Context_HandleError t msg (ctx\<lparr>mErrorScopeStack := mErrorScopeStack ctx @ [s]\<rparr>) =
        ctx\<lparr>mErrorScopeStack := mErrorScopeStack ctx @ [capture w msg s]\<rparr>"
      using Cons.prems assms(1) Context_HandleError_match [where t = t and s = s and msg = msg and ctx = ctx and ss = "mErrorScopeStack ctx"]
      by (simp add: selects_def e)
    moreover have "mMatchedErrorType (capture w msg s) = w"
      using Cons.prems by (simp add: capture_def)
    ultimately show ?thesis using True Cons.IH [of "capture w msg s" ctx] by (simp add: e)
  next
    case False
    let ?ctx = "Context_HandleError t msg ctx"
    from False have "Context_HandleError t msg (ctx\<lparr>mErrorScopeStack := mErrorScopeStack ctx @ [s]\<rparr>) =
        ?ctx\<lparr>mErrorScopeStack := mErrorScopeStack ?ctx @ [s]\<rparr>"
      using Cons.prems Context_HandleError_pass [where t = t and s = s and msg = msg and ctx = ctx and ss = "mErrorScopeStack ctx"]
      by (simp add: selects_def e Let_def)
    with False show ?thesis using Cons.IH [OF Cons.prems, of ?ctx] by (simp add: e)
  qed
qed

lemma capture_fold:
  assumes "w \<noteq> NoError"
  shows "foldl (\<lambda>s e. capture w (snd e) s) s es =
     (case es of [] \<Rightarrow> s | e # _ \<Rightarrow> capture w (snd e) s)"
proof -
  have "foldl (\<lambda>s e. capture w (snd e) s) s es = s" if "mCapturedError s \<noteq> NoError" for s es
    using that by (induction es) (auto simp: capture_def)
  then show ?thesis using assms by (cases es) (auto simp: capture_def)
qed

text \<open>
  Pushing a scope, raising any sequence of errors and popping the scope calls the callback
  with the first error of the scope's kind (or with no error); everything else about the context
  is as if only the other errors had been raised without the scope.
\<close>

theorem scope_reports_first_error:
  assumes f: "ErrorFilterToErrorType f = ok w" and push: "APIPushErrorScope f ctx = ok ctx1"
  shows "APIPopErrorScope (Some cb) (raise_errors es ctx1) =
     (let ctx' = raise_errors (filter (\<lambda>e. \<not> selects w e) es) ctx;
          (t, msg) = first_report w es
      in ok (True, ctx'\<lparr>ctx_events := ctx_events ctx' @ [Callback cb t msg]\<rparr>))"
proof -
  from f have w: "w = ValidationE \<or> w = OutOfMemoryE" by (cases f) auto
  from f push have ctx1: "ctx1 = ctx\<lparr>mErrorScopeStack := mErrorScopeStack ctx @ [ErrorScope_new w]\<rparr>"
    by (cases f) (auto simp: APIPushErrorScope_def ErrorScopeStack_Push_def)
  have run: "raise_errors es ctx1 =
     (let ctx' = raise_errors (filter (\<lambda>e. \<not> selects w e) es) ctx
      in ctx'\<lparr>mErrorScopeStack := mErrorScopeStack ctx' @
           [case filter (selects w) es of [] \<Rightarrow> ErrorScope_new w
            | e # _ \<Rightarrow> capture w (snd e) (ErrorScope_new w)]\<rparr>)"
    using w raise_errors_scope [of w "ErrorScope_new w" es ctx]
    by (auto simp: ctx1 capture_fold)
  show ?thesis
    using w by (auto simp: run Let_def APIPopErrorScope_def ErrorScopeStack_Pop_def first_report_def
        ErrorScope_new_def capture_def split: list.splits)
qed

theorem scope_reports_first_error_witness:
  "APIPopErrorScope (Some 7) (raise_errors [(OutOfMemory, ''m''), (Validation, ''a''), (Validation, ''b'')]
     (ContextBase\<lparr>mErrorScopeStack := [ErrorScope_new ValidationE]\<rparr>)) =
   ok (True, ContextBase\<lparr>ctx_events := [Callback 7 MLValidation ''a'']\<rparr>)"
proof -
  have f: "ErrorFilterToErrorType FilterValidation = ok ValidationE" by simp
  have push: "APIPushErrorScope FilterValidation ContextBase =
      ok (ContextBase\<lparr>mErrorScopeStack := [ErrorScope_new ValidationE]\<rparr>)"
    by (simp add: APIPushErrorScope_def ErrorScopeStack_Push_def ContextBase_def)
  show ?thesis
    using scope_reports_first_error [OF f push, of 7
        "[(OutOfMemory, ''m''), (Validation, ''a''), (Validation, ''b'')]"]
    by (simp add: selects_def first_report_def ContextBase_def Context_HandleError_def
        ErrorScopeStack_HandleError_def)
qed
section \<open>Internal errors reach nobody\<close>

text \<open>The contexts an application can produce.\<close>

inductive ctx_reachable :: "context1 \<Rightarrow> bool" where
  start: "ctx_reachable ContextBase"
| push: "ctx_reachable c \<Longrightarrow> APIPushErrorScope f c = ok c' \<Longrightarrow> ctx_reachable c'"
| pop: "ctx_reachable c \<Longrightarrow> APIPopErrorScope cb c = ok (b, c') \<Longrightarrow> ctx_reachable c'"
| set_callback: "ctx_reachable c \<Longrightarrow> ctx_reachable (APISetUncapturedErrorCallback cb c)"
| error: "ctx_reachable c \<Longrightarrow> ctx_reachable (Context_HandleError t msg c)"

definition scope_ok :: "error_scope \<Rightarrow> bool" where
  "scope_ok s \<longleftrightarrow> mMatchedErrorType s \<in> {ValidationE, OutOfMemoryE} \<and>
     mCapturedError s \<in> {NoError, mMatchedErrorType s}"

lemma scope_ok_new [simp]:
  "scope_ok (ErrorScope_new w) \<longleftrightarrow> w = ValidationE \<or> w = OutOfMemoryE"
  by (auto simp: scope_ok_def ErrorScope_new_def)

lemma handle_scopes_ok:
  "\<forall>s \<in> set ss. scope_ok s \<Longrightarrow> \<forall>s \<in> set (snd (handle_scopes t msg ss)). scope_ok s"
  by (induction t msg ss rule: handle_scopes.induct)
    (auto simp: scope_ok_def Let_def split_beta split: if_splits)

lemma HandleError_scope_ok:
  "\<forall>s \<in> set ss. scope_ok s \<Longrightarrow> \<forall>s \<in> set (snd (ErrorScopeStack_HandleError t msg ss)). scope_ok s"
  using handle_scopes_ok [of "rev ss" t msg]
  by (simp add: ErrorScopeStack_HandleError_def split_beta Let_def)

lemma Context_HandleError_scopes:
  "mErrorScopeStack (Context_HandleError t msg c) =
     snd (ErrorScopeStack_HandleError (ToDawnErrorType t) msg (mErrorScopeStack c))"
  by (simp add: Context_HandleError_def Let_def split_beta split: option.splits)

lemma ctx_reachable_scopes: "ctx_reachable c \<Longrightarrow> \<forall>s \<in> set (mErrorScopeStack c). scope_ok s"
proof (induction rule: ctx_reachable.induct)
  case start
  show ?case by (simp add: ContextBase_def)
next
  case (push c f c')
  have "\<forall>s \<in> set (snd (ErrorScopeStack_HandleError w m (mErrorScopeStack c))). scope_ok s" for w m
    using push.IH by (rule HandleError_scope_ok)
  with push.IH push.hyps(2) show ?case
    by (cases f) (auto simp: APIPushErrorScope_def ErrorScopeStack_Push_def
        validation_error_def Context_HandleError_scopes)
next
  case (pop c cb b c')
  have "\<forall>s \<in> set (butlast (mErrorScopeStack c)). scope_ok s"
    using pop.IH by (blast dest: in_set_butlastD)
  with pop.IH pop.hyps(2) show ?case
    by (auto simp: APIPopErrorScope_def ErrorScopeStack_Pop_def Let_def
        split: if_splits option.splits)
next
  case (set_callback c cb)
  then show ?case by (simp add: APISetUncapturedErrorCallback_def)
next
  case (error c t msg)
  then show ?case by (simp add: Context_HandleError_scopes HandleError_scope_ok)
qed

text \<open>
  C2. An internal or context-lost error leaves every reachable context unchanged: no scope
  records it, since the filters select validation and out-of-memory errors only, and the
  uncaptured-error callback is not called either.
\<close>

theorem lost_errors_reach_nobody:
  assumes "ctx_reachable c" and "t = Internal \<or> t = ContextLost"
  shows "Context_HandleError t msg c = c"
proof -
  have "\<forall>s \<in> set (mErrorScopeStack c). mMatchedErrorType s \<noteq> DeviceLostE"
    using ctx_reachable_scopes [OF assms(1)] by (auto simp: scope_ok_def)
  then have "ErrorScopeStack_HandleError DeviceLostE msg (mErrorScopeStack c) =
      (False, mErrorScopeStack c)"
    by (rule HandleError_none)
  with assms(2) show ?thesis by (auto simp: Context_HandleError_def)
qed

theorem lost_errors_reach_nobody_witness:
  "Context_HandleError Internal ''Unimplemented: AddSplit''
     (APISetUncapturedErrorCallback (Some 1) ContextBase)
   = APISetUncapturedErrorCallback (Some 1) ContextBase"
  using lost_errors_reach_nobody [OF ctx_reachable.set_callback [OF ctx_reachable.start, of "Some 1"]]
  by simp

end
