(* ===== verification/Graph_Builder.thy ===== *)
theory Graph_Builder
  imports Ops_Elementwise Ops_Conv Ops_Layout Ops_Misc Error_Scopes
begin

text \<open>
  The graph builder of \<open>webnn_native/GraphBuilder.cpp\<close>: the operators with their class
  members, the store of operators and operands a builder has created, and one definition per
  API entry point. Objects are numbered in the order of their creation. An operator whose
  validation fails is unreachable in the source (only its own outputs refer to it), so the
  store keeps the error operand only.
\<close>

section \<open>Operators\<close>

datatype op =
    OpUnary unary_op_type
  | OpLeakyRelu f32
  | OpClamp clamp
  | OpBinary binary_op_type
  | OpGemm gemm
  | OpConv2d conv2d
  | OpPool2d pool2d
  | OpConcat nat
  | OpSplit "nat list" int
  | OpSlice slice
  | OpSqueeze "int list"
  | OpTranspose "int list"
  | OpReshape "int list"
  | OpReduce reduce
  | OpResample2d resample2d
  | OpPad pad_options
  | OpBatchNorm batchnorm_options
  | OpInstanceNorm instancenorm_options
  | OpGru gru
  | OpInput string operand_descriptor
  | OpConstant const_op

text \<open>\<open>class OperatorBase\<close>.\<close>

record operator1 =
  op_kind :: op
  op_inputs :: "nat list"
  op_outputs :: "nat list"
  op_error :: bool

text \<open>The virtual \<open>ValidateAndInferOutputInfo\<close>. The first argument reads the constant behind
  the second input, which only \<open>Pad\<close> does. \<open>LeakyRelu\<close> inherits from \<open>Unary\<close>.\<close>

fun ValidateAndInferOutputInfo ::
  "(nat \<Rightarrow> int res) \<Rightarrow> op \<Rightarrow> operand list \<Rightarrow> operand list \<Rightarrow> operand list res" where
  "ValidateAndInferOutputInfo pb (OpUnary t) ins outs = Unary_infer t ins outs"
| "ValidateAndInferOutputInfo pb (OpLeakyRelu a) ins outs = Unary_infer kLeakyRelu ins outs"
| "ValidateAndInferOutputInfo pb (OpClamp c) ins outs = Clamp_infer ins outs"
| "ValidateAndInferOutputInfo pb (OpBinary t) ins outs = Binary_infer t ins outs"
| "ValidateAndInferOutputInfo pb (OpGemm g) ins outs = Gemm_infer g ins outs"
| "ValidateAndInferOutputInfo pb (OpConv2d c) ins outs = Conv2d_infer c ins outs"
| "ValidateAndInferOutputInfo pb (OpPool2d p) ins outs = Pool2d_infer p ins outs"
| "ValidateAndInferOutputInfo pb (OpConcat a) ins outs = Concat_infer a ins outs"
| "ValidateAndInferOutputInfo pb (OpSplit s a) ins outs = Split_infer s a ins outs"
| "ValidateAndInferOutputInfo pb (OpSlice s) ins outs = Slice_infer s ins outs"
| "ValidateAndInferOutputInfo pb (OpSqueeze a) ins outs = Squeeze_infer a ins outs"
| "ValidateAndInferOutputInfo pb (OpTranspose p) ins outs = Transpose_infer p ins outs"
| "ValidateAndInferOutputInfo pb (OpReshape s) ins outs = Reshape_infer s ins outs"
| "ValidateAndInferOutputInfo pb (OpReduce r) ins outs = Reduce_infer r ins outs"
| "ValidateAndInferOutputInfo pb (OpResample2d r) ins outs = Resample2d_infer r ins outs"
| "ValidateAndInferOutputInfo pb (OpPad opt) ins outs = Pad_infer pb ins outs"
| "ValidateAndInferOutputInfo pb (OpBatchNorm opt) ins outs = BatchNorm_infer opt ins outs"
| "ValidateAndInferOutputInfo pb (OpInstanceNorm opt) ins outs = InstanceNorm_infer opt ins outs"
| "ValidateAndInferOutputInfo pb (OpGru g) ins outs = Gru_infer g ins outs"
| "ValidateAndInferOutputInfo pb (OpInput n d) ins outs = Input_infer d outs"
| "ValidateAndInferOutputInfo pb (OpConstant c) ins outs = Constant_infer c outs"

section \<open>The builder's store\<close>

record builder =
  operands :: "operand list"
  operators :: "operator1 list"
  bld_ctx :: context1

definition GraphBuilderBase :: "context1 \<Rightarrow> builder" where
  "GraphBuilderBase ctx = \<lparr>operands = [], operators = [], bld_ctx = ctx\<rparr>"

text \<open>Dereferencing operand pointers.\<close>

fun get_operands :: "builder \<Rightarrow> nat list \<Rightarrow> operand list res" where
  "get_operands st [] = ok []"
| "get_operands st (i # is) =
     bindR (vec_at (operands st) (int i)) (\<lambda>x. bindR (get_operands st is) (\<lambda>xs. ok (x # xs)))"

text \<open>\<open>reinterpret_cast<const op::Constant*>(mInputs[1]->Operator())->GetBuffer()\<close>: undefined
  unless the operand is produced by a constant.\<close>

definition pad_buffer :: "builder \<Rightarrow> nat list \<Rightarrow> nat \<Rightarrow> int res" where
  "pad_buffer st inputs k =
     bindR (vec_at inputs 1) (\<lambda>p. bindR (vec_at (operands st) (int p)) (\<lambda>x.
       case opd_operator x of None \<Rightarrow> undef
       | Some q \<Rightarrow> bindR (vec_at (operators st) (int q)) (\<lambda>q1.
           case op_kind q1 of OpConstant c \<Rightarrow> constant_u32 c k | _ \<Rightarrow> undef)))"

text \<open>\<open>DAWN_VALIDATE\<close>: construct the operator with its outputs, validate it, and report an error
  to the context. The result is the output operands, \<open>None\<close> after an error.\<close>

definition DAWN_VALIDATE ::
  "builder \<Rightarrow> op \<Rightarrow> nat list \<Rightarrow> nat \<Rightarrow> (nat list option \<times> builder) res" where
  "DAWN_VALIDATE st kind inputs outputSize =
     bindR (get_operands st inputs) (\<lambda>ins.
     let oid = length (operators st);
         outIds = [length (operands st)..<length (operands st) + outputSize];
         r = ValidateAndInferOutputInfo (pad_buffer st inputs) kind ins
               (replicate outputSize (operand_new oid))
     in bindR (ConsumedError r (bld_ctx st)) (\<lambda>(failed, ctx).
          case r of
            Inl _ \<Rightarrow> ok (None, st\<lparr>bld_ctx := ctx\<rparr>)
          | Inr outs \<Rightarrow>
              ok (Some outIds,
                  st\<lparr>operators := operators st @
                        [\<lparr>op_kind = kind, op_inputs = inputs, op_outputs = outIds, op_error = False\<rparr>],
                     operands := operands st @ outs,
                     bld_ctx := ctx\<rparr>)))"

text \<open>\<open>VALIDATE_FOR_OPERAND\<close>: the primary output, or a fresh error operand.\<close>

definition VALIDATE_FOR_OPERAND ::
  "builder \<Rightarrow> op \<Rightarrow> nat list \<Rightarrow> (nat \<times> builder) res" where
  "VALIDATE_FOR_OPERAND st kind inputs =
     bindR (DAWN_VALIDATE st kind inputs 1) (\<lambda>(r, st).
       case r of
         None \<Rightarrow> ok (length (operands st), st\<lparr>operands := operands st @ [operand_MakeError]\<rparr>)
       | Some outs \<Rightarrow> bindR (vec_at outs 0) (\<lambda>x. ok (x, st)))"

text \<open>\<open>class OperandArrayBase\<close> and \<open>VALIDATE_ARRAY_OPERAND\<close>.\<close>

record operand_array =
  oa_operands :: "nat list"
  oa_error :: bool

definition OperandArray_APIGetOperand :: "operand_array \<Rightarrow> nat \<Rightarrow> nat res" where
  "OperandArray_APIGetOperand a index = vec_at (oa_operands a) (int index)"

definition VALIDATE_ARRAY_OPERAND ::
  "builder \<Rightarrow> op \<Rightarrow> nat list \<Rightarrow> nat \<Rightarrow> (operand_array \<times> builder) res" where
  "VALIDATE_ARRAY_OPERAND st kind inputs outputSize =
     bindR (DAWN_VALIDATE st kind inputs outputSize) (\<lambda>(r, st).
       case r of
         None \<Rightarrow> ok (\<lparr>oa_operands = [], oa_error = True\<rparr>, st)
       | Some outs \<Rightarrow> ok (\<lparr>oa_operands = outs, oa_error = False\<rparr>, st))"

section \<open>API entry points\<close>

type_synonym api_result = "(nat \<times> builder) res"

type_synonym api_array_result = "(operand_array \<times> builder) res"

definition APIAbs :: "builder \<Rightarrow> nat \<Rightarrow> api_result" where
  "APIAbs st input = VALIDATE_FOR_OPERAND st (OpUnary kAbs) [input]"

definition APICeil :: "builder \<Rightarrow> nat \<Rightarrow> api_result" where
  "APICeil st input = VALIDATE_FOR_OPERAND st (OpUnary kCeil) [input]"

definition APICos :: "builder \<Rightarrow> nat \<Rightarrow> api_result" where
  "APICos st input = VALIDATE_FOR_OPERAND st (OpUnary kCos) [input]"

definition APIExp :: "builder \<Rightarrow> nat \<Rightarrow> api_result" where
  "APIExp st input = VALIDATE_FOR_OPERAND st (OpUnary kExp) [input]"

definition APIFloor :: "builder \<Rightarrow> nat \<Rightarrow> api_result" where
  "APIFloor st input = VALIDATE_FOR_OPERAND st (OpUnary kFloor) [input]"

definition APIHardSwish :: "builder \<Rightarrow> nat \<Rightarrow> api_result" where
  "APIHardSwish st input = VALIDATE_FOR_OPERAND st (OpUnary kHardSwish) [input]"

definition APILog :: "builder \<Rightarrow> nat \<Rightarrow> api_result" where
  "APILog st input = VALIDATE_FOR_OPERAND st (OpUnary kLog) [input]"

definition APINeg :: "builder \<Rightarrow> nat \<Rightarrow> api_result" where
  "APINeg st input = VALIDATE_FOR_OPERAND st (OpUnary kNeg) [input]"

definition APIRelu :: "builder \<Rightarrow> nat \<Rightarrow> api_result" where
  "APIRelu st input = VALIDATE_FOR_OPERAND st (OpUnary kRelu) [input]"

definition APISigmoid :: "builder \<Rightarrow> nat \<Rightarrow> api_result" where
  "APISigmoid st input = VALIDATE_FOR_OPERAND st (OpUnary kSigmoid) [input]"

definition APISin :: "builder \<Rightarrow> nat \<Rightarrow> api_result" where
  "APISin st input = VALIDATE_FOR_OPERAND st (OpUnary kSin) [input]"

definition APISoftmax :: "builder \<Rightarrow> nat \<Rightarrow> api_result" where
  "APISoftmax st input = VALIDATE_FOR_OPERAND st (OpUnary kSoftmax) [input]"

definition APITan :: "builder \<Rightarrow> nat \<Rightarrow> api_result" where
  "APITan st input = VALIDATE_FOR_OPERAND st (OpUnary kTan) [input]"

definition APITanh :: "builder \<Rightarrow> nat \<Rightarrow> api_result" where
  "APITanh st input = VALIDATE_FOR_OPERAND st (OpUnary kTanh) [input]"

definition APIAdd :: "builder \<Rightarrow> nat \<Rightarrow> nat \<Rightarrow> api_result" where
  "APIAdd st a b = VALIDATE_FOR_OPERAND st (OpBinary kAdd) [a, b]"

definition APIDiv :: "builder \<Rightarrow> nat \<Rightarrow> nat \<Rightarrow> api_result" where
  "APIDiv st a b = VALIDATE_FOR_OPERAND st (OpBinary kDiv) [a, b]"

definition APIMatmul :: "builder \<Rightarrow> nat \<Rightarrow> nat \<Rightarrow> api_result" where
  "APIMatmul st a b = VALIDATE_FOR_OPERAND st (OpBinary kMatMul) [a, b]"

definition APIMax :: "builder \<Rightarrow> nat \<Rightarrow> nat \<Rightarrow> api_result" where
  "APIMax st a b = VALIDATE_FOR_OPERAND st (OpBinary kMax) [a, b]"

definition APIMin :: "builder \<Rightarrow> nat \<Rightarrow> nat \<Rightarrow> api_result" where
  "APIMin st a b = VALIDATE_FOR_OPERAND st (OpBinary kMin) [a, b]"

definition APIMul :: "builder \<Rightarrow> nat \<Rightarrow> nat \<Rightarrow> api_result" where
  "APIMul st a b = VALIDATE_FOR_OPERAND st (OpBinary kMul) [a, b]"

definition APIPow :: "builder \<Rightarrow> nat \<Rightarrow> nat \<Rightarrow> api_result" where
  "APIPow st a b = VALIDATE_FOR_OPERAND st (OpBinary kPower) [a, b]"

definition APISub :: "builder \<Rightarrow> nat \<Rightarrow> nat \<Rightarrow> api_result" where
  "APISub st a b = VALIDATE_FOR_OPERAND st (OpBinary kSub) [a, b]"

definition APIAveragePool2d :: "builder \<Rightarrow> nat \<Rightarrow> pool2d_options option \<Rightarrow> api_result" where
  "APIAveragePool2d st input options = VALIDATE_FOR_OPERAND st (OpPool2d (Pool2d_new kAveragePool2d options)) [input]"

definition APIL2Pool2d :: "builder \<Rightarrow> nat \<Rightarrow> pool2d_options option \<Rightarrow> api_result" where
  "APIL2Pool2d st input options = VALIDATE_FOR_OPERAND st (OpPool2d (Pool2d_new kL2Pool2d options)) [input]"

definition APIMaxPool2d :: "builder \<Rightarrow> nat \<Rightarrow> pool2d_options option \<Rightarrow> api_result" where
  "APIMaxPool2d st input options = VALIDATE_FOR_OPERAND st (OpPool2d (Pool2d_new kMaxPool2d options)) [input]"

text \<open>The constructors of \<open>Reduce\<close> and \<open>Transpose\<close> read the shape of their input.\<close>

definition APIReduce :: "builder \<Rightarrow> reduce_type \<Rightarrow> nat \<Rightarrow> reduce_options option \<Rightarrow> api_result" where
  "APIReduce st opType input options =
     bindR (vec_at (operands st) (int input)) (\<lambda>x.
       VALIDATE_FOR_OPERAND st (OpReduce (Reduce_new opType (opd_shape x) options)) [input])"

definition APIReduceL1 :: "builder \<Rightarrow> nat \<Rightarrow> reduce_options option \<Rightarrow> api_result" where
  "APIReduceL1 st input options = APIReduce st kReduceL1 input options"

definition APIReduceL2 :: "builder \<Rightarrow> nat \<Rightarrow> reduce_options option \<Rightarrow> api_result" where
  "APIReduceL2 st input options = APIReduce st kReduceL2 input options"

definition APIReduceMax :: "builder \<Rightarrow> nat \<Rightarrow> reduce_options option \<Rightarrow> api_result" where
  "APIReduceMax st input options = APIReduce st kReduceMax input options"

definition APIReduceMean :: "builder \<Rightarrow> nat \<Rightarrow> reduce_options option \<Rightarrow> api_result" where
  "APIReduceMean st input options = APIReduce st kReduceMean input options"

definition APIReduceMin :: "builder \<Rightarrow> nat \<Rightarrow> reduce_options option \<Rightarrow> api_result" where
  "APIReduceMin st input options = APIReduce st kReduceMin input options"

definition APIReduceProduct :: "builder \<Rightarrow> nat \<Rightarrow> reduce_options option \<Rightarrow> api_result" where
  "APIReduceProduct st input options = APIReduce st kReduceProduct input options"

definition APIReduceSum :: "builder \<Rightarrow> nat \<Rightarrow> reduce_options option \<Rightarrow> api_result" where
  "APIReduceSum st input options = APIReduce st kReduceSum input options"

definition APIBatchNorm ::
  "builder \<Rightarrow> nat \<Rightarrow> nat \<Rightarrow> nat \<Rightarrow> batchnorm_options option \<Rightarrow> api_result" where
  "APIBatchNorm st input mean variance options =
     (case BatchNorm_new input mean variance options of
        (opt, inputs) \<Rightarrow> VALIDATE_FOR_OPERAND st (OpBatchNorm opt) inputs)"

definition APIClamp :: "builder \<Rightarrow> nat \<Rightarrow> clamp_options option \<Rightarrow> api_result" where
  "APIClamp st input options = VALIDATE_FOR_OPERAND st (OpClamp (ClampBase options)) [input]"

definition APIConcat :: "builder \<Rightarrow> nat list \<Rightarrow> nat \<Rightarrow> api_result" where
  "APIConcat st inputs axis = VALIDATE_FOR_OPERAND st (OpConcat axis) inputs"

definition APIConstant ::
  "builder \<Rightarrow> operand_descriptor option \<Rightarrow> array_buffer_view option \<Rightarrow> api_result" where
  "APIConstant st desc view = VALIDATE_FOR_OPERAND st (OpConstant (Constant_new desc view)) []"

definition APIConv2d :: "builder \<Rightarrow> nat \<Rightarrow> nat \<Rightarrow> conv2d_options option \<Rightarrow> api_result" where
  "APIConv2d st input filt options =
     (case Conv2d_new input filt options of
        (c, inputs) \<Rightarrow> VALIDATE_FOR_OPERAND st (OpConv2d c) inputs)"

definition APIGemm :: "builder \<Rightarrow> nat \<Rightarrow> nat \<Rightarrow> gemm_options option \<Rightarrow> api_result" where
  "APIGemm st a b options =
     (case Gemm_new a b options of (g, inputs) \<Rightarrow> VALIDATE_FOR_OPERAND st (OpGemm g) inputs)"

definition APIGru ::
  "builder \<Rightarrow> nat \<Rightarrow> nat \<Rightarrow> nat \<Rightarrow> int \<Rightarrow> int \<Rightarrow> gru_options option \<Rightarrow> api_array_result" where
  "APIGru st input weight recurrentWeight steps hiddenSize options =
     bindR (Gru_new input weight recurrentWeight steps hiddenSize options) (\<lambda>(g, inputs, n).
       VALIDATE_ARRAY_OPERAND st (OpGru g) inputs n)"

definition APIInput :: "builder \<Rightarrow> string \<Rightarrow> operand_descriptor \<Rightarrow> api_result" where
  "APIInput st name desc = VALIDATE_FOR_OPERAND st (OpInput name desc) []"

definition APIInstanceNorm :: "builder \<Rightarrow> nat \<Rightarrow> instancenorm_options option \<Rightarrow> api_result" where
  "APIInstanceNorm st input options =
     (case InstanceNorm_new input options of
        (opt, inputs) \<Rightarrow> VALIDATE_FOR_OPERAND st (OpInstanceNorm opt) inputs)"

definition APILeakyRelu :: "builder \<Rightarrow> nat \<Rightarrow> f32 option \<Rightarrow> api_result" where
  "APILeakyRelu st input options = VALIDATE_FOR_OPERAND st (OpLeakyRelu (LeakyReluBase options)) [input]"

definition APIPad :: "builder \<Rightarrow> nat \<Rightarrow> nat \<Rightarrow> pad_options option \<Rightarrow> api_result" where
  "APIPad st input padding options = VALIDATE_FOR_OPERAND st (OpPad (Pad_new options)) [input, padding]"

definition APIResample2d :: "builder \<Rightarrow> nat \<Rightarrow> resample2d_options option \<Rightarrow> api_result" where
  "APIResample2d st input options =
     VALIDATE_FOR_OPERAND st (OpResample2d (Resample2d_new options)) [input]"

definition APIReshape :: "builder \<Rightarrow> nat \<Rightarrow> int list \<Rightarrow> api_result" where
  "APIReshape st input new_shape = VALIDATE_FOR_OPERAND st (OpReshape new_shape) [input]"

definition APISlice ::
  "builder \<Rightarrow> nat \<Rightarrow> int list \<Rightarrow> int list \<Rightarrow> int list option \<Rightarrow> api_result" where
  "APISlice st input starts sizes axes =
     VALIDATE_FOR_OPERAND st
       (OpSlice \<lparr>sl_starts = starts, sl_sizes = sizes,
                 sl_axes = (case axes of None \<Rightarrow> [] | Some xs \<Rightarrow> xs)\<rparr>) [input]"

definition APISplit :: "builder \<Rightarrow> nat \<Rightarrow> nat list \<Rightarrow> int option \<Rightarrow> api_array_result" where
  "APISplit st input splits axis =
     VALIDATE_ARRAY_OPERAND st (OpSplit splits (case axis of None \<Rightarrow> 0 | Some a \<Rightarrow> a)) [input]
       (split_outputs splits)"

definition APISqueeze :: "builder \<Rightarrow> nat \<Rightarrow> int list option \<Rightarrow> api_result" where
  "APISqueeze st input axes =
     VALIDATE_FOR_OPERAND st (OpSqueeze (case axes of None \<Rightarrow> [] | Some xs \<Rightarrow> xs)) [input]"

definition APITranspose :: "builder \<Rightarrow> nat \<Rightarrow> int list option \<Rightarrow> api_result" where
  "APITranspose st input permutation =
     bindR (vec_at (operands st) (int input)) (\<lambda>x.
       VALIDATE_FOR_OPERAND st (OpTranspose (Transpose_new (opd_shape x) permutation)) [input])"

text \<open>Fusion operators carry a type and, for clamp and leaky ReLU, their parameters.\<close>

datatype fusion_operator =
    FusionOp fusion_type
  | FusionClampOp clamp
  | FusionLeakyReluOp f32

definition APIClampOperator :: "clamp_options option \<Rightarrow> fusion_operator" where
  "APIClampOperator options = FusionClampOp (ClampBase options)"

definition APIHardSwishOperator :: fusion_operator where
  "APIHardSwishOperator = FusionOp FusionHardSwish"

definition APILeakyReluOperator :: "f32 option \<Rightarrow> fusion_operator" where
  "APILeakyReluOperator options = FusionLeakyReluOp (LeakyReluBase options)"

definition APIReluOperator :: fusion_operator where
  "APIReluOperator = FusionOp FusionRelu"

definition APISigmoidOperator :: fusion_operator where
  "APISigmoidOperator = FusionOp FusionSigmoid"

definition APITanhOperator :: fusion_operator where
  "APITanhOperator = FusionOp FusionTanh"

fun GetFusionType :: "fusion_operator \<Rightarrow> fusion_type" where
  "GetFusionType (FusionOp t) = t"
| "GetFusionType (FusionClampOp c) = FusionClamp"
| "GetFusionType (FusionLeakyReluOp a) = FusionLeakyRelu"

end
