(* ===== verification/Op_Contract.thy ===== *)
theory Op_Contract
  imports Graph_Builder
begin

text \<open>
  The contract between the graph builder and the operator classes, as two locales: inference
  never changes which operator an output belongs to nor its error tag, and an operator with
  inputs refuses error operands before anything else. Every operator class is an instance.
\<close>

section \<open>The contract\<close>

definition same_frame :: "operand list \<Rightarrow> operand list \<Rightarrow> bool" where
  "same_frame outs outs' \<longleftrightarrow>
     list_all2 (\<lambda>a b. opd_operator b = opd_operator a \<and> opd_error b = opd_error a) outs outs'"

lemma same_frame_refl [simp]: "same_frame outs outs"
  by (simp add: same_frame_def list_all2_same)

lemma same_frame_trans: "same_frame a b \<Longrightarrow> same_frame b c \<Longrightarrow> same_frame a c"
  unfolding same_frame_def by (rule list_all2_trans) auto

lemma same_frame_length: "same_frame outs outs' \<Longrightarrow> length outs' = length outs"
  by (simp add: same_frame_def list_all2_lengthD)

lemma same_frame_nth:
  "same_frame outs outs' \<Longrightarrow> k < length outs \<Longrightarrow>
     opd_operator (outs' ! k) = opd_operator (outs ! k) \<and> opd_error (outs' ! k) = opd_error (outs ! k)"
  by (simp add: same_frame_def list_all2_conv_all_nth)

lemma same_frame_update:
  "same_frame outs outs' \<Longrightarrow> opd_operator x = opd_operator (outs' ! i) \<Longrightarrow>
     opd_error x = opd_error (outs' ! i) \<Longrightarrow> same_frame outs (outs'[i := x])"
  by (cases "i < length outs'")
    (auto simp: same_frame_def list_all2_conv_all_nth nth_list_update list_update_beyond)

lemma SetShape_frame: "SetShape outs i s = Inr outs' \<Longrightarrow> same_frame outs outs'"
  by (auto simp: res_iff intro: same_frame_update)

lemma SetType_frame: "SetType outs i t = Inr outs' \<Longrightarrow> same_frame outs outs'"
  by (auto simp: res_iff intro: same_frame_update)

lemma base_validate_frame: "base_validate ins outs = Inr outs' \<Longrightarrow> same_frame outs outs'"
  by (auto simp: base_validate_def split: if_splits dest: SetType_frame)

locale inference =
  fixes infer :: "operand list \<Rightarrow> operand list \<Rightarrow> operand list res"
  assumes frame: "infer ins outs = Inr outs' \<Longrightarrow> same_frame outs outs'"
begin

lemma frame_length: "infer ins outs = Inr outs' \<Longrightarrow> length outs' = length outs"
  by (rule same_frame_length) (rule frame)

lemma frame_replicate:
  "infer ins (replicate n (operand_new oid)) = Inr outs' \<Longrightarrow> x \<in> set outs' \<Longrightarrow>
     opd_operator x = Some oid \<and> \<not> opd_error x"
  using frame [of ins "replicate n (operand_new oid)" outs']
  by (auto simp: in_set_conv_nth operand_new_def dest!: same_frame_length
      dest: same_frame_nth [OF frame])

end

locale checked_inference = inference +
  assumes rejects: "i \<in> set ins \<Longrightarrow> opd_error i \<Longrightarrow>
    infer ins outs = validation_error ''Argument inputs are invalid.''"
begin

lemma accepted_inputs: "infer ins outs = Inr outs' \<Longrightarrow> i \<in> set ins \<Longrightarrow> \<not> opd_error i"
  using rejects [of i ins outs] by auto

end

section \<open>The operator classes\<close>

named_theorems infer_defs

declare Unary_infer_def [infer_defs] Clamp_infer_def [infer_defs] Binary_infer_def [infer_defs]
  Gemm_infer_def [infer_defs] Conv2d_infer_def [infer_defs] Pool2d_infer_def [infer_defs]
  Concat_infer_def [infer_defs] Split_infer_def [infer_defs] Slice_infer_def [infer_defs]
  Squeeze_infer_def [infer_defs] Transpose_infer_def [infer_defs] Reshape_infer_def [infer_defs]
  Reduce_infer_def [infer_defs] Resample2d_infer_def [infer_defs] Pad_infer_def [infer_defs]
  BatchNorm_infer_def [infer_defs] InstanceNorm_infer_def [infer_defs] Gru_infer_def [infer_defs]

lemma split_step_frame:
  "split_step splits axis i (s, d, outs) = Inr (s', d', outs') \<Longrightarrow> same_frame outs outs'"
  by (auto simp: split_step_def bindR_Inr_iff dest: SetShape_frame)

lemma split_fold_frame:
  "foldR (split_step splits axis) is (s, d, outs) = Inr (s', d', outs') \<Longrightarrow> same_frame outs outs'"
proof (induction "is" arbitrary: s d outs)
  case Nil
  then show ?case by simp
next
  case (Cons i "is")
  then obtain t where t: "split_step splits axis i (s, d, outs) = Inr t"
    and rest: "foldR (split_step splits axis) is t = Inr (s', d', outs')"
    by (auto simp: bindR_Inr_iff)
  obtain s1 d1 o1 where "t = (s1, d1, o1)" by (cases t)
  with t rest Cons.IH show ?case by (blast intro: same_frame_trans dest: split_step_frame)
qed

lemma Split_CalculateShape_frame:
  "Split_CalculateShape splits a s outs = Inr outs' \<Longrightarrow> same_frame outs outs'"
  by (auto simp: Split_CalculateShape_def Let_def bindR_Inr_iff split: if_splits list.splits
      dest: split_fold_frame)

lemma Gru_CalculateShape_frame:
  "Gru_CalculateShape op ins outs = Inr outs' \<Longrightarrow> same_frame outs outs'"
  by (auto simp: Gru_CalculateShape_def bindR_Inr_iff split: if_splits
      intro: same_frame_trans dest!: SetShape_frame)

lemmas frame_dests = base_validate_frame SetShape_frame SetType_frame
  Split_CalculateShape_frame Gru_CalculateShape_frame

interpretation unary_op: checked_inference "Unary_infer t" for t
  by unfold_locales (auto simp: infer_defs base_validate_error bindR_Inr_iff Let_def
      split: if_splits dest!: frame_dests intro: same_frame_trans)

interpretation clamp_op: checked_inference Clamp_infer
  by unfold_locales (auto simp: infer_defs base_validate_error bindR_Inr_iff Let_def
      split: if_splits dest!: frame_dests intro: same_frame_trans)

interpretation binary_op: checked_inference "Binary_infer t" for t
  by unfold_locales (auto simp: infer_defs base_validate_error bindR_Inr_iff Let_def
      split: if_splits dest!: frame_dests intro: same_frame_trans)

interpretation gemm_op: checked_inference "Gemm_infer g" for g
  by unfold_locales (auto simp: infer_defs base_validate_error bindR_Inr_iff Let_def
      split: if_splits dest!: frame_dests intro: same_frame_trans)

interpretation conv2d_op: checked_inference "Conv2d_infer c" for c
  by unfold_locales (auto simp: infer_defs base_validate_error bindR_Inr_iff Let_def
      split: if_splits dest!: frame_dests intro: same_frame_trans)

interpretation pool2d_op: checked_inference "Pool2d_infer p" for p
  by unfold_locales (auto simp: infer_defs base_validate_error bindR_Inr_iff Let_def
      split: if_splits dest!: frame_dests intro: same_frame_trans)

interpretation concat_op: checked_inference "Concat_infer a" for a
  by unfold_locales (auto simp: infer_defs base_validate_error bindR_Inr_iff Let_def
      split: if_splits dest!: frame_dests intro: same_frame_trans)

interpretation split_op: checked_inference "Split_infer s a" for s a
  by unfold_locales (auto simp: infer_defs base_validate_error bindR_Inr_iff Let_def
      split: if_splits dest!: frame_dests intro: same_frame_trans)

interpretation slice_op: checked_inference "Slice_infer s" for s
  by unfold_locales (auto simp: infer_defs base_validate_error bindR_Inr_iff Let_def
      split: if_splits dest!: frame_dests intro: same_frame_trans)

interpretation squeeze_op: checked_inference "Squeeze_infer a" for a
  by unfold_locales (auto simp: infer_defs base_validate_error bindR_Inr_iff Let_def
      split: if_splits dest!: frame_dests intro: same_frame_trans)

interpretation transpose_op: checked_inference "Transpose_infer p" for p
  by unfold_locales (auto simp: infer_defs base_validate_error bindR_Inr_iff Let_def
      split: if_splits dest!: frame_dests intro: same_frame_trans)

interpretation reshape_op: checked_inference "Reshape_infer s" for s
  by unfold_locales (auto simp: infer_defs base_validate_error bindR_Inr_iff Let_def
      split: if_splits dest!: frame_dests intro: same_frame_trans)

interpretation reduce_op: checked_inference "Reduce_infer r" for r
  by unfold_locales (auto simp: infer_defs base_validate_error bindR_Inr_iff Let_def
      split: if_splits dest!: frame_dests intro: same_frame_trans)

interpretation resample2d_op: checked_inference "Resample2d_infer r" for r
  by unfold_locales (auto simp: infer_defs base_validate_error bindR_Inr_iff Let_def
      split: if_splits dest!: frame_dests intro: same_frame_trans)

interpretation pad_op: checked_inference "Pad_infer pb" for pb
  by unfold_locales (auto simp: infer_defs base_validate_error bindR_Inr_iff Let_def
      split: if_splits dest!: frame_dests intro: same_frame_trans)

interpretation batchnorm_op: checked_inference "BatchNorm_infer opt" for opt
  by unfold_locales (auto simp: infer_defs base_validate_error bindR_Inr_iff Let_def
      split: if_splits dest!: frame_dests intro: same_frame_trans)

interpretation instancenorm_op: checked_inference "InstanceNorm_infer opt" for opt
  by unfold_locales (auto simp: infer_defs base_validate_error bindR_Inr_iff Let_def
      split: if_splits dest!: frame_dests intro: same_frame_trans)

interpretation gru_op: checked_inference "Gru_infer g" for g
  by unfold_locales (auto simp: infer_defs base_validate_error bindR_Inr_iff Let_def
      split: if_splits dest!: frame_dests intro: same_frame_trans)

interpretation input_op: inference "\<lambda>ins. Input_infer d" for d
  by unfold_locales (auto simp: Input_infer_def bindR_Inr_iff dest!: frame_dests
      intro: same_frame_trans)

interpretation constant_op: inference "\<lambda>ins. Constant_infer c" for c
proof unfold_locales
  fix outs outs'
  assume "Constant_infer c outs = Inr outs'"
  then show "same_frame outs outs'"
    by (cases c) (auto simp: bindR_Inr_iff split: if_splits dest!: frame_dests
        intro: same_frame_trans)
qed

section \<open>The virtual call\<close>

lemmas class_frames = unary_op.frame clamp_op.frame binary_op.frame gemm_op.frame conv2d_op.frame
  pool2d_op.frame concat_op.frame split_op.frame slice_op.frame squeeze_op.frame transpose_op.frame
  reshape_op.frame reduce_op.frame resample2d_op.frame pad_op.frame batchnorm_op.frame
  instancenorm_op.frame gru_op.frame input_op.frame constant_op.frame

lemmas class_rejects = unary_op.rejects clamp_op.rejects binary_op.rejects gemm_op.rejects
  conv2d_op.rejects pool2d_op.rejects concat_op.rejects split_op.rejects slice_op.rejects
  squeeze_op.rejects transpose_op.rejects reshape_op.rejects reduce_op.rejects
  resample2d_op.rejects pad_op.rejects batchnorm_op.rejects instancenorm_op.rejects gru_op.rejects

interpretation op_dispatch: inference "ValidateAndInferOutputInfo pb k" for pb k
proof unfold_locales
  fix ins outs outs'
  assume "ValidateAndInferOutputInfo pb k ins outs = Inr outs'"
  then show "same_frame outs outs'" by (cases k) (simp_all add: class_frames)
qed

text \<open>Operators that take no inputs skip the check of the base class.\<close>

definition takes_inputs :: "op \<Rightarrow> bool" where
  "takes_inputs k = (case k of OpInput _ _ \<Rightarrow> False | OpConstant _ \<Rightarrow> False | _ \<Rightarrow> True)"

lemma dispatch_rejects:
  "takes_inputs k \<Longrightarrow> i \<in> set ins \<Longrightarrow> opd_error i \<Longrightarrow>
     ValidateAndInferOutputInfo pb k ins outs = validation_error ''Argument inputs are invalid.''"
  by (cases k) (simp_all add: class_rejects takes_inputs_def)

end
