(* ===== verification/Builder_Invariant.thy ===== *)
theory Builder_Invariant
  imports Op_Contract
begin

text \<open>
  The invariant of the builder's store and its preservation by every API entry point: every
  operand is an error operand or an output of the operator it names, and the inputs of an
  operator are valid operands made by earlier operators, so the graph has no cycles.
\<close>

section \<open>Well-formed stores\<close>

text \<open>Operand \<open>i\<close> as an input of operator \<open>n\<close>.\<close>

definition input_ok :: "builder \<Rightarrow> nat \<Rightarrow> nat \<Rightarrow> bool" where
  "input_ok st n i \<longleftrightarrow> i < length (operands st) \<and> \<not> opd_error (operands st ! i) \<and>
     (case opd_operator (operands st ! i) of None \<Rightarrow> False | Some p \<Rightarrow> p < n)"

definition output_ok :: "builder \<Rightarrow> nat \<Rightarrow> nat \<Rightarrow> bool" where
  "output_ok st n i \<longleftrightarrow> i < length (operands st) \<and> \<not> opd_error (operands st ! i) \<and>
     opd_operator (operands st ! i) = Some n"

definition operator_ok :: "builder \<Rightarrow> nat \<Rightarrow> bool" where
  "operator_ok st n \<longleftrightarrow> \<not> op_error (operators st ! n) \<and>
     list_all (input_ok st n) (op_inputs (operators st ! n)) \<and>
     list_all (output_ok st n) (op_outputs (operators st ! n))"

definition operand_ok :: "builder \<Rightarrow> nat \<Rightarrow> bool" where
  "operand_ok st i \<longleftrightarrow> (case opd_operator (operands st ! i) of
       None \<Rightarrow> opd_error (operands st ! i)
     | Some n \<Rightarrow> \<not> opd_error (operands st ! i) \<and> n < length (operators st) \<and>
         i \<in> set (op_outputs (operators st ! n)))"

definition wf_builder :: "builder \<Rightarrow> bool" where
  "wf_builder st \<longleftrightarrow> (\<forall>n < length (operators st). operator_ok st n) \<and>
     (\<forall>i < length (operands st). operand_ok st i)"

lemma get_operands_Inr_iff [res_iff]:
  "get_operands st is = Inr xs \<longleftrightarrow>
     (\<forall>i \<in> set is. i < length (operands st)) \<and> xs = map (\<lambda>i. operands st ! i) is"
  by (induction "is" arbitrary: xs) (auto simp: res_iff)

lemma wf_GraphBuilderBase: "wf_builder (GraphBuilderBase ctx)"
  by (simp add: wf_builder_def GraphBuilderBase_def)

lemma wf_builder_ctx [simp]: "wf_builder (st\<lparr>bld_ctx := ctx\<rparr>) = wf_builder st"
proof -
  have "input_ok (st\<lparr>bld_ctx := ctx\<rparr>) = input_ok st" "output_ok (st\<lparr>bld_ctx := ctx\<rparr>) = output_ok st"
    by (simp_all add: fun_eq_iff input_ok_def output_ok_def)
  moreover have "operand_ok (st\<lparr>bld_ctx := ctx\<rparr>) = operand_ok st"
    by (simp add: fun_eq_iff operand_ok_def split: option.split)
  ultimately show ?thesis by (simp add: wf_builder_def operator_ok_def)
qed

text \<open>Appending operands and operators keeps what was there.\<close>

lemma input_ok_grow:
  "input_ok st n i \<Longrightarrow> operands st' = operands st @ xs \<Longrightarrow> input_ok st' n i"
  by (auto simp: input_ok_def nth_append)

lemma output_ok_grow:
  "output_ok st n i \<Longrightarrow> operands st' = operands st @ xs \<Longrightarrow> output_ok st' n i"
  by (auto simp: output_ok_def nth_append)

lemma operator_ok_grow:
  assumes "operator_ok st n" "n < length (operators st)"
    and "operands st' = operands st @ xs" "operators st' = operators st @ ys"
  shows "operator_ok st' n"
  using assms by (auto simp: operator_ok_def list_all_iff nth_append
      intro: input_ok_grow output_ok_grow)

lemma operand_ok_grow:
  assumes "operand_ok st i" "i < length (operands st)"
    and "operands st' = operands st @ xs" "operators st' = operators st @ ys"
  shows "operand_ok st' i"
  using assms by (auto simp: operand_ok_def nth_append split: option.splits)

lemma wf_add_error:
  assumes "wf_builder st"
  shows "wf_builder (st\<lparr>operands := operands st @ [operand_MakeError]\<rparr>)" (is "wf_builder ?st'")
  unfolding wf_builder_def
proof (intro conjI allI impI)
  fix n assume "n < length (operators ?st')"
  with assms show "operator_ok ?st' n"
    by (intro operator_ok_grow [of st n ?st' _ "[]"]) (auto simp: wf_builder_def)
next
  fix i assume i: "i < length (operands ?st')"
  show "operand_ok ?st' i"
  proof (cases "i < length (operands st)")
    case True
    with assms show ?thesis
      by (intro operand_ok_grow [of st i ?st' _ "[]"]) (auto simp: wf_builder_def)
  next
    case False
    with i have "i = length (operands st)" by simp
    then show ?thesis by (simp add: operand_ok_def operand_MakeError_def)
  qed
qed

text \<open>Adding a validated operator with its outputs.\<close>

lemma wf_add_operator:
  assumes wf: "wf_builder st"
    and ins: "\<forall>i \<in> set inputs. i < length (operands st) \<and> \<not> opd_error (operands st ! i)"
    and outs: "length outs = n"
      "\<forall>x \<in> set outs. opd_operator x = Some (length (operators st)) \<and> \<not> opd_error x"
    and st': "operands st' = operands st @ outs"
      "operators st' = operators st @ [\<lparr>op_kind = k, op_inputs = inputs,
         op_outputs = [length (operands st)..<length (operands st) + n], op_error = False\<rparr>]"
  shows "wf_builder st'"
  unfolding wf_builder_def
proof (intro conjI allI impI)
  fix m assume m: "m < length (operators st')"
  show "operator_ok st' m"
  proof (cases "m < length (operators st)")
    case True
    with wf st' show ?thesis by (auto intro: operator_ok_grow simp: wf_builder_def)
  next
    case False
    with m st' have m: "m = length (operators st)" by simp
    have "input_ok st' m i" if i: "i \<in> set inputs" for i
    proof -
      from i ins have "i < length (operands st)" "\<not> opd_error (operands st ! i)" by auto
      moreover from this wf have "operand_ok st i" by (simp add: wf_builder_def)
      ultimately show ?thesis
        by (auto simp: input_ok_def operand_ok_def st' nth_append m split: option.splits)
    qed
    moreover have "output_ok st' m i" if "i \<in> {length (operands st)..<length (operands st) + n}" for i
      using that outs by (auto simp: output_ok_def st' nth_append m)
    ultimately show ?thesis
      by (auto simp: operator_ok_def list_all_iff st' m)
  qed
next
  fix i assume i: "i < length (operands st')"
  show "operand_ok st' i"
  proof (cases "i < length (operands st)")
    case True
    with wf st' show ?thesis by (auto intro: operand_ok_grow simp: wf_builder_def)
  next
    case False
    with i outs st' have "outs ! (i - length (operands st)) \<in> set outs"
      "i < length (operands st) + n" by auto
    with False outs show ?thesis
      by (auto simp: operand_ok_def st' nth_append split: option.splits)
  qed
qed

section \<open>Validation preserves the invariant\<close>

text \<open>The two ways \<open>DAWN_VALIDATE\<close> can return.\<close>

lemma DAWN_VALIDATE_cases:
  assumes "DAWN_VALIDATE st k inputs n = Inr (r, st')"
  obtains (failed) t msg where "r = None" "st' = st\<lparr>bld_ctx := Context_HandleError t msg (bld_ctx st)\<rparr>"
  | (created) outs where "r = Some [length (operands st)..<length (operands st) + n]"
      "\<forall>i \<in> set inputs. i < length (operands st)"
      "ValidateAndInferOutputInfo (pad_buffer st inputs) k (map (\<lambda>i. operands st ! i) inputs)
         (replicate n (operand_new (length (operators st)))) = Inr outs"
      "operands st' = operands st @ outs" "bld_ctx st' = bld_ctx st"
      "operators st' = operators st @ [\<lparr>op_kind = k, op_inputs = inputs,
         op_outputs = [length (operands st)..<length (operands st) + n], op_error = False\<rparr>]"
proof -
  from assms have g: "\<forall>i \<in> set inputs. i < length (operands st)"
    by (auto simp: DAWN_VALIDATE_def res_iff)
  let ?r = "ValidateAndInferOutputInfo (pad_buffer st inputs) k (map (\<lambda>i. operands st ! i) inputs)
      (replicate n (operand_new (length (operators st))))"
  from g have get: "get_operands st inputs = Inr (map (\<lambda>i. operands st ! i) inputs)"
    by (simp add: res_iff)
  show thesis
  proof (cases ?r)
    case (Inl e)
    with assms get that(1) show thesis
      by (cases e) (auto simp: DAWN_VALIDATE_def Let_def)
  next
    case (Inr outs)
    with assms get g that(2) show thesis by (auto simp: DAWN_VALIDATE_def Let_def)
  qed
qed

definition takes_or_empty :: "op \<Rightarrow> nat list \<Rightarrow> bool" where
  "takes_or_empty k inputs \<longleftrightarrow> takes_inputs k \<or> inputs = []"

lemma DAWN_VALIDATE_wf:
  assumes "DAWN_VALIDATE st k inputs n = Inr (r, st')" "wf_builder st" "takes_or_empty k inputs"
  shows "wf_builder st'"
  using assms(1)
proof (cases rule: DAWN_VALIDATE_cases)
  case (failed t msg)
  with assms(2) show ?thesis by simp
next
  case (created outs)
  have "\<not> opd_error (operands st ! i)" if "i \<in> set inputs" for i
  proof
    assume "opd_error (operands st ! i)"
    moreover from that have "takes_inputs k" using assms(3) by (auto simp: takes_or_empty_def)
    ultimately show False
      using created(3) that dispatch_rejects
        [of k "operands st ! i" "map (\<lambda>i. operands st ! i) inputs"] by auto
  qed
  with created(2) have ins: "\<forall>i \<in> set inputs. i < length (operands st) \<and> \<not> opd_error (operands st ! i)"
    by blast
  have "length outs = n"
    using op_dispatch.frame_length [OF created(3)] by simp
  moreover have "\<forall>x \<in> set outs. opd_operator x = Some (length (operators st)) \<and> \<not> opd_error x"
    using op_dispatch.frame_replicate [OF created(3)] by blast
  ultimately show ?thesis
    using wf_add_operator [OF assms(2) ins _ _ created(4,6)] by blast
qed

lemma VALIDATE_FOR_OPERAND_wf:
  assumes "VALIDATE_FOR_OPERAND st k inputs = Inr (r, st')" "wf_builder st" "takes_or_empty k inputs"
  shows "wf_builder st'"
  using assms by (auto simp: VALIDATE_FOR_OPERAND_def bindR_Inr_iff wf_add_error
      split: option.splits dest: DAWN_VALIDATE_wf)

lemma VALIDATE_ARRAY_OPERAND_wf:
  assumes "VALIDATE_ARRAY_OPERAND st k inputs n = Inr (r, st')" "wf_builder st" "takes_or_empty k inputs"
  shows "wf_builder st'"
  using assms by (auto simp: VALIDATE_ARRAY_OPERAND_def bindR_Inr_iff
      split: option.splits dest: DAWN_VALIDATE_wf)

section \<open>Every API call\<close>

inductive api_step :: "builder \<Rightarrow> builder \<Rightarrow> bool" where
  call_abs: "APIAbs st x = ok (r, st') \<Longrightarrow> api_step st st'"
| call_ceil: "APICeil st x = ok (r, st') \<Longrightarrow> api_step st st'"
| call_cos: "APICos st x = ok (r, st') \<Longrightarrow> api_step st st'"
| call_exp: "APIExp st x = ok (r, st') \<Longrightarrow> api_step st st'"
| call_floor: "APIFloor st x = ok (r, st') \<Longrightarrow> api_step st st'"
| call_hardswish: "APIHardSwish st x = ok (r, st') \<Longrightarrow> api_step st st'"
| call_log: "APILog st x = ok (r, st') \<Longrightarrow> api_step st st'"
| call_neg: "APINeg st x = ok (r, st') \<Longrightarrow> api_step st st'"
| call_relu: "APIRelu st x = ok (r, st') \<Longrightarrow> api_step st st'"
| call_sigmoid: "APISigmoid st x = ok (r, st') \<Longrightarrow> api_step st st'"
| call_sin: "APISin st x = ok (r, st') \<Longrightarrow> api_step st st'"
| call_softmax: "APISoftmax st x = ok (r, st') \<Longrightarrow> api_step st st'"
| call_tan: "APITan st x = ok (r, st') \<Longrightarrow> api_step st st'"
| call_tanh: "APITanh st x = ok (r, st') \<Longrightarrow> api_step st st'"
| call_add: "APIAdd st a b = ok (r, st') \<Longrightarrow> api_step st st'"
| call_div: "APIDiv st a b = ok (r, st') \<Longrightarrow> api_step st st'"
| call_matmul: "APIMatmul st a b = ok (r, st') \<Longrightarrow> api_step st st'"
| call_max: "APIMax st a b = ok (r, st') \<Longrightarrow> api_step st st'"
| call_min: "APIMin st a b = ok (r, st') \<Longrightarrow> api_step st st'"
| call_mul: "APIMul st a b = ok (r, st') \<Longrightarrow> api_step st st'"
| call_pow: "APIPow st a b = ok (r, st') \<Longrightarrow> api_step st st'"
| call_sub: "APISub st a b = ok (r, st') \<Longrightarrow> api_step st st'"
| call_averagepool2d: "APIAveragePool2d st x opts = ok (r, st') \<Longrightarrow> api_step st st'"
| call_l2pool2d: "APIL2Pool2d st x opts = ok (r, st') \<Longrightarrow> api_step st st'"
| call_maxpool2d: "APIMaxPool2d st x opts = ok (r, st') \<Longrightarrow> api_step st st'"
| call_reducel1: "APIReduceL1 st x opts = ok (r, st') \<Longrightarrow> api_step st st'"
| call_reducel2: "APIReduceL2 st x opts = ok (r, st') \<Longrightarrow> api_step st st'"
| call_reducemax: "APIReduceMax st x opts = ok (r, st') \<Longrightarrow> api_step st st'"
| call_reducemean: "APIReduceMean st x opts = ok (r, st') \<Longrightarrow> api_step st st'"
| call_reducemin: "APIReduceMin st x opts = ok (r, st') \<Longrightarrow> api_step st st'"
| call_reduceproduct: "APIReduceProduct st x opts = ok (r, st') \<Longrightarrow> api_step st st'"
| call_reducesum: "APIReduceSum st x opts = ok (r, st') \<Longrightarrow> api_step st st'"
| call_batchnorm: "APIBatchNorm st x mean variance opts = ok (r, st') \<Longrightarrow> api_step st st'"
| call_clamp: "APIClamp st x opts = ok (r, st') \<Longrightarrow> api_step st st'"
| call_concat: "APIConcat st xs axis = ok (r, st') \<Longrightarrow> api_step st st'"
| call_constant: "APIConstant st desc view = ok (r, st') \<Longrightarrow> api_step st st'"
| call_conv2d: "APIConv2d st x filt opts = ok (r, st') \<Longrightarrow> api_step st st'"
| call_gemm: "APIGemm st a b opts = ok (r, st') \<Longrightarrow> api_step st st'"
| call_gru: "APIGru st x w rw steps hidden opts = ok (r, st') \<Longrightarrow> api_step st st'"
| call_input: "APIInput st name desc = ok (r, st') \<Longrightarrow> api_step st st'"
| call_instancenorm: "APIInstanceNorm st x opts = ok (r, st') \<Longrightarrow> api_step st st'"
| call_leakyrelu: "APILeakyRelu st x opts = ok (r, st') \<Longrightarrow> api_step st st'"
| call_pad: "APIPad st x padding opts = ok (r, st') \<Longrightarrow> api_step st st'"
| call_resample2d: "APIResample2d st x opts = ok (r, st') \<Longrightarrow> api_step st st'"
| call_reshape: "APIReshape st x new_shape = ok (r, st') \<Longrightarrow> api_step st st'"
| call_slice: "APISlice st x starts sizes axes = ok (r, st') \<Longrightarrow> api_step st st'"
| call_split: "APISplit st x splits axis = ok (r, st') \<Longrightarrow> api_step st st'"
| call_squeeze: "APISqueeze st x axes = ok (r, st') \<Longrightarrow> api_step st st'"
| call_transpose: "APITranspose st x permutation = ok (r, st') \<Longrightarrow> api_step st st'"
| call_push: "APIPushErrorScope f (bld_ctx st) = ok ctx \<Longrightarrow> api_step st (st\<lparr>bld_ctx := ctx\<rparr>)"
| call_pop: "APIPopErrorScope cb (bld_ctx st) = ok (b, ctx) \<Longrightarrow> api_step st (st\<lparr>bld_ctx := ctx\<rparr>)"
| call_callback: "api_step st (st\<lparr>bld_ctx := APISetUncapturedErrorCallback cb (bld_ctx st)\<rparr>)"

inductive builder_reachable :: "builder \<Rightarrow> bool" where
  new: "builder_reachable (GraphBuilderBase ctx)"
| call: "builder_reachable st \<Longrightarrow> api_step st st' \<Longrightarrow> builder_reachable st'"

named_theorems api_defs

lemmas [api_defs] = APIAbs_def APICeil_def APICos_def APIExp_def APIFloor_def APIHardSwish_def APILog_def
  APINeg_def APIRelu_def APISigmoid_def APISin_def APISoftmax_def APITan_def APITanh_def
  APIAdd_def APIDiv_def APIMatmul_def APIMax_def APIMin_def APIMul_def APIPow_def APISub_def
  APIAveragePool2d_def APIL2Pool2d_def APIMaxPool2d_def APIReduceL1_def APIReduceL2_def
  APIReduceMax_def APIReduceMean_def APIReduceMin_def APIReduceProduct_def APIReduceSum_def
  APIBatchNorm_def APIClamp_def APIConcat_def APIConstant_def APIConv2d_def APIGemm_def
  APIGru_def APIInput_def APIInstanceNorm_def APILeakyRelu_def APIPad_def APIResample2d_def
  APIReshape_def APISlice_def APISplit_def APISqueeze_def APITranspose_def APIReduce_def

lemma api_step_wf: "api_step st st' \<Longrightarrow> wf_builder st \<Longrightarrow> wf_builder st'"
  by (induction rule: api_step.induct)
    (auto simp: api_defs bindR_Inr_iff takes_or_empty_def takes_inputs_def split: prod.splits
      elim!: VALIDATE_FOR_OPERAND_wf VALIDATE_ARRAY_OPERAND_wf)

lemma reachable_wf: "builder_reachable st \<Longrightarrow> wf_builder st"
  by (induction rule: builder_reachable.induct) (auto intro: wf_GraphBuilderBase api_step_wf)

text \<open>
  C3. Every builder that any sequence of API calls produces is well-formed: operands name the
  operator that produced them, and operators only use valid operands of earlier operators.
\<close>

theorem builder_reachable_wf:
  assumes "builder_reachable st"
  shows "wf_builder st"
  using assms by (rule reachable_wf)

text \<open>A builder with one input of shape (2, 3) and its ReLU.\<close>

definition example_input :: builder where
  "example_input =
     \<lparr>operands = [\<lparr>opd_operator = Some 0, opd_type = Float32, opd_shape = [2, 3], opd_error = False\<rparr>],
      operators = [\<lparr>op_kind = OpInput ''x'' \<lparr>od_type = Float32, od_dimensions = [2, 3]\<rparr>,
                    op_inputs = [], op_outputs = [0], op_error = False\<rparr>],
      bld_ctx = ContextBase\<rparr>"

definition example_relu :: builder where
  "example_relu = example_input
     \<lparr>operands := operands example_input @
        [\<lparr>opd_operator = Some 1, opd_type = Float32, opd_shape = [2, 3], opd_error = False\<rparr>],
      operators := operators example_input @
        [\<lparr>op_kind = OpUnary kRelu, op_inputs = [0], op_outputs = [1], op_error = False\<rparr>]\<rparr>"

lemma example_input_call:
  "APIInput (GraphBuilderBase ContextBase) ''x'' \<lparr>od_type = Float32, od_dimensions = [2, 3]\<rparr> =
     ok (0, example_input)"
  by (simp add: APIInput_def VALIDATE_FOR_OPERAND_def DAWN_VALIDATE_def Input_infer_def SetType_def
      SetShape_def vec_at_def vec_set_def operand_new_def GraphBuilderBase_def example_input_def Let_def)

lemma example_relu_call: "APIRelu example_input 0 = ok (1, example_relu)"
  by (simp add: APIRelu_def VALIDATE_FOR_OPERAND_def DAWN_VALIDATE_def Unary_infer_def SetType_def
      SetShape_def shape_of_def base_validate_def vec_at_def vec_set_def operand_new_def
      example_input_def example_relu_def Let_def)

lemma example_relu_reachable: "builder_reachable example_relu"
proof -
  have "builder_reachable example_input"
    using builder_reachable.new api_step.call_input [OF example_input_call]
    by (rule builder_reachable.call)
  then show ?thesis
    using api_step.call_relu [OF example_relu_call] by (rule builder_reachable.call)
qed

theorem builder_reachable_wf_witness: "wf_builder example_relu"
  using builder_reachable_wf [OF example_relu_reachable] .

section \<open>Error operands\<close>












end
