(* ===== verification/Named_Records.thy ===== *)
theory Named_Records
  imports Main "HOL-Library.Char_ord" "HOL-Library.List_Lexorder"
begin

text \<open>
  The \<open>std::map\<close> from names to records of \<open>webnn_native/NamedRecords.h\<close>, used for the
  named inputs, outputs and operands: an association list in ascending order of the names,
  which is the order \<open>GetRecords()\<close> iterates in.
\<close>

type_synonym 'a named_records = "(string \<times> 'a) list"

fun NamedRecords_APISet :: "string \<Rightarrow> 'a \<Rightarrow> 'a named_records \<Rightarrow> 'a named_records" where
  "NamedRecords_APISet name r [] = [(name, r)]"
| "NamedRecords_APISet name r ((k, v) # rs) =
     (if name < k then (name, r) # (k, v) # rs
      else if name = k then (k, r) # rs
      else (k, v) # NamedRecords_APISet name r rs)"

fun NamedRecords_APIGet :: "string \<Rightarrow> 'a named_records \<Rightarrow> 'a option" where
  "NamedRecords_APIGet name [] = None"
| "NamedRecords_APIGet name ((k, v) # rs) =
     (if name = k then Some v else NamedRecords_APIGet name rs)"

definition records_ok :: "'a named_records \<Rightarrow> bool" where
  "records_ok rs \<longleftrightarrow> sorted_wrt (<) (map fst rs)"

section \<open>The contract of a name map\<close>

locale name_map =
  fixes empty_map :: "'m"
    and set_name :: "string \<Rightarrow> 'v \<Rightarrow> 'm \<Rightarrow> 'm"
    and get_name :: "string \<Rightarrow> 'm \<Rightarrow> 'v option"
    and names :: "'m \<Rightarrow> string list"
    and map_ok :: "'m \<Rightarrow> bool"
  assumes ok_empty: "map_ok empty_map"
    and ok_set: "map_ok m \<Longrightarrow> map_ok (set_name n v m)"
    and get_empty: "get_name n empty_map = None"
    and get_set: "map_ok m \<Longrightarrow> get_name k (set_name n v m) = (if k = n then Some v else get_name k m)"
    and names_sorted: "map_ok m \<Longrightarrow> sorted_wrt (<) (names m)"
    and names_get: "map_ok m \<Longrightarrow> n \<in> set (names m) \<longleftrightarrow> get_name n m \<noteq> None"
begin

fun set_all :: "(string \<times> 'v) list \<Rightarrow> 'm \<Rightarrow> 'm" where
  "set_all [] m = m"
| "set_all ((n, v) # ps) m = set_all ps (set_name n v m)"

lemma set_all_ok: "map_ok m \<Longrightarrow> map_ok (set_all ps m)"
  by (induction ps m rule: set_all.induct) (auto intro: ok_set)

text \<open>The last value given to a name wins.\<close>

lemma get_set_all:
  "map_ok m \<Longrightarrow> get_name n (set_all ps m) =
     (case map_of (rev ps) n of None \<Rightarrow> get_name n m | Some v \<Rightarrow> Some v)"
proof (induction ps m rule: set_all.induct)
  case (1 m)
  then show ?case by simp
next
  case (2 k v ps m)
  then show ?case
    by (auto simp: ok_set get_set map_add_def split: option.splits)
qed

lemma names_set_all:
  "set (names (set_all ps empty_map)) = fst ` set ps" "distinct (names (set_all ps empty_map))"
proof -
  have ok: "map_ok (set_all ps empty_map)" by (simp add: set_all_ok ok_empty)
  have "n \<in> set (names (set_all ps empty_map)) \<longleftrightarrow> n \<in> fst ` set ps" for n
    by (simp add: names_get [OF ok] get_set_all ok_empty get_empty map_of_eq_None_iff
        split: option.splits) (metis domI domIff dom_map_of_conv_image_fst set_rev)
  then show "set (names (set_all ps empty_map)) = fst ` set ps" by blast
  show "distinct (names (set_all ps empty_map))"
    using names_sorted [OF ok] strict_sorted_iff by blast
qed

end

lemma keys_APISet: "fst ` set (NamedRecords_APISet n r rs) = insert n (fst ` set rs)"
  by (induction n r rs rule: NamedRecords_APISet.induct) auto

lemma records_ok_APISet: "records_ok rs \<Longrightarrow> records_ok (NamedRecords_APISet n r rs)"
proof (induction n r rs rule: NamedRecords_APISet.induct)
  case (1 n r)
  then show ?case by (simp add: records_ok_def)
next
  case (2 n r k v rs)
  have "set (map fst (NamedRecords_APISet n r rs)) = insert n (set (map fst rs))"
    using keys_APISet by simp
  with 2 show ?case
    by (auto simp: records_ok_def dest: order.strict_trans)
qed

lemma APIGet_APISet:
  "records_ok rs \<Longrightarrow> NamedRecords_APIGet k (NamedRecords_APISet n r rs) =
     (if k = n then Some r else NamedRecords_APIGet k rs)"
  by (induction n r rs rule: NamedRecords_APISet.induct) (auto simp: records_ok_def)

lemma APIGet_map_of: "NamedRecords_APIGet n rs = map_of rs n"
  by (induction rs) auto

interpretation nr: name_map "[]" NamedRecords_APISet NamedRecords_APIGet "map fst" records_ok
proof unfold_locales
  show "records_ok []" by (simp add: records_ok_def)
  show "records_ok rs \<Longrightarrow> records_ok (NamedRecords_APISet n v rs)" for rs n v
    by (rule records_ok_APISet)
  show "NamedRecords_APIGet n [] = None" for n by simp
  show "records_ok rs \<Longrightarrow> NamedRecords_APIGet k (NamedRecords_APISet n v rs) =
      (if k = n then Some v else NamedRecords_APIGet k rs)" for rs k n v
    by (rule APIGet_APISet)
  show "records_ok rs \<Longrightarrow> sorted_wrt (<) (map fst rs)" for rs by (simp add: records_ok_def)
  show "records_ok rs \<Longrightarrow> n \<in> set (map fst rs) \<longleftrightarrow> NamedRecords_APIGet n rs \<noteq> None" for rs n
    by (simp add: APIGet_map_of map_of_eq_None_iff)
qed

end
