(* ===== verification/Graph_Build.thy ===== *)
theory Graph_Build
  imports Graph_Builder Named_Records
begin

text \<open>
  Building a graph: \<open>TopologicalSort\<close> and \<open>APIBuild\<close> of
  \<open>webnn_native/GraphBuilder.cpp\<close>, the virtual interface of \<open>webnn_native/Graph.cpp\<close>
  and the null backend of \<open>null/ContextNull.cpp\<close>. The loop of the sort is a partial
  function whose value \<open>None\<close> means that it does not return.
\<close>

section \<open>Topological sort\<close>

text \<open>A node on the stack is an operator, or the null pointer an error operand has for its
  operator.\<close>

definition dep_operators :: "builder \<Rightarrow> nat list \<Rightarrow> nat option list res" where
  "dep_operators st inputs = bindR (get_operands st inputs) (\<lambda>xs. ok (map opd_operator xs))"

definition is_done :: "nat set \<Rightarrow> nat option \<Rightarrow> bool" where
  "is_done D d = (case d of None \<Rightarrow> False | Some n \<Rightarrow> n \<in> D)"

type_synonym topo_state = "nat option list \<times> nat set \<times> nat list"

text \<open>One round of the loop on a non-empty stack.\<close>

fun topo_step :: "builder \<Rightarrow> topo_state \<Rightarrow> topo_state res" where
  "topo_step st ([], D, result) = undef"
| "topo_step st (None # rest, D, result) = undef"
| "topo_step st (Some n # rest, D, result) =
     (if n \<notin> D then
        bindR (vec_at (operators st) (int n)) (\<lambda>node.
        bindR (dep_operators st (op_inputs node)) (\<lambda>deps.
          let missing = filter (\<lambda>d. \<not> is_done D d) deps
          in ok (if missing = [] then (rest, insert n D, result @ [n])
                 else (rev missing @ Some n # rest, D, result))))
      else ok (rest, D, result))"

partial_function (option) topo_loop :: "builder \<Rightarrow> topo_state \<Rightarrow> nat list res option" where
  "topo_loop st s =
     (if fst s = [] then Some (ok (snd (snd s)))
      else case topo_step st s of
             Inl e \<Rightarrow> Some (Inl e)
           | Inr s' \<Rightarrow> topo_loop st s')"

definition TopologicalSort :: "builder \<Rightarrow> nat list \<Rightarrow> nat list res option" where
  "TopologicalSort st rootNodes =
     (case dep_operators st rootNodes of
        Inl e \<Rightarrow> Some (Inl e)
      | Inr roots \<Rightarrow> topo_loop st (rev roots, {}, []))"

section \<open>The graph interface\<close>

datatype add_method = AddConstant | AddInput | AddBatchNorm | AddSlice | AddBinary | AddConv2d
  | AddGru | AddPool2d | AddReduce | AddResample2d | AddReshape | AddSqueeze | AddSplit
  | AddTranspose | AddUnary | AddLeakyRelu | AddConcat | AddGemm | AddClamp | AddPad
  | AddInstanceNorm

text \<open>Which method \<open>AddToGraph\<close> of each operator class calls.\<close>

fun AddToGraph :: "op \<Rightarrow> add_method" where
  "AddToGraph (OpUnary t) = AddUnary"
| "AddToGraph (OpLeakyRelu a) = AddUnary"
| "AddToGraph (OpClamp c) = AddClamp"
| "AddToGraph (OpBinary t) = AddBinary"
| "AddToGraph (OpGemm g) = AddGemm"
| "AddToGraph (OpConv2d c) = AddConv2d"
| "AddToGraph (OpPool2d p) = AddPool2d"
| "AddToGraph (OpConcat a) = AddConcat"
| "AddToGraph (OpSplit s a) = AddSplit"
| "AddToGraph (OpSlice s) = AddSlice"
| "AddToGraph (OpSqueeze a) = AddSqueeze"
| "AddToGraph (OpTranspose p) = AddTranspose"
| "AddToGraph (OpReshape s) = AddReshape"
| "AddToGraph (OpReduce r) = AddReduce"
| "AddToGraph (OpResample2d r) = AddResample2d"
| "AddToGraph (OpPad opt) = AddPad"
| "AddToGraph (OpBatchNorm opt) = AddBatchNorm"
| "AddToGraph (OpInstanceNorm opt) = AddInstanceNorm"
| "AddToGraph (OpGru g) = AddGru"
| "AddToGraph (OpInput n d) = AddInput"
| "AddToGraph (OpConstant c) = AddConstant"

text \<open>The virtual methods a backend graph of state \<open>'g\<close> provides.\<close>

record 'g backend =
  be_CreateGraph :: 'g
  be_Add :: "builder \<Rightarrow> add_method \<Rightarrow> nat \<Rightarrow> 'g \<Rightarrow> 'g res"
  be_AddOutput :: "builder \<Rightarrow> string \<Rightarrow> nat \<Rightarrow> 'g \<Rightarrow> 'g res"
  be_Finish :: "'g \<Rightarrow> 'g res"
  be_Compile :: "'g \<Rightarrow> 'g res"

fun method_name :: "add_method \<Rightarrow> string" where
  "method_name AddConstant = ''AddConstant''"
| "method_name AddInput = ''AddInput''"
| "method_name AddBatchNorm = ''AddBatchNorm''"
| "method_name AddSlice = ''AddSlice''"
| "method_name AddBinary = ''AddBinary''"
| "method_name AddConv2d = ''AddConv2d''"
| "method_name AddGru = ''AddGru''"
| "method_name AddPool2d = ''AddPool2d''"
| "method_name AddReduce = ''AddReduce''"
| "method_name AddResample2d = ''AddResample2d''"
| "method_name AddReshape = ''AddReshape''"
| "method_name AddSqueeze = ''AddSqueeze''"
| "method_name AddSplit = ''AddSplit''"
| "method_name AddTranspose = ''AddTranspose''"
| "method_name AddUnary = ''AddUnary''"
| "method_name AddLeakyRelu = ''AddLeakyRelu''"
| "method_name AddConcat = ''AddConcat''"
| "method_name AddGemm = ''AddGemm''"
| "method_name AddClamp = ''AddClamp''"
| "method_name AddPad = ''AddPad''"
| "method_name AddInstanceNorm = ''AddInstanceNorm''"

text \<open>The defaults of \<open>GraphBase\<close>: everything is unimplemented, and \<open>AddPad\<close> unreachable.\<close>

definition GraphBase_Add :: "add_method \<Rightarrow> 'g res" where
  "GraphBase_Add m = (if m = AddPad then undef else unimplemented_error (method_name m))"

text \<open>The null graph has no state and accepts the methods it overrides.\<close>

definition null_overrides :: "add_method list" where
  "null_overrides = [AddConstant, AddInput, AddBinary, AddConv2d, AddPool2d, AddReshape,
     AddTranspose, AddUnary, AddBatchNorm, AddLeakyRelu, AddConcat, AddGemm, AddClamp]"

definition null_backend :: "unit backend" where
  "null_backend =
     \<lparr>be_CreateGraph = (),
      be_Add = (\<lambda>st m n g. if m \<in> set null_overrides then ok g else GraphBase_Add m),
      be_AddOutput = (\<lambda>st name opd g. ok g),
      be_Finish = ok,
      be_Compile = ok\<rparr>"

section \<open>APIBuild\<close>

text \<open>\<open>op->IsError() || ConsumedError(op->AddToGraph(graph))\<close> for one operator, and the
  analogous steps for the outputs, finishing and compiling. A step gives the graph, or
  \<open>None\<close> once the build has failed, and the context.\<close>

definition consume :: "'g res \<Rightarrow> context1 \<Rightarrow> ('g option \<times> context1) res" where
  "consume r ctx =
     bindR (ConsumedError r ctx) (\<lambda>(failed, ctx).
       ok (case r of Inl _ \<Rightarrow> None | Inr g \<Rightarrow> Some g, ctx))"

definition build_add ::
  "'g backend \<Rightarrow> builder \<Rightarrow> nat \<Rightarrow> 'g option \<times> context1 \<Rightarrow> ('g option \<times> context1) res" where
  "build_add be st n = (\<lambda>(g, ctx). case g of None \<Rightarrow> ok (None, ctx)
     | Some g \<Rightarrow> bindR (vec_at (operators st) (int n)) (\<lambda>node.
         if op_error node then ok (None, ctx)
         else consume (be_Add be st (AddToGraph (op_kind node)) n g) ctx))"

definition build_output ::
  "'g backend \<Rightarrow> builder \<Rightarrow> string \<times> nat \<Rightarrow> 'g option \<times> context1 \<Rightarrow> ('g option \<times> context1) res" where
  "build_output be st no = (\<lambda>(g, ctx). case g of None \<Rightarrow> ok (None, ctx)
     | Some g \<Rightarrow> consume (be_AddOutput be st (fst no) (snd no) g) ctx)"

definition build_then ::
  "('g \<Rightarrow> 'g res) \<Rightarrow> 'g option \<times> context1 \<Rightarrow> ('g option \<times> context1) res" where
  "build_then f = (\<lambda>(g, ctx). case g of None \<Rightarrow> ok (None, ctx) | Some g \<Rightarrow> consume (f g) ctx)"

text \<open>The graph, or \<open>None\<close> for the null pointer. The builder itself is never an error object.\<close>

definition APIBuild ::
  "'g backend \<Rightarrow> builder \<Rightarrow> nat named_records \<Rightarrow> ('g option \<times> builder) res option" where
  "APIBuild be st namedOperands =
     (if namedOperands = [] then Some (ok (None, st))
      else case TopologicalSort st (map snd namedOperands) of
        None \<Rightarrow> None
      | Some sorted1 \<Rightarrow> Some (
          bindR sorted1 (\<lambda>ops.
          bindR (foldR (build_add be st) ops (Some (be_CreateGraph be), bld_ctx st)) (\<lambda>s.
          bindR (foldR (build_output be st) namedOperands s) (\<lambda>s.
          bindR (build_then (be_Finish be) s) (\<lambda>s.
          bindR (build_then (be_Compile be) s) (\<lambda>(g, ctx).
            ok (g, st\<lparr>bld_ctx := ctx\<rparr>))))))))"

text \<open>\<open>GraphBase::APICompute\<close>.\<close>

datatype compute_status = ComputeSuccess | ComputeError | ComputeContextLost | ComputeUnknown

definition APICompute ::
  "('i \<Rightarrow> 'o \<Rightarrow> compute_status) \<Rightarrow> 'i option \<Rightarrow> 'o option \<Rightarrow> compute_status" where
  "APICompute ComputeImpl inputs outputs =
     (case (inputs, outputs) of (Some i, Some x) \<Rightarrow> ComputeImpl i x | _ \<Rightarrow> ComputeError)"

end
