(* ===== verification/Graph_Build_Spec.thy ===== *)
theory Graph_Build_Spec
  imports Graph_Build Builder_Invariant
begin

text \<open>
  Correctness of graph building: on a well-formed store the topological sort returns, lists
  exactly the operators the requested outputs depend on, each once and after those it uses, and
  \<open>APIBuild\<close> is the run of the backend's methods over that list in the error monad, with
  the first error reported to the context.
\<close>

section \<open>Dependencies\<close>

definition producers :: "builder \<Rightarrow> nat \<Rightarrow> nat list" where
  "producers st n = map (\<lambda>i. the (opd_operator (operands st ! i))) (op_inputs (operators st ! n))"

definition depends :: "builder \<Rightarrow> (nat \<times> nat) set" where
  "depends st = {(p, n). n < length (operators st) \<and> p \<in> set (producers st n)}"

text \<open>The operators that operator \<open>n\<close> needs, itself included.\<close>

definition needed :: "builder \<Rightarrow> nat \<Rightarrow> nat set" where
  "needed st n = {m. (m, n) \<in> (depends st)\<^sup>*}"

lemma needed_self [simp]: "n \<in> needed st n"
  by (simp add: needed_def)

lemma needed_unfold:
  assumes "n < length (operators st)"
  shows "needed st n = insert n (\<Union>p \<in> set (producers st n). needed st p)"
proof -
  have "m \<in> needed st n \<longleftrightarrow> m = n \<or> (\<exists>p. p \<in> set (producers st n) \<and> m \<in> needed st p)" for m
    using assms by (auto simp: needed_def depends_def elim: rtranclE intro: rtrancl_into_rtrancl)
  then show ?thesis by blast
qed

lemma needed_closed:
  assumes "\<forall>m \<in> D. \<forall>p. (p, m) \<in> depends st \<longrightarrow> p \<in> D" "n \<in> D"
  shows "needed st n \<subseteq> D"
proof
  fix m assume "m \<in> needed st n"
  then have "(m, n) \<in> (depends st)\<^sup>*" by (simp add: needed_def)
  then show "m \<in> D"
    using assms(2) by (induction rule: converse_rtrancl_induct) (use assms(1) in auto)
qed

lemma dep_operators_wf:
  assumes "wf_builder st" "n < length (operators st)"
  shows "dep_operators st (op_inputs (operators st ! n)) = ok (map Some (producers st n))"
proof -
  have ok: "input_ok st n i" if "i \<in> set (op_inputs (operators st ! n))" for i
    using assms that by (simp add: wf_builder_def operator_ok_def list_all_iff)
  then have "get_operands st (op_inputs (operators st ! n)) =
      Inr (map (\<lambda>i. operands st ! i) (op_inputs (operators st ! n)))"
    by (auto simp: res_iff input_ok_def)
  moreover have "opd_operator (operands st ! i) = Some (the (opd_operator (operands st ! i)))"
    if "i \<in> set (op_inputs (operators st ! n))" for i
    using ok [OF that] by (auto simp: input_ok_def split: option.splits)
  ultimately show ?thesis by (simp add: dep_operators_def producers_def)
qed

lemma producers_less:
  assumes "wf_builder st" "n < length (operators st)" "p \<in> set (producers st n)"
  shows "p < n"
proof -
  from assms(3) obtain i where i: "i \<in> set (op_inputs (operators st ! n))"
      "p = the (opd_operator (operands st ! i))"
    by (auto simp: producers_def)
  with assms have "input_ok st n i" by (simp add: wf_builder_def operator_ok_def list_all_iff)
  with i show ?thesis by (auto simp: input_ok_def split: option.splits)
qed

section \<open>The sort returns\<close>

definition sorted_so_far :: "builder \<Rightarrow> nat set \<Rightarrow> nat list \<Rightarrow> bool" where
  "sorted_so_far st D r \<longleftrightarrow> D = set r \<and> distinct r \<and>
     (\<forall>k < length r. \<forall>p. (p, r ! k) \<in> depends st \<longrightarrow> p \<in> set (take k r))"

lemma sorted_so_far_closed:
  assumes "sorted_so_far st D r"
  shows "\<forall>m \<in> D. \<forall>p. (p, m) \<in> depends st \<longrightarrow> p \<in> D"
proof (intro ballI allI impI)
  fix m p assume "m \<in> D" "(p, m) \<in> depends st"
  with assms obtain k where "k < length r" "r ! k = m"
    by (auto simp: sorted_so_far_def in_set_conv_nth)
  with assms \<open>(p, m) \<in> depends st\<close> have "p \<in> set (take k r)" by (auto simp: sorted_so_far_def)
  then have "p \<in> set r" by (rule in_set_takeD)
  with assms show "p \<in> D" by (simp add: sorted_so_far_def)
qed

lemma sorted_so_far_snoc:
  assumes "sorted_so_far st D r" "n \<notin> D" "\<forall>p. (p, n) \<in> depends st \<longrightarrow> p \<in> D"
  shows "sorted_so_far st (insert n D) (r @ [n])"
  using assms by (auto simp: sorted_so_far_def nth_append less_Suc_eq)

text \<open>The loop started on stack \<open>s @ rest\<close> gets to stack \<open>rest\<close>, having added what the
  nodes of \<open>s\<close> need.\<close>

definition processes :: "builder \<Rightarrow> nat list \<Rightarrow> bool" where
  "processes st s \<longleftrightarrow> (\<forall>rest D r. sorted_so_far st D r \<longrightarrow>
     (\<exists>D' r'. topo_loop st (map Some s @ rest, D, r) = topo_loop st (rest, D', r') \<and>
        sorted_so_far st D' r' \<and> D' = D \<union> (\<Union>n \<in> set s. needed st n)))"

lemma processes_list:
  assumes "\<forall>n \<in> set s. processes st [n]"
  shows "processes st s"
  using assms
proof (induction s)
  case Nil
  then show ?case by (auto simp: processes_def)
next
  case (Cons n s)
  have one: "processes st [n]" and rest: "processes st s" using Cons by simp_all
  show ?case unfolding processes_def
  proof (intro allI impI)
    fix rest D r assume "sorted_so_far st D r"
    with one obtain D1 r1 where 1: "sorted_so_far st D1 r1" "D1 = D \<union> needed st n"
        "topo_loop st (Some n # map Some s @ rest, D, r) = topo_loop st (map Some s @ rest, D1, r1)"
      by (fastforce simp: processes_def)
    with \<open>processes st s\<close> obtain D2 r2 where "sorted_so_far st D2 r2"
        "D2 = D1 \<union> (\<Union>n \<in> set s. needed st n)"
        "topo_loop st (map Some s @ rest, D1, r1) = topo_loop st (rest, D2, r2)"
      unfolding processes_def by blast
    with 1 show "\<exists>D' r'. topo_loop st (map Some (n # s) @ rest, D, r) = topo_loop st (rest, D', r') \<and>
        sorted_so_far st D' r' \<and> D' = D \<union> (\<Union>n \<in> set (n # s). needed st n)"
      by (intro exI [of _ D2] exI [of _ r2]) (simp add: Un_assoc)
  qed
qed

lemma topo_pop:
  "n \<in> D \<Longrightarrow> topo_loop st (Some n # rest, D, r) = topo_loop st (rest, D, r)"
  by (subst topo_loop.simps) simp

lemma topo_emit:
  assumes "wf_builder st" "n < length (operators st)" "n \<notin> D" "set (producers st n) \<subseteq> D"
  shows "topo_loop st (Some n # rest, D, r) = topo_loop st (rest, insert n D, r @ [n])"
  using assms
  by (subst topo_loop.simps)
    (auto simp: dep_operators_wf vec_at_def filter_empty_conv is_done_def Let_def)

lemma topo_push:
  assumes "wf_builder st" "n < length (operators st)" "n \<notin> D" "\<not> set (producers st n) \<subseteq> D"
  shows "topo_loop st (Some n # rest, D, r) =
    topo_loop st (map Some (rev (filter (\<lambda>p. p \<notin> D) (producers st n))) @ Some n # rest, D, r)"
proof -
  have "filter (\<lambda>d. \<not> is_done D d) (map Some (producers st n)) =
      map Some (filter (\<lambda>p. p \<notin> D) (producers st n))"
    by (simp add: filter_map is_done_def comp_def)
  moreover have "filter (\<lambda>p. p \<notin> D) (producers st n) \<noteq> []"
    using assms(4) by (auto simp: filter_empty_conv)
  ultimately show ?thesis
    using assms by (subst topo_loop.simps) (simp add: dep_operators_wf vec_at_def rev_map Let_def)
qed

lemma processes_one:
  assumes wf: "wf_builder st" and "n < length (operators st)"
  shows "processes st [n]"
  using assms(2)
proof (induction n rule: less_induct)
  case (less n)
  note dep_less = producers_less [OF wf less.prems]
  have unf: "needed st n = insert n (\<Union>p \<in> set (producers st n). needed st p)"
    using less.prems by (rule needed_unfold)
  have dep: "(p, n) \<in> depends st \<longleftrightarrow> p \<in> set (producers st n)" for p
    using less.prems by (simp add: depends_def)
  have settled: "\<exists>D' r'. topo_loop st (Some n # rest, D, r) = topo_loop st (rest, D', r') \<and>
      sorted_so_far st D' r' \<and> D' = D \<union> needed st n"
    if s: "sorted_so_far st D r" and sub: "set (producers st n) \<subseteq> D" for rest D r
  proof (cases "n \<in> D")
    case True
    with s show ?thesis
      using topo_pop needed_closed [OF sorted_so_far_closed] by (metis sup.absorb1)
  next
    case False
    have "insert n D = D \<union> needed st n"
      using sub needed_closed [OF sorted_so_far_closed [OF s]] unfolding unf by blast
    with False show ?thesis
      using topo_emit [OF wf less.prems False sub] sorted_so_far_snoc [OF s False] dep sub
      by (metis subsetD)
  qed
  show ?case unfolding processes_def
  proof (intro allI impI)
    fix rest D r assume s: "sorted_so_far st D r"
    let ?missing = "rev (filter (\<lambda>p. p \<notin> D) (producers st n))"
    consider (old) "n \<in> D" | (ready) "n \<notin> D" "set (producers st n) \<subseteq> D"
      | (wait) "n \<notin> D" "\<not> set (producers st n) \<subseteq> D" by blast
    then have "\<exists>D' r'. topo_loop st (Some n # rest, D, r) = topo_loop st (rest, D', r') \<and>
        sorted_so_far st D' r' \<and> D' = D \<union> needed st n"
    proof cases
      case old
      with s show ?thesis using topo_pop needed_closed [OF sorted_so_far_closed] by (metis sup.absorb1)
    next
      case ready
      with s settled show ?thesis by blast
    next
      case wait
      have "processes st ?missing"
        using dep_less less by (intro processes_list) (auto dest: less_trans)
      with s obtain D1 r1 where 1: "sorted_so_far st D1 r1"
          "D1 = D \<union> (\<Union>p \<in> set ?missing. needed st p)"
          "topo_loop st (map Some ?missing @ Some n # rest, D, r) = topo_loop st (Some n # rest, D1, r1)"
        unfolding processes_def by blast
      then have sub: "set (producers st n) \<subseteq> D1" by auto
      from settled [OF 1(1) this] obtain D2 r2 where 2: "sorted_so_far st D2 r2"
          "D2 = D1 \<union> needed st n" "topo_loop st (Some n # rest, D1, r1) = topo_loop st (rest, D2, r2)"
        by blast
      have "D2 = D \<union> needed st n" unfolding 2(2) 1(2) unf by auto
      with topo_push [OF wf less.prems wait] 1(3) 2 show ?thesis by metis
    qed
    then show "\<exists>D' r'. topo_loop st (map Some [n] @ rest, D, r) = topo_loop st (rest, D', r') \<and>
        sorted_so_far st D' r' \<and> D' = D \<union> (\<Union>n \<in> set [n]. needed st n)" by simp
  qed
qed

definition valid_outputs :: "builder \<Rightarrow> nat list \<Rightarrow> bool" where
  "valid_outputs st outputs \<longleftrightarrow>
     (\<forall>i \<in> set outputs. i < length (operands st) \<and> \<not> opd_error (operands st ! i))"

definition output_operators :: "builder \<Rightarrow> nat list \<Rightarrow> nat list" where
  "output_operators st outputs = map (\<lambda>i. the (opd_operator (operands st ! i))) outputs"

lemma valid_output_operator:
  assumes "wf_builder st" "valid_outputs st outputs" "i \<in> set outputs"
  shows "opd_operator (operands st ! i) = Some (the (opd_operator (operands st ! i)))"
    "the (opd_operator (operands st ! i)) < length (operators st)"
proof -
  have "operand_ok st i" "\<not> opd_error (operands st ! i)"
    using assms by (auto simp: wf_builder_def valid_outputs_def)
  then show "opd_operator (operands st ! i) = Some (the (opd_operator (operands st ! i)))"
    "the (opd_operator (operands st ! i)) < length (operators st)"
    by (auto simp: operand_ok_def split: option.splits)
qed

lemma dep_operators_outputs:
  assumes "wf_builder st" "valid_outputs st outputs"
  shows "dep_operators st outputs = ok (map Some (output_operators st outputs))"
proof -
  have "get_operands st outputs = Inr (map (\<lambda>i. operands st ! i) outputs)"
    using assms(2) by (auto simp: res_iff valid_outputs_def)
  then show ?thesis
    using valid_output_operator [OF assms] by (simp add: dep_operators_def output_operators_def)
qed

lemma needed_less:
  assumes "wf_builder st" "m \<in> needed st n" "n < length (operators st)"
  shows "m < length (operators st)"
proof -
  from assms(2) have "(m, n) \<in> (depends st)\<^sup>*" by (simp add: needed_def)
  then show ?thesis
    using assms(3) by (induction rule: converse_rtrancl_induct)
      (auto simp: depends_def intro: less_trans dest: producers_less [OF assms(1)])
qed

lemma needed_outputs_less:
  assumes "wf_builder st" "valid_outputs st outputs"
    and "m \<in> (\<Union>n \<in> set (output_operators st outputs). needed st n)"
  shows "m < length (operators st)"
  using assms(3) valid_output_operator(2) [OF assms(1,2)] needed_less [OF assms(1)]
  by (auto simp: output_operators_def)

lemma TopologicalSort_returns:
  assumes "wf_builder st" "valid_outputs st outputs"
  shows "\<exists>r. TopologicalSort st outputs = Some (ok r) \<and> sorted_so_far st (set r) r \<and>
    set r = (\<Union>n \<in> set (output_operators st outputs). needed st n)"
proof -
  let ?ops = "rev (output_operators st outputs)"
  have proc: "processes st ?ops"
    by (rule processes_list)
      (auto simp: output_operators_def intro: processes_one [OF assms(1)] valid_output_operator(2) [OF assms])
  have nil: "sorted_so_far st {} []" by (simp add: sorted_so_far_def)
  obtain D r where loop: "topo_loop st (map Some ?ops @ [], {}, []) = topo_loop st ([], D, r)"
      and D: "sorted_so_far st D r" "D = {} \<union> (\<Union>n \<in> set ?ops. needed st n)"
    using proc [unfolded processes_def, rule_format, OF nil, of "[]"] by (elim exE conjE)
  have "D = set r" using D(1) by (simp add: sorted_so_far_def)
  with D have "sorted_so_far st (set r) r" "set r = (\<Union>n \<in> set ?ops. needed st n)" by simp_all
  moreover have "topo_loop st ([], D, r) = Some (ok r)" for D r
    by (subst topo_loop.simps) simp
  ultimately show ?thesis
    using dep_operators_outputs [OF assms] loop by (auto simp: TopologicalSort_def rev_map)
qed

text \<open>
  C5. On a well-formed store the topological sort of valid outputs returns. Its result lists the
  operators the outputs depend on, directly or not, and no others, each exactly once, and every
  operator stands after all those that produce its inputs.
\<close>

theorem TopologicalSort_sorts:
  assumes "wf_builder st" "valid_outputs st outputs"
  shows "\<exists>r. TopologicalSort st outputs = Some (ok r) \<and> distinct r \<and>
    set r = {m. \<exists>n \<in> set (output_operators st outputs). (m, n) \<in> (depends st)\<^sup>*} \<and>
    (\<forall>k < length r. \<forall>p \<in> set (producers st (r ! k)). p \<in> set (take k r))"
proof -
  from TopologicalSort_returns [OF assms] obtain r where
    r: "TopologicalSort st outputs = Some (ok r)" "sorted_so_far st (set r) r"
      "set r = (\<Union>n \<in> set (output_operators st outputs). needed st n)" by blast
  with r(3) have "r ! k < length (operators st)" if "k < length r" for k
    using that needed_outputs_less [OF assms] nth_mem [OF that] by auto
  with r(2) have "p \<in> set (take k r)" if "k < length r" "p \<in> set (producers st (r ! k))" for k p
    using that by (auto simp: sorted_so_far_def depends_def)
  with r show ?thesis
    by (intro exI [of _ r]) (auto simp: sorted_so_far_def needed_def)
qed

lemma example_relu_wf: "wf_builder example_relu"
  using example_relu_reachable by (rule reachable_wf)

lemma example_relu_outputs:
  "valid_outputs example_relu [1]" "output_operators example_relu [1] = [1]"
  by (simp_all add: valid_outputs_def output_operators_def example_relu_def example_input_def)

lemma example_relu_needed: "needed example_relu 1 = {0, 1}"
proof -
  have "length (operators example_relu) = 2" "producers example_relu 1 = [0]"
      "producers example_relu 0 = []"
    by (simp_all add: producers_def example_relu_def example_input_def)
  then show ?thesis
    using needed_unfold [of 1 example_relu] needed_unfold [of 0 example_relu] by auto
qed

theorem TopologicalSort_sorts_witness:
  "\<exists>r. TopologicalSort example_relu [1] = Some (ok r) \<and> distinct r \<and> set r = {0, 1}"
  using TopologicalSort_sorts [OF example_relu_wf example_relu_outputs(1)] example_relu_needed
  by (auto simp: example_relu_outputs(2) needed_def simp del: One_nat_def)

section \<open>APIBuild as a run of the backend\<close>

text \<open>The backend's methods over the sorted operators, then over the outputs, then
  \<open>Finish\<close> and \<open>Compile\<close>, stopping at the first error.\<close>

definition backend_run ::
  "'g backend \<Rightarrow> builder \<Rightarrow> nat list \<Rightarrow> nat named_records \<Rightarrow> 'g res" where
  "backend_run be st ops named =
     bindR (foldR (\<lambda>n. be_Add be st (AddToGraph (op_kind (operators st ! n))) n) ops (be_CreateGraph be))
       (\<lambda>g. bindR (foldR (\<lambda>no. be_AddOutput be st (fst no) (snd no)) named g)
       (\<lambda>g. bindR (be_Finish be g) (be_Compile be)))"

text \<open>What the caller of \<open>APIBuild\<close> sees of a run: the graph, or the null pointer and one
  error handled by the context.\<close>

fun build_report :: "'g res \<Rightarrow> context1 \<Rightarrow> ('g option \<times> context1) res" where
  "build_report (Inr g) ctx = ok (Some g, ctx)"
| "build_report (Inl (Error t msg)) ctx = ok (None, Context_HandleError t msg ctx)"
| "build_report (Inl UB) ctx = undef"

lemma consume_report: "consume r ctx = build_report r ctx"
proof (cases r)
  case (Inl e)
  then show ?thesis by (cases e) (simp_all add: consume_def)
qed (simp add: consume_def)

lemma report_bind:
  assumes "\<And>g. f (Some g, ctx) = build_report (h g) ctx" and "\<And>ctx. f (None, ctx) = ok (None, ctx)"
  shows "bindR (build_report r ctx) f = build_report (bindR r h) ctx"
proof (cases r)
  case (Inl e)
  then show ?thesis using assms(2) by (cases e) simp_all
qed (simp add: assms(1))

lemma foldR_report:
  assumes "\<And>x g. x \<in> set xs \<Longrightarrow> f x (Some g, ctx) = build_report (h x g) ctx"
    and "\<And>x ctx. f x (None, ctx) = ok (None, ctx)"
  shows "foldR f xs (Some g, ctx) = build_report (foldR h xs g) ctx"
  using assms(1)
proof (induction xs arbitrary: g)
  case (Cons x xs)
  have none: "foldR f xs (None, ctx') = ok (None, ctx')" for ctx'
    by (induction xs) (simp_all add: assms(2))
  have "foldR f xs (Some g', ctx) = build_report (foldR h xs g') ctx" for g'
    using Cons by simp
  then show ?case using Cons.prems [of x g] none by (simp add: report_bind)
qed simp

lemma APIBuild_run:
  assumes wf: "wf_builder st" and "valid_outputs st (map snd named)" "named \<noteq> []"
    and sorted: "TopologicalSort st (map snd named) = Some (ok ops)"
    and ops: "\<forall>n \<in> set ops. n < length (operators st)"
  shows "APIBuild be st named =
    Some (bindR (build_report (backend_run be st ops named) (bld_ctx st))
      (\<lambda>(g, ctx). ok (g, st\<lparr>bld_ctx := ctx\<rparr>)))"
proof -
  have add: "build_add be st n (Some g, ctx) =
      build_report (be_Add be st (AddToGraph (op_kind (operators st ! n))) n g) ctx"
    if "n \<in> set ops" for n g ctx
    using wf ops that
    by (auto simp: build_add_def vec_at_def consume_report wf_builder_def operator_ok_def)
  have adds: "foldR (build_add be st) ops (Some g, ctx) = build_report
      (foldR (\<lambda>n. be_Add be st (AddToGraph (op_kind (operators st ! n))) n) ops g) ctx" for g ctx
    using add by (rule foldR_report) (simp_all add: build_add_def)
  have outs: "foldR (build_output be st) named (Some g, ctx) = build_report
      (foldR (\<lambda>no. be_AddOutput be st (fst no) (snd no)) named g) ctx" for g ctx
    by (rule foldR_report) (simp_all add: build_output_def consume_report)
  have outs_none: "foldR (build_output be st) named (None, ctx) = ok (None, ctx)" for ctx
    by (induction named) (simp_all add: build_output_def)
  have "bindR (build_then (be_Finish be) (Some g, ctx)) (build_then (be_Compile be)) =
      build_report (bindR (be_Finish be g) (be_Compile be)) ctx" for g ctx
    by (subst build_then_def) (simp add: consume_report report_bind build_then_def)
  then have "bindR (foldR (build_output be st) named (Some g, ctx))
      (\<lambda>s. bindR (build_then (be_Finish be) s) (build_then (be_Compile be))) =
      build_report (bindR (foldR (\<lambda>no. be_AddOutput be st (fst no) (snd no)) named g)
         (\<lambda>g. bindR (be_Finish be g) (be_Compile be))) ctx" for g ctx
    unfolding outs by (rule report_bind) (simp add: build_then_def)
  then have "bindR (foldR (build_add be st) ops (Some (be_CreateGraph be), bld_ctx st))
      (\<lambda>s. bindR (foldR (build_output be st) named s)
        (\<lambda>s. bindR (build_then (be_Finish be) s) (build_then (be_Compile be)))) =
      build_report (backend_run be st ops named) (bld_ctx st)"
    unfolding adds backend_run_def by (rule report_bind) (simp add: outs_none build_then_def)
  then show ?thesis
    using assms(3) sorted by (simp add: APIBuild_def bindR_assoc [symmetric] split_beta)
qed

text \<open>
  C6. Building with any backend is one run of its methods: the operators the outputs need are
  added in an order that respects their dependencies, then the outputs by name, then the graph is
  finished and compiled. The caller gets the graph, or the null pointer when a method fails, and
  then exactly the first failure is handled by the context.
\<close>

theorem APIBuild_refines_run:
  assumes "wf_builder st" "valid_outputs st (map snd named)" "named \<noteq> []"
  shows "\<exists>ops. distinct ops \<and>
    set ops = (\<Union>n \<in> set (output_operators st (map snd named)). needed st n) \<and>
    (\<forall>k < length ops. \<forall>p \<in> set (producers st (ops ! k)). p \<in> set (take k ops)) \<and>
    APIBuild be st named =
      Some (bindR (build_report (backend_run be st ops named) (bld_ctx st))
        (\<lambda>(g, ctx). ok (g, st\<lparr>bld_ctx := ctx\<rparr>)))"
proof -
  from TopologicalSort_returns [OF assms(1,2)] obtain ops where
    ops: "TopologicalSort st (map snd named) = Some (ok ops)" "sorted_so_far st (set ops) ops"
      "set ops = (\<Union>n \<in> set (output_operators st (map snd named)). needed st n)" by blast
  have less: "\<forall>n \<in> set ops. n < length (operators st)"
    using needed_outputs_less [OF assms(1,2)] ops(3) by blast
  then have "(p, ops ! k) \<in> depends st" if "k < length ops" "p \<in> set (producers st (ops ! k))" for k p
    using that by (simp add: depends_def)
  with ops(2) have "\<forall>k < length ops. \<forall>p \<in> set (producers st (ops ! k)). p \<in> set (take k ops)"
    by (simp add: sorted_so_far_def)
  moreover have "distinct ops" using ops(2) by (simp add: sorted_so_far_def)
  ultimately show ?thesis using APIBuild_run [OF assms ops(1) less] ops(3) by blast
qed

theorem APIBuild_refines_run_witness:
  "\<exists>ops. distinct ops \<and> set ops = {0, 1} \<and>
    APIBuild null_backend example_relu [(''y'', 1)] =
      Some (bindR (build_report (backend_run null_backend example_relu ops [(''y'', 1)]) (bld_ctx example_relu))
        (\<lambda>(g, ctx). ok (g, example_relu\<lparr>bld_ctx := ctx\<rparr>)))"
  using APIBuild_refines_run [of example_relu "[(''y'', 1)]" null_backend]
  by (auto simp: example_relu_wf example_relu_outputs example_relu_needed simp del: One_nat_def)

section \<open>The contract of a backend\<close>

text \<open>A backend that supports some of the methods, with an invariant of the graph and the set of
  operators added so far.\<close>

locale graph_backend =
  fixes be :: "'g backend" and supports :: "add_method \<Rightarrow> bool"
    and ginv :: "builder \<Rightarrow> nat set \<Rightarrow> 'g \<Rightarrow> bool"
  assumes create: "ginv st {} (be_CreateGraph be)"
    and add: "ginv st done1 g \<Longrightarrow> n < length (operators st) \<Longrightarrow>
      supports (AddToGraph (op_kind (operators st ! n))) \<Longrightarrow> set (producers st n) \<subseteq> done1 \<Longrightarrow>
      \<exists>g'. be_Add be st (AddToGraph (op_kind (operators st ! n))) n g = Inr g' \<and>
        ginv st (insert n done1) g'"
    and add_output: "ginv st done1 g \<Longrightarrow> i < length (operands st) \<Longrightarrow>
      opd_operator (operands st ! i) = Some n \<Longrightarrow> n \<in> done1 \<Longrightarrow>
      \<exists>g'. be_AddOutput be st name i g = Inr g' \<and> ginv st done1 g'"
    and finish: "ginv st done1 g \<Longrightarrow> \<exists>g' g''. be_Finish be g = Inr g' \<and> be_Compile be g' = Inr g'' \<and>
      ginv st done1 g''"
begin

lemma run_adds:
  assumes "sorted_so_far st (set (pre @ ops)) (pre @ ops)"
    and "\<forall>n \<in> set ops. n < length (operators st) \<and> supports (AddToGraph (op_kind (operators st ! n)))"
    and "ginv st (set pre) g"
  shows "\<exists>g'. foldR (\<lambda>n. be_Add be st (AddToGraph (op_kind (operators st ! n))) n) ops g = Inr g' \<and>
    ginv st (set (pre @ ops)) g'"
  using assms
proof (induction ops arbitrary: pre g)
  case (Cons n ops)
  have "length pre < length (pre @ n # ops)" "(pre @ n # ops) ! length pre = n"
      "take (length pre) (pre @ n # ops) = pre" by simp_all
  with Cons.prems(1) have "p \<in> set pre" if "(p, n) \<in> depends st" for p
    using that unfolding sorted_so_far_def by metis
  then have "set (producers st n) \<subseteq> set pre" using Cons.prems(2) by (auto simp: depends_def)
  with Cons.prems add [of st "set pre" g n] obtain g' where
    g': "be_Add be st (AddToGraph (op_kind (operators st ! n))) n g = Inr g'"
      "ginv st (set (pre @ [n])) g'" by auto
  from Cons.IH [of "pre @ [n]" g'] Cons.prems g' show ?case by simp
qed simp

lemma run_outputs:
  assumes "\<forall>no \<in> set named. snd no < length (operands st) \<and>
      (\<exists>n \<in> done1. opd_operator (operands st ! snd no) = Some n)" "ginv st done1 g"
  shows "\<exists>g'. foldR (\<lambda>no. be_AddOutput be st (fst no) (snd no)) named g = Inr g' \<and> ginv st done1 g'"
  using assms
proof (induction named arbitrary: g)
  case (Cons no named)
  then obtain n where "n \<in> done1" "opd_operator (operands st ! snd no) = Some n"
      "snd no < length (operands st)" by auto
  with Cons.prems add_output obtain g' where "be_AddOutput be st (fst no) (snd no) g = Inr g'"
      "ginv st done1 g'" by blast
  with Cons show ?case by simp
qed simp

lemma build_succeeds:
  assumes wf: "wf_builder st" and v: "valid_outputs st (map snd named)" "named \<noteq> []"
    and sup: "\<forall>n \<in> (\<Union>n \<in> set (output_operators st (map snd named)). needed st n).
      supports (AddToGraph (op_kind (operators st ! n)))"
  shows "\<exists>g. APIBuild be st named = Some (ok (Some g, st)) \<and>
    ginv st (\<Union>n \<in> set (output_operators st (map snd named)). needed st n) g"
proof -
  from TopologicalSort_returns [OF wf v(1)] obtain ops where
    ops: "TopologicalSort st (map snd named) = Some (ok ops)" "sorted_so_far st (set ops) ops"
      "set ops = (\<Union>n \<in> set (output_operators st (map snd named)). needed st n)" by blast
  have less: "\<forall>n \<in> set ops. n < length (operators st)"
    using needed_outputs_less [OF wf v(1)] ops(3) by blast
  with sup ops(2,3) run_adds [of st "[]" ops "be_CreateGraph be"] create obtain g1 where
    g1: "foldR (\<lambda>n. be_Add be st (AddToGraph (op_kind (operators st ! n))) n) ops (be_CreateGraph be) = Inr g1"
      "ginv st (set ops) g1" by auto
  have "\<forall>no \<in> set named. snd no < length (operands st) \<and>
      (\<exists>n \<in> set ops. opd_operator (operands st ! snd no) = Some n)"
  proof
    fix no assume "no \<in> set named"
    then have no: "snd no \<in> set (map snd named)" by simp
    then have "the (opd_operator (operands st ! snd no)) \<in> set ops"
      unfolding ops(3) output_operators_def by force
    with no v(1) valid_output_operator(1) [OF wf v(1) no]
    show "snd no < length (operands st) \<and>
      (\<exists>n \<in> set ops. opd_operator (operands st ! snd no) = Some n)"
      by (auto simp: valid_outputs_def)
  qed
  from run_outputs [OF this g1(2)] obtain g2 where
    g2: "foldR (\<lambda>no. be_AddOutput be st (fst no) (snd no)) named g1 = Inr g2" "ginv st (set ops) g2"
    by blast
  with finish obtain g3 g4 where "be_Finish be g2 = Inr g3" "be_Compile be g3 = Inr g4"
      "ginv st (set ops) g4" by blast
  with g1 g2 have "backend_run be st ops named = Inr g4" "ginv st (set ops) g4"
    by (simp_all add: backend_run_def)
  with APIBuild_run [OF wf v ops(1) less, of be] ops(3) show ?thesis by simp
qed

end

interpretation null_graph: graph_backend null_backend "\<lambda>m. m \<in> set null_overrides" "\<lambda>st done1 g. True"
  by unfold_locales (simp_all add: null_backend_def)

text \<open>
  C7. The null backend builds every graph whose operators it supports: the caller gets a graph
  and no error is reported.
\<close>

theorem null_build_succeeds:
  assumes "wf_builder st" "valid_outputs st (map snd named)" "named \<noteq> []"
    and "\<forall>n \<in> (\<Union>n \<in> set (output_operators st (map snd named)). needed st n).
      AddToGraph (op_kind (operators st ! n)) \<in> set null_overrides"
  shows "APIBuild null_backend st named = Some (ok (Some (), st))"
  using null_graph.build_succeeds [OF assms] by auto

theorem null_build_succeeds_witness:
  "APIBuild null_backend example_relu [(''y'', 1)] = Some (ok (Some (), example_relu))"
  using null_build_succeeds [of example_relu "[(''y'', 1)]"]
  by (simp add: example_relu_wf example_relu_outputs example_relu_needed del: One_nat_def)
    (simp add: example_relu_def example_input_def null_overrides_def)

section \<open>Error outputs\<close>

lemma topo_null: "topo_loop st (None # rest, D, r) = Some undef"
  by (subst topo_loop.simps) simp

lemma split_first_null:
  assumes "None \<in> set xs"
  shows "\<exists>s rest. xs = map Some s @ None # rest"
  using assms
proof (induction xs)
  case (Cons x xs)
  show ?case
  proof (cases x)
    case None
    then show ?thesis by (intro exI [of _ "[]"] exI [of _ xs]) simp
  next
    case (Some n)
    with Cons obtain s rest where "xs = map Some s @ None # rest" by auto
    with Some show ?thesis by (intro exI [of _ "n # s"]) simp
  qed
qed simp

text \<open>
  C8. Asking for an error operand as an output is undefined behaviour, whatever the backend and
  the other outputs: the sort dereferences the null operator of the error operand instead of
  failing the build.
\<close>

theorem build_error_output_undefined:
  assumes wf: "wf_builder st" and range: "\<forall>no \<in> set named. snd no < length (operands st)"
    and err: "\<exists>no \<in> set named. opd_error (operands st ! snd no)"
  shows "APIBuild be st named = Some undef"
proof -
  let ?xs = "map (\<lambda>no. opd_operator (operands st ! snd no)) named"
  have opok: "operand_ok st (snd no)" if "no \<in> set named" for no
    using wf range that by (simp add: wf_builder_def)
  have dep: "dep_operators st (map snd named) = ok ?xs"
    using range by (simp add: dep_operators_def get_operands_Inr_iff [THEN iffD2] comp_def)
  have "None \<in> set (rev ?xs)"
    using err opok by (force simp: operand_ok_def split: option.splits)
  from split_first_null [OF this] obtain s rest where split: "rev ?xs = map Some s @ None # rest"
    by blast
  have less: "n < length (operators st)" if "n \<in> set s" for n
  proof -
    from that have "Some n \<in> set (rev ?xs)" unfolding split by simp
    then obtain no where "no \<in> set named" "opd_operator (operands st ! snd no) = Some n" by auto
    with opok [of no] show ?thesis by (simp add: operand_ok_def)
  qed
  have proc: "processes st s"
    by (rule processes_list) (auto intro: processes_one [OF wf] less)
  have "sorted_so_far st {} []" by (simp add: sorted_so_far_def)
  with proc obtain D r where "topo_loop st (rev ?xs, {}, []) = topo_loop st (None # rest, D, r)"
    unfolding processes_def split by blast
  then have "TopologicalSort st (map snd named) = Some undef"
    by (simp add: TopologicalSort_def dep topo_null)
  then show ?thesis using err by (auto simp: APIBuild_def)
qed

theorem build_error_output_undefined_witness:
  "APIBuild null_backend \<lparr>operands = [operand_MakeError], operators = [], bld_ctx = ContextBase\<rparr>
     [(''y'', 0)] = Some undef"
  by (rule build_error_output_undefined)
    (simp_all add: wf_builder_def operand_ok_def operand_MakeError_def)

end
