(* ===== verification/Dawn_Math.thy ===== *)
theory Dawn_Math
  imports Prelude "HOL-Library.Word"
begin

text \<open>
  Arithmetic helpers of \<open>common/Math.cpp\<close> and \<open>common/Math.h\<close> on machine words:
  logarithms, powers of two and alignment. A failed assertion is undefined behaviour.
\<close>

unbundle bit_operations_syntax

section \<open>Definitions\<close>

text \<open>The compiler builtins: number of leading zeros of a non-zero 64-bit word and of trailing
  zeros of a non-zero 32-bit word.\<close>

definition clz64 :: "64 word \<Rightarrow> nat" where
  "clz64 v = length (takeWhile (\<lambda>i. \<not> bit v i) (rev [0..<64]))"

definition clz32 :: "32 word \<Rightarrow> nat" where
  "clz32 v = length (takeWhile (\<lambda>i. \<not> bit v i) (rev [0..<32]))"

definition ctz32 :: "32 word \<Rightarrow> nat" where
  "ctz32 v = length (takeWhile (\<lambda>i. \<not> bit v i) [0..<32])"

definition ScanForward :: "32 word \<Rightarrow> nat res" where
  "ScanForward bits = (if bits = 0 then undef else ok (ctz32 bits))"

definition Log2_u32 :: "32 word \<Rightarrow> nat res" where
  "Log2_u32 v = (if v = 0 then undef else ok (31 - clz32 v))"

definition Log2 :: "64 word \<Rightarrow> nat res" where
  "Log2 v = (if v = 0 then undef else ok (63 - clz64 v))"

fun ConstexprLog2 :: "nat \<Rightarrow> nat" where
  "ConstexprLog2 v = (if v \<le> 1 then 0 else 1 + ConstexprLog2 (v div 2))"

declare ConstexprLog2.simps [simp del]

definition ConstexprLog2Ceil :: "nat \<Rightarrow> nat" where
  "ConstexprLog2Ceil v = (if v \<le> 1 then 0 else ConstexprLog2 (v - 1) + 1)"

definition Log2Ceil :: "64 word \<Rightarrow> nat res" where
  "Log2Ceil v = (if v \<le> 1 then ok 0 else bindR (Log2 (v - 1)) (\<lambda>l. ok (l + 1)))"

text \<open>A shift by the width or more is undefined.\<close>

definition NextPowerOfTwo :: "64 word \<Rightarrow> 64 word res" where
  "NextPowerOfTwo n =
     (if n \<le> 1 then ok 1
      else bindR (Log2 (n - 1)) (\<lambda>l. if l + 1 < 64 then ok (push_bit (l + 1) 1) else undef))"

definition IsPowerOfTwo :: "64 word \<Rightarrow> bool res" where
  "IsPowerOfTwo n = (if n = 0 then undef else ok (n AND (n - 1) = 0))"

text \<open>The assertion \<open>ASSERT(IsPowerOfTwo(alignment))\<close>.\<close>

definition assert_pow2 :: "64 word \<Rightarrow> unit res" where
  "assert_pow2 alignment = bindR (IsPowerOfTwo alignment) (\<lambda>b. if b then ok () else undef)"

definition IsPtrAligned :: "64 word \<Rightarrow> 64 word \<Rightarrow> bool res" where
  "IsPtrAligned ptr alignment =
     bindR (assert_pow2 alignment) (\<lambda>_. ok (ptr AND (alignment - 1) = 0))"

definition IsAligned :: "32 word \<Rightarrow> 64 word \<Rightarrow> bool res" where
  "IsAligned v alignment =
     (if alignment > 0xFFFFFFFF then undef
      else bindR (assert_pow2 alignment) (\<lambda>_.
        ok (v AND ((ucast alignment :: 32 word) - 1) = 0)))"

text \<open>\<open>Align\<close> at \<open>uint64_t\<close>.\<close>

definition Align :: "64 word \<Rightarrow> 64 word \<Rightarrow> 64 word res" where
  "Align v alignment =
     (if \<not> v \<le> - 1 - (alignment - 1) then undef
      else bindR (assert_pow2 alignment) (\<lambda>_.
        ok ((v + (alignment - 1)) AND NOT (alignment - 1))))"

definition AlignPtr :: "64 word \<Rightarrow> 64 word \<Rightarrow> 64 word res" where
  "AlignPtr ptr alignment =
     bindR (assert_pow2 alignment) (\<lambda>_.
       ok ((ptr + (alignment - 1)) AND NOT (alignment - 1)))"

definition RoundUp :: "64 word \<Rightarrow> 64 word \<Rightarrow> 64 word res" where
  "RoundUp n m =
     (if m > 0 \<and> n > 0 \<and> m \<le> - 1 - n then ok (((n + m - 1) div m) * m) else undef)"

definition IsSubset :: "'w::len word \<Rightarrow> 'w word \<Rightarrow> bool" where
  "IsSubset sub1 set1 = (sub1 AND set1 = sub1)"

section \<open>Logarithms\<close>

lemma takeWhile_rev_upt:
  "k < n \<Longrightarrow> P k \<Longrightarrow> \<forall>j. k < j \<and> j < n \<longrightarrow> \<not> P j \<Longrightarrow>
     takeWhile (\<lambda>i. \<not> P i) (rev [0..<n]) = rev [Suc k..<n]"
proof (induction n)
  case (Suc n)
  show ?case
  proof (cases "k = n")
    case False
    with Suc have "takeWhile (\<lambda>i. \<not> P i) (rev [0..<n]) = rev [Suc k..<n]" "\<not> P n" by auto
    with Suc.prems False show ?thesis by simp
  qed (use Suc.prems in simp)
qed simp

lemma clz64_top:
  assumes "bit v k" "\<forall>j > k. \<not> bit v j"
  shows "clz64 v = 63 - k" "k < 64"
proof -
  show "k < 64" using assms(1) bit_imp_le_length by fastforce
  with assms have "takeWhile (\<lambda>i. \<not> bit v i) (rev [0..<64]) = rev [Suc k..<64]"
    by (intro takeWhile_rev_upt) auto
  then show "clz64 v = 63 - k" by (simp add: clz64_def)
qed

lemma top_bit_exists:
  fixes v :: "'w::len word"
  assumes "v \<noteq> 0"
  obtains k where "bit v k" "\<forall>j > k. \<not> bit v j"
proof -
  let ?S = "{k. bit v k}"
  have "?S \<subseteq> {..<LENGTH('w)}" using bit_imp_le_length by auto
  then have fin: "finite ?S" by (rule finite_subset) simp
  have "?S \<noteq> {}" using assms by (auto simp: bit_eq_iff)
  then have "bit v (Max ?S)" using Max_in [OF fin] by simp
  moreover have "\<forall>j > Max ?S. \<not> bit v j" using Max_ge [OF fin] by (auto simp: not_le [symmetric])
  ultimately show thesis using that by blast
qed

lemma top_bit_bounds:
  fixes v :: "'w::len word"
  assumes "bit v k" "\<forall>j > k. \<not> bit v j"
  shows "2 ^ k \<le> unat v" "unat v < 2 ^ Suc k"
proof -
  have "bit (unat v) k" using assms(1) by (simp add: bit_unsigned_iff bit_imp_le_length)
  then have "odd (unat v div 2 ^ k)" by (simp add: bit_iff_odd)
  then have "unat v div 2 ^ k \<noteq> 0" by (metis even_zero)
  then show "2 ^ k \<le> unat v" by (simp add: div_eq_0_iff)
  have "take_bit (Suc k) v = v"
    using assms(2) by (intro bit_word_eqI) (auto simp: bit_take_bit_iff not_less_eq)
  then have "take_bit (Suc k) (unat v) = unat v" by (metis unsigned_take_bit_eq)
  then show "unat v < 2 ^ Suc k" by (metis take_bit_nat_less_exp)
qed

lemma Log2_eq:
  assumes "v \<noteq> 0"
  shows "\<exists>k < 64. Log2 v = ok k \<and> 2 ^ k \<le> unat v \<and> unat v < 2 ^ Suc k"
proof -
  from assms obtain k where k: "bit v k" "\<forall>j > k. \<not> bit v j" by (rule top_bit_exists)
  with clz64_top [OF k] top_bit_bounds [OF k] assms show ?thesis
    by (intro exI [of _ k]) (simp add: Log2_def)
qed

lemma Log2_u32_eq:
  assumes "v \<noteq> 0"
  shows "\<exists>k < 32. Log2_u32 v = ok k \<and> 2 ^ k \<le> unat v \<and> unat v < 2 ^ Suc k"
proof -
  from assms obtain k where k: "bit v k" "\<forall>j > k. \<not> bit v j" by (rule top_bit_exists)
  have "k < 32" using k(1) bit_imp_le_length by fastforce
  moreover from this k have "takeWhile (\<lambda>i. \<not> bit v i) (rev [0..<32]) = rev [Suc k..<32]"
    by (intro takeWhile_rev_upt) auto
  ultimately show ?thesis using top_bit_bounds [OF k] assms
    by (intro exI [of _ k]) (simp add: Log2_u32_def clz32_def)
qed

lemma ConstexprLog2_bounds:
  "0 < v \<Longrightarrow> 2 ^ ConstexprLog2 v \<le> v \<and> v < 2 ^ Suc (ConstexprLog2 v)"
proof (induction v rule: ConstexprLog2.induct)
  case (1 v)
  show ?case
  proof (cases "v \<le> 1")
    case True
    with 1(2) show ?thesis by (simp add: ConstexprLog2.simps)
  next
    case False
    with 1 have "2 ^ ConstexprLog2 (v div 2) \<le> v div 2 \<and> v div 2 < 2 ^ Suc (ConstexprLog2 (v div 2))"
      by simp
    with False show ?thesis by (subst (1 2) ConstexprLog2.simps) auto
  qed
qed

lemma log_unique:
  fixes v :: nat
  assumes "2 ^ k \<le> v" "v < 2 ^ Suc k" "2 ^ l \<le> v" "v < 2 ^ Suc l"
  shows "k = l"
proof -
  have "2 ^ k < (2 :: nat) ^ Suc l" "2 ^ l < (2 :: nat) ^ Suc k" using assms by linarith+
  then show ?thesis using power_less_imp_less_exp [of 2] by (metis Suc_leI le_antisym less_Suc_eq_le one_less_numeral_iff semiring_norm(76))
qed

text \<open>
  The run-time logarithm, which counts leading zeros, agrees with the compile-time one, which
  divides by two: both are the position of the highest set bit.
\<close>

theorem Log2_is_ConstexprLog2:
  assumes "v \<noteq> 0"
  shows "Log2 v = ok (ConstexprLog2 (unat v))"
proof -
  from Log2_eq [OF assms] obtain k where k: "Log2 v = ok k" "2 ^ k \<le> unat v" "unat v < 2 ^ Suc k" by blast
  moreover have "0 < unat v" using assms by (simp add: unat_gt_0)
  ultimately show ?thesis using log_unique ConstexprLog2_bounds by metis
qed

theorem Log2_is_ConstexprLog2_witness: "Log2 1000 = ok 9"
  using Log2_is_ConstexprLog2 [of 1000] by (simp add: ConstexprLog2.simps)

section \<open>Powers of two\<close>

lemma pow2_word:
  assumes "k < LENGTH('w)"
  shows "unat (2 ^ k :: 'w::len word) = 2 ^ k" "(2 ^ k :: 'w word) \<noteq> 0"
proof -
  have "unat (of_nat (2 ^ k) :: 'w word) = 2 ^ k"
    using assms by (simp only: unsigned_of_nat) (simp add: take_bit_nat_eq_self)
  then show "unat (2 ^ k :: 'w::len word) = 2 ^ k" by simp
  then show "(2 ^ k :: 'w word) \<noteq> 0" by (metis power_not_zero unat_0 zero_neq_numeral)
qed

lemma bit_of_bounds:
  fixes v :: "'w::len word"
  assumes "2 ^ k \<le> unat v" "unat v < 2 ^ Suc k"
  shows "bit v k"
proof -
  have "unat v div 2 ^ k = 1"
    using assms by (intro div_nat_eqI) auto
  then have "bit (unat v) k" by (simp add: bit_iff_odd)
  then show ?thesis by (simp add: bit_unsigned_iff)
qed

lemma IsPowerOfTwo_iff:
  assumes "n \<noteq> 0"
  shows "IsPowerOfTwo n = ok (\<exists>k < 64. n = 2 ^ k)"
proof -
  from assms obtain k where k: "bit n k" "\<forall>j > k. \<not> bit n j" by (rule top_bit_exists)
  have k64: "k < 64" using bit_imp_le_length [OF k(1)] by simp
  note b = top_bit_bounds [OF k]
  have minus: "unat (n - 1) = unat n - 1" using assms by (simp add: unat_minus_one)
  have "n AND (n - 1) = 0 \<longleftrightarrow> (\<exists>k < 64. n = 2 ^ k)"
  proof (cases "unat n = 2 ^ k")
    case True
    then have n: "n = 2 ^ k" using pow2_word [of k, where 'w = 64] k64 by (simp add: word_unat_eq_iff)
    have "n - 1 = mask k" by (simp add: n mask_eq_exp_minus_1)
    then have "n AND (n - 1) = 0"
      by (intro bit_word_eqI) (auto simp: n bit_and_iff bit_exp_iff bit_mask_iff)
    with n k64 show ?thesis by blast
  next
    case False
    with b minus have "2 ^ k \<le> unat (n - 1)" "unat (n - 1) < 2 ^ Suc k" by auto
    then have "bit (n AND (n - 1)) k" using k(1) by (simp add: bit_and_iff bit_of_bounds)
    then have "n AND (n - 1) \<noteq> 0" by (metis bit_0_eq bot_apply bot_bool_def)
    moreover have "n \<noteq> 2 ^ l" if "l < 64" for l
    proof
      assume "n = 2 ^ l"
      then have "unat n = 2 ^ l" using that pow2_word [of l, where 'w = 64] by simp
      with b have "k = l" by (intro log_unique [of k "unat n" l]) simp_all
      with False \<open>unat n = 2 ^ l\<close> show False by simp
    qed
    ultimately show ?thesis by blast
  qed
  with assms show ?thesis by (simp add: IsPowerOfTwo_def)
qed

lemma and_not_mask: "v AND NOT (mask k) = push_bit k (drop_bit k (v :: 'w::len word))"
  by (rule bit_word_eqI) (auto simp: bit_and_iff bit_not_iff bit_mask_iff bit_push_bit_iff bit_drop_bit_eq)

lemma unat_and_not_mask: "unat (v AND NOT (mask k)) = (unat v div 2 ^ k) * 2 ^ k" for v :: "'w::len word"
proof -
  have "unat (v AND NOT (mask k)) = take_bit LENGTH('w) (push_bit k (drop_bit k (unat v)))"
    by (simp add: and_not_mask unsigned_push_bit_eq unat_drop_bit_eq)
  also have "\<dots> = take_bit LENGTH('w) ((unat v div 2 ^ k) * 2 ^ k)"
    by (simp add: push_bit_eq_mult drop_bit_eq_div)
  also have "\<dots> = (unat v div 2 ^ k) * 2 ^ k"
    by (rule take_bit_nat_eq_self) (metis div_times_less_eq_dividend le_less_trans unsigned_less)
  finally show ?thesis .
qed

lemma round_up_bounds:
  fixes v a :: nat
  assumes "0 < a"
  shows "v \<le> (v + (a - 1)) div a * a" "(v + (a - 1)) div a * a < v + a"
proof -
  let ?x = "v + (a - 1)"
  have "?x div a * a + ?x mod a = ?x" by (rule div_mult_mod_eq)
  moreover have "?x mod a < a" using assms by simp
  ultimately show "v \<le> ?x div a * a" "?x div a * a < v + a" using assms by linarith+
qed

text \<open>
  Aligning a value to a power of two, when the result is representable, gives the least
  multiple of the alignment that is not below the value.
\<close>

theorem Align_least_multiple:
  assumes "k < 64" "unat v + 2 ^ k \<le> 2 ^ 64"
  shows "\<exists>r. Align v (2 ^ k) = ok r \<and> 2 ^ k dvd unat r \<and> unat v \<le> unat r \<and> unat r < unat v + 2 ^ k"
proof -
  let ?a = "2 ^ k :: 64 word"
  have a: "unat ?a = 2 ^ k" "?a \<noteq> 0" using pow2_word [of k, where 'w = 64] assms(1) by simp_all
  have m: "?a - 1 = mask k" by (simp add: mask_eq_exp_minus_1)
  have um: "unat (mask k :: 64 word) = 2 ^ k - 1"
    using a unat_minus_one [of ?a] by (simp add: m)
  have "unat (- 1 - mask k :: 64 word) = 2 ^ 64 - 1 - (2 ^ k - 1)"
    using um by (subst unat_sub) (simp_all add: unsigned_minus_1_eq_mask mask_eq_exp_minus_1)
  with assms(2) have "v \<le> - 1 - mask k" by (simp add: word_le_nat_alt)
  moreover have "assert_pow2 ?a = ok ()"
    using a assms(1) by (auto simp: assert_pow2_def IsPowerOfTwo_iff)
  ultimately have "Align v ?a = ok ((v + mask k) AND NOT (mask k))" by (simp add: Align_def m)
  moreover have "unat (v + mask k) = unat v + (2 ^ k - 1)"
    using assms(2) um by (subst unat_add_lem [THEN iffD1]) simp_all
  then have "unat ((v + mask k) AND NOT (mask k)) = (unat v + (2 ^ k - 1)) div 2 ^ k * 2 ^ k"
    by (simp add: unat_and_not_mask)
  moreover note round_up_bounds [of "2 ^ k" "unat v"]
  ultimately show ?thesis by (auto intro!: exI)
qed

theorem Align_least_multiple_witness:
  "\<exists>r. Align 13 (2 ^ 3) = ok r \<and> 2 ^ 3 dvd unat r \<and> unat (13 :: 64 word) \<le> unat r \<and>
     unat r < unat (13 :: 64 word) + 2 ^ 3"
  by (rule Align_least_multiple) simp_all

lemma NextPowerOfTwo_cases:
  "if unat n \<le> 2 ^ 63
   then \<exists>k < 64. NextPowerOfTwo n = ok (2 ^ k) \<and> unat n \<le> 2 ^ k \<and> (\<forall>j. unat n \<le> 2 ^ j \<longrightarrow> k \<le> j)
   else NextPowerOfTwo n = undef"
proof (cases "n \<le> 1")
  case True
  then have "unat n \<le> 1" by (simp add: word_le_nat_alt)
  with True show ?thesis by (auto simp: NextPowerOfTwo_def intro!: exI [of _ 0])
next
  case False
  then have n: "1 < unat n" by (simp add: word_le_nat_alt)
  then have n1: "unat (n - 1) = unat n - 1" by (intro unat_minus_one) auto
  then have "n - 1 \<noteq> 0" using n by (metis diff_is_0_eq not_le unat_0)
  from Log2_eq [OF this] obtain k where
    k: "k < 64" "Log2 (n - 1) = ok k" "2 ^ k \<le> unat n - 1" "unat n - 1 < 2 ^ Suc k" using n1 by auto
  have next1: "NextPowerOfTwo n = (if k + 1 < 64 then ok (2 ^ Suc k) else undef)"
    using False k(2) by (simp add: NextPowerOfTwo_def push_bit_of_1)
  have least: "Suc k \<le> j" if "unat n \<le> 2 ^ j" for j
  proof (rule ccontr)
    assume "\<not> Suc k \<le> j"
    then have "(2 :: nat) ^ j \<le> 2 ^ k" by (intro power_increasing) auto
    with that k(3) n show False by linarith
  qed
  show ?thesis
  proof (cases "k = 63")
    case True
    with k(3) n have "\<not> unat n \<le> 2 ^ 63" by simp
    with True next1 show ?thesis by simp
  next
    case False
    with k(1) have k63: "Suc k < 64" by simp
    then have "(2 :: nat) ^ Suc k \<le> 2 ^ 63" by (intro power_increasing) auto
    with k(4) have "unat n \<le> 2 ^ 63" "unat n \<le> 2 ^ Suc k" by linarith+
    moreover have "NextPowerOfTwo n = ok (2 ^ Suc k)" using next1 k63 by simp
    ultimately show ?thesis using k63 least by (auto intro!: exI [of _ "Suc k"])
  qed
qed

text \<open>
  For every size up to \<open>2^63\<close> the next power of two is the least power of two that is not
  below the size; beyond that the shift is undefined.
\<close>

theorem NextPowerOfTwo_least:
  "if unat n \<le> 2 ^ 63
   then \<exists>k < 64. NextPowerOfTwo n = ok (2 ^ k) \<and> unat n \<le> 2 ^ k \<and> (\<forall>j. unat n \<le> 2 ^ j \<longrightarrow> k \<le> j)
   else NextPowerOfTwo n = undef"
  by (rule NextPowerOfTwo_cases)

theorem NextPowerOfTwo_least_witness:
  "\<exists>k < 64. NextPowerOfTwo 100 = ok (2 ^ k) \<and> unat (100 :: 64 word) \<le> 2 ^ k"
  using NextPowerOfTwo_least [of 100] by auto

end
