(* ===== verification/Serial_Storage.thy ===== *)
theory Serial_Storage
  imports Prelude "HOL-Library.Multiset"
begin

text \<open>
  The containers of values tagged with execution serials: \<open>common/SerialStorage.h\<close>,
  \<open>common/SerialQueue.h\<close> and \<open>common/SerialMap.h\<close>. The storage is a list of a serial
  and the vector of its values, which the iterators walk as the sources do; the interface that
  the allocators rely on is the locale \<open>serial_storage\<close>, interpreted for both containers.
\<close>

section \<open>SerialStorage\<close>

type_synonym 'v storage = "(nat \<times> 'v list) list"

text \<open>The iterator \<open>FindUpTo\<close> returns, as an index.\<close>

fun FindUpTo :: "nat \<Rightarrow> 'v storage \<Rightarrow> nat" where
  "FindUpTo serial [] = 0"
| "FindUpTo serial (p # st) = (if fst p \<le> serial then Suc (FindUpTo serial st) else 0)"

definition Storage_Clear :: "'v storage \<Rightarrow> 'v storage" where
  "Storage_Clear st = []"

definition ClearUpTo :: "nat \<Rightarrow> 'v storage \<Rightarrow> 'v storage" where
  "ClearUpTo serial st = drop (FindUpTo serial st) st"

definition FirstSerial :: "'v storage \<Rightarrow> nat res" where
  "FirstSerial st = (case st of [] \<Rightarrow> undef | p # _ \<Rightarrow> ok (fst p))"

definition LastSerial :: "'v storage \<Rightarrow> nat res" where
  "LastSerial st = (if st = [] then undef else ok (fst (last st)))"

text \<open>An iterator: the storage index and the index in its vector, where the first position is
  tagged with \<open>None\<close> as the sources tag it with a null pointer.\<close>

type_synonym iter = "nat \<times> nat option"

definition iter_next :: "'v storage \<Rightarrow> iter \<Rightarrow> iter res" where
  "iter_next st = (\<lambda>(i, j).
     bindR (vec_at st (int i)) (\<lambda>p.
       let j' = (case j of None \<Rightarrow> 1 | Some k \<Rightarrow> k + 1)
       in ok (if j' \<ge> length (snd p) then (i + 1, None) else (i, Some j'))))"

definition iter_get :: "'v storage \<Rightarrow> iter \<Rightarrow> 'v res" where
  "iter_get st = (\<lambda>(i, j).
     bindR (vec_at st (int i)) (\<lambda>p. vec_at (snd p) (int (case j of None \<Rightarrow> 0 | Some k \<Rightarrow> k))))"

text \<open>A range-based for loop from \<open>it\<close> to the end iterator \<open>(k, None)\<close>, collecting the
  values; \<open>None\<close> when it does not end.\<close>

partial_function (option) iterate :: "'v storage \<Rightarrow> nat \<Rightarrow> iter \<Rightarrow> 'v list \<Rightarrow> 'v list res option" where
  "iterate st k it acc =
     (if it = (k, None) then Some (ok acc)
      else case bindR (iter_get st it) (\<lambda>v. bindR (iter_next st it) (\<lambda>it'. ok (v, it'))) of
             Inl e \<Rightarrow> Some (Inl e)
           | Inr (v, it') \<Rightarrow> iterate st k it' (acc @ [v]))"

definition IterateAll :: "'v storage \<Rightarrow> 'v list res option" where
  "IterateAll st = iterate st (length st) (0, None) []"

definition IterateUpTo :: "nat \<Rightarrow> 'v storage \<Rightarrow> 'v list res option" where
  "IterateUpTo serial st = iterate st (FindUpTo serial st) (0, None) []"

section \<open>SerialQueue and SerialMap\<close>

definition push_back_last :: "'v \<Rightarrow> 'v storage \<Rightarrow> 'v storage" where
  "push_back_last v st = butlast st @ [(fst (last st), snd (last st) @ [v])]"

definition SerialQueue_Enqueue :: "'v \<Rightarrow> nat \<Rightarrow> 'v storage \<Rightarrow> 'v storage res" where
  "SerialQueue_Enqueue v serial st =
     (if \<not> (st = [] \<or> fst (last st) \<le> serial) then undef
      else ok (push_back_last v
        (if st = [] \<or> fst (last st) < serial then st @ [(serial, [])] else st)))"

definition SerialQueue_EnqueueVector :: "'v list \<Rightarrow> nat \<Rightarrow> 'v storage \<Rightarrow> 'v storage res" where
  "SerialQueue_EnqueueVector vs serial st =
     (if vs = [] then undef
      else if \<not> (st = [] \<or> fst (last st) \<le> serial) then undef
      else ok (st @ [(serial, vs)]))"

text \<open>\<open>mStorage[serial].emplace_back(value)\<close> on an ordered map.\<close>

fun SerialMap_Enqueue :: "'v \<Rightarrow> nat \<Rightarrow> 'v storage \<Rightarrow> 'v storage" where
  "SerialMap_Enqueue v serial [] = [(serial, [v])]"
| "SerialMap_Enqueue v serial ((s, vs) # st) =
     (if serial < s then (serial, [v]) # (s, vs) # st
      else if serial = s then (s, vs @ [v]) # st
      else (s, vs) # SerialMap_Enqueue v serial st)"

definition SerialMap_EnqueueVector :: "'v list \<Rightarrow> nat \<Rightarrow> 'v storage \<Rightarrow> 'v storage res" where
  "SerialMap_EnqueueVector vs serial st =
     (if vs = [] then undef else ok (foldl (\<lambda>st v. SerialMap_Enqueue v serial st) st vs))"

section \<open>Iteration\<close>

definition vectors_ok :: "'v storage \<Rightarrow> bool" where
  "vectors_ok st \<longleftrightarrow> (\<forall>p \<in> set st. snd p \<noteq> [])"

lemma iterate_vector:
  assumes "i < k" "k \<le> length st" "snd (st ! i) \<noteq> []" "n < length (snd (st ! i))"
  shows "iterate st k (i, if n = 0 then None else Some n) acc =
    iterate st k (Suc i, None) (acc @ drop n (snd (st ! i)))"
  using assms(4)
proof (induction "length (snd (st ! i)) - n" arbitrary: n acc)
  case 0
  then show ?case by simp
next
  case (Suc m)
  let ?vs = "snd (st ! i)" and ?it = "(i, if n = 0 then None else Some n)"
  have i: "vec_at st (int i) = ok (st ! i)" using assms(1,2) by simp
  have get: "iter_get st ?it = ok (?vs ! n)" using Suc.prems i assms(3) by (auto simp: iter_get_def vec_at_def)
  have next1: "iter_next st ?it = ok (if Suc n \<ge> length ?vs then (Suc i, None) else (i, Some (Suc n)))"
    using i by (simp add: iter_next_def)
  have step: "iterate st k ?it acc =
      iterate st k (if Suc n \<ge> length ?vs then (Suc i, None) else (i, Some (Suc n))) (acc @ [?vs ! n])"
    using assms(1) get next1 by (subst iterate.simps) auto
  show ?case
  proof (cases "Suc n \<ge> length ?vs")
    case True
    with Suc.prems have "drop n ?vs = [?vs ! n]" by (metis Cons_nth_drop_Suc drop_all)
    with True step show ?thesis by simp
  next
    case False
    with Suc have "iterate st k (i, if Suc n = 0 then None else Some (Suc n)) (acc @ [?vs ! n]) =
        iterate st k (Suc i, None) ((acc @ [?vs ! n]) @ drop (Suc n) ?vs)" by (intro Suc.hyps(1)) simp_all
    with False step Suc.prems show ?thesis by (simp add: Cons_nth_drop_Suc)
  qed
qed

lemma iterate_range:
  assumes "vectors_ok st" "i \<le> k" "k \<le> length st"
  shows "iterate st k (i, None) acc = Some (ok (acc @ concat (map snd (drop i (take k st)))))"
  using assms(2)
proof (induction "k - i" arbitrary: i acc)
  case 0
  then have "i = k" by simp
  then show ?case by (subst iterate.simps) simp
next
  case (Suc m)
  then have i: "i < k" by simp
  then have "snd (st ! i) \<noteq> []" using assms(1,3) by (auto simp: vectors_ok_def)
  then have "iterate st k (i, None) acc = iterate st k (Suc i, None) (acc @ snd (st ! i))"
    using iterate_vector [of i k st 0 acc] i assms(3) by simp
  also have "\<dots> = Some (ok ((acc @ snd (st ! i)) @ concat (map snd (drop (Suc i) (take k st)))))"
    using Suc i by (intro Suc.hyps(1)) simp_all
  also have "drop i (take k st) = st ! i # drop (Suc i) (take k st)"
    using i assms(3) by (metis Cons_nth_drop_Suc length_take min.absorb2 nth_take)
  ultimately show ?case by simp
qed

text \<open>The values with their serials, in iteration order.\<close>

definition items :: "'v storage \<Rightarrow> (nat \<times> 'v) list" where
  "items st = concat (map (\<lambda>(s, vs). map (Pair s) vs) st)"

definition storage_ok :: "'v storage \<Rightarrow> bool" where
  "storage_ok st \<longleftrightarrow> vectors_ok st \<and> sorted (map fst st)"

lemma items_append [simp]: "items (st @ st') = items st @ items st'"
  by (simp add: items_def)

lemma items_simps [simp]: "items [] = []" "items ((s, vs) # st) = map (Pair s) vs @ items st"
  by (simp_all add: items_def)

lemma map_snd_items: "map snd (items st) = concat (map snd st)"
  by (induction st) (auto simp: comp_def)

lemma FindUpTo_split:
  assumes "sorted (map fst st)"
  shows "take (FindUpTo serial st) st = filter (\<lambda>p. fst p \<le> serial) st"
    "drop (FindUpTo serial st) st = filter (\<lambda>p. \<not> fst p \<le> serial) st"
    "FindUpTo serial st \<le> length st"
proof -
  have "take (FindUpTo serial st) st = filter (\<lambda>p. fst p \<le> serial) st \<and>
      drop (FindUpTo serial st) st = filter (\<lambda>p. \<not> fst p \<le> serial) st \<and> FindUpTo serial st \<le> length st"
    using assms
  proof (induction st)
    case (Cons p st)
    show ?case
    proof (cases "fst p \<le> serial")
      case False
      with Cons.prems have "\<forall>q \<in> set st. \<not> fst q \<le> serial" by fastforce
      with False show ?thesis by (simp add: filter_False)
    qed (use Cons in simp)
  qed simp
  then show "take (FindUpTo serial st) st = filter (\<lambda>p. fst p \<le> serial) st"
    "drop (FindUpTo serial st) st = filter (\<lambda>p. \<not> fst p \<le> serial) st" "FindUpTo serial st \<le> length st"
    by blast+
qed

lemma items_filter: "items (filter (\<lambda>p. P (fst p)) st) = filter (\<lambda>x. P (fst x)) (items st)"
  by (induction st) (auto simp: filter_map comp_def)

lemma IterateUpTo_items:
  assumes "storage_ok st"
  shows "IterateUpTo serial st = Some (ok (map snd (filter (\<lambda>x. fst x \<le> serial) (items st))))"
proof -
  have "iterate st (FindUpTo serial st) (0, None) [] =
      Some (ok (concat (map snd (take (FindUpTo serial st) st))))"
    using assms iterate_range [of st 0 "FindUpTo serial st" "[]"] FindUpTo_split(3) [of st serial]
    by (simp add: storage_ok_def)
  with assms show ?thesis
    by (simp add: IterateUpTo_def FindUpTo_split storage_ok_def map_snd_items [symmetric]
        items_filter [of "\<lambda>s. s \<le> serial"])
qed

lemma ClearUpTo_items:
  assumes "storage_ok st"
  shows "storage_ok (ClearUpTo serial st)"
    "items (ClearUpTo serial st) = filter (\<lambda>x. \<not> fst x \<le> serial) (items st)"
proof -
  have eq: "ClearUpTo serial st = filter (\<lambda>p. \<not> fst p \<le> serial) st"
    using assms by (simp add: ClearUpTo_def FindUpTo_split storage_ok_def)
  show "items (ClearUpTo serial st) = filter (\<lambda>x. \<not> fst x \<le> serial) (items st)"
    unfolding eq by (rule items_filter)
  show "storage_ok (ClearUpTo serial st)"
    unfolding eq using assms by (auto simp: storage_ok_def vectors_ok_def sorted_filter)
qed

section \<open>The interface\<close>

lemma split_sorted:
  "sorted (map fst xs) \<Longrightarrow> xs = filter (\<lambda>x. fst x \<le> s) xs @ filter (\<lambda>x. \<not> fst x \<le> s) xs"
proof (induction xs)
  case (Cons x xs)
  show ?case
  proof (cases "fst x \<le> s")
    case False
    with Cons.prems have "\<forall>y \<in> set xs. \<not> fst y \<le> s" by fastforce
    with False show ?thesis by (simp add: filter_False)
  qed (use Cons in simp)
qed simp

lemma mset_filter_split: "mset (filter P ys) + mset (filter (\<lambda>y. \<not> P y) ys) = mset ys"
  by (induction ys) auto

lemma sorted_const: "sorted (map (\<lambda>x. a) xs)"
  by (induction xs) auto

lemma sort_key_snoc:
  "sort_key fst (xs @ [(s, v)]) =
     filter (\<lambda>x. fst x \<le> s) (sort_key fst xs) @ (s, v) # filter (\<lambda>x. \<not> fst x \<le> s) (sort_key fst xs)"
  (is "_ = ?ys")
proof (rule properties_for_sort_key)
  show "mset ?ys = mset (xs @ [(s, v)])"
    using mset_filter_split [of "\<lambda>x. fst x \<le> s" "sort_key fst xs"] by (simp del: mset_filter)
  show "sorted (map fst ?ys)"
    by (auto simp: sorted_append sorted_filter)
  show "filter (\<lambda>x. fst k = fst x) ?ys = filter (\<lambda>x. fst k = fst x) (xs @ [(s, v)])" for k
  proof -
    have stable: "filter (\<lambda>x. fst k = fst x) (sort_key fst xs) = filter (\<lambda>x. fst k = fst x) xs"
      using sort_key_stable [of fst "fst k" xs] by (simp add: eq_commute)
    show ?thesis
    proof (cases "fst k \<le> s")
      case True
      then have "filter (\<lambda>x. fst k = fst x \<and> fst x \<le> s) (sort_key fst xs) = filter (\<lambda>x. fst k = fst x) xs"
        "filter (\<lambda>x. fst k = fst x \<and> \<not> fst x \<le> s) (sort_key fst xs) = []"
        unfolding stable [symmetric] by (auto intro: filter_cong simp: filter_empty_conv)
      then show ?thesis by (simp add: conj_commute)
    next
      case False
      then have "filter (\<lambda>x. fst k = fst x \<and> \<not> fst x \<le> s) (sort_key fst xs) = filter (\<lambda>x. fst k = fst x) xs"
        "filter (\<lambda>x. fst k = fst x \<and> fst x \<le> s) (sort_key fst xs) = []"
        unfolding stable [symmetric] by (auto intro: filter_cong simp: filter_empty_conv)
      moreover have "fst k \<noteq> s" using False by auto
      ultimately show ?thesis by (simp add: conj_commute)
    qed
  qed
qed

text \<open>What a client relies on: \<open>items\<close> are kept in the order of their serials, a new item goes
  after those of its own serial, iterating up to a serial yields and clearing up to it removes
  the items of that serial or a smaller one.\<close>

locale serial_storage =
  fixes inv1 :: "'st \<Rightarrow> bool" and items1 :: "'st \<Rightarrow> (nat \<times> 'v) list" and empty1 :: 'st
    and enqueue :: "'v \<Rightarrow> nat \<Rightarrow> 'st \<Rightarrow> 'st res"
    and iterate_up_to :: "nat \<Rightarrow> 'st \<Rightarrow> 'v list res option" and clear_up_to :: "nat \<Rightarrow> 'st \<Rightarrow> 'st"
  assumes empty_inv: "inv1 empty1" and empty_items: "items1 empty1 = []"
    and sorted_items: "inv1 st \<Longrightarrow> sorted (map fst (items1 st))"
    and enqueue_law: "inv1 st \<Longrightarrow> enqueue v s st = ok st' \<Longrightarrow> inv1 st' \<and>
      items1 st' = filter (\<lambda>x. fst x \<le> s) (items1 st) @ (s, v) # filter (\<lambda>x. \<not> fst x \<le> s) (items1 st)"
    and iterate_law: "inv1 st \<Longrightarrow>
      iterate_up_to s st = Some (ok (map snd (filter (\<lambda>x. fst x \<le> s) (items1 st))))"
    and clear_law: "inv1 st \<Longrightarrow> inv1 (clear_up_to s st) \<and>
      items1 (clear_up_to s st) = filter (\<lambda>x. \<not> fst x \<le> s) (items1 st)"
begin

text \<open>Iterating and then clearing hands over each item once: what is yielded and what stays are
  the items split at the serial.\<close>

lemma drain_split:
  assumes "inv1 st"
  shows "\<exists>vs. iterate_up_to s st = Some (ok vs) \<and> map snd (items1 st) = vs @ map snd (items1 (clear_up_to s st))"
proof -
  have "items1 st = filter (\<lambda>x. fst x \<le> s) (items1 st) @ filter (\<lambda>x. \<not> fst x \<le> s) (items1 st)"
    using sorted_items [OF assms] by (rule split_sorted)
  then show ?thesis
    using iterate_law [OF assms] clear_law [OF assms] by (metis map_append)
qed

text \<open>Any enqueues from empty keep the items sorted by serial, first come first served.\<close>

lemma enqueues_sorted:
  assumes "foldR (\<lambda>(s, v). enqueue v s) xs empty1 = ok st"
  shows "inv1 st \<and> items1 st = sort_key fst xs"
  using assms
proof (induction xs arbitrary: st rule: rev_induct)
  case Nil
  then show ?case using empty_inv empty_items by auto
next
  case (snoc x xs)
  obtain s v where x: "x = (s, v)" by (cases x)
  from snoc.prems obtain st1 where st1: "foldR (\<lambda>(s, v). enqueue v s) xs empty1 = ok st1"
      "enqueue v s st1 = ok st" by (auto simp: foldR_append bindR_Inr_iff x)
  from snoc.IH [OF st1(1)] enqueue_law [OF _ st1(2)] show ?case by (simp add: x sort_key_snoc)
qed

end

lemma SerialQueue_Enqueue_newest:
  assumes "storage_ok st" "SerialQueue_Enqueue v s st = ok st'"
  shows "\<forall>p \<in> set st. fst p \<le> s" "filter (\<lambda>x. fst x \<le> s) (items st) = items st"
    "filter (\<lambda>x. \<not> fst x \<le> s) (items st) = []"
proof -
  show le: "\<forall>p \<in> set st. fst p \<le> s"
  proof (cases st rule: rev_cases)
    case (snoc ps p)
    with assms show ?thesis
      by (fastforce simp: SerialQueue_Enqueue_def storage_ok_def sorted_append split: if_splits)
  qed simp
  show "filter (\<lambda>x. fst x \<le> s) (items st) = items st" "filter (\<lambda>x. \<not> fst x \<le> s) (items st) = []"
    using le by (force simp: items_def intro: filter_True filter_False)+
qed

lemma SerialQueue_Enqueue_law:
  assumes "storage_ok st" "SerialQueue_Enqueue v s st = ok st'"
  shows "storage_ok st' \<and>
    items st' = filter (\<lambda>x. fst x \<le> s) (items st) @ (s, v) # filter (\<lambda>x. \<not> fst x \<le> s) (items st)"
proof -
  note le = SerialQueue_Enqueue_newest(1) [OF assms] and all = SerialQueue_Enqueue_newest(2,3) [OF assms]
  show ?thesis
  proof (cases "st = [] \<or> fst (last st) < s")
    case True
    then have "st' = st @ [(s, [v])]"
      using assms(2) by (auto simp: SerialQueue_Enqueue_def push_back_last_def split: if_splits)
    with assms(1) le all show ?thesis by (auto simp: storage_ok_def vectors_ok_def sorted_append)
  next
    case False
    then obtain ps vs where "st = ps @ [(s, vs)]"
      using le assms(2) by (cases st rule: rev_cases) (auto simp: SerialQueue_Enqueue_def split: if_splits)
    moreover from this False have "st' = ps @ [(s, vs @ [v])]"
      using assms(2) by (auto simp: SerialQueue_Enqueue_def push_back_last_def split: if_splits)
    ultimately show ?thesis
      using assms(1) all by (auto simp: storage_ok_def vectors_ok_def sorted_append)
  qed
qed

lemma storage_ok_Nil [simp]: "storage_ok []"
  by (simp add: storage_ok_def vectors_ok_def)

lemma storage_ok_Cons:
  "storage_ok ((s, vs) # st) \<longleftrightarrow> vs \<noteq> [] \<and> (\<forall>x \<in> fst ` set st. s \<le> x) \<and> storage_ok st"
  by (auto simp: storage_ok_def vectors_ok_def)

lemma items_fst: "fst ` set (items st) \<subseteq> fst ` set st"
  by (force simp: items_def)

lemma items_sorted: "storage_ok st \<Longrightarrow> sorted (map fst (items st))"
proof (induction st)
  case (Cons p st)
  obtain s vs where p: "p = (s, vs)" by (cases p)
  with Cons.prems items_fst [of st] have "\<forall>x \<in> set (items st). s \<le> fst x"
    by (fastforce simp: storage_ok_Cons)
  with Cons p show ?case by (auto simp: storage_ok_Cons sorted_append comp_def sorted_const)
qed simp

interpretation queue: serial_storage storage_ok items "[]" SerialQueue_Enqueue IterateUpTo ClearUpTo
  by unfold_locales (auto simp: items_sorted IterateUpTo_items ClearUpTo_items
      dest: SerialQueue_Enqueue_law)

text \<open>In a map no serial occurs twice.\<close>

definition map_ok :: "'v storage \<Rightarrow> bool" where
  "map_ok st \<longleftrightarrow> storage_ok st \<and> distinct (map fst st)"

lemma map_ok_Cons:
  "map_ok ((s, vs) # st) \<longleftrightarrow> vs \<noteq> [] \<and> (\<forall>x \<in> fst ` set st. s < x) \<and> map_ok st"
  unfolding map_ok_def storage_ok_Cons by (auto simp: order.strict_iff_order image_iff)

lemma items_filter_gt:
  "\<forall>x \<in> fst ` set st. s < x \<Longrightarrow> filter (\<lambda>x. fst x \<le> s) (items st) = [] \<and> filter (\<lambda>x. \<not> fst x \<le> s) (items st) = items st"
  using items_fst [of st] by (force simp: filter_empty_conv filter_id_conv not_le)

lemma SerialMap_Enqueue_law:
  assumes "map_ok st"
  shows "map_ok (SerialMap_Enqueue v s st) \<and>
    fst ` set (SerialMap_Enqueue v s st) = insert s (fst ` set st) \<and>
    items (SerialMap_Enqueue v s st) =
      filter (\<lambda>x. fst x \<le> s) (items st) @ (s, v) # filter (\<lambda>x. \<not> fst x \<le> s) (items st)"
  using assms
proof (induction v s st rule: SerialMap_Enqueue.induct)
  case (1 v s)
  then show ?case by (simp add: map_ok_Cons)
next
  case (2 v s s' vs st)
  have st: "map_ok st" "vs \<noteq> []" "\<forall>x \<in> fst ` set st. s' < x" using 2(2) by (auto simp: map_ok_Cons)
  consider "s < s'" | "s = s'" | "s' < s" by linarith
  then show ?case
  proof cases
    assume s: "s < s'"
    then have "\<forall>x \<in> fst ` set ((s', vs) # st). s < x" using st(3) by auto
    note items_filter_gt [OF this]
    with s 2(2) st(3) show ?thesis by (auto simp: map_ok_Cons)
  next
    assume s: "s = s'"
    with items_filter_gt [of st s] st show ?thesis by (auto simp: map_ok_Cons filter_map comp_def)
  next
    assume s: "s' < s"
    then have "\<not> s < s'" "s \<noteq> s'" by auto
    note IH = 2(1) [OF this st(1)]
    with s st show ?thesis by (auto simp: map_ok_Cons filter_map comp_def)
  qed
qed

interpretation smap: serial_storage map_ok items "[]" "\<lambda>v s st. ok (SerialMap_Enqueue v s st)" IterateUpTo ClearUpTo
proof unfold_locales
  show "map_ok []" by (simp add: map_ok_def)
  show "map_ok (ClearUpTo s st) \<and> items (ClearUpTo s st) = filter (\<lambda>x. \<not> fst x \<le> s) (items st)"
    if "map_ok st" for s and st :: "'v storage"
    using that ClearUpTo_items [of st s]
    by (auto simp: map_ok_def ClearUpTo_def drop_map [symmetric] distinct_drop)
qed (auto simp: map_ok_def items_sorted IterateUpTo_items SerialMap_Enqueue_law [unfolded map_ok_def])

section \<open>Properties\<close>

text \<open>
  Whatever the order in which values are put into a \<open>SerialMap\<close>, iterating up to a serial
  returns and yields exactly the values of that serial or a smaller one, sorted by serial and in
  the order of their insertion within a serial.
\<close>

theorem SerialMap_iterates_sorted:
  assumes "foldR (\<lambda>(s, v) st. ok (SerialMap_Enqueue v s st)) xs [] = ok st"
  shows "IterateUpTo serial st = Some (ok (map snd (filter (\<lambda>x. fst x \<le> serial) (sort_key fst xs))))"
  using smap.enqueues_sorted [of xs st] assms smap.iterate_law [of st serial] by simp

theorem SerialMap_iterates_sorted_witness:
  "IterateUpTo 5 [(2, ''b''), (5, ''ac''), (9, ''d'')] = Some (ok ''bac'')"
proof -
  have "foldR (\<lambda>(s, v) st. ok (SerialMap_Enqueue v s st))
      [(5, CHR ''a''), (2, CHR ''b''), (9, CHR ''d''), (5, CHR ''c'')] [] =
      ok [(2, ''b''), (5, ''ac''), (9, ''d'')]" by simp
  from SerialMap_iterates_sorted [OF this, of 5] show ?thesis by simp
qed

lemma SerialQueue_Enqueue_last:
  assumes "SerialQueue_Enqueue v s st = ok st'"
  shows "st' \<noteq> [] \<and> fst (last st') = s"
  using assms by (auto simp: SerialQueue_Enqueue_def push_back_last_def split: if_splits)

lemma sorted_snoc: "sorted (xs @ [x]) \<longleftrightarrow> sorted xs \<and> (xs = [] \<or> last xs \<le> x)"
  by (cases xs rule: rev_cases) (auto simp: sorted_append)

lemma SerialQueue_enqueues:
  "if sorted (map fst xs)
   then \<exists>st. foldR (\<lambda>(s, v). SerialQueue_Enqueue v s) xs [] = ok st \<and> (st = [] \<longleftrightarrow> xs = []) \<and>
     (xs \<noteq> [] \<longrightarrow> fst (last st) = fst (last xs))
   else foldR (\<lambda>(s, v). SerialQueue_Enqueue v s) xs [] = undef"
proof (induction xs rule: rev_induct)
  case (snoc x xs)
  obtain s v where x: "x = (s, v)" by (cases x)
  show ?case
  proof (cases "sorted (map fst xs)")
    case True
    with snoc obtain st where st: "foldR (\<lambda>(s, v). SerialQueue_Enqueue v s) xs [] = ok st"
        "st = [] \<longleftrightarrow> xs = []" "xs \<noteq> [] \<longrightarrow> fst (last st) = fst (last xs)" by auto
    have "sorted (map fst (xs @ [x])) \<longleftrightarrow> st = [] \<or> fst (last st) \<le> s"
      using True st by (auto simp: sorted_snoc last_map x)
    moreover have "foldR (\<lambda>(s, v). SerialQueue_Enqueue v s) (xs @ [x]) [] =
        (if st = [] \<or> fst (last st) \<le> s
         then ok (push_back_last v (if st = [] \<or> fst (last st) < s then st @ [(s, [])] else st)) else undef)"
      using st(1) by (simp add: foldR_append x) (simp add: SerialQueue_Enqueue_def)
    moreover have "\<exists>st'. push_back_last v (if st = [] \<or> fst (last st) < s then st @ [(s, [])] else st) = st' \<and>
        st' \<noteq> [] \<and> fst (last st') = s" if "st = [] \<or> fst (last st) \<le> s"
      using that by (auto simp: push_back_last_def)
    ultimately show ?thesis by (auto simp: x)
  next
    case False
    with snoc show ?thesis by (simp add: foldR_append sorted_snoc)
  qed
qed simp

text \<open>
  A \<open>SerialQueue\<close> accepts serials in non-decreasing order and only those; draining it up to a
  serial, by iterating and then clearing, yields the values in the order they were enqueued and
  leaves the rest for later.
\<close>

theorem SerialQueue_drains_fifo:
  "(\<exists>st. foldR (\<lambda>(s, v). SerialQueue_Enqueue v s) xs [] = ok st) = sorted (map fst xs) \<and>
   (\<forall>st. foldR (\<lambda>(s, v). SerialQueue_Enqueue v s) xs [] = ok st \<longrightarrow>
     (\<exists>vs. IterateUpTo serial st = Some (ok vs) \<and> map snd xs = vs @ map snd (items (ClearUpTo serial st))))"
proof -
  have "\<exists>vs. IterateUpTo serial st = Some (ok vs) \<and> map snd xs = vs @ map snd (items (ClearUpTo serial st))"
    if st: "foldR (\<lambda>(s, v). SerialQueue_Enqueue v s) xs [] = ok st" for st
  proof -
    have "sorted (map fst xs)" using SerialQueue_enqueues [of xs] st by (auto split: if_splits)
    then have "sort_key fst xs = xs" by (intro properties_for_sort_key) simp_all
    with queue.enqueues_sorted [OF st] have "storage_ok st" "items st = xs" by simp_all
    with queue.drain_split [of st serial] show ?thesis by simp
  qed
  with SerialQueue_enqueues [of xs] show ?thesis by (auto split: if_splits)
qed

theorem SerialQueue_drains_fifo_witness:
  "\<exists>vs. IterateUpTo 1 [(1, ''ab''), (4, ''c'')] = Some (ok vs) \<and>
     ''abc'' = vs @ map snd (items (ClearUpTo 1 [(1, ''ab''), (4, ''c'')]))"
proof -
  have "foldR (\<lambda>(s, v). SerialQueue_Enqueue v s) [(1, CHR ''a''), (1, CHR ''b''), (4, CHR ''c'')] [] =
      ok [(1, ''ab''), (4, ''c'')]"
    by (simp add: SerialQueue_Enqueue_def push_back_last_def)
  with SerialQueue_drains_fifo [of "[(1, CHR ''a''), (1, CHR ''b''), (4, CHR ''c'')]" 1]
  show ?thesis by simp
qed

end
