(* ===== verification/Allocator_Contract.thy ===== *)
theory Allocator_Contract
  imports Prelude
begin

text \<open>
  What every sub-allocator of Dawn promises its clients: the live blocks lie inside the memory
  it manages and do not overlap. The locale states the contract over an arbitrary state and
  proves once what clients draw from it; the ring buffer and the buddy system interpret it.
\<close>

section \<open>Blocks\<close>

text \<open>A block is its offset and its size.\<close>

type_synonym block = "nat \<times> nat"

definition apart :: "block \<Rightarrow> block \<Rightarrow> bool" where
  "apart b c \<longleftrightarrow> fst b + snd b \<le> fst c \<or> fst c + snd c \<le> fst b"

fun pairwise_apart :: "block list \<Rightarrow> bool" where
  "pairwise_apart [] = True"
| "pairwise_apart (b # bs) = (list_all (apart b) bs \<and> pairwise_apart bs)"

definition cells :: "block \<Rightarrow> nat set" where
  "cells b = {fst b ..< fst b + snd b}"

lemma apart_sym: "apart b c \<longleftrightarrow> apart c b"
  by (auto simp: apart_def)

lemma apart_cells: "apart b c \<Longrightarrow> cells b \<inter> cells c = {}"
  by (auto simp: apart_def cells_def)

lemma pairwise_apart_append:
  "pairwise_apart (bs @ cs) \<longleftrightarrow>
     pairwise_apart bs \<and> pairwise_apart cs \<and> (\<forall>b \<in> set bs. \<forall>c \<in> set cs. apart b c)"
  by (induction bs) (auto simp: list_all_iff)

lemma pairwise_apart_filter: "pairwise_apart bs \<Longrightarrow> pairwise_apart (filter P bs)"
  by (induction bs) (auto simp: list_all_iff)

lemma pairwise_apart_nth:
  "pairwise_apart bs \<Longrightarrow> i < length bs \<Longrightarrow> j < length bs \<Longrightarrow> i \<noteq> j \<Longrightarrow> apart (bs ! i) (bs ! j)"
proof (induction bs arbitrary: i j)
  case (Cons b bs)
  then show ?case by (cases i; cases j) (auto simp: list_all_iff apart_sym)
qed simp

section \<open>The contract\<close>

text \<open>Writing \<open>data\<close> at an offset of a memory of cells, and reading a block back.\<close>

definition write_at :: "nat \<Rightarrow> 'a list \<Rightarrow> (nat \<Rightarrow> 'a) \<Rightarrow> nat \<Rightarrow> 'a" where
  "write_at k xs mem = (\<lambda>i. if k \<le> i \<and> i < k + length xs then xs ! (i - k) else mem i)"

definition read_at :: "block \<Rightarrow> (nat \<Rightarrow> 'a) \<Rightarrow> 'a list" where
  "read_at b mem = map mem [fst b ..< fst b + snd b]"

locale range_allocator =
  fixes sound :: "'s \<Rightarrow> bool" and live :: "'s \<Rightarrow> block list" and capacity :: "'s \<Rightarrow> nat"
  assumes in_range: "sound s \<Longrightarrow> b \<in> set (live s) \<Longrightarrow> fst b + snd b \<le> capacity s"
    and no_overlap: "sound s \<Longrightarrow> pairwise_apart (live s)"
begin

text \<open>The allocator never hands out more than it has.\<close>

lemma no_overcommit:
  assumes "sound s"
  shows "sum_list (map snd (live s)) \<le> capacity s"
proof -
  have "card (\<Union> (cells ` set bs)) = sum_list (map snd bs)" if "pairwise_apart bs" for bs
    using that
  proof (induction bs)
    case (Cons b bs)
    then have "cells b \<inter> \<Union> (cells ` set bs) = {}" using apart_cells by (fastforce simp: list_all_iff)
    then have "card (cells b \<union> \<Union> (cells ` set bs)) = card (cells b) + card (\<Union> (cells ` set bs))"
      by (intro card_Un_disjoint) (auto simp: cells_def)
    with Cons show ?case by (simp add: cells_def)
  qed simp
  moreover have "\<Union> (cells ` set (live s)) \<subseteq> {..<capacity s}"
    using in_range [OF assms] by (fastforce simp: cells_def)
  then have "card (\<Union> (cells ` set (live s))) \<le> capacity s"
    using card_mono [of "{..<capacity s}"] by fastforce
  ultimately show ?thesis using no_overlap [OF assms] by simp
qed

text \<open>Data written into one live block is read back from it and changes no other.\<close>

lemma write_frame:
  assumes "sound s" "i < length (live s)" "j < length (live s)" "length xs = snd (live s ! i)"
  shows "read_at (live s ! j) (write_at (fst (live s ! i)) xs mem) =
    (if i = j then xs else read_at (live s ! j) mem)"
proof (cases "i = j")
  case True
  then show ?thesis using assms(4) by (auto simp: read_at_def write_at_def intro: nth_equalityI)
next
  case False
  then have "apart (live s ! i) (live s ! j)" using pairwise_apart_nth no_overlap assms by blast
  with False assms(4) show ?thesis by (auto simp: read_at_def write_at_def apart_def)
qed

end

end
