(* ===== verification/Ring_Buffer.thy ===== *)
theory Ring_Buffer
  imports Serial_Storage Allocator_Contract
begin

text \<open>
  The ring buffer allocator of \<open>dawn_native/RingBufferAllocator.cpp\<close>. Byte offsets and sizes are
  natural numbers below \<open>2^64\<close>, with the wrap-around of \<open>uint64_t\<close> written out; the
  requests in flight are kept in the serial queue. Because the offsets wrap, the invariant lays
  the requests out on an unwrapped line that starts at the start offset.
\<close>

section \<open>Definitions\<close>

definition u64 :: "nat \<Rightarrow> nat" where
  "u64 x = x mod 2 ^ 64"

definition sub64 :: "nat \<Rightarrow> nat \<Rightarrow> nat" where
  "sub64 a b = u64 (a + (2 ^ 64 - b))"

definition kInvalidOffset :: nat where
  "kInvalidOffset = 2 ^ 64 - 1"

record request =
  endOffset :: nat
  request_size :: nat

record ring =
  mInflightRequests :: "request storage"
  mUsedEndOffset :: nat
  mUsedStartOffset :: nat
  mMaxBlockSize :: nat
  mUsedSize :: nat
  mCurrentRequestSize :: nat

definition RingBufferAllocator :: "nat \<Rightarrow> ring" where
  "RingBufferAllocator maxSize =
     \<lparr> mInflightRequests = [], mUsedEndOffset = 0, mUsedStartOffset = 0,
       mMaxBlockSize = maxSize, mUsedSize = 0, mCurrentRequestSize = 0 \<rparr>"

text \<open>The body of the loop over the requests that completed.\<close>

definition reclaim :: "ring \<Rightarrow> request \<Rightarrow> ring" where
  "reclaim r request = r\<lparr> mUsedStartOffset := endOffset request,
     mUsedSize := sub64 (mUsedSize r) (request_size request) \<rparr>"

definition Ring_Deallocate :: "nat \<Rightarrow> ring \<Rightarrow> ring res option" where
  "Ring_Deallocate lastCompletedSerial r =
     map_option (\<lambda>res. bindR res (\<lambda>requests.
         let r' = foldl reclaim r requests
         in ok (r'\<lparr> mInflightRequests := ClearUpTo lastCompletedSerial (mInflightRequests r') \<rparr>)))
       (IterateUpTo lastCompletedSerial (mInflightRequests r))"

definition Ring_GetSize :: "ring \<Rightarrow> nat" where
  "Ring_GetSize r = mMaxBlockSize r"

definition Ring_GetUsedSize :: "ring \<Rightarrow> nat" where
  "Ring_GetUsedSize r = mUsedSize r"

definition Ring_Empty :: "ring \<Rightarrow> bool" where
  "Ring_Empty r \<longleftrightarrow> mInflightRequests r = []"

text \<open>The choice of the offset, which updates the end and the sizes.\<close>

definition take_at_end :: "nat \<Rightarrow> ring \<Rightarrow> nat \<times> ring" where
  "take_at_end n r = (mUsedEndOffset r,
     r\<lparr> mUsedEndOffset := u64 (mUsedEndOffset r + n), mUsedSize := u64 (mUsedSize r + n),
        mCurrentRequestSize := u64 (mCurrentRequestSize r + n) \<rparr>)"

definition take_at_front :: "nat \<Rightarrow> ring \<Rightarrow> nat \<times> ring" where
  "take_at_front n r =
     (let requestSize = u64 (sub64 (mMaxBlockSize r) (mUsedEndOffset r) + n)
      in (0, r\<lparr> mUsedEndOffset := n, mUsedSize := u64 (mUsedSize r + requestSize),
                mCurrentRequestSize := u64 (mCurrentRequestSize r + requestSize) \<rparr>))"

definition sub_alloc :: "nat \<Rightarrow> ring \<Rightarrow> nat \<times> ring" where
  "sub_alloc n r =
     (if mUsedStartOffset r \<le> mUsedEndOffset r then
        if u64 (mUsedEndOffset r + n) \<le> mMaxBlockSize r then take_at_end n r
        else if n \<le> mUsedStartOffset r then take_at_front n r
        else (kInvalidOffset, r)
      else if u64 (mUsedEndOffset r + n) \<le> mUsedStartOffset r then take_at_end n r
      else (kInvalidOffset, r))"

definition Ring_Allocate :: "nat \<Rightarrow> nat \<Rightarrow> ring \<Rightarrow> (nat \<times> ring) res" where
  "Ring_Allocate allocationSize serial r =
     (if mUsedSize r \<ge> mMaxBlockSize r then ok (kInvalidOffset, r)
      else if allocationSize > sub64 (mMaxBlockSize r) (mUsedSize r) then ok (kInvalidOffset, r)
      else
        let (startOffset, r') = sub_alloc allocationSize r
        in if startOffset \<noteq> kInvalidOffset then
             bindR (SerialQueue_Enqueue
                 \<lparr> endOffset = mUsedEndOffset r', request_size = mCurrentRequestSize r' \<rparr>
                 serial (mInflightRequests r'))
               (\<lambda>q. ok (startOffset, r'\<lparr> mInflightRequests := q, mCurrentRequestSize := 0 \<rparr>))
           else ok (startOffset, r'))"

section \<open>The layout on the unwrapped line\<close>

text \<open>The live allocations as the clients see them: serial, offset and size.\<close>

type_synonym lease = "nat \<times> block"

definition wrap_at :: "nat \<Rightarrow> nat \<Rightarrow> nat" where
  "wrap_at max1 v = (if v \<le> max1 then v else v - max1)"

text \<open>\<open>laid_out max1 v qs ls w\<close>: on the unwrapped line the requests \<open>qs\<close> follow each other
  from \<open>v\<close> to \<open>w\<close>, and each lease is the last part of its request.\<close>

fun laid_out :: "nat \<Rightarrow> nat \<Rightarrow> (nat \<times> request) list \<Rightarrow> lease list \<Rightarrow> nat \<Rightarrow> bool" where
  "laid_out max1 v [] [] w = (v = w)"
| "laid_out max1 v ((s, q) # qs) ((s', b) # ls) w =
     (s = s' \<and> snd b \<le> request_size q \<and> endOffset q = wrap_at max1 (v + request_size q) \<and>
      fst b + snd b = endOffset q \<and> laid_out max1 (v + request_size q) qs ls w)"
| "laid_out max1 v _ _ w = False"

definition ring_inv :: "ring \<Rightarrow> lease list \<Rightarrow> bool" where
  "ring_inv r ls \<longleftrightarrow> storage_ok (mInflightRequests r) \<and> mCurrentRequestSize r = 0 \<and>
     mMaxBlockSize r < 2 ^ 63 \<and> mUsedStartOffset r \<le> mMaxBlockSize r \<and>
     mUsedSize r \<le> mMaxBlockSize r \<and>
     mUsedEndOffset r = wrap_at (mMaxBlockSize r) (mUsedStartOffset r + mUsedSize r) \<and>
     laid_out (mMaxBlockSize r) (mUsedStartOffset r) (items (mInflightRequests r)) ls
       (mUsedStartOffset r + mUsedSize r)"

lemma laid_out_le: "laid_out m v qs ls w \<Longrightarrow> v \<le> w"
  by (induction m v qs ls w rule: laid_out.induct) auto

lemma laid_out_length: "laid_out m v qs ls w \<Longrightarrow> map fst ls = map fst qs"
  by (induction m v qs ls w rule: laid_out.induct) auto

text \<open>Where a lease lies: before the wrap, or after it and then before the end.\<close>

lemma laid_out_place:
  assumes "laid_out m v qs ls w" "l \<in> set ls"
  shows "(v \<le> fst (snd l) \<and> fst (snd l) + snd (snd l) \<le> m) \<or>
    (v \<le> fst (snd l) + m \<and> fst (snd l) + snd (snd l) + m \<le> w)"
  using assms
proof (induction m v qs ls w rule: laid_out.induct)
  case (2 m v s q qs s' b ls w)
  from 2(2) have q: "snd b \<le> request_size q" "fst b + snd b = wrap_at m (v + request_size q)"
    and rest: "laid_out m (v + request_size q) qs ls w" by auto
  show ?case
  proof (cases "l \<in> set ls")
    case True
    with 2(1) rest show ?thesis by fastforce
  next
    case False
    with 2(3) have "l = (s', b)" by simp
    with q laid_out_le [OF rest] show ?thesis by (auto simp: wrap_at_def split: if_splits)
  qed
qed auto

lemma laid_out_apart:
  assumes "laid_out m v qs ls w" "v0 \<le> v" "w \<le> v0 + m"
  shows "pairwise_apart (map snd ls)"
  using assms
proof (induction m v qs ls w rule: laid_out.induct)
  case (2 m v s q qs s' b ls w)
  from 2(2) have q: "snd b \<le> request_size q" "fst b + snd b = wrap_at m (v + request_size q)"
    and rest: "laid_out m (v + request_size q) qs ls w" by auto
  have "apart b (snd l)" if "l \<in> set ls" for l
    using laid_out_place [OF rest that] q 2(3,4) by (auto simp: apart_def wrap_at_def split: if_splits)
  with 2 rest show ?case by (auto simp: list_all_iff)
qed auto

lemma laid_out_snoc:
  "laid_out m v qs ls w \<Longrightarrow> n \<le> request_size q \<Longrightarrow> endOffset q = wrap_at m (w + request_size q) \<Longrightarrow>
   k + n = endOffset q \<Longrightarrow> laid_out m v (qs @ [(s, q)]) (ls @ [(s, k, n)]) (w + request_size q)"
  by (induction m v qs ls w rule: laid_out.induct) auto

section \<open>Deallocation keeps the layout\<close>

lemma sub64_eq: "b \<le> a \<Longrightarrow> a < 2 ^ 64 \<Longrightarrow> sub64 a b = a - b"
proof -
  assume "b \<le> a" "a < 2 ^ 64"
  then have "a + (2 ^ 64 - b) = (a - b) + 2 ^ 64" "a - b < 2 ^ 64" by linarith+
  then show ?thesis by (simp only: sub64_def u64_def mod_add_self2 mod_less)
qed

lemma laid_out_append:
  "laid_out m v (qs1 @ qs2) ls w \<Longrightarrow>
     \<exists>ls1 ls2 u. ls = ls1 @ ls2 \<and> laid_out m v qs1 ls1 u \<and> laid_out m u qs2 ls2 w"
proof (induction qs1 arbitrary: v ls)
  case Nil
  then show ?case by (intro exI [of _ "[]"] exI [of _ ls] exI [of _ v]) simp
next
  case (Cons q qs1)
  obtain s x where q: "q = (s, x)" by (cases q)
  with Cons.prems obtain b ls' where ls: "ls = (s, b) # ls'"
    by (cases "(m, v, q # qs1 @ qs2, ls, w)" rule: laid_out.cases) auto
  with Cons.prems q have l: "laid_out m (v + request_size x) (qs1 @ qs2) ls' w" by simp
  from Cons.IH [OF l] obtain ls1 ls2 u where
    "ls' = ls1 @ ls2" "laid_out m (v + request_size x) qs1 ls1 u" "laid_out m u qs2 ls2 w" by blast
  with Cons.prems q ls show ?case
    by (intro exI [of _ "(s, b) # ls1"] exI [of _ ls2] exI [of _ u]) auto
qed

lemma laid_out_shift:
  "laid_out m u qs ls w \<Longrightarrow> m < u \<Longrightarrow> w \<le> m + m \<Longrightarrow> laid_out m (u - m) qs ls (w - m)"
proof (induction m u qs ls w rule: laid_out.induct)
  case (2 m v s q qs s' b ls w)
  then have "v + request_size q \<le> w" using laid_out_le by fastforce
  with 2 show ?case by (auto simp: wrap_at_def)
qed auto

lemma reclaim_all:
  "laid_out m v qs ls u \<Longrightarrow> mUsedStartOffset r = wrap_at m v \<Longrightarrow> u - v \<le> mUsedSize r \<Longrightarrow>
   mUsedSize r < 2 ^ 64 \<Longrightarrow> foldl reclaim r (map snd qs) =
     r\<lparr> mUsedStartOffset := wrap_at m u, mUsedSize := mUsedSize r - (u - v) \<rparr>"
proof (induction m v qs ls u arbitrary: r rule: laid_out.induct)
  case (2 m v s q qs s' b ls w)
  from 2(2) have le: "v + request_size q \<le> w" using laid_out_le by fastforce
  then have sub: "sub64 (mUsedSize r) (request_size q) = mUsedSize r - request_size q"
    using 2(4,5) by (intro sub64_eq) auto
  have "foldl reclaim (reclaim r q) (map snd qs) = (reclaim r q)\<lparr> mUsedStartOffset := wrap_at m w,
      mUsedSize := mUsedSize (reclaim r q) - (w - (v + request_size q)) \<rparr>"
    using 2(2-5) le sub by (intro 2(1)) (auto simp: reclaim_def)
  moreover have "reclaim r q = r\<lparr> mUsedStartOffset := endOffset q, mUsedSize := mUsedSize r - request_size q \<rparr>"
    by (simp add: reclaim_def sub)
  ultimately show ?case using le by simp
qed auto

lemma laid_out_filter:
  assumes "laid_out m v (filter (\<lambda>x. fst x \<le> s) qs) ls1 u" "laid_out m u (filter (\<lambda>x. \<not> fst x \<le> s) qs) ls2 w"
  shows "filter (\<lambda>l. \<not> fst l \<le> s) (ls1 @ ls2) = ls2"
proof -
  have "map fst ls1 = map fst (filter (\<lambda>x. fst x \<le> s) qs)" "map fst ls2 = map fst (filter (\<lambda>x. \<not> fst x \<le> s) qs)"
    using assms laid_out_length by blast+
  then have "\<forall>x \<in> set (map fst ls1). x \<le> s" "\<forall>x \<in> set (map fst ls2). \<not> x \<le> s" by (simp_all only:) auto
  then have "\<forall>l \<in> set ls1. fst l \<le> s" "\<forall>l \<in> set ls2. \<not> fst l \<le> s" by simp_all
  then show ?thesis by (simp add: filter_True filter_False)
qed

lemma Ring_Deallocate_inv:
  assumes "ring_inv r ls"
  shows "\<exists>r'. Ring_Deallocate s r = Some (ok r') \<and> ring_inv r' (filter (\<lambda>l. \<not> fst l \<le> s) ls) \<and>
    mMaxBlockSize r' = mMaxBlockSize r"
proof -
  let ?q = "mInflightRequests r" and ?m = "mMaxBlockSize r" and ?v = "mUsedStartOffset r"
  let ?w = "?v + mUsedSize r"
  let ?old = "filter (\<lambda>x. fst x \<le> s) (items ?q)" and ?new = "filter (\<lambda>x. \<not> fst x \<le> s) (items ?q)"
  have inv: "storage_ok ?q" "?v \<le> ?m" "mUsedSize r \<le> ?m" "?m < 2 ^ 63"
    "mUsedEndOffset r = wrap_at ?m ?w" "mCurrentRequestSize r = 0"
    "laid_out ?m ?v (items ?q) ls ?w" using assms by (auto simp: ring_inv_def)
  have "items ?q = ?old @ ?new" using inv(1) by (intro split_sorted items_sorted)
  with inv(7) have "laid_out ?m ?v (?old @ ?new) ls ?w" by simp
  from laid_out_append [OF this] obtain ls1 ls2 u where ls: "ls = ls1 @ ls2"
    and l: "laid_out ?m ?v ?old ls1 u" "laid_out ?m u ?new ls2 ?w" by blast
  note le = laid_out_le [OF l(1)] laid_out_le [OF l(2)]
  let ?r = "r\<lparr> mUsedStartOffset := wrap_at ?m u, mUsedSize := mUsedSize r - (u - ?v),
      mInflightRequests := ClearUpTo s ?q \<rparr>"
  have "foldl reclaim r (map snd ?old) =
      r\<lparr> mUsedStartOffset := wrap_at ?m u, mUsedSize := mUsedSize r - (u - ?v) \<rparr>"
    using inv le by (intro reclaim_all [OF l(1)]) (auto simp: wrap_at_def)
  then have "Ring_Deallocate s r = Some (ok ?r)"
    using inv(1) by (simp add: Ring_Deallocate_def queue.iterate_law)
  moreover have "ring_inv ?r ls2"
  proof (cases "u \<le> ?m")
    case True
    with inv le l(2) show ?thesis
      by (auto simp: ring_inv_def ClearUpTo_items wrap_at_def add.commute)
  next
    case False
    then have "laid_out ?m (u - ?m) ?new ls2 (?w - ?m)" using inv by (intro laid_out_shift [OF l(2)]) auto
    moreover have "u - ?m + (mUsedSize r - (u - ?v)) = ?w - ?m" using False le inv by auto
    ultimately show ?thesis using False inv le
      by (auto simp: ring_inv_def ClearUpTo_items wrap_at_def)
  qed
  ultimately show ?thesis using laid_out_filter [OF l] ls by auto
qed

section \<open>Allocation keeps the layout\<close>

lemma ring_inv_alloc:
  assumes "ring_inv r ls" "storage_ok q" "items q = items (mInflightRequests r) @ [(s, x)]"
    "n \<le> request_size x" "mUsedSize r + request_size x \<le> mMaxBlockSize r"
    "endOffset x = wrap_at (mMaxBlockSize r) (mUsedStartOffset r + (mUsedSize r + request_size x))"
    "k + n = endOffset x"
  shows "ring_inv (r\<lparr> mUsedEndOffset := endOffset x, mUsedSize := mUsedSize r + request_size x,
      mInflightRequests := q \<rparr>) (ls @ [(s, k, n)])"
proof -
  have "laid_out (mMaxBlockSize r) (mUsedStartOffset r) (items (mInflightRequests r) @ [(s, x)])
      (ls @ [(s, k, n)]) (mUsedStartOffset r + mUsedSize r + request_size x)"
    using assms by (intro laid_out_snoc) (auto simp: ring_inv_def add.assoc)
  with assms show ?thesis by (auto simp: ring_inv_def add.assoc)
qed

text \<open>What a successful choice does: the request starts where the used part ends and may first
  skip the rest of the buffer.\<close>

lemma sub_alloc_cases:
  assumes "ring_inv r ls" "mUsedSize r < mMaxBlockSize r" "n \<le> mMaxBlockSize r - mUsedSize r"
    "sub_alloc n r = (k, r')"
  shows "(k = kInvalidOffset \<and> r' = r) \<or>
    (\<exists>z. n \<le> z \<and> mUsedSize r + z \<le> mMaxBlockSize r \<and> k + n \<le> mMaxBlockSize r \<and>
       k + n = wrap_at (mMaxBlockSize r) (mUsedStartOffset r + (mUsedSize r + z)) \<and>
       r' = r\<lparr> mUsedEndOffset := k + n, mUsedSize := mUsedSize r + z, mCurrentRequestSize := z \<rparr>)"
proof -
  let ?m = "mMaxBlockSize r" and ?v = "mUsedStartOffset r" and ?e = "mUsedEndOffset r"
  have inv: "?v \<le> ?m" "?m < 2 ^ 63" "mCurrentRequestSize r = 0"
    "?e = wrap_at ?m (?v + mUsedSize r)" using assms(1) by (auto simp: ring_inv_def)
  then have e: "?e \<le> ?m" using assms(2) by (auto simp: wrap_at_def)
  have u64: "u64 (?e + n) = ?e + n" "u64 (mUsedSize r + n) = mUsedSize r + n" "u64 n = n"
    using inv(2) e assms(2,3) by (auto simp: u64_def)
  have at_end: "k = ?e \<and> r' = r\<lparr> mUsedEndOffset := ?e + n, mUsedSize := mUsedSize r + n, mCurrentRequestSize := n \<rparr>"
    if "sub_alloc n r = take_at_end n r"
    using assms(4) that by (simp add: take_at_end_def u64 inv(3)) auto
  consider (last) "?v \<le> ?e" "?e + n \<le> ?m" | (front) "?v \<le> ?e" "\<not> ?e + n \<le> ?m" "n \<le> ?v"
    | (full) "?v \<le> ?e" "\<not> ?e + n \<le> ?m" "\<not> n \<le> ?v"
    | (mid) "\<not> ?v \<le> ?e" "?e + n \<le> ?v" | (tight) "\<not> ?v \<le> ?e" "\<not> ?e + n \<le> ?v" by blast
  then show ?thesis
  proof cases
    case last
    then have "sub_alloc n r = take_at_end n r" by (simp add: sub_alloc_def u64)
    note at_end [OF this]
    with last assms(2,3) inv show ?thesis
      by (intro disjI2 exI [of _ n]) (auto simp: wrap_at_def split: if_splits)
  next
    case front
    then have eq: "sub_alloc n r = take_at_front n r" by (simp add: sub_alloc_def u64)
    let ?z = "(?m - ?e) + n"
    have "sub64 ?m ?e = ?m - ?e" using e inv by (intro sub64_eq) auto
    moreover have ev: "?e = ?v + mUsedSize r" using front(1) inv assms(2) by (auto simp: wrap_at_def split: if_splits)
    then have z: "mUsedSize r + ?z \<le> ?m" using front e by auto
    then have "u64 ?z = ?z" "u64 (mUsedSize r + ?z) = mUsedSize r + ?z" using inv(2) by (auto simp: u64_def)
    ultimately have "k = 0" "r' = r\<lparr> mUsedEndOffset := n, mUsedSize := mUsedSize r + ?z, mCurrentRequestSize := ?z \<rparr>"
      using assms(4) eq inv(3) by (auto simp: take_at_front_def Let_def)
    with z ev front e show ?thesis by (intro disjI2 exI [of _ ?z]) (auto simp: wrap_at_def)
  next
    case mid
    then have "sub_alloc n r = take_at_end n r" by (simp add: sub_alloc_def u64)
    note at_end [OF this]
    with mid assms(2,3) inv show ?thesis
      by (intro disjI2 exI [of _ n]) (auto simp: wrap_at_def split: if_splits)
  qed (insert assms(4), auto simp: sub_alloc_def u64)
qed

lemma enqueue_items:
  assumes "storage_ok q" "SerialQueue_Enqueue x s q = ok q'"
  shows "storage_ok q'" "items q' = items q @ [(s, x)]"
proof -
  show "storage_ok q'" using queue.enqueue_law [OF assms] by simp
  show "items q' = items q @ [(s, x)]"
    using queue.enqueue_law [OF assms] SerialQueue_Enqueue_newest [OF assms] by simp
qed

lemma Ring_Allocate_inv:
  assumes "ring_inv r ls" "Ring_Allocate n s r = ok (k, r')"
  shows "mMaxBlockSize r' = mMaxBlockSize r \<and>
    (if k = kInvalidOffset then r' = r
     else k + n \<le> mMaxBlockSize r \<and> ring_inv r' (ls @ [(s, k, n)]))"
proof (cases "mUsedSize r < mMaxBlockSize r \<and> n \<le> mMaxBlockSize r - mUsedSize r")
  case False
  have "sub64 (mMaxBlockSize r) (mUsedSize r) = mMaxBlockSize r - mUsedSize r"
    using assms(1) by (intro sub64_eq) (auto simp: ring_inv_def)
  with False assms(2) show ?thesis by (auto simp: Ring_Allocate_def split: if_splits)
next
  case True
  have sub: "sub64 (mMaxBlockSize r) (mUsedSize r) = mMaxBlockSize r - mUsedSize r"
    using assms(1) by (intro sub64_eq) (auto simp: ring_inv_def)
  obtain k1 r1 where r1: "sub_alloc n r = (k1, r1)" by (cases "sub_alloc n r")
  have eq: "Ring_Allocate n s r = (if k1 \<noteq> kInvalidOffset then
      bindR (SerialQueue_Enqueue \<lparr> endOffset = mUsedEndOffset r1, request_size = mCurrentRequestSize r1 \<rparr>
          s (mInflightRequests r1))
        (\<lambda>q. ok (k1, r1\<lparr> mInflightRequests := q, mCurrentRequestSize := 0 \<rparr>)) else ok (k1, r1))"
    using True by (simp add: Ring_Allocate_def r1 sub)
  show ?thesis
  proof (cases "k1 = kInvalidOffset")
    case k1: True
    with eq assms(2) have "k = k1" "r' = r1" by auto
    moreover have "r1 = r"
    proof -
      have "k1 + n \<noteq> x" if "x \<le> mMaxBlockSize r" for x
        using k1 that assms(1) by (auto simp: kInvalidOffset_def ring_inv_def)
      then show ?thesis using sub_alloc_cases [OF assms(1) _ _ r1] True by blast
    qed
    ultimately show ?thesis using k1 by simp
  next
    case False
    with sub_alloc_cases [OF assms(1) _ _ r1] True obtain z where
      z: "n \<le> z" "mUsedSize r + z \<le> mMaxBlockSize r" "k1 + n \<le> mMaxBlockSize r"
        "k1 + n = wrap_at (mMaxBlockSize r) (mUsedStartOffset r + (mUsedSize r + z))"
        "r1 = r\<lparr> mUsedEndOffset := k1 + n, mUsedSize := mUsedSize r + z, mCurrentRequestSize := z \<rparr>" by blast
    let ?x = "\<lparr> endOffset = k1 + n, request_size = z \<rparr>"
    have "bindR (SerialQueue_Enqueue ?x s (mInflightRequests r))
        (\<lambda>q. ok (k1, r1\<lparr> mInflightRequests := q, mCurrentRequestSize := 0 \<rparr>)) = ok (k, r')"
      using eq False assms(2) by (simp add: z(5))
    then obtain q where q: "SerialQueue_Enqueue ?x s (mInflightRequests r) = ok q"
      and kr: "k = k1" "r' = r1\<lparr> mInflightRequests := q, mCurrentRequestSize := 0 \<rparr>"
      unfolding bindR_Inr_iff by auto
    have "storage_ok (mInflightRequests r)" using assms(1) by (simp add: ring_inv_def)
    note enq = enqueue_items [OF this q]
    have "ring_inv (r\<lparr> mUsedEndOffset := endOffset ?x, mUsedSize := mUsedSize r + request_size ?x,
        mInflightRequests := q \<rparr>) (ls @ [(s, k1, n)])"
      using z by (intro ring_inv_alloc [OF assms(1) enq]) auto
    moreover have "r' = r\<lparr> mUsedEndOffset := endOffset ?x, mUsedSize := mUsedSize r + request_size ?x,
        mInflightRequests := q \<rparr>" using kr(2) z(5) assms(1) by (simp add: ring_inv_def)
    ultimately show ?thesis using False kr(1) z(3) by simp
  qed
qed

section \<open>Runs\<close>

text \<open>The states a ring buffer of a given size reaches, with the leases its clients hold: a lease
  ends when its serial has completed.\<close>

inductive ring_run :: "nat \<Rightarrow> ring \<Rightarrow> lease list \<Rightarrow> bool" where
  ring_start: "ring_run maxSize (RingBufferAllocator maxSize) []"
| ring_alloc: "ring_run maxSize r ls \<Longrightarrow> Ring_Allocate n s r = ok (k, r') \<Longrightarrow>
    ring_run maxSize r' (if k = kInvalidOffset then ls else ls @ [(s, k, n)])"
| ring_dealloc: "ring_run maxSize r ls \<Longrightarrow> Ring_Deallocate s r = Some (ok r') \<Longrightarrow>
    ring_run maxSize r' (filter (\<lambda>l. \<not> fst l \<le> s) ls)"

lemma ring_run_inv:
  assumes "ring_run maxSize r ls" "maxSize < 2 ^ 63"
  shows "ring_inv r ls \<and> mMaxBlockSize r = maxSize"
  using assms
proof (induction rule: ring_run.induct)
  case (ring_start maxSize)
  then show ?case by (simp add: ring_inv_def RingBufferAllocator_def wrap_at_def)
next
  case (ring_alloc maxSize r ls n s k r')
  then show ?case using Ring_Allocate_inv [of r ls n s k r'] by (auto split: if_splits)
next
  case (ring_dealloc maxSize r ls s r')
  then show ?case using Ring_Deallocate_inv [of r ls s] by auto
qed

lemma ring_inv_blocks:
  assumes "ring_inv r ls"
  shows "\<forall>l \<in> set ls. fst (snd l) + snd (snd l) \<le> mMaxBlockSize r" "pairwise_apart (map snd ls)"
proof -
  let ?m = "mMaxBlockSize r" and ?v = "mUsedStartOffset r"
  have l: "laid_out ?m ?v (items (mInflightRequests r)) ls (?v + mUsedSize r)"
    and le: "mUsedSize r \<le> ?m" "?v \<le> ?m" using assms by (auto simp: ring_inv_def)
  show "\<forall>l \<in> set ls. fst (snd l) + snd (snd l) \<le> ?m"
    using laid_out_place [OF l] le by fastforce
  show "pairwise_apart (map snd ls)" using le by (intro laid_out_apart [OF l, of ?v]) auto
qed

interpretation ring_alloc: range_allocator
  "\<lambda>(r, ls). ring_inv r ls" "\<lambda>(r, ls). map snd ls" "\<lambda>(r, ls). mMaxBlockSize r"
  by unfold_locales (fastforce dest: ring_inv_blocks)+

text \<open>
  In every state a ring buffer of at most \<open>2^63 - 1\<close> bytes reaches, the live allocations lie
  inside it, none overlaps another, their sizes add up to at most the used size and that to at
  most the size of the buffer, and releasing any serial terminates without undefined behaviour.
\<close>

theorem ring_run_safe:
  assumes "ring_run maxSize r ls" "maxSize < 2 ^ 63"
  shows "(\<forall>(s, k, n) \<in> set ls. k + n \<le> maxSize) \<and> pairwise_apart (map snd ls) \<and>
    sum_list (map (snd \<circ> snd) ls) \<le> Ring_GetUsedSize r \<and> Ring_GetUsedSize r \<le> Ring_GetSize r \<and>
    (\<forall>s. \<exists>r'. Ring_Deallocate s r = Some (ok r'))"
proof -
  have inv: "ring_inv r ls" "mMaxBlockSize r = maxSize" using ring_run_inv [OF assms] by auto
  have "laid_out m v qs ls w \<Longrightarrow> v + sum_list (map (snd \<circ> snd) ls) \<le> w" for m v qs ls w
    by (induction m v qs ls w rule: laid_out.induct) auto
  then have "sum_list (map (snd \<circ> snd) ls) \<le> mUsedSize r" using inv(1) by (fastforce simp: ring_inv_def)
  with inv ring_inv_blocks [OF inv(1)] Ring_Deallocate_inv [OF inv(1)] show ?thesis
    by (fastforce simp: ring_inv_def Ring_GetUsedSize_def Ring_GetSize_def)
qed

lemma concrete_run:
  "\<exists>r. ring_run 8 r [(2, 3, 3), (3, 0, 3)] \<and> Ring_GetUsedSize r = 8"
proof -
  let ?q = "\<lambda>e n. \<lparr> endOffset = e, request_size = n \<rparr>"
  let ?r = "\<lambda>q v e n. \<lparr> mInflightRequests = q, mUsedEndOffset = e, mUsedStartOffset = v,
      mMaxBlockSize = 8, mUsedSize = n, mCurrentRequestSize = 0 \<rparr>"
  note defs = Ring_Allocate_def sub_alloc_def take_at_end_def take_at_front_def u64_def sub64_def
    kInvalidOffset_def SerialQueue_Enqueue_def push_back_last_def
  have "Ring_Allocate 3 1 (RingBufferAllocator 8) = ok (0, ?r [(1, [?q 3 3])] 0 3 3)"
    by (simp add: defs RingBufferAllocator_def)
  from ring_alloc [OF ring_start this] have 1: "ring_run 8 (?r [(1, [?q 3 3])] 0 3 3) [(1, 0, 3)]"
    by (simp add: kInvalidOffset_def)
  have "Ring_Allocate 3 2 (?r [(1, [?q 3 3])] 0 3 3) = ok (3, ?r [(1, [?q 3 3]), (2, [?q 6 3])] 0 6 6)"
    by (simp add: defs)
  from ring_alloc [OF 1 this] have 2: "ring_run 8 (?r [(1, [?q 3 3]), (2, [?q 6 3])] 0 6 6) [(1, 0, 3), (2, 3, 3)]"
    by (simp add: kInvalidOffset_def)
  have "IterateUpTo 1 [(1, [?q 3 3]), (2, [?q 6 3])] = Some (ok [?q 3 3])"
    using queue.iterate_law [of "[(1, [?q 3 3]), (2, [?q 6 3])]" 1] by (simp add: storage_ok_Cons)
  then have "Ring_Deallocate 1 (?r [(1, [?q 3 3]), (2, [?q 6 3])] 0 6 6) = Some (ok (?r [(2, [?q 6 3])] 3 6 3))"
    by (simp add: Ring_Deallocate_def reclaim_def ClearUpTo_def sub64_def u64_def)
  from ring_dealloc [OF 2 this] have 3: "ring_run 8 (?r [(2, [?q 6 3])] 3 6 3) [(2, 3, 3)]" by simp
  have "Ring_Allocate 3 3 (?r [(2, [?q 6 3])] 3 6 3) = ok (0, ?r [(2, [?q 6 3]), (3, [?q 3 5])] 3 3 8)"
    by (simp add: defs)
  from ring_alloc [OF 3 this] have "ring_run 8 (?r [(2, [?q 6 3]), (3, [?q 3 5])] 3 3 8) [(2, 3, 3), (3, 0, 3)]"
    by (simp add: kInvalidOffset_def)
  then show ?thesis by (intro exI conjI, assumption) (simp add: Ring_GetUsedSize_def)
qed

theorem ring_run_safe_witness:
  "\<exists>r. ring_run 8 r [(2, 3, 3), (3, 0, 3)] \<and> Ring_GetUsedSize r = 8 \<and> 8 \<le> Ring_GetSize r \<and>
     (\<exists>r'. Ring_Deallocate 2 r = Some (ok r'))"
proof -
  obtain r where r: "ring_run 8 r [(2, 3, 3), (3, 0, 3)]" "Ring_GetUsedSize r = 8"
    using concrete_run by blast
  with ring_run_safe [OF r(1)] show ?thesis by auto
qed

section \<open>Progress\<close>

lemma ring_empty:
  assumes "ring_inv r []"
  shows "Ring_Empty r" "mUsedSize r = 0" "mUsedEndOffset r = mUsedStartOffset r"
proof -
  have l: "laid_out (mMaxBlockSize r) (mUsedStartOffset r) (items (mInflightRequests r)) []
      (mUsedStartOffset r + mUsedSize r)" and st: "storage_ok (mInflightRequests r)"
    using assms by (auto simp: ring_inv_def)
  then have i: "items (mInflightRequests r) = []" using laid_out_length [OF l] by simp
  with l show u: "mUsedSize r = 0" by simp
  show "mUsedEndOffset r = mUsedStartOffset r" using u assms by (simp add: ring_inv_def wrap_at_def)
  from i st show "Ring_Empty r"
    by (cases "mInflightRequests r") (auto simp: Ring_Empty_def storage_ok_def vectors_ok_def)
qed

text \<open>
  Once every serial in flight has completed the ring buffer is empty again and then serves
  every request of at most half its size, rounded up, wherever the offsets came to rest. The bound
  cannot be raised: an empty buffer whose offsets rest in the middle refuses more.
\<close>

theorem ring_serves_half:
  assumes "ring_run maxSize r ls" "0 < maxSize" "maxSize < 2 ^ 63" "\<forall>(t, b) \<in> set ls. t \<le> s"
  shows "\<exists>r'. Ring_Deallocate s r = Some (ok r') \<and> Ring_Empty r' \<and>
    (\<forall>n. (2 * n \<le> maxSize + 1 \<longrightarrow> (\<exists>k r''. Ring_Allocate n t r' = ok (k, r'') \<and> k \<noteq> kInvalidOffset)) \<and>
         (n > max (mUsedStartOffset r') (maxSize - mUsedStartOffset r') \<longrightarrow>
           Ring_Allocate n t r' = ok (kInvalidOffset, r')))"
proof -
  have inv: "ring_inv r ls" "mMaxBlockSize r = maxSize" using ring_run_inv assms by auto
  have "filter (\<lambda>l. \<not> fst l \<le> s) ls = []" using assms(4) by (auto simp: filter_empty_conv)
  with Ring_Deallocate_inv [OF inv(1), of s] inv(2) obtain r' where
    r': "Ring_Deallocate s r = Some (ok r')" "ring_inv r' []" "mMaxBlockSize r' = maxSize" by auto
  note e = ring_empty [OF r'(2)]
  have le: "mUsedStartOffset r' \<le> maxSize" "mCurrentRequestSize r' = 0" using r' by (auto simp: ring_inv_def)
  have q: "mInflightRequests r' = []" using e(1) by (simp add: Ring_Empty_def)
  have sub: "sub64 maxSize x = maxSize - x" if "x \<le> maxSize" for x
    using that assms(3) by (intro sub64_eq) auto
  have u: "u64 (mUsedStartOffset r' + n) = mUsedStartOffset r' + n" if "n \<le> maxSize" for n
    using that le(1) assms(3) by (simp add: u64_def)
  have "\<exists>k r''. Ring_Allocate n t r' = ok (k, r'') \<and> k \<noteq> kInvalidOffset" if "2 * n \<le> maxSize + 1" for n
  proof (cases "mUsedStartOffset r' + n \<le> maxSize")
    case True
    with e q r'(3) assms(2,3) le sub [of 0] u [of n] show ?thesis
      by (simp add: Ring_Allocate_def sub_alloc_def take_at_end_def SerialQueue_Enqueue_def kInvalidOffset_def)
  next
    case False
    then have "n \<le> mUsedStartOffset r'" "n \<le> maxSize" using that assms(2) by linarith+
    with False e q r'(3) assms(2,3) le sub [of 0] u [of n] show ?thesis
      by (simp add: Ring_Allocate_def sub_alloc_def take_at_front_def SerialQueue_Enqueue_def
          kInvalidOffset_def Let_def)
  qed
  moreover have "Ring_Allocate n t r' = ok (kInvalidOffset, r')"
    if "n > max (mUsedStartOffset r') (maxSize - mUsedStartOffset r')" for n
    using that e r'(3) assms(2) le sub [of 0] u [of n] by (auto simp: Ring_Allocate_def sub_alloc_def)
  ultimately show ?thesis using r'(1) e(1) by blast
qed

theorem ring_serves_half_witness:
  "\<exists>r r' k r''. ring_run 8 r [(2, 3, 3), (3, 0, 3)] \<and> Ring_Deallocate 3 r = Some (ok r') \<and>
     Ring_Allocate 4 4 r' = ok (k, r'') \<and> k \<noteq> kInvalidOffset"
proof -
  obtain r where r: "ring_run 8 r [(2, 3, 3), (3, 0, 3)]" using concrete_run by blast
  then obtain r' where r': "Ring_Deallocate 3 r = Some (ok r')"
    "2 * 4 \<le> (8 :: nat) + 1 \<longrightarrow> (\<exists>k r''. Ring_Allocate 4 4 r' = ok (k, r'') \<and> k \<noteq> kInvalidOffset)"
    using ring_serves_half [OF r, of 3 4] by auto
  then show ?thesis using r by auto
qed

end
