(* ===== verification/Buddy.thy ===== *)
theory Buddy
  imports Dawn_Math Ring_Buffer
begin

text \<open>
  The buddy allocator of \<open>dawn_native/BuddyAllocator.cpp\<close> with its pointer structure: blocks live
  in an explicit store, where a block is created and deleted, the tree is made of parent, buddy
  and left-child pointers, and the free blocks of a level form a doubly linked list threaded
  through the blocks. Following a null or dangling pointer, reading the inactive member of the
  union and a failed assertion are undefined behaviour.
\<close>

section \<open>Blocks and the store\<close>

datatype block_state = Free | Split | Allocated

text \<open>The union of \<open>FreeLinks\<close> (previous and next free block) and \<open>SplitLink\<close>
  (left child).\<close>

datatype block_links = FreeLinks "nat option" "nat option" | SplitLink nat

record buddy_block =
  mOffset :: nat
  mSize :: nat
  pBuddy :: "nat option"
  pParent :: "nat option"
  mState :: block_state
  links :: block_links

type_synonym store = "nat \<Rightarrow> buddy_block option"

definition BuddyBlock :: "nat \<Rightarrow> nat \<Rightarrow> buddy_block" where
  "BuddyBlock size1 offset = \<lparr> mOffset = offset, mSize = size1, pBuddy = None, pParent = None,
     mState = Free, links = FreeLinks None None \<rparr>"

record buddy =
  heap :: store
  fresh :: nat
  mRoot :: nat
  bMaxBlockSize :: nat
  mFreeLists :: "nat option list"

definition deref :: "store \<Rightarrow> nat \<Rightarrow> buddy_block res" where
  "deref h p = (case h p of None \<Rightarrow> undef | Some b \<Rightarrow> ok b)"

definition deref_opt :: "store \<Rightarrow> nat option \<Rightarrow> (nat \<times> buddy_block) res" where
  "deref_opt h q = (case q of None \<Rightarrow> undef | Some p \<Rightarrow> bindR (deref h p) (\<lambda>b. ok (p, b)))"

definition free_links :: "buddy_block \<Rightarrow> (nat option \<times> nat option) res" where
  "free_links b = (case links b of FreeLinks p n \<Rightarrow> ok (p, n) | SplitLink _ \<Rightarrow> undef)"

definition left_link :: "buddy_block \<Rightarrow> nat res" where
  "left_link b = (case links b of SplitLink l \<Rightarrow> ok l | FreeLinks _ _ \<Rightarrow> undef)"

text \<open>\<open>block->split.pLeft\<close> and \<open>block->split.pLeft->pBuddy\<close>.\<close>

definition right_child :: "store \<Rightarrow> buddy_block \<Rightarrow> (nat \<times> buddy_block) res" where
  "right_child h b = bindR (left_link b) (\<lambda>l. bindR (deref h l) (\<lambda>c. deref_opt h (pBuddy c)))"

section \<open>Operations\<close>

text \<open>The difference of two \<open>uint32_t\<close>.\<close>

definition ComputeLevelFromBlockSize :: "buddy \<Rightarrow> nat \<Rightarrow> nat res" where
  "ComputeLevelFromBlockSize st blockSize =
     bindR (Log2 (of_nat (bMaxBlockSize st))) (\<lambda>a.
     bindR (Log2 (of_nat blockSize)) (\<lambda>b.
       ok ((a + (2 ^ 32 - b)) mod 2 ^ 32)))"

definition BuddyAllocator :: "nat \<Rightarrow> buddy res" where
  "BuddyAllocator maxSize =
     bindR (assert_pow2 (of_nat maxSize)) (\<lambda>_.
     bindR (Log2 (of_nat maxSize)) (\<lambda>l.
       ok \<lparr> heap = (\<lambda>_. None)(0 \<mapsto> BuddyBlock maxSize 0), fresh = 1, mRoot = 0, bMaxBlockSize = maxSize,
            mFreeLists = (replicate (l + 1) None)[0 := Some 0] \<rparr>))"

partial_function (option) ComputeNumOfFreeBlocks :: "store \<Rightarrow> nat \<Rightarrow> nat res option" where
  "ComputeNumOfFreeBlocks h block =
     bindRO (Some (deref h block)) (\<lambda>b.
       if mState b = Free then Some (ok 1)
       else if mState b = Split then
         bindRO (Some (left_link b)) (\<lambda>l.
         bindRO (ComputeNumOfFreeBlocks h l) (\<lambda>m.
         bindRO (Some (right_child h b)) (\<lambda>(r, _).
         bindRO (ComputeNumOfFreeBlocks h r) (\<lambda>n. Some (ok (u64 (m + n)))))))
       else Some (ok 0))"

definition ComputeTotalNumOfFreeBlocksForTesting :: "buddy \<Rightarrow> nat res option" where
  "ComputeTotalNumOfFreeBlocksForTesting st = ComputeNumOfFreeBlocks (heap st) (mRoot st)"

text \<open>The loop of \<open>GetNextFreeAlignedBlock\<close>, from the level of the allocation upwards.\<close>

fun next_free_aligned :: "buddy \<Rightarrow> nat \<Rightarrow> nat \<Rightarrow> nat res" where
  "next_free_aligned st alignment currLevel =
     bindR (vec_at (mFreeLists st) (int currLevel)) (\<lambda>freeBlock.
     bindR (case freeBlock of None \<Rightarrow> ok False
            | Some p \<Rightarrow> bindR (deref (heap st) p) (\<lambda>b. ok (mOffset b mod alignment = 0))) (\<lambda>found.
       if found then ok currLevel
       else if currLevel = 0 then ok kInvalidOffset
       else next_free_aligned st alignment (currLevel - 1)))"

declare next_free_aligned.simps [simp del]

definition GetNextFreeAlignedBlock :: "buddy \<Rightarrow> nat \<Rightarrow> nat \<Rightarrow> nat res" where
  "GetNextFreeAlignedBlock st allocationBlockLevel alignment =
     bindR (assert_pow2 (of_nat alignment)) (\<lambda>_. next_free_aligned st alignment allocationBlockLevel)"

definition InsertFreeBlock :: "nat \<Rightarrow> nat \<Rightarrow> buddy \<Rightarrow> buddy res" where
  "InsertFreeBlock block level st =
     bindR (deref (heap st) block) (\<lambda>b.
     bindR (assertR (mState b = Free)) (\<lambda>_.
     bindR (vec_at (mFreeLists st) (int level)) (\<lambda>head1.
     let h = (heap st)(block \<mapsto> b\<lparr> links := FreeLinks None head1 \<rparr>) in
     bindR (case head1 of None \<Rightarrow> ok h
            | Some q \<Rightarrow> bindR (deref h q) (\<lambda>c. bindR (free_links c) (\<lambda>(_, nxt).
                ok (h(q \<mapsto> c\<lparr> links := FreeLinks (Some block) nxt \<rparr>))))) (\<lambda>h'.
       ok (st\<lparr> heap := h', mFreeLists := (mFreeLists st)[level := Some block] \<rparr>)))))"

definition RemoveFreeBlock :: "nat \<Rightarrow> nat \<Rightarrow> buddy \<Rightarrow> buddy res" where
  "RemoveFreeBlock block level st =
     bindR (deref (heap st) block) (\<lambda>b.
     bindR (assertR (mState b = Free)) (\<lambda>_.
     bindR (vec_at (mFreeLists st) (int level)) (\<lambda>head1.
     bindR (free_links b) (\<lambda>(prv, nxt).
       if head1 = Some block then ok (st\<lparr> mFreeLists := (mFreeLists st)[level := nxt] \<rparr>)
       else
         bindR (deref_opt (heap st) prv) (\<lambda>(pp, pb).
         bindR (assertR (mState pb = Free)) (\<lambda>_.
         bindR (free_links pb) (\<lambda>(pprv, _).
         let h = (heap st)(pp \<mapsto> pb\<lparr> links := FreeLinks pprv nxt \<rparr>) in
         case nxt of None \<Rightarrow> ok (st\<lparr> heap := h \<rparr>)
         | Some np \<Rightarrow>
             bindR (deref h np) (\<lambda>nb.
             bindR (assertR (mState nb = Free)) (\<lambda>_.
             bindR (free_links nb) (\<lambda>(_, nnxt).
               ok (st\<lparr> heap := h(np \<mapsto> nb\<lparr> links := FreeLinks (Some pp) nnxt \<rparr>) \<rparr>)))))))))))"

text \<open>One round of the splitting loop: the current block leaves its list, its two halves enter the
  list of the next level, the left one in front.\<close>

definition split_block :: "nat \<Rightarrow> nat \<Rightarrow> buddy \<Rightarrow> (nat \<times> buddy) res" where
  "split_block currBlock currBlockLevel st =
     bindR (deref (heap st) currBlock) (\<lambda>b.
     bindR (assertR (mState b = Free)) (\<lambda>_.
     bindR (RemoveFreeBlock currBlock currBlockLevel st) (\<lambda>st1.
     let nextLevelSize = mSize b div 2;
         l = fresh st1; r = fresh st1 + 1;
         left = (BuddyBlock nextLevelSize (mOffset b))\<lparr> pParent := Some currBlock, pBuddy := Some r \<rparr>;
         right = (BuddyBlock nextLevelSize (u64 (mOffset b + nextLevelSize)))
           \<lparr> pParent := Some currBlock, pBuddy := Some l \<rparr>;
         st2 = st1\<lparr> heap := (heap st1)(l \<mapsto> left, r \<mapsto> right), fresh := fresh st1 + 2 \<rparr> in
     bindR (InsertFreeBlock r (currBlockLevel + 1) st2) (\<lambda>st3.
     bindR (InsertFreeBlock l (currBlockLevel + 1) st3) (\<lambda>st4.
     bindR (deref (heap st4) currBlock) (\<lambda>b4.
       ok (l, st4\<lparr> heap := (heap st4)(currBlock \<mapsto> b4\<lparr> mState := Split, links := SplitLink l \<rparr>) \<rparr>)))))))"

text \<open>The loop from \<open>currBlockLevel\<close> down to the level of the allocation, \<open>todo\<close> levels
  further.\<close>

fun split_down :: "nat \<Rightarrow> nat \<Rightarrow> nat \<Rightarrow> buddy \<Rightarrow> (nat \<times> buddy) res" where
  "split_down 0 currBlock currBlockLevel st = ok (currBlock, st)"
| "split_down (Suc todo) currBlock currBlockLevel st =
     bindR (split_block currBlock currBlockLevel st) (\<lambda>(l, st').
       split_down todo l (currBlockLevel + 1) st')"

definition Buddy_Allocate :: "nat \<Rightarrow> nat \<Rightarrow> buddy \<Rightarrow> (nat \<times> buddy) res" where
  "Buddy_Allocate allocationSize alignment st =
     (if allocationSize = 0 \<or> allocationSize > bMaxBlockSize st then ok (kInvalidOffset, st)
      else
        bindR (ComputeLevelFromBlockSize st allocationSize) (\<lambda>level.
        bindR (assertR (level < length (mFreeLists st))) (\<lambda>_.
        bindR (GetNextFreeAlignedBlock st level alignment) (\<lambda>currBlockLevel.
        if currBlockLevel = kInvalidOffset then ok (kInvalidOffset, st)
        else
          bindR (vec_at (mFreeLists st) (int currBlockLevel)) (\<lambda>head1.
          bindR (deref_opt (heap st) head1) (\<lambda>(currBlock, _).
          bindR (split_down (level - currBlockLevel) currBlock currBlockLevel st) (\<lambda>(block, st1).
          bindR (RemoveFreeBlock block (max level currBlockLevel) st1) (\<lambda>st2.
          bindR (deref (heap st2) block) (\<lambda>b.
            ok (mOffset b, st2\<lparr> heap := (heap st2)(block \<mapsto> b\<lparr> mState := Allocated \<rparr>) \<rparr>))))))))))"

partial_function (option) DeleteBlock :: "nat \<Rightarrow> store \<Rightarrow> store res option" where
  "DeleteBlock block h =
     bindRO (Some (deref h block)) (\<lambda>b.
       if mState b = Split then
         bindRO (Some (right_child h b)) (\<lambda>(r, _).
         bindRO (DeleteBlock r h) (\<lambda>h1.
         bindRO (Some (deref h1 block)) (\<lambda>b1.
         bindRO (Some (left_link b1)) (\<lambda>l.
         bindRO (DeleteBlock l h1) (\<lambda>h2. Some (ok (h2(block := None))))))))
       else Some (ok (h(block := None))))"

definition Buddy_destroy :: "buddy \<Rightarrow> store res option" where
  "Buddy_destroy st = DeleteBlock (mRoot st) (heap st)"

text \<open>The search of \<open>Deallocate\<close> for the block of an offset.\<close>

partial_function (option) find_block :: "store \<Rightarrow> nat \<Rightarrow> nat \<Rightarrow> nat \<Rightarrow> (nat \<times> nat) res option" where
  "find_block h offset block level =
     bindRO (Some (deref h block)) (\<lambda>b.
       if mState b = Split then
         bindRO (Some (left_link b)) (\<lambda>l.
         bindRO (Some (right_child h b)) (\<lambda>(r, rb).
           find_block h offset (if offset < mOffset rb then l else r) (level + 1)))
       else Some (ok (block, level)))"

text \<open>The merging loop of \<open>Deallocate\<close>.\<close>

fun merge_up :: "nat \<Rightarrow> nat \<Rightarrow> buddy \<Rightarrow> (nat \<times> nat \<times> buddy) res option" where
  "merge_up 0 block st = Some (ok (block, 0, st))"
| "merge_up (Suc level) block st =
     bindRO (Some (deref (heap st) block)) (\<lambda>b.
     bindRO (Some (deref_opt (heap st) (pBuddy b))) (\<lambda>(bud, bb).
       if mState bb \<noteq> Free then Some (ok (block, Suc level, st))
       else
         bindRO (Some (RemoveFreeBlock bud (Suc level) st)) (\<lambda>st1.
         bindRO (Some (deref (heap st1) block)) (\<lambda>b1.
         bindRO (DeleteBlock bud (heap st1)) (\<lambda>h2.
         bindRO (DeleteBlock block h2) (\<lambda>h3.
         bindRO (Some (deref_opt h3 (pParent b1))) (\<lambda>(par, pb).
           merge_up level par (st1\<lparr> heap := h3(par \<mapsto> pb\<lparr> mState := Free \<rparr>) \<rparr>))))))))"

definition Buddy_Deallocate :: "nat \<Rightarrow> buddy \<Rightarrow> buddy res option" where
  "Buddy_Deallocate offset st =
     bindRO (find_block (heap st) offset (mRoot st) 0) (\<lambda>(block, level).
     bindRO (Some (deref (heap st) block)) (\<lambda>b.
     bindRO (Some (assertR (mState b = Allocated))) (\<lambda>_.
     bindRO (Some (ComputeLevelFromBlockSize st (mSize b))) (\<lambda>level'.
     bindRO (Some (assertR (level = level'))) (\<lambda>_.
     let st1 = st\<lparr> heap := (heap st)(block \<mapsto> b\<lparr> mState := Free \<rparr>) \<rparr> in
     bindRO (merge_up level block st1) (\<lambda>(block', level2, st2).
       Some (InsertFreeBlock block' level2 st2)))))))"

end
