(* ===== verification/Buddy_Lists.thy ===== *)
theory Buddy_Lists
  imports Buddy
begin

text \<open>
  The free lists of the buddy allocator: doubly linked segments in the store, and that inserting
  and removing a block acts on them as on lists, changing nothing but links of free blocks.
\<close>

section \<open>Linked segments\<close>

definition first :: "nat list \<Rightarrow> nat option \<Rightarrow> nat option" where
  "first xs nxt = (case xs of [] \<Rightarrow> nxt | x # _ \<Rightarrow> Some x)"

lemma first_simps [simp]: "first [] nxt = nxt" "first (x # xs) nxt = Some x"
  by (simp_all add: first_def)

lemma first_append: "first (xs @ ys) nxt = first xs (first ys nxt)"
  by (cases xs) simp_all

text \<open>\<open>seg h prv xs nxt\<close>: the blocks \<open>xs\<close> are free and linked to each other in order; the last
  one links to \<open>nxt\<close>. The back link of the first block is \<open>prv\<close>, or anything when
  \<open>prv = None\<close>: removing the head of a list leaves the back link of the next block stale.\<close>

fun seg :: "store \<Rightarrow> nat option \<Rightarrow> nat list \<Rightarrow> nat option \<Rightarrow> bool" where
  "seg h prv [] nxt = True"
| "seg h prv (x # xs) nxt =
     ((\<exists>b p. h x = Some b \<and> mState b = Free \<and> links b = FreeLinks p (first xs nxt) \<and> (prv = None \<or> p = prv)) \<and>
      seg h (Some x) xs nxt)"

lemma seg_append:
  "seg h prv (xs @ ys) nxt \<longleftrightarrow>
     seg h prv xs (first ys nxt) \<and> seg h (if xs = [] then prv else Some (last xs)) ys nxt"
  by (induction xs arbitrary: prv) (auto simp: first_append)

lemma seg_cong: "\<forall>x \<in> set xs. h' x = h x \<Longrightarrow> seg h' prv xs nxt = seg h prv xs nxt"
  by (induction xs arbitrary: prv) auto

lemma seg_None: "seg h prv xs nxt \<Longrightarrow> seg h None xs nxt"
  by (cases xs) auto

lemma seg_free: "seg h prv xs nxt \<Longrightarrow> x \<in> set xs \<Longrightarrow> \<exists>b p n. h x = Some b \<and> mState b = Free \<and> links b = FreeLinks p n"
  by (induction xs arbitrary: prv) auto

text \<open>Only links of free blocks differ.\<close>

definition relinked :: "store \<Rightarrow> store \<Rightarrow> bool" where
  "relinked h h' \<longleftrightarrow> (\<forall>x. case h x of None \<Rightarrow> h' x = None
     | Some b \<Rightarrow> if mState b = Free then \<exists>l. h' x = Some (b\<lparr> links := l \<rparr>) else h' x = Some b)"

lemma links_self: "\<exists>l. b = b\<lparr> links := l \<rparr>"
  by (rule exI [of _ "links b"]) simp

lemma relinked_refl [simp]: "relinked h h"
  by (auto simp: relinked_def links_self split: option.split)

lemma relinked_trans:
  assumes "relinked h h'" "relinked h' h''"
  shows "relinked h h''"
  unfolding relinked_def
proof
  fix x
  have "case h x of None \<Rightarrow> h' x = None
     | Some b \<Rightarrow> if mState b = Free then \<exists>l. h' x = Some (b\<lparr> links := l \<rparr>) else h' x = Some b"
    "case h' x of None \<Rightarrow> h'' x = None
     | Some b \<Rightarrow> if mState b = Free then \<exists>l. h'' x = Some (b\<lparr> links := l \<rparr>) else h'' x = Some b"
    using assms by (simp_all add: relinked_def)
  then show "case h x of None \<Rightarrow> h'' x = None
     | Some b \<Rightarrow> if mState b = Free then \<exists>l. h'' x = Some (b\<lparr> links := l \<rparr>) else h'' x = Some b"
    by (auto split: option.splits if_splits)
qed

lemma relinked_upd: "h x = Some b \<Longrightarrow> mState b = Free \<Longrightarrow> relinked h (h(x \<mapsto> b\<lparr> links := l \<rparr>))"
  by (auto simp: relinked_def links_self split: option.split)

section \<open>Free lists\<close>

definition lists_ok :: "store \<Rightarrow> nat option list \<Rightarrow> nat list list \<Rightarrow> bool" where
  "lists_ok h heads fls \<longleftrightarrow> length heads = length fls \<and>
     (\<forall>i < length fls. heads ! i = first (fls ! i) None \<and> seg h None (fls ! i) None \<and> distinct (fls ! i)) \<and>
     (\<forall>i < length fls. \<forall>j < length fls. i \<noteq> j \<longrightarrow> set (fls ! i) \<inter> set (fls ! j) = {})"

lemma lists_okD:
  assumes "lists_ok h heads fls" "i < length fls"
  shows "length heads = length fls" "heads ! i = first (fls ! i) None" "seg h None (fls ! i) None"
    "distinct (fls ! i)" "vec_at heads (int i) = ok (first (fls ! i) None)"
  using assms by (auto simp: lists_ok_def)

lemma lists_ok_level:
  "lists_ok h heads fls \<Longrightarrow> i < length fls \<Longrightarrow> j < length fls \<Longrightarrow> x \<in> set (fls ! i) \<Longrightarrow> x \<in> set (fls ! j) \<Longrightarrow> i = j"
  unfolding lists_ok_def by blast

lemma lists_ok_upd:
  assumes "lists_ok h heads fls" "i < length fls"
    and "heads' = heads[i := first xs None]" "seg h' None xs None" "distinct xs"
    and "\<And>j x. j < length fls \<Longrightarrow> j \<noteq> i \<Longrightarrow> x \<in> set (fls ! j) \<Longrightarrow> x \<notin> set xs \<and> h' x = h x"
  shows "lists_ok h' heads' (fls[i := xs])"
proof -
  have "seg h' None (fls[i := xs] ! j) None" if "j < length fls" for j
    using seg_cong [of "fls ! j" h' h] assms(1,2,4,6) that by (cases "j = i") (auto simp: lists_ok_def)
  moreover have "set (fls[i := xs] ! j) \<inter> set (fls[i := xs] ! k) = {}"
    if "j < length fls" "k < length fls" "j \<noteq> k" for j k
  proof (cases "i = j \<or> i = k")
    case True
    with that assms(6) show ?thesis by (fastforce simp: nth_list_update)
  next
    case False
    with that assms(1) show ?thesis by (simp add: lists_ok_def)
  qed
  moreover have "heads' ! j = first (fls[i := xs] ! j) None \<and> distinct (fls[i := xs] ! j)" if "j < length fls" for j
    using assms(1,2,3,5) that by (cases "j = i") (simp_all add: lists_ok_def)
  moreover have "length heads' = length fls" using assms(1,3) by (simp add: lists_ok_def)
  ultimately show ?thesis unfolding lists_ok_def by simp
qed

lemma deref_Some [simp]: "h p = Some b \<Longrightarrow> deref h p = ok b"
  by (simp add: deref_def)

lemma deref_opt_Some [simp]: "h p = Some b \<Longrightarrow> deref_opt h (Some p) = ok (p, b)"
  by (simp add: deref_opt_def)

lemma InsertFreeBlock_list:
  assumes "lists_ok (heap st) (mFreeLists st) fls" "i < length fls" "heap st p = Some b" "mState b = Free"
    "\<forall>j < length fls. p \<notin> set (fls ! j)"
  shows "\<exists>h'. InsertFreeBlock p i st = ok (st\<lparr> heap := h', mFreeLists := (mFreeLists st)[i := Some p] \<rparr>) \<and>
    relinked (heap st) h' \<and> lists_ok h' ((mFreeLists st)[i := Some p]) (fls[i := p # fls ! i])"
proof -
  note l = lists_okD [OF assms(1,2)]
  let ?h = "(heap st)(p \<mapsto> b\<lparr> links := FreeLinks None (first (fls ! i) None) \<rparr>)"
  show ?thesis
  proof (cases "fls ! i")
    case Nil
    have "InsertFreeBlock p i st = ok (st\<lparr> heap := ?h, mFreeLists := (mFreeLists st)[i := Some p] \<rparr>)"
      using l assms Nil by (simp add: InsertFreeBlock_def)
    moreover have "relinked (heap st) ?h" using assms by (intro relinked_upd)
    moreover have "lists_ok ?h ((mFreeLists st)[i := Some p]) (fls[i := p # fls ! i])"
      using assms Nil by (intro lists_ok_upd [OF assms(1,2)]) auto
    ultimately show ?thesis by blast
  next
    case (Cons q qs)
    with l assms(2,5) have q: "q \<noteq> p" "q \<notin> set qs" "p \<notin> set qs" by auto
    from l Cons obtain c u where c: "heap st q = Some c" "mState c = Free" "links c = FreeLinks u (first qs None)"
      by auto
    let ?h' = "?h(q \<mapsto> c\<lparr> links := FreeLinks (Some p) (first qs None) \<rparr>)"
    have "InsertFreeBlock p i st = ok (st\<lparr> heap := ?h', mFreeLists := (mFreeLists st)[i := Some p] \<rparr>)"
      using l assms Cons q c by (simp add: InsertFreeBlock_def deref_def free_links_def)
    moreover have "relinked (heap st) ?h'"
      using assms q c by (intro relinked_trans [OF relinked_upd relinked_upd]) auto
    moreover have "seg ?h' None (p # fls ! i) None"
    proof -
      have "seg ?h' (Some q) qs None = seg (heap st) (Some q) qs None" using q by (intro seg_cong) auto
      then show ?thesis using l Cons q c assms by auto
    qed
    then have "lists_ok ?h' ((mFreeLists st)[i := Some p]) (fls[i := p # fls ! i])"
    proof (intro lists_ok_upd [OF assms(1,2)])
      fix j x
      assume j: "j < length fls" "j \<noteq> i" "x \<in> set (fls ! j)"
      then have "x \<notin> set (fls ! i)" using lists_ok_level [OF assms(1,2) j(1)] by blast
      with j(1,3) assms(5) Cons show "x \<notin> set (p # fls ! i) \<and> ?h' x = heap st x" by auto
    qed (use assms l in auto)
    ultimately show ?thesis by blast
  qed
qed

lemma RemoveFreeBlock_list:
  assumes "lists_ok (heap st) (mFreeLists st) fls" "i < length fls" "fls ! i = xs @ p # ys"
  shows "\<exists>h' heads'. RemoveFreeBlock p i st = ok (st\<lparr> heap := h', mFreeLists := heads' \<rparr>) \<and>
    relinked (heap st) h' \<and> lists_ok h' heads' (fls[i := xs @ ys])"
proof -
  note l = lists_okD [OF assms(1,2)]
  have other: "x \<notin> set (xs @ p # ys)" if "j < length fls" "j \<noteq> i" "x \<in> set (fls ! j)" for j x
    using lists_ok_level [OF assms(1,2) that(1)] that assms(3) by auto
  have s: "seg (heap st) None xs (Some p)" "seg (heap st) (if xs = [] then None else Some (last xs)) (p # ys) None"
    using l(3) by (simp_all add: assms(3) seg_append)
  then obtain b u where b: "heap st p = Some b" "mState b = Free" "links b = FreeLinks u (first ys None)"
    "xs \<noteq> [] \<Longrightarrow> u = Some (last xs)" by (auto split: if_splits)
  have fl: "free_links b = ok (u, first ys None)" using b(3) by (simp add: free_links_def)
  show ?thesis
  proof (cases xs rule: rev_cases)
    case Nil
    let ?heads = "(mFreeLists st)[i := first ys None]"
    have "RemoveFreeBlock p i st = ok (st\<lparr> heap := heap st, mFreeLists := ?heads \<rparr>)"
      using l(5) b fl by (simp add: RemoveFreeBlock_def assms(3) Nil)
    moreover have "seg (heap st) None ys None" using s seg_None by auto
    then have "lists_ok (heap st) ?heads (fls[i := xs @ ys])"
      using l other by (intro lists_ok_upd [OF assms(1,2)]) (auto simp: Nil assms(3))
    ultimately show ?thesis using relinked_refl by blast
  next
    case (snoc zs z)
    have d: "z \<noteq> p" "z \<notin> set ys" "p \<notin> set ys" "z \<notin> set zs" "set zs \<inter> set ys = {}" "p \<notin> set zs"
      "distinct ys" "distinct zs" using l(4) by (auto simp: assms(3) snoc)
    from s(1) snoc obtain c v where c: "heap st z = Some c" "mState c = Free" "links c = FreeLinks v (Some p)"
      "seg (heap st) None zs (Some z)" "zs \<noteq> [] \<Longrightarrow> v = Some (last zs)"
      by (auto simp: seg_append split: if_splits)
    let ?h = "(heap st)(z \<mapsto> c\<lparr> links := FreeLinks v (first ys None) \<rparr>)"
    have head: "first (fls ! i) None \<noteq> Some p" using d snoc by (cases zs) (auto simp: assms(3))
    have pre: "RemoveFreeBlock p i st = (case first ys None of None \<Rightarrow> ok (st\<lparr> heap := ?h \<rparr>)
         | Some np \<Rightarrow> bindR (deref ?h np) (\<lambda>nb. bindR (assertR (mState nb = Free)) (\<lambda>_.
             bindR (free_links nb) (\<lambda>(_, nnxt).
               ok (st\<lparr> heap := ?h(np \<mapsto> nb\<lparr> links := FreeLinks (Some z) nnxt \<rparr>) \<rparr>)))))"
      using l(5) b fl head c snoc by (simp add: RemoveFreeBlock_def Let_def free_links_def)
    have heads: "mFreeLists st = (mFreeLists st)[i := first (xs @ ys) None]"
    proof -
      have "first (xs @ ys) None = mFreeLists st ! i" using l(2) by (cases zs) (simp_all add: assms(3) snoc)
      then show ?thesis by simp
    qed
    show ?thesis
    proof (cases ys)
      case Nil
      have "RemoveFreeBlock p i st = ok (st\<lparr> heap := ?h, mFreeLists := mFreeLists st \<rparr>)" using pre Nil by simp
      moreover have "relinked (heap st) ?h" using c by (intro relinked_upd)
      moreover have "seg ?h None (xs @ ys) None"
        using c d seg_cong [of zs ?h "heap st" None "Some z"] by (auto simp: Nil snoc seg_append)
      then have "lists_ok ?h (mFreeLists st) (fls[i := xs @ ys])"
        using l(4) other heads by (intro lists_ok_upd [OF assms(1,2)]) (auto simp: assms(3) snoc)
      ultimately show ?thesis by blast
    next
      case (Cons y ys')
      with d have d': "y \<noteq> z" "y \<notin> set zs" "y \<notin> set ys'" "z \<notin> set ys'" "y \<noteq> p" by auto
      from s(2) Cons obtain e where e: "heap st y = Some e" "mState e = Free"
        "links e = FreeLinks (Some p) (first ys' None)" "seg (heap st) (Some y) ys' None" by auto
      let ?h' = "?h(y \<mapsto> e\<lparr> links := FreeLinks (Some z) (first ys' None) \<rparr>)"
      have "RemoveFreeBlock p i st = ok (st\<lparr> heap := ?h', mFreeLists := mFreeLists st \<rparr>)"
        using pre Cons d' e by (simp add: free_links_def deref_def)
      moreover have "relinked (heap st) ?h'"
        using c d' e by (intro relinked_trans [OF relinked_upd relinked_upd]) auto
      moreover have "seg ?h' None (xs @ ys) None"
      proof -
        have "seg ?h' None zs (Some z) = seg (heap st) None zs (Some z)"
          "seg ?h' (Some y) ys' None = seg (heap st) (Some y) ys' None"
          using d d' by (intro seg_cong; auto)+
        then show ?thesis using c d' e by (auto simp: Cons snoc seg_append)
      qed
      then have "lists_ok ?h' (mFreeLists st) (fls[i := xs @ ys])"
        using l(4) other heads by (intro lists_ok_upd [OF assms(1,2)]) (auto simp: assms(3) snoc Cons)
      ultimately show ?thesis by blast
    qed
  qed
qed

end
