(* ===== verification/Buddy_Tree.thy ===== *)
theory Buddy_Tree
  imports Buddy_Lists
begin

text \<open>
  The block tree of the buddy allocator. A \<open>btree\<close> names the blocks of the store by their
  addresses; a position in it is a context, the way from a block up to the root. The predicate
  \<open>rep\<close> says that the store holds a tree, with the offsets and sizes its shape dictates.
\<close>

section \<open>Trees and contexts\<close>

text \<open>A pending block is free but in no free list: about to be split, allocated or merged.\<close>

datatype kind = LFree | LAlloc | LPending

datatype btree = Leaf nat kind | Node nat btree btree

datatype step = InLeft nat btree | InRight nat btree

fun root :: "btree \<Rightarrow> nat" where
  "root (Leaf p _) = p"
| "root (Node p _ _) = p"

fun ptrs :: "btree \<Rightarrow> nat list" where
  "ptrs (Leaf p _) = [p]"
| "ptrs (Node p l r) = p # ptrs l @ ptrs r"

fun height :: "btree \<Rightarrow> nat" where
  "height (Leaf _ _) = 0"
| "height (Node _ l r) = Suc (max (height l) (height r))"

text \<open>The free blocks of a level.\<close>

fun free_at :: "nat \<Rightarrow> btree \<Rightarrow> nat set" where
  "free_at d (Leaf p k) = (if d = 0 \<and> k = LFree then {p} else {})"
| "free_at d (Node p l r) = (case d of 0 \<Rightarrow> {} | Suc e \<Rightarrow> free_at e l \<union> free_at e r)"

fun up :: "step \<Rightarrow> btree \<Rightarrow> btree" where
  "up (InLeft p r) t = Node p t r"
| "up (InRight p l) t = Node p l t"

fun plug :: "step list \<Rightarrow> btree \<Rightarrow> btree" where
  "plug [] t = t"
| "plug (c # cs) t = plug cs (up c t)"

fun sibling :: "step \<Rightarrow> btree" where
  "sibling (InLeft _ r) = r"
| "sibling (InRight _ l) = l"

fun parent :: "step \<Rightarrow> nat" where
  "parent (InLeft p _) = p"
| "parent (InRight p _) = p"

text \<open>Size and offset of the block at a position, in a buddy system of \<open>m\<close> bytes.\<close>

definition size_at :: "nat \<Rightarrow> nat \<Rightarrow> nat" where
  "size_at m d = m div 2 ^ d"

fun off_at :: "nat \<Rightarrow> step list \<Rightarrow> nat" where
  "off_at m [] = 0"
| "off_at m (InLeft _ _ # cs) = off_at m cs"
| "off_at m (InRight _ _ # cs) = off_at m cs + size_at m (Suc (length cs))"

fun parent_of :: "step list \<Rightarrow> nat option" where
  "parent_of [] = None"
| "parent_of (c # cs) = Some (parent c)"

fun buddy_of :: "step list \<Rightarrow> nat option" where
  "buddy_of [] = None"
| "buddy_of (c # cs) = Some (root (sibling c))"

section \<open>Representation in the store\<close>

fun kind_state :: "kind \<Rightarrow> block_state" where
  "kind_state LFree = Free"
| "kind_state LAlloc = Allocated"
| "kind_state LPending = Free"

definition block_at :: "store \<Rightarrow> nat \<Rightarrow> nat option \<Rightarrow> nat option \<Rightarrow> nat \<Rightarrow> nat \<Rightarrow> block_state \<Rightarrow> bool" where
  "block_at h p par bud k n s \<longleftrightarrow> (\<exists>b. h p = Some b \<and> mOffset b = k \<and> mSize b = n \<and>
     pParent b = par \<and> pBuddy b = bud \<and> mState b = s)"

definition split_to :: "store \<Rightarrow> nat \<Rightarrow> nat \<Rightarrow> bool" where
  "split_to h p l \<longleftrightarrow> (\<exists>b. h p = Some b \<and> links b = SplitLink l)"

fun rep :: "store \<Rightarrow> nat option \<Rightarrow> nat option \<Rightarrow> nat \<Rightarrow> nat \<Rightarrow> btree \<Rightarrow> bool" where
  "rep h par bud k n (Leaf p q) = block_at h p par bud k n (kind_state q)"
| "rep h par bud k n (Node p l r) =
     (block_at h p par bud k n Split \<and> split_to h p (root l) \<and>
      rep h (Some p) (Some (root r)) k (n div 2) l \<and>
      rep h (Some p) (Some (root l)) (k + n div 2) (n div 2) r)"

text \<open>The part of the store outside a position, whose hole is the block \<open>x\<close>.\<close>

fun rep_ctx :: "nat \<Rightarrow> store \<Rightarrow> step list \<Rightarrow> nat \<Rightarrow> bool" where
  "rep_ctx m h [] x = True"
| "rep_ctx m h (InLeft p r # cs) x =
     (block_at h p (parent_of cs) (buddy_of cs) (off_at m cs) (size_at m (length cs)) Split \<and>
      split_to h p x \<and>
      rep h (Some p) (Some x) (off_at m cs + size_at m (Suc (length cs))) (size_at m (Suc (length cs))) r \<and>
      rep_ctx m h cs p)"
| "rep_ctx m h (InRight p l # cs) x =
     (block_at h p (parent_of cs) (buddy_of cs) (off_at m cs) (size_at m (length cs)) Split \<and>
      split_to h p (root l) \<and>
      rep h (Some p) (Some x) (off_at m cs) (size_at m (Suc (length cs))) l \<and>
      rep_ctx m h cs p)"

definition rep_here :: "nat \<Rightarrow> store \<Rightarrow> step list \<Rightarrow> btree \<Rightarrow> bool" where
  "rep_here m h cs t \<longleftrightarrow> rep h (parent_of cs) (buddy_of cs) (off_at m cs) (size_at m (length cs)) t"

lemma size_at_Suc [simp]: "size_at m d div 2 = size_at m (Suc d)"
  by (simp add: size_at_def div_mult2_eq [symmetric] mult.commute)

lemma root_up [simp]: "root (up c t) = parent c"
  by (cases c) auto

lemma rep_plug: "rep h None None 0 m (plug cs t) \<longleftrightarrow> rep_here m h cs t \<and> rep_ctx m h cs (root t)"
proof (induction cs arbitrary: t)
  case Nil
  then show ?case by (simp add: rep_here_def size_at_def)
next
  case (Cons c cs)
  then show ?case by (cases c) (auto simp: rep_here_def)
qed

section \<open>Frames\<close>

fun ctx_ptrs :: "step list \<Rightarrow> nat list" where
  "ctx_ptrs [] = []"
| "ctx_ptrs (c # cs) = parent c # ptrs (sibling c) @ ctx_ptrs cs"

lemma mset_ptrs_plug: "mset (ptrs (plug cs t)) = mset (ptrs t) + mset (ctx_ptrs cs)"
proof (induction cs arbitrary: t)
  case (Cons c cs)
  show ?case by (cases c) (simp_all add: Cons.IH)
qed simp

lemma ptrs_plug: "set (ptrs (plug cs t)) = set (ptrs t) \<union> set (ctx_ptrs cs)"
  by (metis mset_ptrs_plug set_mset_mset set_mset_union)

lemma distinct_plug:
  "distinct (ptrs (plug cs t)) \<longleftrightarrow>
     distinct (ptrs t) \<and> distinct (ctx_ptrs cs) \<and> set (ptrs t) \<inter> set (ctx_ptrs cs) = {}"
proof -
  have "mset (ptrs (plug cs t)) = mset (ptrs t @ ctx_ptrs cs)" by (simp add: mset_ptrs_plug)
  then have "distinct (ptrs (plug cs t)) \<longleftrightarrow> distinct (ptrs t @ ctx_ptrs cs)" by (rule mset_eq_imp_distinct_iff)
  then show ?thesis by simp
qed

lemma root_in_ptrs [simp]: "root t \<in> set (ptrs t)"
  by (cases t) auto

text \<open>Stores that agree on some blocks up to links of free ones.\<close>

definition agree :: "nat set \<Rightarrow> store \<Rightarrow> store \<Rightarrow> bool" where
  "agree A h h' \<longleftrightarrow> (\<forall>x \<in> A. \<forall>b. h x = Some b \<longrightarrow>
     (\<exists>l. h' x = Some (b\<lparr> links := l \<rparr>) \<and> (mState b \<noteq> Free \<longrightarrow> l = links b)))"

lemma agree_relinked: "relinked h h' \<Longrightarrow> agree A h h'"
  unfolding agree_def relinked_def
proof (intro ballI allI impI)
  fix x b
  assume r: "\<forall>x. case h x of None \<Rightarrow> h' x = None
     | Some b \<Rightarrow> if mState b = Free then \<exists>l. h' x = Some (b\<lparr> links := l \<rparr>) else h' x = Some b"
    and b: "h x = Some b"
  have "if mState b = Free then \<exists>l. h' x = Some (b\<lparr> links := l \<rparr>) else h' x = Some b"
    using spec [OF r, of x] b by simp
  then show "\<exists>l. h' x = Some (b\<lparr> links := l \<rparr>) \<and> (mState b \<noteq> Free \<longrightarrow> l = links b)"
    by (cases "mState b = Free") (auto intro: exI [of _ "links b"])
qed

lemma agree_same: "\<forall>x \<in> A. h' x = h x \<Longrightarrow> agree A h h'"
  unfolding agree_def by (auto intro!: exI [of _ "links b" for b])

lemma agree_trans:
  assumes "agree A h h'" "agree A h' h''"
  shows "agree A h h''"
  unfolding agree_def
proof (intro ballI allI impI)
  fix x b
  assume x: "x \<in> A" "h x = Some b"
  with assms(1) obtain l where l: "h' x = Some (b\<lparr> links := l \<rparr>)" "mState b \<noteq> Free \<longrightarrow> l = links b"
    unfolding agree_def by blast
  with x assms(2) obtain l' where "h'' x = Some (b\<lparr> links := l \<rparr>\<lparr> links := l' \<rparr>)"
    "mState (b\<lparr> links := l \<rparr>) \<noteq> Free \<longrightarrow> l' = links (b\<lparr> links := l \<rparr>)"
    unfolding agree_def by blast
  with l show "\<exists>l. h'' x = Some (b\<lparr> links := l \<rparr>) \<and> (mState b \<noteq> Free \<longrightarrow> l = links b)"
    by (intro exI [of _ l']) simp
qed

lemma agree_mono: "agree A h h' \<Longrightarrow> B \<subseteq> A \<Longrightarrow> agree B h h'"
  unfolding agree_def by blast

lemma agree_block_at: "agree A h h' \<Longrightarrow> p \<in> A \<Longrightarrow> block_at h p par bud k n s \<Longrightarrow> block_at h' p par bud k n s"
  unfolding agree_def block_at_def by fastforce

lemma agree_split_to:
  "agree A h h' \<Longrightarrow> p \<in> A \<Longrightarrow> block_at h p par bud k n Split \<Longrightarrow> split_to h p l \<Longrightarrow> split_to h' p l"
  unfolding agree_def block_at_def split_to_def by fastforce

lemma rep_agree:
  "rep h par bud k n t \<Longrightarrow> agree (set (ptrs t)) h h' \<Longrightarrow> rep h' par bud k n t"
proof (induction t arbitrary: par bud k n)
  case (Leaf p q)
  then show ?case by (auto intro: agree_block_at)
next
  case (Node p l r)
  have a: "agree (set (ptrs l)) h h'" "agree (set (ptrs r)) h h'" "agree {p} h h'"
    using agree_mono [OF Node.prems(2)] by auto
  have b: "block_at h p par bud k n Split" "split_to h p (root l)" using Node.prems(1) by auto
  have "block_at h' p par bud k n Split" using b(1) a(3) by (intro agree_block_at [of "{p}" h h']) auto
  moreover have "split_to h' p (root l)" using b a(3) by (intro agree_split_to [of "{p}" h h']) auto
  moreover have "rep h' (Some p) (Some (root r)) k (n div 2) l"
    using Node.prems(1) by (intro Node.IH(1) a(1)) simp
  moreover have "rep h' (Some p) (Some (root l)) (k + n div 2) (n div 2) r"
    using Node.prems(1) by (intro Node.IH(2) a(2)) simp
  ultimately show ?case by simp
qed

lemma rep_ctx_agree:
  "rep_ctx m h cs x \<Longrightarrow> agree (set (ctx_ptrs cs)) h h' \<Longrightarrow> rep_ctx m h' cs x"
proof (induction cs arbitrary: x)
  case (Cons c cs)
  have a: "agree (set (ctx_ptrs cs)) h h'" "agree (set (ptrs (sibling c))) h h'" "agree {parent c} h h'"
    using agree_mono [OF Cons.prems(2)] by auto
  have "block_at h' (parent c) par bud k n Split" "split_to h (parent c) l \<Longrightarrow> split_to h' (parent c) l"
    if "block_at h (parent c) par bud k n Split" for par bud k n l
    using agree_block_at [OF a(3)] agree_split_to [OF a(3)] that by simp_all
  note upd = this
  show ?case
  proof (cases c)
    case (InLeft p r)
    then show ?thesis
      using Cons.prems(1) upd rep_agree [OF _ a(2)] Cons.IH [OF _ a(1)] by simp blast
  next
    case (InRight p l)
    then show ?thesis
      using Cons.prems(1) upd rep_agree [OF _ a(2)] Cons.IH [OF _ a(1)] by simp blast
  qed
qed simp

end
