(* ===== verification/Buddy_Core.thy ===== *)
theory Buddy_Core
  imports Buddy_Tree
begin

text \<open>
  The invariant of the buddy allocator: the store holds a tree of blocks, and the free list of
  each level holds exactly the free blocks of that level. One lemma for each elementary move of
  the allocator: a block leaves or enters its list, is marked, is split or is merged.
\<close>

section \<open>Trees seen from a position\<close>

fun ctx_free :: "nat \<Rightarrow> step list \<Rightarrow> nat set" where
  "ctx_free d [] = {}"
| "ctx_free d (c # cs) = (if length cs < d then free_at (d - Suc (length cs)) (sibling c) else {}) \<union> ctx_free d cs"

lemma free_at_plug:
  "free_at d (plug cs t) = (if length cs \<le> d then free_at (d - length cs) t else {}) \<union> ctx_free d cs"
proof (induction cs arbitrary: t)
  case (Cons c cs)
  have "free_at d (plug (c # cs) t) = (if length cs \<le> d then free_at (d - length cs) (up c t) else {}) \<union> ctx_free d cs"
    using Cons.IH by simp
  moreover have "free_at (d - length cs) (up c t) = free_at (d - Suc (length cs)) t \<union> free_at (d - Suc (length cs)) (sibling c)"
    if "length cs < d"
  proof -
    from that have "d - length cs = Suc (d - Suc (length cs))" by simp
    then show ?thesis by (cases c) auto
  qed
  moreover have "free_at 0 (up c t) = {}" by (cases c) auto
  ultimately show ?case by (cases "length cs < d") auto
qed simp

lemma free_at_ptrs: "free_at d t \<subseteq> set (ptrs t)"
  by (induction d t rule: free_at.induct) (auto split: nat.splits if_splits)

lemma ctx_free_ptrs: "ctx_free d cs \<subseteq> set (ctx_ptrs cs)"
proof (induction cs)
  case (Cons c cs)
  then show ?case using free_at_ptrs [of _ "sibling c"] by auto
qed simp

fun ctx_height :: "step list \<Rightarrow> nat" where
  "ctx_height [] = 0"
| "ctx_height (c # cs) = max (Suc (length cs) + height (sibling c)) (ctx_height cs)"

lemma height_up: "height (up c t) = Suc (max (height t) (height (sibling c)))"
  by (cases c) auto

lemma height_plug: "height (plug cs t) = max (length cs + height t) (ctx_height cs)"
  by (induction cs arbitrary: t) (auto simp: height_up)

lemma root_plug: "root s = root t \<Longrightarrow> root (plug cs s) = root (plug cs t)"
proof (induction cs arbitrary: s t)
  case (Cons c cs)
  then show ?case by (cases c) auto
qed simp

lemma plug_append: "plug (cs @ ds) t = plug ds (plug cs t)"
  by (induction cs arbitrary: t) auto

text \<open>Every free block sits at some position of its level.\<close>

lemma free_at_position: "p \<in> free_at d t \<Longrightarrow> \<exists>cs. t = plug cs (Leaf p LFree) \<and> length cs = d"
proof (induction d t rule: free_at.induct)
  case (1 d q k)
  then show ?case by (intro exI [of _ "[]"]) (auto split: if_splits)
next
  case (2 d q l r)
  then obtain e where d: "d = Suc e" and "p \<in> free_at e l \<or> p \<in> free_at e r" by (auto split: nat.splits)
  then consider cs where "l = plug cs (Leaf p LFree)" "length cs = e" | cs where "r = plug cs (Leaf p LFree)" "length cs = e"
    using 2 by blast
  then show ?case
  proof cases
    case (1 cs)
    then have "Node q l r = plug (cs @ [InLeft q r]) (Leaf p LFree)"
      by (simp add: plug_append)
    with 1 d show ?thesis by (intro exI [of _ "cs @ [InLeft q r]"]) simp
  next
    case (2 cs)
    then have "Node q l r = plug (cs @ [InRight q l]) (Leaf p LFree)"
      by (simp add: plug_append)
    with 2 d show ?thesis by (intro exI [of _ "cs @ [InRight q l]"]) simp
  qed
qed

section \<open>The invariant\<close>

definition free_lists :: "nat \<Rightarrow> buddy \<Rightarrow> btree \<Rightarrow> bool" where
  "free_lists k st t \<longleftrightarrow> (\<exists>fls. lists_ok (heap st) (mFreeLists st) fls \<and> length fls = Suc k \<and>
     (\<forall>i \<le> k. set (fls ! i) = free_at i t))"

definition core :: "nat \<Rightarrow> buddy \<Rightarrow> btree \<Rightarrow> bool" where
  "core k st t \<longleftrightarrow> k < 64 \<and> bMaxBlockSize st = 2 ^ k \<and> mRoot st = root t \<and>
     rep (heap st) None None 0 (2 ^ k) t \<and> distinct (ptrs t) \<and> (\<forall>x \<ge> fresh st. heap st x = None) \<and>
     dom (heap st) = set (ptrs t) \<and> height t \<le> k \<and> free_lists k st t"

lemma rep_ptrs: "rep h par bud k n t \<Longrightarrow> x \<in> set (ptrs t) \<Longrightarrow> h x \<noteq> None"
  by (induction t arbitrary: par bud k n) (auto simp: block_at_def)

text \<open>The block at a position, as the store has it.\<close>

lemma core_leaf:
  assumes "core k st (plug cs (Leaf p q))"
  obtains b where "heap st p = Some b" "mOffset b = off_at (2 ^ k) cs" "mSize b = size_at (2 ^ k) (length cs)"
    "pParent b = parent_of cs" "pBuddy b = buddy_of cs" "mState b = kind_state q"
  using assms by (auto simp: core_def rep_plug rep_here_def block_at_def)

lemma core_ctx:
  assumes "core k st (plug cs t)"
  shows "k < 64" "bMaxBlockSize st = 2 ^ k" "length cs + height t \<le> k" "ctx_height cs \<le> k"
    "rep_ctx (2 ^ k) (heap st) cs (root t)" "rep_here (2 ^ k) (heap st) cs t"
    "distinct (ptrs t)" "distinct (ctx_ptrs cs)" "set (ptrs t) \<inter> set (ctx_ptrs cs) = {}"
  using assms by (auto simp: core_def rep_plug height_plug distinct_plug)

text \<open>Changing the subtree at a position, and the store with it.\<close>

lemma core_replace:
  assumes "core k st (plug cs t)" "root t' = root t" "distinct (ptrs t')" "set (ptrs t') \<inter> set (ctx_ptrs cs) = {}"
    "length cs + height t' \<le> k"
    "agree (set (ctx_ptrs cs)) (heap st) (heap st')" "rep_here (2 ^ k) (heap st') cs t'"
    "bMaxBlockSize st' = bMaxBlockSize st" "mRoot st' = mRoot st" "\<forall>x \<ge> fresh st'. heap st' x = None"
    "free_lists k st' (plug cs t')" "dom (heap st') = set (ptrs t') \<union> set (ctx_ptrs cs)"
  shows "core k st' (plug cs t')"
proof -
  note c = core_ctx [OF assms(1)]
  have "rep_ctx (2 ^ k) (heap st') cs (root t')"
    using rep_ctx_agree [OF c(5) assms(6)] assms(2) by simp
  with assms c root_plug [OF assms(2), of cs] show ?thesis
    by (auto simp: core_def rep_plug height_plug distinct_plug ptrs_plug)
qed

lemma core_dom: "core k st (plug cs t) \<Longrightarrow> dom (heap st) = set (ptrs t) \<union> set (ctx_ptrs cs)"
  by (simp add: core_def ptrs_plug)

section \<open>Leaving and entering a list\<close>

lemma relinked_dom: "relinked h h' \<Longrightarrow> h' x = None \<longleftrightarrow> h x = None"
proof -
  assume "relinked h h'"
  then have "case h x of None \<Rightarrow> h' x = None
     | Some b \<Rightarrow> if mState b = Free then \<exists>l. h' x = Some (b\<lparr> links := l \<rparr>) else h' x = Some b"
    by (simp add: relinked_def)
  then show ?thesis by (auto split: option.splits if_splits)
qed

text \<open>Relinking free blocks changes the kind of one leaf at most, between free and pending.\<close>

lemma core_relink:
  assumes "core k st (plug cs (Leaf p q))" "kind_state q' = kind_state q"
    "relinked (heap st) h'" "free_lists k (st\<lparr> heap := h', mFreeLists := heads \<rparr>) (plug cs (Leaf p q'))"
  shows "core k (st\<lparr> heap := h', mFreeLists := heads \<rparr>) (plug cs (Leaf p q'))"
proof (rule core_replace [OF assms(1)])
  note c = core_ctx [OF assms(1)]
  have "rep_here (2 ^ k) h' cs (Leaf p q)"
    using c(6) unfolding rep_here_def by (rule rep_agree [OF _ agree_relinked [OF assms(3)]])
  then show "rep_here (2 ^ k) (heap (st\<lparr> heap := h', mFreeLists := heads \<rparr>)) cs (Leaf p q')"
    using assms(2) by (simp add: rep_here_def)
  show "\<forall>x \<ge> fresh (st\<lparr> heap := h', mFreeLists := heads \<rparr>). heap (st\<lparr> heap := h', mFreeLists := heads \<rparr>) x = None"
    using assms(1) relinked_dom [OF assms(3)] by (simp add: core_def)
  have "dom h' = dom (heap st)" using relinked_dom [OF assms(3)] by (auto simp: dom_def)
  then show "dom (heap (st\<lparr> heap := h', mFreeLists := heads \<rparr>)) = set (ptrs (Leaf p q')) \<union> set (ctx_ptrs cs)"
    using core_dom [OF assms(1)] by simp
qed (use core_ctx [OF assms(1)] assms(3,4) agree_relinked in auto)

lemma leaf_not_in_ctx:
  "core k st (plug cs (Leaf p q)) \<Longrightarrow> p \<notin> ctx_free d cs"
  using core_ctx(9) [of k st cs "Leaf p q"] ctx_free_ptrs [of d cs] by auto

lemma core_remove:
  assumes "core k st (plug cs (Leaf p LFree))"
  shows "\<exists>st'. RemoveFreeBlock p (length cs) st = ok st' \<and> core k st' (plug cs (Leaf p LPending)) \<and> fresh st' = fresh st"
proof -
  from assms obtain fls where fls: "lists_ok (heap st) (mFreeLists st) fls" "length fls = Suc k"
    "\<forall>i \<le> k. set (fls ! i) = free_at i (plug cs (Leaf p LFree))" by (auto simp: core_def free_lists_def)
  have len: "length cs \<le> k" "length cs < length fls" using core_ctx(3) [OF assms] fls(2) by auto
  then have "p \<in> set (fls ! length cs)" using fls(3) by (simp add: free_at_plug)
  then obtain xs ys where xy: "fls ! length cs = xs @ p # ys" by (meson split_list)
  from RemoveFreeBlock_list [OF fls(1) len(2) xy] obtain h' heads' where
    r: "RemoveFreeBlock p (length cs) st = ok (st\<lparr> heap := h', mFreeLists := heads' \<rparr>)"
      "relinked (heap st) h'" "lists_ok h' heads' (fls[length cs := xs @ ys])" by blast
  have "distinct (xs @ p # ys)" using lists_okD(4) [OF fls(1) len(2)] by (simp add: xy)
  then have "set (xs @ ys) = set (fls ! length cs) - {p}" by (auto simp: xy)
  then have "set (fls[length cs := xs @ ys] ! i) = free_at i (plug cs (Leaf p LPending))" if "i \<le> k" for i
    using that fls(2,3) leaf_not_in_ctx [OF assms] by (cases "i = length cs") (auto simp: free_at_plug)
  then have "free_lists k (st\<lparr> heap := h', mFreeLists := heads' \<rparr>) (plug cs (Leaf p LPending))"
    unfolding free_lists_def using r(3) fls(2) by (intro exI [of _ "fls[length cs := xs @ ys]"]) simp
  then have "core k (st\<lparr> heap := h', mFreeLists := heads' \<rparr>) (plug cs (Leaf p LPending))"
    using assms r(2) by (intro core_relink [of k st cs p LFree]) auto
  with r(1) show ?thesis by simp
qed

lemma core_insert:
  assumes "core k st (plug cs (Leaf p LPending))"
  shows "\<exists>st'. InsertFreeBlock p (length cs) st = ok st' \<and> core k st' (plug cs (Leaf p LFree)) \<and> fresh st' = fresh st"
proof -
  from assms obtain fls where fls: "lists_ok (heap st) (mFreeLists st) fls" "length fls = Suc k"
    "\<forall>i \<le> k. set (fls ! i) = free_at i (plug cs (Leaf p LPending))" by (auto simp: core_def free_lists_def)
  have len: "length cs \<le> k" "length cs < length fls" using core_ctx(3) [OF assms] fls(2) by auto
  from assms obtain b where b: "heap st p = Some b" "mState b = Free" by (rule core_leaf) simp
  have notin: "\<forall>j < length fls. p \<notin> set (fls ! j)"
    using fls(2,3) leaf_not_in_ctx [OF assms] by (auto simp: free_at_plug less_Suc_eq_le)
  from InsertFreeBlock_list [OF fls(1) len(2) b notin] obtain h' where
    r: "InsertFreeBlock p (length cs) st = ok (st\<lparr> heap := h', mFreeLists := (mFreeLists st)[length cs := Some p] \<rparr>)"
      "relinked (heap st) h'"
      "lists_ok h' ((mFreeLists st)[length cs := Some p]) (fls[length cs := p # fls ! length cs])" by blast
  let ?st = "st\<lparr> heap := h', mFreeLists := (mFreeLists st)[length cs := Some p] \<rparr>"
  have "set (fls[length cs := p # fls ! length cs] ! i) = free_at i (plug cs (Leaf p LFree))" if "i \<le> k" for i
    using that fls(2,3) by (cases "i = length cs") (auto simp: free_at_plug)
  then have "free_lists k ?st (plug cs (Leaf p LFree))"
    unfolding free_lists_def using r(3) fls(2) by (intro exI [of _ "fls[length cs := p # fls ! length cs]"]) simp
  then have "core k ?st (plug cs (Leaf p LFree))"
    using assms r(2) by (intro core_relink [of k st cs p LPending]) auto
  with r(1) show ?thesis by simp
qed

section \<open>Marking\<close>

text \<open>Blocks in no free list can change without disturbing the lists.\<close>

lemma free_lists_cong:
  assumes "free_lists k st t" "\<forall>i. free_at i t' = free_at i t" "mFreeLists st' = mFreeLists st"
    "\<And>x i. x \<in> free_at i t \<Longrightarrow> heap st' x = heap st x"
  shows "free_lists k st' t'"
proof -
  from assms(1) obtain fls where fls: "lists_ok (heap st) (mFreeLists st) fls" "length fls = Suc k"
    "\<forall>i \<le> k. set (fls ! i) = free_at i t" by (auto simp: free_lists_def)
  then have "seg (heap st') None (fls ! i) None" if "i < length fls" for i
    using that seg_cong [of "fls ! i" "heap st'" "heap st" None None] assms(4) lists_okD(3) [OF fls(1) that] by simp
  then have "lists_ok (heap st') (mFreeLists st') fls" using fls(1) assms(3) by (simp add: lists_ok_def)
  with fls assms(2) show ?thesis unfolding free_lists_def by (intro exI [of _ fls]) simp
qed

lemma core_mark:
  assumes "core k st (plug cs (Leaf p q))" "heap st p = Some b" "q \<noteq> LFree" "q' \<noteq> LFree" "kind_state q' = s"
  shows "core k (st\<lparr> heap := (heap st)(p \<mapsto> b\<lparr> mState := s \<rparr>) \<rparr>) (plug cs (Leaf p q'))"
proof (rule core_replace [OF assms(1)])
  let ?st = "st\<lparr> heap := (heap st)(p \<mapsto> b\<lparr> mState := s \<rparr>) \<rparr>"
  note c = core_ctx [OF assms(1)]
  show "rep_here (2 ^ k) (heap ?st) cs (Leaf p q')"
    using c(6) assms(2,5) by (auto simp: rep_here_def block_at_def)
  show "\<forall>x \<ge> fresh ?st. heap ?st x = None"
    using assms(1,2) by (auto simp: core_def)
  show "agree (set (ctx_ptrs cs)) (heap st) (heap ?st)"
    using c(9) by (intro agree_same) auto
  have same: "free_at i (plug cs (Leaf p q')) = free_at i (plug cs (Leaf p q))" for i
    using assms(3,4) by (simp add: free_at_plug)
  have other: "heap ?st x = heap st x" if "x \<in> free_at i (plug cs (Leaf p q))" for x i
    using that assms(3) leaf_not_in_ctx [OF assms(1), of i] by (auto simp: free_at_plug split: if_splits)
  have "free_lists k st (plug cs (Leaf p q))" using assms(1) by (simp add: core_def)
  then show "free_lists k ?st (plug cs (Leaf p q'))"
    by (rule free_lists_cong) (intro allI same, simp, rule other)
  show "dom (heap ?st) = set (ptrs (Leaf p q')) \<union> set (ctx_ptrs cs)"
    using core_dom [OF assms(1)] assms(2) by auto
qed (use core_ctx [OF assms(1)] in auto)

section \<open>Splitting\<close>

lemma off_at_bound: "off_at (2 ^ k) cs + size_at (2 ^ k) (length cs) \<le> 2 ^ k"
proof (induction cs)
  case Nil
  then show ?case by (simp add: size_at_def)
next
  case (Cons c cs)
  have "2 * size_at (2 ^ k) (Suc (length cs)) \<le> size_at (2 ^ k) (length cs)"
    using size_at_Suc [of "2 ^ k" "length cs"] by linarith
  with Cons show ?case by (cases c) auto
qed

lemma two_power_64: "k < 64 \<Longrightarrow> (2 :: nat) ^ k < 2 ^ 64"
  by (rule power_strict_increasing) auto

lemma split_offset:
  assumes "k < 64"
  shows "u64 (off_at (2 ^ k) cs + size_at (2 ^ k) (length cs) div 2) = off_at (2 ^ k) cs + size_at (2 ^ k) (Suc (length cs))"
proof -
  have "off_at (2 ^ k) cs + size_at (2 ^ k) (length cs) div 2 \<le> 2 ^ k" using off_at_bound [of k cs] by linarith
  then show ?thesis using two_power_64 [OF assms] by (simp add: u64_def)
qed

text \<open>The two inserts into the list of the next level, for two new blocks outside the tree.\<close>

lemma insert_halves:
  assumes "lists_ok (heap st) (mFreeLists st) fls" "i < length fls"
    "heap st l = Some lb" "mState lb = Free" "heap st r = Some rb" "mState rb = Free" "l \<noteq> r"
    "\<forall>j < length fls. l \<notin> set (fls ! j) \<and> r \<notin> set (fls ! j)"
  shows "\<exists>h' heads'. bindR (InsertFreeBlock r i st) (InsertFreeBlock l i) = ok (st\<lparr> heap := h', mFreeLists := heads' \<rparr>) \<and>
    relinked (heap st) h' \<and> lists_ok h' heads' (fls[i := l # r # fls ! i])"
proof -
  have notin: "\<forall>j < length fls. r \<notin> set (fls ! j)" using assms(8) by blast
  obtain h1 where h1: "InsertFreeBlock r i st = ok (st\<lparr> heap := h1, mFreeLists := (mFreeLists st)[i := Some r] \<rparr>)"
      "relinked (heap st) h1" "lists_ok h1 ((mFreeLists st)[i := Some r]) (fls[i := r # fls ! i])"
    using InsertFreeBlock_list [OF assms(1,2,5,6) notin] by blast
  let ?st = "st\<lparr> heap := h1, mFreeLists := (mFreeLists st)[i := Some r] \<rparr>"
  from agree_relinked [OF h1(2), of "{l}"] assms(3) obtain x where "h1 l = Some (lb\<lparr> links := x \<rparr>)"
    unfolding agree_def by blast
  then have lb: "heap ?st l = Some (lb\<lparr> links := x \<rparr>)" "mState (lb\<lparr> links := x \<rparr>) = Free" using assms(4) by simp_all
  have li: "lists_ok (heap ?st) (mFreeLists ?st) (fls[i := r # fls ! i])" "i < length (fls[i := r # fls ! i])"
    using h1(3) assms(2) by simp_all
  have notin': "\<forall>j < length (fls[i := r # fls ! i]). l \<notin> set (fls[i := r # fls ! i] ! j)"
    using assms(2,7,8) by (auto simp: nth_list_update)
  obtain h2 where "InsertFreeBlock l i ?st = ok (?st\<lparr> heap := h2, mFreeLists := (mFreeLists ?st)[i := Some l] \<rparr>)"
      "relinked h1 h2" "lists_ok h2 ((mFreeLists ?st)[i := Some l]) (fls[i := r # fls ! i, i := l # fls[i := r # fls ! i] ! i])"
    using InsertFreeBlock_list [OF li lb notin'] by auto
  then show ?thesis using h1(1,2) assms(2) relinked_trans [OF h1(2)] by auto
qed

lemma lists_ok_cong:
  assumes "lists_ok h heads fls" "\<And>j x. j < length fls \<Longrightarrow> x \<in> set (fls ! j) \<Longrightarrow> h' x = h x"
  shows "lists_ok h' heads fls"
proof -
  have "seg h' None (fls ! i) None" if "i < length fls" for i
    using seg_cong [of "fls ! i" h' h None None] assms(2) [OF that] lists_okD(3) [OF assms(1) that] by simp
  with assms(1) show ?thesis by (simp add: lists_ok_def)
qed

lemma core_listed:
  assumes "core k st t" "\<forall>i \<le> k. set (fls ! i) = free_at i t" "length fls = Suc k" "j < length fls" "x \<in> set (fls ! j)"
  shows "x \<in> set (ptrs t)" "heap st x \<noteq> None"
proof -
  show "x \<in> set (ptrs t)" using assms free_at_ptrs [of j t] by auto
  then show "heap st x \<noteq> None" using assms(1) rep_ptrs [of "heap st" None None 0 "2 ^ k" t] by (simp add: core_def)
qed

lemma split_free_at:
  assumes "core k st (plug cs (Leaf p LPending))"
  shows "free_at i (plug cs (Node p (Leaf l LFree) (Leaf r LFree))) =
    (if i = Suc (length cs) then {l, r} else {}) \<union> free_at i (plug cs (Leaf p LPending))"
proof -
  have "free_at d (Node p (Leaf l LFree) (Leaf r LFree)) = (if d = Suc 0 then {l, r} else {})" for d
    by (cases d) auto
  then show ?thesis by (auto simp: free_at_plug)
qed

text \<open>The state after the split: the halves are in the list, the block points to the left one.\<close>

lemma core_split_final:
  assumes core: "core k st1 (plug cs (Leaf p LPending))"
    and fls: "length fls = Suc k" "\<forall>i \<le> k. set (fls ! i) = free_at i (plug cs (Leaf p LPending))"
    and b1: "heap st1 p = Some b1" "mOffset b1 = off_at (2 ^ k) cs" "mSize b1 = size_at (2 ^ k) (length cs)"
      "pParent b1 = parent_of cs" "pBuddy b1 = buddy_of cs" "mState b1 = Free"
    and new: "l = fresh st1" "r = fresh st1 + 1"
      "h2 = (heap st1)(l \<mapsto> (BuddyBlock n (off_at (2 ^ k) cs))\<lparr> pParent := Some p, pBuddy := Some r \<rparr>,
         r \<mapsto> (BuddyBlock n (off_at (2 ^ k) cs + n))\<lparr> pParent := Some p, pBuddy := Some l \<rparr>)"
      "n = size_at (2 ^ k) (Suc (length cs))"
    and ins: "relinked h2 h'" "lists_ok h' heads' (fls[Suc (length cs) := l # r # fls ! Suc (length cs)])"
    and lt: "length cs < k"
    and st': "st' = st1\<lparr> fresh := fresh st1 + 2, mFreeLists := heads',
      heap := h'(p \<mapsto> b1\<lparr> mState := Split, links := SplitLink l \<rparr>) \<rparr>"
  shows "core k st' (plug cs (Node p (Leaf l LFree) (Leaf r LFree)))"
proof (rule core_replace [OF core])
  note c = core_ctx [OF core]
  have fresh: "heap st1 x = None" if "l \<le> x" for x using core that by (simp add: core_def new)
  have p: "p \<noteq> l" "p \<noteq> r" using b1(1) fresh [of p] by (auto simp: new(1,2))
  have used: "x \<noteq> l \<and> x \<noteq> r" if "heap st1 x \<noteq> None" for x using fresh [of x] that by (auto simp: new(1,2))
  have ctx: "heap st1 x \<noteq> None \<and> x \<noteq> p" if "x \<in> set (ctx_ptrs cs)" for x
    using that c(9) core rep_ptrs [of "heap st1" None None 0 "2 ^ k" "plug cs (Leaf p LPending)" x]
    by (auto simp: core_def ptrs_plug)
  show "distinct (ptrs (Node p (Leaf l LFree) (Leaf r LFree)))" using p by (simp add: new(1,2))
  show "set (ptrs (Node p (Leaf l LFree) (Leaf r LFree))) \<inter> set (ctx_ptrs cs) = {}"
    using ctx used by auto
  show "agree (set (ctx_ptrs cs)) (heap st1) (heap st')"
  proof (rule agree_trans [OF agree_trans])
    show "agree (set (ctx_ptrs cs)) (heap st1) h2" using ctx used by (intro agree_same) (auto simp: new(3))
    show "agree (set (ctx_ptrs cs)) h2 h'" by (rule agree_relinked [OF ins(1)])
    show "agree (set (ctx_ptrs cs)) h' (heap st')" using ctx by (intro agree_same) (auto simp: st')
  qed
  have leaf: "block_at (heap st') x (Some p) y o1 n Free"
    if "block_at h2 x (Some p) y o1 n Free" "x \<noteq> p" for x y o1
    using agree_block_at [OF agree_relinked [OF ins(1)], of x "{x}"] that by (simp add: block_at_def st')
  show "rep_here (2 ^ k) (heap st') cs (Node p (Leaf l LFree) (Leaf r LFree))"
    using b1 p leaf [of l "Some r" "off_at (2 ^ k) cs"] leaf [of r "Some l" "off_at (2 ^ k) cs + n"]
    by (simp add: rep_here_def block_at_def split_to_def st' new(2,3,4) BuddyBlock_def) (simp add: new(1))
  show "\<forall>x \<ge> fresh st'. heap st' x = None"
    using fresh relinked_dom [OF ins(1)] b1(1) by (auto simp: st' new)
  have "dom h' = dom h2" using relinked_dom [OF ins(1)] by (auto simp: dom_def)
  then show "dom (heap st') = set (ptrs (Node p (Leaf l LFree) (Leaf r LFree))) \<union> set (ctx_ptrs cs)"
    using core_dom [OF core] by (auto simp: st' new(3))
  have nol: "x \<noteq> p" if "j < length fls" "x \<in> set (fls[Suc (length cs) := l # r # fls ! Suc (length cs)] ! j)" for j x
    using that fls lt p leaf_not_in_ctx [OF core, of j]
    by (cases "j = Suc (length cs)") (auto simp: free_at_plug less_Suc_eq_le split: if_splits)
  have "lists_ok (heap st') heads' (fls[Suc (length cs) := l # r # fls ! Suc (length cs)])"
    using lists_ok_cong [OF ins(2)] nol by (simp add: st')
  moreover have "set (fls[Suc (length cs) := l # r # fls ! Suc (length cs)] ! i) =
      free_at i (plug cs (Node p (Leaf l LFree) (Leaf r LFree)))" if "i \<le> k" for i
    using that fls lt split_free_at [OF core] by (cases "i = Suc (length cs)") auto
  ultimately show "free_lists k st' (plug cs (Node p (Leaf l LFree) (Leaf r LFree)))"
    unfolding free_lists_def using fls(1)
    by (intro exI [of _ "fls[Suc (length cs) := l # r # fls ! Suc (length cs)]"]) (simp add: st')
qed (insert lt, simp_all add: st')

lemma core_split:
  assumes "core k st (plug cs (Leaf p LFree))" "length cs < k"
  shows "\<exists>l r st'. split_block p (length cs) st = ok (l, st') \<and> core k st' (plug (InLeft p (Leaf r LFree) # cs) (Leaf l LFree))"
proof -
  from assms(1) obtain b where b: "heap st p = Some b" "mOffset b = off_at (2 ^ k) cs"
    "mSize b = size_at (2 ^ k) (length cs)" "mState b = Free" by (rule core_leaf) simp
  from core_remove [OF assms(1)] obtain st1 where st1: "RemoveFreeBlock p (length cs) st = ok st1"
    "core k st1 (plug cs (Leaf p LPending))" by blast
  note c = core_ctx [OF st1(2)]
  from st1(2) obtain b1 where b1: "heap st1 p = Some b1" "mOffset b1 = off_at (2 ^ k) cs"
    "mSize b1 = size_at (2 ^ k) (length cs)" "pParent b1 = parent_of cs" "pBuddy b1 = buddy_of cs" "mState b1 = Free"
    by (rule core_leaf) simp
  let ?l = "fresh st1" and ?r = "fresh st1 + 1" and ?n = "size_at (2 ^ k) (Suc (length cs))"
  have fresh: "heap st1 x = None" if "?l \<le> x" for x using st1(2) that by (simp add: core_def)
  let ?left = "(BuddyBlock ?n (off_at (2 ^ k) cs))\<lparr> pParent := Some p, pBuddy := Some ?r \<rparr>"
  let ?right = "(BuddyBlock ?n (off_at (2 ^ k) cs + ?n))\<lparr> pParent := Some p, pBuddy := Some ?l \<rparr>"
  let ?st2 = "st1\<lparr> heap := (heap st1)(?l \<mapsto> ?left, ?r \<mapsto> ?right), fresh := fresh st1 + 2 \<rparr>"
  from st1(2) obtain fls where fls: "lists_ok (heap st1) (mFreeLists st1) fls" "length fls = Suc k"
    "\<forall>i \<le> k. set (fls ! i) = free_at i (plug cs (Leaf p LPending))" by (auto simp: core_def free_lists_def)
  have listed: "x \<noteq> ?l \<and> x \<noteq> ?r" if "j < length fls" "x \<in> set (fls ! j)" for j x
    using core_listed(2) [OF st1(2) fls(3,2) that] fresh [of x] by auto
  have lists2: "lists_ok (heap ?st2) (mFreeLists ?st2) fls"
    using lists_ok_cong [OF fls(1)] listed by simp
  have "\<exists>h' heads'. bindR (InsertFreeBlock ?r (Suc (length cs)) ?st2) (InsertFreeBlock ?l (Suc (length cs))) =
      ok (?st2\<lparr> heap := h', mFreeLists := heads' \<rparr>) \<and> relinked (heap ?st2) h' \<and>
      lists_ok h' heads' (fls[Suc (length cs) := ?l # ?r # fls ! Suc (length cs)])"
    using assms(2) fls(2) listed by (intro insert_halves [OF lists2]) (auto simp: BuddyBlock_def)
  then obtain h' heads' where ins: "bindR (InsertFreeBlock ?r (Suc (length cs)) ?st2) (InsertFreeBlock ?l (Suc (length cs))) =
      ok (?st2\<lparr> heap := h', mFreeLists := heads' \<rparr>)" "relinked (heap ?st2) h'"
      "lists_ok h' heads' (fls[Suc (length cs) := ?l # ?r # fls ! Suc (length cs)])" by blast
  have p: "p \<noteq> ?l" "p \<noteq> ?r" using b1(1) fresh [of p] by auto
  obtain u where hp: "h' p = Some (b1\<lparr> links := u \<rparr>)"
    using agree_relinked [OF ins(2), of "{p}"] b1(1) p unfolding agree_def by auto
  let ?h = "h'(p \<mapsto> b1\<lparr> mState := Split, links := SplitLink ?l \<rparr>)"
  let ?st' = "st1\<lparr> fresh := fresh st1 + 2, mFreeLists := heads', heap := ?h \<rparr>"
  let ?t = "Node p (Leaf ?l LFree) (Leaf ?r LFree)"
  have off: "u64 (mOffset b + mSize b div 2) = off_at (2 ^ k) cs + ?n" using split_offset [OF c(1)] by (simp add: b)
  have "split_block p (length cs) st =
      bindR (bindR (InsertFreeBlock ?r (Suc (length cs)) ?st2) (InsertFreeBlock ?l (Suc (length cs)))) (\<lambda>st4.
        bindR (deref (heap st4) p) (\<lambda>b4.
          ok (?l, st4\<lparr> heap := (heap st4)(p \<mapsto> b4\<lparr> mState := Split, links := SplitLink ?l \<rparr>) \<rparr>)))"
    unfolding split_block_def bindR_assoc using b(1,4) st1(1) off by (simp add: Let_def b)
  then have run: "split_block p (length cs) st = ok (?l, ?st')" unfolding ins(1) by (simp add: hp)
  have "core k ?st' (plug cs ?t)"
    by (rule core_split_final [OF st1(2) fls(2,3) b1 refl refl refl refl _ ins(3) assms(2)])
      (use ins(2) in simp_all)
  with run show ?thesis by auto
qed

section \<open>Merging\<close>

lemma rep_root:
  assumes "rep h par bud k n t"
  obtains b where "h (root t) = Some b" "mOffset b = k" "mSize b = n" "pParent b = par" "pBuddy b = bud"
    "mState b = (case t of Leaf _ q \<Rightarrow> kind_state q | Node _ _ _ \<Rightarrow> Split)"
  using assms by (cases t) (auto simp: block_at_def)

text \<open>The same tree seen from the buddy.\<close>

fun flip :: "step \<Rightarrow> btree \<Rightarrow> step" where
  "flip (InLeft p r) t = InRight p t"
| "flip (InRight p l) t = InLeft p t"

lemma flip_simps [simp]:
  "up (flip c t) (sibling c) = up c t" "parent (flip c t) = parent c" "sibling (flip c t) = t"
  by (cases c; simp)+

lemma plug_flip: "plug (c # cs) t = plug (flip c t # cs) (sibling c)"
  by simp

lemma flip_flip [simp]: "flip (flip c t) s = (case c of InLeft p _ \<Rightarrow> InLeft p s | InRight p _ \<Rightarrow> InRight p s)"
  by (cases c) auto

lemma DeleteBlock_leaf: "h p = Some b \<Longrightarrow> mState b \<noteq> Split \<Longrightarrow> DeleteBlock p h = Some (ok (h(p := None)))"
  by (subst DeleteBlock.simps) simp

text \<open>Two pending buddies become one pending block.\<close>

lemma core_join:
  assumes "core k st (plug cs t)" "t = Node P (Leaf x LPending) (Leaf y LPending)" "heap st P = Some pb"
    "heap st' = (heap st)(x := None, y := None, P \<mapsto> pb\<lparr> mState := Free \<rparr>)"
    "fresh st' = fresh st" "mFreeLists st' = mFreeLists st" "bMaxBlockSize st' = bMaxBlockSize st" "mRoot st' = mRoot st"
  shows "core k st' (plug cs (Leaf P LPending))"
proof (rule core_replace [OF assms(1)])
  note c = core_ctx [OF assms(1)]
  have d: "x \<noteq> P" "y \<noteq> P" "x \<noteq> y" "P \<notin> set (ctx_ptrs cs)" "x \<notin> set (ctx_ptrs cs)" "y \<notin> set (ctx_ptrs cs)"
    using c(7,9) by (auto simp: assms(2))
  show "agree (set (ctx_ptrs cs)) (heap st) (heap st')" using d by (intro agree_same) (auto simp: assms(4))
  show "rep_here (2 ^ k) (heap st') cs (Leaf P LPending)"
    using c(6) assms(3) d by (simp add: rep_here_def assms(2,4) block_at_def)
  show "\<forall>x \<ge> fresh st'. heap st' x = None" using assms(1,3,5) by (auto simp: core_def assms(4))
  show "dom (heap st') = set (ptrs (Leaf P LPending)) \<union> set (ctx_ptrs cs)"
    using core_dom [OF assms(1)] d by (auto simp: assms(2,4) dom_def split: if_splits)
  have none: "free_at i t = {}" "free_at i (Leaf P LPending) = {}" for i by (cases i; simp add: assms(2))+
  have "ctx_free i cs \<subseteq> set (ctx_ptrs cs)" for i by (rule ctx_free_ptrs)
  then have other: "heap st' z = heap st z" if "z \<in> free_at i (plug cs t)" for z i
    using that d by (auto simp: free_at_plug none assms(4) split: if_splits)
  have "free_lists k st (plug cs t)" using assms(1) by (simp add: core_def)
  then show "free_lists k st' (plug cs (Leaf P LPending))"
    by (rule free_lists_cong) (simp add: free_at_plug none, simp add: assms(6), rule other)
qed (use core_ctx [OF assms(1)] assms in auto)

lemma core_merge:
  assumes "core k st (plug (c # cs) (Leaf p LPending))" "sibling c = Leaf q LFree"
  shows "\<exists>st'. merge_up (Suc (length cs)) p st = merge_up (length cs) (parent c) st' \<and>
    core k st' (plug cs (Leaf (parent c) LPending))"
proof -
  let ?c = "flip c (Leaf p LPending)"
  have swap: "core k st (plug (?c # cs) (Leaf q LFree))" using assms plug_flip [of c cs "Leaf p LPending"] by simp
  from core_remove [OF swap] obtain st1 where st1: "RemoveFreeBlock q (Suc (length cs)) st = ok st1"
    "core k st1 (plug (?c # cs) (Leaf q LPending))" by auto
  let ?t = "up ?c (Leaf q LPending)"
  have core1: "core k st1 (plug cs ?t)" using st1(2) by simp
  have same: "plug (?c # cs) (Leaf q LPending) = plug (flip ?c (Leaf q LPending) # cs) (Leaf p LPending)"
    using plug_flip [of ?c cs "Leaf q LPending"] by simp
  obtain b where b: "heap st p = Some b" "pBuddy b = Some q"
    using assms by (rule_tac core_leaf [OF assms(1)]) simp
  obtain bb where bb: "heap st q = Some bb" "mState bb = Free" by (rule core_leaf [OF swap]) simp
  obtain b1 where b1: "heap st1 p = Some b1" "pParent b1 = Some (parent c)" "mState b1 = Free"
    by (rule core_leaf [OF st1(2) [unfolded same]]) (cases c; simp)
  obtain bb1 where bb1: "heap st1 q = Some bb1" "mState bb1 = Free" by (rule core_leaf [OF st1(2)]) simp
  obtain x y where t: "?t = Node (parent c) (Leaf x LPending) (Leaf y LPending)" and xy: "{x, y} = {p, q}"
    by (cases c) auto
  have d: "p \<noteq> q" "p \<noteq> parent c" "q \<noteq> parent c"
    using core_ctx(7) [OF core1] xy by (auto simp: t doubleton_eq_iff)
  from core_ctx(6) [OF core1] obtain pb where pb: "heap st1 (parent c) = Some pb"
    by (auto simp: t rep_here_def block_at_def)
  let ?h = "(heap st1)(q := None, p := None)"
  let ?st = "st1\<lparr> heap := ?h(parent c \<mapsto> pb\<lparr> mState := Free \<rparr>) \<rparr>"
  have "merge_up (Suc (length cs)) p st = merge_up (length cs) (parent c) ?st"
    using b bb st1(1) b1 bb1 d pb by (simp add: DeleteBlock_leaf)
  moreover have "core k ?st (plug cs (Leaf (parent c) LPending))"
    using xy by (intro core_join [OF core1 t pb]) (auto simp: doubleton_eq_iff)
  ultimately show ?thesis by blast
qed

fun settled :: "btree \<Rightarrow> bool" where
  "settled (Leaf _ q) = (q \<noteq> LPending)"
| "settled (Node _ l r) = (settled l \<and> settled r)"

lemma core_merge_stop:
  assumes "core k st (plug (c # cs) (Leaf p LPending))" "settled (sibling c)" "\<forall>q. sibling c \<noteq> Leaf q LFree"
  shows "merge_up (Suc (length cs)) p st = Some (ok (p, Suc (length cs), st))"
proof -
  obtain b where b: "heap st p = Some b" "pBuddy b = Some (root (sibling c))"
    by (rule core_leaf [OF assms(1)]) simp
  have swap: "core k st (plug (flip c (Leaf p LPending) # cs) (sibling c))" using assms(1) plug_flip by metis
  obtain bb where "heap st (root (sibling c)) = Some bb"
    "mState bb = (case sibling c of Leaf _ q \<Rightarrow> kind_state q | Node _ _ _ \<Rightarrow> Split)"
    using core_ctx(6) [OF swap] unfolding rep_here_def by (rule rep_root)
  moreover from this assms(2,3) have "mState bb \<noteq> Free"
    by (cases "sibling c") (auto elim: settled.elims split: kind.splits, metis kind.exhaust kind_state.simps(2) block_state.distinct)
  ultimately show ?thesis using b by simp
qed

end
