(* ===== verification/Buddy_Spec.thy ===== *)
theory Buddy_Spec
  imports Buddy_Core
begin

text \<open>
  What the buddy allocator promises: the allocated blocks of its tree lie inside the managed
  range, do not overlap and are aligned to their size; an allocation fails only when no aligned
  range is free; releasing a block gives back exactly that block, and buddies that are both free
  are always merged.
\<close>

section \<open>Allocated blocks of a tree\<close>

fun allocs :: "nat \<Rightarrow> nat \<Rightarrow> btree \<Rightarrow> block list" where
  "allocs k n (Leaf _ q) = (if q = LAlloc then [(k, n)] else [])"
| "allocs k n (Node _ l r) = allocs k (n div 2) l @ allocs (k + n div 2) (n div 2) r"

fun ctx_allocs :: "nat \<Rightarrow> step list \<Rightarrow> block list" where
  "ctx_allocs m [] = []"
| "ctx_allocs m (InLeft p r # cs) =
     allocs (off_at m cs + size_at m (Suc (length cs))) (size_at m (Suc (length cs))) r @ ctx_allocs m cs"
| "ctx_allocs m (InRight p l # cs) = allocs (off_at m cs) (size_at m (Suc (length cs))) l @ ctx_allocs m cs"

lemma allocs_plug:
  "mset (allocs 0 m (plug cs t)) =
     mset (allocs (off_at m cs) (size_at m (length cs)) t) + mset (ctx_allocs m cs)"
proof (induction cs arbitrary: t)
  case Nil
  then show ?case by (simp add: size_at_def)
next
  case (Cons c cs)
  then show ?case by (cases c) simp_all
qed

fun is_free :: "btree \<Rightarrow> bool" where
  "is_free (Leaf _ q) = (q = LFree)"
| "is_free (Node _ _ _) = False"

fun coalesced :: "btree \<Rightarrow> bool" where
  "coalesced (Leaf _ _) = True"
| "coalesced (Node _ l r) = (\<not> (is_free l \<and> is_free r) \<and> coalesced l \<and> coalesced r)"

fun ctx_coalesced :: "bool \<Rightarrow> step list \<Rightarrow> bool" where
  "ctx_coalesced f [] = True"
| "ctx_coalesced f (c # cs) = (\<not> (f \<and> is_free (sibling c)) \<and> coalesced (sibling c) \<and> ctx_coalesced False cs)"

lemma coalesced_plug: "coalesced (plug cs t) \<longleftrightarrow> coalesced t \<and> ctx_coalesced (is_free t) cs"
proof (induction cs arbitrary: t)
  case (Cons c cs)
  then show ?case by (cases c) auto
qed simp

lemma ctx_coalesced_mono: "ctx_coalesced f cs \<Longrightarrow> ctx_coalesced False cs"
  by (cases cs) auto

lemma settled_plug: "settled (plug cs t) \<longleftrightarrow> settled t \<and> list_all (\<lambda>c. settled (sibling c)) cs"
proof (induction cs arbitrary: t)
  case (Cons c cs)
  then show ?case by (cases c) auto
qed simp

lemma no_allocs_free: "coalesced t \<Longrightarrow> settled t \<Longrightarrow> allocs k n t = [] \<Longrightarrow> is_free t"
proof (induction t arbitrary: k n)
  case (Leaf p q)
  then show ?case by (cases q) auto
qed fastforce

section \<open>Where the blocks lie\<close>

lemma allocs_range: "b \<in> set (allocs k n t) \<Longrightarrow> k \<le> fst b \<and> fst b + snd b \<le> k + n"
proof (induction t arbitrary: k n)
  case (Node p l r)
  then have "b \<in> set (allocs k (n div 2) l) \<or> b \<in> set (allocs (k + n div 2) (n div 2) r)" by simp
  with Node.IH [of k "n div 2"] Node.IH(2) [of "k + n div 2" "n div 2"] show ?case by auto
qed (auto split: if_splits)

lemma allocs_apart: "pairwise_apart (allocs k n t)"
proof (induction t arbitrary: k n)
  case (Node p l r)
  have "apart b c" if "b \<in> set (allocs k (n div 2) l)" "c \<in> set (allocs (k + n div 2) (n div 2) r)" for b c
    using allocs_range [OF that(1)] allocs_range [OF that(2)] by (auto simp: apart_def)
  with Node show ?case by (simp add: pairwise_apart_append)
qed simp

lemma allocs_sized:
  "height t \<le> d \<Longrightarrow> 2 ^ d dvd k \<Longrightarrow> (o1, n) \<in> set (allocs k (2 ^ d) t) \<Longrightarrow> \<exists>j \<le> d. n = 2 ^ j \<and> n dvd o1"
proof (induction t arbitrary: k d)
  case (Leaf p q)
  then show ?case by (auto split: if_splits)
next
  case (Node p l r)
  then obtain e where d: "d = Suc e" "height l \<le> e" "height r \<le> e" by (cases d) auto
  have k: "2 ^ e dvd k" using Node.prems(2) by (auto simp: d(1) dest: dvd_mult_right)
  have "(o1, n) \<in> set (allocs k (2 ^ e) l) \<or> (o1, n) \<in> set (allocs (k + 2 ^ e) (2 ^ e) r)"
    using Node.prems(3) by (simp add: d(1))
  moreover have "2 ^ e dvd k + 2 ^ e" using k by simp
  ultimately have "\<exists>j \<le> e. n = 2 ^ j \<and> n dvd o1" using Node.IH d k by blast
  then show ?case using d(1) le_SucI by blast
qed

lemma aligned_fits: "(n :: nat) dvd a \<Longrightarrow> n dvd b \<Longrightarrow> a < b \<Longrightarrow> a + n \<le> b"
proof -
  assume "n dvd a" "n dvd b" "a < b"
  then obtain x y where "a = n * x" "b = n * y" "x < y" by (auto elim!: dvdE)
  then have "n * Suc x \<le> n * y" by (intro mult_le_mono2) simp
  then show ?thesis using \<open>a = n * x\<close> \<open>b = n * y\<close> by simp
qed

text \<open>An aligned range that meets no allocated block lies in a free block.\<close>

lemma free_range:
  assumes "coalesced t" "settled t" "height t \<le> d" "j \<le> d" "2 ^ d dvd k" "2 ^ j dvd o1" "k \<le> o1" "o1 + 2 ^ j \<le> k + 2 ^ d"
    "\<forall>b \<in> set (allocs k (2 ^ d) t). apart (o1, 2 ^ j) b"
  shows "\<exists>i \<le> d - j. free_at i t \<noteq> {}"
  using assms
proof (induction t arbitrary: k d)
  case (Leaf p q)
  show ?case
  proof (cases q)
    case LFree
    then show ?thesis by (intro exI [of _ 0]) simp
  next
    case LAlloc
    with Leaf.prems have "apart (o1, 2 ^ j) (k, 2 ^ d)" "0 < (2 :: nat) ^ j" "0 < (2 :: nat) ^ d" by simp_all
    with Leaf.prems(7,8) show ?thesis by (auto simp: apart_def)
  qed (use Leaf.prems in simp)
next
  case (Node p l r)
  then obtain e where d: "d = Suc e" "height l \<le> e" "height r \<le> e" by (cases d) auto
  have half: "2 ^ d = 2 ^ e + (2 :: nat) ^ e" by (simp add: d(1))
  have k: "2 ^ e dvd k" using Node.prems(5) by (auto simp: d(1) dest: dvd_mult_right)
  have all: "\<forall>b \<in> set (allocs k (2 ^ e) l). apart (o1, 2 ^ j) b" "\<forall>b \<in> set (allocs (k + 2 ^ e) (2 ^ e) r). apart (o1, 2 ^ j) b"
    using Node.prems(9) by (simp_all add: d(1))
  show ?case
  proof (cases "j = d")
    case True
    have "b \<notin> set (allocs k (2 ^ d) (Node p l r))" for b
    proof
      assume b: "b \<in> set (allocs k (2 ^ d) (Node p l r))"
      with Node.prems(9) have "apart (o1, 2 ^ j) b" by blast
      moreover note allocs_range [OF b]
      moreover have "o1 = k" using True Node.prems(7,8) by simp
      moreover have "0 < snd b"
        using allocs_sized [OF Node.prems(3,5), of "fst b" "snd b"] b by auto
      ultimately show False using True by (auto simp: apart_def)
    qed
    then have "allocs k (2 ^ d) (Node p l r) = []" using list.set_sel(1) by blast
    from no_allocs_free [OF Node.prems(1,2) this] show ?thesis by simp
  next
    case False
    with Node.prems(4) d(1) have j: "j \<le> e" by simp
    then have dvd: "(2 :: nat) ^ j dvd k + 2 ^ e" using k by (meson dvd_add dvd_trans le_imp_power_dvd)
    have "\<exists>i \<le> e - j. free_at i l \<noteq> {} \<or> free_at i r \<noteq> {}"
    proof (cases "o1 < k + 2 ^ e")
      case True
      then have "o1 + 2 ^ j \<le> k + 2 ^ e" by (rule aligned_fits [OF Node.prems(6) dvd])
      then show ?thesis using Node.IH(1) [of e k] Node.prems d j k all(1) by auto
    next
      case False
      then show ?thesis using Node.IH(2) [of e "k + 2 ^ e"] Node.prems d j k all(2) half by auto
    qed
    then obtain i where "i \<le> e - j" "free_at i l \<noteq> {} \<or> free_at i r \<noteq> {}" by blast
    then show ?thesis using d(1) j by (intro exI [of _ "Suc i"]) auto
  qed
qed

section \<open>Levels\<close>

lemma Log2_pow2: "j < 64 \<Longrightarrow> Log2 (of_nat (2 ^ j)) = ok j"
proof -
  assume j: "j < 64"
  then have u: "unat (2 ^ j :: 64 word) = 2 ^ j" "(2 ^ j :: 64 word) \<noteq> 0" using pow2_word [of j, where 'w = 64] by simp_all
  from Log2_eq [OF u(2)] obtain i where "Log2 (2 ^ j) = ok i" "2 ^ i \<le> unat (2 ^ j :: 64 word)" "unat (2 ^ j :: 64 word) < 2 ^ Suc i"
    by blast
  moreover from this have "i = j" by (intro log_unique [of i "2 ^ j" j]) (simp_all add: u(1))
  ultimately show ?thesis by simp
qed

lemma assert_pow2_ok: "a < 64 \<Longrightarrow> assert_pow2 (of_nat (2 ^ a)) = ok ()"
  using pow2_word [of a, where 'w = 64] by (auto simp: assert_pow2_def IsPowerOfTwo_iff)

lemma ComputeLevel_pow2:
  assumes "bMaxBlockSize st = 2 ^ k" "k < 64" "j \<le> k"
  shows "ComputeLevelFromBlockSize st (2 ^ j) = ok (k - j)"
proof -
  have "(k + (2 ^ 32 - j)) mod 2 ^ 32 = k - j"
  proof -
    have "k + (2 ^ 32 - j) = (k - j) + 2 ^ 32" "k - j < 2 ^ 32" using assms by auto
    then show ?thesis by (simp only: mod_add_self2 mod_less)
  qed
  moreover have "Log2 (of_nat (bMaxBlockSize st)) = ok k" using Log2_pow2 assms by simp
  moreover have "Log2 (of_nat (2 ^ j)) = ok j" using Log2_pow2 assms by simp
  ultimately show ?thesis unfolding ComputeLevelFromBlockSize_def by simp
qed

lemma size_at_pow2: "d \<le> k \<Longrightarrow> size_at (2 ^ k) d = 2 ^ (k - d)"
  by (simp add: size_at_def power_diff)

text \<open>Offsets are multiples of the size of their level.\<close>

lemma off_at_aligned: "length cs \<le> k \<Longrightarrow> 2 ^ (k - length cs) dvd off_at (2 ^ k) cs"
proof (induction cs)
  case (Cons c cs)
  then have "(2 :: nat) ^ (k - length (c # cs)) dvd 2 ^ (k - length cs)" by (intro le_imp_power_dvd) simp
  moreover have "2 ^ (k - length cs) dvd off_at (2 ^ k) cs" using Cons by simp
  ultimately have "2 ^ (k - length (c # cs)) dvd off_at (2 ^ k) cs" by (rule dvd_trans)
  moreover have "size_at (2 ^ k) (Suc (length cs)) = 2 ^ (k - length (c # cs))"
    using Cons.prems by (simp add: size_at_pow2)
  ultimately show ?case by (cases c) simp_all
qed simp

section \<open>Finding a free block\<close>

text \<open>What the head of a free list is.\<close>

lemma core_head:
  assumes "core k st t" "i \<le> k"
  shows "\<exists>head1. vec_at (mFreeLists st) (int i) = ok head1 \<and>
    (case head1 of None \<Rightarrow> free_at i t = {}
     | Some p \<Rightarrow> \<exists>cs b. t = plug cs (Leaf p LFree) \<and> length cs = i \<and> heap st p = Some b \<and> mOffset b = off_at (2 ^ k) cs)"
proof -
  from assms(1) obtain fls where fls: "lists_ok (heap st) (mFreeLists st) fls" "length fls = Suc k"
    "\<forall>i \<le> k. set (fls ! i) = free_at i t" by (auto simp: core_def free_lists_def)
  have i: "i < length fls" using assms(2) fls(2) by simp
  show ?thesis
  proof (cases "fls ! i")
    case Nil
    then show ?thesis using lists_okD(5) [OF fls(1) i] fls(3) assms(2) by auto
  next
    case (Cons p ps)
    then have "p \<in> free_at i t" using fls(3) assms(2) by (metis list.set_intros(1))
    from free_at_position [OF this] obtain cs where cs: "t = plug cs (Leaf p LFree)" "length cs = i" by blast
    with assms(1) obtain b where "heap st p = Some b" "mOffset b = off_at (2 ^ k) cs" by (auto elim: core_leaf)
    with cs Cons show ?thesis using lists_okD(5) [OF fls(1) i] by auto
  qed
qed

text \<open>The search stops at the nearest level whose first free block is aligned.\<close>

definition aligned_head :: "nat \<Rightarrow> buddy \<Rightarrow> btree \<Rightarrow> nat \<Rightarrow> nat \<Rightarrow> bool" where
  "aligned_head k st t al i \<longleftrightarrow> (\<exists>cs p. t = plug cs (Leaf p LFree) \<and> length cs = i \<and>
     vec_at (mFreeLists st) (int i) = ok (Some p) \<and> off_at (2 ^ k) cs mod al = 0)"

lemma next_free_aligned_step:
  assumes "core k st t" "lvl \<le> k"
  shows "(next_free_aligned st al lvl = ok lvl \<and> aligned_head k st t al lvl) \<or>
    (next_free_aligned st al lvl = (if lvl = 0 then ok kInvalidOffset else next_free_aligned st al (lvl - 1)) \<and>
      (al dvd 2 ^ (k - lvl) \<longrightarrow> free_at lvl t = {}))"
proof -
  from core_head [OF assms] obtain head1 where head: "vec_at (mFreeLists st) (int lvl) = ok head1"
    "case head1 of None \<Rightarrow> free_at lvl t = {}
     | Some p \<Rightarrow> \<exists>cs b. t = plug cs (Leaf p LFree) \<and> length cs = lvl \<and> heap st p = Some b \<and> mOffset b = off_at (2 ^ k) cs"
    by blast
  show ?thesis
  proof (cases head1)
    case None
    with head show ?thesis by (subst (1 2) next_free_aligned.simps) simp
  next
    case (Some p)
    with head(2) obtain cs b where cs: "t = plug cs (Leaf p LFree)" "length cs = lvl" "heap st p = Some b"
      "mOffset b = off_at (2 ^ k) cs" by auto
    show ?thesis
    proof (cases "off_at (2 ^ k) cs mod al = 0")
      case True
      with cs head(1) Some have "aligned_head k st t al lvl" unfolding aligned_head_def
        by (intro exI [of _ cs] exI [of _ p]) simp
      moreover have "next_free_aligned st al lvl = ok lvl"
        using True cs head(1) Some by (subst next_free_aligned.simps) simp
      ultimately show ?thesis by blast
    next
      case False
      then have "\<not> al dvd 2 ^ (k - lvl)"
        using off_at_aligned [of cs k] cs(2) assms(2) by (metis dvd_eq_mod_eq_0 dvd_trans)
      with False cs head(1) Some show ?thesis by (subst (2) next_free_aligned.simps) simp
    qed
  qed
qed

lemma next_free_aligned_cases:
  assumes "core k st t" "lvl \<le> k"
  shows "(next_free_aligned st al lvl = ok kInvalidOffset \<and>
      (\<forall>i \<le> lvl. al dvd 2 ^ (k - i) \<longrightarrow> free_at i t = {})) \<or>
    (\<exists>i \<le> lvl. next_free_aligned st al lvl = ok i \<and> aligned_head k st t al i)"
  using assms(2)
proof (induction lvl)
  case 0
  then show ?case using next_free_aligned_step [OF assms(1), of 0 al] by auto
next
  case (Suc lvl)
  from next_free_aligned_step [OF assms(1) Suc.prems, of al]
  consider (here) "next_free_aligned st al (Suc lvl) = ok (Suc lvl)" "aligned_head k st t al (Suc lvl)"
    | (down) "next_free_aligned st al (Suc lvl) = next_free_aligned st al lvl" "al dvd 2 ^ (k - Suc lvl) \<longrightarrow> free_at (Suc lvl) t = {}"
    by auto
  then show ?case
  proof cases
    case here
    then show ?thesis by blast
  next
    case down
    with Suc show ?thesis by (auto simp: le_Suc_eq)
  qed
qed

section \<open>Allocation\<close>

text \<open>The steps that splitting leaves behind: the right half of each split block is free.\<close>

definition split_steps :: "step list \<Rightarrow> bool" where
  "split_steps ds \<longleftrightarrow> list_all (\<lambda>c. case c of InLeft _ r \<Rightarrow> is_free r | InRight _ _ \<Rightarrow> False) ds"

lemma split_steps_Cons [simp]:
  "split_steps (c # ds) \<longleftrightarrow> (\<exists>p q. c = InLeft p (Leaf q LFree)) \<and> split_steps ds"
  by (auto simp: split_steps_def split: step.splits elim: is_free.elims)

lemma split_steps_ctx:
  assumes "split_steps ds"
  shows "off_at m (ds @ cs) = off_at m cs" "ctx_allocs m (ds @ cs) = ctx_allocs m cs"
    "ctx_coalesced False (ds @ cs) = ctx_coalesced False cs"
    "list_all (\<lambda>c. settled (sibling c)) ds"
  using assms by (induction ds) auto

lemma split_down_core:
  assumes "core k st (plug cs (Leaf p LFree))" "length cs + todo \<le> k"
  shows "\<exists>p' ds st'. split_down todo p (length cs) st = ok (p', st') \<and>
    core k st' (plug (ds @ cs) (Leaf p' LFree)) \<and> length ds = todo \<and> split_steps ds"
  using assms
proof (induction todo arbitrary: cs p st)
  case 0
  then show ?case by (intro exI [of _ p] exI [of _ "[]"] exI [of _ st]) (simp add: split_steps_def)
next
  case (Suc todo)
  from core_split [OF Suc.prems(1)] Suc.prems(2) obtain l r st1 where
    st1: "split_block p (length cs) st = ok (l, st1)" "core k st1 (plug (InLeft p (Leaf r LFree) # cs) (Leaf l LFree))"
    by auto
  from Suc.IH [OF st1(2)] Suc.prems(2) obtain p' ds st' where
    "split_down todo l (Suc (length cs)) st1 = ok (p', st')"
    "core k st' (plug (ds @ InLeft p (Leaf r LFree) # cs) (Leaf p' LFree))" "length ds = todo" "split_steps ds" by auto
  moreover from this have "split_steps (ds @ [InLeft p (Leaf r LFree)])" by (simp add: split_steps_def)
  ultimately show ?case
    using st1(1) by (intro exI [of _ p'] exI [of _ "ds @ [InLeft p (Leaf r LFree)]"] exI [of _ st']) simp
qed

definition buddy_inv :: "nat \<Rightarrow> buddy \<Rightarrow> btree \<Rightarrow> bool" where
  "buddy_inv k st t \<longleftrightarrow> core k st t \<and> settled t \<and> coalesced t"

lemma off_at_valid: "length cs \<le> k \<Longrightarrow> k < 64 \<Longrightarrow> off_at (2 ^ k) cs < kInvalidOffset"
proof -
  assume "length cs \<le> k" "k < 64"
  then have "off_at (2 ^ k) cs + 2 ^ (k - length cs) \<le> 2 ^ k" using off_at_bound [of k cs] by (simp add: size_at_pow2)
  moreover have "(2 :: nat) ^ k \<le> 2 ^ 63" using \<open>k < 64\<close> by (intro power_increasing) auto
  ultimately show ?thesis by (simp add: kInvalidOffset_def)
qed

lemma core_allocate_at:
  assumes "buddy_inv k st (plug cs (Leaf p LFree))" "length cs + todo \<le> k"
  shows "\<exists>p' st1 st2 b t'. split_down todo p (length cs) st = ok (p', st1) \<and>
    RemoveFreeBlock p' (length cs + todo) st1 = ok st2 \<and> heap st2 p' = Some b \<and> mOffset b = off_at (2 ^ k) cs \<and>
    buddy_inv k (st2\<lparr> heap := (heap st2)(p' \<mapsto> b\<lparr> mState := Allocated \<rparr>) \<rparr>) t' \<and>
    mset (allocs 0 (2 ^ k) t') =
      add_mset (off_at (2 ^ k) cs, 2 ^ (k - (length cs + todo))) (mset (allocs 0 (2 ^ k) (plug cs (Leaf p LFree))))"
proof -
  have inv: "core k st (plug cs (Leaf p LFree))" "settled (plug cs (Leaf p LFree))" "coalesced (plug cs (Leaf p LFree))"
    using assms(1) by (auto simp: buddy_inv_def)
  from split_down_core [OF inv(1) assms(2)] obtain p' ds st1 where
    st1: "split_down todo p (length cs) st = ok (p', st1)" "core k st1 (plug (ds @ cs) (Leaf p' LFree))"
      "length ds = todo" "split_steps ds" by blast
  from core_remove [OF st1(2)] obtain st2 where
    st2: "RemoveFreeBlock p' (length (ds @ cs)) st1 = ok st2" "core k st2 (plug (ds @ cs) (Leaf p' LPending))" by blast
  from st2(2) obtain b where b: "heap st2 p' = Some b" "mOffset b = off_at (2 ^ k) (ds @ cs)" by (rule core_leaf)
  let ?t = "plug (ds @ cs) (Leaf p' LAlloc)" and ?st = "st2\<lparr> heap := (heap st2)(p' \<mapsto> b\<lparr> mState := Allocated \<rparr>) \<rparr>"
  note ctx = split_steps_ctx [OF st1(4)]
  have "ctx_coalesced False cs" using inv(3) ctx_coalesced_mono by (simp add: coalesced_plug)
  then have "buddy_inv k ?st ?t"
    using core_mark [OF st2(2) b(1), of LAlloc Allocated] inv(2) ctx(3,4) by (simp add: buddy_inv_def settled_plug coalesced_plug)
  moreover have "mset (allocs 0 (2 ^ k) ?t) =
      add_mset (off_at (2 ^ k) cs, 2 ^ (k - (length cs + todo))) (mset (allocs 0 (2 ^ k) (plug cs (Leaf p LFree))))"
    using assms(2) st1(3) by (simp add: allocs_plug ctx(1,2) size_at_pow2 add.commute)
  moreover have "RemoveFreeBlock p' (length cs + todo) st1 = ok st2" using st2(1) st1(3) by (simp add: add.commute)
  ultimately show ?thesis using st1(1) b by (auto simp: ctx(1))
qed

lemma Buddy_Allocate_spec:
  assumes "buddy_inv k st t" "j \<le> k" "a < 64"
  shows "(Buddy_Allocate (2 ^ j) (2 ^ a) st = ok (kInvalidOffset, st) \<and>
      (\<forall>i \<le> k - j. a \<le> k - i \<longrightarrow> free_at i t = {})) \<or>
    (\<exists>o1 st' t'. Buddy_Allocate (2 ^ j) (2 ^ a) st = ok (o1, st') \<and> o1 \<noteq> kInvalidOffset \<and> 2 ^ a dvd o1 \<and>
      buddy_inv k st' t' \<and> mset (allocs 0 (2 ^ k) t') = add_mset (o1, 2 ^ j) (mset (allocs 0 (2 ^ k) t)))"
proof -
  have core: "core k st t" using assms(1) by (simp add: buddy_inv_def)
  then have m: "bMaxBlockSize st = 2 ^ k" "k < 64" by (simp_all add: core_def)
  obtain fls where "lists_ok (heap st) (mFreeLists st) fls" "length fls = Suc k"
    using core by (auto simp: core_def free_lists_def)
  then have len: "length (mFreeLists st) = Suc k" by (simp add: lists_ok_def)
  have "(2 :: nat) ^ j \<le> 2 ^ k" using assms(2) by (intro power_increasing) auto
  then have run: "Buddy_Allocate (2 ^ j) (2 ^ a) st =
      bindR (next_free_aligned st (2 ^ a) (k - j)) (\<lambda>i.
        if i = kInvalidOffset then ok (kInvalidOffset, st)
        else bindR (vec_at (mFreeLists st) (int i)) (\<lambda>head1.
          bindR (deref_opt (heap st) head1) (\<lambda>(currBlock, _).
          bindR (split_down (k - j - i) currBlock i st) (\<lambda>(block, st1).
          bindR (RemoveFreeBlock block (max (k - j) i) st1) (\<lambda>st2.
          bindR (deref (heap st2) block) (\<lambda>b.
            ok (mOffset b, st2\<lparr> heap := (heap st2)(block \<mapsto> b\<lparr> mState := Allocated \<rparr>) \<rparr>)))))))"
    using ComputeLevel_pow2 [OF m assms(2)] len assert_pow2_ok [OF assms(3)]
    by (simp add: Buddy_Allocate_def GetNextFreeAlignedBlock_def m(1))
  have "k - j \<le> k" by simp
  from next_free_aligned_cases [OF core this, of "2 ^ a"] show ?thesis
  proof
    assume "next_free_aligned st (2 ^ a) (k - j) = ok kInvalidOffset \<and>
      (\<forall>i \<le> k - j. 2 ^ a dvd (2 :: nat) ^ (k - i) \<longrightarrow> free_at i t = {})"
    then show ?thesis unfolding run by (simp add: le_imp_power_dvd)
  next
    assume "\<exists>i \<le> k - j. next_free_aligned st (2 ^ a) (k - j) = ok i \<and> aligned_head k st t (2 ^ a) i"
    then obtain cs p where i: "next_free_aligned st (2 ^ a) (k - j) = ok (length cs)" "length cs \<le> k - j"
      "t = plug cs (Leaf p LFree)" "vec_at (mFreeLists st) (int (length cs)) = ok (Some p)"
      "off_at (2 ^ k) cs mod 2 ^ a = 0" by (auto simp: aligned_head_def)
    have sum: "length cs + (k - j - length cs) = k - j" using i(2) by simp
    obtain pb where pb: "heap st p = Some pb" using core i(3) by (auto elim: core_leaf)
    have "k - j < kInvalidOffset" using m(2) by (simp add: kInvalidOffset_def)
    then have inval: "length cs \<noteq> kInvalidOffset" "max (k - j) (length cs) = k - j" using i(2) by auto
    from core_allocate_at [of k st cs p "k - j - length cs"] assms(1) i(2,3) sum obtain p' st1 st2 b t' where
      at: "split_down (k - j - length cs) p (length cs) st = ok (p', st1)" "RemoveFreeBlock p' (k - j) st1 = ok st2"
        "heap st2 p' = Some b" "mOffset b = off_at (2 ^ k) cs"
        "buddy_inv k (st2\<lparr> heap := (heap st2)(p' \<mapsto> b\<lparr> mState := Allocated \<rparr>) \<rparr>) t'"
        "mset (allocs 0 (2 ^ k) t') = add_mset (off_at (2 ^ k) cs, 2 ^ (k - (k - j))) (mset (allocs 0 (2 ^ k) t))"
      by auto
    have "Buddy_Allocate (2 ^ j) (2 ^ a) st =
        ok (off_at (2 ^ k) cs, st2\<lparr> heap := (heap st2)(p' \<mapsto> b\<lparr> mState := Allocated \<rparr>) \<rparr>)"
      unfolding run using i at(1-4) pb inval by simp
    moreover have "length cs \<le> k" using i(2) by linarith
    then have "off_at (2 ^ k) cs \<noteq> kInvalidOffset" using off_at_valid [of cs k] m(2) by simp
    ultimately show ?thesis using at(5,6) i(5) assms(2) by auto
  qed
qed

section \<open>Deallocation\<close>

lemma allocs_position:
  "b \<in> set (allocs 0 m t) \<Longrightarrow>
     \<exists>cs p. t = plug cs (Leaf p LAlloc) \<and> fst b = off_at m cs \<and> snd b = size_at m (length cs)"
proof -
  have "b \<in> set (allocs (off_at m cs) (size_at m (length cs)) t) \<Longrightarrow>
      \<exists>ds p. t = plug ds (Leaf p LAlloc) \<and> fst b = off_at m (ds @ cs) \<and> snd b = size_at m (length (ds @ cs))" for cs
  proof (induction t arbitrary: cs)
    case (Leaf p q)
    then show ?case by (intro exI [of _ "[]"] exI [of _ p]) (auto split: if_splits)
  next
    case (Node q l r)
    then consider "b \<in> set (allocs (off_at m (InLeft q r # cs)) (size_at m (length (InLeft q r # cs))) l)"
      | "b \<in> set (allocs (off_at m (InRight q l # cs)) (size_at m (length (InRight q l # cs))) r)" by auto
    then show ?case
    proof cases
      case 1
      from Node.IH(1) [OF this] obtain ds p where "l = plug ds (Leaf p LAlloc)"
        "fst b = off_at m (ds @ InLeft q r # cs)" "snd b = size_at m (length (ds @ InLeft q r # cs))" by blast
      then show ?thesis by (intro exI [of _ "ds @ [InLeft q r]"] exI [of _ p]) (simp add: plug_append)
    next
      case 2
      from Node.IH(2) [OF this] obtain ds p where "r = plug ds (Leaf p LAlloc)"
        "fst b = off_at m (ds @ InRight q l # cs)" "snd b = size_at m (length (ds @ InRight q l # cs))" by blast
      then show ?thesis by (intro exI [of _ "ds @ [InRight q l]"] exI [of _ p]) (simp add: plug_append)
    qed
  qed
  from this [of "[]"] show "b \<in> set (allocs 0 m t) \<Longrightarrow> ?thesis" by (simp add: size_at_def)
qed

text \<open>The two children of a split block.\<close>

lemma rep_children:
  assumes "rep h par bud k n (Node p l r)"
  obtains b rb where "h p = Some b" "mState b = Split" "left_link b = ok (root l)"
    "right_child h b = ok (root r, rb)" "mOffset rb = k + n div 2"
proof -
  from assms obtain b where b: "h p = Some b" "mState b = Split" "links b = SplitLink (root l)"
    by (auto simp: block_at_def split_to_def)
  obtain lb where lb: "h (root l) = Some lb" "pBuddy lb = Some (root r)"
    by (rule rep_root [of h "Some p" "Some (root r)" k "n div 2" l]) (use assms in simp)
  obtain rb where rb: "h (root r) = Some rb" "mOffset rb = k + n div 2"
    by (rule rep_root [of h "Some p" "Some (root l)" "k + n div 2" "n div 2" r]) (use assms in simp)
  show thesis using b lb rb by (intro that [of b rb]) (simp_all add: left_link_def right_child_def)
qed

lemma off_at_within:
  "off_at m es \<le> off_at m (ds @ es) \<and>
   off_at m (ds @ es) + size_at m (length (ds @ es)) \<le> off_at m es + size_at m (length es)"
proof (induction ds)
  case (Cons d ds)
  have "2 * size_at m (Suc (length (ds @ es))) \<le> size_at m (length (ds @ es))"
    using size_at_Suc [of m "length (ds @ es)"] by linarith
  with Cons show ?case by (cases d) auto
qed simp

lemma find_block_leaf:
  assumes "rep_here m h es (plug ds (Leaf p q))" "0 < size_at m (length (ds @ es))"
  shows "find_block h (off_at m (ds @ es)) (root (plug ds (Leaf p q))) (length es) = Some (ok (p, length (ds @ es)))"
  using assms
proof (induction ds arbitrary: es rule: rev_induct)
  case Nil
  then obtain b where "h p = Some b" "mState b \<noteq> Split"
    by (cases q) (auto simp: rep_here_def block_at_def)
  then show ?case by (subst find_block.simps) simp
next
  case (snoc c ds)
  let ?t = "plug ds (Leaf p q)"
  have IH: "rep_here m h (c # es) ?t \<Longrightarrow> find_block h (off_at m (ds @ c # es)) (root ?t) (Suc (length es)) =
      Some (ok (p, length (ds @ c # es)))" using snoc.IH [of "c # es"] snoc.prems(2) by simp
  note within = off_at_within [of m "c # es" ds]
  show ?case
  proof (cases c)
    case (InLeft P r)
    with snoc.prems(1) have rep: "rep h (parent_of es) (buddy_of es) (off_at m es) (size_at m (length es)) (Node P ?t r)"
      by (simp add: rep_here_def plug_append)
    then obtain b rb where b: "h P = Some b" "mState b = Split" "left_link b = ok (root ?t)"
      "right_child h b = ok (root r, rb)" "mOffset rb = off_at m es + size_at m (length es) div 2" by (rule rep_children)
    have "off_at m (ds @ c # es) < mOffset rb" using within snoc.prems(2) InLeft b(5) by simp
    then have "find_block h (off_at m (ds @ c # es)) P (length es) =
        find_block h (off_at m (ds @ c # es)) (root ?t) (Suc (length es))"
      using b by (subst find_block.simps) simp
    then show ?thesis using IH rep InLeft by (simp add: rep_here_def plug_append)
  next
    case (InRight P l)
    with snoc.prems(1) have rep: "rep h (parent_of es) (buddy_of es) (off_at m es) (size_at m (length es)) (Node P l ?t)"
      by (simp add: rep_here_def plug_append)
    then obtain b rb where b: "h P = Some b" "mState b = Split" "left_link b = ok (root l)"
      "right_child h b = ok (root ?t, rb)" "mOffset rb = off_at m es + size_at m (length es) div 2" by (rule rep_children)
    have "\<not> off_at m (ds @ c # es) < mOffset rb" using within InRight b(5) by simp
    then have "find_block h (off_at m (ds @ c # es)) P (length es) =
        find_block h (off_at m (ds @ c # es)) (root ?t) (Suc (length es))"
      using b by (subst find_block.simps) simp
    then show ?thesis using IH rep InRight by (simp add: rep_here_def plug_append)
  qed
qed

text \<open>Merging keeps the allocated blocks and ends where the buddy is in use.\<close>

lemma merge_up_core:
  assumes "core k st (plug cs (Leaf p LPending))" "list_all (\<lambda>c. settled (sibling c)) cs" "ctx_coalesced False cs"
  shows "\<exists>cs' p' st'. merge_up (length cs) p st = Some (ok (p', length cs', st')) \<and>
    core k st' (plug cs' (Leaf p' LPending)) \<and> list_all (\<lambda>c. settled (sibling c)) cs' \<and> ctx_coalesced True cs' \<and>
    ctx_allocs (2 ^ k) cs' = ctx_allocs (2 ^ k) cs"
  using assms
proof (induction cs arbitrary: p st)
  case Nil
  then show ?case by (intro exI [of _ "[]"] exI [of _ p] exI [of _ st]) simp
next
  case (Cons c cs)
  show ?case
  proof (cases "\<exists>q. sibling c = Leaf q LFree")
    case True
    then obtain q where q: "sibling c = Leaf q LFree" by blast
    from core_merge [OF Cons.prems(1) q] obtain st1 where
      st1: "merge_up (Suc (length cs)) p st = merge_up (length cs) (parent c) st1" "core k st1 (plug cs (Leaf (parent c) LPending))"
      by blast
    have "ctx_allocs (2 ^ k) (c # cs) = ctx_allocs (2 ^ k) cs" using q by (cases c) auto
    with Cons.IH [OF st1(2)] Cons.prems(2,3) st1(1) show ?thesis by simp
  next
    case False
    then have "\<not> is_free (sibling c)" by (auto elim: is_free.elims)
    with core_merge_stop [OF Cons.prems(1)] False Cons.prems show ?thesis
      by (intro exI [of _ "c # cs"] exI [of _ p] exI [of _ st]) simp
  qed
qed

lemma Buddy_Deallocate_spec:
  assumes "buddy_inv k st t" "(o1, n) \<in> set (allocs 0 (2 ^ k) t)"
  shows "\<exists>st' t'. Buddy_Deallocate o1 st = Some (ok st') \<and> buddy_inv k st' t' \<and>
    mset (allocs 0 (2 ^ k) t) = add_mset (o1, n) (mset (allocs 0 (2 ^ k) t'))"
proof -
  from allocs_position [OF assms(2)] obtain cs p where pos: "t = plug cs (Leaf p LAlloc)" "o1 = off_at (2 ^ k) cs"
    "n = size_at (2 ^ k) (length cs)" by auto
  have inv: "core k st (plug cs (Leaf p LAlloc))" "list_all (\<lambda>c. settled (sibling c)) cs" "ctx_coalesced False cs"
    using assms(1) by (simp_all add: buddy_inv_def pos settled_plug coalesced_plug)
  note c = core_ctx [OF inv(1)]
  have len: "length cs \<le> k" using c(3) by simp
  from inv(1) obtain b where "heap st p = Some b" "mSize b = size_at (2 ^ k) (length cs)" "mState b = kind_state LAlloc"
    by (rule core_leaf)
  then have b: "heap st p = Some b" "mSize b = 2 ^ (k - length cs)" "mState b = Allocated"
    using len by (simp_all add: size_at_pow2)
  have "find_block (heap st) o1 (mRoot st) 0 = Some (ok (p, length cs))"
    using find_block_leaf [of "2 ^ k" "heap st" "[]" cs p LAlloc] inv(1) len
    by (simp add: core_def rep_here_def size_at_pow2 pos(2))
  moreover have "ComputeLevelFromBlockSize st (mSize b) = ok (length cs)"
    using ComputeLevel_pow2 [OF c(2,1), of "k - length cs"] len by (simp add: b(2))
  moreover have "core k (st\<lparr> heap := (heap st)(p \<mapsto> b\<lparr> mState := Free \<rparr>) \<rparr>) (plug cs (Leaf p LPending))"
    using core_mark [OF inv(1) b(1), of LPending Free] by simp
  from merge_up_core [OF this inv(2,3)] obtain cs' p' st2 where
    m: "merge_up (length cs) p (st\<lparr> heap := (heap st)(p \<mapsto> b\<lparr> mState := Free \<rparr>) \<rparr>) = Some (ok (p', length cs', st2))"
      "core k st2 (plug cs' (Leaf p' LPending))" "list_all (\<lambda>c. settled (sibling c)) cs'" "ctx_coalesced True cs'"
      "ctx_allocs (2 ^ k) cs' = ctx_allocs (2 ^ k) cs" by blast
  from core_insert [OF m(2)] obtain st' where
    st': "InsertFreeBlock p' (length cs') st2 = ok st'" "core k st' (plug cs' (Leaf p' LFree))" by blast
  ultimately have "Buddy_Deallocate o1 st = Some (ok st')"
    using b by (simp add: Buddy_Deallocate_def m(1))
  moreover have "buddy_inv k st' (plug cs' (Leaf p' LFree))"
    using st'(2) m(3,4) by (simp add: buddy_inv_def settled_plug coalesced_plug)
  moreover have "mset (allocs 0 (2 ^ k) t) = add_mset (o1, n) (mset (allocs 0 (2 ^ k) (plug cs' (Leaf p' LFree))))"
    by (simp add: pos allocs_plug m(5))
  ultimately show ?thesis by blast
qed

section \<open>Runs\<close>

lemma pairwise_apart_move: "pairwise_apart (xs @ b # ys) \<longleftrightarrow> pairwise_apart (b # xs @ ys)"
  by (auto simp: pairwise_apart_append list_all_iff apart_sym)

lemma pairwise_apart_mset: "mset xs = mset ys \<Longrightarrow> pairwise_apart xs \<Longrightarrow> pairwise_apart ys"
proof (induction xs arbitrary: ys)
  case (Cons b xs)
  then have "b \<in> set ys" by (metis list.set_intros(1) set_mset_mset)
  then obtain us vs where ys: "ys = us @ b # vs" by (meson split_list)
  with Cons.prems(1) have m: "mset xs = mset (us @ vs)" by simp
  have "set xs = set us \<union> set vs" using m by (metis set_append set_mset_mset)
  with Cons.IH [OF m] Cons.prems(2) show ?case unfolding ys pairwise_apart_move by (simp add: list_all_iff)
qed simp

text \<open>The initial state: one free block.\<close>

lemma BuddyAllocator_inv:
  assumes "k < 64"
  shows "\<exists>st. BuddyAllocator (2 ^ k) = ok st \<and> buddy_inv k st (Leaf 0 LFree)"
proof -
  let ?h = "(\<lambda>_. None)(0 \<mapsto> BuddyBlock (2 ^ k) 0) :: store" and ?heads = "(replicate (k + 1) None)[0 := Some 0] :: nat option list"
  let ?st = "\<lparr> heap = ?h, fresh = 1, mRoot = 0, bMaxBlockSize = 2 ^ k, mFreeLists = ?heads \<rparr>"
  let ?fls = "(replicate (k + 1) [])[0 := [0]] :: nat list list"
  have "BuddyAllocator (2 ^ k) = ok ?st"
    using assert_pow2_ok [OF assms] Log2_pow2 [OF assms] by (simp add: BuddyAllocator_def)
  moreover have "lists_ok ?h ?heads ?fls"
  proof -
    have "?fls ! i = (if i = 0 then [0] else [])" "?heads ! i = (if i = 0 then Some 0 else None)" if "i < Suc k" for i
      using that by (cases i; simp)+
    then show ?thesis unfolding lists_ok_def by (simp add: BuddyBlock_def) blast
  qed
  moreover have "set (?fls ! i) = free_at i (Leaf 0 LFree)" if "i \<le> k" for i
    using that by (cases i) auto
  ultimately have "BuddyAllocator (2 ^ k) = ok ?st" "free_lists k ?st (Leaf 0 LFree)"
    unfolding free_lists_def by (auto intro!: exI [of _ ?fls])
  moreover have "rep ?h None None 0 (2 ^ k) (Leaf 0 LFree)" by (simp add: block_at_def BuddyBlock_def)
  ultimately show ?thesis using assms by (auto simp: buddy_inv_def core_def)
qed

text \<open>The states a buddy system of \<open>2 ^ k\<close> bytes reaches, with the blocks its clients hold. As the
  header of the allocator asks, clients request powers of two.\<close>

inductive buddy_run :: "nat \<Rightarrow> buddy \<Rightarrow> block list \<Rightarrow> bool" where
  buddy_start: "BuddyAllocator (2 ^ k) = ok st \<Longrightarrow> buddy_run k st []"
| buddy_alloc: "buddy_run k st live \<Longrightarrow> j < 64 \<Longrightarrow> a < 64 \<Longrightarrow> Buddy_Allocate (2 ^ j) (2 ^ a) st = ok (o1, st') \<Longrightarrow>
    buddy_run k st' (if o1 = kInvalidOffset then live else live @ [(o1, 2 ^ j)])"
| buddy_dealloc: "buddy_run k st live \<Longrightarrow> (o1, n) \<in> set live \<Longrightarrow> Buddy_Deallocate o1 st = Some (ok st') \<Longrightarrow>
    buddy_run k st' (remove1 (o1, n) live)"

lemma Buddy_Allocate_large:
  assumes "buddy_inv k st t" "k < j"
  shows "Buddy_Allocate (2 ^ j) al st = ok (kInvalidOffset, st)"
proof -
  have "(2 :: nat) ^ k < 2 ^ j" using assms(2) by (intro power_strict_increasing) auto
  then show ?thesis using assms(1) by (simp add: Buddy_Allocate_def buddy_inv_def core_def)
qed

lemma buddy_run_inv:
  assumes "buddy_run k st live" "k < 64"
  shows "\<exists>t. buddy_inv k st t \<and> mset (allocs 0 (2 ^ k) t) = mset live"
  using assms
proof (induction rule: buddy_run.induct)
  case (buddy_start k st)
  then show ?case using BuddyAllocator_inv [of k] by (auto intro!: exI [of _ "Leaf 0 LFree"])
next
  case (buddy_alloc k st live j a o1 st')
  then obtain t where t: "buddy_inv k st t" "mset (allocs 0 (2 ^ k) t) = mset live" by blast
  show ?case
  proof (cases "j \<le> k")
    case True
    from Buddy_Allocate_spec [OF t(1) True buddy_alloc.hyps(3)] buddy_alloc.hyps(4) t show ?thesis by auto
  next
    case False
    then have "k < j" by simp
    from Buddy_Allocate_large [OF t(1) this, of "2 ^ a"] buddy_alloc.hyps(4) t show ?thesis by auto
  qed
next
  case (buddy_dealloc k st live o1 n st')
  then obtain t where t: "buddy_inv k st t" "mset (allocs 0 (2 ^ k) t) = mset live" by blast
  then have "(o1, n) \<in> set (allocs 0 (2 ^ k) t)" using buddy_dealloc.hyps(2) by (metis set_mset_mset)
  from Buddy_Deallocate_spec [OF t(1) this] buddy_dealloc.hyps(3) obtain t' where
    "buddy_inv k st' t'" "mset (allocs 0 (2 ^ k) t) = add_mset (o1, n) (mset (allocs 0 (2 ^ k) t'))" by auto
  then show ?case using t(2) by (intro exI [of _ t']) (metis add_mset_remove_trivial mset_remove1)
qed

lemma buddy_run_blocks:
  assumes "buddy_run k st live" "k < 64"
  shows "\<forall>(o1, n) \<in> set live. o1 + n \<le> 2 ^ k \<and> n dvd o1 \<and> 0 < n" "pairwise_apart live"
proof -
  from buddy_run_inv [OF assms] obtain t where t: "buddy_inv k st t" "mset (allocs 0 (2 ^ k) t) = mset live" by blast
  then have set: "set live = set (allocs 0 (2 ^ k) t)" by (metis set_mset_mset)
  have "height t \<le> k" using t(1) by (simp add: buddy_inv_def core_def)
  from allocs_sized [OF this, of 0] show "\<forall>(o1, n) \<in> set live. o1 + n \<le> 2 ^ k \<and> n dvd o1 \<and> 0 < n"
    using allocs_range [of _ 0 "2 ^ k" t] by (fastforce simp: set)
  show "pairwise_apart live" using t(2) allocs_apart by (rule pairwise_apart_mset)
qed

interpretation buddy_alloc: range_allocator
  "\<lambda>(k, st, live). k < 64 \<and> buddy_run k st live" "\<lambda>(k, st, live). live" "\<lambda>(k, st, live). 2 ^ k"
  by unfold_locales (fastforce dest: buddy_run_blocks)+

text \<open>
  C16. In every state a buddy system reaches, the blocks its clients hold lie inside the managed
  range, do not overlap and are aligned to their size; no request and no release of a held block
  runs into undefined behaviour, fails to return or follows a dangling pointer; a refused
  request changes nothing; and the sizes held never exceed the managed range.
\<close>

theorem buddy_run_safe:
  assumes "buddy_run k st live" "k < 64"
  shows "(\<forall>(o1, n) \<in> set live. o1 + n \<le> 2 ^ k \<and> n dvd o1) \<and> pairwise_apart live \<and>
    sum_list (map snd live) \<le> 2 ^ k \<and>
    (\<forall>j a. a < 64 \<longrightarrow> (\<exists>o1 st'. Buddy_Allocate (2 ^ j) (2 ^ a) st = ok (o1, st') \<and>
       (if o1 = kInvalidOffset then st' = st else 2 ^ a dvd o1))) \<and>
    (\<forall>(o1, n) \<in> set live. \<exists>st'. Buddy_Deallocate o1 st = Some (ok st'))"
proof -
  from buddy_run_inv [OF assms] obtain t where t: "buddy_inv k st t" "mset (allocs 0 (2 ^ k) t) = mset live" by blast
  then have set: "set live = set (allocs 0 (2 ^ k) t)" by (metis set_mset_mset)
  have alloc: "\<exists>o1 st'. Buddy_Allocate (2 ^ j) (2 ^ a) st = ok (o1, st') \<and> (if o1 = kInvalidOffset then st' = st else 2 ^ a dvd o1)"
    if "a < 64" for j a
    using Buddy_Allocate_spec [OF t(1) _ that, of j] Buddy_Allocate_large [OF t(1), of j] by (cases "j \<le> k") auto
  have dealloc: "\<exists>st'. Buddy_Deallocate o1 st = Some (ok st')" if "(o1, n) \<in> set live" for o1 n
    using Buddy_Deallocate_spec [OF t(1)] that by (fastforce simp: set)
  show ?thesis
    using buddy_run_blocks [OF assms] buddy_alloc.no_overcommit [of "(k, st, live)"] assms alloc dealloc by auto
qed

lemma buddy_first_block:
  "\<exists>st o1. buddy_run 5 st [(o1, 8)] \<and> o1 \<noteq> kInvalidOffset"
proof -
  obtain st where st: "BuddyAllocator (2 ^ 5) = ok st" "buddy_inv 5 st (Leaf 0 LFree)"
    using BuddyAllocator_inv [of 5] by auto
  have "free_at 0 (Leaf 0 LFree) \<noteq> {}" by simp
  with Buddy_Allocate_spec [OF st(2), of 3 0] obtain o1 st' where
    "Buddy_Allocate (2 ^ 3) (2 ^ 0) st = ok (o1, st')" "o1 \<noteq> kInvalidOffset" by fastforce
  with buddy_alloc [OF buddy_start [OF st(1)], of 3 0 o1 st'] show ?thesis by auto
qed

theorem buddy_run_safe_witness:
  "\<exists>st o1 st'. buddy_run 5 st [(o1, 8)] \<and> o1 + 8 \<le> 2 ^ 5 \<and> 8 dvd o1 \<and> Buddy_Deallocate o1 st = Some (ok st')"
proof -
  obtain st o1 where "buddy_run 5 st [(o1, 8)]" using buddy_first_block by blast
  with buddy_run_safe [OF this] show ?thesis by auto
qed

section \<open>Completeness\<close>

lemma Buddy_Allocate_complete:
  assumes "buddy_inv k st t" "j \<le> k" "a \<le> j"
  shows "(\<exists>o1 st'. Buddy_Allocate (2 ^ j) (2 ^ a) st = ok (o1, st') \<and> o1 \<noteq> kInvalidOffset) \<longleftrightarrow>
    (\<exists>m. m * 2 ^ j + 2 ^ j \<le> 2 ^ k \<and> (\<forall>b \<in> set (allocs 0 (2 ^ k) t). apart (m * 2 ^ j, 2 ^ j) b))"
    (is "?served \<longleftrightarrow> ?room")
proof -
  have core: "core k st t" "settled t" "coalesced t" using assms(1) by (simp_all add: buddy_inv_def)
  then have k: "k < 64" "height t \<le> k" by (simp_all add: core_def)
  then have a: "a < 64" using assms(2,3) by simp
  from Buddy_Allocate_spec [OF assms(1,2) a] show ?thesis
  proof
    assume fail: "Buddy_Allocate (2 ^ j) (2 ^ a) st = ok (kInvalidOffset, st) \<and> (\<forall>i \<le> k - j. a \<le> k - i \<longrightarrow> free_at i t = {})"
    have "\<not> ?room"
    proof
      assume ?room
      then obtain m where "m * 2 ^ j + 2 ^ j \<le> 2 ^ k" "\<forall>b \<in> set (allocs 0 (2 ^ k) t). apart (m * 2 ^ j, 2 ^ j) b" by blast
      with free_range [OF core(3,2) k(2) assms(2), of 0 "m * 2 ^ j"] obtain i where "i \<le> k - j" "free_at i t \<noteq> {}" by auto
      moreover from this assms have "a \<le> k - i" by linarith
      ultimately show False using fail by blast
    qed
    with fail show ?thesis by auto
  next
    assume "\<exists>o1 st' t'. Buddy_Allocate (2 ^ j) (2 ^ a) st = ok (o1, st') \<and> o1 \<noteq> kInvalidOffset \<and> 2 ^ a dvd o1 \<and>
      buddy_inv k st' t' \<and> mset (allocs 0 (2 ^ k) t') = add_mset (o1, 2 ^ j) (mset (allocs 0 (2 ^ k) t))"
    then obtain o1 st' t' where al: "Buddy_Allocate (2 ^ j) (2 ^ a) st = ok (o1, st')" "o1 \<noteq> kInvalidOffset"
      "buddy_inv k st' t'" "mset (allocs 0 (2 ^ k) t') = mset ((o1, 2 ^ j) # allocs 0 (2 ^ k) t)" by auto
    have "pairwise_apart ((o1, 2 ^ j) # allocs 0 (2 ^ k) t)" using pairwise_apart_mset [OF al(4)] allocs_apart by blast
    moreover have new: "(o1, 2 ^ j) \<in> set (allocs 0 (2 ^ k) t')" using al(4) by (metis list.set_intros(1) set_mset_mset)
    then have "o1 + 2 ^ j \<le> 2 ^ k" using allocs_range [OF new] by simp
    moreover have "height t' \<le> k" using al(3) by (simp add: buddy_inv_def core_def)
    then obtain m where "o1 = m * 2 ^ j" using allocs_sized [OF _ _ new] by (auto elim: dvdE simp: mult.commute)
    ultimately have ?room by (auto simp: list_all_iff)
    with al(1,2) show ?thesis by auto
  qed
qed

text \<open>
  C17. The allocator has no external fragmentation beyond alignment: a request of a power of two
  whose alignment does not exceed its size is served exactly when some range of that size, aligned
  to it, meets none of the blocks in use. This rests on buddies being merged as soon as both are
  free.
\<close>

theorem buddy_serves_iff:
  assumes "buddy_run k st live" "k < 64" "j \<le> k" "a \<le> j"
  shows "(\<exists>o1 st'. Buddy_Allocate (2 ^ j) (2 ^ a) st = ok (o1, st') \<and> o1 \<noteq> kInvalidOffset) \<longleftrightarrow>
    (\<exists>m. m * 2 ^ j + 2 ^ j \<le> 2 ^ k \<and> (\<forall>b \<in> set live. apart (m * 2 ^ j, 2 ^ j) b))"
proof -
  from buddy_run_inv [OF assms(1,2)] obtain t where t: "buddy_inv k st t" "mset (allocs 0 (2 ^ k) t) = mset live" by blast
  then have "set live = set (allocs 0 (2 ^ k) t)" by (metis set_mset_mset)
  with Buddy_Allocate_complete [OF t(1) assms(3,4)] show ?thesis by simp
qed

theorem buddy_serves_iff_witness:
  "\<exists>st o1 o2 st'. buddy_run 5 st [(o1, 8)] \<and> Buddy_Allocate (2 ^ 4) (2 ^ 0) st = ok (o2, st') \<and> o2 \<noteq> kInvalidOffset"
proof -
  obtain st o1 where run: "buddy_run 5 st [(o1, 8)]" using buddy_first_block by blast
  have "o1 + 8 \<le> 32 \<and> 8 dvd o1" using buddy_run_blocks(1) [OF run] by simp
  then have "\<exists>m. m * 2 ^ 4 + 2 ^ 4 \<le> (2 :: nat) ^ 5 \<and> (\<forall>b \<in> set [(o1, 8)]. apart (m * 2 ^ 4, 2 ^ 4) b)"
    by (cases "o1 < 16") (auto simp: apart_def intro: exI [of _ 1] exI [of _ 0] elim!: dvdE)
  then show ?thesis using buddy_serves_iff [OF run, of 4 0] run by auto
qed

section \<open>Release of everything\<close>

fun free_blocks :: "btree \<Rightarrow> nat" where
  "free_blocks (Leaf _ q) = (if q = LAlloc then 0 else 1)"
| "free_blocks (Node _ l r) = free_blocks l + free_blocks r"

lemma free_blocks_bound: "free_blocks t \<le> 2 ^ height t"
proof (induction t)
  case (Node p l r)
  have "(2 :: nat) ^ height l \<le> 2 ^ max (height l) (height r)" "(2 :: nat) ^ height r \<le> 2 ^ max (height l) (height r)"
    by (auto intro: power_increasing)
  with Node have "free_blocks l + free_blocks r \<le> 2 ^ max (height l) (height r) + 2 ^ max (height l) (height r)"
    by linarith
  then show ?case by simp
qed simp

lemma ComputeNumOfFreeBlocks_rep:
  "rep h par bud k n t \<Longrightarrow> height t < 64 \<Longrightarrow> ComputeNumOfFreeBlocks h (root t) = Some (ok (free_blocks t))"
proof (induction t arbitrary: par bud k n)
  case (Leaf p q)
  then obtain b where "h p = Some b" "mState b = kind_state q" by (auto simp: block_at_def)
  then show ?case by (subst ComputeNumOfFreeBlocks.simps) (cases q; simp)
next
  case (Node p l r)
  from Node.prems(1) obtain b rb where b: "h p = Some b" "mState b = Split" "left_link b = ok (root l)"
    "right_child h b = ok (root r, rb)" by (rule rep_children)
  have "free_blocks (Node p l r) < 2 ^ 64"
    using free_blocks_bound [of "Node p l r"] two_power_64 [OF Node.prems(2)] by linarith
  then have "u64 (free_blocks l + free_blocks r) = free_blocks l + free_blocks r" by (simp add: u64_def)
  moreover have "ComputeNumOfFreeBlocks h (root l) = Some (ok (free_blocks l))"
    "ComputeNumOfFreeBlocks h (root r) = Some (ok (free_blocks r))" using Node by auto
  ultimately show ?case using b by (subst ComputeNumOfFreeBlocks.simps) simp
qed

lemma DeleteBlock_rep:
  "rep h par bud k n t \<Longrightarrow> distinct (ptrs t) \<Longrightarrow>
     DeleteBlock (root t) h = Some (ok (\<lambda>x. if x \<in> set (ptrs t) then None else h x))"
proof (induction t arbitrary: h par bud k n)
  case (Leaf p q)
  then obtain b where "h p = Some b" "mState b = kind_state q" by (auto simp: block_at_def)
  then have "DeleteBlock p h = Some (ok (h(p := None)))" by (intro DeleteBlock_leaf) (cases q; auto)+
  then show ?case by (simp add: fun_upd_def)
next
  case (Node p l r)
  from Node.prems(1) obtain b rb where b: "h p = Some b" "mState b = Split" "left_link b = ok (root l)"
    "right_child h b = ok (root r, rb)" by (rule rep_children)
  let ?h1 = "\<lambda>x. if x \<in> set (ptrs r) then None else h x"
  have d: "p \<notin> set (ptrs l)" "p \<notin> set (ptrs r)" "set (ptrs l) \<inter> set (ptrs r) = {}" using Node.prems(2) by auto
  have r: "DeleteBlock (root r) h = Some (ok ?h1)" using Node.IH(2) Node.prems by auto
  have "agree (set (ptrs l)) h ?h1" using d(3) by (intro agree_same) auto
  then have "rep ?h1 (Some p) (Some (root r)) k (n div 2) l" using Node.prems(1) by (auto intro: rep_agree)
  then have "DeleteBlock (root l) ?h1 = Some (ok (\<lambda>x. if x \<in> set (ptrs l) then None else ?h1 x))"
    using Node.IH(1) Node.prems(2) by auto
  then have "DeleteBlock p h = Some (ok ((\<lambda>x. if x \<in> set (ptrs l) then None else ?h1 x)(p := None)))"
    using b d(2) r by (subst DeleteBlock.simps) simp
  moreover have "(\<lambda>x. if x \<in> set (ptrs l) then None else ?h1 x)(p := None) =
      (\<lambda>x. if x \<in> set (ptrs (Node p l r)) then None else h x)" by (rule ext) auto
  ultimately show ?case by simp
qed

text \<open>
  C18. When every block has been released the allocator is back to a single free block, so that
  the whole range can be allocated again; and in every state the destructor returns and deletes
  every block it ever created that is still there, each once.
\<close>

theorem buddy_release:
  assumes "buddy_run k st live" "k < 64"
  shows "Buddy_destroy st = Some (ok (\<lambda>_. None)) \<and>
    (live = [] \<longrightarrow> ComputeTotalNumOfFreeBlocksForTesting st = Some (ok 1) \<and>
      (\<exists>st'. Buddy_Allocate (2 ^ k) 1 st = ok (0, st')))"
proof -
  from buddy_run_inv [OF assms] obtain t where t: "buddy_inv k st t" "mset (allocs 0 (2 ^ k) t) = mset live" by blast
  then have core: "rep (heap st) None None 0 (2 ^ k) t" "distinct (ptrs t)" "mRoot st = root t"
    "dom (heap st) = set (ptrs t)" "height t \<le> k" "settled t" "coalesced t" by (auto simp: buddy_inv_def core_def)
  have "(\<lambda>x. if x \<in> set (ptrs t) then None else heap st x) = (\<lambda>_. None)"
    using core(4) by (auto simp: fun_eq_iff)
  then have "Buddy_destroy st = Some (ok (\<lambda>_. None))"
    using DeleteBlock_rep [OF core(1,2)] by (simp add: Buddy_destroy_def core(3))
  moreover have "ComputeTotalNumOfFreeBlocksForTesting st = Some (ok 1) \<and> (\<exists>st'. Buddy_Allocate (2 ^ k) 1 st = ok (0, st'))"
    if "live = []"
  proof -
    have "is_free t" using no_allocs_free [OF core(7,6)] t(2) that by simp
    then obtain p where p: "t = Leaf p LFree" by (cases t) auto
    then have "ComputeTotalNumOfFreeBlocksForTesting st = Some (ok 1)"
      using ComputeNumOfFreeBlocks_rep [OF core(1)] core(3)
      by (simp add: ComputeTotalNumOfFreeBlocksForTesting_def)
    moreover from Buddy_Allocate_spec [OF t(1) order_refl, of 0] p obtain o1 st' t' where
      al: "Buddy_Allocate (2 ^ k) 1 st = ok (o1, st')" "mset (allocs 0 (2 ^ k) t') = {#(o1, 2 ^ k)#}"
      using t(2) that by auto
    then have "(o1, 2 ^ k) \<in> set (allocs 0 (2 ^ k) t')" by (metis set_mset_mset set_mset_single singletonI)
    from allocs_range [OF this] al(1) have "Buddy_Allocate (2 ^ k) 1 st = ok (0, st')" by simp
    ultimately show ?thesis by blast
  qed
  ultimately show ?thesis by blast
qed

theorem buddy_release_witness:
  "\<exists>st o1 st' st''. buddy_run 5 st [(o1, 8)] \<and> Buddy_destroy st = Some (ok (\<lambda>_. None)) \<and>
     Buddy_Deallocate o1 st = Some (ok st') \<and> Buddy_Allocate 32 1 st' = ok (0, st'')"
proof -
  obtain st o1 where run: "buddy_run 5 st [(o1, 8)]" using buddy_first_block by blast
  from buddy_run_inv [OF run] obtain t where t: "buddy_inv 5 st t" "mset (allocs 0 (2 ^ 5) t) = mset [(o1, 8)]" by auto
  then have "(o1, 8) \<in> set (allocs 0 (2 ^ 5) t)" by (metis list.set_intros(1) set_mset_mset)
  from Buddy_Deallocate_spec [OF t(1) this] obtain st' where st': "Buddy_Deallocate o1 st = Some (ok st')" by blast
  have "buddy_run 5 st' []" using buddy_dealloc [OF run _ st'] by simp
  from buddy_release [OF this] buddy_release [OF run] run st' show ?thesis by auto
qed

end
