(* ===== verification/Buddy_Memory.thy ===== *)
theory Buddy_Memory
  imports Buddy_Spec
begin

text \<open>
  Sub-allocation of device memory: \<open>dawn_native/BuddyMemoryAllocator.cpp\<close> lays heaps of one size
  under a large buddy system and counts the sub-allocations of each heap, creating a heap for the
  first and releasing it after the last; \<open>dawn_native/PooledResourceMemoryAllocator.cpp\<close> recycles
  heaps. The backend's heap allocator is a parameter whose contract is the locale
  \<open>heap_allocator\<close>.
\<close>

section \<open>ResourceMemoryAllocation\<close>

text \<open>The mapped pointer, which only mapped buffers set, is left out.\<close>

datatype allocation_method = kDirect | kSubAllocated | kExternal | kInvalid

record allocation_info =
  mBlockOffset :: nat
  mMethod :: allocation_method

record 'h memory_allocation =
  mInfo :: allocation_info
  mMemoryOffset :: nat
  mResourceHeap :: "'h option"

definition ResourceMemoryAllocation0 :: "'h memory_allocation" where
  "ResourceMemoryAllocation0 = \<lparr> mInfo = \<lparr> mBlockOffset = 0, mMethod = kInvalid \<rparr>, mMemoryOffset = 0, mResourceHeap = None \<rparr>"

definition GetResourceHeap :: "'h memory_allocation \<Rightarrow> 'h option res" where
  "GetResourceHeap a = (if mMethod (mInfo a) \<noteq> kInvalid then ok (mResourceHeap a) else undef)"

definition GetOffset :: "'h memory_allocation \<Rightarrow> nat res" where
  "GetOffset a = (if mMethod (mInfo a) \<noteq> kInvalid then ok (mMemoryOffset a) else undef)"

definition Invalidate :: "'h memory_allocation \<Rightarrow> 'h memory_allocation" where
  "Invalidate a = a\<lparr> mResourceHeap := None, mInfo := \<lparr> mBlockOffset = 0, mMethod = kInvalid \<rparr> \<rparr>"

section \<open>PooledResourceMemoryAllocator\<close>

text \<open>The state of a heap allocator has type \<open>'d\<close>; creating a heap may fail.\<close>

definition Pooled_AllocateResourceHeap ::
  "(nat \<Rightarrow> 'd \<Rightarrow> 'h res \<times> 'd) \<Rightarrow> nat \<Rightarrow> 'h list \<times> 'd \<Rightarrow> 'h res \<times> ('h list \<times> 'd)" where
  "Pooled_AllocateResourceHeap alloc_heap n = (\<lambda>(mPool, d).
     case mPool of
       memory # pool \<Rightarrow> (ok memory, (pool, d))
     | [] \<Rightarrow> let (r, d') = alloc_heap n d in (r, ([], d')))"

definition Pooled_DeallocateResourceHeap :: "'h \<Rightarrow> 'h list \<times> 'd \<Rightarrow> 'h list \<times> 'd" where
  "Pooled_DeallocateResourceHeap h = (\<lambda>(mPool, d). (h # mPool, d))"

definition DestroyPool :: "('h \<Rightarrow> 'd \<Rightarrow> 'd) \<Rightarrow> 'h list \<times> 'd \<Rightarrow> 'h list \<times> 'd" where
  "DestroyPool free_heap = (\<lambda>(mPool, d). ([], fold free_heap mPool d))"

section \<open>BuddyMemoryAllocator\<close>

record 'h tracked =
  refcount :: nat
  mMemoryAllocation :: "'h option"

record 'h buddy_memory =
  mMemoryBlockSize :: nat
  mBuddyBlockAllocator :: buddy
  mTrackedSubAllocations :: "'h tracked list"

definition BuddyMemoryAllocator :: "nat \<Rightarrow> nat \<Rightarrow> 'h buddy_memory res" where
  "BuddyMemoryAllocator maxSystemSize memoryBlockSize =
     bindR (BuddyAllocator maxSystemSize) (\<lambda>bd.
     bindR (assertR (memoryBlockSize \<le> maxSystemSize)) (\<lambda>_.
     bindR (assert_pow2 (of_nat memoryBlockSize)) (\<lambda>_.
     bindR (assertR (maxSystemSize mod memoryBlockSize = 0)) (\<lambda>_.
       ok \<lparr> mMemoryBlockSize = memoryBlockSize, mBuddyBlockAllocator = bd,
            mTrackedSubAllocations = replicate (maxSystemSize div memoryBlockSize)
              \<lparr> refcount = 0, mMemoryAllocation = None \<rparr> \<rparr>))))"

definition GetMemoryIndex :: "'h buddy_memory \<Rightarrow> nat \<Rightarrow> nat res" where
  "GetMemoryIndex st offset = (if offset \<noteq> kInvalidOffset then ok (offset div mMemoryBlockSize st) else undef)"

text \<open>The end of \<open>Allocate\<close>: the heap of the block is there, the count goes up.\<close>

definition sub_allocated :: "nat \<Rightarrow> nat \<Rightarrow> 'h tracked \<Rightarrow> 'h buddy_memory \<Rightarrow> 'h memory_allocation \<times> 'h buddy_memory" where
  "sub_allocated blockOffset memoryIndex entry st =
     (\<lparr> mInfo = \<lparr> mBlockOffset = blockOffset, mMethod = kSubAllocated \<rparr>,
        mMemoryOffset = blockOffset mod mMemoryBlockSize st, mResourceHeap = mMemoryAllocation entry \<rparr>,
      st\<lparr> mTrackedSubAllocations := (mTrackedSubAllocations st)[memoryIndex := entry\<lparr> refcount := refcount entry + 1 \<rparr>] \<rparr>)"

definition BuddyMemory_Allocate ::
  "(nat \<Rightarrow> 'd \<Rightarrow> 'h res \<times> 'd) \<Rightarrow> nat \<Rightarrow> nat \<Rightarrow> 'h buddy_memory \<times> 'd \<Rightarrow>
    'h memory_allocation res \<times> ('h buddy_memory \<times> 'd)" where
  "BuddyMemory_Allocate alloc_heap allocationSize alignment = (\<lambda>(st, d).
     if allocationSize = 0 \<or> allocationSize > mMemoryBlockSize st then (ok ResourceMemoryAllocation0, (st, d))
     else case NextPowerOfTwo (of_nat allocationSize) of
       Inl e \<Rightarrow> (Inl e, (st, d))
     | Inr w \<Rightarrow>
         if unat w > mMemoryBlockSize st then (ok ResourceMemoryAllocation0, (st, d))
         else case Buddy_Allocate (unat w) alignment (mBuddyBlockAllocator st) of
           Inl e \<Rightarrow> (Inl e, (st, d))
         | Inr (blockOffset, bd) \<Rightarrow>
             if blockOffset = kInvalidOffset then (ok ResourceMemoryAllocation0, (st\<lparr> mBuddyBlockAllocator := bd \<rparr>, d))
             else
               let st1 = st\<lparr> mBuddyBlockAllocator := bd \<rparr> in
               case bindR (GetMemoryIndex st1 blockOffset) (\<lambda>i.
                 bindR (vec_at (mTrackedSubAllocations st1) (int i)) (\<lambda>entry. ok (i, entry))) of
                 Inl e \<Rightarrow> (Inl e, (st1, d))
               | Inr (memoryIndex, entry) \<Rightarrow>
                   if refcount entry = 0 then
                     (case alloc_heap (mMemoryBlockSize st1) d of
                        (Inl e, d') \<Rightarrow> (Inl e, (st1, d'))
                      | (Inr memory, d') \<Rightarrow>
                          let (a, st2) = sub_allocated blockOffset memoryIndex
                                           \<lparr> refcount = 0, mMemoryAllocation = Some memory \<rparr> st1
                          in (ok a, (st2, d')))
                   else let (a, st2) = sub_allocated blockOffset memoryIndex entry st1 in (ok a, (st2, d)))"

definition BuddyMemory_Deallocate ::
  "('h \<Rightarrow> 'd \<Rightarrow> 'd) \<Rightarrow> 'h memory_allocation \<Rightarrow> 'h buddy_memory \<times> 'd \<Rightarrow> ('h buddy_memory \<times> 'd) res option" where
  "BuddyMemory_Deallocate free_heap a = (\<lambda>(st, d).
     bindRO (Some (assertR (mMethod (mInfo a) = kSubAllocated))) (\<lambda>_.
     bindRO (Some (GetMemoryIndex st (mBlockOffset (mInfo a)))) (\<lambda>memoryIndex.
     bindRO (Some (vec_at (mTrackedSubAllocations st) (int memoryIndex))) (\<lambda>entry.
     bindRO (Some (assertR (refcount entry > 0))) (\<lambda>_.
     let n = refcount entry - 1;
         entry' = (if n = 0 then \<lparr> refcount = n, mMemoryAllocation = None \<rparr> else entry\<lparr> refcount := n \<rparr>);
         st1 = st\<lparr> mTrackedSubAllocations := (mTrackedSubAllocations st)[memoryIndex := entry'] \<rparr>
     in bindRO (Some (if n = 0 then (case mMemoryAllocation entry of None \<Rightarrow> undef | Some h \<Rightarrow> ok (free_heap h d))
                      else ok d)) (\<lambda>d'.
        bindRO (Buddy_Deallocate (mBlockOffset (mInfo a)) (mBuddyBlockAllocator st1)) (\<lambda>bd.
          Some (ok (st1\<lparr> mBuddyBlockAllocator := bd \<rparr>, d')))))))))"

definition ComputeTotalNumOfHeapsForTesting :: "'h buddy_memory \<Rightarrow> nat" where
  "ComputeTotalNumOfHeapsForTesting st = length (filter (\<lambda>e. refcount e > 0) (mTrackedSubAllocations st))"

section \<open>The contract of a heap allocator\<close>

text \<open>\<open>out d\<close> are the heaps handed out and not given back.\<close>

locale heap_allocator =
  fixes dinv :: "'d \<Rightarrow> bool" and alloc_heap :: "nat \<Rightarrow> 'd \<Rightarrow> 'h res \<times> 'd"
    and free_heap :: "'h \<Rightarrow> 'd \<Rightarrow> 'd" and out :: "'d \<Rightarrow> 'h set"
  assumes alloc_ok: "dinv d \<Longrightarrow> alloc_heap n d = (Inr h, d') \<Longrightarrow> dinv d' \<and> h \<notin> out d \<and> out d' = insert h (out d)"
    and alloc_fails: "dinv d \<Longrightarrow> alloc_heap n d = (Inl e, d') \<Longrightarrow> dinv d' \<and> out d' = out d \<and> e \<noteq> UB"
    and free_ok: "dinv d \<Longrightarrow> h \<in> out d \<Longrightarrow> dinv (free_heap h d) \<and> out (free_heap h d) = out d - {h}"

text \<open>A pool over a heap allocator keeps the contract: the heaps in the pool are handed out by
  the inner allocator and not by the pool.\<close>

definition pool_inv :: "('d \<Rightarrow> bool) \<Rightarrow> ('d \<Rightarrow> 'h set) \<Rightarrow> 'h list \<times> 'd \<Rightarrow> bool" where
  "pool_inv dinv out = (\<lambda>(mPool, d). dinv d \<and> distinct mPool \<and> set mPool \<subseteq> out d)"

definition pool_out :: "('d \<Rightarrow> 'h set) \<Rightarrow> 'h list \<times> 'd \<Rightarrow> 'h set" where
  "pool_out out = (\<lambda>(mPool, d). out d - set mPool)"

context heap_allocator
begin

lemma pooled: "heap_allocator (pool_inv dinv out) (Pooled_AllocateResourceHeap alloc_heap)
  Pooled_DeallocateResourceHeap (pool_out out)"
proof
  show "pool_inv dinv out d' \<and> h \<notin> pool_out out d \<and> pool_out out d' = insert h (pool_out out d)"
    if "pool_inv dinv out d" "Pooled_AllocateResourceHeap alloc_heap n d = (Inr h, d')" for d n h d'
    using that by (auto simp: pool_inv_def pool_out_def Pooled_AllocateResourceHeap_def dest: alloc_ok
        split: prod.splits list.splits)
  show "pool_inv dinv out d' \<and> pool_out out d' = pool_out out d \<and> e \<noteq> UB"
    if "pool_inv dinv out d" "Pooled_AllocateResourceHeap alloc_heap n d = (Inl e, d')" for d n e d'
    using that by (auto simp: pool_inv_def pool_out_def Pooled_AllocateResourceHeap_def dest: alloc_fails
        split: prod.splits list.splits)
  show "pool_inv dinv out (Pooled_DeallocateResourceHeap h d) \<and>
      pool_out out (Pooled_DeallocateResourceHeap h d) = pool_out out d - {h}"
    if "pool_inv dinv out d" "h \<in> pool_out out d" for d h
    using that by (auto simp: pool_inv_def pool_out_def Pooled_DeallocateResourceHeap_def split: prod.splits)
qed

end

text \<open>A base allocator that numbers its heaps, and the pool over it.\<close>

definition number_heap :: "nat \<Rightarrow> nat \<times> nat list \<Rightarrow> nat res \<times> (nat \<times> nat list)" where
  "number_heap n = (\<lambda>(next1, hs). (ok next1, (Suc next1, next1 # hs)))"

definition drop_heap :: "nat \<Rightarrow> nat \<times> nat list \<Rightarrow> nat \<times> nat list" where
  "drop_heap h = (\<lambda>(next1, hs). (next1, filter (\<lambda>x. x \<noteq> h) hs))"

interpretation numbered: heap_allocator "\<lambda>(next1, hs). \<forall>x \<in> set hs. x < next1" number_heap drop_heap "\<lambda>(next1, hs). set hs"
  by unfold_locales (auto simp: number_heap_def drop_heap_def less_Suc_eq)

interpretation pool: heap_allocator
  "pool_inv (\<lambda>(next1, hs). \<forall>x \<in> set hs. x < next1) (\<lambda>(next1, hs). set hs)"
  "Pooled_AllocateResourceHeap number_heap" Pooled_DeallocateResourceHeap "pool_out (\<lambda>(next1, hs). set hs)"
  by (rule numbered.pooled)

section \<open>Leases\<close>

text \<open>The allocation a client holds, with the size it asked for.\<close>

type_synonym 'h lease = "'h memory_allocation \<times> nat"

definition rounded :: "nat \<Rightarrow> nat" where
  "rounded n = (case NextPowerOfTwo (of_nat n) of Inl _ \<Rightarrow> 0 | Inr w \<Rightarrow> unat w)"

lemma rounded_pow2:
  assumes "n \<le> 2 ^ m" "m < 64"
  shows "\<exists>j \<le> m. NextPowerOfTwo (of_nat n) = ok (2 ^ j) \<and> rounded n = 2 ^ j \<and> n \<le> 2 ^ j"
proof -
  have "(2 :: nat) ^ m \<le> 2 ^ 63" using assms(2) by (intro power_increasing) auto
  moreover have "(2 :: nat) ^ 63 < 2 ^ 64" by simp
  ultimately have "n < 2 ^ 64" using assms(1) by (meson le_less_trans order_trans)
  then have u: "unat (of_nat n :: 64 word) = n" by (simp add: unsigned_of_nat take_bit_nat_eq_self)
  with assms(1) \<open>(2 :: nat) ^ m \<le> 2 ^ 63\<close> NextPowerOfTwo_cases [of "of_nat n"] obtain j where
    j: "j < 64" "NextPowerOfTwo (of_nat n) = ok (2 ^ j)" "n \<le> 2 ^ j" "j \<le> m" by auto
  then have "unat (2 ^ j :: 64 word) = 2 ^ j" using pow2_word [of j, where 'w = 64] by simp
  with j show ?thesis by (auto simp: rounded_def)
qed

definition lease_block :: "'h lease \<Rightarrow> block" where
  "lease_block l = (mBlockOffset (mInfo (fst l)), rounded (snd l))"

definition lease_index :: "nat \<Rightarrow> 'h lease \<Rightarrow> nat" where
  "lease_index m l = mBlockOffset (mInfo (fst l)) div 2 ^ m"

definition lease_ok :: "nat \<Rightarrow> 'h tracked list \<Rightarrow> 'h lease \<Rightarrow> bool" where
  "lease_ok m T l \<longleftrightarrow> mMethod (mInfo (fst l)) = kSubAllocated \<and>
     mMemoryOffset (fst l) = mBlockOffset (mInfo (fst l)) mod 2 ^ m \<and>
     mResourceHeap (fst l) = mMemoryAllocation (T ! lease_index m l) \<and> snd l \<le> 2 ^ m \<and> lease_index m l < length T"

text \<open>The counts are the numbers of leases, and a heap is there exactly while its count is
  positive; no two entries have the same heap.\<close>

definition counts_ok :: "nat \<Rightarrow> 'h tracked list \<Rightarrow> 'h lease multiset \<Rightarrow> bool" where
  "counts_ok m T L \<longleftrightarrow> (\<forall>i < length T. refcount (T ! i) = size {#l \<in># L. lease_index m l = i#} \<and>
     (mMemoryAllocation (T ! i) = None \<longleftrightarrow> refcount (T ! i) = 0))"

definition own_heaps :: "'h tracked list \<Rightarrow> bool" where
  "own_heaps T \<longleftrightarrow> (\<forall>i < length T. \<forall>j < length T. \<forall>h.
     mMemoryAllocation (T ! i) = Some h \<longrightarrow> mMemoryAllocation (T ! j) = Some h \<longrightarrow> i = j)"

definition tracked_ok :: "nat \<Rightarrow> 'h tracked list \<Rightarrow> 'h lease multiset \<Rightarrow> bool" where
  "tracked_ok m T L \<longleftrightarrow> counts_ok m T L \<and> own_heaps T \<and> (\<forall>l \<in># L. lease_ok m T l)"

definition heaps :: "'h tracked list \<Rightarrow> 'h set" where
  "heaps T = {h. Some h \<in> mMemoryAllocation ` set T}"

definition mem_inv :: "nat \<Rightarrow> nat \<Rightarrow> 'h buddy_memory \<Rightarrow> 'h lease multiset \<Rightarrow> bool" where
  "mem_inv k m st L \<longleftrightarrow> k < 64 \<and> m \<le> k \<and> mMemoryBlockSize st = 2 ^ m \<and>
     length (mTrackedSubAllocations st) = 2 ^ (k - m) \<and> tracked_ok m (mTrackedSubAllocations st) L \<and>
     (\<exists>t leaked. buddy_inv k (mBuddyBlockAllocator st) t \<and>
        mset (allocs 0 (2 ^ k) t) = image_mset lease_block L + leaked)"

lemma heaps_nth: "h \<in> heaps T \<longleftrightarrow> (\<exists>i < length T. mMemoryAllocation (T ! i) = Some h)"
  unfolding heaps_def by (force simp: image_iff in_set_conv_nth)

definition heaps_but :: "nat \<Rightarrow> 'h tracked list \<Rightarrow> 'h set" where
  "heaps_but i T = {h. \<exists>j < length T. j \<noteq> i \<and> mMemoryAllocation (T ! j) = Some h}"

lemma heaps_at: "i < length T \<Longrightarrow> heaps T = set_option (mMemoryAllocation (T ! i)) \<union> heaps_but i T"
  by (auto simp: heaps_nth heaps_but_def)

lemma heaps_but_upd [simp]: "heaps_but i (T[i := e]) = heaps_but i T"
  by (auto simp: heaps_but_def)

lemma heaps_upd: "i < length T \<Longrightarrow> heaps (T[i := e]) = set_option (mMemoryAllocation e) \<union> heaps_but i T"
  using heaps_at [of i "T[i := e]"] by simp

text \<open>A new lease in a heap that is there.\<close>

lemma tracked_ok_share:
  assumes "tracked_ok m T L" "i < length T" "refcount (T ! i) \<noteq> 0" "lease_index m l = i" "lease_ok m T l"
  shows "tracked_ok m (T[i := (T ! i)\<lparr> refcount := Suc (refcount (T ! i)) \<rparr>]) (add_mset l L)" (is "tracked_ok m ?T _")
    "heaps (T[i := (T ! i)\<lparr> refcount := Suc (refcount (T ! i)) \<rparr>]) = heaps T"
proof -
  have mem: "mMemoryAllocation (?T ! j) = mMemoryAllocation (T ! j)" if "j < length T" for j
    using that by (cases "j = i") auto
  have "counts_ok m ?T (add_mset l L)"
    unfolding counts_ok_def
  proof (intro allI impI)
    fix j
    assume j: "j < length ?T"
    with assms show "refcount (?T ! j) = size {#x \<in># add_mset l L. lease_index m x = j#} \<and>
        (mMemoryAllocation (?T ! j) = None \<longleftrightarrow> refcount (?T ! j) = 0)"
      by (cases "j = i") (simp_all add: tracked_ok_def counts_ok_def)
  qed
  moreover have "own_heaps ?T" using assms(1) mem by (simp add: tracked_ok_def own_heaps_def)
  moreover have "lease_ok m ?T x" if "x \<in># add_mset l L" for x
    using that assms(1,5) mem by (auto simp: lease_ok_def tracked_ok_def)
  ultimately show "tracked_ok m ?T (add_mset l L)" by (simp add: tracked_ok_def)
  show "heaps ?T = heaps T" using heaps_upd [OF assms(2)] heaps_at [OF assms(2)] by simp
qed

lemma no_lease:
  assumes "tracked_ok m T L" "i < length T" "refcount (T ! i) = 0" "x \<in># L"
  shows "lease_index m x \<noteq> i"
proof -
  have "size {#l \<in># L. lease_index m l = i#} = 0" using assms(1-3) by (simp add: tracked_ok_def counts_ok_def)
  then have "{#l \<in># L. lease_index m l = i#} = {#}" by (simp only: size_eq_0_iff_empty)
  with assms(4) show ?thesis unfolding filter_mset_eq_mempty_iff by blast
qed

lemma entry_backed:
  "tracked_ok m T L \<Longrightarrow> i < length T \<Longrightarrow> mMemoryAllocation (T ! i) = None \<longleftrightarrow> refcount (T ! i) = 0"
  by (simp add: tracked_ok_def counts_ok_def)

lemma entry_lease:
  assumes "tracked_ok m T L" "i < length T" "refcount (T ! i) \<noteq> 0"
  shows "\<exists>l. l \<in># L \<and> lease_index m l = i"
proof (rule ccontr)
  assume "\<not> ?thesis"
  then have "{#l \<in># L. lease_index m l = i#} = {#}" unfolding filter_mset_eq_mempty_iff by blast
  with assms show False by (simp only: tracked_ok_def counts_ok_def size_empty)
qed

text \<open>The first lease of a heap.\<close>

lemma tracked_ok_first:
  assumes "tracked_ok m T L" "i < length T" "refcount (T ! i) = 0" "h \<notin> heaps T" "lease_index m l = i"
    "lease_ok m (T[i := \<lparr> refcount = Suc 0, mMemoryAllocation = Some h \<rparr>]) l"
  shows "tracked_ok m (T[i := \<lparr> refcount = Suc 0, mMemoryAllocation = Some h \<rparr>]) (add_mset l L)" (is "tracked_ok m ?T _")
    "heaps (T[i := \<lparr> refcount = Suc 0, mMemoryAllocation = Some h \<rparr>]) = insert h (heaps T)"
proof -
  have none: "mMemoryAllocation (T ! i) = None" using assms(1-3) by (simp add: tracked_ok_def counts_ok_def)
  have mem: "mMemoryAllocation (?T ! j) = (if j = i then Some h else mMemoryAllocation (T ! j))" if "j < length T" for j
    using that by simp
  have fresh: "mMemoryAllocation (T ! j) \<noteq> Some h" if "j < length T" for j using assms(4) that by (auto simp: heaps_nth)
  have "counts_ok m ?T (add_mset l L)"
    unfolding counts_ok_def
  proof (intro allI impI)
    fix j
    assume j: "j < length ?T"
    have "size {#x \<in># L. lease_index m x = i#} = 0" using assms(1-3) by (simp add: tracked_ok_def counts_ok_def)
    with j assms show "refcount (?T ! j) = size {#x \<in># add_mset l L. lease_index m x = j#} \<and>
        (mMemoryAllocation (?T ! j) = None \<longleftrightarrow> refcount (?T ! j) = 0)"
      by (cases "j = i") (simp_all add: tracked_ok_def counts_ok_def)
  qed
  moreover have "own_heaps ?T"
    unfolding own_heaps_def
  proof (intro allI impI)
    fix a b h'
    assume ab: "a < length ?T" "b < length ?T" "mMemoryAllocation (?T ! a) = Some h'" "mMemoryAllocation (?T ! b) = Some h'"
    have "own_heaps T" using assms(1) by (simp add: tracked_ok_def)
    then have "\<lbrakk>mMemoryAllocation (T ! a) = Some h'; mMemoryAllocation (T ! b) = Some h'\<rbrakk> \<Longrightarrow> a = b"
      using ab(1,2) unfolding own_heaps_def by simp
    with ab mem [of a] mem [of b] fresh [of a] fresh [of b] show "a = b" by (auto split: if_splits)
  qed
  moreover have "lease_ok m ?T x" if "x \<in># add_mset l L" for x
  proof (cases "x = l")
    case False
    with that have "x \<in># L" by simp
    with no_lease [OF assms(1-3) this] assms(1) show ?thesis by (auto simp: lease_ok_def tracked_ok_def)
  qed (use assms(6) in simp)
  ultimately show "tracked_ok m ?T (add_mset l L)" by (simp add: tracked_ok_def)
  show "heaps ?T = insert h (heaps T)" using heaps_upd [OF assms(2)] heaps_at [OF assms(2)] none by simp
qed

text \<open>A lease ends.\<close>

lemma tracked_ok_release:
  assumes "tracked_ok m T (add_mset l L)" "lease_index m l = i"
  defines "n \<equiv> refcount (T ! i) - 1"
  defines "T' \<equiv> T[i := if n = 0 then \<lparr> refcount = n, mMemoryAllocation = None \<rparr> else (T ! i)\<lparr> refcount := n \<rparr>]"
  shows "i < length T" "refcount (T ! i) > 0" "\<exists>h. mMemoryAllocation (T ! i) = Some h \<and> h \<in> heaps T \<and>
      heaps T' = (if n = 0 then heaps T - {h} else heaps T)"
    "tracked_ok m T' L"
proof -
  have "lease_ok m T l" using assms(1) by (simp add: tracked_ok_def)
  then show i: "i < length T" using assms(2) by (simp add: lease_ok_def)
  then have count: "refcount (T ! i) = Suc (size {#x \<in># L. lease_index m x = i#})"
    using assms(1,2) by (simp add: tracked_ok_def counts_ok_def)
  then show pos: "refcount (T ! i) > 0" by simp
  then obtain h where h: "mMemoryAllocation (T ! i) = Some h"
    using assms(1) i by (auto simp: tracked_ok_def counts_ok_def)
  have own: "own_heaps T" using assms(1) by (simp add: tracked_ok_def)
  have mem: "mMemoryAllocation (T' ! j) = (if j = i \<and> n = 0 then None else mMemoryAllocation (T ! j))" if "j < length T" for j
    using that by (cases "j = i") (simp_all add: T'_def)
  have len: "length T' = length T" by (simp add: T'_def)
  have "h \<in> heaps T" using h i by (auto simp: heaps_nth)
  moreover have "heaps T' = (if n = 0 then heaps T - {h} else heaps T)"
  proof -
    have "h \<notin> heaps_but i T" using own h i by (auto simp: heaps_but_def own_heaps_def)
    then show ?thesis using heaps_upd [OF i] heaps_at [OF i] h by (auto simp: T'_def)
  qed
  ultimately show "\<exists>h. mMemoryAllocation (T ! i) = Some h \<and> h \<in> heaps T \<and>
      heaps T' = (if n = 0 then heaps T - {h} else heaps T)" using h by blast
  have "counts_ok m T' L"
    unfolding counts_ok_def
  proof (intro allI impI)
    fix j
    assume j: "j < length T'"
    with assms(1,2) count h i show "refcount (T' ! j) = size {#x \<in># L. lease_index m x = j#} \<and>
        (mMemoryAllocation (T' ! j) = None \<longleftrightarrow> refcount (T' ! j) = 0)"
      by (cases "j = i") (auto simp: tracked_ok_def counts_ok_def T'_def n_def)
  qed
  moreover have "own_heaps T'" using own mem len by (auto simp: own_heaps_def split: if_splits)
  moreover have "lease_ok m T' x" if x: "x \<in># L" for x
  proof -
    have ok: "lease_ok m T x" using assms(1) x by (simp add: tracked_ok_def)
    have "\<not> (lease_index m x = i \<and> n = 0)"
    proof
      assume z: "lease_index m x = i \<and> n = 0"
      then have "size {#x \<in># L. lease_index m x = i#} = 0" using count by (simp only: n_def diff_Suc_1)
      then have "{#x \<in># L. lease_index m x = i#} = {#}" by (simp only: size_eq_0_iff_empty)
      with x z show False unfolding filter_mset_eq_mempty_iff by blast
    qed
    with ok mem len show ?thesis by (auto simp: lease_ok_def)
  qed
  ultimately show "tracked_ok m T' L" by (simp add: tracked_ok_def)
qed

section \<open>The operations keep the invariant\<close>

lemma div_index:
  assumes "o1 + n \<le> (2 :: nat) ^ k" "0 < n" "m \<le> k"
  shows "o1 div 2 ^ m < 2 ^ (k - m)"
proof -
  have "o1 < 2 ^ (k - m) * 2 ^ m" using assms by (simp add: power_add [symmetric])
  then show ?thesis by (simp add: less_mult_imp_div_less)
qed

lemma dvd_local: "(2 :: nat) ^ a dvd x \<Longrightarrow> 2 ^ a dvd x mod 2 ^ m"
proof (cases "a \<le> m")
  case True
  then have "(2 :: nat) ^ a dvd 2 ^ m" by (rule le_imp_power_dvd)
  then show "(2 :: nat) ^ a dvd x \<Longrightarrow> 2 ^ a dvd x mod 2 ^ m" by (simp add: dvd_mod_iff)
next
  case False
  then have "(2 :: nat) ^ m dvd 2 ^ a" by (intro le_imp_power_dvd) simp
  then show "(2 :: nat) ^ a dvd x \<Longrightarrow> 2 ^ a dvd x mod 2 ^ m" by (metis dvd_0_right dvd_imp_mod_0 dvd_trans)
qed

text \<open>What \<open>sub_allocated\<close> returns is a lease of the block.\<close>

lemma sub_allocated_lease:
  assumes "sub_allocated o1 (o1 div 2 ^ m) entry st = (a, st')" "mMemoryBlockSize st = 2 ^ m" "n \<le> 2 ^ m"
    "o1 div 2 ^ m < length (mTrackedSubAllocations st)"
  shows "lease_block (a, n) = (o1, rounded n)" "lease_index m (a, n) = o1 div 2 ^ m"
    "mTrackedSubAllocations st' = (mTrackedSubAllocations st)[o1 div 2 ^ m := entry\<lparr> refcount := Suc (refcount entry) \<rparr>]"
    "lease_ok m (mTrackedSubAllocations st') (a, n)" "mMemoryOffset a = o1 mod 2 ^ m"
    "mBuddyBlockAllocator st' = mBuddyBlockAllocator st" "mMemoryBlockSize st' = mMemoryBlockSize st"
  using assms by (auto simp: sub_allocated_def lease_block_def lease_index_def lease_ok_def)

context heap_allocator
begin

lemma Allocate_keeps:
  assumes inv: "mem_inv k m st L" and d: "dinv d" "out d = heaps (mTrackedSubAllocations st)" and a: "a < 64"
    and run: "BuddyMemory_Allocate alloc_heap n (2 ^ a) (st, d) = (r, (st', d'))"
  shows "dinv d' \<and> out d' = heaps (mTrackedSubAllocations st') \<and>
    (case r of
       Inl e \<Rightarrow> e \<noteq> UB \<and> mem_inv k m st' L
     | Inr al \<Rightarrow> if mMethod (mInfo al) = kSubAllocated
         then mem_inv k m st' (add_mset (al, n) L) \<and> 2 ^ a dvd mMemoryOffset al
         else al = ResourceMemoryAllocation0 \<and> st' = st \<and> d' = d)"
proof (cases "n = 0 \<or> n > 2 ^ m")
  case True
  with inv d run show ?thesis
    by (auto simp: BuddyMemory_Allocate_def mem_inv_def ResourceMemoryAllocation0_def)
next
  case False
  let ?T = "mTrackedSubAllocations st"
  from inv obtain t leaked where km: "k < 64" "m \<le> k" "mMemoryBlockSize st = 2 ^ m" "length ?T = 2 ^ (k - m)"
    and tr: "tracked_ok m ?T L" and bi: "buddy_inv k (mBuddyBlockAllocator st) t"
      "mset (allocs 0 (2 ^ k) t) = image_mset lease_block L + leaked" by (auto simp: mem_inv_def)
  from False km rounded_pow2 [of n m] obtain j where j: "j \<le> m" "NextPowerOfTwo (of_nat n) = ok (2 ^ j)"
    "rounded n = 2 ^ j" "n \<le> 2 ^ j" by auto
  have uw: "unat (2 ^ j :: 64 word) = 2 ^ j" using j(1) km pow2_word [of j, where 'w = 64] by simp
  have le: "(2 :: nat) ^ j \<le> 2 ^ m" using j(1) by (intro power_increasing) auto
  have run1: "(case Buddy_Allocate (2 ^ j) (2 ^ a) (mBuddyBlockAllocator st) of
      Inl e \<Rightarrow> (Inl e, (st, d))
    | Inr (blockOffset, bd) \<Rightarrow>
        if blockOffset = kInvalidOffset then (ok ResourceMemoryAllocation0, (st\<lparr> mBuddyBlockAllocator := bd \<rparr>, d))
        else let st1 = st\<lparr> mBuddyBlockAllocator := bd \<rparr> in
          case bindR (GetMemoryIndex st1 blockOffset) (\<lambda>i.
            bindR (vec_at (mTrackedSubAllocations st1) (int i)) (\<lambda>entry. ok (i, entry))) of
            Inl e \<Rightarrow> (Inl e, (st1, d))
          | Inr (memoryIndex, entry) \<Rightarrow>
              if refcount entry = 0 then
                (case alloc_heap (mMemoryBlockSize st1) d of
                   (Inl e, d') \<Rightarrow> (Inl e, (st1, d'))
                 | (Inr memory, d') \<Rightarrow>
                     let (a, st2) = sub_allocated blockOffset memoryIndex
                                      \<lparr> refcount = 0, mMemoryAllocation = Some memory \<rparr> st1
                     in (ok a, (st2, d')))
              else let (a, st2) = sub_allocated blockOffset memoryIndex entry st1 in (ok a, (st2, d)))
    = (r, (st', d'))"
    using run False km(3) j(2) uw le by (simp add: BuddyMemory_Allocate_def)
  from j(1) km(2) have "j \<le> k" by simp
  from Buddy_Allocate_spec [OF bi(1) this a] show ?thesis
  proof
    assume "Buddy_Allocate (2 ^ j) (2 ^ a) (mBuddyBlockAllocator st) = ok (kInvalidOffset, mBuddyBlockAllocator st) \<and>
      (\<forall>i \<le> k - j. a \<le> k - i \<longrightarrow> free_at i t = {})"
    with run1 d show ?thesis by (auto simp: ResourceMemoryAllocation0_def)
  next
    assume "\<exists>o1 bd t'. Buddy_Allocate (2 ^ j) (2 ^ a) (mBuddyBlockAllocator st) = ok (o1, bd) \<and> o1 \<noteq> kInvalidOffset \<and> 2 ^ a dvd o1 \<and>
      buddy_inv k bd t' \<and> mset (allocs 0 (2 ^ k) t') = add_mset (o1, 2 ^ j) (mset (allocs 0 (2 ^ k) t))"
    then obtain o1 bd t' where al: "Buddy_Allocate (2 ^ j) (2 ^ a) (mBuddyBlockAllocator st) = ok (o1, bd)"
      "o1 \<noteq> kInvalidOffset" "2 ^ a dvd o1" "buddy_inv k bd t'"
      "mset (allocs 0 (2 ^ k) t') = add_mset (o1, 2 ^ j) (mset (allocs 0 (2 ^ k) t))" by blast
    let ?st1 = "st\<lparr> mBuddyBlockAllocator := bd \<rparr>" and ?i = "o1 div 2 ^ m"
    have "(o1, 2 ^ j) \<in> set (allocs 0 (2 ^ k) t')" using al(5) by (metis set_mset_mset union_single_eq_member)
    from allocs_range [OF this] have "o1 + 2 ^ j \<le> 2 ^ k" by simp
    then have i: "?i < length ?T" using div_index [of o1 "2 ^ j" k m] km by simp
    have run2: "(if refcount (?T ! ?i) = 0 then
          (case alloc_heap (mMemoryBlockSize ?st1) d of
             (Inl e, d') \<Rightarrow> (Inl e, (?st1, d'))
           | (Inr memory, d') \<Rightarrow>
               let (a, st2) = sub_allocated o1 ?i \<lparr> refcount = 0, mMemoryAllocation = Some memory \<rparr> ?st1
               in (ok a, (st2, d')))
        else let (a, st2) = sub_allocated o1 ?i (?T ! ?i) ?st1 in (ok a, (st2, d))) = (r, (st', d'))"
      using run1 al(1,2) i km(3) vec_at_nat [OF i] by (simp add: GetMemoryIndex_def Let_def)
    have lease: "mem_inv k m st2 (add_mset (al, n) L)"
      if "sub_allocated o1 ?i e ?st1 = (al, st2)" "tracked_ok m (mTrackedSubAllocations st2) (add_mset (al, n) L)" for al st2 e
    proof -
      have s: "lease_block (al, n) = (o1, rounded n)" "mBuddyBlockAllocator st2 = bd" "mMemoryBlockSize st2 = 2 ^ m"
        "length (mTrackedSubAllocations st2) = 2 ^ (k - m)"
        using sub_allocated_lease [OF that(1), of n] False i km by simp_all
      with that(2) al(4,5) bi(2) km j(3) show ?thesis
        unfolding mem_inv_def by (auto intro!: exI [of _ t'] exI [of _ leaked])
    qed
    show ?thesis
    proof (cases "refcount (?T ! ?i) = 0")
      case False': False
      obtain al st2 where s: "sub_allocated o1 ?i (?T ! ?i) ?st1 = (al, st2)" by (cases "sub_allocated o1 ?i (?T ! ?i) ?st1")
      with run2 False' have r: "r = ok al" "st' = st2" "d' = d" by auto
      have n: "n \<le> 2 ^ m" using False by simp
      note sl = sub_allocated_lease [OF s _ n, simplified, OF km(3) i]
      have "lease_ok m ?T (al, n)"
        using sl(2,4) i by (auto simp: lease_ok_def sl(3) nth_list_update)
      from tracked_ok_share [OF tr i False' sl(2) this] sl(3)
      have "tracked_ok m (mTrackedSubAllocations st2) (add_mset (al, n) L)" "heaps (mTrackedSubAllocations st2) = heaps ?T"
        by simp_all
      moreover have "2 ^ a dvd mMemoryOffset al" using al(3) dvd_local by (simp add: sl(5))
      ultimately show ?thesis using lease [OF s] r d sl(4) by (simp add: lease_ok_def)
    next
      case True
      show ?thesis
      proof (cases "alloc_heap (2 ^ m) d")
        case (Pair r1 d1)
        show ?thesis
        proof (cases r1)
          case (Inl e)
          with run2 True Pair km(3) have r: "r = Inl e" "st' = ?st1" "d' = d1" by auto
          have "mem_inv k m ?st1 L" using inv al(4,5) bi(2) unfolding mem_inv_def
            by (auto intro!: exI [of _ t'] exI [of _ "add_mset (o1, 2 ^ j) leaked"])
          with r alloc_fails [OF d(1)] Pair Inl d(2) show ?thesis by auto
        next
          case (Inr h)
          obtain al st2 where s: "sub_allocated o1 ?i \<lparr> refcount = 0, mMemoryAllocation = Some h \<rparr> ?st1 = (al, st2)"
            by (cases "sub_allocated o1 ?i \<lparr> refcount = 0, mMemoryAllocation = Some h \<rparr> ?st1")
          with run2 True Pair Inr km(3) have r: "r = ok al" "st' = st2" "d' = d1" by auto
          have n: "n \<le> 2 ^ m" using False by simp
          note sl = sub_allocated_lease [OF s _ n, simplified, OF km(3) i]
          have h: "dinv d1" "h \<notin> heaps ?T" "out d1 = insert h (heaps ?T)" using alloc_ok [OF d(1)] Pair Inr d(2) by auto
          from tracked_ok_first [OF tr i True h(2) sl(2)] sl(3,4)
          have "tracked_ok m (mTrackedSubAllocations st2) (add_mset (al, n) L)"
            "heaps (mTrackedSubAllocations st2) = insert h (heaps ?T)" by simp_all
          moreover have "2 ^ a dvd mMemoryOffset al" using al(3) dvd_local by (simp add: sl(5))
          ultimately show ?thesis using lease [OF s] r h sl(4) by (simp add: lease_ok_def)
        qed
      qed
    qed
  qed
qed

lemma Deallocate_keeps:
  assumes inv: "mem_inv k m st (add_mset l L)" and d: "dinv d" "out d = heaps (mTrackedSubAllocations st)"
  shows "\<exists>st' d'. BuddyMemory_Deallocate free_heap (fst l) (st, d) = Some (ok (st', d')) \<and> mem_inv k m st' L \<and>
    dinv d' \<and> out d' = heaps (mTrackedSubAllocations st')"
proof -
  let ?T = "mTrackedSubAllocations st" and ?i = "lease_index m l" and ?o = "mBlockOffset (mInfo (fst l))"
  from inv obtain t leaked where km: "k < 64" "m \<le> k" "mMemoryBlockSize st = 2 ^ m" "length ?T = 2 ^ (k - m)"
    and tr: "tracked_ok m ?T (add_mset l L)" and bi: "buddy_inv k (mBuddyBlockAllocator st) t"
      "mset (allocs 0 (2 ^ k) t) = add_mset (lease_block l) (image_mset lease_block L + leaked)" by (auto simp: mem_inv_def)
  have "lease_block l \<in> set (allocs 0 (2 ^ k) t)" using bi(2) by (metis set_mset_mset union_single_eq_member)
  then have blk: "(?o, rounded (snd l)) \<in> set (allocs 0 (2 ^ k) t)" by (simp add: lease_block_def)
  from Buddy_Deallocate_spec [OF bi(1) blk] obtain bd t' where bd: "Buddy_Deallocate ?o (mBuddyBlockAllocator st) = Some (ok bd)"
    "buddy_inv k bd t'" "mset (allocs 0 (2 ^ k) t) = add_mset (?o, rounded (snd l)) (mset (allocs 0 (2 ^ k) t'))" by blast
  have "(2 :: nat) ^ k \<le> 2 ^ 63" using km(1) by (intro power_increasing) auto
  then have valid: "?o \<noteq> kInvalidOffset" using allocs_range [OF blk] by (simp add: kInvalidOffset_def)
  define n where "n = refcount (?T ! ?i) - 1"
  define T' where "T' = ?T[?i := if n = 0 then \<lparr> refcount = n, mMemoryAllocation = None \<rparr> else (?T ! ?i)\<lparr> refcount := n \<rparr>]"
  note rel = tracked_ok_release [OF tr refl, folded n_def, folded T'_def]
  obtain h where h: "mMemoryAllocation (?T ! ?i) = Some h" "h \<in> heaps ?T" "heaps T' = (if n = 0 then heaps ?T - {h} else heaps ?T)"
    using rel(3) by blast
  let ?d = "if n = 0 then free_heap h d else d"
  let ?st = "st\<lparr> mTrackedSubAllocations := T', mBuddyBlockAllocator := bd \<rparr>"
  have idx: "GetMemoryIndex st ?o = ok ?i" using valid km(3) by (simp add: GetMemoryIndex_def lease_index_def)
  have "mMethod (mInfo (fst l)) = kSubAllocated" using tr by (simp add: tracked_ok_def lease_ok_def)
  then have "BuddyMemory_Deallocate free_heap (fst l) (st, d) = Some (ok (?st, ?d))"
    using idx rel(1,2) h(1) bd(1)
    by (simp add: BuddyMemory_Deallocate_def Let_def n_def T'_def)
  moreover have "dinv ?d \<and> out ?d = heaps T'" using free_ok [OF d(1)] h d by auto
  moreover have "image_mset lease_block L + leaked = mset (allocs 0 (2 ^ k) t')"
    using bi(2) bd(3) by (simp add: lease_block_def)
  then have "mem_inv k m ?st L"
    using km rel(4) bd(2) unfolding mem_inv_def by (auto simp: T'_def intro!: exI [of _ t'] exI [of _ leaked])
  ultimately show ?thesis by auto
qed

end

section \<open>Runs\<close>

text \<open>The states a memory allocator with heaps of \<open>2 ^ m\<close> bytes reaches over a heap allocator,
  with the leases its clients hold; a failed creation of a heap is an ordinary step.\<close>

inductive mem_run :: "(nat \<Rightarrow> 'd \<Rightarrow> 'h res \<times> 'd) \<Rightarrow> ('h \<Rightarrow> 'd \<Rightarrow> 'd) \<Rightarrow> 'd \<Rightarrow> nat \<Rightarrow> nat \<Rightarrow>
    'h buddy_memory \<times> 'd \<Rightarrow> 'h lease list \<Rightarrow> bool"
  for alloc_heap free_heap d0 k m where
  mem_start: "BuddyMemoryAllocator (2 ^ k) (2 ^ m) = ok st \<Longrightarrow> mem_run alloc_heap free_heap d0 k m (st, d0) []"
| mem_alloc: "mem_run alloc_heap free_heap d0 k m s live \<Longrightarrow> a < 64 \<Longrightarrow>
    BuddyMemory_Allocate alloc_heap n (2 ^ a) s = (ok al, s') \<Longrightarrow>
    mem_run alloc_heap free_heap d0 k m s' (if mMethod (mInfo al) = kSubAllocated then live @ [(al, n)] else live)"
| mem_alloc_fails: "mem_run alloc_heap free_heap d0 k m s live \<Longrightarrow> a < 64 \<Longrightarrow>
    BuddyMemory_Allocate alloc_heap n (2 ^ a) s = (Inl e, s') \<Longrightarrow> mem_run alloc_heap free_heap d0 k m s' live"
| mem_dealloc: "mem_run alloc_heap free_heap d0 k m s live \<Longrightarrow> l \<in> set live \<Longrightarrow>
    BuddyMemory_Deallocate free_heap (fst l) s = Some (ok s') \<Longrightarrow>
    mem_run alloc_heap free_heap d0 k m s' (remove1 l live)"

lemma BuddyMemoryAllocator_inv:
  assumes "k < 64" "m \<le> k" "BuddyMemoryAllocator (2 ^ k) (2 ^ m) = ok st"
  shows "mem_inv k m st {#} \<and> heaps (mTrackedSubAllocations st) = {}"
proof -
  obtain bd where bd: "BuddyAllocator (2 ^ k) = ok bd" "buddy_inv k bd (Leaf 0 LFree)"
    using BuddyAllocator_inv [OF assms(1)] by blast
  have "(2 :: nat) ^ m \<le> 2 ^ k" "(2 :: nat) ^ k mod 2 ^ m = 0"
    using assms(2) le_imp_power_dvd [OF assms(2), of "2 :: nat"] by (simp_all add: dvd_imp_mod_0)
  then have st: "st = \<lparr> mMemoryBlockSize = 2 ^ m, mBuddyBlockAllocator = bd,
      mTrackedSubAllocations = replicate (2 ^ (k - m)) \<lparr> refcount = 0, mMemoryAllocation = None \<rparr> \<rparr>"
    using assms bd(1) assert_pow2_ok [of m] by (simp add: BuddyMemoryAllocator_def power_diff)
  have "tracked_ok m (mTrackedSubAllocations st) {#}"
    by (simp add: st tracked_ok_def counts_ok_def own_heaps_def)
  then have "mem_inv k m st {#}"
    using assms(1,2) bd(2) unfolding mem_inv_def by (auto simp: st intro!: exI [of _ "Leaf 0 LFree"])
  moreover have "heaps (mTrackedSubAllocations st) = {}" by (auto simp: st heaps_nth)
  ultimately show ?thesis by blast
qed

context heap_allocator
begin

lemma mem_run_inv:
  assumes "mem_run alloc_heap free_heap d0 k m s live" "k < 64" "m \<le> k" "dinv d0" "out d0 = {}"
  shows "mem_inv k m (fst s) (mset live) \<and> dinv (snd s) \<and> out (snd s) = heaps (mTrackedSubAllocations (fst s))"
  using assms(1)
proof (induction rule: mem_run.induct)
  case (mem_start st)
  then show ?case using BuddyMemoryAllocator_inv [OF assms(2,3) mem_start] assms(4,5) by simp
next
  case (mem_alloc s live a n al s')
  obtain st d st' d' where s: "s = (st, d)" "s' = (st', d')" by (cases s; cases s')
  with mem_alloc Allocate_keeps [of k m st "mset live" d a n "ok al" st' d'] show ?case
    by (auto split: if_splits)
next
  case (mem_alloc_fails s live a n e s')
  obtain st d st' d' where s: "s = (st, d)" "s' = (st', d')" by (cases s; cases s')
  with mem_alloc_fails Allocate_keeps [of k m st "mset live" d a n "Inl e" st' d'] show ?case by auto
next
  case (mem_dealloc s live l s')
  obtain st d where s: "s = (st, d)" by (cases s)
  have "add_mset l (mset (remove1 l live)) = mset live" using mem_dealloc.hyps(2) by simp
  then have "mem_inv k m st (add_mset l (mset (remove1 l live)))" using mem_dealloc.IH by (simp only: s fst_conv)
  with mem_dealloc.IH have "\<exists>st' d'. BuddyMemory_Deallocate free_heap (fst l) (st, d) = Some (ok (st', d')) \<and>
      mem_inv k m st' (mset (remove1 l live)) \<and> dinv d' \<and> out d' = heaps (mTrackedSubAllocations st')"
    by (intro Deallocate_keeps) (simp_all add: s)
  with mem_dealloc.hyps(3) show ?case by (auto simp: s)
qed

text \<open>Two leases of one heap do not overlap inside it.\<close>

lemma leases_apart:
  assumes "mem_inv k m st (mset live)" "i < j" "j < length live"
    "lease_index m (live ! i) = lease_index m (live ! j)"
  shows "apart (mMemoryOffset (fst (live ! i)), snd (live ! i)) (mMemoryOffset (fst (live ! j)), snd (live ! j))"
proof -
  let ?T = "mTrackedSubAllocations st"
  from assms(1) obtain t leaked where km: "k < 64" "m \<le> k" and tr: "tracked_ok m ?T (mset live)"
    and bi: "mset (allocs 0 (2 ^ k) t) = mset (map lease_block live) + leaked" by (auto simp: mem_inv_def)
  obtain rest where "leaked = mset rest" using ex_mset by metis
  with bi have "mset (allocs 0 (2 ^ k) t) = mset (map lease_block live @ rest)" by simp
  from pairwise_apart_mset [OF this allocs_apart] have "pairwise_apart (map lease_block live)"
    by (simp add: pairwise_apart_append)
  from pairwise_apart_nth [OF this, of i j] assms(2,3)
  have "apart (lease_block (live ! i)) (lease_block (live ! j))" by simp
  moreover have ok: "lease_ok m ?T (live ! x)" if "x < length live" for x using tr that by (simp add: tracked_ok_def)
  have "snd (live ! x) \<le> rounded (snd (live ! x))" if "x < length live" for x
    using ok [OF that] rounded_pow2 [of "snd (live ! x)" m] km by (auto simp: lease_ok_def)
  note r = this [of i] this [of j]
  have local: "mBlockOffset (mInfo (fst (live ! x))) = lease_index m (live ! x) * 2 ^ m + mMemoryOffset (fst (live ! x))"
    if "x < length live" for x
    using ok [OF that] div_mult_mod_eq [of "mBlockOffset (mInfo (fst (live ! x)))" "2 ^ m"]
    by (simp add: lease_ok_def lease_index_def)
  ultimately show ?thesis using r local [of i] local [of j] assms(2-4) by (auto simp: apart_def lease_block_def)
qed

lemma lease_inside:
  assumes "mem_inv k m st (mset live)" "l \<in> set live"
  shows "mMemoryOffset (fst l) + snd l \<le> 2 ^ m"
proof -
  from assms(1) obtain t leaked where km: "k < 64" "m \<le> k" and tr: "tracked_ok m (mTrackedSubAllocations st) (mset live)"
    and bi: "buddy_inv k (mBuddyBlockAllocator st) t" "mset (allocs 0 (2 ^ k) t) = mset (map lease_block live) + leaked"
    by (auto simp: mem_inv_def)
  have ok: "lease_ok m (mTrackedSubAllocations st) l" using tr assms(2) by (simp add: tracked_ok_def)
  then obtain j where j: "j \<le> m" "rounded (snd l) = 2 ^ j" "snd l \<le> 2 ^ j"
    using rounded_pow2 [of "snd l" m] km by (auto simp: lease_ok_def)
  have "lease_block l \<in># mset (allocs 0 (2 ^ k) t)" using assms(2) by (simp add: bi(2))
  then have "lease_block l \<in> set (allocs 0 (2 ^ k) t)" by simp
  moreover have "height t \<le> k" using bi(1) by (simp add: buddy_inv_def core_def)
  ultimately have "2 ^ j dvd mBlockOffset (mInfo (fst l))"
    using allocs_sized [of t k 0 "mBlockOffset (mInfo (fst l))" "2 ^ j"] by (auto simp: lease_block_def j(2))
  then have "2 ^ j dvd mMemoryOffset (fst l)" using ok dvd_local by (simp add: lease_ok_def)
  moreover have "(2 :: nat) ^ j dvd 2 ^ m" using j(1) by (rule le_imp_power_dvd)
  moreover have "mMemoryOffset (fst l) < 2 ^ m" using ok by (simp add: lease_ok_def)
  ultimately have "mMemoryOffset (fst l) + 2 ^ j \<le> 2 ^ m" by (rule aligned_fits)
  then show ?thesis using j(3) by linarith
qed

end

text \<open>
  C19. Over every heap allocator that keeps its contract, and also when the creation of heaps
  fails: each sub-allocation lies inside its heap, two sub-allocations of one heap do not
  overlap, a heap is handed out by the heap allocator exactly while some sub-allocation uses it, and
  releasing a sub-allocation returns without undefined behaviour.
\<close>

theorem mem_run_safe:
  assumes "heap_allocator dinv alloc_heap free_heap out" "mem_run alloc_heap free_heap d0 k m (st, d) live"
    "k < 64" "m \<le> k" "dinv d0" "out d0 = {}"
  shows "(\<forall>(al, n) \<in> set live. mMemoryOffset al + n \<le> 2 ^ m) \<and>
    (\<forall>i < length live. \<forall>j < length live. i \<noteq> j \<and> mResourceHeap (fst (live ! i)) = mResourceHeap (fst (live ! j)) \<longrightarrow>
      apart (mMemoryOffset (fst (live ! i)), snd (live ! i)) (mMemoryOffset (fst (live ! j)), snd (live ! j))) \<and>
    Some ` out d = (mResourceHeap \<circ> fst) ` set live \<and>
    (\<forall>(al, n) \<in> set live. \<exists>s'. BuddyMemory_Deallocate free_heap al (st, d) = Some (ok s'))"
proof -
  note inv = heap_allocator.mem_run_inv [OF assms, simplified]
  let ?T = "mTrackedSubAllocations st"
  have tr: "tracked_ok m ?T (mset live)" using inv by (simp add: mem_inv_def)
  then have ok: "lease_ok m ?T l" if "l \<in> set live" for l using that by (simp add: tracked_ok_def)
  have heap_of: "\<exists>h. mResourceHeap (fst l) = Some h \<and> mMemoryAllocation (?T ! lease_index m l) = Some h" if "l \<in> set live" for l
  proof -
    have i: "lease_index m l < length ?T" using ok [OF that] by (simp add: lease_ok_def)
    then have "refcount (?T ! lease_index m l) \<noteq> 0" using no_lease [OF tr i, of l] that by auto
    then have "mMemoryAllocation (?T ! lease_index m l) \<noteq> None"
      using entry_backed [OF tr i] by simp
    then show ?thesis using ok [OF that] by (auto simp: lease_ok_def)
  qed
  have same: "lease_index m l = lease_index m l'" if "l \<in> set live" "l' \<in> set live" "mResourceHeap (fst l) = mResourceHeap (fst l')" for l l'
    using heap_of [OF that(1)] heap_of [OF that(2)] that(3) ok [OF that(1)] ok [OF that(2)] tr
    unfolding tracked_ok_def own_heaps_def lease_ok_def by fastforce
  have apart: "apart (mMemoryOffset (fst (live ! i)), snd (live ! i)) (mMemoryOffset (fst (live ! j)), snd (live ! j))"
    if "i < length live" "j < length live" "i \<noteq> j" "mResourceHeap (fst (live ! i)) = mResourceHeap (fst (live ! j))" for i j
    using heap_allocator.leases_apart [OF assms(1), of k m st live i j] heap_allocator.leases_apart [OF assms(1), of k m st live j i]
      inv that same [of "live ! i" "live ! j"] by (cases "i < j") (auto simp: apart_sym)
  have "Some ` out d = (mResourceHeap \<circ> fst) ` set live"
  proof (intro equalityI subsetI)
    fix x
    assume "x \<in> Some ` out d"
    then obtain h i where h: "x = Some h" "i < length ?T" "mMemoryAllocation (?T ! i) = Some h" using inv by (auto simp: heaps_nth)
    then obtain l where "l \<in> set live" "lease_index m l = i" using entry_backed [OF tr h(2)] entry_lease [OF tr h(2)] by auto
    with h ok [of l] show "x \<in> (mResourceHeap \<circ> fst) ` set live" by (force simp: lease_ok_def)
  next
    fix x
    assume "x \<in> (mResourceHeap \<circ> fst) ` set live"
    then obtain l where l: "l \<in> set live" "x = mResourceHeap (fst l)" by auto
    with heap_of [OF l(1)] ok [OF l(1)] inv show "x \<in> Some ` out d" by (auto simp: heaps_nth lease_ok_def)
  qed
  moreover have "\<exists>s'. BuddyMemory_Deallocate free_heap al (st, d) = Some (ok s')" if "(al, n) \<in> set live" for al n
    using heap_allocator.Deallocate_keeps [OF assms(1), of k m st "(al, n)" "mset live - {#(al, n)#}" d] inv that by auto
  ultimately show ?thesis using heap_allocator.lease_inside [OF assms(1)] inv apart by fastforce
qed

text \<open>A concrete lease: three bytes of a heap of sixteen, over a pool of numbered heaps.\<close>

lemma two_entries: "replicate 2 e = [e, e]"
  by (simp add: numeral_2_eq_2)

lemma first_lease:
  "\<exists>st d al. mem_run (Pooled_AllocateResourceHeap number_heap) Pooled_DeallocateResourceHeap ([], (0, [])) 5 4 (st, d) [(al, 3)]"
proof -
  let ?alloc = "Pooled_AllocateResourceHeap number_heap" and ?free = Pooled_DeallocateResourceHeap and ?d0 = "([], (0, []))"
  obtain bd where bd: "BuddyAllocator (2 ^ 5) = ok bd" "buddy_inv 5 bd (Leaf 0 LFree)" using BuddyAllocator_inv [of 5] by auto
  let ?e = "\<lparr> refcount = 0, mMemoryAllocation = None \<rparr> :: nat tracked"
  let ?st = "\<lparr> mMemoryBlockSize = 16, mBuddyBlockAllocator = bd, mTrackedSubAllocations = [?e, ?e] \<rparr>"
  have "BuddyMemoryAllocator (2 ^ 5) (2 ^ 4) = ok ?st"
    using bd(1) assert_pow2_ok [of 4] by (simp add: BuddyMemoryAllocator_def two_entries)
  then have run: "mem_run ?alloc ?free ?d0 5 4 (?st, ?d0) []" by (rule mem_start)
  obtain j where j: "j \<le> 2" "NextPowerOfTwo (of_nat 3) = ok (2 ^ j)" "3 \<le> (2 :: nat) ^ j" using rounded_pow2 [of 3 2] by auto
  then have "j = 2" by (cases "j = 0"; cases "j = 1") auto
  with j(2) have np: "NextPowerOfTwo 3 = ok 4" by simp
  from Buddy_Allocate_spec [OF bd(2), of 2 0] obtain o1 bd' t' where o1: "Buddy_Allocate 4 1 bd = ok (o1, bd')" "o1 \<noteq> kInvalidOffset"
    "mset (allocs 0 (2 ^ 5) t') = {#(o1, 4)#}" by auto
  then have "(o1, 4) \<in> set (allocs 0 (2 ^ 5) t')" by (metis set_mset_mset set_mset_single singletonI)
  from allocs_range [OF this] have "o1 div 16 < 2" by simp
  then have i: "vec_at [?e, ?e] (int (o1 div 16)) = ok ?e" by (auto simp: vec_at_def less_2_cases_iff nth_Cons')
  have pool: "?alloc 16 ?d0 = (ok 0, ([], (1, [0])))" by (simp add: Pooled_AllocateResourceHeap_def number_heap_def)
  obtain al st' where s: "sub_allocated o1 (o1 div 16) \<lparr> refcount = 0, mMemoryAllocation = Some (0 :: nat) \<rparr> (?st\<lparr> mBuddyBlockAllocator := bd' \<rparr>) = (al, st')"
    by (metis surj_pair)
  have "BuddyMemory_Allocate ?alloc 3 (2 ^ 0) (?st, ?d0) = (ok al, (st', ([], (1, [0]))))"
    using np o1(1,2) i s pool by (simp add: BuddyMemory_Allocate_def GetMemoryIndex_def zdiv_int)
  from mem_alloc [OF run _ this] have "mem_run ?alloc ?free ?d0 5 4 (st', ([], (1, [0])))
      (if mMethod (mInfo al) = kSubAllocated then [] @ [(al, 3)] else [])" by simp
  moreover have "mMethod (mInfo al) = kSubAllocated" using s by (auto simp: sub_allocated_def)
  ultimately have "mem_run ?alloc ?free ?d0 5 4 (st', ([], (1, [0]))) [(al, 3)]" by simp
  then show ?thesis by blast
qed

theorem mem_run_safe_witness:
  "\<exists>st d al s'. mem_run (Pooled_AllocateResourceHeap number_heap) Pooled_DeallocateResourceHeap ([], (0, [])) 5 4 (st, d) [(al, 3)] \<and>
     mMemoryOffset al + 3 \<le> 16 \<and> BuddyMemory_Deallocate Pooled_DeallocateResourceHeap al (st, d) = Some (ok s')"
proof -
  obtain st d al where run: "mem_run (Pooled_AllocateResourceHeap number_heap) Pooled_DeallocateResourceHeap ([], (0, [])) 5 4 (st, d) [(al, 3)]"
    using first_lease by blast
  from mem_run_safe [OF pool.heap_allocator_axioms run] obtain s' where
    "mMemoryOffset al + 3 \<le> 16" "BuddyMemory_Deallocate Pooled_DeallocateResourceHeap al (st, d) = Some (ok s')"
    by (auto simp: pool_inv_def pool_out_def)
  with run show ?thesis by blast
qed

end
