(* ===== verification/Buffer_Map.thy ===== *)
theory Buffer_Map
  imports Serial_Storage Dawn_Math
begin

unbundle bit_operations_syntax

text \<open>
  Mapping of buffers: \<open>dawn_native/Buffer.cpp\<close> with the parts of \<open>Device.cpp\<close>, \<open>Queue.cpp\<close> and
  \<open>ObjectBase.cpp\<close> it goes through. The model follows one buffer: its members, the map requests
  of the queue that is to finish them, and the callbacks the application has received. What the
  application does inside a callback is the argument \<open>app\<close>, a function on the state, so
  re-entrant calls are executions of the same operations. The backend is the record
  \<open>buffer_backend\<close>. \<open>ContextLost\<close> stands for the internal error type \<open>DeviceLost\<close>.
\<close>

section \<open>State\<close>

datatype buffer_state = Unmapped | Mapped | MappedAtCreation | Destroyed

datatype map_status = Map_Success | Map_Error | Map_DeviceLost | Map_DestroyedBeforeCallback | Map_UnmappedBeforeCallback

text \<open>Usages and modes are the masks of the sources.\<close>

type_synonym usage = "32 word"

abbreviation MapRead :: usage where "MapRead \<equiv> 1"
abbreviation MapWrite :: usage where "MapWrite \<equiv> 2"
abbreviation CopySrc :: usage where "CopySrc \<equiv> 4"
abbreviation CopyDst :: usage where "CopyDst \<equiv> 8"
abbreviation Storage :: usage where "Storage \<equiv> 128"
abbreviation Indirect :: usage where "Indirect \<equiv> 256"
abbreviation QueryResolve :: usage where "QueryResolve \<equiv> 512"
abbreviation Mode_Read :: usage where "Mode_Read \<equiv> 1"
abbreviation Mode_Write :: usage where "Mode_Write \<equiv> 2"

definition kInternalStorageBuffer :: usage where "kInternalStorageBuffer = 0x40000000"
definition kReadOnlyStorageBuffer :: usage where "kReadOnlyStorageBuffer = 0x80000000"

text \<open>\<open>mMapCallback\<close> and \<open>mStagingBuffer\<close> are pointers; a staging buffer is its size.\<close>

record buffer =
  is_error :: bool
  mSize :: nat
  mUsage :: usage
  mState :: buffer_state
  mIsDataInitialized :: bool
  mStagingBuffer :: "nat option"
  mMapCallback :: "nat option"
  mMapUserdata :: nat
  mLastMapID :: nat
  mMapMode :: usage
  mMapOffset :: nat
  mMapSize :: nat
  mAllocatedSize :: nat

text \<open>The events of a run. \<open>Requested\<close> is not written by the code: the application notes with it that it
  passes a callback to \<open>MapAsync\<close>.\<close>

datatype buffer_event =
    Requested nat nat
  | MapCallback nat nat map_status
  | UnmapImpl
  | CopiedFromStaging
  | DeviceError internal_error_type string

record world =
  buf :: buffer
  in_list :: bool
  lost :: bool
  pending_serial :: nat
  mTasksInFlight :: "nat storage"
  events :: "buffer_event list"

record buffer_backend =
  IsCPUWritableAtCreation :: bool
  MapAtCreationImpl :: "unit res"
  MapAsyncImpl :: "usage \<Rightarrow> nat \<Rightarrow> nat \<Rightarrow> unit res"
  CreateStagingBuffer :: "nat \<Rightarrow> unit res"
  CopyFromStagingToBuffer :: "unit res"
  GetMappedPointerImpl :: bool

type_synonym app = "nat \<Rightarrow> nat \<Rightarrow> map_status \<Rightarrow> world \<Rightarrow> world res option"

text \<open>\<open>SIZE_MAX\<close>.\<close>

definition kWholeMapSize :: nat where "kWholeMapSize = 2 ^ 64 - 1"

definition log_event :: "buffer_event \<Rightarrow> world \<Rightarrow> world" where
  "log_event e w = w\<lparr> events := events w @ [e] \<rparr>"

section \<open>Creation\<close>

record buffer_descriptor =
  nextInChain :: bool
  desc_usage :: usage
  desc_size :: nat
  mappedAtCreation :: bool

definition ValidateBufferUsage :: "usage \<Rightarrow> unit res" where
  "ValidateBufferUsage value =
     (if value AND NOT 1023 = 0 then ok () else validation_error ''Invalid value for WGPUBufferUsage'')"

definition ValidateBufferDescriptor :: "buffer_descriptor \<Rightarrow> unit res" where
  "ValidateBufferDescriptor d =
     (if nextInChain d then validation_error ''nextInChain must be nullptr''
      else bindR (ValidateBufferUsage (desc_usage d)) (\<lambda>_.
        if desc_usage d AND MapWrite \<noteq> 0 \<and> \<not> IsSubset (desc_usage d) (MapWrite OR CopySrc)
        then validation_error ''MapWrite allows only CopySrc''
        else if desc_usage d AND MapRead \<noteq> 0 \<and> \<not> IsSubset (desc_usage d) (MapRead OR CopyDst)
        then validation_error ''MapRead allows only CopyDst''
        else if mappedAtCreation d \<and> desc_size d mod 4 \<noteq> 0
        then validation_error ''size is not a multiple of 4''
        else ok ()))"

definition add_internal_usages :: "usage \<Rightarrow> usage" where
  "add_internal_usages u =
     (let u1 = (if u AND Storage \<noteq> 0 then u OR kReadOnlyStorageBuffer else u);
          u2 = (if u1 AND QueryResolve \<noteq> 0 then u1 OR kInternalStorageBuffer else u1)
      in if u2 AND Indirect \<noteq> 0 then u2 OR kInternalStorageBuffer else u2)"

text \<open>The constructor for a backend's buffer of the given allocated size, and that of an error
  buffer, which is tracked by the device only when it is mapped.\<close>

definition BufferBase :: "buffer_descriptor \<Rightarrow> nat \<Rightarrow> buffer" where
  "BufferBase d allocated =
     \<lparr> is_error = False, mSize = desc_size d, mUsage = add_internal_usages (desc_usage d), mState = Unmapped,
       mIsDataInitialized = False, mStagingBuffer = None, mMapCallback = None, mMapUserdata = 0, mLastMapID = 0,
       mMapMode = 0, mMapOffset = 0, mMapSize = 0, mAllocatedSize = allocated \<rparr>"

definition ErrorBuffer :: "buffer_descriptor \<Rightarrow> buffer" where
  "ErrorBuffer d =
     \<lparr> is_error = True, mSize = desc_size d, mUsage = 0,
       mState = (if mappedAtCreation d then MappedAtCreation else Unmapped),
       mIsDataInitialized = False, mStagingBuffer = None, mMapCallback = None, mMapUserdata = 0, mLastMapID = 0,
       mMapMode = 0, mMapOffset = 0, mMapSize = (if mappedAtCreation d then desc_size d else 0), mAllocatedSize = 0 \<rparr>"

definition GetAllocatedSize :: "buffer \<Rightarrow> nat res" where
  "GetAllocatedSize b = bindR (assertR (\<not> is_error b)) (\<lambda>_. bindR (assertR (mAllocatedSize b \<noteq> 0)) (\<lambda>_. ok (mAllocatedSize b)))"

definition MapAtCreationInternal :: "buffer_backend \<Rightarrow> buffer \<Rightarrow> buffer res" where
  "MapAtCreationInternal be b =
     bindR (assertR (\<not> is_error b)) (\<lambda>_.
     let b = b\<lparr> mMapOffset := 0, mMapSize := mSize b \<rparr> in
     bindR (if mSize b \<noteq> 0
            then if IsCPUWritableAtCreation be then bindR (MapAtCreationImpl be) (\<lambda>_. ok b)
                 else bindR (GetAllocatedSize b) (\<lambda>n. bindR (CreateStagingBuffer be n) (\<lambda>_. ok (b\<lparr> mStagingBuffer := Some n \<rparr>)))
            else ok b) (\<lambda>b.
       ok (b\<lparr> mState := MappedAtCreation \<rparr>)))"

definition MapAtCreation :: "bool \<Rightarrow> buffer_backend \<Rightarrow> buffer \<Rightarrow> buffer res" where
  "MapAtCreation lazyClear be b =
     bindR (MapAtCreationInternal be b) (\<lambda>b.
     if mSize b = 0 then ok b
     else
       bindR (GetAllocatedSize b) (\<lambda>n.
       bindR (case mStagingBuffer b of Some k \<Rightarrow> assertR (k = n) | None \<Rightarrow> ok ()) (\<lambda>_.
         ok (if lazyClear then b\<lparr> mIsDataInitialized := True \<rparr> else b))))"

text \<open>\<open>DeviceBase::CreateBuffer\<close>; the backend's constructor yields the allocated size.\<close>

definition CreateBuffer :: "bool \<Rightarrow> bool \<Rightarrow> bool \<Rightarrow> nat res \<Rightarrow> buffer_backend \<Rightarrow> buffer_descriptor \<Rightarrow> buffer res" where
  "CreateBuffer device_lost validation lazyClear CreateBufferImpl be d =
     (if device_lost then validation_error ''device is lost''
      else bindR (if validation then ValidateBufferDescriptor d else ok ()) (\<lambda>_.
        bindR CreateBufferImpl (\<lambda>allocated.
        let b = BufferBase d allocated in
        if mappedAtCreation d then MapAtCreation lazyClear be b else ok b)))"

section \<open>Callbacks and the queue\<close>

fun foldRO :: "('a \<Rightarrow> 's \<Rightarrow> 's res option) \<Rightarrow> 'a list \<Rightarrow> 's \<Rightarrow> 's res option" where
  "foldRO f [] s = Some (ok s)"
| "foldRO f (x # xs) s = bindRO (f x s) (foldRO f xs)"

definition CallMapCallback :: "app \<Rightarrow> nat \<Rightarrow> map_status \<Rightarrow> world \<Rightarrow> world res option" where
  "CallMapCallback app mapID status w =
     (if is_error (buf w) then Some undef
      else case mMapCallback (buf w) of
        None \<Rightarrow> Some (ok w)
      | Some callback \<Rightarrow>
          if mapID = mLastMapID (buf w) then
            let w1 = w\<lparr> buf := (buf w)\<lparr> mMapCallback := None \<rparr> \<rparr>;
                s = (if lost w then Map_DeviceLost else status)
            in app callback (mMapUserdata (buf w)) s (log_event (MapCallback callback (mMapUserdata (buf w)) s) w1)
          else Some (ok w))"

definition HandleDeviceLoss :: "app \<Rightarrow> world \<Rightarrow> world res option" where
  "HandleDeviceLoss app w =
     bindRO (IterateAll (mTasksInFlight w)) (\<lambda>ids.
     bindRO (foldRO (\<lambda>mapID. CallMapCallback app mapID Map_DeviceLost) ids w) (\<lambda>w.
       Some (ok (w\<lparr> mTasksInFlight := Storage_Clear (mTasksInFlight w) \<rparr>))))"

text \<open>\<open>HandleError\<close>: an internal error and a lost device end the device and the map requests in
  flight. The result of \<open>ConsumedError\<close> says whether there was an error.\<close>

definition Device_HandleError :: "app \<Rightarrow> internal_error_type \<Rightarrow> string \<Rightarrow> world \<Rightarrow> world res option" where
  "Device_HandleError app t msg w =
     (if t = ContextLost \<or> t = Internal
      then bindRO (HandleDeviceLoss app (w\<lparr> lost := True \<rparr>)) (\<lambda>w. Some (ok (log_event (DeviceError ContextLost msg) w)))
      else Some (ok (log_event (DeviceError t msg) w)))"

definition Consumed :: "app \<Rightarrow> unit res \<Rightarrow> world \<Rightarrow> (bool \<times> world) res option" where
  "Consumed app r w =
     (case r of
        Inr _ \<Rightarrow> Some (ok (False, w))
      | Inl UB \<Rightarrow> Some undef
      | Inl (Error t msg) \<Rightarrow> bindRO (Device_HandleError app t msg w) (\<lambda>w. Some (ok (True, w))))"

definition TrackTask :: "nat \<Rightarrow> world \<Rightarrow> world res" where
  "TrackTask mapID w =
     bindR (SerialQueue_Enqueue mapID (pending_serial w) (mTasksInFlight w)) (\<lambda>q. ok (w\<lparr> mTasksInFlight := q \<rparr>))"

definition Queue_Tick :: "app \<Rightarrow> nat \<Rightarrow> world \<Rightarrow> world res option" where
  "Queue_Tick app finishedSerial w =
     bindRO (IterateUpTo finishedSerial (mTasksInFlight w)) (\<lambda>ids.
       foldRO (\<lambda>mapID. CallMapCallback app mapID Map_Success) ids
         (w\<lparr> mTasksInFlight := ClearUpTo finishedSerial (mTasksInFlight w) \<rparr>))"

section \<open>Mapping\<close>

definition ValidateMapAsync :: "usage \<Rightarrow> nat \<Rightarrow> nat \<Rightarrow> world \<Rightarrow> map_status \<times> unit res" where
  "ValidateMapAsync mode offset sz w =
     (let b = buf w in
      if lost w then (Map_DeviceLost, validation_error ''device is lost'')
      else if is_error b then (Map_Error, validation_error ''buffer is invalid'')
      else if offset > mSize b then (Map_Error, validation_error ''offset is larger than the size'')
      else if offset mod 8 \<noteq> 0 then (Map_Error, validation_error ''offset must be a multiple of 8'')
      else if sz mod 4 \<noteq> 0 then (Map_Error, validation_error ''size must be a multiple of 4'')
      else if sz > mSize b - offset then (Map_Error, validation_error ''range does not fit'')
      else case mState b of
        Mapped \<Rightarrow> (Map_Error, validation_error ''buffer is already mapped'')
      | MappedAtCreation \<Rightarrow> (Map_Error, validation_error ''buffer is already mapped'')
      | Destroyed \<Rightarrow> (Map_Error, validation_error ''buffer is destroyed'')
      | Unmapped \<Rightarrow>
          if (mode AND Mode_Read \<noteq> 0) = (mode AND Mode_Write \<noteq> 0)
          then (Map_Error, validation_error ''map mode is not one of Write or Read'')
          else if mode AND Mode_Read \<noteq> 0
          then if mUsage b AND MapRead = 0 then (Map_Error, validation_error ''usage lacks MapRead'') else (Map_Success, ok ())
          else if mUsage b AND MapWrite = 0 then (Map_Error, validation_error ''usage lacks MapWrite'') else (Map_Success, ok ()))"

definition APIMapAsync :: "app \<Rightarrow> buffer_backend \<Rightarrow> usage \<Rightarrow> nat \<Rightarrow> nat \<Rightarrow> nat option \<Rightarrow> nat \<Rightarrow> world \<Rightarrow> world res option" where
  "APIMapAsync app be mode offset size0 callback userdata w =
     (let sz = (if size0 = kWholeMapSize \<and> offset \<le> mSize (buf w) then mSize (buf w) - offset else size0);
          (status, r) = ValidateMapAsync mode offset sz w
      in bindRO (Consumed app r w) (\<lambda>(failed, w).
        if failed then
          (case callback of None \<Rightarrow> Some (ok w)
           | Some c \<Rightarrow> app c userdata status (log_event (MapCallback c userdata status) w))
        else
          bindRO (Some (assertR (\<not> is_error (buf w)))) (\<lambda>_.
          bindRO (Some (assertR (mLastMapID (buf w) < 2 ^ 64 - 1))) (\<lambda>_.
          let w1 = w\<lparr> buf := (buf w)\<lparr> mLastMapID := mLastMapID (buf w) + 1, mMapMode := mode, mMapOffset := offset,
                       mMapSize := sz, mMapCallback := callback, mMapUserdata := userdata, mState := Mapped \<rparr> \<rparr> in
          bindRO (Consumed app (MapAsyncImpl be mode offset sz) w1) (\<lambda>(failed, w2).
            if failed then CallMapCallback app (mLastMapID (buf w2)) Map_DeviceLost w2
            else Some (TrackTask (mLastMapID (buf w2)) w2))))))"

definition CanGetMappedRange :: "bool \<Rightarrow> nat \<Rightarrow> nat \<Rightarrow> buffer \<Rightarrow> bool res" where
  "CanGetMappedRange writable offset sz b =
     (if offset mod 8 \<noteq> 0 \<or> sz mod 4 \<noteq> 0 then ok False
      else if sz > mMapSize b \<or> offset < mMapOffset b then ok False
      else if offset - mMapOffset b > mMapSize b - sz then ok False
      else case mState b of
        MappedAtCreation \<Rightarrow> ok True
      | Mapped \<Rightarrow> bindR (assertR ((mMapMode b AND Mode_Read \<noteq> 0) \<noteq> (mMapMode b AND Mode_Write \<noteq> 0)))
                    (\<lambda>_. ok (\<not> writable \<or> mMapMode b AND Mode_Write \<noteq> 0))
      | Unmapped \<Rightarrow> ok False
      | Destroyed \<Rightarrow> ok False)"

datatype pointer = Null | Into_Staging nat | Dangling_Constant | Into_Buffer nat

definition GetMappedRange :: "buffer_backend \<Rightarrow> nat \<Rightarrow> nat \<Rightarrow> bool \<Rightarrow> buffer \<Rightarrow> pointer res" where
  "GetMappedRange be offset sz writable b =
     bindR (CanGetMappedRange writable offset sz b) (\<lambda>can.
       ok (if \<not> can then Null
           else if mStagingBuffer b \<noteq> None then Into_Staging offset
           else if mSize b = 0 then Dangling_Constant
           else if GetMappedPointerImpl be then Into_Buffer offset else Null))"

section \<open>Unmapping and destruction\<close>

definition CopyFromStagingBuffer :: "buffer_backend \<Rightarrow> buffer \<Rightarrow> unit res" where
  "CopyFromStagingBuffer be b =
     bindR (assertR (mStagingBuffer b \<noteq> None)) (\<lambda>_.
       if mSize b = 0 then bindR (assertR (mStagingBuffer b = None)) (\<lambda>_. ok ())
       else bindR (GetAllocatedSize b) (\<lambda>_. CopyFromStagingToBuffer be))"

definition UnmapInternal :: "app \<Rightarrow> buffer_backend \<Rightarrow> map_status \<Rightarrow> world \<Rightarrow> world res option" where
  "UnmapInternal app be callbackStatus w =
     bindRO
       (case mState (buf w) of
          Mapped \<Rightarrow>
            bindRO (CallMapCallback app (mLastMapID (buf w)) callbackStatus w) (\<lambda>w.
              let w = log_event UnmapImpl w
              in Some (ok (w\<lparr> buf := (buf w)\<lparr> mMapCallback := None, mMapUserdata := 0 \<rparr> \<rparr>)))
        | MappedAtCreation \<Rightarrow>
            if mStagingBuffer (buf w) \<noteq> None then
              let r = CopyFromStagingBuffer be (buf w);
                  w1 = (if r = ok () then log_event CopiedFromStaging (w\<lparr> buf := (buf w)\<lparr> mStagingBuffer := None \<rparr> \<rparr>) else w)
              in bindRO (Consumed app r w1) (\<lambda>(_, w). Some (ok w))
            else if mSize (buf w) \<noteq> 0 then Some (ok (log_event UnmapImpl w))
            else Some (ok w)
        | _ \<Rightarrow> Some (ok w)) (\<lambda>w.
       Some (ok (w\<lparr> buf := (buf w)\<lparr> mState := Unmapped \<rparr> \<rparr>)))"

definition ValidateUnmap :: "world \<Rightarrow> unit res" where
  "ValidateUnmap w =
     (if lost w then validation_error ''device is lost''
      else case mState (buf w) of
        Mapped \<Rightarrow> ok () | MappedAtCreation \<Rightarrow> ok ()
      | Unmapped \<Rightarrow> validation_error ''buffer is unmapped''
      | Destroyed \<Rightarrow> validation_error ''buffer is destroyed'')"

definition APIUnmap :: "app \<Rightarrow> buffer_backend \<Rightarrow> world \<Rightarrow> world res option" where
  "APIUnmap app be w =
     bindRO (Consumed app (ValidateUnmap w) w) (\<lambda>(failed, w).
       if failed then Some (ok w) else UnmapInternal app be Map_UnmappedBeforeCallback w)"

definition DestroyImpl :: "app \<Rightarrow> buffer_backend \<Rightarrow> world \<Rightarrow> world res option" where
  "DestroyImpl app be w =
     bindRO
       (case mState (buf w) of
          Mapped \<Rightarrow> UnmapInternal app be Map_DestroyedBeforeCallback w
        | MappedAtCreation \<Rightarrow>
            if mStagingBuffer (buf w) \<noteq> None then Some (ok (w\<lparr> buf := (buf w)\<lparr> mStagingBuffer := None \<rparr> \<rparr>))
            else if mSize (buf w) \<noteq> 0 then UnmapInternal app be Map_DestroyedBeforeCallback w
            else Some (ok w)
        | _ \<Rightarrow> Some (ok w)) (\<lambda>w.
       Some (ok (w\<lparr> buf := (buf w)\<lparr> mState := Destroyed \<rparr> \<rparr>)))"

definition APIDestroy :: "app \<Rightarrow> buffer_backend \<Rightarrow> world \<Rightarrow> world res option" where
  "APIDestroy app be w = (if in_list w then DestroyImpl app be (w\<lparr> in_list := False \<rparr>) else Some (ok w))"

definition ValidateCanUseOnQueueNow :: "buffer \<Rightarrow> unit res" where
  "ValidateCanUseOnQueueNow b =
     bindR (assertR (\<not> is_error b)) (\<lambda>_.
       case mState b of
         Destroyed \<Rightarrow> validation_error ''used in submit while destroyed''
       | Mapped \<Rightarrow> validation_error ''used in submit while mapped''
       | MappedAtCreation \<Rightarrow> validation_error ''used in submit while mapped''
       | Unmapped \<Rightarrow> ok ())"

end
