(* ===== verification/Buffer_Spec.thy ===== *)
theory Buffer_Spec
  imports Buffer_Map
begin

unbundle bit_operations_syntax

text \<open>
  What \<open>Buffer.cpp\<close> promises to an application. Its callbacks may call back into the buffer, the queue
  and the device, to any depth. A mapped pointer never reaches outside the mapped range, and every
  accepted or rejected map request is answered exactly once, provided a callback that is told of
  unmapping or destruction does not ask for the next mapping. A last section shows what goes wrong
  when such a callback does, or destroys the buffer.
\<close>

section \<open>Callbacks\<close>

definition quiet :: app where
  "quiet callback userdata status w = Some (ok w)"

text \<open>The answer to the pending request.\<close>

definition fire :: "map_status \<Rightarrow> world \<Rightarrow> world" where
  "fire s w = (case mMapCallback (buf w) of
     None \<Rightarrow> w
   | Some c \<Rightarrow> log_event (MapCallback c (mMapUserdata (buf w)) (if lost w then Map_DeviceLost else s))
       (w\<lparr> buf := (buf w)\<lparr> mMapCallback := None \<rparr> \<rparr>))"

lemma fire_simps [simp]:
  "is_error (buf (fire s w)) = is_error (buf w)" "mLastMapID (buf (fire s w)) = mLastMapID (buf w)"
  "mState (buf (fire s w)) = mState (buf w)" "mMapCallback (buf (fire s w)) = None"
  "mStagingBuffer (buf (fire s w)) = mStagingBuffer (buf w)" "mSize (buf (fire s w)) = mSize (buf w)"
  "mMapMode (buf (fire s w)) = mMapMode (buf w)" "mMapOffset (buf (fire s w)) = mMapOffset (buf w)"
  "mMapSize (buf (fire s w)) = mMapSize (buf w)" "mAllocatedSize (buf (fire s w)) = mAllocatedSize (buf w)"
  "in_list (fire s w) = in_list w" "lost (fire s w) = lost w" "pending_serial (fire s w) = pending_serial w"
  "mTasksInFlight (fire s w) = mTasksInFlight w"
  by (auto simp: fire_def log_event_def split: option.splits)

lemma fire_none: "mMapCallback (buf w) = None \<Longrightarrow> fire s w = w"
  by (simp add: fire_def)

lemma CallMapCallback_quiet:
  "\<not> is_error (buf w) \<Longrightarrow> CallMapCallback quiet mapID s w = Some (ok (if mapID = mLastMapID (buf w) then fire s w else w))"
  by (auto simp: CallMapCallback_def quiet_def fire_def Let_def split: option.splits)

lemma answer_all:
  assumes "\<not> is_error (buf w)"
  shows "foldRO (\<lambda>mapID. CallMapCallback quiet mapID s) ids w = Some (ok (if mLastMapID (buf w) \<in> set ids then fire s w else w))"
  using assms
proof (induction ids arbitrary: w)
  case (Cons i ids)
  then show ?case by (cases "i = mLastMapID (buf w)") (auto simp: CallMapCallback_quiet fire_none)
qed simp

section \<open>The ledger\<close>

definition answered :: "world \<Rightarrow> (nat \<times> nat) list" where
  "answered w = concat (map (\<lambda>e. case e of MapCallback c u s \<Rightarrow> [(c, u)] | _ \<Rightarrow> []) (events w))"

definition outstanding :: "world \<Rightarrow> (nat \<times> nat) multiset" where
  "outstanding w = (case mMapCallback (buf w) of None \<Rightarrow> {#} | Some c \<Rightarrow> {#(c, mMapUserdata (buf w))#})"

definition ledger :: "world \<Rightarrow> (nat \<times> nat) multiset" where
  "ledger w = mset (answered w) + outstanding w"

lemma answered_log:
  "answered (log_event e w) = answered w @ (case e of MapCallback c u s \<Rightarrow> [(c, u)] | _ \<Rightarrow> [])"
  by (simp add: answered_def log_event_def)

lemma answered_upd [simp]:
  "answered (w\<lparr> buf := b \<rparr>) = answered w" "answered (w\<lparr> mTasksInFlight := q \<rparr>) = answered w"
  "answered (w\<lparr> lost := l \<rparr>) = answered w" "answered (w\<lparr> in_list := l \<rparr>) = answered w" "answered (w\<lparr> pending_serial := p \<rparr>) = answered w"
  by (simp_all add: answered_def)

lemma ledger_none: "mMapCallback (buf w) = None \<Longrightarrow> ledger w = mset (answered w)"
  by (simp add: ledger_def outstanding_def)

lemma ledger_fire [simp]: "ledger (fire s w) = ledger w" "mset (answered (fire s w)) = ledger w"
  by (auto simp: ledger_def fire_def outstanding_def answered_log split: option.splits)
    (auto simp: log_event_def)

lemma ledger_upd [simp]:
  "ledger (w\<lparr> mTasksInFlight := q \<rparr>) = ledger w" "ledger (w\<lparr> lost := l \<rparr>) = ledger w" "ledger (w\<lparr> in_list := l \<rparr>) = ledger w"
  "ledger (w\<lparr> pending_serial := p \<rparr>) = ledger w" "ledger (w\<lparr> buf := (buf w)\<lparr> mState := s \<rparr> \<rparr>) = ledger w"
  "ledger (w\<lparr> buf := (buf w)\<lparr> mStagingBuffer := g \<rparr> \<rparr>) = ledger w"
  by (simp_all add: ledger_def outstanding_def cong: option.case_cong)

lemma log_event_simps [simp]:
  "buf (log_event e w) = buf w" "in_list (log_event e w) = in_list w" "lost (log_event e w) = lost w"
  "pending_serial (log_event e w) = pending_serial w" "mTasksInFlight (log_event e w) = mTasksInFlight w"
  by (simp_all add: log_event_def)

lemma ledger_log: "ledger (log_event e w) = ledger w + (case e of MapCallback c u s \<Rightarrow> {#(c, u)#} | _ \<Rightarrow> {#})"
  by (simp add: ledger_def answered_log outstanding_def cong: option.case_cong split: buffer_event.splits)

text \<open>The requests of the application. A step is even when it answers, or keeps outstanding, as many
  requests as the application makes in it.\<close>

definition requests :: "world \<Rightarrow> (nat \<times> nat) list" where
  "requests w = concat (map (\<lambda>e. case e of Requested c u \<Rightarrow> [(c, u)] | _ \<Rightarrow> []) (events w))"

lemma requests_log:
  "requests (log_event e w) = requests w @ (case e of Requested c u \<Rightarrow> [(c, u)] | _ \<Rightarrow> [])"
  by (simp add: requests_def log_event_def)

lemma requests_upd [simp]:
  "requests (w\<lparr> buf := b \<rparr>) = requests w" "requests (w\<lparr> mTasksInFlight := q \<rparr>) = requests w" "requests (w\<lparr> lost := l \<rparr>) = requests w"
  "requests (w\<lparr> in_list := l \<rparr>) = requests w" "requests (w\<lparr> pending_serial := p \<rparr>) = requests w" "requests (fire s w) = requests w"
  by (simp_all add: requests_def fire_def log_event_def split: option.split)

definition even_step :: "world \<Rightarrow> world \<Rightarrow> bool" where
  "even_step w w' \<longleftrightarrow> ledger w + mset (requests w') = ledger w' + mset (requests w)"

lemma even_step_refl: "ledger w' = ledger w \<Longrightarrow> requests w' = requests w \<Longrightarrow> even_step w w'"
  by (simp add: even_step_def)

lemma even_step_trans:
  assumes "even_step u v" "even_step v w"
  shows "even_step u w"
proof -
  have "(ledger u + mset (requests v)) + (ledger v + mset (requests w)) = (ledger v + mset (requests u)) + (ledger w + mset (requests v))"
    using assms by (simp only: even_step_def)
  then have "(ledger u + mset (requests w)) + (ledger v + mset (requests v)) = (ledger w + mset (requests u)) + (ledger v + mset (requests v))"
    by (simp only: ac_simps)
  then show ?thesis by (simp only: even_step_def add_right_cancel)
qed

section \<open>The invariant\<close>

definition one_mode :: "usage \<Rightarrow> bool" where
  "one_mode mode \<longleftrightarrow> (mode AND Mode_Read \<noteq> 0) \<noteq> (mode AND Mode_Write \<noteq> 0)"

definition buffer_inv :: "buffer \<Rightarrow> bool" where
  "buffer_inv b \<longleftrightarrow>
     (mMapCallback b \<noteq> None \<longrightarrow> mState b = Mapped) \<and> (mState b = Mapped \<longrightarrow> \<not> is_error b \<and> one_mode (mMapMode b)) \<and>
     (mState b \<in> {Mapped, MappedAtCreation} \<longrightarrow> mMapOffset b + mMapSize b \<le> mSize b) \<and>
     (\<forall>n. mStagingBuffer b = Some n \<longrightarrow> n = mAllocatedSize b \<and> mSize b \<noteq> 0 \<and> \<not> is_error b) \<and>
     (\<not> is_error b \<longrightarrow> mSize b \<le> mAllocatedSize b \<and> mAllocatedSize b \<noteq> 0)"

text \<open>\<open>weak_inv\<close> holds also while a request has been recorded and not yet handed to the queue.\<close>

definition weak_inv :: "world \<Rightarrow> bool" where
  "weak_inv w \<longleftrightarrow> buffer_inv (buf w) \<and> storage_ok (mTasksInFlight w) \<and>
     (\<forall>(s, i) \<in> set (items (mTasksInFlight w)). s \<le> pending_serial w \<and> i \<le> mLastMapID (buf w)) \<and>
     (is_error (buf w) \<longrightarrow> items (mTasksInFlight w) = [])"

definition tracked_inv :: "world \<Rightarrow> bool" where
  "tracked_inv w \<longleftrightarrow> weak_inv w \<and>
     (mMapCallback (buf w) \<noteq> None \<longrightarrow> mLastMapID (buf w) \<in> snd ` set (items (mTasksInFlight w)))"

text \<open>Between calls nothing is outstanding on a lost device.\<close>

definition core_inv :: "world \<Rightarrow> bool" where
  "core_inv w \<longleftrightarrow> tracked_inv w \<and> (lost w \<longrightarrow> mMapCallback (buf w) = None)"

lemma buffer_inv_fire: "buffer_inv (buf w) \<Longrightarrow> buffer_inv (buf (fire s w))"
  by (simp add: buffer_inv_def)

lemma tracked_inv_unmapped: "tracked_inv w \<Longrightarrow> mState (buf w) \<noteq> Mapped \<Longrightarrow> mMapCallback (buf w) = None"
  by (auto simp: tracked_inv_def weak_inv_def buffer_inv_def)

lemma tracked_inv_fire: "tracked_inv w \<Longrightarrow> tracked_inv (fire s w)"
  using buffer_inv_fire by (auto simp: tracked_inv_def weak_inv_def)

lemma tracked_inv_log [simp]: "tracked_inv (log_event e w) = tracked_inv w"
  by (simp add: tracked_inv_def weak_inv_def)

lemma tracked_inv_lost [simp]: "tracked_inv (w\<lparr> lost := l \<rparr>) = tracked_inv w"
  by (simp add: tracked_inv_def weak_inv_def)

lemma core_inv_none: "weak_inv w \<Longrightarrow> mMapCallback (buf w) = None \<Longrightarrow> core_inv w"
  by (simp add: core_inv_def tracked_inv_def)

lemma IterateAll_items:
  assumes "storage_ok st"
  shows "IterateAll st = Some (ok (map snd (items st)))"
  using iterate_range [of st 0 "length st" "[]"] assms by (simp add: IterateAll_def map_snd_items storage_ok_def)

text \<open>A step that reports an error changes nothing of the buffer but its callback.\<close>

definition reported :: "world \<Rightarrow> world \<Rightarrow> bool" where
  "reported w w' \<longleftrightarrow> weak_inv w' \<and> (tracked_inv w \<longrightarrow> tracked_inv w') \<and> ledger w' = ledger w \<and>
     buf w' = (buf w)\<lparr> mMapCallback := mMapCallback (buf w') \<rparr> \<and> in_list w' = in_list w \<and> pending_serial w' = pending_serial w"

lemma reportedD:
  assumes "reported w w'"
  shows "weak_inv w'" "tracked_inv w \<Longrightarrow> tracked_inv w'" "ledger w' = ledger w" "in_list w' = in_list w"
    "mState (buf w') = mState (buf w)" "is_error (buf w') = is_error (buf w)" "mLastMapID (buf w') = mLastMapID (buf w)"
proof -
  have eq: "buf w' = (buf w)\<lparr> mMapCallback := mMapCallback (buf w') \<rparr>" using assms by (simp add: reported_def)
  show "mState (buf w') = mState (buf w)" using arg_cong [OF eq, of mState] by simp
  show "is_error (buf w') = is_error (buf w)" using arg_cong [OF eq, of is_error] by simp
  show "mLastMapID (buf w') = mLastMapID (buf w)" using arg_cong [OF eq, of mLastMapID] by simp
  show "weak_inv w'" "tracked_inv w \<Longrightarrow> tracked_inv w'" "ledger w' = ledger w" "in_list w' = in_list w"
    using assms by (simp_all add: reported_def)
qed

lemma weak_inv_simps [simp]: "weak_inv (log_event e w) = weak_inv w" "weak_inv (w\<lparr> lost := l \<rparr>) = weak_inv w"
  by (simp_all add: weak_inv_def)

lemma HandleDeviceLoss_quiet:
  assumes "weak_inv w"
  shows "\<exists>w'. HandleDeviceLoss quiet w = Some (ok w') \<and> reported w w' \<and> lost w' = lost w \<and> (tracked_inv w \<longrightarrow> mMapCallback (buf w') = None)"
proof -
  have st: "storage_ok (mTasksInFlight w)" using assms by (simp add: weak_inv_def)
  let ?ids = "map snd (items (mTasksInFlight w))"
  let ?w1 = "if mLastMapID (buf w) \<in> set ?ids then fire Map_DeviceLost w else w"
  have err: "\<not> is_error (buf w) \<or> ?ids = []" using assms by (auto simp: weak_inv_def)
  then have f: "foldRO (\<lambda>mapID. CallMapCallback quiet mapID Map_DeviceLost) ?ids w = Some (ok ?w1)"
    using answer_all [of w Map_DeviceLost ?ids] by (cases "?ids = []") auto
  let ?w' = "?w1\<lparr> mTasksInFlight := [] \<rparr>"
  have bw: "buf (fire s w) = (buf w)\<lparr> mMapCallback := None \<rparr>" for s
    by (auto simp: fire_def log_event_def split: option.splits)
  have weak: "weak_inv ?w'" using assms buffer_inv_fire [of w] by (auto simp: weak_inv_def)
  have cb: "mMapCallback (buf ?w') = None" if "tracked_inv w" using that by (auto simp: tracked_inv_def)
  have "reported w ?w'"
    unfolding reported_def
  proof (intro conjI impI)
    show "tracked_inv ?w'" if "tracked_inv w" using weak cb [OF that] by (simp add: tracked_inv_def)
    show "buf ?w' = (buf w)\<lparr> mMapCallback := mMapCallback (buf ?w') \<rparr>" using bw by simp
  qed (simp_all only: weak simp_thms, auto)
  then show ?thesis using f cb by (auto simp: HandleDeviceLoss_def IterateAll_items [OF st] Storage_Clear_def)
qed

lemma Device_HandleError_quiet:
  assumes "weak_inv w"
  shows "\<exists>w'. Device_HandleError quiet t msg w = Some (ok w') \<and> reported w w' \<and>
    (tracked_inv w \<and> (t = ContextLost \<or> t = Internal) \<longrightarrow> mMapCallback (buf w') = None)"
proof (cases "t = ContextLost \<or> t = Internal")
  case True
  have "weak_inv (w\<lparr> lost := True \<rparr>)" "tracked_inv (w\<lparr> lost := True \<rparr>) = tracked_inv w" using assms by simp_all
  with HandleDeviceLoss_quiet [OF this(1)] True show ?thesis
    by (auto simp: Device_HandleError_def ledger_log reported_def)
next
  case False
  then show ?thesis using assms by (auto simp: Device_HandleError_def ledger_log reported_def)
qed

lemma Consumed_ok: "Consumed app (ok ()) w = Some (ok (False, w))"
  by (simp add: Consumed_def)

lemma Consumed_quiet:
  assumes "weak_inv w" "r \<noteq> undef"
  shows "\<exists>w'. Consumed quiet r w = Some (ok (r \<noteq> ok (), w')) \<and> reported w w' \<and> (r = ok () \<longrightarrow> w' = w)"
proof (cases r)
  case (Inl e)
  then obtain t msg where e: "e = Error t msg" using assms(2) by (cases e) auto
  from Device_HandleError_quiet [OF assms(1), of t msg] obtain w' where
    "Device_HandleError quiet t msg w = Some (ok w')" "reported w w'" by blast
  then show ?thesis using Inl e by (auto simp: Consumed_def)
next
  case (Inr x)
  then show ?thesis using assms(1) by (auto simp: Consumed_def reported_def)
qed

section \<open>The operations keep the invariant\<close>

lemma CopyFromStagingBuffer_defined:
  assumes "buffer_inv b" "mStagingBuffer b \<noteq> None" "CopyFromStagingToBuffer be \<noteq> undef"
  shows "CopyFromStagingBuffer be b = CopyFromStagingToBuffer be"
  using assms by (auto simp: CopyFromStagingBuffer_def GetAllocatedSize_def buffer_inv_def)

lemma UnmapInternal_quiet:
  assumes "tracked_inv w" "CopyFromStagingToBuffer be \<noteq> undef"
  shows "\<exists>w'. UnmapInternal quiet be s w = Some (ok w') \<and> tracked_inv w' \<and> ledger w' = ledger w \<and> mState (buf w') = Unmapped \<and>
    mMapCallback (buf w') = None \<and> in_list w' = in_list w \<and> is_error (buf w') = is_error (buf w)"
proof -
  have b: "buffer_inv (buf w)" using assms(1) by (simp add: tracked_inv_def weak_inv_def)
  show ?thesis
  proof (cases "mState (buf w)")
    case Mapped
    let ?w1 = "log_event UnmapImpl (fire s w)"
    let ?w = "?w1\<lparr> buf := (buf ?w1)\<lparr> mMapCallback := None, mMapUserdata := 0, mState := Unmapped \<rparr> \<rparr>"
    have "UnmapInternal quiet be s w = Some (ok ?w)"
      using Mapped b by (simp add: UnmapInternal_def CallMapCallback_quiet buffer_inv_def)
    moreover have "tracked_inv ?w" using tracked_inv_fire [OF assms(1)] b Mapped by (simp add: tracked_inv_def weak_inv_def buffer_inv_def)
    moreover have "ledger ?w = ledger w"
      using ledger_none [of ?w] by (simp add: answered_log)
    ultimately show ?thesis by auto
  next
    case MappedAtCreation
    have cb: "mMapCallback (buf w) = None" using b MappedAtCreation by (auto simp: buffer_inv_def)
    show ?thesis
    proof (cases "mStagingBuffer (buf w) = None")
      case True
      let ?w = "(if mSize (buf w) \<noteq> 0 then log_event UnmapImpl w else w)"
      have "UnmapInternal quiet be s w = Some (ok (?w\<lparr> buf := (buf ?w)\<lparr> mState := Unmapped \<rparr> \<rparr>))"
        using MappedAtCreation True by (simp add: UnmapInternal_def)
      moreover have "tracked_inv (?w\<lparr> buf := (buf ?w)\<lparr> mState := Unmapped \<rparr> \<rparr>)"
        using assms(1) b cb by (auto simp: tracked_inv_def weak_inv_def buffer_inv_def)
      ultimately show ?thesis using cb by (auto simp: ledger_log)
    next
      case False
      let ?r = "CopyFromStagingToBuffer be"
      let ?w1 = "(if ?r = ok () then log_event CopiedFromStaging (w\<lparr> buf := (buf w)\<lparr> mStagingBuffer := None \<rparr> \<rparr>) else w)"
      have c1: "tracked_inv ?w1" using assms(1) b cb by (auto simp: tracked_inv_def weak_inv_def buffer_inv_def)
      then have "weak_inv ?w1" by (simp add: tracked_inv_def)
      from Consumed_quiet [OF this assms(2)] obtain w' failed where w': "Consumed quiet ?r ?w1 = Some (ok (failed, w'))" and r: "reported ?w1 w'" by blast
      note R = reportedD [OF r]
      have cb': "mMapCallback (buf w') = None" using tracked_inv_unmapped [OF R(2) [OF c1]] R(5) MappedAtCreation by auto
      have err: "is_error (buf w') = is_error (buf w)" using R(6) by simp
      have "tracked_inv (w'\<lparr> buf := (buf w')\<lparr> mState := Unmapped \<rparr> \<rparr>)"
        using R(1) cb' by (auto simp: tracked_inv_def weak_inv_def buffer_inv_def)
      moreover have "UnmapInternal quiet be s w = Some (ok (w'\<lparr> buf := (buf w')\<lparr> mState := Unmapped \<rparr> \<rparr>))"
        using MappedAtCreation False w' CopyFromStagingBuffer_defined [OF b False assms(2)] by (simp add: UnmapInternal_def)
      ultimately show ?thesis using R(3,4) cb' err by (auto simp: ledger_log)
    qed
  next
    case Unmapped
    then show ?thesis using assms(1) b by (auto simp: UnmapInternal_def tracked_inv_def weak_inv_def buffer_inv_def)
  next
    case Destroyed
    then show ?thesis using assms(1) b by (auto simp: UnmapInternal_def tracked_inv_def weak_inv_def buffer_inv_def)
  qed
qed

lemma APIDestroy_quiet:
  assumes "tracked_inv w" "in_list w" "CopyFromStagingToBuffer be \<noteq> undef"
  shows "\<exists>w'. APIDestroy quiet be w = Some (ok w') \<and> ledger w' = ledger w \<and> mMapCallback (buf w') = None"
proof -
  let ?w = "w\<lparr> in_list := False \<rparr>"
  have core: "tracked_inv ?w" using assms(1) by (simp add: tracked_inv_def weak_inv_def)
  obtain u where u: "UnmapInternal quiet be Map_DestroyedBeforeCallback ?w = Some (ok u)" "ledger u = ledger w" "mMapCallback (buf u) = None"
    using UnmapInternal_quiet [OF core assms(3), of Map_DestroyedBeforeCallback] by auto
  have cb: "mMapCallback (buf w) = None" if "mState (buf w) \<noteq> Mapped" using core that by (auto simp: tracked_inv_def weak_inv_def buffer_inv_def)
  show ?thesis
  proof (cases "mState (buf w) = Mapped")
    case True
    then show ?thesis using u assms(2) by (simp add: APIDestroy_def DestroyImpl_def)
  next
    case False
    then show ?thesis using u cb assms(2)
      by (cases "mState (buf w)") (auto simp: APIDestroy_def DestroyImpl_def ledger_none)
  qed
qed

lemma ValidateMapAsync_ok:
  assumes "ValidateMapAsync mode offset sz w = (status, ok ())"
  shows "\<not> lost w" "\<not> is_error (buf w)" "offset + sz \<le> mSize (buf w)" "mState (buf w) = Unmapped" "one_mode mode"
  using assms by (auto simp: ValidateMapAsync_def Let_def one_mode_def split: if_splits buffer_state.splits)

lemma ValidateMapAsync_outcome:
  "snd (ValidateMapAsync mode offset sz w) = ok () \<or> (\<exists>msg. snd (ValidateMapAsync mode offset sz w) = validation_error msg)"
proof -
  define R where "R = insert (ok ()) (range validation_error)"
  have R: "ok () \<in> R" "validation_error msg \<in> R" for msg by (simp_all add: R_def)
  have "snd (ValidateMapAsync mode offset sz w) \<in> R"
    by (simp add: ValidateMapAsync_def Let_def R split: buffer_state.split)
  then show ?thesis unfolding R_def by blast
qed

lemma TrackTask_ok:
  assumes "weak_inv w" "\<not> is_error (buf w)"
  shows "\<exists>w'. TrackTask (mLastMapID (buf w)) w = ok w' \<and> tracked_inv w' \<and> ledger w' = ledger w \<and> in_list w' = in_list w \<and> buf w' = buf w"
proof -
  let ?q = "mTasksInFlight w" and ?p = "pending_serial w" and ?i = "mLastMapID (buf w)"
  have st: "storage_ok ?q" and le: "\<forall>(s, i) \<in> set (items ?q). s \<le> ?p" using assms(1) by (auto simp: weak_inv_def)
  have "?q = [] \<or> fst (last ?q) \<le> ?p"
  proof (cases "?q = []")
    case False
    then have m: "last ?q \<in> set ?q" by simp
    obtain s vs where l: "last ?q = (s, vs)" by (cases "last ?q")
    have "vs \<noteq> []" using st m l by (auto simp: storage_ok_def vectors_ok_def)
    then obtain v where "v \<in> set vs" by (cases vs) auto
    then have "(s, v) \<in> set (items ?q)" using m l by (force simp: items_def)
    then show ?thesis using le l by auto
  qed simp
  then obtain q' where q': "SerialQueue_Enqueue ?i ?p ?q = ok q'" by (auto simp: SerialQueue_Enqueue_def)
  note law = SerialQueue_Enqueue_law [OF st q']
  have "tracked_inv (w\<lparr> mTasksInFlight := q' \<rparr>)"
    using law assms le by (auto simp: tracked_inv_def weak_inv_def image_iff)
  then show ?thesis using q' by (simp add: TrackTask_def)
qed

lemma Queue_Tick_quiet:
  assumes "tracked_inv w"
  shows "\<exists>w'. Queue_Tick quiet serial w = Some (ok w') \<and> ledger w' = ledger w \<and>
    (pending_serial w \<le> serial \<longrightarrow> mMapCallback (buf w') = None)"
proof -
  let ?q = "mTasksInFlight w" and ?w = "w\<lparr> mTasksInFlight := ClearUpTo serial (mTasksInFlight w) \<rparr>"
  let ?ids = "map snd (filter (\<lambda>x. fst x \<le> serial) (items ?q))"
  let ?w' = "if mLastMapID (buf w) \<in> set ?ids then fire Map_Success ?w else ?w"
  have core: "tracked_inv w" by (rule assms)
  then have st: "storage_ok ?q" by (simp add: tracked_inv_def weak_inv_def)
  have "\<not> is_error (buf w) \<or> ?ids = []" using core by (auto simp: tracked_inv_def weak_inv_def)
  then have f: "foldRO (\<lambda>mapID. CallMapCallback quiet mapID Map_Success) ?ids ?w = Some (ok ?w')"
    using answer_all [of ?w Map_Success ?ids] by (cases "?ids = []") auto
  have "mMapCallback (buf ?w') = None" if "pending_serial w \<le> serial"
    using core that by (fastforce simp: tracked_inv_def weak_inv_def)
  then show ?thesis using f by (auto simp: Queue_Tick_def IterateUpTo_items [OF st])
qed

section \<open>Applications\<close>

text \<open>
  What an application does, inside callbacks too: calls on the buffer, submitting work and ticking the
  device, which refuses both when it is lost. A script gives the calls that it makes in a callback;
  they may depend on everything the application can see.
\<close>

datatype app_call =
    AskMap buffer_backend usage nat nat "nat option" nat
  | AskUnmap buffer_backend
  | AskDestroy buffer_backend
  | AskSubmit
  | AskTick nat

fun asks_map :: "app_call \<Rightarrow> bool" where
  "asks_map (AskMap be mode offset sz callback userdata) = True"
| "asks_map _ = False"

fun perform :: "app \<Rightarrow> app_call \<Rightarrow> world \<Rightarrow> world res option" where
  "perform app (AskMap be mode offset sz callback userdata) w =
     APIMapAsync app be mode offset sz callback userdata
       (case callback of None \<Rightarrow> w | Some c \<Rightarrow> log_event (Requested c userdata) w)"
| "perform app (AskUnmap be) w = APIUnmap app be w"
| "perform app (AskDestroy be) w = APIDestroy app be w"
| "perform app AskSubmit w =
     Some (ok (if lost w then log_event (DeviceError Validation ''device is lost'') w
               else w\<lparr> pending_serial := pending_serial w + 1 \<rparr>))"
| "perform app (AskTick serial) w =
     (if lost w then Some (ok (log_event (DeviceError Validation ''device is lost'') w)) else Queue_Tick app serial w)"

type_synonym script = "nat \<Rightarrow> nat \<Rightarrow> map_status \<Rightarrow> world \<Rightarrow> app_call list"

text \<open>A restrained application asks for no mapping in a callback that is told of unmapping or
  destruction.\<close>

definition told_of_end :: "map_status \<Rightarrow> bool" where
  "told_of_end s \<longleftrightarrow> s = Map_UnmappedBeforeCallback \<or> s = Map_DestroyedBeforeCallback"

definition restrain :: "bool \<Rightarrow> map_status \<Rightarrow> app_call list \<Rightarrow> app_call list" where
  "restrain restrained s calls1 = (if restrained \<and> told_of_end s then filter (\<lambda>a. \<not> asks_map a) calls1 else calls1)"

text \<open>Callbacks that follow a script, where callbacks inside callbacks are nested less than \<open>n\<close> deep; a
  run that nests deeper is one that does not return.\<close>

primrec behave :: "bool \<Rightarrow> nat \<Rightarrow> script \<Rightarrow> app" where
  "behave restrained 0 script1 = (\<lambda>callback userdata s w. None)"
| "behave restrained (Suc n) script1 = (\<lambda>callback userdata s w.
     foldRO (perform (behave restrained n script1)) (restrain restrained s (script1 callback userdata s w)) w)"

text \<open>What calls do to the state. A callback that is outstanding afterwards was outstanding before or
  belongs to a later request.\<close>

definition conduct :: "bool \<Rightarrow> world \<Rightarrow> world \<Rightarrow> bool" where
  "conduct strict w w' \<longleftrightarrow> core_inv w' \<and> is_error (buf w') = is_error (buf w) \<and> (lost w \<longrightarrow> lost w') \<and>
     pending_serial w \<le> pending_serial w' \<and> mLastMapID (buf w) \<le> mLastMapID (buf w') \<and>
     (mMapCallback (buf w') \<noteq> None \<longrightarrow>
        mMapCallback (buf w) \<noteq> None \<and> mLastMapID (buf w') = mLastMapID (buf w) \<or> mLastMapID (buf w) < mLastMapID (buf w')) \<and>
     (strict \<longrightarrow> even_step w w')"

lemma conduct_trans: "conduct strict u v \<Longrightarrow> conduct strict v w \<Longrightarrow> conduct strict u w"
  unfolding conduct_def by (auto intro: even_step_trans)

lemma conduct_same:
  "core_inv w' \<Longrightarrow> buf w' = buf w \<Longrightarrow> (lost w \<longrightarrow> lost w') \<Longrightarrow> pending_serial w \<le> pending_serial w' \<Longrightarrow>
   ledger w' = ledger w \<Longrightarrow> requests w' = requests w \<Longrightarrow> conduct strict w w'"
  by (simp add: conduct_def even_step_refl)

lemma told_of_end_simps [simp]: "told_of_end Map_UnmappedBeforeCallback" "told_of_end Map_DestroyedBeforeCallback"
  by (simp_all add: told_of_end_def)

lemma conduct_refl: "core_inv w \<Longrightarrow> conduct strict w w"
  by (simp add: conduct_same)

lemma conduct_submit: "core_inv w \<Longrightarrow> conduct strict w (w\<lparr> pending_serial := pending_serial w + 1 \<rparr>)"
proof (rule conduct_same)
  let ?w = "w\<lparr> pending_serial := pending_serial w + 1 \<rparr>"
  assume core: "core_inv w"
  then have "weak_inv ?w" by (fastforce simp: core_inv_def tracked_inv_def weak_inv_def)
  then show "core_inv ?w" using core by (simp add: core_inv_def tracked_inv_def)
qed simp_all

text \<open>Without an outstanding callback, the state and the staging buffer may change.\<close>

lemma conduct_state:
  "conduct strict u w \<Longrightarrow> mMapCallback (buf w) = None \<Longrightarrow> st = Unmapped \<or> st = Destroyed \<Longrightarrow>
   conduct strict u (w\<lparr> buf := (buf w)\<lparr> mState := st \<rparr> \<rparr>)"
  by (auto simp: conduct_def even_step_def core_inv_def tracked_inv_def weak_inv_def buffer_inv_def)

lemma conduct_staging:
  "conduct strict u w \<Longrightarrow> conduct strict u (w\<lparr> buf := (buf w)\<lparr> mStagingBuffer := None \<rparr> \<rparr>)"
  by (auto simp: conduct_def even_step_def core_inv_def tracked_inv_def weak_inv_def buffer_inv_def)

lemma conduct_log:
  "conduct strict u w \<Longrightarrow> e = UnmapImpl \<or> e = CopiedFromStaging \<Longrightarrow> conduct strict u (log_event e w)"
  by (auto simp: conduct_def even_step_def core_inv_def ledger_log requests_log)

lemma bindRO_ok_iff: "bindRO r f = Some (Inr y) \<longleftrightarrow> (\<exists>x. r = Some (Inr x) \<and> f x = Some (Inr y))"
  by (cases r rule: option.exhaust [case_names none some]) (auto simp: bindRO_def split: sum.splits)

lemma weak_inv_upd [simp]: "weak_inv (w\<lparr> in_list := l \<rparr>) = weak_inv w"
  by (simp add: weak_inv_def)

lemma core_inv_weak: "core_inv w \<Longrightarrow> weak_inv w"
  by (simp add: core_inv_def tracked_inv_def)

lemma weak_inv_ids:
  "weak_inv w \<Longrightarrow> storage_ok (mTasksInFlight w) \<and> (\<forall>i \<in> snd ` set (items (mTasksInFlight w)). i \<le> mLastMapID (buf w))"
  by (auto simp: weak_inv_def)

lemma DestroyImpl_cases:
  assumes "DestroyImpl app be w = Some (ok w')"
  shows "\<exists>v. w' = v\<lparr> buf := (buf v)\<lparr> mState := Destroyed \<rparr> \<rparr> \<and>
    (UnmapInternal app be Map_DestroyedBeforeCallback w = Some (ok v) \<or>
     mState (buf w) \<noteq> Mapped \<and> (v = w \<or> v = w\<lparr> buf := (buf w)\<lparr> mStagingBuffer := None \<rparr> \<rparr>))"
proof (cases "mState (buf w)")
  case Mapped
  then show ?thesis using assms by (auto simp: DestroyImpl_def bindRO_ok_iff)
next
  case MappedAtCreation
  then consider "mStagingBuffer (buf w) \<noteq> None" | "mStagingBuffer (buf w) = None" "mSize (buf w) \<noteq> 0"
    | "mStagingBuffer (buf w) = None" "mSize (buf w) = 0" by blast
  then show ?thesis
  proof cases
    case 1
    then show ?thesis using assms MappedAtCreation
      by (intro exI [of _ "w\<lparr> buf := (buf w)\<lparr> mStagingBuffer := None \<rparr> \<rparr>"]) (auto simp: DestroyImpl_def)
  next
    case 2
    then show ?thesis using assms MappedAtCreation by (auto simp: DestroyImpl_def bindRO_ok_iff)
  next
    case 3
    then show ?thesis using assms MappedAtCreation by (intro exI [of _ w]) (auto simp: DestroyImpl_def)
  qed
next
  case Unmapped
  then show ?thesis using assms by (intro exI [of _ w]) (auto simp: DestroyImpl_def)
next
  case Destroyed
  then show ?thesis using assms by (intro exI [of _ w]) (auto simp: DestroyImpl_def)
qed

text \<open>What the operations rely on when they call the application, and what they then keep.\<close>

locale application =
  fixes app :: app and strict :: bool
  assumes behaves: "core_inv w \<Longrightarrow> app c u s w = Some (ok w') \<Longrightarrow> conduct strict w w'"
    and tidy: "strict \<Longrightarrow> told_of_end s \<Longrightarrow> core_inv w \<Longrightarrow> mMapCallback (buf w) = None \<Longrightarrow> app c u s w = Some (ok w') \<Longrightarrow>
      mMapCallback (buf w') = None"
begin

lemma called:
  assumes "weak_inv w" "CallMapCallback app mapID s w = Some (ok w')"
  shows "(mMapCallback (buf w) = None \<or> mapID \<noteq> mLastMapID (buf w)) \<and> w' = w \<or>
    mMapCallback (buf w) \<noteq> None \<and> mapID = mLastMapID (buf w) \<and> conduct strict w w' \<and>
    (mMapCallback (buf w') \<noteq> None \<longrightarrow> mLastMapID (buf w) < mLastMapID (buf w')) \<and>
    (strict \<and> told_of_end s \<longrightarrow> mMapCallback (buf w') = None)"
proof (cases "mMapCallback (buf w) = None \<or> mapID \<noteq> mLastMapID (buf w)")
  case True
  then show ?thesis using assms(2) by (auto simp: CallMapCallback_def split: if_splits option.splits)
next
  case False
  then obtain c where c: "mMapCallback (buf w) = Some c" by auto
  let ?s = "if lost w then Map_DeviceLost else s"
  have app: "app c (mMapUserdata (buf w)) ?s (fire s w) = Some (ok w')"
    using assms(2) False c by (auto simp: CallMapCallback_def fire_def Let_def split: if_splits)
  have core: "core_inv (fire s w)" using assms(1) by (intro core_inv_none) (simp_all add: weak_inv_def buffer_inv_fire)
  have con: "conduct strict (fire s w) w'" by (rule behaves [OF core app])
  then have "conduct strict w w'" by (auto simp: conduct_def even_step_def)
  moreover have "mMapCallback (buf w') \<noteq> None \<longrightarrow> mLastMapID (buf w) < mLastMapID (buf w')" using con by (auto simp: conduct_def)
  moreover have "mMapCallback (buf w') = None" if "strict" "told_of_end s"
  proof (cases "lost w")
    case True
    then show ?thesis using con by (auto simp: conduct_def core_inv_def)
  next
    case False
    then show ?thesis using tidy [OF that core _ app [unfolded if_not_P [OF False]]] by simp
  qed
  ultimately show ?thesis using False by auto
qed

lemma answered_all:
  assumes "weak_inv w" "\<forall>i \<in> set ids. i \<le> mLastMapID (buf w)"
    and "foldRO (\<lambda>mapID. CallMapCallback app mapID s) ids w = Some (ok w')"
  shows "(mMapCallback (buf w) = None \<or> mLastMapID (buf w) \<notin> set ids) \<and> w' = w \<or>
    mMapCallback (buf w) \<noteq> None \<and> mLastMapID (buf w) \<in> set ids \<and> conduct strict w w' \<and>
    (mMapCallback (buf w') \<noteq> None \<longrightarrow> mLastMapID (buf w) < mLastMapID (buf w'))"
  using assms
proof (induction ids arbitrary: w)
  case (Cons i ids)
  obtain w1 where w1: "CallMapCallback app i s w = Some (ok w1)" "foldRO (\<lambda>mapID. CallMapCallback app mapID s) ids w1 = Some (ok w')"
    using Cons.prems(3) by (auto simp: bindRO_ok_iff)
  from called [OF Cons.prems(1) w1(1)] show ?case
  proof (elim disjE conjE)
    assume con: "mMapCallback (buf w) \<noteq> None" "i = mLastMapID (buf w)" "conduct strict w w1"
      "mMapCallback (buf w1) \<noteq> None \<longrightarrow> mLastMapID (buf w) < mLastMapID (buf w1)"
    then have le: "mLastMapID (buf w) \<le> mLastMapID (buf w1)" and weak: "weak_inv w1" by (auto simp: conduct_def core_inv_weak)
    have "\<forall>j \<in> set ids. j \<le> mLastMapID (buf w1)" using Cons.prems(2) le by fastforce
    from Cons.IH [OF weak this w1(2)] have "w' = w1" using con(4) Cons.prems(2) by fastforce
    then show ?thesis using con by simp
  qed (use Cons.IH [of w] Cons.prems w1 in auto)
qed simp

lemma device_error:
  assumes "core_inv w" "Device_HandleError app t msg w = Some (ok w')"
  shows "conduct strict w w' \<and> (mMapCallback (buf w) = None \<longrightarrow> buf w' = buf w)"
proof (cases "t = ContextLost \<or> t = Internal")
  case False
  then have "w' = log_event (DeviceError t msg) w" using assms(2) by (simp add: Device_HandleError_def)
  then show ?thesis using assms(1) by (auto simp: core_inv_def ledger_log requests_log intro!: conduct_same)
next
  case True
  let ?w = "w\<lparr> lost := True \<rparr>" and ?ids = "map snd (items (mTasksInFlight w))"
  have weak: "weak_inv ?w" using core_inv_weak [OF assms(1)] by simp
  note ids = weak_inv_ids [OF core_inv_weak [OF assms(1)]]
  obtain w1 where w1: "foldRO (\<lambda>mapID. CallMapCallback app mapID Map_DeviceLost) ?ids ?w = Some (ok w1)"
    "w' = log_event (DeviceError ContextLost msg) (w1\<lparr> mTasksInFlight := [] \<rparr>)"
    using assms(2) True ids by (auto simp: Device_HandleError_def HandleDeviceLoss_def IterateAll_items bindRO_ok_iff Storage_Clear_def)
  have core: "core_inv w'" if "weak_inv w1" "mMapCallback (buf w1) = None"
    using that unfolding w1(2) by (intro core_inv_none) (simp_all add: weak_inv_def storage_ok_def vectors_ok_def items_def)
  have tracked: "mMapCallback (buf w) \<noteq> None \<longrightarrow> mLastMapID (buf w) \<in> set ?ids" using assms(1) by (auto simp: core_inv_def tracked_inv_def)
  from answered_all [OF weak _ w1(1)] ids consider "mMapCallback (buf w) = None" "w1 = ?w" | "mMapCallback (buf w) \<noteq> None" "conduct strict ?w w1"
    using tracked by fastforce
  then show ?thesis
  proof cases
    case 1
    then show ?thesis using core weak by (auto simp: w1(2) ledger_log requests_log intro!: conduct_same)
  next
    case 2
    then have none: "mMapCallback (buf w1) = None" "weak_inv w1" by (auto simp: conduct_def core_inv_def tracked_inv_def)
    have "conduct strict ?w w'" using 2(2) core [OF none(2,1)] none by (auto simp: conduct_def w1(2) even_step_def ledger_log requests_log)
    then show ?thesis using 2(1) by (auto simp: conduct_def even_step_def)
  qed
qed

lemma device_error_untracked:
  assumes "weak_inv w" "mLastMapID (buf w) \<notin> snd ` set (items (mTasksInFlight w))" "Device_HandleError app t msg w = Some (ok w')"
  shows "weak_inv w' \<and> buf w' = buf w \<and> pending_serial w' = pending_serial w \<and> ledger w' = ledger w \<and> requests w' = requests w \<and> (lost w \<longrightarrow> lost w')"
proof (cases "t = ContextLost \<or> t = Internal")
  case False
  then have "w' = log_event (DeviceError t msg) w" using assms(3) by (simp add: Device_HandleError_def)
  then show ?thesis using assms(1) by (simp add: ledger_log requests_log)
next
  case True
  let ?w = "w\<lparr> lost := True \<rparr>" and ?ids = "map snd (items (mTasksInFlight w))"
  have weak: "weak_inv ?w" using assms(1) by simp
  note ids = weak_inv_ids [OF assms(1)]
  obtain w1 where w1: "foldRO (\<lambda>mapID. CallMapCallback app mapID Map_DeviceLost) ?ids ?w = Some (ok w1)"
    "w' = log_event (DeviceError ContextLost msg) (w1\<lparr> mTasksInFlight := [] \<rparr>)"
    using assms(3) True ids by (auto simp: Device_HandleError_def HandleDeviceLoss_def IterateAll_items bindRO_ok_iff Storage_Clear_def)
  have "w1 = ?w" using answered_all [OF weak _ w1(1)] ids assms(2) by auto
  then show ?thesis using assms(1)
    by (auto simp: w1(2) ledger_log requests_log weak_inv_def storage_ok_def vectors_ok_def items_def)
qed

lemma consumed:
  assumes "core_inv w" "Consumed app r w = Some (ok (failed, w'))"
  shows "conduct strict w w' \<and> failed = (r \<noteq> ok ()) \<and> (r = ok () \<longrightarrow> w' = w) \<and> (mMapCallback (buf w) = None \<longrightarrow> buf w' = buf w)"
proof (cases r)
  case (Inl e)
  then show ?thesis using assms device_error [OF assms(1)] by (cases e) (auto simp: Consumed_def bindRO_ok_iff)
next
  case (Inr x)
  then show ?thesis using assms by (auto simp: Consumed_def intro!: conduct_same)
qed

lemma consumed_untracked:
  assumes "weak_inv w" "mLastMapID (buf w) \<notin> snd ` set (items (mTasksInFlight w))" "Consumed app r w = Some (ok (failed, w'))"
  shows "weak_inv w' \<and> buf w' = buf w \<and> pending_serial w' = pending_serial w \<and> ledger w' = ledger w \<and> requests w' = requests w \<and>
    (lost w \<longrightarrow> lost w') \<and> (failed \<or> w' = w)"
proof (cases r)
  case (Inl e)
  then show ?thesis using assms(3) device_error_untracked [OF assms(1,2)] by (cases e) (auto simp: Consumed_def bindRO_ok_iff)
next
  case (Inr x)
  then show ?thesis using assms by (auto simp: Consumed_def)
qed

end

text \<open>The operations.\<close>

context application
begin

lemma unmap_internal:
  assumes "core_inv w" "told_of_end s" "UnmapInternal app be s w = Some (ok w')"
  shows "conduct strict w w' \<and> mMapCallback (buf w') = None"
proof -
  have weak: "weak_inv w" and b: "buffer_inv (buf w)" using core_inv_weak [OF assms(1)] by (auto simp: weak_inv_def)
  note refl = conduct_refl [OF assms(1), of strict]
  show ?thesis
  proof (cases "mState (buf w)")
    case Mapped
    then obtain w1 where w1: "CallMapCallback app (mLastMapID (buf w)) s w = Some (ok w1)"
      "w' = (log_event UnmapImpl w1)\<lparr> buf := (buf w1)\<lparr> mMapCallback := None, mMapUserdata := 0, mState := Unmapped \<rparr> \<rparr>"
      using assms(3) by (auto simp: UnmapInternal_def bindRO_ok_iff)
    have con: "conduct strict w w1" "strict \<longrightarrow> mMapCallback (buf w1) = None"
      using called [OF weak w1(1)] assms(2) refl by auto
    have "ledger w' = ledger w1" if "mMapCallback (buf w1) = None"
      using that by (simp add: w1(2) ledger_none answered_log)
    then have "even_step w w'" if "strict" using con that by (simp add: conduct_def even_step_def w1(2) requests_log)
    moreover have "core_inv w'" using con(1) unfolding w1(2) by (auto simp: conduct_def core_inv_def tracked_inv_def weak_inv_def buffer_inv_def)
    ultimately show ?thesis using con(1) by (auto simp: conduct_def w1(2))
  next
    case MappedAtCreation
    have cb: "mMapCallback (buf w) = None" using b MappedAtCreation by (auto simp: buffer_inv_def)
    show ?thesis
    proof (cases "mStagingBuffer (buf w) = None")
      case True
      let ?w = "if mSize (buf w) \<noteq> 0 then log_event UnmapImpl w else w"
      have "w' = ?w\<lparr> buf := (buf ?w)\<lparr> mState := Unmapped \<rparr> \<rparr>"
        using assms(3) MappedAtCreation True by (auto simp: UnmapInternal_def)
      moreover have "conduct strict w ?w" using refl conduct_log [OF refl] by simp
      ultimately show ?thesis using cb conduct_state [of strict w ?w Unmapped] by simp
    next
      case False
      let ?r = "CopyFromStagingBuffer be (buf w)"
      let ?w1 = "if ?r = ok () then log_event CopiedFromStaging (w\<lparr> buf := (buf w)\<lparr> mStagingBuffer := None \<rparr> \<rparr>) else w"
      obtain failed w3 where w3: "Consumed app ?r ?w1 = Some (ok (failed, w3))" "w' = w3\<lparr> buf := (buf w3)\<lparr> mState := Unmapped \<rparr> \<rparr>"
        using assms(3) MappedAtCreation False by (auto simp: UnmapInternal_def bindRO_ok_iff Let_def)
      have con: "conduct strict w ?w1" using refl conduct_log [OF conduct_staging [OF refl]] by simp
      then have "core_inv ?w1" by (simp add: conduct_def)
      from consumed [OF this w3(1)] have c3: "conduct strict ?w1 w3" "buf w3 = buf ?w1" using cb by auto
      have "mMapCallback (buf w3) = None" using c3(2) cb by simp
      then show ?thesis unfolding w3(2) using conduct_state [OF conduct_trans [OF con c3(1)]] by simp
    qed
  next
    case Unmapped
    then have "w' = w\<lparr> buf := (buf w)\<lparr> mState := Unmapped \<rparr> \<rparr>" "mMapCallback (buf w) = None"
      using assms(3) b by (auto simp: UnmapInternal_def buffer_inv_def)
    then show ?thesis using conduct_state [OF refl] by simp
  next
    case Destroyed
    then have "w' = w\<lparr> buf := (buf w)\<lparr> mState := Unmapped \<rparr> \<rparr>" "mMapCallback (buf w) = None"
      using assms(3) b by (auto simp: UnmapInternal_def buffer_inv_def)
    then show ?thesis using conduct_state [OF refl] by simp
  qed
qed

lemma unmap:
  assumes "core_inv w" "APIUnmap app be w = Some (ok w')"
  shows "conduct strict w w' \<and> (mMapCallback (buf w) = None \<longrightarrow> mMapCallback (buf w') = None)"
proof -
  obtain failed w1 where w1: "Consumed app (ValidateUnmap w) w = Some (ok (failed, w1))"
    "(if failed then Some (ok w1) else UnmapInternal app be Map_UnmappedBeforeCallback w1) = Some (ok w')"
    using assms(2) by (auto simp: APIUnmap_def bindRO_ok_iff)
  note c = consumed [OF assms(1) w1(1)]
  show ?thesis
  proof (cases failed)
    case True
    then show ?thesis using c w1(2) by auto
  next
    case False
    then show ?thesis using c w1(2) unmap_internal [of w1 Map_UnmappedBeforeCallback be w'] assms(1) by auto
  qed
qed

lemma destroy:
  assumes "core_inv w" "APIDestroy app be w = Some (ok w')"
  shows "conduct strict w w' \<and> (mMapCallback (buf w) = None \<longrightarrow> mMapCallback (buf w') = None)"
proof (cases "in_list w")
  case False
  then show ?thesis using assms by (auto simp: APIDestroy_def intro!: conduct_same)
next
  case True
  let ?w = "w\<lparr> in_list := False \<rparr>"
  have core: "core_inv ?w" using assms(1) by (simp add: core_inv_def tracked_inv_def)
  have b: "buffer_inv (buf w)" using core_inv_weak [OF assms(1)] by (simp add: weak_inv_def)
  from DestroyImpl_cases obtain v where v: "w' = v\<lparr> buf := (buf v)\<lparr> mState := Destroyed \<rparr> \<rparr>"
    "UnmapInternal app be Map_DestroyedBeforeCallback ?w = Some (ok v) \<or>
     mState (buf ?w) \<noteq> Mapped \<and> (v = ?w \<or> v = ?w\<lparr> buf := (buf ?w)\<lparr> mStagingBuffer := None \<rparr> \<rparr>)"
    using assms(2) True unfolding APIDestroy_def if_P [OF True] by metis
  have "UnmapInternal app be Map_DestroyedBeforeCallback ?w = Some (ok v) \<or>
     mMapCallback (buf w) = None \<and> (v = ?w \<or> v = ?w\<lparr> buf := (buf ?w)\<lparr> mStagingBuffer := None \<rparr> \<rparr>)"
    using v(2) b by (auto simp: buffer_inv_def)
  then have v2: "conduct strict ?w v" "mMapCallback (buf v) = None"
    using unmap_internal [OF core told_of_end_simps(2)] conduct_refl [OF core] conduct_staging [OF conduct_refl [OF core]] by auto
  have "conduct strict w ?w" using core by (simp add: conduct_same)
  then show ?thesis unfolding v(1) using conduct_state [OF conduct_trans [OF _ v2(1)] v2(2)] v2(2) by simp
qed

lemma tick:
  assumes "core_inv w" "Queue_Tick app serial w = Some (ok w')"
  shows "conduct strict w w' \<and> (mMapCallback (buf w) = None \<longrightarrow> mMapCallback (buf w') = None)"
proof -
  let ?q = "mTasksInFlight w" and ?w = "w\<lparr> mTasksInFlight := ClearUpTo serial (mTasksInFlight w) \<rparr>"
  let ?ids = "map snd (filter (\<lambda>x. fst x \<le> serial) (items ?q))"
  have weak: "weak_inv w" by (rule core_inv_weak [OF assms(1)])
  note st = weak_inv_ids [OF weak]
  have weak': "weak_inv ?w" using weak ClearUpTo_items [of ?q serial] st by (auto simp: weak_inv_def)
  have fold: "foldRO (\<lambda>mapID. CallMapCallback app mapID Map_Success) ?ids ?w = Some (ok w')"
    using assms(2) st by (simp add: Queue_Tick_def IterateUpTo_items)
  have "\<forall>i \<in> set ?ids. i \<le> mLastMapID (buf ?w)" using st by auto
  from answered_all [OF weak' this fold] show ?thesis
  proof (elim disjE conjE)
    assume a: "mLastMapID (buf ?w) \<notin> set ?ids" "w' = ?w"
    have "core_inv ?w" using assms(1) weak' a(1) ClearUpTo_items(2) [of ?q serial] st by (auto simp: core_inv_def tracked_inv_def)
    then show ?thesis using a(2) by (auto intro!: conduct_same)
  qed (use weak' in \<open>auto simp: conduct_def even_step_def intro!: core_inv_none\<close>)
qed

end

text \<open>Asking for a mapping, and all calls.\<close>

context application
begin

lemma map_refused:
  assumes "core_inv w" "fst (ValidateMapAsync mode offset sz w) = status" "snd (ValidateMapAsync mode offset sz w) = validation_error msg"
    and "w0 = (case callback of None \<Rightarrow> w | Some c \<Rightarrow> log_event (Requested c userdata) w)"
    and "(case callback of None \<Rightarrow> Some (ok w1) | Some c \<Rightarrow> app c userdata status (log_event (MapCallback c userdata status) w1)) = Some (ok w')"
    and "w1 = log_event (DeviceError Validation msg) w0"
  shows "conduct strict w w'"
proof (cases callback)
  case None
  then have "w' = log_event (DeviceError Validation msg) w" using assms(4-6) by simp
  then show ?thesis using assms(1) by (auto simp: core_inv_def ledger_log requests_log intro!: conduct_same)
next
  case (Some c)
  let ?w = "log_event (MapCallback c userdata status) (log_event (DeviceError Validation msg) (log_event (Requested c userdata) w))"
  have "conduct strict ?w w'" using assms(1,4-6) Some by (intro behaves) (auto simp: core_inv_def)
  moreover have "conduct strict w ?w"
    using assms(1) by (auto simp: conduct_def even_step_def ledger_log requests_log core_inv_def)
  ultimately show ?thesis by (rule conduct_trans [rotated])
qed

lemma map_accepted:
  assumes "core_inv w" "\<not> lost w" "\<not> is_error (buf w)" "offset + sz \<le> mSize (buf w)" "mState (buf w) = Unmapped" "one_mode mode"
    and w1: "w1 = w0\<lparr> buf := (buf w)\<lparr> mLastMapID := mLastMapID (buf w) + 1, mMapMode := mode, mMapOffset := offset,
                       mMapSize := sz, mMapCallback := callback, mMapUserdata := userdata, mState := Mapped \<rparr> \<rparr>"
    and w0: "w0 = (case callback of None \<Rightarrow> w | Some c \<Rightarrow> log_event (Requested c userdata) w)"
    and w2: "Consumed app r w1 = Some (ok (failed, w2))"
    and w': "(if failed then CallMapCallback app (mLastMapID (buf w2)) Map_DeviceLost w2 else Some (TrackTask (mLastMapID (buf w2)) w2)) = Some (ok w')"
  shows "conduct strict w w'"
proof -
  have weak: "weak_inv w" and none: "mMapCallback (buf w) = None"
    using assms(1,5) core_inv_weak [OF assms(1)] by (auto simp: weak_inv_def buffer_inv_def)
  have same: "mTasksInFlight w0 = mTasksInFlight w" "pending_serial w0 = pending_serial w" "lost w0 = lost w" "buf w0 = buf w"
    by (simp_all add: w0 split: option.split)
  have weak1: "weak_inv w1" using weak none assms(3,4,6) same by (fastforce simp: weak_inv_def buffer_inv_def w1)
  have un: "mLastMapID (buf w1) \<notin> snd ` set (items (mTasksInFlight w1))"
    using weak_inv_ids [OF weak] by (fastforce simp: w1 same)
  note c2 = consumed_untracked [OF weak1 un w2]
  have even: "even_step w w1"
    using none by (cases callback) (simp_all add: even_step_def w1 w0 ledger_def outstanding_def requests_log answered_log)
  have con: "conduct strict w w'" if "conduct strict w2 w'" "mLastMapID (buf w2) \<le> mLastMapID (buf w')"
  proof -
    have "even_step w w2" using even c2 by (simp add: even_step_def)
    then have "strict \<longrightarrow> even_step w w'" using that(1) by (auto simp: conduct_def intro: even_step_trans)
    moreover have "mLastMapID (buf w2) = mLastMapID (buf w) + 1" "is_error (buf w2) = is_error (buf w)" "pending_serial w2 = pending_serial w"
      using c2 same by (simp_all add: w1)
    ultimately show ?thesis using that assms(2) by (auto simp: conduct_def)
  qed
  show ?thesis
  proof (cases failed)
    case True
    have "weak_inv w2" using c2 by simp
    from called [OF this, of "mLastMapID (buf w2)" Map_DeviceLost w'] w' True have "w' = w2 \<and> mMapCallback (buf w2) = None \<or> conduct strict w2 w'" by auto
    then have "conduct strict w2 w'" using core_inv_none [OF \<open>weak_inv w2\<close>] conduct_refl by auto
    then show ?thesis using con by (simp add: conduct_def)
  next
    case False
    then have eq: "w2 = w1" using c2 by simp
    have ne: "\<not> is_error (buf w2)" using assms(3) by (simp add: eq w1)
    obtain w3 where w3: "TrackTask (mLastMapID (buf w2)) w2 = ok w3" "tracked_inv w3" "ledger w3 = ledger w2" "buf w3 = buf w2"
      using TrackTask_ok [of w2] ne weak1 by (auto simp: eq)
    then have "w' = w3" "requests w3 = requests w2" "lost w3 = lost w2" "pending_serial w3 = pending_serial w2"
      using w' False by (auto simp: TrackTask_def res_iff)
    moreover have "core_inv w3" using w3(2) \<open>lost w3 = lost w2\<close> assms(2) same by (simp add: core_inv_def eq w1)
    ultimately have "conduct strict w2 w'" using w3 by (auto intro!: conduct_same)
    then show ?thesis using con by (simp add: conduct_def)
  qed
qed

lemma map_async:
  assumes "core_inv w" "perform app (AskMap be mode offset sz0 callback userdata) w = Some (ok w')"
  shows "conduct strict w w'"
proof -
  define w0 where "w0 = (case callback of None \<Rightarrow> w | Some c \<Rightarrow> log_event (Requested c userdata) w)"
  have same: "buf w0 = buf w" "lost w0 = lost w" by (simp_all add: w0_def split: option.split)
  define sz where "sz = (if sz0 = kWholeMapSize \<and> offset \<le> mSize (buf w0) then mSize (buf w0) - offset else sz0)"
  obtain status r where v0: "ValidateMapAsync mode offset sz w0 = (status, r)" by (cases "ValidateMapAsync mode offset sz w0")
  then have v: "ValidateMapAsync mode offset sz w = (status, r)" by (simp add: ValidateMapAsync_def same Let_def)
  have "APIMapAsync app be mode offset sz0 callback userdata w0 = Some (ok w')" using assms(2) by (simp add: w0_def)
  note api = this [unfolded APIMapAsync_def Let_def sz_def [symmetric] v0 prod.case]
  consider (refused) msg where "r = validation_error msg" | (accepted) "r = ok ()"
    using ValidateMapAsync_outcome [of mode offset sz w] v by auto
  then show ?thesis
  proof cases
    case refused
    then have "Consumed app r w0 = Some (ok (True, log_event (DeviceError Validation msg) w0))"
      by (simp add: Consumed_def validation_error_def Device_HandleError_def)
    then have "(case callback of None \<Rightarrow> Some (ok (log_event (DeviceError Validation msg) w0))
        | Some c \<Rightarrow> app c userdata status (log_event (MapCallback c userdata status) (log_event (DeviceError Validation msg) w0))) = Some (ok w')"
      using api by simp
    from map_refused [OF assms(1) _ _ w0_def this refl, of mode offset sz] v refused show ?thesis by simp
  next
    case accepted
    note V = ValidateMapAsync_ok [OF v [unfolded accepted]]
    let ?w1 = "w0\<lparr> buf := (buf w)\<lparr> mLastMapID := mLastMapID (buf w) + 1, mMapMode := mode, mMapOffset := offset,
                       mMapSize := sz, mMapCallback := callback, mMapUserdata := userdata, mState := Mapped \<rparr> \<rparr>"
    obtain failed w2 where "Consumed app (MapAsyncImpl be mode offset sz) ?w1 = Some (ok (failed, w2))"
      "(if failed then CallMapCallback app (mLastMapID (buf w2)) Map_DeviceLost w2 else Some (TrackTask (mLastMapID (buf w2)) w2)) = Some (ok w')"
      using api V(2) unfolding accepted by (auto simp: same bindRO_ok_iff Consumed_ok assertR_def split: if_splits)
    then show ?thesis using map_accepted [OF assms(1) V refl w0_def] by blast
  qed
qed

lemma performs:
  assumes "core_inv w" "perform app a w = Some (ok w')"
  shows "conduct strict w w' \<and> (\<not> asks_map a \<and> mMapCallback (buf w) = None \<longrightarrow> mMapCallback (buf w') = None)"
proof (cases a)
  case (AskMap be mode offset sz callback userdata)
  then show ?thesis using map_async [OF assms(1)] assms(2) by (simp del: perform.simps)
next
  case AskSubmit
  then show ?thesis using assms conduct_submit [OF assms(1), of strict]
    by (cases "lost w") (auto simp: core_inv_def ledger_log requests_log intro!: conduct_same)
next
  case (AskTick serial)
  then show ?thesis using assms tick [OF assms(1)]
    by (auto simp: core_inv_def ledger_log requests_log split: if_splits intro!: conduct_same)
qed (use assms unmap [OF assms(1)] destroy [OF assms(1)] in auto)

lemma performs_all:
  assumes "core_inv w" "foldRO (perform app) as w = Some (ok w')"
  shows "conduct strict w w' \<and> (list_all (\<lambda>a. \<not> asks_map a) as \<and> mMapCallback (buf w) = None \<longrightarrow> mMapCallback (buf w') = None)"
  using assms
proof (induction as arbitrary: w)
  case (Cons a as)
  obtain w1 where w1: "perform app a w = Some (ok w1)" "foldRO (perform app) as w1 = Some (ok w')"
    using Cons.prems(2) by (auto simp: bindRO_ok_iff)
  note p = performs [OF Cons.prems(1) w1(1)]
  then have "core_inv w1" by (simp add: conduct_def)
  from Cons.IH [OF this w1(2)] p show ?case by (auto intro: conduct_trans)
qed (auto intro: conduct_refl)

end

lemma behave_application: "application (behave strict n script1) strict"
proof (induction n)
  case 0
  show ?case by unfold_locales simp_all
next
  case (Suc n)
  show ?case
  proof
    show "conduct strict w w'" if "core_inv w" "behave strict (Suc n) script1 c u s w = Some (ok w')" for w c u s w'
      using application.performs_all [OF Suc that(1)] that(2) by simp
    show "mMapCallback (buf w') = None"
      if "strict" "told_of_end s" "core_inv w" "mMapCallback (buf w) = None" "behave strict (Suc n) script1 c u s w = Some (ok w')" for s w c u w'
      using application.performs_all [OF Suc that(3)] that by (auto simp: restrain_def list_all_iff)
  qed
qed

interpretation reentrant: application "behave strict n script1" strict for strict n script1
  by (rule behave_application)

section \<open>Reachable states\<close>

lemma CreateBuffer_inv:
  assumes "CreateBuffer l v lazy (ok n) be d = ok b" "n \<noteq> 0" "desc_size d \<le> n"
  shows "buffer_inv b" "mMapCallback b = None" "\<not> is_error b"
  using assms
  by (auto simp: CreateBuffer_def BufferBase_def MapAtCreation_def MapAtCreationInternal_def GetAllocatedSize_def Let_def buffer_inv_def
      bindR_Inr_iff split: if_splits)

definition new_world :: "buffer \<Rightarrow> bool \<Rightarrow> nat \<Rightarrow> world" where
  "new_world b tracked serial = \<lparr> buf = b, in_list = tracked, lost = False, pending_serial = serial, mTasksInFlight = [], events = [] \<rparr>"

text \<open>The states of a buffer between the calls of an application. At every step the application may
  follow another script, nested to another depth, and the backend may answer differently; the serial
  ticked and the error reported are arbitrary.\<close>

inductive buffer_run :: "bool \<Rightarrow> world \<Rightarrow> bool" for restrained where
  run_create: "CreateBuffer False v lazy (ok n) be d = ok b \<Longrightarrow> n \<noteq> 0 \<Longrightarrow> desc_size d \<le> n \<Longrightarrow> buffer_run restrained (new_world b True serial)"
| run_error: "buffer_run restrained (new_world (ErrorBuffer d) (mappedAtCreation d) serial)"
| run_call: "buffer_run restrained w \<Longrightarrow> perform (behave restrained n script1) a w = Some (ok w') \<Longrightarrow> buffer_run restrained w'"
| run_tick: "buffer_run restrained w \<Longrightarrow> Queue_Tick (behave restrained n script1) serial w = Some (ok w') \<Longrightarrow> buffer_run restrained w'"
| run_submit: "buffer_run restrained w \<Longrightarrow> buffer_run restrained (w\<lparr> pending_serial := pending_serial w + 1 \<rparr>)"
| run_device_error: "buffer_run restrained w \<Longrightarrow> Device_HandleError (behave restrained n script1) t msg w = Some (ok w') \<Longrightarrow> buffer_run restrained w'"

definition run_inv :: "bool \<Rightarrow> world \<Rightarrow> bool" where
  "run_inv restrained w \<longleftrightarrow> core_inv w \<and> (restrained \<longrightarrow> ledger w = mset (requests w))"

lemma run_inv_conduct: "run_inv restrained w \<Longrightarrow> conduct restrained w w' \<Longrightarrow> run_inv restrained w'"
  by (auto simp: run_inv_def conduct_def even_step_def)

lemma run_inv_new: "buffer_inv b \<Longrightarrow> mMapCallback b = None \<Longrightarrow> run_inv restrained (new_world b tracked serial)"
  by (auto simp: run_inv_def weak_inv_def new_world_def ledger_none answered_def requests_def intro!: core_inv_none)

lemma buffer_run_inv: "buffer_run restrained w \<Longrightarrow> run_inv restrained w"
proof (induction rule: buffer_run.induct)
  case (run_create v lazy n be d b serial)
  then show ?case using CreateBuffer_inv [OF run_create] run_inv_new by blast
next
  case (run_error d serial)
  show ?case by (rule run_inv_new) (simp_all add: buffer_inv_def ErrorBuffer_def)
next
  case (run_call w n script1 a w')
  then show ?case using reentrant.performs run_inv_conduct by (meson run_inv_def)
next
  case (run_tick w n script1 serial w')
  then show ?case using reentrant.tick run_inv_conduct by (meson run_inv_def)
next
  case (run_submit w)
  then have core: "core_inv w" by (simp add: run_inv_def)
  show ?case by (rule run_inv_conduct [OF run_submit.IH conduct_submit [OF core]])
next
  case (run_device_error w n script1 t msg w')
  then show ?case using reentrant.device_error run_inv_conduct by (meson run_inv_def)
qed

lemma buffer_run_core: "buffer_run restrained w \<Longrightarrow> core_inv w"
  using buffer_run_inv by (simp add: run_inv_def)

section \<open>An example\<close>

text \<open>A buffer of sixteen bytes, mapped for reading from its start.\<close>

definition good_backend :: buffer_backend where
  "good_backend = \<lparr> IsCPUWritableAtCreation = True, MapAtCreationImpl = ok (), MapAsyncImpl = (\<lambda>_ _ _. ok ()),
     CreateStagingBuffer = (\<lambda>_. ok ()), CopyFromStagingToBuffer = ok (), GetMappedPointerImpl = True \<rparr>"

definition read_buffer :: buffer_descriptor where
  "read_buffer = \<lparr> nextInChain = False, desc_usage = MapRead, desc_size = 16, mappedAtCreation = False \<rparr>"

definition mapped_world :: world where
  "mapped_world = \<lparr> buf = (BufferBase read_buffer 16)\<lparr> mState := Mapped, mMapCallback := Some 7, mMapUserdata := 9, mLastMapID := 1,
       mMapMode := Mode_Read, mMapSize := 16 \<rparr>,
     in_list = True, lost = False, pending_serial = 3, mTasksInFlight = [(3, [1])], events = [Requested 7 9] \<rparr>"

lemma read_buffer_created: "CreateBuffer False True False (ok 16) good_backend read_buffer = ok (BufferBase read_buffer 16)"
  by (simp add: CreateBuffer_def read_buffer_def ValidateBufferDescriptor_def ValidateBufferUsage_def IsSubset_def)

lemma read_buffer_mapped:
  "perform app (AskMap good_backend Mode_Read 0 kWholeMapSize (Some 7) 9) (new_world (BufferBase read_buffer 16) True 3) = Some (ok mapped_world)"
  by (simp add: APIMapAsync_def ValidateMapAsync_def Consumed_def TrackTask_def SerialQueue_Enqueue_def push_back_last_def log_event_def
      good_backend_def read_buffer_def BufferBase_def new_world_def mapped_world_def add_internal_usages_def)

lemma mapped_world_run: "buffer_run restrained mapped_world"
proof -
  have "buffer_run restrained (new_world (BufferBase read_buffer 16) True 3)"
    by (rule run_create [OF read_buffer_created]) (simp_all add: read_buffer_def)
  from run_call [OF this read_buffer_mapped] show ?thesis .
qed

text \<open>
  The application of the example answers its first callback by unmapping the buffer and asking for the
  next mapping. When that is the callback of a successful mapping, the second request is outstanding
  afterwards; when it is the callback that \<open>Unmap\<close> fires, \<open>Unmap\<close> goes on to clear the callback of the
  second request, which nobody ever answers.
\<close>

definition remapping :: script where
  "remapping c u s w = (if c = 7 then [AskUnmap good_backend, AskMap good_backend Mode_Read 0 kWholeMapSize (Some 8) 5] else [])"

lemmas run_simps = APIMapAsync_def ValidateMapAsync_def Consumed_def TrackTask_def SerialQueue_Enqueue_def push_back_last_def
  log_event_def good_backend_def read_buffer_def BufferBase_def mapped_world_def add_internal_usages_def
  APIUnmap_def ValidateUnmap_def UnmapInternal_def CallMapCallback_def Device_HandleError_def
  remapping_def restrain_def told_of_end_def validation_error_def

lemma remap_in_success_callback:
  "\<exists>w. perform (behave restrained (Suc (Suc 0)) remapping) (AskTick 3) mapped_world = Some (ok w) \<and>
     requests w = [(7, 9), (8, 5)] \<and> answered w = [(7, 9)] \<and> outstanding w = {#(8, 5)#}"
  by (simp add: run_simps Queue_Tick_def IterateUpTo_items ClearUpTo_def storage_ok_def vectors_ok_def items_def requests_def answered_def outstanding_def kWholeMapSize_def)

lemma remap_in_unmap_callback_is_lost:
  "\<exists>w. buffer_run False w \<and> requests w = [(7, 9), (8, 5)] \<and> answered w = [(7, 9)] \<and> outstanding w = {#}"
proof -
  have "\<exists>w. perform (behave False (Suc (Suc 0)) remapping) (AskUnmap good_backend) mapped_world = Some (ok w) \<and>
      requests w = [(7, 9), (8, 5)] \<and> answered w = [(7, 9)] \<and> outstanding w = {#}"
    by (simp add: run_simps requests_def answered_def outstanding_def kWholeMapSize_def)
  then show ?thesis using run_call [OF mapped_world_run] by blast
qed

section \<open>Properties\<close>

text \<open>
  C20. In every state a buffer reaches, where the callbacks of the application may call back into
  the buffer, the queue and the device but ask for no mapping in a callback that is told of unmapping
  or destruction, each callback passed to \<open>MapAsync\<close> has been called exactly once, but for at most one
  that is still outstanding, and that only while the buffer is mapped. From there, completing the
  submitted serials and losing the device return without undefined behaviour and leave every
  callback called exactly once, when the callbacks they fire do nothing more; so does destroying a
  buffer that its device still tracks.
\<close>

theorem map_requests_answered_once:
  assumes "buffer_run True w"
  shows "mset (requests w) = mset (answered w) + outstanding w \<and> (outstanding w = {#} \<or> mState (buf w) = Mapped) \<and>
    (\<exists>w'. Queue_Tick quiet (pending_serial w) w = Some (ok w') \<and> mset (answered w') = mset (requests w)) \<and>
    (\<exists>w'. Device_HandleError quiet ContextLost msg w = Some (ok w') \<and> mset (answered w') = mset (requests w)) \<and>
    (in_list w \<and> CopyFromStagingToBuffer be \<noteq> undef \<longrightarrow>
      (\<exists>w'. APIDestroy quiet be w = Some (ok w') \<and> mset (answered w') = mset (requests w)))"
proof -
  have core: "tracked_inv w" and weak: "weak_inv w" and led: "ledger w = mset (requests w)"
    using buffer_run_inv [OF assms] by (auto simp: run_inv_def core_inv_def tracked_inv_def)
  have "outstanding w = {#} \<or> mState (buf w) = Mapped" using tracked_inv_unmapped [OF core] by (auto simp: outstanding_def)
  moreover have "\<exists>w'. Queue_Tick quiet (pending_serial w) w = Some (ok w') \<and> mset (answered w') = mset (requests w)"
    using Queue_Tick_quiet [OF core, of "pending_serial w"] led ledger_none by auto
  moreover have "\<exists>w'. Device_HandleError quiet ContextLost msg w = Some (ok w') \<and> mset (answered w') = mset (requests w)"
  proof -
    obtain w' where w': "Device_HandleError quiet ContextLost msg w = Some (ok w')" "reported w w'" "mMapCallback (buf w') = None"
      using Device_HandleError_quiet [OF weak, of ContextLost msg] core by auto
    then show ?thesis using reportedD(3) [OF w'(2)] ledger_none [OF w'(3)] led by simp
  qed
  moreover have "\<exists>w'. APIDestroy quiet be w = Some (ok w') \<and> mset (answered w') = mset (requests w)"
    if "in_list w \<and> CopyFromStagingToBuffer be \<noteq> undef"
    using APIDestroy_quiet [OF core, of be] that led ledger_none by auto
  ultimately show ?thesis using led by (simp add: ledger_def)
qed

theorem map_requests_answered_once_witness:
  "\<exists>w. buffer_run True w \<and> requests w = [(7, 9), (8, 5)] \<and> outstanding w = {#(8, 5)#} \<and>
     (\<exists>w'. Queue_Tick quiet (pending_serial w) w = Some (ok w') \<and> mset (answered w') = {#(7, 9), (8, 5)#})"
proof -
  obtain w where w: "perform (behave True (Suc (Suc 0)) remapping) (AskTick 3) mapped_world = Some (ok w)"
    "requests w = [(7, 9), (8, 5)]" "outstanding w = {#(8, 5)#}"
    using remap_in_success_callback [of True] by blast
  have run: "buffer_run True w" by (rule run_call [OF mapped_world_run w(1)])
  from map_requests_answered_once [OF run] w run show ?thesis by auto
qed

lemma CanGetMappedRange_ok:
  assumes "buffer_inv b"
  shows "\<exists>c. CanGetMappedRange writable offset sz b = ok c \<and>
    (c \<longrightarrow> mState b \<in> {Mapped, MappedAtCreation} \<and> mMapOffset b \<le> offset \<and>
      offset + sz \<le> mMapOffset b + mMapSize b \<and> offset + sz \<le> mSize b \<and>
      (writable \<and> mState b = Mapped \<longrightarrow> mMapMode b AND Mode_Write \<noteq> 0))"
proof (cases "offset mod 8 \<noteq> 0 \<or> sz mod 4 \<noteq> 0 \<or> sz > mMapSize b \<or> offset < mMapOffset b \<or> offset - mMapOffset b > mMapSize b - sz")
  case True
  then show ?thesis by (intro exI [of _ False]) (auto simp: CanGetMappedRange_def)
next
  case False
  then have f: "CanGetMappedRange writable offset sz b = (case mState b of
        MappedAtCreation \<Rightarrow> ok True
      | Mapped \<Rightarrow> bindR (assertR (one_mode (mMapMode b))) (\<lambda>_. ok (\<not> writable \<or> mMapMode b AND Mode_Write \<noteq> 0))
      | Unmapped \<Rightarrow> ok False | Destroyed \<Rightarrow> ok False)" unfolding CanGetMappedRange_def one_mode_def by simp
  have range: "mMapOffset b \<le> offset" "offset + sz \<le> mMapOffset b + mMapSize b" using False by auto
  show ?thesis
  proof (cases "mState b")
    case Mapped
    then have "one_mode (mMapMode b)" "offset + sz \<le> mSize b" using assms range by (auto simp: buffer_inv_def)
    then show ?thesis using f Mapped range by simp
  next
    case MappedAtCreation
    then have "offset + sz \<le> mSize b" using assms range by (auto simp: buffer_inv_def)
    then show ?thesis using f MappedAtCreation range by auto
  qed (auto simp: f)
qed

text \<open>
  C21. Whatever a buffer has gone through, asking for a mapped range has a defined result; a
  pointer is handed out only while the buffer is mapped, for a range inside the mapped range and
  so inside the buffer, for writing only when the mapping allows it, and a pointer into the staging
  buffer stays inside that buffer.
\<close>

theorem mapped_range_inside:
  assumes "buffer_run restrained w"
  shows "\<exists>p. GetMappedRange be offset sz writable (buf w) = ok p \<and>
    (p = Null \<or> mState (buf w) \<in> {Mapped, MappedAtCreation} \<and> mMapOffset (buf w) \<le> offset \<and>
      offset + sz \<le> mMapOffset (buf w) + mMapSize (buf w) \<and> offset + sz \<le> mSize (buf w) \<and>
      (writable \<and> mState (buf w) = Mapped \<longrightarrow> mMapMode (buf w) AND Mode_Write \<noteq> 0)) \<and>
    (\<forall>i. p = Into_Staging i \<longrightarrow> i = offset \<and> (\<exists>n. mStagingBuffer (buf w) = Some n \<and> i + sz \<le> n))"
proof -
  have b: "buffer_inv (buf w)" using core_inv_weak [OF buffer_run_core [OF assms]] by (simp add: weak_inv_def)
  note CanGetMappedRange_ok [OF b, of writable offset sz]
  then obtain c where c: "CanGetMappedRange writable offset sz (buf w) = ok c"
    "c \<longrightarrow> mState (buf w) \<in> {Mapped, MappedAtCreation} \<and> mMapOffset (buf w) \<le> offset \<and>
        offset + sz \<le> mMapOffset (buf w) + mMapSize (buf w) \<and> offset + sz \<le> mSize (buf w) \<and>
        (writable \<and> mState (buf w) = Mapped \<longrightarrow> mMapMode (buf w) AND Mode_Write \<noteq> 0)" by blast
  have n: "offset + sz \<le> n" if "c" "mStagingBuffer (buf w) = Some n" for n
  proof -
    have "n = mAllocatedSize (buf w)" "mSize (buf w) \<le> mAllocatedSize (buf w)" using b that(2) by (auto simp: buffer_inv_def)
    then show ?thesis using that(1) c(2) by linarith
  qed
  let ?p = "if \<not> c then Null else if mStagingBuffer (buf w) \<noteq> None then Into_Staging offset
    else if mSize (buf w) = 0 then Dangling_Constant else if GetMappedPointerImpl be then Into_Buffer offset else Null"
  have "GetMappedRange be offset sz writable (buf w) = ok ?p" using c(1) by (simp add: GetMappedRange_def)
  moreover have "?p = Null \<or> c" by simp
  moreover have "i = offset \<and> (\<exists>n. mStagingBuffer (buf w) = Some n \<and> i + sz \<le> n)" if "?p = Into_Staging i" for i
    using that n by (auto split: if_splits)
  ultimately show ?thesis using c(2) by (intro exI [of _ ?p]) blast
qed

theorem mapped_range_inside_witness:
  "\<exists>p. buffer_run False mapped_world \<and> GetMappedRange good_backend 0 8 False (buf mapped_world) = ok p \<and> p = Into_Buffer 0 \<and>
     0 + 8 \<le> mSize (buf mapped_world)"
proof -
  have "GetMappedRange good_backend 0 8 False (buf mapped_world) = ok (Into_Buffer 0)"
    by (simp add: mapped_world_def GetMappedRange_def CanGetMappedRange_def good_backend_def BufferBase_def read_buffer_def)
  with mapped_range_inside [OF mapped_world_run, of good_backend 0 8 False] show ?thesis using mapped_world_run by auto
qed

section \<open>Callbacks that destroy the buffer\<close>

lemma APIDestroy_answered:
  assumes "mState (buf w) = Mapped" "mMapCallback (buf w) = None" "\<not> is_error (buf w)" "in_list w"
  shows "APIDestroy app be w = Some (ok ((log_event UnmapImpl w)\<lparr> in_list := False,
    buf := (buf w)\<lparr> mMapCallback := None, mMapUserdata := 0, mState := Destroyed \<rparr> \<rparr>))"
  using assms by (simp add: APIDestroy_def DestroyImpl_def UnmapInternal_def CallMapCallback_def log_event_def)

text \<open>
  C22. Let a buffer be mapped, tracked by its device, and its map request unanswered. When the
  application destroys it inside the callback that \<open>Unmap\<close> fires, the destruction runs to its end and
  then \<open>Unmap\<close> goes on, whatever the backend: it is told to unmap a second time and the
  state becomes \<open>Unmapped\<close>, so that the destroyed buffer, no longer tracked by its device, passes the
  check for use in a submit.
\<close>

theorem destroy_in_unmap_callback_revives:
  assumes "buffer_run restrained w" "mState (buf w) = Mapped" "mMapCallback (buf w) = Some c" "in_list w"
    and destroys: "\<And>u s v. app c u s v = APIDestroy app' be' v"
  shows "\<exists>w'. APIUnmap app be w = Some (ok w') \<and>
     \<not> in_list w' \<and> mState (buf w') = Unmapped \<and> ValidateCanUseOnQueueNow (buf w') = ok () \<and>
     events w' = events w @ [MapCallback c (mMapUserdata (buf w)) Map_UnmappedBeforeCallback, UnmapImpl, UnmapImpl]"
proof -
  have core: "core_inv w" by (rule buffer_run_core [OF assms(1)])
  then have live: "\<not> lost w" "\<not> is_error (buf w)"
    using assms(2,3) by (auto simp: core_inv_def tracked_inv_def weak_inv_def buffer_inv_def)
  then show ?thesis using assms(2-4)
    by (simp add: APIUnmap_def ValidateUnmap_def Consumed_def UnmapInternal_def CallMapCallback_def Let_def destroys APIDestroy_answered
        ValidateCanUseOnQueueNow_def) (simp add: log_event_def)
qed

theorem destroy_in_unmap_callback_revives_witness:
  "\<exists>w'. buffer_run False mapped_world \<and> APIUnmap (\<lambda>c u s. APIDestroy quiet good_backend) good_backend mapped_world = Some (ok w') \<and>
     mState (buf w') = Unmapped \<and> ValidateCanUseOnQueueNow (buf w') = ok () \<and>
     events w' = [Requested 7 9, MapCallback 7 9 Map_UnmappedBeforeCallback, UnmapImpl, UnmapImpl]"
proof -
  have "mState (buf mapped_world) = Mapped" "mMapCallback (buf mapped_world) = Some 7" "in_list mapped_world"
    "mMapUserdata (buf mapped_world) = 9" "events mapped_world = [Requested 7 9]" by (simp_all add: mapped_world_def)
  with destroy_in_unmap_callback_revives [OF mapped_world_run [of False], of 7 "\<lambda>c u s. APIDestroy quiet good_backend" quiet good_backend good_backend]
  show ?thesis using mapped_world_run [of False] by auto
qed

end
