(* ===== verification/Subresource.thy ===== *)
theory Subresource
  imports Prelude
begin

unbundle bit_operations_syntax

text \<open>
  Aspects and ranges of subresources: \<open>dawn_native/Subresource.cpp\<close> and the enumeration masks
  of \<open>dawn/EnumClassBitmasks.h\<close>. A mask of aspects is the number the C++ enumeration holds.
\<close>

section \<open>Aspects\<close>

type_synonym aspect = nat

definition Aspect_None :: aspect where "Aspect_None = 0"
definition Aspect_Color :: aspect where "Aspect_Color = 1"
definition Aspect_Depth :: aspect where "Aspect_Depth = 2"
definition Aspect_Stencil :: aspect where "Aspect_Stencil = 4"
definition Aspect_Plane0 :: aspect where "Aspect_Plane0 = 8"
definition Aspect_Plane1 :: aspect where "Aspect_Plane1 = 16"
definition Aspect_CombinedDepthStencil :: aspect where "Aspect_CombinedDepthStencil = 32"

lemmas aspect_defs = Aspect_None_def Aspect_Color_def Aspect_Depth_def Aspect_Stencil_def
  Aspect_Plane0_def Aspect_Plane1_def Aspect_CombinedDepthStencil_def

definition HasZeroOrOneBits :: "nat \<Rightarrow> bool" where
  "HasZeroOrOneBits value \<longleftrightarrow> value AND (value - 1) = 0"

definition HasOneBit :: "nat \<Rightarrow> bool" where
  "HasOneBit value \<longleftrightarrow> HasZeroOrOneBits value \<and> value \<noteq> 0"

text \<open>The members of \<open>wgpu::TextureAspect\<close>; a format enters through its aspects only.\<close>

datatype texture_aspect = TextureAspect_All | StencilOnly | DepthOnly | Plane0Only | Plane1Only

definition SelectFormatAspects :: "aspect \<Rightarrow> texture_aspect \<Rightarrow> aspect" where
  "SelectFormatAspects format_aspects a =
     (case a of
        TextureAspect_All \<Rightarrow> format_aspects
      | DepthOnly \<Rightarrow> format_aspects AND Aspect_Depth
      | StencilOnly \<Rightarrow> format_aspects AND Aspect_Stencil
      | Plane0Only \<Rightarrow> format_aspects AND Aspect_Plane0
      | Plane1Only \<Rightarrow> format_aspects AND Aspect_Plane1)"

definition ConvertAspect :: "aspect \<Rightarrow> texture_aspect \<Rightarrow> aspect res" where
  "ConvertAspect format_aspects a =
     (let aspectMask = SelectFormatAspects format_aspects a
      in if aspectMask \<noteq> Aspect_None then ok aspectMask else undef)"

definition ConvertSingleAspect :: "aspect \<Rightarrow> texture_aspect \<Rightarrow> aspect res" where
  "ConvertSingleAspect format_aspects a =
     bindR (ConvertAspect format_aspects a) (\<lambda>aspectMask.
       if HasOneBit aspectMask then ok aspectMask else undef)"

definition ConvertViewAspect :: "aspect \<Rightarrow> texture_aspect \<Rightarrow> aspect res" where
  "ConvertViewAspect format_aspects a =
     (if format_aspects = Aspect_Color \<and> a = Plane0Only then ok Aspect_Plane0
      else if format_aspects = Aspect_Color \<and> a = Plane1Only then ok Aspect_Plane1
      else ConvertAspect format_aspects a)"

definition GetAspectIndex :: "aspect \<Rightarrow> nat res" where
  "GetAspectIndex aspect =
     bindR (assertR (HasOneBit aspect)) (\<lambda>_.
       if aspect \<in> {Aspect_Color, Aspect_Depth, Aspect_Plane0, Aspect_CombinedDepthStencil} then ok 0
       else if aspect \<in> {Aspect_Plane1, Aspect_Stencil} then ok 1
       else undef)"

definition GetAspectCount :: "aspect \<Rightarrow> nat res" where
  "GetAspectCount aspects =
     (if aspects = Aspect_Color \<or> aspects = Aspect_Depth \<or> aspects = Aspect_CombinedDepthStencil then ok 1
      else if aspects = Aspect_Plane0 OR Aspect_Plane1 then ok 2
      else bindR (assertR (aspects = Aspect_Depth OR Aspect_Stencil)) (\<lambda>_. ok 2))"

text \<open>A range-based loop over \<open>IterateEnumMask(mask)\<close> visits the bits of the mask in
  ascending order, as theory \<open>Bit_Iteration\<close> shows of the iterator. \<open>EnumBitmaskSize\<close> of
  \<open>Aspect\<close> is six.\<close>

definition IterateEnumMask :: "aspect \<Rightarrow> aspect list" where
  "IterateEnumMask m = map (\<lambda>i. 2 ^ i) (filter (bit m) [0..<6])"

section \<open>Ranges\<close>

record subresource_range =
  aspects :: aspect
  baseArrayLayer :: nat
  layerCount :: nat
  baseMipLevel :: nat
  levelCount :: nat

definition SubresourceRange :: "aspect \<Rightarrow> nat \<times> nat \<Rightarrow> nat \<times> nat \<Rightarrow> subresource_range" where
  "SubresourceRange a arrayLayerParam mipLevelParams =
     \<lparr> aspects = a, baseArrayLayer = fst arrayLayerParam, layerCount = snd arrayLayerParam,
       baseMipLevel = fst mipLevelParams, levelCount = snd mipLevelParams \<rparr>"

definition SubresourceRange0 :: subresource_range where
  "SubresourceRange0 = SubresourceRange Aspect_None (0, 0) (0, 0)"

definition SingleMipAndLayer :: "nat \<Rightarrow> nat \<Rightarrow> aspect \<Rightarrow> subresource_range" where
  "SingleMipAndLayer mipLevel arrayLayer a = SubresourceRange a (arrayLayer, 1) (mipLevel, 1)"

definition MakeSingle :: "aspect \<Rightarrow> nat \<Rightarrow> nat \<Rightarrow> subresource_range res" where
  "MakeSingle a arrayLayer mipLevel =
     bindR (assertR (HasOneBit a)) (\<lambda>_. ok (SubresourceRange a (arrayLayer, 1) (mipLevel, 1)))"

definition MakeFull :: "aspect \<Rightarrow> nat \<Rightarrow> nat \<Rightarrow> subresource_range" where
  "MakeFull a layers levels = SubresourceRange a (0, layers) (0, levels)"

end
