(* ===== verification/Subresource_Storage.thy ===== *)
theory Subresource_Storage
  imports Subresource
begin

unbundle bit_operations_syntax

text \<open>
  \<open>dawn_native/SubresourceStorage.h\<close>: a value per subresource (aspect, array layer, mip level),
  compressed per aspect and per layer when the values agree. The operations keep the source's
  arrays, flags and assertions; a closure is a function of the range and the data it is called
  with, and the calls are returned in order.
\<close>

section \<open>State\<close>

text \<open>Elements of the two arrays that the constructor leaves uninitialised are \<open>None\<close>; a null
  pointer is \<open>None\<close>.\<close>

record 'a subresources =
  mAspects :: aspect
  mMipLevelCount :: nat
  mArrayLayerCount :: nat
  mAspectCompressed :: "bool option list"
  mInlineAspectData :: "'a option list"
  mLayerCompressed :: "bool list option"
  mData :: "'a list option"

definition kMaxAspects :: nat where
  "kMaxAspects = 2"

definition u32 :: "nat \<Rightarrow> nat" where
  "u32 n = n mod 2 ^ 32"

definition init_read :: "'b option list \<Rightarrow> nat \<Rightarrow> 'b res" where
  "init_read xs i = bindR (vec_at xs (int i)) (\<lambda>x. case x of None \<Rightarrow> undef | Some v \<Rightarrow> ok v)"

definition heap_read :: "'b list option \<Rightarrow> nat \<Rightarrow> 'b res" where
  "heap_read p i = (case p of None \<Rightarrow> undef | Some xs \<Rightarrow> vec_at xs (int i))"

definition heap_write :: "'b list option \<Rightarrow> nat \<Rightarrow> 'b \<Rightarrow> 'b list option res" where
  "heap_write p i v = (case p of None \<Rightarrow> undef | Some xs \<Rightarrow> bindR (vec_set xs (int i) v) (\<lambda>ys. ok (Some ys)))"

section \<open>Accessors\<close>

definition aspect_compressed :: "'a subresources \<Rightarrow> nat \<Rightarrow> bool res" where
  "aspect_compressed st aspectIndex = init_read (mAspectCompressed st) aspectIndex"

definition DataInline :: "'a subresources \<Rightarrow> nat \<Rightarrow> 'a res" where
  "DataInline st aspectIndex =
     bindR (aspect_compressed st aspectIndex) (\<lambda>c. bindR (assertR c) (\<lambda>_.
       init_read (mInlineAspectData st) aspectIndex))"

definition DataInline_write :: "nat \<Rightarrow> 'a \<Rightarrow> 'a subresources \<Rightarrow> 'a subresources res" where
  "DataInline_write aspectIndex v st =
     bindR (aspect_compressed st aspectIndex) (\<lambda>c. bindR (assertR c) (\<lambda>_.
     bindR (vec_set (mInlineAspectData st) (int aspectIndex) (Some v)) (\<lambda>xs.
       ok (st\<lparr> mInlineAspectData := xs \<rparr>))))"

definition layer_slot :: "'a subresources \<Rightarrow> nat \<Rightarrow> nat \<Rightarrow> nat" where
  "layer_slot st aspectIndex layer = u32 (aspectIndex * mArrayLayerCount st + layer)"

definition LayerCompressed :: "'a subresources \<Rightarrow> nat \<Rightarrow> nat \<Rightarrow> bool res" where
  "LayerCompressed st aspectIndex layer =
     bindR (aspect_compressed st aspectIndex) (\<lambda>c. bindR (assertR (\<not> c)) (\<lambda>_.
       heap_read (mLayerCompressed st) (layer_slot st aspectIndex layer)))"

definition LayerCompressed_write :: "nat \<Rightarrow> nat \<Rightarrow> bool \<Rightarrow> 'a subresources \<Rightarrow> 'a subresources res" where
  "LayerCompressed_write aspectIndex layer b st =
     bindR (aspect_compressed st aspectIndex) (\<lambda>c. bindR (assertR (\<not> c)) (\<lambda>_.
     bindR (heap_write (mLayerCompressed st) (layer_slot st aspectIndex layer) b) (\<lambda>p.
       ok (st\<lparr> mLayerCompressed := p \<rparr>))))"

text \<open>The slot of a level, after the assertions of \<open>Data\<close>.\<close>

definition data_slot :: "'a subresources \<Rightarrow> nat \<Rightarrow> nat \<Rightarrow> nat \<Rightarrow> nat res" where
  "data_slot st aspectIndex layer level =
     bindR (if level = 0 then ok True else bindR (LayerCompressed st aspectIndex layer) (\<lambda>c. ok (\<not> c))) (\<lambda>a.
     bindR (assertR a) (\<lambda>_.
     bindR (aspect_compressed st aspectIndex) (\<lambda>c. bindR (assertR (\<not> c)) (\<lambda>_.
       ok (u32 ((aspectIndex * mArrayLayerCount st + layer) * mMipLevelCount st + level))))))"

definition Data :: "'a subresources \<Rightarrow> nat \<Rightarrow> nat \<Rightarrow> nat \<Rightarrow> 'a res" where
  "Data st aspectIndex layer level =
     bindR (data_slot st aspectIndex layer level) (heap_read (mData st))"

definition Data_write :: "nat \<Rightarrow> nat \<Rightarrow> nat \<Rightarrow> 'a \<Rightarrow> 'a subresources \<Rightarrow> 'a subresources res" where
  "Data_write aspectIndex layer level v st =
     bindR (data_slot st aspectIndex layer level) (\<lambda>i.
     bindR (heap_write (mData st) i v) (\<lambda>p. ok (st\<lparr> mData := p \<rparr>)))"

definition GetFullLayerRange :: "'a subresources \<Rightarrow> aspect \<Rightarrow> nat \<Rightarrow> subresource_range" where
  "GetFullLayerRange st a layer = SubresourceRange a (layer, 1) (0, mMipLevelCount st)"

section \<open>Construction and compression\<close>

definition SubresourceStorage :: "aspect \<Rightarrow> nat \<Rightarrow> nat \<Rightarrow> 'a \<Rightarrow> 'a subresources res" where
  "SubresourceStorage a arrayLayerCount mipLevelCount initialValue =
     bindR (assertR (arrayLayerCount \<le> 65535)) (\<lambda>_.
     bindR (assertR (mipLevelCount \<le> 255)) (\<lambda>_.
     bindR (GetAspectCount a) (\<lambda>aspectCount.
     bindR (assertR (aspectCount \<le> kMaxAspects)) (\<lambda>_.
     foldR (\<lambda>aspectIndex st.
         bindR (vec_set (mAspectCompressed st) (int aspectIndex) (Some True)) (\<lambda>cs.
           DataInline_write aspectIndex initialValue (st\<lparr> mAspectCompressed := cs \<rparr>)))
       [0..<aspectCount]
       \<lparr> mAspects = a, mMipLevelCount = mipLevelCount, mArrayLayerCount = arrayLayerCount,
         mAspectCompressed = replicate kMaxAspects None, mInlineAspectData = replicate kMaxAspects None,
         mLayerCompressed = None, mData = None \<rparr>))))"

text \<open>\<open>T0\<close> is the value a value-initialised element has.\<close>

definition allocate :: "'a \<Rightarrow> 'a subresources \<Rightarrow> 'a subresources res" where
  "allocate T0 st =
     (if mData st = None then
        bindR (assertR (mLayerCompressed st = None)) (\<lambda>_.
        bindR (GetAspectCount (mAspects st)) (\<lambda>aspectCount.
          ok (st\<lparr> mLayerCompressed := Some (replicate (aspectCount * mArrayLayerCount st) True),
                  mData := Some (replicate (aspectCount * mArrayLayerCount st * mMipLevelCount st) T0) \<rparr>)))
      else ok st)"

definition DecompressAspect :: "'a \<Rightarrow> nat \<Rightarrow> 'a subresources \<Rightarrow> 'a subresources res" where
  "DecompressAspect T0 aspectIndex st =
     bindR (aspect_compressed st aspectIndex) (\<lambda>c. bindR (assertR c) (\<lambda>_.
     bindR (DataInline st aspectIndex) (\<lambda>aspectData.
     bindR (vec_set (mAspectCompressed st) (int aspectIndex) (Some False)) (\<lambda>cs.
     bindR (allocate T0 (st\<lparr> mAspectCompressed := cs \<rparr>)) (\<lambda>st.
     bindR (LayerCompressed st aspectIndex 0) (\<lambda>c. bindR (assertR c) (\<lambda>_.
     foldR (\<lambda>layer st.
         bindR (Data_write aspectIndex layer 0 aspectData st) (\<lambda>st.
         bindR (LayerCompressed st aspectIndex layer) (\<lambda>c. bindR (assertR c) (\<lambda>_. ok st))))
       [0..<mArrayLayerCount st] st)))))))"

definition DecompressLayer :: "nat \<Rightarrow> nat \<Rightarrow> 'a subresources \<Rightarrow> 'a subresources res" where
  "DecompressLayer aspectIndex layer st =
     bindR (LayerCompressed st aspectIndex layer) (\<lambda>c. bindR (assertR c) (\<lambda>_.
     bindR (aspect_compressed st aspectIndex) (\<lambda>c. bindR (assertR (\<not> c)) (\<lambda>_.
     bindR (Data st aspectIndex layer 0) (\<lambda>layerData.
     bindR (LayerCompressed_write aspectIndex layer False st) (\<lambda>st.
     foldR (\<lambda>level. Data_write aspectIndex layer level layerData) [1..<mMipLevelCount st] st))))))"

text \<open>Loops that return at the first element that fails the test.\<close>

fun all_of :: "('i \<Rightarrow> bool res) \<Rightarrow> 'i list \<Rightarrow> bool res" where
  "all_of p [] = ok True"
| "all_of p (i # is) = bindR (p i) (\<lambda>b. if b then all_of p is else ok False)"

definition RecompressLayer :: "nat \<Rightarrow> nat \<Rightarrow> 'a subresources \<Rightarrow> 'a subresources res" where
  "RecompressLayer aspectIndex layer st =
     bindR (LayerCompressed st aspectIndex layer) (\<lambda>c. bindR (assertR (\<not> c)) (\<lambda>_.
     bindR (aspect_compressed st aspectIndex) (\<lambda>c. bindR (assertR (\<not> c)) (\<lambda>_.
     bindR (Data st aspectIndex layer 0) (\<lambda>level0Data.
     bindR (all_of (\<lambda>level. bindR (Data st aspectIndex layer level) (\<lambda>v. ok (v = level0Data)))
              [1..<mMipLevelCount st]) (\<lambda>same.
       if same then LayerCompressed_write aspectIndex layer True st else ok st))))))"

definition RecompressAspect :: "nat \<Rightarrow> 'a subresources \<Rightarrow> 'a subresources res" where
  "RecompressAspect aspectIndex st =
     bindR (aspect_compressed st aspectIndex) (\<lambda>c. bindR (assertR (\<not> c)) (\<lambda>_.
     bindR (all_of (LayerCompressed st aspectIndex) [0..<mArrayLayerCount st]) (\<lambda>all.
       if \<not> all then ok st
       else
         bindR (Data st aspectIndex 0 0) (\<lambda>layer0Data.
         bindR (all_of (\<lambda>layer. bindR (Data st aspectIndex layer 0) (\<lambda>v. ok (v = layer0Data)))
                  [1..<mArrayLayerCount st]) (\<lambda>same.
           if same then
             bindR (vec_set (mAspectCompressed st) (int aspectIndex) (Some True)) (\<lambda>cs.
               DataInline_write aspectIndex layer0Data (st\<lparr> mAspectCompressed := cs \<rparr>))
           else ok st)))))"

section \<open>Update\<close>

type_synonym 'a calls = "(subresource_range \<times> 'a) list"

text \<open>One call of the closure on the data of a level.\<close>

definition update_level ::
  "(subresource_range \<Rightarrow> 'a \<Rightarrow> 'a) \<Rightarrow> aspect \<Rightarrow> nat \<Rightarrow> nat \<Rightarrow> nat \<Rightarrow> 'a subresources \<times> 'a calls \<Rightarrow> ('a subresources \<times> 'a calls) res" where
  "update_level updateFunc a aspectIndex layer level = (\<lambda>(st, calls).
     bindR (MakeSingle a layer level) (\<lambda>updateRange.
     bindR (Data st aspectIndex layer level) (\<lambda>v.
     bindR (Data_write aspectIndex layer level (updateFunc updateRange v) st) (\<lambda>st.
       ok (st, calls @ [(updateRange, v)])))))"

definition update_layer ::
  "subresource_range \<Rightarrow> bool \<Rightarrow> (subresource_range \<Rightarrow> 'a \<Rightarrow> 'a) \<Rightarrow> aspect \<Rightarrow> nat \<Rightarrow> nat \<Rightarrow>
    'a subresources \<times> 'a calls \<Rightarrow> ('a subresources \<times> 'a calls) res" where
  "update_layer rng fullLayers updateFunc a aspectIndex layer = (\<lambda>(st, calls).
     bindR (LayerCompressed st aspectIndex layer) (\<lambda>c.
     if c \<and> fullLayers then
       let updateRange = GetFullLayerRange st a layer in
       bindR (Data st aspectIndex layer 0) (\<lambda>v.
       bindR (Data_write aspectIndex layer 0 (updateFunc updateRange v) st) (\<lambda>st.
         ok (st, calls @ [(updateRange, v)])))
     else
       bindR (if c then DecompressLayer aspectIndex layer st else ok st) (\<lambda>st.
       bindR (foldR (update_level updateFunc a aspectIndex layer)
                [baseMipLevel rng..<u32 (baseMipLevel rng + levelCount rng)] (st, calls)) (\<lambda>(st, calls).
       bindR (if fullLayers then RecompressLayer aspectIndex layer st else ok st) (\<lambda>st.
         ok (st, calls))))))"

definition update_aspect ::
  "'a \<Rightarrow> subresource_range \<Rightarrow> bool \<Rightarrow> bool \<Rightarrow> (subresource_range \<Rightarrow> 'a \<Rightarrow> 'a) \<Rightarrow> aspect \<Rightarrow>
    'a subresources \<times> 'a calls \<Rightarrow> ('a subresources \<times> 'a calls) res" where
  "update_aspect T0 rng fullLayers fullAspects updateFunc a = (\<lambda>(st, calls).
     bindR (GetAspectIndex a) (\<lambda>aspectIndex.
     bindR (aspect_compressed st aspectIndex) (\<lambda>c.
     if c \<and> fullAspects then
       let updateRange = MakeFull a (mArrayLayerCount st) (mMipLevelCount st) in
       bindR (DataInline st aspectIndex) (\<lambda>v.
       bindR (DataInline_write aspectIndex (updateFunc updateRange v) st) (\<lambda>st.
         ok (st, calls @ [(updateRange, v)])))
     else
       bindR (if c then DecompressAspect T0 aspectIndex st else ok st) (\<lambda>st.
       bindR (foldR (update_layer rng fullLayers updateFunc a aspectIndex)
                [baseArrayLayer rng..<u32 (baseArrayLayer rng + layerCount rng)] (st, calls)) (\<lambda>(st, calls).
       bindR (if fullAspects then RecompressAspect aspectIndex st else ok st) (\<lambda>st.
         ok (st, calls)))))))"

definition Update ::
  "'a \<Rightarrow> subresource_range \<Rightarrow> (subresource_range \<Rightarrow> 'a \<Rightarrow> 'a) \<Rightarrow> 'a subresources \<Rightarrow> ('a subresources \<times> 'a calls) res" where
  "Update T0 rng updateFunc st =
     (let fullLayers = (baseMipLevel rng = 0 \<and> levelCount rng = mMipLevelCount st);
          fullAspects = (baseArrayLayer rng = 0 \<and> layerCount rng = mArrayLayerCount st \<and> fullLayers)
      in foldR (update_aspect T0 rng fullLayers fullAspects updateFunc) (IterateEnumMask (aspects rng)) (st, []))"

section \<open>Merge\<close>

type_synonym ('a, 'u) merge_calls = "(subresource_range \<times> 'a \<times> 'u) list"

definition with_other :: "'u \<Rightarrow> 'a calls \<Rightarrow> ('a, 'u) merge_calls" where
  "with_other u = map (\<lambda>(r, v). (r, v, u))"

definition merge_level ::
  "'u subresources \<Rightarrow> (subresource_range \<Rightarrow> 'a \<Rightarrow> 'u \<Rightarrow> 'a) \<Rightarrow> aspect \<Rightarrow> nat \<Rightarrow> nat \<Rightarrow> nat \<Rightarrow>
    'a subresources \<times> ('a, 'u) merge_calls \<Rightarrow> ('a subresources \<times> ('a, 'u) merge_calls) res" where
  "merge_level other mergeFunc a aspectIndex layer level = (\<lambda>(st, calls).
     bindR (MakeSingle a layer level) (\<lambda>updateRange.
     bindR (Data st aspectIndex layer level) (\<lambda>v.
     bindR (Data other aspectIndex layer level) (\<lambda>u.
     bindR (Data_write aspectIndex layer level (mergeFunc updateRange v u) st) (\<lambda>st.
       ok (st, calls @ [(updateRange, v, u)]))))))"

definition merge_layer ::
  "'a \<Rightarrow> 'u subresources \<Rightarrow> (subresource_range \<Rightarrow> 'a \<Rightarrow> 'u \<Rightarrow> 'a) \<Rightarrow> aspect \<Rightarrow> nat \<Rightarrow> nat \<Rightarrow>
    'a subresources \<times> ('a, 'u) merge_calls \<Rightarrow> ('a subresources \<times> ('a, 'u) merge_calls) res" where
  "merge_layer T0 other mergeFunc a aspectIndex layer = (\<lambda>(st, calls).
     bindR (LayerCompressed other aspectIndex layer) (\<lambda>oc.
     if oc then
       bindR (Data other aspectIndex layer 0) (\<lambda>otherData.
       bindR (Update T0 (GetFullLayerRange st a layer) (\<lambda>r v. mergeFunc r v otherData) st) (\<lambda>(st, cs).
         ok (st, calls @ with_other otherData cs)))
     else
       bindR (LayerCompressed st aspectIndex layer) (\<lambda>c.
       bindR (if c then DecompressLayer aspectIndex layer st else ok st) (\<lambda>st.
       bindR (foldR (merge_level other mergeFunc a aspectIndex layer) [0..<mMipLevelCount st] (st, calls)) (\<lambda>(st, calls).
       bindR (RecompressLayer aspectIndex layer st) (\<lambda>st. ok (st, calls)))))))"

definition merge_aspect ::
  "'a \<Rightarrow> 'u subresources \<Rightarrow> (subresource_range \<Rightarrow> 'a \<Rightarrow> 'u \<Rightarrow> 'a) \<Rightarrow> aspect \<Rightarrow>
    'a subresources \<times> ('a, 'u) merge_calls \<Rightarrow> ('a subresources \<times> ('a, 'u) merge_calls) res" where
  "merge_aspect T0 other mergeFunc a = (\<lambda>(st, calls).
     bindR (GetAspectIndex a) (\<lambda>aspectIndex.
     bindR (aspect_compressed other aspectIndex) (\<lambda>oc.
     if oc then
       bindR (DataInline other aspectIndex) (\<lambda>otherData.
       bindR (Update T0 (MakeFull a (mArrayLayerCount st) (mMipLevelCount st)) (\<lambda>r v. mergeFunc r v otherData) st) (\<lambda>(st, cs).
         ok (st, calls @ with_other otherData cs)))
     else
       bindR (aspect_compressed st aspectIndex) (\<lambda>c.
       bindR (if c then DecompressAspect T0 aspectIndex st else ok st) (\<lambda>st.
       bindR (foldR (merge_layer T0 other mergeFunc a aspectIndex) [0..<mArrayLayerCount st] (st, calls)) (\<lambda>(st, calls).
       bindR (RecompressAspect aspectIndex st) (\<lambda>st. ok (st, calls))))))))"

definition Merge ::
  "'a \<Rightarrow> 'u subresources \<Rightarrow> (subresource_range \<Rightarrow> 'a \<Rightarrow> 'u \<Rightarrow> 'a) \<Rightarrow> 'a subresources \<Rightarrow>
    ('a subresources \<times> ('a, 'u) merge_calls) res" where
  "Merge T0 other mergeFunc st =
     bindR (assertR (mAspects st = mAspects other)) (\<lambda>_.
     bindR (assertR (mArrayLayerCount st = mArrayLayerCount other)) (\<lambda>_.
     bindR (assertR (mMipLevelCount st = mMipLevelCount other)) (\<lambda>_.
       foldR (merge_aspect T0 other mergeFunc) (IterateEnumMask (mAspects st)) (st, []))))"

section \<open>Iterate and Get\<close>

definition iterate_layer :: "'a subresources \<Rightarrow> aspect \<Rightarrow> nat \<Rightarrow> nat \<Rightarrow> 'a calls \<Rightarrow> 'a calls res" where
  "iterate_layer st a aspectIndex layer calls =
     bindR (LayerCompressed st aspectIndex layer) (\<lambda>c.
     if c then bindR (Data st aspectIndex layer 0) (\<lambda>v. ok (calls @ [(GetFullLayerRange st a layer, v)]))
     else foldR (\<lambda>level calls.
              bindR (MakeSingle a layer level) (\<lambda>rng.
              bindR (Data st aspectIndex layer level) (\<lambda>v. ok (calls @ [(rng, v)]))))
            [0..<mMipLevelCount st] calls)"

definition iterate_aspect :: "'a subresources \<Rightarrow> aspect \<Rightarrow> 'a calls \<Rightarrow> 'a calls res" where
  "iterate_aspect st a calls =
     bindR (GetAspectIndex a) (\<lambda>aspectIndex.
     bindR (aspect_compressed st aspectIndex) (\<lambda>c.
     if c then
       bindR (DataInline st aspectIndex) (\<lambda>v.
         ok (calls @ [(MakeFull a (mArrayLayerCount st) (mMipLevelCount st), v)]))
     else foldR (iterate_layer st a aspectIndex) [0..<mArrayLayerCount st] calls))"

definition Iterate :: "'a subresources \<Rightarrow> 'a calls res" where
  "Iterate st = foldR (iterate_aspect st) (IterateEnumMask (mAspects st)) []"

definition Get :: "'a subresources \<Rightarrow> aspect \<Rightarrow> nat \<Rightarrow> nat \<Rightarrow> 'a res" where
  "Get st a arrayLayer mipLevel =
     bindR (GetAspectIndex a) (\<lambda>aspectIndex.
     bindR (GetAspectCount (mAspects st)) (\<lambda>n.
     bindR (assertR (aspectIndex < n)) (\<lambda>_.
     bindR (assertR (arrayLayer < mArrayLayerCount st)) (\<lambda>_.
     bindR (assertR (mipLevel < mMipLevelCount st)) (\<lambda>_.
     bindR (aspect_compressed st aspectIndex) (\<lambda>c.
     if c then DataInline st aspectIndex
     else bindR (LayerCompressed st aspectIndex arrayLayer) (\<lambda>c.
       if c then Data st aspectIndex arrayLayer 0
       else Data st aspectIndex arrayLayer mipLevel)))))))"

definition IsAspectCompressedForTesting :: "'a subresources \<Rightarrow> aspect \<Rightarrow> bool res" where
  "IsAspectCompressedForTesting st a = bindR (GetAspectIndex a) (aspect_compressed st)"

definition IsLayerCompressedForTesting :: "'a subresources \<Rightarrow> aspect \<Rightarrow> nat \<Rightarrow> bool res" where
  "IsLayerCompressedForTesting st a layer =
     bindR (GetAspectIndex a) (\<lambda>aspectIndex.
     bindR (aspect_compressed st aspectIndex) (\<lambda>c.
       if c then ok True else heap_read (mLayerCompressed st) (layer_slot st aspectIndex layer)))"

end
