(* ===== verification/Subresource_Spec.thy ===== *)
theory Subresource_Spec
  imports Subresource_Storage
begin

unbundle bit_operations_syntax

text \<open>
  Compression is invisible: a \<open>SubresourceStorage\<close> behaves as a table with one value per
  subresource. \<open>val\<close> reads the table off the compressed state, \<open>storage_wf\<close> is the
  invariant of the class.
\<close>

section \<open>The table\<close>

definition ac :: "'a subresources \<Rightarrow> nat \<Rightarrow> bool" where
  "ac st i \<longleftrightarrow> mAspectCompressed st ! i = Some True"

definition lc :: "'a subresources \<Rightarrow> nat \<Rightarrow> nat \<Rightarrow> bool" where
  "lc st i l = the (mLayerCompressed st) ! (i * mArrayLayerCount st + l)"

definition inl :: "'a subresources \<Rightarrow> nat \<Rightarrow> 'a" where
  "inl st i = the (mInlineAspectData st ! i)"

definition dat :: "'a subresources \<Rightarrow> nat \<Rightarrow> nat \<Rightarrow> nat \<Rightarrow> 'a" where
  "dat st i l m = the (mData st) ! ((i * mArrayLayerCount st + l) * mMipLevelCount st + m)"

definition val :: "'a subresources \<Rightarrow> nat \<Rightarrow> nat \<Rightarrow> nat \<Rightarrow> 'a" where
  "val st i l m = (if ac st i then inl st i else if lc st i l then dat st i l 0 else dat st i l m)"

definition same_dims :: "'a subresources \<Rightarrow> 'b subresources \<Rightarrow> bool" where
  "same_dims st st' \<longleftrightarrow> mAspects st' = mAspects st \<and> mArrayLayerCount st' = mArrayLayerCount st \<and>
     mMipLevelCount st' = mMipLevelCount st"

definition aspect_wf :: "'a subresources \<Rightarrow> nat \<Rightarrow> bool" where
  "aspect_wf st i \<longleftrightarrow> mAspectCompressed st ! i \<noteq> None \<and>
     (ac st i \<longrightarrow> mInlineAspectData st ! i \<noteq> None \<and> (mLayerCompressed st \<noteq> None \<longrightarrow> (\<forall>l<mArrayLayerCount st. lc st i l))) \<and>
     (\<not> ac st i \<longrightarrow> mData st \<noteq> None)"

text \<open>\<open>n\<close> is the number of aspects.\<close>

definition storage_wf :: "nat \<Rightarrow> 'a subresources \<Rightarrow> bool" where
  "storage_wf n st \<longleftrightarrow> GetAspectCount (mAspects st) = ok n \<and>
     0 < mArrayLayerCount st \<and> mArrayLayerCount st \<le> 65535 \<and> 0 < mMipLevelCount st \<and> mMipLevelCount st \<le> 255 \<and>
     length (mAspectCompressed st) = 2 \<and> length (mInlineAspectData st) = 2 \<and>
     (mData st = None \<longleftrightarrow> mLayerCompressed st = None) \<and>
     (\<forall>ls. mLayerCompressed st = Some ls \<longrightarrow> length ls = n * mArrayLayerCount st) \<and>
     (\<forall>ds. mData st = Some ds \<longrightarrow> length ds = n * mArrayLayerCount st * mMipLevelCount st) \<and>
     (\<forall>i<n. aspect_wf st i)"

lemma aspect_count_le: "GetAspectCount a = ok n \<Longrightarrow> n = 1 \<or> n = 2"
  by (auto simp: GetAspectCount_def assertR_def bindR_Inr_iff split: if_splits)

lemma storage_wfD:
  assumes "storage_wf n st"
  shows "GetAspectCount (mAspects st) = ok n" "n \<le> 2" "0 < n" "0 < mArrayLayerCount st" "mArrayLayerCount st \<le> 65535"
    "0 < mMipLevelCount st" "mMipLevelCount st \<le> 255"
    "length (mAspectCompressed st) = 2" "length (mInlineAspectData st) = 2" "i < n \<Longrightarrow> aspect_wf st i"
    "mData st = None \<longleftrightarrow> mLayerCompressed st = None"
    "mLayerCompressed st = Some ls \<Longrightarrow> length ls = n * mArrayLayerCount st"
    "mData st = Some ds \<Longrightarrow> length ds = n * mArrayLayerCount st * mMipLevelCount st"
  using assms aspect_count_le [of "mAspects st" n] by (auto simp: storage_wf_def)

section \<open>Slots\<close>

lemma slot_less: "i < n \<Longrightarrow> l < L \<Longrightarrow> i * L + l < n * (L :: nat)"
proof -
  assume "i < n" "l < L"
  then have "i * L + l < Suc i * L" "Suc i * L \<le> n * L" using mult_le_mono1 [of "Suc i" n L] by auto
  then show ?thesis by linarith
qed

lemma slot_inj: "l < L \<Longrightarrow> l' < (L :: nat) \<Longrightarrow> i * L + l = i' * L + l' \<longleftrightarrow> i = i' \<and> l = l'"
proof
  assume l: "l < L" "l' < L" and eq: "i * L + l = i' * L + l'"
  then have "(i * L + l) div L = (i' * L + l') div L" "(i * L + l) mod L = (i' * L + l') mod L" by simp_all
  with l show "i = i' \<and> l = l'" by simp
qed auto

lemma slot3_inj:
  "l < L \<Longrightarrow> l' < L \<Longrightarrow> m < M \<Longrightarrow> m' < M \<Longrightarrow>
   (i * L + l) * M + m = (i' * L + l') * M + m' \<longleftrightarrow> i = i' \<and> l = l' \<and> m = (m' :: nat)"
  by (auto simp: slot_inj)

lemma u32_small: "i < n \<Longrightarrow> n \<le> 2 \<Longrightarrow> l < L \<Longrightarrow> L \<le> 65535 \<Longrightarrow> u32 (i * L + l) = i * L + l"
  using slot_less [of i n l L] mult_mono [of n 2 L 65535] by (simp add: u32_def)

lemma u32_small3:
  assumes "i < n" "n \<le> 2" "l < L" "L \<le> 65535" "m < M" "M \<le> 255"
  shows "u32 ((i * L + l) * M + m) = (i * L + l) * M + m" "(i * L + l) * M + m < n * L * M"
proof -
  show b: "(i * L + l) * M + m < n * L * M" using slot_less [OF slot_less [OF assms(1,3)] assms(5)] .
  have "n * L * M \<le> 2 * 65535 * 255" using assms by (intro mult_mono) auto
  with b show "u32 ((i * L + l) * M + m) = (i * L + l) * M + m" by (simp add: u32_def)
qed

section \<open>Accessors on well-formed states\<close>

lemma aspect_compressed_ok:
  assumes "storage_wf n st" "i < n"
  shows "aspect_compressed st i = ok (ac st i)"
proof -
  obtain b where "mAspectCompressed st ! i = Some b"
    using storage_wfD(10) [OF assms] by (auto simp: aspect_wf_def)
  then show ?thesis using storage_wfD [OF assms(1)] assms(2)
    by (cases b) (simp_all add: aspect_compressed_def init_read_def ac_def)
qed

lemma DataInline_ok:
  assumes "storage_wf n st" "i < n" "ac st i"
  shows "DataInline st i = ok (inl st i)"
proof -
  obtain v where "mInlineAspectData st ! i = Some v"
    using storage_wfD(10) [OF assms(1,2)] assms(3) by (auto simp: aspect_wf_def)
  then show ?thesis using assms storage_wfD(2,9) [OF assms(1)]
    by (simp add: DataInline_def aspect_compressed_ok init_read_def inl_def)
qed

lemma LayerCompressed_ok:
  assumes "storage_wf n st" "i < n" "l < mArrayLayerCount st" "\<not> ac st i"
  shows "LayerCompressed st i l = ok (lc st i l)"
proof -
  note D = storage_wfD [OF assms(1)]
  obtain ls where ls: "mLayerCompressed st = Some ls" "length ls = n * mArrayLayerCount st"
    using assms(4) D(10) [OF assms(2)] D(11,12) by (auto simp: aspect_wf_def)
  then show ?thesis
    using assms u32_small [OF assms(2) D(2) assms(3) D(5)] slot_less [OF assms(2,3)]
    by (simp add: LayerCompressed_def aspect_compressed_ok heap_read_def layer_slot_def lc_def del: of_nat_mult of_nat_add)
qed

lemma data_slot_ok:
  assumes "storage_wf n st" "i < n" "l < mArrayLayerCount st" "m < mMipLevelCount st" "\<not> ac st i" "m = 0 \<or> \<not> lc st i l"
  shows "data_slot st i l m = ok ((i * mArrayLayerCount st + l) * mMipLevelCount st + m)"
  using assms u32_small3 [OF assms(2) storage_wfD(2) [OF assms(1)] assms(3) storage_wfD(5) [OF assms(1)]
      assms(4) storage_wfD(7) [OF assms(1)]]
  by (auto simp: data_slot_def aspect_compressed_ok LayerCompressed_ok)

lemma Data_ok:
  assumes "storage_wf n st" "i < n" "l < mArrayLayerCount st" "m < mMipLevelCount st" "\<not> ac st i" "m = 0 \<or> \<not> lc st i l"
  shows "Data st i l m = ok (dat st i l m)"
proof -
  note D = storage_wfD [OF assms(1)]
  obtain ds where ds: "mData st = Some ds" "length ds = n * mArrayLayerCount st * mMipLevelCount st"
    using assms(5) D(10) [OF assms(2)] D(13) by (auto simp: aspect_wf_def)
  then show ?thesis
    using u32_small3 [OF assms(2) D(2) assms(3) D(5) assms(4) D(7)] data_slot_ok [OF assms]
    by (simp add: Data_def heap_read_def dat_def del: of_nat_mult of_nat_add)
qed

section \<open>Writes\<close>

definition put :: "nat \<Rightarrow> nat \<Rightarrow> nat \<Rightarrow> 'a \<Rightarrow> 'a subresources \<Rightarrow> 'a subresources" where
  "put i l m v st = st\<lparr> mData := map_option (\<lambda>ds. ds[(i * mArrayLayerCount st + l) * mMipLevelCount st + m := v]) (mData st) \<rparr>"

definition put_lc :: "nat \<Rightarrow> nat \<Rightarrow> bool \<Rightarrow> 'a subresources \<Rightarrow> 'a subresources" where
  "put_lc i l b st = st\<lparr> mLayerCompressed := map_option (\<lambda>ls. ls[i * mArrayLayerCount st + l := b]) (mLayerCompressed st) \<rparr>"

lemma put_simps [simp]:
  "mAspects (put i l m v st) = mAspects st" "mArrayLayerCount (put i l m v st) = mArrayLayerCount st"
  "mMipLevelCount (put i l m v st) = mMipLevelCount st" "ac (put i l m v st) = ac st"
  "lc (put i l m v st) = lc st" "inl (put i l m v st) = inl st"
  by (auto simp: put_def ac_def lc_def inl_def fun_eq_iff)

lemma put_lc_simps [simp]:
  "mAspects (put_lc i l b st) = mAspects st" "mArrayLayerCount (put_lc i l b st) = mArrayLayerCount st"
  "mMipLevelCount (put_lc i l b st) = mMipLevelCount st" "ac (put_lc i l b st) = ac st"
  "dat (put_lc i l b st) = dat st" "inl (put_lc i l b st) = inl st"
  by (auto simp: put_lc_def ac_def dat_def inl_def fun_eq_iff)

lemma uncompressed_data:
  assumes "storage_wf n st" "i < n" "\<not> ac st i"
  obtains ls ds where "mLayerCompressed st = Some ls" "mData st = Some ds" "length ls = n * mArrayLayerCount st"
    "length ds = n * mArrayLayerCount st * mMipLevelCount st"
  using storage_wfD(10) [OF assms(1,2)] assms(3) storage_wfD(11-13) [OF assms(1)] by (auto simp: aspect_wf_def)

lemma dat_put:
  assumes "storage_wf n st" "i < n" "\<not> ac st i" "l < mArrayLayerCount st" "m < mMipLevelCount st"
    "l' < mArrayLayerCount st" "m' < mMipLevelCount st"
  shows "dat (put i l m v st) i' l' m' = (if i' = i \<and> l' = l \<and> m' = m then v else dat st i' l' m')"
proof -
  obtain ds where ds: "mData st = Some ds" "length ds = n * mArrayLayerCount st * mMipLevelCount st"
    using uncompressed_data [OF assms(1-3)] .
  have "(i * mArrayLayerCount st + l) * mMipLevelCount st + m < length ds"
    using slot_less [OF slot_less [OF assms(2,4)] assms(5)] ds by simp
  with ds show ?thesis
    using slot3_inj [OF assms(4,6,5,7)] by (auto simp: dat_def put_def nth_list_update)
qed

lemma lc_put_lc:
  assumes "storage_wf n st" "i < n" "\<not> ac st i" "l < mArrayLayerCount st" "l' < mArrayLayerCount st"
  shows "lc (put_lc i l b st) i' l' = (if i' = i \<and> l' = l then b else lc st i' l')"
proof -
  obtain ls where ls: "mLayerCompressed st = Some ls" "length ls = n * mArrayLayerCount st"
    using uncompressed_data [OF assms(1-3)] .
  then show ?thesis
    using slot_inj [OF assms(4,5)] slot_less [OF assms(2,4)] by (auto simp: lc_def put_lc_def nth_list_update)
qed

lemma put_wf:
  assumes "storage_wf n st"
  shows "storage_wf n (put i l m v st)"
proof -
  have "aspect_wf (put i l m v st) j = aspect_wf st j" for j
    by (auto simp: aspect_wf_def put_def ac_def lc_def)
  then show ?thesis using assms by (auto simp: storage_wf_def) (auto simp: put_def)
qed

lemma put_lc_wf:
  assumes "storage_wf n st" "i < n" "\<not> ac st i" "l < mArrayLayerCount st"
  shows "storage_wf n (put_lc i l b st)"
proof -
  have "aspect_wf (put_lc i l b st) j" if "j < n" for j
    using storage_wfD(10) [OF assms(1) that] assms(3) lc_put_lc [OF assms, of _ b j]
    by (auto simp: aspect_wf_def) (auto simp: put_lc_def)
  then show ?thesis using assms(1) by (auto simp: storage_wf_def) (auto simp: put_lc_def)
qed

lemma Data_write_ok:
  assumes "storage_wf n st" "i < n" "l < mArrayLayerCount st" "m < mMipLevelCount st" "\<not> ac st i" "m = 0 \<or> \<not> lc st i l"
  shows "Data_write i l m v st = ok (put i l m v st)"
proof -
  obtain ds where ds: "mData st = Some ds" "length ds = n * mArrayLayerCount st * mMipLevelCount st"
    using uncompressed_data [OF assms(1,2,5)] .
  then show ?thesis
    using slot_less [OF slot_less [OF assms(2,3)] assms(4)] data_slot_ok [OF assms]
    by (simp add: Data_write_def heap_write_def put_def del: of_nat_mult of_nat_add)
qed

lemma LayerCompressed_write_ok:
  assumes "storage_wf n st" "i < n" "\<not> ac st i" "l < mArrayLayerCount st"
  shows "LayerCompressed_write i l b st = ok (put_lc i l b st)"
proof -
  note D = storage_wfD [OF assms(1)]
  obtain ls where ls: "mLayerCompressed st = Some ls" "length ls = n * mArrayLayerCount st"
    using uncompressed_data [OF assms(1-3)] .
  then show ?thesis
    using assms u32_small [OF assms(2) D(2) assms(4) D(5)] slot_less [OF assms(2,4)]
    by (simp add: LayerCompressed_write_def aspect_compressed_ok heap_write_def layer_slot_def put_lc_def del: of_nat_mult of_nat_add)
qed

text \<open>The facts a step on a well-formed state rests on.\<close>

lemmas storage_ok = aspect_compressed_ok DataInline_ok LayerCompressed_ok Data_ok Data_write_ok LayerCompressed_write_ok

section \<open>What an operation may change\<close>

text \<open>\<open>st'\<close> is well-formed, has the dimensions of \<open>st\<close> and the table \<open>t\<close>.\<close>

definition table_is :: "nat \<Rightarrow> 'b subresources \<Rightarrow> 'a subresources \<Rightarrow> (nat \<Rightarrow> nat \<Rightarrow> nat \<Rightarrow> 'a) \<Rightarrow> bool" where
  "table_is n st st' t \<longleftrightarrow> storage_wf n st' \<and> same_dims st st' \<and>
     (\<forall>i<n. \<forall>l<mArrayLayerCount st. \<forall>m<mMipLevelCount st. val st' i l m = t i l m)"

lemma table_isI:
  "storage_wf n st' \<Longrightarrow> same_dims st st' \<Longrightarrow>
   (\<And>i l m. i < n \<Longrightarrow> l < mArrayLayerCount st \<Longrightarrow> m < mMipLevelCount st \<Longrightarrow> val st' i l m = t i l m) \<Longrightarrow> table_is n st st' t"
  by (simp add: table_is_def)

lemma table_isD:
  assumes "table_is n st st' t"
  shows "storage_wf n st'" "mAspects st' = mAspects st" "mArrayLayerCount st' = mArrayLayerCount st" "mMipLevelCount st' = mMipLevelCount st"
    "i < n \<Longrightarrow> l < mArrayLayerCount st \<Longrightarrow> m < mMipLevelCount st \<Longrightarrow> val st' i l m = t i l m"
  using assms by (auto simp: table_is_def same_dims_def)

lemma table_is_trans:
  assumes "table_is n st st1 t" "table_is n st1 st2 t'"
    "\<And>i l m. i < n \<Longrightarrow> l < mArrayLayerCount st \<Longrightarrow> m < mMipLevelCount st \<Longrightarrow> t' i l m = t'' i l m"
  shows "table_is n st st2 t''"
  using assms by (auto simp: table_is_def same_dims_def)

lemma table_is_refl: "storage_wf n st \<Longrightarrow> table_is n st st (val st)"
  by (simp add: table_is_def same_dims_def)

section \<open>Loops over the levels of a decompressed layer\<close>

text \<open>\<open>ys\<close> are the levels of layer \<open>l\<close> already rewritten, level \<open>m\<close> by \<open>h m\<close>.\<close>

definition levels_done ::
  "nat \<Rightarrow> 'a subresources \<Rightarrow> nat \<Rightarrow> nat \<Rightarrow> nat list \<Rightarrow> (nat \<Rightarrow> 'a \<Rightarrow> 'a) \<Rightarrow> 'a subresources \<Rightarrow> bool" where
  "levels_done n st i l ys h st' \<longleftrightarrow> storage_wf n st' \<and> same_dims st st' \<and> ac st' = ac st \<and> lc st' = lc st \<and> inl st' = inl st \<and>
     (\<forall>i' l' m'. l' < mArrayLayerCount st \<longrightarrow> m' < mMipLevelCount st \<longrightarrow>
        dat st' i' l' m' = (if i' = i \<and> l' = l \<and> m' \<in> set ys then h m' (dat st i l m') else dat st i' l' m'))"

lemma levels_done_dims:
  assumes "levels_done n st i l ys h st'"
  shows "mArrayLayerCount st' = mArrayLayerCount st" "mMipLevelCount st' = mMipLevelCount st" "storage_wf n st'"
    "ac st' = ac st" "lc st' = lc st"
  using assms by (auto simp: levels_done_def same_dims_def)

lemma levels_done_Nil: "storage_wf n st \<Longrightarrow> levels_done n st i l [] h st"
  by (simp add: levels_done_def same_dims_def)

lemma levels_done_unseen:
  "levels_done n st i l ys h st' \<Longrightarrow> m \<notin> set ys \<Longrightarrow> l < mArrayLayerCount st \<Longrightarrow> m < mMipLevelCount st \<Longrightarrow> dat st' i l m = dat st i l m"
  by (simp add: levels_done_def)

lemma levels_done_step:
  assumes "levels_done n st i l ys h st'" "i < n" "l < mArrayLayerCount st" "m < mMipLevelCount st" "\<not> ac st i" "m \<notin> set ys"
  shows "levels_done n st i l (ys @ [m]) h (put i l m (h m (dat st i l m)) st')"
proof -
  note d = levels_done_dims [OF assms(1)]
  show ?thesis
    using assms(1) put_wf [OF d(3)] dat_put [OF d(3) assms(2), unfolded d, OF assms(5,3,4)]
    by (auto simp: levels_done_def same_dims_def)
qed

lemma levels_done_table:
  assumes "levels_done n st i l ys h st'" "\<not> ac st i" "\<not> lc st i l" "l < mArrayLayerCount st" "set ys \<subseteq> {..<mMipLevelCount st}"
  shows "table_is n st st' (\<lambda>i' l' m'. if i' = i \<and> l' = l \<and> m' \<in> set ys then h m' (val st i l m') else val st i' l' m')"
  using assms storage_wfD(6) [OF levels_done_dims(3) [OF assms(1)]]
  by (auto simp: table_is_def levels_done_def val_def same_dims_def)

lemma all_of_ok:
  assumes "\<And>x. x \<in> set xs \<Longrightarrow> p x = ok (q x)"
  shows "all_of p xs = ok (\<forall>x \<in> set xs. q x)"
  using assms by (induction xs) auto

lemma from_one: "(\<forall>m \<in> set [1..<k]. f m = f 0) \<longleftrightarrow> (\<forall>m<k. f m = f (0 :: nat))"
proof
  assume all: "\<forall>m \<in> set [1..<k]. f m = f 0"
  show "\<forall>m<k. f m = f 0"
  proof (intro allI impI)
    show "f m = f 0" if "m < k" for m using all that by (cases m) auto
  qed
next
  assume "\<forall>m<k. f m = f 0"
  then show "\<forall>m \<in> set [1..<k]. f m = f 0" unfolding set_upt atLeastLessThan_iff Ball_def by iprover
qed

section \<open>Compressing and decompressing a layer\<close>

definition other_layers :: "'a subresources \<Rightarrow> nat \<Rightarrow> nat \<Rightarrow> 'a subresources \<Rightarrow> bool" where
  "other_layers st i l st' \<longleftrightarrow> ac st' = ac st \<and>
     (\<forall>i' l'. l' < mArrayLayerCount st \<longrightarrow> (i', l') \<noteq> (i, l) \<longrightarrow> lc st' i' l' = lc st i' l')"

definition const_layer :: "'a subresources \<Rightarrow> nat \<Rightarrow> nat \<Rightarrow> bool" where
  "const_layer st i l \<longleftrightarrow> (\<forall>m<mMipLevelCount st. val st i l m = val st i l 0)"

definition const_aspect :: "'a subresources \<Rightarrow> nat \<Rightarrow> bool" where
  "const_aspect st i \<longleftrightarrow> (\<forall>l<mArrayLayerCount st. \<forall>m<mMipLevelCount st. val st i l m = val st i 0 0)"

lemma put_lc_table:
  assumes "storage_wf n st" "i < n" "\<not> ac st i" "l < mArrayLayerCount st" "const_layer st i l"
    "\<And>m. m < mMipLevelCount st \<Longrightarrow> dat st i l m = dat st i l 0"
  shows "table_is n st (put_lc i l b st) (val st)" "other_layers st i l (put_lc i l b st)"
    "lc (put_lc i l b st) i l = b"
proof -
  note lcp = lc_put_lc [OF assms(1-4)]
  show "table_is n st (put_lc i l b st) (val st)"
  proof (rule table_isI)
    show "val (put_lc i l b st) i' l' m' = val st i' l' m'"
      if "i' < n" "l' < mArrayLayerCount st" "m' < mMipLevelCount st" for i' l' m'
      using lcp [OF that(2), of b i'] assms(6) [OF that(3)] by (auto simp: val_def)
  qed (auto simp: put_lc_wf [OF assms(1-4)] same_dims_def)
  show "other_layers st i l (put_lc i l b st)" "lc (put_lc i l b st) i l = b"
    using lcp assms(4) by (auto simp: other_layers_def)
qed

lemma DecompressLayer_ok:
  assumes "storage_wf n st" "i < n" "l < mArrayLayerCount st" "\<not> ac st i" "lc st i l"
  shows "\<exists>st'. DecompressLayer i l st = ok st' \<and> table_is n st st' (val st) \<and> other_layers st i l st' \<and> \<not> lc st' i l"
proof -
  let ?v = "dat st i l 0" and ?st = "put_lc i l False st"
  note D = storage_wfD [OF assms(1)]
  have wf: "storage_wf n ?st" using put_lc_wf [OF assms(1,2,4,3)] .
  have nlc: "\<not> lc ?st i l" using lc_put_lc [OF assms(1,2,4,3,3)] by simp
  have "\<exists>st'. foldR (\<lambda>m. Data_write i l m ?v) [1..<mMipLevelCount ?st] ?st = ok st' \<and>
      levels_done n ?st i l [1..<mMipLevelCount ?st] (\<lambda>_ _. ?v) st'"
  proof (rule foldR_invariant)
    fix ys x zs s
    assume split: "[1..<mMipLevelCount ?st] = ys @ x # zs" and inv: "levels_done n ?st i l ys (\<lambda>_ _. ?v) s"
    have x: "x < mMipLevelCount ?st" "x \<notin> set ys"
      using arg_cong [OF split, of set] arg_cong [OF split, of distinct] by auto
    note d = levels_done_dims [OF inv]
    show "\<exists>s'. Data_write i l x ?v s = ok s' \<and> levels_done n ?st i l (ys @ [x]) (\<lambda>_ _. ?v) s'"
      using Data_write_ok [OF d(3) assms(2), unfolded d, of l x] levels_done_step [OF inv assms(2) _ x(1) _ x(2)] assms nlc x
      by auto
  qed (rule levels_done_Nil [OF wf])
  then obtain st' where st': "foldR (\<lambda>m. Data_write i l m ?v) [1..<mMipLevelCount ?st] ?st = ok st'"
    and lev: "levels_done n ?st i l [1..<mMipLevelCount ?st] (\<lambda>_ _. ?v) st'" by blast
  have run: "DecompressLayer i l st = ok st'"
    using st' assms D by (simp add: DecompressLayer_def storage_ok)
  have "val st' i' l' m' = val st i' l' m'" if "i' < n" "l' < mArrayLayerCount st" "m' < mMipLevelCount st" for i' l' m'
    using lev that assms lc_put_lc [OF assms(1,2,4,3), of l' False i']
    by (auto simp: levels_done_def val_def not_less_eq_eq)
  moreover have "lc st' = lc ?st" using lev by (simp add: levels_done_def)
  ultimately show ?thesis
    using run lev nlc lc_put_lc [OF assms(1,2,4,3), of _ False]
    by (auto simp: table_is_def levels_done_def same_dims_def other_layers_def)
qed

lemma RecompressLayer_ok:
  assumes "storage_wf n st" "i < n" "l < mArrayLayerCount st" "\<not> ac st i" "\<not> lc st i l"
  shows "\<exists>st'. RecompressLayer i l st = ok st' \<and> table_is n st st' (val st) \<and> other_layers st i l st' \<and>
    (lc st' i l \<longleftrightarrow> const_layer st i l)"
proof -
  note D = storage_wfD [OF assms(1)]
  have all: "all_of (\<lambda>level. bindR (Data st i l level) (\<lambda>v. ok (v = dat st i l 0))) [1..<mMipLevelCount st] =
      ok (\<forall>m \<in> set [1..<mMipLevelCount st]. dat st i l m = dat st i l 0)"
    using assms by (intro all_of_ok) (auto simp: Data_ok)
  have "(\<forall>m \<in> set [1..<mMipLevelCount st]. dat st i l m = dat st i l 0) \<longleftrightarrow> (\<forall>m<mMipLevelCount st. dat st i l m = dat st i l 0)"
    by (rule from_one)
  also have "\<dots> \<longleftrightarrow> const_layer st i l" using assms by (simp add: const_layer_def val_def)
  finally have same: "(\<forall>m \<in> set [1..<mMipLevelCount st]. dat st i l m = dat st i l 0) \<longleftrightarrow> const_layer st i l" .
  have run: "RecompressLayer i l st = (if const_layer st i l then ok (put_lc i l True st) else ok st)"
    unfolding RecompressLayer_def LayerCompressed_ok [OF assms(1-4)] aspect_compressed_ok [OF assms(1,2)] bindR.simps
      Data_ok [OF assms(1-3) D(6) assms(4) disjI1 [OF refl]] all same LayerCompressed_write_ok [OF assms(1,2,4,3)]
    using assms(4,5) by simp
  show ?thesis
  proof (cases "const_layer st i l")
    case True
    then have "val st i l m = val st i l 0" if "m < mMipLevelCount st" for m
      using that unfolding const_layer_def by blast
    then have "dat st i l m = dat st i l 0" if "m < mMipLevelCount st" for m
      using assms(4,5) that unfolding val_def by metis
    from put_lc_table [OF assms(1,2,4,3) True this, of True] True run show ?thesis by simp
  next
    case False
    then show ?thesis using run table_is_refl [OF assms(1)] assms by (simp add: other_layers_def)
  qed
qed

section \<open>Compressing and decompressing an aspect\<close>

definition other_aspects :: "nat \<Rightarrow> 'a subresources \<Rightarrow> nat \<Rightarrow> 'a subresources \<Rightarrow> bool" where
  "other_aspects n st i st' \<longleftrightarrow> (\<forall>j<n. j \<noteq> i \<longrightarrow> ac st' j = ac st j \<and>
     (\<not> ac st j \<longrightarrow> (\<forall>l<mArrayLayerCount st. lc st' j l = lc st j l)))"

text \<open>The state after the flag of aspect \<open>i\<close> is cleared and the arrays are there.\<close>

lemma allocate_ok:
  assumes "storage_wf n st" "i < n" "ac st i"
  obtains st2 where "allocate T0 (st\<lparr> mAspectCompressed := (mAspectCompressed st)[i := Some False] \<rparr>) = ok st2"
    "storage_wf n st2" "same_dims st st2" "\<And>j. j < n \<Longrightarrow> ac st2 j \<longleftrightarrow> j \<noteq> i \<and> ac st j" "inl st2 = inl st"
    "\<And>j l. j < n \<Longrightarrow> ac st j \<Longrightarrow> l < mArrayLayerCount st \<Longrightarrow> lc st2 j l"
    "mData st \<noteq> None \<Longrightarrow> dat st2 = dat st \<and> lc st2 = lc st"
proof (cases "mData st = None")
  case True
  note D = storage_wfD [OF assms(1)]
  let ?L = "mArrayLayerCount st"
  let ?st2 = "st\<lparr> mAspectCompressed := (mAspectCompressed st)[i := Some False],
    mLayerCompressed := Some (replicate (n * ?L) True), mData := Some (replicate (n * ?L * mMipLevelCount st) T0) \<rparr>"
  have ac2: "ac ?st2 j \<longleftrightarrow> j \<noteq> i \<and> ac st j" if "j < n" for j
    using that assms(2) D(2,8) by (auto simp: ac_def nth_list_update)
  have lc2: "lc ?st2 j l" if "j < n" "l < ?L" for j l
    using slot_less [OF that] by (simp add: lc_def)
  have "aspect_wf ?st2 j" if "j < n" for j
    using D(10) [OF that] ac2 [OF that] lc2 [OF that] assms(2) D(2,8) that by (auto simp: aspect_wf_def nth_list_update)
  then have wf: "storage_wf n ?st2" using assms(1) by (auto simp: storage_wf_def)
  have al: "allocate T0 (st\<lparr> mAspectCompressed := (mAspectCompressed st)[i := Some False] \<rparr>) = ok ?st2"
    using True D by (simp add: allocate_def)
  show thesis by (rule that [OF al wf _ ac2 _ lc2]) (auto simp: same_dims_def inl_def True fun_eq_iff)
next
  case False
  note D = storage_wfD [OF assms(1)]
  let ?st2 = "st\<lparr> mAspectCompressed := (mAspectCompressed st)[i := Some False] \<rparr>"
  have ac2: "ac ?st2 j \<longleftrightarrow> j \<noteq> i \<and> ac st j" if "j < n" for j
    using that assms(2) D(2,8) by (auto simp: ac_def nth_list_update)
  have lc2: "lc ?st2 = lc st" by (simp add: lc_def fun_eq_iff)
  have lcT: "lc st j l" if "j < n" "ac st j" "l < mArrayLayerCount st" for j l
    using D(10) [OF that(1)] that False D(11) by (auto simp: aspect_wf_def)
  have "aspect_wf ?st2 j" if "j < n" for j
    using D(10) [OF that] ac2 [OF that] lc2 assms(2) D(2,8) that False by (auto simp: aspect_wf_def nth_list_update)
  then have wf: "storage_wf n ?st2" using assms(1) by (auto simp: storage_wf_def)
  have al: "allocate T0 ?st2 = ok ?st2" using False by (auto simp: allocate_def)
  show thesis by (rule that [OF al wf _ ac2]) (auto simp: same_dims_def inl_def dat_def fun_eq_iff lc2 lcT)
qed

lemma DecompressAspect_ok:
  assumes "storage_wf n st" "i < n" "ac st i"
  shows "\<exists>st'. DecompressAspect T0 i st = ok st' \<and> table_is n st st' (val st) \<and>
    \<not> ac st' i \<and> other_aspects n st i st'"
proof -
  note D = storage_wfD [OF assms(1)]
  let ?v = "inl st i" and ?cs = "(mAspectCompressed st)[i := Some False]"
  obtain st2 where al: "allocate T0 (st\<lparr> mAspectCompressed := ?cs \<rparr>) = ok st2"
    and wf2: "storage_wf n st2" and dims: "same_dims st st2" and ac2: "\<And>j. j < n \<Longrightarrow> ac st2 j \<longleftrightarrow> j \<noteq> i \<and> ac st j"
    and inl2: "inl st2 = inl st" and lcT: "\<And>j l. j < n \<Longrightarrow> ac st j \<Longrightarrow> l < mArrayLayerCount st \<Longrightarrow> lc st2 j l"
    and keep: "mData st \<noteq> None \<Longrightarrow> dat st2 = dat st \<and> lc st2 = lc st"
    using allocate_ok [OF assms, of T0] by blast
  let ?body = "\<lambda>layer st. bindR (Data_write i layer 0 ?v st) (\<lambda>st.
    bindR (LayerCompressed st i layer) (\<lambda>c. bindR (assertR c) (\<lambda>_. ok st)))"
  let ?P = "\<lambda>ys s. storage_wf n s \<and> same_dims st s \<and> ac s = ac st2 \<and> lc s = lc st2 \<and> inl s = inl st2 \<and>
    (\<forall>i' l' m'. l' < mArrayLayerCount st \<longrightarrow> m' < mMipLevelCount st \<longrightarrow>
       dat s i' l' m' = (if i' = i \<and> m' = 0 \<and> l' \<in> set ys then ?v else dat st2 i' l' m'))"
  have "\<exists>s'. foldR ?body [0..<mArrayLayerCount st] st2 = ok s' \<and> ?P [0..<mArrayLayerCount st] s'"
  proof (rule foldR_invariant)
    fix ys x zs s
    assume split: "[0..<mArrayLayerCount st] = ys @ x # zs" and inv: "?P ys s"
    have x: "x < mArrayLayerCount st" using arg_cong [OF split, of set] by auto
    have wfs: "storage_wf n s" and ds: "mArrayLayerCount s = mArrayLayerCount st" "mMipLevelCount s = mMipLevelCount st"
      and nac: "\<not> ac s i" and lcs: "lc s i x"
      using inv ac2 [OF assms(2)] lcT [OF assms(2,3) x] by (auto simp: same_dims_def)
    have "?body x s = ok (put i x 0 ?v s)"
      using Data_write_ok [OF wfs assms(2), of x 0] LayerCompressed_ok [OF put_wf [OF wfs] assms(2), of x] x ds nac lcs D(6) by simp
    moreover have "?P (ys @ [x]) (put i x 0 ?v s)"
      using inv put_wf [OF wfs] dat_put [OF wfs assms(2) nac, unfolded ds, OF x D(6)] by (auto simp: same_dims_def)
    ultimately show "\<exists>s'. ?body x s = ok s' \<and> ?P (ys @ [x]) s'" by blast
  qed (auto simp: wf2 dims)
  then obtain st' where st': "foldR ?body [0..<mArrayLayerCount st] st2 = ok st'" and inv: "?P [0..<mArrayLayerCount st] st'" by blast
  have d2: "mArrayLayerCount st2 = mArrayLayerCount st" using dims by (simp add: same_dims_def)
  have lc0: "LayerCompressed st2 i 0 = ok True"
    using LayerCompressed_ok [OF wf2 assms(2), of 0] ac2 [OF assms(2)] lcT [OF assms(2,3)] D(4) d2 by auto
  have "DecompressAspect T0 i st = ok st'"
    using st' al lc0 d2 assms D(2,8) by (simp add: DecompressAspect_def aspect_compressed_ok DataInline_ok)
  moreover have "val st' j l m = val st j l m" if b: "j < n" "l < mArrayLayerCount st" "m < mMipLevelCount st" for j l m
  proof (cases "j = i")
    case True
    then show ?thesis using inv ac2 [OF assms(2)] lcT [OF assms(2,3) b(2)] b assms(3) by (simp add: val_def)
  next
    case False
    have "mData st \<noteq> None" if "\<not> ac st j" using D(10) [OF b(1)] that by (simp add: aspect_wf_def)
    with False show ?thesis using inv ac2 [OF b(1)] inl2 keep b D(6) by (auto simp: val_def)
  qed
  moreover have "other_aspects n st i st'"
    unfolding other_aspects_def
  proof (intro allI impI)
    show "ac st' j = ac st j \<and> (\<not> ac st j \<longrightarrow> (\<forall>l<mArrayLayerCount st. lc st' j l = lc st j l))" if "j < n" "j \<noteq> i" for j
      using inv ac2 [OF that(1)] that keep D(10) [OF that(1)] by (auto simp: aspect_wf_def)
  qed
  ultimately show ?thesis using inv ac2 assms(2) by (auto simp: table_is_def)
qed

lemma const_aspect_layers:
  assumes "storage_wf n st" "i < n" "\<not> ac st i" "\<And>l. l < mArrayLayerCount st \<Longrightarrow> lc st i l"
  shows "const_aspect st i \<longleftrightarrow> (\<forall>l \<in> set [1..<mArrayLayerCount st]. dat st i l 0 = dat st i 0 0)"
proof -
  have v: "val st i l m = dat st i l 0" if "l < mArrayLayerCount st" for l m
    using assms(3) assms(4) [OF that] by (simp add: val_def)
  have pos: "0 < mArrayLayerCount st" "0 < mMipLevelCount st" using storage_wfD [OF assms(1)] by auto
  have "const_aspect st i \<longleftrightarrow> (\<forall>l<mArrayLayerCount st. dat st i l 0 = dat st i 0 0)"
    unfolding const_aspect_def using v pos by metis
  then show ?thesis using from_one [of _ "\<lambda>l. dat st i l 0"] by metis
qed

lemma RecompressAspect_ok:
  assumes "storage_wf n st" "i < n" "\<not> ac st i"
    and const: "\<And>l. l < mArrayLayerCount st \<Longrightarrow> lc st i l \<longleftrightarrow> const_layer st i l"
  shows "\<exists>st'. RecompressAspect i st = ok st' \<and> table_is n st st' (val st) \<and>
    other_aspects n st i st' \<and> (ac st' i \<longleftrightarrow> const_aspect st i) \<and> lc st' = lc st"
proof (cases "\<forall>l<mArrayLayerCount st. lc st i l")
  case False
  have all: "all_of (LayerCompressed st i) [0..<mArrayLayerCount st] = ok (\<forall>l \<in> set [0..<mArrayLayerCount st]. lc st i l)"
    using assms by (intro all_of_ok) (auto simp: LayerCompressed_ok)
  from False obtain l where l: "l < mArrayLayerCount st" "\<not> const_layer st i l" using const by blast
  then have "\<not> const_aspect st i" unfolding const_aspect_def const_layer_def
    using storage_wfD(6) [OF assms(1)] by metis
  then show ?thesis
    using False all aspect_compressed_ok [OF assms(1,2)] assms(3) table_is_refl [OF assms(1)]
    by (auto simp: RecompressAspect_def other_aspects_def)
next
  case True
  note D = storage_wfD [OF assms(1)]
  let ?L = "mArrayLayerCount st" and ?v = "dat st i 0 0"
  have all: "all_of (LayerCompressed st i) [0..<?L] = ok True"
    using all_of_ok [of "[0..<?L]" "LayerCompressed st i" "\<lambda>_. True"] LayerCompressed_ok [OF assms(1,2) _ assms(3)] True by simp
  have eq: "const_aspect st i \<longleftrightarrow> (\<forall>l \<in> set [1..<?L]. dat st i l 0 = ?v)"
    by (rule const_aspect_layers [OF assms(1-3)]) (simp add: True)
  have same: "all_of (\<lambda>l. bindR (Data st i l 0) (\<lambda>v. ok (v = ?v))) [1..<?L] = ok (const_aspect st i)"
    unfolding eq
    using Data_ok [OF assms(1,2) _ D(6) assms(3)] by (intro all_of_ok) auto
  let ?st1 = "st\<lparr> mAspectCompressed := (mAspectCompressed st)[i := Some True] \<rparr>"
  let ?st' = "?st1\<lparr> mInlineAspectData := (mInlineAspectData st)[i := Some ?v] \<rparr>"
  have wr: "DataInline_write i ?v ?st1 = ok ?st'"
    using assms(2) D(2,8,9) by (simp add: DataInline_write_def aspect_compressed_def init_read_def)
  have run: "RecompressAspect i st = (if const_aspect st i then ok ?st' else ok st)"
    unfolding RecompressAspect_def aspect_compressed_ok [OF assms(1,2)] all same Data_ok [OF assms(1,2) D(4,6) assms(3) disjI1 [OF refl]] bindR.simps
    using assms(2,3) D(2,8) wr by simp
  show ?thesis
  proof (cases "const_aspect st i")
    case c: True
    have views: "lc ?st' = lc st" "dat ?st' = dat st" "\<And>j. j < n \<Longrightarrow> ac ?st' j \<longleftrightarrow> j = i \<or> ac st j"
      "\<And>j. j < n \<Longrightarrow> inl ?st' j = (if j = i then ?v else inl st j)"
      using assms(2) D(2,8,9) by (auto simp: lc_def dat_def ac_def inl_def fun_eq_iff nth_list_update)
    have "aspect_wf ?st' j" if "j < n" for j
      using D(2,8,9) D(10) [OF that] views(1) views(3) [OF that] True that assms(2) by (auto simp: aspect_wf_def nth_list_update)
    then have wf: "storage_wf n ?st'" using assms(1) by (auto simp: storage_wf_def)
    have "val st i l m = ?v" if "l < ?L" "m < mMipLevelCount st" for l m
    proof -
      have "val st i l m = val st i 0 0" using c that unfolding const_aspect_def by blast
      also have "\<dots> = ?v" using True assms(3) D(4) by (simp add: val_def)
      finally show ?thesis .
    qed
    then have "val ?st' j l m = val st j l m" if "j < n" "l < ?L" "m < mMipLevelCount st" for j l m
      using that views assms(3) by (cases "j = i") (auto simp: val_def)
    with wf have "table_is n st ?st' (val st)" by (auto simp: table_is_def same_dims_def)
    then show ?thesis using run c views(1,3) assms(2) by (auto simp: other_aspects_def)
  next
    case False
    then show ?thesis using run table_is_refl [OF assms(1)] assms(3) by (auto simp: other_aspects_def)
  qed
qed

section \<open>The calls of the closures\<close>

text \<open>The subresources of a range in the order aspect, layer, level, and those of a list of calls
  with the data of the call.\<close>

definition cells :: "subresource_range \<Rightarrow> (aspect \<times> nat \<times> nat) list" where
  "cells r = concat (map (\<lambda>a. concat (map (\<lambda>l. map (\<lambda>m. (a, l, m))
     [baseMipLevel r..<baseMipLevel r + levelCount r]) [baseArrayLayer r..<baseArrayLayer r + layerCount r]))
     (IterateEnumMask (aspects r)))"

definition expand :: "(subresource_range \<times> 'b) list \<Rightarrow> ((aspect \<times> nat \<times> nat) \<times> 'b) list" where
  "expand calls = concat (map (\<lambda>(r, v). map (\<lambda>c. (c, v)) (cells r)) calls)"

lemma expand_append [simp]: "expand [] = []" "expand (xs @ ys) = expand xs @ expand ys"
  "expand ((r, v) # calls) = map (\<lambda>c. (c, v)) (cells r) @ expand calls"
  by (simp_all add: expand_def)

definition single_aspects :: "aspect set" where
  "single_aspects = {1, 2, 4, 8, 16, 32}"

definition idx :: "aspect \<Rightarrow> nat" where
  "idx a = (if a = 4 \<or> a = 16 then 1 else 0)"

lemma upt6: "[0..<6] = [0, 1, 2, 3, 4, 5 :: nat]"
  by (simp add: upt_conv_Cons)

lemma single_aspect:
  assumes "a \<in> single_aspects"
  shows "HasOneBit a" "IterateEnumMask a = [a]" "GetAspectIndex a = ok (idx a)"
proof -
  from assms consider "a = 1" | "a = 2" | "a = 4" | "a = 8" | "a = 16" | "a = 32" by (auto simp: single_aspects_def)
  then show one: "HasOneBit a" by cases (simp_all add: HasOneBit_def HasZeroOrOneBits_def)
  from assms consider "a = 1" | "a = 2" | "a = 4" | "a = 8" | "a = 16" | "a = 32" by (auto simp: single_aspects_def)
  then show "IterateEnumMask a = [a]" by cases (simp_all add: IterateEnumMask_def upt6 bit_Suc_0_iff)
  from assms one show "GetAspectIndex a = ok (idx a)"
    by (auto simp: single_aspects_def GetAspectIndex_def idx_def aspect_defs)
qed

lemma cells_single:
  assumes "a \<in> single_aspects"
  shows "cells (SubresourceRange a (l, 1) (m, 1)) = [(a, l, m)]"
    "cells (SubresourceRange a (l, 1) (0, M)) = map (\<lambda>m. (a, l, m)) [0..<M]"
    "cells (MakeFull a L M) = concat (map (\<lambda>l. map (\<lambda>m. (a, l, m)) [0..<M]) [0..<L])"
  using single_aspect(2) [OF assms] by (simp_all add: cells_def SubresourceRange_def MakeFull_def)

lemma level_loop:
  assumes "storage_wf n st" "i < n" "l < mArrayLayerCount st" "\<not> ac st i"
    and "distinct ms" "set ms \<subseteq> {..<mMipLevelCount st}"
    and step: "\<And>m s calls. storage_wf n s \<Longrightarrow> same_dims st s \<Longrightarrow> \<not> ac s i \<Longrightarrow> lc s = lc st \<Longrightarrow> m \<in> set ms \<Longrightarrow>
      body m (s, calls) = ok (put i l m (h m (dat s i l m)) s, calls @ [c m (dat s i l m)])"
  shows "\<exists>st'. foldR body ms (st, calls) = ok (st', calls @ map (\<lambda>m. c m (dat st i l m)) ms) \<and> levels_done n st i l ms h st'"
proof -
  let ?P = "\<lambda>ys (s, cs). levels_done n st i l ys h s \<and> cs = calls @ map (\<lambda>m. c m (dat st i l m)) ys"
  have "\<exists>s'. foldR body ms (st, calls) = ok s' \<and> ?P ms s'"
  proof (rule foldR_invariant)
    fix ys x zs s
    assume split: "ms = ys @ x # zs" and inv: "?P ys s"
    obtain s1 cs where s: "s = (s1, cs)" by (cases s)
    with inv have lev: "levels_done n st i l ys h s1" and cs: "cs = calls @ map (\<lambda>m. c m (dat st i l m)) ys" by auto
    have x: "x \<in> set ms" "x < mMipLevelCount st" "x \<notin> set ys" using split assms(5,6) by auto
    have same: "dat s1 i l x = dat st i l x" using levels_done_unseen [OF lev x(3) assms(3) x(2)] .
    have "body x (s1, cs) = ok (put i l x (h x (dat s1 i l x)) s1, cs @ [c x (dat s1 i l x)])"
      using lev x(1) assms(4) by (intro step) (auto simp: levels_done_def)
    then show "\<exists>s'. body x s = ok s' \<and> ?P (ys @ [x]) s'"
      using levels_done_step [OF lev assms(2,3) x(2) assms(4) x(3)] cs s same by simp
  qed (simp add: levels_done_Nil [OF assms(1)])
  then show ?thesis by auto
qed

lemma update_levels:
  assumes "storage_wf n st" "i < n" "l < mArrayLayerCount st" "\<not> ac st i" "\<not> lc st i l"
    and "distinct ms" "set ms \<subseteq> {..<mMipLevelCount st}" "a \<in> single_aspects"
  shows "\<exists>st'. foldR (update_level (\<lambda>_. g) a i l) ms (st, calls) =
      ok (st', calls @ map (\<lambda>m. (SubresourceRange a (l, 1) (m, 1), dat st i l m)) ms) \<and> levels_done n st i l ms (\<lambda>_. g) st'"
proof (rule level_loop [OF assms(1-4,6,7)])
  fix m and s :: "'a subresources" and calls
  assume s: "storage_wf n s" "same_dims st s" "\<not> ac s i" "lc s = lc st" "m \<in> set ms"
  then have "l < mArrayLayerCount s" "m < mMipLevelCount s" "\<not> lc s i l" using assms by (auto simp: same_dims_def)
  with s assms(2,8) show "update_level (\<lambda>_. g) a i l m (s, calls) =
      ok (put i l m (g (dat s i l m)) s, calls @ [(SubresourceRange a (l, 1) (m, 1), dat s i l m)])"
    by (simp add: update_level_def MakeSingle_def single_aspect Data_ok Data_write_ok)
qed

section \<open>Updating a layer\<close>

text \<open>The table with \<open>g\<close> applied where \<open>p\<close> holds.\<close>

definition where_upd :: "(nat \<Rightarrow> nat \<Rightarrow> nat \<Rightarrow> bool) \<Rightarrow> (nat \<Rightarrow> nat \<Rightarrow> nat \<Rightarrow> 'a \<Rightarrow> 'a) \<Rightarrow> 'a subresources \<Rightarrow> nat \<Rightarrow> nat \<Rightarrow> nat \<Rightarrow> 'a" where
  "where_upd p g st i l m = (if p i l m then g i l m (val st i l m) else val st i l m)"

lemma other_layers_trans:
  "other_layers st i l s1 \<Longrightarrow> other_layers s1 i l s2 \<Longrightarrow> mArrayLayerCount s1 = mArrayLayerCount st \<Longrightarrow> other_layers st i l s2"
  by (auto simp: other_layers_def)

lemma levels_other_layers: "levels_done n st i l ys h st' \<Longrightarrow> other_layers st i l st'"
  by (simp add: levels_done_def other_layers_def)

lemma levels_done_where:
  assumes "levels_done n st i l ys h st'" "\<not> ac st i" "\<not> lc st i l" "l < mArrayLayerCount st" "set ys \<subseteq> {..<mMipLevelCount st}"
  shows "table_is n st st' (where_upd (\<lambda>i' l' m'. i' = i \<and> l' = l \<and> m' \<in> set ys) (\<lambda>_ _ m'. h m') st)"
  using levels_done_table [OF assms] by (auto simp: table_is_def where_upd_def)

lemma where_upd_cong:
  "table_is n st s1 (val st) \<Longrightarrow> i < n \<Longrightarrow> l < mArrayLayerCount st \<Longrightarrow> m < mMipLevelCount st \<Longrightarrow>
   where_upd p g s1 i l m = where_upd p g st i l m"
  by (simp add: where_upd_def table_isD(5))

lemma const_layer_cong:
  assumes "\<And>m. m < mMipLevelCount st \<Longrightarrow> val st' i l m = val st i l m" "mMipLevelCount st' = mMipLevelCount st" "0 < mMipLevelCount st"
  shows "const_layer st' i l \<longleftrightarrow> const_layer st i l"
  unfolding const_layer_def using assms by metis

lemma maybe_DecompressLayer:
  assumes "storage_wf n st" "i < n" "l < mArrayLayerCount st" "\<not> ac st i"
  obtains st1 where "(if lc st i l then DecompressLayer i l st else ok st) = ok st1" "table_is n st st1 (val st)"
    "other_layers st i l st1" "\<not> lc st1 i l" "\<not> ac st1 i"
proof (cases "lc st i l")
  case True
  then show thesis using DecompressLayer_ok [OF assms True] that assms(4) by (auto simp: other_layers_def)
next
  case False
  then show thesis using that [of st] table_is_refl [OF assms(1)] assms(4) by (simp add: other_layers_def)
qed

text \<open>The end of the treatment of a layer whose levels have been rewritten one by one.\<close>

lemma finish_layer:
  assumes "storage_wf n st" "i < n" "l < mArrayLayerCount st" "\<not> ac st i" "\<not> lc st i l"
  obtains st' where "(if full then RecompressLayer i l st else ok st) = ok st'" "table_is n st st' (val st)"
    "other_layers st i l st'" "full \<Longrightarrow> lc st' i l \<longleftrightarrow> const_layer st' i l" "\<not> full \<Longrightarrow> \<not> lc st' i l"
proof (cases full)
  case True
  obtain st' where st': "RecompressLayer i l st = ok st'" "table_is n st st' (val st)" "other_layers st i l st'"
    "lc st' i l \<longleftrightarrow> const_layer st i l" using RecompressLayer_ok [OF assms] by blast
  have "const_layer st' i l \<longleftrightarrow> const_layer st i l"
    using table_isD [OF st'(2)] assms(2,3) storage_wfD(6) [OF assms(1)] by (intro const_layer_cong) auto
  then show thesis using that st' True by simp
next
  case False
  then show thesis using that [of st] table_is_refl [OF assms(1)] assms(5) by (simp add: other_layers_def)
qed

lemma update_layer_ok:
  assumes "storage_wf n st" "i < n" "l < mArrayLayerCount st" "\<not> ac st i" "a \<in> single_aspects"
    and "baseMipLevel r + levelCount r \<le> mMipLevelCount st"
    and full: "full \<longleftrightarrow> baseMipLevel r = 0 \<and> levelCount r = mMipLevelCount st"
  shows "\<exists>st' cs. update_layer r full (\<lambda>_. g) a i l (st, calls) = ok (st', calls @ cs) \<and>
    table_is n st st' (where_upd (\<lambda>i' l' m'. i' = i \<and> l' = l \<and> m' \<in> {baseMipLevel r..<baseMipLevel r + levelCount r}) (\<lambda>_ _ _. g) st) \<and>
    other_layers st i l st' \<and> (full \<longrightarrow> (lc st' i l \<longleftrightarrow> const_layer st' i l)) \<and> (\<not> full \<longrightarrow> \<not> lc st' i l) \<and>
    expand cs = map (\<lambda>m. ((a, l, m), val st i l m)) [baseMipLevel r..<baseMipLevel r + levelCount r]"
proof (cases "lc st i l \<and> full")
  case True
  note D = storage_wfD [OF assms(1)]
  let ?v = "dat st i l 0" and ?M = "mMipLevelCount st" and ?st' = "put i l 0 (g (dat st i l 0)) st"
  have v: "val st i l m = ?v" for m using True assms(4) by (simp add: val_def)
  have run: "update_layer r full (\<lambda>_. g) a i l (st, calls) = ok (?st', calls @ [(SubresourceRange a (l, 1) (0, ?M), ?v)])"
    using True assms D by (simp add: update_layer_def storage_ok GetFullLayerRange_def)
  have "table_is n st ?st' (where_upd (\<lambda>i' l' m'. i' = i \<and> l' = l \<and> m' \<in> {baseMipLevel r..<baseMipLevel r + levelCount r}) (\<lambda>_ _ _. g) st)"
    using put_wf [OF assms(1)] dat_put [OF assms(1,2,4,3) D(6)] True assms(4) full D(6)
    by (auto simp: table_is_def same_dims_def where_upd_def val_def)
  moreover have "const_layer ?st' i l" "lc ?st' i l" using True assms(4) by (simp_all add: const_layer_def val_def)
  moreover have "expand [(SubresourceRange a (l, 1) (0, ?M), ?v)] = map (\<lambda>m. ((a, l, m), val st i l m)) [0..<?M]"
    using cells_single(2) [OF assms(5)] v by simp
  ultimately show ?thesis using run full True by (auto simp: other_layers_def)
next
  case False
  note D = storage_wfD [OF assms(1)]
  let ?ms = "[baseMipLevel r..<baseMipLevel r + levelCount r]"
  have ends: "u32 (baseMipLevel r + levelCount r) = baseMipLevel r + levelCount r" using assms(6) D(7) by (simp add: u32_def)
  obtain st1 where st1: "(if lc st i l then DecompressLayer i l st else ok st) = ok st1" "table_is n st st1 (val st)"
    "other_layers st i l st1" "\<not> lc st1 i l" "\<not> ac st1 i"
    using maybe_DecompressLayer [OF assms(1-4)] by blast
  note d1 = table_isD [OF st1(2)]
  have ms: "distinct ?ms" "set ?ms \<subseteq> {..<mMipLevelCount st1}" and l1: "l < mArrayLayerCount st1" using d1 assms by auto
  obtain st2 where st2: "foldR (update_level (\<lambda>_. g) a i l) ?ms (st1, calls) =
      ok (st2, calls @ map (\<lambda>m. (SubresourceRange a (l, 1) (m, 1), dat st1 i l m)) ?ms)" "levels_done n st1 i l ?ms (\<lambda>_. g) st2"
    using update_levels [OF d1(1) assms(2) l1 st1(5,4) ms assms(5)] by blast
  note d2 = levels_done_dims [OF st2(2)]
  have l2: "l < mArrayLayerCount st2" "\<not> ac st2 i" "\<not> lc st2 i l" using d2 l1 st1 by auto
  obtain st' where st': "(if full then RecompressLayer i l st2 else ok st2) = ok st'" "table_is n st2 st' (val st2)"
    "other_layers st2 i l st'" "full \<Longrightarrow> lc st' i l \<longleftrightarrow> const_layer st' i l" "\<not> full \<Longrightarrow> \<not> lc st' i l"
    using finish_layer [OF d2(3) assms(2) l2] by blast
  have run: "update_layer r full (\<lambda>_. g) a i l (st, calls) = ok (st', calls @ map (\<lambda>m. (SubresourceRange a (l, 1) (m, 1), dat st1 i l m)) ?ms)"
    using False st1(1) st2(1) st'(1) ends by (auto simp: update_layer_def LayerCompressed_ok [OF assms(1-4)])
  have "table_is n st1 st2 (where_upd (\<lambda>i' l' m'. i' = i \<and> l' = l \<and> m' \<in> set ?ms) (\<lambda>_ _ _. g) st1)"
    using levels_done_where [OF st2(2) st1(5,4) l1 ms(2)] .
  then have t2: "table_is n st st2 (where_upd (\<lambda>i' l' m'. i' = i \<and> l' = l \<and> m' \<in> set ?ms) (\<lambda>_ _ _. g) st)"
    by (rule table_is_trans [OF st1(2)]) (rule where_upd_cong [OF st1(2)])
  have "table_is n st st' (where_upd (\<lambda>i' l' m'. i' = i \<and> l' = l \<and> m' \<in> set ?ms) (\<lambda>_ _ _. g) st)"
    by (rule table_is_trans [OF t2 st'(2) table_isD(5) [OF t2]])
  moreover have "other_layers st i l st'"
    using other_layers_trans [OF other_layers_trans [OF st1(3) levels_other_layers [OF st2(2)]] st'(3)] d1 d2 by simp
  moreover have "dat st1 i l m = val st i l m" if "m < mMipLevelCount st" for m
    using d1(5) [OF assms(2,3) that] st1(4,5) by (simp add: val_def)
  then have "expand (map (\<lambda>m. (SubresourceRange a (l, 1) (m, 1), dat st1 i l m)) ?ms) = map (\<lambda>m. ((a, l, m), val st i l m)) ?ms"
    using ms(2) d1(4) assms(6) cells_single(1) [OF assms(5)] by (simp add: expand_def comp_def concat_map_singleton)
  ultimately show ?thesis using run st'(4,5) by auto
qed

section \<open>Loops over the layers of a decompressed aspect\<close>

lemma layer_loop:
  assumes wf: "storage_wf n st" "i < n" "\<not> ac st i" "distinct ls" "set ls \<subseteq> {..<mArrayLayerCount st}"
    and step: "\<And>l s calls. storage_wf n s \<Longrightarrow> same_dims st s \<Longrightarrow> \<not> ac s i \<Longrightarrow> l \<in> set ls \<Longrightarrow>
      (\<And>m. m < mMipLevelCount st \<Longrightarrow> val s i l m = val st i l m) \<Longrightarrow>
      \<exists>s' cs. body l (s, calls) = ok (s', calls @ cs) \<and>
        table_is n s s' (where_upd (\<lambda>i' l' m'. i' = i \<and> l' = l \<and> p m') h s) \<and>
        other_layers s i l s' \<and> Q (lc s' i l) (const_layer s' i l) \<and> expand cs = E l"
  shows "\<exists>st' cs. foldR body ls (st, calls) = ok (st', calls @ cs) \<and>
    table_is n st st' (where_upd (\<lambda>i' l' m'. i' = i \<and> l' \<in> set ls \<and> p m') h st) \<and>
    ac st' = ac st \<and> other_aspects n st i st' \<and> (\<forall>l \<in> set ls. Q (lc st' i l) (const_layer st' i l)) \<and> expand cs = concat (map E ls)"
proof -
  let ?P = "\<lambda>ys (s, c). \<exists>cs. c = calls @ cs \<and>
    table_is n st s (where_upd (\<lambda>i' l' m'. i' = i \<and> l' \<in> set ys \<and> p m') h st) \<and>
    ac s = ac st \<and> other_aspects n st i s \<and> (\<forall>l \<in> set ys. Q (lc s i l) (const_layer s i l)) \<and> expand cs = concat (map E ys)"
  have "\<exists>s'. foldR body ls (st, calls) = ok s' \<and> ?P ls s'"
  proof (rule foldR_invariant)
    have "where_upd (\<lambda>i' l' m'. i' = i \<and> l' \<in> set [] \<and> p m') h st = val st" by (simp add: where_upd_def fun_eq_iff)
    then show "?P [] (st, calls)" using table_is_refl [OF wf(1)] by (auto simp: other_aspects_def)
  next
    fix ys x zs s
    assume split: "ls = ys @ x # zs" and inv: "?P ys s"
    obtain s1 cs where s: "s = (s1, calls @ cs)" and t1: "table_is n st s1 (where_upd (\<lambda>i' l' m'. i' = i \<and> l' \<in> set ys \<and> p m') h st)"
      and ac1: "ac s1 = ac st" and oa: "other_aspects n st i s1" and Q1: "\<forall>l \<in> set ys. Q (lc s1 i l) (const_layer s1 i l)" and E1: "expand cs = concat (map E ys)"
      using inv by auto
    have x: "x \<in> set ls" "x < mArrayLayerCount st" "x \<notin> set ys" using split wf(4,5) by auto
    note d1 = table_isD [OF t1]
    have unseen: "val s1 i x m = val st i x m" if "m < mMipLevelCount st" for m
      using d1(5) [OF wf(2) x(2) that] x(3) by (simp add: where_upd_def)
    have dims: "same_dims st s1" using d1 by (simp add: same_dims_def)
    obtain s2 cs2 where s2: "body x (s1, calls @ cs) = ok (s2, (calls @ cs) @ cs2)"
      "table_is n s1 s2 (where_upd (\<lambda>i' l' m'. i' = i \<and> l' = x \<and> p m') h s1)" "other_layers s1 i x s2"
      "Q (lc s2 i x) (const_layer s2 i x)" "expand cs2 = E x"
      using step [OF d1(1) dims _ x(1) unseen, of "calls @ cs"] ac1 wf(3) by auto
    note d2 = table_isD [OF s2(2)]
    have "table_is n st s2 (where_upd (\<lambda>i' l' m'. i' = i \<and> l' \<in> set (ys @ [x]) \<and> p m') h st)"
      using d1(5) x(3) by (intro table_is_trans [OF t1 s2(2)]) (auto simp: where_upd_def)
    moreover have "Q (lc s2 i l) (const_layer s2 i l)" if l: "l \<in> set ys" for l
    proof -
      have b: "l < mArrayLayerCount s1" "l \<noteq> x" using l split wf(5) x(3) d1 by auto
      have "const_layer s2 i l = const_layer s1 i l"
        using d2 b wf(2) storage_wfD(6) [OF d1(1)] by (intro const_layer_cong) (auto simp: where_upd_def)
      moreover have "lc s2 i l = lc s1 i l" using s2(3) b by (auto simp: other_layers_def)
      ultimately show ?thesis using Q1 l by simp
    qed
    moreover have "ac s2 = ac st" using s2(3) ac1 by (simp add: other_layers_def)
    moreover have "other_aspects n st i s2" using oa s2(3) d1(3) by (auto simp: other_aspects_def other_layers_def)
    ultimately show "\<exists>s'. body x s = ok s' \<and> ?P (ys @ [x]) s'"
      using s s2(1,4,5) E1 by (intro exI [of _ "(s2, calls @ cs @ cs2)"]) auto
  qed
  then show ?thesis by auto
qed

section \<open>Updating an aspect\<close>

definition tight :: "nat \<Rightarrow> 'a subresources \<Rightarrow> bool" where
  "tight n st \<longleftrightarrow> (mArrayLayerCount st = 1 \<longrightarrow> (\<forall>i<n. ac st i \<or> \<not> lc st i 0))"

lemma tight_step:
  assumes "tight n st" "other_aspects n st i st'" "mArrayLayerCount st' = mArrayLayerCount st"
    "mArrayLayerCount st = 1 \<Longrightarrow> ac st' i \<or> \<not> lc st' i 0"
  shows "tight n st'"
  unfolding tight_def
proof (intro impI allI)
  fix j
  assume L: "mArrayLayerCount st' = 1" and j: "j < n"
  show "ac st' j \<or> \<not> lc st' j 0"
  proof (cases "j = i")
    case False
    then have "ac st' j = ac st j" "\<not> ac st j \<longrightarrow> lc st' j 0 = lc st j 0"
      using assms(2,3) L j by (auto simp: other_aspects_def)
    then show ?thesis using assms(1,3) L j by (auto simp: tight_def)
  next
    case True
    then show ?thesis using assms(3,4) L by simp
  qed
qed

lemma maybe_DecompressAspect:
  assumes "storage_wf n st" "i < n"
  obtains st1 where "(if ac st i then DecompressAspect T0 i st else ok st) = ok st1" "table_is n st st1 (val st)"
    "\<not> ac st1 i" "other_aspects n st i st1"
proof (cases "ac st i")
  case True
  then show thesis using DecompressAspect_ok [OF assms True, of T0] that by auto
next
  case False
  then show thesis using that [of st] table_is_refl [OF assms(1)] by (auto simp: other_aspects_def)
qed

lemma other_aspects_trans:
  "other_aspects n st i s1 \<Longrightarrow> other_aspects n s1 i s2 \<Longrightarrow> mArrayLayerCount s1 = mArrayLayerCount st \<Longrightarrow> other_aspects n st i s2"
  by (auto simp: other_aspects_def)

lemma const_aspect_cong:
  assumes "\<And>l m. l < mArrayLayerCount st \<Longrightarrow> m < mMipLevelCount st \<Longrightarrow> val st' i l m = val st i l m"
    "mMipLevelCount st' = mMipLevelCount st" "mArrayLayerCount st' = mArrayLayerCount st" "storage_wf n st"
  shows "const_aspect st' i \<longleftrightarrow> const_aspect st i"
proof -
  have "val st' i 0 0 = val st i 0 0" using assms(1) [of 0 0] storage_wfD(4,6) [OF assms(4)] by simp
  then show ?thesis unfolding const_aspect_def assms(2,3) using assms(1) by simp
qed

lemma finish_aspect:
  assumes "storage_wf n st" "i < n" "\<not> ac st i"
    and layers: "full \<Longrightarrow> \<forall>l<mArrayLayerCount st. lc st i l \<longleftrightarrow> const_layer st i l"
  obtains st' where "(if full then RecompressAspect i st else ok st) = ok st'" "table_is n st st' (val st)"
    "other_aspects n st i st'" "full \<Longrightarrow> ac st' i \<longleftrightarrow> const_aspect st' i" "\<not> full \<Longrightarrow> \<not> ac st' i" "lc st' = lc st"
    "full \<Longrightarrow> mArrayLayerCount st = 1 \<Longrightarrow> ac st' i \<or> \<not> lc st' i 0"
proof (cases full)
  case True
  have eq: "lc st i l \<longleftrightarrow> const_layer st i l" if "l < mArrayLayerCount st" for l using layers [OF True] that by blast
  from RecompressAspect_ok [OF assms(1-3) eq] obtain st' where st': "RecompressAspect i st = ok st'" "table_is n st st' (val st)" "other_aspects n st i st'"
    "ac st' i \<longleftrightarrow> const_aspect st i" "lc st' = lc st" by blast
  have c: "const_aspect st' i \<longleftrightarrow> const_aspect st i"
    using table_isD [OF st'(2)] assms(1,2) by (intro const_aspect_cong) auto
  have "const_aspect st i" if "mArrayLayerCount st = 1" "const_layer st i 0"
    using that(2) unfolding const_aspect_def const_layer_def that(1) less_one by blast
  then show thesis using that st' True c eq storage_wfD(4) [OF assms(1)] by auto
next
  case False
  then show thesis using that [of st] table_is_refl [OF assms(1)] assms(3) by (auto simp: other_aspects_def)
qed

text \<open>The ranges a storage can be updated with.\<close>

definition range_ok :: "'a subresources \<Rightarrow> subresource_range \<Rightarrow> bool" where
  "range_ok st r \<longleftrightarrow> set (IterateEnumMask (aspects r)) \<subseteq> set (IterateEnumMask (mAspects st)) \<and>
     baseArrayLayer r + layerCount r \<le> mArrayLayerCount st \<and> baseMipLevel r + levelCount r \<le> mMipLevelCount st"

definition in_range :: "subresource_range \<Rightarrow> nat \<Rightarrow> nat \<Rightarrow> bool" where
  "in_range r l m \<longleftrightarrow> l \<in> {baseArrayLayer r..<baseArrayLayer r + layerCount r} \<and> m \<in> {baseMipLevel r..<baseMipLevel r + levelCount r}"

definition full_levels :: "'a subresources \<Rightarrow> subresource_range \<Rightarrow> bool" where
  "full_levels st r \<longleftrightarrow> baseMipLevel r = 0 \<and> levelCount r = mMipLevelCount st"

definition full_range :: "'a subresources \<Rightarrow> subresource_range \<Rightarrow> bool" where
  "full_range st r \<longleftrightarrow> baseArrayLayer r = 0 \<and> layerCount r = mArrayLayerCount st \<and> full_levels st r"

definition layer_cells :: "subresource_range \<Rightarrow> aspect \<Rightarrow> nat \<Rightarrow> (aspect \<times> nat \<times> nat) list" where
  "layer_cells r a l = map (\<lambda>m. (a, l, m)) [baseMipLevel r..<baseMipLevel r + levelCount r]"

definition aspect_cells :: "subresource_range \<Rightarrow> aspect \<Rightarrow> (aspect \<times> nat \<times> nat) list" where
  "aspect_cells r a = concat (map (layer_cells r a) [baseArrayLayer r..<baseArrayLayer r + layerCount r])"

lemma cells_aspects: "cells r = concat (map (aspect_cells r) (IterateEnumMask (aspects r)))"
  by (simp add: cells_def aspect_cells_def [abs_def] layer_cells_def [abs_def])

definition at_cell :: "'a subresources \<Rightarrow> aspect \<times> nat \<times> nat \<Rightarrow> (aspect \<times> nat \<times> nat) \<times> 'a" where
  "at_cell st = (\<lambda>(a, l, m). ((a, l, m), val st (idx a) l m))"

text \<open>What a call on one aspect establishes.\<close>

definition aspect_result ::
  "nat \<Rightarrow> 'a subresources \<Rightarrow> nat \<Rightarrow> bool \<Rightarrow> 'a subresources \<Rightarrow> bool" where
  "aspect_result n st i full st' \<longleftrightarrow> other_aspects n st i st' \<and> (full \<longrightarrow> (ac st' i \<longleftrightarrow> const_aspect st' i)) \<and>
     (\<not> full \<longrightarrow> \<not> ac st' i)"

lemma update_whole_aspect:
  assumes "storage_wf n st" "i < n" "ac st i" "a \<in> single_aspects" "idx a = i" "full_range st r"
  shows "\<exists>st' cs. update_aspect T0 r (full_levels st r) (full_range st r) (\<lambda>_. g) a (st, calls) = ok (st', calls @ cs) \<and>
    table_is n st st' (where_upd (\<lambda>i' l' m'. i' = i \<and> in_range r l' m') (\<lambda>_ _ _. g) st) \<and>
    aspect_result n st i (full_range st r) st' \<and> ac st' i \<and> expand cs = map (at_cell st) (aspect_cells r a)"
proof -
  note D = storage_wfD [OF assms(1)]
  let ?v = "inl st i" and ?R = "MakeFull a (mArrayLayerCount st) (mMipLevelCount st)"
  let ?st' = "st\<lparr> mInlineAspectData := (mInlineAspectData st)[i := Some (g ?v)] \<rparr>"
  have run: "update_aspect T0 r (full_levels st r) (full_range st r) (\<lambda>_. g) a (st, calls) = ok (?st', calls @ [(?R, ?v)])"
    using assms D(2,9) single_aspect(3) [OF assms(4)]
    by (simp add: update_aspect_def aspect_compressed_ok DataInline_ok DataInline_write_def)
  have views: "ac ?st' = ac st" "lc ?st' = lc st" "dat ?st' = dat st" "\<And>j. j < n \<Longrightarrow> inl ?st' j = (if j = i then g ?v else inl st j)"
    using assms(2) D(2,9) by (auto simp: ac_def lc_def dat_def inl_def fun_eq_iff nth_list_update)
  have "aspect_wf ?st' j" if "j < n" for j
    using D(2,9) D(10) [OF that] views that assms(2) by (auto simp: aspect_wf_def nth_list_update)
  then have wf: "storage_wf n ?st'" using assms(1) by (auto simp: storage_wf_def)
  have t: "table_is n st ?st' (where_upd (\<lambda>i' l' m'. i' = i \<and> in_range r l' m') (\<lambda>_ _ _. g) st)"
    using wf views assms(3,6) by (auto simp: table_is_def same_dims_def where_upd_def val_def in_range_def full_range_def full_levels_def)
  have "aspect_result n st i (full_range st r) ?st'"
    using views assms(2,3,6) by (auto simp: aspect_result_def other_aspects_def const_aspect_def val_def)
  moreover have "expand [(?R, ?v)] = map (at_cell st) (aspect_cells r a)"
    using cells_single(3) [OF assms(4)] assms(3,5,6)
    by (simp add: aspect_cells_def layer_cells_def full_range_def full_levels_def at_cell_def map_concat comp_def val_def)
  moreover have "ac ?st' i" using views(1) assms(3) by simp
  ultimately show ?thesis using run t by (intro exI conjI)
qed

lemma update_aspect_layers:
  assumes "storage_wf n st" "i < n" "\<not> (ac st i \<and> full_range st r)" "a \<in> single_aspects" "idx a = i"
    and r: "baseArrayLayer r + layerCount r \<le> mArrayLayerCount st" "baseMipLevel r + levelCount r \<le> mMipLevelCount st"
  shows "\<exists>st' cs. update_aspect T0 r (full_levels st r) (full_range st r) (\<lambda>_. g) a (st, calls) = ok (st', calls @ cs) \<and>
    table_is n st st' (where_upd (\<lambda>i' l' m'. i' = i \<and> in_range r l' m') (\<lambda>_ _ _. g) st) \<and>
    aspect_result n st i (full_range st r) st' \<and> (mArrayLayerCount st = 1 \<and> layerCount r \<noteq> 0 \<longrightarrow> ac st' i \<or> \<not> lc st' i 0) \<and>
    expand cs = map (at_cell st) (aspect_cells r a)"
proof -
  note D = storage_wfD [OF assms(1)]
  let ?ls = "[baseArrayLayer r..<baseArrayLayer r + layerCount r]" and ?fl = "full_levels st r" and ?fr = "full_range st r"
  have ends: "u32 (baseArrayLayer r + layerCount r) = baseArrayLayer r + layerCount r" using r(1) D(5) by (simp add: u32_def)
  obtain st1 where st1: "(if ac st i then DecompressAspect T0 i st else ok st) = ok st1" "table_is n st st1 (val st)"
    "\<not> ac st1 i" "other_aspects n st i st1" using maybe_DecompressAspect [OF assms(1,2)] by blast
  note d1 = table_isD [OF st1(2)]
  have fl: "?fl \<longleftrightarrow> baseMipLevel r = 0 \<and> levelCount r = mMipLevelCount st1" using d1 by (simp add: full_levels_def)
  have ls: "distinct ?ls" "set ?ls \<subseteq> {..<mArrayLayerCount st1}" using r(1) d1(3) by auto
  let ?p = "\<lambda>m'. m' \<in> {baseMipLevel r..<baseMipLevel r + levelCount r}"
  have "\<exists>st' cs. foldR (update_layer r ?fl (\<lambda>_. g) a i) ?ls (st1, calls) = ok (st', calls @ cs) \<and>
      table_is n st1 st' (where_upd (\<lambda>i' l' m'. i' = i \<and> l' \<in> set ?ls \<and> ?p m') (\<lambda>_ _ _. g) st1) \<and>
      ac st' = ac st1 \<and> other_aspects n st1 i st' \<and>
      (\<forall>l \<in> set ?ls. (?fl \<longrightarrow> (lc st' i l \<longleftrightarrow> const_layer st' i l)) \<and> (\<not> ?fl \<longrightarrow> \<not> lc st' i l)) \<and>
      expand cs = concat (map (\<lambda>l. map (at_cell st1) (layer_cells r a l)) ?ls)"
  proof (rule layer_loop [OF d1(1) assms(2) st1(3) ls, where Q = "\<lambda>c k. (?fl \<longrightarrow> c = k) \<and> (\<not> ?fl \<longrightarrow> \<not> c)"])
    fix l s calls
    assume s: "storage_wf n s" "same_dims st1 s" "\<not> ac s i" "l \<in> set ?ls" "\<And>m. m < mMipLevelCount st1 \<Longrightarrow> val s i l m = val st1 i l m"
    then have b: "l < mArrayLayerCount s" "baseMipLevel r + levelCount r \<le> mMipLevelCount s"
      "?fl \<longleftrightarrow> baseMipLevel r = 0 \<and> levelCount r = mMipLevelCount s" using d1 r fl by (auto simp: same_dims_def)
    have "map (at_cell st1) (layer_cells r a l) = map (\<lambda>m. ((a, l, m), val s i l m)) [baseMipLevel r..<baseMipLevel r + levelCount r]"
      using s(5) r(2) d1(4) assms(5) by (simp add: layer_cells_def at_cell_def)
    then show "\<exists>s' cs. update_layer r ?fl (\<lambda>_. g) a i l (s, calls) = ok (s', calls @ cs) \<and>
        table_is n s s' (where_upd (\<lambda>i' l' m'. i' = i \<and> l' = l \<and> ?p m') (\<lambda>_ _ _. g) s) \<and> other_layers s i l s' \<and>
        ((?fl \<longrightarrow> lc s' i l = const_layer s' i l) \<and> (\<not> ?fl \<longrightarrow> \<not> lc s' i l)) \<and> expand cs = map (at_cell st1) (layer_cells r a l)"
      using update_layer_ok [OF s(1) assms(2) b(1) s(3) assms(4) b(2,3), of g calls] by simp
  qed
  then obtain st2 cs where st2: "foldR (update_layer r ?fl (\<lambda>_. g) a i) ?ls (st1, calls) = ok (st2, calls @ cs)"
      "table_is n st1 st2 (where_upd (\<lambda>i' l' m'. i' = i \<and> l' \<in> set ?ls \<and> ?p m') (\<lambda>_ _ _. g) st1)"
      "ac st2 = ac st1" "other_aspects n st1 i st2"
      "\<And>l. l \<in> set ?ls \<Longrightarrow> (?fl \<longrightarrow> (lc st2 i l \<longleftrightarrow> const_layer st2 i l)) \<and> (\<not> ?fl \<longrightarrow> \<not> lc st2 i l)"
      "expand cs = concat (map (\<lambda>l. map (at_cell st1) (layer_cells r a l)) ?ls)" by blast
  note d2 = table_isD [OF st2(2)]
  have layers: "\<forall>l<mArrayLayerCount st2. lc st2 i l \<longleftrightarrow> const_layer st2 i l" if ?fr
    using st2(5) that d1(3) d2(3) by (auto simp: full_range_def)
  have nac2: "\<not> ac st2 i" using st2(3) st1(3) by simp
  obtain st' where st': "(if ?fr then RecompressAspect i st2 else ok st2) = ok st'" "table_is n st2 st' (val st2)"
    "other_aspects n st2 i st'" "?fr \<Longrightarrow> ac st' i \<longleftrightarrow> const_aspect st' i" "\<not> ?fr \<Longrightarrow> \<not> ac st' i" "lc st' = lc st2"
    "?fr \<Longrightarrow> mArrayLayerCount st2 = 1 \<Longrightarrow> ac st' i \<or> \<not> lc st' i 0"
    using finish_aspect [OF d2(1) assms(2) nac2 layers] by blast
  have run: "update_aspect T0 r ?fl ?fr (\<lambda>_. g) a (st, calls) = ok (st', calls @ cs)"
    using assms(3,5) st1(1) st2(1) st'(1) ends single_aspect(3) [OF assms(4)]
    by (auto simp: update_aspect_def aspect_compressed_ok [OF assms(1,2)])
  have t2: "table_is n st st2 (where_upd (\<lambda>i' l' m'. i' = i \<and> in_range r l' m') (\<lambda>_ _ _. g) st)"
    using d1(5) by (intro table_is_trans [OF st1(2) st2(2)]) (simp add: where_upd_def in_range_def)
  have "table_is n st st' (where_upd (\<lambda>i' l' m'. i' = i \<and> in_range r l' m') (\<lambda>_ _ _. g) st)"
    by (rule table_is_trans [OF t2 st'(2) table_isD(5) [OF t2]])
  moreover have "aspect_result n st i ?fr st'"
    using st'(3-5) other_aspects_trans [OF other_aspects_trans [OF st1(4) st2(4)] st'(3)] d1(3) d2(3) by (simp add: aspect_result_def)
  moreover have "ac st' i \<or> \<not> lc st' i 0" if "mArrayLayerCount st = 1" "layerCount r \<noteq> 0"
  proof (cases ?fr)
    case True
    then show ?thesis using st'(7) that d1(3) d2(3) by simp
  next
    case False
    with that r(1) have "\<not> ?fl" "0 \<in> set ?ls" by (auto simp: full_range_def)
    then show ?thesis using st2(5) st'(6) by auto
  qed
  moreover have "expand cs = map (at_cell st) (aspect_cells r a)"
    unfolding st2(6) aspect_cells_def map_concat map_map comp_def using d1(5) [OF assms(2)] r assms(5)
    by (intro arg_cong [of _ _ concat] map_cong refl) (auto simp: layer_cells_def at_cell_def)
  ultimately show ?thesis using run by blast
qed

section \<open>Update\<close>

lemma mask_cases:
  assumes "GetAspectCount k = ok n"
  obtains "n = 1" "IterateEnumMask k = [1]" | "n = 1" "IterateEnumMask k = [2]" | "n = 1" "IterateEnumMask k = [32]"
    | "n = 2" "IterateEnumMask k = [8, 16]" | "n = 2" "IterateEnumMask k = [2, 4]"
proof -
  have "k = 1 \<and> n = 1 \<or> k = 2 \<and> n = 1 \<or> k = 32 \<and> n = 1 \<or> k = 24 \<and> n = 2 \<or> k = 6 \<and> n = 2"
    using assms by (auto simp: GetAspectCount_def assertR_def aspect_defs bindR_Inr_iff split: if_splits)
  then show thesis using that by (auto simp: IterateEnumMask_def upt6 bit_Suc_0_iff)
qed

lemma mask_aspects:
  assumes "GetAspectCount k = ok n"
  shows "set (IterateEnumMask k) \<subseteq> single_aspects" "idx ` set (IterateEnumMask k) = {..<n}" "inj_on idx (set (IterateEnumMask k))"
  using assms by (cases rule: mask_cases, auto simp: single_aspects_def idx_def lessThan_nat_numeral)+

lemma distinct_mask: "distinct (IterateEnumMask k)"
  by (simp add: IterateEnumMask_def distinct_map inj_on_def)

lemma Get_ok:
  assumes "storage_wf n st" "a \<in> set (IterateEnumMask (mAspects st))" "l < mArrayLayerCount st" "m < mMipLevelCount st"
  shows "Get st a l m = ok (val st (idx a) l m)"
proof -
  note D = storage_wfD [OF assms(1)]
  have a: "a \<in> single_aspects" "idx a < n" using mask_aspects [OF D(1)] assms(2) by auto
  show ?thesis
    using assms(1,3,4) a D(1,6) single_aspect(3) [OF a(1)]
    by (auto simp: Get_def val_def storage_ok)
qed

definition aspect_loop_inv ::
  "nat \<Rightarrow> 'a subresources \<Rightarrow> subresource_range \<Rightarrow> ('a \<Rightarrow> 'a) \<Rightarrow> aspect list \<Rightarrow> 'a subresources \<times> 'a calls \<Rightarrow> bool" where
  "aspect_loop_inv n st r g ys = (\<lambda>(s, calls).
     table_is n st s (where_upd (\<lambda>i l m. i \<in> idx ` set ys \<and> in_range r l m) (\<lambda>_ _ _. g) st) \<and>
     expand calls = map (at_cell st) (concat (map (aspect_cells r) ys)) \<and>
     (\<forall>i<n. i \<notin> idx ` set ys \<longrightarrow> ac s i = ac st i \<and> (\<not> ac st i \<longrightarrow> (\<forall>l<mArrayLayerCount st. lc s i l = lc st i l))) \<and>
     (\<forall>a \<in> set ys. if full_range st r then ac s (idx a) = const_aspect s (idx a) else \<not> ac s (idx a)) \<and>
     (layerCount r \<noteq> 0 \<and> tight n st \<longrightarrow> tight n s))"

lemma update_aspect_ok:
  assumes "storage_wf n st" "i < n" "a \<in> single_aspects" "idx a = i"
    and r: "baseArrayLayer r + layerCount r \<le> mArrayLayerCount st" "baseMipLevel r + levelCount r \<le> mMipLevelCount st"
  shows "\<exists>st' cs. update_aspect T0 r (full_levels st r) (full_range st r) (\<lambda>_. g) a (st, calls) = ok (st', calls @ cs) \<and>
    table_is n st st' (where_upd (\<lambda>i' l' m'. i' = i \<and> in_range r l' m') (\<lambda>_ _ _. g) st) \<and>
    aspect_result n st i (full_range st r) st' \<and> (mArrayLayerCount st = 1 \<and> layerCount r \<noteq> 0 \<longrightarrow> ac st' i \<or> \<not> lc st' i 0) \<and>
    expand cs = map (at_cell st) (aspect_cells r a)"
proof (cases "ac st i \<and> full_range st r")
  case True
  then show ?thesis using update_whole_aspect [OF assms(1,2) _ assms(3,4), of r T0 g calls] by blast
next
  case False
  then show ?thesis using update_aspect_layers [OF assms(1,2) False assms(3,4) r] by blast
qed

lemma aspect_loop_step:
  assumes wf: "storage_wf n st" and r: "range_ok st r" and split: "IterateEnumMask (aspects r) = ys @ a # zs"
    and inv: "aspect_loop_inv n st r g ys s"
  shows "\<exists>s'. update_aspect T0 r (full_levels st r) (full_range st r) (\<lambda>_. g) a s = ok s' \<and> aspect_loop_inv n st r g (ys @ [a]) s'"
proof -
  obtain s1 calls where s: "s = (s1, calls)" by (cases s)
  note iv = inv [unfolded s aspect_loop_inv_def prod.case]
  have t1: "table_is n st s1 (where_upd (\<lambda>i l m. i \<in> idx ` set ys \<and> in_range r l m) (\<lambda>_ _ _. g) st)" using iv by blast
  note d1 = table_isD [OF t1]
  have sub: "set (ys @ a # zs) \<subseteq> set (IterateEnumMask (mAspects st))" using r split by (simp add: range_ok_def)
  have a: "a \<in> single_aspects" "idx a < n" using mask_aspects [OF storage_wfD(1) [OF wf]] sub by auto
  have new: "a \<notin> set ys" using distinct_mask [of "aspects r"] split by simp
  have fresh: "idx a \<notin> idx ` set ys"
    using mask_aspects(3) [OF storage_wfD(1) [OF wf]] sub new by (auto dest: inj_onD)
  have same: "full_levels s1 r = full_levels st r" "full_range s1 r = full_range st r" using d1 by (simp_all add: full_levels_def full_range_def)
  have b: "baseArrayLayer r + layerCount r \<le> mArrayLayerCount s1" "baseMipLevel r + levelCount r \<le> mMipLevelCount s1"
    using r d1 by (simp_all add: range_ok_def)
  obtain s2 cs where s2: "update_aspect T0 r (full_levels st r) (full_range st r) (\<lambda>_. g) a (s1, calls) = ok (s2, calls @ cs)"
    "table_is n s1 s2 (where_upd (\<lambda>i' l' m'. i' = idx a \<and> in_range r l' m') (\<lambda>_ _ _. g) s1)"
    "aspect_result n s1 (idx a) (full_range st r) s2"
    "mArrayLayerCount s1 = 1 \<and> layerCount r \<noteq> 0 \<longrightarrow> ac s2 (idx a) \<or> \<not> lc s2 (idx a) 0"
    "expand cs = map (at_cell s1) (aspect_cells r a)"
    using update_aspect_ok [OF d1(1) a(2,1) refl b, of T0 g calls] unfolding same by blast
  note d2 = table_isD [OF s2(2)]
  have unseen: "val s1 (idx a) l m = val st (idx a) l m" if "l < mArrayLayerCount st" "m < mMipLevelCount st" for l m
    using d1(5) [OF a(2) that] fresh by (simp add: where_upd_def)
  have "table_is n st s2 (where_upd (\<lambda>i l m. i \<in> idx ` set (ys @ [a]) \<and> in_range r l m) (\<lambda>_ _ _. g) st)"
    using d1(5) fresh by (intro table_is_trans [OF t1 s2(2)]) (auto simp: where_upd_def)
  moreover have "map (at_cell s1) (aspect_cells r a) = map (at_cell st) (aspect_cells r a)"
    using unseen r by (auto simp: aspect_cells_def layer_cells_def at_cell_def range_ok_def)
  moreover have oa: "other_aspects n s1 (idx a) s2" using s2(3) by (simp add: aspect_result_def)
  moreover have "if full_range st r then ac s2 (idx c) = const_aspect s2 (idx c) else \<not> ac s2 (idx c)" if c: "c \<in> set (ys @ [a])" for c
  proof (cases "c = a")
    case True
    then show ?thesis using s2(3) by (simp add: aspect_result_def)
  next
    case False
    then have cy: "c \<in> set ys" using c by simp
    then have iy: "idx c \<in> idx ` set ys" by (rule imageI)
    then have "idx c \<noteq> idx a" using fresh by metis
    then have i: "idx c < n" "idx c \<noteq> idx a" "c \<in> set ys"
      using mask_aspects(2) [OF storage_wfD(1) [OF wf]] sub cy by auto
    have "const_aspect s2 (idx c) = const_aspect s1 (idx c)"
      using d2 i by (intro const_aspect_cong [OF _ _ _ d1(1)]) (auto simp: where_upd_def)
    then show ?thesis using iv i oa by (simp add: other_aspects_def)
  qed
  moreover have "tight n s2" if "layerCount r \<noteq> 0" "tight n st"
    using iv that s2(4) by (intro tight_step [OF _ oa d2(3)]) auto
  ultimately have "aspect_loop_inv n st r g (ys @ [a]) (s2, calls @ cs)"
    using iv s2(5) d1(3) by (auto simp: aspect_loop_inv_def other_aspects_def)
  then show ?thesis using s s2(1) by blast
qed

lemma Update_ok:
  assumes "storage_wf n st" "range_ok st r"
  shows "\<exists>st' calls. Update T0 r (\<lambda>_. g) st = ok (st', calls) \<and> aspect_loop_inv n st r g (IterateEnumMask (aspects r)) (st', calls)"
proof -
  have start: "aspect_loop_inv n st r g [] (st, [])"
  proof -
    have "where_upd (\<lambda>i l m. i \<in> idx ` set [] \<and> in_range r l m) (\<lambda>_ _ _. g) st = val st" by (simp add: where_upd_def fun_eq_iff)
    then show ?thesis using table_is_refl [OF assms(1)] by (auto simp: aspect_loop_inv_def)
  qed
  have "\<exists>s'. foldR (update_aspect T0 r (full_levels st r) (full_range st r) (\<lambda>_. g)) (IterateEnumMask (aspects r)) (st, []) = ok s' \<and>
      aspect_loop_inv n st r g (IterateEnumMask (aspects r)) s'"
    by (rule foldR_invariant [where P = "aspect_loop_inv n st r g", OF start]) (rule aspect_loop_step [OF assms])
  then show ?thesis by (auto simp: Update_def Let_def full_levels_def full_range_def)
qed

section \<open>Merge\<close>

lemma foldR_single: "foldR f [x] s = f x s"
  by (cases "f x s") simp_all

lemma expand_with_other: "expand (with_other u cs) = map (\<lambda>(c, v). (c, (v, u))) (expand cs)"
  by (induction cs) (auto simp: with_other_def)

text \<open>The table of \<open>st\<close> merged with that of \<open>other\<close> where \<open>p\<close> holds.\<close>

definition merged :: "(nat \<Rightarrow> nat \<Rightarrow> bool) \<Rightarrow> ('a \<Rightarrow> 'u \<Rightarrow> 'a) \<Rightarrow> 'u subresources \<Rightarrow> 'a subresources \<Rightarrow> nat \<Rightarrow> nat \<Rightarrow> nat \<Rightarrow> 'a" where
  "merged p f other st = where_upd (\<lambda>i l m. p i l) (\<lambda>i l m v. f v (val other i l m)) st"

lemma Update_one_layer:
  assumes "storage_wf n st" "i < n" "l < mArrayLayerCount st" "\<not> ac st i" "a \<in> single_aspects" "idx a = i" "mArrayLayerCount st \<noteq> 1"
  shows "Update T0 (GetFullLayerRange st a l) h st = update_layer (GetFullLayerRange st a l) True h a i l (st, [])"
proof -
  let ?r = "GetFullLayerRange st a l"
  have "u32 (l + 1) = l + 1" using assms(3) storage_wfD(5) [OF assms(1)] by (simp add: u32_def)
  then have ls: "[baseArrayLayer ?r..<u32 (baseArrayLayer ?r + layerCount ?r)] = [l]"
    by (simp add: GetFullLayerRange_def SubresourceRange_def)
  have "Update T0 ?r h st = update_aspect T0 ?r True False h a (st, [])"
    using single_aspect(2) [OF assms(5)] assms(7) by (simp add: Update_def GetFullLayerRange_def SubresourceRange_def foldR_single del: foldR.simps)
  also have "\<dots> = bindR (foldR (update_layer ?r True h a i) [l] (st, [])) (\<lambda>(st, calls). ok (st, calls))"
    using single_aspect(3) [OF assms(5)] aspect_compressed_ok [OF assms(1,2)] assms(4,6) ls
    by (simp add: update_aspect_def del: foldR.simps)
  also have "\<dots> = update_layer ?r True h a i l (st, [])"
    unfolding foldR_single by (cases "update_layer ?r True h a i l (st, [])") auto
  finally show ?thesis .
qed

lemma merge_levels:
  assumes "storage_wf n st" "i < n" "l < mArrayLayerCount st" "\<not> ac st i" "\<not> lc st i l" "a \<in> single_aspects"
    and o: "storage_wf n other" "same_dims st other" "\<not> ac other i" "\<not> lc other i l"
  shows "\<exists>st'. foldR (merge_level other (\<lambda>_. f) a i l) [0..<mMipLevelCount st] (st, calls) =
      ok (st', calls @ map (\<lambda>m. (SubresourceRange a (l, 1) (m, 1), dat st i l m, val other i l m)) [0..<mMipLevelCount st]) \<and>
      levels_done n st i l [0..<mMipLevelCount st] (\<lambda>m v. f v (val other i l m)) st'"
proof (rule level_loop [OF assms(1-4)])
  fix m and s :: "'a subresources" and calls
  assume s: "storage_wf n s" "same_dims st s" "\<not> ac s i" "lc s = lc st" "m \<in> set [0..<mMipLevelCount st]"
  then have "l < mArrayLayerCount s" "m < mMipLevelCount s" "\<not> lc s i l" "l < mArrayLayerCount other" "m < mMipLevelCount other"
    using assms by (auto simp: same_dims_def)
  moreover have "val other i l m = dat other i l m" using o(3,4) by (simp add: val_def)
  ultimately show "merge_level other (\<lambda>_. f) a i l m (s, calls) =
      ok (put i l m (f (dat s i l m) (val other i l m)) s, calls @ [(SubresourceRange a (l, 1) (m, 1), dat s i l m, val other i l m)])"
    using s assms(2,6) o(1,3,4) by (simp add: merge_level_def MakeSingle_def single_aspect Data_ok Data_write_ok)
qed auto

lemma merge_layer_ok:
  assumes "storage_wf n st" "i < n" "l < mArrayLayerCount st" "\<not> ac st i" "a \<in> single_aspects" "idx a = i"
    and o: "storage_wf n other" "same_dims st other" "\<not> ac other i" "mArrayLayerCount st = 1 \<Longrightarrow> \<not> lc other i l"
  shows "\<exists>st' cs. merge_layer T0 other (\<lambda>_. f) a i l (st, calls) = ok (st', calls @ cs) \<and>
    table_is n st st' (where_upd (\<lambda>i' l' m'. i' = i \<and> l' = l \<and> True) (\<lambda>i l m v. f v (val other i l m)) st) \<and>
    other_layers st i l st' \<and> lc st' i l = const_layer st' i l \<and>
    expand cs = map (\<lambda>m. ((a, l, m), val st i l m, val other i l m)) [0..<mMipLevelCount st]"
proof (cases "lc other i l")
  case True
  let ?r = "GetFullLayerRange st a l" and ?u = "dat other i l 0" and ?M = "mMipLevelCount st"
  have lo: "l < mArrayLayerCount other" "0 < mMipLevelCount other" using o(2) assms(3) storage_wfD(6) [OF o(1)] by (auto simp: same_dims_def)
  have u: "val other i l m = ?u" for m using True o(3) by (simp add: val_def)
  have r: "baseMipLevel ?r = 0" "levelCount ?r = ?M" by (simp_all add: GetFullLayerRange_def SubresourceRange_def)
  obtain st' cs where up: "update_layer ?r True (\<lambda>_ v. f v ?u) a i l (st, []) = ok (st', [] @ cs)"
    "table_is n st st' (where_upd (\<lambda>i' l' m'. i' = i \<and> l' = l \<and> m' \<in> {baseMipLevel ?r..<baseMipLevel ?r + levelCount ?r}) (\<lambda>_ _ _ v. f v ?u) st)"
    "other_layers st i l st'" "lc st' i l = const_layer st' i l" "expand cs = map (\<lambda>m. ((a, l, m), val st i l m)) [0..<?M]"
    using update_layer_ok [OF assms(1-5), of ?r True "\<lambda>v. f v ?u" "[]"] r by auto
  have L: "mArrayLayerCount st \<noteq> 1" using o(4) True by blast
  have "Update T0 ?r (\<lambda>r v. f v ?u) st = ok (st', cs)"
    unfolding Update_one_layer [OF assms(1-6) L] using up(1) by simp
  then have "merge_layer T0 other (\<lambda>_. f) a i l (st, calls) = ok (st', calls @ with_other ?u cs)"
    using True assms(2) o lo by (simp add: merge_layer_def storage_ok)
  moreover have "table_is n st st' (where_upd (\<lambda>i' l' m'. i' = i \<and> l' = l \<and> True) (\<lambda>i l m v. f v (val other i l m)) st)"
    using up(2) u r by (auto simp: table_is_def where_upd_def)
  moreover have "expand (with_other ?u cs) = map (\<lambda>m. ((a, l, m), val st i l m, val other i l m)) [0..<?M]"
    by (simp add: expand_with_other up(5) u comp_def)
  ultimately show ?thesis using up(3,4) by blast
next
  case False
  let ?M = "mMipLevelCount st"
  obtain st1 where st1: "(if lc st i l then DecompressLayer i l st else ok st) = ok st1" "table_is n st st1 (val st)"
    "other_layers st i l st1" "\<not> lc st1 i l" "\<not> ac st1 i"
    using maybe_DecompressLayer [OF assms(1-4)] by blast
  note d1 = table_isD [OF st1(2)]
  have l1: "l < mArrayLayerCount st1" "same_dims st1 other" "l < mArrayLayerCount other"
    using d1 assms(3) o(2) by (auto simp: same_dims_def)
  let ?cs = "map (\<lambda>m. (SubresourceRange a (l, 1) (m, 1), dat st1 i l m, val other i l m)) [0..<?M]"
  obtain st2 where st2: "foldR (merge_level other (\<lambda>_. f) a i l) [0..<?M] (st1, calls) = ok (st2, calls @ ?cs)"
    "levels_done n st1 i l [0..<?M] (\<lambda>m v. f v (val other i l m)) st2"
    using merge_levels [OF d1(1) assms(2) l1(1) st1(5,4) assms(5) o(1) l1(2) o(3) False, of f calls] unfolding d1(4) by blast
  note d2 = levels_done_dims [OF st2(2)]
  have l2: "l < mArrayLayerCount st2" "\<not> ac st2 i" "\<not> lc st2 i l" using d2 l1 st1 by auto
  obtain st' where st': "RecompressLayer i l st2 = ok st'" "table_is n st2 st' (val st2)" "other_layers st2 i l st'"
    "lc st' i l = const_layer st' i l"
    using finish_layer [OF d2(3) assms(2) l2, of True] by auto
  have run: "merge_layer T0 other (\<lambda>_. f) a i l (st, calls) = ok (st', calls @ ?cs)"
    using False st1(1) st2(1) st'(1) d1(4) LayerCompressed_ok [OF assms(1-4)] LayerCompressed_ok [OF o(1) assms(2) l1(3) o(3)]
    by (simp add: merge_layer_def)
  have "table_is n st1 st2 (where_upd (\<lambda>i' l' m'. i' = i \<and> l' = l \<and> m' \<in> set [0..<?M]) (\<lambda>_ _ m v. f v (val other i l m)) st1)"
    using d1(4) by (intro levels_done_where [OF st2(2) st1(5,4) l1(1)]) auto
  then have t2: "table_is n st st2 (where_upd (\<lambda>i' l' m'. i' = i \<and> l' = l \<and> True) (\<lambda>i l m v. f v (val other i l m)) st)"
    by (rule table_is_trans [OF st1(2)]) (simp add: where_upd_def d1(5))
  have "table_is n st st' (where_upd (\<lambda>i' l' m'. i' = i \<and> l' = l \<and> True) (\<lambda>i l m v. f v (val other i l m)) st)"
    by (rule table_is_trans [OF t2 st'(2) table_isD(5) [OF t2]])
  moreover have "other_layers st i l st'"
    using other_layers_trans [OF other_layers_trans [OF st1(3) levels_other_layers [OF st2(2)]] st'(3)] d1 d2 by simp
  moreover have "dat st1 i l m = val st i l m" if "m < ?M" for m
    using d1(5) [OF assms(2,3) that] st1(4,5) by (simp add: val_def)
  then have "expand ?cs = map (\<lambda>m. ((a, l, m), val st i l m, val other i l m)) [0..<?M]"
    using cells_single(1) [OF assms(5)] by (simp add: expand_def comp_def concat_map_singleton)
  ultimately show ?thesis using run st'(4) by blast
qed

definition at_cells2 :: "'a subresources \<Rightarrow> 'u subresources \<Rightarrow> aspect \<times> nat \<times> nat \<Rightarrow> (aspect \<times> nat \<times> nat) \<times> 'a \<times> 'u" where
  "at_cells2 st other = (\<lambda>(a, l, m). ((a, l, m), val st (idx a) l m, val other (idx a) l m))"

definition full :: "'a subresources \<Rightarrow> aspect \<Rightarrow> subresource_range" where
  "full st a = MakeFull a (mArrayLayerCount st) (mMipLevelCount st)"

lemma full_simps [simp]:
  "full_levels st (full st a)" "full_range st (full st a)" "layerCount (full st a) = mArrayLayerCount st"
  "aspects (full st a) = a" "in_range (full st a) l m \<longleftrightarrow> l < mArrayLayerCount st \<and> m < mMipLevelCount st"
  "aspect_cells (full st a) b = concat (map (\<lambda>l. map (\<lambda>m. (b, l, m)) [0..<mMipLevelCount st]) [0..<mArrayLayerCount st])"
  by (simp_all add: full_def MakeFull_def SubresourceRange_def full_levels_def full_range_def in_range_def aspect_cells_def layer_cells_def [abs_def])

text \<open>What a merge of one aspect establishes.\<close>

definition merge_post ::
  "nat \<Rightarrow> 'a subresources \<Rightarrow> 'u subresources \<Rightarrow> ('a \<Rightarrow> 'u \<Rightarrow> 'a) \<Rightarrow> aspect \<Rightarrow> 'a subresources \<Rightarrow> ('a, 'u) merge_calls \<Rightarrow> bool" where
  "merge_post n st other f a st' cs \<longleftrightarrow>
     table_is n st st' (where_upd (\<lambda>i l m. i = idx a) (\<lambda>i l m v. f v (val other i l m)) st) \<and>
     other_aspects n st (idx a) st' \<and> ac st' (idx a) = const_aspect st' (idx a) \<and>
     (mArrayLayerCount st = 1 \<longrightarrow> ac st' (idx a) \<or> \<not> lc st' (idx a) 0) \<and>
     expand cs = map (at_cells2 st other) (aspect_cells (full st a) a)"

lemma merge_aspect_compressed:
  assumes "storage_wf n st" "a \<in> single_aspects" "idx a < n" "storage_wf n other" "same_dims st other" "ac other (idx a)"
  shows "\<exists>st' cs. merge_aspect T0 other (\<lambda>_. f) a (st, calls) = ok (st', calls @ cs) \<and> merge_post n st other f a st' cs"
proof -
  let ?i = "idx a" and ?u = "inl other (idx a)" and ?r = "full st a"
  have u: "val other ?i l m = ?u" for l m using assms(6) by (simp add: val_def)
  have b: "baseArrayLayer ?r + layerCount ?r \<le> mArrayLayerCount st" "baseMipLevel ?r + levelCount ?r \<le> mMipLevelCount st"
    by (simp_all add: full_def MakeFull_def SubresourceRange_def)
  obtain st' cs where up: "update_aspect T0 ?r True True (\<lambda>_ v. f v ?u) a (st, []) = ok (st', [] @ cs)"
    "table_is n st st' (where_upd (\<lambda>i' l' m'. i' = ?i \<and> in_range ?r l' m') (\<lambda>_ _ _ v. f v ?u) st)"
    "aspect_result n st ?i True st'" "mArrayLayerCount st = 1 \<and> layerCount ?r \<noteq> 0 \<longrightarrow> ac st' ?i \<or> \<not> lc st' ?i 0"
    "expand cs = map (at_cell st) (aspect_cells ?r a)"
    using update_aspect_ok [OF assms(1,3,2) refl b, of T0 "\<lambda>v. f v ?u" "[]"] by auto
  have "Update T0 ?r (\<lambda>r v. f v ?u) st = ok (st', cs)"
    using up(1) single_aspect(2) [OF assms(2)]
    by (simp add: Update_def foldR_single full_def MakeFull_def SubresourceRange_def del: foldR.simps)
  then have "merge_aspect T0 other (\<lambda>_. f) a (st, calls) = ok (st', calls @ with_other ?u cs)"
    using assms(6) single_aspect(3) [OF assms(2)] aspect_compressed_ok [OF assms(4,3)] DataInline_ok [OF assms(4,3,6)]
    by (simp add: merge_aspect_def full_def)
  moreover have "merge_post n st other f a st' (with_other ?u cs)"
    unfolding merge_post_def
  proof (intro conjI)
    show "table_is n st st' (where_upd (\<lambda>i l m. i = ?i) (\<lambda>i l m v. f v (val other i l m)) st)"
      using up(2) u by (auto simp: table_is_def where_upd_def)
    show "expand (with_other ?u cs) = map (at_cells2 st other) (aspect_cells (full st a) a)"
      unfolding expand_with_other up(5) map_map
      using assms(6) by (intro map_cong refl) (auto simp: at_cell_def at_cells2_def val_def)
    show "mArrayLayerCount st = 1 \<longrightarrow> ac st' ?i \<or> \<not> lc st' ?i 0" using up(4) by simp
  qed (auto simp: up(3) [unfolded aspect_result_def])
  ultimately show ?thesis by blast
qed

lemma merge_aspect_layers:
  assumes "storage_wf n st" "a \<in> single_aspects" "idx a < n" "storage_wf n other" "same_dims st other" "\<not> ac other (idx a)" "tight n other"
  shows "\<exists>st' cs. merge_aspect T0 other (\<lambda>_. f) a (st, calls) = ok (st', calls @ cs) \<and> merge_post n st other f a st' cs"
proof -
  let ?i = "idx a" and ?ls = "[0..<mArrayLayerCount st]"
  let ?E = "\<lambda>l. map (\<lambda>m. ((a, l, m), val st ?i l m, val other ?i l m)) [0..<mMipLevelCount st]"
  let ?h = "\<lambda>i l m v. f v (val other i l m)"
  obtain st1 where st1: "(if ac st ?i then DecompressAspect T0 ?i st else ok st) = ok st1" "table_is n st st1 (val st)"
    "\<not> ac st1 ?i" "other_aspects n st ?i st1" using maybe_DecompressAspect [OF assms(1,3)] by blast
  note d1 = table_isD [OF st1(2)]
  have ls: "distinct ?ls" "set ?ls \<subseteq> {..<mArrayLayerCount st1}" using d1(3) by auto
  have "\<exists>st' cs. foldR (merge_layer T0 other (\<lambda>_. f) a ?i) ?ls (st1, calls) = ok (st', calls @ cs) \<and>
      table_is n st1 st' (where_upd (\<lambda>i' l' m'. i' = ?i \<and> l' \<in> set ?ls \<and> True) ?h st1) \<and>
      ac st' = ac st1 \<and> other_aspects n st1 ?i st' \<and> (\<forall>l \<in> set ?ls. lc st' ?i l = const_layer st' ?i l) \<and>
      expand cs = concat (map ?E ?ls)"
  proof (rule layer_loop [OF d1(1) assms(3) st1(3) ls, where Q = "(=)"])
    fix l s calls
    assume s: "storage_wf n s" "same_dims st1 s" "\<not> ac s ?i" "l \<in> set ?ls" "\<And>m. m < mMipLevelCount st1 \<Longrightarrow> val s ?i l m = val st1 ?i l m"
    have b: "l < mArrayLayerCount s" "same_dims s other" "mMipLevelCount s = mMipLevelCount st"
      using s(2,4) d1 assms(5) by (auto simp: same_dims_def)
    have "\<not> lc other ?i l" if "mArrayLayerCount s = 1"
    proof -
      have "mArrayLayerCount other = 1" "l = 0" using that b by (auto simp: same_dims_def)
      then show ?thesis using assms(3,6,7) by (auto simp: tight_def)
    qed
    moreover have "?E l = map (\<lambda>m. ((a, l, m), val s ?i l m, val other ?i l m)) [0..<mMipLevelCount s]"
      using s(4,5) d1(4) d1(5) [OF assms(3)] b(3) by simp
    ultimately show "\<exists>s' cs. merge_layer T0 other (\<lambda>_. f) a ?i l (s, calls) = ok (s', calls @ cs) \<and>
        table_is n s s' (where_upd (\<lambda>i' l' m'. i' = ?i \<and> l' = l \<and> True) ?h s) \<and> other_layers s ?i l s' \<and>
        lc s' ?i l = const_layer s' ?i l \<and> expand cs = ?E l"
      using merge_layer_ok [OF s(1) assms(3) b(1) s(3) assms(2) refl assms(4) b(2) assms(6), of T0 f calls] by simp
  qed
  then obtain st2 cs where st2: "foldR (merge_layer T0 other (\<lambda>_. f) a ?i) ?ls (st1, calls) = ok (st2, calls @ cs)"
      "table_is n st1 st2 (where_upd (\<lambda>i' l' m'. i' = ?i \<and> l' \<in> set ?ls \<and> True) ?h st1)" "ac st2 = ac st1" "other_aspects n st1 ?i st2"
      "\<And>l. l \<in> set ?ls \<Longrightarrow> lc st2 ?i l = const_layer st2 ?i l" "expand cs = concat (map ?E ?ls)" by blast
  note d2 = table_isD [OF st2(2)]
  have layers: "\<forall>l<mArrayLayerCount st2. lc st2 ?i l = const_layer st2 ?i l" using st2(5) d1(3) d2(3) by simp
  have nac2: "\<not> ac st2 ?i" using st2(3) st1(3) by simp
  obtain st' where st': "RecompressAspect ?i st2 = ok st'" "table_is n st2 st' (val st2)" "other_aspects n st2 ?i st'"
    "ac st' ?i = const_aspect st' ?i" "mArrayLayerCount st2 = 1 \<Longrightarrow> ac st' ?i \<or> \<not> lc st' ?i 0"
    using finish_aspect [OF d2(1) assms(3) nac2 layers, of True, unfolded if_True] by metis
  have run: "merge_aspect T0 other (\<lambda>_. f) a (st, calls) = ok (st', calls @ cs)"
    using single_aspect(3) [OF assms(2)] aspect_compressed_ok [OF assms(4,3)] aspect_compressed_ok [OF assms(1,3)]
      assms(6) st1(1) st2(1) st'(1) d1(3) by (simp add: merge_aspect_def)
  have t2: "table_is n st st2 (where_upd (\<lambda>i l m. i = ?i) ?h st)"
    by (rule table_is_trans [OF st1(2) st2(2)]) (simp add: where_upd_def d1(5))
  have "table_is n st st' (where_upd (\<lambda>i l m. i = ?i) ?h st)"
    by (rule table_is_trans [OF t2 st'(2) table_isD(5) [OF t2]])
  moreover have "other_aspects n st ?i st'"
    using other_aspects_trans [OF other_aspects_trans [OF st1(4) st2(4)] st'(3)] d1(3) d2(3) by simp
  moreover have "expand cs = map (at_cells2 st other) (aspect_cells (full st a) a)"
    by (simp add: st2(6) map_concat comp_def at_cells2_def)
  ultimately have "merge_post n st other f a st' cs" using st'(4,5) d1(3) d2(3) by (simp add: merge_post_def)
  with run show ?thesis by blast
qed

end
