(* ===== verification/Subresource_Table.thy ===== *)
theory Subresource_Table
  imports Subresource_Spec
begin

unbundle bit_operations_syntax

text \<open>
  What clients of \<open>SubresourceStorage\<close> rely on: the constructor, \<open>Update\<close>, \<open>Merge\<close> and
  \<open>Iterate\<close> act on the table of values that \<open>Get\<close> reads, whatever is compressed.
\<close>

section \<open>Merging all aspects\<close>

definition merge_loop_inv ::
  "nat \<Rightarrow> 'a subresources \<Rightarrow> 'u subresources \<Rightarrow> ('a \<Rightarrow> 'u \<Rightarrow> 'a) \<Rightarrow> aspect list \<Rightarrow> 'a subresources \<times> ('a, 'u) merge_calls \<Rightarrow> bool" where
  "merge_loop_inv n st other f ys = (\<lambda>(s, calls).
     table_is n st s (where_upd (\<lambda>i l m. i \<in> idx ` set ys) (\<lambda>i l m v. f v (val other i l m)) st) \<and>
     expand calls = map (at_cells2 st other) (concat (map (aspect_cells (full st (mAspects st))) ys)) \<and>
     (\<forall>a \<in> set ys. ac s (idx a) = const_aspect s (idx a)) \<and> (tight n st \<longrightarrow> tight n s))"

lemma merge_aspect_ok:
  assumes "storage_wf n st" "a \<in> single_aspects" "idx a < n" "storage_wf n other" "same_dims st other" "tight n other"
  shows "\<exists>st' cs. merge_aspect T0 other (\<lambda>_. f) a (st, calls) = ok (st', calls @ cs) \<and> merge_post n st other f a st' cs"
  using merge_aspect_compressed [OF assms(1-5)] merge_aspect_layers [OF assms(1-5) _ assms(6)] by (cases "ac other (idx a)") blast+

lemma merge_loop_step:
  assumes wf: "storage_wf n st" and o: "storage_wf n other" "same_dims st other" "tight n other"
    and split: "IterateEnumMask (mAspects st) = ys @ a # zs" and inv: "merge_loop_inv n st other f ys s"
  shows "\<exists>s'. merge_aspect T0 other (\<lambda>_. f) a s = ok s' \<and> merge_loop_inv n st other f (ys @ [a]) s'"
proof -
  let ?h = "\<lambda>i l m v. f v (val other i l m)"
  obtain s1 calls where s: "s = (s1, calls)" by (cases s)
  note iv = inv [unfolded s merge_loop_inv_def prod.case]
  have t1: "table_is n st s1 (where_upd (\<lambda>i l m. i \<in> idx ` set ys) ?h st)" using iv by blast
  note d1 = table_isD [OF t1]
  have sub: "set (ys @ a # zs) = set (IterateEnumMask (mAspects st))" using split by simp
  have a: "a \<in> single_aspects" "idx a < n" using mask_aspects [OF storage_wfD(1) [OF wf]] sub by auto
  have new: "a \<notin> set ys" using distinct_mask [of "mAspects st"] split by simp
  have fresh: "idx a \<notin> idx ` set ys"
    using mask_aspects(3) [OF storage_wfD(1) [OF wf]] sub new by (auto dest: inj_onD)
  have dims: "same_dims s1 other" using d1 o(2) by (simp add: same_dims_def)
  obtain s2 cs where s2: "merge_aspect T0 other (\<lambda>_. f) a (s1, calls) = ok (s2, calls @ cs)" "merge_post n s1 other f a s2 cs"
    using merge_aspect_ok [OF d1(1) a o(1) dims o(3), of T0 f calls] by blast
  then have t2: "table_is n s1 s2 (where_upd (\<lambda>i l m. i = idx a) ?h s1)" and oa: "other_aspects n s1 (idx a) s2"
    and c2: "ac s2 (idx a) = const_aspect s2 (idx a)" and tg: "mArrayLayerCount s1 = 1 \<longrightarrow> ac s2 (idx a) \<or> \<not> lc s2 (idx a) 0"
    and e2: "expand cs = map (at_cells2 s1 other) (aspect_cells (full s1 a) a)" by (auto simp: merge_post_def)
  note d2 = table_isD [OF t2]
  have unseen: "val s1 (idx a) l m = val st (idx a) l m" if "l < mArrayLayerCount st" "m < mMipLevelCount st" for l m
    using d1(5) [OF a(2) that] fresh by (simp add: where_upd_def)
  have "table_is n st s2 (where_upd (\<lambda>i l m. i \<in> idx ` set (ys @ [a])) ?h st)"
    using d1(5) fresh by (intro table_is_trans [OF t1 t2]) (auto simp: where_upd_def)
  moreover have "map (at_cells2 s1 other) (aspect_cells (full s1 a) a) = map (at_cells2 st other) (aspect_cells (full st (mAspects st)) a)"
    using unseen d1(3,4) by (auto simp: at_cells2_def)
  moreover have "ac s2 (idx c) = const_aspect s2 (idx c)" if c: "c \<in> set (ys @ [a])" for c
  proof (cases "c = a")
    case False
    then have cy: "c \<in> set ys" using c by simp
    then have "idx c \<in> idx ` set ys" by (rule imageI)
    then have "idx c \<noteq> idx a" using fresh by metis
    then have i: "idx c < n" "idx c \<noteq> idx a" "c \<in> set ys"
      using mask_aspects(2) [OF storage_wfD(1) [OF wf]] sub cy by auto
    have "const_aspect s2 (idx c) = const_aspect s1 (idx c)"
      using d2 i by (intro const_aspect_cong [OF _ _ _ d1(1)]) (auto simp: where_upd_def)
    then show ?thesis using iv i oa by (simp add: other_aspects_def)
  qed (simp add: c2)
  moreover have "tight n s2" if "tight n st" using iv that tg by (intro tight_step [OF _ oa d2(3)]) auto
  ultimately have "merge_loop_inv n st other f (ys @ [a]) (s2, calls @ cs)"
    using iv e2 by (auto simp: merge_loop_inv_def)
  then show ?thesis using s s2(1) by blast
qed

lemma Merge_ok:
  assumes "storage_wf n st" "storage_wf n other" "same_dims st other" "tight n other"
  shows "\<exists>st' calls. Merge T0 other (\<lambda>_. f) st = ok (st', calls) \<and> merge_loop_inv n st other f (IterateEnumMask (mAspects st)) (st', calls)"
proof -
  have start: "merge_loop_inv n st other f [] (st, [])"
  proof -
    have "where_upd (\<lambda>i l m. i \<in> idx ` set []) (\<lambda>i l m v. f v (val other i l m)) st = val st" by (simp add: where_upd_def fun_eq_iff)
    then show ?thesis using table_is_refl [OF assms(1)] by (auto simp: merge_loop_inv_def)
  qed
  have "\<exists>s'. foldR (merge_aspect T0 other (\<lambda>_. f)) (IterateEnumMask (mAspects st)) (st, []) = ok s' \<and>
      merge_loop_inv n st other f (IterateEnumMask (mAspects st)) s'"
    by (rule foldR_invariant [where P = "merge_loop_inv n st other f", OF start]) (rule merge_loop_step [OF assms])
  then show ?thesis using assms(3) by (auto simp: Merge_def same_dims_def)
qed

section \<open>Construction\<close>

lemma SubresourceStorage_ok:
  assumes "GetAspectCount k = ok n" "0 < L" "L \<le> 65535" "0 < M" "M \<le> 255"
  shows "\<exists>st. SubresourceStorage k L M v = ok st \<and> storage_wf n st \<and> tight n st \<and> mAspects st = k \<and> mArrayLayerCount st = L \<and>
    mMipLevelCount st = M \<and> (\<forall>i<n. ac st i \<and> inl st i = v)"
proof -
  from aspect_count_le [OF assms(1)] show ?thesis
  proof
    assume n: "n = 1"
    let ?st = "\<lparr> mAspects = k, mMipLevelCount = M, mArrayLayerCount = L, mAspectCompressed = [Some True, None],
      mInlineAspectData = [Some v, None], mLayerCompressed = None, mData = None \<rparr>"
    have "SubresourceStorage k L M v = ok ?st"
      using assms n by (simp add: SubresourceStorage_def kMaxAspects_def DataInline_write_def aspect_compressed_def init_read_def
          vec_at_def vec_set_def numeral_2_eq_2)
    then show ?thesis using assms n
      by (auto simp: storage_wf_def aspect_wf_def ac_def inl_def tight_def)
  next
    assume n: "n = 2"
    let ?st = "\<lparr> mAspects = k, mMipLevelCount = M, mArrayLayerCount = L, mAspectCompressed = [Some True, Some True],
      mInlineAspectData = [Some v, Some v], mLayerCompressed = None, mData = None \<rparr>"
    have "SubresourceStorage k L M v = ok ?st"
      using assms n by (simp add: SubresourceStorage_def kMaxAspects_def DataInline_write_def aspect_compressed_def init_read_def
          vec_at_def vec_set_def numeral_2_eq_2)
    then show ?thesis using assms n
      by (auto simp: storage_wf_def aspect_wf_def ac_def inl_def tight_def less_2_cases_iff)
  qed
qed

section \<open>Iterating\<close>

lemma foldR_collect:
  assumes "\<And>x cs. x \<in> set xs \<Longrightarrow> \<exists>ds. f x cs = ok (cs @ ds) \<and> expand ds = E x"
  shows "\<exists>ds. foldR f xs cs = ok (cs @ ds) \<and> expand ds = concat (map E xs)"
  using assms
proof (induction xs arbitrary: cs)
  case (Cons x xs)
  obtain ds where ds: "f x cs = ok (cs @ ds)" "expand ds = E x" using Cons.prems [of x cs] by auto
  moreover obtain ds' where "foldR f xs (cs @ ds) = ok ((cs @ ds) @ ds')" "expand ds' = concat (map E xs)"
    using Cons.IH [of "cs @ ds"] Cons.prems by auto
  ultimately show ?case by (intro exI [of _ "ds @ ds'"]) simp
qed simp

lemma iterate_layer_ok:
  assumes "storage_wf n st" "a \<in> single_aspects" "idx a < n" "\<not> ac st (idx a)" "l < mArrayLayerCount st"
  shows "\<exists>ds. iterate_layer st a (idx a) l cs = ok (cs @ ds) \<and> expand ds = map (\<lambda>m. at_cell st (a, l, m)) [0..<mMipLevelCount st]"
proof (cases "lc st (idx a) l")
  case True
  then show ?thesis
    using assms storage_wfD(6) [OF assms(1)] cells_single(2) [OF assms(2)]
    by (simp add: iterate_layer_def storage_ok GetFullLayerRange_def at_cell_def val_def)
next
  case False
  let ?f = "\<lambda>level calls. bindR (MakeSingle a l level) (\<lambda>rng. bindR (Data st (idx a) l level) (\<lambda>v. ok (calls @ [(rng, v)])))"
  have "\<exists>ds. foldR ?f [0..<mMipLevelCount st] cs = ok (cs @ ds) \<and>
      expand ds = concat (map (\<lambda>m. [at_cell st (a, l, m)]) [0..<mMipLevelCount st])"
    using False assms cells_single(1) [OF assms(2), of l] single_aspect(1) [OF assms(2)]
    by (intro foldR_collect) (auto simp: MakeSingle_def Data_ok at_cell_def val_def)
  then show ?thesis using False assms by (simp add: iterate_layer_def LayerCompressed_ok concat_map_singleton)
qed

lemma iterate_aspect_ok:
  assumes "storage_wf n st" "a \<in> single_aspects" "idx a < n"
  shows "\<exists>ds. iterate_aspect st a cs = ok (cs @ ds) \<and> expand ds = map (at_cell st) (aspect_cells (full st (mAspects st)) a)"
proof (cases "ac st (idx a)")
  case True
  then show ?thesis
    using assms cells_single(3) [OF assms(2)] single_aspect(3) [OF assms(2)]
    by (simp add: iterate_aspect_def storage_ok at_cell_def val_def map_concat comp_def)
next
  case False
  have "\<exists>ds. foldR (iterate_layer st a (idx a)) [0..<mArrayLayerCount st] cs = ok (cs @ ds) \<and>
      expand ds = concat (map (\<lambda>l. map (\<lambda>m. at_cell st (a, l, m)) [0..<mMipLevelCount st]) [0..<mArrayLayerCount st])"
    using iterate_layer_ok [OF assms False] by (intro foldR_collect) auto
  then show ?thesis
    using False assms single_aspect(3) [OF assms(2)] by (simp add: iterate_aspect_def storage_ok map_concat comp_def)
qed

lemma Iterate_ok:
  assumes "storage_wf n st"
  shows "\<exists>calls. Iterate st = ok calls \<and> expand calls = map (at_cell st) (cells (full st (mAspects st)))"
proof -
  have a: "a \<in> single_aspects" "idx a < n" if "a \<in> set (IterateEnumMask (mAspects st))" for a
    using mask_aspects [OF storage_wfD(1) [OF assms]] that by auto
  have "\<exists>ds. foldR (iterate_aspect st) (IterateEnumMask (mAspects st)) [] = ok ([] @ ds) \<and>
      expand ds = concat (map (\<lambda>a. map (at_cell st) (aspect_cells (full st (mAspects st)) a)) (IterateEnumMask (mAspects st)))"
    using iterate_aspect_ok [OF assms a] by (intro foldR_collect) auto
  then show ?thesis by (simp add: Iterate_def cells_aspects map_concat comp_def)
qed

section \<open>The contract\<close>

definition storage_inv :: "'a subresources \<Rightarrow> bool" where
  "storage_inv st \<longleftrightarrow> (\<exists>n. storage_wf n st \<and> tight n st)"

text \<open>The subresources of a storage, and the calls written with the results of \<open>Get\<close>.\<close>

definition all_cells :: "'a subresources \<Rightarrow> (aspect \<times> nat \<times> nat) list" where
  "all_cells st = cells (MakeFull (mAspects st) (mArrayLayerCount st) (mMipLevelCount st))"

definition visited :: "(subresource_range \<times> 'b) list \<Rightarrow> ((aspect \<times> nat \<times> nat) \<times> 'b res) list" where
  "visited calls = map (\<lambda>(c, v). (c, ok v)) (expand calls)"

lemma cells_product:
  "cells r = List.product (IterateEnumMask (aspects r)) (List.product [baseArrayLayer r..<baseArrayLayer r + layerCount r]
     [baseMipLevel r..<baseMipLevel r + levelCount r])"
  by (simp add: cells_def product_concat_map map_concat comp_def)

lemma cells_iff:
  "(a, l, m) \<in> set (cells r) \<longleftrightarrow> a \<in> set (IterateEnumMask (aspects r)) \<and> in_range r l m"
  by (auto simp: cells_product in_range_def)

lemma all_cells_iff:
  "(a, l, m) \<in> set (all_cells st) \<longleftrightarrow> a \<in> set (IterateEnumMask (mAspects st)) \<and> l < mArrayLayerCount st \<and> m < mMipLevelCount st"
  by (simp add: all_cells_def cells_product MakeFull_def SubresourceRange_def)

lemma distinct_cells: "distinct (cells r)"
  by (simp add: cells_product distinct_product distinct_mask)

lemma visited_at_cell:
  assumes "storage_wf n st" "set cs \<subseteq> set (all_cells st)" "expand calls = map (at_cell st) cs"
  shows "visited calls = map (\<lambda>(a, l, m). ((a, l, m), Get st a l m)) cs"
  unfolding visited_def assms(3) map_map using assms(2) Get_ok [OF assms(1)]
  by (intro map_cong refl) (auto simp: at_cell_def all_cells_iff subset_eq)

lemma storage_inv_new:
  assumes "GetAspectCount k = ok n" "0 < L" "L \<le> 65535" "0 < M" "M \<le> 255"
  shows "\<exists>st. SubresourceStorage k L M v = ok st \<and> storage_inv st \<and> mAspects st = k \<and> mArrayLayerCount st = L \<and> mMipLevelCount st = M \<and>
    (\<forall>(a, l, m) \<in> set (all_cells st). Get st a l m = ok v)"
proof -
  obtain st where st: "SubresourceStorage k L M v = ok st" "storage_wf n st" "tight n st" "mAspects st = k" "mArrayLayerCount st = L"
    "mMipLevelCount st = M" "\<forall>i<n. ac st i \<and> inl st i = v" using SubresourceStorage_ok [OF assms, of v] by blast
  moreover have "Get st a l m = ok v" if "(a, l, m) \<in> set (all_cells st)" for a l m
    using that Get_ok [OF st(2), of a l m] st(7) mask_aspects(2) [OF assms(1)] st(4) by (auto simp: all_cells_iff val_def)
  ultimately show ?thesis by (auto simp: storage_inv_def)
qed

lemma range_in_storage:
  assumes "range_ok st r"
  shows "set (cells r) \<subseteq> set (all_cells st)"
proof
  fix c assume "c \<in> set (cells r)"
  moreover obtain a l m where "c = (a, l, m)" by (cases c)
  ultimately show "c \<in> set (all_cells st)" using assms by (auto simp: cells_iff all_cells_iff in_range_def range_ok_def)
qed

text \<open>An aspect is compressed exactly when its values agree.\<close>

definition compressed_iff_uniform :: "'a subresources \<Rightarrow> aspect \<Rightarrow> bool" where
  "compressed_iff_uniform st a \<longleftrightarrow> IsAspectCompressedForTesting st a =
     ok (\<forall>l<mArrayLayerCount st. \<forall>m<mMipLevelCount st. Get st a l m = Get st a 0 0)"

lemma compressed_iff_uniformI:
  assumes "storage_wf n st" "a \<in> set (IterateEnumMask (mAspects st))" "ac st (idx a) = const_aspect st (idx a)"
  shows "compressed_iff_uniform st a"
proof -
  have a: "a \<in> single_aspects" "idx a < n" using mask_aspects [OF storage_wfD(1) [OF assms(1)]] assms(2) by auto
  have "(Get st a l m = Get st a 0 0) = (val st (idx a) l m = val st (idx a) 0 0)"
    if "l < mArrayLayerCount st" "m < mMipLevelCount st" for l m
    using Get_ok [OF assms(1,2)] storage_wfD(4,6) [OF assms(1)] that by simp
  then have "const_aspect st (idx a) \<longleftrightarrow> (\<forall>l<mArrayLayerCount st. \<forall>m<mMipLevelCount st. Get st a l m = Get st a 0 0)"
    unfolding const_aspect_def by blast
  then show ?thesis using assms(3) aspect_compressed_ok [OF assms(1) a(2)] single_aspect(3) [OF a(1)]
    by (simp add: compressed_iff_uniform_def IsAspectCompressedForTesting_def)
qed

section \<open>Properties\<close>

lemma Update_pointwise:
  assumes "storage_inv st" "range_ok st r" "layerCount r \<noteq> 0"
  shows "\<exists>st' calls. Update T0 r (\<lambda>_. g) st = ok (st', calls) \<and> storage_inv st' \<and> same_dims st st' \<and>
    (\<forall>(a, l, m) \<in> set (all_cells st). Get st' a l m =
       (if (a, l, m) \<in> set (cells r) then bindR (Get st a l m) (\<lambda>v. ok (g v)) else Get st a l m)) \<and>
    visited calls = map (\<lambda>(a, l, m). ((a, l, m), Get st a l m)) (cells r) \<and> distinct (cells r) \<and>
    (full_range st r \<longrightarrow> (\<forall>a \<in> set (IterateEnumMask (aspects r)). compressed_iff_uniform st' a))"
proof -
  obtain n where wf: "storage_wf n st" and tg: "tight n st" using assms(1) by (auto simp: storage_inv_def)
  obtain st' calls where up: "Update T0 r (\<lambda>_. g) st = ok (st', calls)"
    and inv: "aspect_loop_inv n st r g (IterateEnumMask (aspects r)) (st', calls)" using Update_ok [OF wf assms(2)] by blast
  note iv = inv [unfolded aspect_loop_inv_def prod.case]
  have t: "table_is n st st' (where_upd (\<lambda>i l m. i \<in> idx ` set (IterateEnumMask (aspects r)) \<and> in_range r l m) (\<lambda>_ _ _. g) st)"
    using iv by blast
  note d = table_isD [OF t]
  have cells: "all_cells st' = all_cells st" using d by (simp add: all_cells_def)
  have sub: "set (IterateEnumMask (aspects r)) \<subseteq> set (IterateEnumMask (mAspects st))" using assms(2) by (simp add: range_ok_def)
  have "Get st' a l m = (if (a, l, m) \<in> set (cells r) then bindR (Get st a l m) (\<lambda>v. ok (g v)) else Get st a l m)"
    if c: "(a, l, m) \<in> set (all_cells st)" for a l m
  proof -
    have b: "a \<in> set (IterateEnumMask (mAspects st))" "l < mArrayLayerCount st" "m < mMipLevelCount st" "idx a < n"
      using c mask_aspects(2) [OF storage_wfD(1) [OF wf]] by (auto simp: all_cells_iff)
    have "idx a \<in> idx ` set (IterateEnumMask (aspects r)) \<longleftrightarrow> a \<in> set (IterateEnumMask (aspects r))"
      using inj_on_image_mem_iff [OF mask_aspects(3) [OF storage_wfD(1) [OF wf]] b(1) sub] .
    then show ?thesis using Get_ok [OF d(1), of a l m] Get_ok [OF wf b(1-3)] d(5) [OF b(4,2,3)] b d(2-4)
      by (simp add: cells_iff where_upd_def)
  qed
  moreover have "visited calls = map (\<lambda>(a, l, m). ((a, l, m), Get st a l m)) (cells r)"
    using iv by (intro visited_at_cell [OF wf range_in_storage [OF assms(2)]]) (simp add: cells_aspects)
  moreover have "compressed_iff_uniform st' a" if "full_range st r" "a \<in> set (IterateEnumMask (aspects r))" for a
    using iv that sub d(2) by (intro compressed_iff_uniformI [OF d(1)]) auto
  moreover have "storage_inv st'" "same_dims st st'" using iv tg assms(3) d by (auto simp: storage_inv_def same_dims_def)
  ultimately show ?thesis using up distinct_cells by (intro exI [of _ st'] exI [of _ calls]) auto
qed

text \<open>
  C23. Updating a range of a storage with a function of the data returns without undefined
  behaviour, applies the function to exactly the subresources of the range and leaves the others;
  the closure sees every subresource of the range once, in the order of aspects, layers and
  levels, with its value before the update; after an update of the full range an aspect is
  compressed exactly when all its values agree.
\<close>

theorem Update_is_pointwise:
  assumes "storage_inv st" "range_ok st r" "layerCount r \<noteq> 0"
  shows "\<exists>st' calls. Update T0 r (\<lambda>_. g) st = ok (st', calls) \<and> storage_inv st' \<and> same_dims st st' \<and>
    (\<forall>(a, l, m) \<in> set (all_cells st). Get st' a l m =
       (if (a, l, m) \<in> set (cells r) then bindR (Get st a l m) (\<lambda>v. ok (g v)) else Get st a l m)) \<and>
    visited calls = map (\<lambda>(a, l, m). ((a, l, m), Get st a l m)) (cells r) \<and> distinct (cells r) \<and>
    (full_range st r \<longrightarrow> (\<forall>a \<in> set (IterateEnumMask (aspects r)). compressed_iff_uniform st' a))"
  using assms by (rule Update_pointwise)

theorem Update_is_pointwise_witness:
  "\<exists>st st' calls. SubresourceStorage 6 2 3 (7 :: nat) = ok st \<and>
     Update 0 (SubresourceRange 4 (1, 1) (0, 2)) (\<lambda>_. Suc) st = ok (st', calls) \<and>
     Get st' 4 1 1 = ok 8 \<and> Get st' 4 1 2 = ok 7 \<and> Get st' 2 1 1 = ok 7 \<and>
     visited calls = [((4, 1, 0), ok 7), ((4, 1, 1), ok 7)]"
proof -
  let ?r = "SubresourceRange 4 (1, 1) (0, 2)"
  have masks: "IterateEnumMask 6 = [2, 4]" "IterateEnumMask 4 = [4]" "GetAspectCount 6 = ok 2"
    by (simp_all add: IterateEnumMask_def upt6 bit_Suc_0_iff GetAspectCount_def aspect_defs)
  obtain st where st: "SubresourceStorage 6 2 3 (7 :: nat) = ok st" "storage_inv st" "mAspects st = 6" "mArrayLayerCount st = 2"
    "mMipLevelCount st = 3" "\<forall>(a, l, m) \<in> set (all_cells st). Get st a l m = ok 7" using storage_inv_new [OF masks(3), of 2 3 "7 :: nat"] by auto
  have get: "Get st a l m = ok 7" if "a = 2 \<or> a = 4" "l < 2" "m < 3" for a l m
    using bspec [OF st(6), of "(a, l, m)"] st(3-5) that masks(1) by (auto simp: all_cells_iff)
  have "range_ok st ?r" using st masks by (simp add: range_ok_def SubresourceRange_def)
  from Update_is_pointwise [OF st(2) this, of 0 Suc] obtain st' calls where up: "Update 0 ?r (\<lambda>_. Suc) st = ok (st', calls)"
    and g: "\<forall>(a, l, m) \<in> set (all_cells st). Get st' a l m =
       (if (a, l, m) \<in> set (cells ?r) then bindR (Get st a l m) (\<lambda>v. ok (Suc v)) else Get st a l m)"
    and v: "visited calls = map (\<lambda>(a, l, m). ((a, l, m), Get st a l m)) (cells ?r)"
    by (auto simp: SubresourceRange_def)
  have c: "cells ?r = [(4, 1, 0), (4, 1, 1)]" using masks by (simp add: cells_def SubresourceRange_def upt_conv_Cons)
  have "(4, 1, 1) \<in> set (all_cells st)" "(4, 1, 2) \<in> set (all_cells st)" "(2, 1, 1) \<in> set (all_cells st)"
    using st masks by (simp_all add: all_cells_iff)
  note gs = bspec [OF g this(1), unfolded prod.case c] bspec [OF g this(2), unfolded prod.case c] bspec [OF g this(3), unfolded prod.case c]
  have "Get st' 4 1 1 = ok 8" "Get st' 4 1 2 = ok 7" "Get st' 2 1 1 = ok 7" using gs get by simp_all
  moreover have "visited calls = [((4, 1, 0), ok 7), ((4, 1, 1), ok 7)]" unfolding v c using get by simp
  ultimately show ?thesis using st(1) up by blast
qed

lemma Merge_pointwise:
  assumes "storage_inv st" "storage_inv other" "same_dims st other"
  shows "\<exists>st' calls. Merge T0 other (\<lambda>_. f) st = ok (st', calls) \<and> storage_inv st' \<and> same_dims st st' \<and>
    (\<forall>(a, l, m) \<in> set (all_cells st). Get st' a l m = bindR (Get st a l m) (\<lambda>v. bindR (Get other a l m) (\<lambda>u. ok (f v u)))) \<and>
    map fst (expand calls) = all_cells st \<and> distinct (all_cells st) \<and>
    (\<forall>((a, l, m), v, u) \<in> set (expand calls). Get st a l m = ok v \<and> Get other a l m = ok u) \<and>
    (\<forall>a \<in> set (IterateEnumMask (mAspects st)). compressed_iff_uniform st' a)"
proof -
  obtain n n' where wf: "storage_wf n st" and tg: "tight n st" and wo: "storage_wf n' other" "tight n' other"
    using assms(1,2) by (auto simp: storage_inv_def)
  then have "n' = n" using storage_wfD(1) [OF wf] storage_wfD(1) [OF wo(1)] assms(3) by (simp add: same_dims_def)
  then have o: "storage_wf n other" "tight n other" using wo by auto
  obtain st' calls where up: "Merge T0 other (\<lambda>_. f) st = ok (st', calls)"
    and inv: "merge_loop_inv n st other f (IterateEnumMask (mAspects st)) (st', calls)" using Merge_ok [OF wf o(1) assms(3) o(2)] by blast
  note iv = inv [unfolded merge_loop_inv_def prod.case mask_aspects(2) [OF storage_wfD(1) [OF wf]]]
  have t: "table_is n st st' (where_upd (\<lambda>i l m. i \<in> {..<n}) (\<lambda>i l m v. f v (val other i l m)) st)" using iv by blast
  note d = table_isD [OF t]
  have gets: "Get st a l m = ok (val st (idx a) l m)" "Get other a l m = ok (val other (idx a) l m)"
    "Get st' a l m = ok (f (val st (idx a) l m) (val other (idx a) l m))" if c: "(a, l, m) \<in> set (all_cells st)" for a l m
  proof -
    have b: "a \<in> set (IterateEnumMask (mAspects st))" "l < mArrayLayerCount st" "m < mMipLevelCount st" "idx a < n"
      using c mask_aspects(2) [OF storage_wfD(1) [OF wf]] by (auto simp: all_cells_iff)
    show "Get st a l m = ok (val st (idx a) l m)" by (rule Get_ok [OF wf b(1-3)])
    show "Get other a l m = ok (val other (idx a) l m)" using Get_ok [OF o(1), of a l m] b assms(3) by (simp add: same_dims_def)
    show "Get st' a l m = ok (f (val st (idx a) l m) (val other (idx a) l m))"
      using Get_ok [OF d(1), of a l m] d(5) [OF b(4,2,3)] b d(2-4) by (simp add: where_upd_def)
  qed
  have ex: "expand calls = map (at_cells2 st other) (all_cells st)"
    using iv by (simp add: all_cells_def cells_aspects full_def MakeFull_def SubresourceRange_def)
  have fsts: "map fst (expand calls) = all_cells st" unfolding ex map_map
    by (rule map_idI) (auto simp: at_cells2_def)
  have "Get st a l m = ok v \<and> Get other a l m = ok u" if "((a, l, m), v, u) \<in> set (expand calls)" for a l m v u
  proof -
    have "(a, l, m) \<in> set (all_cells st)" "v = val st (idx a) l m" "u = val other (idx a) l m"
      using that unfolding ex by (auto simp: at_cells2_def)
    then show ?thesis using gets by simp
  qed
  moreover have "compressed_iff_uniform st' a" if "a \<in> set (IterateEnumMask (mAspects st))" for a
    using iv that d(2) by (intro compressed_iff_uniformI [OF d(1)]) auto
  moreover have "storage_inv st'" "same_dims st st'" using iv tg d by (auto simp: storage_inv_def same_dims_def)
  ultimately show ?thesis using up fsts gets distinct_cells
    by (intro exI [of _ st'] exI [of _ calls]) (auto simp: all_cells_def [of st])
qed

text \<open>
  C24. Merging a storage with another of the same dimensions, in whatever way either is
  compressed, returns without undefined behaviour and combines the two values of every
  subresource; the closure sees every subresource once with both values, and afterwards an aspect
  is compressed exactly when all its values agree.
\<close>

theorem Merge_is_pointwise:
  assumes "storage_inv st" "storage_inv other" "same_dims st other"
  shows "\<exists>st' calls. Merge T0 other (\<lambda>_. f) st = ok (st', calls) \<and> storage_inv st' \<and> same_dims st st' \<and>
    (\<forall>(a, l, m) \<in> set (all_cells st). Get st' a l m = bindR (Get st a l m) (\<lambda>v. bindR (Get other a l m) (\<lambda>u. ok (f v u)))) \<and>
    map fst (expand calls) = all_cells st \<and> distinct (all_cells st) \<and>
    (\<forall>((a, l, m), v, u) \<in> set (expand calls). Get st a l m = ok v \<and> Get other a l m = ok u) \<and>
    (\<forall>a \<in> set (IterateEnumMask (mAspects st)). compressed_iff_uniform st' a)"
  using assms by (rule Merge_pointwise)

theorem Merge_is_pointwise_witness:
  "\<exists>st other st' calls. SubresourceStorage 1 1 2 (7 :: nat) = ok st \<and> SubresourceStorage 1 1 2 (5 :: nat) = ok other \<and>
     Merge 0 other (\<lambda>_. (+)) st = ok (st', calls) \<and> Get st' 1 0 1 = ok 12"
proof -
  have masks: "IterateEnumMask 1 = [1]" "GetAspectCount 1 = ok 1"
    by (simp_all add: IterateEnumMask_def upt6 bit_Suc_0_iff GetAspectCount_def aspect_defs)
  obtain st where st: "SubresourceStorage 1 1 2 (7 :: nat) = ok st" "storage_inv st" "mAspects st = 1" "mArrayLayerCount st = 1"
    "mMipLevelCount st = 2" "\<forall>(a, l, m) \<in> set (all_cells st). Get st a l m = ok 7" using storage_inv_new [OF masks(2), of 1 2 "7 :: nat"] by auto
  obtain other where o: "SubresourceStorage 1 1 2 (5 :: nat) = ok other" "storage_inv other" "mAspects other = 1" "mArrayLayerCount other = 1"
    "mMipLevelCount other = 2" "\<forall>(a, l, m) \<in> set (all_cells other). Get other a l m = ok 5" using storage_inv_new [OF masks(2), of 1 2 "5 :: nat"] by auto
  have in_both: "(1, 0, 1) \<in> set (all_cells st)" "(1, 0, 1) \<in> set (all_cells other)" using st o masks by (simp_all add: all_cells_iff)
  have "same_dims st other" using st o by (simp add: same_dims_def)
  from Merge_is_pointwise [OF st(2) o(2) this, of 0 "(+)"] obtain st' calls where m: "Merge 0 other (\<lambda>_. (+)) st = ok (st', calls)"
    "\<forall>(a, l, m) \<in> set (all_cells st). Get st' a l m = bindR (Get st a l m) (\<lambda>v. bindR (Get other a l m) (\<lambda>u. ok (v + u)))" by blast
  then have "Get st' 1 0 1 = ok 12"
    using bspec [OF m(2) in_both(1)] bspec [OF st(6) in_both(1)] bspec [OF o(6) in_both(2)] by simp
  with st(1) o(1) m(1) show ?thesis by blast
qed

text \<open>
  Iterating over a storage calls the closure on ranges that together hold every subresource
  exactly once, each with the value that \<open>Get\<close> returns for it.
\<close>

theorem Iterate_visits_all:
  assumes "storage_inv st"
  shows "\<exists>calls. Iterate st = ok calls \<and> visited calls = map (\<lambda>(a, l, m). ((a, l, m), Get st a l m)) (all_cells st) \<and> distinct (all_cells st)"
proof -
  obtain n where wf: "storage_wf n st" using assms by (auto simp: storage_inv_def)
  obtain calls where it: "Iterate st = ok calls" "expand calls = map (at_cell st) (all_cells st)"
    using Iterate_ok [OF wf] by (auto simp: all_cells_def full_def)
  then have "visited calls = map (\<lambda>(a, l, m). ((a, l, m), Get st a l m)) (all_cells st)" by (intro visited_at_cell [OF wf]) auto
  with it distinct_cells show ?thesis by (auto simp: all_cells_def)
qed

theorem Iterate_visits_all_witness:
  "\<exists>st calls. SubresourceStorage 24 1 1 (7 :: nat) = ok st \<and> Iterate st = ok calls \<and>
     visited calls = [((8, 0, 0), ok 7), ((16, 0, 0), ok 7)]"
proof -
  have masks: "IterateEnumMask 24 = [8, 16]" "GetAspectCount 24 = ok 2"
    by (simp_all add: IterateEnumMask_def upt6 bit_Suc_0_iff GetAspectCount_def aspect_defs)
  obtain st where st: "SubresourceStorage 24 1 1 (7 :: nat) = ok st" "storage_inv st" "mAspects st = 24" "mArrayLayerCount st = 1"
    "mMipLevelCount st = 1" "\<forall>(a, l, m) \<in> set (all_cells st). Get st a l m = ok 7" using storage_inv_new [OF masks(2), of 1 1 "7 :: nat"] by auto
  have c: "all_cells st = [(8, 0, 0), (16, 0, 0)]" using st masks by (simp add: all_cells_def cells_def MakeFull_def SubresourceRange_def)
  from Iterate_visits_all [OF st(2)] obtain calls where "Iterate st = ok calls"
    "visited calls = map (\<lambda>(a, l, m). ((a, l, m), Get st a l m)) (all_cells st)" by blast
  then show ?thesis using st(1,6) by (auto simp: c)
qed

end
