(* ===== verification/Formats.thy ===== *)
theory Formats
  imports Subresource
begin

unbundle bit_operations_syntax

text \<open>
  Texture formats: \<open>dawn_native/Format.cpp\<close>. A format number is the value of the enumeration
  \<open>wgpu::TextureFormat\<close>, where 0 is the undefined format and the known formats are 1 to 96. A feature set is the predicate of the enabled features.
\<close>

section \<open>Formats\<close>

datatype feature =
    TextureCompressionBC | TextureCompressionETC2 | TextureCompressionASTC | ShaderFloat16
  | PipelineStatisticsQuery | TimestampQuery | DepthClamping | Feature_Depth24UnormStencil8
  | Feature_Depth32FloatStencil8 | DawnInternalUsages | MultiPlanarFormats

datatype component_type = Component_Float | Component_Sint | Component_Uint | Component_DepthComparison

datatype sample_type = Sample_Undefined | Sample_Float | Sample_UnfilterableFloat | Sample_Depth | Sample_Sint | Sample_Uint

type_synonym sample_type_bits = nat

definition SampleTypeBit_None :: sample_type_bits where "SampleTypeBit_None = 0"
definition SampleTypeBit_Float :: sample_type_bits where "SampleTypeBit_Float = 1"
definition SampleTypeBit_UnfilterableFloat :: sample_type_bits where "SampleTypeBit_UnfilterableFloat = 2"
definition SampleTypeBit_Depth :: sample_type_bits where "SampleTypeBit_Depth = 4"
definition SampleTypeBit_Sint :: sample_type_bits where "SampleTypeBit_Sint = 8"
definition SampleTypeBit_Uint :: sample_type_bits where "SampleTypeBit_Uint = 16"

lemmas sample_type_defs = SampleTypeBit_None_def SampleTypeBit_Float_def SampleTypeBit_UnfilterableFloat_def
  SampleTypeBit_Depth_def SampleTypeBit_Sint_def SampleTypeBit_Uint_def

fun ToSampleTypeBit :: "component_type \<Rightarrow> sample_type_bits" where
  "ToSampleTypeBit Component_Float = SampleTypeBit_Float"
| "ToSampleTypeBit Component_Sint = SampleTypeBit_Sint"
| "ToSampleTypeBit Component_Uint = SampleTypeBit_Uint"
| "ToSampleTypeBit Component_DepthComparison = SampleTypeBit_Depth"

text \<open>The values of \<open>wgpu::TextureSampleType\<close>.\<close>

fun sample_type_value :: "sample_type \<Rightarrow> nat" where
  "sample_type_value Sample_Undefined = 0"
| "sample_type_value Sample_Float = 1"
| "sample_type_value Sample_UnfilterableFloat = 2"
| "sample_type_value Sample_Depth = 3"
| "sample_type_value Sample_Sint = 4"
| "sample_type_value Sample_Uint = 5"

definition SampleTypeToSampleTypeBit :: "sample_type \<Rightarrow> sample_type_bits" where
  "SampleTypeToSampleTypeBit t =
     (if t = Sample_Undefined then SampleTypeBit_None else push_bit (sample_type_value t - 1) 1)"

record texel_block_info =
  byteSize :: nat
  blockWidth :: nat
  blockHeight :: nat

record aspect_info =
  block :: texel_block_info
  baseType :: component_type
  supportedSampleTypes :: sample_type_bits
  aspect_format :: nat

text \<open>\<open>aspectInfo\<close> lists the initialised elements of the array.\<close>

record format =
  format_id :: nat
  isRenderable :: bool
  isCompressed :: bool
  isSupported :: bool
  supportsStorageUsage :: bool
  format_aspects :: aspect
  componentCount :: nat
  aspectInfo :: "aspect_info list"

definition kKnownFormatCount :: nat where "kKnownFormatCount = 96"

definition kTextureBytesPerRowAlignment :: nat where "kTextureBytesPerRowAlignment = 256"

definition IsColor :: "format \<Rightarrow> bool" where
  "IsColor f \<longleftrightarrow> format_aspects f = Aspect_Color"

definition HasDepth :: "format \<Rightarrow> bool" where
  "HasDepth f \<longleftrightarrow> format_aspects f AND Aspect_Depth \<noteq> 0"

definition HasStencil :: "format \<Rightarrow> bool" where
  "HasStencil f \<longleftrightarrow> format_aspects f AND Aspect_Stencil \<noteq> 0"

definition HasDepthOrStencil :: "format \<Rightarrow> bool" where
  "HasDepthOrStencil f \<longleftrightarrow> format_aspects f AND (Aspect_Depth OR Aspect_Stencil) \<noteq> 0"

definition IsMultiPlanar :: "format \<Rightarrow> bool" where
  "IsMultiPlanar f \<longleftrightarrow> format_aspects f AND (Aspect_Plane0 OR Aspect_Plane1) \<noteq> 0"

definition GetAspectInfo :: "format \<Rightarrow> aspect \<Rightarrow> aspect_info res" where
  "GetAspectInfo f a =
     bindR (assertR (HasOneBit a)) (\<lambda>_.
     bindR (assertR (format_aspects f AND a \<noteq> 0)) (\<lambda>_.
     bindR (GetAspectIndex a) (\<lambda>aspectIndex.
     bindR (GetAspectCount (format_aspects f)) (\<lambda>n.
     bindR (assertR (aspectIndex < n)) (\<lambda>_. vec_at (aspectInfo f) (int aspectIndex))))))"

definition GetAspectInfo_of :: "format \<Rightarrow> texture_aspect \<Rightarrow> aspect_info res" where
  "GetAspectInfo_of f a = GetAspectInfo f (SelectFormatAspects (format_aspects f) a)"

text \<open>The subtraction wraps, so that the undefined format 0 is outside the table.\<close>

definition ComputeFormatIndex :: "nat \<Rightarrow> nat" where
  "ComputeFormatIndex k = (k + 2 ^ 32 - 1) mod 2 ^ 32"

definition GetIndex :: "format \<Rightarrow> nat" where
  "GetIndex f = ComputeFormatIndex (format_id f)"

section \<open>The format table\<close>

text \<open>The members of \<open>wgpu::TextureFormat\<close>.\<close>

abbreviation (input) R8Unorm :: nat where "R8Unorm \<equiv> 1"
abbreviation (input) R8Snorm :: nat where "R8Snorm \<equiv> 2"
abbreviation (input) R8Uint :: nat where "R8Uint \<equiv> 3"
abbreviation (input) R8Sint :: nat where "R8Sint \<equiv> 4"
abbreviation (input) R16Uint :: nat where "R16Uint \<equiv> 5"
abbreviation (input) R16Sint :: nat where "R16Sint \<equiv> 6"
abbreviation (input) R16Float :: nat where "R16Float \<equiv> 7"
abbreviation (input) RG8Unorm :: nat where "RG8Unorm \<equiv> 8"
abbreviation (input) RG8Snorm :: nat where "RG8Snorm \<equiv> 9"
abbreviation (input) RG8Uint :: nat where "RG8Uint \<equiv> 10"
abbreviation (input) RG8Sint :: nat where "RG8Sint \<equiv> 11"
abbreviation (input) R32Float :: nat where "R32Float \<equiv> 12"
abbreviation (input) R32Uint :: nat where "R32Uint \<equiv> 13"
abbreviation (input) R32Sint :: nat where "R32Sint \<equiv> 14"
abbreviation (input) RG16Uint :: nat where "RG16Uint \<equiv> 15"
abbreviation (input) RG16Sint :: nat where "RG16Sint \<equiv> 16"
abbreviation (input) RG16Float :: nat where "RG16Float \<equiv> 17"
abbreviation (input) RGBA8Unorm :: nat where "RGBA8Unorm \<equiv> 18"
abbreviation (input) RGBA8UnormSrgb :: nat where "RGBA8UnormSrgb \<equiv> 19"
abbreviation (input) RGBA8Snorm :: nat where "RGBA8Snorm \<equiv> 20"
abbreviation (input) RGBA8Uint :: nat where "RGBA8Uint \<equiv> 21"
abbreviation (input) RGBA8Sint :: nat where "RGBA8Sint \<equiv> 22"
abbreviation (input) BGRA8Unorm :: nat where "BGRA8Unorm \<equiv> 23"
abbreviation (input) BGRA8UnormSrgb :: nat where "BGRA8UnormSrgb \<equiv> 24"
abbreviation (input) RGB10A2Unorm :: nat where "RGB10A2Unorm \<equiv> 25"
abbreviation (input) RG11B10Ufloat :: nat where "RG11B10Ufloat \<equiv> 26"
abbreviation (input) RGB9E5Ufloat :: nat where "RGB9E5Ufloat \<equiv> 27"
abbreviation (input) RG32Float :: nat where "RG32Float \<equiv> 28"
abbreviation (input) RG32Uint :: nat where "RG32Uint \<equiv> 29"
abbreviation (input) RG32Sint :: nat where "RG32Sint \<equiv> 30"
abbreviation (input) RGBA16Uint :: nat where "RGBA16Uint \<equiv> 31"
abbreviation (input) RGBA16Sint :: nat where "RGBA16Sint \<equiv> 32"
abbreviation (input) RGBA16Float :: nat where "RGBA16Float \<equiv> 33"
abbreviation (input) RGBA32Float :: nat where "RGBA32Float \<equiv> 34"
abbreviation (input) RGBA32Uint :: nat where "RGBA32Uint \<equiv> 35"
abbreviation (input) RGBA32Sint :: nat where "RGBA32Sint \<equiv> 36"
abbreviation (input) Stencil8 :: nat where "Stencil8 \<equiv> 37"
abbreviation (input) Depth16Unorm :: nat where "Depth16Unorm \<equiv> 38"
abbreviation (input) Depth24Plus :: nat where "Depth24Plus \<equiv> 39"
abbreviation (input) Depth24PlusStencil8 :: nat where "Depth24PlusStencil8 \<equiv> 40"
abbreviation (input) Depth24UnormStencil8 :: nat where "Depth24UnormStencil8 \<equiv> 41"
abbreviation (input) Depth32Float :: nat where "Depth32Float \<equiv> 42"
abbreviation (input) Depth32FloatStencil8 :: nat where "Depth32FloatStencil8 \<equiv> 43"
abbreviation (input) BC1RGBAUnorm :: nat where "BC1RGBAUnorm \<equiv> 44"
abbreviation (input) BC1RGBAUnormSrgb :: nat where "BC1RGBAUnormSrgb \<equiv> 45"
abbreviation (input) BC2RGBAUnorm :: nat where "BC2RGBAUnorm \<equiv> 46"
abbreviation (input) BC2RGBAUnormSrgb :: nat where "BC2RGBAUnormSrgb \<equiv> 47"
abbreviation (input) BC3RGBAUnorm :: nat where "BC3RGBAUnorm \<equiv> 48"
abbreviation (input) BC3RGBAUnormSrgb :: nat where "BC3RGBAUnormSrgb \<equiv> 49"
abbreviation (input) BC4RUnorm :: nat where "BC4RUnorm \<equiv> 50"
abbreviation (input) BC4RSnorm :: nat where "BC4RSnorm \<equiv> 51"
abbreviation (input) BC5RGUnorm :: nat where "BC5RGUnorm \<equiv> 52"
abbreviation (input) BC5RGSnorm :: nat where "BC5RGSnorm \<equiv> 53"
abbreviation (input) BC6HRGBUfloat :: nat where "BC6HRGBUfloat \<equiv> 54"
abbreviation (input) BC6HRGBFloat :: nat where "BC6HRGBFloat \<equiv> 55"
abbreviation (input) BC7RGBAUnorm :: nat where "BC7RGBAUnorm \<equiv> 56"
abbreviation (input) BC7RGBAUnormSrgb :: nat where "BC7RGBAUnormSrgb \<equiv> 57"
abbreviation (input) ETC2RGB8Unorm :: nat where "ETC2RGB8Unorm \<equiv> 58"
abbreviation (input) ETC2RGB8UnormSrgb :: nat where "ETC2RGB8UnormSrgb \<equiv> 59"
abbreviation (input) ETC2RGB8A1Unorm :: nat where "ETC2RGB8A1Unorm \<equiv> 60"
abbreviation (input) ETC2RGB8A1UnormSrgb :: nat where "ETC2RGB8A1UnormSrgb \<equiv> 61"
abbreviation (input) ETC2RGBA8Unorm :: nat where "ETC2RGBA8Unorm \<equiv> 62"
abbreviation (input) ETC2RGBA8UnormSrgb :: nat where "ETC2RGBA8UnormSrgb \<equiv> 63"
abbreviation (input) EACR11Unorm :: nat where "EACR11Unorm \<equiv> 64"
abbreviation (input) EACR11Snorm :: nat where "EACR11Snorm \<equiv> 65"
abbreviation (input) EACRG11Unorm :: nat where "EACRG11Unorm \<equiv> 66"
abbreviation (input) EACRG11Snorm :: nat where "EACRG11Snorm \<equiv> 67"
abbreviation (input) ASTC4x4Unorm :: nat where "ASTC4x4Unorm \<equiv> 68"
abbreviation (input) ASTC4x4UnormSrgb :: nat where "ASTC4x4UnormSrgb \<equiv> 69"
abbreviation (input) ASTC5x4Unorm :: nat where "ASTC5x4Unorm \<equiv> 70"
abbreviation (input) ASTC5x4UnormSrgb :: nat where "ASTC5x4UnormSrgb \<equiv> 71"
abbreviation (input) ASTC5x5Unorm :: nat where "ASTC5x5Unorm \<equiv> 72"
abbreviation (input) ASTC5x5UnormSrgb :: nat where "ASTC5x5UnormSrgb \<equiv> 73"
abbreviation (input) ASTC6x5Unorm :: nat where "ASTC6x5Unorm \<equiv> 74"
abbreviation (input) ASTC6x5UnormSrgb :: nat where "ASTC6x5UnormSrgb \<equiv> 75"
abbreviation (input) ASTC6x6Unorm :: nat where "ASTC6x6Unorm \<equiv> 76"
abbreviation (input) ASTC6x6UnormSrgb :: nat where "ASTC6x6UnormSrgb \<equiv> 77"
abbreviation (input) ASTC8x5Unorm :: nat where "ASTC8x5Unorm \<equiv> 78"
abbreviation (input) ASTC8x5UnormSrgb :: nat where "ASTC8x5UnormSrgb \<equiv> 79"
abbreviation (input) ASTC8x6Unorm :: nat where "ASTC8x6Unorm \<equiv> 80"
abbreviation (input) ASTC8x6UnormSrgb :: nat where "ASTC8x6UnormSrgb \<equiv> 81"
abbreviation (input) ASTC8x8Unorm :: nat where "ASTC8x8Unorm \<equiv> 82"
abbreviation (input) ASTC8x8UnormSrgb :: nat where "ASTC8x8UnormSrgb \<equiv> 83"
abbreviation (input) ASTC10x5Unorm :: nat where "ASTC10x5Unorm \<equiv> 84"
abbreviation (input) ASTC10x5UnormSrgb :: nat where "ASTC10x5UnormSrgb \<equiv> 85"
abbreviation (input) ASTC10x6Unorm :: nat where "ASTC10x6Unorm \<equiv> 86"
abbreviation (input) ASTC10x6UnormSrgb :: nat where "ASTC10x6UnormSrgb \<equiv> 87"
abbreviation (input) ASTC10x8Unorm :: nat where "ASTC10x8Unorm \<equiv> 88"
abbreviation (input) ASTC10x8UnormSrgb :: nat where "ASTC10x8UnormSrgb \<equiv> 89"
abbreviation (input) ASTC10x10Unorm :: nat where "ASTC10x10Unorm \<equiv> 90"
abbreviation (input) ASTC10x10UnormSrgb :: nat where "ASTC10x10UnormSrgb \<equiv> 91"
abbreviation (input) ASTC12x10Unorm :: nat where "ASTC12x10Unorm \<equiv> 92"
abbreviation (input) ASTC12x10UnormSrgb :: nat where "ASTC12x10UnormSrgb \<equiv> 93"
abbreviation (input) ASTC12x12Unorm :: nat where "ASTC12x12Unorm \<equiv> 94"
abbreviation (input) ASTC12x12UnormSrgb :: nat where "ASTC12x12UnormSrgb \<equiv> 95"
abbreviation (input) R8BG8Biplanar420Unorm :: nat where "R8BG8Biplanar420Unorm \<equiv> 96"

text \<open>While the table is built, a slot holds a format once its bit of \<open>formatsSet\<close> is set.\<close>

type_synonym format_slots = "format option list"

definition AddFormat :: "format \<Rightarrow> format_slots \<Rightarrow> format_slots res" where
  "AddFormat f table =
     (let index = ComputeFormatIndex (format_id f) in
      bindR (assertR (index < length table)) (\<lambda>_.
      bindR (vec_at table (int index)) (\<lambda>slot.
      bindR (assertR (slot = None)) (\<lambda>_.
      bindR (if \<not> HasOneBit (format_aspects f) then ok ()
             else bindR (vec_at (aspectInfo f) 0) (\<lambda>info.
               bindR (assertR (byteSize (block info) \<noteq> 0)) (\<lambda>_.
                 assertR (kTextureBytesPerRowAlignment mod byteSize (block info) = 0)))) (\<lambda>_.
        vec_set table (int index) (Some f))))))"

definition kAnyFloat :: sample_type_bits where
  "kAnyFloat = SampleTypeBit_Float OR SampleTypeBit_UnfilterableFloat"

definition color_base_type :: "sample_type_bits \<Rightarrow> component_type res" where
  "color_base_type sampleTypes =
     (if HasOneBit sampleTypes then
        if sampleTypes = SampleTypeBit_Float \<or> sampleTypes = SampleTypeBit_UnfilterableFloat then ok Component_Float
        else if sampleTypes = SampleTypeBit_Sint then ok Component_Sint
        else if sampleTypes = SampleTypeBit_Uint then ok Component_Uint
        else undef
      else bindR (assertR (sampleTypes AND SampleTypeBit_Float \<noteq> 0)) (\<lambda>_. ok Component_Float))"

definition AddColorFormat ::
  "nat \<Rightarrow> bool \<Rightarrow> bool \<Rightarrow> nat \<Rightarrow> sample_type_bits \<Rightarrow> nat \<Rightarrow> format_slots \<Rightarrow> format_slots res" where
  "AddColorFormat k renderable storage bytes sampleTypes count table =
     bindR (color_base_type sampleTypes) (\<lambda>base.
       AddFormat \<lparr> format_id = k, isRenderable = renderable, isCompressed = False, isSupported = True,
         supportsStorageUsage = storage, format_aspects = Aspect_Color, componentCount = count,
         aspectInfo = [\<lparr> block = \<lparr> byteSize = bytes, blockWidth = 1, blockHeight = 1 \<rparr>, baseType = base,
           supportedSampleTypes = sampleTypes, aspect_format = k \<rparr>] \<rparr> table)"

definition AddDepthFormat :: "nat \<Rightarrow> nat \<Rightarrow> bool \<Rightarrow> format_slots \<Rightarrow> format_slots res" where
  "AddDepthFormat k bytes supported table =
     AddFormat \<lparr> format_id = k, isRenderable = True, isCompressed = False, isSupported = supported,
       supportsStorageUsage = False, format_aspects = Aspect_Depth, componentCount = 1,
       aspectInfo = [\<lparr> block = \<lparr> byteSize = bytes, blockWidth = 1, blockHeight = 1 \<rparr>, baseType = Component_Float,
         supportedSampleTypes = SampleTypeBit_Depth, aspect_format = k \<rparr>] \<rparr> table"

definition AddStencilFormat :: "nat \<Rightarrow> bool \<Rightarrow> format_slots \<Rightarrow> format_slots res" where
  "AddStencilFormat k supported table =
     AddFormat \<lparr> format_id = k, isRenderable = True, isCompressed = False, isSupported = supported,
       supportsStorageUsage = False, format_aspects = Aspect_Stencil, componentCount = 1,
       aspectInfo = [\<lparr> block = \<lparr> byteSize = 1, blockWidth = 1, blockHeight = 1 \<rparr>, baseType = Component_Uint,
         supportedSampleTypes = SampleTypeBit_Uint, aspect_format = k \<rparr>] \<rparr> table"

definition AddCompressedFormat ::
  "nat \<Rightarrow> nat \<Rightarrow> nat \<Rightarrow> nat \<Rightarrow> bool \<Rightarrow> nat \<Rightarrow> format_slots \<Rightarrow> format_slots res" where
  "AddCompressedFormat k bytes w h supported count table =
     AddFormat \<lparr> format_id = k, isRenderable = False, isCompressed = True, isSupported = supported,
       supportsStorageUsage = False, format_aspects = Aspect_Color, componentCount = count,
       aspectInfo = [\<lparr> block = \<lparr> byteSize = bytes, blockWidth = w, blockHeight = h \<rparr>, baseType = Component_Float,
         supportedSampleTypes = kAnyFloat, aspect_format = k \<rparr>] \<rparr> table"

text \<open>Reading a slot that holds no format yet is undefined.\<close>

definition slot_info :: "format_slots \<Rightarrow> nat \<Rightarrow> aspect_info res" where
  "slot_info table k =
     bindR (vec_at table (int (ComputeFormatIndex k))) (\<lambda>slot.
       case slot of None \<Rightarrow> undef | Some f \<Rightarrow> vec_at (aspectInfo f) 0)"

definition AddMultiAspectFormat ::
  "nat \<Rightarrow> aspect \<Rightarrow> nat \<Rightarrow> nat \<Rightarrow> bool \<Rightarrow> bool \<Rightarrow> nat \<Rightarrow> format_slots \<Rightarrow> format_slots res" where
  "AddMultiAspectFormat k formatAspects firstFormat secondFormat renderable supported count table =
     bindR (slot_info table firstFormat) (\<lambda>first_info.
     bindR (slot_info table secondFormat) (\<lambda>second_info.
       AddFormat \<lparr> format_id = k, isRenderable = renderable, isCompressed = False, isSupported = supported,
         supportsStorageUsage = False, format_aspects = formatAspects, componentCount = count,
         aspectInfo = [first_info, second_info] \<rparr> table))"

definition color_formats :: "(feature \<Rightarrow> bool) \<Rightarrow> (format_slots \<Rightarrow> format_slots res) list" where
  "color_formats fs =
    [
      AddColorFormat R8Unorm True False 1 kAnyFloat 1,
      AddColorFormat R8Snorm False False 1 kAnyFloat 1,
      AddColorFormat R8Uint True False 1 SampleTypeBit_Uint 1,
      AddColorFormat R8Sint True False 1 SampleTypeBit_Sint 1,
      AddColorFormat R16Uint True False 2 SampleTypeBit_Uint 1,
      AddColorFormat R16Sint True False 2 SampleTypeBit_Sint 1,
      AddColorFormat R16Float True False 2 kAnyFloat 1,
      AddColorFormat RG8Unorm True False 2 kAnyFloat 2,
      AddColorFormat RG8Snorm False False 2 kAnyFloat 2,
      AddColorFormat RG8Uint True False 2 SampleTypeBit_Uint 2,
      AddColorFormat RG8Sint True False 2 SampleTypeBit_Sint 2,
      AddColorFormat R32Uint True True 4 SampleTypeBit_Uint 1,
      AddColorFormat R32Sint True True 4 SampleTypeBit_Sint 1,
      AddColorFormat R32Float True True 4 SampleTypeBit_UnfilterableFloat 1,
      AddColorFormat RG16Uint True False 4 SampleTypeBit_Uint 2,
      AddColorFormat RG16Sint True False 4 SampleTypeBit_Sint 2,
      AddColorFormat RG16Float True False 4 kAnyFloat 2,
      AddColorFormat RGBA8Unorm True True 4 kAnyFloat 4,
      AddColorFormat RGBA8UnormSrgb True False 4 kAnyFloat 4,
      AddColorFormat RGBA8Snorm False True 4 kAnyFloat 4,
      AddColorFormat RGBA8Uint True True 4 SampleTypeBit_Uint 4,
      AddColorFormat RGBA8Sint True True 4 SampleTypeBit_Sint 4,
      AddColorFormat BGRA8Unorm True False 4 kAnyFloat 4,
      AddColorFormat BGRA8UnormSrgb True False 4 kAnyFloat 4,
      AddColorFormat RGB10A2Unorm True False 4 kAnyFloat 4,
      AddColorFormat RG11B10Ufloat False False 4 kAnyFloat 3,
      AddColorFormat RGB9E5Ufloat False False 4 kAnyFloat 3,
      AddColorFormat RG32Uint True True 8 SampleTypeBit_Uint 2,
      AddColorFormat RG32Sint True True 8 SampleTypeBit_Sint 2,
      AddColorFormat RG32Float True True 8 SampleTypeBit_UnfilterableFloat 2,
      AddColorFormat RGBA16Uint True True 8 SampleTypeBit_Uint 4,
      AddColorFormat RGBA16Sint True True 8 SampleTypeBit_Sint 4,
      AddColorFormat RGBA16Float True True 8 kAnyFloat 4,
      AddColorFormat RGBA32Uint True True 16 SampleTypeBit_Uint 4,
      AddColorFormat RGBA32Sint True True 16 SampleTypeBit_Sint 4,
      AddColorFormat RGBA32Float True True 16 SampleTypeBit_UnfilterableFloat 4]"

definition depth_stencil_formats :: "(feature \<Rightarrow> bool) \<Rightarrow> (format_slots \<Rightarrow> format_slots res) list" where
  "depth_stencil_formats fs =
    [
      AddStencilFormat Stencil8 False,
      AddDepthFormat Depth16Unorm 2 True,
      AddDepthFormat Depth24Plus 4 True,
      AddMultiAspectFormat Depth24PlusStencil8 (Aspect_Depth OR Aspect_Stencil) Depth24Plus Stencil8 True True 2,
      AddMultiAspectFormat Depth24UnormStencil8 (Aspect_Depth OR Aspect_Stencil) Depth24Plus Stencil8 True (fs Feature_Depth24UnormStencil8) 2,
      AddDepthFormat Depth32Float 4 True,
      AddMultiAspectFormat Depth32FloatStencil8 (Aspect_Depth OR Aspect_Stencil) Depth32Float Stencil8 True (fs Feature_Depth32FloatStencil8) 2]"

definition compressed_formats :: "(feature \<Rightarrow> bool) \<Rightarrow> (format_slots \<Rightarrow> format_slots res) list" where
  "compressed_formats fs =
    [
      AddCompressedFormat BC1RGBAUnorm 8 4 4 (fs TextureCompressionBC) 4,
      AddCompressedFormat BC1RGBAUnormSrgb 8 4 4 (fs TextureCompressionBC) 4,
      AddCompressedFormat BC4RSnorm 8 4 4 (fs TextureCompressionBC) 1,
      AddCompressedFormat BC4RUnorm 8 4 4 (fs TextureCompressionBC) 1,
      AddCompressedFormat BC2RGBAUnorm 16 4 4 (fs TextureCompressionBC) 4,
      AddCompressedFormat BC2RGBAUnormSrgb 16 4 4 (fs TextureCompressionBC) 4,
      AddCompressedFormat BC3RGBAUnorm 16 4 4 (fs TextureCompressionBC) 4,
      AddCompressedFormat BC3RGBAUnormSrgb 16 4 4 (fs TextureCompressionBC) 4,
      AddCompressedFormat BC5RGSnorm 16 4 4 (fs TextureCompressionBC) 2,
      AddCompressedFormat BC5RGUnorm 16 4 4 (fs TextureCompressionBC) 2,
      AddCompressedFormat BC6HRGBFloat 16 4 4 (fs TextureCompressionBC) 3,
      AddCompressedFormat BC6HRGBUfloat 16 4 4 (fs TextureCompressionBC) 3,
      AddCompressedFormat BC7RGBAUnorm 16 4 4 (fs TextureCompressionBC) 4,
      AddCompressedFormat BC7RGBAUnormSrgb 16 4 4 (fs TextureCompressionBC) 4,
      AddCompressedFormat ETC2RGB8Unorm 8 4 4 (fs TextureCompressionETC2) 3,
      AddCompressedFormat ETC2RGB8UnormSrgb 8 4 4 (fs TextureCompressionETC2) 3,
      AddCompressedFormat ETC2RGB8A1Unorm 8 4 4 (fs TextureCompressionETC2) 4,
      AddCompressedFormat ETC2RGB8A1UnormSrgb 8 4 4 (fs TextureCompressionETC2) 4,
      AddCompressedFormat ETC2RGBA8Unorm 16 4 4 (fs TextureCompressionETC2) 4,
      AddCompressedFormat ETC2RGBA8UnormSrgb 16 4 4 (fs TextureCompressionETC2) 4,
      AddCompressedFormat EACR11Unorm 8 4 4 (fs TextureCompressionETC2) 1,
      AddCompressedFormat EACR11Snorm 8 4 4 (fs TextureCompressionETC2) 1,
      AddCompressedFormat EACRG11Unorm 16 4 4 (fs TextureCompressionETC2) 2,
      AddCompressedFormat EACRG11Snorm 16 4 4 (fs TextureCompressionETC2) 2,
      AddCompressedFormat ASTC4x4Unorm 16 4 4 (fs TextureCompressionASTC) 4,
      AddCompressedFormat ASTC4x4UnormSrgb 16 4 4 (fs TextureCompressionASTC) 4,
      AddCompressedFormat ASTC5x4Unorm 16 5 4 (fs TextureCompressionASTC) 4,
      AddCompressedFormat ASTC5x4UnormSrgb 16 5 4 (fs TextureCompressionASTC) 4,
      AddCompressedFormat ASTC5x5Unorm 16 5 5 (fs TextureCompressionASTC) 4,
      AddCompressedFormat ASTC5x5UnormSrgb 16 5 5 (fs TextureCompressionASTC) 4,
      AddCompressedFormat ASTC6x5Unorm 16 6 5 (fs TextureCompressionASTC) 4,
      AddCompressedFormat ASTC6x5UnormSrgb 16 6 5 (fs TextureCompressionASTC) 4,
      AddCompressedFormat ASTC6x6Unorm 16 6 6 (fs TextureCompressionASTC) 4,
      AddCompressedFormat ASTC6x6UnormSrgb 16 6 6 (fs TextureCompressionASTC) 4,
      AddCompressedFormat ASTC8x5Unorm 16 8 5 (fs TextureCompressionASTC) 4,
      AddCompressedFormat ASTC8x5UnormSrgb 16 8 5 (fs TextureCompressionASTC) 4,
      AddCompressedFormat ASTC8x6Unorm 16 8 6 (fs TextureCompressionASTC) 4,
      AddCompressedFormat ASTC8x6UnormSrgb 16 8 6 (fs TextureCompressionASTC) 4,
      AddCompressedFormat ASTC8x8Unorm 16 8 8 (fs TextureCompressionASTC) 4,
      AddCompressedFormat ASTC8x8UnormSrgb 16 8 8 (fs TextureCompressionASTC) 4,
      AddCompressedFormat ASTC10x5Unorm 16 10 5 (fs TextureCompressionASTC) 4,
      AddCompressedFormat ASTC10x5UnormSrgb 16 10 5 (fs TextureCompressionASTC) 4,
      AddCompressedFormat ASTC10x6Unorm 16 10 6 (fs TextureCompressionASTC) 4,
      AddCompressedFormat ASTC10x6UnormSrgb 16 10 6 (fs TextureCompressionASTC) 4,
      AddCompressedFormat ASTC10x8Unorm 16 10 8 (fs TextureCompressionASTC) 4,
      AddCompressedFormat ASTC10x8UnormSrgb 16 10 8 (fs TextureCompressionASTC) 4,
      AddCompressedFormat ASTC10x10Unorm 16 10 10 (fs TextureCompressionASTC) 4,
      AddCompressedFormat ASTC10x10UnormSrgb 16 10 10 (fs TextureCompressionASTC) 4,
      AddCompressedFormat ASTC12x10Unorm 16 12 10 (fs TextureCompressionASTC) 4,
      AddCompressedFormat ASTC12x10UnormSrgb 16 12 10 (fs TextureCompressionASTC) 4,
      AddCompressedFormat ASTC12x12Unorm 16 12 12 (fs TextureCompressionASTC) 4,
      AddCompressedFormat ASTC12x12UnormSrgb 16 12 12 (fs TextureCompressionASTC) 4]"

definition planar_formats :: "(feature \<Rightarrow> bool) \<Rightarrow> (format_slots \<Rightarrow> format_slots res) list" where
  "planar_formats fs =
    [
      AddMultiAspectFormat R8BG8Biplanar420Unorm (Aspect_Plane0 OR Aspect_Plane1) R8Unorm RG8Unorm False (fs MultiPlanarFormats) 3]"

definition BuildFormatTable :: "(feature \<Rightarrow> bool) \<Rightarrow> format list res" where
  "BuildFormatTable fs =
     bindR (foldR (\<lambda>add. add) (color_formats fs @ depth_stencil_formats fs @ compressed_formats fs @ planar_formats fs)
             (replicate kKnownFormatCount None)) (\<lambda>table.
     bindR (assertR (\<forall>slot \<in> set table. slot \<noteq> None)) (\<lambda>_. ok (map the table)))"

definition GetInternalFormat :: "format list \<Rightarrow> nat \<Rightarrow> format res" where
  "GetInternalFormat mFormatTable k =
     (let index = ComputeFormatIndex k in
      if index \<ge> length mFormatTable then validation_error ''Unknown texture format''
      else if \<not> isSupported (mFormatTable ! index) then validation_error ''Unsupported texture format''
      else ok (mFormatTable ! index))"

definition GetValidInternalFormat :: "format list \<Rightarrow> nat \<Rightarrow> format res" where
  "GetValidInternalFormat mFormatTable k =
     (let index = ComputeFormatIndex k in
      bindR (assertR (index < length mFormatTable)) (\<lambda>_.
      bindR (assertR (isSupported (mFormatTable ! index))) (\<lambda>_. ok (mFormatTable ! index))))"

end
