(* ===== verification/Formats_Spec.thy ===== *)
theory Formats_Spec
  imports Formats
begin

unbundle bit_operations_syntax

text \<open>
  The format table every device holds: building it never fails an assertion, and what its
  entries promise to textures, views and copies.
\<close>

section \<open>What an entry promises\<close>

definition format_kind :: "nat \<Rightarrow> aspect" where
  "format_kind k =
     (if k = Stencil8 then Aspect_Stencil
      else if k \<in> {Depth16Unorm, Depth24Plus, Depth32Float} then Aspect_Depth
      else if k \<in> {Depth24PlusStencil8, Depth24UnormStencil8, Depth32FloatStencil8} then Aspect_Depth OR Aspect_Stencil
      else if k = R8BG8Biplanar420Unorm then Aspect_Plane0 OR Aspect_Plane1
      else Aspect_Color)"

text \<open>Which feature a format waits for: \<open>Stencil8\<close> is never available.\<close>

definition format_available :: "(feature \<Rightarrow> bool) \<Rightarrow> nat \<Rightarrow> bool" where
  "format_available fs k =
     (if k = Stencil8 then False
      else if k = Depth24UnormStencil8 then fs Feature_Depth24UnormStencil8
      else if k = Depth32FloatStencil8 then fs Feature_Depth32FloatStencil8
      else if k < BC1RGBAUnorm then True
      else if k \<le> BC7RGBAUnormSrgb then fs TextureCompressionBC
      else if k \<le> EACRG11Snorm then fs TextureCompressionETC2
      else if k \<le> ASTC12x12UnormSrgb then fs TextureCompressionASTC
      else fs MultiPlanarFormats)"

definition block_ok :: "texel_block_info \<Rightarrow> bool" where
  "block_ok b \<longleftrightarrow> byteSize b \<in> {1, 2, 4, 8, 16} \<and> 0 < blockWidth b \<and> blockWidth b \<le> 12 \<and> 0 < blockHeight b \<and> blockHeight b \<le> 12"

definition unit_block :: "texel_block_info \<Rightarrow> bool" where
  "unit_block b \<longleftrightarrow> blockWidth b = 1 \<and> blockHeight b = 1"

definition format_ok :: "(feature \<Rightarrow> bool) \<Rightarrow> format \<Rightarrow> bool" where
  "format_ok fs f \<longleftrightarrow>
     format_aspects f = format_kind (format_id f) \<and> isSupported f = format_available fs (format_id f) \<and>
     (\<forall>info \<in> set (aspectInfo f). block_ok (block info) \<and> 0 < aspect_format info \<and> aspect_format info \<le> kKnownFormatCount \<and>
        (aspect_format info = format_id f \<or> aspect_format info < BC1RGBAUnorm) \<and> (isCompressed f \<or> unit_block (block info))) \<and>
     (isCompressed f \<longleftrightarrow> BC1RGBAUnorm \<le> format_id f \<and> format_id f \<le> ASTC12x12UnormSrgb) \<and>
     (isCompressed f \<longrightarrow> format_aspects f = Aspect_Color \<and> \<not> isRenderable f \<and> \<not> supportsStorageUsage f) \<and>
     (if format_aspects f = Aspect_Depth OR Aspect_Stencil
      then map (\<lambda>info. format_kind (aspect_format info)) (aspectInfo f) = [Aspect_Depth, Aspect_Stencil]
      else if format_aspects f = Aspect_Plane0 OR Aspect_Plane1
      then map (\<lambda>info. format_kind (aspect_format info)) (aspectInfo f) = [Aspect_Color, Aspect_Color]
      else map aspect_format (aspectInfo f) = [format_id f])"

lemma format_okD:
  assumes "format_ok fs f"
  shows "format_aspects f = format_kind (format_id f)" "isSupported f = format_available fs (format_id f)"
    "info \<in> set (aspectInfo f) \<Longrightarrow> block_ok (block info)" "info \<in> set (aspectInfo f) \<Longrightarrow> 0 < aspect_format info"
    "info \<in> set (aspectInfo f) \<Longrightarrow> aspect_format info \<le> kKnownFormatCount"
    "info \<in> set (aspectInfo f) \<Longrightarrow> aspect_format info = format_id f \<or> aspect_format info < BC1RGBAUnorm"
    "info \<in> set (aspectInfo f) \<Longrightarrow> isCompressed f \<or> unit_block (block info)"
  using assms by (auto simp: format_ok_def)

section \<open>Building the table\<close>

definition slots_inv :: "(feature \<Rightarrow> bool) \<Rightarrow> nat set \<Rightarrow> format_slots \<Rightarrow> bool" where
  "slots_inv fs ids t \<longleftrightarrow> length t = kKnownFormatCount \<and>
     (\<forall>i < kKnownFormatCount. case t ! i of None \<Rightarrow> Suc i \<notin> ids | Some f \<Rightarrow> Suc i \<in> ids \<and> format_id f = Suc i \<and> format_ok fs f)"

text \<open>The step of the loop that sets format \<open>k\<close>.\<close>

definition adds :: "(feature \<Rightarrow> bool) \<Rightarrow> nat set \<Rightarrow> nat \<Rightarrow> (format_slots \<Rightarrow> format_slots res) \<Rightarrow> bool" where
  "adds fs ids k step \<longleftrightarrow> (\<forall>t. slots_inv fs ids t \<longrightarrow> (\<exists>t'. step t = ok t' \<and> slots_inv fs (insert k ids) t'))"

lemma format_index: "0 < k \<Longrightarrow> k \<le> 2 ^ 32 \<Longrightarrow> ComputeFormatIndex k = k - 1"
  by (cases k) (simp_all add: ComputeFormatIndex_def)

lemma HasOneBit_eval:
  "HasOneBit Aspect_Color" "HasOneBit Aspect_Depth" "HasOneBit Aspect_Stencil"
  "HasOneBit Aspect_Plane0" "HasOneBit Aspect_Plane1"
  "\<not> HasOneBit (Aspect_Depth OR Aspect_Stencil)" "\<not> HasOneBit (Aspect_Plane0 OR Aspect_Plane1)"
  by (simp_all add: HasOneBit_def HasZeroOrOneBits_def aspect_defs)

lemma block_aligned: "block_ok b \<Longrightarrow> byteSize b \<noteq> 0 \<and> kTextureBytesPerRowAlignment mod byteSize b = 0"
  by (auto simp: block_ok_def kTextureBytesPerRowAlignment_def)

lemma slots_invD:
  assumes "slots_inv fs ids t" "i < kKnownFormatCount"
  shows "t ! i = None \<longleftrightarrow> Suc i \<notin> ids" "t ! i = Some f \<Longrightarrow> format_id f = Suc i \<and> format_ok fs f"
  using assms by (auto simp: slots_inv_def split: option.splits)

lemma AddFormat_adds:
  assumes f: "format_ok fs f" and k: "0 < format_id f" "format_id f \<le> kKnownFormatCount" "format_id f \<notin> ids" and ne: "aspectInfo f \<noteq> []"
    and t: "slots_inv fs ids t"
  shows "\<exists>t'. AddFormat f t = ok t' \<and> slots_inv fs (insert (format_id f) ids) t'"
proof -
  obtain i where i: "format_id f = Suc i" using k(1) by (cases "format_id f") auto
  have len: "i < length t" "ComputeFormatIndex (format_id f) = i"
    using k t by (simp_all add: i slots_inv_def kKnownFormatCount_def format_index)
  moreover have "t ! i = None" using slots_invD(1) [OF t] k by (simp add: i)
  moreover have "block_ok (block (aspectInfo f ! 0))" using f ne by (simp add: format_ok_def)
  ultimately have "AddFormat f t = ok (t[i := Some f])"
    using ne by (simp add: AddFormat_def vec_at_def vec_set_def assertR_def block_aligned)
  moreover have "slots_inv fs (insert (format_id f) ids) (t[i := Some f])"
    using t f len(1) by (auto simp: i slots_inv_def nth_list_update split: option.splits)
  ultimately show ?thesis by blast
qed

lemma format_kind_one_bit:
  "HasOneBit (format_kind k) \<longleftrightarrow> format_kind k \<noteq> Aspect_Depth OR Aspect_Stencil \<and> format_kind k \<noteq> Aspect_Plane0 OR Aspect_Plane1"
  by (auto simp: format_kind_def HasOneBit_eval) (simp_all add: aspect_defs)

text \<open>A single-aspect format is set by an entry with one block.\<close>

lemma single_adds:
  assumes "format_kind k = a" "HasOneBit a" "format_available fs k = supported" "block_ok b" "compressed \<or> unit_block b"
    "compressed \<longleftrightarrow> BC1RGBAUnorm \<le> k \<and> k \<le> ASTC12x12UnormSrgb" "compressed \<Longrightarrow> a = Aspect_Color \<and> \<not> renderable \<and> \<not> storage" "0 < k" "k \<le> kKnownFormatCount" "k \<notin> ids"
  shows "adds fs ids k (AddFormat \<lparr> format_id = k, isRenderable = renderable, isCompressed = compressed, isSupported = supported,
      supportsStorageUsage = storage, format_aspects = a, componentCount = count,
      aspectInfo = [\<lparr> block = b, baseType = base, supportedSampleTypes = types, aspect_format = k \<rparr>] \<rparr>)"
    (is "adds fs ids k (AddFormat ?f)")
proof -
  have "format_ok fs ?f" using assms HasOneBit_eval(6,7) by (auto simp: format_ok_def)
  then show ?thesis using AddFormat_adds [of fs ?f ids] assms(8-10) by (simp add: adds_def)
qed

lemma color_adds:
  assumes "format_kind k = Aspect_Color" "format_available fs k" "bytes \<in> {1, 2, 4, 8, 16}"
    "types \<in> {kAnyFloat, SampleTypeBit_UnfilterableFloat, SampleTypeBit_Sint, SampleTypeBit_Uint}" "0 < k" "k < BC1RGBAUnorm" "k \<notin> ids"
  shows "adds fs ids k (AddColorFormat k renderable storage bytes types count)"
proof -
  obtain base where base: "color_base_type types = ok base" using assms(4)
    by (fastforce simp: color_base_type_def sample_type_defs kAnyFloat_def HasOneBit_def HasZeroOrOneBits_def assertR_def)
  let ?b = "\<lparr> byteSize = bytes, blockWidth = 1, blockHeight = 1 \<rparr>"
  have "block_ok ?b" "unit_block ?b" using assms(3) by (simp_all add: block_ok_def unit_block_def)
  from single_adds [OF assms(1) HasOneBit_eval(1) _ this(1), where supported = True and compressed = False, OF _ _ _ _ assms(5) _ assms(7)] this(2)
  show ?thesis using assms(2,6) base by (simp add: adds_def AddColorFormat_def kKnownFormatCount_def)
qed

lemma depth_adds:
  assumes "format_kind k = Aspect_Depth" "format_available fs k = supported" "bytes \<in> {2, 4}" "0 < k" "k < BC1RGBAUnorm" "k \<notin> ids"
  shows "adds fs ids k (AddDepthFormat k bytes supported)"
  using assms unfolding adds_def AddDepthFormat_def
  by (intro single_adds [unfolded adds_def]) (auto simp: HasOneBit_eval block_ok_def unit_block_def kKnownFormatCount_def)

lemma stencil_adds:
  assumes "format_kind k = Aspect_Stencil" "format_available fs k = supported" "0 < k" "k < BC1RGBAUnorm" "k \<notin> ids"
  shows "adds fs ids k (AddStencilFormat k supported)"
  using assms unfolding adds_def AddStencilFormat_def
  by (intro single_adds [unfolded adds_def]) (auto simp: HasOneBit_eval block_ok_def unit_block_def kKnownFormatCount_def)

lemma compressed_adds:
  assumes "format_kind k = Aspect_Color" "format_available fs k = supported" "bytes \<in> {8, 16}" "0 < w" "w \<le> 12" "0 < h" "h \<le> 12"
    "BC1RGBAUnorm \<le> k" "k \<le> ASTC12x12UnormSrgb" "k \<notin> ids"
  shows "adds fs ids k (AddCompressedFormat k bytes w h supported count)"
  using assms unfolding adds_def AddCompressedFormat_def
  by (intro single_adds [unfolded adds_def]) (auto simp: HasOneBit_eval block_ok_def kKnownFormatCount_def)

lemma slot_info_ok:
  assumes "slots_inv fs ids t" "k \<in> ids" "0 < k" "k < BC1RGBAUnorm" "HasOneBit (format_kind k)"
  shows "\<exists>info. slot_info t k = ok info \<and> aspect_format info = k \<and> block_ok (block info) \<and> unit_block (block info)"
proof -
  obtain i where i: "k = Suc i" "i < kKnownFormatCount" using assms(3,4) by (cases k) (auto simp: kKnownFormatCount_def)
  obtain f where f: "t ! i = Some f" using slots_invD(1) [OF assms(1) i(2)] assms(2) i(1) by auto
  have ok: "format_id f = k" "format_ok fs f" using slots_invD(2) [OF assms(1) i(2) f] i(1) by auto
  moreover have "\<not> isCompressed f" using ok assms(4) by (simp add: format_ok_def)
  moreover obtain info where "aspectInfo f = [info]" "aspect_format info = k"
    using ok assms(5) format_kind_one_bit [of k] by (auto simp: format_ok_def split: if_splits)
  moreover have "ComputeFormatIndex k = i" "i < length t"
    using i assms(1) by (simp_all add: format_index slots_inv_def kKnownFormatCount_def)
  ultimately show ?thesis using f by (auto simp: slot_info_def vec_at_def format_ok_def)
qed

text \<open>A format with two aspects takes its blocks from two formats set before it.\<close>

lemma multi_adds:
  assumes "format_kind k = a" "format_available fs k = supported" "0 < k" "k \<le> kKnownFormatCount" "k < BC1RGBAUnorm \<or> ASTC12x12UnormSrgb < k" "k \<notin> ids"
    and sub: "k1 \<in> ids" "k2 \<in> ids" "0 < k1" "0 < k2" "k1 < BC1RGBAUnorm" "k2 < BC1RGBAUnorm"
    and kinds: "a = Aspect_Depth OR Aspect_Stencil \<and> format_kind k1 = Aspect_Depth \<and> format_kind k2 = Aspect_Stencil \<or>
      a = Aspect_Plane0 OR Aspect_Plane1 \<and> format_kind k1 = Aspect_Color \<and> format_kind k2 = Aspect_Color"
  shows "adds fs ids k (AddMultiAspectFormat k a k1 k2 renderable supported count)"
  unfolding adds_def
proof (intro allI impI)
  fix t assume t: "slots_inv fs ids t"
  have "HasOneBit (format_kind k1)" "HasOneBit (format_kind k2)" using kinds HasOneBit_eval by auto
  then obtain i1 i2 where i: "slot_info t k1 = ok i1" "aspect_format i1 = k1" "block_ok (block i1)" "unit_block (block i1)"
    "slot_info t k2 = ok i2" "aspect_format i2 = k2" "block_ok (block i2)" "unit_block (block i2)"
    using slot_info_ok [OF t] sub by metis
  let ?f = "\<lparr> format_id = k, isRenderable = renderable, isCompressed = False, isSupported = supported,
         supportsStorageUsage = False, format_aspects = a, componentCount = count, aspectInfo = [i1, i2] \<rparr>"
  have ne: "Aspect_Depth OR Aspect_Stencil \<noteq> Aspect_Plane0 OR Aspect_Plane1" by (simp add: aspect_defs)
  have "format_ok fs ?f" using assms i ne by (auto simp: format_ok_def kKnownFormatCount_def)
  from AddFormat_adds [OF this _ _ _ _ t] show "\<exists>t'. AddMultiAspectFormat k a k1 k2 renderable supported count t = ok t' \<and> slots_inv fs (insert k ids) t'"
    using assms i by (simp add: AddMultiAspectFormat_def)
qed

text \<open>The steps in a row.\<close>

fun all_add :: "(feature \<Rightarrow> bool) \<Rightarrow> nat set \<Rightarrow> nat list \<Rightarrow> (format_slots \<Rightarrow> format_slots res) list \<Rightarrow> bool" where
  "all_add fs ids [] [] \<longleftrightarrow> True"
| "all_add fs ids (k # ks) (step # steps) \<longleftrightarrow> adds fs ids k step \<and> all_add fs (insert k ids) ks steps"
| "all_add fs ids _ _ \<longleftrightarrow> False"

lemma all_add_run:
  "all_add fs ids ks steps \<Longrightarrow> slots_inv fs ids t \<Longrightarrow> \<exists>t'. foldR (\<lambda>add. add) steps t = ok t' \<and> slots_inv fs (set ks \<union> ids) t'"
proof (induction fs ids ks steps arbitrary: t rule: all_add.induct)
  case (2 fs ids k ks step steps)
  then obtain t1 where "step t = ok t1" "slots_inv fs (insert k ids) t1" by (auto simp: adds_def)
  with 2 show ?case by fastforce
qed auto

lemmas table_adds = color_adds depth_adds stencil_adds compressed_adds multi_adds

text \<open>The formats in the order the source adds them.\<close>

definition color_ids :: "nat list" where
  "color_ids = [1, 2, 3, 4, 5, 6, 7, 8, 9, 10, 11, 13, 14, 12, 15, 16, 17, 18, 19, 20, 21, 22, 23, 24, 25, 26, 27, 29, 30,
     28, 31, 32, 33, 35, 36, 34]"

definition depth_stencil_ids :: "nat list" where
  "depth_stencil_ids = [37, 38, 39, 40, 41, 42, 43]"

definition compressed_ids :: "nat list" where
  "compressed_ids = [44, 45, 51, 50, 46, 47, 48, 49, 53, 52, 55, 54, 56, 57, 58, 59, 60, 61, 62, 63, 64, 65, 66, 67, 68, 69, 70,
     71, 72, 73, 74, 75, 76, 77, 78, 79, 80, 81, 82, 83, 84, 85, 86, 87, 88, 89, 90, 91, 92, 93, 94, 95]"

lemma color_formats_add: "all_add fs {} color_ids (color_formats fs)"
  unfolding color_formats_def color_ids_def
  by (simp add: color_adds format_kind_def format_available_def aspect_defs)

lemma depth_stencil_formats_add: "all_add fs (set color_ids) depth_stencil_ids (depth_stencil_formats fs)"
  unfolding depth_stencil_formats_def color_ids_def depth_stencil_ids_def
  by (simp add: depth_adds stencil_adds multi_adds format_kind_def format_available_def kKnownFormatCount_def)

lemma compressed_formats_add: "all_add fs (set (color_ids @ depth_stencil_ids)) compressed_ids (compressed_formats fs)"
  unfolding compressed_formats_def color_ids_def depth_stencil_ids_def compressed_ids_def
  by (simp add: compressed_adds format_kind_def format_available_def)

lemma planar_formats_add:
  "all_add fs (set (color_ids @ depth_stencil_ids @ compressed_ids)) [R8BG8Biplanar420Unorm] (planar_formats fs)"
  unfolding planar_formats_def color_ids_def depth_stencil_ids_def compressed_ids_def
  by (simp add: multi_adds format_kind_def format_available_def kKnownFormatCount_def)

lemma BuildFormatTable_ok:
  "\<exists>table. BuildFormatTable fs = ok table \<and> length table = kKnownFormatCount \<and>
     (\<forall>i < kKnownFormatCount. format_id (table ! i) = Suc i \<and> format_ok fs (table ! i))"
proof -
  let ?ids = "set (color_ids @ depth_stencil_ids @ compressed_ids @ [R8BG8Biplanar420Unorm])"
  have "slots_inv fs {} (replicate kKnownFormatCount None)" by (simp add: slots_inv_def)
  from all_add_run [OF color_formats_add this] obtain t1 where t1: "foldR (\<lambda>add. add) (color_formats fs) (replicate kKnownFormatCount None) = ok t1"
    "slots_inv fs (set color_ids) t1" by auto
  from all_add_run [OF depth_stencil_formats_add t1(2)] obtain t2 where t2: "foldR (\<lambda>add. add) (depth_stencil_formats fs) t1 = ok t2"
    "slots_inv fs (set (color_ids @ depth_stencil_ids)) t2" by (auto simp: Un_commute)
  from all_add_run [OF compressed_formats_add t2(2)] obtain t3 where t3: "foldR (\<lambda>add. add) (compressed_formats fs) t2 = ok t3"
    "slots_inv fs (set (color_ids @ depth_stencil_ids @ compressed_ids)) t3" by (auto simp: Un_ac)
  from all_add_run [OF planar_formats_add t3(2)] obtain t where t: "foldR (\<lambda>add. add) (planar_formats fs) t3 = ok t" "slots_inv fs ?ids t"
    by (auto simp: Un_ac)
  have "Suc i \<in> ?ids" if "i < kKnownFormatCount" for i
  proof -
    have "\<forall>i \<in> set [0..<96]. Suc i \<in> ?ids"
      unfolding color_ids_def depth_stencil_ids_def compressed_ids_def by code_simp
    then show ?thesis using that by (simp add: kKnownFormatCount_def)
  qed
  then have filled: "\<exists>f. t ! i = Some f \<and> format_id f = Suc i \<and> format_ok fs f" if "i < kKnownFormatCount" for i
    using slots_invD [OF t(2) that] that by (cases "t ! i") auto
  have len: "length t = kKnownFormatCount" using t(2) by (simp add: slots_inv_def)
  have "\<forall>slot \<in> set t. slot \<noteq> None" using filled len by (fastforce simp: in_set_conv_nth)
  then have "BuildFormatTable fs = ok (map the t)" using t1 t2 t3 t by (simp add: BuildFormatTable_def foldR_append assertR_def)
  moreover have "format_id (map the t ! i) = Suc i \<and> format_ok fs (map the t ! i)" if "i < kKnownFormatCount" for i
    using filled [OF that] len that by auto
  ultimately show ?thesis using len by auto
qed

section \<open>Aspects of a supported format\<close>

lemma IterateEnumMask_eval [simp]:
  "IterateEnumMask Aspect_Color = [Aspect_Color]" "IterateEnumMask Aspect_Depth = [Aspect_Depth]"
  "IterateEnumMask Aspect_Stencil = [Aspect_Stencil]"
  "IterateEnumMask (Aspect_Depth OR Aspect_Stencil) = [Aspect_Depth, Aspect_Stencil]"
  "IterateEnumMask (Aspect_Plane0 OR Aspect_Plane1) = [Aspect_Plane0, Aspect_Plane1]"
  by (simp_all add: IterateEnumMask_def aspect_defs upt_conv_Cons bit_Suc_0_iff)

lemma format_kind_cases:
  "k = Stencil8 \<or> format_kind k = Aspect_Color \<or> format_kind k = Aspect_Depth \<or>
   format_kind k = Aspect_Depth OR Aspect_Stencil \<or> format_kind k = Aspect_Plane0 OR Aspect_Plane1"
  by (simp add: format_kind_def)

lemmas aspect_info_defs = GetAspectInfo_def GetAspectIndex_def GetAspectCount_def assertR_def vec_at_def
  HasOneBit_def HasZeroOrOneBits_def aspect_defs

lemma GetAspectInfo_shapes:
  "format_aspects f = Aspect_Color \<Longrightarrow> aspectInfo f = [i] \<Longrightarrow> GetAspectInfo f Aspect_Color = ok i"
  "format_aspects f = Aspect_Depth \<Longrightarrow> aspectInfo f = [i] \<Longrightarrow> GetAspectInfo f Aspect_Depth = ok i"
  "format_aspects f = Aspect_Depth OR Aspect_Stencil \<Longrightarrow> aspectInfo f = [i, j] \<Longrightarrow> GetAspectInfo f Aspect_Depth = ok i"
  "format_aspects f = Aspect_Depth OR Aspect_Stencil \<Longrightarrow> aspectInfo f = [i, j] \<Longrightarrow> GetAspectInfo f Aspect_Stencil = ok j"
  "format_aspects f = Aspect_Plane0 OR Aspect_Plane1 \<Longrightarrow> aspectInfo f = [i, j] \<Longrightarrow> GetAspectInfo f Aspect_Plane0 = ok i"
  "format_aspects f = Aspect_Plane0 OR Aspect_Plane1 \<Longrightarrow> aspectInfo f = [i, j] \<Longrightarrow> GetAspectInfo f Aspect_Plane1 = ok j"
  by (simp_all add: aspect_info_defs)

text \<open>The aspect a view of the format \<open>aspect_format\<close> has: a plane is viewed as a colour.\<close>

definition viewed_as :: "aspect \<Rightarrow> aspect" where
  "viewed_as a = (if a = Aspect_Plane0 \<or> a = Aspect_Plane1 then Aspect_Color else a)"

lemma GetAspectInfo_ok:
  assumes "format_ok fs f" "isSupported f" "a \<in> set (IterateEnumMask (format_aspects f))"
  shows "\<exists>info \<in> set (aspectInfo f). GetAspectInfo f a = ok info \<and> format_kind (aspect_format info) = viewed_as a \<and>
    (HasOneBit (format_aspects f) \<longrightarrow> aspect_format info = format_id f)"
proof -
  have k: "format_aspects f = format_kind (format_id f)" and ns: "format_id f \<noteq> Stencil8"
    using assms(1,2) by (auto simp: format_ok_def format_available_def)
  have ne: "Aspect_Color \<noteq> Aspect_Depth OR Aspect_Stencil" "Aspect_Color \<noteq> Aspect_Plane0 OR Aspect_Plane1"
    "Aspect_Depth \<noteq> Aspect_Depth OR Aspect_Stencil" "Aspect_Depth \<noteq> Aspect_Plane0 OR Aspect_Plane1"
    "Aspect_Plane0 OR Aspect_Plane1 \<noteq> Aspect_Depth OR Aspect_Stencil"
    "viewed_as Aspect_Color = Aspect_Color" "viewed_as Aspect_Depth = Aspect_Depth" "viewed_as Aspect_Stencil = Aspect_Stencil"
    "viewed_as Aspect_Plane0 = Aspect_Color" "viewed_as Aspect_Plane1 = Aspect_Color"
    by (simp_all add: aspect_defs viewed_as_def)
  consider "format_aspects f = Aspect_Color" | "format_aspects f = Aspect_Depth"
    | "format_aspects f = Aspect_Depth OR Aspect_Stencil" | "format_aspects f = Aspect_Plane0 OR Aspect_Plane1"
    using format_kind_cases [of "format_id f"] k ns by auto
  then show ?thesis
  proof cases
    case 1
    then obtain i where i: "aspectInfo f = [i]" "aspect_format i = format_id f" using assms(1) ne by (auto simp: format_ok_def map_eq_Cons_conv)
    then show ?thesis using assms(3) 1 k ne GetAspectInfo_shapes(1) [OF 1 i(1)] by auto
  next
    case 2
    then obtain i where i: "aspectInfo f = [i]" "aspect_format i = format_id f" using assms(1) ne by (auto simp: format_ok_def map_eq_Cons_conv)
    then show ?thesis using assms(3) 2 k ne GetAspectInfo_shapes(2) [OF 2 i(1)] by auto
  next
    case 3
    then obtain i j where i: "aspectInfo f = [i, j]" "format_kind (aspect_format i) = Aspect_Depth" "format_kind (aspect_format j) = Aspect_Stencil"
      using assms(1) by (auto simp: format_ok_def map_eq_Cons_conv)
    then show ?thesis using assms(3) 3 ne HasOneBit_eval GetAspectInfo_shapes(3,4) [OF 3 i(1)] by auto
  next
    case 4
    then obtain i j where i: "aspectInfo f = [i, j]" "format_kind (aspect_format i) = Aspect_Color" "format_kind (aspect_format j) = Aspect_Color"
      using assms(1) ne by (auto simp: format_ok_def map_eq_Cons_conv)
    then show ?thesis using assms(3) 4 ne HasOneBit_eval GetAspectInfo_shapes(5,6) [OF 4 i(1)] by auto
  qed
qed

section \<open>Properties\<close>

text \<open>
  C29. Whatever features are enabled, building the format table fails no assertion and fills every
  slot: the device accepts exactly the 96 known formats whose feature is enabled (\<open>Stencil8\<close> is
  never accepted), the entry it finds is that of the format asked for with the aspects of its kind, and every aspect of it has
  a block of positive size whose bytes divide the alignment of rows, one texel unless the format is
  compressed, and a format of its own to view the aspect with.
\<close>

theorem format_table_typed:
  "\<exists>table. BuildFormatTable fs = ok table \<and> length table = kKnownFormatCount \<and>
     (\<forall>k < 2 ^ 32. if 0 < k \<and> k \<le> kKnownFormatCount \<and> format_available fs k
        then \<exists>f. GetInternalFormat table k = ok f \<and> GetValidInternalFormat table k = ok f \<and> format_id f = k \<and> format_aspects f = format_kind k \<and>
          (\<forall>a \<in> set (IterateEnumMask (format_aspects f)). \<exists>info. GetAspectInfo f a = ok info \<and>
             0 < byteSize (block info) \<and> kTextureBytesPerRowAlignment mod byteSize (block info) = 0 \<and>
             0 < blockWidth (block info) \<and> 0 < blockHeight (block info) \<and>
             (isCompressed f \<or> blockWidth (block info) = 1 \<and> blockHeight (block info) = 1) \<and>
             (\<exists>g. table ! (aspect_format info - 1) = g \<and> format_id g = aspect_format info \<and> format_aspects g = viewed_as a))
        else \<exists>msg. GetInternalFormat table k = validation_error msg)"
proof -
  obtain table where t: "BuildFormatTable fs = ok table" "length table = kKnownFormatCount"
    and slots: "\<And>i. i < kKnownFormatCount \<Longrightarrow> format_id (table ! i) = Suc i \<and> format_ok fs (table ! i)" using BuildFormatTable_ok by blast
  have aspects: "\<exists>info. GetAspectInfo f a = ok info \<and>
             0 < byteSize (block info) \<and> kTextureBytesPerRowAlignment mod byteSize (block info) = 0 \<and>
             0 < blockWidth (block info) \<and> 0 < blockHeight (block info) \<and>
             (isCompressed f \<or> blockWidth (block info) = 1 \<and> blockHeight (block info) = 1) \<and>
             (\<exists>g. table ! (aspect_format info - 1) = g \<and> format_id g = aspect_format info \<and> format_aspects g = viewed_as a)"
    if f: "format_ok fs f" "isSupported f" "a \<in> set (IterateEnumMask (format_aspects f))" for f a
  proof -
    obtain info where info: "info \<in> set (aspectInfo f)" "GetAspectInfo f a = ok info" "format_kind (aspect_format info) = viewed_as a"
      using GetAspectInfo_ok [OF f] by blast
    then have b: "block_ok (block info)" "isCompressed f \<or> unit_block (block info)" and r: "0 < aspect_format info" "aspect_format info \<le> kKnownFormatCount"
      using f(1) by (auto simp: format_ok_def)
    have "format_id (table ! (aspect_format info - 1)) = aspect_format info" "format_ok fs (table ! (aspect_format info - 1))"
      using slots [of "aspect_format info - 1"] r by auto
    then show ?thesis using info b block_aligned [OF b(1)] by (auto simp: block_ok_def unit_block_def format_ok_def)
  qed
  have "if 0 < k \<and> k \<le> kKnownFormatCount \<and> format_available fs k
        then \<exists>f. GetInternalFormat table k = ok f \<and> GetValidInternalFormat table k = ok f \<and> format_id f = k \<and> format_aspects f = format_kind k \<and> format_ok fs f \<and> isSupported f
        else \<exists>msg. GetInternalFormat table k = validation_error msg" if "k < 2 ^ 32" for k
  proof (cases k)
    case 0
    then show ?thesis using t(2) by (auto simp: GetInternalFormat_def ComputeFormatIndex_def kKnownFormatCount_def)
  next
    case (Suc i)
    then have "ComputeFormatIndex k = i" using that by (simp add: format_index)
    then show ?thesis using t(2) slots [of i] Suc
      by (auto simp: GetInternalFormat_def GetValidInternalFormat_def assertR_def format_ok_def)
  qed
  then show ?thesis using t aspects by (intro exI [of _ table]) (fastforce split: if_splits)
qed

theorem format_table_typed_witness:
  "\<exists>table f info msg msg'. BuildFormatTable (\<lambda>_. False) = ok table \<and> GetInternalFormat table Depth24PlusStencil8 = ok f \<and>
     GetAspectInfo f Aspect_Stencil = ok info \<and> format_aspects (table ! (aspect_format info - 1)) = Aspect_Stencil \<and>
     GetInternalFormat table Stencil8 = validation_error msg \<and> GetInternalFormat table BC1RGBAUnorm = validation_error msg'"
proof -
  obtain table where t: "BuildFormatTable (\<lambda>_. False) = ok table" and
    all: "\<forall>k < 2 ^ 32. if 0 < k \<and> k \<le> kKnownFormatCount \<and> format_available (\<lambda>_. False) k
        then \<exists>f. GetInternalFormat table k = ok f \<and> GetValidInternalFormat table k = ok f \<and> format_id f = k \<and> format_aspects f = format_kind k \<and>
          (\<forall>a \<in> set (IterateEnumMask (format_aspects f)). \<exists>info. GetAspectInfo f a = ok info \<and>
             0 < byteSize (block info) \<and> kTextureBytesPerRowAlignment mod byteSize (block info) = 0 \<and>
             0 < blockWidth (block info) \<and> 0 < blockHeight (block info) \<and>
             (isCompressed f \<or> blockWidth (block info) = 1 \<and> blockHeight (block info) = 1) \<and>
             (\<exists>g. table ! (aspect_format info - 1) = g \<and> format_id g = aspect_format info \<and> format_aspects g = viewed_as a))
        else \<exists>msg. GetInternalFormat table k = validation_error msg"
    using format_table_typed [of "\<lambda>_. False"] by blast
  have k: "format_kind Depth24PlusStencil8 = Aspect_Depth OR Aspect_Stencil" "viewed_as Aspect_Stencil = Aspect_Stencil"
    by (simp_all add: format_kind_def viewed_as_def aspect_defs)
  obtain f where f: "GetInternalFormat table Depth24PlusStencil8 = ok f" and
    a: "\<forall>a \<in> {Aspect_Depth, Aspect_Stencil}. \<exists>info. GetAspectInfo f a = ok info \<and> format_aspects (table ! (aspect_format info - 1)) = viewed_as a"
    using all [rule_format, of Depth24PlusStencil8] by (auto simp: k format_available_def kKnownFormatCount_def)
  moreover have "\<exists>msg. GetInternalFormat table Stencil8 = validation_error msg" "\<exists>msg. GetInternalFormat table BC1RGBAUnorm = validation_error msg"
    using all [rule_format, of Stencil8] all [rule_format, of BC1RGBAUnorm] by (simp_all add: format_available_def)
  ultimately show ?thesis using t k by auto
qed

end
