(* ===== verification/Texture.thy ===== *)
theory Texture
  imports Subresource_Table Dawn_Math Formats_Spec
begin

unbundle bit_operations_syntax

text \<open>
  Textures and their views: \<open>dawn_native/Texture.cpp\<close>. A format number and the table it
  indexes are those of the device. Unsigned 32-bit arithmetic is written out where it may wrap.
\<close>

section \<open>Textures\<close>

datatype texture_dimension = Dim1D | Dim2D | Dim3D

record extent3d =
  width :: nat
  height :: nat
  depthOrArrayLayers :: nat

record texture =
  texture_error :: bool
  mDimension :: texture_dimension
  mFormat :: format
  mTextureSize :: extent3d
  mTextureMipLevelCount :: nat
  mSampleCount :: nat
  mTextureUsage :: "32 word"
  mInternalUsage :: "32 word"
  mDestroyed :: bool
  mIsSubresourceContentInitializedAtIndex :: "bool list"

definition GetArrayLayers :: "texture \<Rightarrow> nat res" where
  "GetArrayLayers t =
     bindR (assertR (\<not> texture_error t)) (\<lambda>_.
     bindR (assertR (mDimension t \<noteq> Dim1D)) (\<lambda>_.
       ok (if mDimension t = Dim3D then 1 else depthOrArrayLayers (mTextureSize t))))"

definition GetNumMipLevels :: "texture \<Rightarrow> nat res" where
  "GetNumMipLevels t = bindR (assertR (\<not> texture_error t)) (\<lambda>_. ok (mTextureMipLevelCount t))"

definition GetAllSubresources :: "texture \<Rightarrow> subresource_range res" where
  "GetAllSubresources t =
     bindR (GetArrayLayers t) (\<lambda>layers. ok (SubresourceRange (format_aspects (mFormat t)) (0, layers) (0, mTextureMipLevelCount t)))"

definition GetSubresourceIndex :: "texture \<Rightarrow> nat \<Rightarrow> nat \<Rightarrow> aspect \<Rightarrow> nat res" where
  "GetSubresourceIndex t mipLevel arraySlice a =
     bindR (assertR (HasOneBit a)) (\<lambda>_.
     bindR (GetNumMipLevels t) (\<lambda>levels.
     bindR (GetArrayLayers t) (\<lambda>layers.
     bindR (GetAspectIndex a) (\<lambda>i. ok (u32 (mipLevel + levels * (arraySlice + layers * i)))))))"

text \<open>The loops over a range read its bounds as 32-bit sums.\<close>

definition range_loop :: "subresource_range \<Rightarrow> (aspect \<times> nat \<times> nat) list" where
  "range_loop r = concat (map (\<lambda>a. concat (map (\<lambda>l. map (\<lambda>m. (a, l, m))
     [baseMipLevel r..<u32 (baseMipLevel r + levelCount r)]) [baseArrayLayer r..<u32 (baseArrayLayer r + layerCount r)]))
     (IterateEnumMask (aspects r)))"

definition IsSubresourceContentInitialized :: "texture \<Rightarrow> subresource_range \<Rightarrow> bool res" where
  "IsSubresourceContentInitialized t r =
     bindR (assertR (\<not> texture_error t)) (\<lambda>_.
       all_of (\<lambda>(a, l, m). bindR (GetSubresourceIndex t m l a) (\<lambda>i.
           vec_at (mIsSubresourceContentInitializedAtIndex t) (int i)))
         (range_loop r))"

definition SetIsSubresourceContentInitialized :: "bool \<Rightarrow> subresource_range \<Rightarrow> texture \<Rightarrow> texture res" where
  "SetIsSubresourceContentInitialized isInitialized r t =
     bindR (assertR (\<not> texture_error t)) (\<lambda>_.
       foldR (\<lambda>(a, l, m) t. bindR (GetSubresourceIndex t m l a) (\<lambda>i.
           bindR (vec_set (mIsSubresourceContentInitializedAtIndex t) (int i) isInitialized) (\<lambda>xs.
             ok (t\<lparr> mIsSubresourceContentInitializedAtIndex := xs \<rparr>))))
         (range_loop r) t)"

definition ValidateCanUseInSubmitNow :: "texture \<Rightarrow> unit res" where
  "ValidateCanUseInSubmitNow t =
     bindR (assertR (\<not> texture_error t)) (\<lambda>_.
       if mDestroyed t then validation_error ''Destroyed texture used in a submit'' else ok ())"

text \<open>A shift by the width of the type or more is undefined.\<close>

definition GetMipLevelVirtualSize :: "texture \<Rightarrow> nat \<Rightarrow> extent3d res" where
  "GetMipLevelVirtualSize t level =
     (let s = mTextureSize t in
      bindR (assertR (level < 32)) (\<lambda>_.
      ok \<lparr> width = max (width s div 2 ^ level) 1,
           height = (if mDimension t = Dim1D then 1 else max (height s div 2 ^ level) 1),
           depthOrArrayLayers = (if mDimension t = Dim3D then max (depthOrArrayLayers s div 2 ^ level) 1 else 1) \<rparr>))"

definition round_up_block :: "nat \<Rightarrow> nat \<Rightarrow> nat" where
  "round_up_block n b = u32 (n + b - 1) div b * b"

definition GetMipLevelPhysicalSize :: "texture \<Rightarrow> nat \<Rightarrow> extent3d res" where
  "GetMipLevelPhysicalSize t level =
     bindR (GetMipLevelVirtualSize t level) (\<lambda>e.
      if isCompressed (mFormat t) \<and> level \<noteq> 0 then
        bindR (GetAspectInfo_of (mFormat t) TextureAspect_All) (\<lambda>info.
          ok (e\<lparr> width := round_up_block (width e) (blockWidth (block info)),
                 height := round_up_block (height e) (blockHeight (block info)) \<rparr>))
      else ok e)"

record origin3d =
  ox :: nat
  oy :: nat
  oz :: nat

definition ClampToMipLevelVirtualSize :: "texture \<Rightarrow> nat \<Rightarrow> origin3d \<Rightarrow> extent3d \<Rightarrow> extent3d res" where
  "ClampToMipLevelVirtualSize t level origin extent =
     bindR (GetMipLevelVirtualSize t level) (\<lambda>v.
      bindR (assertR (ox origin \<le> width v)) (\<lambda>_.
      bindR (assertR (oy origin \<le> height v)) (\<lambda>_.
        ok \<lparr> width = (if width extent > width v - ox origin then width v - ox origin else width extent),
             height = (if height extent > height v - oy origin then height v - oy origin else height extent),
             depthOrArrayLayers = depthOrArrayLayers extent \<rparr>)))"

section \<open>Creation\<close>

text \<open>\<open>internal_usage\<close> is the chained \<open>DawnTextureInternalUsageDescriptor\<close>; a chain of another
  kind is not represented.\<close>

record texture_descriptor =
  internal_usage :: "32 word option"
  td_usage :: "32 word"
  dimension :: texture_dimension
  td_size :: extent3d
  td_format :: nat
  mipLevelCount :: nat
  sampleCount :: nat

record limits =
  maxTextureDimension2D :: nat
  maxTextureDimension3D :: nat
  maxTextureArrayLayers :: nat

record device_info =
  dev_limits :: limits
  dev_formats :: "format list"
  dev_features :: "feature \<Rightarrow> bool"
  disallow_unsafe_apis :: bool
  is_metal :: bool
  disable_r8rg8_mipmaps :: bool

abbreviation Tex_CopySrc :: "32 word" where "Tex_CopySrc \<equiv> 1"
abbreviation Tex_CopyDst :: "32 word" where "Tex_CopyDst \<equiv> 2"
abbreviation Tex_TextureBinding :: "32 word" where "Tex_TextureBinding \<equiv> 4"
abbreviation Tex_StorageBinding :: "32 word" where "Tex_StorageBinding \<equiv> 8"
abbreviation Tex_RenderAttachment :: "32 word" where "Tex_RenderAttachment \<equiv> 16"

definition IsValidSampleCount :: "nat \<Rightarrow> bool" where
  "IsValidSampleCount n \<longleftrightarrow> n = 1 \<or> n = 4"

definition ValidateSampleCount :: "texture_descriptor \<Rightarrow> 32 word \<Rightarrow> format \<Rightarrow> unit res" where
  "ValidateSampleCount d u f =
     (if \<not> IsValidSampleCount (sampleCount d) then validation_error ''sample count is not supported''
      else if sampleCount d > 1 then
        if mipLevelCount d > 1 then validation_error ''mip level count of a multisampled texture is not 1''
        else if dimension d \<noteq> Dim2D then validation_error ''dimension of a multisampled texture is not 2D''
        else if depthOrArrayLayers (td_size d) > 1 then validation_error ''depthOrArrayLayers of a multisampled texture is not 1''
        else if \<not> isRenderable f then validation_error ''format does not support multisampling''
        else bindR (assertR (\<not> isCompressed f)) (\<lambda>_.
          if u AND Tex_StorageBinding \<noteq> 0 then validation_error ''sample count of a storage texture is not 1'' else ok ())
      else ok ())"

definition ValidateTextureSize :: "limits \<Rightarrow> texture_descriptor \<Rightarrow> format \<Rightarrow> unit res" where
  "ValidateTextureSize lim d f =
     (let s = td_size d in
      bindR (assertR (width s \<noteq> 0 \<and> height s \<noteq> 0 \<and> depthOrArrayLayers s \<noteq> 0)) (\<lambda>_.
      bindR (case dimension d of
               Dim2D \<Rightarrow> ok (maxTextureDimension2D lim, maxTextureDimension2D lim, maxTextureArrayLayers lim)
             | Dim3D \<Rightarrow> ok (maxTextureDimension3D lim, maxTextureDimension3D lim, maxTextureDimension3D lim)
             | Dim1D \<Rightarrow> undef) (\<lambda>(mw, mh, md).
      if width s > mw \<or> height s > mh \<or> depthOrArrayLayers s > md then validation_error ''Texture size exceeded maximum''
      else
        let m0 = width s;
            m1 = (if dimension d \<noteq> Dim1D then max m0 (height s) else m0);
            maxMipped = (if dimension d = Dim3D then max m1 (depthOrArrayLayers s) else m1)
        in bindR (Log2_u32 (of_nat maxMipped)) (\<lambda>lg.
        if lg + 1 < mipLevelCount d then validation_error ''Texture mip level count exceeds the maximum''
        else if isCompressed f then
          bindR (GetAspectInfo_of f TextureAspect_All) (\<lambda>info.
            if width s mod blockWidth (block info) \<noteq> 0 \<or> height s mod blockHeight (block info) \<noteq> 0
            then validation_error ''size is not a multiple of the block size'' else ok ())
        else ok ()))))"

definition ValidateTextureUsageBits :: "32 word \<Rightarrow> unit res" where
  "ValidateTextureUsageBits u = (if u AND NOT 63 = 0 then ok () else validation_error ''Invalid value for WGPUTextureUsage'')"

definition ValidateTextureUsage :: "32 word \<Rightarrow> format \<Rightarrow> unit res" where
  "ValidateTextureUsage u f =
     bindR (ValidateTextureUsageBits u) (\<lambda>_.
       if isCompressed f \<and> \<not> IsSubset u (Tex_TextureBinding OR Tex_CopySrc OR Tex_CopyDst)
       then validation_error ''usage is incompatible with the compressed format''
       else if \<not> isRenderable f \<and> u AND Tex_RenderAttachment \<noteq> 0
       then validation_error ''usage is incompatible with the non-renderable format''
       else if \<not> supportsStorageUsage f \<and> u AND Tex_StorageBinding \<noteq> 0
       then validation_error ''storage usage is incompatible with the format''
       else if IsMultiPlanar f \<and> \<not> IsSubset u (Tex_TextureBinding OR Tex_CopySrc)
       then validation_error ''usage is incompatible with the multi-planar format''
       else ok ())"

definition all_usages :: "texture_descriptor \<Rightarrow> 32 word" where
  "all_usages d = (case internal_usage d of None \<Rightarrow> td_usage d | Some u \<Rightarrow> td_usage d OR u)"

definition ValidateTextureDescriptor :: "device_info \<Rightarrow> texture_descriptor \<Rightarrow> unit res" where
  "ValidateTextureDescriptor dev d =
     (if dimension d = Dim1D then validation_error ''1D textures are not supported (yet)''
      else if internal_usage d \<noteq> None \<and> \<not> dev_features dev DawnInternalUsages
      then validation_error ''dawn-internal-usages feature is not enabled''
      else bindR (GetInternalFormat (dev_formats dev) (td_format d)) (\<lambda>f.
        bindR (ValidateTextureUsage (all_usages d) f) (\<lambda>_.
        bindR (ValidateSampleCount d (all_usages d) f) (\<lambda>_.
        if width (td_size d) = 0 \<or> height (td_size d) = 0 \<or> depthOrArrayLayers (td_size d) = 0 \<or> mipLevelCount d = 0
        then validation_error ''texture size or mipLevelCount is empty''
        else if dimension d \<noteq> Dim2D \<and> isCompressed f then validation_error ''compressed format is not 2D''
        else if dimension d \<noteq> Dim2D \<and> HasDepthOrStencil f then validation_error ''depth/stencil format is not 2D''
        else bindR (ValidateTextureSize (dev_limits dev) d f) (\<lambda>_.
          if disallow_unsafe_apis dev \<and> HasStencil f \<and> mipLevelCount d > 1 \<and> is_metal dev
          then validation_error ''Stencil textures with more than one mip level are disabled on Metal''
          else if disable_r8rg8_mipmaps dev \<and> mipLevelCount d > 1 \<and> (td_format d = R8Unorm \<or> td_format d = RG8Unorm)
          then validation_error ''r8unorm and rg8unorm textures with more than one mip level are disabled on Metal''
          else ok ())))))"

definition TextureBase :: "device_info \<Rightarrow> texture_descriptor \<Rightarrow> texture res" where
  "TextureBase dev d =
     bindR (GetValidInternalFormat (dev_formats dev) (td_format d)) (\<lambda>f.
     let t = \<lparr> texture_error = False, mDimension = dimension d, mFormat = f, mTextureSize = td_size d,
               mTextureMipLevelCount = mipLevelCount d, mSampleCount = sampleCount d, mTextureUsage = td_usage d,
               mInternalUsage = all_usages d, mDestroyed = False, mIsSubresourceContentInitializedAtIndex = [] \<rparr>
     in bindR (GetArrayLayers t) (\<lambda>layers.
        bindR (GetAspectCount (format_aspects f)) (\<lambda>n.
          ok (t\<lparr> mIsSubresourceContentInitializedAtIndex := replicate (u32 (mipLevelCount d * layers * n)) False \<rparr>))))"

text \<open>\<open>create_impl\<close> is what the backend adds to the frontend object.\<close>

definition CreateTexture :: "bool \<Rightarrow> bool \<Rightarrow> (texture \<Rightarrow> unit res) \<Rightarrow> device_info \<Rightarrow> texture_descriptor \<Rightarrow> texture res" where
  "CreateTexture device_lost validation create_impl dev d =
     (if device_lost then validation_error ''device is lost''
      else bindR (if validation then ValidateTextureDescriptor dev d else ok ()) (\<lambda>_.
        bindR (TextureBase dev d) (\<lambda>t. bindR (create_impl t) (\<lambda>_. ok t))))"

section \<open>Views\<close>

datatype view_dimension = View_Undefined | View_1D | View_2D | View_2DArray | View_Cube | View_CubeArray | View_3D

record view_descriptor =
  vd_nextInChain :: bool
  vd_format :: nat
  vd_dimension :: view_dimension
  vd_baseMipLevel :: nat
  vd_mipLevelCount :: nat
  vd_baseArrayLayer :: nat
  vd_arrayLayerCount :: nat
  vd_aspect :: texture_aspect

text \<open>\<open>kArrayLayerCountUndefined\<close> and \<open>kMipLevelCountUndefined\<close>.\<close>

definition count_undefined :: nat where "count_undefined = 2 ^ 32 - 1"

definition sub_u32 :: "nat \<Rightarrow> nat \<Rightarrow> nat" where
  "sub_u32 a b = (a + 2 ^ 32 - b) mod 2 ^ 32"

definition GetTextureViewDescriptorWithDefaults :: "texture \<Rightarrow> view_descriptor \<Rightarrow> view_descriptor res" where
  "GetTextureViewDescriptorWithDefaults t d0 =
     (let dim = (if vd_dimension d0 = View_Undefined
                 then (case mDimension t of Dim1D \<Rightarrow> View_1D | Dim2D \<Rightarrow> View_2D | Dim3D \<Rightarrow> View_3D)
                 else vd_dimension d0);
          d1 = d0\<lparr> vd_dimension := dim, vd_format := (if vd_format d0 = 0 then format_id (mFormat t) else vd_format d0) \<rparr>
      in bindR (if vd_arrayLayerCount d1 = count_undefined
                then (case dim of
                        View_1D \<Rightarrow> ok (d1\<lparr> vd_arrayLayerCount := 1 \<rparr>)
                      | View_2D \<Rightarrow> ok (d1\<lparr> vd_arrayLayerCount := 1 \<rparr>)
                      | View_3D \<Rightarrow> ok (d1\<lparr> vd_arrayLayerCount := 1 \<rparr>)
                      | View_Cube \<Rightarrow> ok (d1\<lparr> vd_arrayLayerCount := 6 \<rparr>)
                      | View_Undefined \<Rightarrow> ok d1
                      | _ \<Rightarrow> bindR (GetArrayLayers t) (\<lambda>layers.
                               ok (d1\<lparr> vd_arrayLayerCount := sub_u32 layers (vd_baseArrayLayer d1) \<rparr>)))
                else ok d1) (\<lambda>d2.
         if vd_mipLevelCount d2 = count_undefined
         then bindR (GetNumMipLevels t) (\<lambda>levels. ok (d2\<lparr> vd_mipLevelCount := sub_u32 levels (vd_baseMipLevel d2) \<rparr>))
         else ok d2))"

definition ValidateTextureViewFormatCompatibility :: "texture \<Rightarrow> view_descriptor \<Rightarrow> unit res" where
  "ValidateTextureViewFormatCompatibility t d =
     (if format_id (mFormat t) \<noteq> vd_format d then
        bindR (if vd_aspect d \<noteq> TextureAspect_All
               then bindR (GetAspectInfo_of (mFormat t) (vd_aspect d)) (\<lambda>info. ok (aspect_format info = vd_format d))
               else ok False) (\<lambda>same.
          if same then ok () else validation_error ''The format of texture view is not compatible to the original texture'')
      else ok ())"

fun IsTextureViewDimensionCompatibleWithTextureDimension :: "view_dimension \<Rightarrow> texture_dimension \<Rightarrow> bool res" where
  "IsTextureViewDimensionCompatibleWithTextureDimension View_2D td = ok (td = Dim2D)"
| "IsTextureViewDimensionCompatibleWithTextureDimension View_2DArray td = ok (td = Dim2D)"
| "IsTextureViewDimensionCompatibleWithTextureDimension View_Cube td = ok (td = Dim2D)"
| "IsTextureViewDimensionCompatibleWithTextureDimension View_CubeArray td = ok (td = Dim2D)"
| "IsTextureViewDimensionCompatibleWithTextureDimension View_3D td = ok (td = Dim3D)"
| "IsTextureViewDimensionCompatibleWithTextureDimension _ td = undef"

fun IsArrayLayerValidForTextureViewDimension :: "view_dimension \<Rightarrow> nat \<Rightarrow> bool res" where
  "IsArrayLayerValidForTextureViewDimension View_2D n = ok (n = 1)"
| "IsArrayLayerValidForTextureViewDimension View_3D n = ok (n = 1)"
| "IsArrayLayerValidForTextureViewDimension View_2DArray n = ok True"
| "IsArrayLayerValidForTextureViewDimension View_Cube n = ok (n = 6)"
| "IsArrayLayerValidForTextureViewDimension View_CubeArray n = ok (n mod 6 = 0)"
| "IsArrayLayerValidForTextureViewDimension _ n = undef"

definition ValidateTextureViewDimensionCompatibility :: "texture \<Rightarrow> view_descriptor \<Rightarrow> unit res" where
  "ValidateTextureViewDimensionCompatibility t d =
     bindR (IsArrayLayerValidForTextureViewDimension (vd_dimension d) (vd_arrayLayerCount d)) (\<lambda>good.
     if \<not> good then validation_error ''dimension of the view is not compatible with the layer count''
     else bindR (IsTextureViewDimensionCompatibleWithTextureDimension (vd_dimension d) (mDimension t)) (\<lambda>good.
       if \<not> good then validation_error ''dimension of the view is not compatible with the dimension of the texture''
       else if vd_dimension d \<in> {View_Cube, View_CubeArray} \<and> width (mTextureSize t) \<noteq> height (mTextureSize t)
       then validation_error ''width and height are not equal''
       else ok ()))"

definition ValidateTextureViewDescriptor :: "texture \<Rightarrow> view_descriptor \<Rightarrow> unit res" where
  "ValidateTextureViewDescriptor t d =
     (if vd_nextInChain d then validation_error ''nextInChain must be nullptr''
      else bindR (assertR (\<not> texture_error t)) (\<lambda>_.
        if vd_dimension d = View_Undefined then validation_error ''Invalid value for WGPUTextureViewDimension''
        else if vd_dimension d = View_1D then validation_error ''1D texture views are not supported (yet)''
        else if vd_format d = 0 \<or> vd_format d > kKnownFormatCount then validation_error ''Invalid value for WGPUTextureFormat''
        else if SelectFormatAspects (format_aspects (mFormat t)) (vd_aspect d) = Aspect_None
        then validation_error ''format does not have the selected aspect''
        else if vd_arrayLayerCount d = 0 \<or> vd_mipLevelCount d = 0 then validation_error ''count is zero''
        else bindR (GetArrayLayers t) (\<lambda>layers.
          if vd_baseArrayLayer d + vd_arrayLayerCount d > layers then validation_error ''array layer range exceeds the layer count''
          else if vd_baseMipLevel d + vd_mipLevelCount d > mTextureMipLevelCount t
          then validation_error ''mip level range exceeds the level count''
          else bindR (ValidateTextureViewFormatCompatibility t d) (\<lambda>_. ValidateTextureViewDimensionCompatibility t d))))"

text \<open>The range of a view, from the format of the view.\<close>

definition TextureViewBase :: "format list \<Rightarrow> view_descriptor \<Rightarrow> subresource_range res" where
  "TextureViewBase mFormatTable d =
     bindR (GetValidInternalFormat mFormatTable (vd_format d)) (\<lambda>f.
     bindR (ConvertViewAspect (format_aspects f) (vd_aspect d)) (\<lambda>a.
       ok (SubresourceRange a (vd_baseArrayLayer d, vd_arrayLayerCount d) (vd_baseMipLevel d, vd_mipLevelCount d))))"

definition CreateTextureView ::
  "bool \<Rightarrow> bool \<Rightarrow> (texture \<Rightarrow> subresource_range \<Rightarrow> unit res) \<Rightarrow> device_info \<Rightarrow> texture \<Rightarrow> view_descriptor \<Rightarrow> subresource_range res" where
  "CreateTextureView device_lost validation create_impl dev t d =
     (if device_lost then validation_error ''device is lost''
      else if texture_error t then validation_error ''texture is an error''
      else bindR (GetTextureViewDescriptorWithDefaults t d) (\<lambda>desc.
        bindR (if validation then ValidateTextureViewDescriptor t desc else ok ()) (\<lambda>_.
        bindR (TextureViewBase (dev_formats dev) desc) (\<lambda>r. bindR (create_impl t r) (\<lambda>_. ok r)))))"

end
