(* ===== verification/Texture_Spec.thy ===== *)
theory Texture_Spec
  imports Texture
begin

unbundle bit_operations_syntax

text \<open>
  What the validation of textures and views guarantees: a created texture is well formed, the
  range of an accepted view lies inside its texture, and the record of initialised subresources
  has one cell per subresource.
\<close>

section \<open>Well-formed devices and textures\<close>

text \<open>The limits of \<open>dawn_native/Limits.cpp\<close> stay far below these bounds.\<close>

definition limits_ok :: "limits \<Rightarrow> bool" where
  "limits_ok lim \<longleftrightarrow> maxTextureDimension2D lim \<le> 2 ^ 31 \<and> maxTextureDimension3D lim \<le> 65535 \<and> maxTextureArrayLayers lim \<le> 65535"

definition device_ok :: "device_info \<Rightarrow> bool" where
  "device_ok dev \<longleftrightarrow> BuildFormatTable (dev_features dev) = ok (dev_formats dev) \<and> limits_ok (dev_limits dev)"

definition texture_ok :: "device_info \<Rightarrow> texture \<Rightarrow> bool" where
  "texture_ok dev t \<longleftrightarrow>
     \<not> texture_error t \<and> mDimension t \<noteq> Dim1D \<and> format_ok (dev_features dev) (mFormat t) \<and> isSupported (mFormat t) \<and>
     mFormat t = dev_formats dev ! (format_id (mFormat t) - 1) \<and> 0 < format_id (mFormat t) \<and> format_id (mFormat t) \<le> kKnownFormatCount \<and>
     0 < width (mTextureSize t) \<and> width (mTextureSize t) \<le> 2 ^ 31 \<and> 0 < height (mTextureSize t) \<and> height (mTextureSize t) \<le> 2 ^ 31 \<and>
     0 < depthOrArrayLayers (mTextureSize t) \<and> depthOrArrayLayers (mTextureSize t) \<le> 65535 \<and>
     0 < mTextureMipLevelCount t \<and> mTextureMipLevelCount t \<le> 32 \<and>
     2 ^ (mTextureMipLevelCount t - 1) \<le> Max {width (mTextureSize t), height (mTextureSize t), depthOrArrayLayers (mTextureSize t)} \<and>
     (mDimension t = Dim3D \<longrightarrow> \<not> isCompressed (mFormat t) \<and> \<not> HasDepthOrStencil (mFormat t)) \<and>
     (\<forall>info \<in> set (aspectInfo (mFormat t)). width (mTextureSize t) mod blockWidth (block info) = 0 \<and>
        height (mTextureSize t) mod blockHeight (block info) = 0)"

text \<open>The layers and aspects the texture has.\<close>

definition layers_of :: "texture \<Rightarrow> nat" where
  "layers_of t = (if mDimension t = Dim3D then 1 else depthOrArrayLayers (mTextureSize t))"

lemma device_formats:
  assumes "device_ok dev"
  shows "length (dev_formats dev) = kKnownFormatCount"
    "i < kKnownFormatCount \<Longrightarrow> format_id (dev_formats dev ! i) = Suc i \<and> format_ok (dev_features dev) (dev_formats dev ! i)"
  using assms BuildFormatTable_ok [of "dev_features dev"] by (auto simp: device_ok_def)

lemma GetInternalFormat_device:
  assumes "device_ok dev" "k < 2 ^ 32" "GetInternalFormat (dev_formats dev) k = ok f"
  shows "0 < k" "k \<le> kKnownFormatCount" "f = dev_formats dev ! (k - 1)" "format_id f = k" "format_ok (dev_features dev) f"
    "isSupported f" "GetValidInternalFormat (dev_formats dev) k = ok f"
proof -
  have i: "ComputeFormatIndex k < kKnownFormatCount" "f = dev_formats dev ! ComputeFormatIndex k" "isSupported f"
    using assms(3) device_formats(1) [OF assms(1)] by (auto simp: GetInternalFormat_def Let_def split: if_splits)
  then have "k \<noteq> 0" by (cases k) (auto simp: ComputeFormatIndex_def kKnownFormatCount_def)
  then have k: "0 < k" "ComputeFormatIndex k = k - 1" using format_index assms(2) by auto
  then show "0 < k" "k \<le> kKnownFormatCount" "f = dev_formats dev ! (k - 1)" using i by auto
  show "format_id f = k" "format_ok (dev_features dev) f" using device_formats(2) [OF assms(1) i(1)] i(2) k by auto
  show "isSupported f" "GetValidInternalFormat (dev_formats dev) k = ok f"
    using i device_formats(1) [OF assms(1)] by (auto simp: GetValidInternalFormat_def)
qed

lemma GetArrayLayers_ok [simp]: "texture_ok dev t \<Longrightarrow> GetArrayLayers t = ok (layers_of t)"
  by (simp add: GetArrayLayers_def texture_ok_def layers_of_def)

lemma layers_bound: "texture_ok dev t \<Longrightarrow> 0 < layers_of t \<and> layers_of t \<le> 65535"
  by (auto simp: texture_ok_def layers_of_def)

lemma GetNumMipLevels_ok [simp]: "texture_ok dev t \<Longrightarrow> GetNumMipLevels t = ok (mTextureMipLevelCount t)"
  by (simp add: GetNumMipLevels_def texture_ok_def)

lemma supported_aspect_count:
  assumes "format_ok fs f" "isSupported f"
  shows "\<exists>n. GetAspectCount (format_aspects f) = ok n"
  using assms format_kind_cases [of "format_id f"]
  by (auto simp: format_ok_def format_available_def GetAspectCount_def assertR_def aspect_defs)

section \<open>Creating a texture\<close>

lemma compressed_info:
  assumes "format_ok fs f" "isSupported f" "isCompressed f"
  shows "\<exists>info. aspectInfo f = [info] \<and> GetAspectInfo_of f TextureAspect_All = ok info \<and> block_ok (block info)"
proof -
  have c: "format_aspects f = Aspect_Color" using assms by (simp add: format_ok_def)
  moreover have "Aspect_Color \<noteq> Aspect_Depth OR Aspect_Stencil" "Aspect_Color \<noteq> Aspect_Plane0 OR Aspect_Plane1" by (simp_all add: aspect_defs)
  ultimately obtain info where i: "aspectInfo f = [info]" using assms(1) by (auto simp: format_ok_def map_eq_Cons_conv)
  then show ?thesis using assms(1) c GetAspectInfo_shapes(1) [OF c i]
    by (auto simp: format_ok_def GetAspectInfo_of_def SelectFormatAspects_def)
qed

lemma mip_levels_bound:
  assumes "Log2_u32 (of_nat n) = ok lg" "n < 2 ^ 32" "0 < n" "m \<le> Suc lg" "0 < m"
  shows "m \<le> 32" "2 ^ (m - 1) \<le> n"
proof -
  have w: "of_nat n \<noteq> (0 :: 32 word)" "unat (of_nat n :: 32 word) = n"
    using assms(2,3) by (auto simp: unat_of_nat word_of_nat_eq_0_iff take_bit_nat_eq_self dest: nat_dvd_not_less)
  from Log2_u32_eq [OF w(1)] assms(1) w(2) have lg: "lg < 32" "2 ^ lg \<le> n" by auto
  then show "m \<le> 32" using assms(4) by simp
  have "(2 :: nat) ^ (m - 1) \<le> 2 ^ lg" using assms(4) by (intro power_increasing) auto
  from this lg(2) show "2 ^ (m - 1) \<le> n" by (rule le_trans)
qed

lemma ValidateTextureSize_bounds:
  assumes "limits_ok lim" "ValidateTextureSize lim d f = ok ()" "format_ok fs f" "isSupported f" "0 < mipLevelCount d"
  shows "dimension d \<noteq> Dim1D" "0 < width (td_size d)" "width (td_size d) \<le> 2 ^ 31" "0 < height (td_size d)" "height (td_size d) \<le> 2 ^ 31"
    "0 < depthOrArrayLayers (td_size d)" "depthOrArrayLayers (td_size d) \<le> 65535" "mipLevelCount d \<le> 32"
    "2 ^ (mipLevelCount d - 1) \<le> max (width (td_size d)) (max (height (td_size d)) (depthOrArrayLayers (td_size d)))"
    "\<forall>info \<in> set (aspectInfo f). width (td_size d) mod blockWidth (block info) = 0 \<and> height (td_size d) mod blockHeight (block info) = 0"
proof -
  let ?s = "td_size d"
  have pos: "0 < width ?s" "0 < height ?s" "0 < depthOrArrayLayers ?s" and nd: "dimension d \<noteq> Dim1D"
    using assms(2) by (auto simp: ValidateTextureSize_def Let_def assertR_def bindR_Inr_iff split: if_splits texture_dimension.splits)
  then show "0 < width ?s" "0 < height ?s" "0 < depthOrArrayLayers ?s" "dimension d \<noteq> Dim1D" by auto
  show b: "width ?s \<le> 2 ^ 31" "height ?s \<le> 2 ^ 31" "depthOrArrayLayers ?s \<le> 65535"
    using assms(1,2) nd pos by (auto simp: ValidateTextureSize_def Let_def bindR_Inr_iff limits_ok_def split: if_splits texture_dimension.splits)
  let ?m = "if dimension d = Dim3D then max (max (width ?s) (height ?s)) (depthOrArrayLayers ?s) else max (width ?s) (height ?s)"
  obtain lg where lg: "Log2_u32 (of_nat ?m) = ok lg" "mipLevelCount d \<le> Suc lg"
    and blocks: "isCompressed f \<longrightarrow> (\<exists>info. GetAspectInfo_of f TextureAspect_All = ok info \<and>
       width ?s mod blockWidth (block info) = 0 \<and> height ?s mod blockHeight (block info) = 0)"
    using assms(2) nd pos by (cases "dimension d") (auto simp: ValidateTextureSize_def Let_def bindR_Inr_iff split: if_splits)
  have "?m < 2 ^ 32" "0 < ?m" using b pos by auto
  from mip_levels_bound [OF lg(1) this lg(2) assms(5)]
  show "mipLevelCount d \<le> 32" "2 ^ (mipLevelCount d - 1) \<le> max (width ?s) (max (height ?s) (depthOrArrayLayers ?s))"
    by (auto simp: max_def split: if_splits)
  show "\<forall>info \<in> set (aspectInfo f). width ?s mod blockWidth (block info) = 0 \<and> height ?s mod blockHeight (block info) = 0"
  proof (cases "isCompressed f")
    case True
    then show ?thesis using blocks compressed_info [OF assms(3,4)] by auto
  next
    case False
    then show ?thesis using assms(3) by (auto simp: format_ok_def unit_block_def)
  qed
qed

text \<open>One cell per subresource.\<close>

definition tracked_ok :: "texture \<Rightarrow> bool" where
  "tracked_ok t \<longleftrightarrow> (\<exists>n. GetAspectCount (format_aspects (mFormat t)) = ok n \<and>
     length (mIsSubresourceContentInitializedAtIndex t) = mTextureMipLevelCount t * layers_of t * n)"

lemma ValidateTextureDescriptor_accepts:
  assumes "ValidateTextureDescriptor dev d = ok ()"
  obtains f where "GetInternalFormat (dev_formats dev) (td_format d) = ok f" "ValidateTextureSize (dev_limits dev) d f = ok ()"
    "0 < mipLevelCount d" "dimension d = Dim3D \<longrightarrow> \<not> isCompressed f \<and> \<not> HasDepthOrStencil f"
  using assms unfolding ValidateTextureDescriptor_def res_iff by (elim conjE exE) (rule that; auto)

lemma created_texture_ok:
  assumes dev: "device_ok dev" "td_format d < 2 ^ 32" and v: "ValidateTextureDescriptor dev d = ok ()"
  shows "\<exists>t. TextureBase dev d = ok t \<and> texture_ok dev t \<and> tracked_ok t \<and> mTextureMipLevelCount t = mipLevelCount d \<and>
    mTextureSize t = td_size d \<and> mDimension t = dimension d \<and> format_id (mFormat t) = td_format d \<and>
    set (mIsSubresourceContentInitializedAtIndex t) \<subseteq> {False}"
proof -
  obtain f where f: "GetInternalFormat (dev_formats dev) (td_format d) = ok f" and size: "ValidateTextureSize (dev_limits dev) d f = ok ()"
    and m: "0 < mipLevelCount d" and td: "dimension d = Dim3D \<longrightarrow> \<not> isCompressed f \<and> \<not> HasDepthOrStencil f"
    using ValidateTextureDescriptor_accepts [OF v] .
  note fm = GetInternalFormat_device [OF dev f]
  have "limits_ok (dev_limits dev)" using dev(1) by (simp add: device_ok_def)
  note b = ValidateTextureSize_bounds [OF this size fm(5,6) m]
  obtain n where n: "GetAspectCount (format_aspects f) = ok n" using supported_aspect_count [OF fm(5,6)] by blast
  then have "n \<le> 2" using aspect_count_le by fastforce
  let ?layers = "if dimension d = Dim3D then 1 else depthOrArrayLayers (td_size d)"
  have "mipLevelCount d * ?layers * n \<le> 32 * 65535 * 2" using b \<open>n \<le> 2\<close> by (intro mult_le_mono) auto
  then have u: "u32 (mipLevelCount d * ?layers * n) = mipLevelCount d * ?layers * n" by (simp add: u32_def)
  show ?thesis
    using b m td f fm n u
    by (cases "dimension d = Dim3D") (simp_all add: TextureBase_def GetArrayLayers_def texture_ok_def tracked_ok_def layers_of_def Let_def set_replicate_conv_if)
qed

section \<open>Views\<close>

lemma and_pow2: "x AND 2 ^ k = (if bit x k then 2 ^ k else (0 :: nat))"
  by (rule bit_eqI) (auto simp: bit_and_iff bit_exp_iff)

lemma mask_and_subset: "set (IterateEnumMask (x AND y)) \<subseteq> set (IterateEnumMask x)"
  by (auto simp: IterateEnumMask_def bit_and_iff)

text \<open>The aspect a single-aspect selector names.\<close>

fun named_aspect :: "texture_aspect \<Rightarrow> aspect" where
  "named_aspect DepthOnly = Aspect_Depth"
| "named_aspect StencilOnly = Aspect_Stencil"
| "named_aspect Plane0Only = Aspect_Plane0"
| "named_aspect Plane1Only = Aspect_Plane1"
| "named_aspect TextureAspect_All = Aspect_None"

lemma SelectFormatAspects_single:
  assumes "b \<noteq> TextureAspect_All" "SelectFormatAspects x b \<noteq> Aspect_None"
  shows "SelectFormatAspects x b = named_aspect b" "named_aspect b \<in> set (IterateEnumMask x)" "HasOneBit (named_aspect b)"
proof -
  have s: "SelectFormatAspects x b = x AND named_aspect b" using assms(1) by (cases b) (simp_all add: SelectFormatAspects_def)
  define k :: nat where "k = (case b of DepthOnly \<Rightarrow> 1 | StencilOnly \<Rightarrow> 2 | Plane0Only \<Rightarrow> 3 | _ \<Rightarrow> 4)"
  have k: "named_aspect b = 2 ^ k" "k < 6" using assms(1) by (cases b; simp add: k_def aspect_defs)+
  have "bit x k" using assms(2) by (simp add: s k and_pow2 Aspect_None_def split: if_splits)
  then show "SelectFormatAspects x b = named_aspect b" "named_aspect b \<in> set (IterateEnumMask x)"
    using k by (auto simp: s and_pow2 IterateEnumMask_def)
  show "HasOneBit (named_aspect b)" using assms(1) by (cases b) (simp_all add: HasOneBit_eval)
qed

lemma texture_aspect_info:
  assumes "texture_ok dev t" "b \<noteq> TextureAspect_All" "SelectFormatAspects (format_aspects (mFormat t)) b \<noteq> Aspect_None"
  shows "\<exists>info \<in> set (aspectInfo (mFormat t)). GetAspectInfo_of (mFormat t) b = ok info \<and> format_kind (aspect_format info) = viewed_as (named_aspect b) \<and>
    0 < aspect_format info \<and> aspect_format info \<le> kKnownFormatCount"
proof -
  have f: "format_ok (dev_features dev) (mFormat t)" "isSupported (mFormat t)" using assms(1) by (simp_all add: texture_ok_def)
  note s = SelectFormatAspects_single [OF assms(2,3)]
  show ?thesis using GetAspectInfo_ok [OF f s(2)] format_okD(4,5) [OF f(1)] by (auto simp: GetAspectInfo_of_def s(1))
qed

lemma ConvertViewAspect_of_texture:
  assumes "SelectFormatAspects x b \<noteq> Aspect_None"
  shows "\<exists>a. ConvertViewAspect x b = ok a \<and> a \<noteq> 0 \<and> set (IterateEnumMask a) \<subseteq> set (IterateEnumMask x)"
proof -
  have "\<not> (x = Aspect_Color \<and> (b = Plane0Only \<or> b = Plane1Only))"
    using assms by (auto simp: SelectFormatAspects_def aspect_defs)
  moreover have "set (IterateEnumMask (SelectFormatAspects x b)) \<subseteq> set (IterateEnumMask x)"
    using mask_and_subset by (cases b) (simp_all add: SelectFormatAspects_def)
  ultimately show ?thesis using assms by (auto simp: ConvertViewAspect_def ConvertAspect_def Aspect_None_def)
qed

lemma ConvertViewAspect_of_plane:
  assumes "b \<noteq> TextureAspect_All" "b \<noteq> StencilOnly"
  shows "ConvertViewAspect (viewed_as (named_aspect b)) b = ok (named_aspect b)"
  using assms by (cases b) (simp_all add: ConvertViewAspect_def ConvertAspect_def SelectFormatAspects_def viewed_as_def aspect_defs)

lemma single_mask: "b \<noteq> TextureAspect_All \<Longrightarrow> IterateEnumMask (named_aspect b) = [named_aspect b] \<and> named_aspect b \<noteq> 0"
  by (cases b) (simp_all add: IterateEnumMask_def aspect_defs upt_conv_Cons bit_Suc_0_iff)

lemma kind_available:
  "k < BC1RGBAUnorm \<Longrightarrow> format_kind k = Aspect_Color \<or> format_kind k = Aspect_Depth \<Longrightarrow> format_available fs k"
  by (auto simp: format_available_def format_kind_def aspect_defs)

lemma valid_view_aspects:
  assumes dev: "device_ok dev" and t: "texture_ok dev t" and k: "0 < vd_format d" "vd_format d \<le> kKnownFormatCount" "vd_format d \<noteq> Stencil8"
    and sel: "SelectFormatAspects (format_aspects (mFormat t)) (vd_aspect d) \<noteq> Aspect_None"
    and ok: "ValidateTextureViewFormatCompatibility t d = ok ()"
  shows "\<exists>f a. GetValidInternalFormat (dev_formats dev) (vd_format d) = ok f \<and> ConvertViewAspect (format_aspects f) (vd_aspect d) = ok a \<and>
    a \<noteq> 0 \<and> set (IterateEnumMask a) \<subseteq> set (IterateEnumMask (format_aspects (mFormat t)))"
proof -
  let ?f = "dev_formats dev ! (vd_format d - 1)"
  have i: "ComputeFormatIndex (vd_format d) = vd_format d - 1" "vd_format d - 1 < kKnownFormatCount"
    using k by (simp_all add: format_index kKnownFormatCount_def)
  have f: "format_id ?f = vd_format d" "format_ok (dev_features dev) ?f" using device_formats(2) [OF dev i(2)] k(1) by auto
  show ?thesis
  proof (cases "vd_format d = format_id (mFormat t)")
    case True
    then have "?f = mFormat t" "isSupported (mFormat t)" using t by (auto simp: texture_ok_def)
    then have "GetValidInternalFormat (dev_formats dev) (vd_format d) = ok (mFormat t)"
      using i device_formats(1) [OF dev] by (simp add: GetValidInternalFormat_def)
    then show ?thesis using ConvertViewAspect_of_texture [OF sel] by auto
  next
    case False
    then obtain info where b: "vd_aspect d \<noteq> TextureAspect_All" and info: "GetAspectInfo_of (mFormat t) (vd_aspect d) = ok info" "aspect_format info = vd_format d"
      using ok by (auto simp: ValidateTextureViewFormatCompatibility_def bindR_Inr_iff split: if_splits)
    note s = SelectFormatAspects_single [OF b sel]
    have kind: "format_kind (vd_format d) = viewed_as (named_aspect (vd_aspect d))" and sm: "info \<in> set (aspectInfo (mFormat t))"
      using texture_aspect_info [OF t b sel] info by auto
    then have "vd_aspect d \<noteq> StencilOnly" using k(3) by (auto simp: format_kind_def viewed_as_def aspect_defs split: if_splits)
    then have "ConvertViewAspect (format_aspects ?f) (vd_aspect d) = ok (named_aspect (vd_aspect d))"
      using ConvertViewAspect_of_plane [OF b] kind f by (simp add: format_ok_def)
    moreover have "format_available (dev_features dev) (vd_format d)"
    proof (rule kind_available)
      show "vd_format d < BC1RGBAUnorm" using format_okD(6) [OF _ sm, of "dev_features dev"] t False info(2) by (auto simp: texture_ok_def)
      show "format_kind (vd_format d) = Aspect_Color \<or> format_kind (vd_format d) = Aspect_Depth"
        using kind b \<open>vd_aspect d \<noteq> StencilOnly\<close> by (cases "vd_aspect d") (simp_all add: viewed_as_def aspect_defs)
    qed
    then have "isSupported ?f" using f format_okD(2) by simp
    then have "GetValidInternalFormat (dev_formats dev) (vd_format d) = ok ?f"
      using i device_formats(1) [OF dev] by (simp add: GetValidInternalFormat_def)
    ultimately show ?thesis using s(2) single_mask [OF b] by (intro exI [of _ ?f] exI [of _ "named_aspect (vd_aspect d)"]) simp
  qed
qed

lemma view_defaults:
  assumes "texture_ok dev t"
  shows "\<exists>d'. GetTextureViewDescriptorWithDefaults t d = ok d' \<and> vd_aspect d' = vd_aspect d \<and>
    vd_format d' = (if vd_format d = 0 then format_id (mFormat t) else vd_format d)"
  using assms by (cases "vd_dimension d"; cases "mDimension t") (simp_all add: GetTextureViewDescriptorWithDefaults_def Let_def)

lemma ValidateTextureViewDescriptor_accepts:
  assumes "texture_ok dev t" "ValidateTextureViewDescriptor t d = ok ()"
  shows "0 < vd_format d" "vd_format d \<le> kKnownFormatCount" "SelectFormatAspects (format_aspects (mFormat t)) (vd_aspect d) \<noteq> Aspect_None"
    "0 < vd_arrayLayerCount d" "0 < vd_mipLevelCount d" "vd_baseArrayLayer d + vd_arrayLayerCount d \<le> layers_of t"
    "vd_baseMipLevel d + vd_mipLevelCount d \<le> mTextureMipLevelCount t" "ValidateTextureViewFormatCompatibility t d = ok ()"
proof -
  note v = assms(2) [unfolded ValidateTextureViewDescriptor_def res_iff GetArrayLayers_ok [OF assms(1)] bindR.simps]
  from v show "0 < vd_format d" "vd_format d \<le> kKnownFormatCount" "SelectFormatAspects (format_aspects (mFormat t)) (vd_aspect d) \<noteq> Aspect_None"
    "0 < vd_arrayLayerCount d" "0 < vd_mipLevelCount d" "ValidateTextureViewFormatCompatibility t d = ok ()" by auto
  from v show "vd_baseArrayLayer d + vd_arrayLayerCount d \<le> layers_of t" "vd_baseMipLevel d + vd_mipLevelCount d \<le> mTextureMipLevelCount t"
    by (auto simp: not_less)
qed

text \<open>Rejecting is not undefined.\<close>

lemma guard_undef_iff: "(if c then validation_error m else r) = undef \<longleftrightarrow> \<not> c \<and> r = undef"
  by simp

lemma view_format_defined:
  assumes "texture_ok dev t" "SelectFormatAspects (format_aspects (mFormat t)) (vd_aspect d) \<noteq> Aspect_None"
  shows "ValidateTextureViewFormatCompatibility t d \<noteq> undef"
  using texture_aspect_info [OF assms(1) _ assms(2)]
  by (cases "vd_aspect d = TextureAspect_All") (auto simp: ValidateTextureViewFormatCompatibility_def split: if_splits)

lemma view_dimension_defined:
  "vd_dimension d \<noteq> View_Undefined \<Longrightarrow> vd_dimension d \<noteq> View_1D \<Longrightarrow> ValidateTextureViewDimensionCompatibility t d \<noteq> undef"
  by (cases "vd_dimension d") (simp_all add: ValidateTextureViewDimensionCompatibility_def)

lemma view_validation_defined:
  assumes "texture_ok dev t"
  shows "ValidateTextureViewDescriptor t d \<noteq> undef"
proof -
  have "\<not> texture_error t" using assms by (simp add: texture_ok_def)
  then show ?thesis
    using view_format_defined [OF assms] view_dimension_defined
    by (auto simp: ValidateTextureViewDescriptor_def guard_undef_iff GetArrayLayers_ok [OF assms] bindR_Inl_iff simp del: if_split)
qed

lemma created_view_range:
  assumes dev: "device_ok dev" and t: "texture_ok dev t" and v: "ValidateTextureViewDescriptor t d = ok ()" and s: "vd_format d \<noteq> Stencil8"
  shows "\<exists>r. TextureViewBase (dev_formats dev) d = ok r \<and> aspects r \<noteq> 0 \<and> 0 < layerCount r \<and> 0 < levelCount r \<and>
    set (IterateEnumMask (aspects r)) \<subseteq> set (IterateEnumMask (format_aspects (mFormat t))) \<and>
    baseArrayLayer r + layerCount r \<le> layers_of t \<and> baseMipLevel r + levelCount r \<le> mTextureMipLevelCount t"
proof -
  note a = ValidateTextureViewDescriptor_accepts [OF t v]
  from valid_view_aspects [OF dev t a(1,2) s a(3,8)] a(4-7) show ?thesis
    by (auto simp: TextureViewBase_def SubresourceRange_def)
qed

lemma texture_storage:
  assumes "texture_ok dev t"
  shows "\<exists>st. SubresourceStorage (format_aspects (mFormat t)) (layers_of t) (mTextureMipLevelCount t) v = ok st \<and> storage_inv st \<and>
    mAspects st = format_aspects (mFormat t) \<and> mArrayLayerCount st = layers_of t \<and> mMipLevelCount st = mTextureMipLevelCount t \<and>
    (\<forall>(a, l, m) \<in> set (all_cells st). Get st a l m = ok v)"
proof -
  obtain n where n: "GetAspectCount (format_aspects (mFormat t)) = ok n"
    using supported_aspect_count [of "dev_features dev" "mFormat t"] assms by (auto simp: texture_ok_def)
  have m: "0 < mTextureMipLevelCount t" "mTextureMipLevelCount t \<le> 255" using assms by (auto simp: texture_ok_def)
  have l: "0 < layers_of t" "layers_of t \<le> 65535" using layers_bound [OF assms] by auto
  show ?thesis by (rule storage_inv_new [OF n l m])
qed

section \<open>The record of initialised subresources\<close>

definition inside :: "texture \<Rightarrow> subresource_range \<Rightarrow> bool" where
  "inside t r \<longleftrightarrow> set (IterateEnumMask (aspects r)) \<subseteq> set (IterateEnumMask (format_aspects (mFormat t))) \<and>
     baseArrayLayer r + layerCount r \<le> layers_of t \<and> baseMipLevel r + levelCount r \<le> mTextureMipLevelCount t"

definition texture_cell :: "texture \<Rightarrow> aspect \<times> nat \<times> nat \<Rightarrow> bool" where
  "texture_cell t = (\<lambda>(a, l, m). a \<in> set (IterateEnumMask (format_aspects (mFormat t))) \<and> l < layers_of t \<and> m < mTextureMipLevelCount t)"

definition cell_index :: "texture \<Rightarrow> aspect \<times> nat \<times> nat \<Rightarrow> nat" where
  "cell_index t = (\<lambda>(a, l, m). m + mTextureMipLevelCount t * (l + layers_of t * idx a))"

lemma inside_cells: "inside t r \<Longrightarrow> c \<in> set (cells r) \<Longrightarrow> texture_cell t c"
  by (cases c) (auto simp: inside_def texture_cell_def cells_iff in_range_def)

lemma range_loop_cells:
  assumes "texture_ok dev t" "inside t r"
  shows "range_loop r = cells r"
proof -
  have "baseArrayLayer r + layerCount r < 2 ^ 32" "baseMipLevel r + levelCount r < 2 ^ 32"
    using assms layers_bound [OF assms(1)] by (auto simp: inside_def texture_ok_def)
  then show ?thesis by (simp add: range_loop_def cells_def u32_def)
qed

lemma mixed_radix_inj:
  fixes m m' M l l' L i i' :: nat
  assumes "m + M * (l + L * i) = m' + M * (l' + L * i')" "m < M" "m' < M" "l < L" "l' < L"
  shows "m = m' \<and> l = l' \<and> i = i'"
proof -
  have "(m + M * (l + L * i)) mod M = m" "(m' + M * (l' + L * i')) mod M = m'"
    "(m + M * (l + L * i)) div M = l + L * i" "(m' + M * (l' + L * i')) div M = l' + L * i'" using assms(2,3) by simp_all
  then have m: "m = m'" "l + L * i = l' + L * i'" using assms(1) by metis+
  have "(l + L * i) mod L = l" "(l' + L * i') mod L = l'" "(l + L * i) div L = i" "(l' + L * i') div L = i'" using assms(4,5) by simp_all
  then show ?thesis using m by metis
qed

lemma cell_index_facts:
  assumes t: "texture_ok dev t" "tracked_ok t" and c: "texture_cell t (a, l, m)"
  shows "GetSubresourceIndex t m l a = ok (cell_index t (a, l, m))"
    "cell_index t (a, l, m) < length (mIsSubresourceContentInitializedAtIndex t)"
    "texture_cell t c' \<Longrightarrow> cell_index t c' = cell_index t (a, l, m) \<Longrightarrow> c' = (a, l, m)"
proof -
  let ?L = "layers_of t" let ?M = "mTextureMipLevelCount t"
  obtain n where n: "GetAspectCount (format_aspects (mFormat t)) = ok n" "length (mIsSubresourceContentInitializedAtIndex t) = ?M * ?L * n"
    using t(2) by (auto simp: tracked_ok_def)
  note mask = mask_aspects [OF n(1)]
  have a: "a \<in> single_aspects" "idx a < n" "l < ?L" "m < ?M" using c mask(1,2) by (auto simp: texture_cell_def)
  have "Suc (idx a) \<le> n" using a by simp
  then have "?L * Suc (idx a) \<le> ?L * n" by (rule mult_le_mono2)
  then have "Suc (l + ?L * idx a) \<le> ?L * n" using a(3) by simp
  then have "?M * Suc (l + ?L * idx a) \<le> ?M * (?L * n)" by (rule mult_le_mono2)
  then show lt: "cell_index t (a, l, m) < length (mIsSubresourceContentInitializedAtIndex t)"
    using a(4) n(2) by (simp add: cell_index_def mult.assoc)
  have "n \<le> 2" using aspect_count_le [OF n(1)] by auto
  then have "?M * ?L * n \<le> 32 * 65535 * 2" using layers_bound [OF t(1)] t(1) by (intro mult_le_mono) (auto simp: texture_ok_def)
  then have "cell_index t (a, l, m) < 2 ^ 32" using lt n(2) by simp
  then show "GetSubresourceIndex t m l a = ok (cell_index t (a, l, m))"
    using t(1) single_aspect [OF a(1)] by (simp add: GetSubresourceIndex_def cell_index_def u32_def)
  assume c': "texture_cell t c'" and eq: "cell_index t c' = cell_index t (a, l, m)"
  obtain a' l' m' where s: "c' = (a', l', m')" by (cases c')
  have b: "a' \<in> set (IterateEnumMask (format_aspects (mFormat t)))" "a \<in> set (IterateEnumMask (format_aspects (mFormat t)))" "l' < ?L" "m' < ?M"
    using c c' by (auto simp: s texture_cell_def)
  have "m' + ?M * (l' + ?L * idx a') = m + ?M * (l + ?L * idx a)" using eq by (simp add: s cell_index_def)
  from mixed_radix_inj [OF this b(4) a(4) b(3) a(3)] show "c' = (a, l, m)" using inj_onD [OF mask(3) _ b(1,2)] s by simp
qed

lemma only_record_changes [simp]:
  "texture_ok dev (t\<lparr> mIsSubresourceContentInitializedAtIndex := xs \<rparr>) = texture_ok dev t"
  "layers_of (t\<lparr> mIsSubresourceContentInitializedAtIndex := xs \<rparr>) = layers_of t"
  "cell_index (t\<lparr> mIsSubresourceContentInitializedAtIndex := xs \<rparr>) = cell_index t"
  "inside (t\<lparr> mIsSubresourceContentInitializedAtIndex := xs \<rparr>) = inside t"
  "texture_cell (t\<lparr> mIsSubresourceContentInitializedAtIndex := xs \<rparr>) = texture_cell t"
  by (auto simp: texture_ok_def layers_of_def cell_index_def inside_def texture_cell_def fun_eq_iff)

definition recorded :: "texture \<Rightarrow> aspect \<times> nat \<times> nat \<Rightarrow> bool" where
  "recorded t c = mIsSubresourceContentInitializedAtIndex t ! cell_index t c"

lemma IsSubresourceContentInitialized_ok:
  assumes t: "texture_ok dev t" "tracked_ok t" and q: "inside t q"
  shows "IsSubresourceContentInitialized t q = ok (\<forall>c \<in> set (cells q). recorded t c)"
proof -
  have e: "\<not> texture_error t" using t(1) by (simp add: texture_ok_def)
  have "(case c of (a, l, m) \<Rightarrow> bindR (GetSubresourceIndex t m l a) (\<lambda>i. vec_at (mIsSubresourceContentInitializedAtIndex t) (int i))) = ok (recorded t c)"
    if c: "c \<in> set (cells q)" for c
  proof -
    obtain a l m where s: "c = (a, l, m)" by (cases c)
    then show ?thesis using cell_index_facts(1,2) [OF t inside_cells [OF q c, unfolded s]] by (simp add: recorded_def)
  qed
  then show ?thesis using e by (simp add: IsSubresourceContentInitialized_def range_loop_cells [OF t(1) q] all_of_ok)
qed

lemma SetIsSubresourceContentInitialized_ok:
  assumes t: "texture_ok dev t" "tracked_ok t" and r: "inside t r"
  shows "\<exists>xs. SetIsSubresourceContentInitialized b r t = ok (t\<lparr> mIsSubresourceContentInitializedAtIndex := xs \<rparr>) \<and>
    length xs = length (mIsSubresourceContentInitializedAtIndex t) \<and>
    (\<forall>c. texture_cell t c \<longrightarrow> xs ! cell_index t c = (if c \<in> set (cells r) then b else recorded t c))"
proof -
  let ?P = "\<lambda>ys t'. \<exists>xs. t' = t\<lparr> mIsSubresourceContentInitializedAtIndex := xs \<rparr> \<and> length xs = length (mIsSubresourceContentInitializedAtIndex t) \<and>
    (\<forall>c. texture_cell t c \<longrightarrow> xs ! cell_index t c = (if c \<in> set ys then b else recorded t c))"
  let ?f = "\<lambda>(a, l, m) t. bindR (GetSubresourceIndex t m l a) (\<lambda>i.
           bindR (vec_set (mIsSubresourceContentInitializedAtIndex t) (int i) b) (\<lambda>xs. ok (t\<lparr> mIsSubresourceContentInitializedAtIndex := xs \<rparr>)))"
  have "\<exists>t'. foldR ?f (cells r) t = ok t' \<and> ?P (cells r) t'"
  proof (rule foldR_invariant)
    show "?P [] t" by (intro exI [of _ "mIsSubresourceContentInitializedAtIndex t"]) (simp add: recorded_def)
  next
    fix ys c zs t' assume split: "cells r = ys @ c # zs" and p: "?P ys t'"
    then obtain xs where xs: "t' = t\<lparr> mIsSubresourceContentInitializedAtIndex := xs \<rparr>" "length xs = length (mIsSubresourceContentInitializedAtIndex t)"
      "\<And>c. texture_cell t c \<Longrightarrow> xs ! cell_index t c = (if c \<in> set ys then b else recorded t c)" by blast
    obtain a l m where c: "c = (a, l, m)" by (cases c)
    have cell: "texture_cell t (a, l, m)" using inside_cells [OF r] split c by simp
    have tr: "tracked_ok t'" "texture_ok dev t'" using t by (simp_all add: xs(1,2) tracked_ok_def)
    have i: "GetSubresourceIndex t' m l a = ok (cell_index t (a, l, m))" "cell_index t (a, l, m) < length xs"
      using cell_index_facts(1,2) [OF tr(2,1), of a l m] cell by (simp_all add: xs(1))
    have "xs[cell_index t (a, l, m) := b] ! cell_index t d = (if d \<in> set (ys @ [c]) then b else recorded t d)" if d: "texture_cell t d" for d
      using xs(3) [OF d] i(2) cell_index_facts(3) [OF t cell d] by (auto simp: c nth_list_update)
    then show "\<exists>t''. ?f c t' = ok t'' \<and> ?P (ys @ [c]) t''"
      using i xs(1,2) by (intro exI [of _ "t\<lparr> mIsSubresourceContentInitializedAtIndex := xs[cell_index t (a, l, m) := b] \<rparr>"]) (auto simp: c)
  qed
  moreover have "\<not> texture_error t" using t(1) by (simp add: texture_ok_def)
  ultimately show ?thesis by (auto simp: SetIsSubresourceContentInitialized_def range_loop_cells [OF t(1) r])
qed

section \<open>A texture\<close>

text \<open>A device without features and the default limits creates textures of 8 by 4 texels, three
  layers and four levels.\<close>

definition sample_descriptor :: "nat \<Rightarrow> texture_descriptor" where
  "sample_descriptor k = \<lparr> internal_usage = None, td_usage = Tex_TextureBinding, dimension = Dim2D,
     td_size = \<lparr> width = 8, height = 4, depthOrArrayLayers = 3 \<rparr>, td_format = k, mipLevelCount = 4, sampleCount = 1 \<rparr>"

definition sample_device :: "format list \<Rightarrow> device_info" where
  "sample_device table = \<lparr> dev_limits = \<lparr> maxTextureDimension2D = 8192, maxTextureDimension3D = 2048, maxTextureArrayLayers = 256 \<rparr>,
     dev_formats = table, dev_features = (\<lambda>_. False), disallow_unsafe_apis = False, is_metal = False, disable_r8rg8_mipmaps = False \<rparr>"

lemma sample_texture:
  assumes "k = RGBA8Unorm \<or> k = Depth24PlusStencil8"
  shows "\<exists>dev t. device_ok dev \<and> CreateTexture False True (\<lambda>_. ok ()) dev (sample_descriptor k) = ok t \<and> texture_ok dev t \<and>
    format_aspects (mFormat t) = format_kind k \<and> mDimension t = Dim2D \<and> layers_of t = 3 \<and> mTextureMipLevelCount t = 4"
proof -
  obtain table where table: "BuildFormatTable (\<lambda>_. False) = ok table" using BuildFormatTable_ok by blast
  define dev where "dev = sample_device table"
  have dev: "device_ok dev" using table by (simp add: dev_def sample_device_def device_ok_def limits_ok_def)
  have k: "0 < k" "k - 1 < kKnownFormatCount" "ComputeFormatIndex k = k - 1" "k < 2 ^ 32"
    using assms by (auto simp: kKnownFormatCount_def ComputeFormatIndex_def)
  define f where "f = dev_formats dev ! (k - 1)"
  have f: "format_id f = k" "format_ok (dev_features dev) f" using device_formats(2) [OF dev k(2)] k(1) by (auto simp: f_def)
  have a: "format_aspects f = format_kind k" "isSupported f" "\<not> isCompressed f"
    using f assms by (auto simp: format_ok_def format_available_def)
  have get: "GetInternalFormat (dev_formats dev) k = ok f" using device_formats(1) [OF dev] k a(2) by (simp add: GetInternalFormat_def f_def)
  have lg: "Log2_u32 8 = ok 3" by code_simp
  have planes: "\<not> IsMultiPlanar f" using a(1) assms by (auto simp: IsMultiPlanar_def format_kind_def aspect_defs)
  have "ValidateTextureSize (dev_limits dev) (sample_descriptor k) f = ok ()"
    using lg a(3) by (simp add: ValidateTextureSize_def sample_descriptor_def dev_def sample_device_def)
  moreover have "ValidateTextureUsage (td_usage (sample_descriptor k)) f = ok ()"
    using planes a(3) by (simp add: ValidateTextureUsage_def ValidateTextureUsageBits_def sample_descriptor_def)
  ultimately have v: "ValidateTextureDescriptor dev (sample_descriptor k) = ok ()"
    using get by (simp add: ValidateTextureDescriptor_def sample_descriptor_def all_usages_def ValidateSampleCount_def IsValidSampleCount_def
      dev_def sample_device_def)
  have td: "td_format (sample_descriptor k) = k" by (simp add: sample_descriptor_def)
  obtain t where t: "TextureBase dev (sample_descriptor k) = ok t" "texture_ok dev t" "mTextureMipLevelCount t = 4"
    "mTextureSize t = \<lparr> width = 8, height = 4, depthOrArrayLayers = 3 \<rparr>" "mDimension t = Dim2D" "format_id (mFormat t) = k"
    using created_texture_ok [OF dev _ v] k(4) td by (auto simp: sample_descriptor_def)
  moreover have "format_aspects (mFormat t) = format_kind k" using t format_okD(1) by (auto simp: texture_ok_def)
  ultimately show ?thesis using dev v by (intro exI [of _ dev] exI [of _ t]) (simp add: CreateTexture_def layers_of_def)
qed

section \<open>Properties\<close>

lemma CreateTexture_ok:
  assumes "device_ok dev" "td_format d < 2 ^ 32" "CreateTexture False True create_impl dev d = ok t"
  shows "texture_ok dev t" "tracked_ok t" "format_id (mFormat t) = td_format d" "mDimension t = dimension d"
    "mTextureSize t = td_size d" "mTextureMipLevelCount t = mipLevelCount d" "set (mIsSubresourceContentInitializedAtIndex t) \<subseteq> {False}"
  using assms(3) created_texture_ok [OF assms(1,2)] by (auto simp: CreateTexture_def bindR_Inr_iff)

lemma GetAllSubresources_ok:
  "texture_ok dev t \<Longrightarrow> GetAllSubresources t = ok (SubresourceRange (format_aspects (mFormat t)) (0, layers_of t) (0, mTextureMipLevelCount t))"
  by (simp add: GetAllSubresources_def)

lemma stencil8_unavailable:
  assumes "device_ok dev"
  shows "GetValidInternalFormat (dev_formats dev) Stencil8 = undef"
proof -
  have "ComputeFormatIndex Stencil8 = 36" by (simp add: ComputeFormatIndex_def)
  moreover have "\<not> isSupported (dev_formats dev ! 36)"
    using device_formats(2) [OF assms, of 36] format_okD(2) by (auto simp: kKnownFormatCount_def format_available_def)
  ultimately show ?thesis using device_formats(1) [OF assms] by (simp add: GetValidInternalFormat_def kKnownFormatCount_def assertR_def)
qed

text \<open>
  C30. On a texture that the device created, every request for a view is answered, with an error
  or with a view, unless it names the format \<open>Stencil8\<close>; the range of a view is not empty and
  lies inside the subresources of the texture, so that it may be given to every storage kept per
  subresource of the texture, although the defaults of its counts are computed modulo \<open>2 ^ 32\<close>.
\<close>

theorem view_range_inside:
  assumes "device_ok dev" "td_format d < 2 ^ 32" "CreateTexture False True create_impl dev d = ok t"
  shows "(CreateTextureView False True (\<lambda>_ _. ok ()) dev t vd = undef \<longrightarrow> vd_format vd = Stencil8) \<and>
    (\<forall>r. CreateTextureView False True (\<lambda>_ _. ok ()) dev t vd = ok r \<longrightarrow> aspects r \<noteq> 0 \<and> 0 < layerCount r \<and> 0 < levelCount r \<and>
       (\<exists>every st. GetAllSubresources t = ok every \<and> SubresourceStorage (aspects every) (layerCount every) (levelCount every) v = ok st \<and>
          storage_inv st \<and> range_ok st r))"
proof -
  have t: "texture_ok dev t" using CreateTexture_ok [OF assms] by simp
  obtain d' where d': "GetTextureViewDescriptorWithDefaults t vd = ok d'"
    "vd_format d' = (if vd_format vd = 0 then format_id (mFormat t) else vd_format vd)" using view_defaults [OF t] by blast
  have ns: "format_id (mFormat t) \<noteq> Stencil8" using t by (auto simp: texture_ok_def format_ok_def format_available_def)
  have e: "\<not> texture_error t" using t by (simp add: texture_ok_def)
  obtain st where st: "SubresourceStorage (format_aspects (mFormat t)) (layers_of t) (mTextureMipLevelCount t) v = ok st" "storage_inv st"
    "mAspects st = format_aspects (mFormat t)" "mArrayLayerCount st = layers_of t" "mMipLevelCount st = mTextureMipLevelCount t"
    using texture_storage [OF t, of v] by (elim exE conjE) (rule that)
  note view = created_view_range [OF assms(1) t, of d']
  have 1: "vd_format vd = Stencil8" if "CreateTextureView False True (\<lambda>_ _. ok ()) dev t vd = undef"
  proof (rule ccontr)
    assume "vd_format vd \<noteq> Stencil8"
    then have ns': "vd_format d' \<noteq> Stencil8" using d'(2) ns by simp
    show False
    proof (cases "ValidateTextureViewDescriptor t d'")
      case (Inl err)
      then show False using that view_validation_defined [OF t, of d'] d'(1) e by (simp add: CreateTextureView_def)
    next
      case (Inr u)
      then show False using that view [OF _ ns'] d'(1) e by (auto simp: CreateTextureView_def)
    qed
  qed
  have 2: "aspects r \<noteq> 0 \<and> 0 < layerCount r \<and> 0 < levelCount r \<and> range_ok st r"
    if r: "CreateTextureView False True (\<lambda>_ _. ok ()) dev t vd = ok r" for r
  proof -
    have v: "ValidateTextureViewDescriptor t d' = ok ()" "TextureViewBase (dev_formats dev) d' = ok r"
      using r d'(1) e by (auto simp: CreateTextureView_def bindR_Inr_iff)
    then have "vd_format d' \<noteq> Stencil8" using stencil8_unavailable [OF assms(1)] by (auto simp: TextureViewBase_def)
    then show ?thesis using view [OF v(1)] v(2) st by (auto simp: range_ok_def)
  qed
  show ?thesis using 1 2 st(1,2) by (auto simp: GetAllSubresources_ok [OF t] SubresourceRange_def)
qed

theorem view_range_inside_witness:
  "\<exists>dev t r every st. CreateTexture False True (\<lambda>_. ok ()) dev (sample_descriptor RGBA8Unorm) = ok t \<and>
     CreateTextureView False True (\<lambda>_ _. ok ()) dev t \<lparr> vd_nextInChain = False, vd_format = 0, vd_dimension = View_2DArray, vd_baseMipLevel = 1,
       vd_mipLevelCount = count_undefined, vd_baseArrayLayer = 2, vd_arrayLayerCount = count_undefined, vd_aspect = TextureAspect_All \<rparr> = ok r \<and>
     GetAllSubresources t = ok every \<and> SubresourceStorage (aspects every) (layerCount every) (levelCount every) (0 :: nat) = ok st \<and> range_ok st r"
proof -
  let ?vd = "\<lparr> vd_nextInChain = False, vd_format = 0, vd_dimension = View_2DArray, vd_baseMipLevel = 1,
       vd_mipLevelCount = count_undefined, vd_baseArrayLayer = 2, vd_arrayLayerCount = count_undefined, vd_aspect = TextureAspect_All \<rparr>"
  obtain dev t where t: "device_ok dev" "CreateTexture False True (\<lambda>_. ok ()) dev (sample_descriptor RGBA8Unorm) = ok t" "texture_ok dev t"
    "format_aspects (mFormat t) = format_kind RGBA8Unorm" "mDimension t = Dim2D" "layers_of t = 3" "mTextureMipLevelCount t = 4"
    using sample_texture [of RGBA8Unorm] by blast
  have fm: "td_format (sample_descriptor RGBA8Unorm) < 2 ^ 32" by (simp add: sample_descriptor_def)
  have fid: "format_id (mFormat t) = RGBA8Unorm" "\<not> texture_error t" using CreateTexture_ok [OF t(1) fm t(2)] by (auto simp: sample_descriptor_def texture_ok_def)
  have asp: "format_aspects (mFormat t) = Aspect_Color" using t(4) by (simp add: format_kind_def)
  let ?d = "?vd\<lparr> vd_format := RGBA8Unorm, vd_mipLevelCount := 3, vd_arrayLayerCount := 1 \<rparr>"
  have d: "GetTextureViewDescriptorWithDefaults t ?vd = ok ?d"
    using t fid GetArrayLayers_ok [OF t(3)] GetNumMipLevels_ok [OF t(3)] by (simp add: GetTextureViewDescriptorWithDefaults_def Let_def sub_u32_def)
  have v: "ValidateTextureViewDescriptor t ?d = ok ()"
    using t fid asp GetArrayLayers_ok [OF t(3)]
    by (simp add: ValidateTextureViewDescriptor_def ValidateTextureViewFormatCompatibility_def ValidateTextureViewDimensionCompatibility_def
      kKnownFormatCount_def SelectFormatAspects_def aspect_defs)
  from created_view_range [OF t(1,3) v] obtain r where "TextureViewBase (dev_formats dev) ?d = ok r" by auto
  then have r: "CreateTextureView False True (\<lambda>_ _. ok ()) dev t ?vd = ok r" using d v fid by (simp add: CreateTextureView_def)
  show ?thesis using view_range_inside [OF t(1) fm t(2), of ?vd "0 :: nat"] r t(2) by blast
qed

text \<open>
  C31. A view of the stencil aspect of a \<open>Depth24PlusStencil8\<close> texture with the format
  \<open>Stencil8\<close>, the format the table itself gives to that aspect, passes the validation of views
  and then fails the assertion of the constructor that the format is supported.
\<close>

theorem stencil8_view_undefined:
  assumes "device_ok dev" "td_format d = Depth24PlusStencil8" "CreateTexture False True create_impl dev d = ok t"
    and vd: "\<not> vd_nextInChain vd" "vd_dimension vd = View_2D" "vd_format vd = Stencil8" "vd_aspect vd = StencilOnly"
      "vd_baseMipLevel vd = 0" "vd_mipLevelCount vd = 1" "vd_baseArrayLayer vd = 0" "vd_arrayLayerCount vd = 1"
  shows "ValidateTextureViewDescriptor t vd = ok () \<and> CreateTextureView False True view_impl dev t vd = undef"
proof -
  have t: "texture_ok dev t" and fid: "format_id (mFormat t) = Depth24PlusStencil8"
    using CreateTexture_ok [OF assms(1) _ assms(3)] assms(2) by simp_all
  have f: "format_aspects (mFormat t) = Aspect_Depth OR Aspect_Stencil" and e: "\<not> texture_error t"
    using t fid format_okD(1) by (auto simp: texture_ok_def format_kind_def)
  have dim: "mDimension t = Dim2D" using t f by (cases "mDimension t") (auto simp: texture_ok_def HasDepthOrStencil_def aspect_defs)
  have sel: "SelectFormatAspects (format_aspects (mFormat t)) StencilOnly \<noteq> Aspect_None" by (simp add: f SelectFormatAspects_def aspect_defs)
  obtain info where "GetAspectInfo_of (mFormat t) StencilOnly = ok info" "format_kind (aspect_format info) = Aspect_Stencil"
    using texture_aspect_info [OF t _ sel] by (auto simp: viewed_as_def aspect_defs)
  moreover from this have "aspect_format info = Stencil8" by (auto simp: format_kind_def aspect_defs split: if_splits)
  ultimately have compat: "ValidateTextureViewFormatCompatibility t vd = ok ()"
    using vd fid by (simp add: ValidateTextureViewFormatCompatibility_def)
  have "0 < layers_of t" "0 < mTextureMipLevelCount t" using layers_bound [OF t] t by (auto simp: texture_ok_def)
  then have v: "ValidateTextureViewDescriptor t vd = ok ()"
    using vd sel compat dim e GetArrayLayers_ok [OF t]
    by (simp add: ValidateTextureViewDescriptor_def ValidateTextureViewDimensionCompatibility_def kKnownFormatCount_def)
  moreover have "GetTextureViewDescriptorWithDefaults t vd = ok vd"
    using vd by (simp add: GetTextureViewDescriptorWithDefaults_def Let_def count_undefined_def)
  ultimately show ?thesis using stencil8_unavailable [OF assms(1)] vd(3) e by (simp add: CreateTextureView_def TextureViewBase_def)
qed

theorem stencil8_view_undefined_witness:
  "\<exists>dev t. CreateTexture False True (\<lambda>_. ok ()) dev (sample_descriptor Depth24PlusStencil8) = ok t \<and>
     CreateTextureView False True (\<lambda>_ _. ok ()) dev t \<lparr> vd_nextInChain = False, vd_format = Stencil8, vd_dimension = View_2D, vd_baseMipLevel = 0,
       vd_mipLevelCount = 1, vd_baseArrayLayer = 0, vd_arrayLayerCount = 1, vd_aspect = StencilOnly \<rparr> = undef"
proof -
  obtain dev t where t: "device_ok dev" "CreateTexture False True (\<lambda>_. ok ()) dev (sample_descriptor Depth24PlusStencil8) = ok t"
    using sample_texture [of Depth24PlusStencil8] by blast
  have "td_format (sample_descriptor Depth24PlusStencil8) = Depth24PlusStencil8" by (simp add: sample_descriptor_def)
  from stencil8_view_undefined [OF t(1) this t(2)] show ?thesis using t(2) by fastforce
qed

text \<open>The mark a sequence of calls leaves on a subresource.\<close>

definition last_mark :: "(bool \<times> subresource_range) list \<Rightarrow> aspect \<times> nat \<times> nat \<Rightarrow> bool" where
  "last_mark marks c = fold (\<lambda>(b, r) old. if c \<in> set (cells r) then b else old) marks False"

lemma marks_run:
  assumes t: "texture_ok dev t" "tracked_ok t" and start: "set (mIsSubresourceContentInitializedAtIndex t) \<subseteq> {False}"
    and "list_all (\<lambda>(b, r). inside t r) marks"
  shows "\<exists>xs. foldR (\<lambda>(b, r). SetIsSubresourceContentInitialized b r) marks t = ok (t\<lparr> mIsSubresourceContentInitializedAtIndex := xs \<rparr>) \<and>
    length xs = length (mIsSubresourceContentInitializedAtIndex t) \<and> (\<forall>c. texture_cell t c \<longrightarrow> xs ! cell_index t c = last_mark marks c)"
  using assms(4)
proof (induction marks rule: rev_induct)
  case Nil
  have "\<not> mIsSubresourceContentInitializedAtIndex t ! cell_index t c" if "texture_cell t c" for c
  proof -
    obtain a l m where "c = (a, l, m)" by (cases c)
    then have "mIsSubresourceContentInitializedAtIndex t ! cell_index t c \<in> set (mIsSubresourceContentInitializedAtIndex t)"
      using cell_index_facts(2) [OF t] that by (intro nth_mem) simp
    then show ?thesis using start by blast
  qed
  then show ?case by (intro exI [of _ "mIsSubresourceContentInitializedAtIndex t"]) (simp add: last_mark_def)
next
  case (snoc mark marks)
  obtain b r where m: "mark = (b, r)" by (cases mark)
  from snoc obtain xs where xs: "foldR (\<lambda>(b, r). SetIsSubresourceContentInitialized b r) marks t = ok (t\<lparr> mIsSubresourceContentInitializedAtIndex := xs \<rparr>)"
    "length xs = length (mIsSubresourceContentInitializedAtIndex t)" "\<And>c. texture_cell t c \<Longrightarrow> xs ! cell_index t c = last_mark marks c" by auto
  let ?t = "t\<lparr> mIsSubresourceContentInitializedAtIndex := xs \<rparr>"
  have "texture_ok dev ?t" "tracked_ok ?t" "inside ?t r" using t xs(2) snoc.prems by (simp_all add: tracked_ok_def m)
  from SetIsSubresourceContentInitialized_ok [OF this, of b] obtain ys where "SetIsSubresourceContentInitialized b r ?t = ok (t\<lparr> mIsSubresourceContentInitializedAtIndex := ys \<rparr>)"
    "length ys = length xs" "\<And>c. texture_cell t c \<Longrightarrow> ys ! cell_index t c = (if c \<in> set (cells r) then b else xs ! cell_index t c)"
    by (auto simp: recorded_def)
  then show ?case using xs by (intro exI [of _ ys]) (auto simp: foldR_append m last_mark_def)
qed

text \<open>
  C32. On a texture that the device created, marking any ranges as initialised or not, in any
  order, returns, and a query of any range is answered with whether the last mark of each of its
  subresources says initialised, where a new texture has none: there is one mark per aspect, layer
  and level.
\<close>

theorem initialized_marks:
  assumes "device_ok dev" "td_format d < 2 ^ 32" "CreateTexture False True create_impl dev d = ok t"
    "list_all (\<lambda>(b, r). inside t r) marks" "inside t q"
  shows "\<exists>t'. foldR (\<lambda>(b, r). SetIsSubresourceContentInitialized b r) marks t = ok t' \<and>
    IsSubresourceContentInitialized t' q = ok (\<forall>c \<in> set (cells q). last_mark marks c)"
proof -
  note t = CreateTexture_ok(1,2,7) [OF assms(1-3)]
  obtain xs where xs: "foldR (\<lambda>(b, r). SetIsSubresourceContentInitialized b r) marks t = ok (t\<lparr> mIsSubresourceContentInitializedAtIndex := xs \<rparr>)"
    "length xs = length (mIsSubresourceContentInitializedAtIndex t)" "\<And>c. texture_cell t c \<Longrightarrow> xs ! cell_index t c = last_mark marks c"
    using marks_run [OF t assms(4)] by blast
  let ?t = "t\<lparr> mIsSubresourceContentInitializedAtIndex := xs \<rparr>"
  have "texture_ok dev ?t" "tracked_ok ?t" "inside ?t q" using t xs(2) assms(5) by (simp_all add: tracked_ok_def)
  from IsSubresourceContentInitialized_ok [OF this] show ?thesis
    using xs inside_cells [OF assms(5)] by (auto simp: recorded_def)
qed

theorem initialized_marks_witness:
  "\<exists>dev t t'. CreateTexture False True (\<lambda>_. ok ()) dev (sample_descriptor Depth24PlusStencil8) = ok t \<and>
     foldR (\<lambda>(b, r). SetIsSubresourceContentInitialized b r)
       [(True, SubresourceRange 6 (0, 3) (0, 4)), (False, SubresourceRange 4 (1, 1) (2, 1))] t = ok t' \<and>
     IsSubresourceContentInitialized t' (SubresourceRange 4 (1, 1) (1, 2)) = ok False"
proof -
  obtain dev t where t: "device_ok dev" "CreateTexture False True (\<lambda>_. ok ()) dev (sample_descriptor Depth24PlusStencil8) = ok t"
    "format_aspects (mFormat t) = format_kind Depth24PlusStencil8" "layers_of t = 3" "mTextureMipLevelCount t = 4"
    using sample_texture [of Depth24PlusStencil8] by blast
  have fm: "td_format (sample_descriptor Depth24PlusStencil8) < 2 ^ 32" by (simp add: sample_descriptor_def)
  have masks: "IterateEnumMask 6 = [2, 4]" "IterateEnumMask 4 = [4]" "format_kind Depth24PlusStencil8 = 6"
    by (simp_all add: IterateEnumMask_def upt6 bit_Suc_0_iff format_kind_def aspect_defs)
  let ?marks = "[(True, SubresourceRange 6 (0, 3) (0, 4)), (False, SubresourceRange 4 (1, 1) (2, 1))]"
  let ?q = "SubresourceRange 4 (1, 1) (1, 2)"
  have "list_all (\<lambda>(b, r). inside t r) ?marks" "inside t ?q" using t(3-5) masks by (simp_all add: inside_def SubresourceRange_def)
  from initialized_marks [OF t(1) fm t(2) this] obtain t' where
    run: "foldR (\<lambda>(b, r). SetIsSubresourceContentInitialized b r) ?marks t = ok t'"
    and ask: "IsSubresourceContentInitialized t' ?q = ok (\<forall>c \<in> set (cells ?q). last_mark ?marks c)" by blast
  have "(4, 1, 2) \<in> set (cells ?q)" "\<not> last_mark ?marks (4, 1, 2)"
    using masks by (simp_all add: last_mark_def cells_iff in_range_def SubresourceRange_def)
  then have "(\<forall>c \<in> set (cells ?q). last_mark ?marks c) = False" by blast
  with ask have "IsSubresourceContentInitialized t' ?q = ok False" by (rule subst [rotated])
  with run t(2) show ?thesis by blast
qed

end
