(* ===== verification/Subresource_Calls.thy ===== *)
theory Subresource_Calls
  imports Subresource_Table
begin

unbundle bit_operations_syntax

text \<open>
  The ranges a closure is called with by \<open>Update\<close>, \<open>Merge\<close> and \<open>Iterate\<close> are never empty, so
  that what holds of every subresource holds of every call.
\<close>

lemma foldR_Inr_invariant:
  assumes "foldR f xs s = ok s'" "P s" "\<And>x s s'. x \<in> set xs \<Longrightarrow> P s \<Longrightarrow> f x s = ok s' \<Longrightarrow> P s'"
  shows "P s'"
  using assms by (induction xs arbitrary: s) (auto simp: bindR_Inr_iff)

lemma bindR_InrE:
  assumes "bindR r f = Inr y" obtains x where "r = Inr x" "f x = Inr y"
  using assms by (cases r) auto

lemma bindR_pairE:
  assumes "bindR r (\<lambda>(x, y). f x y) = Inr z" obtains x y where "r = Inr (x, y)" "f x y = Inr z"
  using assms by (cases r) auto

section \<open>The dimensions never change\<close>

lemma same_dims_refl [simp]: "same_dims st st"
  by (simp add: same_dims_def)

lemma same_dims_trans: "same_dims a b \<Longrightarrow> same_dims b c \<Longrightarrow> same_dims a c"
  by (simp add: same_dims_def)

lemma same_dims_upd [simp]:
  "same_dims st (st\<lparr> mAspectCompressed := x \<rparr>)" "same_dims st (st\<lparr> mInlineAspectData := y \<rparr>)"
  "same_dims st (st\<lparr> mLayerCompressed := z \<rparr>)" "same_dims st (st\<lparr> mData := w \<rparr>)"
  by (simp_all add: same_dims_def)

lemma write_dims:
  "DataInline_write i v st = ok st' \<Longrightarrow> same_dims st st'" "Data_write i l m v st = ok st' \<Longrightarrow> same_dims st st'"
  "LayerCompressed_write i l b st = ok st' \<Longrightarrow> same_dims st st'"
  by (auto simp: DataInline_write_def Data_write_def LayerCompressed_write_def res_iff)

lemma allocate_dims: "allocate T0 st = ok st' \<Longrightarrow> same_dims st st'"
  by (auto simp: allocate_def same_dims_def res_iff split: if_splits)

lemma Decompress_dims:
  "DecompressAspect T0 i st = ok st' \<Longrightarrow> same_dims st st'" "DecompressLayer i l st = ok st' \<Longrightarrow> same_dims st st'"
proof -
  assume "DecompressAspect T0 i st = ok st'"
  then obtain cs st1 v where st1: "allocate T0 (st\<lparr> mAspectCompressed := cs \<rparr>) = ok st1"
    and run: "foldR (\<lambda>layer st. bindR (Data_write i layer 0 v st) (\<lambda>st. bindR (LayerCompressed st i layer) (\<lambda>c. bindR (assertR c) (\<lambda>_. ok st))))
      [0..<mArrayLayerCount st1] st1 = ok st'"
    by (auto simp: DecompressAspect_def res_iff)
  have "same_dims st st1" using allocate_dims [OF st1] same_dims_trans same_dims_upd(1) by blast
  then show "same_dims st st'"
    by (rule foldR_Inr_invariant [OF run]) (auto simp: bindR_Inr_iff intro: same_dims_trans write_dims(2))
next
  assume "DecompressLayer i l st = ok st'"
  then obtain v st1 where st1: "LayerCompressed_write i l False st = ok st1"
    and run: "foldR (\<lambda>level. Data_write i l level v) [1..<mMipLevelCount st1] st1 = ok st'"
    by (auto simp: DecompressLayer_def res_iff)
  show "same_dims st st'"
    by (rule foldR_Inr_invariant [OF run]) (auto intro: write_dims(3) [OF st1] same_dims_trans write_dims(2))
qed

lemma Recompress_dims:
  "RecompressAspect i st = ok st' \<Longrightarrow> same_dims st st'" "RecompressLayer i l st = ok st' \<Longrightarrow> same_dims st st'"
  by (auto simp: RecompressAspect_def RecompressLayer_def res_iff split: if_splits
      intro: write_dims(3) same_dims_trans [OF same_dims_upd(1) write_dims(1)])

section \<open>Calls on ranges that hold a subresource\<close>

definition nonempty :: "(subresource_range \<times> 'b) list \<Rightarrow> bool" where
  "nonempty calls \<longleftrightarrow> (\<forall>(r, v) \<in> set calls. cells r \<noteq> [])"

lemma nonempty_simps [simp]:
  "nonempty []" "nonempty (xs @ ys) \<longleftrightarrow> nonempty xs \<and> nonempty ys" "nonempty ((r, v) # xs) \<longleftrightarrow> cells r \<noteq> [] \<and> nonempty xs"
  "nonempty (with_other u xs) \<longleftrightarrow> nonempty xs"
  by (auto simp: nonempty_def with_other_def)

lemma product_empty_iff: "List.product xs ys = [] \<longleftrightarrow> xs = [] \<or> ys = []"
  by (induction xs) auto

lemma single_ranges_nonempty:
  assumes "a \<in> single_aspects"
  shows "cells (SubresourceRange a (l, 1) (m, 1)) \<noteq> []" "0 < M \<Longrightarrow> cells (SubresourceRange a (l, 1) (0, M)) \<noteq> []"
    "0 < L \<Longrightarrow> 0 < M \<Longrightarrow> cells (MakeFull a L M) \<noteq> []"
  using single_aspect(2) [OF assms] by (simp_all add: cells_product SubresourceRange_def MakeFull_def product_empty_iff)

lemma Iterate_nonempty:
  assumes "storage_wf n st" "Iterate st = ok calls"
  shows "nonempty calls"
proof -
  note d = storage_wfD [OF assms(1)]
  note run = assms(2) [unfolded Iterate_def]
  show ?thesis
  proof (rule foldR_Inr_invariant [OF run])
    fix a cs cs' assume a: "a \<in> set (IterateEnumMask (mAspects st))" and cs: "nonempty cs" and it: "iterate_aspect st a cs = ok cs'"
    have s: "a \<in> single_aspects" using mask_aspects(1) [OF d(1)] a by auto
    note ne = single_ranges_nonempty [OF s]
    have layer: "nonempty cs'" if one: "iterate_layer st a i l cs = ok cs'" "nonempty cs" for i l cs cs'
    proof -
      obtain c where c: "LayerCompressed st i l = ok c" using one(1) unfolding iterate_layer_def bindR_Inr_iff by blast
      show ?thesis
      proof (cases c)
        case True
        then show ?thesis using one ne(2) d(6) c by (auto simp: iterate_layer_def GetFullLayerRange_def bindR_Inr_iff)
      next
        case False
        have run: "foldR (\<lambda>level calls. bindR (MakeSingle a l level) (\<lambda>rng. bindR (Data st i l level) (\<lambda>v. ok (calls @ [(rng, v)]))))
            [0..<mMipLevelCount st] cs = ok cs'" using one(1) c False by (simp add: iterate_layer_def)
        show ?thesis by (rule foldR_Inr_invariant [where P = nonempty, OF run one(2)]) (auto simp: MakeSingle_def bindR_Inr_iff ne(1) [simplified])
      qed
    qed
    show "nonempty cs'"
    proof -
      obtain c where c: "aspect_compressed st (idx a) = ok c"
        using it unfolding iterate_aspect_def single_aspect(3) [OF s] bindR.simps bindR_Inr_iff by blast
      show ?thesis
      proof (cases c)
        case True
        then show ?thesis using it cs ne(3) d(4,6) c single_aspect(3) [OF s] by (auto simp: iterate_aspect_def bindR_Inr_iff)
      next
        case False
        then have run: "foldR (iterate_layer st a (idx a)) [0..<mArrayLayerCount st] cs = ok cs'"
          using it c single_aspect(3) [OF s] by (simp add: iterate_aspect_def)
        show ?thesis by (rule foldR_Inr_invariant [OF run]) (auto intro: cs layer)
      qed
    qed
  qed simp
qed

text \<open>Updating and merging: the calls so far and the dimensions of the storage.\<close>

definition calls_ok :: "'a subresources \<Rightarrow> 'b subresources \<times> (subresource_range \<times> 'c) list \<Rightarrow> bool" where
  "calls_ok st = (\<lambda>(s, calls). same_dims st s \<and> nonempty calls)"

lemma dims_pos:
  assumes "storage_wf n st" "same_dims st s"
  shows "0 < mArrayLayerCount s" "0 < mMipLevelCount s"
  using storage_wfD(4,6) [OF assms(1)] assms(2) by (simp_all add: same_dims_def)

lemma update_layer_calls:
  assumes wf: "storage_wf n st" and a: "a \<in> single_aspects" and s: "calls_ok st s" and run: "update_layer rng fl g a i l s = ok s'"
  shows "calls_ok st s'"
proof -
  obtain x cs where x: "s = (x, cs)" by (cases s)
  have d: "same_dims st x" "nonempty cs" using s by (simp_all add: calls_ok_def x)
  note ne = single_ranges_nonempty [OF a, simplified]
  have level: "calls_ok st t'" if "update_level g a i l m t = ok t'" "calls_ok st t" for m t t'
    using that ne(1) by (cases t) (auto simp: update_level_def calls_ok_def MakeSingle_def bindR_Inr_iff intro: same_dims_trans write_dims(2))
  obtain c where c: "LayerCompressed x i l = ok c" using run unfolding update_layer_def x prod.case bindR_Inr_iff by blast
  show ?thesis
  proof (cases "c \<and> fl")
    case True
    then show ?thesis using run c d ne(2) [OF dims_pos(2) [OF wf d(1)]]
      by (auto simp: update_layer_def x calls_ok_def GetFullLayerRange_def bindR_Inr_iff Let_def intro: same_dims_trans write_dims(2))
  next
    case False
    then have "bindR (if c then DecompressLayer i l x else ok x) (\<lambda>st.
       bindR (foldR (update_level g a i l) [baseMipLevel rng..<u32 (baseMipLevel rng + levelCount rng)] (st, cs)) (\<lambda>(st, calls).
       bindR (if fl then RecompressLayer i l st else ok st) (\<lambda>st. ok (st, calls)))) = ok s'"
      using run c unfolding update_layer_def x prod.case by (simp only: bindR.simps if_False)
    then obtain x1 where x1: "(if c then DecompressLayer i l x else ok x) = ok x1" and rest: "bindR (foldR (update_level g a i l) [baseMipLevel rng..<u32 (baseMipLevel rng + levelCount rng)] (x1, cs)) (\<lambda>(st, calls).
       bindR (if fl then RecompressLayer i l st else ok st) (\<lambda>st. ok (st, calls))) = ok s'" by (rule bindR_InrE)
    from rest obtain y cs1 where loop: "foldR (update_level g a i l) [baseMipLevel rng..<u32 (baseMipLevel rng + levelCount rng)] (x1, cs) = ok (y, cs1)"
      and fin: "bindR (if fl then RecompressLayer i l y else ok y) (\<lambda>st. ok (st, cs1)) = ok s'" by (rule bindR_pairE)
    have "calls_ok st (x1, cs)" using x1 d same_dims_trans [OF d(1) Decompress_dims(2)] by (auto simp: calls_ok_def split: if_splits)
    then have "calls_ok st (y, cs1)" by (rule foldR_Inr_invariant [OF loop]) (rule level)
    then show ?thesis using fin Recompress_dims(2) same_dims_trans by (fastforce simp: calls_ok_def bindR_Inr_iff split: if_splits)
  qed
qed

lemma update_aspect_calls:
  assumes wf: "storage_wf n st" and a: "a \<in> single_aspects" and s: "calls_ok st s" and run: "update_aspect T0 rng fl fa g a s = ok s'"
  shows "calls_ok st s'"
proof -
  obtain x cs where x: "s = (x, cs)" by (cases s)
  have d: "same_dims st x" "nonempty cs" using s by (simp_all add: calls_ok_def x)
  note ne = single_ranges_nonempty(3) [OF a dims_pos [OF wf d(1)]]
  obtain c where c: "aspect_compressed x (idx a) = ok c"
    using run unfolding update_aspect_def x prod.case single_aspect(3) [OF a] bindR.simps bindR_Inr_iff by blast
  show ?thesis
  proof (cases "c \<and> fa")
    case True
    then show ?thesis using run c d ne single_aspect(3) [OF a]
      by (auto simp: update_aspect_def x calls_ok_def bindR_Inr_iff Let_def intro: same_dims_trans write_dims(1))
  next
    case False
    then have "bindR (if c then DecompressAspect T0 (idx a) x else ok x) (\<lambda>st.
       bindR (foldR (update_layer rng fl g a (idx a)) [baseArrayLayer rng..<u32 (baseArrayLayer rng + layerCount rng)] (st, cs)) (\<lambda>(st, calls).
       bindR (if fa then RecompressAspect (idx a) st else ok st) (\<lambda>st. ok (st, calls)))) = ok s'"
      using run c single_aspect(3) [OF a] unfolding update_aspect_def x prod.case by (simp only: bindR.simps if_False)
    then obtain x1 where x1: "(if c then DecompressAspect T0 (idx a) x else ok x) = ok x1" and rest: "bindR (foldR (update_layer rng fl g a (idx a)) [baseArrayLayer rng..<u32 (baseArrayLayer rng + layerCount rng)] (x1, cs)) (\<lambda>(st, calls).
       bindR (if fa then RecompressAspect (idx a) st else ok st) (\<lambda>st. ok (st, calls))) = ok s'" by (rule bindR_InrE)
    from rest obtain y cs1 where loop: "foldR (update_layer rng fl g a (idx a)) [baseArrayLayer rng..<u32 (baseArrayLayer rng + layerCount rng)] (x1, cs) = ok (y, cs1)"
      and fin: "bindR (if fa then RecompressAspect (idx a) y else ok y) (\<lambda>st. ok (st, cs1)) = ok s'" by (rule bindR_pairE)
    have "calls_ok st (x1, cs)" using x1 d same_dims_trans [OF d(1) Decompress_dims(1)] by (auto simp: calls_ok_def split: if_splits)
    then have "calls_ok st (y, cs1)" by (rule foldR_Inr_invariant [OF loop]) (rule update_layer_calls [OF wf a])
    then show ?thesis using fin Recompress_dims(1) same_dims_trans by (fastforce simp: calls_ok_def bindR_Inr_iff split: if_splits)
  qed
qed

lemma Update_calls:
  assumes "storage_wf n st" "same_dims st x" "set (IterateEnumMask (aspects rng)) \<subseteq> single_aspects" "Update T0 rng g x = ok s'"
  shows "calls_ok st s'"
proof -
  obtain fl fa where run: "foldR (update_aspect T0 rng fl fa g) (IterateEnumMask (aspects rng)) (x, []) = ok s'"
    using assms(4) by (auto simp: Update_def Let_def)
  have "calls_ok st (x, [])" using assms(2) by (simp add: calls_ok_def)
  then show ?thesis
  proof (rule foldR_Inr_invariant [OF run])
    fix a t t' assume "a \<in> set (IterateEnumMask (aspects rng))" "calls_ok st t" "update_aspect T0 rng fl fa g a t = ok t'"
    then show "calls_ok st t'" by (rule update_aspect_calls [OF assms(1) subsetD [OF assms(3)]])
  qed
qed

lemma single_mask_aspects: "a \<in> single_aspects \<Longrightarrow> set (IterateEnumMask a) \<subseteq> single_aspects"
  by (simp add: single_aspect(2))

lemma range_aspects [simp]: "aspects (GetFullLayerRange st a l) = a" "aspects (MakeFull a L M) = a"
  by (simp_all add: GetFullLayerRange_def MakeFull_def SubresourceRange_def)

lemma update_calls_appended:
  assumes "storage_wf n st" "same_dims st x" "nonempty cs" "a \<in> single_aspects" "aspects rng = a"
    "bindR (Update T0 rng g x) (\<lambda>(st, ds). ok (st, cs @ with_other u ds)) = ok s'"
  shows "calls_ok st s'"
proof -
  from assms(6) obtain y ds where up: "Update T0 rng g x = ok (y, ds)" and s': "s' = (y, cs @ with_other u ds)" by (auto elim: bindR_pairE)
  have "calls_ok st (y, ds)" using Update_calls [OF assms(1,2) _ up] single_mask_aspects assms(4,5) by blast
  then show ?thesis using assms(3) by (simp add: calls_ok_def s')
qed

lemma merge_layer_calls:
  assumes wf: "storage_wf n st" and a: "a \<in> single_aspects" and s: "calls_ok st s" and run: "merge_layer T0 other f a i l s = ok s'"
  shows "calls_ok st s'"
proof -
  obtain x cs where x: "s = (x, cs)" by (cases s)
  have d: "same_dims st x" "nonempty cs" using s by (simp_all add: calls_ok_def x)
  have level: "calls_ok st t'" if "merge_level other f a i l m t = ok t'" "calls_ok st t" for m t t'
    using that single_ranges_nonempty(1) [OF a] by (cases t)
      (auto simp: merge_level_def calls_ok_def MakeSingle_def bindR_Inr_iff intro: same_dims_trans write_dims(2))
  obtain oc where oc: "LayerCompressed other i l = ok oc" using run unfolding merge_layer_def x prod.case bindR_Inr_iff by blast
  show ?thesis
  proof (cases oc)
    case True
    then obtain u where "bindR (Update T0 (GetFullLayerRange x a l) (\<lambda>r v. f r v u) x) (\<lambda>(st, ds). ok (st, cs @ with_other u ds)) = ok s'"
      using run oc by (auto simp: merge_layer_def x elim: bindR_InrE)
    then show ?thesis by (rule update_calls_appended [OF wf d a range_aspects(1)])
  next
    case False
    then have "bindR (LayerCompressed x i l) (\<lambda>c.
       bindR (if c then DecompressLayer i l x else ok x) (\<lambda>st.
       bindR (foldR (merge_level other f a i l) [0..<mMipLevelCount st] (st, cs)) (\<lambda>(st, calls).
       bindR (RecompressLayer i l st) (\<lambda>st. ok (st, calls))))) = ok s'" using run oc by (simp add: merge_layer_def x)
    then obtain c where "bindR (if c then DecompressLayer i l x else ok x) (\<lambda>st.
       bindR (foldR (merge_level other f a i l) [0..<mMipLevelCount st] (st, cs)) (\<lambda>(st, calls).
       bindR (RecompressLayer i l st) (\<lambda>st. ok (st, calls)))) = ok s'" by (rule bindR_InrE)
    then obtain x1 where x1: "(if c then DecompressLayer i l x else ok x) = ok x1" and
      rest: "bindR (foldR (merge_level other f a i l) [0..<mMipLevelCount x1] (x1, cs)) (\<lambda>(st, calls).
       bindR (RecompressLayer i l st) (\<lambda>st. ok (st, calls))) = ok s'" by (rule bindR_InrE)
    from rest obtain y cs1 where loop: "foldR (merge_level other f a i l) [0..<mMipLevelCount x1] (x1, cs) = ok (y, cs1)"
      and fin: "bindR (RecompressLayer i l y) (\<lambda>st. ok (st, cs1)) = ok s'" by (rule bindR_pairE)
    have "calls_ok st (x1, cs)" using x1 d same_dims_trans [OF d(1) Decompress_dims(2)] by (auto simp: calls_ok_def split: if_splits)
    then have "calls_ok st (y, cs1)" by (rule foldR_Inr_invariant [OF loop]) (rule level)
    then show ?thesis using fin Recompress_dims(2) same_dims_trans by (fastforce simp: calls_ok_def bindR_Inr_iff)
  qed
qed

lemma merge_aspect_calls:
  assumes wf: "storage_wf n st" and a: "a \<in> single_aspects" and s: "calls_ok st s" and run: "merge_aspect T0 other f a s = ok s'"
  shows "calls_ok st s'"
proof -
  obtain x cs where x: "s = (x, cs)" by (cases s)
  have d: "same_dims st x" "nonempty cs" using s by (simp_all add: calls_ok_def x)
  obtain oc where oc: "aspect_compressed other (idx a) = ok oc"
    using run unfolding merge_aspect_def x prod.case single_aspect(3) [OF a] bindR.simps bindR_Inr_iff by blast
  show ?thesis
  proof (cases oc)
    case True
    then obtain u where "bindR (Update T0 (MakeFull a (mArrayLayerCount x) (mMipLevelCount x)) (\<lambda>r v. f r v u) x) (\<lambda>(st, ds). ok (st, cs @ with_other u ds)) = ok s'"
      using run oc single_aspect(3) [OF a] by (auto simp: merge_aspect_def x elim: bindR_InrE)
    then show ?thesis by (rule update_calls_appended [OF wf d a range_aspects(2)])
  next
    case False
    then have "bindR (aspect_compressed x (idx a)) (\<lambda>c.
       bindR (if c then DecompressAspect T0 (idx a) x else ok x) (\<lambda>st.
       bindR (foldR (merge_layer T0 other f a (idx a)) [0..<mArrayLayerCount st] (st, cs)) (\<lambda>(st, calls).
       bindR (RecompressAspect (idx a) st) (\<lambda>st. ok (st, calls))))) = ok s'" using run oc single_aspect(3) [OF a] by (simp add: merge_aspect_def x)
    then obtain c where "bindR (if c then DecompressAspect T0 (idx a) x else ok x) (\<lambda>st.
       bindR (foldR (merge_layer T0 other f a (idx a)) [0..<mArrayLayerCount st] (st, cs)) (\<lambda>(st, calls).
       bindR (RecompressAspect (idx a) st) (\<lambda>st. ok (st, calls)))) = ok s'" by (rule bindR_InrE)
    then obtain x1 where x1: "(if c then DecompressAspect T0 (idx a) x else ok x) = ok x1" and
      rest: "bindR (foldR (merge_layer T0 other f a (idx a)) [0..<mArrayLayerCount x1] (x1, cs)) (\<lambda>(st, calls).
       bindR (RecompressAspect (idx a) st) (\<lambda>st. ok (st, calls))) = ok s'" by (rule bindR_InrE)
    from rest obtain y cs1 where loop: "foldR (merge_layer T0 other f a (idx a)) [0..<mArrayLayerCount x1] (x1, cs) = ok (y, cs1)"
      and fin: "bindR (RecompressAspect (idx a) y) (\<lambda>st. ok (st, cs1)) = ok s'" by (rule bindR_pairE)
    have "calls_ok st (x1, cs)" using x1 d same_dims_trans [OF d(1) Decompress_dims(1)] by (auto simp: calls_ok_def split: if_splits)
    then have "calls_ok st (y, cs1)" by (rule foldR_Inr_invariant [OF loop]) (rule merge_layer_calls [OF wf a])
    then show ?thesis using fin Recompress_dims(1) same_dims_trans by (fastforce simp: calls_ok_def bindR_Inr_iff)
  qed
qed

lemma Merge_nonempty:
  assumes "storage_wf n st" "Merge T0 other f st = ok (st', calls)"
  shows "nonempty calls"
proof -
  have run: "foldR (merge_aspect T0 other f) (IterateEnumMask (mAspects st)) (st, []) = ok (st', calls)"
    using assms(2) by (auto simp: Merge_def res_iff)
  have "calls_ok st (st, [])" by (simp add: calls_ok_def)
  then have "calls_ok st (st', calls)"
  proof (rule foldR_Inr_invariant [OF run])
    fix a t t' assume "a \<in> set (IterateEnumMask (mAspects st))" "calls_ok st t" "merge_aspect T0 other f a t = ok t'"
    then show "calls_ok st t'" by (rule merge_aspect_calls [OF assms(1) subsetD [OF mask_aspects(1) [OF storage_wfD(1) [OF assms(1)]]]])
  qed
  then show ?thesis by (simp add: calls_ok_def)
qed

end
