(* ===== verification/Sync_Scope.thy ===== *)
theory Sync_Scope
  imports Texture_Spec Subresource_Calls Buffer_Map
begin

unbundle bit_operations_syntax

text \<open>
  The usage of resources by passes: \<open>dawn_native/PassResourceUsageTracker.cpp\<close>, the rules of a
  synchronisation scope in \<open>dawn_native/CommandValidation.cpp\<close>, and the checks of
  \<open>CommandEncoder::ValidateFinish\<close> and \<open>QueueBase::ValidateSubmit\<close> that read it. A pointer to
  a resource is a number; \<open>texs\<close> gives the texture a pointer points to. A \<open>std::map\<close> and a
  \<open>std::set\<close> are lists in ascending order of the pointers.
\<close>

section \<open>Maps\<close>

text \<open>Inserting a new element unless the key is there, then changing the element in place.\<close>

fun map_update :: "nat \<Rightarrow> 'v \<Rightarrow> ('v \<Rightarrow> 'v res) \<Rightarrow> (nat \<times> 'v) list \<Rightarrow> (nat \<times> 'v) list res" where
  "map_update k fresh f [] = bindR (f fresh) (\<lambda>v. ok [(k, v)])"
| "map_update k fresh f ((k', v') # kvs) =
     (if k < k' then bindR (f fresh) (\<lambda>v. ok ((k, v) # (k', v') # kvs))
      else if k = k' then bindR (f v') (\<lambda>v. ok ((k', v) # kvs))
      else bindR (map_update k fresh f kvs) (\<lambda>kvs. ok ((k', v') # kvs)))"

section \<open>Bindings\<close>

record view =
  view_texture :: nat
  view_range :: subresource_range

datatype buffer_binding_type =
  Binding_Undefined | Binding_Uniform | Binding_Storage | Binding_ReadOnlyStorage | Binding_InternalStorage

text \<open>A binding of a bind group with the kind its layout gives it. A storage texture is write-only
  or has no access; an external texture holds up to three views.\<close>

datatype binding =
    Buffer_Binding buffer_binding_type nat
  | Sampler_Binding
  | Texture_Binding view
  | StorageTexture_Binding bool view
  | ExternalTexture_Binding nat "view option list"

section \<open>Tracking a scope\<close>

type_synonym texture_usages = "32 word subresources"

record sync_tracker =
  mBufferUsages :: "(nat \<times> usage) list"
  mTextureUsages :: "(nat \<times> texture_usages) list"
  mExternalTextureUsages :: "nat list"

definition kReadOnlyRenderAttachment :: "32 word" where "kReadOnlyRenderAttachment = 0x40000000"
definition kAgainAsRenderAttachment :: "32 word" where "kAgainAsRenderAttachment = 0x80000001"

definition BufferUsedAs :: "nat \<Rightarrow> usage \<Rightarrow> sync_tracker \<Rightarrow> sync_tracker res" where
  "BufferUsedAs b u tr =
     bindR (map_update b 0 (\<lambda>old. ok (old OR u)) (mBufferUsages tr)) (\<lambda>m. ok (tr\<lparr> mBufferUsages := m \<rparr>))"

definition add_texture_usage :: "32 word \<Rightarrow> 32 word \<Rightarrow> 32 word" where
  "add_texture_usage u stored =
     (let stored = (if stored AND Tex_RenderAttachment \<noteq> 0 \<and> u AND Tex_RenderAttachment \<noteq> 0
                    then stored OR kAgainAsRenderAttachment else stored)
      in stored OR u)"

text \<open>The usage of a texture that no command has used yet.\<close>

definition fresh_usages :: "texture \<Rightarrow> texture_usages res" where
  "fresh_usages t =
     bindR (GetArrayLayers t) (\<lambda>layers. bindR (GetNumMipLevels t) (\<lambda>levels.
       SubresourceStorage (format_aspects (mFormat t)) layers levels 0))"

definition TextureViewUsedAs :: "(nat \<Rightarrow> texture) \<Rightarrow> view \<Rightarrow> 32 word \<Rightarrow> sync_tracker \<Rightarrow> sync_tracker res" where
  "TextureViewUsedAs texs v u tr =
     bindR (fresh_usages (texs (view_texture v))) (\<lambda>fresh.
     bindR (map_update (view_texture v) fresh
              (\<lambda>st. bindR (Update 0 (view_range v) (\<lambda>_. add_texture_usage u) st) (\<lambda>(st, _). ok st)) (mTextureUsages tr)) (\<lambda>m.
       ok (tr\<lparr> mTextureUsages := m \<rparr>)))"

text \<open>The assertion of the closure holds of the usage in every call.\<close>

definition AddRenderBundleTextureUsage :: "(nat \<Rightarrow> texture) \<Rightarrow> nat \<Rightarrow> texture_usages \<Rightarrow> sync_tracker \<Rightarrow> sync_tracker res" where
  "AddRenderBundleTextureUsage texs p textureUsage tr =
     bindR (fresh_usages (texs p)) (\<lambda>fresh.
     bindR (map_update p fresh
              (\<lambda>st. bindR (Merge 0 textureUsage (\<lambda>_ stored added. stored OR added) st) (\<lambda>(st, calls).
                 bindR (assertR (\<forall>(_, _, added) \<in> set calls. added AND Tex_RenderAttachment = 0)) (\<lambda>_. ok st))) (mTextureUsages tr)) (\<lambda>m.
       ok (tr\<lparr> mTextureUsages := m \<rparr>)))"

text \<open>Only the first view of an external texture may exist.\<close>

definition external_view :: "view option list \<Rightarrow> view res" where
  "external_view vs =
     bindR (vec_at vs 1) (\<lambda>v1. bindR (assertR (v1 = None)) (\<lambda>_.
     bindR (vec_at vs 2) (\<lambda>v2. bindR (assertR (v2 = None)) (\<lambda>_.
     bindR (vec_at vs 0) (\<lambda>v0. case v0 of None \<Rightarrow> undef | Some v \<Rightarrow> ok v)))))"

definition AddBinding :: "(nat \<Rightarrow> texture) \<Rightarrow> binding \<Rightarrow> sync_tracker \<Rightarrow> sync_tracker res" where
  "AddBinding texs b tr =
     (case b of
        Buffer_Binding ty p \<Rightarrow>
          (case ty of
             Binding_Uniform \<Rightarrow> BufferUsedAs p 64 tr
           | Binding_Storage \<Rightarrow> BufferUsedAs p Storage tr
           | Binding_InternalStorage \<Rightarrow> BufferUsedAs p kInternalStorageBuffer tr
           | Binding_ReadOnlyStorage \<Rightarrow> BufferUsedAs p kReadOnlyStorageBuffer tr
           | Binding_Undefined \<Rightarrow> undef)
      | Texture_Binding v \<Rightarrow> TextureViewUsedAs texs v Tex_TextureBinding tr
      | StorageTexture_Binding writeOnly v \<Rightarrow> if writeOnly then TextureViewUsedAs texs v Tex_StorageBinding tr else undef
      | ExternalTexture_Binding p vs \<Rightarrow>
          bindR (external_view vs) (\<lambda>v.
            TextureViewUsedAs texs v Tex_TextureBinding (tr\<lparr> mExternalTextureUsages := insort_insert p (mExternalTextureUsages tr) \<rparr>))
      | Sampler_Binding \<Rightarrow> ok tr)"

definition AddBindGroup :: "(nat \<Rightarrow> texture) \<Rightarrow> binding list \<Rightarrow> sync_tracker \<Rightarrow> sync_tracker res" where
  "AddBindGroup texs bindGroup tr = foldR (AddBinding texs) bindGroup tr"

record sync_scope =
  scope_buffers :: "nat list"
  bufferUsages :: "usage list"
  scope_textures :: "nat list"
  textureUsages :: "texture_usages list"
  externalTextures :: "nat list"

definition SyncScopeUsageTracker :: sync_tracker where
  "SyncScopeUsageTracker = \<lparr> mBufferUsages = [], mTextureUsages = [], mExternalTextureUsages = [] \<rparr>"

definition AcquireSyncScopeUsage :: "sync_tracker \<Rightarrow> sync_scope \<times> sync_tracker" where
  "AcquireSyncScopeUsage tr =
     (\<lparr> scope_buffers = map fst (mBufferUsages tr), bufferUsages = map snd (mBufferUsages tr),
        scope_textures = map fst (mTextureUsages tr), textureUsages = map snd (mTextureUsages tr),
        externalTextures = mExternalTextureUsages tr \<rparr>, SyncScopeUsageTracker)"

section \<open>Compute and render passes\<close>

record compute_usage =
  dispatchUsages :: "sync_scope list"
  referencedBuffers :: "nat list"
  referencedTextures :: "nat list"
  referencedExternalTextures :: "nat list"

definition AddDispatch :: "sync_scope \<Rightarrow> compute_usage \<Rightarrow> compute_usage" where
  "AddDispatch scope cu = cu\<lparr> dispatchUsages := dispatchUsages cu @ [scope] \<rparr>"

definition AddReferencedBuffer :: "nat \<Rightarrow> compute_usage \<Rightarrow> compute_usage" where
  "AddReferencedBuffer p cu = cu\<lparr> referencedBuffers := insort_insert p (referencedBuffers cu) \<rparr>"

definition add_referenced_texture :: "nat \<Rightarrow> compute_usage \<Rightarrow> compute_usage" where
  "add_referenced_texture p cu = cu\<lparr> referencedTextures := insort_insert p (referencedTextures cu) \<rparr>"

definition AddReferencedByBinding :: "binding \<Rightarrow> compute_usage \<Rightarrow> compute_usage res" where
  "AddReferencedByBinding b cu =
     (case b of
        Buffer_Binding ty p \<Rightarrow> ok (AddReferencedBuffer p cu)
      | Texture_Binding v \<Rightarrow> ok (add_referenced_texture (view_texture v) cu)
      | ExternalTexture_Binding p vs \<Rightarrow>
          bindR (external_view vs) (\<lambda>v.
            ok (add_referenced_texture (view_texture v)
              (cu\<lparr> referencedExternalTextures := insort_insert p (referencedExternalTextures cu) \<rparr>)))
      | StorageTexture_Binding writeOnly v \<Rightarrow> ok cu
      | Sampler_Binding \<Rightarrow> ok cu)"

definition AddResourcesReferencedByBindGroup :: "binding list \<Rightarrow> compute_usage \<Rightarrow> compute_usage res" where
  "AddResourcesReferencedByBindGroup bindGroup cu = foldR AddReferencedByBinding bindGroup cu"

text \<open>A compute pass: the bind groups that are set, and the usage so far.\<close>

record compute_pass =
  bind_groups :: "(nat \<times> binding list) list"
  pass_usage :: compute_usage

definition compute_SetBindGroup :: "nat \<Rightarrow> binding list \<Rightarrow> compute_pass \<Rightarrow> compute_pass res" where
  "compute_SetBindGroup i bindGroup pass =
     bindR (AddResourcesReferencedByBindGroup bindGroup (pass_usage pass)) (\<lambda>cu.
     bindR (map_update i [] (\<lambda>_. ok bindGroup) (bind_groups pass)) (\<lambda>groups.
       ok (pass\<lparr> pass_usage := cu, bind_groups := groups \<rparr>)))"

text \<open>The scope of a dispatch: the bind groups the layout of the pipeline uses, in order.\<close>

definition AddDispatchSyncScope :: "(nat \<Rightarrow> texture) \<Rightarrow> nat list \<Rightarrow> sync_tracker \<Rightarrow> compute_pass \<Rightarrow> compute_pass res" where
  "AddDispatchSyncScope texs used scope pass =
     bindR (foldR (\<lambda>i tr. case map_of (bind_groups pass) i of None \<Rightarrow> undef | Some bindGroup \<Rightarrow> AddBindGroup texs bindGroup tr) used scope) (\<lambda>tr.
       ok (pass\<lparr> pass_usage := AddDispatch (fst (AcquireSyncScopeUsage tr)) (pass_usage pass) \<rparr>))"

record render_tracker =
  rt_scope :: sync_tracker
  mQueryAvailabilities :: "(nat \<times> bool list) list"

record render_usage = sync_scope +
  querySets :: "nat list"
  queryAvailabilities :: "bool list list"

definition TrackQueryAvailability :: "(nat \<Rightarrow> nat) \<Rightarrow> nat \<Rightarrow> nat \<Rightarrow> render_tracker \<Rightarrow> render_tracker res" where
  "TrackQueryAvailability query_count querySet queryIndex rt =
     bindR (map_update querySet (replicate (query_count querySet) False) (\<lambda>bs. vec_set bs (int queryIndex) True) (mQueryAvailabilities rt)) (\<lambda>m.
       ok (rt\<lparr> mQueryAvailabilities := m \<rparr>))"

definition Render_AcquireResourceUsage :: "render_tracker \<Rightarrow> render_usage \<times> render_tracker" where
  "Render_AcquireResourceUsage rt =
     (let (scope, tr) = AcquireSyncScopeUsage (rt_scope rt) in
      (sync_scope.extend scope \<lparr> querySets = map fst (mQueryAvailabilities rt), queryAvailabilities = map snd (mQueryAvailabilities rt) \<rparr>,
       \<lparr> rt_scope = tr, mQueryAvailabilities = [] \<rparr>))"

section \<open>The rules of a scope\<close>

definition kReadOnlyBufferUsages :: usage where
  "kReadOnlyBufferUsages = MapRead OR CopySrc OR 16 OR 32 OR 64 OR kReadOnlyStorageBuffer OR Indirect"

definition kReadOnlyTextureUsages :: "32 word" where
  "kReadOnlyTextureUsages = Tex_CopySrc OR Tex_TextureBinding OR kReadOnlyRenderAttachment"

definition compatible :: "32 word \<Rightarrow> 32 word \<Rightarrow> bool" where
  "compatible readOnlyUsages u \<longleftrightarrow> IsSubset u readOnlyUsages \<or> HasZeroOrOneBits (unat u)"

definition ValidateSyncScopeResourceUsage :: "('x) sync_scope_scheme \<Rightarrow> unit res" where
  "ValidateSyncScopeResourceUsage scope =
     bindR (foldR (\<lambda>u _. if \<not> compatible kReadOnlyBufferUsages u
                         then validation_error ''buffer usage includes writable usage and another usage in the same synchronization scope''
                         else ok ()) (bufferUsages scope) ()) (\<lambda>_.
     foldR (\<lambda>textureUsage _.
         bindR (Iterate textureUsage) (\<lambda>calls.
           if \<exists>(r, u) \<in> set calls. \<not> compatible kReadOnlyTextureUsages u
           then validation_error ''texture usage includes writable usage and another usage in the same synchronization scope''
           else ok ())) (textureUsages scope) ())"

record command_usages =
  renderPasses :: "render_usage list"
  computePasses :: "compute_usage list"
  topLevelBuffers :: "nat list"
  topLevelTextures :: "nat list"
  usedQuerySets :: "nat list"

definition ValidateFinish :: "bool \<Rightarrow> nat \<Rightarrow> command_usages \<Rightarrow> unit res" where
  "ValidateFinish encoder_error mDebugGroupStackSize cu =
     (if encoder_error then validation_error ''command encoder is an error''
      else bindR (foldR (\<lambda>p _. ValidateSyncScopeResourceUsage p) (renderPasses cu) ()) (\<lambda>_.
        bindR (foldR (\<lambda>p _. foldR (\<lambda>scope _. ValidateSyncScopeResourceUsage scope) (dispatchUsages p) ()) (computePasses cu) ()) (\<lambda>_.
        if mDebugGroupStackSize \<noteq> 0 then validation_error ''PushDebugGroup without a corresponding PopDebugGroup'' else ok ())))"

section \<open>Submission\<close>

text \<open>The objects a submission reads.\<close>

record objects =
  texs :: "nat \<Rightarrow> texture"
  bufs :: "nat \<Rightarrow> buffer"
  external_destroyed :: "nat \<Rightarrow> bool"
  queries_destroyed :: "nat \<Rightarrow> bool"

definition validate_all :: "('a \<Rightarrow> unit res) \<Rightarrow> 'a list \<Rightarrow> unit res" where
  "validate_all check xs = foldR (\<lambda>x _. check x) xs ()"

definition External_ValidateCanUseInSubmitNow :: "objects \<Rightarrow> nat \<Rightarrow> unit res" where
  "External_ValidateCanUseInSubmitNow obs p =
     (if external_destroyed obs p then validation_error ''Destroyed external texture is used in a submit'' else ok ())"

definition QuerySet_ValidateCanUseInSubmitNow :: "objects \<Rightarrow> nat \<Rightarrow> unit res" where
  "QuerySet_ValidateCanUseInSubmitNow obs p =
     (if queries_destroyed obs p then validation_error ''query set used while destroyed'' else ok ())"

definition ValidateSubmit_usages :: "objects \<Rightarrow> command_usages \<Rightarrow> unit res" where
  "ValidateSubmit_usages obs cu =
     bindR (validate_all (\<lambda>scope.
         bindR (validate_all (\<lambda>p. ValidateCanUseOnQueueNow (bufs obs p)) (scope_buffers scope)) (\<lambda>_.
         bindR (validate_all (\<lambda>p. ValidateCanUseInSubmitNow (texs obs p)) (scope_textures scope)) (\<lambda>_.
           validate_all (External_ValidateCanUseInSubmitNow obs) (externalTextures scope)))) (renderPasses cu)) (\<lambda>_.
     bindR (validate_all (\<lambda>pass.
         bindR (validate_all (\<lambda>p. ValidateCanUseOnQueueNow (bufs obs p)) (referencedBuffers pass)) (\<lambda>_.
         bindR (validate_all (\<lambda>p. ValidateCanUseInSubmitNow (texs obs p)) (referencedTextures pass)) (\<lambda>_.
           validate_all (External_ValidateCanUseInSubmitNow obs) (referencedExternalTextures pass)))) (computePasses cu)) (\<lambda>_.
     bindR (validate_all (\<lambda>p. ValidateCanUseOnQueueNow (bufs obs p)) (topLevelBuffers cu)) (\<lambda>_.
     bindR (validate_all (\<lambda>p. ValidateCanUseInSubmitNow (texs obs p)) (topLevelTextures cu)) (\<lambda>_.
       validate_all (QuerySet_ValidateCanUseInSubmitNow obs) (usedQuerySets cu)))))"

text \<open>A command buffer is submitted once.\<close>

record command_buffer =
  cb_error :: bool
  cb_alive :: bool
  cb_usages :: command_usages

definition ValidateSubmit :: "bool \<Rightarrow> objects \<Rightarrow> command_buffer list \<Rightarrow> unit res" where
  "ValidateSubmit queue_error obs commands =
     (if queue_error then validation_error ''queue is an error''
      else validate_all (\<lambda>c.
        if cb_error c then validation_error ''command buffer is an error''
        else if \<not> cb_alive c then validation_error ''command buffer cannot be submitted more than once''
        else ValidateSubmit_usages obs (cb_usages c)) commands)"

end
