(* ===== verification/Sync_Scope_Spec.thy ===== *)
theory Sync_Scope_Spec
  imports Sync_Scope
begin

unbundle bit_operations_syntax

text \<open>
  What the tracking of usages decides: a synchronisation scope is accepted exactly when every
  buffer and every single subresource has one kind of write or only reads in it, however the
  usages are stored; and what a submission checks of the resources of a compute pass.
\<close>

section \<open>Tables changed pointwise\<close>

text \<open>
  The contract between a tracker and the storage it keeps per texture: an operation that applies
  to the shape of a table returns, and changes the value of every cell by its effect on it.
\<close>

locale pointwise_table =
  fixes table_inv :: "'s \<Rightarrow> bool"
    and shape :: "'s \<Rightarrow> 'd"
    and cells_of :: "'d \<Rightarrow> 'c set"
    and lookup :: "'s \<Rightarrow> 'c \<Rightarrow> 'v res"
    and step :: "'op \<Rightarrow> 's \<Rightarrow> 's res"
    and applies :: "'d \<Rightarrow> 'op \<Rightarrow> bool"
    and effect :: "'op \<Rightarrow> 'c \<Rightarrow> 'v \<Rightarrow> 'v"
  assumes step_ok: "table_inv s \<Longrightarrow> applies (shape s) x \<Longrightarrow>
    \<exists>s'. step x s = ok s' \<and> table_inv s' \<and> shape s' = shape s \<and>
      (\<forall>c \<in> cells_of (shape s). lookup s' c = bindR (lookup s c) (\<lambda>v. ok (effect x c v)))"
begin

lemma run_ok:
  assumes "table_inv s" "list_all (applies (shape s)) xs" "\<And>c. c \<in> cells_of (shape s) \<Longrightarrow> lookup s c = ok v0"
  shows "\<exists>s'. foldR step xs s = ok s' \<and> table_inv s' \<and> shape s' = shape s \<and>
    (\<forall>c \<in> cells_of (shape s). lookup s' c = ok (fold (\<lambda>x. effect x c) xs v0))"
  using assms(2)
proof (induction xs rule: rev_induct)
  case Nil
  then show ?case using assms(1,3) by auto
next
  case (snoc x xs)
  then obtain s1 where s1: "foldR step xs s = ok s1" "table_inv s1" "shape s1 = shape s"
    "\<forall>c \<in> cells_of (shape s). lookup s1 c = ok (fold (\<lambda>x. effect x c) xs v0)" by auto
  then show ?case using step_ok [OF s1(2), of x] snoc.prems by (auto simp: foldR_append)
qed

end

section \<open>The usages of one texture\<close>

datatype texture_use = View_Use subresource_range "32 word" | Bundle_Use texture_usages

fun use_step :: "texture_use \<Rightarrow> texture_usages \<Rightarrow> texture_usages res" where
  "use_step (View_Use r u) st = bindR (Update 0 r (\<lambda>_. add_texture_usage u) st) (\<lambda>(st, _). ok st)"
| "use_step (Bundle_Use b) st = bindR (Merge 0 b (\<lambda>_ stored added. stored OR added) st) (\<lambda>(st, calls).
     bindR (assertR (\<forall>(_, _, added) \<in> set calls. added AND Tex_RenderAttachment = 0)) (\<lambda>_. ok st))"

type_synonym table_shape = "aspect \<times> nat \<times> nat"

definition shape_of :: "'a subresources \<Rightarrow> table_shape" where
  "shape_of st = (mAspects st, mArrayLayerCount st, mMipLevelCount st)"

definition shape_cells :: "table_shape \<Rightarrow> (aspect \<times> nat \<times> nat) set" where
  "shape_cells = (\<lambda>(k, L, M). set (cells (MakeFull k L M)))"

definition get_cell :: "'a subresources \<Rightarrow> aspect \<times> nat \<times> nat \<Rightarrow> 'a res" where
  "get_cell st = (\<lambda>(a, l, m). Get st a l m)"

text \<open>Bundles hold no attachment.\<close>

fun use_applies :: "table_shape \<Rightarrow> texture_use \<Rightarrow> bool" where
  "use_applies (k, L, M) (View_Use r u) \<longleftrightarrow> set (IterateEnumMask (aspects r)) \<subseteq> set (IterateEnumMask k) \<and>
     baseArrayLayer r + layerCount r \<le> L \<and> baseMipLevel r + levelCount r \<le> M \<and> layerCount r \<noteq> 0"
| "use_applies s (Bundle_Use b) \<longleftrightarrow> storage_inv b \<and> shape_of b = s \<and>
     (\<forall>c \<in> shape_cells s. \<exists>u. get_cell b c = ok u \<and> u AND Tex_RenderAttachment = 0)"

fun use_effect :: "texture_use \<Rightarrow> aspect \<times> nat \<times> nat \<Rightarrow> 32 word \<Rightarrow> 32 word" where
  "use_effect (View_Use r u) c v = (if c \<in> set (cells r) then add_texture_usage u v else v)"
| "use_effect (Bundle_Use b) c v = (case get_cell b c of Inr u \<Rightarrow> v OR u | Inl _ \<Rightarrow> v)"

lemma shape_same_dims: "same_dims st st' \<longleftrightarrow> shape_of st' = shape_of st"
  by (auto simp: same_dims_def shape_of_def)

lemma shape_cells_all: "shape_cells (shape_of st) = set (all_cells st)"
  by (simp add: shape_cells_def shape_of_def all_cells_def)

lemma merge_calls_from:
  assumes st: "storage_inv st" and m: "Merge 0 b f st = ok (st', calls)" and call: "(r, v, u) \<in> set calls"
    and vals: "\<forall>((a, l, m), v, u) \<in> set (expand calls). Get st a l m = ok v \<and> Get b a l m = ok u"
    and fsts: "map fst (expand calls) = all_cells st"
  shows "\<exists>c \<in> set (all_cells st). get_cell b c = ok u"
proof -
  obtain n where "storage_wf n st" using st by (auto simp: storage_inv_def)
  from Merge_nonempty [OF this m] call have "cells r \<noteq> []" by (auto simp: nonempty_def)
  then obtain c where "c \<in> set (cells r)" by (cases "cells r") auto
  then have e: "(c, v, u) \<in> set (expand calls)" using call by (force simp: expand_def)
  then have "c \<in> set (all_cells st)" using fsts by (metis fst_conv image_eqI list.set_map)
  moreover have "get_cell b c = ok u" using vals e by (cases c) (auto simp: get_cell_def)
  ultimately show ?thesis by blast
qed

lemma use_step_ok:
  assumes "storage_inv st" "use_applies (shape_of st) x"
  shows "\<exists>st'. use_step x st = ok st' \<and> storage_inv st' \<and> shape_of st' = shape_of st \<and>
    (\<forall>c \<in> shape_cells (shape_of st). get_cell st' c = bindR (get_cell st c) (\<lambda>v. ok (use_effect x c v)))"
proof (cases x)
  case (View_Use r u)
  have r: "range_ok st r" "layerCount r \<noteq> 0" using assms(2) by (simp_all add: View_Use shape_of_def range_ok_def)
  obtain st' calls where u: "Update 0 r (\<lambda>_. add_texture_usage u) st = ok (st', calls)" "storage_inv st'" "same_dims st st'"
    "\<forall>(a, l, m) \<in> set (all_cells st). Get st' a l m = (if (a, l, m) \<in> set (cells r) then bindR (Get st a l m) (\<lambda>v. ok (add_texture_usage u v)) else Get st a l m)"
    using Update_pointwise [OF assms(1) r, of 0 "add_texture_usage u"] by blast
  have "get_cell st' c = bindR (get_cell st c) (\<lambda>v. ok (use_effect x c v))" if "c \<in> set (all_cells st)" for c
    using bspec [OF u(4) that] by (cases c; cases "get_cell st c") (auto simp: get_cell_def View_Use)
  moreover have "shape_of st' = shape_of st" using u(3) by (simp add: shape_same_dims)
  ultimately show ?thesis using u(1,2) by (simp add: View_Use shape_cells_all)
next
  case (Bundle_Use b)
  have b: "storage_inv b" "same_dims st b" and added: "\<forall>c \<in> set (all_cells st). \<exists>u. get_cell b c = ok u \<and> u AND Tex_RenderAttachment = 0"
    using assms(2) by (simp_all add: Bundle_Use shape_same_dims flip: shape_cells_all)
  obtain st' calls where m: "Merge 0 b (\<lambda>_ stored added. stored OR added) st = ok (st', calls)" "storage_inv st'" "same_dims st st'"
    "\<forall>(a, l, m) \<in> set (all_cells st). Get st' a l m = bindR (Get st a l m) (\<lambda>v. bindR (Get b a l m) (\<lambda>u. ok (v OR u)))"
    "map fst (expand calls) = all_cells st" "\<forall>((a, l, m), v, u) \<in> set (expand calls). Get st a l m = ok v \<and> Get b a l m = ok u"
    using Merge_pointwise [OF assms(1) b, of 0 "(OR)"] by blast
  have "\<forall>(_, _, u) \<in> set calls. u AND Tex_RenderAttachment = 0"
    using merge_calls_from [OF assms(1) m(1) _ m(6,5)] added by fastforce
  then have run: "use_step x st = ok st'" using m(1) by (simp add: Bundle_Use)
  have "get_cell st' c = bindR (get_cell st c) (\<lambda>v. ok (use_effect x c v))" if "c \<in> set (all_cells st)" for c
    using bspec [OF m(4) that] bspec [OF added that] by (cases c) (auto simp: get_cell_def Bundle_Use)
  moreover have "shape_of st' = shape_of st" using m(3) by (simp add: shape_same_dims)
  ultimately show ?thesis using run m(2) by (simp add: shape_cells_all)
qed

interpretation usages: pointwise_table storage_inv shape_of shape_cells get_cell use_step use_applies use_effect
  by unfold_locales (rule use_step_ok)

section \<open>Usages that go together\<close>

text \<open>The rule, without the encoding: only reads, or one single usage; and one attachment.\<close>

definition consistent :: "32 word \<Rightarrow> 32 word list \<Rightarrow> bool" where
  "consistent readOnlyUsages us \<longleftrightarrow>
     list_all (\<lambda>u. u AND readOnlyUsages = u) us \<or> list_ex (\<lambda>b. set us \<subseteq> {0, 2 ^ b}) [0..<32]"

definition attachments :: "32 word list \<Rightarrow> nat" where
  "attachments us = length (filter (\<lambda>u. u AND Tex_RenderAttachment \<noteq> 0) us)"

definition joined :: "32 word list \<Rightarrow> 32 word" where
  "joined us = fold (\<lambda>u v. v OR u) us 0"

lemma no_uses [simp]: "consistent ro []" "attachments [] = 0"
  by (simp_all add: consistent_def attachments_def)

lemma fold_or_bit: "bit (fold (\<lambda>u v. v OR u) us v) k \<longleftrightarrow> bit v k \<or> (\<exists>u \<in> set us. bit (u :: 32 word) k)"
  by (induction us arbitrary: v) (auto simp: bit_or_iff)

lemma joined_bit: "bit (joined us) k \<longleftrightarrow> (\<exists>u \<in> set us. bit u k)"
  by (simp add: joined_def fold_or_bit)

lemma subset_bits: "u AND v = u \<longleftrightarrow> (\<forall>k. bit u k \<longrightarrow> bit (v :: 32 word) k)"
proof
  assume "u AND v = u"
  then have "bit (u AND v) k = bit u k" for k by simp
  then show "\<forall>k. bit u k \<longrightarrow> bit v k" by (auto simp: bit_and_iff)
qed (intro bit_word_eqI, auto simp: bit_and_iff)

lemma subset_bit_set: "u \<in> {0, 2 ^ b} \<longleftrightarrow> (\<forall>k. bit (u :: 32 word) k \<longrightarrow> k = b)" if "b < 32"
proof
  assume bits: "\<forall>k. bit u k \<longrightarrow> k = b"
  show "u \<in> {0, 2 ^ b}"
  proof (cases "bit u b")
    case True
    then have "bit u k \<longleftrightarrow> k = b" for k using bits by blast
    then have "u = 2 ^ b" using that by (intro bit_word_eqI) (simp add: bit_exp_iff)
    then show ?thesis by simp
  next
    case False
    then have "\<not> bit u k" for k using bits by blast
    then have "u = 0" by (intro bit_word_eqI) simp
    then show ?thesis by simp
  qed
qed (auto simp: bit_exp_iff)

lemma HasZeroOrOneBits_iff: "HasZeroOrOneBits n \<longleftrightarrow> n = 0 \<or> (\<exists>k. n = 2 ^ k)"
proof (cases "n = 0 \<or> (\<exists>k. n = 2 ^ k)")
  case True
  have "bit (2 ^ k :: nat) j \<longleftrightarrow> j = k" "bit (2 ^ k - 1 :: nat) j \<longleftrightarrow> j < k" for j k
    using bit_mask_iff [of k j, where 'a = nat] by (auto simp: bit_exp_iff mask_eq_exp_minus_1)
  then have "2 ^ k AND (2 ^ k - 1) = (0 :: nat)" for k by (intro bit_eqI) (auto simp: bit_and_iff)
  then show ?thesis using True by (auto simp: HasZeroOrOneBits_def)
next
  case False
  then obtain k where k: "2 ^ k \<le> n" "n < 2 ^ Suc k" using ex_power_ivl1 [of 2 n] by auto
  then have lt: "2 ^ k < n" using False by (metis le_neq_implies_less)
  have "n div 2 ^ k = 1" "(n - 1) div 2 ^ k = 1" using lt k(2) by (auto intro!: div_nat_eqI)
  then have "bit n k" "bit (n - 1) k" by (simp_all add: bit_iff_odd)
  then have "bit (n AND (n - 1)) k" unfolding bit_and_iff by blast
  then show ?thesis using False unfolding HasZeroOrOneBits_def by (metis bit_0_eq bot_apply bot_bool_def)
qed

lemma single_bit_iff: "HasZeroOrOneBits (unat u) \<longleftrightarrow> (\<exists>b<32. u \<in> {0, 2 ^ b})" for u :: "32 word"
proof -
  have pow: "unat (2 ^ b :: 32 word) = 2 ^ b" if "b < 32" for b
    using pow2_word(1) [of b, where 'w = 32] that by simp
  have "(\<exists>k. unat u = 2 ^ k) \<longleftrightarrow> (\<exists>b<32. u = 2 ^ b)"
  proof
    assume "\<exists>k. unat u = 2 ^ k"
    then obtain k where k: "unat u = 2 ^ k" by blast
    have "(2 :: nat) ^ k < 2 ^ 32" unfolding k [symmetric] by (rule order.strict_trans2 [OF unsigned_less]) simp
    then have "k < 32" by (rule power_less_imp_less_exp [rotated]) simp
    then show "\<exists>b<32. u = 2 ^ b" using k pow by (metis word_unat_eq_iff)
  next
    assume "\<exists>b<32. u = 2 ^ b"
    then obtain b where "b < 32" "u = 2 ^ b" by blast
    then have "unat u = 2 ^ b" using pow by simp
    then show "\<exists>k. unat u = 2 ^ k" by blast
  qed
  moreover have "unat u = 0 \<longleftrightarrow> u = 0" by (simp add: unat_eq_0)
  ultimately show ?thesis unfolding HasZeroOrOneBits_iff by (auto intro: exI [of _ 0])
qed

lemma compatible_joined: "compatible ro (joined us) \<longleftrightarrow> consistent ro us"
proof -
  have "IsSubset (joined us) ro \<longleftrightarrow> (\<forall>u \<in> set us. u AND ro = u)"
    by (auto simp: IsSubset_def subset_bits joined_bit)
  moreover have "(\<exists>b<32. joined us \<in> {0, 2 ^ b}) \<longleftrightarrow> (\<exists>b<32. set us \<subseteq> {0, 2 ^ b})"
  proof -
    have "joined us \<in> {0, 2 ^ b} \<longleftrightarrow> set us \<subseteq> {0, 2 ^ b}" if "b < 32" for b
      unfolding subset_bit_set [OF that] subset_eq joined_bit by blast
    then show ?thesis by blast
  qed
  ultimately show ?thesis by (auto simp: compatible_def single_bit_iff consistent_def list_all_iff list_ex_iff)
qed

lemma attachment_bit: "u AND Tex_RenderAttachment = 0 \<longleftrightarrow> \<not> bit u 4"
  using and_exp_eq_0_iff_not_bit [of u 4] by simp

lemma add_texture_usage_or: "\<not> bit u 4 \<or> \<not> bit v 4 \<Longrightarrow> add_texture_usage u v = v OR u"
  by (auto simp: add_texture_usage_def Let_def attachment_bit)

lemma again_bits: "bit kAgainAsRenderAttachment 31"
  by (simp add: kAgainAsRenderAttachment_def bit_numeral_word_iff)

lemma add_keeps_bits: "bit v k \<Longrightarrow> bit (fold add_texture_usage us v) k"
  by (induction us arbitrary: v) (auto simp: add_texture_usage_def Let_def bit_or_iff)

lemma add_texture_usages:
  "if attachments us + of_bool (bit v 4) \<le> 1 then fold add_texture_usage us v = fold (\<lambda>u v. v OR u) us v
   else bit (fold add_texture_usage us v) 4 \<and> bit (fold add_texture_usage us v) 31"
proof (induction us arbitrary: v)
  case (Cons u us)
  show ?case
  proof (cases "bit u 4 \<and> bit v 4")
    case True
    then have "bit (add_texture_usage u v) 4" "bit (add_texture_usage u v) 31"
      using again_bits by (simp_all add: add_texture_usage_def attachment_bit bit_or_iff)
    then show ?thesis using True by (simp add: attachments_def attachment_bit add_keeps_bits)
  next
    case False
    then have e: "add_texture_usage u v = v OR u" by (intro add_texture_usage_or) auto
    have b: "attachments us + of_bool (bit (v OR u) 4) = attachments (u # us) + of_bool (bit v 4)"
      using False by (auto simp: attachments_def attachment_bit bit_or_iff)
    show ?thesis using Cons [of "v OR u"] unfolding b by (simp add: e)
  qed
qed (simp add: attachments_def)

section \<open>The uses of a scope\<close>

datatype scope_use = Use_Buffer nat usage | Use_View view "32 word" | Use_Bundle nat texture_usages | Use_External nat

fun run_use :: "(nat \<Rightarrow> texture) \<Rightarrow> scope_use \<Rightarrow> sync_tracker \<Rightarrow> sync_tracker res" where
  "run_use tex (Use_Buffer p u) = BufferUsedAs p u"
| "run_use tex (Use_View v u) = TextureViewUsedAs tex v u"
| "run_use tex (Use_Bundle p b) = AddRenderBundleTextureUsage tex p b"
| "run_use tex (Use_External p) = (\<lambda>tr. ok (tr\<lparr> mExternalTextureUsages := insort_insert p (mExternalTextureUsages tr) \<rparr>))"

definition buffer_uses :: "nat \<Rightarrow> scope_use list \<Rightarrow> usage list" where
  "buffer_uses p xs = concat (map (\<lambda>x. case x of Use_Buffer q u \<Rightarrow> if q = p then [u] else [] | _ \<Rightarrow> []) xs)"

definition texture_uses :: "nat \<Rightarrow> scope_use list \<Rightarrow> texture_use list" where
  "texture_uses p xs = concat (map (\<lambda>x. case x of Use_View v u \<Rightarrow> if view_texture v = p then [View_Use (view_range v) u] else []
     | Use_Bundle q b \<Rightarrow> if q = p then [Bundle_Use b] else [] | _ \<Rightarrow> []) xs)"

fun cell_use :: "aspect \<times> nat \<times> nat \<Rightarrow> texture_use \<Rightarrow> 32 word list" where
  "cell_use c (View_Use r u) = (if c \<in> set (cells r) then [u] else [])"
| "cell_use c (Bundle_Use b) = (case get_cell b c of Inr u \<Rightarrow> [u] | Inl _ \<Rightarrow> [])"

definition cell_uses :: "nat \<Rightarrow> aspect \<times> nat \<times> nat \<Rightarrow> scope_use list \<Rightarrow> 32 word list" where
  "cell_uses p c xs = concat (map (cell_use c) (texture_uses p xs))"

text \<open>A use the program can make: of a view inside its texture, of a bundle recorded over it.\<close>

definition texture_shape :: "texture \<Rightarrow> table_shape" where
  "texture_shape t = (format_aspects (mFormat t), layers_of t, mTextureMipLevelCount t)"

fun use_ok :: "device_info \<Rightarrow> (nat \<Rightarrow> texture) \<Rightarrow> scope_use \<Rightarrow> bool" where
  "use_ok dev tex (Use_Buffer p u) \<longleftrightarrow> True"
| "use_ok dev tex (Use_External p) \<longleftrightarrow> True"
| "use_ok dev tex (Use_View v u) \<longleftrightarrow> texture_ok dev (tex (view_texture v)) \<and> inside (tex (view_texture v)) (view_range v) \<and>
     layerCount (view_range v) \<noteq> 0"
| "use_ok dev tex (Use_Bundle p b) \<longleftrightarrow> texture_ok dev (tex p) \<and> use_applies (texture_shape (tex p)) (Bundle_Use b)"

lemma uses_append:
  "buffer_uses p (xs @ ys) = buffer_uses p xs @ buffer_uses p ys" "texture_uses p (xs @ ys) = texture_uses p xs @ texture_uses p ys"
  by (simp_all add: buffer_uses_def texture_uses_def)

lemma uses_applies:
  assumes "list_all (use_ok dev tex) xs"
  shows "list_all (use_applies (texture_shape (tex p))) (texture_uses p xs)" "texture_uses p xs \<noteq> [] \<Longrightarrow> texture_ok dev (tex p)"
proof -
  have one: "texture_ok dev (tex p) \<and> list_all (use_applies (texture_shape (tex p))) (texture_uses p [x])"
    if "use_ok dev tex x" "texture_uses p [x] \<noteq> []" for x
    using that by (cases x) (auto simp: texture_uses_def inside_def texture_shape_def split: if_splits)
  have "texture_ok dev (tex p) \<and> use_applies (texture_shape (tex p)) y" if "y \<in> set (texture_uses p xs)" for y
  proof -
    have "y \<in> set (concat (map (\<lambda>x. texture_uses p [x]) xs))" using that by (simp add: texture_uses_def)
    then obtain x where "x \<in> set xs" "y \<in> set (texture_uses p [x])" by auto
    moreover from this have "texture_uses p [x] \<noteq> []" "use_ok dev tex x" using assms by (auto simp: list_all_iff)
    ultimately show ?thesis using one by (auto simp: list_all_iff)
  qed
  then show "list_all (use_applies (texture_shape (tex p))) (texture_uses p xs)" "texture_uses p xs \<noteq> [] \<Longrightarrow> texture_ok dev (tex p)"
    using hd_in_set by (auto simp: list_all_iff)
qed

lemma fresh_usages_ok:
  assumes "texture_ok dev t"
  shows "\<exists>st. fresh_usages t = ok st \<and> storage_inv st \<and> shape_of st = texture_shape t \<and>
    (\<forall>c \<in> shape_cells (texture_shape t). get_cell st c = ok 0)"
proof -
  obtain st where st: "SubresourceStorage (format_aspects (mFormat t)) (layers_of t) (mTextureMipLevelCount t) (0 :: 32 word) = ok st"
    "storage_inv st" "mAspects st = format_aspects (mFormat t)" "mArrayLayerCount st = layers_of t" "mMipLevelCount st = mTextureMipLevelCount t"
    "\<forall>(a, l, m) \<in> set (all_cells st). Get st a l m = ok 0" using texture_storage [OF assms, of "0 :: 32 word"] by blast
  have sh: "shape_of st = texture_shape t" using st(3-5) by (simp add: shape_of_def texture_shape_def)
  have "get_cell st c = ok 0" if "c \<in> shape_cells (texture_shape t)" for c
    using bspec [OF st(6), of c] that by (cases c) (simp add: get_cell_def flip: shape_cells_all sh)
  then show ?thesis using st(1,2) sh assms by (simp add: fresh_usages_def)
qed

definition table_of :: "texture \<Rightarrow> texture_use list \<Rightarrow> texture_usages res" where
  "table_of t us = bindR (fresh_usages t) (foldR use_step us)"

lemma effect_is_add:
  assumes "use_applies s x" "c \<in> shape_cells s"
  shows "use_effect x c v = fold add_texture_usage (cell_use c x) v"
proof (cases x)
  case (Bundle_Use b)
  then obtain u where "get_cell b c = ok u" "\<not> bit u 4" using assms by (cases s) (auto simp: attachment_bit)
  then show ?thesis by (simp add: Bundle_Use add_texture_usage_or)
qed simp

lemma effects_are_adds:
  assumes "list_all (use_applies s) xs" "c \<in> shape_cells s"
  shows "fold (\<lambda>x. use_effect x c) xs v = fold add_texture_usage (concat (map (cell_use c) xs)) v"
  using assms by (induction xs arbitrary: v) (simp_all add: effect_is_add [of s])

lemma table_of_ok:
  assumes "texture_ok dev t" "list_all (use_applies (texture_shape t)) us"
  shows "\<exists>st. table_of t us = ok st \<and> storage_inv st \<and> shape_of st = texture_shape t \<and>
    (\<forall>c \<in> shape_cells (texture_shape t). get_cell st c = ok (fold add_texture_usage (concat (map (cell_use c) us)) 0))"
proof -
  obtain s0 where s0: "fresh_usages t = ok s0" "storage_inv s0" "shape_of s0 = texture_shape t"
    "\<forall>c \<in> shape_cells (texture_shape t). get_cell s0 c = ok 0" using fresh_usages_ok [OF assms(1)] by blast
  have "\<exists>st. foldR use_step us s0 = ok st \<and> storage_inv st \<and> shape_of st = shape_of s0 \<and>
    (\<forall>c \<in> shape_cells (shape_of s0). get_cell st c = ok (fold (\<lambda>x. use_effect x c) us 0))"
    using s0(2-4) assms(2) by (intro usages.run_ok) simp_all
  then show ?thesis using s0(1,3) effects_are_adds [OF assms(2)] by (auto simp: table_of_def)
qed

section \<open>The tracker\<close>

lemma map_update_ok:
  assumes "sorted_wrt (<) (map fst m)" "f (case map_of m k of None \<Rightarrow> fresh | Some v \<Rightarrow> v) = ok v'"
  shows "\<exists>m'. map_update k fresh f m = ok m' \<and> sorted_wrt (<) (map fst m') \<and> map_of m' = (map_of m)(k \<mapsto> v') \<and>
    set (map fst m') = insert k (set (map fst m))"
  using assms
proof (induction m)
  case (Cons kv m)
  obtain k' w where kv: "kv = (k', w)" by (cases kv)
  consider "k < k'" | "k = k'" | "k' < k" by linarith
  then show ?case
  proof cases
    case 1
    then have "map_of (kv # m) k = None" using Cons.prems(1) by (auto simp: kv map_of_eq_None_iff)
    then show ?thesis using 1 Cons.prems by (auto simp: kv)
  next
    case 2
    then show ?thesis using Cons.prems by (auto simp: kv)
  next
    case 3
    then obtain m' where "map_update k fresh f m = ok m'" "sorted_wrt (<) (map fst m')" "map_of m' = (map_of m)(k \<mapsto> v')"
      "set (map fst m') = insert k (set (map fst m))"
      using Cons.IH Cons.prems by (fastforce simp: kv simp del: fun_upd_apply simp: fun_upd_other)
    then show ?thesis using 3 Cons.prems(1) by (auto simp: kv fun_eq_iff)
  qed
qed simp

definition tracks :: "(nat \<Rightarrow> texture) \<Rightarrow> scope_use list \<Rightarrow> sync_tracker \<Rightarrow> bool" where
  "tracks tex xs tr \<longleftrightarrow> sorted_wrt (<) (map fst (mBufferUsages tr)) \<and> sorted_wrt (<) (map fst (mTextureUsages tr)) \<and>
     (\<forall>p. map_of (mBufferUsages tr) p = (if buffer_uses p xs = [] then None else Some (joined (buffer_uses p xs)))) \<and>
     (\<forall>p. if texture_uses p xs = [] then map_of (mTextureUsages tr) p = None
          else \<exists>st. map_of (mTextureUsages tr) p = Some st \<and> table_of (tex p) (texture_uses p xs) = ok st)"

lemma tracksD:
  assumes "tracks tex xs tr" "texture_uses p xs \<noteq> []"
  obtains st where "map_of (mTextureUsages tr) p = Some st" "table_of (tex p) (texture_uses p xs) = ok st"
proof -
  have "\<exists>st. map_of (mTextureUsages tr) p = Some st \<and> table_of (tex p) (texture_uses p xs) = ok st"
    using assms by (simp add: tracks_def)
  then show ?thesis using that by blast
qed

lemma joined_snoc: "joined [] = 0" "joined (us @ [u]) = joined us OR u"
  by (simp_all add: joined_def)

text \<open>Both ways of using a texture run one step on its table.\<close>

lemma texture_use_tracked:
  assumes t: "tracks tex xs tr" and us: "\<And>q. texture_uses q [x] = (if q = p then [y] else [])" "\<And>q. buffer_uses q [x] = []"
    and ok: "texture_ok dev (tex p)" "list_all (use_applies (texture_shape (tex p))) (texture_uses p xs @ [y])"
    and run: "run_use tex x tr = bindR (fresh_usages (tex p)) (\<lambda>fresh. bindR (map_update p fresh (use_step y) (mTextureUsages tr)) (\<lambda>m.
       ok (tr\<lparr> mTextureUsages := m \<rparr>)))"
  shows "\<exists>tr'. run_use tex x tr = ok tr' \<and> tracks tex (xs @ [x]) tr'"
proof -
  obtain fresh where fresh: "fresh_usages (tex p) = ok fresh" using fresh_usages_ok [OF ok(1)] by blast
  obtain st where st: "table_of (tex p) (texture_uses p xs @ [y]) = ok st" using table_of_ok [OF ok] by blast
  have "table_of (tex p) (texture_uses p xs) = ok (case map_of (mTextureUsages tr) p of None \<Rightarrow> fresh | Some v \<Rightarrow> v)"
  proof (cases "texture_uses p xs = []")
    case True
    then show ?thesis using t fresh by (simp add: tracks_def table_of_def)
  next
    case False
    with t show ?thesis by (auto elim: tracksD)
  qed
  then have "foldR use_step [y] (case map_of (mTextureUsages tr) p of None \<Rightarrow> fresh | Some v \<Rightarrow> v) = ok st"
    using st fresh by (simp add: table_of_def foldR_append)
  then have "use_step y (case map_of (mTextureUsages tr) p of None \<Rightarrow> fresh | Some v \<Rightarrow> v) = ok st" unfolding foldR_single .
  then obtain m where "map_update p fresh (use_step y) (mTextureUsages tr) = ok m" "sorted_wrt (<) (map fst m)"
    "map_of m = (map_of (mTextureUsages tr))(p \<mapsto> st)" using map_update_ok [where f = "use_step y" and k = p and fresh = fresh and m = "mTextureUsages tr"] t unfolding tracks_def by blast
  then show ?thesis using t st by (auto simp: run fresh tracks_def uses_append us)
qed

lemma run_use_tracked:
  assumes "tracks tex xs tr" "list_all (use_ok dev tex) (xs @ [x])"
  shows "\<exists>tr'. run_use tex x tr = ok tr' \<and> tracks tex (xs @ [x]) tr'"
proof (cases x)
  case (Use_Buffer p u)
  let ?old = "case map_of (mBufferUsages tr) p of None \<Rightarrow> 0 | Some v \<Rightarrow> v"
  obtain m where m: "map_update p 0 (\<lambda>old. ok (old OR u)) (mBufferUsages tr) = ok m" "sorted_wrt (<) (map fst m)"
    "map_of m = (map_of (mBufferUsages tr))(p \<mapsto> ?old OR u)"
    using map_update_ok [where m = "mBufferUsages tr" and k = p and fresh = 0 and f = "\<lambda>old. ok (old OR u)" and v' = "?old OR u"] assms(1) by (auto simp: tracks_def)
  have "?old = joined (buffer_uses p xs)" using assms(1) by (simp add: tracks_def joined_snoc)
  moreover have "buffer_uses q [x] = (if q = p then [u] else [])" "texture_uses q [x] = []" for q
    by (simp_all add: Use_Buffer buffer_uses_def texture_uses_def)
  ultimately show ?thesis using m assms(1) by (auto simp: Use_Buffer BufferUsedAs_def tracks_def uses_append joined_snoc)
next
  case (Use_View v u)
  have us: "texture_uses q [x] = (if q = view_texture v then [View_Use (view_range v) u] else [])" "buffer_uses q [x] = []" for q
    by (simp_all add: Use_View buffer_uses_def texture_uses_def)
  have "texture_uses (view_texture v) (xs @ [x]) = texture_uses (view_texture v) xs @ [View_Use (view_range v) u]" by (simp add: uses_append us)
  with uses_applies [OF assms(2), of "view_texture v"] show ?thesis
    by (intro texture_use_tracked [OF assms(1) us]) (simp_all add: Use_View TextureViewUsedAs_def use_step.simps(1) [abs_def])
next
  case (Use_Bundle p b)
  have us: "texture_uses q [x] = (if q = p then [Bundle_Use b] else [])" "buffer_uses q [x] = []" for q
    by (simp_all add: Use_Bundle buffer_uses_def texture_uses_def)
  have "texture_uses p (xs @ [x]) = texture_uses p xs @ [Bundle_Use b]" by (simp add: uses_append us)
  with uses_applies [OF assms(2), of p] show ?thesis
    by (intro texture_use_tracked [OF assms(1) us]) (simp_all add: Use_Bundle AddRenderBundleTextureUsage_def use_step.simps(2) [abs_def])
next
  case (Use_External p)
  then have "buffer_uses q (xs @ [x]) = buffer_uses q xs" "texture_uses q (xs @ [x]) = texture_uses q xs" for q
    by (simp_all add: buffer_uses_def texture_uses_def)
  then show ?thesis using assms(1) by (simp add: Use_External tracks_def)
qed

lemma run_uses_tracked:
  assumes "list_all (use_ok dev tex) xs"
  shows "\<exists>tr. foldR (run_use tex) xs SyncScopeUsageTracker = ok tr \<and> tracks tex xs tr"
proof (rule foldR_invariant [where P = "tracks tex"])
  show "tracks tex [] SyncScopeUsageTracker"
    by (simp add: tracks_def SyncScopeUsageTracker_def buffer_uses_def texture_uses_def)
next
  fix ys x zs tr assume "xs = ys @ x # zs" "tracks tex ys tr"
  then show "\<exists>tr'. run_use tex x tr = ok tr' \<and> tracks tex (ys @ [x]) tr'" using assms by (intro run_use_tracked) auto
qed

section \<open>The decision\<close>

lemma foldR_guard:
  assumes "\<And>x. x \<in> set xs \<Longrightarrow> check x = (if P x then ok () else validation_error (msg :: string))"
  shows "foldR (\<lambda>x _. check x) xs () = (if list_all P xs then ok () else validation_error msg)"
  using assms by (induction xs) simp_all

lemma Iterate_values:
  assumes "storage_inv st"
  shows "\<exists>calls. Iterate st = ok calls \<and>
    ((\<forall>(r, u) \<in> set calls. Q u) \<longleftrightarrow> (\<forall>c \<in> shape_cells (shape_of st). \<exists>u. get_cell st c = ok u \<and> Q u))"
proof -
  obtain n where wf: "storage_wf n st" using assms by (auto simp: storage_inv_def)
  obtain calls where it: "Iterate st = ok calls" "visited calls = map (\<lambda>(a, l, m). ((a, l, m), Get st a l m)) (all_cells st)"
    using Iterate_visits_all [OF assms] by blast
  have ne: "cells r \<noteq> []" if "(r, u) \<in> set calls" for r u using Iterate_nonempty [OF wf it(1)] that by (auto simp: nonempty_def)
  have "(c, ok u) \<in> set (visited calls) \<longleftrightarrow> (\<exists>r. (r, u) \<in> set calls \<and> c \<in> set (cells r))" for c u
    by (force simp: visited_def expand_def)
  moreover have "(c, ok u) \<in> set (visited calls) \<longleftrightarrow> c \<in> shape_cells (shape_of st) \<and> get_cell st c = ok u" for c u
    by (cases c) (force simp: it(2) get_cell_def shape_cells_all)
  ultimately have mem: "c \<in> shape_cells (shape_of st) \<and> get_cell st c = ok u \<longleftrightarrow> (\<exists>r. (r, u) \<in> set calls \<and> c \<in> set (cells r))" for c u by simp
  have some: "\<exists>u. get_cell st c = ok u" if "c \<in> shape_cells (shape_of st)" for c
    using that Get_ok [OF wf] by (cases c) (auto simp: get_cell_def shape_cells_all all_cells_iff)
  have "(\<forall>(r, u) \<in> set calls. Q u) \<longleftrightarrow> (\<forall>c \<in> shape_cells (shape_of st). \<exists>u. get_cell st c = ok u \<and> Q u)"
  proof (intro iffI ballI)
    fix c assume all: "\<forall>(r, u) \<in> set calls. Q u" and c: "c \<in> shape_cells (shape_of st)"
    then obtain u r where "get_cell st c = ok u" "(r, u) \<in> set calls" using some mem by blast
    then show "\<exists>u. get_cell st c = ok u \<and> Q u" using all by blast
  next
    fix x assume all: "\<forall>c \<in> shape_cells (shape_of st). \<exists>u. get_cell st c = ok u \<and> Q u" and x: "x \<in> set calls"
    obtain r u where ru: "x = (r, u)" by (cases x)
    then obtain c where "c \<in> set (cells r)" using ne x by (metis list.set_intros(1) neq_Nil_conv)
    then have "c \<in> shape_cells (shape_of st)" "get_cell st c = ok u" using mem [of c u] x ru by blast+
    then show "case x of (r, u) \<Rightarrow> Q u" using all ru by force
  qed
  then show ?thesis using it(1) by blast
qed

lemma read_only_textures: "\<not> bit kReadOnlyTextureUsages 4"
  by (simp add: kReadOnlyTextureUsages_def kReadOnlyRenderAttachment_def bit_or_iff bit_numeral_word_iff)

lemma two_bits_incompatible:
  assumes "bit u i" "bit u j" "i \<noteq> j" "\<not> bit ro i"
  shows "\<not> compatible ro u"
proof -
  have "\<not> (\<exists>b<32. u \<in> {0, 2 ^ b})" using assms(1-3) subset_bit_set by metis
  moreover have "\<not> IsSubset u ro" using assms(1,4) by (auto simp: IsSubset_def subset_bits)
  ultimately show ?thesis by (simp add: compatible_def single_bit_iff)
qed

lemma compatible_added:
  "compatible kReadOnlyTextureUsages (fold add_texture_usage us 0) \<longleftrightarrow> consistent kReadOnlyTextureUsages us \<and> attachments us \<le> 1"
proof (cases "attachments us \<le> 1")
  case True
  then have "fold add_texture_usage us 0 = joined us" using add_texture_usages [of us 0] by (simp add: joined_def)
  then show ?thesis using True by (simp add: compatible_joined)
next
  case False
  then have "bit (fold add_texture_usage us 0) 4" "bit (fold add_texture_usage us 0) 31" using add_texture_usages [of us 0] by auto
  then show ?thesis using False two_bits_incompatible [OF _ _ _ read_only_textures, of _ 31] by simp
qed

definition texture_rule :: "(nat \<Rightarrow> texture) \<Rightarrow> scope_use list \<Rightarrow> nat \<Rightarrow> bool" where
  "texture_rule tex xs p \<longleftrightarrow> (\<forall>c \<in> shape_cells (texture_shape (tex p)).
     consistent kReadOnlyTextureUsages (cell_uses p c xs) \<and> attachments (cell_uses p c xs) \<le> 1)"

lemma texture_checked:
  assumes "list_all (use_ok dev tex) xs" "texture_uses p xs \<noteq> []" "table_of (tex p) (texture_uses p xs) = ok st"
  shows "\<exists>calls. Iterate st = ok calls \<and> ((\<forall>(r, u) \<in> set calls. compatible kReadOnlyTextureUsages u) \<longleftrightarrow> texture_rule tex xs p)"
proof -
  have st: "storage_inv st" "shape_of st = texture_shape (tex p)"
    "\<forall>c \<in> shape_cells (texture_shape (tex p)). get_cell st c = ok (fold add_texture_usage (cell_uses p c xs) 0)"
    using table_of_ok [OF uses_applies(2,1) [OF assms(1)], of p] assms(2,3) by (auto simp: cell_uses_def)
  obtain calls where "Iterate st = ok calls" "(\<forall>(r, u) \<in> set calls. compatible kReadOnlyTextureUsages u) \<longleftrightarrow>
      (\<forall>c \<in> shape_cells (shape_of st). \<exists>u. get_cell st c = ok u \<and> compatible kReadOnlyTextureUsages u)"
    using Iterate_values [OF st(1), of "compatible kReadOnlyTextureUsages"] by blast
  then show ?thesis using st(2,3) by (simp add: texture_rule_def compatible_added)
qed

lemma texture_rule_unused: "texture_uses p xs = [] \<Longrightarrow> texture_rule tex xs p"
  by (simp add: texture_rule_def cell_uses_def)

lemma tracked_decision:
  assumes ok: "list_all (use_ok dev tex) xs" and t: "tracks tex xs tr"
  shows "ValidateSyncScopeResourceUsage (fst (AcquireSyncScopeUsage tr)) \<noteq> undef"
    "ValidateSyncScopeResourceUsage (fst (AcquireSyncScopeUsage tr)) = ok () \<longleftrightarrow>
       (\<forall>p. consistent kReadOnlyBufferUsages (buffer_uses p xs)) \<and> (\<forall>p. texture_rule tex xs p)"
proof -
  let ?B = "mBufferUsages tr" and ?T = "mTextureUsages tr"
  have d: "distinct (map fst ?B)" "distinct (map fst ?T)" using t strict_sorted_iff by (auto simp: tracks_def)
  have B: "(p, u) \<in> set ?B \<longleftrightarrow> buffer_uses p xs \<noteq> [] \<and> u = joined (buffer_uses p xs)" for p u
    using t map_of_eq_Some_iff [OF d(1), of p u] by (auto simp: tracks_def split: if_splits)
  have T: "texture_uses p xs \<noteq> [] \<and> table_of (tex p) (texture_uses p xs) = ok st" if "(p, st) \<in> set ?T" for p st
  proof -
    have m: "map_of ?T p = Some st" using map_of_eq_Some_iff [OF d(2)] that by blast
    then have "texture_uses p xs \<noteq> []" using t by (auto simp: tracks_def)
    then show ?thesis using tracksD [OF t] m by fastforce
  qed
  have T': "\<exists>st. (p, st) \<in> set ?T" if "texture_uses p xs \<noteq> []" for p
    using tracksD [OF t that] map_of_eq_Some_iff [OF d(2)] by metis
  have buffers: "list_all (compatible kReadOnlyBufferUsages) (map snd ?B) \<longleftrightarrow> (\<forall>p. consistent kReadOnlyBufferUsages (buffer_uses p xs))"
  proof -
    have "list_all (compatible kReadOnlyBufferUsages) (map snd ?B) \<longleftrightarrow> (\<forall>p u. (p, u) \<in> set ?B \<longrightarrow> compatible kReadOnlyBufferUsages u)"
      by (auto simp: list_all_iff)
    also have "\<dots> \<longleftrightarrow> (\<forall>p. buffer_uses p xs \<noteq> [] \<longrightarrow> consistent kReadOnlyBufferUsages (buffer_uses p xs))"
      by (simp add: B compatible_joined)
    also have "\<dots> \<longleftrightarrow> (\<forall>p. consistent kReadOnlyBufferUsages (buffer_uses p xs))" by (metis no_uses(1))
    finally show ?thesis .
  qed
  let ?P = "\<lambda>st. \<exists>calls. Iterate st = ok calls \<and> (\<forall>(r, u) \<in> set calls. compatible kReadOnlyTextureUsages u)"
  have chk: "\<exists>calls. Iterate st = ok calls \<and> ((\<forall>(r, u) \<in> set calls. compatible kReadOnlyTextureUsages u) \<longleftrightarrow> texture_rule tex xs p)"
    if "(p, st) \<in> set ?T" for p st using T [OF that] texture_checked [OF ok] by blast
  have one: "bindR (Iterate st) (\<lambda>calls. if \<exists>(r, u) \<in> set calls. \<not> compatible kReadOnlyTextureUsages u
      then validation_error msg else ok ()) = (if ?P st then ok () else validation_error msg)" if "st \<in> set (map snd ?T)" for st msg
  proof -
    obtain p where "(p, st) \<in> set ?T" using \<open>st \<in> _\<close> by auto
    then obtain calls where calls: "Iterate st = ok calls" using chk by blast
    have "(\<exists>(r, u) \<in> set calls. \<not> compatible kReadOnlyTextureUsages u) \<longleftrightarrow> \<not> (\<forall>(r, u) \<in> set calls. compatible kReadOnlyTextureUsages u)" by auto
    then show ?thesis by (simp only: calls bindR.simps sum.inject simp_thms ex_simps if_not_P if_P split: if_split) auto
  qed
  have "?P st \<longleftrightarrow> texture_rule tex xs p" if "(p, st) \<in> set ?T" for p st using chk [OF that] by auto
  then have "list_all ?P (map snd ?T) \<longleftrightarrow> (\<forall>(p, st) \<in> set ?T. texture_rule tex xs p)" unfolding list_all_iff by fastforce
  also have "\<dots> \<longleftrightarrow> (\<forall>p. texture_rule tex xs p)" using T' T texture_rule_unused by blast
  finally have textures: "list_all ?P (map snd ?T) \<longleftrightarrow> (\<forall>p. texture_rule tex xs p)" .
  have fold_buffers: "foldR (\<lambda>u _. if \<not> compatible kReadOnlyBufferUsages u then validation_error msg else ok ()) (map snd ?B) () =
      (if list_all (compatible kReadOnlyBufferUsages) (map snd ?B) then ok () else validation_error msg)" for msg
    by (rule foldR_guard) simp
  have fold_textures: "foldR (\<lambda>st _. bindR (Iterate st) (\<lambda>calls. if \<exists>(r, u) \<in> set calls. \<not> compatible kReadOnlyTextureUsages u
      then validation_error msg else ok ())) (map snd ?T) () = (if list_all ?P (map snd ?T) then ok () else validation_error msg)" for msg
    by (rule foldR_guard) (rule one)
  have v: "ValidateSyncScopeResourceUsage (fst (AcquireSyncScopeUsage tr)) =
    (if \<not> list_all (compatible kReadOnlyBufferUsages) (map snd ?B)
     then validation_error ''buffer usage includes writable usage and another usage in the same synchronization scope''
     else if \<not> list_all ?P (map snd ?T)
     then validation_error ''texture usage includes writable usage and another usage in the same synchronization scope'' else ok ())"
    unfolding ValidateSyncScopeResourceUsage_def AcquireSyncScopeUsage_def fst_conv sync_scope.simps
    unfolding fold_buffers fold_textures by simp
  show "ValidateSyncScopeResourceUsage (fst (AcquireSyncScopeUsage tr)) \<noteq> undef" unfolding v by simp
  show "ValidateSyncScopeResourceUsage (fst (AcquireSyncScopeUsage tr)) = ok () \<longleftrightarrow>
       (\<forall>p. consistent kReadOnlyBufferUsages (buffer_uses p xs)) \<and> (\<forall>p. texture_rule tex xs p)"
    unfolding v buffers [symmetric] textures [symmetric] by simp
qed

section \<open>Calls on the tracker\<close>

text \<open>The calls a pass makes on its tracker, and the uses they stand for.\<close>

datatype scope_call = Buffer_Call nat usage | View_Call view "32 word" | Bundle_Call nat texture_usages | Group_Call "binding list"

fun run_call :: "(nat \<Rightarrow> texture) \<Rightarrow> scope_call \<Rightarrow> sync_tracker \<Rightarrow> sync_tracker res" where
  "run_call tex (Buffer_Call p u) = BufferUsedAs p u"
| "run_call tex (View_Call v u) = TextureViewUsedAs tex v u"
| "run_call tex (Bundle_Call p b) = AddRenderBundleTextureUsage tex p b"
| "run_call tex (Group_Call bs) = AddBindGroup tex bs"

fun binding_uses :: "binding \<Rightarrow> scope_use list" where
  "binding_uses (Buffer_Binding ty p) = [Use_Buffer p (case ty of Binding_Uniform \<Rightarrow> 64 | Binding_Storage \<Rightarrow> Storage
     | Binding_InternalStorage \<Rightarrow> kInternalStorageBuffer | Binding_ReadOnlyStorage \<Rightarrow> kReadOnlyStorageBuffer | Binding_Undefined \<Rightarrow> 0)]"
| "binding_uses Sampler_Binding = []"
| "binding_uses (Texture_Binding v) = [Use_View v Tex_TextureBinding]"
| "binding_uses (StorageTexture_Binding writeOnly v) = [Use_View v Tex_StorageBinding]"
| "binding_uses (ExternalTexture_Binding p vs) = (case vs of Some v # _ \<Rightarrow> [Use_External p, Use_View v Tex_TextureBinding] | _ \<Rightarrow> [])"

fun call_uses :: "scope_call \<Rightarrow> scope_use list" where
  "call_uses (Buffer_Call p u) = [Use_Buffer p u]"
| "call_uses (View_Call v u) = [Use_View v u]"
| "call_uses (Bundle_Call p b) = [Use_Bundle p b]"
| "call_uses (Group_Call bs) = concat (map binding_uses bs)"

text \<open>The bindings a validated bind group has.\<close>

fun binding_ok :: "binding \<Rightarrow> bool" where
  "binding_ok (Buffer_Binding ty p) \<longleftrightarrow> ty \<noteq> Binding_Undefined"
| "binding_ok (StorageTexture_Binding writeOnly v) \<longleftrightarrow> writeOnly"
| "binding_ok (ExternalTexture_Binding p vs) \<longleftrightarrow> (case vs of [Some v, None, None] \<Rightarrow> True | _ \<Rightarrow> False)"
| "binding_ok _ \<longleftrightarrow> True"

fun call_ok :: "device_info \<Rightarrow> (nat \<Rightarrow> texture) \<Rightarrow> scope_call \<Rightarrow> bool" where
  "call_ok dev tex (Group_Call bs) \<longleftrightarrow> list_all binding_ok bs \<and> list_all (use_ok dev tex) (call_uses (Group_Call bs))"
| "call_ok dev tex c \<longleftrightarrow> list_all (use_ok dev tex) (call_uses c)"

lemma external_binding_ok: "binding_ok (ExternalTexture_Binding p vs) \<longleftrightarrow> (\<exists>v. vs = [Some v, None, None])"
  by (auto split: list.splits option.splits)

lemma AddBinding_is_uses: "binding_ok b \<Longrightarrow> AddBinding tex b tr = foldR (run_use tex) (binding_uses b) tr"
proof (cases b)
  case (ExternalTexture_Binding p vs)
  assume "binding_ok b"
  then obtain v where "vs = [Some v, None, None]" unfolding ExternalTexture_Binding external_binding_ok by blast
  then have "external_view vs = ok v" by (simp add: external_view_def vec_at_def)
  then show ?thesis using \<open>vs = _\<close> by (simp add: ExternalTexture_Binding AddBinding_def bindR_ok)
qed (auto simp: AddBinding_def bindR_ok split: buffer_binding_type.splits)

lemma AddBindGroup_is_uses:
  "list_all binding_ok bs \<Longrightarrow> AddBindGroup tex bs tr = foldR (run_use tex) (concat (map binding_uses bs)) tr"
  unfolding AddBindGroup_def by (intro foldR_flatten AddBinding_is_uses) (auto simp: list_all_iff)

lemma run_call_is_uses: "call_ok dev tex c \<Longrightarrow> run_call tex c tr = foldR (run_use tex) (call_uses c) tr"
  by (cases c) (simp_all add: AddBindGroup_is_uses bindR_ok)

lemma run_calls_are_uses:
  "list_all (call_ok dev tex) cs \<Longrightarrow> foldR (run_call tex) cs tr = foldR (run_use tex) (concat (map call_uses cs)) tr"
  by (intro foldR_flatten run_call_is_uses) (auto simp: list_all_iff)

lemma calls_uses_ok: "list_all (call_ok dev tex) cs \<Longrightarrow> list_all (use_ok dev tex) (concat (map call_uses cs))"
proof (induction cs)
  case (Cons c cs)
  then show ?case by (cases c) simp_all
qed simp

section \<open>Properties\<close>

text \<open>
  C33. The usages that the calls of a pass put into a tracker, over views inside their textures and
  valid bind groups, are decided without undefined behaviour: the scope is accepted exactly when
  the usages of every buffer, and the usages of every single subresource of every texture, are all
  read-only or all the same usage, and no subresource is a writable attachment twice, although the
  tracker keeps one word per range of subresources and marks the second attachment by extra bits.
\<close>

theorem sync_scope_iff:
  assumes "list_all (call_ok dev tex) cs"
  shows "\<exists>tr. foldR (run_call tex) cs SyncScopeUsageTracker = ok tr \<and>
    ValidateSyncScopeResourceUsage (fst (AcquireSyncScopeUsage tr)) \<noteq> undef \<and>
    (ValidateSyncScopeResourceUsage (fst (AcquireSyncScopeUsage tr)) = ok () \<longleftrightarrow>
       (\<forall>p. consistent kReadOnlyBufferUsages (buffer_uses p (concat (map call_uses cs)))) \<and>
       (\<forall>p. \<forall>c \<in> shape_cells (texture_shape (tex p)).
          consistent kReadOnlyTextureUsages (cell_uses p c (concat (map call_uses cs))) \<and>
          attachments (cell_uses p c (concat (map call_uses cs))) \<le> 1))"
proof -
  note uses = calls_uses_ok [OF assms]
  obtain tr where "foldR (run_use tex) (concat (map call_uses cs)) SyncScopeUsageTracker = ok tr" "tracks tex (concat (map call_uses cs)) tr"
    using run_uses_tracked [OF uses] by blast
  then show ?thesis using tracked_decision [OF uses] by (simp add: run_calls_are_uses [OF assms] texture_rule_def)
qed

text \<open>A texture of three layers and four levels is rendered to in one layer and read in another; then the first layer is an
  attachment twice.\<close>

definition layer_view :: "nat \<Rightarrow> view" where
  "layer_view l = \<lparr> view_texture = 5, view_range = SubresourceRange Aspect_Color (l, 1) (0, 1) \<rparr>"

definition sample_calls :: "scope_call list" where
  "sample_calls = [View_Call (layer_view 0) Tex_RenderAttachment, Group_Call [Sampler_Binding, Texture_Binding (layer_view 1)]]"

lemma layer_view_cells: "c \<in> set (cells (view_range (layer_view l))) \<longleftrightarrow> c = (Aspect_Color, l, 0)"
  by (cases c) (auto simp: layer_view_def cells_iff in_range_def SubresourceRange_def single_aspect(2) single_aspects_def)

lemma sample_uses:
  "buffer_uses p (concat (map call_uses sample_calls)) = []"
  "cell_uses 5 c (concat (map call_uses sample_calls)) =
     (if c = (Aspect_Color, 0, 0) then [Tex_RenderAttachment] else if c = (Aspect_Color, 1, 0) then [Tex_TextureBinding] else [])"
  "p \<noteq> 5 \<Longrightarrow> cell_uses p c (concat (map call_uses sample_calls)) = []"
  by (simp_all add: sample_calls_def buffer_uses_def cell_uses_def texture_uses_def layer_view_cells, simp_all add: layer_view_def)

theorem sync_scope_iff_witness:
  "\<exists>tex tr tr'. foldR (run_call tex) sample_calls SyncScopeUsageTracker = ok tr \<and>
     ValidateSyncScopeResourceUsage (fst (AcquireSyncScopeUsage tr)) = ok () \<and>
     foldR (run_call tex) (sample_calls @ [View_Call (layer_view 0) Tex_RenderAttachment]) SyncScopeUsageTracker = ok tr' \<and>
     ValidateSyncScopeResourceUsage (fst (AcquireSyncScopeUsage tr')) \<notin> {ok (), undef}"
proof -
  obtain dev t where t: "texture_ok dev t" "format_aspects (mFormat t) = Aspect_Color" "layers_of t = 3" "mTextureMipLevelCount t = 4"
    using sample_texture [of RGBA8Unorm] by (auto simp: format_kind_def)
  define tex where "tex = (\<lambda>p :: nat. t)"
  have view: "use_ok dev tex (Use_View (layer_view l) u)" if "l < 3" for l u
    using t that by (simp add: tex_def layer_view_def inside_def SubresourceRange_def)
  have ok: "list_all (call_ok dev tex) sample_calls" "list_all (call_ok dev tex) (sample_calls @ [View_Call (layer_view 0) Tex_RenderAttachment])"
    using view by (simp_all add: sample_calls_def del: use_ok.simps)
  have "consistent kReadOnlyTextureUsages [Tex_RenderAttachment]" "consistent kReadOnlyTextureUsages [Tex_TextureBinding]"
    "attachments [Tex_RenderAttachment] = 1" "attachments [Tex_TextureBinding] = 0" by code_simp+
  then have accept: "consistent kReadOnlyTextureUsages (cell_uses p c (concat (map call_uses sample_calls))) \<and>
      attachments (cell_uses p c (concat (map call_uses sample_calls))) \<le> 1" for p c
    using sample_uses(3) [of p c] by (cases "p = 5") (simp_all add: sample_uses(2))
  let ?cs = "concat (map call_uses (sample_calls @ [View_Call (layer_view 0) Tex_RenderAttachment]))"
  have "cell_uses 5 (Aspect_Color, 0, 0) ?cs = [Tex_RenderAttachment, Tex_RenderAttachment]"
    by (simp add: sample_calls_def cell_uses_def texture_uses_def layer_view_cells) (simp add: layer_view_def)
  moreover have "attachments [Tex_RenderAttachment, Tex_RenderAttachment] = 2" by code_simp
  ultimately have twice: "\<not> attachments (cell_uses 5 (Aspect_Color, 0, 0) ?cs) \<le> 1" by simp
  have cell: "(Aspect_Color, 0, 0) \<in> shape_cells (texture_shape (tex 5))"
    using t by (simp add: shape_cells_def texture_shape_def tex_def cells_iff in_range_def MakeFull_def SubresourceRange_def single_aspect(2) single_aspects_def)
  show ?thesis using sync_scope_iff [OF ok(1)] sync_scope_iff [OF ok(2)] accept twice cell sample_uses(1) by fastforce
qed

section \<open>What a submission checks of a compute pass\<close>

text \<open>The steps of a compute pass that touch its usage. The scope of an indirect dispatch starts with the indirect buffer.\<close>

datatype pass_step = Set_Group nat "binding list" | Dispatch "nat list" sync_tracker | Reference_Buffer nat

fun run_step :: "(nat \<Rightarrow> texture) \<Rightarrow> pass_step \<Rightarrow> compute_pass \<Rightarrow> compute_pass res" where
  "run_step tex (Set_Group i bs) pass = compute_SetBindGroup i bs pass"
| "run_step tex (Dispatch used scope) pass = AddDispatchSyncScope tex used scope pass"
| "run_step tex (Reference_Buffer p) pass = ok (pass\<lparr> pass_usage := AddReferencedBuffer p (pass_usage pass) \<rparr>)"

definition new_pass :: compute_pass where
  "new_pass = \<lparr> bind_groups = [], pass_usage = \<lparr> dispatchUsages = [], referencedBuffers = [], referencedTextures = [], referencedExternalTextures = [] \<rparr> \<rparr>"

fun step_bindings :: "pass_step \<Rightarrow> binding list" where
  "step_bindings (Set_Group i bs) = bs"
| "step_bindings _ = []"

fun bound_buffer :: "binding \<Rightarrow> nat set" where
  "bound_buffer (Buffer_Binding ty p) = {p}"
| "bound_buffer _ = {}"

text \<open>Textures that are read through a binding, as samples or as the plane of an external texture.\<close>

fun sampled_texture :: "binding \<Rightarrow> nat set" where
  "sampled_texture (Texture_Binding v) = {view_texture v}"
| "sampled_texture (ExternalTexture_Binding p vs) = (case vs of Some v # _ \<Rightarrow> {view_texture v} | _ \<Rightarrow> {})"
| "sampled_texture _ = {}"

fun bound_external :: "binding \<Rightarrow> nat set" where
  "bound_external (ExternalTexture_Binding p vs) = {p}"
| "bound_external _ = {}"

definition refers :: "binding list \<Rightarrow> compute_usage \<Rightarrow> compute_usage \<Rightarrow> bool" where
  "refers bs cu cu' \<longleftrightarrow> set (referencedTextures cu') = set (referencedTextures cu) \<union> (\<Union>b \<in> set bs. sampled_texture b) \<and>
     set (referencedBuffers cu) \<union> (\<Union>b \<in> set bs. bound_buffer b) \<subseteq> set (referencedBuffers cu') \<and>
     set (referencedExternalTextures cu') = set (referencedExternalTextures cu) \<union> (\<Union>b \<in> set bs. bound_external b)"

lemma refers_trans: "refers bs cu cu' \<Longrightarrow> refers cs cu' cu'' \<Longrightarrow> refers (bs @ cs) cu cu''"
  unfolding refers_def by auto

lemma external_view_first: "external_view vs = ok v \<Longrightarrow> \<exists>ws. vs = Some v # ws"
  by (cases vs) (auto simp: external_view_def res_iff split: option.splits)

lemma AddReferencedByBinding_refers: "AddReferencedByBinding b cu = ok cu' \<Longrightarrow> refers [b] cu cu'"
  using external_view_first by (cases b)
    (fastforce simp: AddReferencedByBinding_def AddReferencedBuffer_def add_referenced_texture_def refers_def set_insort_insert res_iff)+

lemma AddResourcesReferenced_refers: "AddResourcesReferencedByBindGroup bs cu = ok cu' \<Longrightarrow> refers bs cu cu'"
  unfolding AddResourcesReferencedByBindGroup_def
proof (induction bs arbitrary: cu)
  case Nil
  then show ?case by (simp add: refers_def)
next
  case (Cons b bs)
  then obtain cu1 where "AddReferencedByBinding b cu = ok cu1" "foldR AddReferencedByBinding bs cu1 = ok cu'" by (auto simp: res_iff)
  then show ?case using Cons.IH refers_trans [OF AddReferencedByBinding_refers] by fastforce
qed

lemma run_step_refers: "run_step tex x pass = ok pass' \<Longrightarrow> refers (step_bindings x) (pass_usage pass) (pass_usage pass')"
proof (cases x)
  case (Set_Group i bs)
  assume "run_step tex x pass = ok pass'"
  then show ?thesis using AddResourcesReferenced_refers by (auto simp: Set_Group compute_SetBindGroup_def res_iff)
qed (auto simp: AddDispatchSyncScope_def AddDispatch_def AddReferencedBuffer_def refers_def set_insort_insert res_iff)

lemma run_steps_refer: "foldR (run_step tex) xs pass = ok pass' \<Longrightarrow> refers (concat (map step_bindings xs)) (pass_usage pass) (pass_usage pass')"
proof (induction xs arbitrary: pass)
  case Nil
  then show ?case by (simp add: refers_def)
next
  case (Cons x xs)
  then obtain pass1 where "run_step tex x pass = ok pass1" "foldR (run_step tex) xs pass1 = ok pass'" by (auto simp: res_iff)
  then show ?case using Cons.IH refers_trans [OF run_step_refers] by fastforce
qed

lemma validate_all_iff: "validate_all check xs = ok () \<longleftrightarrow> (\<forall>x \<in> set xs. check x = ok ())"
  unfolding validate_all_def by (induction xs) (auto simp: res_iff)

lemma validate_all_cong: "(\<And>x. x \<in> set xs \<Longrightarrow> check x = check' x) \<Longrightarrow> validate_all check xs = validate_all check' xs"
  unfolding validate_all_def
proof (induction xs)
  case (Cons x xs)
  then show ?case by (cases "check' x") simp_all
qed simp

lemma usable_buffer: "ValidateCanUseOnQueueNow b = ok () \<longleftrightarrow> \<not> is_error b \<and> mState b = Unmapped"
  by (cases "mState b") (auto simp: ValidateCanUseOnQueueNow_def res_iff)

text \<open>
  C34. When the queue accepts a submission, every buffer and every external texture bound in a
  compute pass of it is usable, that is, not destroyed and, for a buffer, not mapped, and every
  texture sampled through a binding of the pass is alive, whatever the pass set, dispatched and set
  again.
\<close>

theorem submit_checks_compute_bindings:
  assumes "foldR (run_step tex) xs new_pass = ok pass" "pass_usage pass \<in> set (computePasses (cb_usages c))" "c \<in> set commands"
    and submit: "ValidateSubmit False obs commands = ok ()"
  shows "(\<forall>x \<in> set xs. \<forall>b \<in> set (step_bindings x).
     (\<forall>p \<in> bound_buffer b. \<not> is_error (bufs obs p) \<and> mState (bufs obs p) = Unmapped) \<and>
     (\<forall>p \<in> sampled_texture b. \<not> texture_error (texs obs p) \<and> \<not> mDestroyed (texs obs p)) \<and>
     (\<forall>p \<in> bound_external b. \<not> external_destroyed obs p))"
proof -
  have "ValidateSubmit_usages obs (cb_usages c) = ok ()"
    using submit assms(3) by (auto simp: ValidateSubmit_def validate_all_iff split: if_splits)
  then have "\<forall>p \<in> set (referencedBuffers (pass_usage pass)). ValidateCanUseOnQueueNow (bufs obs p) = ok ()"
    "\<forall>p \<in> set (referencedTextures (pass_usage pass)). ValidateCanUseInSubmitNow (texs obs p) = ok ()"
    "\<forall>p \<in> set (referencedExternalTextures (pass_usage pass)). External_ValidateCanUseInSubmitNow obs p = ok ()"
    using assms(2) by (auto simp: ValidateSubmit_usages_def res_iff validate_all_iff)
  then have buffers: "\<forall>p \<in> set (referencedBuffers (pass_usage pass)). \<not> is_error (bufs obs p) \<and> mState (bufs obs p) = Unmapped"
    and textures: "\<forall>p \<in> set (referencedTextures (pass_usage pass)). \<not> texture_error (texs obs p) \<and> \<not> mDestroyed (texs obs p)"
    and externals: "\<forall>p \<in> set (referencedExternalTextures (pass_usage pass)). \<not> external_destroyed obs p"
    by (auto simp: usable_buffer ValidateCanUseInSubmitNow_def External_ValidateCanUseInSubmitNow_def res_iff)
  have "bound_buffer b \<subseteq> set (referencedBuffers (pass_usage pass)) \<and> sampled_texture b \<subseteq> set (referencedTextures (pass_usage pass)) \<and>
      bound_external b \<subseteq> set (referencedExternalTextures (pass_usage pass))" if "x \<in> set xs" "b \<in> set (step_bindings x)" for x b
  proof -
    have "b \<in> set (concat (map step_bindings xs))" using that by auto
    then show ?thesis using run_steps_refer [OF assms(1)] unfolding refers_def by blast
  qed
  then show ?thesis using buffers textures externals by blast
qed

text \<open>A pass that samples the texture 5 and writes the buffer 2.\<close>

definition sample_objects :: "texture \<Rightarrow> buffer \<Rightarrow> objects" where
  "sample_objects t b = \<lparr> texs = (\<lambda>_. t), bufs = (\<lambda>_. b), external_destroyed = (\<lambda>_. False), queries_destroyed = (\<lambda>_. False) \<rparr>"

definition submitted :: "compute_pass \<Rightarrow> command_buffer" where
  "submitted pass = \<lparr> cb_error = False, cb_alive = True, cb_usages = \<lparr> renderPasses = [], computePasses = [pass_usage pass],
     topLevelBuffers = [], topLevelTextures = [], usedQuerySets = [] \<rparr> \<rparr>"

definition sample_buffer :: buffer where
  "sample_buffer = \<lparr> is_error = False, mSize = 16, mUsage = Storage, mState = Unmapped, mIsDataInitialized = False, mStagingBuffer = None,
     mMapCallback = None, mMapUserdata = 0, mLastMapID = 0, mMapMode = 0, mMapOffset = 0, mMapSize = 0, mAllocatedSize = 16 \<rparr>"

lemma accepted_usages:
  "ValidateSubmit False obs [submitted pass] = ok () \<longleftrightarrow>
     (\<forall>p \<in> set (referencedBuffers (pass_usage pass)). ValidateCanUseOnQueueNow (bufs obs p) = ok ()) \<and>
     (\<forall>p \<in> set (referencedTextures (pass_usage pass)). ValidateCanUseInSubmitNow (texs obs p) = ok ()) \<and>
     (\<forall>p \<in> set (referencedExternalTextures (pass_usage pass)). External_ValidateCanUseInSubmitNow obs p = ok ())"
  by (auto simp: ValidateSubmit_def ValidateSubmit_usages_def submitted_def validate_all_iff res_iff)

theorem submit_checks_compute_bindings_witness:
  "\<exists>obs pass. foldR (run_step (texs obs)) [Set_Group 0 [Texture_Binding (layer_view 1), Buffer_Binding Binding_Storage 2]] new_pass = ok pass \<and>
     ValidateSubmit False obs [submitted pass] = ok () \<and> mState (bufs obs 2) = Unmapped \<and> \<not> mDestroyed (texs obs 5)"
proof -
  obtain dev t0 where "texture_ok dev t0" using sample_texture [of RGBA8Unorm] by blast
  then have "\<not> texture_error t0" by (simp add: texture_ok_def)
  define obs where "obs = sample_objects (t0\<lparr> mDestroyed := False \<rparr>) sample_buffer"
  let ?xs = "[Set_Group 0 [Texture_Binding (layer_view 1), Buffer_Binding Binding_Storage 2]]"
  obtain pass where pass: "foldR (run_step (texs obs)) ?xs new_pass = ok pass"
    by (simp add: compute_SetBindGroup_def AddResourcesReferencedByBindGroup_def AddReferencedByBinding_def new_pass_def)
  have "ValidateSubmit False obs [submitted pass] = ok ()" using \<open>\<not> texture_error t0\<close>
    by (simp add: accepted_usages obs_def sample_objects_def sample_buffer_def ValidateCanUseOnQueueNow_def ValidateCanUseInSubmitNow_def
      External_ValidateCanUseInSubmitNow_def)
  then show ?thesis using submit_checks_compute_bindings [OF pass, of "submitted pass" "[submitted pass]" obs] pass
    by (intro exI [of _ obs] exI [of _ pass]) (simp add: submitted_def layer_view_def)
qed

text \<open>
  C35. The textures bound to a compute pass as storage textures are written by its dispatches, and
  are not among the resources that the queue checks: when a texture is bound in no other way, the
  outcome of the submission is the same whatever its state, destroyed included.
\<close>

theorem storage_texture_not_checked:
  assumes "foldR (run_step tex) xs new_pass = ok pass" "\<And>x b. x \<in> set xs \<Longrightarrow> b \<in> set (step_bindings x) \<Longrightarrow> p \<notin> sampled_texture b"
  shows "ValidateSubmit False (obs\<lparr> texs := (texs obs)(p := t) \<rparr>) [submitted pass] = ValidateSubmit False obs [submitted pass]"
proof -
  have "p \<notin> set (referencedTextures (pass_usage pass))"
    using run_steps_refer [OF assms(1)] assms(2) by (auto simp: refers_def new_pass_def)
  then have "validate_all (\<lambda>q. ValidateCanUseInSubmitNow (if q = p then t else texs obs q)) (referencedTextures (pass_usage pass)) =
      validate_all (\<lambda>q. ValidateCanUseInSubmitNow (texs obs q)) (referencedTextures (pass_usage pass))"
    by (intro validate_all_cong) auto
  moreover have "External_ValidateCanUseInSubmitNow (obs\<lparr> texs := f \<rparr>) = External_ValidateCanUseInSubmitNow obs" for f
    by (simp add: External_ValidateCanUseInSubmitNow_def fun_eq_iff)
  moreover have "validate_all check [] = ok ()" "validate_all check [y] = check y" for check :: "'b \<Rightarrow> unit res" and y
    by (simp_all add: validate_all_def bindR_ok)
  ultimately show ?thesis by (simp add: ValidateSubmit_def ValidateSubmit_usages_def submitted_def validate_all_def bindR_ok)
qed

theorem storage_texture_not_checked_witness:
  "\<exists>obs pass. foldR (run_step (texs obs)) [Set_Group 0 [StorageTexture_Binding True (layer_view 1)], Dispatch [0] SyncScopeUsageTracker] new_pass = ok pass \<and>
     map scope_textures (dispatchUsages (pass_usage pass)) = [[5]] \<and> mDestroyed (texs obs 5) \<and> ValidateSubmit False obs [submitted pass] = ok ()"
proof -
  let ?xs = "[Set_Group 0 [StorageTexture_Binding True (layer_view 1)], Dispatch [0] SyncScopeUsageTracker]"
  obtain dev t where t: "texture_ok dev t" "format_aspects (mFormat t) = Aspect_Color" "layers_of t = 3" "mTextureMipLevelCount t = 4"
    using sample_texture [of RGBA8Unorm] by (auto simp: format_kind_def)
  define obs where "obs = sample_objects (t\<lparr> mDestroyed := False \<rparr>) sample_buffer"
  define gone where "gone = obs\<lparr> texs := (texs obs)(5 := t\<lparr> mDestroyed := True \<rparr>) \<rparr>"
  have use: "list_all (use_ok dev (texs gone)) [Use_View (layer_view 1) Tex_StorageBinding]"
  proof -
    have "texture_ok dev (t\<lparr> mDestroyed := True \<rparr>)" using t(1) by (simp add: texture_ok_def)
    moreover have "layers_of (t\<lparr> mDestroyed := True \<rparr>) = layers_of t" by (simp add: layers_of_def)
    ultimately show ?thesis using t(2-4) by (simp add: gone_def layer_view_def inside_def SubresourceRange_def)
  qed
  obtain tr where tr: "foldR (run_use (texs gone)) [Use_View (layer_view 1) Tex_StorageBinding] SyncScopeUsageTracker = ok tr"
    using run_uses_tracked [OF use] by blast
  have view: "TextureViewUsedAs (texs gone) (layer_view 1) Tex_StorageBinding SyncScopeUsageTracker = ok tr" using tr by (simp add: bindR_ok)
  then have keys: "map fst (mTextureUsages tr) = [5]"
    by (auto simp: TextureViewUsedAs_def SyncScopeUsageTracker_def layer_view_def res_iff)
  obtain pass where pass: "foldR (run_step (texs gone)) ?xs new_pass = ok pass" "map scope_textures (dispatchUsages (pass_usage pass)) = [[5]]"
    "referencedTextures (pass_usage pass) = []"
    using view keys by (simp add: compute_SetBindGroup_def AddResourcesReferencedByBindGroup_def AddReferencedByBinding_def new_pass_def
      AddDispatchSyncScope_def AddBindGroup_def AddBinding_def AddDispatch_def AcquireSyncScopeUsage_def bindR_ok)
  have "ValidateSubmit False obs [submitted pass] = ok ()"
    by (simp add: accepted_usages pass(3) obs_def sample_objects_def sample_buffer_def ValidateCanUseOnQueueNow_def External_ValidateCanUseInSubmitNow_def)
  moreover have "ValidateSubmit False gone [submitted pass] = ValidateSubmit False obs [submitted pass]"
    unfolding gone_def by (rule storage_texture_not_checked [OF pass(1)]) auto
  ultimately show ?thesis using pass by (intro exI [of _ gone] exI [of _ pass]) (simp add: gone_def)
qed

end
