(* ===== verification/Copy_Commands.thy ===== *)
theory Copy_Commands
  imports Sync_Scope
begin

unbundle bit_operations_syntax

text \<open>
  Copies between buffers and textures: the rules of \<open>dawn_native/CommandValidation.cpp\<close>, the copy
  commands of \<open>dawn_native/CommandEncoder.cpp\<close> and the texture writes of
  \<open>dawn_native/Queue.cpp\<close>. Resources are pointers into the record \<open>objects\<close>, all of one device.
  Sizes are numbers below the width of their type, and every operation that may leave it wraps.
\<close>

section \<open>Copy descriptors\<close>

abbreviation kCopyStrideUndefined :: nat where "kCopyStrideUndefined \<equiv> 4294967295"
abbreviation kWholeSize :: nat where "kWholeSize \<equiv> 18446744073709551615"

definition wrap64 :: "nat \<Rightarrow> nat" where
  "wrap64 n = n mod 2 ^ 64"

record data_layout =
  offset :: nat
  bytesPerRow :: nat
  rowsPerImage :: nat

record image_copy_buffer =
  ib_layout :: data_layout
  ib_buffer :: nat

record image_copy_texture =
  it_texture :: nat
  it_mipLevel :: nat
  it_origin :: origin3d
  it_aspect :: texture_aspect

datatype query_type = Occlusion | PipelineStatistics | Timestamp

record query_set =
  query_error :: bool
  mQueryType :: query_type
  mQueryCount :: nat
  mQueryAvailability :: "bool list"

section \<open>Rules\<close>

definition ValidateObject :: "bool \<Rightarrow> unit res" where
  "ValidateObject object_error = (if object_error then validation_error ''object is invalid'' else ok ())"

definition ValidateTimestampQuery :: "query_set \<Rightarrow> nat \<Rightarrow> unit res" where
  "ValidateTimestampQuery querySet queryIndex =
     (if mQueryType querySet \<noteq> Timestamp then validation_error ''type is not Timestamp''
      else if queryIndex \<ge> mQueryCount querySet then validation_error ''query index exceeds the number of queries''
      else ok ())"

definition ValidateWriteBuffer :: "buffer \<Rightarrow> nat \<Rightarrow> nat \<Rightarrow> unit res" where
  "ValidateWriteBuffer b bufferOffset n =
     bindR (ValidateObject (is_error b)) (\<lambda>_.
       if bufferOffset mod 4 \<noteq> 0 then validation_error ''bufferOffset is not a multiple of 4''
       else if n mod 4 \<noteq> 0 then validation_error ''size is not a multiple of 4''
       else if bufferOffset > mSize b \<or> n > mSize b - bufferOffset then validation_error ''write range does not fit''
       else if mUsage b AND CopyDst = 0 then validation_error ''usage does not include CopyDst''
       else ok ())"

definition IsRangeOverlapped :: "nat \<Rightarrow> nat \<Rightarrow> nat \<Rightarrow> bool" where
  "IsRangeOverlapped startA startB n =
     (let maxStart = max startA startB; minStart = min startA startB
      in wrap64 (minStart + n) > maxStart)"

definition Safe32x32 :: "nat \<Rightarrow> nat \<Rightarrow> nat" where
  "Safe32x32 a b = wrap64 (a * b)"

definition ComputeRequiredBytesInCopy :: "texel_block_info \<Rightarrow> extent3d \<Rightarrow> nat \<Rightarrow> nat \<Rightarrow> nat res" where
  "ComputeRequiredBytesInCopy blockInfo copySize rowBytes rows =
     bindR (assertR (width copySize mod blockWidth blockInfo = 0)) (\<lambda>_.
     bindR (assertR (height copySize mod blockHeight blockInfo = 0)) (\<lambda>_.
     let widthInBlocks = width copySize div blockWidth blockInfo;
         heightInBlocks = height copySize div blockHeight blockInfo;
         bytesInLastRow = Safe32x32 widthInBlocks (byteSize blockInfo)
     in if depthOrArrayLayers copySize = 0 then ok 0
        else bindR (assertR (depthOrArrayLayers copySize \<le> 1 \<or> (rowBytes \<noteq> kCopyStrideUndefined \<and> rows \<noteq> kCopyStrideUndefined))) (\<lambda>_.
          let bytesPerImage = Safe32x32 rowBytes rows
          in if bytesPerImage > (2 ^ 64 - 1) div depthOrArrayLayers copySize
             then validation_error ''number of bytes per image exceeds the maximum''
             else
               let requiredBytesInCopy = wrap64 (bytesPerImage * (depthOrArrayLayers copySize - 1))
               in if heightInBlocks > 0
                  then bindR (assertR (heightInBlocks \<le> 1 \<or> rowBytes \<noteq> kCopyStrideUndefined)) (\<lambda>_.
                    ok (wrap64 (requiredBytesInCopy + wrap64 (Safe32x32 rowBytes (heightInBlocks - 1) + bytesInLastRow))))
                  else ok requiredBytesInCopy)))"

definition ValidateCopySizeFitsInBuffer :: "buffer \<Rightarrow> nat \<Rightarrow> nat \<Rightarrow> unit res" where
  "ValidateCopySizeFitsInBuffer b off n =
     (if \<not> (off \<le> mSize b \<and> n \<le> mSize b - off) then validation_error ''copy range does not fit'' else ok ())"

text \<open>\<open>Align\<close> at \<open>uint32_t\<close>; the alignment is a \<open>size_t\<close>.\<close>

definition Align_u32 :: "32 word \<Rightarrow> 64 word \<Rightarrow> 32 word res" where
  "Align_u32 v alignment =
     (if \<not> ucast v \<le> 0xFFFFFFFF - (alignment - 1) then undef
      else bindR (assert_pow2 alignment) (\<lambda>_.
        let alignmentT = (ucast alignment :: 32 word)
        in ok ((v + (alignmentT - 1)) AND NOT (alignmentT - 1))))"

definition ApplyDefaultTextureDataLayoutOptions :: "data_layout \<Rightarrow> texel_block_info \<Rightarrow> extent3d \<Rightarrow> data_layout res" where
  "ApplyDefaultTextureDataLayoutOptions layout blockInfo copyExtent =
     bindR (assertR (height copyExtent mod blockHeight blockInfo = 0)) (\<lambda>_.
     let heightInBlocks = height copyExtent div blockHeight blockInfo
     in bindR (if bytesPerRow layout = kCopyStrideUndefined
          then bindR (assertR (width copyExtent mod blockWidth blockInfo = 0)) (\<lambda>_.
            let widthInBlocks = width copyExtent div blockWidth blockInfo;
                bytesInLastRow = u32 (widthInBlocks * byteSize blockInfo)
            in bindR (assertR (heightInBlocks \<le> 1 \<and> depthOrArrayLayers copyExtent \<le> 1)) (\<lambda>_.
               bindR (Align_u32 (of_nat bytesInLastRow) (of_nat kTextureBytesPerRowAlignment)) (\<lambda>aligned.
                 ok (layout\<lparr> bytesPerRow := unat aligned \<rparr>))))
          else ok layout) (\<lambda>layout.
        if rowsPerImage layout = kCopyStrideUndefined
        then bindR (assertR (depthOrArrayLayers copyExtent \<le> 1)) (\<lambda>_. ok (layout\<lparr> rowsPerImage := heightInBlocks \<rparr>))
        else ok layout))"

definition ValidateLinearTextureData :: "data_layout \<Rightarrow> nat \<Rightarrow> texel_block_info \<Rightarrow> extent3d \<Rightarrow> unit res" where
  "ValidateLinearTextureData layout bytes blockInfo copyExtent =
     bindR (assertR (height copyExtent mod blockHeight blockInfo = 0)) (\<lambda>_.
     let heightInBlocks = height copyExtent div blockHeight blockInfo
     in if depthOrArrayLayers copyExtent > 1 \<and> (bytesPerRow layout = kCopyStrideUndefined \<or> rowsPerImage layout = kCopyStrideUndefined)
        then validation_error ''copy depth is > 1, but bytesPerRow or rowsPerImage are not specified''
        else if heightInBlocks > 1 \<and> bytesPerRow layout = kCopyStrideUndefined
        then validation_error ''heightInBlocks is > 1, but bytesPerRow is not specified''
        else bindR (assertR (width copyExtent mod blockWidth blockInfo = 0)) (\<lambda>_.
          let widthInBlocks = width copyExtent div blockWidth blockInfo
          in bindR (assertR (Safe32x32 widthInBlocks (byteSize blockInfo) \<le> 2 ^ 32 - 1)) (\<lambda>_.
            let bytesInLastRow = u32 (widthInBlocks * byteSize blockInfo)
            in if bytesPerRow layout \<noteq> kCopyStrideUndefined \<and> bytesInLastRow > bytesPerRow layout
               then validation_error ''byte size of each row is > bytesPerRow''
               else if rowsPerImage layout \<noteq> kCopyStrideUndefined \<and> heightInBlocks > rowsPerImage layout
               then validation_error ''height of each image in blocks is > rowsPerImage''
               else bindR (ComputeRequiredBytesInCopy blockInfo copyExtent (bytesPerRow layout) (rowsPerImage layout)) (\<lambda>requiredBytesInCopy.
                 if \<not> (offset layout \<le> bytes \<and> requiredBytesInCopy \<le> bytes - offset layout)
                 then validation_error ''required size for texture data layout exceeds the linear data size''
                 else ok ()))))"

definition ValidateImageCopyBuffer :: "objects \<Rightarrow> image_copy_buffer \<Rightarrow> unit res" where
  "ValidateImageCopyBuffer obs imageCopyBuffer =
     bindR (ValidateObject (is_error (bufs obs (ib_buffer imageCopyBuffer)))) (\<lambda>_.
       if bytesPerRow (ib_layout imageCopyBuffer) \<noteq> kCopyStrideUndefined \<and>
          bytesPerRow (ib_layout imageCopyBuffer) mod kTextureBytesPerRowAlignment \<noteq> 0
       then validation_error ''bytesPerRow is not a multiple of 256'' else ok ())"

definition ValidateImageCopyTexture :: "objects \<Rightarrow> image_copy_texture \<Rightarrow> extent3d \<Rightarrow> unit res" where
  "ValidateImageCopyTexture obs textureCopy copySize =
     (let t = texs obs (it_texture textureCopy) in
      bindR (ValidateObject (texture_error t)) (\<lambda>_.
      bindR (GetNumMipLevels t) (\<lambda>levels.
        if it_mipLevel textureCopy \<ge> levels then validation_error ''mipLevel is greater than the number of mip levels''
        else if SelectFormatAspects (format_aspects (mFormat t)) (it_aspect textureCopy) = Aspect_None
        then validation_error ''format does not have the selected aspect''
        else if mSampleCount t > 1 \<or> HasDepthOrStencil (mFormat t) then
          bindR (GetMipLevelPhysicalSize t (it_mipLevel textureCopy)) (\<lambda>subresourceSize.
          bindR (assertR (mDimension t = Dim2D)) (\<lambda>_.
            if ox (it_origin textureCopy) \<noteq> 0 \<or> oy (it_origin textureCopy) \<noteq> 0 \<or>
               width subresourceSize \<noteq> width copySize \<or> height subresourceSize \<noteq> height copySize
            then validation_error ''copy does not cover the entire subresource'' else ok ()))
        else ok ())))"

definition ValidateTextureCopyRange :: "objects \<Rightarrow> image_copy_texture \<Rightarrow> extent3d \<Rightarrow> unit res" where
  "ValidateTextureCopyRange obs textureCopy copySize =
     (let t = texs obs (it_texture textureCopy); origin = it_origin textureCopy in
      bindR (assertR (mDimension t \<noteq> Dim1D)) (\<lambda>_.
      bindR (GetMipLevelPhysicalSize t (it_mipLevel textureCopy)) (\<lambda>mipSize.
      bindR (if mDimension t \<noteq> Dim3D
             then bindR (GetArrayLayers t) (\<lambda>layers. ok (mipSize\<lparr> depthOrArrayLayers := layers \<rparr>)) else ok mipSize) (\<lambda>mipSize.
        if wrap64 (ox origin + width copySize) > width mipSize \<or> wrap64 (oy origin + height copySize) > height mipSize \<or>
           wrap64 (oz origin + depthOrArrayLayers copySize) > depthOrArrayLayers mipSize
        then validation_error ''texture copy range touches outside of the mip level''
        else if isCompressed (mFormat t) then
          bindR (GetAspectInfo_of (mFormat t) (it_aspect textureCopy)) (\<lambda>info.
            if ox origin mod blockWidth (block info) \<noteq> 0 then validation_error ''origin.x is not a multiple of the block width''
            else if oy origin mod blockHeight (block info) \<noteq> 0 then validation_error ''origin.y is not a multiple of the block height''
            else if width copySize mod blockWidth (block info) \<noteq> 0 then validation_error ''width is not a multiple of the block width''
            else if height copySize mod blockHeight (block info) \<noteq> 0 then validation_error ''height is not a multiple of the block height''
            else ok ())
        else ok ()))))"

definition SingleAspectUsedByImageCopyTexture :: "objects \<Rightarrow> image_copy_texture \<Rightarrow> aspect res" where
  "SingleAspectUsedByImageCopyTexture obs v =
     (let f = mFormat (texs obs (it_texture v)) in
      case it_aspect v of
        TextureAspect_All \<Rightarrow>
          if \<not> HasOneBit (format_aspects f) then validation_error ''more than a single aspect is selected'' else ok (format_aspects f)
      | DepthOnly \<Rightarrow> bindR (assertR (format_aspects f AND Aspect_Depth \<noteq> 0)) (\<lambda>_. ok Aspect_Depth)
      | StencilOnly \<Rightarrow> bindR (assertR (format_aspects f AND Aspect_Stencil \<noteq> 0)) (\<lambda>_. ok Aspect_Stencil)
      | Plane0Only \<Rightarrow> undef
      | Plane1Only \<Rightarrow> undef)"

definition ValidateLinearToDepthStencilCopyRestrictions :: "objects \<Rightarrow> image_copy_texture \<Rightarrow> unit res" where
  "ValidateLinearToDepthStencilCopyRestrictions obs dst =
     bindR (SingleAspectUsedByImageCopyTexture obs dst) (\<lambda>aspectUsed.
       if aspectUsed = Aspect_Depth then validation_error ''cannot copy into the depth aspect'' else ok ())"

definition ValidateTextureToTextureCopyCommonRestrictions ::
    "objects \<Rightarrow> image_copy_texture \<Rightarrow> image_copy_texture \<Rightarrow> extent3d \<Rightarrow> unit res" where
  "ValidateTextureToTextureCopyCommonRestrictions obs src dst copySize =
     (let s = texs obs (it_texture src); d = texs obs (it_texture dst); fa = format_aspects (mFormat s) in
      if mSampleCount s \<noteq> mSampleCount d then validation_error ''sample counts do not match''
      else if SelectFormatAspects fa (it_aspect src) \<noteq> fa then validation_error ''source aspect does not select all the aspects''
      else if SelectFormatAspects fa (it_aspect dst) \<noteq> fa then validation_error ''destination aspect does not select all the aspects''
      else if it_texture src = it_texture dst \<and> it_mipLevel src = it_mipLevel dst then
        bindR (assertR (mDimension s \<noteq> Dim1D)) (\<lambda>_.
          if mDimension s = Dim2D \<and> IsRangeOverlapped (oz (it_origin src)) (oz (it_origin dst)) (depthOrArrayLayers copySize) \<or>
             mDimension s = Dim3D
          then validation_error ''cannot copy between overlapping subresources'' else ok ())
      else ok ())"

definition ValidateTextureToTextureCopyRestrictions ::
    "objects \<Rightarrow> image_copy_texture \<Rightarrow> image_copy_texture \<Rightarrow> extent3d \<Rightarrow> unit res" where
  "ValidateTextureToTextureCopyRestrictions obs src dst copySize =
     (if format_id (mFormat (texs obs (it_texture src))) \<noteq> format_id (mFormat (texs obs (it_texture dst)))
      then validation_error ''formats do not match''
      else ValidateTextureToTextureCopyCommonRestrictions obs src dst copySize)"

definition ValidateCanUseAs :: "32 word \<Rightarrow> 32 word \<Rightarrow> unit res" where
  "ValidateCanUseAs object_usage u =
     bindR (assertR (HasZeroOrOneBits (unat u))) (\<lambda>_.
       if object_usage AND u = 0 then validation_error ''usage does not include the required usage'' else ok ())"

section \<open>Commands\<close>

record buffer_copy =
  bc_buffer :: nat
  bc_offset :: nat
  bc_bytesPerRow :: nat
  bc_rowsPerImage :: nat

record texture_copy =
  tc_texture :: nat
  tc_mipLevel :: nat
  tc_origin :: origin3d
  tc_aspect :: aspect

datatype command =
    CopyBufferToBuffer nat nat nat nat nat
  | CopyBufferToTexture buffer_copy texture_copy extent3d
  | CopyTextureToBuffer texture_copy buffer_copy extent3d
  | CopyTextureToTexture texture_copy texture_copy extent3d
  | ClearBuffer nat nat nat
  | ResolveQuerySet nat nat nat nat nat
  | WriteTimestamp nat nat
  | WriteBuffer nat nat "8 word list"
  | InsertDebugMarker string

text \<open>The command encoder outside of passes; its debug groups are with the encoding context. A function that encodes a command returns the next
  state; an error is kept by the encoding context, and no command is taken from an encoder with
  an error.\<close>

record top_level =
  mTopLevelBuffers :: "nat list"
  mTopLevelTextures :: "nat list"
  mUsedQuerySets :: "nat list"
  encoded :: "command list"

definition use_buffer :: "nat \<Rightarrow> top_level \<Rightarrow> top_level" where
  "use_buffer p e = e\<lparr> mTopLevelBuffers := insort_insert p (mTopLevelBuffers e) \<rparr>"

definition use_texture :: "nat \<Rightarrow> top_level \<Rightarrow> top_level" where
  "use_texture p e = e\<lparr> mTopLevelTextures := insort_insert p (mTopLevelTextures e) \<rparr>"

definition encode :: "command \<Rightarrow> top_level \<Rightarrow> top_level" where
  "encode c e = e\<lparr> encoded := encoded e @ [c] \<rparr>"

definition ValidateB2BCopyAlignment :: "nat \<Rightarrow> nat \<Rightarrow> nat \<Rightarrow> unit res" where
  "ValidateB2BCopyAlignment dataSize srcOffset dstOffset =
     (if dataSize mod 4 \<noteq> 0 then validation_error ''copy size is not a multiple of 4''
      else if srcOffset mod 4 \<noteq> 0 \<or> dstOffset mod 4 \<noteq> 0 then validation_error ''offset is not a multiple of 4 bytes''
      else ok ())"

definition ValidateTextureSampleCountInBufferCopyCommands :: "texture \<Rightarrow> unit res" where
  "ValidateTextureSampleCountInBufferCopyCommands t =
     (if mSampleCount t > 1 then validation_error ''sample count is not 1 when copying to or from a buffer'' else ok ())"

definition ValidateLinearTextureCopyOffset :: "data_layout \<Rightarrow> texel_block_info \<Rightarrow> bool \<Rightarrow> unit res" where
  "ValidateLinearTextureCopyOffset layout blockInfo hasDepthOrStencil =
     (if hasDepthOrStencil
      then if offset layout mod 4 \<noteq> 0 then validation_error ''offset is not a multiple of 4 for depth/stencil texture'' else ok ()
      else if offset layout mod byteSize blockInfo \<noteq> 0
      then validation_error ''offset is not a multiple of the texel block byte size'' else ok ())"

definition ValidateTextureDepthStencilToBufferCopyRestrictions :: "objects \<Rightarrow> image_copy_texture \<Rightarrow> unit res" where
  "ValidateTextureDepthStencilToBufferCopyRestrictions obs src =
     bindR (SingleAspectUsedByImageCopyTexture obs src) (\<lambda>aspectUsed.
       if aspectUsed = Aspect_Depth
       then let k = format_id (mFormat (texs obs (it_texture src))) in
         if k \<in> {Depth24Plus, Depth24PlusStencil8, Depth24UnormStencil8}
         then validation_error ''the depth aspect cannot be selected in a texture to buffer copy''
         else if k \<in> {Depth32Float, Depth16Unorm, Depth32FloatStencil8} then ok ()
         else undef
       else ok ())"

definition ValidateQuerySetResolve :: "query_set \<Rightarrow> nat \<Rightarrow> nat \<Rightarrow> buffer \<Rightarrow> nat \<Rightarrow> unit res" where
  "ValidateQuerySetResolve querySet firstQuery queryCount destination destinationOffset =
     (if firstQuery \<ge> mQueryCount querySet then validation_error ''first query exceeds the number of queries''
      else if queryCount > mQueryCount querySet - firstQuery then validation_error ''query range exceeds the number of queries''
      else if destinationOffset mod 256 \<noteq> 0 then validation_error ''destination offset is not a multiple of 256''
      else if \<not> (destinationOffset \<le> mSize destination \<and> wrap64 (queryCount * 8) \<le> mSize destination - destinationOffset)
      then validation_error ''resolved data would not fit in the destination'' else ok ())"

definition APICopyBufferToBuffer :: "bool \<Rightarrow> objects \<Rightarrow> nat \<Rightarrow> nat \<Rightarrow> nat \<Rightarrow> nat \<Rightarrow> nat \<Rightarrow> top_level \<Rightarrow> top_level res" where
  "APICopyBufferToBuffer validation obs source sourceOffset destination destinationOffset n e =
     bindR (if validation then
         bindR (ValidateObject (is_error (bufs obs source))) (\<lambda>_.
         bindR (ValidateObject (is_error (bufs obs destination))) (\<lambda>_.
         if source = destination then validation_error ''source and destination are the same buffer''
         else
           bindR (ValidateCopySizeFitsInBuffer (bufs obs source) sourceOffset n) (\<lambda>_.
           bindR (ValidateCopySizeFitsInBuffer (bufs obs destination) destinationOffset n) (\<lambda>_.
           bindR (ValidateB2BCopyAlignment n sourceOffset destinationOffset) (\<lambda>_.
           bindR (ValidateCanUseAs (mUsage (bufs obs source)) CopySrc) (\<lambda>_.
           bindR (ValidateCanUseAs (mUsage (bufs obs destination)) CopyDst) (\<lambda>_.
             ok (use_buffer destination (use_buffer source e)))))))))
       else ok e) (\<lambda>e. ok (encode (CopyBufferToBuffer source sourceOffset destination destinationOffset n) e))"

definition buffer_side :: "nat \<Rightarrow> data_layout \<Rightarrow> buffer_copy" where
  "buffer_side p layout = \<lparr> bc_buffer = p, bc_offset = offset layout, bc_bytesPerRow = bytesPerRow layout, bc_rowsPerImage = rowsPerImage layout \<rparr>"

definition texture_side :: "objects \<Rightarrow> image_copy_texture \<Rightarrow> texture_copy res" where
  "texture_side obs ct =
     bindR (ConvertAspect (format_aspects (mFormat (texs obs (it_texture ct)))) (it_aspect ct)) (\<lambda>a.
       ok \<lparr> tc_texture = it_texture ct, tc_mipLevel = it_mipLevel ct, tc_origin = it_origin ct, tc_aspect = a \<rparr>)"

definition APICopyBufferToTexture :: "bool \<Rightarrow> objects \<Rightarrow> image_copy_buffer \<Rightarrow> image_copy_texture \<Rightarrow> extent3d \<Rightarrow> top_level \<Rightarrow> top_level res" where
  "APICopyBufferToTexture validation obs source destination copySize e =
     (let t = texs obs (it_texture destination); b = bufs obs (ib_buffer source) in
      bindR (if validation then
          bindR (ValidateImageCopyBuffer obs source) (\<lambda>_.
          bindR (ValidateCanUseAs (mUsage b) CopySrc) (\<lambda>_.
          bindR (ValidateImageCopyTexture obs destination copySize) (\<lambda>_.
          bindR (ValidateCanUseAs (mTextureUsage t) Tex_CopyDst) (\<lambda>_.
          bindR (ValidateTextureSampleCountInBufferCopyCommands t) (\<lambda>_.
          bindR (ValidateLinearToDepthStencilCopyRestrictions obs destination) (\<lambda>_.
            ValidateTextureCopyRange obs destination copySize))))))
        else ok ()) (\<lambda>_.
      bindR (GetAspectInfo_of (mFormat t) (it_aspect destination)) (\<lambda>info.
      bindR (if validation then
          bindR (ValidateLinearTextureCopyOffset (ib_layout source) (block info) (HasDepthOrStencil (mFormat t))) (\<lambda>_.
          bindR (ValidateLinearTextureData (ib_layout source) (mSize b) (block info) copySize) (\<lambda>_.
            ok (use_texture (it_texture destination) (use_buffer (ib_buffer source) e))))
        else ok e) (\<lambda>e.
      bindR (ApplyDefaultTextureDataLayoutOptions (ib_layout source) (block info) copySize) (\<lambda>srcLayout.
      bindR (texture_side obs destination) (\<lambda>dst.
        ok (encode (CopyBufferToTexture (buffer_side (ib_buffer source) srcLayout) dst copySize) e)))))))"

definition APICopyTextureToBuffer :: "bool \<Rightarrow> objects \<Rightarrow> image_copy_texture \<Rightarrow> image_copy_buffer \<Rightarrow> extent3d \<Rightarrow> top_level \<Rightarrow> top_level res" where
  "APICopyTextureToBuffer validation obs source destination copySize e =
     (let t = texs obs (it_texture source); b = bufs obs (ib_buffer destination) in
      bindR (if validation then
          bindR (ValidateImageCopyTexture obs source copySize) (\<lambda>_.
          bindR (ValidateCanUseAs (mTextureUsage t) Tex_CopySrc) (\<lambda>_.
          bindR (ValidateTextureSampleCountInBufferCopyCommands t) (\<lambda>_.
          bindR (ValidateTextureDepthStencilToBufferCopyRestrictions obs source) (\<lambda>_.
          bindR (ValidateImageCopyBuffer obs destination) (\<lambda>_.
          bindR (ValidateCanUseAs (mUsage b) CopyDst) (\<lambda>_.
            ValidateTextureCopyRange obs source copySize))))))
        else ok ()) (\<lambda>_.
      bindR (GetAspectInfo_of (mFormat t) (it_aspect source)) (\<lambda>info.
      bindR (if validation then
          bindR (ValidateLinearTextureCopyOffset (ib_layout destination) (block info) (HasDepthOrStencil (mFormat t))) (\<lambda>_.
          bindR (ValidateLinearTextureData (ib_layout destination) (mSize b) (block info) copySize) (\<lambda>_.
            ok (use_buffer (ib_buffer destination) (use_texture (it_texture source) e))))
        else ok e) (\<lambda>e.
      bindR (ApplyDefaultTextureDataLayoutOptions (ib_layout destination) (block info) copySize) (\<lambda>dstLayout.
      bindR (texture_side obs source) (\<lambda>src.
        ok (encode (CopyTextureToBuffer src (buffer_side (ib_buffer destination) dstLayout) copySize) e)))))))"

definition APICopyTextureToTextureHelper ::
    "bool \<Rightarrow> bool \<Rightarrow> objects \<Rightarrow> image_copy_texture \<Rightarrow> image_copy_texture \<Rightarrow> extent3d \<Rightarrow> top_level \<Rightarrow> top_level res" where
  "APICopyTextureToTextureHelper internal validation obs source destination copySize e =
     (let s = texs obs (it_texture source); d = texs obs (it_texture destination) in
      bindR (if validation then
          bindR (ValidateObject (texture_error s)) (\<lambda>_.
          bindR (ValidateObject (texture_error d)) (\<lambda>_.
          bindR (ValidateImageCopyTexture obs source copySize) (\<lambda>_.
          bindR (ValidateImageCopyTexture obs destination copySize) (\<lambda>_.
          bindR (ValidateTextureToTextureCopyRestrictions obs source destination copySize) (\<lambda>_.
          bindR (ValidateTextureCopyRange obs source copySize) (\<lambda>_.
          bindR (ValidateTextureCopyRange obs destination copySize) (\<lambda>_.
          bindR (ValidateCanUseAs (if internal then mInternalUsage s else mTextureUsage s) Tex_CopySrc) (\<lambda>_.
          bindR (ValidateCanUseAs (if internal then mInternalUsage d else mTextureUsage d) Tex_CopyDst) (\<lambda>_.
            ok (use_texture (it_texture destination) (use_texture (it_texture source) e)))))))))))
        else ok e) (\<lambda>e.
      bindR (texture_side obs source) (\<lambda>src.
      bindR (texture_side obs destination) (\<lambda>dst.
        ok (encode (CopyTextureToTexture src dst copySize) e)))))"

definition APIClearBuffer :: "bool \<Rightarrow> objects \<Rightarrow> nat \<Rightarrow> nat \<Rightarrow> nat \<Rightarrow> top_level \<Rightarrow> top_level res" where
  "APIClearBuffer validation obs p off n e =
     (let b = bufs obs p in
      bindR (if validation then
          bindR (ValidateObject (is_error b)) (\<lambda>_.
          if off > mSize b then validation_error ''buffer offset is larger than the size''
          else
            let remainingSize = mSize b - off in
            bindR (if n = kWholeSize then ok remainingSize
                   else if n > remainingSize then validation_error ''buffer range does not fit'' else ok n) (\<lambda>n.
            bindR (ValidateCanUseAs (mUsage b) CopyDst) (\<lambda>_.
              if n mod 4 \<noteq> 0 then validation_error ''fill size is not a multiple of 4 bytes''
              else if off mod 4 \<noteq> 0 then validation_error ''offset is not a multiple of 4 bytes''
              else ok (n, use_buffer p e))))
        else if n = kWholeSize then bindR (assertR (mSize b \<ge> off)) (\<lambda>_. ok (mSize b - off, e)) else ok (n, e)) (\<lambda>(n, e).
        ok (encode (ClearBuffer p off n) e)))"

text \<open>\<open>convert\<close> encodes the conversion of timestamps, an internal compute pass.\<close>

definition APIResolveQuerySet ::
    "bool \<Rightarrow> objects \<Rightarrow> (nat \<Rightarrow> query_set) \<Rightarrow> (top_level \<Rightarrow> top_level res) \<Rightarrow> nat \<Rightarrow> nat \<Rightarrow> nat \<Rightarrow> nat \<Rightarrow> nat \<Rightarrow> top_level \<Rightarrow> top_level res" where
  "APIResolveQuerySet validation obs queries convert querySet firstQuery queryCount destination destinationOffset e =
     bindR (if validation then
         bindR (ValidateObject (query_error (queries querySet))) (\<lambda>_.
         bindR (ValidateObject (is_error (bufs obs destination))) (\<lambda>_.
         bindR (ValidateQuerySetResolve (queries querySet) firstQuery queryCount (bufs obs destination) destinationOffset) (\<lambda>_.
         bindR (ValidateCanUseAs (mUsage (bufs obs destination)) QueryResolve) (\<lambda>_.
           ok (use_buffer destination (e\<lparr> mUsedQuerySets := insort_insert querySet (mUsedQuerySets e) \<rparr>))))))
       else ok e) (\<lambda>e.
       let e = encode (ResolveQuerySet querySet firstQuery queryCount destination destinationOffset) e
       in if mQueryType (queries querySet) = Timestamp then convert e else ok e)"

definition APIWriteTimestamp :: "bool \<Rightarrow> (nat \<Rightarrow> query_set) \<Rightarrow> nat \<Rightarrow> nat \<Rightarrow> top_level \<Rightarrow> (top_level \<times> (nat \<Rightarrow> query_set)) res" where
  "APIWriteTimestamp validation queries querySet queryIndex e =
     bindR (if validation then
         bindR (ValidateObject (query_error (queries querySet))) (\<lambda>_. ValidateTimestampQuery (queries querySet) queryIndex)
       else ok ()) (\<lambda>_.
     let e = (if validation then e\<lparr> mUsedQuerySets := insort_insert querySet (mUsedQuerySets e) \<rparr> else e) in
     bindR (vec_set (mQueryAvailability (queries querySet)) (int queryIndex) True) (\<lambda>av.
       ok (encode (WriteTimestamp querySet queryIndex) e, queries(querySet := (queries querySet)\<lparr> mQueryAvailability := av \<rparr>))))"

definition Encoder_APIWriteBuffer :: "bool \<Rightarrow> objects \<Rightarrow> nat \<Rightarrow> nat \<Rightarrow> 8 word list \<Rightarrow> top_level \<Rightarrow> top_level res" where
  "Encoder_APIWriteBuffer validation obs p bufferOffset bytes e =
     bindR (if validation then ValidateWriteBuffer (bufs obs p) bufferOffset (length bytes) else ok ()) (\<lambda>_.
       ok (use_buffer p (encode (WriteBuffer p bufferOffset bytes) e)))"

definition APIInsertDebugMarker :: "string \<Rightarrow> top_level \<Rightarrow> top_level res" where
  "APIInsertDebugMarker groupLabel e = ok (encode (InsertDebugMarker groupLabel) e)"

section \<open>Writes through the queue\<close>

text \<open>Memory is a list of bytes; a copy outside of it is undefined.\<close>

definition memcpy :: "'b list \<Rightarrow> nat \<Rightarrow> 'b list \<Rightarrow> nat \<Rightarrow> nat \<Rightarrow> 'b list res" where
  "memcpy dst d src s n =
     (if d + n \<le> length dst \<and> s + n \<le> length src then ok (take d dst @ take n (drop s src) @ drop (d + n) dst) else undef)"

text \<open>The state of the loops: the destination and the two positions.\<close>

definition copy_rows :: "'b list \<Rightarrow> nat \<Rightarrow> nat \<Rightarrow> nat \<Rightarrow> nat \<Rightarrow> nat \<Rightarrow> 'b list \<times> nat \<times> nat \<Rightarrow> ('b list \<times> nat \<times> nat) res" where
  "copy_rows src rows imageAdditionalStride actualBytesPerRow dstBytesPerRow srcBytesPerRow state =
     bindR (foldR (\<lambda>h (dst, d, s).
         bindR (memcpy dst d src s actualBytesPerRow) (\<lambda>dst. ok (dst, d + dstBytesPerRow, s + srcBytesPerRow))) [0..<rows] state) (\<lambda>(dst, d, s).
       ok (dst, d, s + imageAdditionalStride))"

definition CopyTextureData ::
    "'b list \<Rightarrow> nat \<Rightarrow> 'b list \<Rightarrow> nat \<Rightarrow> nat \<Rightarrow> nat \<Rightarrow> nat \<Rightarrow> nat \<Rightarrow> nat \<Rightarrow> nat \<Rightarrow> 'b list res" where
  "CopyTextureData dst d src s depth rows imageAdditionalStride actualBytesPerRow dstBytesPerRow srcBytesPerRow =
     (let copyWholeLayer = (actualBytesPerRow = dstBytesPerRow \<and> dstBytesPerRow = srcBytesPerRow);
          copyWholeData = (copyWholeLayer \<and> imageAdditionalStride = 0)
      in if \<not> copyWholeLayer
         then bindR (foldR (\<lambda>z. copy_rows src rows imageAdditionalStride actualBytesPerRow dstBytesPerRow srcBytesPerRow)
                [0..<depth] (dst, d, s)) (\<lambda>(dst, _). ok dst)
         else
           let layerSize = wrap64 (rows * actualBytesPerRow)
           in if \<not> copyWholeData
              then bindR (foldR (\<lambda>z (dst, d, s). bindR (memcpy dst d src s layerSize) (\<lambda>dst.
                     ok (dst, d + layerSize, s + wrap64 (layerSize + imageAdditionalStride)))) [0..<depth] (dst, d, s)) (\<lambda>(dst, _). ok dst)
              else memcpy dst d src s (wrap64 (layerSize * depth)))"

text \<open>
  \<open>allocate\<close> is the dynamic uploader: for a size and an alignment it returns the offset in its
  staging buffer and the mapped memory there. \<open>optimalOffsetAlignment\<close> and
  \<open>optimalBytesPerRowAlignment\<close> are constants of the backend.
\<close>

record 'b uploads =
  upload_allocate :: "nat \<Rightarrow> nat \<Rightarrow> (nat \<times> 'b list) res"
  optimalOffsetAlignment :: nat
  optimalBytesPerRowAlignment :: nat

definition UploadTextureDataAligningBytesPerRowAndOffset ::
    "'b uploads \<Rightarrow> 'b list \<Rightarrow> nat \<Rightarrow> nat \<Rightarrow> nat \<Rightarrow> data_layout \<Rightarrow> bool \<Rightarrow> texel_block_info \<Rightarrow> extent3d \<Rightarrow> (nat \<times> 'b list) res" where
  "UploadTextureDataAligningBytesPerRowAndOffset up bytes alignedBytesPerRow optimallyAlignedBytesPerRow alignedRowsPerImage
       dataLayout hasDepthOrStencil blockInfo writeSizePixel =
     bindR (ComputeRequiredBytesInCopy blockInfo writeSizePixel optimallyAlignedBytesPerRow alignedRowsPerImage) (\<lambda>newDataSizeBytes.
     bindR (assert_pow2 (of_nat (optimalOffsetAlignment up))) (\<lambda>_.
     bindR (assert_pow2 (of_nat (byteSize blockInfo))) (\<lambda>_.
     let offsetAlignment = max (optimalOffsetAlignment up) (byteSize blockInfo);
         offsetAlignment = (if hasDepthOrStencil then max offsetAlignment 4 else offsetAlignment)
     in bindR (upload_allocate up newDataSizeBytes offsetAlignment) (\<lambda>(startOffset, mapped).
        let dataRowsPerImage = (if rowsPerImage dataLayout = 0 then height writeSizePixel div blockHeight blockInfo else rowsPerImage dataLayout)
        in bindR (assertR (dataRowsPerImage \<ge> alignedRowsPerImage)) (\<lambda>_.
           let imageAdditionalStride = u32 (bytesPerRow dataLayout * (dataRowsPerImage - alignedRowsPerImage))
           in bindR (CopyTextureData mapped 0 bytes (offset dataLayout) (depthOrArrayLayers writeSizePixel) alignedRowsPerImage
                imageAdditionalStride alignedBytesPerRow optimallyAlignedBytesPerRow (bytesPerRow dataLayout)) (\<lambda>mapped.
              ok (startOffset, mapped)))))))"

text \<open>What the backend is asked to copy from the staging buffer into the texture.\<close>

record 'b staged_copy =
  staged_bytes :: "'b list"
  staged_layout :: data_layout
  staged_texture :: texture_copy
  staged_size :: extent3d

definition WriteTextureImpl ::
    "'b uploads \<Rightarrow> objects \<Rightarrow> image_copy_texture \<Rightarrow> 'b list \<Rightarrow> data_layout \<Rightarrow> extent3d \<Rightarrow> 'b staged_copy res" where
  "WriteTextureImpl up obs destination bytes dataLayout writeSizePixel =
     (let f = mFormat (texs obs (it_texture destination)) in
      bindR (GetAspectInfo_of f (it_aspect destination)) (\<lambda>info.
      bindR (assertR (width writeSizePixel mod blockWidth (block info) = 0)) (\<lambda>_.
      bindR (assertR (height writeSizePixel mod blockHeight (block info) = 0)) (\<lambda>_.
      let alignedBytesPerRow = u32 (width writeSizePixel div blockWidth (block info) * byteSize (block info));
          alignedRowsPerImage = height writeSizePixel div blockHeight (block info)
      in bindR (Align_u32 (of_nat alignedBytesPerRow) (of_nat (optimalBytesPerRowAlignment up))) (\<lambda>aligned.
         let optimallyAlignedBytesPerRow = unat aligned
         in bindR (UploadTextureDataAligningBytesPerRowAndOffset up bytes alignedBytesPerRow optimallyAlignedBytesPerRow alignedRowsPerImage
              dataLayout (HasDepthOrStencil f) (block info) writeSizePixel) (\<lambda>(startOffset, mapped).
            bindR (texture_side obs destination) (\<lambda>dst.
              ok \<lparr> staged_bytes = mapped,
                   staged_layout = \<lparr> offset = startOffset, bytesPerRow = optimallyAlignedBytesPerRow, rowsPerImage = alignedRowsPerImage \<rparr>,
                   staged_texture = dst, staged_size = writeSizePixel \<rparr>)))))))"

definition ValidateWriteTexture :: "bool \<Rightarrow> bool \<Rightarrow> objects \<Rightarrow> image_copy_texture \<Rightarrow> nat \<Rightarrow> data_layout \<Rightarrow> extent3d \<Rightarrow> unit res" where
  "ValidateWriteTexture device_lost queue_error obs destination dataSize dataLayout writeSize =
     (let t = texs obs (it_texture destination) in
      if device_lost then validation_error ''device is lost''
      else bindR (ValidateObject queue_error) (\<lambda>_.
        bindR (ValidateObject (texture_error t)) (\<lambda>_.
        bindR (ValidateImageCopyTexture obs destination writeSize) (\<lambda>_.
        if offset dataLayout > dataSize then validation_error ''data offset is greater than the data size''
        else if mTextureUsage t AND Tex_CopyDst = 0 then validation_error ''usage does not include CopyDst''
        else if mSampleCount t > 1 then validation_error ''sample count is not 1''
        else bindR (ValidateLinearToDepthStencilCopyRestrictions obs destination) (\<lambda>_.
          bindR (ValidateTextureCopyRange obs destination writeSize) (\<lambda>_.
          bindR (GetAspectInfo_of (mFormat t) (it_aspect destination)) (\<lambda>info.
          bindR (ValidateLinearTextureData dataLayout dataSize (block info) writeSize) (\<lambda>_.
            ValidateCanUseInSubmitNow t))))))))"

text \<open>What the backend is asked to copy from the staging buffer into a buffer.\<close>

record 'b staged_write =
  write_bytes :: "'b list"
  write_start :: nat
  write_buffer :: nat
  write_offset :: nat

definition kCopyBufferToBufferOffsetAlignment :: nat where
  "kCopyBufferToBufferOffsetAlignment = 4"

definition WriteBufferImpl :: "'b uploads \<Rightarrow> nat \<Rightarrow> nat \<Rightarrow> 'b list \<Rightarrow> 'b staged_write option res" where
  "WriteBufferImpl up p bufferOffset bytes =
     (if length bytes = 0 then ok None
      else bindR (upload_allocate up (length bytes) kCopyBufferToBufferOffsetAlignment) (\<lambda>(startOffset, mapped).
        bindR (memcpy mapped 0 bytes 0 (length bytes)) (\<lambda>mapped.
          ok (Some \<lparr> write_bytes = mapped, write_start = startOffset, write_buffer = p, write_offset = bufferOffset \<rparr>))))"

definition Queue_WriteBuffer :: "bool \<Rightarrow> bool \<Rightarrow> 'b uploads \<Rightarrow> objects \<Rightarrow> nat \<Rightarrow> nat \<Rightarrow> 'b list \<Rightarrow> 'b staged_write option res" where
  "Queue_WriteBuffer device_lost queue_error up obs p bufferOffset bytes =
     (if device_lost then validation_error ''device is lost''
      else bindR (ValidateObject queue_error) (\<lambda>_.
        bindR (ValidateWriteBuffer (bufs obs p) bufferOffset (length bytes)) (\<lambda>_.
        bindR (ValidateCanUseOnQueueNow (bufs obs p)) (\<lambda>_.
          WriteBufferImpl up p bufferOffset bytes))))"

text \<open>Nothing is copied when the size of the write is empty.\<close>

definition WriteTextureInternal ::
    "bool \<Rightarrow> bool \<Rightarrow> 'b uploads \<Rightarrow> objects \<Rightarrow> image_copy_texture \<Rightarrow> 'b list \<Rightarrow> data_layout \<Rightarrow> extent3d \<Rightarrow> 'b staged_copy option res" where
  "WriteTextureInternal device_lost queue_error up obs destination bytes dataLayout writeSize =
     bindR (ValidateWriteTexture device_lost queue_error obs destination (length bytes) dataLayout writeSize) (\<lambda>_.
       if width writeSize = 0 \<or> height writeSize = 0 \<or> depthOrArrayLayers writeSize = 0 then ok None
       else bindR (GetAspectInfo_of (mFormat (texs obs (it_texture destination))) (it_aspect destination)) (\<lambda>info.
         bindR (ApplyDefaultTextureDataLayoutOptions dataLayout (block info) writeSize) (\<lambda>layout.
         bindR (WriteTextureImpl up obs destination bytes layout writeSize) (\<lambda>copy. ok (Some copy)))))"

end
