(* ===== verification/Copy_Spec.thy ===== *)
theory Copy_Spec
  imports Copy_Commands "HOL-Library.Product_Lexorder"
begin

unbundle bit_operations_syntax

text \<open>
  What the rules of copies guarantee: the texel blocks of an accepted copy lie inside the linear
  data and do not overlap, and its texels inside the subresource, although the sizes are computed
  in 32 and 64 bits; and that a copy of a plane runs into undefined behaviour.
\<close>

section \<open>Linear data\<close>

definition block_at :: "data_layout \<Rightarrow> nat \<Rightarrow> nat \<times> nat \<times> nat \<Rightarrow> nat" where
  "block_at lay n = (\<lambda>(z, y, x). offset lay + (z * rowsPerImage lay + y) * bytesPerRow lay + x * n)"

text \<open>The texel blocks of a copy: images, rows and columns.\<close>

definition blocks :: "texel_block_info \<Rightarrow> extent3d \<Rightarrow> (nat \<times> nat \<times> nat) set" where
  "blocks b s = {(z, y, x). z < depthOrArrayLayers s \<and> y < height s div blockHeight b \<and> x < width s div blockWidth b}"

definition blocks_inside :: "data_layout \<Rightarrow> texel_block_info \<Rightarrow> extent3d \<Rightarrow> nat \<Rightarrow> bool" where
  "blocks_inside lay b s n \<longleftrightarrow> (\<forall>c \<in> blocks b s. block_at lay (byteSize b) c + byteSize b \<le> n)"

definition blocks_disjoint :: "data_layout \<Rightarrow> texel_block_info \<Rightarrow> extent3d \<Rightarrow> bool" where
  "blocks_disjoint lay b s \<longleftrightarrow> (\<forall>c \<in> blocks b s. \<forall>c' \<in> blocks b s. c \<noteq> c' \<longrightarrow>
     block_at lay (byteSize b) c + byteSize b \<le> block_at lay (byteSize b) c' \<or>
     block_at lay (byteSize b) c' + byteSize b \<le> block_at lay (byteSize b) c)"

text \<open>The members of a layout and of an extent have their width.\<close>

definition layout_typed :: "data_layout \<Rightarrow> bool" where
  "layout_typed lay \<longleftrightarrow> offset lay < 2 ^ 64 \<and> bytesPerRow lay < 2 ^ 32 \<and> rowsPerImage lay < 2 ^ 32"

definition extent_typed :: "extent3d \<Rightarrow> bool" where
  "extent_typed s \<longleftrightarrow> width s < 2 ^ 32 \<and> height s < 2 ^ 32 \<and> depthOrArrayLayers s < 2 ^ 32"

text \<open>A layout that has room for the rows and images of a copy.\<close>

definition roomy :: "nat \<Rightarrow> nat \<Rightarrow> texel_block_info \<Rightarrow> extent3d \<Rightarrow> bool" where
  "roomy rowBytes rows b s \<longleftrightarrow>
     (rowBytes = kCopyStrideUndefined \<longrightarrow> height s div blockHeight b \<le> 1 \<and> depthOrArrayLayers s \<le> 1) \<and>
     (rows = kCopyStrideUndefined \<longrightarrow> depthOrArrayLayers s \<le> 1) \<and>
     (rowBytes \<noteq> kCopyStrideUndefined \<longrightarrow> width s div blockWidth b * byteSize b \<le> rowBytes) \<and>
     (rows \<noteq> kCopyStrideUndefined \<longrightarrow> height s div blockHeight b \<le> rows)"

definition whole_blocks :: "texel_block_info \<Rightarrow> extent3d \<Rightarrow> bool" where
  "whole_blocks b s \<longleftrightarrow> width s mod blockWidth b = 0 \<and> height s mod blockHeight b = 0 \<and> width s div blockWidth b * byteSize b < 2 ^ 32"

definition required :: "nat \<Rightarrow> nat \<Rightarrow> texel_block_info \<Rightarrow> extent3d \<Rightarrow> nat" where
  "required rowBytes rows b s =
     (if depthOrArrayLayers s = 0 then 0
      else rowBytes * rows * (depthOrArrayLayers s - 1) +
        (if 0 < height s div blockHeight b then rowBytes * (height s div blockHeight b - 1) + width s div blockWidth b * byteSize b else 0))"

lemma wrap64_id: "n < 2 ^ 64 \<Longrightarrow> wrap64 n = n"
  by (simp add: wrap64_def)

lemma product32: "a < 2 ^ 32 \<Longrightarrow> b < 2 ^ 32 \<Longrightarrow> a * b + a + b < (2 :: nat) ^ 64"
proof -
  assume "a < 2 ^ 32" "b < 2 ^ 32"
  then have "Suc a * Suc b \<le> 2 ^ 32 * 2 ^ 32" by (intro mult_le_mono) auto
  then show ?thesis by simp
qed

lemma last_image_le:
  assumes "roomy rowBytes rows b s" "1 < depthOrArrayLayers s"
  shows "(if 0 < height s div blockHeight b then rowBytes * (height s div blockHeight b - 1) + width s div blockWidth b * byteSize b else 0)
    \<le> rowBytes * rows"
proof (cases "0 < height s div blockHeight b")
  case True
  then obtain h where h: "height s div blockHeight b = Suc h" by (cases "height s div blockHeight b") auto
  have "width s div blockWidth b * byteSize b \<le> rowBytes" "Suc h \<le> rows" using assms h by (auto simp: roomy_def)
  then have "rowBytes * h + width s div blockWidth b * byteSize b \<le> rowBytes * Suc h" "rowBytes * Suc h \<le> rowBytes * rows"
    by (simp, intro mult_le_mono2)
  then show ?thesis using h by simp
qed simp

lemma ComputeRequiredBytes_eq:
  assumes w: "whole_blocks b s" and t: "rowBytes < 2 ^ 32" "rows < 2 ^ 32" "extent_typed s" and r: "roomy rowBytes rows b s"
  shows "ComputeRequiredBytesInCopy b s rowBytes rows \<noteq> undef"
    "ComputeRequiredBytesInCopy b s rowBytes rows = ok n \<Longrightarrow> n = required rowBytes rows b s \<and> n < 2 ^ 64"
proof -
  let ?h = "height s div blockHeight b" and ?w = "width s div blockWidth b * byteSize b" and ?d = "depthOrArrayLayers s"
  have wb: "?w < 2 ^ 32" "Safe32x32 (width s div blockWidth b) (byteSize b) = ?w"
    using w by (auto simp: whole_blocks_def Safe32x32_def wrap64_def)
  have h: "?h < 2 ^ 32" using t(3) by (auto simp: extent_typed_def intro: le_less_trans [OF div_le_dividend])
  have h1: "?h - 1 < 2 ^ 32" using h by simp
  have image: "Safe32x32 rowBytes rows = rowBytes * rows" "Safe32x32 rowBytes (?h - 1) = rowBytes * (?h - 1)"
    using product32 [OF t(1,2)] product32 [OF t(1) h1] by (auto simp: Safe32x32_def wrap64_def)
  have last: "wrap64 (rowBytes * (?h - 1) + ?w) = rowBytes * (?h - 1) + ?w"
  proof -
    have "rowBytes * (?h - 1) + ?w \<le> (2 ^ 32 - 1) * (2 ^ 32 - 1) + (2 ^ 32 - 1)"
      using t(1) h wb(1) by (intro add_mono mult_le_mono) auto
    then show ?thesis by (simp add: wrap64_def)
  qed
  have sum: "rowBytes * rows * (?d - 1) + (if 0 < ?h then rowBytes * (?h - 1) + ?w else 0) < 2 ^ 64"
    if "rowBytes * rows \<le> (2 ^ 64 - 1) div ?d" "?d \<noteq> 0"
  proof (cases "1 < ?d")
    case True
    from last_image_le [OF r True] have "rowBytes * rows * (?d - 1) + (if 0 < ?h then rowBytes * (?h - 1) + ?w else 0) \<le>
        rowBytes * rows * (?d - 1) + rowBytes * rows" by simp
    also have "\<dots> = rowBytes * rows * ?d" using True by (cases ?d) simp_all
    also have "\<dots> \<le> 2 ^ 64 - 1" using that by (metis div_times_less_eq_dividend le_trans mult_le_mono1)
    finally show ?thesis by simp
  next
    case False
    then have "?d = 1" using that(2) by simp
    moreover have "rowBytes * (?h - 1) + ?w < 2 ^ 64" using last by (metis wrap64_def mod_less_divisor zero_less_numeral zero_less_power)
    ultimately show ?thesis by simp
  qed
  have a: "width s mod blockWidth b = 0" "height s mod blockHeight b = 0" "?d \<le> 1 \<or> (rowBytes \<noteq> kCopyStrideUndefined \<and> rows \<noteq> kCopyStrideUndefined)"
    "?h \<le> 1 \<or> rowBytes \<noteq> kCopyStrideUndefined" using w r by (auto simp: whole_blocks_def roomy_def)
  have "ComputeRequiredBytesInCopy b s rowBytes rows =
    (if ?d = 0 then ok 0 else if rowBytes * rows > (2 ^ 64 - 1) div ?d then validation_error ''number of bytes per image exceeds the maximum''
     else ok (wrap64 (wrap64 (rowBytes * rows * (?d - 1)) + (if 0 < ?h then rowBytes * (?h - 1) + ?w else 0))))"
    using a by (simp add: ComputeRequiredBytesInCopy_def Let_def image wb(2) last del: One_nat_def) (simp add: wrap64_def)
  also have "\<dots> = (if ?d = 0 then ok 0 else if rowBytes * rows > (2 ^ 64 - 1) div ?d
      then validation_error ''number of bytes per image exceeds the maximum'' else ok (required rowBytes rows b s))"
  proof (intro if_cong refl)
    assume "\<not> ?d = 0" "\<not> rowBytes * rows > (2 ^ 64 - 1) div ?d"
    then have s: "rowBytes * rows * (?d - 1) + (if 0 < ?h then rowBytes * (?h - 1) + ?w else 0) < 2 ^ 64" using sum by auto
    then have "wrap64 (rowBytes * rows * (?d - 1)) = rowBytes * rows * (?d - 1)" by (intro wrap64_id) auto
    then show "ok (wrap64 (wrap64 (rowBytes * rows * (?d - 1)) + (if 0 < ?h then rowBytes * (?h - 1) + ?w else 0))) = ok (required rowBytes rows b s)"
      using \<open>\<not> ?d = 0\<close> wrap64_id [OF s] by (simp only: required_def if_False)
  qed
  finally have eq: "ComputeRequiredBytesInCopy b s rowBytes rows = \<dots>" .
  show "ComputeRequiredBytesInCopy b s rowBytes rows \<noteq> undef"
    "ComputeRequiredBytesInCopy b s rowBytes rows = ok n \<Longrightarrow> n = required rowBytes rows b s \<and> n < 2 ^ 64"
    unfolding eq using sum by (auto simp: required_def split: if_splits)
qed

lemma ValidateLinear_cases:
  assumes w: "whole_blocks b s" and t: "layout_typed lay" "extent_typed s"
  shows "ValidateLinearTextureData lay n b s \<noteq> undef"
    "ValidateLinearTextureData lay n b s = ok () \<Longrightarrow>
       roomy (bytesPerRow lay) (rowsPerImage lay) b s \<and> offset lay + required (bytesPerRow lay) (rowsPerImage lay) b s \<le> n"
proof -
  let ?h = "height s div blockHeight b" and ?w = "width s div blockWidth b * byteSize b" and ?d = "depthOrArrayLayers s"
  let ?B = "bytesPerRow lay" and ?R = "rowsPerImage lay"
  let ?bad = "?d > 1 \<and> (?B = kCopyStrideUndefined \<or> ?R = kCopyStrideUndefined) \<or> ?h > 1 \<and> ?B = kCopyStrideUndefined \<or>
    ?B \<noteq> kCopyStrideUndefined \<and> ?w > ?B \<or> ?R \<noteq> kCopyStrideUndefined \<and> ?h > ?R"
  have u: "u32 ?w = ?w" "Safe32x32 (width s div blockWidth b) (byteSize b) = ?w" "?w \<le> 2 ^ 32 - 1"
    using w by (auto simp: whole_blocks_def u32_def Safe32x32_def wrap64_def)
  have r: "roomy ?B ?R b s" if "\<not> ?bad" using that by (auto simp: roomy_def)
  have v: "ValidateLinearTextureData lay n b s = bindR (ComputeRequiredBytesInCopy b s ?B ?R) (\<lambda>k.
      if \<not> (offset lay \<le> n \<and> k \<le> n - offset lay)
      then validation_error ''required size for texture data layout exceeds the linear data size'' else ok ())" if "\<not> ?bad"
    using that w u by (simp add: ValidateLinearTextureData_def Let_def whole_blocks_def) blast
  have bad: "\<exists>m. ValidateLinearTextureData lay n b s = validation_error m" if "?bad"
    using that w u unfolding ValidateLinearTextureData_def Let_def whole_blocks_def by auto
  have bt: "?B < 2 ^ 32" "?R < 2 ^ 32" using t(1) by (auto simp: layout_typed_def)
  note c = ComputeRequiredBytes_eq [OF w bt t(2)]
  show "ValidateLinearTextureData lay n b s \<noteq> undef"
  proof (cases ?bad)
    case False
    then show ?thesis unfolding v [OF False] using c(1) [OF r [OF False]] by (auto simp: bindR_Inl_iff)
  qed (use bad in auto)
  show "roomy ?B ?R b s \<and> offset lay + required ?B ?R b s \<le> n" if accepted: "ValidateLinearTextureData lay n b s = ok ()"
  proof (cases ?bad)
    case False
    obtain k where "ComputeRequiredBytesInCopy b s ?B ?R = ok k" "offset lay \<le> n" "k \<le> n - offset lay"
      using accepted unfolding v [OF False] by (auto simp: res_iff)
    then show ?thesis using c(2) [OF r [OF False]] r [OF False] by auto
  qed (use bad accepted in auto)
qed

section \<open>The layout that is recorded\<close>

lemma Align_u32_ok:
  assumes "k < 32" "unat v + (2 ^ k - 1) < 2 ^ 32"
  shows "\<exists>r. Align_u32 v (2 ^ k) = ok r \<and> 2 ^ k dvd unat r \<and> unat v \<le> unat r \<and> unat r < unat v + 2 ^ k"
proof -
  have a: "unat (2 ^ k :: 64 word) = 2 ^ k" "(2 ^ k :: 64 word) \<noteq> 0" "unat (2 ^ k :: 32 word) = 2 ^ k" "(2 ^ k :: 32 word) \<noteq> 0"
    using pow2_word [of k, where 'w = 64] pow2_word [of k, where 'w = 32] assms(1) by simp_all
  have c: "(ucast (2 ^ k :: 64 word) :: 32 word) = 2 ^ k"
    using a assms(1) by (simp add: word_unat_eq_iff unsigned_ucast_eq take_bit_nat_eq_self)
  have um: "unat (mask k :: 64 word) = 2 ^ k - 1" "unat (mask k :: 32 word) = 2 ^ k - 1"
    using a unat_minus_one [of "2 ^ k :: 64 word"] unat_minus_one [of "2 ^ k :: 32 word"] by (simp_all add: mask_eq_exp_minus_1)
  have "unat (0xFFFFFFFF - mask k :: 64 word) = 2 ^ 32 - 1 - (2 ^ k - 1)"
    using um(1) assms(2) by (subst unat_sub) (simp_all add: word_le_nat_alt)
  moreover have "unat v < 2 ^ 64" by (rule order.strict_trans2 [OF unsigned_less]) simp
  then have "unat (ucast v :: 64 word) = unat v" by (simp add: unsigned_ucast_eq take_bit_nat_eq_self)
  ultimately have "(ucast v :: 64 word) \<le> 0xFFFFFFFF - mask k" using assms(2) by (simp add: word_le_nat_alt)
  moreover have "assert_pow2 (2 ^ k) = ok ()" using a assms(1) by (auto simp: assert_pow2_def IsPowerOfTwo_iff intro!: exI [of _ k])
  ultimately have "Align_u32 v (2 ^ k) = ok ((v + mask k) AND NOT (mask k))" by (simp add: Align_u32_def c mask_eq_exp_minus_1 Let_def)
  moreover have "unat (v + mask k) = unat v + (2 ^ k - 1)" using assms(2) um(2) by (subst unat_add_lem [THEN iffD1]) simp_all
  then have "unat ((v + mask k) AND NOT (mask k)) = (unat v + (2 ^ k - 1)) div 2 ^ k * 2 ^ k" by (simp add: unat_and_not_mask)
  moreover note round_up_bounds [of "2 ^ k" "unat v"]
  ultimately show ?thesis by (auto intro!: exI)
qed

definition roomy_layout :: "data_layout \<Rightarrow> texel_block_info \<Rightarrow> extent3d \<Rightarrow> bool" where
  "roomy_layout lay b s \<longleftrightarrow> width s div blockWidth b * byteSize b \<le> bytesPerRow lay \<and> height s div blockHeight b \<le> rowsPerImage lay"

lemma of_nat_small: "n < 2 ^ 32 \<Longrightarrow> unat (of_nat n :: 32 word) = n"
  by (simp add: unat_of_nat take_bit_nat_eq_self)

text \<open>The rows of a copy are short of the limit of their type by the alignment.\<close>

lemma ApplyDefaults_ok:
  assumes w: "whole_blocks b s" "width s div blockWidth b * byteSize b + 255 < 2 ^ 32" and r: "roomy (bytesPerRow lay) (rowsPerImage lay) b s"
  shows "\<exists>lay'. ApplyDefaultTextureDataLayoutOptions lay b s = ok lay' \<and> offset lay' = offset lay \<and> roomy_layout lay' b s \<and>
    (bytesPerRow lay \<noteq> kCopyStrideUndefined \<longrightarrow> bytesPerRow lay' = bytesPerRow lay) \<and>
    (rowsPerImage lay \<noteq> kCopyStrideUndefined \<longrightarrow> rowsPerImage lay' = rowsPerImage lay)"
proof -
  let ?w = "width s div blockWidth b * byteSize b" and ?h = "height s div blockHeight b"
  have u: "u32 ?w = ?w" using w(2) by (simp add: u32_def)
  have un: "unat (of_nat ?w :: 32 word) = ?w" using w(2) by (intro of_nat_small) simp
  then have "unat (of_nat ?w :: 32 word) + (2 ^ 8 - 1) < 2 ^ 32" using w(2) by (simp del: of_nat_mult)
  from Align_u32_ok [OF _ this] obtain a where a: "Align_u32 (of_nat ?w) 256 = ok a" and aw: "?w \<le> unat a"
    unfolding un by (auto simp del: of_nat_mult)
  have k: "of_nat kTextureBytesPerRowAlignment = (256 :: 64 word)" by (simp add: kTextureBytesPerRowAlignment_def)
  define l1 where "l1 = (if bytesPerRow lay = kCopyStrideUndefined then lay\<lparr> bytesPerRow := unat a \<rparr> else lay)"
  define l2 where "l2 = (if rowsPerImage lay = kCopyStrideUndefined then l1\<lparr> rowsPerImage := ?h \<rparr> else l1)"
  have "ApplyDefaultTextureDataLayoutOptions lay b s = ok l2"
    using w(1) r a u k by (auto simp del: of_nat_mult simp: ApplyDefaultTextureDataLayoutOptions_def Let_def whole_blocks_def roomy_def l1_def l2_def)
  moreover have "offset l2 = offset lay" "roomy_layout l2 b s" "bytesPerRow lay \<noteq> kCopyStrideUndefined \<longrightarrow> bytesPerRow l2 = bytesPerRow lay"
    "rowsPerImage lay \<noteq> kCopyStrideUndefined \<longrightarrow> rowsPerImage l2 = rowsPerImage lay"
    using r aw by (auto simp: l1_def l2_def roomy_def roomy_layout_def)
  ultimately show ?thesis by blast
qed

lemma block_before:
  assumes r: "roomy_layout lay b s" and c: "(z, y, x) \<in> blocks b s" "(z', y', x') \<in> blocks b s" and lt: "(z, y, x) < (z', y', x')"
  shows "block_at lay (byteSize b) (z, y, x) + byteSize b \<le> block_at lay (byteSize b) (z', y', x')"
proof -
  let ?B = "bytesPerRow lay" and ?R = "rowsPerImage lay" and ?n = "byteSize b"
  have x: "x * ?n + ?n \<le> ?B"
  proof -
    have "Suc x * ?n \<le> width s div blockWidth b * ?n" using c(1) by (intro mult_le_mono1) (auto simp: blocks_def)
    then show ?thesis using r by (auto simp: roomy_layout_def)
  qed
  have y: "y < ?R" using c(1) r by (auto simp: blocks_def roomy_layout_def)
  show ?thesis
  proof (cases "z = z' \<and> y = y'")
    case True
    then have "Suc x * ?n \<le> x' * ?n" using lt by (intro mult_le_mono1) auto
    then show ?thesis using True by (simp add: block_at_def)
  next
    case False
    have "z * ?R + y < z' * ?R + y'"
    proof (cases "z = z'")
      case True
      then show ?thesis using lt False by auto
    next
      case zs: False
      then have "Suc z * ?R \<le> z' * ?R" using lt by (intro mult_le_mono1) auto
      then show ?thesis using y by simp
    qed
    then have "Suc (z * ?R + y) * ?B \<le> (z' * ?R + y') * ?B" by (intro mult_le_mono1) auto
    then have "(z * ?R + y) * ?B + (x * ?n + ?n) \<le> (z' * ?R + y') * ?B" using x by simp
    then show ?thesis by (simp add: block_at_def)
  qed
qed

lemma blocks_disjointI:
  assumes "roomy_layout lay b s"
  shows "blocks_disjoint lay b s"
proof -
  have "block_at lay (byteSize b) c + byteSize b \<le> block_at lay (byteSize b) c' \<or> block_at lay (byteSize b) c' + byteSize b \<le> block_at lay (byteSize b) c"
    if "c \<in> blocks b s" "c' \<in> blocks b s" "c \<noteq> c'" for c c'
    using block_before [OF assms] that by (cases c; cases c'; cases "c < c'") (auto simp: not_less_iff_gr_or_eq)
  then show ?thesis by (simp add: blocks_disjoint_def)
qed

section \<open>The texture side\<close>

text \<open>What the device guarantees of the textures it creates; \<open>dawn_native/Limits.cpp\<close> stays far
  below the bound on the width.\<close>

definition copy_texture_ok :: "device_info \<Rightarrow> texture \<Rightarrow> bool" where
  "copy_texture_ok dev t \<longleftrightarrow> texture_ok dev t \<and> (mSampleCount t > 1 \<longrightarrow> mDimension t = Dim2D) \<and> width (mTextureSize t) \<le> 2 ^ 16 \<and> height (mTextureSize t) \<le> 2 ^ 16 \<and>
     (IsMultiPlanar (mFormat t) \<longrightarrow> mTextureUsage t AND Tex_CopyDst = 0)"

definition origin_typed :: "origin3d \<Rightarrow> bool" where
  "origin_typed p \<longleftrightarrow> ox p < 2 ^ 32 \<and> oy p < 2 ^ 32 \<and> oz p < 2 ^ 32"

text \<open>The extent of a subresource of the texture, with the layers of an array as its depth.\<close>

definition subresource_extent :: "texture \<Rightarrow> nat \<Rightarrow> extent3d \<Rightarrow> bool" where
  "subresource_extent t level e \<longleftrightarrow> (\<exists>mip. GetMipLevelPhysicalSize t level = ok mip \<and>
     e = (if mDimension t = Dim3D then mip else mip\<lparr> depthOrArrayLayers := layers_of t \<rparr>))"

definition texels_inside :: "origin3d \<Rightarrow> extent3d \<Rightarrow> extent3d \<Rightarrow> bool" where
  "texels_inside p s e \<longleftrightarrow> ox p + width s \<le> width e \<and> oy p + height s \<le> height e \<and> oz p + depthOrArrayLayers s \<le> depthOrArrayLayers e"

lemma round_up_block_le:
  assumes "0 < b" "n + b - 1 < 2 ^ 32"
  shows "round_up_block n b \<le> n + b"
proof -
  have "(n + (b - 1)) div b * b < n + b" by (rule round_up_bounds [OF assms(1)])
  moreover have "u32 (n + b - 1) = n + (b - 1)" using assms by (simp add: u32_def)
  ultimately show ?thesis by (simp add: round_up_block_def)
qed

lemma texture_formatD:
  assumes "texture_ok dev t"
  shows "format_ok (dev_features dev) (mFormat t)" "isSupported (mFormat t)" "\<not> texture_error t" "mDimension t \<noteq> Dim1D"
    "mDimension t = Dim3D \<Longrightarrow> \<not> HasDepthOrStencil (mFormat t)" "mTextureMipLevelCount t \<le> 32" "0 < width (mTextureSize t)"
    "width (mTextureSize t) \<le> 2 ^ 31" "height (mTextureSize t) \<le> 2 ^ 31"
  using assms by (auto simp: texture_ok_def)

text \<open>Rounding up to the texel block adds less than a block.\<close>

definition extent_bounded :: "texture \<Rightarrow> extent3d \<Rightarrow> bool" where
  "extent_bounded t e \<longleftrightarrow> width e \<le> width (mTextureSize t) + 12 \<and> height e \<le> height (mTextureSize t) + 12 \<and> depthOrArrayLayers e \<le> 65535"

lemma mip_bounds:
  assumes "0 < n" "n \<le> 2 ^ 31" "0 < b" "b \<le> 12"
  shows "max (n div 2 ^ level) 1 \<le> n" "round_up_block (max (n div 2 ^ level) 1) b \<le> n + 12"
proof -
  let ?v = "max (n div 2 ^ level) 1"
  show v: "?v \<le> n" using assms(1) by (simp add: div_le_dividend)
  then have "?v \<le> 2 ^ 31" using assms(2) by (rule le_trans)
  moreover have "v + b - 1 < 2 ^ 32" if "v \<le> 2 ^ 31" for v :: nat using that assms(4) by simp
  ultimately have "?v + b - 1 < 2 ^ 32" by blast
  then have "round_up_block ?v b \<le> ?v + b" using assms(3) by (intro round_up_block_le)
  also have "\<dots> \<le> n + 12" by (rule add_mono [OF v assms(4)])
  finally show "round_up_block ?v b \<le> n + 12" .
qed

lemma PhysicalSize_ok:
  assumes t: "texture_ok dev t" and l: "level < mTextureMipLevelCount t"
  shows "\<exists>mip. GetMipLevelPhysicalSize t level = ok mip \<and> extent_bounded t mip"
proof -
  note f = texture_formatD [OF t]
  have l32: "level < 32" using l f(6) by simp
  have size: "0 < width (mTextureSize t)" "width (mTextureSize t) \<le> 2 ^ 31" "0 < height (mTextureSize t)" "height (mTextureSize t) \<le> 2 ^ 31"
    "0 < depthOrArrayLayers (mTextureSize t)" "depthOrArrayLayers (mTextureSize t) \<le> 65535" using t by (auto simp: texture_ok_def)
  have d: "max (depthOrArrayLayers (mTextureSize t) div 2 ^ level) 1 \<le> 65535" using size(5,6) le_trans [OF div_le_dividend] by simp
  show ?thesis
  proof (cases "isCompressed (mFormat t) \<and> level \<noteq> 0")
    case True
    then obtain info where i: "GetAspectInfo_of (mFormat t) TextureAspect_All = ok info" "block_ok (block info)"
      using compressed_info [OF f(1,2)] by blast
    then have "0 < blockWidth (block info)" "blockWidth (block info) \<le> 12" "0 < blockHeight (block info)" "blockHeight (block info) \<le> 12"
      by (auto simp: block_ok_def)
    then show ?thesis using True i l32 d mip_bounds(2) [OF size(1,2), of _ level] mip_bounds(2) [OF size(3,4), of _ level] f(4)
      by (auto simp: GetMipLevelPhysicalSize_def GetMipLevelVirtualSize_def Let_def extent_bounded_def)
  next
    case False
    have "max (width (mTextureSize t) div 2 ^ level) 1 \<le> width (mTextureSize t) + 12" "max (height (mTextureSize t) div 2 ^ level) 1 \<le> height (mTextureSize t) + 12"
      using trans_le_add1 [OF mip_bounds(1) [OF size(1,2), of 1 level]] trans_le_add1 [OF mip_bounds(1) [OF size(3,4), of 1 level]] by simp_all
    with False show ?thesis using l32 d f(4)
      by (auto simp: GetMipLevelPhysicalSize_def GetMipLevelVirtualSize_def Let_def extent_bounded_def)
  qed
qed

lemma undef_bind: "bindR r f = undef \<longleftrightarrow> r = undef \<or> (\<exists>x. r = ok x \<and> f x = undef)"
  by (rule bindR_Inl_iff)

lemma undef_guard: "(if c then validation_error m else r) = undef \<longleftrightarrow> \<not> c \<and> r = undef"
  by simp

lemma undef_assert: "assertR c = undef \<longleftrightarrow> \<not> c"
  by (simp add: assertR_def)

lemmas undef_iff = undef_bind undef_guard undef_assert

definition selected :: "texture \<Rightarrow> texture_aspect \<Rightarrow> bool" where
  "selected t a \<longleftrightarrow> SelectFormatAspects (format_aspects (mFormat t)) a \<noteq> Aspect_None"

lemma ImageCopyTexture_cases:
  assumes t: "copy_texture_ok dev (texs obs (it_texture ct))"
  shows "ValidateImageCopyTexture obs ct s \<noteq> undef"
    "ValidateImageCopyTexture obs ct s = ok () \<Longrightarrow>
       it_mipLevel ct < mTextureMipLevelCount (texs obs (it_texture ct)) \<and> selected (texs obs (it_texture ct)) (it_aspect ct)"
proof -
  let ?t = "texs obs (it_texture ct)"
  have ok: "texture_ok dev ?t" using t by (simp add: copy_texture_ok_def)
  have d2: "mDimension ?t = Dim2D" if "mSampleCount ?t > 1 \<or> HasDepthOrStencil (mFormat ?t)"
    using that t texture_formatD(4,5) [OF ok] by (cases "mDimension ?t") (auto simp: copy_texture_ok_def)
  show "ValidateImageCopyTexture obs ct s \<noteq> undef"
    using PhysicalSize_ok [OF ok, of "it_mipLevel ct"] d2 GetNumMipLevels_ok [OF ok] texture_formatD(3) [OF ok]
    by (auto simp: ValidateImageCopyTexture_def Let_def ValidateObject_def undef_iff)
  show "it_mipLevel ct < mTextureMipLevelCount ?t \<and> selected ?t (it_aspect ct)" if "ValidateImageCopyTexture obs ct s = ok ()"
    using that GetNumMipLevels_ok [OF ok] by (auto simp: ValidateImageCopyTexture_def Let_def res_iff selected_def)
qed

lemma compressed_all:
  assumes "format_ok fs f" "isCompressed f" "SelectFormatAspects (format_aspects f) a \<noteq> Aspect_None"
  shows "a = TextureAspect_All"
proof -
  have "format_aspects f = Aspect_Color" using assms(1,2) by (simp add: format_ok_def)
  then show ?thesis using assms(3) by (cases a) (simp_all add: SelectFormatAspects_def aspect_defs)
qed

lemma TextureCopyRange_cases:
  assumes t: "texture_ok dev (texs obs (it_texture ct))" and m: "it_mipLevel ct < mTextureMipLevelCount (texs obs (it_texture ct))"
    and a: "selected (texs obs (it_texture ct)) (it_aspect ct)" and ty: "origin_typed (it_origin ct)" "extent_typed s"
  shows "ValidateTextureCopyRange obs ct s \<noteq> undef"
    "ValidateTextureCopyRange obs ct s = ok () \<Longrightarrow>
      (\<exists>e. subresource_extent (texs obs (it_texture ct)) (it_mipLevel ct) e \<and> extent_bounded (texs obs (it_texture ct)) e \<and>
        texels_inside (it_origin ct) s e)"
    "ValidateTextureCopyRange obs ct s = ok () \<Longrightarrow> GetAspectInfo_of (mFormat (texs obs (it_texture ct))) (it_aspect ct) = ok info \<Longrightarrow>
      info \<in> set (aspectInfo (mFormat (texs obs (it_texture ct)))) \<Longrightarrow>
      width s mod blockWidth (block info) = 0 \<and> height s mod blockHeight (block info) = 0"
proof -
  let ?t = "texs obs (it_texture ct)" and ?o = "it_origin ct"
  note f = texture_formatD [OF t]
  obtain mip where mip: "GetMipLevelPhysicalSize ?t (it_mipLevel ct) = ok mip" "extent_bounded ?t mip"
    using PhysicalSize_ok [OF t m] by blast
  have w: "wrap64 (ox ?o + width s) = ox ?o + width s" "wrap64 (oy ?o + height s) = oy ?o + height s"
    "wrap64 (oz ?o + depthOrArrayLayers s) = oz ?o + depthOrArrayLayers s"
    using ty by (auto simp: wrap64_def origin_typed_def extent_typed_def)
  define e where "e = (if mDimension ?t = Dim3D then mip else mip\<lparr> depthOrArrayLayers := layers_of ?t \<rparr>)"
  have e: "subresource_extent ?t (it_mipLevel ct) e" "extent_bounded ?t e"
    using mip layers_bound [OF t] by (auto simp: e_def subresource_extent_def extent_bounded_def)
  have all: "it_aspect ct = TextureAspect_All" if "isCompressed (mFormat ?t)"
    using compressed_all [OF f(1) that] a by (simp add: selected_def)
  have r: "ValidateTextureCopyRange obs ct s =
      (if \<not> texels_inside ?o s e then validation_error ''texture copy range touches outside of the mip level''
       else if isCompressed (mFormat ?t) then
          bindR (GetAspectInfo_of (mFormat ?t) (it_aspect ct)) (\<lambda>info.
            if ox ?o mod blockWidth (block info) \<noteq> 0 then validation_error ''origin.x is not a multiple of the block width''
            else if oy ?o mod blockHeight (block info) \<noteq> 0 then validation_error ''origin.y is not a multiple of the block height''
            else if width s mod blockWidth (block info) \<noteq> 0 then validation_error ''width is not a multiple of the block width''
            else if height s mod blockHeight (block info) \<noteq> 0 then validation_error ''height is not a multiple of the block height''
            else ok ())
        else ok ())"
    using f(4) mip(1) GetArrayLayers_ok [OF t]
    by (cases "mDimension ?t = Dim3D") (auto simp: ValidateTextureCopyRange_def Let_def w e_def texels_inside_def not_le)
  show "ValidateTextureCopyRange obs ct s \<noteq> undef"
    unfolding r using compressed_info [OF f(1,2)] all by (auto simp: undef_iff)
  show "\<exists>e. subresource_extent ?t (it_mipLevel ct) e \<and> extent_bounded ?t e \<and> texels_inside ?o s e"
    if "ValidateTextureCopyRange obs ct s = ok ()" using that e unfolding r by (auto split: if_splits)
  show "width s mod blockWidth (block info) = 0 \<and> height s mod blockHeight (block info) = 0"
    if "ValidateTextureCopyRange obs ct s = ok ()" "GetAspectInfo_of (mFormat ?t) (it_aspect ct) = ok info" "info \<in> set (aspectInfo (mFormat ?t))"
  proof (cases "isCompressed (mFormat ?t)")
    case True
    then show ?thesis using that unfolding r by (auto split: if_splits)
  next
    case False
    then show ?thesis using format_okD(7) [OF f(1) that(3)] by (simp add: unit_block_def)
  qed
qed

abbreviation plane_aspect :: "texture_aspect \<Rightarrow> bool" where
  "plane_aspect a \<equiv> a = Plane0Only \<or> a = Plane1Only"

lemma one_bit_mask: "HasOneBit (format_kind k) \<Longrightarrow> format_kind k \<in> set (IterateEnumMask (format_kind k))"
  using format_kind_cases [of k] HasOneBit_eval
  by (auto simp: format_kind_def IterateEnumMask_def upt6 aspect_defs bit_Suc_0_iff split: if_splits)

lemma SingleAspect_cases:
  assumes t: "texture_ok dev (texs obs (it_texture ct))" and a: "selected (texs obs (it_texture ct)) (it_aspect ct)"
  shows "\<not> plane_aspect (it_aspect ct) \<Longrightarrow> SingleAspectUsedByImageCopyTexture obs ct \<noteq> undef"
    "SingleAspectUsedByImageCopyTexture obs ct = ok used \<Longrightarrow>
       \<not> plane_aspect (it_aspect ct) \<and> used = SelectFormatAspects (format_aspects (mFormat (texs obs (it_texture ct)))) (it_aspect ct) \<and>
       (\<exists>info \<in> set (aspectInfo (mFormat (texs obs (it_texture ct)))). GetAspectInfo_of (mFormat (texs obs (it_texture ct))) (it_aspect ct) = ok info)"
proof -
  let ?t = "texs obs (it_texture ct)"
  let ?f = "mFormat ?t"
  note f = texture_formatD [OF t]
  have k: "format_aspects ?f = format_kind (format_id ?f)" using f(1) by (simp add: format_ok_def)
  show "SingleAspectUsedByImageCopyTexture obs ct \<noteq> undef" if "\<not> plane_aspect (it_aspect ct)"
    using that a by (cases "it_aspect ct") (auto simp: SingleAspectUsedByImageCopyTexture_def Let_def selected_def SelectFormatAspects_def undef_iff Aspect_None_def)
  assume used: "SingleAspectUsedByImageCopyTexture obs ct = ok used"
  show "\<not> plane_aspect (it_aspect ct) \<and> used = SelectFormatAspects (format_aspects ?f) (it_aspect ct) \<and>
       (\<exists>info \<in> set (aspectInfo ?f). GetAspectInfo_of ?f (it_aspect ct) = ok info)"
  proof (cases "it_aspect ct = TextureAspect_All")
    case True
    then have "HasOneBit (format_aspects ?f)" "used = format_aspects ?f"
      using used by (auto simp: SingleAspectUsedByImageCopyTexture_def Let_def split: if_splits)
    then show ?thesis using True GetAspectInfo_ok [OF f(1,2)] one_bit_mask k by (auto simp: GetAspectInfo_of_def SelectFormatAspects_def)
  next
    case False
    note s = SelectFormatAspects_single [OF False a [unfolded selected_def]]
    have "\<not> plane_aspect (it_aspect ct)" "used = named_aspect (it_aspect ct)"
      using used False by (cases "it_aspect ct"; auto simp: SingleAspectUsedByImageCopyTexture_def Let_def res_iff)+
    then show ?thesis using texture_aspect_info [OF t False a [unfolded selected_def]] s(1) by auto
  qed
qed

lemma DepthToBuffer_defined:
  assumes t: "texture_ok dev (texs obs (it_texture ct))" and a: "selected (texs obs (it_texture ct)) (it_aspect ct)" "\<not> plane_aspect (it_aspect ct)"
  shows "ValidateTextureDepthStencilToBufferCopyRestrictions obs ct \<noteq> undef"
proof -
  let ?f = "mFormat (texs obs (it_texture ct))"
  have k: "format_aspects ?f = format_kind (format_id ?f)" using texture_formatD(1) [OF t] by (simp add: format_ok_def)
  have "format_id ?f \<in> {Depth24Plus, Depth24PlusStencil8, Depth24UnormStencil8, Depth32Float, Depth16Unorm, Depth32FloatStencil8}"
    if "SelectFormatAspects (format_aspects ?f) (it_aspect ct) = Aspect_Depth"
    using that unfolding k by (cases "it_aspect ct") (auto simp: SelectFormatAspects_def format_kind_def aspect_defs split: if_splits)
  then show ?thesis using SingleAspect_cases [OF t a(1)] a(2)
    by (auto simp: ValidateTextureDepthStencilToBufferCopyRestrictions_def Let_def undef_bind)
qed

lemma texture_side_ok: "selected (texs obs (it_texture ct)) (it_aspect ct) \<Longrightarrow>
    texture_side obs ct = ok \<lparr> tc_texture = it_texture ct, tc_mipLevel = it_mipLevel ct, tc_origin = it_origin ct,
      tc_aspect = SelectFormatAspects (format_aspects (mFormat (texs obs (it_texture ct)))) (it_aspect ct) \<rparr>"
  by (simp add: texture_side_def ConvertAspect_def Let_def selected_def)

section \<open>Both sides\<close>

text \<open>What the backend may rely on when it runs a recorded copy between a buffer and a texture.\<close>

definition linear_copy_safe :: "objects \<Rightarrow> image_copy_texture \<Rightarrow> buffer_copy \<Rightarrow> texture_copy \<Rightarrow> extent3d \<Rightarrow> bool" where
  "linear_copy_safe obs ct bc tc s \<longleftrightarrow>
     (let t = texs obs (it_texture ct); lay = \<lparr> offset = bc_offset bc, bytesPerRow = bc_bytesPerRow bc, rowsPerImage = bc_rowsPerImage bc \<rparr>
      in tc_texture tc = it_texture ct \<and> tc_mipLevel tc = it_mipLevel ct \<and> tc_origin tc = it_origin ct \<and>
         (\<exists>info e. GetAspectInfo_of (mFormat t) (it_aspect ct) = ok info \<and>
            blocks_inside lay (block info) s (mSize (bufs obs (bc_buffer bc))) \<and> blocks_disjoint lay (block info) s \<and>
            subresource_extent t (it_mipLevel ct) e \<and> texels_inside (it_origin ct) s e))"

lemma blocks_insideI:
  assumes lay: "offset lay' = offset lay" "roomy_layout lay' b s" and r: "roomy (bytesPerRow lay) (rowsPerImage lay) b s"
    and same: "bytesPerRow lay \<noteq> kCopyStrideUndefined \<longrightarrow> bytesPerRow lay' = bytesPerRow lay"
      "rowsPerImage lay \<noteq> kCopyStrideUndefined \<longrightarrow> rowsPerImage lay' = rowsPerImage lay"
    and fits: "offset lay + required (bytesPerRow lay) (rowsPerImage lay) b s \<le> n"
  shows "blocks_inside lay' b s n"
  unfolding blocks_inside_def
proof
  fix c assume "c \<in> blocks b s"
  then obtain z y x where c: "c = (z, y, x)" "z < depthOrArrayLayers s" "y < height s div blockHeight b" "x < width s div blockWidth b"
    by (auto simp: blocks_def)
  let ?B = "bytesPerRow lay" and ?R = "rowsPerImage lay" and ?h = "height s div blockHeight b" and ?w = "width s div blockWidth b * byteSize b"
  have x: "x * byteSize b + byteSize b \<le> ?w"
    using mult_le_mono1 [of "Suc x" "width s div blockWidth b" "byteSize b"] c(4) by simp
  have row: "(z * rowsPerImage lay' + y) * bytesPerRow lay' \<le> ?B * ?R * (depthOrArrayLayers s - 1) + ?B * (?h - 1)"
  proof (cases "?B = kCopyStrideUndefined")
    case True
    then have "z = 0" "y = 0" using r c by (auto simp: roomy_def)
    then show ?thesis by simp
  next
    case False
    have zR: "z * rowsPerImage lay' \<le> (depthOrArrayLayers s - 1) * ?R"
    proof (cases "?R = kCopyStrideUndefined")
      case True
      then have "z = 0" using r c by (auto simp: roomy_def)
      then show ?thesis by simp
    next
      case R: False
      then show ?thesis using same(2) c(2) by (auto intro: mult_le_mono1)
    qed
    have "(z * rowsPerImage lay' + y) * ?B \<le> ((depthOrArrayLayers s - 1) * ?R + (?h - 1)) * ?B"
      using zR c(3) by (intro mult_le_mono1 add_mono) auto
    then show ?thesis using False same(1) by (simp add: algebra_simps)
  qed
  have "required ?B ?R b s = ?B * ?R * (depthOrArrayLayers s - 1) + (?B * (?h - 1) + ?w)" using c by (simp add: required_def)
  then show "block_at lay' (byteSize b) c + byteSize b \<le> n" using row x fits lay(1) by (simp add: block_at_def c(1))
qed

lemma layout_eta: "\<lparr> offset = offset lay, bytesPerRow = bytesPerRow lay, rowsPerImage = rowsPerImage lay \<rparr> = (lay :: data_layout)"
  by simp

text \<open>The texel block of an accepted copy, the blocks of which are whole and its rows short.\<close>

lemma linear_info:
  assumes t: "copy_texture_ok dev (texs obs (it_texture ct))" and ty: "origin_typed (it_origin ct)" "extent_typed s"
    and img: "ValidateImageCopyTexture obs ct s = ok ()" and one: "SingleAspectUsedByImageCopyTexture obs ct = ok used"
    and range: "ValidateTextureCopyRange obs ct s = ok ()"
  shows "\<exists>info e. GetAspectInfo_of (mFormat (texs obs (it_texture ct))) (it_aspect ct) = ok info \<and> block_ok (block info) \<and> whole_blocks (block info) s \<and>
    width s div blockWidth (block info) * byteSize (block info) \<le> 2 ^ 21 \<and> height s \<le> 2 ^ 17 \<and> depthOrArrayLayers s \<le> 2 ^ 16 \<and>
    subresource_extent (texs obs (it_texture ct)) (it_mipLevel ct) e \<and> texels_inside (it_origin ct) s e"
proof -
  let ?t = "texs obs (it_texture ct)"
  have ok: "texture_ok dev ?t" and size: "width (mTextureSize ?t) \<le> 2 ^ 16" "height (mTextureSize ?t) \<le> 2 ^ 16" using t by (auto simp: copy_texture_ok_def)
  have ms: "it_mipLevel ct < mTextureMipLevelCount ?t" "selected ?t (it_aspect ct)" using ImageCopyTexture_cases(2) [OF t img] by auto
  obtain info where i: "info \<in> set (aspectInfo (mFormat ?t))" "GetAspectInfo_of (mFormat ?t) (it_aspect ct) = ok info"
    using SingleAspect_cases(2) [OF ok ms(2) one] by blast
  obtain e where e: "subresource_extent ?t (it_mipLevel ct) e" "extent_bounded ?t e" "texels_inside (it_origin ct) s e"
    using TextureCopyRange_cases(2) [OF ok ms ty range] by blast
  have b: "block_ok (block info)" using format_okD(3) [OF texture_formatD(1) [OF ok] i(1)] .
  have hd: "width s \<le> 2 ^ 17" "height s \<le> 2 ^ 17" "depthOrArrayLayers s \<le> 2 ^ 16" using e(2,3) size by (auto simp: texels_inside_def extent_bounded_def)
  have "width s div blockWidth (block info) * byteSize (block info) \<le> 2 ^ 17 * 16"
    using hd(1) b by (intro mult_le_mono) (auto simp: block_ok_def intro: le_trans [OF div_le_dividend])
  then have small: "width s div blockWidth (block info) * byteSize (block info) \<le> 2 ^ 21" by simp
  then have "whole_blocks (block info) s" using TextureCopyRange_cases(3) [OF ok ms ty range i(2,1)] by (simp add: whole_blocks_def)
  then show ?thesis using i(2) b small hd(2,3) e by blast
qed

lemma linear_copy:
  assumes t: "copy_texture_ok dev (texs obs (it_texture ct))" and ty: "origin_typed (it_origin ct)" "extent_typed s" "layout_typed lay"
    and img: "ValidateImageCopyTexture obs ct s = ok ()" and one: "SingleAspectUsedByImageCopyTexture obs ct = ok used"
    and range: "ValidateTextureCopyRange obs ct s = ok ()"
  shows "\<exists>info. GetAspectInfo_of (mFormat (texs obs (it_texture ct))) (it_aspect ct) = ok info \<and> block_ok (block info) \<and>
    ValidateLinearTextureData lay n (block info) s \<noteq> undef \<and>
    (ValidateLinearTextureData lay n (block info) s = ok () \<longrightarrow>
      (\<exists>lay' dst. ApplyDefaultTextureDataLayoutOptions lay (block info) s = ok lay' \<and> texture_side obs ct = ok dst \<and>
        (n = mSize (bufs obs p) \<longrightarrow> linear_copy_safe obs ct (buffer_side p lay') dst s) \<and>
        roomy_layout lay' (block info) s \<and> blocks_inside lay' (block info) s n \<and> offset lay' = offset lay \<and>
        (bytesPerRow lay \<noteq> kCopyStrideUndefined \<longrightarrow> bytesPerRow lay' = bytesPerRow lay) \<and>
        (rowsPerImage lay \<noteq> kCopyStrideUndefined \<longrightarrow> rowsPerImage lay' = rowsPerImage lay)))"
proof -
  let ?t = "texs obs (it_texture ct)"
  have ms: "selected ?t (it_aspect ct)" using ImageCopyTexture_cases(2) [OF t img] by auto
  obtain info e where i: "GetAspectInfo_of (mFormat ?t) (it_aspect ct) = ok info" and b: "block_ok (block info)" and wb: "whole_blocks (block info) s"
    and w: "width s div blockWidth (block info) * byteSize (block info) \<le> 2 ^ 21"
    and e: "subresource_extent ?t (it_mipLevel ct) e" "texels_inside (it_origin ct) s e"
    using linear_info [OF t ty(1,2) img one range] by blast
  have small: "width s div blockWidth (block info) * byteSize (block info) + 255 < 2 ^ 32" using w by simp
  note lin = ValidateLinear_cases [OF wb ty(3,2), of n]
  have "\<exists>lay' dst. ApplyDefaultTextureDataLayoutOptions lay (block info) s = ok lay' \<and> texture_side obs ct = ok dst \<and>
        (n = mSize (bufs obs p) \<longrightarrow> linear_copy_safe obs ct (buffer_side p lay') dst s) \<and>
        roomy_layout lay' (block info) s \<and> blocks_inside lay' (block info) s n \<and> offset lay' = offset lay \<and>
        (bytesPerRow lay \<noteq> kCopyStrideUndefined \<longrightarrow> bytesPerRow lay' = bytesPerRow lay) \<and>
        (rowsPerImage lay \<noteq> kCopyStrideUndefined \<longrightarrow> rowsPerImage lay' = rowsPerImage lay)"
    if acc: "ValidateLinearTextureData lay n (block info) s = ok ()"
  proof -
    note r = lin(2) [OF acc]
    obtain lay' where lay': "ApplyDefaultTextureDataLayoutOptions lay (block info) s = ok lay'" "offset lay' = offset lay" "roomy_layout lay' (block info) s"
      "bytesPerRow lay \<noteq> kCopyStrideUndefined \<longrightarrow> bytesPerRow lay' = bytesPerRow lay"
      "rowsPerImage lay \<noteq> kCopyStrideUndefined \<longrightarrow> rowsPerImage lay' = rowsPerImage lay"
      using ApplyDefaults_ok [OF wb small, of lay] r by blast
    have inside: "blocks_inside lay' (block info) s n" using blocks_insideI [OF lay'(2,3) _ lay'(4,5)] r by blast
    obtain dst where dst: "texture_side obs ct = ok dst" "tc_texture dst = it_texture ct" "tc_mipLevel dst = it_mipLevel ct" "tc_origin dst = it_origin ct"
      using texture_side_ok [OF ms] by simp
    have "linear_copy_safe obs ct (buffer_side p lay') dst s" if "n = mSize (bufs obs p)"
      using that dst(2-4) inside blocks_disjointI [OF lay'(3)] i e(1,2) by (auto simp: linear_copy_safe_def buffer_side_def Let_def layout_eta)
    then show ?thesis using lay' inside dst(1) by blast
  qed
  then show ?thesis using i b lin(1) by blast
qed

lemma usage_bits: "HasZeroOrOneBits (unat (1 :: 32 word))" "HasZeroOrOneBits (unat (2 :: 32 word))" "HasZeroOrOneBits (unat (4 :: 32 word))"
  "HasZeroOrOneBits (unat (8 :: 32 word))" "HasZeroOrOneBits (unat (512 :: 32 word))"
  by (simp_all add: HasZeroOrOneBits_def)

lemma CanUseAs_eq: "HasZeroOrOneBits (unat u) \<Longrightarrow>
    ValidateCanUseAs v u = (if v AND u = 0 then validation_error ''usage does not include the required usage'' else ok ())"
  by (simp add: ValidateCanUseAs_def)

lemmas simple_rules = CanUseAs_eq [OF usage_bits(1)] CanUseAs_eq [OF usage_bits(2)] CanUseAs_eq [OF usage_bits(3)] CanUseAs_eq [OF usage_bits(4)]
  ValidateImageCopyBuffer_def ValidateObject_def ValidateTextureSampleCountInBufferCopyCommands_def ValidateLinearTextureCopyOffset_def

lemma planes_multi_planar:
  assumes "texture_ok dev t" "selected t a" "plane_aspect a"
  shows "IsMultiPlanar (mFormat t)"
proof -
  have k: "format_aspects (mFormat t) = format_kind (format_id (mFormat t))" using texture_formatD(1) [OF assms(1)] by (simp add: format_ok_def)
  show ?thesis using assms(2,3) unfolding IsMultiPlanar_def selected_def k
    by (auto simp: SelectFormatAspects_def format_kind_def aspect_defs split: if_splits)
qed

section \<open>Textures for copies\<close>

lemma created_copy_texture:
  assumes dev: "device_ok dev" "maxTextureDimension2D (dev_limits dev) \<le> 2 ^ 16" and fm: "td_format d < 2 ^ 32"
    and t: "CreateTexture False True create_impl dev d = ok t"
  shows "copy_texture_ok dev t"
proof -
  have v: "ValidateTextureDescriptor dev d = ok ()" and base: "TextureBase dev d = ok t"
    using t by (auto simp: CreateTexture_def res_iff)
  obtain f where f: "GetInternalFormat (dev_formats dev) (td_format d) = ok f" and u: "ValidateTextureUsage (all_usages d) f = ok ()"
    and n: "ValidateSampleCount d (all_usages d) f = ok ()" and s: "ValidateTextureSize (dev_limits dev) d f = ok ()"
    using v unfolding ValidateTextureDescriptor_def res_iff by auto
  have fields: "mFormat t = f" "mSampleCount t = sampleCount d" "mTextureUsage t = td_usage d" "mDimension t = dimension d" "mTextureSize t = td_size d"
    using base GetInternalFormat_device(7) [OF dev(1) fm f] by (auto simp: TextureBase_def Let_def res_iff)
  have "mSampleCount t > 1 \<longrightarrow> mDimension t = Dim2D" using n by (auto simp: fields ValidateSampleCount_def split: if_splits)
  moreover have "width (mTextureSize t) \<le> 2 ^ 16 \<and> height (mTextureSize t) \<le> 2 ^ 16"
    using s dev by (auto simp: fields ValidateTextureSize_def Let_def res_iff device_ok_def limits_ok_def split: texture_dimension.splits)
  moreover have "mTextureUsage t AND Tex_CopyDst = 0" if "IsMultiPlanar (mFormat t)"
  proof -
    have "all_usages d AND (Tex_TextureBinding OR Tex_CopySrc) = all_usages d"
      using that u unfolding fields ValidateTextureUsage_def res_iff IsSubset_def by blast
    from arg_cong [OF this, of "\<lambda>w. bit w 1"] have "\<not> bit (all_usages d) 1" by (simp add: bit_and_iff)
    then have "\<not> bit (td_usage d) 1" by (auto simp: all_usages_def bit_or_iff split: option.splits)
    then show ?thesis using and_exp_eq_0_iff_not_bit [of "td_usage d" 1] by (simp add: fields)
  qed
  ultimately show ?thesis using CreateTexture_ok(1) [OF dev(1) fm t] by (simp add: copy_texture_ok_def)
qed

lemma created_fields:
  "CreateTexture False True create_impl dev d = ok t \<Longrightarrow>
    mTextureUsage t = td_usage d \<and> mSampleCount t = sampleCount d \<and> mTextureMipLevelCount t = mipLevelCount d"
  by (auto simp: CreateTexture_def TextureBase_def Let_def res_iff)

lemma format_compressed: "format_ok fs f \<Longrightarrow> isCompressed f \<longleftrightarrow> BC1RGBAUnorm \<le> format_id f \<and> format_id f \<le> ASTC12x12UnormSrgb"
  by (simp only: format_ok_def)

text \<open>Textures of 8 by 4 texels with 3 layers and 4 mip levels.\<close>

definition copy_descriptor :: "nat \<Rightarrow> 32 word \<Rightarrow> texture_descriptor" where
  "copy_descriptor k u = (sample_descriptor k)\<lparr> td_usage := u \<rparr>"

definition copy_device :: "bool \<Rightarrow> format list \<Rightarrow> device_info" where
  "copy_device features table = (sample_device table)\<lparr> dev_features := (\<lambda>_. features) \<rparr>"

lemma sample_copy_texture:
  assumes "k = RGBA8Unorm \<and> u = Tex_CopySrc OR Tex_CopyDst \<or> k = R8BG8Biplanar420Unorm \<and> u = Tex_CopySrc \<and> features"
  shows "\<exists>dev t. device_ok dev \<and> CreateTexture False True (\<lambda>_. ok ()) dev (copy_descriptor k u) = ok t \<and> copy_texture_ok dev t \<and>
    maxTextureDimension2D (dev_limits dev) \<le> 2 ^ 16 \<and> format_id (mFormat t) = k \<and> mTextureUsage t = u \<and> mSampleCount t = 1 \<and> mTextureMipLevelCount t = 4 \<and> mDimension t = Dim2D \<and> \<not> isCompressed (mFormat t) \<and>
    mTextureSize t = \<lparr> width = 8, height = 4, depthOrArrayLayers = 3 \<rparr>"
proof -
  obtain table where table: "BuildFormatTable (\<lambda>_. features) = ok table" using BuildFormatTable_ok by blast
  define dev where "dev = copy_device features table"
  have dev: "device_ok dev" "maxTextureDimension2D (dev_limits dev) \<le> 2 ^ 16" "dev_features dev = (\<lambda>_. features)"
    using table by (simp_all add: dev_def copy_device_def sample_device_def device_ok_def limits_ok_def)
  have k: "0 < k" "k - 1 < kKnownFormatCount" "ComputeFormatIndex k = k - 1" "k < 2 ^ 32"
    using assms by (auto simp: kKnownFormatCount_def ComputeFormatIndex_def)
  define f where "f = dev_formats dev ! (k - 1)"
  have f: "format_id f = k" "format_ok (dev_features dev) f" using device_formats(2) [OF dev(1) k(2)] k(1) by (auto simp: f_def)
  have a: "format_aspects f = format_kind k" "isSupported f" "\<not> isCompressed f"
    using format_okD(1,2) [OF f(2)] f dev(3) assms by (auto simp: format_available_def format_compressed)
  have get: "GetInternalFormat (dev_formats dev) k = ok f" using device_formats(1) [OF dev(1)] k a(2) by (simp add: GetInternalFormat_def f_def)
  have lg: "Log2_u32 8 = ok 3" by code_simp
  have planes: "IsMultiPlanar f \<longleftrightarrow> k = R8BG8Biplanar420Unorm" using a(1) assms by (auto simp: IsMultiPlanar_def format_kind_def aspect_defs)
  have "ValidateTextureSize (dev_limits dev) (copy_descriptor k u) f = ok ()"
    using lg a(3) by (simp add: ValidateTextureSize_def copy_descriptor_def sample_descriptor_def dev_def copy_device_def sample_device_def)
  moreover have "ValidateTextureUsage u f = ok ()"
    using assms planes a(3) by (auto simp: ValidateTextureUsage_def ValidateTextureUsageBits_def IsSubset_def)
  ultimately have v: "ValidateTextureDescriptor dev (copy_descriptor k u) = ok ()"
    using get by (simp add: ValidateTextureDescriptor_def copy_descriptor_def sample_descriptor_def all_usages_def ValidateSampleCount_def IsValidSampleCount_def
      dev_def copy_device_def sample_device_def)
  have td: "td_format (copy_descriptor k u) < 2 ^ 32" using k(4) by (simp add: copy_descriptor_def sample_descriptor_def)
  obtain t where base: "TextureBase dev (copy_descriptor k u) = ok t" using created_texture_ok [OF dev(1) td v] by blast
  then have c: "CreateTexture False True (\<lambda>_. ok ()) dev (copy_descriptor k u) = ok t" using v by (simp add: CreateTexture_def)
  have g: "GetValidInternalFormat (dev_formats dev) k = ok f" using GetInternalFormat_device(7) [OF dev(1) k(4) get] .
  show ?thesis using c created_copy_texture [OF dev(1,2) td c] base g f(1) dev(1,2) a(3)
    by (intro exI [of _ dev] exI [of _ t]) (auto simp: TextureBase_def copy_descriptor_def sample_descriptor_def Let_def res_iff)
qed

text \<open>A buffer of 64 bytes, and the arguments of a copy of the last texel of a texture.\<close>

definition copy_buffer :: buffer where
  "copy_buffer = \<lparr> is_error = False, mSize = 64, mUsage = CopySrc OR CopyDst, mState = Unmapped, mIsDataInitialized = False, mStagingBuffer = None,
     mMapCallback = None, mMapUserdata = 0, mLastMapID = 0, mMapMode = 0, mMapOffset = 0, mMapSize = 0, mAllocatedSize = 64 \<rparr>"

definition copy_objects :: "texture \<Rightarrow> objects" where
  "copy_objects t = \<lparr> texs = (\<lambda>_. t), bufs = (\<lambda>_. copy_buffer), external_destroyed = (\<lambda>_. False), queries_destroyed = (\<lambda>_. False) \<rparr>"

definition default_layout :: image_copy_buffer where
  "default_layout = \<lparr> ib_layout = \<lparr> offset = 0, bytesPerRow = kCopyStrideUndefined, rowsPerImage = kCopyStrideUndefined \<rparr>, ib_buffer = 7 \<rparr>"

definition last_texel :: image_copy_texture where
  "last_texel = \<lparr> it_texture = 5, it_mipLevel = 0, it_origin = \<lparr> ox = 7, oy = 3, oz = 2 \<rparr>, it_aspect = TextureAspect_All \<rparr>"

definition one_texel :: extent3d where
  "one_texel = \<lparr> width = 1, height = 1, depthOrArrayLayers = 1 \<rparr>"

definition no_commands :: top_level where
  "no_commands = \<lparr> mTopLevelBuffers = [], mTopLevelTextures = [], mUsedQuerySets = [], encoded = [] \<rparr>"

lemmas copy_samples = copy_buffer_def copy_objects_def default_layout_def last_texel_def one_texel_def no_commands_def

text \<open>What the rules say of that copy.\<close>

lemma sample_copy_facts:
  assumes "copy_texture_ok dev t" "format_id (mFormat t) = RGBA8Unorm" "mTextureUsage t = Tex_CopySrc OR Tex_CopyDst" "mSampleCount t = 1"
    "mTextureMipLevelCount t = 4" "mDimension t = Dim2D" "\<not> isCompressed (mFormat t)" "mTextureSize t = \<lparr> width = 8, height = 4, depthOrArrayLayers = 3 \<rparr>"
  shows "ValidateImageCopyTexture (copy_objects t) last_texel one_texel = ok ()" "ValidateTextureCopyRange (copy_objects t) last_texel one_texel = ok ()"
    "ValidateLinearToDepthStencilCopyRestrictions (copy_objects t) last_texel = ok ()" "\<not> HasDepthOrStencil (mFormat t)" "\<not> texture_error t"
    "\<exists>info lay dst. GetAspectInfo_of (mFormat t) TextureAspect_All = ok info \<and> blockWidth (block info) = 1 \<and> blockHeight (block info) = 1 \<and> block_ok (block info) \<and>
       ValidateLinearTextureData (ib_layout default_layout) 64 (block info) one_texel = ok () \<and>
       ApplyDefaultTextureDataLayoutOptions (ib_layout default_layout) (block info) one_texel = ok lay \<and> offset lay = 0 \<and>
       rowsPerImage lay = 1 \<and> texture_side (copy_objects t) last_texel = ok dst"
proof -
  let ?obs = "copy_objects t"
  have ok: "texture_ok dev t" using assms(1) by (simp add: copy_texture_ok_def)
  have fa: "format_aspects (mFormat t) = Aspect_Color"
    using texture_formatD(1) [OF ok] assms(2) by (simp add: format_ok_def format_kind_def)
  have sel: "SelectFormatAspects (format_aspects (mFormat t)) TextureAspect_All = Aspect_Color" using fa by (simp add: SelectFormatAspects_def)
  show ds: "\<not> HasDepthOrStencil (mFormat t)" "\<not> texture_error t" using fa texture_formatD(3) [OF ok] by (simp_all add: HasDepthOrStencil_def aspect_defs)
  show img: "ValidateImageCopyTexture ?obs last_texel one_texel = ok ()"
    using ok assms sel ds by (simp add: ValidateImageCopyTexture_def copy_samples ValidateObject_def Let_def aspect_defs)
  have one: "SingleAspectUsedByImageCopyTexture ?obs last_texel = ok Aspect_Color"
    using fa by (simp add: SingleAspectUsedByImageCopyTexture_def copy_samples HasOneBit_def HasZeroOrOneBits_def aspect_defs)
  then show "ValidateLinearToDepthStencilCopyRestrictions ?obs last_texel = ok ()" by (simp add: ValidateLinearToDepthStencilCopyRestrictions_def aspect_defs)
  show range: "ValidateTextureCopyRange ?obs last_texel one_texel = ok ()"
    using ok assms by (simp add: ValidateTextureCopyRange_def copy_samples Let_def GetMipLevelPhysicalSize_def GetMipLevelVirtualSize_def layers_of_def wrap64_def)
  have t5: "texs ?obs (it_texture last_texel) = t" "it_aspect last_texel = TextureAspect_All" by (simp_all add: copy_samples)
  obtain info where i: "GetAspectInfo_of (mFormat t) TextureAspect_All = ok info" "info \<in> set (aspectInfo (mFormat t))"
    using SingleAspect_cases(2) [of dev ?obs last_texel] one ok sel by (auto simp: t5 selected_def aspect_defs)
  have b: "blockWidth (block info) = 1" "blockHeight (block info) = 1" "block_ok (block info)"
    using format_okD(3,7) [OF texture_formatD(1) [OF ok] i(2)] assms(7) by (auto simp: unit_block_def)
  have lin: "ValidateLinearTextureData (ib_layout default_layout) 64 (block info) one_texel = ok ()"
    using b by (auto simp: ValidateLinearTextureData_def ComputeRequiredBytesInCopy_def copy_samples Safe32x32_def wrap64_def u32_def block_ok_def)
  have args: "copy_texture_ok dev (texs ?obs (it_texture last_texel))" "origin_typed (it_origin last_texel)" "extent_typed one_texel"
      "layout_typed (ib_layout default_layout)"
    using assms(1) by (simp_all add: copy_samples origin_typed_def extent_typed_def layout_typed_def)
  obtain lay dst where d: "ApplyDefaultTextureDataLayoutOptions (ib_layout default_layout) (block info) one_texel = ok lay" "texture_side ?obs last_texel = ok dst"
    using linear_copy [OF args img one range, of 64 7] lin i(1) by (auto simp: t5)
  moreover have "offset lay = 0 \<and> rowsPerImage lay = 1"
    using d(1) b by (auto simp: ApplyDefaultTextureDataLayoutOptions_def copy_samples res_iff Let_def)
  ultimately show "\<exists>info lay dst. GetAspectInfo_of (mFormat t) TextureAspect_All = ok info \<and> blockWidth (block info) = 1 \<and> blockHeight (block info) = 1 \<and> block_ok (block info) \<and>
       ValidateLinearTextureData (ib_layout default_layout) 64 (block info) one_texel = ok () \<and>
       ApplyDefaultTextureDataLayoutOptions (ib_layout default_layout) (block info) one_texel = ok lay \<and> offset lay = 0 \<and>
       rowsPerImage lay = 1 \<and> texture_side (copy_objects t) last_texel = ok dst" using i(1) b lin by blast
qed

lemma sample_copy_accepted:
  assumes "copy_texture_ok dev t" "format_id (mFormat t) = RGBA8Unorm" "mTextureUsage t = Tex_CopySrc OR Tex_CopyDst" "mSampleCount t = 1"
    "mTextureMipLevelCount t = 4" "mDimension t = Dim2D" "\<not> isCompressed (mFormat t)" "mTextureSize t = \<lparr> width = 8, height = 4, depthOrArrayLayers = 3 \<rparr>"
  shows "\<exists>e'. APICopyBufferToTexture True (copy_objects t) default_layout last_texel one_texel no_commands = ok e'"
proof -
  let ?obs = "copy_objects t"
  note f = sample_copy_facts [OF assms]
  obtain info lay dst where i: "GetAspectInfo_of (mFormat t) TextureAspect_All = ok info" "block_ok (block info)"
      "ValidateLinearTextureData (ib_layout default_layout) 64 (block info) one_texel = ok ()"
      "ApplyDefaultTextureDataLayoutOptions (ib_layout default_layout) (block info) one_texel = ok lay" "texture_side ?obs last_texel = ok dst"
    using f(6) by blast
  have t5: "texs ?obs (it_texture last_texel) = t" "it_aspect last_texel = TextureAspect_All" by (simp_all add: copy_samples)
  have front: "ValidateImageCopyBuffer ?obs default_layout = ok ()" "mUsage copy_buffer AND CopySrc \<noteq> 0" "mTextureUsage t AND Tex_CopyDst \<noteq> 0"
      "ValidateTextureSampleCountInBufferCopyCommands t = ok ()"
      "ValidateLinearTextureCopyOffset (ib_layout default_layout) (block info) (HasDepthOrStencil (mFormat t)) = ok ()"
    using assms(3,4) f(4) by (simp_all add: copy_samples simple_rules)
  have b7: "bufs ?obs (ib_buffer default_layout) = copy_buffer" "mSize copy_buffer = 64" by (simp_all add: copy_samples)
  show ?thesis
    unfolding APICopyBufferToTexture_def Let_def t5 b7
    using front f(1-3) i by (simp add: CanUseAs_eq [OF usage_bits(2)] CanUseAs_eq [OF usage_bits(3)])
qed

lemma buffer_side_buffer: "bc_buffer (buffer_side p lay) = p"
  by (simp add: buffer_side_def)

lemmas tracked_simps = encode_def use_buffer_def use_texture_def buffer_side_buffer set_insort_insert

text \<open>The subresource texels a side of a copy touches: the layer or slice, the row and the column.\<close>

definition texels :: "origin3d \<Rightarrow> extent3d \<Rightarrow> (nat \<times> nat \<times> nat) set" where
  "texels p s = {(z, y, x). z \<in> {oz p ..< oz p + depthOrArrayLayers s} \<and> y \<in> {oy p ..< oy p + height s} \<and> x \<in> {ox p ..< ox p + width s}}"

lemma IsRangeOverlapped_iff: "a < 2 ^ 32 \<Longrightarrow> b < 2 ^ 32 \<Longrightarrow> n < 2 ^ 32 \<Longrightarrow> IsRangeOverlapped a b n \<longleftrightarrow> max a b < min a b + n"
  by (simp add: IsRangeOverlapped_def wrap64_def)

lemma range_side:
  assumes "copy_texture_ok dev (texs obs (it_texture ct))" "origin_typed (it_origin ct)" "extent_typed s"
    and "ValidateImageCopyTexture obs ct s = ok ()"
  shows "ValidateTextureCopyRange obs ct s \<noteq> undef"
    "ValidateTextureCopyRange obs ct s = ok () \<Longrightarrow>
      \<exists>e. subresource_extent (texs obs (it_texture ct)) (it_mipLevel ct) e \<and> texels_inside (it_origin ct) s e"
    "texture_side obs ct = ok \<lparr> tc_texture = it_texture ct, tc_mipLevel = it_mipLevel ct, tc_origin = it_origin ct,
       tc_aspect = SelectFormatAspects (format_aspects (mFormat (texs obs (it_texture ct)))) (it_aspect ct) \<rparr>"
proof -
  have ok: "texture_ok dev (texs obs (it_texture ct))" using assms(1) by (simp add: copy_texture_ok_def)
  have ms: "it_mipLevel ct < mTextureMipLevelCount (texs obs (it_texture ct))" "selected (texs obs (it_texture ct)) (it_aspect ct)"
    using ImageCopyTexture_cases(2) [OF assms(1,4)] by auto
  show "ValidateTextureCopyRange obs ct s \<noteq> undef" by (rule TextureCopyRange_cases(1) [OF ok ms assms(2,3)])
  show "\<exists>e. subresource_extent (texs obs (it_texture ct)) (it_mipLevel ct) e \<and> texels_inside (it_origin ct) s e"
    if "ValidateTextureCopyRange obs ct s = ok ()" using TextureCopyRange_cases(2) [OF ok ms assms(2,3) that] by blast
  show "texture_side obs ct = ok \<lparr> tc_texture = it_texture ct, tc_mipLevel = it_mipLevel ct, tc_origin = it_origin ct,
       tc_aspect = SelectFormatAspects (format_aspects (mFormat (texs obs (it_texture ct)))) (it_aspect ct) \<rparr>"
    by (rule texture_side_ok [OF ms(2)])
qed

definition texture_args :: "device_info \<Rightarrow> objects \<Rightarrow> image_copy_texture \<Rightarrow> bool" where
  "texture_args dev obs ct \<longleftrightarrow> copy_texture_ok dev (texs obs (it_texture ct)) \<and> origin_typed (it_origin ct)"

text \<open>What the backend may rely on when it runs a recorded copy between two textures.\<close>

definition texture_copy_safe :: "objects \<Rightarrow> texture_copy \<Rightarrow> texture_copy \<Rightarrow> extent3d \<Rightarrow> bool" where
  "texture_copy_safe obs src dst s \<longleftrightarrow>
     (let t = texs obs (tc_texture src); u = texs obs (tc_texture dst)
      in format_id (mFormat t) = format_id (mFormat u) \<and> mSampleCount t = mSampleCount u \<and>
         tc_aspect src = format_aspects (mFormat t) \<and> tc_aspect dst = tc_aspect src \<and>
         (\<exists>e. subresource_extent t (tc_mipLevel src) e \<and> texels_inside (tc_origin src) s e) \<and>
         (\<exists>e. subresource_extent u (tc_mipLevel dst) e \<and> texels_inside (tc_origin dst) s e) \<and>
         (tc_texture src = tc_texture dst \<and> tc_mipLevel src = tc_mipLevel dst \<longrightarrow> texels (tc_origin src) s \<inter> texels (tc_origin dst) s = {}))"

lemma T2T_rules:
  assumes "texture_ok dev (texs obs (it_texture src))" "texture_ok dev (texs obs (it_texture dst))" "origin_typed (it_origin src)" "origin_typed (it_origin dst)"
    "extent_typed s"
  shows "ValidateTextureToTextureCopyRestrictions obs src dst s \<noteq> undef"
    "ValidateTextureToTextureCopyRestrictions obs src dst s = ok () \<Longrightarrow>
       (let t = texs obs (it_texture src); u = texs obs (it_texture dst); a = format_aspects (mFormat t)
        in mFormat t = mFormat u \<and> mSampleCount t = mSampleCount u \<and> SelectFormatAspects a (it_aspect src) = a \<and> SelectFormatAspects a (it_aspect dst) = a \<and>
          (it_texture src = it_texture dst \<and> it_mipLevel src = it_mipLevel dst \<longrightarrow>
            texels (it_origin src) s \<inter> texels (it_origin dst) s = {}))"
proof -
  let ?t = "texs obs (it_texture src)" and ?u = "texs obs (it_texture dst)"
  have same: "mFormat ?t = mFormat ?u" if "format_id (mFormat ?t) = format_id (mFormat ?u)" using that assms(1,2) by (simp add: texture_ok_def)
  have d: "mDimension ?t \<noteq> Dim1D" "mDimension ?t = Dim2D \<or> mDimension ?t = Dim3D" using texture_formatD(4) [OF assms(1)] by (cases "mDimension ?t"; simp)+
  show "ValidateTextureToTextureCopyRestrictions obs src dst s \<noteq> undef"
    using d by (auto simp: ValidateTextureToTextureCopyRestrictions_def ValidateTextureToTextureCopyCommonRestrictions_def Let_def)
  show "let t = texs obs (it_texture src); u = texs obs (it_texture dst); a = format_aspects (mFormat t)
        in mFormat t = mFormat u \<and> mSampleCount t = mSampleCount u \<and> SelectFormatAspects a (it_aspect src) = a \<and> SelectFormatAspects a (it_aspect dst) = a \<and>
          (it_texture src = it_texture dst \<and> it_mipLevel src = it_mipLevel dst \<longrightarrow>
            texels (it_origin src) s \<inter> texels (it_origin dst) s = {})" if v: "ValidateTextureToTextureCopyRestrictions obs src dst s = ok ()"
  proof -
    have "texels (it_origin src) s \<inter> texels (it_origin dst) s = {}" if "it_texture src = it_texture dst" "it_mipLevel src = it_mipLevel dst"
    proof -
      have "\<not> IsRangeOverlapped (oz (it_origin src)) (oz (it_origin dst)) (depthOrArrayLayers s)"
        using that v d by (auto simp: ValidateTextureToTextureCopyRestrictions_def ValidateTextureToTextureCopyCommonRestrictions_def Let_def split: if_splits)
      then have "min (oz (it_origin src)) (oz (it_origin dst)) + depthOrArrayLayers s \<le> max (oz (it_origin src)) (oz (it_origin dst))"
        using assms(3-5) by (subst (asm) IsRangeOverlapped_iff) (auto simp: origin_typed_def extent_typed_def)
      then show ?thesis by (auto simp: texels_def min_def max_def split: if_splits)
    qed
    then show ?thesis using v same by (auto simp: ValidateTextureToTextureCopyRestrictions_def ValidateTextureToTextureCopyCommonRestrictions_def Let_def split: if_splits)
  qed
qed

section \<open>Properties\<close>

text \<open>What is assumed of the arguments of a copy between a buffer and a texture: a texture the
  device created, and members of the width of their types.\<close>

definition linear_args :: "device_info \<Rightarrow> objects \<Rightarrow> image_copy_buffer \<Rightarrow> image_copy_texture \<Rightarrow> extent3d \<Rightarrow> bool" where
  "linear_args dev obs cb ct s \<longleftrightarrow> copy_texture_ok dev (texs obs (it_texture ct)) \<and> origin_typed (it_origin ct) \<and> extent_typed s \<and>
     layout_typed (ib_layout cb)"

text \<open>The end of both commands: the second half of the rules, the defaults of the layout, and the
  command \<open>k\<close> that is recorded.\<close>

definition linear_tail :: "objects \<Rightarrow> image_copy_texture \<Rightarrow> data_layout \<Rightarrow> nat \<Rightarrow> extent3d \<Rightarrow> top_level \<Rightarrow>
    (data_layout \<Rightarrow> texture_copy \<Rightarrow> top_level \<Rightarrow> top_level) \<Rightarrow> top_level res" where
  "linear_tail obs ct lay n s e k =
     bindR (GetAspectInfo_of (mFormat (texs obs (it_texture ct))) (it_aspect ct)) (\<lambda>info.
     bindR (bindR (ValidateLinearTextureCopyOffset lay (block info) (HasDepthOrStencil (mFormat (texs obs (it_texture ct))))) (\<lambda>_.
            bindR (ValidateLinearTextureData lay n (block info) s) (\<lambda>_. ok e))) (\<lambda>e.
     bindR (ApplyDefaultTextureDataLayoutOptions lay (block info) s) (\<lambda>lay.
     bindR (texture_side obs ct) (\<lambda>tc. ok (k lay tc e)))))"

lemma linear_tail_cases:
  assumes args: "linear_args dev obs cb ct s" and img: "ValidateImageCopyTexture obs ct s = ok ()"
    and one: "SingleAspectUsedByImageCopyTexture obs ct = ok used" and range: "ValidateTextureCopyRange obs ct s = ok ()"
  defines "n \<equiv> mSize (bufs obs (ib_buffer cb))"
  shows "linear_tail obs ct (ib_layout cb) n s e k \<noteq> undef"
    "linear_tail obs ct (ib_layout cb) n s e k = ok e' \<Longrightarrow>
      \<exists>lay tc. e' = k lay tc e \<and> linear_copy_safe obs ct (buffer_side (ib_buffer cb) lay) tc s"
proof -
  have t: "copy_texture_ok dev (texs obs (it_texture ct))" "origin_typed (it_origin ct)" "extent_typed s" "layout_typed (ib_layout cb)"
    using args by (auto simp: linear_args_def)
  obtain info where i: "GetAspectInfo_of (mFormat (texs obs (it_texture ct))) (it_aspect ct) = ok info"
      "ValidateLinearTextureData (ib_layout cb) n (block info) s \<noteq> undef"
    and v: "ValidateLinearTextureData (ib_layout cb) n (block info) s = ok () \<Longrightarrow>
      \<exists>lay tc. ApplyDefaultTextureDataLayoutOptions (ib_layout cb) (block info) s = ok lay \<and> texture_side obs ct = ok tc \<and>
        linear_copy_safe obs ct (buffer_side (ib_buffer cb) lay) tc s"
    using linear_copy [OF t img one range, of n "ib_buffer cb"] unfolding n_def by blast
  show "linear_tail obs ct (ib_layout cb) n s e k \<noteq> undef"
    using i v by (auto simp: linear_tail_def undef_bind res_iff ValidateLinearTextureCopyOffset_def)
  show "\<exists>lay tc. e' = k lay tc e \<and> linear_copy_safe obs ct (buffer_side (ib_buffer cb) lay) tc s"
    if "linear_tail obs ct (ib_layout cb) n s e k = ok e'"
    using that i(1) v by (auto simp: linear_tail_def res_iff) blast
qed

lemma B2T_cases:
  assumes "linear_args dev obs cb ct s"
  shows "APICopyBufferToTexture True obs cb ct s e \<noteq> undef"
    "APICopyBufferToTexture True obs cb ct s e = ok e' \<Longrightarrow>
      \<exists>lay dst. e' = encode (CopyBufferToTexture (buffer_side (ib_buffer cb) lay) dst s) (use_texture (it_texture ct) (use_buffer (ib_buffer cb) e)) \<and>
        linear_copy_safe obs ct (buffer_side (ib_buffer cb) lay) dst s"
proof -
  let ?t = "texs obs (it_texture ct)" and ?n = "mSize (bufs obs (ib_buffer cb))"
  have t: "copy_texture_ok dev ?t" "origin_typed (it_origin ct)" "extent_typed s" "layout_typed (ib_layout cb)" and ok: "texture_ok dev ?t"
    using assms by (auto simp: linear_args_def copy_texture_ok_def)
  define front where "front = bindR (ValidateImageCopyBuffer obs cb) (\<lambda>_.
          bindR (ValidateCanUseAs (mUsage (bufs obs (ib_buffer cb))) CopySrc) (\<lambda>_.
          bindR (ValidateImageCopyTexture obs ct s) (\<lambda>_.
          bindR (ValidateCanUseAs (mTextureUsage ?t) Tex_CopyDst) (\<lambda>_.
          bindR (ValidateTextureSampleCountInBufferCopyCommands ?t) (\<lambda>_.
          bindR (ValidateLinearToDepthStencilCopyRestrictions obs ct) (\<lambda>_.
            ValidateTextureCopyRange obs ct s))))))"
  have front_undef: "front \<noteq> undef"
  proof
    assume "front = undef"
    then have "ValidateImageCopyTexture obs ct s = ok () \<and> mTextureUsage ?t AND Tex_CopyDst \<noteq> 0 \<and>
        (SingleAspectUsedByImageCopyTexture obs ct = undef \<or> ValidateTextureCopyRange obs ct s = undef)"
      using ImageCopyTexture_cases(1) [OF t(1)]
      by (auto simp: front_def undef_iff simple_rules ValidateLinearToDepthStencilCopyRestrictions_def split: if_splits)
    then show False using ImageCopyTexture_cases(2) [OF t(1)] SingleAspect_cases(1) [OF ok] TextureCopyRange_cases(1) [OF ok _ _ t(2,3)]
        planes_multi_planar [OF ok] t(1) by (auto simp: copy_texture_ok_def)
  qed
  have front_ok: "\<exists>used. ValidateImageCopyTexture obs ct s = ok () \<and> SingleAspectUsedByImageCopyTexture obs ct = ok used \<and>
      ValidateTextureCopyRange obs ct s = ok ()" if "front = ok ()"
    using that by (auto simp: front_def res_iff ValidateLinearToDepthStencilCopyRestrictions_def)
  have api: "APICopyBufferToTexture True obs cb ct s e = bindR front (\<lambda>_. linear_tail obs ct (ib_layout cb) ?n s (use_texture (it_texture ct) (use_buffer (ib_buffer cb) e))
      (\<lambda>lay tc. encode (CopyBufferToTexture (buffer_side (ib_buffer cb) lay) tc s)))"
    by (simp only: APICopyBufferToTexture_def linear_tail_def front_def Let_def if_True)
  show "APICopyBufferToTexture True obs cb ct s e \<noteq> undef"
    using front_undef front_ok linear_tail_cases(1) [OF assms] unfolding api undef_bind by fastforce
  show "\<exists>lay dst. e' = encode (CopyBufferToTexture (buffer_side (ib_buffer cb) lay) dst s) (use_texture (it_texture ct) (use_buffer (ib_buffer cb) e)) \<and>
        linear_copy_safe obs ct (buffer_side (ib_buffer cb) lay) dst s" if "APICopyBufferToTexture True obs cb ct s e = ok e'"
    using that front_ok linear_tail_cases(2) [OF assms] unfolding api bindR_Inr_iff by fastforce
qed

lemma T2B_cases:
  assumes "linear_args dev obs cb ct s"
  shows "\<not> plane_aspect (it_aspect ct) \<Longrightarrow> APICopyTextureToBuffer True obs ct cb s e \<noteq> undef"
    "APICopyTextureToBuffer True obs ct cb s e = ok e' \<Longrightarrow>
      \<exists>lay src. e' = encode (CopyTextureToBuffer src (buffer_side (ib_buffer cb) lay) s) (use_buffer (ib_buffer cb) (use_texture (it_texture ct) e)) \<and>
        linear_copy_safe obs ct (buffer_side (ib_buffer cb) lay) src s"
proof -
  let ?t = "texs obs (it_texture ct)" and ?n = "mSize (bufs obs (ib_buffer cb))"
  have t: "copy_texture_ok dev ?t" "origin_typed (it_origin ct)" "extent_typed s" "layout_typed (ib_layout cb)" and ok: "texture_ok dev ?t"
    using assms by (auto simp: linear_args_def copy_texture_ok_def)
  define front where "front = bindR (ValidateImageCopyTexture obs ct s) (\<lambda>_.
          bindR (ValidateCanUseAs (mTextureUsage ?t) Tex_CopySrc) (\<lambda>_.
          bindR (ValidateTextureSampleCountInBufferCopyCommands ?t) (\<lambda>_.
          bindR (ValidateTextureDepthStencilToBufferCopyRestrictions obs ct) (\<lambda>_.
          bindR (ValidateImageCopyBuffer obs cb) (\<lambda>_.
          bindR (ValidateCanUseAs (mUsage (bufs obs (ib_buffer cb))) CopyDst) (\<lambda>_.
            ValidateTextureCopyRange obs ct s))))))"
  have front_undef: "front \<noteq> undef" if "\<not> plane_aspect (it_aspect ct)"
  proof
    assume "front = undef"
    then have "ValidateImageCopyTexture obs ct s = ok () \<and>
        (ValidateTextureDepthStencilToBufferCopyRestrictions obs ct = undef \<or> ValidateTextureCopyRange obs ct s = undef)"
      using ImageCopyTexture_cases(1) [OF t(1)] by (auto simp: front_def undef_iff simple_rules split: if_splits)
    then show False using ImageCopyTexture_cases(2) [OF t(1)] DepthToBuffer_defined [OF ok _ that] TextureCopyRange_cases(1) [OF ok _ _ t(2,3)] by auto
  qed
  have front_ok: "\<exists>used. ValidateImageCopyTexture obs ct s = ok () \<and> SingleAspectUsedByImageCopyTexture obs ct = ok used \<and>
      ValidateTextureCopyRange obs ct s = ok ()" if "front = ok ()"
    using that by (auto simp: front_def res_iff ValidateTextureDepthStencilToBufferCopyRestrictions_def)
  have api: "APICopyTextureToBuffer True obs ct cb s e = bindR front (\<lambda>_. linear_tail obs ct (ib_layout cb) ?n s (use_buffer (ib_buffer cb) (use_texture (it_texture ct) e))
      (\<lambda>lay tc. encode (CopyTextureToBuffer tc (buffer_side (ib_buffer cb) lay) s)))"
    by (simp only: APICopyTextureToBuffer_def linear_tail_def front_def Let_def if_True)
  show "APICopyTextureToBuffer True obs ct cb s e \<noteq> undef" if "\<not> plane_aspect (it_aspect ct)"
    using front_undef [OF that] front_ok linear_tail_cases(1) [OF assms] unfolding api undef_bind by fastforce
  show "\<exists>lay src. e' = encode (CopyTextureToBuffer src (buffer_side (ib_buffer cb) lay) s) (use_buffer (ib_buffer cb) (use_texture (it_texture ct) e)) \<and>
        linear_copy_safe obs ct (buffer_side (ib_buffer cb) lay) src s" if "APICopyTextureToBuffer True obs ct cb s e = ok e'"
    using that front_ok linear_tail_cases(2) [OF assms] unfolding api bindR_Inr_iff by fastforce
qed

text \<open>
  C36. Recording a copy between a buffer and a texture the device created never runs into undefined
  behaviour, apart from a copy of a single plane to a buffer. In a copy that is accepted, with
  explicit or default strides, every texel block lies inside the buffer, no two blocks share a
  byte, the texels lie inside the subresource, and both resources are tracked for the submission,
  although the sizes are computed modulo \<open>2 ^ 32\<close> and \<open>2 ^ 64\<close>.
\<close>

theorem linear_copies_safe:
  assumes "linear_args dev obs cb ct s"
  shows "APICopyBufferToTexture True obs cb ct s e \<noteq> undef \<and>
    (it_aspect ct \<notin> {Plane0Only, Plane1Only} \<longrightarrow> APICopyTextureToBuffer True obs ct cb s e \<noteq> undef) \<and>
    (\<forall>e'. APICopyBufferToTexture True obs cb ct s e = ok e' \<longrightarrow>
       (\<exists>bc tc. encoded e' = encoded e @ [CopyBufferToTexture bc tc s] \<and> bc_buffer bc = ib_buffer cb \<and> linear_copy_safe obs ct bc tc s \<and>
          ib_buffer cb \<in> set (mTopLevelBuffers e') \<and> it_texture ct \<in> set (mTopLevelTextures e'))) \<and>
    (\<forall>e'. APICopyTextureToBuffer True obs ct cb s e = ok e' \<longrightarrow>
       (\<exists>bc tc. encoded e' = encoded e @ [CopyTextureToBuffer tc bc s] \<and> bc_buffer bc = ib_buffer cb \<and> linear_copy_safe obs ct bc tc s \<and>
          ib_buffer cb \<in> set (mTopLevelBuffers e') \<and> it_texture ct \<in> set (mTopLevelTextures e')))"
proof (intro conjI allI impI)
  show "APICopyBufferToTexture True obs cb ct s e \<noteq> undef" by (rule B2T_cases(1) [OF assms])
  show "APICopyTextureToBuffer True obs ct cb s e \<noteq> undef" if "it_aspect ct \<notin> {Plane0Only, Plane1Only}"
    using that by (intro T2B_cases(1) [OF assms]) auto
next
  fix e' assume "APICopyBufferToTexture True obs cb ct s e = ok e'"
  from B2T_cases(2) [OF assms this] obtain lay dst where
    e': "e' = encode (CopyBufferToTexture (buffer_side (ib_buffer cb) lay) dst s) (use_texture (it_texture ct) (use_buffer (ib_buffer cb) e))"
    and safe: "linear_copy_safe obs ct (buffer_side (ib_buffer cb) lay) dst s" by blast
  show "\<exists>bc tc. encoded e' = encoded e @ [CopyBufferToTexture bc tc s] \<and> bc_buffer bc = ib_buffer cb \<and> linear_copy_safe obs ct bc tc s \<and>
          ib_buffer cb \<in> set (mTopLevelBuffers e') \<and> it_texture ct \<in> set (mTopLevelTextures e')"
    by (rule exI [of _ "buffer_side (ib_buffer cb) lay"], rule exI [of _ dst])
       (simp add: e' safe tracked_simps)
next
  fix e' assume "APICopyTextureToBuffer True obs ct cb s e = ok e'"
  from T2B_cases(2) [OF assms this] obtain lay src where
    e': "e' = encode (CopyTextureToBuffer src (buffer_side (ib_buffer cb) lay) s) (use_buffer (ib_buffer cb) (use_texture (it_texture ct) e))"
    and safe: "linear_copy_safe obs ct (buffer_side (ib_buffer cb) lay) src s" by blast
  show "\<exists>bc tc. encoded e' = encoded e @ [CopyTextureToBuffer tc bc s] \<and> bc_buffer bc = ib_buffer cb \<and> linear_copy_safe obs ct bc tc s \<and>
          ib_buffer cb \<in> set (mTopLevelBuffers e') \<and> it_texture ct \<in> set (mTopLevelTextures e')"
    by (rule exI [of _ "buffer_side (ib_buffer cb) lay"], rule exI [of _ src])
       (simp add: e' safe tracked_simps)
qed

theorem linear_copies_safe_witness:
  "\<exists>dev obs e' bc tc. linear_args dev obs default_layout last_texel one_texel \<and>
     APICopyBufferToTexture True obs default_layout last_texel one_texel no_commands = ok e' \<and>
     encoded e' = [CopyBufferToTexture bc tc one_texel] \<and> linear_copy_safe obs last_texel bc tc one_texel \<and> 7 \<in> set (mTopLevelBuffers e')"
proof -
  obtain dev t where t: "copy_texture_ok dev t" "format_id (mFormat t) = RGBA8Unorm" "mTextureUsage t = Tex_CopySrc OR Tex_CopyDst" "mSampleCount t = 1"
    "mTextureMipLevelCount t = 4" "mDimension t = Dim2D" "\<not> isCompressed (mFormat t)" "mTextureSize t = \<lparr> width = 8, height = 4, depthOrArrayLayers = 3 \<rparr>"
    using sample_copy_texture [of RGBA8Unorm "Tex_CopySrc OR Tex_CopyDst"] by blast
  obtain e' where e': "APICopyBufferToTexture True (copy_objects t) default_layout last_texel one_texel no_commands = ok e'"
    using sample_copy_accepted [OF t] by blast
  have args: "linear_args dev (copy_objects t) default_layout last_texel one_texel"
    using t(1) by (simp add: linear_args_def copy_samples origin_typed_def extent_typed_def layout_typed_def)
  obtain bc tc where "encoded e' = encoded no_commands @ [CopyBufferToTexture bc tc one_texel]" "linear_copy_safe (copy_objects t) last_texel bc tc one_texel"
      "ib_buffer default_layout \<in> set (mTopLevelBuffers e')"
    using linear_copies_safe [OF args, of no_commands] e' by blast
  moreover have "encoded no_commands = []" "ib_buffer default_layout = 7" by (simp_all add: no_commands_def default_layout_def)
  ultimately show ?thesis using args e' by (metis append_Nil)
qed

text \<open>
  C38. A copy of one plane of a multi-planar texture to a buffer is undefined, whatever the buffer,
  the layout and the size: the texture may have the usage for it, the rules that run first accept
  it, and the rule that asks for a single aspect has no case for a plane.
\<close>

theorem plane_copy_undefined:
  assumes "device_ok dev" "td_format d < 2 ^ 32"
    and "CreateTexture False True create_impl dev d = ok (texs obs (it_texture ct))"
    and "IsMultiPlanar (mFormat (texs obs (it_texture ct)))" "td_usage d AND Tex_CopySrc \<noteq> 0" "sampleCount d = 1"
    and "it_aspect ct \<in> {Plane0Only, Plane1Only}" "it_mipLevel ct < mipLevelCount d"
  shows "APICopyTextureToBuffer True obs ct cb s e = undef"
proof -
  let ?t = "texs obs (it_texture ct)"
  have ok: "texture_ok dev ?t" using CreateTexture_ok(1) [OF assms(1,2,3)] .
  have base: "mTextureUsage ?t = td_usage d" "mSampleCount ?t = sampleCount d" "mTextureMipLevelCount ?t = mipLevelCount d"
    using created_fields [OF assms(3)] by auto
  have k: "format_aspects (mFormat ?t) = format_kind (format_id (mFormat ?t))" using texture_formatD(1) [OF ok] by (simp add: format_ok_def)
  have planes: "format_aspects (mFormat ?t) = Aspect_Plane0 OR Aspect_Plane1"
    using assms(4) unfolding IsMultiPlanar_def k by (auto simp: format_kind_def aspect_defs split: if_splits)
  have "\<not> HasDepthOrStencil (mFormat ?t)" "SelectFormatAspects (format_aspects (mFormat ?t)) (it_aspect ct) \<noteq> Aspect_None"
    using assms(7) by (auto simp: HasDepthOrStencil_def SelectFormatAspects_def planes aspect_defs)
  then have img: "ValidateImageCopyTexture obs ct s = ok ()"
    using ok base assms(6,8) texture_formatD(3) [OF ok] by (simp add: ValidateImageCopyTexture_def ValidateObject_def Let_def)
  moreover have "ValidateTextureDepthStencilToBufferCopyRestrictions obs ct = undef"
    using assms(7) by (auto simp: ValidateTextureDepthStencilToBufferCopyRestrictions_def SingleAspectUsedByImageCopyTexture_def Let_def)
  moreover have "ValidateCanUseAs (mTextureUsage ?t) Tex_CopySrc = ok ()" using assms(5) by (simp add: CanUseAs_eq [OF usage_bits(1)] base)
  moreover have "ValidateTextureSampleCountInBufferCopyCommands ?t = ok ()"
    using assms(6) by (simp add: ValidateTextureSampleCountInBufferCopyCommands_def base)
  ultimately show ?thesis by (simp add: APICopyTextureToBuffer_def Let_def)
qed

theorem plane_copy_undefined_witness:
  "\<exists>t. APICopyTextureToBuffer True (copy_objects t) (last_texel\<lparr> it_aspect := Plane0Only \<rparr>) default_layout one_texel no_commands = undef"
proof -
  obtain dev t where t: "device_ok dev" "CreateTexture False True (\<lambda>_. ok ()) dev (copy_descriptor R8BG8Biplanar420Unorm Tex_CopySrc) = ok t"
    "copy_texture_ok dev t" "format_id (mFormat t) = R8BG8Biplanar420Unorm"
    using sample_copy_texture [of R8BG8Biplanar420Unorm Tex_CopySrc True] by blast
  have "format_aspects (mFormat t) = Aspect_Plane0 OR Aspect_Plane1"
    using t(3,4) texture_formatD(1) [of dev t] by (simp add: copy_texture_ok_def format_ok_def format_kind_def)
  then have m: "IsMultiPlanar (mFormat t)" by (simp add: IsMultiPlanar_def aspect_defs)
  have t5: "texs (copy_objects t) (it_texture (last_texel\<lparr> it_aspect := Plane0Only \<rparr>)) = t" by (simp add: copy_samples)
  have d: "td_format (copy_descriptor R8BG8Biplanar420Unorm Tex_CopySrc) < 2 ^ 32" "td_usage (copy_descriptor R8BG8Biplanar420Unorm Tex_CopySrc) AND Tex_CopySrc \<noteq> 0"
    "sampleCount (copy_descriptor R8BG8Biplanar420Unorm Tex_CopySrc) = 1" "it_aspect (last_texel\<lparr> it_aspect := Plane0Only \<rparr>) \<in> {Plane0Only, Plane1Only}"
    "it_mipLevel (last_texel\<lparr> it_aspect := Plane0Only \<rparr>) < mipLevelCount (copy_descriptor R8BG8Biplanar420Unorm Tex_CopySrc)"
    by (simp_all add: copy_descriptor_def sample_descriptor_def copy_samples)
  show ?thesis
    using plane_copy_undefined [OF t(1) d(1), of "\<lambda>_. ok ()" "copy_objects t" "last_texel\<lparr> it_aspect := Plane0Only \<rparr>"] t(2) m d(2-5)
    unfolding t5 by blast
qed

text \<open>
  C37. Recording a copy between two textures the device created never runs into undefined
  behaviour. In a copy that is accepted, the formats, sample counts and aspects of both sides
  agree, the texels of each side lie inside its subresource, a copy inside one subresource never
  reads a texel that it writes, and both textures are tracked for the submission.
\<close>

theorem texture_copies_safe:
  assumes "texture_args dev obs src" "texture_args dev obs dst" "extent_typed s"
  shows "APICopyTextureToTextureHelper internal True obs src dst s e \<noteq> undef \<and>
    (\<forall>e'. APICopyTextureToTextureHelper internal True obs src dst s e = ok e' \<longrightarrow>
       (\<exists>a b. encoded e' = encoded e @ [CopyTextureToTexture a b s] \<and> tc_texture a = it_texture src \<and> tc_texture b = it_texture dst \<and>
          tc_origin a = it_origin src \<and> tc_origin b = it_origin dst \<and> texture_copy_safe obs a b s \<and>
          {it_texture src, it_texture dst} \<subseteq> set (mTopLevelTextures e')))"
proof -
  let ?api = "APICopyTextureToTextureHelper internal True obs src dst s e"
  have t: "copy_texture_ok dev (texs obs (it_texture src))" "origin_typed (it_origin src)"
    "copy_texture_ok dev (texs obs (it_texture dst))" "origin_typed (it_origin dst)"
    and ok: "texture_ok dev (texs obs (it_texture src))" "texture_ok dev (texs obs (it_texture dst))"
    using assms by (auto simp: texture_args_def copy_texture_ok_def)
  note src = range_side [OF t(1,2) assms(3)] and dst = range_side [OF t(3,4) assms(3)] and rules = T2T_rules [OF ok t(2,4) assms(3)]
  have no_undef: "ValidateObject b \<noteq> undef" "ValidateCanUseAs v Tex_CopySrc \<noteq> undef" "ValidateCanUseAs v Tex_CopyDst \<noteq> undef" for b v
    by (simp_all add: ValidateObject_def CanUseAs_eq [OF usage_bits(1)] CanUseAs_eq [OF usage_bits(2)])
  have "?api \<noteq> undef"
    unfolding APICopyTextureToTextureHelper_def Let_def if_True undef_bind bindR_Inr_iff
    using no_undef ImageCopyTexture_cases(1) [OF t(1)] ImageCopyTexture_cases(1) [OF t(3)] rules(1) src(1,3) dst(1,3) by fastforce
  moreover have "\<exists>a b. encoded e' = encoded e @ [CopyTextureToTexture a b s] \<and> tc_texture a = it_texture src \<and> tc_texture b = it_texture dst \<and>
          tc_origin a = it_origin src \<and> tc_origin b = it_origin dst \<and> texture_copy_safe obs a b s \<and>
          {it_texture src, it_texture dst} \<subseteq> set (mTopLevelTextures e')" if acc: "?api = ok e'" for e'
  proof -
    obtain a b where img: "ValidateImageCopyTexture obs src s = ok ()" "ValidateImageCopyTexture obs dst s = ok ()"
        "ValidateTextureToTextureCopyRestrictions obs src dst s = ok ()" "ValidateTextureCopyRange obs src s = ok ()" "ValidateTextureCopyRange obs dst s = ok ()"
      and ab: "texture_side obs src = ok a" "texture_side obs dst = ok b"
        "e' = encode (CopyTextureToTexture a b s) (use_texture (it_texture dst) (use_texture (it_texture src) e))"
      using acc unfolding APICopyTextureToTextureHelper_def Let_def if_True bindR_Inr_iff by auto
    have "texture_copy_safe obs a b s"
      using ab(1,2) src(3) [OF img(1)] dst(3) [OF img(2)] src(2) [OF img(1,4)] dst(2) [OF img(2,5)] rules(2) [OF img(3)]
      by (auto simp: texture_copy_safe_def Let_def)
    then show ?thesis using ab src(3) [OF img(1)] dst(3) [OF img(2)]
      by (intro exI [of _ a] exI [of _ b]) (auto simp: tracked_simps)
  qed
  ultimately show ?thesis by blast
qed

theorem texture_copies_safe_witness:
  "\<exists>obs e' a b. APICopyTextureToTextureHelper False True obs (last_texel\<lparr> it_origin := \<lparr> ox = 7, oy = 3, oz = 0 \<rparr> \<rparr>) last_texel one_texel no_commands = ok e' \<and>
     encoded e' = [CopyTextureToTexture a b one_texel] \<and> texture_copy_safe obs a b one_texel \<and> tc_texture a = tc_texture b"
proof -
  obtain dev t where t: "copy_texture_ok dev t" "format_id (mFormat t) = RGBA8Unorm" "mTextureUsage t = Tex_CopySrc OR Tex_CopyDst" "mSampleCount t = 1"
    "mTextureMipLevelCount t = 4" "mDimension t = Dim2D" "\<not> isCompressed (mFormat t)" "mTextureSize t = \<lparr> width = 8, height = 4, depthOrArrayLayers = 3 \<rparr>"
    using sample_copy_texture [of RGBA8Unorm "Tex_CopySrc OR Tex_CopyDst"] by blast
  define src where "src = last_texel\<lparr> it_origin := \<lparr> ox = 7, oy = 3, oz = 0 \<rparr> \<rparr>"
  have src: "it_texture src = 5" "it_mipLevel src = 0" "it_origin src = \<lparr> ox = 7, oy = 3, oz = 0 \<rparr>" "it_aspect src = TextureAspect_All"
    by (simp_all add: src_def last_texel_def)
  have ok: "texture_ok dev t" using t(1) by (simp add: copy_texture_ok_def)
  have fa: "format_aspects (mFormat t) = Aspect_Color" using texture_formatD(1) [OF ok] t(2) by (simp add: format_ok_def format_kind_def)
  then have sel: "SelectFormatAspects Aspect_Color TextureAspect_All = Aspect_Color" "Aspect_Color \<noteq> Aspect_None" "\<not> HasDepthOrStencil (mFormat t)"
    by (simp_all add: SelectFormatAspects_def HasDepthOrStencil_def aspect_defs)
  have rules: "ValidateImageCopyTexture (copy_objects t) ct one_texel = ok ()" "ValidateTextureCopyRange (copy_objects t) ct one_texel = ok ()"
      "texture_side (copy_objects t) ct = ok \<lparr> tc_texture = 5, tc_mipLevel = 0, tc_origin = it_origin ct, tc_aspect = Aspect_Color \<rparr>"
    if "ct = src \<or> ct = last_texel" for ct
    using that src ok t fa sel texture_formatD(3) [OF ok]
    by (auto simp: ValidateImageCopyTexture_def ValidateTextureCopyRange_def texture_side_def ConvertAspect_def copy_samples ValidateObject_def Let_def
      GetMipLevelPhysicalSize_def GetMipLevelVirtualSize_def layers_of_def wrap64_def)
  have restr: "ValidateTextureToTextureCopyRestrictions (copy_objects t) src last_texel one_texel = ok ()"
    using src t(6) fa sel
    by (simp add: ValidateTextureToTextureCopyRestrictions_def ValidateTextureToTextureCopyCommonRestrictions_def IsRangeOverlapped_def wrap64_def copy_samples Let_def)
  have t5: "texs (copy_objects t) (it_texture src) = t" "texs (copy_objects t) (it_texture last_texel) = t" by (simp_all add: copy_objects_def)
  obtain e' where e': "APICopyTextureToTextureHelper False True (copy_objects t) src last_texel one_texel no_commands = ok e'"
    unfolding APICopyTextureToTextureHelper_def Let_def t5 using rules restr texture_formatD(3) [OF ok] t(3)
    by (simp add: ValidateObject_def CanUseAs_eq [OF usage_bits(1)] CanUseAs_eq [OF usage_bits(2)])
  have args: "texture_args dev (copy_objects t) src" "texture_args dev (copy_objects t) last_texel" "extent_typed one_texel"
    using t(1) src by (simp_all add: texture_args_def t5 copy_samples origin_typed_def extent_typed_def)
  obtain a b where "encoded e' = encoded no_commands @ [CopyTextureToTexture a b one_texel]" "tc_texture a = it_texture src" "tc_texture b = it_texture last_texel"
      "texture_copy_safe (copy_objects t) a b one_texel"
    using texture_copies_safe [OF args, of False no_commands] e' by blast
  moreover have "encoded no_commands = []" "it_texture src = it_texture last_texel" by (simp_all add: no_commands_def src_def)
  ultimately show ?thesis using e' unfolding src_def by (metis append_Nil)
qed

end
