(* ===== verification/Texture_Write.thy ===== *)
theory Texture_Write
  imports Copy_Spec
begin

text \<open>
  What a texture write stages for the backend (\<open>Queue.cpp\<close>): the three ways of copying the data
  into the staging memory are one list of \<open>memcpy\<close> calls, and every texel block of the write is
  found in the staging memory where the recorded copy reads it.
\<close>

section \<open>Sequences of copies\<close>

text \<open>A call of \<open>memcpy\<close>: the destination, the source and the length.\<close>

type_synonym piece = "nat \<times> nat \<times> nat"

definition copy_pieces :: "'b list \<Rightarrow> piece list \<Rightarrow> 'b list \<Rightarrow> 'b list res" where
  "copy_pieces src = foldR (\<lambda>(d, s, n) dst. memcpy dst d src s n)"

definition piece_fits :: "nat \<Rightarrow> nat \<Rightarrow> piece \<Rightarrow> bool" where
  "piece_fits dst src = (\<lambda>(d, s, n). d + n \<le> dst \<and> s + n \<le> src)"

definition piece_before :: "piece \<Rightarrow> piece \<Rightarrow> bool" where
  "piece_before = (\<lambda>(d, _, n) (d', _, _). d + n \<le> d')"

definition holds_piece :: "'b list \<Rightarrow> 'b list \<Rightarrow> piece \<Rightarrow> bool" where
  "holds_piece src dst = (\<lambda>(d, s, n). \<forall>i < n. dst ! (d + i) = src ! (s + i))"

lemma copy_pieces_simps [simp]:
  "copy_pieces src [] dst = ok dst"
  "copy_pieces src (p # ps) dst = bindR ((\<lambda>(d, s, n). memcpy dst d src s n) p) (copy_pieces src ps)"
  by (simp_all add: copy_pieces_def split: prod.split)

lemma copy_pieces_append: "copy_pieces src (ps @ qs) dst = bindR (copy_pieces src ps dst) (copy_pieces src qs)"
  by (simp add: copy_pieces_def foldR_append)

lemma memcpy_nth:
  assumes "memcpy dst d src s n = ok dst'"
  shows "length dst' = length dst" "i < n \<Longrightarrow> dst' ! (d + i) = src ! (s + i)" "j < d \<Longrightarrow> dst' ! j = dst ! j"
  using assms by (auto simp: memcpy_def nth_append split: if_splits)

text \<open>Pieces that fit and follow each other in the destination are all there in the end; what comes
  before them is not touched.\<close>

lemma copy_pieces_ok:
  assumes "\<forall>p \<in> set ps. piece_fits (length dst) (length src) p" "sorted_wrt piece_before ps"
  shows "\<exists>dst'. copy_pieces src ps dst = ok dst' \<and> length dst' = length dst \<and> (\<forall>p \<in> set ps. holds_piece src dst' p) \<and>
    (\<forall>j. (\<forall>p \<in> set ps. j < fst p) \<longrightarrow> dst' ! j = dst ! j)"
  using assms
proof (induction ps arbitrary: dst)
  case (Cons p ps)
  obtain d s n where p: "p = (d, s, n)" by (cases p)
  have "d + n \<le> length dst" "s + n \<le> length src" using Cons.prems(1) by (auto simp: p piece_fits_def)
  then obtain dst1 where m: "memcpy dst d src s n = ok dst1" by (simp add: memcpy_def)
  note m' = memcpy_nth [OF m]
  have "\<forall>q \<in> set ps. piece_fits (length dst1) (length src) q" "sorted_wrt piece_before ps" using Cons.prems m'(1) by auto
  from Cons.IH [OF this] obtain dst' where c: "copy_pieces src ps dst1 = ok dst'" "length dst' = length dst1" "\<forall>q \<in> set ps. holds_piece src dst' q"
    "\<forall>j. (\<forall>q \<in> set ps. j < fst q) \<longrightarrow> dst' ! j = dst1 ! j" by blast
  have after: "d + n \<le> fst q" if "q \<in> set ps" for q using Cons.prems(2) that by (auto simp: p piece_before_def)
  have "holds_piece src dst' p"
    unfolding holds_piece_def p split
  proof (intro allI impI)
    fix i assume i: "i < n"
    then have "\<forall>q \<in> set ps. d + i < fst q" using after by (meson add_less_cancel_left order.strict_trans2)
    then show "dst' ! (d + i) = src ! (s + i)" using c(4) m'(2) [OF i] by simp
  qed
  then show ?case using c m m'(1,3) by (intro exI [of _ dst']) (auto simp: p)
qed simp

text \<open>A loop that copies some pieces and moves both positions on.\<close>

definition loop_pieces :: "(nat \<Rightarrow> nat \<Rightarrow> piece list) \<Rightarrow> nat \<Rightarrow> nat \<Rightarrow> nat \<Rightarrow> nat \<Rightarrow> nat \<Rightarrow> piece list" where
  "loop_pieces body dd ss n d s = concat (map (\<lambda>k. body (d + k * dd) (s + k * ss)) [0..<n])"

lemma loop_pieces_run:
  assumes "\<And>k dst d s. step k (dst, d, s) = bindR (copy_pieces src (body d s) dst) (\<lambda>dst. ok (dst, d + dd, s + ss))"
  shows "foldR step [0..<n] (dst, d, s) = bindR (copy_pieces src (loop_pieces body dd ss n d s) dst) (\<lambda>dst. ok (dst, d + n * dd, s + n * ss))"
proof (induction n)
  case (Suc n)
  have "foldR step [0..<Suc n] (dst, d, s) = bindR (copy_pieces src (loop_pieces body dd ss n d s) dst) (\<lambda>dst. step n (dst, d + n * dd, s + n * ss))"
    using Suc by (simp add: foldR_append bindR_assoc bindR_ok)
  also have "\<dots> = bindR (copy_pieces src (loop_pieces body dd ss (Suc n) d s) dst) (\<lambda>dst. ok (dst, d + Suc n * dd, s + Suc n * ss))"
    by (simp add: assms loop_pieces_def copy_pieces_append bindR_assoc algebra_simps)
  finally show ?case .
qed (simp add: loop_pieces_def)

lemma loop_pieces_member: "p \<in> set (loop_pieces body dd ss n d s) \<longleftrightarrow> (\<exists>k < n. p \<in> set (body (d + k * dd) (s + k * ss)))"
  by (auto simp: loop_pieces_def)

text \<open>The pieces follow each other and stay in the \<open>dd\<close> bytes from the position.\<close>

definition packed :: "(nat \<Rightarrow> nat \<Rightarrow> piece list) \<Rightarrow> nat \<Rightarrow> bool" where
  "packed body dd \<longleftrightarrow> (\<forall>d s. sorted_wrt piece_before (body d s) \<and> (\<forall>(e, _, n) \<in> set (body d s). d \<le> e \<and> e + n \<le> d + dd))"

lemma packed_single: "n \<le> dd \<Longrightarrow> packed (\<lambda>d s. [(d, s, n)]) dd"
  by (simp add: packed_def)

lemma packed_loop:
  assumes "packed body dd"
  shows "packed (loop_pieces body dd ss n) (n * dd)"
proof -
  have b: "sorted_wrt piece_before (body d s)" "(e, r, m) \<in> set (body d s) \<Longrightarrow> d \<le> e \<and> e + m \<le> d + dd" for d s e r m
    using assms by (auto simp: packed_def split_beta) (metis fst_conv snd_conv)+
  have range: "d \<le> e \<and> e + m \<le> d + n * dd" if p: "(e, r, m) \<in> set (loop_pieces body dd ss n d s)" for n d s e r m
  proof -
    obtain k where k: "k < n" "(e, r, m) \<in> set (body (d + k * dd) (s + k * ss))" using p by (auto simp: loop_pieces_member)
    have "k * dd + dd \<le> n * dd" using mult_le_mono1 [of "Suc k" n dd] k(1) by simp
    then show ?thesis using b(2) [OF k(2)] by simp
  qed
  have "sorted_wrt piece_before (loop_pieces body dd ss n d s)" for d s
  proof (induction n)
    case (Suc n)
    have "piece_before p q" if "p \<in> set (loop_pieces body dd ss n d s)" "q \<in> set (body (d + n * dd) (s + n * ss))" for p q
      using range [of _ _ _ n d s] b(2) [of _ _ _ "d + n * dd"] that by (cases p; cases q) (fastforce simp: piece_before_def)
    then show ?case using Suc b(1) by (simp add: loop_pieces_def sorted_wrt_append)
  qed (simp add: loop_pieces_def)
  then show ?thesis using range by (fastforce simp: packed_def)
qed

section \<open>Copying texture data\<close>

definition row_pieces :: "nat \<Rightarrow> nat \<Rightarrow> nat \<Rightarrow> nat \<Rightarrow> nat \<Rightarrow> nat \<Rightarrow> piece list" where
  "row_pieces w dB sB = loop_pieces (\<lambda>d s. [(d, s, w)]) dB sB"

definition texture_pieces :: "nat \<Rightarrow> nat \<Rightarrow> nat \<Rightarrow> nat \<Rightarrow> nat \<Rightarrow> nat \<Rightarrow> nat \<Rightarrow> nat \<Rightarrow> piece list" where
  "texture_pieces depth rows stride w dB sB =
     (if \<not> (w = dB \<and> dB = sB) then loop_pieces (row_pieces w dB sB rows) (rows * dB) (rows * sB + stride) depth
      else if stride \<noteq> 0 then loop_pieces (\<lambda>d s. [(d, s, rows * w)]) (rows * w) (rows * w + stride) depth
      else (\<lambda>d s. [(d, s, rows * w * depth)]))"

lemma copy_rows_pieces:
  "copy_rows src rows stride w dB sB (dst, d, s) =
     bindR (copy_pieces src (row_pieces w dB sB rows d s) dst) (\<lambda>dst. ok (dst, d + rows * dB, s + (rows * sB + stride)))"
proof -
  have "foldR (\<lambda>h (dst, d, s). bindR (memcpy dst d src s w) (\<lambda>dst. ok (dst, d + dB, s + sB))) [0..<rows] (dst, d, s) =
      bindR (copy_pieces src (row_pieces w dB sB rows d s) dst) (\<lambda>dst. ok (dst, d + rows * dB, s + rows * sB))"
    unfolding row_pieces_def by (rule loop_pieces_run) (simp add: bindR_assoc)
  then show ?thesis by (simp add: copy_rows_def bindR_assoc add.assoc)
qed

lemma CopyTextureData_pieces:
  assumes "rows * w + stride < 2 ^ 64" "rows * w * depth < 2 ^ 64"
  shows "CopyTextureData dst d src s depth rows stride w dB sB = copy_pieces src (texture_pieces depth rows stride w dB sB d s) dst"
proof -
  have w: "wrap64 (rows * w) = rows * w" "wrap64 (rows * w + stride) = rows * w + stride" "wrap64 (rows * w * depth) = rows * w * depth"
    using assms by (simp_all add: wrap64_def)
  have images: "foldR (\<lambda>z. copy_rows src rows stride w dB sB) [0..<depth] (dst, d, s) =
      bindR (copy_pieces src (loop_pieces (row_pieces w dB sB rows) (rows * dB) (rows * sB + stride) depth d s) dst)
        (\<lambda>dst. ok (dst, d + depth * (rows * dB), s + depth * (rows * sB + stride)))"
    by (rule loop_pieces_run) (rule copy_rows_pieces)
  have layers: "foldR (\<lambda>z (dst, d, s). bindR (memcpy dst d src s (rows * w)) (\<lambda>dst. ok (dst, d + rows * w, s + (rows * w + stride)))) [0..<depth] (dst, d, s) =
      bindR (copy_pieces src (loop_pieces (\<lambda>d s. [(d, s, rows * w)]) (rows * w) (rows * w + stride) depth d s) dst)
        (\<lambda>dst. ok (dst, d + depth * (rows * w), s + depth * (rows * w + stride)))"
    by (rule loop_pieces_run) (simp add: bindR_assoc)
  have fin: "copy_pieces src [] = ok" "bindR r ok = r" for r :: "'a list res" by (auto, cases r) auto
  show ?thesis unfolding CopyTextureData_def Let_def w texture_pieces_def images layers
    by (simp add: bindR_assoc fin)
qed

lemma texture_pieces_packed:
  assumes "w \<le> dB"
  shows "sorted_wrt piece_before (texture_pieces depth rows stride w dB sB d s)"
proof -
  have "packed (texture_pieces depth rows stride w dB sB) (depth * (rows * dB))"
    using packed_loop [OF packed_loop [OF packed_single [OF assms]]] packed_loop [OF packed_single [of "rows * w" "rows * w"]]
    by (auto simp: texture_pieces_def row_pieces_def intro!: packed_single)
  then show ?thesis by (simp add: packed_def)
qed

text \<open>Where a row of an image is in the destination and in the source.\<close>

definition rows_fit :: "nat \<Rightarrow> nat \<Rightarrow> nat \<Rightarrow> nat \<Rightarrow> nat \<Rightarrow> nat \<Rightarrow> nat \<Rightarrow> nat \<Rightarrow> nat \<Rightarrow> bool" where
  "rows_fit n m depth rows w dB imageB sB s \<longleftrightarrow> (\<forall>z < depth. \<forall>y < rows. (z * rows + y) * dB + w \<le> n \<and> s + z * imageB + y * sB + w \<le> m)"

lemma last_row: "0 < rows \<Longrightarrow> z * (rows * w) + rows * w = (z * rows + (rows - 1)) * w + (w :: nat)"
  by (cases rows) (simp_all add: algebra_simps)

lemma texture_pieces_fit:
  assumes "rows_fit n m depth rows w dB (rows * sB + stride) sB s" "0 < depth" "0 < rows"
  shows "\<forall>p \<in> set (texture_pieces depth rows stride w dB sB 0 s). piece_fits n m p"
proof -
  have fit: "(z * rows + y) * dB + w \<le> n" "s + z * (rows * sB + stride) + y * sB + w \<le> m" if "z < depth" "y < rows" for z y
    using assms(1) that by (auto simp: rows_fit_def)
  have r: "rows - 1 < rows" "depth - 1 < depth" using assms by auto
  consider (rows) "\<not> (w = dB \<and> dB = sB)" | (layers) "w = dB" "dB = sB" "stride \<noteq> 0" | (whole) "w = dB" "dB = sB" "stride = 0" by blast
  then show ?thesis
  proof cases
    case rows
    then show ?thesis using fit
      by (auto simp: texture_pieces_def row_pieces_def loop_pieces_member piece_fits_def algebra_simps)
  next
    case layers
    have "z * (rows * w) + rows * w \<le> n" "s + z * (rows * w + stride) + rows * w \<le> m" if "z < depth" for z
      using fit [OF that r(1)] last_row [OF assms(3), of 0 w] last_row [OF assms(3), of z w] layers(1,2) by auto
    then show ?thesis using layers by (auto simp: texture_pieces_def loop_pieces_member piece_fits_def)
  next
    case whole
    have d: "rows * w * depth = (depth - 1) * (rows * w) + rows * w" using assms(2) by (cases depth) (simp_all add: algebra_simps)
    have "rows * w * depth \<le> n" "s + rows * w * depth \<le> m"
      using fit [OF r(2,1)] last_row [OF assms(3), of 0 w] last_row [OF assms(3), of "depth - 1" w] whole unfolding d by auto
    then show ?thesis using whole by (auto simp: texture_pieces_def piece_fits_def)
  qed
qed

lemma texture_pieces_hold:
  assumes "\<forall>p \<in> set (texture_pieces depth rows stride w dB sB 0 s). holds_piece src dst p" "z < depth" "y < rows" "i < w"
  shows "dst ! ((z * rows + y) * dB + i) = src ! (s + z * (rows * sB + stride) + y * sB + i)"
proof -
  have yi: "y * w + i < rows * w" using mult_le_mono1 [of "Suc y" rows w] assms(3,4) by simp
  consider (rows) "\<not> (w = dB \<and> dB = sB)" | (layers) "w = dB" "dB = sB" "stride \<noteq> 0" | (whole) "w = dB" "dB = sB" "stride = 0" by blast
  then show ?thesis
  proof cases
    case rows
    then have "(z * (rows * dB) + y * dB, s + z * (rows * sB + stride) + y * sB, w) \<in> set (texture_pieces depth rows stride w dB sB 0 s)"
      using assms(2,3) by (auto simp: texture_pieces_def row_pieces_def loop_pieces_member)
    then show ?thesis using assms(1,4) by (fastforce simp: holds_piece_def algebra_simps)
  next
    case layers
    then have "(z * (rows * w), s + z * (rows * w + stride), rows * w) \<in> set (texture_pieces depth rows stride w dB sB 0 s)"
      using assms(2) by (auto simp: texture_pieces_def loop_pieces_member)
    then have "dst ! (z * (rows * w) + (y * w + i)) = src ! (s + z * (rows * w + stride) + (y * w + i))"
      using assms(1) yi by (fastforce simp: holds_piece_def)
    then show ?thesis using layers by (simp add: algebra_simps)
  next
    case whole
    have "z * (rows * w) + rows * w \<le> depth * (rows * w)" using mult_le_mono1 [of "Suc z" depth "rows * w"] assms(2) by simp
    then have "z * (rows * w) + (y * w + i) < rows * w * depth" using yi by (simp add: mult.commute)
    then have "dst ! (z * (rows * w) + (y * w + i)) = src ! (s + (z * (rows * w) + (y * w + i)))"
      using assms(1) whole by (simp add: texture_pieces_def holds_piece_def)
    then show ?thesis using whole by (simp add: algebra_simps)
  qed
qed

lemma CopyTextureData_ok:
  assumes "rows_fit (length dst) (length src) depth rows w dB (rows * sB + stride) sB s" "0 < depth" "0 < rows" "w \<le> dB"
    and "rows * w + stride < 2 ^ 64" "rows * w * depth < 2 ^ 64"
  shows "\<exists>dst'. CopyTextureData dst 0 src s depth rows stride w dB sB = ok dst' \<and> length dst' = length dst \<and>
    (\<forall>z < depth. \<forall>y < rows. \<forall>i < w. dst' ! ((z * rows + y) * dB + i) = src ! (s + z * (rows * sB + stride) + y * sB + i))"
  using copy_pieces_ok [OF texture_pieces_fit [OF assms(1-3)] texture_pieces_packed [OF assms(4)]] texture_pieces_hold
  unfolding CopyTextureData_pieces [OF assms(5,6)] by blast

section \<open>Staging a write\<close>

text \<open>
  What a write relies on: the alignments of the backend are powers of two of at most a mebibyte, and
  the uploader returns mapped memory of the size it was asked for, or an error.
\<close>

definition uploads_ok :: "'b uploads \<Rightarrow> bool" where
  "uploads_ok up \<longleftrightarrow> (\<exists>j \<le> 20. optimalOffsetAlignment up = 2 ^ j) \<and> (\<exists>k \<le> 20. optimalBytesPerRowAlignment up = 2 ^ k) \<and>
     (\<forall>n j. n \<le> 2 ^ 62 \<and> j \<le> 20 \<longrightarrow> upload_allocate up n (2 ^ j) \<noteq> undef \<and>
        (\<forall>off m. upload_allocate up n (2 ^ j) = ok (off, m) \<longrightarrow> length m = n))"

text \<open>The images of the data lie less than 4 GiB apart, or there is only one.\<close>

definition images_close :: "data_layout \<Rightarrow> extent3d \<Rightarrow> bool" where
  "images_close lay s \<longleftrightarrow> depthOrArrayLayers s \<le> 1 \<or> bytesPerRow lay * rowsPerImage lay < 2 ^ 32"

definition nonempty :: "extent3d \<Rightarrow> bool" where
  "nonempty s \<longleftrightarrow> 0 < width s \<and> 0 < height s \<and> 0 < depthOrArrayLayers s"

definition staging_layout :: "nat \<Rightarrow> texel_block_info \<Rightarrow> extent3d \<Rightarrow> data_layout" where
  "staging_layout opt b s = \<lparr> offset = 0, bytesPerRow = opt, rowsPerImage = height s div blockHeight b \<rparr>"

lemma staging_offset: "offset (staging_layout opt b s) = 0"
  by (simp add: staging_layout_def)

text \<open>Every block of the staging memory is the block of the data.\<close>

definition same_blocks :: "'b list \<Rightarrow> data_layout \<Rightarrow> 'b list \<Rightarrow> data_layout \<Rightarrow> texel_block_info \<Rightarrow> extent3d \<Rightarrow> bool" where
  "same_blocks xs lay ys lay' b s \<longleftrightarrow> (\<forall>c \<in> blocks b s.
     take (byteSize b) (drop (block_at lay (byteSize b) c) xs) = take (byteSize b) (drop (block_at lay' (byteSize b) c) ys))"

lemma assert_pow2_of_nat: "j < 64 \<Longrightarrow> assert_pow2 (of_nat (2 ^ j)) = ok ()"
  using pow2_word [of j, where 'w = 64] by (auto simp: assert_pow2_def IsPowerOfTwo_iff intro!: exI [of _ j])

lemma max_pow2: "max (2 ^ i) (2 ^ j) = (2 :: nat) ^ max i j"
  by (simp add: max_def)

lemma rows_inside:
  assumes "blocks_inside lay b s n" "nonempty s" "whole_blocks b s" "z < depthOrArrayLayers s" "y < height s div blockHeight b"
  shows "offset lay + (z * rowsPerImage lay + y) * bytesPerRow lay + width s div blockWidth b * byteSize b \<le> n"
proof -
  have "0 < width s div blockWidth b" using assms(2,3) by (auto simp: nonempty_def whole_blocks_def div_greater_zero_iff dvd_imp_le mod_eq_0_iff_dvd)
  then obtain x where x: "width s div blockWidth b = Suc x" by (cases "width s div blockWidth b") auto
  then have "(z, y, x) \<in> blocks b s" using assms(4,5) by (simp add: blocks_def)
  then show ?thesis using assms(1) x by (fastforce simp: blocks_inside_def block_at_def)
qed

lemma required_ge:
  assumes "0 < d" "0 < h" "w \<le> (B :: nat)"
  shows "z < d \<Longrightarrow> y < h \<Longrightarrow> (z * h + y) * B + w \<le> B * h * (d - 1) + (B * (h - 1) + w)" "h * w * d \<le> B * h * (d - 1) + (B * (h - 1) + w)"
proof -
  show "(z * h + y) * B + w \<le> B * h * (d - 1) + (B * (h - 1) + w)" if "z < d" "y < h"
  proof -
    have "z * h + y \<le> (d - 1) * h + (h - 1)" using that by (intro add_mono mult_le_mono1) auto
    then have "(z * h + y) * B \<le> ((d - 1) * h + (h - 1)) * B" by (rule mult_le_mono1)
    then show ?thesis by (simp add: algebra_simps)
  qed
  obtain d' h' where [simp]: "d = Suc d'" "h = Suc h'" using assms by (cases d; cases h) auto
  have le: "h * w * d' \<le> h * B * d'" "h' * w \<le> h' * B" using assms(3) by (intro mult_le_mono; simp)+
  have "h * w * d = h * w * d' + (h' * w + w)" "B * h * (d - 1) + (B * (h - 1) + w) = h * B * d' + (h' * B + w)" by (simp_all add: algebra_simps)
  then show "h * w * d \<le> B * h * (d - 1) + (B * (h - 1) + w)" by (simp only:) (intro add_mono le order_refl)
qed

lemma image_distance:
  assumes "images_close lay s" "h \<le> rowsPerImage lay" "z < depthOrArrayLayers s"
  shows "z * (h * bytesPerRow lay + u32 (bytesPerRow lay * (rowsPerImage lay - h))) = z * rowsPerImage lay * bytesPerRow lay"
proof (cases "depthOrArrayLayers s \<le> 1")
  case False
  have "bytesPerRow lay * (rowsPerImage lay - h) \<le> bytesPerRow lay * rowsPerImage lay" by simp
  then have "bytesPerRow lay * (rowsPerImage lay - h) < 2 ^ 32"
    using False assms(1) unfolding images_close_def by linarith
  then have "u32 (bytesPerRow lay * (rowsPerImage lay - h)) = bytesPerRow lay * (rowsPerImage lay - h)" by (simp add: u32_def)
  moreover have "h * bytesPerRow lay + bytesPerRow lay * (rowsPerImage lay - h) = rowsPerImage lay * bytesPerRow lay"
    using assms(2) by (metis add_mult_distrib2 le_add_diff_inverse mult.commute)
  ultimately show ?thesis by simp
qed (use assms(3) in simp)

text \<open>However far apart the images are, the copy reads before the end of the image.\<close>

lemma image_distance_le:
  assumes "h \<le> rowsPerImage lay"
  shows "z * (h * bytesPerRow lay + u32 (bytesPerRow lay * (rowsPerImage lay - h))) \<le> z * rowsPerImage lay * bytesPerRow lay"
proof -
  have "u32 (bytesPerRow lay * (rowsPerImage lay - h)) \<le> bytesPerRow lay * (rowsPerImage lay - h)" by (simp add: u32_def)
  moreover have "h * bytesPerRow lay + bytesPerRow lay * (rowsPerImage lay - h) = rowsPerImage lay * bytesPerRow lay"
    using assms by (metis add_mult_distrib2 le_add_diff_inverse mult.commute)
  ultimately have "h * bytesPerRow lay + u32 (bytesPerRow lay * (rowsPerImage lay - h)) \<le> rowsPerImage lay * bytesPerRow lay" by linarith
  from mult_le_mono2 [OF this, of z] show ?thesis by (simp add: mult.assoc)
qed

lemma same_blocksI:
  assumes row: "\<And>z y i. z < depthOrArrayLayers s \<Longrightarrow> y < height s div blockHeight b \<Longrightarrow> i < width s div blockWidth b * byteSize b \<Longrightarrow>
      xs ! ((z * rowsPerImage lay + y) * bytesPerRow lay + i) = ys ! (offset lay' + (z * rowsPerImage lay' + y) * bytesPerRow lay' + i)"
    and "offset lay = 0" "blocks_inside lay b s (length xs)" "blocks_inside lay' b s (length ys)"
  shows "same_blocks xs lay ys lay' b s"
  unfolding same_blocks_def
proof
  fix c assume c: "c \<in> blocks b s"
  then obtain z y x where zyx: "c = (z, y, x)" "z < depthOrArrayLayers s" "y < height s div blockHeight b" "x < width s div blockWidth b"
    by (auto simp: blocks_def)
  have inside: "block_at lay (byteSize b) c + byteSize b \<le> length xs" "block_at lay' (byteSize b) c + byteSize b \<le> length ys"
    using assms(3,4) c by (auto simp: blocks_inside_def)
  have "xs ! (block_at lay (byteSize b) c + i) = ys ! (block_at lay' (byteSize b) c + i)" if "i < byteSize b" for i
  proof -
    have "x * byteSize b + i < width s div blockWidth b * byteSize b"
      using mult_le_mono1 [of "Suc x" "width s div blockWidth b" "byteSize b"] zyx(4) that by simp
    from row [OF zyx(2,3) this] show ?thesis by (simp add: block_at_def zyx(1) assms(2) add.assoc)
  qed
  then show "take (byteSize b) (drop (block_at lay (byteSize b) c) xs) = take (byteSize b) (drop (block_at lay' (byteSize b) c) ys)"
    using inside by (intro nth_equalityI) auto
qed

lemma Upload_cases:
  fixes ds :: bool
  assumes up: "uploads_ok up" and b: "block_ok b" "whole_blocks b s" "nonempty s" "extent_typed s"
    and lay: "roomy_layout lay b s" "blocks_inside lay b s (length bytes)"
    and opt: "width s div blockWidth b * byteSize b \<le> opt" "opt \<le> 2 ^ 22" and s: "height s \<le> 2 ^ 17" "depthOrArrayLayers s \<le> 2 ^ 16"
  defines "r \<equiv> UploadTextureDataAligningBytesPerRowAndOffset up bytes (width s div blockWidth b * byteSize b) opt (height s div blockHeight b) lay ds b s"
  shows "r \<noteq> undef"
    "r = ok (start, m) \<Longrightarrow> (images_close lay s \<longrightarrow> same_blocks m (staging_layout opt b s) bytes lay b s) \<and> blocks_inside (staging_layout opt b s) b s (length m)"
proof -
  let ?h = "height s div blockHeight b" and ?w = "width s div blockWidth b * byteSize b" and ?d = "depthOrArrayLayers s"
  let ?B = "bytesPerRow lay" and ?R = "rowsPerImage lay"
  have h: "0 < ?h" using b(2,3) by (auto simp: nonempty_def whole_blocks_def div_greater_zero_iff dvd_imp_le mod_eq_0_iff_dvd)
  have d: "0 < ?d" using b(3) by (simp add: nonempty_def)
  have bounds: "?h < 2 ^ 32" "?w < 2 ^ 32" "opt < 2 ^ 32"
    using b(2,4) opt by (auto simp: extent_typed_def whole_blocks_def intro: le_less_trans [OF div_le_dividend])
  have R: "?h \<le> ?R" using lay(1) by (simp add: roomy_layout_def)
  have h17: "?h \<le> 2 ^ 17" using s(1) div_le_dividend le_trans by blast
  have roomy: "roomy opt ?h b s" using opt h17 by (auto simp: roomy_def)
  obtain j where j: "j \<le> 20" "j < 64" "optimalOffsetAlignment up = 2 ^ j" using up by (auto simp: uploads_ok_def)
  obtain i where i: "i \<le> 4" "i < 64" "byteSize b = 2 ^ i"
    using b(1) that [of 0] that [of 1] that [of 2] that [of 3] that [of 4] by (auto simp: block_ok_def)
  define a where "a = (let a = max (optimalOffsetAlignment up) (byteSize b) in if ds then max a 4 else a)"
  define stride where "stride = u32 (?B * (?R - ?h))"
  have r: "r = bindR (ComputeRequiredBytesInCopy b s opt ?h) (\<lambda>n. bindR (upload_allocate up n a) (\<lambda>(start, m).
      bindR (CopyTextureData m 0 bytes (offset lay) ?d ?h stride ?w opt ?B) (\<lambda>m. ok (start, m))))"
    using h R unfolding r_def UploadTextureDataAligningBytesPerRowAndOffset_def i(3) j(3) assert_pow2_of_nat [OF i(2)] assert_pow2_of_nat [OF j(2)]
    by (simp add: a_def stride_def i(3) j(3) Let_def)
  obtain l where l: "l \<le> 20" "a = 2 ^ l"
  proof -
    have "a = 2 ^ (if ds then max (max j i) 2 else max j i)"
      using max_pow2 [of "max j i" 2] by (simp add: a_def i(3) j(3) max_pow2)
    then show ?thesis using that [of "if ds then max (max j i) 2 else max j i"] i(1) j(1) by auto
  qed
  have n62: "n \<le> 2 ^ 62" if "ComputeRequiredBytesInCopy b s opt ?h = ok n" for n
  proof -
    have "n = opt * ?h * (?d - 1) + (opt * (?h - 1) + ?w)"
      using ComputeRequiredBytes_eq(2) [OF b(2) bounds(3,1) b(4) roomy that] h d by (auto simp: required_def)
    moreover have "opt * ?h * (?d - 1) \<le> 2 ^ 22 * 2 ^ 17 * 2 ^ 16" "opt * (?h - 1) \<le> 2 ^ 22 * 2 ^ 17" using opt(2) h17 s(2) by (intro mult_le_mono; simp)+
    ultimately show ?thesis using opt by simp
  qed
  have w64: "?h * ?w + stride < 2 ^ 64"
  proof -
    have "?h * ?w \<le> (2 ^ 32 - 1) * (2 ^ 32 - 1)" using bounds by (intro mult_le_mono) auto
    moreover have "stride < 2 ^ 32" by (simp add: stride_def u32_def)
    ultimately show ?thesis by simp
  qed
  have copy: "\<exists>m'. CopyTextureData m 0 bytes (offset lay) ?d ?h stride ?w opt ?B = ok m' \<and> length m' = length m \<and>
      (images_close lay s \<longrightarrow> same_blocks m' (staging_layout opt b s) bytes lay b s) \<and> blocks_inside (staging_layout opt b s) b s (length m)"
    if n: "ComputeRequiredBytesInCopy b s opt ?h = ok (length m)" for m :: "'a list"
  proof -
    have len: "length m = opt * ?h * (?d - 1) + (opt * (?h - 1) + ?w)" "length m < 2 ^ 64"
      using ComputeRequiredBytes_eq(2) [OF b(2) bounds(3,1) b(4) roomy n] h d by (auto simp: required_def)
    have dist: "z * (?h * ?B + stride) = z * ?R * ?B" if "images_close lay s" "z < ?d" for z
      using image_distance [OF that(1) R that(2)] by (simp add: stride_def)
    have dist_le: "z * (?h * ?B + stride) \<le> z * ?R * ?B" for z using image_distance_le [OF R] by (simp add: stride_def)
    have "rows_fit (length m) (length bytes) ?d ?h ?w opt (?h * ?B + stride) ?B (offset lay)"
      unfolding rows_fit_def len(1)
    proof (intro allI impI conjI)
      fix z y assume zy: "z < ?d" "y < ?h"
      show "(z * ?h + y) * opt + ?w \<le> opt * ?h * (?d - 1) + (opt * (?h - 1) + ?w)" by (rule required_ge(1) [OF d h opt(1) zy])
      show "offset lay + z * (?h * ?B + stride) + y * ?B + ?w \<le> length bytes"
        using rows_inside [OF lay(2) b(3,2) zy] dist_le [of z] unfolding add_mult_distrib by linarith
    qed
    moreover have "?h * ?w * ?d < 2 ^ 64" using required_ge(2) [OF d h opt(1)] len by linarith
    ultimately obtain m' where m': "CopyTextureData m 0 bytes (offset lay) ?d ?h stride ?w opt ?B = ok m'" "length m' = length m"
      "\<forall>z < ?d. \<forall>y < ?h. \<forall>i < ?w. m' ! ((z * ?h + y) * opt + i) = bytes ! (offset lay + z * (?h * ?B + stride) + y * ?B + i)"
      using CopyTextureData_ok [OF _ d h opt(1) w64] by blast
    have inside: "blocks_inside (staging_layout opt b s) b s (length m)"
    proof (rule blocks_insideI [where lay = "staging_layout opt b s"])
      show "offset (staging_layout opt b s) + required (bytesPerRow (staging_layout opt b s)) (rowsPerImage (staging_layout opt b s)) b s \<le> length m"
        using h d by (simp add: staging_layout_def required_def len(1))
      show "roomy_layout (staging_layout opt b s) b s" "roomy (bytesPerRow (staging_layout opt b s)) (rowsPerImage (staging_layout opt b s)) b s"
        using opt(1) roomy by (simp_all add: staging_layout_def roomy_layout_def)
    qed simp_all
    have "same_blocks m' (staging_layout opt b s) bytes lay b s" if close: "images_close lay s"
    proof (rule same_blocksI [OF _ _ _ lay(2)])
      fix z y i assume zyi: "z < ?d" "y < ?h" "i < ?w"
      then have "m' ! ((z * ?h + y) * opt + i) = bytes ! (offset lay + z * (?h * ?B + stride) + y * ?B + i)" using m'(3) by blast
      also have "offset lay + z * (?h * ?B + stride) + y * ?B + i = offset lay + (z * ?R + y) * ?B + i" by (simp add: dist [OF close zyi(1)] add_mult_distrib)
      finally show "m' ! ((z * rowsPerImage (staging_layout opt b s) + y) * bytesPerRow (staging_layout opt b s) + i) = bytes ! (offset lay + (z * ?R + y) * ?B + i)"
        by (simp add: staging_layout_def)
    qed (simp_all add: inside m'(2) staging_offset)
    then show ?thesis using m'(1,2) inside by blast
  qed
  have alloc: "upload_allocate up n a \<noteq> undef" "upload_allocate up n a = ok (start, m) \<Longrightarrow> length m = n"
    if "ComputeRequiredBytesInCopy b s opt ?h = ok n" for n start m
    using up n62 [OF that] l by (auto simp: uploads_ok_def)
  show "r \<noteq> undef"
    unfolding r undef_bind using alloc copy ComputeRequiredBytes_eq(1) [OF b(2) bounds(3,1) b(4) roomy] by fastforce
  show "(images_close lay s \<longrightarrow> same_blocks m (staging_layout opt b s) bytes lay b s) \<and> blocks_inside (staging_layout opt b s) b s (length m)" if acc: "r = ok (start, m)"
  proof -
    obtain n m0 where n: "ComputeRequiredBytesInCopy b s opt ?h = ok n" "upload_allocate up n a = ok (start, m0)"
      and c: "CopyTextureData m0 0 bytes (offset lay) ?d ?h stride ?w opt ?B = ok m"
      using acc by (auto simp: r bindR_Inr_iff)
    then show ?thesis using copy [of m0] alloc(2) [OF n] by auto
  qed
qed

text \<open>For the blocks of a copy, the strides that are left undefined do not matter.\<close>

lemma default_strides:
  assumes "roomy (bytesPerRow lay) (rowsPerImage lay) b s" "offset lay' = offset lay"
    and "bytesPerRow lay \<noteq> kCopyStrideUndefined \<longrightarrow> bytesPerRow lay' = bytesPerRow lay"
    and "rowsPerImage lay \<noteq> kCopyStrideUndefined \<longrightarrow> rowsPerImage lay' = rowsPerImage lay"
  shows "c \<in> blocks b s \<Longrightarrow> block_at lay' n c = block_at lay n c"
proof -
  assume "c \<in> blocks b s"
  then obtain z y x where c: "c = (z, y, x)" "z < depthOrArrayLayers s" "y < height s div blockHeight b" by (auto simp: blocks_def)
  have "z = 0" if "rowsPerImage lay' \<noteq> rowsPerImage lay" using assms(1,4) that c(2) by (auto simp: roomy_def)
  moreover have "z = 0 \<and> y = 0" if "bytesPerRow lay' \<noteq> bytesPerRow lay" using assms(1,3) that c(2,3) by (auto simp: roomy_def)
  ultimately show ?thesis by (cases "bytesPerRow lay' = bytesPerRow lay"; cases "rowsPerImage lay' = rowsPerImage lay") (auto simp: block_at_def c(1) assms(2))
qed

text \<open>What the backend is given: the data of the write, if its images are not 4 GiB or more apart, and
  where it goes.\<close>

definition stages :: "objects \<Rightarrow> image_copy_texture \<Rightarrow> 'b list \<Rightarrow> data_layout \<Rightarrow> extent3d \<Rightarrow> 'b staged_copy \<Rightarrow> bool" where
  "stages obs ct bytes lay s c \<longleftrightarrow>
     (let t = texs obs (it_texture ct); staged = (staged_layout c)\<lparr> offset := 0 \<rparr>
      in staged_size c = s \<and> tc_texture (staged_texture c) = it_texture ct \<and> tc_mipLevel (staged_texture c) = it_mipLevel ct \<and>
         tc_origin (staged_texture c) = it_origin ct \<and>
         (\<exists>info e. GetAspectInfo_of (mFormat t) (it_aspect ct) = ok info \<and>
            blocks_inside lay (block info) s (length bytes) \<and> blocks_inside staged (block info) s (length (staged_bytes c)) \<and>
            (images_close lay s \<longrightarrow> same_blocks (staged_bytes c) staged bytes lay (block info) s) \<and>
            subresource_extent t (it_mipLevel ct) e \<and> texels_inside (it_origin ct) s e))"

section \<open>Writes\<close>

lemma WriteTextureImpl_cases:
  assumes "copy_texture_ok dev (texs obs (it_texture ct))" "origin_typed (it_origin ct)" "extent_typed s" "layout_typed lay"
    and "ValidateImageCopyTexture obs ct s = ok ()" "SingleAspectUsedByImageCopyTexture obs ct = ok used" "ValidateTextureCopyRange obs ct s = ok ()"
    and info: "GetAspectInfo_of (mFormat (texs obs (it_texture ct))) (it_aspect ct) = ok info"
    and acc: "ValidateLinearTextureData lay (length bytes) (block info) s = ok ()"
    and up: "uploads_ok up" and s: "nonempty s"
  shows "\<exists>lay'. ApplyDefaultTextureDataLayoutOptions lay (block info) s = ok lay' \<and> WriteTextureImpl up obs ct bytes lay' s \<noteq> undef \<and>
    (\<forall>c. WriteTextureImpl up obs ct bytes lay' s = ok c \<longrightarrow> stages obs ct bytes lay s c)"
proof -
  let ?t = "texs obs (it_texture ct)" and ?b = "block info"
  let ?w = "width s div blockWidth ?b * byteSize ?b" and ?h = "height s div blockHeight ?b"
  obtain e where b: "block_ok ?b" "whole_blocks ?b s" "?w \<le> 2 ^ 21" "height s \<le> 2 ^ 17" "depthOrArrayLayers s \<le> 2 ^ 16" and e: "subresource_extent ?t (it_mipLevel ct) e" "texels_inside (it_origin ct) s e"
    using linear_info [OF assms(1-3,5-7)] info by auto
  obtain lay' dst where lay': "ApplyDefaultTextureDataLayoutOptions lay ?b s = ok lay'" "roomy_layout lay' ?b s" "blocks_inside lay' ?b s (length bytes)"
      "offset lay' = offset lay" "bytesPerRow lay \<noteq> kCopyStrideUndefined \<longrightarrow> bytesPerRow lay' = bytesPerRow lay"
      "rowsPerImage lay \<noteq> kCopyStrideUndefined \<longrightarrow> rowsPerImage lay' = rowsPerImage lay"
    and side: "texture_side obs ct = ok dst"
    using linear_copy [OF assms(1-7), of "length bytes" 0] info acc by auto
  have dst: "tc_texture dst = it_texture ct" "tc_mipLevel dst = it_mipLevel ct" "tc_origin dst = it_origin ct"
    using side by (auto simp: texture_side_def res_iff)
  have roomy: "roomy (bytesPerRow lay) (rowsPerImage lay) ?b s" using ValidateLinear_cases(2) [OF b(2) assms(4,3) acc] by blast
  have close: "images_close lay' s" if "images_close lay s" using roomy lay'(5,6) that by (auto simp: roomy_def images_close_def)
  obtain k where k: "k < 32" "optimalBytesPerRowAlignment up = 2 ^ k" "k \<le> 20" using up by (auto simp: uploads_ok_def)
  have w32: "unat (of_nat ?w :: 32 word) = ?w" using b(3) by (intro of_nat_small) simp
  have "(2 :: nat) ^ k \<le> 2 ^ 20" using k(3) by (intro power_increasing) auto
  then have k22: "?w + 2 ^ k \<le> 2 ^ 22" using b(3) by simp
  have "x + (y - 1) < 2 ^ 32" if "x + y \<le> 2 ^ 22" for x y :: nat using that by simp
  from this [OF k22] have "unat (of_nat ?w :: 32 word) + (2 ^ k - 1) < 2 ^ 32" unfolding w32 .
  from Align_u32_ok [OF k(1) this] obtain a where a: "Align_u32 (of_nat ?w) (of_nat (optimalBytesPerRowAlignment up)) = ok a" "?w \<le> unat a" "unat a < ?w + 2 ^ k"
    unfolding w32 k(2) by auto
  have opt: "unat a \<le> 2 ^ 22" using a(3) k22 by simp
  let ?u = "UploadTextureDataAligningBytesPerRowAndOffset up bytes ?w (unat a) ?h lay' (HasDepthOrStencil (mFormat ?t)) ?b s"
  note u = Upload_cases [OF up b(1,2) s assms(3) lay'(2,3) a(2) opt b(4,5), of "HasDepthOrStencil (mFormat ?t)"]
  have u32w: "u32 ?w = ?w" using b(3) by (simp add: u32_def)
  have impl: "WriteTextureImpl up obs ct bytes lay' s = bindR ?u (\<lambda>(start, m). ok \<lparr> staged_bytes = m,
      staged_layout = \<lparr> offset = start, bytesPerRow = unat a, rowsPerImage = ?h \<rparr>, staged_texture = dst, staged_size = s \<rparr>)"
    using b(2) unfolding WriteTextureImpl_def Let_def info u32w a(1) side bindR.simps by (simp add: whole_blocks_def a(1) u32w)
  have "WriteTextureImpl up obs ct bytes lay' s \<noteq> undef" unfolding impl undef_bind using u(1) by auto
  moreover have "stages obs ct bytes lay s c" if acc: "WriteTextureImpl up obs ct bytes lay' s = ok c" for c
  proof -
    obtain start m where m: "?u = ok (start, m)" and c: "c = \<lparr> staged_bytes = m, staged_layout = \<lparr> offset = start, bytesPerRow = unat a, rowsPerImage = ?h \<rparr>,
        staged_texture = dst, staged_size = s \<rparr>" using acc by (auto simp: impl bindR_Inr_iff)
    have at: "block_at lay' (byteSize ?b) k = block_at lay (byteSize ?b) k" if "k \<in> blocks ?b s" for k
      using default_strides [OF roomy lay'(4-6) that] .
    show ?thesis using u(2) [OF m] lay'(3) e dst info close
      by (auto simp: stages_def c Let_def staging_layout_def same_blocks_def blocks_inside_def at)
  qed
  ultimately show ?thesis using lay'(1) by blast
qed

lemma WriteTextureInternal_stages:
  assumes "texture_args dev obs ct" "extent_typed s" "layout_typed lay" "uploads_ok up"
  shows "let r = WriteTextureInternal device_lost queue_error up obs ct bytes lay s
    in r \<noteq> undef \<and> (\<forall>c. r = ok (Some c) \<longrightarrow> stages obs ct bytes lay s c) \<and> (r = ok None \<longrightarrow> \<not> nonempty s)"
proof -
  define r where "r = WriteTextureInternal device_lost queue_error up obs ct bytes lay s"
  let ?t = "texs obs (it_texture ct)" and ?v = "ValidateWriteTexture device_lost queue_error obs ct (length bytes) lay s"
  have t: "copy_texture_ok dev ?t" "origin_typed (it_origin ct)" and ok: "texture_ok dev ?t" using assms(1) by (auto simp: texture_args_def copy_texture_ok_def)
  have v: "\<exists>used info. ValidateImageCopyTexture obs ct s = ok () \<and> SingleAspectUsedByImageCopyTexture obs ct = ok used \<and> ValidateTextureCopyRange obs ct s = ok () \<and>
      GetAspectInfo_of (mFormat ?t) (it_aspect ct) = ok info \<and> ValidateLinearTextureData lay (length bytes) (block info) s = ok ()" if "?v = ok ()"
    using that by (auto simp: ValidateWriteTexture_def Let_def res_iff ValidateLinearToDepthStencilCopyRestrictions_def)
  have late: "GetAspectInfo_of (mFormat ?t) (it_aspect ct) \<noteq> undef \<and>
      (\<forall>info. GetAspectInfo_of (mFormat ?t) (it_aspect ct) = ok info \<longrightarrow> ValidateLinearTextureData lay (length bytes) (block info) s \<noteq> undef)"
    if img: "ValidateImageCopyTexture obs ct s = ok ()" and lin: "ValidateLinearToDepthStencilCopyRestrictions obs ct = ok ()"
      and range: "ValidateTextureCopyRange obs ct s = ok ()"
  proof -
    obtain used where "SingleAspectUsedByImageCopyTexture obs ct = ok used" using lin by (auto simp: ValidateLinearToDepthStencilCopyRestrictions_def res_iff)
    from linear_copy [OF t assms(2,3) img this range, of "length bytes" 0] show ?thesis by auto
  qed
  have early: "ValidateLinearToDepthStencilCopyRestrictions obs ct \<noteq> undef" "ValidateTextureCopyRange obs ct s \<noteq> undef"
    if img: "ValidateImageCopyTexture obs ct s = ok ()" and usage: "mTextureUsage ?t AND Tex_CopyDst \<noteq> 0"
    using ImageCopyTexture_cases(2) [OF t(1) img] SingleAspect_cases(1) [OF ok] planes_multi_planar [OF ok] t(1) usage
      TextureCopyRange_cases(1) [OF ok _ _ t(2) assms(2)]
    by (auto simp: copy_texture_ok_def ValidateLinearToDepthStencilCopyRestrictions_def undef_iff)
  have "ValidateCanUseInSubmitNow ?t \<noteq> undef" using texture_formatD(3) [OF ok] by (simp add: ValidateCanUseInSubmitNow_def)
  then have v_undef: "?v \<noteq> undef"
    using ImageCopyTexture_cases(1) [OF t(1)] early late by (auto simp: ValidateWriteTexture_def Let_def undef_iff ValidateObject_def)
  have r: "r = bindR ?v (\<lambda>_. if \<not> nonempty s then ok None
      else bindR (GetAspectInfo_of (mFormat ?t) (it_aspect ct)) (\<lambda>info.
         bindR (ApplyDefaultTextureDataLayoutOptions lay (block info) s) (\<lambda>layout.
         bindR (WriteTextureImpl up obs ct bytes layout s) (\<lambda>copy. ok (Some copy)))))"
    by (simp add: r_def WriteTextureInternal_def nonempty_def)
  have "r \<noteq> undef \<and> (\<forall>c. r = ok (Some c) \<longrightarrow> stages obs ct bytes lay s c) \<and> (r = ok None \<longrightarrow> \<not> nonempty s)"
  proof (cases "?v = ok () \<and> nonempty s")
    case True
    obtain used info where v': "ValidateImageCopyTexture obs ct s = ok ()" "SingleAspectUsedByImageCopyTexture obs ct = ok used"
        "ValidateTextureCopyRange obs ct s = ok ()" "GetAspectInfo_of (mFormat ?t) (it_aspect ct) = ok info"
        "ValidateLinearTextureData lay (length bytes) (block info) s = ok ()" using v True by blast
    obtain lay' where "ApplyDefaultTextureDataLayoutOptions lay (block info) s = ok lay'" "WriteTextureImpl up obs ct bytes lay' s \<noteq> undef"
        "\<forall>c. WriteTextureImpl up obs ct bytes lay' s = ok c \<longrightarrow> stages obs ct bytes lay s c"
      using WriteTextureImpl_cases [OF t assms(2,3) v' assms(4)] True by blast
    then show ?thesis using True v'(4) by (auto simp: r undef_bind bindR_Inr_iff)
  next
    case False
    then show ?thesis using v_undef by (auto simp: r undef_bind bindR_Inr_iff)
  qed
  then show ?thesis by (simp add: r_def Let_def)
qed

end
