(* ===== verification/Dynamic_Uploader.thy ===== *)
theory Dynamic_Uploader
  imports Ring_Buffer Dawn_Math
begin

text \<open>
  The dynamic uploader (\<open>dawn_native/DynamicUploader.cpp\<close>), which sub-allocates staging memory from
  a list of ring buffers and gives large requests a staging buffer of their own. A staging buffer
  is its index in the list of those created, which keeps their sizes; the mapped pointer of a
  handle is its distance from the start of the staging buffer. An operation that can fail returns
  its result beside the next state, since what it did before the failure stays.
\<close>

section \<open>State\<close>

record ring_buffer =
  mStagingBuffer :: "nat option"
  mAllocator :: ring

record uploader =
  mRingBuffers :: "ring_buffer list"
  mReleasedStagingBuffers :: "nat storage"
  staging_sizes :: "nat list"

record upload_handle =
  mappedBuffer :: nat
  startOffset :: nat
  stagingBuffer :: nat

definition kRingBufferSize :: nat where
  "kRingBufferSize = 4 * 1024 * 1024"

definition new_ring_buffer :: ring_buffer where
  "new_ring_buffer = \<lparr> mStagingBuffer = None, mAllocator = RingBufferAllocator kRingBufferSize \<rparr>"

definition DynamicUploader :: uploader where
  "DynamicUploader = \<lparr> mRingBuffers = [new_ring_buffer], mReleasedStagingBuffers = [], staging_sizes = [] \<rparr>"

section \<open>Operations\<close>

definition ReleaseStagingBuffer :: "nat \<Rightarrow> nat \<Rightarrow> uploader \<Rightarrow> unit res \<times> uploader" where
  "ReleaseStagingBuffer pending staging u =
     (case SerialQueue_Enqueue staging pending (mReleasedStagingBuffers u) of
        Inl e \<Rightarrow> (Inl e, u)
      | Inr q \<Rightarrow> (ok (), u\<lparr> mReleasedStagingBuffers := q \<rparr>))"

text \<open>\<open>create\<close> is what the backend does to create a staging buffer of a size.\<close>

definition create_staging :: "(nat \<Rightarrow> unit res) \<Rightarrow> nat \<Rightarrow> uploader \<Rightarrow> nat res \<times> uploader" where
  "create_staging create n u =
     (case create n of Inl e \<Rightarrow> (Inl e, u)
      | Inr _ \<Rightarrow> (ok (length (staging_sizes u)), u\<lparr> staging_sizes := staging_sizes u @ [n] \<rparr>))"

text \<open>The index of the first ring buffer with enough room left, the last one if there is none.\<close>

fun first_fit :: "nat \<Rightarrow> ring_buffer list \<Rightarrow> nat \<Rightarrow> nat \<Rightarrow> nat res" where
  "first_fit n [] i target = ok target"
| "first_fit n (b # bs) i target =
     (if \<not> Ring_GetSize (mAllocator b) \<ge> Ring_GetUsedSize (mAllocator b) then undef
      else if n \<le> Ring_GetSize (mAllocator b) - Ring_GetUsedSize (mAllocator b) then ok i
      else first_fit n bs (Suc i) target)"

text \<open>The allocation in ring buffer \<open>i\<close>, whose state stays changed.\<close>

definition ring_allocate :: "nat \<Rightarrow> nat \<Rightarrow> nat \<Rightarrow> uploader \<Rightarrow> nat res \<times> uploader" where
  "ring_allocate n serial i u =
     (case Ring_Allocate n serial (mAllocator (mRingBuffers u ! i)) of
        Inl e \<Rightarrow> (Inl e, u)
      | Inr (start, r) \<Rightarrow> (ok start, u\<lparr> mRingBuffers := (mRingBuffers u)[i := (mRingBuffers u ! i)\<lparr> mAllocator := r \<rparr>] \<rparr>))"

text \<open>The lazily created staging buffer behind ring buffer \<open>i\<close>, and the handle into it.\<close>

definition ring_handle :: "(nat \<Rightarrow> unit res) \<Rightarrow> nat \<Rightarrow> nat \<Rightarrow> uploader \<Rightarrow> upload_handle res \<times> uploader" where
  "ring_handle create i start u =
     (let handle = (\<lambda>k. \<lparr> mappedBuffer = start, startOffset = start, stagingBuffer = k \<rparr>)
      in case mStagingBuffer (mRingBuffers u ! i) of
           Some k \<Rightarrow> (ok (handle k), u)
         | None \<Rightarrow>
             (case create_staging create (Ring_GetSize (mAllocator (mRingBuffers u ! i))) u of
                (Inl e, u) \<Rightarrow> (Inl e, u)
              | (Inr k, u) \<Rightarrow> (ok (handle k), u\<lparr> mRingBuffers := (mRingBuffers u)[i := (mRingBuffers u ! i)\<lparr> mStagingBuffer := Some k \<rparr>] \<rparr>)))"

definition AllocateInternal :: "(nat \<Rightarrow> unit res) \<Rightarrow> nat \<Rightarrow> nat \<Rightarrow> nat \<Rightarrow> uploader \<Rightarrow> upload_handle res \<times> uploader" where
  "AllocateInternal create pending allocationSize serial u =
     (if allocationSize > kRingBufferSize then
        (case create_staging create allocationSize u of
           (Inl e, u) \<Rightarrow> (Inl e, u)
         | (Inr k, u) \<Rightarrow>
             (case ReleaseStagingBuffer pending k u of
                (Inl e, u) \<Rightarrow> (Inl e, u)
              | (Inr _, u) \<Rightarrow> (ok \<lparr> mappedBuffer = 0, startOffset = 0, stagingBuffer = k \<rparr>, u)))
      else if mRingBuffers u = [] then (undef, u)
      else
        (case first_fit allocationSize (mRingBuffers u) 0 (length (mRingBuffers u) - 1) of
           Inl e \<Rightarrow> (Inl e, u)
         | Inr i \<Rightarrow>
             (case ring_allocate allocationSize serial i u of
                (Inl e, u) \<Rightarrow> (Inl e, u)
              | (Inr start, u) \<Rightarrow>
                  if start \<noteq> kInvalidOffset then ring_handle create i start u
                  else
                    let u = u\<lparr> mRingBuffers := mRingBuffers u @ [new_ring_buffer] \<rparr>;
                        i = length (mRingBuffers u) - 1
                    in (case ring_allocate allocationSize serial i u of
                          (Inl e, u) \<Rightarrow> (Inl e, u)
                        | (Inr start, u) \<Rightarrow> if start = kInvalidOffset then (undef, u) else ring_handle create i start u))))"

definition Uploader_Allocate :: "(nat \<Rightarrow> unit res) \<Rightarrow> nat \<Rightarrow> nat \<Rightarrow> nat \<Rightarrow> nat \<Rightarrow> uploader \<Rightarrow> upload_handle res \<times> uploader" where
  "Uploader_Allocate create pending allocationSize serial offsetAlignment u =
     (if \<not> offsetAlignment > 0 then (undef, u)
      else
        (case AllocateInternal create pending (u64 (allocationSize + offsetAlignment - 1)) serial u of
           (Inl e, u) \<Rightarrow> (Inl e, u)
         | (Inr h, u) \<Rightarrow>
             (case Align (of_nat (startOffset h)) (of_nat offsetAlignment) of
                Inl e \<Rightarrow> (Inl e, u)
              | Inr aligned \<Rightarrow>
                  let additionalOffset = sub64 (unat aligned) (startOffset h)
                  in (ok (h\<lparr> mappedBuffer := mappedBuffer h + additionalOffset, startOffset := u64 (startOffset h + additionalOffset) \<rparr>), u))))"

text \<open>The loop over the ring buffers; an erased one is followed by the one after the next.\<close>

function deallocate_rings :: "nat \<Rightarrow> nat \<Rightarrow> ring_buffer list \<Rightarrow> ring_buffer list res option" where
  "deallocate_rings serial i bs =
     (if i < length bs then
        (case Ring_Deallocate serial (mAllocator (bs ! i)) of
           None \<Rightarrow> None
         | Some (Inl e) \<Rightarrow> Some (Inl e)
         | Some (Inr r) \<Rightarrow>
             let bs = bs[i := (bs ! i)\<lparr> mAllocator := r \<rparr>];
                 bs = (if Ring_Empty r \<and> i < length bs - 1 then take i bs @ drop (Suc i) bs else bs)
             in deallocate_rings serial (Suc i) bs)
      else Some (ok bs))"
  by pat_completeness auto

termination
  by (relation "measure (\<lambda>(serial, i, bs). length bs - i)") (auto simp: min_def split: if_splits)

declare deallocate_rings.simps [simp del]

definition Uploader_Deallocate :: "nat \<Rightarrow> uploader \<Rightarrow> uploader res option" where
  "Uploader_Deallocate lastCompletedSerial u =
     map_option (\<lambda>r. bindR r (\<lambda>bs.
         ok (u\<lparr> mRingBuffers := bs, mReleasedStagingBuffers := ClearUpTo lastCompletedSerial (mReleasedStagingBuffers u) \<rparr>)))
       (deallocate_rings lastCompletedSerial 0 (mRingBuffers u))"

section \<open>The invariant\<close>

text \<open>What a client was granted: the serial it is used at, the staging buffer and the block.\<close>

type_synonym grant = "nat \<times> nat \<times> block"

abbreviation grant_serial :: "grant \<Rightarrow> nat" where "grant_serial g \<equiv> fst g"
abbreviation grant_staging :: "grant \<Rightarrow> nat" where "grant_staging g \<equiv> fst (snd g)"
abbreviation grant_block :: "grant \<Rightarrow> block" where "grant_block g \<equiv> snd (snd g)"

definition on :: "nat \<Rightarrow> grant list \<Rightarrow> grant list" where
  "on k gs = filter (\<lambda>g. grant_staging g = k) gs"

text \<open>The lease of the ring buffer from which a grant was cut.\<close>

definition cut_from :: "grant \<Rightarrow> lease \<Rightarrow> bool" where
  "cut_from g l \<longleftrightarrow> fst l = grant_serial g \<and> fst (snd l) \<le> fst (grant_block g) \<and>
     fst (grant_block g) + snd (grant_block g) \<le> fst (snd l) + snd (snd l)"

inductive cuts :: "grant list \<Rightarrow> lease list \<Rightarrow> bool" where
  cuts_none: "cuts [] ls"
| cuts_skip: "cuts gs ls \<Longrightarrow> cuts gs (l # ls)"
| cuts_cut: "cut_from g l \<Longrightarrow> cuts gs ls \<Longrightarrow> cuts (g # gs) (l # ls)"

inductive_simps cuts_no_lease: "cuts gs []"

text \<open>A ring buffer may hold leases without a grant: those that are already over, and those of
  allocations that failed later.\<close>

definition ring_ok :: "nat list \<Rightarrow> grant list \<Rightarrow> ring_buffer \<Rightarrow> lease list \<Rightarrow> bool" where
  "ring_ok sizes gs b ls \<longleftrightarrow> ring_inv (mAllocator b) ls \<and> mMaxBlockSize (mAllocator b) = kRingBufferSize \<and>
     (\<forall>k. mStagingBuffer b = Some k \<longrightarrow> k < length sizes \<and> sizes ! k = kRingBufferSize \<and> cuts (on k gs) ls)"

definition own_staging :: "ring_buffer list \<Rightarrow> bool" where
  "own_staging bs \<longleftrightarrow> (\<forall>i < length bs. \<forall>j < length bs. \<forall>k. mStagingBuffer (bs ! i) = Some k \<and> mStagingBuffer (bs ! j) = Some k \<longrightarrow> i = j)"

definition backed :: "ring_buffer list \<Rightarrow> nat \<Rightarrow> bool" where
  "backed bs k \<longleftrightarrow> (\<exists>b \<in> set bs. mStagingBuffer b = Some k)"

definition rings_inv :: "nat \<Rightarrow> nat list \<Rightarrow> grant list \<Rightarrow> (nat \<times> nat) list \<Rightarrow> ring_buffer list \<Rightarrow> bool" where
  "rings_inv t sizes gs released bs \<longleftrightarrow> bs \<noteq> [] \<and> own_staging bs \<and>
     (\<forall>b \<in> set bs. \<exists>ls. ring_ok sizes gs b ls \<and> (\<forall>l \<in> set ls. fst l \<le> t)) \<and>
     (\<forall>(s, k) \<in> set released. s \<le> t \<and> k < length sizes \<and> \<not> backed bs k) \<and>
     (\<forall>g \<in> set gs. grant_staging g < length sizes \<and>
        (backed bs (grant_staging g) \<or>
         (grant_serial g, grant_staging g) \<in> set released \<and> on (grant_staging g) gs = [g] \<and>
           fst (grant_block g) + snd (grant_block g) \<le> sizes ! grant_staging g))"

definition uploader_inv :: "nat \<Rightarrow> grant list \<Rightarrow> uploader \<Rightarrow> bool" where
  "uploader_inv t gs u \<longleftrightarrow> storage_ok (mReleasedStagingBuffers u) \<and>
     rings_inv t (staging_sizes u) gs (items (mReleasedStagingBuffers u)) (mRingBuffers u)"

lemma on_append: "on k (gs @ [g]) = (if grant_staging g = k then on k gs @ [g] else on k gs)"
  by (simp add: on_def)

lemma on_fresh: "(\<And>g. g \<in> set gs \<Longrightarrow> grant_staging g < n) \<Longrightarrow> on n gs = []"
  by (auto simp: on_def filter_empty_conv)

lemma cuts_filter: "cuts gs ls \<Longrightarrow> cuts (filter (\<lambda>g. P (grant_serial g)) gs) (filter (\<lambda>l. P (fst l)) ls)"
  by (induction rule: cuts.induct) (auto simp: cut_from_def intro: cuts.intros)

lemma cuts_filter_grants: "cuts gs ls \<Longrightarrow> cuts (filter P gs) ls"
  by (induction rule: cuts.induct) (auto intro: cuts.intros)

lemma cuts_single: "cut_from g l \<Longrightarrow> cuts [g] (ls @ [l])"
  by (induction ls) (auto intro: cuts.intros)

lemma cuts_snoc: "cuts gs ls \<Longrightarrow> cuts gs (ls @ [l])" "cuts gs ls \<Longrightarrow> cut_from g l \<Longrightarrow> cuts (gs @ [g]) (ls @ [l])"
  by (induction rule: cuts.induct) (auto intro: cuts.intros cuts_single)

lemma cuts_member: "cuts gs ls \<Longrightarrow> g \<in> set gs \<Longrightarrow> \<exists>l \<in> set ls. cut_from g l"
  by (induction rule: cuts.induct) auto

lemma cuts_apart: "cuts gs ls \<Longrightarrow> pairwise_apart (map snd ls) \<Longrightarrow> pairwise_apart (map grant_block gs)"
proof (induction rule: cuts.induct)
  case (cuts_cut g l gs ls)
  have "apart (grant_block g) (grant_block g')" if g': "g' \<in> set gs" for g'
  proof -
    obtain l' where l': "l' \<in> set ls" "cut_from g' l'" using cuts_member [OF cuts_cut.hyps(2) g'] by blast
    then have "apart (snd l) (snd l')" using cuts_cut.prems by (auto simp: list_all_iff)
    then show ?thesis using cuts_cut.hyps(1) l'(2) by (auto simp: cut_from_def apart_def)
  qed
  then show ?case using cuts_cut by (auto simp: list_all_iff)
qed auto

text \<open>Growing the staging buffers, the grants of other staging buffers and the serial.\<close>

lemma ring_ok_mono:
  assumes "ring_ok sizes gs b ls" "\<And>k. mStagingBuffer b = Some k \<Longrightarrow> on k gs' = on k gs"
  shows "ring_ok (sizes @ ns) gs' b ls"
  using assms by (auto simp: ring_ok_def nth_append)

lemma ring_bufferI: "ring_inv r ls \<Longrightarrow> mMaxBlockSize r = kRingBufferSize \<Longrightarrow> ring_ok sizes gs \<lparr> mStagingBuffer = None, mAllocator = r \<rparr> ls"
  by (simp add: ring_ok_def)

lemma new_ring_ok: "ring_ok sizes gs new_ring_buffer []"
  by (simp add: ring_ok_def new_ring_buffer_def ring_inv_def RingBufferAllocator_def wrap_at_def kRingBufferSize_def)

text \<open>A new ring buffer is never full.\<close>

lemma new_ring_serves:
  assumes "n \<le> kRingBufferSize"
  shows "\<exists>r. Ring_Allocate n s (mAllocator new_ring_buffer) = ok (0, r)"
  using assms by (simp add: new_ring_buffer_def RingBufferAllocator_def Ring_Allocate_def sub_alloc_def take_at_end_def sub64_def u64_def
      kInvalidOffset_def kRingBufferSize_def SerialQueue_Enqueue_def)

lemma enqueue_defined:
  assumes "storage_ok q" "\<forall>x \<in> set (items q). fst x \<le> s"
  shows "\<exists>q'. SerialQueue_Enqueue v s q = ok q'"
proof (cases q rule: rev_cases)
  case (snoc ps p)
  then have "snd p \<noteq> []" using assms(1) by (cases p) (auto simp: storage_ok_def vectors_ok_def)
  then obtain v' where "(fst p, v') \<in> set (items q)" using snoc by (cases p; cases "snd p") auto
  then show ?thesis using assms(2) snoc by (fastforce simp: SerialQueue_Enqueue_def)
qed (simp add: SerialQueue_Enqueue_def)

lemma Ring_Allocate_defined:
  assumes "ring_inv r ls" "\<forall>l \<in> set ls. fst l \<le> s"
  shows "\<exists>k r'. Ring_Allocate n s r = ok (k, r')"
proof -
  have "laid_out (mMaxBlockSize r) (mUsedStartOffset r) (items (mInflightRequests r)) ls (mUsedStartOffset r + mUsedSize r)"
    and st: "storage_ok (mInflightRequests r)" using assms(1) by (auto simp: ring_inv_def)
  then have "fst ` set (items (mInflightRequests r)) = fst ` set ls" using laid_out_length by (metis set_map)
  then have "\<forall>x \<in> set (items (mInflightRequests r)). fst x \<le> s" using assms(2) by (metis (no_types, lifting) image_iff)
  then have enq: "\<exists>q'. SerialQueue_Enqueue v s (mInflightRequests r) = ok q'" for v using enqueue_defined [OF st] by blast
  have "mInflightRequests (snd (sub_alloc n r)) = mInflightRequests r"
    by (simp add: sub_alloc_def take_at_end_def take_at_front_def Let_def)
  then show ?thesis using enq by (auto simp: Ring_Allocate_def split: prod.split) (metis bindR.simps(2) snd_conv)
qed

section \<open>Allocation\<close>

lemma rings_invD:
  assumes "rings_inv t sizes gs rel bs"
  shows "bs \<noteq> []" "own_staging bs" "b \<in> set bs \<Longrightarrow> \<exists>ls. ring_ok sizes gs b ls \<and> (\<forall>l \<in> set ls. fst l \<le> t)"
    "(s, k) \<in> set rel \<Longrightarrow> s \<le> t \<and> k < length sizes \<and> \<not> backed bs k" "g \<in> set gs \<Longrightarrow> grant_staging g < length sizes"
    "backed bs k \<Longrightarrow> k < length sizes"
  using assms by (auto simp: rings_inv_def backed_def ring_ok_def)

lemma backed_nth: "backed bs k \<longleftrightarrow> (\<exists>j < length bs. mStagingBuffer (bs ! j) = Some k)"
  unfolding backed_def by (metis in_set_conv_nth)

lemma same_staging: "mStagingBuffer b = Some k \<Longrightarrow> b\<lparr> mAllocator := r, mStagingBuffer := Some k \<rparr> = b\<lparr> mAllocator := r \<rparr>"
  by (cases b) simp

lemma first_fit_ok:
  assumes "\<forall>b \<in> set bs. \<exists>ls. ring_inv (mAllocator b) ls"
  shows "\<exists>j. first_fit n bs i target = ok j \<and> (j = target \<or> i \<le> j \<and> j < i + length bs)"
  using assms
proof (induction bs arbitrary: i)
  case (Cons b bs)
  then have "Ring_GetUsedSize (mAllocator b) \<le> Ring_GetSize (mAllocator b)"
    by (auto simp: ring_inv_def Ring_GetUsedSize_def Ring_GetSize_def)
  then show ?case using Cons.IH [of "Suc i"] Cons.prems by auto
qed simp

text \<open>Replacing the ring buffer at \<open>i\<close> by one that serves a new grant.\<close>

lemma rings_inv_update:
  assumes inv: "rings_inv t sizes gs rel bs" "t \<le> t'" and i: "i < length bs"
    and b: "mStagingBuffer b = Some k" "ring_ok (sizes @ ns) (gs @ gs') b ls" "\<forall>l \<in> set ls. fst l \<le> t'"
    and k: "mStagingBuffer (bs ! i) = Some k \<and> ns = [] \<or> mStagingBuffer (bs ! i) = None \<and> k = length sizes \<and> ns \<noteq> []"
    and gs': "\<forall>g \<in> set gs'. grant_staging g = k"
  shows "rings_inv t' (sizes @ ns) (gs @ gs') rel (bs[i := b])"
proof -
  note D = rings_invD [OF inv(1)]
  have k_len: "k < length (sizes @ ns)" using b(1,2) by (auto simp: ring_ok_def)
  have other: "k' \<noteq> k" if "j < length bs" "j \<noteq> i" "mStagingBuffer (bs ! j) = Some k'" for j k'
  proof
    assume "k' = k"
    then have "mStagingBuffer (bs ! i) \<noteq> Some k" using D(2) that i unfolding own_staging_def by metis
    moreover have "k' < length sizes" using D(6) [of k'] that nth_mem unfolding backed_def by metis
    ultimately show False using k \<open>k' = k\<close> by auto
  qed
  have "own_staging (bs[i := b])" using D(2) other b(1) i by (auto simp: own_staging_def nth_list_update)
  moreover have "\<exists>ls. ring_ok (sizes @ ns) (gs @ gs') c ls \<and> (\<forall>l \<in> set ls. fst l \<le> t')" if c: "c \<in> set (bs[i := b])" for c
  proof (cases "c = b")
    case False
    obtain j where j: "j < length (bs[i := b])" "bs[i := b] ! j = c" using c by (auto simp: in_set_conv_nth)
    then have jc: "j < length bs" "j \<noteq> i" "bs ! j = c" using False by (cases "j = i"; simp)+
    then obtain ls where ls: "ring_ok sizes gs c ls" "\<forall>l \<in> set ls. fst l \<le> t" using D(3) [of c] nth_mem by blast
    have "on k' (gs @ gs') = on k' gs" if "mStagingBuffer c = Some k'" for k'
      using other [OF jc(1,2)] that gs' by (auto simp: on_def filter_empty_conv jc(3))
    then show ?thesis using ring_ok_mono [OF ls(1)] ls(2) inv(2) by (meson le_trans)
  qed (use b in auto)
  moreover have backed: "backed (bs[i := b]) k' \<longleftrightarrow> backed bs k' \<or> k' = k" for k'
  proof
    assume "backed (bs[i := b]) k'"
    then obtain j where "j < length bs" "mStagingBuffer (bs[i := b] ! j) = Some k'" by (auto simp: backed_nth)
    then show "backed bs k' \<or> k' = k" using b(1) by (cases "j = i") (auto simp: backed_nth)
  next
    assume a: "backed bs k' \<or> k' = k"
    show "backed (bs[i := b]) k'"
    proof (cases "k' = k")
      case False
      then obtain j where j: "j < length bs" "mStagingBuffer (bs ! j) = Some k'" using a by (auto simp: backed_nth)
      then have "j \<noteq> i" using k False by auto
      then show ?thesis using j unfolding backed_nth by (intro exI [of _ j]) simp
    next
      case True
      then show ?thesis using i b(1) unfolding backed_nth by (intro exI [of _ i]) simp
    qed
  qed
  moreover have "s \<le> t' \<and> k' < length (sizes @ ns) \<and> \<not> backed (bs[i := b]) k'" if "(s, k') \<in> set rel" for s k'
  proof -
    have "k' \<noteq> k" using D(4) [OF that] k i by (auto simp: backed_nth)
    then show ?thesis using D(4) [OF that] inv(2) by (auto simp: backed)
  qed
  moreover have "grant_staging g < length (sizes @ ns) \<and> (backed (bs[i := b]) (grant_staging g) \<or>
      (grant_serial g, grant_staging g) \<in> set rel \<and> on (grant_staging g) (gs @ gs') = [g] \<and>
      fst (grant_block g) + snd (grant_block g) \<le> (sizes @ ns) ! grant_staging g)" if g: "g \<in> set (gs @ gs')" for g
  proof (cases "grant_staging g = k")
    case True
    then show ?thesis using k_len by (simp add: backed)
  next
    case False
    then have "g \<in> set gs" "on (grant_staging g) (gs @ gs') = on (grant_staging g) gs" using g gs' by (auto simp: on_def filter_empty_conv)
    then show ?thesis using inv(1) by (auto simp: rings_inv_def backed nth_append)
  qed
  ultimately show ?thesis using D(1) unfolding rings_inv_def by (auto simp: backed)
qed

text \<open>The same for one whose new lease has no grant.\<close>

lemma rings_inv_lease:
  assumes inv: "rings_inv t sizes gs rel bs" "t \<le> t'" and i: "i < length bs"
    and b: "mStagingBuffer b = mStagingBuffer (bs ! i)" "ring_ok sizes gs b ls" "\<forall>l \<in> set ls. fst l \<le> t'"
  shows "rings_inv t' sizes gs rel (bs[i := b])"
proof -
  have st: "mStagingBuffer (bs[i := b] ! j) = mStagingBuffer (bs ! j)" if "j < length bs" for j using b(1) that by (cases "j = i") auto
  then have "backed (bs[i := b]) k = backed bs k" for k by (auto simp: backed_nth)
  moreover have "own_staging (bs[i := b])" using inv(1) st by (simp add: rings_inv_def own_staging_def)
  moreover have "\<exists>ls. ring_ok sizes gs c ls \<and> (\<forall>l \<in> set ls. fst l \<le> t')" if c: "c \<in> set (bs[i := b])" for c
  proof (cases "c = b")
    case False
    then have "c \<in> set bs" using set_update_subset_insert [of bs i b] c by blast
    then show ?thesis using rings_invD(3) [OF inv(1)] inv(2) by (meson le_trans)
  qed (use b in auto)
  ultimately show ?thesis using inv by (fastforce simp: rings_inv_def)
qed

lemma rings_inv_append: "rings_inv t sizes gs rel bs \<Longrightarrow> rings_inv t sizes gs rel (bs @ [new_ring_buffer])"
proof -
  assume inv: "rings_inv t sizes gs rel bs"
  have "backed (bs @ [new_ring_buffer]) k = backed bs k" for k by (simp add: backed_def new_ring_buffer_def)
  moreover have "own_staging (bs @ [new_ring_buffer])"
    using inv by (auto simp: rings_inv_def own_staging_def nth_append new_ring_buffer_def split: if_splits)
  ultimately show ?thesis using inv new_ring_ok [of sizes gs] by (auto simp: rings_inv_def)
qed

text \<open>What an allocation of a block promises: any part of it may be granted.\<close>

definition grantable :: "nat \<Rightarrow> grant list \<Rightarrow> nat \<Rightarrow> upload_handle \<Rightarrow> uploader \<Rightarrow> bool" where
  "grantable s gs n h u \<longleftrightarrow> mappedBuffer h = startOffset h \<and> startOffset h \<le> kRingBufferSize \<and>
     (\<forall>a m. startOffset h \<le> a \<and> a + m \<le> startOffset h + n \<longrightarrow> uploader_inv s (gs @ [(s, stagingBuffer h, a, m)]) u)"

lemma ring_path:
  assumes inv: "uploader_inv t gs u" "t \<le> s" and i: "i < length (mRingBuffers u)"
    and alloc: "Ring_Allocate n s (mAllocator (mRingBuffers u ! i)) = ok (start, r)" "start \<noteq> kInvalidOffset" and create: "create kRingBufferSize \<noteq> undef"
    and u1: "u1 = u\<lparr> mRingBuffers := (mRingBuffers u)[i := (mRingBuffers u ! i)\<lparr> mAllocator := r \<rparr>] \<rparr>"
    and res: "ring_handle create i start u1 = (h, u')"
  shows "h \<noteq> undef" "h = ok handle \<Longrightarrow> grantable s gs n handle u'" "h = Inl e \<Longrightarrow> uploader_inv s gs u'"
proof -
  let ?bs = "mRingBuffers u" and ?b = "mRingBuffers u ! i" and ?sizes = "staging_sizes u" and ?rel = "items (mReleasedStagingBuffers u)"
  have st: "storage_ok (mReleasedStagingBuffers u)" and R: "rings_inv t ?sizes gs ?rel ?bs" using inv(1) by (auto simp: uploader_inv_def)
  obtain ls where ls: "ring_ok ?sizes gs ?b ls" "\<forall>l \<in> set ls. fst l \<le> t" using rings_invD(3) [OF R nth_mem [OF i]] by blast
  have ri: "ring_inv (mAllocator ?b) ls" "mMaxBlockSize (mAllocator ?b) = kRingBufferSize" using ls(1) by (auto simp: ring_ok_def)
  from Ring_Allocate_inv [OF ri(1) alloc(1)] alloc(2) ri(2)
  have r: "mMaxBlockSize r = kRingBufferSize" "start + n \<le> kRingBufferSize" "ring_inv r (ls @ [(s, start, n)])" by auto
  have old: "\<forall>l \<in> set (ls @ [(s, start, n)]). fst l \<le> s" using ls(2) inv(2) by auto
  have fresh: "on (length ?sizes) gs = []" using rings_invD(5) [OF R] by (intro on_fresh) blast
  have size1: "Ring_GetSize (mAllocator (mRingBuffers u1 ! i)) = kRingBufferSize" using i r(1) by (simp add: u1 Ring_GetSize_def)
  have grant: "uploader_inv s (gs @ gs') (u\<lparr> mRingBuffers := ?bs[i := ?b\<lparr> mAllocator := r, mStagingBuffer := Some k \<rparr>], staging_sizes := ?sizes @ ns \<rparr>)"
    if k: "mStagingBuffer ?b = Some k \<and> ns = [] \<or> mStagingBuffer ?b = None \<and> k = length ?sizes \<and> ns = [kRingBufferSize]"
      and gs': "gs' = [] \<or> gs' = [(s, k, a, m)] \<and> start \<le> a \<and> a + m \<le> start + n" for k ns gs' a m
  proof -
    have cut: "cuts (on k gs @ gs') (ls @ [(s, start, n)])"
    proof -
      have "cuts (on k gs) ls" using k ls(1) fresh by (auto simp: ring_ok_def intro: cuts_none)
      then show ?thesis using gs' cuts_snoc by (auto simp: cut_from_def)
    qed
    have "on k (gs @ gs') = on k gs @ gs'" using gs' by (auto simp: on_def)
    then have "ring_ok (?sizes @ ns) (gs @ gs') (?b\<lparr> mAllocator := r, mStagingBuffer := Some k \<rparr>) (ls @ [(s, start, n)])"
      using cut k ls(1) r by (auto simp: ring_ok_def nth_append)
    moreover have "\<forall>g \<in> set gs'. grant_staging g = k" using gs' by auto
    ultimately have "rings_inv s (?sizes @ ns) (gs @ gs') ?rel (?bs[i := ?b\<lparr> mAllocator := r, mStagingBuffer := Some k \<rparr>])"
      using k by (intro rings_inv_update [OF R inv(2) i _ _ old]) auto
    then show ?thesis using st by (simp add: uploader_inv_def)
  qed
  have lease: "uploader_inv s gs u1"
  proof -
    have "ring_ok ?sizes gs (?b\<lparr> mAllocator := r \<rparr>) (ls @ [(s, start, n)])" using ls(1) r by (auto simp: ring_ok_def intro: cuts_snoc)
    then have "rings_inv s ?sizes gs ?rel (?bs[i := ?b\<lparr> mAllocator := r \<rparr>])" by (intro rings_inv_lease [OF R inv(2) i _ _ old]) simp_all
    then show ?thesis using st by (simp add: u1 uploader_inv_def)
  qed
  show "h \<noteq> undef" "h = Inl e \<Longrightarrow> uploader_inv s gs u'"
    using res create lease size1 i by (auto simp: ring_handle_def create_staging_def u1 split: option.splits sum.splits prod.splits)
  show "grantable s gs n handle u'" if acc: "h = ok handle"
  proof -
    define k where "k = stagingBuffer handle"
    define ns where "ns = (if mStagingBuffer ?b = None then [kRingBufferSize] else [])"
    have facts: "mappedBuffer handle = start" "startOffset handle = start"
        "mStagingBuffer ?b = Some k \<and> ns = [] \<or> mStagingBuffer ?b = None \<and> k = length ?sizes \<and> ns = [kRingBufferSize]"
        "u' = u\<lparr> mRingBuffers := ?bs[i := ?b\<lparr> mAllocator := r, mStagingBuffer := Some k \<rparr>], staging_sizes := ?sizes @ ns \<rparr>"
      using res acc size1 i r(1)
      by (auto simp: ring_handle_def create_staging_def u1 k_def ns_def Ring_GetSize_def same_staging split: option.splits sum.splits prod.splits)
    show ?thesis using grant [OF facts(3)] r(2) by (auto simp: grantable_def facts(1,2,4) k_def [symmetric])
  qed
qed

lemma uploader_inv_mono: "uploader_inv t gs u \<Longrightarrow> t \<le> s \<Longrightarrow> uploader_inv s gs u"
  unfolding uploader_inv_def rings_inv_def by (fastforce intro: le_trans)

text \<open>A staging buffer that is created and handed to the queue of released ones.\<close>

lemma uploader_inv_release:
  assumes inv: "uploader_inv t gs u" "t \<le> s" and gs': "gs' = [] \<or> gs' = [(s, length (staging_sizes u), a, m)] \<and> a + m \<le> n"
    and q: "SerialQueue_Enqueue (length (staging_sizes u)) s (mReleasedStagingBuffers u) = ok q"
  shows "uploader_inv s (gs @ gs') (u\<lparr> staging_sizes := staging_sizes u @ [n], mReleasedStagingBuffers := q \<rparr>)"
proof -
  let ?k = "length (staging_sizes u)" and ?bs = "mRingBuffers u" and ?rel = "items (mReleasedStagingBuffers u)"
  have st: "storage_ok (mReleasedStagingBuffers u)" and R: "rings_inv t (staging_sizes u) gs ?rel ?bs" using inv(1) by (auto simp: uploader_inv_def)
  note enq = enqueue_items [OF st q] and D = rings_invD [OF R]
  have k: "\<not> backed ?bs ?k" "on ?k gs = []" using D(6) [of ?k] on_fresh [OF D(5)] by auto
  have on': "on k (gs @ gs') = on k gs" if "k \<noteq> ?k" for k using gs' that by (auto simp: on_def)
  have "\<exists>ls. ring_ok (staging_sizes u @ [n]) (gs @ gs') b ls \<and> (\<forall>l \<in> set ls. fst l \<le> s)" if b: "b \<in> set ?bs" for b
  proof -
    obtain ls where ls: "ring_ok (staging_sizes u) gs b ls" "\<forall>l \<in> set ls. fst l \<le> t" using D(3) [OF b] by blast
    have "on k (gs @ gs') = on k gs" if "mStagingBuffer b = Some k" for k using that b k(1) by (intro on') (auto simp: backed_def)
    then show ?thesis using ring_ok_mono [OF ls(1)] ls(2) inv(2) by (meson le_trans)
  qed
  moreover have "g \<in> set (gs @ gs') \<Longrightarrow> grant_staging g < length (staging_sizes u @ [n]) \<and> (backed ?bs (grant_staging g) \<or>
      (grant_serial g, grant_staging g) \<in> set (?rel @ [(s, ?k)]) \<and> on (grant_staging g) (gs @ gs') = [g] \<and>
      fst (grant_block g) + snd (grant_block g) \<le> (staging_sizes u @ [n]) ! grant_staging g)" for g
  proof (cases "g \<in> set gs")
    case True
    then have "grant_staging g < ?k" "on (grant_staging g) (gs @ gs') = on (grant_staging g) gs" using D(5) on' by (auto dest: D(5))
    then show ?thesis using R True by (auto simp: rings_inv_def nth_append)
  next
    case False
    assume "g \<in> set (gs @ gs')"
    then have "gs' = [g]" "g = (s, ?k, a, m)" "a + m \<le> n" using False gs' by auto
    then show ?thesis using k(2) by (simp add: on_append)
  qed
  moreover have "\<forall>(s', k) \<in> set (?rel @ [(s, ?k)]). s' \<le> s \<and> k < length (staging_sizes u @ [n]) \<and> \<not> backed ?bs k"
    using D(4) k(1) inv(2) by fastforce
  ultimately show ?thesis using D(1,2) enq by (simp add: uploader_inv_def rings_inv_def)
qed

lemma AllocateInternal_cases:
  assumes inv: "uploader_inv t gs u" "t \<le> s" and create: "\<forall>n. create n \<noteq> undef" and res: "AllocateInternal create s n s u = (h, u')"
  shows "h \<noteq> undef" "h = ok handle \<Longrightarrow> grantable s gs n handle u'" "h = Inl e \<Longrightarrow> uploader_inv s gs u'"
proof -
  let ?bs = "mRingBuffers u"
  have st: "storage_ok (mReleasedStagingBuffers u)" and R: "rings_inv t (staging_sizes u) gs (items (mReleasedStagingBuffers u)) ?bs"
    using inv(1) by (auto simp: uploader_inv_def)
  have "h \<noteq> undef \<and> (\<forall>handle. h = ok handle \<longrightarrow> grantable s gs n handle u') \<and> (\<forall>e. h = Inl e \<longrightarrow> uploader_inv s gs u')"
  proof (cases "n > kRingBufferSize")
    case True
    have old: "\<forall>x \<in> set (items (mReleasedStagingBuffers u)). fst x \<le> s" using rings_invD(4) [OF R] inv(2) by fastforce
    obtain q where q: "SerialQueue_Enqueue (length (staging_sizes u)) s (mReleasedStagingBuffers u) = ok q"
      using enqueue_defined [OF st old] by blast
    have "uploader_inv s gs u" by (rule uploader_inv_mono [OF inv])
    then show ?thesis using res True create q uploader_inv_release [OF inv _ q, of "[(s, length (staging_sizes u), a, m)]" a m n for a m]
      by (auto simp: AllocateInternal_def create_staging_def ReleaseStagingBuffer_def grantable_def split: sum.splits)
  next
    case False
    have rings: "\<exists>ls. ring_inv (mAllocator b) ls" if "b \<in> set ?bs" for b using rings_invD(3) [OF R that] by (auto simp: ring_ok_def)
    obtain i where ff: "first_fit n ?bs 0 (length ?bs - 1) = ok i" "i < length ?bs"
      using first_fit_ok [of ?bs n 0 "length ?bs - 1"] rings rings_invD(1) [OF R] by fastforce
    obtain ls where ls: "ring_ok (staging_sizes u) gs (?bs ! i) ls" "\<forall>l \<in> set ls. fst l \<le> t" using rings_invD(3) [OF R nth_mem [OF ff(2)]] by blast
    then have ri: "ring_inv (mAllocator (?bs ! i)) ls" "\<forall>l \<in> set ls. fst l \<le> s" using inv(2) by (auto simp: ring_ok_def intro: le_trans)
    obtain start r where al: "Ring_Allocate n s (mAllocator (?bs ! i)) = ok (start, r)" using Ring_Allocate_defined [OF ri] by blast
    define u1 where "u1 = u\<lparr> mRingBuffers := ?bs[i := (?bs ! i)\<lparr> mAllocator := r \<rparr>] \<rparr>"
    show ?thesis
    proof (cases "start = kInvalidOffset")
      case False
      have "ring_handle create i start u1 = (h, u')"
        using res ff al False \<open>\<not> n > kRingBufferSize\<close> rings_invD(1) [OF R] by (simp add: AllocateInternal_def ring_allocate_def u1_def)
      from ring_path [OF inv ff(2) al False _ u1_def this] create show ?thesis by blast
    next
      case True
      have "r = mAllocator (?bs ! i)" using Ring_Allocate_inv [OF ri(1) al] True by simp
      then have "u1 = u" by (simp add: u1_def)
      define u2 where "u2 = u\<lparr> mRingBuffers := ?bs @ [new_ring_buffer] \<rparr>"
      have inv2: "uploader_inv t gs u2" using inv(1) rings_inv_append by (auto simp: uploader_inv_def u2_def)
      obtain r2 where al2: "Ring_Allocate n s (mAllocator (mRingBuffers u2 ! length ?bs)) = ok (0, r2)"
        using new_ring_serves [of n s] False by (auto simp: u2_def)
      define u3 where "u3 = u2\<lparr> mRingBuffers := (mRingBuffers u2)[length ?bs := (mRingBuffers u2 ! length ?bs)\<lparr> mAllocator := r2 \<rparr>] \<rparr>"
      have "ring_handle create (length ?bs) 0 u3 = (h, u')"
        using res ff al al2 True \<open>\<not> n > kRingBufferSize\<close> \<open>u1 = u\<close> rings_invD(1) [OF R]
        by (simp add: AllocateInternal_def ring_allocate_def u1_def u2_def u3_def kInvalidOffset_def)
      from ring_path [OF inv2 inv(2) _ al2 _ _ u3_def this] create show ?thesis by (auto simp: u2_def kInvalidOffset_def)
    qed
  qed
  then show "h \<noteq> undef" "h = ok handle \<Longrightarrow> grantable s gs n handle u'" "h = Inl e \<Longrightarrow> uploader_inv s gs u'" by auto
qed

lemma Uploader_Allocate_cases:
  assumes inv: "uploader_inv t gs u" "t \<le> s" and create: "\<forall>n. create n \<noteq> undef" and j: "j < 63" "n + 2 ^ j \<le> 2 ^ 64"
    and res: "Uploader_Allocate create s n s (2 ^ j) u = (h, u')"
  shows "h \<noteq> undef" "h = Inl e \<Longrightarrow> uploader_inv s gs u'"
    "h = ok handle \<Longrightarrow> uploader_inv s (gs @ [(s, stagingBuffer handle, startOffset handle, n)]) u' \<and>
       mappedBuffer handle = startOffset handle \<and> 2 ^ j dvd startOffset handle"
proof -
  let ?m = "n + 2 ^ j - 1"
  have m: "u64 ?m = ?m" using j(2) by (simp add: u64_def)
  obtain h0 u0 where a: "AllocateInternal create s ?m s u = (h0, u0)" by (cases "AllocateInternal create s ?m s u")
  note A = AllocateInternal_cases [OF inv create a]
  have jw: "(of_nat (2 ^ j) :: 64 word) = 2 ^ j" by simp
  have "h \<noteq> undef \<and> (\<forall>e. h = Inl e \<longrightarrow> uploader_inv s gs u') \<and>
    (\<forall>handle. h = ok handle \<longrightarrow> uploader_inv s (gs @ [(s, stagingBuffer handle, startOffset handle, n)]) u' \<and>
       mappedBuffer handle = startOffset handle \<and> 2 ^ j dvd startOffset handle)"
  proof (cases h0)
    case (Inl e)
    then show ?thesis using res A(1,3) by (auto simp: Uploader_Allocate_def m a simp del: One_nat_def)
  next
    case (Inr hdl)
    note G = A(2) [OF Inr, unfolded grantable_def]
    have "(2 :: nat) ^ j \<le> 2 ^ 62" using j(1) by (intro power_increasing) auto
    then have small: "startOffset hdl + 2 ^ j \<le> 2 ^ 63" using G by (simp add: kRingBufferSize_def)
    then have un: "unat (of_nat (startOffset hdl) :: 64 word) = startOffset hdl" by (simp add: unat_of_nat take_bit_nat_eq_self)
    then have "unat (of_nat (startOffset hdl) :: 64 word) + 2 ^ j \<le> 2 ^ 64" using small by simp
    from Align_least_multiple [OF _ this] j(1) obtain r where
      r: "Align (of_nat (startOffset hdl)) (2 ^ j) = ok r" "2 ^ j dvd unat r" "startOffset hdl \<le> unat r" "unat r < startOffset hdl + 2 ^ j"
      by (auto simp: un)
    have sub: "sub64 (unat r) (startOffset hdl) = unat r - startOffset hdl" using r(3,4) small by (intro sub64_eq) auto
    have u: "u64 (unat r) = unat r" using r(4) small by (simp add: u64_def)
    have eq: "(h, u') = (ok (hdl\<lparr> mappedBuffer := unat r, startOffset := unat r \<rparr>), u0)"
      using res r(3) G by (simp add: Uploader_Allocate_def m a Inr jw r(1) sub u del: One_nat_def)
    have "unat r + n \<le> startOffset hdl + ?m" using r(4) by linarith
    then show ?thesis using eq G r(2,3) by auto
  qed
  then show "h \<noteq> undef" "h = Inl e \<Longrightarrow> uploader_inv s gs u'"
    "h = ok handle \<Longrightarrow> uploader_inv s (gs @ [(s, stagingBuffer handle, startOffset handle, n)]) u' \<and>
       mappedBuffer handle = startOffset handle \<and> 2 ^ j dvd startOffset handle" by auto
qed

text \<open>When the backend creates every staging buffer, every allocation is granted.\<close>

lemma enqueue_error: "SerialQueue_Enqueue v s q = Inl e \<Longrightarrow> e = UB"
  by (simp add: SerialQueue_Enqueue_def split: if_splits)

lemma ring_allocate_error: "Ring_Allocate n s r = Inl e \<Longrightarrow> e = UB"
  by (auto simp: Ring_Allocate_def bindR_Inl_iff split: if_splits prod.splits dest: enqueue_error)

lemma first_fit_error: "first_fit n bs i target = Inl e \<Longrightarrow> e = UB"
  by (induction n bs i target rule: first_fit.induct) (auto split: if_splits)

lemma AllocateInternal_error:
  assumes "\<forall>n. create n = ok ()" "AllocateInternal create s n s u = (Inl e, u')"
  shows "e = UB"
proof -
  have c: "create_staging create n u = (ok (length (staging_sizes u)), u\<lparr> staging_sizes := staging_sizes u @ [n] \<rparr>)" for n u
    using assms(1) by (simp add: create_staging_def)
  have h: "ring_handle create i start u = (Inl e, u') \<Longrightarrow> e = UB" for i start u u'
    by (simp add: ring_handle_def c Let_def split: option.splits)
  have r: "ring_allocate n s i u = (Inl e, u') \<Longrightarrow> e = UB" for n i u u'
    by (auto simp: ring_allocate_def split: sum.splits prod.splits dest: ring_allocate_error)
  have q: "ReleaseStagingBuffer s k u = (Inl e, u') \<Longrightarrow> e = UB" for k u u'
    by (auto simp: ReleaseStagingBuffer_def split: sum.splits dest: enqueue_error)
  show ?thesis using assms(2) unfolding AllocateInternal_def c
    by (auto simp: Let_def split: if_splits sum.splits prod.splits dest: h r q first_fit_error)
qed

lemma Uploader_Allocate_granted:
  assumes "uploader_inv t gs u" "t \<le> s" "\<forall>n. create n = ok ()" "j < 63" "n + 2 ^ j \<le> 2 ^ 64"
  shows "\<exists>h u'. Uploader_Allocate create s n s (2 ^ j) u = (ok h, u')"
proof -
  obtain h u' where a: "Uploader_Allocate create s n s (2 ^ j) u = (h, u')" by (cases "Uploader_Allocate create s n s (2 ^ j) u")
  have "\<forall>n. create n \<noteq> undef" using assms(3) by simp
  from Uploader_Allocate_cases(1) [OF assms(1,2) this assms(4,5) a] have "h \<noteq> undef" .
  moreover have "e = UB" if "h = Inl e" for e
    using a that AllocateInternal_error [OF assms(3)]
    by (auto simp: Uploader_Allocate_def Align_def assert_pow2_def IsPowerOfTwo_def bindR_Inl_iff Let_def split: if_splits sum.splits prod.splits)
  ultimately show ?thesis using a by (cases h) auto
qed

section \<open>Release\<close>

definition live_after :: "nat \<Rightarrow> grant list \<Rightarrow> grant list" where
  "live_after s gs = filter (\<lambda>g. \<not> grant_serial g \<le> s) gs"

lemma on_live: "on k (live_after s gs) = live_after s (on k gs)"
  by (auto simp: on_def live_after_def intro: filter_cong)

lemma ring_ok_live: "ring_ok sizes gs b ls \<Longrightarrow> ring_ok sizes (live_after s gs) b ls"
  unfolding ring_ok_def on_live by (auto simp: live_after_def intro: cuts_filter_grants)

text \<open>The rings after the serial has completed, with some of them already released.\<close>

lemma rings_inv_live:
  assumes "rings_inv t sizes gs rel bs"
  shows "rings_inv t sizes (live_after s gs) (filter (\<lambda>x. \<not> fst x \<le> s) rel) bs"
proof -
  have "on (grant_staging g) (live_after s gs) = [g]" if "on (grant_staging g) gs = [g]" "g \<in> set (live_after s gs)" for g
    unfolding on_live that(1) using that(2) by (simp add: live_after_def)
  then show ?thesis using assms ring_ok_live by (fastforce simp: rings_inv_def live_after_def)
qed

lemma ring_ok_deallocate:
  assumes "ring_ok sizes (live_after s gs) b ls" "\<forall>l \<in> set ls. fst l \<le> t"
  shows "\<exists>r ls'. Ring_Deallocate s (mAllocator b) = Some (ok r) \<and> ring_ok sizes (live_after s gs) (b\<lparr> mAllocator := r \<rparr>) ls' \<and>
    (\<forall>l \<in> set ls'. fst l \<le> t) \<and> (Ring_Empty r \<longrightarrow> ls' = [])"
proof -
  have inv: "ring_inv (mAllocator b) ls" using assms(1) by (simp add: ring_ok_def)
  let ?ls = "filter (\<lambda>l. \<not> fst l \<le> s) ls"
  obtain r where r: "Ring_Deallocate s (mAllocator b) = Some (ok r)" "ring_inv r ?ls" "mMaxBlockSize r = mMaxBlockSize (mAllocator b)"
    using Ring_Deallocate_inv [OF inv] by blast
  have "filter (\<lambda>g. \<not> grant_serial g \<le> s) (on k (live_after s gs)) = on k (live_after s gs)" for k
    by (auto simp: on_def live_after_def intro: filter_cong)
  then have "cuts (on k (live_after s gs)) ?ls" if "cuts (on k (live_after s gs)) ls" for k
    using cuts_filter [OF that, of "\<lambda>x. \<not> x \<le> s"] by simp
  then have "ring_ok sizes (live_after s gs) (b\<lparr> mAllocator := r \<rparr>) ?ls" using assms(1) r(2,3) by (auto simp: ring_ok_def)
  moreover have "?ls = []" if "Ring_Empty r"
  proof -
    have "laid_out (mMaxBlockSize r) (mUsedStartOffset r) [] ?ls (mUsedStartOffset r + mUsedSize r)"
      using r(2) that by (simp add: ring_inv_def Ring_Empty_def)
    from laid_out_length [OF this] show ?thesis by (simp only: list.map map_is_Nil_conv)
  qed
  ultimately show ?thesis using r(1) assms(2) by (intro exI [of _ r] exI [of _ ?ls]) auto
qed

lemma erased_nth: "i < length bs \<Longrightarrow> j < length bs - 1 \<Longrightarrow> (take i bs @ drop (Suc i) bs) ! j = bs ! (if j < i then j else Suc j)"
  by (auto simp: nth_append min_def)

text \<open>Erasing a ring buffer that has no grants and is not the only one.\<close>

lemma rings_inv_erase:
  assumes inv: "rings_inv t sizes gs rel bs" and i: "i < length bs - 1" and b: "ring_ok sizes gs (bs ! i) []"
  shows "rings_inv t sizes gs rel (take i bs @ drop (Suc i) bs)"
proof -
  let ?bs = "take i bs @ drop (Suc i) bs" and ?f = "\<lambda>j. if j < i then j else Suc j"
  have len: "length ?bs = length bs - 1" using i by simp
  have nth: "?bs ! j = bs ! ?f j" "?f j < length bs" if "j < length ?bs" for j using erased_nth [of i bs j] that i by auto
  have sub: "set ?bs \<subseteq> set bs" using set_take_subset set_drop_subset by fastforce
  have "own_staging ?bs"
    unfolding own_staging_def
  proof (intro allI impI)
    fix x y k assume xy: "x < length ?bs" "y < length ?bs" "mStagingBuffer (?bs ! x) = Some k \<and> mStagingBuffer (?bs ! y) = Some k"
    then have "mStagingBuffer (bs ! ?f x) = Some k \<and> mStagingBuffer (bs ! ?f y) = Some k" using nth(1) [OF xy(1)] nth(1) [OF xy(2)] by simp
    then have "?f x = ?f y" by (rule rings_invD(2) [OF inv, unfolded own_staging_def, rule_format, OF nth(2) [OF xy(1)] nth(2) [OF xy(2)]])
    then show "x = y" by (auto split: if_splits)
  qed
  moreover have less: "\<not> backed ?bs k" if "\<not> backed bs k" for k using that sub by (auto simp: backed_def)
  moreover have more: "backed ?bs (grant_staging g)" if g: "backed bs (grant_staging g)" "g \<in> set gs" for g
  proof -
    obtain j where j: "j < length bs" "mStagingBuffer (bs ! j) = Some (grant_staging g)" using g(1) by (auto simp: backed_nth)
    have "on (grant_staging g) gs \<noteq> []" using g(2) by (auto simp: on_def filter_empty_conv)
    then have "j \<noteq> i" using b j(2) by (auto simp: ring_ok_def cuts_no_lease)
    define j' where "j' = (if j < i then j else j - 1)"
    have "?f j' = j" "j' < length ?bs" using \<open>j \<noteq> i\<close> j(1) i len by (auto simp: j'_def)
    then have "mStagingBuffer (?bs ! j') = Some (grant_staging g)" using j(2) nth(1) [of j'] by simp
    then show ?thesis using \<open>j' < length ?bs\<close> unfolding backed_nth by blast
  qed
  moreover have "?bs \<noteq> []" using i len by auto
  moreover have "\<forall>(s, k) \<in> set rel. s \<le> t \<and> k < length sizes \<and> \<not> backed ?bs k" using inv less by (auto simp: rings_inv_def)
  moreover have "\<forall>g \<in> set gs. grant_staging g < length sizes \<and> (backed ?bs (grant_staging g) \<or>
         (grant_serial g, grant_staging g) \<in> set rel \<and> on (grant_staging g) gs = [g] \<and>
           fst (grant_block g) + snd (grant_block g) \<le> sizes ! grant_staging g)"
    using inv more unfolding rings_inv_def by blast
  moreover have "\<forall>b \<in> set ?bs. \<exists>ls. ring_ok sizes gs b ls \<and> (\<forall>l \<in> set ls. fst l \<le> t)" using sub rings_invD(3) [OF inv] by blast
  ultimately show ?thesis unfolding rings_inv_def by blast
qed

lemma deallocate_rings_ok:
  "rings_inv t sizes (live_after s gs) rel bs \<Longrightarrow>
    \<exists>bs'. deallocate_rings s i bs = Some (ok bs') \<and> rings_inv t sizes (live_after s gs) rel bs'"
proof (induction s i bs rule: deallocate_rings.induct)
  case (1 s i bs)
  show ?case
  proof (cases "i < length bs")
    case False
    then show ?thesis using 1(2) by (simp add: deallocate_rings.simps [of s i bs])
  next
    case True
    obtain ls where ls: "ring_ok sizes (live_after s gs) (bs ! i) ls" "\<forall>l \<in> set ls. fst l \<le> t" using rings_invD(3) [OF 1(2) nth_mem [OF True]] by blast
    obtain r ls' where r: "Ring_Deallocate s (mAllocator (bs ! i)) = Some (ok r)" "ring_ok sizes (live_after s gs) ((bs ! i)\<lparr> mAllocator := r \<rparr>) ls'"
      "\<forall>l \<in> set ls'. fst l \<le> t" "Ring_Empty r \<longrightarrow> ls' = []" using ring_ok_deallocate [OF ls] by blast
    define bs1 where "bs1 = bs[i := (bs ! i)\<lparr> mAllocator := r \<rparr>]"
    define bs2 where "bs2 = (if Ring_Empty r \<and> i < length bs1 - 1 then take i bs1 @ drop (Suc i) bs1 else bs1)"
    have "rings_inv t sizes (live_after s gs) rel bs1" unfolding bs1_def by (rule rings_inv_lease [OF 1(2) order_refl True _ r(2,3)]) simp
    moreover have "bs1 ! i = (bs ! i)\<lparr> mAllocator := r \<rparr>" using True by (simp add: bs1_def)
    ultimately have "rings_inv t sizes (live_after s gs) rel bs2" using rings_inv_erase r(2,4) by (auto simp: bs2_def)
    moreover have "deallocate_rings s i bs = deallocate_rings s (Suc i) bs2"
      by (subst deallocate_rings.simps) (simp add: True r(1) bs1_def bs2_def Let_def)
    ultimately show ?thesis using 1(1) [OF True r(1) refl bs1_def bs2_def] by simp
  qed
qed

lemma Uploader_Deallocate_ok:
  assumes "uploader_inv t gs u"
  shows "\<exists>u'. Uploader_Deallocate s u = Some (ok u') \<and> uploader_inv t (live_after s gs) u'"
proof -
  let ?q = "mReleasedStagingBuffers u"
  have st: "storage_ok ?q" and R: "rings_inv t (staging_sizes u) gs (items ?q) (mRingBuffers u)" using assms by (auto simp: uploader_inv_def)
  note c = ClearUpTo_items [OF st, of s]
  obtain bs where "deallocate_rings s 0 (mRingBuffers u) = Some (ok bs)" "rings_inv t (staging_sizes u) (live_after s gs) (items (ClearUpTo s ?q)) bs"
    using deallocate_rings_ok [OF rings_inv_live [OF R, of s], of 0] unfolding c(2) by blast
  then show ?thesis using c(1) by (simp add: Uploader_Deallocate_def uploader_inv_def)
qed

section \<open>Runs\<close>

text \<open>
  The states the uploader reaches, with the grants that are live and the last serial that was used.
  Serials never go down, as the pending serial of the device does not; both serials of an allocation are that one, as at every call. A
  grant ends when its serial has completed. \<open>run_released\<close> is the release of a staging buffer that
  someone else created.
\<close>

inductive uploader_run :: "(nat \<Rightarrow> unit res) \<Rightarrow> nat \<Rightarrow> grant list \<Rightarrow> uploader \<Rightarrow> bool" for create where
  run_start: "uploader_run create 0 [] DynamicUploader"
| run_granted: "uploader_run create t gs u \<Longrightarrow> t \<le> s \<Longrightarrow> j < 63 \<Longrightarrow> n + 2 ^ j \<le> 2 ^ 64 \<Longrightarrow>
    Uploader_Allocate create s n s (2 ^ j) u = (ok h, u') \<Longrightarrow> uploader_run create s (gs @ [(s, stagingBuffer h, startOffset h, n)]) u'"
| run_refused: "uploader_run create t gs u \<Longrightarrow> t \<le> s \<Longrightarrow> j < 63 \<Longrightarrow> n + 2 ^ j \<le> 2 ^ 64 \<Longrightarrow>
    Uploader_Allocate create s n s (2 ^ j) u = (Inl e, u') \<Longrightarrow> uploader_run create s gs u'"
| run_released: "uploader_run create t gs u \<Longrightarrow> t \<le> s \<Longrightarrow> create_staging create n u = (ok k, u1) \<Longrightarrow>
    ReleaseStagingBuffer s k u1 = (ok (), u') \<Longrightarrow> uploader_run create s gs u'"
| run_completed: "uploader_run create t gs u \<Longrightarrow> Uploader_Deallocate s u = Some (ok u') \<Longrightarrow> uploader_run create t (live_after s gs) u'"

lemma uploader_run_inv:
  assumes "uploader_run create t gs u" "\<forall>n. create n \<noteq> undef"
  shows "uploader_inv t gs u"
  using assms(1)
proof (induction rule: uploader_run.induct)
  case run_start
  show ?case using new_ring_ok [of "[]" "[]"] by (auto simp: uploader_inv_def rings_inv_def DynamicUploader_def own_staging_def)
next
  case (run_granted t gs u s j n h u')
  then show ?case using Uploader_Allocate_cases(3) [OF _ _ assms(2)] by blast
next
  case (run_refused t gs u s j n e u')
  then show ?case using Uploader_Allocate_cases(2) [OF _ _ assms(2)] by blast
next
  case (run_released t gs u s n k u1 u')
  obtain q where q: "SerialQueue_Enqueue (length (staging_sizes u)) s (mReleasedStagingBuffers u) = ok q"
    "u' = u\<lparr> staging_sizes := staging_sizes u @ [n], mReleasedStagingBuffers := q \<rparr>"
    using run_released(3,4) by (auto simp: create_staging_def ReleaseStagingBuffer_def split: sum.splits)
  from uploader_inv_release [OF run_released.IH run_released(2) _ q(1), of "[]"] show ?case by (simp add: q(2))
next
  case (run_completed t gs u s u')
  then show ?case using Uploader_Deallocate_ok [of t gs u s] by auto
qed

lemma uploader_inv_blocks:
  assumes "uploader_inv t gs u"
  shows "g \<in> set gs \<Longrightarrow> fst (grant_block g) + snd (grant_block g) \<le> staging_sizes u ! grant_staging g"
    "pairwise_apart (map grant_block (on k gs))"
    "g \<in> set gs \<Longrightarrow> backed (mRingBuffers u) (grant_staging g) \<or> grant_staging g \<in> snd ` set (items (mReleasedStagingBuffers u))"
proof -
  have R: "rings_inv t (staging_sizes u) gs (items (mReleasedStagingBuffers u)) (mRingBuffers u)" using assms by (simp add: uploader_inv_def)
  have ring: "(\<forall>g \<in> set (on k gs). fst (grant_block g) + snd (grant_block g) \<le> staging_sizes u ! k) \<and> pairwise_apart (map grant_block (on k gs))"
    if k: "backed (mRingBuffers u) k" for k
  proof -
    obtain b where b: "b \<in> set (mRingBuffers u)" "mStagingBuffer b = Some k" using k by (auto simp: backed_def)
    obtain ls where ls: "ring_ok (staging_sizes u) gs b ls" using rings_invD(3) [OF R b(1)] by blast
    then have c: "cuts (on k gs) ls" "ring_inv (mAllocator b) ls" "staging_sizes u ! k = mMaxBlockSize (mAllocator b)" using b(2) by (auto simp: ring_ok_def)
    have "fst (grant_block g) + snd (grant_block g) \<le> staging_sizes u ! k" if "g \<in> set (on k gs)" for g
      using cuts_member [OF c(1) that] ring_inv_blocks(1) [OF c(2)] c(3) by (fastforce simp: cut_from_def)
    then show ?thesis using cuts_apart [OF c(1) ring_inv_blocks(2) [OF c(2)]] by blast
  qed
  have other: "(grant_serial g, grant_staging g) \<in> set (items (mReleasedStagingBuffers u)) \<and> on (grant_staging g) gs = [g] \<and>
      fst (grant_block g) + snd (grant_block g) \<le> staging_sizes u ! grant_staging g" if "g \<in> set gs" "\<not> backed (mRingBuffers u) (grant_staging g)" for g
    using R that unfolding rings_inv_def by blast
  show "fst (grant_block g) + snd (grant_block g) \<le> staging_sizes u ! grant_staging g" if "g \<in> set gs"
  proof (cases "backed (mRingBuffers u) (grant_staging g)")
    case True
    moreover have "g \<in> set (on (grant_staging g) gs)" using that by (simp add: on_def)
    ultimately show ?thesis using ring by blast
  qed (use other [OF that] in blast)
  show "pairwise_apart (map grant_block (on k gs))"
  proof (cases "on k gs")
    case (Cons g gs')
    then have g: "g \<in> set gs" "grant_staging g = k" by (auto simp: on_def dest: filter_eq_ConsD)
    then show ?thesis using ring [of k] other [OF g(1)] by (cases "backed (mRingBuffers u) k") auto
  qed simp
  show "backed (mRingBuffers u) (grant_staging g) \<or> grant_staging g \<in> snd ` set (items (mReleasedStagingBuffers u))" if "g \<in> set gs"
    using other [OF that] by force
qed

text \<open>
  C40. In every state the uploader reaches, each live grant lies inside its staging buffer, no two
  live grants of one staging buffer overlap, and no staging buffer is dropped before its grants are
  over. An allocation never runs into undefined behaviour, is granted whenever the backend creates
  the staging buffers it is asked for, and what it grants is aligned; releasing any serial
  terminates and is defined.
\<close>

theorem uploader_run_safe:
  assumes "uploader_run create t gs u" "\<forall>n. create n \<noteq> undef"
  shows "(\<forall>g \<in> set gs. fst (grant_block g) + snd (grant_block g) \<le> staging_sizes u ! grant_staging g \<and>
      ((\<exists>b \<in> set (mRingBuffers u). mStagingBuffer b = Some (grant_staging g)) \<or> grant_staging g \<in> snd ` set (items (mReleasedStagingBuffers u)))) \<and>
    (\<forall>k. pairwise_apart (map grant_block (on k gs))) \<and>
    (\<forall>s n j h u'. t \<le> s \<and> j < 63 \<and> n + 2 ^ j \<le> 2 ^ 64 \<and> Uploader_Allocate create s n s (2 ^ j) u = (h, u') \<longrightarrow>
       h \<noteq> undef \<and> (\<forall>x. h = ok x \<longrightarrow> 2 ^ j dvd startOffset x \<and> mappedBuffer x = startOffset x) \<and>
       ((\<forall>n. create n = ok ()) \<longrightarrow> (\<exists>x. h = ok x))) \<and>
    (\<forall>s. \<exists>u'. Uploader_Deallocate s u = Some (ok u'))"
proof -
  note inv = uploader_run_inv [OF assms]
  have "h \<noteq> undef \<and> (\<forall>x. h = ok x \<longrightarrow> 2 ^ j dvd startOffset x \<and> mappedBuffer x = startOffset x) \<and> ((\<forall>n. create n = ok ()) \<longrightarrow> (\<exists>x. h = ok x))"
    if a: "t \<le> s \<and> j < 63 \<and> n + 2 ^ j \<le> 2 ^ 64 \<and> Uploader_Allocate create s n s (2 ^ j) u = (h, u')" for s n j h u'
    using Uploader_Allocate_cases [OF inv _ assms(2)] Uploader_Allocate_granted [OF inv, of s create j n] a by fastforce
  then show ?thesis using uploader_inv_blocks [OF inv] Uploader_Deallocate_ok [OF inv] unfolding backed_def by blast
qed

text \<open>Two allocations of one serial, the second of which is cut from the same ring buffer.\<close>

lemma aligned_starts: "Align 0 256 = ok 0" "Align 355 256 = ok 512"
  by code_simp+

lemmas uploader_eval = Uploader_Allocate_def AllocateInternal_def DynamicUploader_def new_ring_buffer_def RingBufferAllocator_def ring_allocate_def
  ring_handle_def create_staging_def Ring_GetSize_def Ring_GetUsedSize_def Ring_Allocate_def sub_alloc_def take_at_end_def SerialQueue_Enqueue_def
  push_back_last_def u64_def sub64_def kInvalidOffset_def kRingBufferSize_def aligned_starts

lemma two_allocations:
  "\<exists>u1 u2. Uploader_Allocate (\<lambda>_. ok ()) 1 100 1 256 DynamicUploader = (ok \<lparr> mappedBuffer = 0, startOffset = 0, stagingBuffer = 0 \<rparr>, u1) \<and>
     Uploader_Allocate (\<lambda>_. ok ()) 1 50 1 256 u1 = (ok \<lparr> mappedBuffer = 512, startOffset = 512, stagingBuffer = 0 \<rparr>, u2)"
  by (simp add: uploader_eval)

theorem uploader_run_safe_witness:
  "\<exists>u. uploader_run (\<lambda>_. ok ()) 1 [(1, 0, 0, 100), (1, 0, 512, 50)] u \<and> 512 + 50 \<le> staging_sizes u ! 0 \<and>
     pairwise_apart [(0, 100), (512, 50)] \<and> (\<exists>u'. Uploader_Deallocate 1 u = Some (ok u'))"
proof -
  let ?c = "\<lambda>_ :: nat. ok ()"
  obtain u1 u2 where al: "Uploader_Allocate ?c 1 100 1 (2 ^ 8) DynamicUploader = (ok \<lparr> mappedBuffer = 0, startOffset = 0, stagingBuffer = 0 \<rparr>, u1)"
    "Uploader_Allocate ?c 1 50 1 (2 ^ 8) u1 = (ok \<lparr> mappedBuffer = 512, startOffset = 512, stagingBuffer = 0 \<rparr>, u2)"
    using two_allocations by auto
  from run_granted [OF run_start _ _ _ al(1)] have 1: "uploader_run ?c 1 [(1, 0, 0, 100)] u1" by simp
  from run_granted [OF 1 _ _ _ al(2)] have 2: "uploader_run ?c 1 [(1, 0, 0, 100), (1, 0, 512, 50)] u2" by simp
  have d: "\<forall>n. ?c n \<noteq> undef" by simp
  show ?thesis using uploader_run_safe [OF 2 d] 2 by (intro exI [of _ u2]) (auto simp: on_def dest: spec [of _ 0])
qed

text \<open>When a ring buffer is erased, the loop goes on with the one after the next: the next one keeps
  its leases until the following tick, completed or not.\<close>

lemma deallocate_skips_next:
  assumes "Ring_Deallocate s (mAllocator a) = Some (ok r)" "Ring_Empty r" "Ring_Deallocate s (mAllocator c) = Some (ok r')"
  shows "deallocate_rings s 0 [a, b, c] = Some (ok [b, c\<lparr> mAllocator := r' \<rparr>])"
  using assms by (simp add: deallocate_rings.simps [of s 0] deallocate_rings.simps [of s "Suc 0"] deallocate_rings.simps [of s "Suc (Suc 0)"])

end
