(* ===== verification/Upload_Path.thy ===== *)
theory Upload_Path
  imports Texture_Write Dynamic_Uploader
begin

unbundle bit_operations_syntax

text \<open>
  Texture writes on top of the dynamic uploader: the staging memory of a write is a grant of the
  uploader, and what is staged there is the data of the write.
\<close>

text \<open>
  The uploader in a state \<open>u\<close>, for the pending serial. \<open>mem k n\<close> is the mapped memory of the
  staging buffer \<open>k\<close>, which has \<open>n\<close> bytes.
\<close>

definition uploader_uploads ::
    "(nat \<Rightarrow> unit res) \<Rightarrow> nat \<Rightarrow> uploader \<Rightarrow> (nat \<Rightarrow> nat \<Rightarrow> 'b list) \<Rightarrow> nat \<Rightarrow> nat \<Rightarrow> 'b uploads" where
  "uploader_uploads create serial u mem offsetAlignment rowAlignment =
     \<lparr> upload_allocate = (\<lambda>n a. case Uploader_Allocate create serial n serial a u of
          (Inl e, _) \<Rightarrow> Inl e
        | (Inr h, u') \<Rightarrow> ok (startOffset h, take n (drop (mappedBuffer h) (mem (stagingBuffer h) (staging_sizes u' ! stagingBuffer h))))),
       optimalOffsetAlignment = offsetAlignment, optimalBytesPerRowAlignment = rowAlignment \<rparr>"

lemma uploader_uploads_ok:
  assumes run: "uploader_run create t gs u" "t \<le> serial" "\<forall>n. create n \<noteq> undef" and mem: "\<forall>k n. length (mem k n) = n" and "i \<le> 20" "j \<le> 20"
  shows "uploads_ok (uploader_uploads create serial u mem (2 ^ i) (2 ^ j))"
proof -
  have "upload_allocate (uploader_uploads create serial u mem (2 ^ i) (2 ^ j)) n (2 ^ l) \<noteq> undef \<and>
      (\<forall>off m. upload_allocate (uploader_uploads create serial u mem (2 ^ i) (2 ^ j)) n (2 ^ l) = ok (off, m) \<longrightarrow> length m = n)"
    if n: "n \<le> 2 ^ 62" "l \<le> 20" for n l
  proof -
    obtain h u' where a: "Uploader_Allocate create serial n serial (2 ^ l) u = (h, u')" by (cases "Uploader_Allocate create serial n serial (2 ^ l) u")
    have "(2 :: nat) ^ l \<le> 2 ^ 20" using n(2) by (intro power_increasing) auto
    then have l: "l < 63" "n + 2 ^ l \<le> 2 ^ 64" using n by auto
    note c = Uploader_Allocate_cases [OF uploader_run_inv [OF run(1,3)] run(2,3) l a]
    show ?thesis
    proof (cases h)
      case (Inr x)
      from c(3) [OF this] have inv: "uploader_inv serial (gs @ [(serial, stagingBuffer x, startOffset x, n)]) u'" "mappedBuffer x = startOffset x" by auto
      have "startOffset x + n \<le> staging_sizes u' ! stagingBuffer x" using uploader_inv_blocks(1) [OF inv(1)] by force
      then show ?thesis using a Inr inv(2) mem by (simp add: uploader_uploads_def)
    qed (use a c(1) in \<open>simp add: uploader_uploads_def\<close>)
  qed
  then show ?thesis using assms(5,6) by (auto simp: uploads_ok_def uploader_uploads_def)
qed

text \<open>Buffer writes: the data is staged whole, and goes to an aligned range inside a usable buffer.\<close>

lemma buffer_write_stages:
  assumes "uploads_ok up" "length bytes \<le> 2 ^ 62"
  shows "Queue_WriteBuffer device_lost queue_error up obs p off bytes = ok (Some w) \<Longrightarrow>
      write_bytes w = bytes \<and> write_buffer w = p \<and> write_offset w = off \<and> off + length bytes \<le> mSize (bufs obs p) \<and>
      4 dvd off \<and> 4 dvd length bytes \<and> \<not> is_error (bufs obs p) \<and> ValidateCanUseOnQueueNow (bufs obs p) = ok ()"
    "Queue_WriteBuffer device_lost queue_error up obs p off bytes = ok None \<Longrightarrow> bytes = []"
    "ValidateCanUseOnQueueNow (bufs obs p) \<noteq> undef \<Longrightarrow> Queue_WriteBuffer device_lost queue_error up obs p off bytes \<noteq> undef"
proof -
  have up: "upload_allocate up (length bytes) 4 \<noteq> undef" "upload_allocate up (length bytes) 4 = ok (st, m) \<Longrightarrow> length m = length bytes" for st m
  proof -
    have "upload_allocate up (length bytes) (2 ^ 2) \<noteq> undef \<and> (\<forall>off m. upload_allocate up (length bytes) (2 ^ 2) = ok (off, m) \<longrightarrow> length m = length bytes)"
      using assms(2) assms(1) [unfolded uploads_ok_def, THEN conjunct2, THEN conjunct2, rule_format, of "length bytes" 2] by simp
    then show "upload_allocate up (length bytes) 4 \<noteq> undef" "upload_allocate up (length bytes) 4 = ok (st, m) \<Longrightarrow> length m = length bytes" by auto
  qed
  have copy: "length m = length bytes \<Longrightarrow> memcpy m 0 bytes 0 (length bytes) = ok bytes" for m by (simp add: memcpy_def)
  note defs = Queue_WriteBuffer_def WriteBufferImpl_def ValidateWriteBuffer_def ValidateObject_def kCopyBufferToBufferOffsetAlignment_def
  show "write_bytes w = bytes \<and> write_buffer w = p \<and> write_offset w = off \<and> off + length bytes \<le> mSize (bufs obs p) \<and>
      4 dvd off \<and> 4 dvd length bytes \<and> \<not> is_error (bufs obs p) \<and> ValidateCanUseOnQueueNow (bufs obs p) = ok ()"
    if "Queue_WriteBuffer device_lost queue_error up obs p off bytes = ok (Some w)"
    using that up(2) by (auto simp: defs res_iff copy split: if_splits)
  show "bytes = []" if "Queue_WriteBuffer device_lost queue_error up obs p off bytes = ok None"
    using that by (auto simp: defs res_iff split: if_splits)
  show "Queue_WriteBuffer device_lost queue_error up obs p off bytes \<noteq> undef" if "ValidateCanUseOnQueueNow (bufs obs p) \<noteq> undef"
    using that up by (auto simp: defs undef_bind copy split: if_splits)
qed

text \<open>
  C39. In every state of the uploader, when the alignments the backend asks for are powers of two of at
  most a mebibyte, a texture write never runs into undefined behaviour, whatever the data, layout and
  size. When it is accepted, every texel block lies inside the data and inside the staging memory and
  the texels lie inside the subresource. The staging memory holds at each block the bytes of the data,
  padded rows or not, provided the images of the data start less than 4 GiB apart or there is one
  image only: the code computes their distance in 32 bits. Nothing is written only for an empty size.
\<close>

theorem texture_write_stages:
  assumes "uploader_run create t gs u" "t \<le> serial" "\<forall>n. create n \<noteq> undef" "\<forall>k n. length (mem k n) = n" "i \<le> 20" "j \<le> 20"
    and "texture_args dev obs ct" "extent_typed s" "layout_typed lay"
  shows "let r = WriteTextureInternal device_lost queue_error (uploader_uploads create serial u mem (2 ^ i) (2 ^ j)) obs ct bytes lay s
    in r \<noteq> undef \<and> (\<forall>c. r = ok (Some c) \<longrightarrow> stages obs ct bytes lay s c) \<and> (r = ok None \<longrightarrow> \<not> nonempty s)"
  by (rule WriteTextureInternal_stages [OF assms(7-9) uploader_uploads_ok [OF assms(1-6)]])

lemma sample_write_accepted:
  assumes "copy_texture_ok dev t" "format_id (mFormat t) = RGBA8Unorm" "mTextureUsage t = Tex_CopySrc OR Tex_CopyDst" "mSampleCount t = 1"
    "mTextureMipLevelCount t = 4" "mDimension t = Dim2D" "\<not> isCompressed (mFormat t)" "mTextureSize t = \<lparr> width = 8, height = 4, depthOrArrayLayers = 3 \<rparr>"
    "\<not> mDestroyed t" "length bytes = 64"
  shows "\<exists>c. WriteTextureInternal False False (uploader_uploads (\<lambda>_. ok ()) 1 DynamicUploader (\<lambda>k n. replicate n 0) (2 ^ 9) (2 ^ 8))
    (copy_objects t) last_texel bytes (ib_layout default_layout) one_texel = ok (Some c)"
proof -
  note f = sample_copy_facts [OF assms(1-8)]
  let ?obs = "copy_objects t" and ?up = "uploader_uploads (\<lambda>_. ok ()) 1 DynamicUploader (\<lambda>k n. replicate n (0 :: 'a)) (2 ^ 9) (2 ^ 8)"
  obtain info lay dst where i: "GetAspectInfo_of (mFormat t) TextureAspect_All = ok info" "blockWidth (block info) = 1" "blockHeight (block info) = 1"
      "block_ok (block info)" "ValidateLinearTextureData (ib_layout default_layout) 64 (block info) one_texel = ok ()"
      "ApplyDefaultTextureDataLayoutOptions (ib_layout default_layout) (block info) one_texel = ok lay" "offset lay = 0" "rowsPerImage lay = 1"
      "texture_side ?obs last_texel = ok dst"
    using f(6) by blast
  have t5: "texs ?obs (it_texture last_texel) = t" "it_aspect last_texel = TextureAspect_All" by (simp_all add: copy_samples)
  have v: "ValidateWriteTexture False False ?obs last_texel (length bytes) (ib_layout default_layout) one_texel = ok ()"
    unfolding ValidateWriteTexture_def Let_def t5 using f i(1,5) assms(3,4,9,10)
    by (simp add: ValidateObject_def ValidateCanUseInSubmitNow_def default_layout_def)
  let ?b = "byteSize (block info)" and ?stride = "u32 (bytesPerRow lay * (rowsPerImage lay - 1))"
  have b: "?b \<in> {1, 2, 4, 8, 16}" using i(4) by (simp add: block_ok_def)
  have "Align_u32 1 256 = ok 256" "Align_u32 2 256 = ok 256" "Align_u32 4 256 = ok 256" "Align_u32 8 256 = ok 256" "Align_u32 16 256 = ok 256" by code_simp+
  then have al: "Align_u32 (of_nat ?b) 256 = ok 256" using b by auto
  have pow: "assert_pow2 (of_nat ?b) = ok ()"
    using b assert_pow2_of_nat [of 0] assert_pow2_of_nat [of 1] assert_pow2_of_nat [of 2] assert_pow2_of_nat [of 3] assert_pow2_of_nat [of 4]
    by (auto simp del: of_nat_numeral)
  obtain h u' where g: "Uploader_Allocate (\<lambda>_. ok ()) 1 ?b 1 (2 ^ 9) DynamicUploader = (ok h, u')"
    using Uploader_Allocate_granted [OF uploader_run_inv [OF run_start], of "\<lambda>_. ok ()" 1 "\<lambda>_. ok ()" 9 ?b] b by auto
  define m where "m = take ?b (drop (mappedBuffer h) (replicate (staging_sizes u' ! stagingBuffer h) (0 :: 'a)))"
  have up: "upload_allocate ?up ?b (2 ^ 9) = ok (startOffset h, m)" using g by (simp add: uploader_uploads_def m_def)
  have "uploads_ok ?up" by (rule uploader_uploads_ok [OF run_start]) simp_all
  moreover have "?b \<le> 2 ^ 62" "(9 :: nat) \<le> 20" using b by auto
  ultimately have len: "length m = ?b" using up unfolding uploads_ok_def by blast
  have "rows_fit (length m) (length bytes) 1 1 ?b 256 (1 * bytesPerRow lay + ?stride) (bytesPerRow lay) 0"
    using b assms(10) by (auto simp: rows_fit_def len)
  moreover have "?b \<le> 256" "1 * ?b + ?stride < 2 ^ 64" "1 * ?b * 1 < 2 ^ 64" using b by (auto simp: u32_def)
  ultimately obtain m' where copy: "CopyTextureData m 0 bytes 0 1 1 ?stride ?b 256 (bytesPerRow lay) = ok m'"
    using CopyTextureData_ok [of m bytes 1 1 ?b 256 "bytesPerRow lay" ?stride 0] by auto
  have req: "ComputeRequiredBytesInCopy (block info) one_texel 256 1 = ok ?b"
    using b by (auto simp: ComputeRequiredBytesInCopy_def i(2,3) one_texel_def Safe32x32_def wrap64_def)
  have sizes: "u32 ?b = ?b" "max 512 ?b = 512" using b by (auto simp: u32_def)
  have "UploadTextureDataAligningBytesPerRowAndOffset ?up bytes ?b 256 1 lay False (block info) one_texel = ok (startOffset h, m')"
    using up copy assert_pow2_of_nat [of 9] unfolding UploadTextureDataAligningBytesPerRowAndOffset_def req bindR.simps
    by (simp add: pow sizes i(3,7,8) one_texel_def uploader_uploads_def)
  then have "\<exists>c. WriteTextureImpl ?up ?obs last_texel bytes lay one_texel = ok c"
    unfolding WriteTextureImpl_def Let_def t5 i(1) bindR.simps using al f(4) i(9)
    by (simp add: i(2,3) one_texel_def sizes uploader_uploads_def)
  then show ?thesis unfolding WriteTextureInternal_def v t5 using i(1,6) by (auto simp: one_texel_def)
qed

theorem texture_write_stages_witness:
  "\<exists>obs c. WriteTextureInternal False False (uploader_uploads (\<lambda>_. ok ()) 1 DynamicUploader (\<lambda>k n. replicate n 0) (2 ^ 9) (2 ^ 8))
     obs last_texel [0 ..< 64] (ib_layout default_layout) one_texel = ok (Some c) \<and> stages obs last_texel [0 ..< 64] (ib_layout default_layout) one_texel c"
proof -
  obtain dev t0 where t0: "copy_texture_ok dev t0" "format_id (mFormat t0) = RGBA8Unorm" "mTextureUsage t0 = Tex_CopySrc OR Tex_CopyDst" "mSampleCount t0 = 1"
    "mTextureMipLevelCount t0 = 4" "mDimension t0 = Dim2D" "\<not> isCompressed (mFormat t0)" "mTextureSize t0 = \<lparr> width = 8, height = 4, depthOrArrayLayers = 3 \<rparr>"
    using sample_copy_texture [of RGBA8Unorm "Tex_CopySrc OR Tex_CopyDst"] by blast
  define t where "t = t0\<lparr> mDestroyed := False \<rparr>"
  have same: "copy_texture_ok dev t" using t0(1) unfolding copy_texture_ok_def texture_ok_def t_def by simp
  have t: "copy_texture_ok dev t" "format_id (mFormat t) = RGBA8Unorm" "mTextureUsage t = Tex_CopySrc OR Tex_CopyDst" "mSampleCount t = 1"
    "mTextureMipLevelCount t = 4" "mDimension t = Dim2D" "\<not> isCompressed (mFormat t)" "mTextureSize t = \<lparr> width = 8, height = 4, depthOrArrayLayers = 3 \<rparr>"
    "\<not> mDestroyed t" using t0(2-8) same by (simp_all add: t_def)
  obtain c where c: "WriteTextureInternal False False (uploader_uploads (\<lambda>_. ok ()) 1 DynamicUploader (\<lambda>k n. replicate n 0) (2 ^ 9) (2 ^ 8))
      (copy_objects t) last_texel [0 ..< 64] (ib_layout default_layout) one_texel = ok (Some c)"
    using sample_write_accepted [OF t, of "[0 ..< 64]"] by auto
  have args: "texture_args dev (copy_objects t) last_texel" "extent_typed one_texel" "layout_typed (ib_layout default_layout)"
    using t(1) by (simp_all add: copy_samples texture_args_def origin_typed_def extent_typed_def layout_typed_def)
  have "stages (copy_objects t) last_texel [0 ..< 64] (ib_layout default_layout) one_texel c"
    using texture_write_stages [OF run_start, of 1 "\<lambda>_. ok ()" "\<lambda>k n. replicate n 0" 9 8 dev, OF _ _ _ _ _ args, of False False "[0 ..< 64]"] c
    by (simp add: Let_def)
  then show ?thesis using c by blast
qed

end
