(* ===== verification/Bit_Iteration.thy ===== *)
theory Bit_Iteration
  imports Subresource Dawn_Math
begin

unbundle bit_operations_syntax

text \<open>
  The iterator over the bits of a \<open>std::bitset\<close>: \<open>common/BitSetIterator.h\<close>, and the iterator
  over the members of an enumeration mask built on it, \<open>dawn_native/EnumMaskIterator.h\<close>. A
  bitset of \<open>N\<close> bits is a number below \<open>2 ^ N\<close>.
\<close>

section \<open>The iterator\<close>

record bit_iter =
  it_bits :: nat
  it_currentBit :: nat
  it_offset :: nat

definition kBitsPerWord :: nat where "kBitsPerWord = 32"

definition roundUp :: "nat \<Rightarrow> nat \<Rightarrow> nat" where
  "roundUp value alignment = (let temp = value + alignment - 1 in temp - temp mod alignment)"

function getNextBit :: "nat \<Rightarrow> bit_iter \<Rightarrow> (nat \<times> bit_iter) res" where
  "getNextBit N it =
     (if it_offset it < N then
        let wordBits = take_bit kBitsPerWord (it_bits it) in
        if wordBits \<noteq> 0 then bindR (ScanForward (of_nat wordBits)) (\<lambda>i. ok (i + it_offset it, it))
        else getNextBit N (it\<lparr> it_bits := drop_bit kBitsPerWord (it_bits it), it_offset := it_offset it + kBitsPerWord \<rparr>)
      else ok (0, it))"
  by pat_completeness auto
termination by (relation "measure (\<lambda>(N, it). N - it_offset it)") (auto simp: kBitsPerWord_def)

declare getNextBit.simps [simp del]

definition Iterator :: "nat \<Rightarrow> nat \<Rightarrow> bit_iter res" where
  "Iterator N bits =
     (if bits \<noteq> 0 then
        bindR (getNextBit N \<lparr> it_bits = bits, it_currentBit = 0, it_offset = 0 \<rparr>) (\<lambda>(i, it). ok (it\<lparr> it_currentBit := i \<rparr>))
      else ok \<lparr> it_bits = bits, it_currentBit = 0, it_offset = roundUp N kBitsPerWord \<rparr>)"

text \<open>\<open>bitset::set\<close> throws outside the bitset, which nothing catches.\<close>

definition Iterator_next :: "nat \<Rightarrow> bit_iter \<Rightarrow> bit_iter res" where
  "Iterator_next N it =
     bindR (assertR (it_bits it \<noteq> 0)) (\<lambda>_.
     bindR (assertR (it_offset it \<le> it_currentBit it \<and> it_currentBit it - it_offset it < N)) (\<lambda>_.
     bindR (getNextBit N (it\<lparr> it_bits := unset_bit (it_currentBit it - it_offset it) (it_bits it) \<rparr>)) (\<lambda>(i, it).
       ok (it\<lparr> it_currentBit := i \<rparr>))))"

definition Iterator_eq :: "bit_iter \<Rightarrow> bit_iter \<Rightarrow> bool" where
  "Iterator_eq it other \<longleftrightarrow> it_offset it = it_offset other \<and> it_bits it = it_bits other"

text \<open>A range-based loop collects what it visits; it may not end.\<close>

partial_function (option) loop_from :: "nat \<Rightarrow> bit_iter \<Rightarrow> bit_iter \<Rightarrow> nat list \<Rightarrow> nat list res option" where
  "loop_from N it last_it seen =
     (if Iterator_eq it last_it then Some (ok seen)
      else bindRO (Some (Iterator_next N it)) (\<lambda>it'. loop_from N it' last_it (seen @ [it_currentBit it])))"

definition IterateBitSet :: "nat \<Rightarrow> nat \<Rightarrow> nat list res option" where
  "IterateBitSet N bits =
     bindRO (Some (Iterator N bits)) (\<lambda>first. bindRO (Some (Iterator N 0)) (\<lambda>last_it. loop_from N first last_it []))"

text \<open>The iterator over a mask checks that the mask fits and yields the masks of one bit.\<close>

definition loop_over_mask :: "nat \<Rightarrow> nat \<Rightarrow> nat list res option" where
  "loop_over_mask N m =
     bindRO (Some (if m = 0 then ok () else bindR (Log2 (of_nat m)) (\<lambda>l. assertR (l < N)))) (\<lambda>_.
     bindRO (IterateBitSet N (take_bit N m)) (\<lambda>is. Some (ok (map (\<lambda>i. push_bit i 1) is))))"

section \<open>The bits ahead\<close>

text \<open>The absolute positions of the bits the iterator has not passed.\<close>

definition ahead :: "bit_iter \<Rightarrow> nat" where
  "ahead it = push_bit (it_offset it) (it_bits it)"

definition iter_ok :: "nat \<Rightarrow> bit_iter \<Rightarrow> bool" where
  "iter_ok N it \<longleftrightarrow> kBitsPerWord dvd it_offset it \<and> it_offset it < N + kBitsPerWord \<and> ahead it < 2 ^ N"

definition lowest :: "nat \<Rightarrow> nat \<Rightarrow> bool" where
  "lowest a n \<longleftrightarrow> bit a n \<and> (\<forall>j < n. \<not> bit a j)"

lemma ScanForward_lowest:
  assumes "w \<noteq> 0" "w < 2 ^ 32"
  shows "\<exists>i < 32. ScanForward (of_nat w) = ok i \<and> lowest w i"
proof -
  have b: "bit (of_nat w :: 32 word) i \<longleftrightarrow> bit w i" if "i < 32" for i using that by (simp add: bit_of_nat_iff)
  have "\<exists>i. bit w i" using assms(1) by (metis bit_0_eq bit_eqI bot_apply bot_bool_def)
  then obtain k where k: "bit w k" "\<forall>j < k. \<not> bit w j" using exists_least_iff [of "bit w"] by auto
  have k32: "k < 32"
  proof (rule ccontr)
    assume "\<not> k < 32"
    then have "(2 :: nat) ^ 32 \<le> 2 ^ k" by (intro power_increasing) auto
    then have "\<not> bit w k" using assms(2) by (simp add: bit_iff_odd)
    with k(1) show False by simp
  qed
  have split: "[0..<32] = [0..<k] @ k # [Suc k..<32]" using k32 upt_add_eq_append [of 0 k "32 - k"] upt_conv_Cons [of k 32] by simp
  have "takeWhile (\<lambda>i. \<not> bit (of_nat w :: 32 word) i) [0..<32] = [0..<k]"
    unfolding split using k k32 b by (subst takeWhile_append2) auto
  moreover have "(of_nat w :: 32 word) \<noteq> 0" using b [OF k32] k(1) by auto
  ultimately show ?thesis using k k32 by (intro exI [of _ k]) (simp add: ScanForward_def ctz32_def lowest_def)
qed

lemma nat_nonzero_bit: "(n :: nat) \<noteq> 0 \<Longrightarrow> \<exists>i. bit n i"
  by (metis bit_0_eq bit_eqI bot_apply bot_bool_def)

lemma bit_below: "(n :: nat) < 2 ^ k \<Longrightarrow> bit n i \<Longrightarrow> i < k"
  by (metis bit_take_bit_iff take_bit_nat_eq_self)

lemma ahead_bit: "bit (ahead it) i \<longleftrightarrow> it_offset it \<le> i \<and> bit (it_bits it) (i - it_offset it)"
  by (simp add: ahead_def bit_push_bit_iff)

text \<open>Skipping an empty word loses no bit.\<close>

lemma skip_word:
  assumes "take_bit kBitsPerWord (it_bits it) = 0"
  shows "ahead (it\<lparr> it_bits := drop_bit kBitsPerWord (it_bits it), it_offset := it_offset it + kBitsPerWord \<rparr>) = ahead it"
proof (rule bit_eqI)
  fix i
  have low: "\<not> bit (it_bits it) j" if "j < kBitsPerWord" for j
    using assms that by (metis bit_0_eq bit_take_bit_iff bot_apply bot_bool_def)
  show "bit (ahead (it\<lparr> it_bits := drop_bit kBitsPerWord (it_bits it), it_offset := it_offset it + kBitsPerWord \<rparr>)) i = bit (ahead it) i"
  proof (cases "it_offset it + kBitsPerWord \<le> i")
    case True
    then have "kBitsPerWord + (i - (it_offset it + kBitsPerWord)) = i - it_offset it" by simp
    with True show ?thesis by (simp add: ahead_bit bit_drop_bit_eq)
  next
    case False
    then have "\<not> bit (it_bits it) (i - it_offset it)" if "it_offset it \<le> i" using low that by simp
    with False show ?thesis by (auto simp: ahead_bit)
  qed
qed

lemma getNextBit_ok:
  assumes "iter_ok N it"
  shows "\<exists>n it'. getNextBit N it = ok (n, it') \<and> iter_ok N it' \<and> ahead it' = ahead it \<and>
    (if ahead it = 0 then it_bits it' = 0 \<and> N \<le> it_offset it' else lowest (ahead it) n \<and> it_offset it' \<le> n)"
  using assms
proof (induction N it rule: getNextBit.induct)
  case (1 N it)
  let ?w = "take_bit kBitsPerWord (it_bits it)"
  have z: "ahead it = 0 \<longleftrightarrow> it_bits it = 0" by (simp add: ahead_def push_bit_eq_0_iff)
  show ?case
  proof (cases "it_offset it < N")
    case False
    have "it_bits it = 0"
    proof (rule ccontr)
      assume "it_bits it \<noteq> 0"
      then obtain i where "bit (it_bits it) i" using nat_nonzero_bit by blast
      then have "bit (ahead it) (i + it_offset it)" by (simp add: ahead_bit)
      then show False using bit_below 1(2) False unfolding iter_ok_def by fastforce
    qed
    then show ?thesis using False 1(2) z by (subst getNextBit.simps) auto
  next
    case True
    show ?thesis
    proof (cases "?w = 0")
      case w: True
      let ?it = "it\<lparr> it_bits := drop_bit kBitsPerWord (it_bits it), it_offset := it_offset it + kBitsPerWord \<rparr>"
      have "iter_ok N ?it" using 1(2) True skip_word [OF w] by (auto simp: iter_ok_def)
      then have "\<exists>n it'. getNextBit N ?it = ok (n, it') \<and> iter_ok N it' \<and> ahead it' = ahead it \<and>
        (if ahead it = 0 then it_bits it' = 0 \<and> N \<le> it_offset it' else lowest (ahead it) n \<and> it_offset it' \<le> n)"
        using 1(1) [OF True refl] w unfolding skip_word [OF w] by simp
      moreover have "getNextBit N it = getNextBit N ?it" using True w by (subst getNextBit.simps) simp
      ultimately show ?thesis by simp
    next
      case w: False
      have "?w < 2 ^ 32" using take_bit_nat_less_exp [of 32 "it_bits it"] unfolding kBitsPerWord_def .
      then obtain i where i: "i < 32" "ScanForward (of_nat ?w) = ok i" "lowest ?w i" using ScanForward_lowest [OF w] by auto
      have "lowest (ahead it) (i + it_offset it)"
        using i(1,3) by (auto simp: lowest_def ahead_bit bit_take_bit_iff kBitsPerWord_def less_diff_conv2)
      moreover from this have "ahead it \<noteq> 0" unfolding lowest_def by (metis bit_0_eq bot_apply bot_bool_def)
      ultimately show ?thesis using 1(2) True w i(2) by (subst getNextBit.simps) simp
    qed
  qed
qed

lemma end_offset:
  assumes "iter_ok N it" "N \<le> it_offset it"
  shows "it_offset it = roundUp N kBitsPerWord"
proof -
  obtain k where k: "it_offset it = 32 * k" using assms(1) by (auto simp: iter_ok_def kBitsPerWord_def dvd_def)
  have "N \<le> 32 * k" "32 * k < N + 32" using assms k by (simp_all add: iter_ok_def kBitsPerWord_def)
  then have "(N + 31) div 32 = k" by simp
  then show ?thesis using k minus_mod_eq_mult_div [of "N + 31" 32] by (simp add: roundUp_def kBitsPerWord_def Let_def add.commute)
qed

text \<open>The iterator stands on the lowest bit ahead, or at the end.\<close>

definition stands :: "nat \<Rightarrow> bit_iter \<Rightarrow> bool" where
  "stands N it \<longleftrightarrow> iter_ok N it \<and> (if ahead it = 0 then it_bits it = 0 \<and> it_offset it = roundUp N kBitsPerWord
     else lowest (ahead it) (it_currentBit it) \<and> it_offset it \<le> it_currentBit it)"

lemma getNextBit_stands:
  assumes "iter_ok N it"
  shows "\<exists>n it'. getNextBit N it = ok (n, it') \<and> stands N (it'\<lparr> it_currentBit := n \<rparr>) \<and> ahead (it'\<lparr> it_currentBit := n \<rparr>) = ahead it"
proof -
  obtain n it' where r: "getNextBit N it = ok (n, it')" "iter_ok N it'" "ahead it' = ahead it"
    "if ahead it = 0 then it_bits it' = 0 \<and> N \<le> it_offset it' else lowest (ahead it) n \<and> it_offset it' \<le> n"
    using getNextBit_ok [OF assms] by blast
  have same: "ahead (it'\<lparr> it_currentBit := n \<rparr>) = ahead it'" "iter_ok N (it'\<lparr> it_currentBit := n \<rparr>) = iter_ok N it'"
    by (simp_all add: ahead_def iter_ok_def)
  have "stands N (it'\<lparr> it_currentBit := n \<rparr>)" using r end_offset [OF r(2)] same by (auto simp: stands_def)
  then show ?thesis using r same by auto
qed

lemma Iterator_ok:
  assumes "bits < 2 ^ N"
  shows "\<exists>it. Iterator N bits = ok it \<and> stands N it \<and> ahead it = bits"
proof (cases "bits = 0")
  case True
  have "roundUp N kBitsPerWord < N + kBitsPerWord" "kBitsPerWord dvd roundUp N kBitsPerWord"
    by (simp_all add: roundUp_def kBitsPerWord_def Let_def dvd_minus_mod) 
  then show ?thesis using True by (simp add: Iterator_def stands_def iter_ok_def ahead_def)
next
  case False
  let ?it = "\<lparr> it_bits = bits, it_currentBit = 0, it_offset = 0 \<rparr>"
  have "iter_ok N ?it" "ahead ?it = bits" using assms by (simp_all add: iter_ok_def ahead_def kBitsPerWord_def)
  then show ?thesis using getNextBit_stands [of N ?it] False by (auto simp: Iterator_def)
qed

lemma unset_bit_below:
  assumes "(n :: nat) < 2 ^ k"
  shows "unset_bit i n < 2 ^ k"
proof -
  have "take_bit k (unset_bit i n) = unset_bit i n"
    using bit_below [OF assms] by (intro bit_eqI) (auto simp: bit_take_bit_iff bit_unset_bit_iff)
  then show ?thesis by (metis take_bit_nat_less_exp)
qed

lemma Iterator_next_ok:
  assumes "stands N it" "ahead it \<noteq> 0"
  shows "\<exists>it'. Iterator_next N it = ok it' \<and> stands N it' \<and> ahead it' = unset_bit (it_currentBit it) (ahead it)"
proof -
  have s: "iter_ok N it" "lowest (ahead it) (it_currentBit it)" "it_offset it \<le> it_currentBit it" using assms by (auto simp: stands_def)
  let ?it = "it\<lparr> it_bits := unset_bit (it_currentBit it - it_offset it) (it_bits it) \<rparr>"
  have a: "ahead ?it = unset_bit (it_currentBit it) (ahead it)"
    using s(3) by (intro bit_eqI) (auto simp: ahead_bit bit_unset_bit_iff)
  have "it_currentBit it < N" using s(1,2) bit_below by (auto simp: iter_ok_def lowest_def)
  moreover have "it_bits it \<noteq> 0" using assms(2) by (auto simp: ahead_def)
  moreover have "unset_bit (it_currentBit it) (ahead it) < 2 ^ N" using s(1) by (simp add: unset_bit_below iter_ok_def)
  then have "iter_ok N ?it" using s(1) a by (simp add: iter_ok_def)
  ultimately show ?thesis using getNextBit_stands [of N ?it] s(3) a by (auto simp: Iterator_next_def)
qed

lemma filter_lowest:
  assumes "lowest a n" "n < N"
  shows "filter (bit a) [0..<N] = n # filter (bit (unset_bit n a)) [0..<N]"
proof -
  have split: "[0..<N] = [0..<n] @ n # [Suc n..<N]" using assms(2) upt_add_eq_append [of 0 n "N - n"] upt_conv_Cons [of n N] by simp
  have "filter (bit a) [0..<n] = []" "filter (bit (unset_bit n a)) [0..<n] = []"
    using assms(1) by (auto simp: lowest_def filter_empty_conv bit_unset_bit_iff)
  moreover have "filter (bit (unset_bit n a)) [Suc n..<N] = filter (bit a) [Suc n..<N]"
    by (intro filter_cong) (auto simp: bit_unset_bit_iff)
  ultimately show ?thesis unfolding split using assms(1) by (simp add: lowest_def bit_unset_bit_iff)
qed

lemma loop_from_ok:
  assumes "stands N it" "stands N last_it" "ahead last_it = 0"
  shows "loop_from N it last_it seen = Some (ok (seen @ filter (bit (ahead it)) [0..<N]))"
  using assms(1)
proof (induction "length (filter (bit (ahead it)) [0..<N])" arbitrary: it seen rule: less_induct)
  case less
  have last_it: "it_bits last_it = 0" "it_offset last_it = roundUp N kBitsPerWord" using assms(2,3) by (auto simp: stands_def)
  show ?case
  proof (cases "ahead it = 0")
    case True
    then show ?thesis using less(2) last_it by (subst loop_from.simps) (simp add: Iterator_eq_def stands_def)
  next
    case False
    then have l: "lowest (ahead it) (it_currentBit it)" "iter_ok N it" using less(2) by (auto simp: stands_def)
    then have n: "it_currentBit it < N" using bit_below by (auto simp: iter_ok_def lowest_def)
    obtain it' where it': "Iterator_next N it = ok it'" "stands N it'" "ahead it' = unset_bit (it_currentBit it) (ahead it)"
      using Iterator_next_ok [OF less(2) False] by blast
    have f: "filter (bit (ahead it)) [0..<N] = it_currentBit it # filter (bit (ahead it')) [0..<N]" using filter_lowest [OF l(1) n] it'(3) by simp
    have "\<not> Iterator_eq it last_it" using False last_it by (auto simp: Iterator_eq_def ahead_def)
    then have "loop_from N it last_it seen = loop_from N it' last_it (seen @ [it_currentBit it])" using it'(1) by (subst loop_from.simps) simp
    also have "\<dots> = Some (ok (seen @ [it_currentBit it] @ filter (bit (ahead it')) [0..<N]))" using less(1) [OF _ it'(2)] f by simp
    finally show ?thesis using f by simp
  qed
qed

lemma IterateBitSet_ok:
  assumes "bits < 2 ^ N"
  shows "IterateBitSet N bits = Some (ok (filter (bit bits) [0..<N]))"
proof -
  obtain it last_it where "Iterator N bits = ok it" "stands N it" "ahead it = bits" "Iterator N 0 = ok last_it" "stands N last_it" "ahead last_it = 0"
    using Iterator_ok [OF assms] Iterator_ok [of 0 N] by auto
  then show ?thesis using loop_from_ok by (simp add: IterateBitSet_def)
qed

section \<open>Properties\<close>

text \<open>
  A loop over a bitset of any size ends and visits exactly the set bits, in ascending order;
  a loop over a mask of aspects visits the aspects of the mask in the order of their bits, which is
  how every other loop over a mask is written in this development.
\<close>

theorem loops_visit_bits:
  assumes "bits < 2 ^ N" "mask_value < 2 ^ 6"
  shows "IterateBitSet N bits = Some (ok (filter (bit bits) [0..<N])) \<and> loop_over_mask 6 mask_value = Some (ok (IterateEnumMask mask_value))"
proof -
  have m: "take_bit 6 mask_value = mask_value" using assms(2) by (simp add: take_bit_nat_eq_self)
  have fits: "(if mask_value = 0 then ok () else bindR (Log2 (of_nat mask_value)) (\<lambda>l. assertR (l < 6))) = ok ()"
  proof (cases "mask_value = 0")
    case False
    have u: "unat (of_nat mask_value :: 64 word) = mask_value" using assms(2) by (simp add: unat_of_nat take_bit_nat_eq_self)
    then have "of_nat mask_value \<noteq> (0 :: 64 word)" using False by auto
    from Log2_eq [OF this] obtain k where k: "Log2 (of_nat mask_value) = ok k" "2 ^ k \<le> mask_value" using u by auto
    then have "(2 :: nat) ^ k < 2 ^ 6" using assms(2) by linarith
    then have "k < 6" by (rule power_less_imp_less_exp [rotated]) simp
    then show ?thesis using False k(1) by simp
  qed simp
  have "map (\<lambda>i. push_bit i 1) (filter (bit mask_value) [0..<6]) = IterateEnumMask mask_value"
    by (simp add: IterateEnumMask_def push_bit_eq_mult)
  then show ?thesis using IterateBitSet_ok [OF assms(1)] IterateBitSet_ok [OF assms(2)] fits m by (simp add: loop_over_mask_def)
qed

theorem loops_visit_bits_witness:
  "IterateBitSet 40 274877906977 = Some (ok [0, 5, 38]) \<and> loop_over_mask 6 6 = Some (ok [2, 4])"
proof -
  have "filter (bit (274877906977 :: nat)) [0..<40] = [0, 5, 38]" by (simp add: upt_conv_Cons bit_Suc_0_iff)
  moreover have "IterateEnumMask 6 = [2, 4]" by (simp add: IterateEnumMask_def upt_conv_Cons bit_Suc_0_iff)
  ultimately show ?thesis using loops_visit_bits [of 274877906977 40 6] by simp
qed

end
