(* ===== verification/Command_Allocator.thy ===== *)
theory Command_Allocator
  imports Dawn_Math
begin

unbundle bit_operations_syntax

text \<open>
  Storage of recorded commands: \<open>dawn_native/CommandAllocator.cpp\<close> and \<open>CommandAllocator.h\<close>. Commands
  lie one after the other in blocks of memory, each behind a 32-bit identifier; the iterator walks
  the same blocks. Memory is a set of numbered blocks of bytes. \<open>malloc\<close> aligns its blocks for every
  fundamental type, so that the alignment of an address up to \<open>kMaxSupportedAlignment\<close> is that of
  its offset in the block.
\<close>

section \<open>Memory\<close>

text \<open>\<open>Own\<close> points into the word that an allocator or iterator has in itself (\<open>mDummyEnum\<close> and
  \<open>mEndOfBlock\<close>), \<open>Heap\<close> into a block of \<open>malloc\<close>.\<close>

datatype address = Nullptr | Own nat | Heap nat nat

text \<open>Which calls of \<open>malloc\<close> find no memory is arbitrary.\<close>

record heap =
  refused :: "nat \<Rightarrow> bool"
  calls :: nat
  live :: "nat \<Rightarrow> nat option"
  bytes :: "nat \<Rightarrow> nat \<Rightarrow> nat"

definition malloc :: "nat \<Rightarrow> heap \<Rightarrow> address \<times> heap" where
  "malloc n h =
     (if refused h (calls h) then (Nullptr, h\<lparr>calls := Suc (calls h)\<rparr>)
      else (Heap (calls h) 0, h\<lparr>calls := Suc (calls h), live := (live h)(calls h \<mapsto> n)\<rparr>))"

fun free :: "address \<Rightarrow> heap \<Rightarrow> heap res" where
  "free Nullptr h = ok h"
| "free (Own i) h = undef"
| "free (Heap b i) h = (if i = 0 \<and> live h b \<noteq> None then ok (h\<lparr>live := (live h)(b := None)\<rparr>) else undef)"

definition accessible :: "heap \<Rightarrow> nat \<Rightarrow> nat \<Rightarrow> nat \<Rightarrow> bool" where
  "accessible h b i n = (case live h b of None \<Rightarrow> False | Some s \<Rightarrow> i + n \<le> s)"

text \<open>A 32-bit word in memory, least significant byte first.\<close>

definition word_at :: "heap \<Rightarrow> nat \<Rightarrow> nat \<Rightarrow> nat" where
  "word_at h b i = bytes h b i + 256 * (bytes h b (i + 1) + 256 * (bytes h b (i + 2) + 256 * bytes h b (i + 3)))"

definition set_word :: "nat \<Rightarrow> nat \<Rightarrow> nat \<Rightarrow> heap \<Rightarrow> heap" where
  "set_word b i v h =
     h\<lparr>bytes := (bytes h)(b := (\<lambda>j. if i \<le> j \<and> j < i + 4 then v div 256 ^ (j - i) mod 256 else bytes h b j))\<rparr>"

text \<open>Access through a pointer of an object whose own word is \<open>w\<close>.\<close>

fun load32 :: "nat \<Rightarrow> address \<Rightarrow> heap \<Rightarrow> nat res" where
  "load32 w Nullptr h = undef"
| "load32 w (Own i) h = (if i = 0 then ok w else undef)"
| "load32 w (Heap b i) h = (if accessible h b i 4 \<and> i mod 4 = 0 then ok (word_at h b i) else undef)"

fun store32 :: "nat \<Rightarrow> address \<Rightarrow> nat \<Rightarrow> heap \<Rightarrow> (nat \<times> heap) res" where
  "store32 w Nullptr v h = undef"
| "store32 w (Own i) v h = (if i = 0 then ok (v, h) else undef)"
| "store32 w (Heap b i) v h = (if accessible h b i 4 \<and> i mod 4 = 0 then ok (w, set_word b i v h) else undef)"

fun ptr_add :: "address \<Rightarrow> nat \<Rightarrow> address" where
  "ptr_add Nullptr n = Nullptr"
| "ptr_add (Own i) n = Own (i + n)"
| "ptr_add (Heap b i) n = Heap b (i + n)"

text \<open>The difference \<open>q - p\<close> of two pointers into the same object, asserted not to be negative.\<close>

fun ptr_diff :: "address \<Rightarrow> address \<Rightarrow> nat res" where
  "ptr_diff (Own j) (Own i) = (if i \<le> j then ok (j - i) else undef)"
| "ptr_diff (Heap c j) (Heap b i) = (if b = c \<and> i \<le> j then ok (j - i) else undef)"
| "ptr_diff q p = undef"

fun align_ptr :: "address \<Rightarrow> nat \<Rightarrow> address res" where
  "align_ptr Nullptr a = undef"
| "align_ptr (Own i) a = bindR (AlignPtr (of_nat i) (of_nat a)) (\<lambda>j. ok (Own (unat j)))"
| "align_ptr (Heap b i) a = bindR (AlignPtr (of_nat i) (of_nat a)) (\<lambda>j. ok (Heap b (unat j)))"

fun ptr_aligned :: "address \<Rightarrow> nat \<Rightarrow> bool res" where
  "ptr_aligned Nullptr a = undef"
| "ptr_aligned (Own i) a = IsPtrAligned (of_nat i) (of_nat a)"
| "ptr_aligned (Heap b i) a = IsPtrAligned (of_nat i) (of_nat a)"

section \<open>The allocator\<close>

definition kEndOfBlock :: nat where
  "kEndOfBlock = 2 ^ 32 - 1"

definition kAdditionalData :: nat where
  "kAdditionalData = 2 ^ 32 - 2"

definition kMaxSupportedAlignment :: nat where
  "kMaxSupportedAlignment = 8"

definition kWorstCaseAdditionalSize :: nat where
  "kWorstCaseAdditionalSize = 4 + kMaxSupportedAlignment + 4 + 4"

definition kDefaultBaseAllocationSize :: nat where
  "kDefaultBaseAllocationSize = 2048"

text \<open>A block: its size and where it starts.\<close>

type_synonym block_def = "nat \<times> address"

record command_allocator =
  mBlocks :: "block_def list"
  mLastAllocationSize :: nat
  mDummyEnum :: nat
  mCurrentPtr :: address
  mEndPtr :: address

definition ResetPointers :: "command_allocator \<Rightarrow> command_allocator" where
  "ResetPointers a = a\<lparr>mCurrentPtr := Own 0, mEndPtr := Own 4\<rparr>"

definition CommandAllocator :: command_allocator where
  "CommandAllocator =
     ResetPointers \<lparr>mBlocks = [], mLastAllocationSize = kDefaultBaseAllocationSize, mDummyEnum = 0,
       mCurrentPtr = Nullptr, mEndPtr = Nullptr\<rparr>"

definition free_command_blocks :: "block_def list \<Rightarrow> heap \<Rightarrow> heap res" where
  "free_command_blocks blocks h = foldR (\<lambda>(size1, block). free block) blocks h"

definition Allocator_Reset :: "command_allocator \<Rightarrow> heap \<Rightarrow> (command_allocator \<times> heap) res" where
  "Allocator_Reset a h =
     bindR (free_command_blocks (mBlocks a) h) (\<lambda>h.
       ok (ResetPointers (a\<lparr>mBlocks := [], mLastAllocationSize := kDefaultBaseAllocationSize\<rparr>), h))"

definition Allocator_IsEmpty :: "command_allocator \<Rightarrow> bool" where
  "Allocator_IsEmpty a = (mCurrentPtr a = Own 0)"

text \<open>The move constructor returns the new allocator and what is left of the other.\<close>

definition CommandAllocator_move :: "command_allocator \<Rightarrow> heap \<Rightarrow> (command_allocator \<times> command_allocator \<times> heap) res" where
  "CommandAllocator_move other h =
     (let this = \<lparr>mBlocks = mBlocks other, mLastAllocationSize = mLastAllocationSize other, mDummyEnum = 0,
                  mCurrentPtr = Nullptr, mEndPtr = Nullptr\<rparr>;
          other = other\<lparr>mBlocks := []\<rparr>;
          this = (if \<not> Allocator_IsEmpty other
                  then this\<lparr>mCurrentPtr := mCurrentPtr other, mEndPtr := mEndPtr other\<rparr>
                  else ResetPointers this)
      in bindR (Allocator_Reset other h) (\<lambda>(other, h). ok (this, other, h)))"

definition CommandAllocator_assign ::
    "command_allocator \<Rightarrow> command_allocator \<Rightarrow> heap \<Rightarrow> (command_allocator \<times> command_allocator \<times> heap) res" where
  "CommandAllocator_assign this other h =
     bindR (Allocator_Reset this h) (\<lambda>(this, h).
     let this' = (if \<not> Allocator_IsEmpty other
                  then this\<lparr>mBlocks := mBlocks other, mLastAllocationSize := mLastAllocationSize other,
                            mCurrentPtr := mCurrentPtr other, mEndPtr := mEndPtr other\<rparr>
                  else this);
         other' = (if \<not> Allocator_IsEmpty other then other\<lparr>mBlocks := mBlocks this\<rparr> else other)
     in bindR (Allocator_Reset other' h) (\<lambda>(other, h). ok (this', other, h)))"

definition AcquireBlocks :: "command_allocator \<Rightarrow> heap \<Rightarrow> (block_def list \<times> command_allocator \<times> heap) res" where
  "AcquireBlocks a h =
     bindR (assertR (mCurrentPtr a \<noteq> Nullptr \<and> mEndPtr a \<noteq> Nullptr)) (\<lambda>_.
     bindR (ptr_aligned (mCurrentPtr a) 4) (\<lambda>aligned.
     bindR (assertR aligned) (\<lambda>_.
     bindR (ptr_diff (mEndPtr a) (mCurrentPtr a)) (\<lambda>left1.
     bindR (assertR (4 \<le> left1)) (\<lambda>_.
     bindR (store32 (mDummyEnum a) (mCurrentPtr a) kEndOfBlock h) (\<lambda>(w, h).
       ok (mBlocks a, a\<lparr>mDummyEnum := w, mCurrentPtr := Nullptr, mEndPtr := Nullptr, mBlocks := []\<rparr>, h)))))))"

definition GetNewBlock :: "nat \<Rightarrow> command_allocator \<Rightarrow> heap \<Rightarrow> (bool \<times> command_allocator \<times> heap) res" where
  "GetNewBlock minimumSize a h =
     (let last1 = max minimumSize (min (mLastAllocationSize a * 2 mod 2 ^ 64) 16384);
          a = a\<lparr>mLastAllocationSize := last1\<rparr>;
          (block, h) = malloc last1 h
      in if block = Nullptr then ok (False, a, h)
         else bindR (align_ptr block 4) (\<lambda>p.
           ok (True, a\<lparr>mBlocks := mBlocks a @ [(last1, block)], mCurrentPtr := p, mEndPtr := ptr_add block last1\<rparr>, h)))"

text \<open>\<open>AllocateInNewBlock\<close> up to its call of \<open>Allocate\<close>; the result says whether that call is made.\<close>

definition AllocateInNewBlock :: "nat \<Rightarrow> command_allocator \<Rightarrow> heap \<Rightarrow> (bool \<times> command_allocator \<times> heap) res" where
  "AllocateInNewBlock commandSize a h =
     bindR (store32 (mDummyEnum a) (mCurrentPtr a) kEndOfBlock h) (\<lambda>(w, h).
     let a = a\<lparr>mDummyEnum := w\<rparr>;
         requestedBlockSize = (commandSize + kWorstCaseAdditionalSize) mod 2 ^ 64
     in if requestedBlockSize \<le> commandSize then ok (False, a, h)
        else GetNewBlock requestedBlockSize a h)"

definition remaining_size :: "nat \<Rightarrow> command_allocator \<Rightarrow> nat res" where
  "remaining_size commandId a =
     bindR (assertR (mCurrentPtr a \<noteq> Nullptr \<and> mEndPtr a \<noteq> Nullptr \<and> commandId \<noteq> kEndOfBlock)) (\<lambda>_.
     bindR (ptr_aligned (mCurrentPtr a) 4) (\<lambda>aligned.
     bindR (assertR aligned) (\<lambda>_.
     bindR (ptr_diff (mEndPtr a) (mCurrentPtr a)) (\<lambda>remainingSize.
     bindR (assertR (4 \<le> remainingSize)) (\<lambda>_.
       ok remainingSize)))))"

definition place_command ::
    "nat \<Rightarrow> nat \<Rightarrow> nat \<Rightarrow> command_allocator \<Rightarrow> heap \<Rightarrow> (address \<times> command_allocator \<times> heap) res" where
  "place_command commandId commandSize commandAlignment a h =
     bindR (store32 (mDummyEnum a) (mCurrentPtr a) commandId h) (\<lambda>(w, h).
     bindR (align_ptr (ptr_add (mCurrentPtr a) 4) commandAlignment) (\<lambda>commandAlloc.
     bindR (align_ptr (ptr_add commandAlloc commandSize) 4) (\<lambda>p.
       ok (commandAlloc, a\<lparr>mDummyEnum := w, mCurrentPtr := p\<rparr>, h))))"

definition fits_in :: "nat \<Rightarrow> nat \<Rightarrow> bool" where
  "fits_in remainingSize commandSize \<longleftrightarrow>
     remainingSize \<ge> kWorstCaseAdditionalSize \<and> remainingSize - kWorstCaseAdditionalSize \<ge> commandSize"

text \<open>A new block has room for the command, so that the second call of \<open>Allocate\<close> is the last.\<close>

lemma GetNewBlock_got:
  assumes "GetNewBlock n a h = ok (True, a', h')"
  shows "\<exists>m b. n \<le> m \<and> mCurrentPtr a' = Heap b 0 \<and> mEndPtr a' = Heap b m"
proof -
  have "align_ptr (Heap b 0) 4 = ok (Heap b 0)" for b
    by (simp add: AlignPtr_def assert_pow2_def IsPowerOfTwo_def)
  then show ?thesis
    using assms by (fastforce simp: GetNewBlock_def malloc_def Let_def simp del: align_ptr.simps split: if_splits)
qed

lemma new_block_fits:
  assumes "AllocateInNewBlock size1 a h = ok (True, a', h')" "id1 \<noteq> kEndOfBlock"
  shows "\<exists>r. remaining_size id1 a' = ok r \<and> fits_in r size1"
proof -
  let ?r = "(size1 + kWorstCaseAdditionalSize) mod 2 ^ 64"
  obtain w h1 where s: "store32 (mDummyEnum a) (mCurrentPtr a) kEndOfBlock h = ok (w, h1)" "size1 < ?r"
    "GetNewBlock ?r (a\<lparr>mDummyEnum := w\<rparr>) h1 = ok (True, a', h')"
    using assms(1) by (auto simp: AllocateInNewBlock_def bindR_Inr_iff Let_def split: prod.splits if_splits)
  have "?r = size1 + kWorstCaseAdditionalSize"
  proof (rule ccontr)
    assume "?r \<noteq> size1 + kWorstCaseAdditionalSize"
    then have "2 ^ 64 \<le> size1 + kWorstCaseAdditionalSize" by (metis mod_less not_le)
    then have "?r \<le> size1 + kWorstCaseAdditionalSize - 2 ^ 64" by (subst le_mod_geq) (simp_all add: mod_less_eq_dividend)
    with s(2) show False by (simp add: kWorstCaseAdditionalSize_def kMaxSupportedAlignment_def)
  qed
  moreover have "ptr_aligned (Heap b 0) 4 = ok True" for b
    by (simp add: IsPtrAligned_def assert_pow2_def IsPowerOfTwo_def)
  moreover obtain n b where "?r \<le> n" "mCurrentPtr a' = Heap b 0" "mEndPtr a' = Heap b n"
    using GetNewBlock_got [OF s(3)] by blast
  ultimately show ?thesis
    using assms(2) by (auto simp: fits_in_def remaining_size_def kWorstCaseAdditionalSize_def simp del: ptr_aligned.simps)
qed

function Allocate ::
    "nat \<Rightarrow> nat \<Rightarrow> nat \<Rightarrow> command_allocator \<Rightarrow> heap \<Rightarrow> (address \<times> command_allocator \<times> heap) res" where
  "Allocate commandId commandSize commandAlignment a h =
     bindR (remaining_size commandId a) (\<lambda>remainingSize.
       if fits_in remainingSize commandSize then place_command commandId commandSize commandAlignment a h
       else bindR (AllocateInNewBlock commandSize a h) (\<lambda>(got, a, h).
         if got then Allocate commandId commandSize commandAlignment a h else ok (Nullptr, a, h)))"
  by pat_completeness auto
termination
proof (relation "measure (\<lambda>(commandId, commandSize, _, a, _).
    case remaining_size commandId a of Inr r \<Rightarrow> (if fits_in r commandSize then 0 else 1) | _ \<Rightarrow> 1)", goal_cases)
  case (2 commandId commandSize commandAlignment a h r s got y a' h')
  then have "commandId \<noteq> kEndOfBlock" by (auto simp: remaining_size_def res_iff)
  then show ?case using 2 new_block_fits [of commandSize a h a' h' commandId] by auto
qed simp

declare Allocate.simps [simp del]

text \<open>An array of \<open>count\<close> elements; the product is computed in \<open>size_t\<close>.\<close>

definition AllocateData ::
    "nat \<Rightarrow> nat \<Rightarrow> nat \<Rightarrow> command_allocator \<Rightarrow> heap \<Rightarrow> (address \<times> command_allocator \<times> heap) res" where
  "AllocateData sizeof count alignment a h = Allocate kAdditionalData (sizeof * count mod 2 ^ 64) alignment a h"

section \<open>The iterator\<close>

record command_iterator =
  iBlocks :: "block_def list"
  iCurrentPtr :: address
  iCurrentBlock :: nat
  iEndOfBlock :: nat

definition Iterator_Reset :: "command_iterator \<Rightarrow> command_iterator res" where
  "Iterator_Reset it =
     (case iBlocks it of
        [] \<Rightarrow> ok (it\<lparr>iCurrentBlock := 0, iCurrentPtr := Own 0, iBlocks := [(4, Own 0)]\<rparr>)
      | (_, block) # _ \<Rightarrow> bindR (align_ptr block 4) (\<lambda>p. ok (it\<lparr>iCurrentBlock := 0, iCurrentPtr := p\<rparr>)))"

abbreviation blank_iterator :: command_iterator where
  "blank_iterator \<equiv> \<lparr>iBlocks = [], iCurrentPtr = Nullptr, iCurrentBlock = 0, iEndOfBlock = kEndOfBlock\<rparr>"

definition CommandIterator :: "command_iterator res" where
  "CommandIterator = Iterator_Reset blank_iterator"

definition Iterator_IsEmpty :: "command_iterator \<Rightarrow> bool res" where
  "Iterator_IsEmpty it = bindR (vec_at (iBlocks it) 0) (\<lambda>(_, block). ok (block = Own 0))"

text \<open>What both move operations do with the target \<open>it\<close>.\<close>

definition take_blocks :: "command_iterator \<Rightarrow> command_iterator \<Rightarrow> (command_iterator \<times> command_iterator) res" where
  "take_blocks it other =
     bindR (Iterator_IsEmpty other) (\<lambda>empty1.
     bindR (if empty1 then ok (it, other)
            else bindR (Iterator_Reset (other\<lparr>iBlocks := []\<rparr>)) (\<lambda>other'. ok (it\<lparr>iBlocks := iBlocks other\<rparr>, other')))
       (\<lambda>(it, other). bindR (Iterator_Reset it) (\<lambda>it. ok (it, other))))"

definition CommandIterator_move :: "command_iterator \<Rightarrow> (command_iterator \<times> command_iterator) res" where
  "CommandIterator_move other = take_blocks blank_iterator other"

definition CommandIterator_assign :: "command_iterator \<Rightarrow> command_iterator \<Rightarrow> (command_iterator \<times> command_iterator) res" where
  "CommandIterator_assign it other =
     bindR (Iterator_IsEmpty it) (\<lambda>empty1. bindR (assertR empty1) (\<lambda>_. take_blocks it other))"

definition CommandIterator_of :: "command_allocator \<Rightarrow> heap \<Rightarrow> (command_iterator \<times> heap) res" where
  "CommandIterator_of a h =
     bindR (AcquireBlocks a h) (\<lambda>(blocks, _, h).
     bindR (Iterator_Reset (blank_iterator\<lparr>iBlocks := blocks\<rparr>)) (\<lambda>it. ok (it, h)))"

definition acquire_step :: "command_allocator \<Rightarrow> block_def list \<times> heap \<Rightarrow> (block_def list \<times> heap) res" where
  "acquire_step a = (\<lambda>(blocks, h). bindR (AcquireBlocks a h) (\<lambda>(bs, _, h). ok (blocks @ bs, h)))"

definition AcquireCommandBlocks :: "command_iterator \<Rightarrow> command_allocator list \<Rightarrow> heap \<Rightarrow> (command_iterator \<times> heap) res" where
  "AcquireCommandBlocks it allocators h =
     bindR (Iterator_IsEmpty it) (\<lambda>empty1.
     bindR (assertR empty1) (\<lambda>_.
     bindR (foldR acquire_step allocators ([], h)) (\<lambda>(blocks, h).
     bindR (Iterator_Reset (it\<lparr>iBlocks := blocks\<rparr>)) (\<lambda>it. ok (it, h)))))"

text \<open>The assertion that \<open>n\<close> bytes from \<open>p\<close> on lie before the end of the current block.\<close>

definition assert_in_block :: "command_iterator \<Rightarrow> address \<Rightarrow> nat \<Rightarrow> unit res" where
  "assert_in_block it p n =
     bindR (vec_at (iBlocks it) (int (iCurrentBlock it))) (\<lambda>(size1, block).
     bindR (ptr_diff (ptr_add block size1) (ptr_add p n)) (\<lambda>_. ok ()))"

text \<open>\<open>None\<close> when there is no further command.\<close>

function NextCommandId :: "command_iterator \<Rightarrow> heap \<Rightarrow> (nat option \<times> command_iterator) res" where
  "NextCommandId it h =
     bindR (align_ptr (iCurrentPtr it) 4) (\<lambda>idPtr.
     bindR (assert_in_block it idPtr 4) (\<lambda>_.
     bindR (load32 (iEndOfBlock it) idPtr h) (\<lambda>id1.
       if id1 \<noteq> kEndOfBlock then ok (Some id1, it\<lparr>iCurrentPtr := ptr_add idPtr 4\<rparr>)
       else if length (iBlocks it) \<le> iCurrentBlock it + 1
       then bindR (Iterator_Reset (it\<lparr>iCurrentBlock := iCurrentBlock it + 1\<rparr>)) (\<lambda>it. ok (None, it))
       else bindR (align_ptr (snd (iBlocks it ! (iCurrentBlock it + 1))) 4) (\<lambda>p.
              NextCommandId (it\<lparr>iCurrentBlock := iCurrentBlock it + 1, iCurrentPtr := p\<rparr>) h))))"
  by pat_completeness auto
termination
  by (relation "measure (\<lambda>(it, h). length (iBlocks it) - iCurrentBlock it)") auto

declare NextCommandId.simps [simp del]

definition NextCommand :: "nat \<Rightarrow> nat \<Rightarrow> command_iterator \<Rightarrow> (address \<times> command_iterator) res" where
  "NextCommand commandSize commandAlignment it =
     bindR (align_ptr (iCurrentPtr it) commandAlignment) (\<lambda>commandPtr.
     bindR (assert_in_block it commandPtr 8) (\<lambda>_.
       ok (commandPtr, it\<lparr>iCurrentPtr := ptr_add commandPtr commandSize\<rparr>)))"

definition NextData :: "nat \<Rightarrow> nat \<Rightarrow> command_iterator \<Rightarrow> heap \<Rightarrow> (address \<times> command_iterator) res" where
  "NextData dataSize dataAlignment it h =
     bindR (NextCommandId it h) (\<lambda>(id1, it).
     bindR (assertR (id1 = Some kAdditionalData)) (\<lambda>_. NextCommand dataSize dataAlignment it))"

definition MakeEmptyAsDataWasDestroyed :: "command_iterator \<Rightarrow> heap \<Rightarrow> (command_iterator \<times> heap) res" where
  "MakeEmptyAsDataWasDestroyed it h =
     bindR (Iterator_IsEmpty it) (\<lambda>empty1.
     if empty1 then ok (it, h)
     else bindR (free_command_blocks (iBlocks it) h) (\<lambda>h.
          bindR (Iterator_Reset (it\<lparr>iBlocks := []\<rparr>)) (\<lambda>it.
          bindR (Iterator_IsEmpty it) (\<lambda>empty1. bindR (assertR empty1) (\<lambda>_. ok (it, h))))))"

end
