(* ===== verification/Encoding_Context.thy ===== *)
theory Encoding_Context
  imports Command_Allocator Sync_Scope
begin

text \<open>
  Encoding of commands: \<open>dawn_native/EncodingContext.cpp\<close> and \<open>EncodingContext.h\<close>, and the entry points
  of the encoders that begin and end passes and finish. An encoder is a number, \<open>nullptr\<close> is
  \<open>None\<close>. The function that an entry point gives to \<open>TryEncode\<close> is a function on the context, since
  it records into the pending commands and may begin or end a pass. Contexts and backtraces of
  errors are not represented; debug groups are.
\<close>

section \<open>The context\<close>

type_synonym error_data = "internal_error_type \<times> string \<times> string list"

type_synonym maybe_error = "error_data option"

text \<open>\<open>memory\<close> is the heap of the process, \<open>validation\<close> tells whether the device validates and
  \<open>reported\<close> lists the errors that it was given.\<close>

record encoding_context =
  memory :: heap
  validation :: bool
  reported :: "error_data list"
  mTopLevelEncoder :: "nat option"
  mCurrentEncoder :: "nat option"
  mRenderPassUsages :: "render_usage list"
  mWereRenderPassUsagesAcquired :: bool
  mComputePassUsages :: "compute_usage list"
  mWereComputePassUsagesAcquired :: bool
  mPendingCommands :: command_allocator
  mAllocators :: "command_allocator list"
  mIterator :: command_iterator
  mWasMovedToIterator :: bool
  mWereCommandsAcquired :: bool
  mDestroyed :: bool
  mError :: maybe_error
  mDebugGroupLabels :: "string list"

definition EncodingContext :: "bool \<Rightarrow> nat \<Rightarrow> heap \<Rightarrow> encoding_context res" where
  "EncodingContext validation1 initialEncoder h =
     bindR CommandIterator (\<lambda>it.
     ok \<lparr>memory = h, validation = validation1, reported = [],
         mTopLevelEncoder = Some initialEncoder, mCurrentEncoder = Some initialEncoder,
         mRenderPassUsages = [], mWereRenderPassUsagesAcquired = False,
         mComputePassUsages = [], mWereComputePassUsagesAcquired = False,
         mPendingCommands = CommandAllocator, mAllocators = [], mIterator = it,
         mWasMovedToIterator = False, mWereCommandsAcquired = False, mDestroyed = False,
         mError = None, mDebugGroupLabels = []\<rparr>)"

definition IsFinished :: "encoding_context \<Rightarrow> bool" where
  "IsFinished c = (mTopLevelEncoder c = None)"

section \<open>Errors\<close>

definition HandleError :: "error_data \<Rightarrow> encoding_context \<Rightarrow> encoding_context res" where
  "HandleError error c =
     (let (type1, message, groups) = error;
          error = (type1, message, groups @ rev (mDebugGroupLabels c))
      in if \<not> IsFinished c then
           bindR (assertR (type1 = Validation)) (\<lambda>_.
             ok (if mError c = None then c\<lparr>mError := Some error\<rparr> else c))
         else ok (c\<lparr>reported := reported c @ [error]\<rparr>))"

definition validation_failure :: "string \<Rightarrow> error_data" where
  "validation_failure message = (Validation, message, [])"

definition Context_ConsumedError :: "maybe_error \<Rightarrow> encoding_context \<Rightarrow> (bool \<times> encoding_context) res" where
  "Context_ConsumedError maybeError c =
     (case maybeError of
        Some error \<Rightarrow> bindR (HandleError error c) (\<lambda>c. ok (True, c))
      | None \<Rightarrow> ok (False, c))"

definition CheckCurrentEncoder :: "nat \<Rightarrow> encoding_context \<Rightarrow> (bool \<times> encoding_context) res" where
  "CheckCurrentEncoder encoder c =
     (if Some encoder \<noteq> mCurrentEncoder c then
        bindR (if mDestroyed c then HandleError (validation_failure ''Recording in a destroyed encoder.'') c
               else if mCurrentEncoder c \<noteq> mTopLevelEncoder c
               then HandleError (validation_failure ''Command cannot be recorded while a pass is active.'') c
               else HandleError (validation_failure ''Recording in an error or already ended encoder.'') c)
          (\<lambda>c. ok (False, c))
      else ok (True, c))"

type_synonym encode_function = "encoding_context \<Rightarrow> (maybe_error \<times> encoding_context) res"

definition TryEncode :: "nat \<Rightarrow> encode_function \<Rightarrow> encoding_context \<Rightarrow> (bool \<times> encoding_context) res" where
  "TryEncode encoder encodeFunction c =
     bindR (CheckCurrentEncoder encoder c) (\<lambda>(current, c).
     if \<not> current then ok (False, c)
     else bindR (assertR (\<not> mWasMovedToIterator c)) (\<lambda>_.
          bindR (encodeFunction c) (\<lambda>(maybeError, c).
          bindR (Context_ConsumedError maybeError c) (\<lambda>(consumed, c). ok (\<not> consumed, c)))))"

section \<open>Moving commands\<close>

text \<open>The argument of \<open>CommitCommands\<close> is destroyed at its end, after its contents were moved.\<close>

definition CommitCommands :: "command_allocator \<Rightarrow> encoding_context \<Rightarrow> encoding_context res" where
  "CommitCommands allocator c =
     (if \<not> Allocator_IsEmpty allocator then
        bindR (CommandAllocator_move allocator (memory c)) (\<lambda>(new1, allocator, h).
        bindR (Allocator_Reset allocator h) (\<lambda>(_, h).
          ok (c\<lparr>mAllocators := mAllocators c @ [new1], memory := h\<rparr>)))
      else bindR (Allocator_Reset allocator (memory c)) (\<lambda>(_, h). ok (c\<lparr>memory := h\<rparr>)))"

text \<open>\<open>CommitCommands(std::move(mPendingCommands))\<close>\<close>

definition commit_pending :: "encoding_context \<Rightarrow> encoding_context res" where
  "commit_pending c =
     bindR (CommandAllocator_move (mPendingCommands c) (memory c)) (\<lambda>(allocator, pending, h).
       CommitCommands allocator (c\<lparr>mPendingCommands := pending, memory := h\<rparr>))"

definition MoveToIterator :: "encoding_context \<Rightarrow> encoding_context res" where
  "MoveToIterator c =
     bindR (commit_pending c) (\<lambda>c.
     if \<not> mWasMovedToIterator c then
       bindR (AcquireCommandBlocks (mIterator c) (mAllocators c) (memory c)) (\<lambda>(it, h).
         ok (c\<lparr>mIterator := it, memory := h, mAllocators := [], mWasMovedToIterator := True\<rparr>))
     else ok c)"

definition AcquireCommands :: "encoding_context \<Rightarrow> (command_iterator \<times> encoding_context) res" where
  "AcquireCommands c =
     bindR (MoveToIterator c) (\<lambda>c.
     bindR (assertR (\<not> mWereCommandsAcquired c)) (\<lambda>_.
     bindR (CommandIterator_move (mIterator c)) (\<lambda>(it, left1).
       ok (it, c\<lparr>mWereCommandsAcquired := True, mIterator := left1\<rparr>))))"

definition GetIterator :: "encoding_context \<Rightarrow> encoding_context res" where
  "GetIterator c =
     bindR (MoveToIterator c) (\<lambda>c. bindR (assertR (\<not> mWereCommandsAcquired c)) (\<lambda>_. ok c))"

text \<open>\<open>FreeCommands\<close> runs the destructors of the commands, which do not touch the blocks, between
  resetting the iterator and emptying it.\<close>

definition free_commands :: "encoding_context \<Rightarrow> encoding_context res" where
  "free_commands c =
     bindR (Iterator_Reset (mIterator c)) (\<lambda>it.
     bindR (MakeEmptyAsDataWasDestroyed it (memory c)) (\<lambda>(it, h). ok (c\<lparr>mIterator := it, memory := h\<rparr>)))"

definition Context_Destroy :: "encoding_context \<Rightarrow> encoding_context res" where
  "Context_Destroy c =
     (if mDestroyed c then ok c
      else bindR (if \<not> mWereCommandsAcquired c then bindR (GetIterator c) free_commands else ok c) (\<lambda>c.
           bindR (if \<not> IsFinished c then HandleError (validation_failure ''Destroyed encoder cannot be finished.'') c else ok c) (\<lambda>c.
             ok (c\<lparr>mDestroyed := True, mCurrentEncoder := None\<rparr>))))"

section \<open>Passes\<close>

definition WillBeginRenderPass :: "encoding_context \<Rightarrow> encoding_context res" where
  "WillBeginRenderPass c =
     bindR (assertR (mCurrentEncoder c = mTopLevelEncoder c)) (\<lambda>_.
       if validation c then commit_pending c else ok c)"

definition EnterPass :: "nat \<Rightarrow> encoding_context \<Rightarrow> encoding_context res" where
  "EnterPass passEncoder c =
     bindR (assertR (mCurrentEncoder c = mTopLevelEncoder c)) (\<lambda>_. ok (c\<lparr>mCurrentEncoder := Some passEncoder\<rparr>))"

text \<open>\<open>EncodeIndirectDrawValidationCommands\<close> is an argument. It records commands through the command
  encoder, which is current again, and may fail; then the commands of the pass are destroyed.\<close>

definition ExitRenderPass ::
    "nat \<Rightarrow> render_tracker \<Rightarrow> (render_tracker \<Rightarrow> encoding_context \<Rightarrow> (maybe_error \<times> render_tracker \<times> encoding_context) res) \<Rightarrow>
     encode_function" where
  "ExitRenderPass passEncoder usageTracker encodeValidation c =
     bindR (assertR (mCurrentEncoder c \<noteq> mTopLevelEncoder c)) (\<lambda>_.
     bindR (assertR (mCurrentEncoder c = Some passEncoder)) (\<lambda>_.
     let c = c\<lparr>mCurrentEncoder := mTopLevelEncoder c\<rparr> in
     bindR (if validation c then
              bindR (CommandAllocator_move (mPendingCommands c) (memory c)) (\<lambda>(renderCommands, pending, h).
              bindR (encodeValidation usageTracker (c\<lparr>mPendingCommands := pending, memory := h\<rparr>)) (\<lambda>(maybeError, usageTracker, c).
              case maybeError of
                Some error \<Rightarrow> bindR (Allocator_Reset renderCommands (memory c)) (\<lambda>(_, h).
                                ok (Some error, usageTracker, c\<lparr>memory := h\<rparr>))
              | None \<Rightarrow> bindR (commit_pending c) (\<lambda>c.
                        bindR (CommandAllocator_move renderCommands (memory c)) (\<lambda>(allocator, renderCommands, h).
                        bindR (CommitCommands allocator (c\<lparr>memory := h\<rparr>)) (\<lambda>c.
                        bindR (Allocator_Reset renderCommands (memory c)) (\<lambda>(_, h).
                          ok (None, usageTracker, c\<lparr>memory := h\<rparr>)))))))
            else ok (None, usageTracker, c)) (\<lambda>(maybeError, usageTracker, c).
     case maybeError of
       Some error \<Rightarrow> ok (Some error, c)
     | None \<Rightarrow> ok (None, c\<lparr>mRenderPassUsages := mRenderPassUsages c @ [fst (Render_AcquireResourceUsage usageTracker)]\<rparr>))))"

definition ExitComputePass :: "nat \<Rightarrow> compute_usage \<Rightarrow> encoding_context \<Rightarrow> encoding_context res" where
  "ExitComputePass passEncoder usages c =
     bindR (assertR (mCurrentEncoder c \<noteq> mTopLevelEncoder c)) (\<lambda>_.
     bindR (assertR (mCurrentEncoder c = Some passEncoder)) (\<lambda>_.
       ok (c\<lparr>mCurrentEncoder := mTopLevelEncoder c, mComputePassUsages := mComputePassUsages c @ [usages]\<rparr>)))"

definition EnsurePassExited :: "nat \<Rightarrow> encoding_context \<Rightarrow> encoding_context res" where
  "EnsurePassExited passEncoder c =
     (if mCurrentEncoder c \<noteq> mTopLevelEncoder c \<and> mCurrentEncoder c = Some passEncoder
      then HandleError (validation_failure ''Command buffer recording ended before the pass was ended.'')
             (c\<lparr>mCurrentEncoder := mTopLevelEncoder c\<rparr>)
      else ok c)"

section \<open>Usages, debug groups and the end\<close>

definition GetRenderPassUsages :: "encoding_context \<Rightarrow> render_usage list res" where
  "GetRenderPassUsages c = bindR (assertR (\<not> mWereRenderPassUsagesAcquired c)) (\<lambda>_. ok (mRenderPassUsages c))"

definition AcquireRenderPassUsages :: "encoding_context \<Rightarrow> (render_usage list \<times> encoding_context) res" where
  "AcquireRenderPassUsages c =
     bindR (assertR (\<not> mWereRenderPassUsagesAcquired c)) (\<lambda>_.
       ok (mRenderPassUsages c, c\<lparr>mWereRenderPassUsagesAcquired := True, mRenderPassUsages := []\<rparr>))"

definition GetComputePassUsages :: "encoding_context \<Rightarrow> compute_usage list res" where
  "GetComputePassUsages c = bindR (assertR (\<not> mWereComputePassUsagesAcquired c)) (\<lambda>_. ok (mComputePassUsages c))"

definition AcquireComputePassUsages :: "encoding_context \<Rightarrow> (compute_usage list \<times> encoding_context) res" where
  "AcquireComputePassUsages c =
     bindR (assertR (\<not> mWereComputePassUsagesAcquired c)) (\<lambda>_.
       ok (mComputePassUsages c, c\<lparr>mWereComputePassUsagesAcquired := True, mComputePassUsages := []\<rparr>))"

definition PushDebugGroupLabel :: "string \<Rightarrow> encoding_context \<Rightarrow> encoding_context" where
  "PushDebugGroupLabel groupLabel c = c\<lparr>mDebugGroupLabels := mDebugGroupLabels c @ [groupLabel]\<rparr>"

definition PopDebugGroupLabel :: "encoding_context \<Rightarrow> encoding_context res" where
  "PopDebugGroupLabel c =
     (if mDebugGroupLabels c = [] then undef else ok (c\<lparr>mDebugGroupLabels := butlast (mDebugGroupLabels c)\<rparr>))"

definition Finish :: "encoding_context \<Rightarrow> (maybe_error \<times> encoding_context) res" where
  "Finish c =
     (if IsFinished c then ok (Some (validation_failure ''Command encoding already finished.''), c)
      else let currentEncoder = mCurrentEncoder c; topLevelEncoder = mTopLevelEncoder c in
        bindR (commit_pending (c\<lparr>mCurrentEncoder := None, mTopLevelEncoder := None\<rparr>)) (\<lambda>c.
        if mError c \<noteq> None then ok (mError c, c\<lparr>mError := None\<rparr>)
        else if currentEncoder \<noteq> topLevelEncoder
        then ok (Some (validation_failure ''Command buffer recording ended before the pass was ended.''), c)
        else ok (None, c)))"

text \<open>
  \<open>CommandEncoder::FinishInternal\<close> for an encoder that is no error object. Creating the command buffer
  acquires the commands and the usages; \<open>tops\<close> are the buffers, textures and query sets that the
  encoder used outside passes.
\<close>

definition FinishInternal :: "bool \<Rightarrow> nat \<Rightarrow> nat list \<times> nat list \<times> nat list \<Rightarrow> encoding_context \<Rightarrow>
    ((error_data + command_iterator \<times> command_usages) \<times> encoding_context) res" where
  "FinishInternal alive mDebugGroupStackSize tops c =
     bindR (Finish c) (\<lambda>(e, c).
     case e of Some error \<Rightarrow> ok (Inl error, c)
     | None \<Rightarrow>
       if \<not> alive then ok (Inl (validation_failure ''The device is lost.''), c)
       else
         case (if \<not> validation c then ok () else
               bindR (GetRenderPassUsages c) (\<lambda>rs. bindR (GetComputePassUsages c) (\<lambda>us.
                 ValidateFinish False mDebugGroupStackSize
                   \<lparr>renderPasses = rs, computePasses = us, topLevelBuffers = fst tops,
                    topLevelTextures = fst (snd tops), usedQuerySets = snd (snd tops)\<rparr>))) of
           Inl UB \<Rightarrow> undef
         | Inl (Error type1 message) \<Rightarrow> ok (Inl (type1, message, []), c)
         | Inr _ \<Rightarrow>
             bindR (AcquireCommands c) (\<lambda>(it, c).
             bindR (AcquireRenderPassUsages c) (\<lambda>(rs, c).
             bindR (AcquireComputePassUsages c) (\<lambda>(us, c).
               ok (Inr (it, \<lparr>renderPasses = rs, computePasses = us, topLevelBuffers = fst tops,
                 topLevelTextures = fst (snd tops), usedQuerySets = snd (snd tops)\<rparr>), c)))))"

section \<open>Encoders\<close>

text \<open>
  Recording one command, of the type with the given identifier, size and alignment. The encoders
  write the fields without looking at the pointer; where there are no fields, a command for which
  there is no memory is left out.
\<close>

definition write_fields :: "nat \<Rightarrow> nat \<Rightarrow> nat \<Rightarrow> (nat \<Rightarrow> nat) \<Rightarrow> heap \<Rightarrow> heap" where
  "write_fields b i size1 contents h =
     h\<lparr>bytes := (bytes h)(b := (\<lambda>j. if i \<le> j \<and> j < i + size1 then contents (j - i) else bytes h b j))\<rparr>"

definition record_command :: "bool \<Rightarrow> nat \<Rightarrow> nat \<Rightarrow> nat \<Rightarrow> (nat \<Rightarrow> nat) \<Rightarrow> encoding_context \<Rightarrow> encoding_context res" where
  "record_command has_fields id1 size1 al contents c =
     bindR (Allocate id1 size1 al (mPendingCommands c) (memory c)) (\<lambda>(p, a, h).
       case p of
         Heap b i \<Rightarrow> ok (c\<lparr>mPendingCommands := a, memory := write_fields b i size1 contents h\<rparr>)
       | _ \<Rightarrow> if has_fields then undef else ok (c\<lparr>mPendingCommands := a, memory := h\<rparr>))"

text \<open>An entry point that checks its arguments and records commands.\<close>

type_synonym command_spec = "bool \<times> nat \<times> nat \<times> nat \<times> (nat \<Rightarrow> nat)"

definition record_commands :: "command_spec list \<Rightarrow> encoding_context \<Rightarrow> encoding_context res" where
  "record_commands specs c = foldR (\<lambda>(f, id1, size1, al, contents). record_command f id1 size1 al contents) specs c"

definition checked_commands :: "maybe_error \<Rightarrow> command_spec list \<Rightarrow> encode_function" where
  "checked_commands check specs c =
     (case check of
        Some error \<Rightarrow> ok (Some error, c)
      | None \<Rightarrow> bindR (record_commands specs c) (\<lambda>c. ok (None, c)))"

definition APIInjectValidationError :: "nat \<Rightarrow> string \<Rightarrow> encoding_context \<Rightarrow> encoding_context res" where
  "APIInjectValidationError self message c =
     bindR (CheckCurrentEncoder self c) (\<lambda>(current, c).
       if current then HandleError (validation_failure message) c else ok c)"

text \<open>
  Debug groups, of a command encoder and, with the same code, of a pass encoder. The argument
  \<open>mDebugGroupStackSize\<close> is the member of the encoder, which changes when the function given to \<open>TryEncode\<close>
  runs to its end. A label is a C string, so it has a terminator in memory and no zero before.
\<close>

definition push_group_commands :: "string \<Rightarrow> command_spec list" where
  "push_group_commands groupLabel =
     [(True, 20, 4, 4, (\<lambda>j. length groupLabel mod 2 ^ 32 div 256 ^ j mod 256)),
      (True, kAdditionalData, length groupLabel + 1, 1, (\<lambda>j. if j < length groupLabel then of_char (groupLabel ! j) else 0))]"

definition pop_group_command :: command_spec where
  "pop_group_command = (False, 19, 1, 1, (\<lambda>j. 0))"

definition APIPushDebugGroup :: "nat \<Rightarrow> string \<Rightarrow> nat \<Rightarrow> encoding_context \<Rightarrow> (nat \<times> encoding_context) res" where
  "APIPushDebugGroup self groupLabel mDebugGroupStackSize c =
     bindR (TryEncode self (\<lambda>c.
       bindR (record_commands (push_group_commands groupLabel) c) (\<lambda>c.
         ok (None, PushDebugGroupLabel groupLabel c))) c) (\<lambda>(success, c).
       ok (if success then (mDebugGroupStackSize + 1) mod 2 ^ 64 else mDebugGroupStackSize, c))"

definition APIPopDebugGroup :: "nat \<Rightarrow> nat \<Rightarrow> encoding_context \<Rightarrow> (nat \<times> encoding_context) res" where
  "APIPopDebugGroup self mDebugGroupStackSize c =
     bindR (TryEncode self (\<lambda>c.
       if validation c \<and> mDebugGroupStackSize = 0
       then ok (Some (validation_failure ''PopDebugGroup called when no debug groups are currently pushed.''), c)
       else bindR (record_commands [pop_group_command] c) (\<lambda>c.
            bindR (PopDebugGroupLabel c) (\<lambda>c. ok (None, c)))) c) (\<lambda>(success, c).
       ok (if success then (mDebugGroupStackSize + 2 ^ 64 - 1) mod 2 ^ 64 else mDebugGroupStackSize, c))"

text \<open>The descriptor of a compute pass is always valid. \<open>pass\<close> is the new encoder.\<close>

definition APIBeginComputePass :: "nat \<Rightarrow> nat \<Rightarrow> command_spec \<Rightarrow> encoding_context \<Rightarrow> (bool \<times> encoding_context) res" where
  "APIBeginComputePass self pass begin1 c =
     bindR (TryEncode self (checked_commands None [begin1]) c) (\<lambda>(success, c).
       if success then bindR (EnterPass pass c) (\<lambda>c. ok (True, c)) else ok (False, c))"

text \<open>\<open>check\<close> is the outcome of the validation of the descriptor, \<open>late_check\<close> that of the toggle for
  read-only attachments, which is looked at after the command has been recorded.\<close>

definition begin_render_commands :: "maybe_error \<Rightarrow> maybe_error \<Rightarrow> command_spec \<Rightarrow> encode_function" where
  "begin_render_commands check late_check begin1 c =
     (case check of
        Some error \<Rightarrow> ok (Some error, c)
      | None \<Rightarrow> bindR (WillBeginRenderPass c) (\<lambda>c. bindR (record_commands [begin1] c) (\<lambda>c. ok (late_check, c))))"

definition APIBeginRenderPass ::
    "nat \<Rightarrow> nat \<Rightarrow> maybe_error \<Rightarrow> maybe_error \<Rightarrow> command_spec \<Rightarrow> encoding_context \<Rightarrow> (bool \<times> encoding_context) res" where
  "APIBeginRenderPass self pass check late_check begin1 c =
     bindR (TryEncode self (begin_render_commands check late_check begin1) c) (\<lambda>(success, c).
       if success then bindR (EnterPass pass c) (\<lambda>c. ok (True, c)) else ok (False, c))"

definition Compute_APIEndPass :: "nat \<Rightarrow> maybe_error \<Rightarrow> command_spec \<Rightarrow> compute_usage \<Rightarrow> encoding_context \<Rightarrow> encoding_context res" where
  "Compute_APIEndPass pass check end1 usages c =
     bindR (TryEncode pass (checked_commands check [end1]) c) (\<lambda>(success, c).
       if success then ExitComputePass pass usages c else ok c)"

definition end_render_commands ::
    "nat \<Rightarrow> maybe_error \<Rightarrow> command_spec \<Rightarrow> render_tracker \<Rightarrow>
     (render_tracker \<Rightarrow> encoding_context \<Rightarrow> (maybe_error \<times> render_tracker \<times> encoding_context) res) \<Rightarrow> encode_function" where
  "end_render_commands pass check end1 usageTracker encodeValidation c =
     (case check of
        Some error \<Rightarrow> ok (Some error, c)
      | None \<Rightarrow> bindR (record_commands [end1] c) (ExitRenderPass pass usageTracker encodeValidation))"

definition Render_APIEndPass ::
    "nat \<Rightarrow> maybe_error \<Rightarrow> command_spec \<Rightarrow> render_tracker \<Rightarrow>
     (render_tracker \<Rightarrow> encoding_context \<Rightarrow> (maybe_error \<times> render_tracker \<times> encoding_context) res) \<Rightarrow>
     encoding_context \<Rightarrow> encoding_context res" where
  "Render_APIEndPass pass check end1 usageTracker encodeValidation c =
     bindR (TryEncode pass (end_render_commands pass check end1 usageTracker encodeValidation) c) (\<lambda>(success, c). ok c)"

end
