(* ===== verification/Command_Spec.thy ===== *)
theory Command_Spec
  imports Command_Allocator
begin

text \<open>
  What is recorded is what is read: the commands of an allocator lie in its blocks in the order of
  the allocations, aligned, inside the memory and apart from each other and from the identifiers,
  and the iterator returns the same identifiers and addresses in the same order.
\<close>

section \<open>Alignment and words\<close>

definition up_to :: "nat \<Rightarrow> nat \<Rightarrow> nat" where
  "up_to a i = (i + (a - 1)) div a * a"

definition alignment_ok :: "nat \<Rightarrow> bool" where
  "alignment_ok a = (a \<in> {1, 2, 4, 8})"

lemma up_bounds: "0 < a \<Longrightarrow> i \<le> up_to a i \<and> up_to a i < i + a"
  using round_up_bounds [of a i] by (simp add: up_to_def)

lemma up_dvd [simp]: "a dvd up_to a i"
  by (simp add: up_to_def)

lemma multiple_unique:
  fixes a i r u :: nat
  assumes "a dvd r" "a dvd u" "i \<le> r" "r < i + a" "i \<le> u" "u < i + a"
  shows "r = u"
proof (rule ccontr)
  assume "r \<noteq> u"
  then have "0 < max r u - min r u" "max r u - min r u < a" using assms by linarith+
  moreover have "a dvd max r u - min r u" using assms(1,2) by (simp add: max_def min_def dvd_diff_nat)
  ultimately show False using nat_dvd_not_less by blast
qed

lemma up_id: "0 < a \<Longrightarrow> a dvd i \<Longrightarrow> up_to a i = i"
  using multiple_unique [of a "up_to a i" i i] up_bounds [of a i] by simp

lemma alignment_pow2: "alignment_ok a \<Longrightarrow> \<exists>k \<le> 3. a = 2 ^ k"
  by (auto simp: alignment_ok_def intro: exI [of _ "0::nat"] exI [of _ "1::nat"] exI [of _ "2::nat"] exI [of _ "3::nat"])

lemma up_alignment: "alignment_ok a \<Longrightarrow> i \<le> up_to a i \<and> up_to a i < i + 8"
  using up_bounds [of a i] by (auto simp: alignment_ok_def)

text \<open>From an address that is a multiple of 4 at most 4 bytes are skipped.\<close>

lemma up_word: "alignment_ok a \<Longrightarrow> 4 dvd i \<Longrightarrow> up_to a i \<le> i + 4"
proof -
  assume a: "alignment_ok a" and i: "4 dvd i"
  then consider "a dvd i" "0 < a" | "a = 8" unfolding alignment_ok_def by auto
  then show "up_to a i \<le> i + 4"
  proof cases
    case 2
    then have "4 dvd up_to a i" using dvd_trans [of 4 8 "up_to 8 i"] by simp
    then obtain x y where "i = 4 * x" "up_to a i = 4 * y" using i by (auto elim!: dvdE)
    moreover from this have "y < x + 2" using up_alignment [OF a, of i] by simp
    ultimately show ?thesis by simp
  qed (simp add: up_id)
qed

lemma AlignPtr_nat:
  assumes "alignment_ok a" "i + 8 \<le> 2 ^ 64"
  shows "AlignPtr (of_nat i) (of_nat a) = ok (of_nat (up_to a i))" "unat (of_nat (up_to a i) :: 64 word) = up_to a i"
proof -
  obtain k where k: "k \<le> 3" "a = 2 ^ k" using alignment_pow2 assms(1) by blast
  have u: "up_to a i < 2 ^ 64" using up_alignment [OF assms(1), of i] assms(2) by linarith
  then show two: "unat (of_nat (up_to a i) :: 64 word) = up_to a i" by (simp add: unat_of_nat)
  have i: "unat (of_nat i :: 64 word) = i" using assms(2) by (simp add: unat_of_nat)
  have "unat (of_nat i :: 64 word) + 2 ^ k \<le> 2 ^ 64"
    using i k assms by (auto simp: alignment_ok_def)
  then obtain r where r: "Align (of_nat i) (2 ^ k) = ok r" "2 ^ k dvd unat r" "i \<le> unat r" "unat r < i + 2 ^ k"
    using Align_least_multiple [of k "of_nat i"] k(1) i by auto
  from r(1) have "AlignPtr (of_nat i) (2 ^ k) = ok r" by (auto simp: Align_def AlignPtr_def split: if_splits)
  moreover have "unat r = up_to a i"
    using multiple_unique [of a "unat r" "up_to a i" i] r k up_bounds [of a i] by simp
  ultimately show "AlignPtr (of_nat i) (of_nat a) = ok (of_nat (up_to a i))"
    using k(2) two by (metis of_nat_numeral of_nat_power word_unat_eq_iff)
qed

lemma align_ptr_Heap:
  assumes "alignment_ok a" "i + 8 \<le> 2 ^ 64"
  shows "align_ptr (Heap b i) a = ok (Heap b (up_to a i))"
  using AlignPtr_nat [OF assms] by simp

lemma ptr_aligned_4: "4 dvd i \<Longrightarrow> i < 2 ^ 64 \<Longrightarrow> ptr_aligned (Heap b i) 4 = ok True"
proof -
  assume i: "4 dvd i" "i < 2 ^ 64"
  have "assert_pow2 4 = ok ()" by (simp add: assert_pow2_def IsPowerOfTwo_def)
  moreover have "(of_nat i :: 64 word) AND 3 = 0"
  proof -
    have "(3 :: 64 word) = mask 2" by (simp add: mask_eq_exp_minus_1)
    moreover have "unat (take_bit 2 (of_nat i :: 64 word)) = take_bit 2 i"
      using i(2) by (simp only: unsigned_take_bit_eq) (simp add: unat_of_nat)
    moreover have "take_bit 2 i = 0" using i(1) by (simp add: take_bit_eq_mod)
    ultimately show ?thesis by (metis take_bit_eq_mask unat_eq_zero)
  qed
  ultimately show "ptr_aligned (Heap b i) 4 = ok True" by (simp add: IsPtrAligned_def)
qed

lemma word_at_set_word [simp]: "v < 2 ^ 32 \<Longrightarrow> word_at (set_word b i v h) b i = v"
proof -
  assume v: "v < 2 ^ 32"
  define x where "x = v div 256"
  define y where "y = x div 256"
  define z where "z = y div 256"
  have "v = 256 * x + v mod 256" "x = 256 * y + x mod 256" "y = 256 * z + y mod 256"
    by (simp_all add: x_def y_def z_def)
  moreover have "v div 65536 = y" "v div 16777216 = z"
    by (simp_all add: x_def y_def z_def flip: div_mult2_eq)
  moreover from this have "z mod 256 = z" using v by simp
  ultimately show "word_at (set_word b i v h) b i = v"
    by (simp add: word_at_def set_word_def x_def [symmetric])
qed

lemma set_word_simps [simp]:
  "live (set_word b i v h) = live h" "calls (set_word b i v h) = calls h" "refused (set_word b i v h) = refused h"
  "bytes (set_word b i v h) c j =
     (if c = b \<and> i \<le> j \<and> j < i + 4 then v div 256 ^ (j - i) mod 256 else bytes h c j)"
  by (simp_all add: set_word_def)

section \<open>The layout of a block\<close>

text \<open>A recorded command: identifier, size, alignment and address.\<close>

type_synonym entry = "nat \<times> nat \<times> nat \<times> address"

text \<open>The entries that lie in block \<open>b\<close> between the offsets \<open>i\<close> and \<open>e\<close>.\<close>

fun chain :: "heap \<Rightarrow> nat \<Rightarrow> nat \<Rightarrow> entry list \<Rightarrow> nat \<Rightarrow> bool" where
  "chain h b i [] e \<longleftrightarrow> e = i"
| "chain h b i ((id1, size1, a, p) # es) e \<longleftrightarrow>
     word_at h b i = id1 \<and> id1 \<noteq> kEndOfBlock \<and> alignment_ok a \<and> p = Heap b (up_to a (i + 4)) \<and>
     chain h b (up_to 4 (up_to a (i + 4) + size1)) es e"

text \<open>The bytes of the entries.\<close>

definition payload :: "entry \<Rightarrow> (nat \<times> nat) set" where
  "payload = (\<lambda>(id1, size1, a, p). case p of Heap b i \<Rightarrow> {b} \<times> {i ..< i + size1} | _ \<Rightarrow> {})"

lemma chain_le: "chain h b i es e \<Longrightarrow> i \<le> e"
proof (induction es arbitrary: i)
  case (Cons x es)
  obtain id1 size1 a p where x: "x = (id1, size1, a, p)" by (cases x)
  with Cons.prems have "up_to 4 (up_to a (i + 4) + size1) \<le> e" "alignment_ok a" using Cons.IH by auto
  then show ?case using up_alignment [of a "i + 4"] up_bounds [of 4 "up_to a (i + 4) + size1"] by linarith
qed simp

lemma chain_dvd: "chain h b i es e \<Longrightarrow> 4 dvd i \<Longrightarrow> 4 dvd e"
  by (induction es arbitrary: i) auto

text \<open>Where an entry lies.\<close>

lemma chain_entry:
  assumes "chain h b i es e" "(id1, size1, a, p) \<in> set es"
  shows "\<exists>j. p = Heap b j \<and> i + 4 \<le> j \<and> j + size1 \<le> e \<and> a dvd j \<and> alignment_ok a \<and> id1 \<noteq> kEndOfBlock"
  using assms
proof (induction es arbitrary: i)
  case (Cons x es)
  obtain id2 size2 a2 p2 where x: "x = (id2, size2, a2, p2)" by (cases x)
  let ?n = "up_to 4 (up_to a2 (i + 4) + size2)"
  have c: "alignment_ok a2" "p2 = Heap b (up_to a2 (i + 4))" "chain h b ?n es e" "id2 \<noteq> kEndOfBlock"
    using Cons.prems(1) x by auto
  have le: "i + 4 \<le> up_to a2 (i + 4)" "up_to a2 (i + 4) + size2 \<le> ?n" "?n \<le> e"
    using up_alignment [OF c(1), of "i + 4"] up_bounds [of 4 "up_to a2 (i + 4) + size2"] chain_le [OF c(3)] by auto
  show ?case
  proof (cases "(id1, size1, a, p) = x")
    case True
    then show ?thesis using c le x by auto
  next
    case False
    then obtain j where "p = Heap b j" "?n + 4 \<le> j" "j + size1 \<le> e" "a dvd j" "alignment_ok a" "id1 \<noteq> kEndOfBlock"
      using Cons.IH [OF c(3)] Cons.prems(2) by auto
    then show ?thesis using le by auto
  qed
qed simp

lemma chain_payload:
  assumes "chain h b i es e" "x \<in> set es"
  shows "payload x \<subseteq> {b} \<times> {i + 4 ..< e}"
  using chain_entry [OF assms(1), of "fst x" "fst (snd x)" "fst (snd (snd x))" "snd (snd (snd x))"] assms(2)
  by (auto simp: payload_def split: prod.splits)

lemma chain_append:
  "chain h b i (es @ fs) e \<longleftrightarrow> (\<exists>j. chain h b i es j \<and> chain h b j fs e)"
proof (induction es arbitrary: i)
  case (Cons x es)
  then show ?case by (cases x) auto
qed simp

text \<open>The layout is read from the identifiers only.\<close>

lemma word_at_cong: "(\<And>j. i \<le> j \<Longrightarrow> j < i + 4 \<Longrightarrow> bytes h' b j = bytes h b j) \<Longrightarrow> word_at h' b i = word_at h b i"
  by (simp add: word_at_def)

lemma chain_cong:
  assumes "chain h b i es e"
    and "\<And>j. i \<le> j \<Longrightarrow> j < e \<Longrightarrow> (b, j) \<notin> \<Union> (payload ` set es) \<Longrightarrow> bytes h' b j = bytes h b j"
  shows "chain h' b i es e"
  using assms
proof (induction es arbitrary: i)
  case (Cons x es)
  obtain id1 size1 a p where x: "x = (id1, size1, a, p)" by (cases x)
  let ?n = "up_to 4 (up_to a (i + 4) + size1)"
  have c: "alignment_ok a" "p = Heap b (up_to a (i + 4))" "chain h b ?n es e"
    using Cons.prems(1) x by auto
  have le: "i + 4 \<le> up_to a (i + 4)" "up_to a (i + 4) + size1 \<le> ?n" "?n \<le> e"
    using up_alignment [OF c(1), of "i + 4"] up_bounds [of 4 "up_to a (i + 4) + size1"] chain_le [OF c(3)] by auto
  have tail: "?n + 4 \<le> j" if "y \<in> set es" "(b, j) \<in> payload y" for y j
    using chain_payload [OF c(3) that(1)] that(2) by auto
  have head: "(b, j) \<in> payload x \<longleftrightarrow> up_to a (i + 4) \<le> j \<and> j < up_to a (i + 4) + size1" for j
    using x c(2) by (auto simp: payload_def)
  have "word_at h' b i = word_at h b i"
    using le by (intro word_at_cong Cons.prems(2)) (auto simp: head dest: tail)
  moreover have "chain h' b ?n es e"
    using le by (intro Cons.IH [OF c(3)] Cons.prems(2)) (auto simp: head)
  ultimately show ?case using Cons.prems(1) x by auto
qed simp

section \<open>The invariant of an allocator\<close>

fun block_of :: "address \<Rightarrow> nat" where
  "block_of (Heap b i) = b"
| "block_of p = 0"

abbreviation numbers :: "block_def list \<Rightarrow> nat list" where
  "numbers blocks \<equiv> map (block_of \<circ> snd) blocks"

text \<open>Behind the address of every entry there are 8 bytes, which the iterator asserts.\<close>

definition roomy_log :: "nat \<Rightarrow> entry list \<Rightarrow> bool" where
  "roomy_log n es = list_all (\<lambda>(id1, size1, a, p). case p of Heap b j \<Rightarrow> j + 8 \<le> n | _ \<Rightarrow> True) es"

lemma roomy_simps [simp]:
  "roomy_log n []" "roomy_log n (es @ fs) \<longleftrightarrow> roomy_log n es \<and> roomy_log n fs"
  "roomy_log n ((id1, size1, a, Heap b j) # es) \<longleftrightarrow> j + 8 \<le> n \<and> roomy_log n es"
  by (auto simp: roomy_log_def)

definition open_block :: "heap \<Rightarrow> block_def \<Rightarrow> entry list \<Rightarrow> nat \<Rightarrow> bool" where
  "open_block h block es e \<longleftrightarrow>
     (\<exists>b n. block = (n, Heap b 0) \<and> live h b = Some n \<and> n < 2 ^ 64 \<and> chain h b 0 es e \<and> e + 4 \<le> n \<and> roomy_log n es)"

definition closed :: "heap \<Rightarrow> block_def \<Rightarrow> entry list \<Rightarrow> bool" where
  "closed h block es \<longleftrightarrow> (\<exists>e. open_block h block es e \<and> word_at h (block_of (snd block)) e = kEndOfBlock)"

text \<open>The log lies in the blocks of the allocator, the last of which, \<open>b\<close>, is filled up_to to the offset \<open>e\<close>.\<close>

definition filled :: "heap \<Rightarrow> command_allocator \<Rightarrow> entry list \<Rightarrow> nat \<Rightarrow> nat \<Rightarrow> nat \<Rightarrow> entry list \<Rightarrow> bool" where
  "filled h a log b n e es \<longleftrightarrow>
     (\<exists>bs ess. mBlocks a = bs @ [(n, Heap b 0)] \<and> log = concat ess @ es \<and> list_all2 (closed h) bs ess \<and>
        open_block h (n, Heap b 0) es e \<and> mCurrentPtr a = Heap b e \<and> mEndPtr a = Heap b n \<and> distinct (numbers (mBlocks a)))"

definition holds :: "heap \<Rightarrow> command_allocator \<Rightarrow> entry list \<Rightarrow> bool" where
  "holds h a log \<longleftrightarrow>
     mBlocks a = [] \<and> log = [] \<and> mCurrentPtr a = Own 0 \<and> mEndPtr a = Own 4 \<or>
     (\<exists>b n e es. es \<noteq> [] \<and> filled h a log b n e es)"

definition heap_ok :: "heap \<Rightarrow> bool" where
  "heap_ok h \<longleftrightarrow> (\<forall>b. live h b \<noteq> None \<longrightarrow> b < calls h)"

text \<open>The block is the same in both heaps, except perhaps in the bytes of some entries.\<close>

definition same_block :: "heap \<Rightarrow> heap \<Rightarrow> (nat \<times> nat) set \<Rightarrow> nat \<Rightarrow> bool" where
  "same_block h h' P b \<longleftrightarrow> live h' b = live h b \<and> (\<forall>j. (b, j) \<notin> P \<longrightarrow> bytes h' b j = bytes h b j)"

lemma open_block_cong:
  assumes "open_block h block es e" "same_block h h' (\<Union> (payload ` set es)) (block_of (snd block))"
  shows "open_block h' block es e" "word_at h' (block_of (snd block)) e = word_at h (block_of (snd block)) e"
proof -
  obtain b n where b: "block = (n, Heap b 0)" "live h b = Some n" "n < 2 ^ 64" "chain h b 0 es e" "e + 4 \<le> n" "roomy_log n es"
    using assms(1) by (auto simp: open_block_def)
  then show "open_block h' block es e"
    using assms(2) by (auto simp: open_block_def same_block_def intro!: chain_cong [OF b(4)])
  show "word_at h' (block_of (snd block)) e = word_at h (block_of (snd block)) e"
  proof (rule word_at_cong)
    fix j assume "e \<le> j"
    then have "(b, j) \<notin> \<Union> (payload ` set es)" using chain_payload [OF b(4)] by fastforce
    then show "bytes h' (block_of (snd block)) j = bytes h (block_of (snd block)) j"
      using assms(2) b(1) by (simp add: same_block_def)
  qed
qed

lemma closed_cong:
  "closed h block es \<Longrightarrow> same_block h h' (\<Union> (payload ` set es)) (block_of (snd block)) \<Longrightarrow> closed h' block es"
  unfolding closed_def using open_block_cong by (metis (no_types, lifting))

lemma same_block_mono: "same_block h h' P b \<Longrightarrow> P \<subseteq> Q \<Longrightarrow> same_block h h' Q b"
  by (auto simp: same_block_def)

lemma same_block_refl [simp]: "same_block h h P b"
  by (simp add: same_block_def)

lemma closed_all_cong:
  assumes "list_all2 (closed h) bs ess" "\<And>b. b \<in> set (numbers bs) \<Longrightarrow> same_block h h' {} b"
  shows "list_all2 (closed h') bs ess"
  unfolding list_all2_conv_all_nth
proof (intro conjI allI impI)
  show "length bs = length ess" using assms(1) by (rule list_all2_lengthD)
  fix i assume i: "i < length bs"
  then have "same_block h h' (\<Union> (payload ` set (ess ! i))) (block_of (snd (bs ! i)))"
    using assms(2) by (intro same_block_mono [OF assms(2)]) auto
  then show "closed h' (bs ! i) (ess ! i)"
    using closed_cong list_all2_nthD [OF assms(1) i] by blast
qed

lemma open_block_live: "open_block h block es e \<Longrightarrow> live h (block_of (snd block)) \<noteq> None"
  by (auto simp: open_block_def)

lemma open_block_payload: "open_block h block es e \<Longrightarrow> x \<in> set es \<Longrightarrow> payload x \<subseteq> {block_of (snd block)} \<times> {4 ..< e}"
  using chain_payload [of h _ 0 es e x] unfolding open_block_def by fastforce

lemma closed_open: "list_all2 (closed h) bs ess \<Longrightarrow> list_all2 (\<lambda>block es. \<exists>e. open_block h block es e) bs ess"
  by (erule list_all2_mono) (auto simp: closed_def)

text \<open>Blocks with different numbers share no bytes.\<close>

lemma payload_owner:
  assumes "list_all2 (\<lambda>block es. \<exists>e. open_block h block es e) blocks parts" "distinct (numbers blocks)"
    and "i < length blocks" "x \<in> set (concat parts)" "(block_of (snd (blocks ! i)), j) \<in> payload x"
  shows "x \<in> set (parts ! i)"
proof -
  obtain k where k: "k < length parts" "x \<in> set (parts ! k)"
    using assms(4) by simp (metis in_set_conv_nth)
  then obtain e where "open_block h (blocks ! k) (parts ! k) e"
    using assms(1) by (auto simp: list_all2_conv_all_nth)
  then have "block_of (snd (blocks ! i)) = block_of (snd (blocks ! k))"
    using open_block_payload k(2) assms(5) by fastforce
  moreover have "k < length blocks" using k(1) assms(1) by (simp add: list_all2_lengthD)
  ultimately have "i = k" using assms(2,3) by (auto simp: distinct_conv_nth)
  with k(2) show ?thesis by simp
qed

lemma holds_parts:
  assumes "holds h a log"
  obtains parts where "log = concat parts" "list_all2 (\<lambda>block es. \<exists>e. open_block h block es e) (mBlocks a) parts"
    "distinct (numbers (mBlocks a))"
proof (cases "mBlocks a = []")
  case True
  then show ?thesis using assms that [of "[]"] by (simp add: holds_def filled_def)
next
  case False
  then obtain bs n b ess es e where "mBlocks a = bs @ [(n, Heap b 0)]" "log = concat ess @ es"
    "list_all2 (closed h) bs ess" "open_block h (n, Heap b 0) es e" "distinct (numbers (mBlocks a))"
    using assms by (auto simp: holds_def filled_def)
  then show ?thesis using that [of "ess @ [es]"] closed_open by (fastforce intro: list_all2_appendI)
qed

text \<open>Writes to the bytes of recorded commands keep the invariant, as do changes of other blocks.\<close>

lemma holds_cong:
  assumes "holds h a log"
    and "\<And>b. b \<in> set (numbers (mBlocks a)) \<Longrightarrow> same_block h h' (\<Union> (payload ` set log)) b"
  shows "holds h' a log"
proof (cases "mBlocks a = []")
  case True
  then show ?thesis using assms(1) by (simp add: holds_def filled_def)
next
  case False
  then obtain bs n b ess es e where a: "mBlocks a = bs @ [(n, Heap b 0)]" "log = concat ess @ es" "es \<noteq> []"
    "list_all2 (closed h) bs ess" "open_block h (n, Heap b 0) es e" "distinct (numbers (mBlocks a))"
    "mCurrentPtr a = Heap b e" "mEndPtr a = Heap b n"
    using assms(1) by (auto simp: holds_def filled_def)
  let ?parts = "ess @ [es]"
  have parts: "list_all2 (\<lambda>block es. \<exists>e. open_block h block es e) (mBlocks a) ?parts"
    using a closed_open by (auto intro: list_all2_appendI)
  have len: "length ess = length bs" using a(4) by (simp add: list_all2_lengthD)
  have same: "same_block h h' (\<Union> (payload ` set (?parts ! i))) (block_of (snd (mBlocks a ! i)))"
    if i: "i < length (mBlocks a)" for i
  proof -
    let ?c = "block_of (snd (mBlocks a ! i))"
    have "same_block h h' (\<Union> (payload ` set log)) ?c" using assms(2) i by auto
    moreover have "x \<in> set (?parts ! i)" if "x \<in> set log" "(?c, j) \<in> payload x" for x j
      using payload_owner [OF parts a(6) i] that a(2) by auto
    ultimately show ?thesis by (fastforce simp: same_block_def)
  qed
  have "open_block h' (n, Heap b 0) es e"
    using open_block_cong(1) [OF a(5)] same [of "length bs"] a(1) len by (simp add: nth_append)
  moreover have "list_all2 (closed h') bs ess"
    unfolding list_all2_conv_all_nth
  proof (intro conjI allI impI)
    fix i assume i: "i < length bs"
    then have "same_block h h' (\<Union> (payload ` set (ess ! i))) (block_of (snd (bs ! i)))"
      using same [of i] len by (simp add: a(1) nth_append)
    then show "closed h' (bs ! i) (ess ! i)" using closed_cong list_all2_nthD [OF a(4) i] by blast
  qed (simp add: len)
  ultimately have "filled h' a log b n e es"
    unfolding filled_def using a by (intro exI [of _ bs] exI [of _ ess] conjI) simp_all
  then show ?thesis using a(3) by (auto simp: holds_def)
qed

lemma holds_other:
  "holds h a log \<Longrightarrow> (\<And>b. b \<in> set (numbers (mBlocks a)) \<Longrightarrow> same_block h h' {} b) \<Longrightarrow> holds h' a log"
  using holds_cong same_block_mono by (metis empty_subsetI)

lemma holds_live: "holds h a log \<Longrightarrow> b \<in> set (numbers (mBlocks a)) \<Longrightarrow> live h b \<noteq> None"
proof (erule holds_parts)
  fix parts
  assume parts: "list_all2 (\<lambda>block es. \<exists>e. open_block h block es e) (mBlocks a) parts"
  assume "b \<in> set (numbers (mBlocks a))"
  then obtain i where "i < length (mBlocks a)" "b = block_of (snd (mBlocks a ! i))"
    by (auto simp del: set_map simp: in_set_conv_nth)
  with list_all2_nthD [OF parts] show "live h b \<noteq> None" using open_block_live by blast
qed

lemma holds_empty: "holds h a log \<Longrightarrow> Allocator_IsEmpty a \<longleftrightarrow> log = []"
  by (auto simp: holds_def filled_def Allocator_IsEmpty_def)

lemma holds_fields:
  "mBlocks a' = mBlocks a \<Longrightarrow> mCurrentPtr a' = mCurrentPtr a \<Longrightarrow> mEndPtr a' = mEndPtr a \<Longrightarrow> holds h a' = holds h a"
  by (simp add: holds_def filled_def fun_eq_iff)

section \<open>Recording a command\<close>

text \<open>What an operation on \<open>a\<close> leaves alone: other blocks, and the bytes of the commands already recorded.\<close>

definition frame :: "entry list \<Rightarrow> command_allocator \<Rightarrow> heap \<Rightarrow> command_allocator \<Rightarrow> heap \<Rightarrow> bool" where
  "frame log a h a' h' \<longleftrightarrow>
     calls h \<le> calls h' \<and> refused h' = refused h \<and>
     set (numbers (mBlocks a')) \<subseteq> set (numbers (mBlocks a)) \<union> {calls h ..< calls h'} \<and>
     (\<forall>b < calls h. b \<notin> set (numbers (mBlocks a)) \<longrightarrow> same_block h h' {} b) \<and>
     (\<forall>x \<in> set log. \<forall>(b, j) \<in> payload x. bytes h' b j = bytes h b j)"

lemma filled_facts:
  assumes "filled h a log b n e es"
  shows "live h b = Some n" "chain h b 0 es e" "e + 4 \<le> n" "4 dvd e" "n < 2 ^ 64"
    "mCurrentPtr a = Heap b e" "mEndPtr a = Heap b n" "open_block h (n, Heap b 0) es e" "b \<in> set (numbers (mBlocks a))"
    "roomy_log n es"
  using assms chain_dvd [of h b 0 es e] by (auto simp: filled_def open_block_def)

lemma set_word_other: "c \<noteq> b \<Longrightarrow> same_block h (set_word b e v h) P c"
  by (simp add: same_block_def)

text \<open>Writing behind the last command changes no command.\<close>

lemma filled_kept:
  assumes "filled h a log b n e es" "x \<in> set log" "(c, j) \<in> payload x"
  shows "bytes (set_word b e v h) c j = bytes h c j"
proof (cases "c = b")
  case True
  obtain bs ess where a: "mBlocks a = bs @ [(n, Heap b 0)]" "log = concat ess @ es" "list_all2 (closed h) bs ess"
    "open_block h (n, Heap b 0) es e" "distinct (numbers (mBlocks a))"
    using assms(1) by (auto simp: filled_def)
  have "list_all2 (\<lambda>block es. \<exists>e. open_block h block es e) (mBlocks a) (ess @ [es])"
    using a closed_open by (auto intro: list_all2_appendI)
  from payload_owner [OF this a(5), of "length bs" x j] assms(2,3) True a(1-3)
  have "x \<in> set es" by (auto simp: nth_append dest: list_all2_lengthD)
  then show ?thesis using chain_payload [OF filled_facts(2) [OF assms(1)], of x] assms(3) by auto
qed simp

lemma filled_frame:
  assumes "filled h a log b n e es" "mBlocks a' = mBlocks a"
  shows "frame log a h a' (set_word b e v h)"
proof -
  have "b \<in> set (numbers (mBlocks a))" by (rule filled_facts(9) [OF assms(1)])
  then have other: "c \<noteq> b" if "c \<notin> set (numbers (mBlocks a))" for c using that by blast
  show ?thesis unfolding frame_def assms(2)
  proof (intro conjI ballI allI impI)
    fix x y assume "x \<in> set log" "y \<in> payload x"
    then show "case y of (c, j) \<Rightarrow> bytes (set_word b e v h) c j = bytes h c j"
      using filled_kept [OF assms(1)] by (cases y) (simp del: set_word_simps(4))
  qed (use other set_word_other in auto)
qed

lemma filled_closed:
  assumes "filled h a log b n e es"
  obtains bs ess where "mBlocks a = bs @ [(n, Heap b 0)]" "log = concat ess @ es"
    "list_all2 (closed (set_word b e v h)) bs ess" "distinct (numbers (mBlocks a))"
proof -
  obtain bs ess where a: "mBlocks a = bs @ [(n, Heap b 0)]" "log = concat ess @ es" "list_all2 (closed h) bs ess"
    "distinct (numbers (mBlocks a))"
    using assms by (auto simp: filled_def)
  have closed: "list_all2 (closed (set_word b e v h)) bs ess"
    using a(1,4) by (intro closed_all_cong [OF a(3)] set_word_other) auto
  show ?thesis by (rule that [OF a(1,2) closed a(4)])
qed

text \<open>The tag behind the last command.\<close>

lemma seal:
  assumes "holds h a log"
  shows "\<exists>w h1 parts. store32 (mDummyEnum a) (mCurrentPtr a) kEndOfBlock h = ok (w, h1) \<and> log = concat parts \<and>
           list_all2 (closed h1) (mBlocks a) parts \<and> holds h1 a log \<and> frame log a h a h1 \<and>
           live h1 = live h \<and> calls h1 = calls h \<and> refused h1 = refused h"
  using assms unfolding holds_def [of h]
proof (elim disjE conjE exE)
  fix b n e es
  assume es: "es \<noteq> []" and f: "filled h a log b n e es"
  let ?h = "set_word b e kEndOfBlock h"
  obtain bs ess where a: "mBlocks a = bs @ [(n, Heap b 0)]" "log = concat ess @ es"
    "list_all2 (closed ?h) bs ess" "distinct (numbers (mBlocks a))"
    by (rule filled_closed [OF f])
  note b = filled_facts [OF f]
  have "store32 (mDummyEnum a) (mCurrentPtr a) kEndOfBlock h = ok (mDummyEnum a, ?h)"
    using b by (simp add: accessible_def dvd_eq_mod_eq_0)
  moreover have op: "open_block ?h (n, Heap b 0) es e"
    using b(1,3,5,10) by (auto simp: open_block_def intro!: chain_cong [OF b(2)])
  then have "closed ?h (n, Heap b 0) es" by (auto simp: closed_def kEndOfBlock_def)
  moreover have "filled ?h a log b n e es" unfolding filled_def using a b(6,7) op by blast
  then have "holds ?h a log" using es by (auto simp: holds_def)
  moreover have "refused ?h = refused h" by (simp add: set_word_def)
  ultimately show ?thesis
    using a filled_frame [OF f, of a]
    by (intro exI [of _ "mDummyEnum a"] exI [of _ ?h] exI [of _ "ess @ [es]"]) (auto intro: list_all2_appendI)
qed (auto simp: frame_def holds_def)

lemma place_ok:
  fixes a :: command_allocator
  assumes "open_block h (n, Heap b 0) es e" "mCurrentPtr a = Heap b e" "e + kWorstCaseAdditionalSize + size1 \<le> n"
    and "id1 < kEndOfBlock" "alignment_ok al"
  defines "p \<equiv> up_to al (e + 4)" and "h1 \<equiv> set_word b e id1 h"
  shows "place_command id1 size1 al a h =
           ok (Heap b p, a\<lparr>mDummyEnum := mDummyEnum a, mCurrentPtr := Heap b (up_to 4 (p + size1))\<rparr>, h1)"
    and "open_block h1 (n, Heap b 0) (es @ [(id1, size1, al, Heap b p)]) (up_to 4 (p + size1))"
proof -
  have b: "live h b = Some n" "chain h b 0 es e" "e + 4 \<le> n" "4 dvd e" "n < 2 ^ 64" "roomy_log n es"
    using assms(1) chain_dvd [of h b 0 es e] by (auto simp: open_block_def)
  have p: "e + 4 \<le> p" "p \<le> e + 8"
    using up_alignment [OF assms(5), of "e + 4"] up_word [OF assms(5), of "e + 4"] b(4) by (simp_all add: p_def)
  have q: "p + size1 \<le> up_to 4 (p + size1)" "up_to 4 (p + size1) < p + size1 + 4"
    using up_bounds [of 4 "p + size1"] by auto
  have n: "p + size1 + 12 \<le> n"
    using assms(3) p by (simp add: kWorstCaseAdditionalSize_def kMaxSupportedAlignment_def)
  have "store32 (mDummyEnum a) (mCurrentPtr a) id1 h = ok (mDummyEnum a, h1)"
    using b by (simp add: assms(2) accessible_def dvd_eq_mod_eq_0 h1_def)
  moreover have "align_ptr (Heap b (e + 4)) al = ok (Heap b p)"
    unfolding p_def using n p b(5) by (intro align_ptr_Heap assms(5)) simp
  moreover have "align_ptr (Heap b (p + size1)) 4 = ok (Heap b (up_to 4 (p + size1)))"
    using n b(5) by (intro align_ptr_Heap) (auto simp: alignment_ok_def)
  ultimately show "place_command id1 size1 al a h =
      ok (Heap b p, a\<lparr>mDummyEnum := mDummyEnum a, mCurrentPtr := Heap b (up_to 4 (p + size1))\<rparr>, h1)"
    by (simp add: place_command_def assms(2))
  have "chain h1 b 0 es e" by (rule chain_cong [OF b(2)]) (simp add: h1_def)
  then have "chain h1 b 0 (es @ [(id1, size1, al, Heap b p)]) (up_to 4 (p + size1))"
    using assms(4,5) by (auto simp: chain_append h1_def p_def kEndOfBlock_def)
  moreover have "up_to 4 (p + size1) + 4 \<le> n" using n q by linarith
  ultimately show "open_block h1 (n, Heap b 0) (es @ [(id1, size1, al, Heap b p)]) (up_to 4 (p + size1))"
    using b n by (simp add: open_block_def h1_def)
qed

lemma remaining_open:
  assumes "open_block h (n, Heap b 0) es e" "mCurrentPtr a = Heap b e" "mEndPtr a = Heap b n" "id1 < kEndOfBlock"
  shows "remaining_size id1 a = ok (n - e)"
proof -
  have "4 dvd e" "e + 4 \<le> n" "n < 2 ^ 64" using assms(1) chain_dvd [of h b 0 es e] by (auto simp: open_block_def)
  then show ?thesis using ptr_aligned_4 [of e b] assms(2-4) by (simp add: remaining_size_def)
qed

lemma remaining_empty:
  assumes "mCurrentPtr a = Own 0" "mEndPtr a = Own 4" "id1 < kEndOfBlock"
  shows "remaining_size id1 a = ok 4"
  using assms by (simp add: remaining_size_def IsPtrAligned_def assert_pow2_def IsPowerOfTwo_def)

lemma frame_trans:
  assumes "frame log a h a1 h1" "frame log a1 h1 a2 h2"
  shows "frame log a h a2 h2"
  unfolding frame_def
proof (intro conjI ballI allI impI)
  have c: "calls h \<le> calls h1" "calls h1 \<le> calls h2" using assms by (simp_all add: frame_def)
  then show "calls h \<le> calls h2" by simp
  show "refused h2 = refused h" using assms by (simp add: frame_def)
  have "set (numbers (mBlocks a2)) \<subseteq> set (numbers (mBlocks a)) \<union> {calls h..<calls h1} \<union> {calls h1..<calls h2}"
    using assms unfolding frame_def by blast
  also have "\<dots> \<subseteq> set (numbers (mBlocks a)) \<union> {calls h..<calls h2}" using c by (intro Un_least) auto
  finally show "set (numbers (mBlocks a2)) \<subseteq> set (numbers (mBlocks a)) \<union> {calls h..<calls h2}" .
  show "same_block h h2 {} b" if "b < calls h" "b \<notin> set (numbers (mBlocks a))" for b
  proof -
    have "set (numbers (mBlocks a1)) \<subseteq> set (numbers (mBlocks a)) \<union> {calls h..<calls h1}"
      using assms(1) unfolding frame_def by blast
    then have "b \<notin> set (numbers (mBlocks a1))" "b < calls h1"
      using that c by (meson UnE atLeastLessThan_iff not_le subsetD, linarith)
    then have "same_block h h1 {} b" "same_block h1 h2 {} b" using assms that unfolding frame_def by blast+
    then show ?thesis by (simp add: same_block_def)
  qed
  show "case x of (b, j) \<Rightarrow> bytes h2 b j = bytes h b j" if "e \<in> set log" "x \<in> payload e" for e x
  proof (cases x)
    case (Pair b j)
    have "\<forall>(b, j) \<in> payload e. bytes h1 b j = bytes h b j" "\<forall>(b, j) \<in> payload e. bytes h2 b j = bytes h1 b j"
      using assms that(1) unfolding frame_def by blast+
    then show ?thesis using that(2) Pair by fastforce
  qed
qed

lemma place_filled:
  assumes "filled h a log b n e es" "e + kWorstCaseAdditionalSize + size1 \<le> n" "id1 < kEndOfBlock" "alignment_ok al"
  shows "\<exists>p a' h'. place_command id1 size1 al a h = ok (p, a', h') \<and> p \<noteq> Nullptr \<and>
           holds h' a' (log @ [(id1, size1, al, p)]) \<and> frame log a h a' h' \<and> live h' = live h \<and> calls h' = calls h"
proof -
  let ?p = "up_to al (e + 4)" and ?h = "set_word b e id1 h"
  note f = filled_facts [OF assms(1)]
  obtain bs ess where a: "mBlocks a = bs @ [(n, Heap b 0)]" "log = concat ess @ es"
    "list_all2 (closed ?h) bs ess" "distinct (numbers (mBlocks a))"
    by (rule filled_closed [OF assms(1)])
  define a' where "a' = a\<lparr>mDummyEnum := mDummyEnum a, mCurrentPtr := Heap b (up_to 4 (?p + size1))\<rparr>"
  note placed = place_ok [OF f(8,6) assms(2-4)]
  have "filled ?h a' (log @ [(id1, size1, al, Heap b ?p)]) b n (up_to 4 (?p + size1)) (es @ [(id1, size1, al, Heap b ?p)])"
    unfolding filled_def using a placed(2) f(7) by (intro exI [of _ bs] exI [of _ ess]) (simp add: a'_def)
  then have "holds ?h a' (log @ [(id1, size1, al, Heap b ?p)])" unfolding holds_def by blast
  moreover have "frame log a h a' ?h" by (rule filled_frame [OF assms(1)]) (simp add: a'_def)
  ultimately show ?thesis using placed(1) by (simp add: a'_def)
qed

text \<open>A new block is filled up_to to its start.\<close>

lemma GetNewBlock_cases:
  assumes "list_all2 (closed h) (mBlocks a) parts" "distinct (numbers (mBlocks a))" "heap_ok h"
    and "minimumSize < 2 ^ 64" "4 \<le> minimumSize"
    and "\<And>b. b \<in> set (numbers (mBlocks a)) \<Longrightarrow> b < calls h"
  shows "\<exists>got a' h'. GetNewBlock minimumSize a h = ok (got, a', h') \<and> heap_ok h' \<and> frame (concat parts) a h a' h' \<and>
           (\<forall>b < calls h. same_block h h' {} b) \<and> calls h' = Suc (calls h) \<and>
           (if got then \<exists>n \<ge> minimumSize. filled h' a' (concat parts) (calls h) n 0 []
            else refused h (calls h) \<and> mBlocks a' = mBlocks a \<and> mCurrentPtr a' = mCurrentPtr a \<and> mEndPtr a' = mEndPtr a)"
proof -
  define n where "n = max minimumSize (min (mLastAllocationSize a * 2 mod 2 ^ 64) 16384)"
  have n: "minimumSize \<le> n" "n < 2 ^ 64" using assms(4) by (auto simp: n_def)
  show ?thesis
  proof (cases "refused h (calls h)")
    case True
    then have "GetNewBlock minimumSize a h = ok (False, a\<lparr>mLastAllocationSize := n\<rparr>, h\<lparr>calls := Suc (calls h)\<rparr>)"
      by (simp add: GetNewBlock_def malloc_def n_def)
    moreover have "heap_ok (h\<lparr>calls := Suc (calls h)\<rparr>)" using assms(3) by (auto simp: heap_ok_def less_Suc_eq)
    ultimately show ?thesis using True by (auto simp: frame_def same_block_def)
  next
    case False
    let ?b = "calls h"
    define h' where "h' = h\<lparr>calls := Suc ?b, live := (live h)(?b \<mapsto> n)\<rparr>"
    define a' where "a' = a\<lparr>mLastAllocationSize := n, mBlocks := mBlocks a @ [(n, Heap ?b 0)], mCurrentPtr := Heap ?b 0, mEndPtr := Heap ?b n\<rparr>"
    have "align_ptr (Heap ?b 0) 4 = ok (Heap ?b 0)" using align_ptr_Heap [of 4 0 ?b] by (simp add: alignment_ok_def up_to_def)
    then have "GetNewBlock minimumSize a h = ok (True, a', h')"
      using False by (simp add: GetNewBlock_def malloc_def Let_def n_def a'_def h'_def)
    moreover have same: "same_block h h' {} b" if "b < ?b" for b using that by (simp add: same_block_def h'_def)
    moreover have "heap_ok h'" using assms(3) by (auto simp: heap_ok_def h'_def less_Suc_eq)
    moreover have "list_all2 (closed h') (mBlocks a) parts"
      by (rule closed_all_cong [OF assms(1)]) (rule same, rule assms(6))
    moreover have "?b \<notin> set (numbers (mBlocks a))" using assms(6) by blast
    moreover have "open_block h' (n, Heap ?b 0) [] 0" using n assms(5) by (simp add: open_block_def h'_def)
    ultimately have "filled h' a' (concat parts) ?b n 0 []" "GetNewBlock minimumSize a h = ok (True, a', h')" "heap_ok h'"
      using assms(2) by (auto simp: filled_def a'_def)
    moreover have "frame (concat parts) a h a' h'"
      using same unfolding frame_def by (auto simp: a'_def h'_def)
    moreover have "calls h' = Suc ?b" by (simp add: h'_def)
    ultimately show ?thesis using same n(1) by auto
  qed
qed

lemma frame_blocks: "mBlocks b = mBlocks a \<Longrightarrow> frame log b = frame log a" "mBlocks b = mBlocks a \<Longrightarrow> frame log c h b = frame log c h a"
  by (simp_all add: frame_def fun_eq_iff)

lemma holds_numbers: "holds h a log \<Longrightarrow> heap_ok h \<Longrightarrow> b \<in> set (numbers (mBlocks a)) \<Longrightarrow> b < calls h"
  using holds_live by (auto simp: heap_ok_def)

lemma Allocate_filled:
  assumes "filled h a log b n e es" "e + kWorstCaseAdditionalSize + size1 \<le> n" "id1 < kEndOfBlock" "alignment_ok al"
  shows "\<exists>p a' h'. Allocate id1 size1 al a h = ok (p, a', h') \<and> p \<noteq> Nullptr \<and>
           holds h' a' (log @ [(id1, size1, al, p)]) \<and> frame log a h a' h' \<and> live h' = live h \<and> calls h' = calls h"
proof -
  note f = filled_facts [OF assms(1)]
  have "remaining_size id1 a = ok (n - e)" by (rule remaining_open [OF f(8,6,7) assms(3)])
  then have "Allocate id1 size1 al a h = place_command id1 size1 al a h"
    using assms(2) by (subst Allocate.simps) (auto simp: fits_in_def)
  then show ?thesis using place_filled [OF assms] by auto
qed

lemma AllocateInNewBlock_cases:
  assumes "holds h a log" "heap_ok h" "size1 < 2 ^ 64"
  shows "\<exists>got a' h'. AllocateInNewBlock size1 a h = ok (got, a', h') \<and> heap_ok h' \<and> frame log a h a' h' \<and>
           (if got then \<exists>b n. filled h' a' log b n 0 [] \<and> size1 + kWorstCaseAdditionalSize \<le> n
            else holds h' a' log \<and> (refused h (calls h) \<or> 2 ^ 64 \<le> size1 + kWorstCaseAdditionalSize))"
proof -
  obtain w h1 parts where s: "store32 (mDummyEnum a) (mCurrentPtr a) kEndOfBlock h = ok (w, h1)" "log = concat parts"
    "list_all2 (closed h1) (mBlocks a) parts" "holds h1 a log" "frame log a h a h1" "live h1 = live h" "calls h1 = calls h"
    "refused h1 = refused h"
    using seal [OF assms(1)] by blast
  define a1 where "a1 = a\<lparr>mDummyEnum := w\<rparr>"
  have a1: "mBlocks a1 = mBlocks a" "mCurrentPtr a1 = mCurrentPtr a" "mEndPtr a1 = mEndPtr a" by (simp_all add: a1_def)
  have ok1: "heap_ok h1" using assms(2) s(6,7) by (simp add: heap_ok_def)
  have in1: "holds h1 a1 log" using s(4) holds_fields [OF a1] by simp
  have f1: "frame log a h a1 h1" using s(5) frame_blocks(2) [OF a1(1)] by simp
  let ?r = "(size1 + kWorstCaseAdditionalSize) mod 2 ^ 64"
  show ?thesis
  proof (cases "2 ^ 64 \<le> size1 + kWorstCaseAdditionalSize")
    case True
    then have "?r = size1 + kWorstCaseAdditionalSize - 2 ^ 64"
      using assms(3) by (subst le_mod_geq) (auto simp: kWorstCaseAdditionalSize_def kMaxSupportedAlignment_def)
    then have "?r \<le> size1" by (simp add: kWorstCaseAdditionalSize_def kMaxSupportedAlignment_def)
    then have "AllocateInNewBlock size1 a h = ok (False, a1, h1)" by (simp add: AllocateInNewBlock_def s(1) a1_def)
    then show ?thesis using True ok1 in1 f1 by auto
  next
    case False
    then have r: "?r = size1 + kWorstCaseAdditionalSize" by simp
    then have eq: "AllocateInNewBlock size1 a h = GetNewBlock (size1 + kWorstCaseAdditionalSize) a1 h1"
      by (simp add: AllocateInNewBlock_def s(1) a1_def kWorstCaseAdditionalSize_def)
    have "\<exists>got a' h'. GetNewBlock (size1 + kWorstCaseAdditionalSize) a1 h1 = ok (got, a', h') \<and> heap_ok h' \<and>
        frame (concat parts) a1 h1 a' h' \<and> (\<forall>b < calls h1. same_block h1 h' {} b) \<and> calls h' = Suc (calls h1) \<and>
        (if got then \<exists>n \<ge> size1 + kWorstCaseAdditionalSize. filled h' a' (concat parts) (calls h1) n 0 []
         else refused h1 (calls h1) \<and> mBlocks a' = mBlocks a1 \<and> mCurrentPtr a' = mCurrentPtr a1 \<and> mEndPtr a' = mEndPtr a1)"
    proof (rule GetNewBlock_cases [OF _ _ ok1])
      show "list_all2 (closed h1) (mBlocks a1) parts" using s(3) a1(1) by simp
      show "distinct (numbers (mBlocks a1))" using in1 by (rule holds_parts)
      show "size1 + kWorstCaseAdditionalSize < 2 ^ 64" using False by simp
      show "4 \<le> size1 + kWorstCaseAdditionalSize" by (simp add: kWorstCaseAdditionalSize_def)
    qed (rule holds_numbers [OF in1 ok1])
    then obtain got a' h' where g: "GetNewBlock (size1 + kWorstCaseAdditionalSize) a1 h1 = ok (got, a', h')" "heap_ok h'"
      "frame log a1 h1 a' h'" "\<forall>b < calls h1. same_block h1 h' {} b"
      "if got then \<exists>n \<ge> size1 + kWorstCaseAdditionalSize. filled h' a' log (calls h1) n 0 []
       else refused h1 (calls h1) \<and> mBlocks a' = mBlocks a1 \<and> mCurrentPtr a' = mCurrentPtr a1 \<and> mEndPtr a' = mEndPtr a1"
      unfolding s(2) by blast
    have "holds h' a1 log" using in1 g(4) by (intro holds_other [OF in1]) (use holds_numbers [OF in1 ok1] in blast)
    then have "holds h' a' log" if "\<not> got" using that g(5) holds_fields [of a' a1 h'] by simp
    moreover have "frame log a h a' h'" by (rule frame_trans [OF f1 g(3)])
    ultimately show ?thesis using eq g(1,2,5) s(7,8) by (cases got) auto
  qed
qed

text \<open>Recording a command appends it to the log and fails only for want of memory.\<close>

lemma Allocate_ok:
  assumes "holds h a log" "heap_ok h" "id1 < kEndOfBlock" "size1 < 2 ^ 64" "alignment_ok al"
  shows "\<exists>p a' h'. Allocate id1 size1 al a h = ok (p, a', h') \<and> heap_ok h' \<and> frame log a h a' h' \<and>
           holds h' a' (if p = Nullptr then log else log @ [(id1, size1, al, p)]) \<and>
           (p = Nullptr \<longrightarrow> refused h (calls h) \<or> 2 ^ 64 \<le> size1 + kWorstCaseAdditionalSize)"
proof -
  consider (fits) b n e es where "filled h a log b n e es" "e + kWorstCaseAdditionalSize + size1 \<le> n"
    | (full) r where "remaining_size id1 a = ok r" "\<not> fits_in r size1"
    using assms(1) unfolding holds_def
  proof (elim disjE conjE exE)
    assume "mCurrentPtr a = Own 0" "mEndPtr a = Own 4"
    then have "remaining_size id1 a = ok 4" using remaining_empty assms(3) by blast
    then show ?thesis using full [of 4] by (simp add: fits_in_def kWorstCaseAdditionalSize_def)
  next
    fix b n e es assume f: "filled h a log b n e es"
    note x = filled_facts [OF f]
    have "remaining_size id1 a = ok (n - e)" by (rule remaining_open [OF x(8,6,7) assms(3)])
    then show ?thesis using fits [OF f] full [of "n - e"] x(3) unfolding fits_in_def by linarith
  qed
  then show ?thesis
  proof cases
    case fits
    then obtain p a' h' where "Allocate id1 size1 al a h = ok (p, a', h')" "p \<noteq> Nullptr"
      "holds h' a' (log @ [(id1, size1, al, p)])" "frame log a h a' h'" "live h' = live h" "calls h' = calls h"
      using Allocate_filled [OF _ _ assms(3,5)] by blast
    then show ?thesis using assms(2) by (auto simp: heap_ok_def)
  next
    case full
    obtain got a1 h1 where n: "AllocateInNewBlock size1 a h = ok (got, a1, h1)" "heap_ok h1" "frame log a h a1 h1"
      "if got then \<exists>b n. filled h1 a1 log b n 0 [] \<and> size1 + kWorstCaseAdditionalSize \<le> n
       else holds h1 a1 log \<and> (refused h (calls h) \<or> 2 ^ 64 \<le> size1 + kWorstCaseAdditionalSize)"
      using AllocateInNewBlock_cases [OF assms(1,2,4)] by blast
    have eq: "Allocate id1 size1 al a h = (if got then Allocate id1 size1 al a1 h1 else ok (Nullptr, a1, h1))"
      using full n(1) by (subst Allocate.simps) auto
    show ?thesis
    proof (cases got)
      case True
      then obtain b n where f: "filled h1 a1 log b n 0 []" "size1 + kWorstCaseAdditionalSize \<le> n" using n(4) by auto
      then obtain p a' h' where "Allocate id1 size1 al a1 h1 = ok (p, a', h')" "p \<noteq> Nullptr"
        "holds h' a' (log @ [(id1, size1, al, p)])" "frame log a1 h1 a' h'" "live h' = live h1" "calls h' = calls h1"
        using Allocate_filled [OF f(1) _ assms(3,5), of size1] by auto
      then show ?thesis using True eq n(2) frame_trans [OF n(3)] by (auto simp: heap_ok_def)
    qed (use eq n in auto)
  qed
qed

section \<open>Reading the commands back\<close>

lemma AcquireBlocks_ok:
  assumes "holds h a log"
  shows "\<exists>a' h' parts. AcquireBlocks a h = ok (mBlocks a, a', h') \<and> log = concat parts \<and>
           list_all2 (closed h') (mBlocks a) parts \<and> frame log a h a h' \<and> live h' = live h \<and> calls h' = calls h"
proof -
  obtain w h1 parts where s: "store32 (mDummyEnum a) (mCurrentPtr a) kEndOfBlock h = ok (w, h1)" "log = concat parts"
    "list_all2 (closed h1) (mBlocks a) parts" "frame log a h a h1" "live h1 = live h" "calls h1 = calls h"
    using seal [OF assms] by blast
  have "\<exists>r. remaining_size 0 a = ok r"
    using assms unfolding holds_def
  proof (elim disjE conjE exE)
    fix b n e es assume "filled h a log b n e es"
    note x = filled_facts [OF this]
    show ?thesis using remaining_open [OF x(8,6,7), of 0] by (auto simp: kEndOfBlock_def)
  qed (use remaining_empty [of a 0] in \<open>auto simp: kEndOfBlock_def\<close>)
  then have "\<exists>a'. AcquireBlocks a h = ok (mBlocks a, a', h1)"
    using s(1) by (auto simp: AcquireBlocks_def remaining_size_def res_iff)
  with s(2-6) show ?thesis by blast
qed

text \<open>
  The loop of a reader: while there is a command, its data is taken with the size and the alignment
  that belong to its type. More commands than expected have no type and are undefined.
\<close>

fun read_commands :: "(nat \<times> nat) list \<Rightarrow> command_iterator \<Rightarrow> heap \<Rightarrow> ((nat \<times> address) list \<times> command_iterator) res" where
  "read_commands types it h =
     bindR (NextCommandId it h) (\<lambda>(id1, it).
       case id1 of None \<Rightarrow> ok ([], it)
       | Some id1 \<Rightarrow> (case types of [] \<Rightarrow> undef
          | (size1, al) # types \<Rightarrow>
              bindR (NextCommand size1 al it) (\<lambda>(p, it).
              bindR (read_commands types it h) (\<lambda>(rest, it). ok ((id1, p) # rest, it)))))"

declare read_commands.simps [simp del]

definition shape :: "entry \<Rightarrow> nat \<times> nat" where
  "shape = (\<lambda>(id1, size1, al, p). (size1, al))"

definition found :: "entry \<Rightarrow> nat \<times> address" where
  "found = (\<lambda>(id1, size1, al, p). (id1, p))"

text \<open>The iterator stands in block \<open>b\<close> before the entries \<open>es\<close>; the blocks \<open>bs\<close> follow.\<close>

definition stands :: "heap \<Rightarrow> command_iterator \<Rightarrow> block_def list \<Rightarrow> nat \<Rightarrow> nat \<Rightarrow> entry list \<Rightarrow> block_def list \<Rightarrow> bool" where
  "stands h it pre b n es bs \<longleftrightarrow>
     iBlocks it = pre @ (n, Heap b 0) # bs \<and> iCurrentBlock it = length pre \<and> live h b = Some n \<and> n < 2 ^ 64 \<and>
     (\<exists>i e. iCurrentPtr it = Heap b i \<and> i \<le> e \<and> e + 4 \<le> n \<and> chain h b (up_to 4 i) es e \<and> word_at h b e = kEndOfBlock \<and>
        roomy_log n es)"

lemma in_block:
  assumes "iBlocks it = pre @ (n, Heap b 0) # bs" "iCurrentBlock it = length pre" "i + k \<le> n"
  shows "assert_in_block it (Heap b i) k = ok ()"
  using assms by (simp add: assert_in_block_def vec_at_def nth_append)

lemma aligned_ptr: "i + 8 \<le> 2 ^ 64 \<Longrightarrow> align_ptr (Heap b i) 4 = ok (Heap b (up_to 4 i))"
  by (rule align_ptr_Heap) (auto simp: alignment_ok_def)

lemma stands_next:
  assumes "stands h it pre b n ((id1, size1, al, p) # es) bs"
  shows "\<exists>it1 it2. NextCommandId it h = ok (Some id1, it1) \<and> NextCommand size1 al it1 = ok (p, it2) \<and>
           stands h it2 pre b n es bs \<and> iBlocks it2 = iBlocks it \<and> iEndOfBlock it2 = iEndOfBlock it"
proof -
  obtain i e where s: "iBlocks it = pre @ (n, Heap b 0) # bs" "iCurrentBlock it = length pre" "live h b = Some n" "n < 2 ^ 64"
    "iCurrentPtr it = Heap b i" "i \<le> e" "e + 4 \<le> n" "chain h b (up_to 4 i) ((id1, size1, al, p) # es) e" "word_at h b e = kEndOfBlock"
    "roomy_log n ((id1, size1, al, p) # es)"
    using assms by (auto simp: stands_def)
  let ?j = "up_to al (up_to 4 i + 4)"
  have c: "word_at h b (up_to 4 i) = id1" "id1 \<noteq> kEndOfBlock" "alignment_ok al" "p = Heap b ?j" "chain h b (up_to 4 (?j + size1)) es e"
    using s(8) by auto
  have le: "i \<le> up_to 4 i" "up_to 4 i + 4 \<le> ?j" "?j + size1 \<le> up_to 4 (?j + size1)" "up_to 4 (?j + size1) \<le> e" "?j + 8 \<le> n"
    using up_bounds [of 4 i] up_alignment [OF c(3), of "up_to 4 i + 4"] up_bounds [of 4 "?j + size1"] chain_le [OF c(5)]
      s(10) c(4) by auto
  define it1 where "it1 = it\<lparr>iCurrentPtr := Heap b (up_to 4 i + 4)\<rparr>"
  define it2 where "it2 = it1\<lparr>iCurrentPtr := Heap b (?j + size1)\<rparr>"
  have "align_ptr (iCurrentPtr it) 4 = ok (Heap b (up_to 4 i))" unfolding s(5) using le s(4) by (intro aligned_ptr) simp
  moreover have "assert_in_block it (Heap b (up_to 4 i)) 4 = ok ()" using le by (intro in_block [OF s(1,2)]) simp
  moreover have "load32 (iEndOfBlock it) (Heap b (up_to 4 i)) h = ok id1"
    using le s(3) up_dvd [of 4 i] c(1) by (simp add: accessible_def dvd_eq_mod_eq_0)
  ultimately have "NextCommandId it h = ok (Some id1, it1)"
    using c(2) by (subst NextCommandId.simps) (simp add: it1_def)
  moreover have "align_ptr (iCurrentPtr it1) al = ok p"
    using align_ptr_Heap [OF c(3), of "up_to 4 i + 4" b] le s(4) by (simp add: it1_def c(4))
  moreover have "assert_in_block it1 p 8 = ok ()"
    unfolding c(4) using le by (intro in_block) (simp_all add: it1_def s(1,2))
  ultimately have "NextCommandId it h = ok (Some id1, it1)" "NextCommand size1 al it1 = ok (p, it2)"
    by (simp_all add: NextCommand_def it2_def c(4))
  moreover have "stands h it2 pre b n es bs"
    unfolding stands_def using s c le by (auto simp: it2_def it1_def intro!: exI [of _ e])
  ultimately show ?thesis by (auto simp: it1_def it2_def)
qed

text \<open>At the end of a block the iterator goes on with the next one, and is reset at the last.\<close>

lemma stands_end:
  assumes "stands h it pre b n [] bs"
  shows "bs = [] \<Longrightarrow> NextCommandId it h = bindR (Iterator_Reset (it\<lparr>iCurrentBlock := iCurrentBlock it + 1\<rparr>)) (\<lambda>it. ok (None, it))"
    and "bs = (m, Heap c 0) # bs' \<Longrightarrow>
           NextCommandId it h = NextCommandId (it\<lparr>iCurrentBlock := iCurrentBlock it + 1, iCurrentPtr := Heap c 0\<rparr>) h"
proof -
  obtain i e where s: "iBlocks it = pre @ (n, Heap b 0) # bs" "iCurrentBlock it = length pre" "live h b = Some n" "n < 2 ^ 64"
    "iCurrentPtr it = Heap b i" "i \<le> e" "e + 4 \<le> n" "e = up_to 4 i" "word_at h b e = kEndOfBlock"
    using assms by (auto simp: stands_def)
  obtain k where "e = 4 * k" using up_dvd [of 4 i] s(8) by (metis dvdE)
  then have "e + 8 \<le> 2 ^ 64" using s(4,7) by simp
  then have "align_ptr (iCurrentPtr it) 4 = ok (Heap b (up_to 4 i))"
    unfolding s(5) using s(6) by (intro aligned_ptr) simp
  moreover have "assert_in_block it (Heap b (up_to 4 i)) 4 = ok ()" using s by (intro in_block [OF s(1,2)]) simp
  moreover have "load32 (iEndOfBlock it) (Heap b (up_to 4 i)) h = ok kEndOfBlock"
    using s up_dvd [of 4 i] by (simp add: accessible_def dvd_eq_mod_eq_0)
  ultimately show "bs = [] \<Longrightarrow> NextCommandId it h = bindR (Iterator_Reset (it\<lparr>iCurrentBlock := iCurrentBlock it + 1\<rparr>)) (\<lambda>it. ok (None, it))"
    and "bs = (m, Heap c 0) # bs' \<Longrightarrow>
           NextCommandId it h = NextCommandId (it\<lparr>iCurrentBlock := iCurrentBlock it + 1, iCurrentPtr := Heap c 0\<rparr>) h"
    using s(1,2) aligned_ptr [of 0 c] by (subst NextCommandId.simps, simp add: nth_append up_to_def)+
qed

lemma read_cong: "NextCommandId it h = NextCommandId it' h \<Longrightarrow> read_commands types it h = read_commands types it' h"
  by (subst (1 2) read_commands.simps) simp

lemma Reset_cong:
  assumes "iBlocks it = iBlocks it'" "iEndOfBlock it = iEndOfBlock it'"
  shows "Iterator_Reset it = Iterator_Reset it'"
  using assms by (cases it; cases it') (auto simp: Iterator_Reset_def split: list.splits)

lemma read_entries:
  assumes "stands h it pre b n es bs"
  shows "\<exists>it'. stands h it' pre b n [] bs \<and> iBlocks it' = iBlocks it \<and> iEndOfBlock it' = iEndOfBlock it \<and>
           read_commands (map shape es @ types) it h =
             bindR (read_commands types it' h) (\<lambda>(rest, it). ok (map found es @ rest, it))"
  using assms
proof (induction es arbitrary: it)
  case Nil
  then show ?case by (intro exI [of _ it]) (cases "read_commands types it h"; auto)
next
  case (Cons x es)
  obtain id1 size1 al p where x: "x = (id1, size1, al, p)" by (cases x)
  obtain it1 it2 where n: "NextCommandId it h = ok (Some id1, it1)" "NextCommand size1 al it1 = ok (p, it2)"
    "stands h it2 pre b n es bs" "iBlocks it2 = iBlocks it" "iEndOfBlock it2 = iEndOfBlock it"
    using stands_next Cons.prems x by blast
  obtain it' where it': "stands h it' pre b n [] bs" "iBlocks it' = iBlocks it2" "iEndOfBlock it' = iEndOfBlock it2"
    "read_commands (map shape es @ types) it2 h = bindR (read_commands types it' h) (\<lambda>(rest, it). ok (map found es @ rest, it))"
    using Cons.IH [OF n(3)] by blast
  have "read_commands (map shape (x # es) @ types) it h =
      bindR (read_commands types it' h) (\<lambda>(rest, it). ok (map found (x # es) @ rest, it))"
    using n(1,2) it'(4) by (subst read_commands.simps) (cases "read_commands types it' h"; auto simp: x shape_def found_def)
  then show ?case using it'(1-3) n(4,5) by auto
qed

text \<open>All commands are found, and the iterator is back at its start.\<close>

lemma read_from:
  assumes "stands h it pre b n es bs" "list_all2 (closed h) bs ess" "Iterator_Reset it = ok it0"
  shows "read_commands (map shape (es @ concat ess)) it h = ok (map found (es @ concat ess), it0)"
  using assms
proof (induction bs arbitrary: it pre b n es ess)
  case Nil
  obtain it' where it': "stands h it' pre b n [] []" "iBlocks it' = iBlocks it" "iEndOfBlock it' = iEndOfBlock it"
    "read_commands (map shape es) it h = bindR (read_commands [] it' h) (\<lambda>(rest, it). ok (map found es @ rest, it))"
    using read_entries [OF Nil.prems(1), of "[]"] by auto
  have "Iterator_Reset (it'\<lparr>iCurrentBlock := iCurrentBlock it' + 1\<rparr>) = ok it0"
    using Nil.prems(3) it'(2,3) by (subst Reset_cong [of _ it]) simp_all
  then have "NextCommandId it' h = ok (None, it0)" using stands_end(1) [OF it'(1)] by simp
  then have "read_commands [] it' h = ok ([], it0)" by (simp add: read_commands.simps)
  then show ?case using it'(4) Nil.prems(2) by simp
next
  case (Cons block bs)
  obtain fs fss where ess: "ess = fs # fss" "closed h block fs" "list_all2 (closed h) bs fss"
    using Cons.prems(2) by (auto simp: list_all2_Cons1)
  then obtain c m e where c: "block = (m, Heap c 0)" "live h c = Some m" "m < 2 ^ 64" "chain h c 0 fs e" "e + 4 \<le> m"
    "roomy_log m fs" "word_at h c e = kEndOfBlock"
    by (auto simp: closed_def open_block_def)
  let ?types = "map shape (fs @ concat fss)"
  obtain it' where it': "stands h it' pre b n [] (block # bs)" "iBlocks it' = iBlocks it" "iEndOfBlock it' = iEndOfBlock it"
    "read_commands (map shape es @ ?types) it h = bindR (read_commands ?types it' h) (\<lambda>(rest, it). ok (map found es @ rest, it))"
    using read_entries [OF Cons.prems(1)] by blast
  define it2 where "it2 = it'\<lparr>iCurrentBlock := iCurrentBlock it' + 1, iCurrentPtr := Heap c 0\<rparr>"
  have "NextCommandId it' h = NextCommandId it2 h" unfolding it2_def by (rule stands_end(2) [OF it'(1)]) (simp add: c(1))
  moreover have "stands h it2 (pre @ [(n, Heap b 0)]) c m fs bs"
    using it'(1) c by (auto simp: stands_def it2_def up_to_def intro!: exI [of _ e] dest: chain_le)
  moreover have "Iterator_Reset it2 = ok it0"
    using Cons.prems(3) it'(2,3) by (subst Reset_cong [of _ it]) (simp_all add: it2_def)
  ultimately have "read_commands ?types it' h = read_commands ?types it2 h"
    "read_commands ?types it2 h = ok (map found (fs @ concat fss), it0)"
    by (auto intro: read_cong Cons.IH [OF _ ess(3)] simp del: map_append)
  then show ?case using it'(4) ess(1) by simp
qed

lemma read_all:
  assumes "list_all2 (closed h) blocks parts" "iBlocks it = blocks" "iEndOfBlock it = kEndOfBlock"
  shows "\<exists>it0. Iterator_Reset it = ok it0 \<and>
           read_commands (map shape (concat parts)) it0 h = ok (map found (concat parts), it0) \<and>
           iBlocks it0 = (if blocks = [] then [(4, Own 0)] else blocks) \<and> iEndOfBlock it0 = kEndOfBlock"
proof (cases blocks)
  case Nil
  define it0 where "it0 = it\<lparr>iCurrentBlock := 0, iCurrentPtr := Own 0, iBlocks := [(4, Own 0)]\<rparr>"
  have reset: "Iterator_Reset it = ok it0" using assms(2) Nil by (simp add: Iterator_Reset_def it0_def)
  have "AlignPtr 0 4 = ok 0" by (simp add: AlignPtr_def assert_pow2_def IsPowerOfTwo_def)
  then have "NextCommandId it0 h = ok (None, it0)"
    using assms(3)
    by (subst NextCommandId.simps) (simp add: it0_def assert_in_block_def vec_at_def Iterator_Reset_def)
  then have "read_commands [] it0 h = ok ([], it0)" by (simp add: read_commands.simps)
  then show ?thesis using reset assms Nil by (auto simp: it0_def)
next
  case (Cons block bs)
  then obtain fs fss where parts: "parts = fs # fss" "closed h block fs" "list_all2 (closed h) bs fss"
    using assms(1) by (auto simp: list_all2_Cons1)
  then obtain c m e where c: "block = (m, Heap c 0)" "live h c = Some m" "m < 2 ^ 64" "chain h c 0 fs e" "e + 4 \<le> m"
    "roomy_log m fs" "word_at h c e = kEndOfBlock"
    by (auto simp: closed_def open_block_def)
  define it0 where "it0 = it\<lparr>iCurrentBlock := 0, iCurrentPtr := Heap c 0\<rparr>"
  have reset: "Iterator_Reset it = ok it0"
    using assms(2) Cons aligned_ptr [of 0 c] by (simp add: Iterator_Reset_def it0_def c(1) up_to_def)
  have "stands h it0 [] c m fs bs"
    using c assms(2) Cons by (auto simp: stands_def it0_def up_to_def intro!: exI [of _ e])
  moreover have "Iterator_Reset it0 = ok it0"
    using reset by (subst Reset_cong [of _ it]) (simp_all add: it0_def)
  ultimately have "read_commands (map shape (concat parts)) it0 h = ok (map found (concat parts), it0)"
    using read_from parts by fastforce
  then show ?thesis using reset assms Cons by (auto simp: it0_def)
qed

section \<open>Recording and reading\<close>

definition poke :: "nat \<Rightarrow> nat \<Rightarrow> nat \<Rightarrow> heap \<Rightarrow> heap" where
  "poke b j v h = h\<lparr>bytes := (bytes h)(b := (bytes h b)(j := v))\<rparr>"

text \<open>
  Commands are recorded one after the other; in between, the client writes to the commands that it
  has recorded. A null pointer is no command.
\<close>

inductive recording :: "command_allocator \<Rightarrow> heap \<Rightarrow> entry list \<Rightarrow> bool" where
  start: "heap_ok h \<Longrightarrow> recording CommandAllocator h []"
| command: "recording a h log \<Longrightarrow> id1 < kEndOfBlock \<Longrightarrow> size1 < 2 ^ 64 \<Longrightarrow> alignment_ok al \<Longrightarrow>
    Allocate id1 size1 al a h = ok (p, a', h') \<Longrightarrow>
    recording a' h' (if p = Nullptr then log else log @ [(id1, size1, al, p)])"
| fill: "recording a h log \<Longrightarrow> x \<in> set log \<Longrightarrow> (b, j) \<in> payload x \<Longrightarrow> recording a (poke b j v h) log"

lemma recording_holds: "recording a h log \<Longrightarrow> holds h a log \<and> heap_ok h"
proof (induction rule: recording.induct)
  case (start h)
  then show ?case by (simp add: holds_def CommandAllocator_def ResetPointers_def)
next
  case (command a h log id1 size1 al p a' h')
  then show ?case using Allocate_ok [of h a log id1 size1 al] by auto
next
  case (fill a h log x b j v)
  have same: "same_block h (poke b j v h) (\<Union> (payload ` set log)) c" for c
    unfolding same_block_def
  proof (intro conjI allI impI)
    fix i assume "(c, i) \<notin> \<Union> (payload ` set log)"
    then have "(c, i) \<noteq> (b, j)" using fill.hyps by blast
    then show "bytes (poke b j v h) c i = bytes h c i" by (auto simp: poke_def)
  qed (simp add: poke_def)
  have "holds (poke b j v h) a log" by (rule holds_cong [OF conjunct1 [OF fill.IH] same])
  then show ?case using fill.IH by (simp add: heap_ok_def poke_def)
qed

lemma chain_apart: "chain h b i es e \<Longrightarrow> sorted_wrt (\<lambda>x y. payload x \<inter> payload y = {}) es"
proof (induction es arbitrary: i)
  case (Cons x es)
  obtain id1 size1 a p where x: "x = (id1, size1, a, p)" by (cases x)
  let ?n = "up_to 4 (up_to a (i + 4) + size1)"
  have c: "p = Heap b (up_to a (i + 4))" "chain h b ?n es e" using Cons.prems x by auto
  have "up_to a (i + 4) + size1 \<le> ?n" using up_bounds [of 4 "up_to a (i + 4) + size1"] by simp
  then have "payload x \<inter> payload y = {}" if "y \<in> set es" for y
    using chain_payload [OF c(2) that] by (auto simp: x c(1) payload_def)
  then show ?case using Cons.IH [OF c(2)] by simp
qed simp

lemma parts_apart:
  assumes "list_all2 (\<lambda>block es. \<exists>e. open_block h block es e) blocks parts" "distinct (numbers blocks)"
  shows "sorted_wrt (\<lambda>x y. payload x \<inter> payload y = {}) (concat parts)"
  using assms
proof (induction rule: list_all2_induct)
  case (Cons block blocks es parts)
  then obtain e where e: "open_block h block es e" by blast
  have "payload x \<inter> payload y = {}" if x: "x \<in> set es" and y: "y \<in> set (concat parts)" for x y
  proof -
    obtain k where k: "k < length parts" "y \<in> set (parts ! k)" using y by simp (metis in_set_conv_nth)
    obtain e' where e': "open_block h (blocks ! k) (parts ! k) e'" using list_all2_nthD2 [OF Cons.hyps(2) k(1)] by blast
    have "k < length blocks" using Cons.hyps(2) k(1) by (simp add: list_all2_lengthD)
    then have "block_of (snd (blocks ! k)) \<in> set (numbers blocks)" by simp
    moreover have "block_of (snd block) \<notin> set (numbers blocks)" using Cons.prems by simp
    ultimately have "block_of (snd block) \<noteq> block_of (snd (blocks ! k))" by metis
    then have "({block_of (snd block)} \<times> {4..<e}) \<inter> ({block_of (snd (blocks ! k))} \<times> {4..<e'}) = {}" by auto
    then show ?thesis using Int_mono [OF open_block_payload [OF e x] open_block_payload [OF e' k(2)]] by simp
  qed
  moreover have "sorted_wrt (\<lambda>x y. payload x \<inter> payload y = {}) es"
    using e chain_apart by (auto simp: open_block_def)
  ultimately show ?case using Cons by (auto simp: sorted_wrt_append)
qed simp

lemma parts_entry:
  assumes "list_all2 (\<lambda>block es. \<exists>e. open_block h block es e) blocks parts" "(id1, size1, al, p) \<in> set (concat parts)"
  shows "\<exists>b j. p = Heap b j \<and> al dvd j \<and> accessible h b j size1"
proof -
  obtain k where k: "k < length parts" "(id1, size1, al, p) \<in> set (parts ! k)" using assms(2) by simp (metis in_set_conv_nth)
  obtain e where "open_block h (blocks ! k) (parts ! k) e" using list_all2_nthD2 [OF assms(1) k(1)] by blast
  then obtain b n where b: "live h b = Some n" "chain h b 0 (parts ! k) e" "e + 4 \<le> n" by (auto simp: open_block_def)
  then show ?thesis using chain_entry [OF b(2) k(2)] by (fastforce simp: accessible_def)
qed

text \<open>
  C26. What is recorded is read back. However commands of any size and alignment are recorded and
  filled, the iterator made from the allocator returns the identifiers and addresses of all of
  them in the order in which they were recorded, with their bytes unchanged, then reports the
  end and stands at the first command again.
\<close>

theorem commands_read_back:
  assumes "recording a h log"
  shows "\<exists>it h'. CommandIterator_of a h = ok (it, h') \<and> read_commands (map shape log) it h' = ok (map found log, it) \<and>
           (\<forall>x \<in> set log. \<forall>(b, j) \<in> payload x. bytes h' b j = bytes h b j)"
proof -
  obtain a' h' parts where q: "AcquireBlocks a h = ok (mBlocks a, a', h')" "log = concat parts"
    "list_all2 (closed h') (mBlocks a) parts" "frame log a h a h'"
    using AcquireBlocks_ok recording_holds [OF assms] by blast
  let ?it = "blank_iterator\<lparr>iBlocks := mBlocks a\<rparr>"
  obtain it where "Iterator_Reset ?it = ok it" "read_commands (map shape log) it h' = ok (map found log, it)"
    using read_all [OF q(3), of ?it] q(2) by auto
  moreover have "\<forall>x \<in> set log. \<forall>(b, j) \<in> payload x. bytes h' b j = bytes h b j"
    using q(4) unfolding frame_def by blast
  ultimately show ?thesis using q(1) by (simp add: CommandIterator_of_def)
qed

text \<open>A command of 12 bytes, aligned to 8, and 3 bytes of data behind it.\<close>

definition sample_heap :: heap where
  "sample_heap = \<lparr>refused = (\<lambda>_. False), calls = 0, live = (\<lambda>_. None), bytes = (\<lambda>_ _. 0)\<rparr>"

definition sample_heap1 :: heap where
  "sample_heap1 = set_word 0 0 3 (sample_heap\<lparr>calls := 1, live := [0 \<mapsto> 4096]\<rparr>)"

definition sample_recorded :: "nat \<Rightarrow> command_allocator" where
  "sample_recorded i = \<lparr>mBlocks = [(4096, Heap 0 0)], mLastAllocationSize = 4096, mDummyEnum = kEndOfBlock,
     mCurrentPtr = Heap 0 i, mEndPtr = Heap 0 4096\<rparr>"

lemmas command_sizes = kEndOfBlock_def kAdditionalData_def kWorstCaseAdditionalSize_def kMaxSupportedAlignment_def
  kDefaultBaseAllocationSize_def

lemma sample_align:
  "align_ptr (Heap 0 0) 4 = ok (Heap 0 0)" "align_ptr (Heap 0 4) 8 = ok (Heap 0 8)" "align_ptr (Heap 0 20) 4 = ok (Heap 0 20)"
  "align_ptr (Heap 0 24) 1 = ok (Heap 0 24)" "align_ptr (Heap 0 27) 4 = ok (Heap 0 28)"
  by (subst align_ptr_Heap; simp add: alignment_ok_def up_to_def)+

lemma sample_command: "Allocate 3 12 8 CommandAllocator sample_heap = ok (Heap 0 8, sample_recorded 20, sample_heap1)"
proof -
  have "remaining_size 3 CommandAllocator = ok 4"
    by (rule remaining_empty) (simp_all add: CommandAllocator_def ResetPointers_def command_sizes)
  moreover have "AllocateInNewBlock 12 CommandAllocator sample_heap =
      ok (True, sample_recorded 0, sample_heap\<lparr>calls := 1, live := [0 \<mapsto> 4096]\<rparr>)"
    using sample_align(1)
    by (simp add: AllocateInNewBlock_def GetNewBlock_def CommandAllocator_def ResetPointers_def malloc_def sample_heap_def
        sample_recorded_def command_sizes del: align_ptr.simps)
  moreover have "remaining_size 3 (sample_recorded 0) = ok 4096"
    using ptr_aligned_4 [of 0 0] by (simp add: remaining_size_def sample_recorded_def command_sizes del: ptr_aligned.simps)
  moreover have "place_command 3 12 8 (sample_recorded 0) (sample_heap\<lparr>calls := 1, live := [0 \<mapsto> 4096]\<rparr>) =
      ok (Heap 0 8, sample_recorded 20, sample_heap1)"
    using sample_align by (simp add: place_command_def sample_recorded_def sample_heap1_def accessible_def del: align_ptr.simps)
  ultimately show ?thesis
    by (subst Allocate.simps, subst Allocate.simps) (simp add: fits_in_def command_sizes)
qed

lemma sample_data:
  "Allocate kAdditionalData 3 1 (sample_recorded 20) sample_heap1 =
     ok (Heap 0 24, sample_recorded 28, set_word 0 20 kAdditionalData sample_heap1)"
proof -
  have "remaining_size kAdditionalData (sample_recorded 20) = ok 4076"
    using ptr_aligned_4 [of 20 0] by (simp add: remaining_size_def sample_recorded_def command_sizes del: ptr_aligned.simps)
  moreover have "place_command kAdditionalData 3 1 (sample_recorded 20) sample_heap1 =
      ok (Heap 0 24, sample_recorded 28, set_word 0 20 kAdditionalData sample_heap1)"
    using sample_align by (simp add: place_command_def sample_recorded_def sample_heap1_def accessible_def del: align_ptr.simps)
  ultimately show ?thesis by (subst Allocate.simps) (simp add: fits_in_def command_sizes)
qed

lemma sample_recording:
  "recording (sample_recorded 28) (set_word 0 20 kAdditionalData sample_heap1)
     [(3, 12, 8, Heap 0 8), (kAdditionalData, 3, 1, Heap 0 24)]"
proof -
  have "recording CommandAllocator sample_heap []" by (rule start) (simp add: heap_ok_def sample_heap_def)
  from command [OF this _ _ _ sample_command]
  have "recording (sample_recorded 20) sample_heap1 [(3, 12, 8, Heap 0 8)]" by (simp add: alignment_ok_def command_sizes)
  from command [OF this _ _ _ sample_data] show ?thesis by (simp add: alignment_ok_def command_sizes)
qed

theorem commands_read_back_witness:
  "\<exists>it h'. CommandIterator_of (sample_recorded 28) (set_word 0 20 kAdditionalData sample_heap1) = ok (it, h') \<and>
     read_commands [(12, 8), (3, 1)] it h' = ok ([(3, Heap 0 8), (kAdditionalData, Heap 0 24)], it)"
  using commands_read_back [OF sample_recording] by (auto simp: shape_def found_def)

text \<open>
  C27. Memory of a command. Recording a command returns, and fails only when \<open>malloc\<close> refuses the
  block or the size is within 20 of the largest number; otherwise the command is aligned, lies
  inside memory of the allocator, overlaps no other command, and no byte of another command
  changes.
\<close>

theorem allocation_is_apart:
  assumes "recording a h log" "id1 < kEndOfBlock" "size1 < 2 ^ 64" "alignment_ok al"
  shows "\<exists>p a' h'. Allocate id1 size1 al a h = ok (p, a', h') \<and>
           (p = Nullptr \<longrightarrow> refused h (calls h) \<or> 2 ^ 64 \<le> size1 + kWorstCaseAdditionalSize) \<and>
           (p \<noteq> Nullptr \<longrightarrow> (\<exists>b j. p = Heap b j \<and> al dvd j \<and> accessible h' b j size1) \<and>
              (\<forall>x \<in> set log. payload x \<inter> payload (id1, size1, al, p) = {})) \<and>
           (\<forall>x \<in> set log. \<forall>(b, j) \<in> payload x. bytes h' b j = bytes h b j)"
proof -
  obtain p a' h' where a: "Allocate id1 size1 al a h = ok (p, a', h')" "frame log a h a' h'"
    "holds h' a' (if p = Nullptr then log else log @ [(id1, size1, al, p)])"
    "p = Nullptr \<longrightarrow> refused h (calls h) \<or> 2 ^ 64 \<le> size1 + kWorstCaseAdditionalSize"
    using Allocate_ok [OF _ _ assms(2-4)] recording_holds [OF assms(1)] by blast
  have "\<forall>x \<in> set log. \<forall>(b, j) \<in> payload x. bytes h' b j = bytes h b j"
    using a(2) unfolding frame_def by blast
  moreover have "(\<exists>b j. p = Heap b j \<and> al dvd j \<and> accessible h' b j size1) \<and>
      (\<forall>x \<in> set log. payload x \<inter> payload (id1, size1, al, p) = {})" if "p \<noteq> Nullptr"
  proof -
    from that a(3) have "holds h' a' (log @ [(id1, size1, al, p)])" by simp
    then obtain parts where parts: "log @ [(id1, size1, al, p)] = concat parts"
      "list_all2 (\<lambda>block es. \<exists>e. open_block h' block es e) (mBlocks a') parts" "distinct (numbers (mBlocks a'))"
      by (rule holds_parts)
    have "(id1, size1, al, p) \<in> set (concat parts)" using parts(1) by (metis in_set_conv_decomp)
    moreover have "sorted_wrt (\<lambda>x y. payload x \<inter> payload y = {}) (log @ [(id1, size1, al, p)])"
      using parts_apart [OF parts(2,3)] parts(1) by simp
    ultimately show ?thesis using parts_entry [OF parts(2)] by (simp add: sorted_wrt_append)
  qed
  ultimately show ?thesis using a(1,4) by blast
qed

theorem allocation_is_apart_witness:
  "\<exists>p a' h'. Allocate 7 100 4 (sample_recorded 28) (set_word 0 20 kAdditionalData sample_heap1) = ok (p, a', h') \<and>
     (\<exists>b j. p = Heap b j \<and> 4 dvd j \<and> accessible h' b j 100)"
proof -
  have "\<not> refused (set_word 0 20 kAdditionalData sample_heap1) k" for k
    by (simp add: set_word_def sample_heap1_def sample_heap_def)
  then show ?thesis
    using allocation_is_apart [OF sample_recording, of 7 100 4]
    by (fastforce simp: alignment_ok_def command_sizes)
qed

end
