(* ===== verification/Encoding_Spec.thy ===== *)
theory Encoding_Spec
  imports Encoding_Context Command_Spec
begin

text \<open>
  What an encoder promises: the commands of a finished encoder are those that its calls recorded,
  in their order, with the commands that validate the indirect draws of a render pass in front of
  the pass. The calls refine a specification that keeps lists of commands instead of memory.
\<close>

section \<open>Allocators that hold commands\<close>

definition spec_ok :: "command_spec \<Rightarrow> bool" where
  "spec_ok = (\<lambda>(f, id1, size1, al, contents).
     id1 < kEndOfBlock \<and> size1 + kWorstCaseAdditionalSize < 2 ^ 64 \<and> alignment_ok al)"

text \<open>The entry of the log is the command, with its contents in memory.\<close>

definition stored :: "heap \<Rightarrow> command_spec \<Rightarrow> entry \<Rightarrow> bool" where
  "stored h = (\<lambda>(f, id1, size1, al, contents) (id2, size2, al2, p).
     id2 = id1 \<and> size2 = size1 \<and> al2 = al \<and>
     (\<exists>b i. p = Heap b i \<and> (\<forall>j < size1. bytes h b (i + j) = contents j)))"

definition keeps :: "heap \<Rightarrow> command_allocator \<Rightarrow> command_spec list \<Rightarrow> bool" where
  "keeps h a specs \<longleftrightarrow> (\<exists>log. holds h a log \<and> list_all2 (stored h) specs log)"

definition plenty :: "heap \<Rightarrow> bool" where
  "plenty h \<longleftrightarrow> heap_ok h \<and> (\<forall>k. \<not> refused h k)"

lemma stored_cong:
  assumes "stored h s x" "\<And>b j. (b, j) \<in> payload x \<Longrightarrow> bytes h' b j = bytes h b j"
  shows "stored h' s x"
  using assms by (auto simp: stored_def payload_def)

lemma stored_other:
  assumes "list_all2 (\<lambda>block es. \<exists>e. open_block h block es e) blocks parts" "list_all2 (stored h) specs (concat parts)"
    and "\<And>b. b \<in> set (numbers blocks) \<Longrightarrow> same_block h h' {} b"
  shows "list_all2 (stored h') specs (concat parts)"
proof -
  have "bytes h' b j = bytes h b j" if x: "x \<in> set (concat parts)" and bj: "(b, j) \<in> payload x" for x b j
  proof -
    obtain k where k: "k < length parts" "x \<in> set (parts ! k)" using x by simp (metis in_set_conv_nth)
    obtain e where e: "open_block h (blocks ! k) (parts ! k) e" using list_all2_nthD2 [OF assms(1) k(1)] by blast
    from subsetD [OF open_block_payload [OF e k(2)] bj] have "b = block_of (snd (blocks ! k))" by simp
    moreover have "k < length blocks" using k(1) assms(1) by (simp add: list_all2_lengthD)
    ultimately have "b \<in> set (numbers blocks)" by simp
    then have "same_block h h' {} b" by (rule assms(3))
    then show ?thesis by (simp add: same_block_def)
  qed
  then show ?thesis by (intro list.rel_mono_strong [OF assms(2)]) (rule stored_cong, assumption, blast)
qed

lemma keeps_other:
  assumes "keeps h a specs" "\<And>b. b \<in> set (numbers (mBlocks a)) \<Longrightarrow> same_block h h' {} b"
  shows "keeps h' a specs"
proof -
  obtain log where l: "holds h a log" "list_all2 (stored h) specs log" using assms(1) by (auto simp: keeps_def)
  obtain parts where p: "log = concat parts" "list_all2 (\<lambda>block es. \<exists>e. open_block h block es e) (mBlocks a) parts"
    using l(1) by (rule holds_parts)
  have "holds h' a log" by (rule holds_other [OF l(1) assms(2)])
  moreover have "list_all2 (stored h') specs log"
    using stored_other [OF p(2) _ assms(2)] l(2) p(1) by blast
  ultimately show ?thesis by (auto simp: keeps_def)
qed

lemma keeps_empty: "keeps h a specs \<Longrightarrow> Allocator_IsEmpty a \<longleftrightarrow> specs = []"
  using holds_empty by (auto simp: keeps_def)

lemma keeps_numbers: "keeps h a specs \<Longrightarrow> heap_ok h \<Longrightarrow> b \<in> set (numbers (mBlocks a)) \<Longrightarrow> b < calls h"
  using holds_numbers by (auto simp: keeps_def simp del: set_map)

lemma keeps_fields:
  "mBlocks a' = mBlocks a \<Longrightarrow> mCurrentPtr a' = mCurrentPtr a \<Longrightarrow> mEndPtr a' = mEndPtr a \<Longrightarrow> keeps h a' = keeps h a"
  using holds_fields [of a' a h] by (simp add: keeps_def fun_eq_iff)

lemma keeps_Nil: "keeps h a [] \<longleftrightarrow> mBlocks a = [] \<and> mCurrentPtr a = Own 0 \<and> mEndPtr a = Own 4"
  by (auto simp: keeps_def holds_def filled_def)

lemma keeps_blocks_Nil: "keeps h a specs \<Longrightarrow> specs = [] \<longleftrightarrow> mBlocks a = []"
  by (auto simp: keeps_def holds_def filled_def)

text \<open>Moving and destroying.\<close>

lemma Reset_empty: "mBlocks a = [] \<Longrightarrow> \<exists>a'. Allocator_Reset a h = ok (a', h) \<and> keeps h a' []"
  by (simp add: Allocator_Reset_def free_command_blocks_def keeps_Nil ResetPointers_def)

lemma move_keeps:
  assumes "keeps h a specs"
  shows "\<exists>a' rest. CommandAllocator_move a h = ok (a', rest, h) \<and> mBlocks a' = mBlocks a \<and> keeps h a' specs \<and>
           keeps h rest [] \<and> mBlocks rest = []"
proof -
  define a' where "a' = (if \<not> Allocator_IsEmpty a
    then \<lparr>mBlocks = mBlocks a, mLastAllocationSize = mLastAllocationSize a, mDummyEnum = 0, mCurrentPtr = mCurrentPtr a, mEndPtr = mEndPtr a\<rparr>
    else ResetPointers \<lparr>mBlocks = mBlocks a, mLastAllocationSize = mLastAllocationSize a, mDummyEnum = 0, mCurrentPtr = Nullptr, mEndPtr = Nullptr\<rparr>)"
  obtain rest where rest: "Allocator_Reset (a\<lparr>mBlocks := []\<rparr>) h = ok (rest, h)" "keeps h rest []"
    using Reset_empty [of "a\<lparr>mBlocks := []\<rparr>"] by auto
  then have "CommandAllocator_move a h = ok (a', rest, h)"
    by (auto simp: CommandAllocator_move_def a'_def Allocator_IsEmpty_def Let_def)
  moreover have "mBlocks a' = mBlocks a" by (simp add: a'_def ResetPointers_def)
  moreover have "keeps h a' specs"
  proof (cases "Allocator_IsEmpty a")
    case True
    then have "specs = []" using keeps_empty [OF assms] by simp
    then show ?thesis using assms True by (simp add: keeps_Nil a'_def ResetPointers_def)
  next
    case False
    then have "keeps h a' = keeps h a" by (intro keeps_fields) (simp_all add: a'_def)
    then show ?thesis using assms by simp
  qed
  ultimately show ?thesis using rest(2) by (auto simp: keeps_Nil)
qed

section \<open>Allocators that share the memory\<close>

abbreviation blocks_of :: "command_allocator list \<Rightarrow> nat list" where
  "blocks_of as \<equiv> concat (map (\<lambda>a. numbers (mBlocks a)) as)"

definition arena :: "heap \<Rightarrow> command_allocator list \<Rightarrow> command_spec list list \<Rightarrow> bool" where
  "arena h as specs \<longleftrightarrow> plenty h \<and> list_all2 (keeps h) as specs \<and> distinct (blocks_of as)"

lemma distinct_drop: "distinct (xs @ ys @ zs) \<Longrightarrow> distinct (xs @ zs)"
  by auto

lemma distinct_swap: "distinct (xs @ ys @ ws @ zs) \<Longrightarrow> distinct (xs @ ws @ ys @ zs)"
  by auto

lemmas blocks_of_simps = map_append concat_append list.map concat.simps

lemma arena_drop:
  assumes "arena h (as @ a # bs) (xs @ x # ys)" "length as = length xs"
  shows "arena h (as @ bs) (xs @ ys)"
proof -
  have "distinct (blocks_of (as @ bs))"
    using assms(1) unfolding arena_def blocks_of_simps by (blast intro: distinct_drop)
  then show ?thesis using assms by (simp add: arena_def list_all2_append del: distinct_append)
qed

text \<open>The order of the allocators does not matter.\<close>

lemma arena_rotate:
  assumes "arena h (as @ a # bs @ cs) (xs @ x # ys @ zs)" "length as = length xs" "length bs = length ys"
  shows "arena h (as @ bs @ a # cs) (xs @ ys @ x # zs)"
proof -
  have "distinct (blocks_of (as @ bs @ a # cs))"
    using assms(1) unfolding arena_def blocks_of_simps append_assoc by (blast intro: distinct_swap)
  then show ?thesis using assms by (simp add: arena_def list_all2_append del: distinct_append)
qed

lemma arena_front:
  assumes "arena h (as @ bs @ a # cs) (xs @ ys @ x # zs)" "length as = length xs" "length bs = length ys"
  shows "arena h (as @ a # bs @ cs) (xs @ x # ys @ zs)"
proof -
  have "distinct (blocks_of (as @ a # bs @ cs))"
    using assms(1) unfolding arena_def blocks_of_simps append_assoc by (blast intro: distinct_swap)
  then show ?thesis using assms by (simp add: arena_def list_all2_append del: distinct_append)
qed

lemma arena_replace:
  assumes "arena h (as @ a # bs) (xs @ x # ys)" "length as = length xs" "keeps h a' x" "mBlocks a' = mBlocks a"
  shows "arena h (as @ a' # bs) (xs @ x # ys)"
  using assms by (simp add: arena_def list_all2_append)

lemma blocks_of_member: "a \<in> set as \<Longrightarrow> c \<in> set (numbers (mBlocks a)) \<Longrightarrow> c \<in> set (blocks_of as)"
  by (induction as) (auto simp del: set_map)

lemma arena_numbers:
  "list_all2 (keeps h) as xs \<Longrightarrow> heap_ok h \<Longrightarrow> c \<in> set (blocks_of as) \<Longrightarrow> c < calls h"
  by (induction rule: list_all2_induct) (use keeps_numbers in \<open>auto simp del: set_map\<close>)

lemma arena_nth: "arena h (as @ a # bs) (xs @ x # ys) \<Longrightarrow> length as = length xs \<Longrightarrow> keeps h a x"
  by (simp add: arena_def list_all2_append)

lemma arena_empty:
  assumes "arena h (as @ bs) (xs @ ys)" "length as = length xs" "keeps h b []"
  shows "arena h (as @ b # bs) (xs @ [] # ys)"
  using assms by (simp add: arena_def list_all2_append keeps_Nil)

text \<open>Recording in one allocator keeps the others.\<close>

lemma fill_keeps:
  assumes "holds h a (log @ [(id1, size1, al, Heap b i)])" "list_all2 (stored h) specs log"
  shows "keeps (write_fields b i size1 contents h) a (specs @ [(f, id1, size1, al, contents)])"
proof -
  let ?x = "(id1, size1, al, Heap b i) :: entry"
  define h' where "h' = write_fields b i size1 contents h"
  have changed: "bytes h' c j = bytes h c j" if "(c, j) \<notin> payload ?x" for c j
    using that by (auto simp: h'_def write_fields_def payload_def)
  have "same_block h h' (\<Union> (payload ` set (log @ [?x]))) c" for c
    unfolding same_block_def
  proof (intro conjI allI impI)
    fix j assume "(c, j) \<notin> \<Union> (payload ` set (log @ [?x]))"
    then have "(c, j) \<notin> payload ?x" by simp
    then show "bytes h' c j = bytes h c j" by (rule changed)
  qed (simp add: h'_def write_fields_def)
  then have "holds h' a (log @ [?x])" by (rule holds_cong [OF assms(1)])
  moreover have "list_all2 (stored h') specs log"
  proof (rule list.rel_mono_strong [OF assms(2)])
    fix s x assume s: "x \<in> set log" "stored h s x"
    obtain parts where p: "log @ [?x] = concat parts"
      "list_all2 (\<lambda>block es. \<exists>e. open_block h block es e) (mBlocks a) parts" "distinct (numbers (mBlocks a))"
      using assms(1) by (rule holds_parts)
    have "payload x \<inter> payload ?x = {}" using parts_apart [OF p(2,3)] s(1) unfolding p(1) [symmetric] by (simp add: sorted_wrt_append)
    then show "stored h' s x" using changed by (intro stored_cong [OF s(2)]) blast
  qed
  moreover have "stored h' (f, id1, size1, al, contents) ?x" by (simp add: stored_def h'_def write_fields_def)
  ultimately show ?thesis unfolding keeps_def h'_def [symmetric] by (intro exI [of _ "log @ [?x]"]) (simp add: list_all2_appendI)
qed

lemma record_arena:
  assumes "arena h (as @ [a]) (xs @ [x])" "length as = length xs" "spec_ok (f, id1, size1, al, contents)"
  shows "\<exists>b i a' h'. Allocate id1 size1 al a h = ok (Heap b i, a', h') \<and>
           arena (write_fields b i size1 contents h') (as @ [a']) (xs @ [x @ [(f, id1, size1, al, contents)]])"
proof -
  have k: "plenty h" "list_all2 (keeps h) as xs" "keeps h a x" "distinct (blocks_of as)" "distinct (numbers (mBlocks a))"
    "set (blocks_of as) \<inter> set (numbers (mBlocks a)) = {}"
    using assms(1,2) by (simp_all add: arena_def list_all2_append)
  obtain log where log: "holds h a log" "list_all2 (stored h) x log" using k(3) by (auto simp: keeps_def)
  have s: "id1 < kEndOfBlock" "size1 < 2 ^ 64" "alignment_ok al" "\<not> 2 ^ 64 \<le> size1 + kWorstCaseAdditionalSize"
    using assms(3) by (auto simp: spec_ok_def)
  obtain p a' h' where p: "Allocate id1 size1 al a h = ok (p, a', h')" "heap_ok h'" "frame log a h a' h'"
    "holds h' a' (if p = Nullptr then log else log @ [(id1, size1, al, p)])"
    "p = Nullptr \<longrightarrow> refused h (calls h) \<or> 2 ^ 64 \<le> size1 + kWorstCaseAdditionalSize"
    using Allocate_ok [OF log(1) _ s(1-3)] k(1) by (auto simp: plenty_def)
  then have "p \<noteq> Nullptr" using k(1) s(4) by (auto simp: plenty_def)
  then have h': "holds h' a' (log @ [(id1, size1, al, p)])" using p(4) by simp
  obtain parts where parts: "log @ [(id1, size1, al, p)] = concat parts"
    "list_all2 (\<lambda>block es. \<exists>e. open_block h' block es e) (mBlocks a') parts" "distinct (numbers (mBlocks a'))"
    using h' by (rule holds_parts)
  then have "(id1, size1, al, p) \<in> set (concat parts)" by (metis in_set_conv_decomp)
  then obtain k where kk: "k < length parts" "(id1, size1, al, p) \<in> set (parts ! k)" by simp (metis in_set_conv_nth)
  obtain e where e: "open_block h' (mBlocks a' ! k) (parts ! k) e" using list_all2_nthD2 [OF parts(2) kk(1)] by blast
  then obtain b i where bi: "p = Heap b i" "b = block_of (snd (mBlocks a' ! k))"
    using chain_entry [OF _ kk(2)] by (fastforce simp: open_block_def)
  then have b: "b \<in> set (numbers (mBlocks a'))"
    using kk(1) list_all2_lengthD [OF parts(2)] by auto
  let ?h = "write_fields b i size1 contents h'"
  have sub: "set (numbers (mBlocks a')) \<subseteq> set (numbers (mBlocks a)) \<union> {calls h..<calls h'}"
    and others: "\<forall>b < calls h. b \<notin> set (numbers (mBlocks a)) \<longrightarrow> same_block h h' {} b"
    using p(3) unfolding frame_def by blast+
  have old: "c < calls h \<and> c \<notin> set (numbers (mBlocks a')) \<and> same_block h ?h {} c" if c: "c \<in> set (blocks_of as)" for c
  proof -
    have "c < calls h" using arena_numbers [OF k(2) _ c] k(1) by (simp add: plenty_def)
    moreover have "c \<notin> set (numbers (mBlocks a))" using k(6) c by blast
    ultimately have "c \<notin> set (numbers (mBlocks a'))" "same_block h h' {} c"
      using sub others by (meson UnE atLeastLessThan_iff not_le subsetD, blast)
    then show ?thesis using \<open>c < calls h\<close> b by (auto simp: same_block_def write_fields_def simp del: set_map)
  qed
  have "list_all2 (stored h') x log"
    using p(3) unfolding frame_def by (intro list.rel_mono_strong [OF log(2)]) (rule stored_cong, assumption, blast)
  then have "keeps ?h a' (x @ [(f, id1, size1, al, contents)])"
    using fill_keeps h' bi(1) by blast
  moreover have "list_all2 (keeps ?h) as xs"
  proof (rule list.rel_mono_strong [OF k(2)])
    fix a0 x0 assume a0: "a0 \<in> set as" "keeps h a0 x0"
    show "keeps ?h a0 x0"
    proof (rule keeps_other [OF a0(2)])
      fix c assume "c \<in> set (numbers (mBlocks a0))"
      then have "c \<in> set (blocks_of as)" by (rule blocks_of_member [OF a0(1)])
      then show "same_block h ?h {} c" using old by blast
    qed
  qed
  moreover have "plenty ?h" using p(2,3) k(1) by (simp add: plenty_def frame_def heap_ok_def write_fields_def)
  moreover have "distinct (blocks_of (as @ [a']))" 
    unfolding blocks_of_simps distinct_append append_Nil2 using k(4) parts(3) old by blast
  ultimately have "arena ?h (as @ [a']) (xs @ [x @ [(f, id1, size1, al, contents)]])"
    unfolding arena_def by (simp add: list_all2_appendI del: distinct_append)
  then show ?thesis using p(1) bi(1) by blast
qed

section \<open>The memory of a context\<close>

text \<open>Allocators \<open>held\<close> besides, the commands that are committed and those that are pending.\<close>

definition in_memory :: "command_allocator list \<Rightarrow> command_spec list list \<Rightarrow> encoding_context \<Rightarrow>
    command_spec list list \<Rightarrow> command_spec list \<Rightarrow> bool" where
  "in_memory held hs c cs p \<longleftrightarrow>
     arena (memory c) (held @ mAllocators c @ [mPendingCommands c]) (hs @ cs @ [p]) \<and>
     length held = length hs \<and> length (mAllocators c) = length cs"

text \<open>The fields that recording and committing leave alone.\<close>

definition other_fields where
  "other_fields c = (validation c, reported c, mTopLevelEncoder c, mCurrentEncoder c,
     (mRenderPassUsages c, mWereRenderPassUsagesAcquired c, mComputePassUsages c, mWereComputePassUsagesAcquired c),
     (mIterator c, mWasMovedToIterator c, mWereCommandsAcquired c), mDestroyed c, mError c, mDebugGroupLabels c)"

lemma other_fields_eq:
  assumes "other_fields c' = other_fields c"
  shows "validation c' = validation c" "reported c' = reported c" "mTopLevelEncoder c' = mTopLevelEncoder c"
    "mCurrentEncoder c' = mCurrentEncoder c" "mRenderPassUsages c' = mRenderPassUsages c"
    "mWereRenderPassUsagesAcquired c' = mWereRenderPassUsagesAcquired c" "mComputePassUsages c' = mComputePassUsages c"
    "mWereComputePassUsagesAcquired c' = mWereComputePassUsagesAcquired c" "mIterator c' = mIterator c"
    "mWasMovedToIterator c' = mWasMovedToIterator c" "mWereCommandsAcquired c' = mWereCommandsAcquired c"
    "mDestroyed c' = mDestroyed c" "mError c' = mError c" "mDebugGroupLabels c' = mDebugGroupLabels c"
  using assms by (simp_all add: other_fields_def)

lemma in_memory_updates [simp]:
  "in_memory held hs (c\<lparr>mCurrentEncoder := x\<rparr>) = in_memory held hs c"
  "in_memory held hs (c\<lparr>mTopLevelEncoder := x\<rparr>) = in_memory held hs c"
  "in_memory held hs (c\<lparr>mRenderPassUsages := us\<rparr>) = in_memory held hs c"
  "in_memory held hs (c\<lparr>mComputePassUsages := vs\<rparr>) = in_memory held hs c"
  by (simp_all add: in_memory_def fun_eq_iff)

lemma record_command_ok:
  assumes "in_memory held hs c cs p" "spec_ok (f, id1, size1, al, contents)"
  shows "\<exists>c'. record_command f id1 size1 al contents c = ok c' \<and> other_fields c' = other_fields c \<and>
           in_memory held hs c' cs (p @ [(f, id1, size1, al, contents)])"
proof -
  have a: "arena (memory c) ((held @ mAllocators c) @ [mPendingCommands c]) ((hs @ cs) @ [p])"
    "length (held @ mAllocators c) = length (hs @ cs)"
    using assms(1) by (simp_all add: in_memory_def)
  obtain b i a' h' where r: "Allocate id1 size1 al (mPendingCommands c) (memory c) = ok (Heap b i, a', h')"
    "arena (write_fields b i size1 contents h') ((held @ mAllocators c) @ [a'])
       ((hs @ cs) @ [p @ [(f, id1, size1, al, contents)]])"
    using record_arena [OF a assms(2)] by blast
  then show ?thesis using assms(1) by (simp add: record_command_def in_memory_def other_fields_def)
qed

text \<open>
  What an encoder relies on when it records: a command is appended to those already \<open>recorded\<close>,
  and what is \<open>fixed\<close> does not change. Then so it is for the commands of a whole call.
\<close>

locale command_recorder =
  fixes record1 :: "'s \<Rightarrow> 'c \<Rightarrow> 'c res" and good :: "'s \<Rightarrow> bool"
    and recorded :: "'c \<Rightarrow> 's list \<Rightarrow> bool" and fixed :: "'c \<Rightarrow> 'f"
  assumes appends: "recorded c p \<Longrightarrow> good s \<Longrightarrow> \<exists>c'. record1 s c = ok c' \<and> fixed c' = fixed c \<and> recorded c' (p @ [s])"
begin

lemma appends_all:
  assumes "recorded c p" "list_all good specs"
  shows "\<exists>c'. foldR record1 specs c = ok c' \<and> fixed c' = fixed c \<and> recorded c' (p @ specs)"
  using assms
proof (induction specs arbitrary: c p)
  case (Cons s specs)
  obtain c1 where c1: "record1 s c = ok c1" "fixed c1 = fixed c" "recorded c1 (p @ [s])"
    using appends [OF Cons.prems(1), of s] Cons.prems(2) by auto
  obtain c2 where "foldR record1 specs c1 = ok c2" "fixed c2 = fixed c1" "recorded c2 (p @ [s] @ specs)"
    using Cons.IH [OF c1(3)] Cons.prems(2) by auto
  then show ?case using c1 by auto
qed simp

end

interpretation pending: command_recorder "\<lambda>(f, id1, size1, al, contents). record_command f id1 size1 al contents"
    spec_ok "\<lambda>c p. in_memory held hs c cs p" other_fields for held hs cs
  by unfold_locales (auto intro: record_command_ok)

lemma record_commands_ok:
  assumes "in_memory held hs c cs p" "list_all spec_ok specs"
  shows "\<exists>c'. record_commands specs c = ok c' \<and> other_fields c' = other_fields c \<and> in_memory held hs c' cs (p @ specs)"
  using pending.appends_all [OF assms] by (simp add: record_commands_def)

lemma CommitCommands_ok:
  assumes "in_memory (held @ [a]) (hs @ [x]) c cs p"
  shows "\<exists>c' cs'. CommitCommands a c = ok c' \<and> other_fields c' = other_fields c \<and> mPendingCommands c' = mPendingCommands c \<and>
           memory c' = memory c \<and> in_memory held hs c' cs' p \<and> concat cs' = concat cs @ x"
proof -
  have l: "length held = length hs" "length (mAllocators c) = length cs" using assms by (simp_all add: in_memory_def)
  have a: "arena (memory c) (held @ a # mAllocators c @ [mPendingCommands c]) (hs @ x # cs @ [p])"
    using assms by (simp add: in_memory_def)
  have k: "keeps (memory c) a x" by (rule arena_nth [OF a l(1)])
  show ?thesis
  proof (cases "x = []")
    case True
    then have "Allocator_IsEmpty a" "mBlocks a = []" using keeps_empty [OF k] keeps_blocks_Nil [OF k] by auto
    then have "CommitCommands a c = ok (c\<lparr>memory := memory c\<rparr>)"
      using Reset_empty [of a "memory c"] by (auto simp del: encoding_context.surjective simp: CommitCommands_def)
    moreover have "in_memory held hs (c\<lparr>memory := memory c\<rparr>) cs p"
      using arena_drop [OF a l(1)] l by (simp add: in_memory_def)
    ultimately show ?thesis using True by (auto simp: other_fields_def)
  next
    case False
    then have ne: "\<not> Allocator_IsEmpty a" using keeps_empty [OF k] by simp
    obtain a' rest where m: "CommandAllocator_move a (memory c) = ok (a', rest, memory c)" "mBlocks a' = mBlocks a"
      "keeps (memory c) a' x" "mBlocks rest = []"
      using move_keeps [OF k] by blast
    let ?c = "c\<lparr>mAllocators := mAllocators c @ [a'], memory := memory c\<rparr>"
    have "CommitCommands a c = ok ?c"
      using ne m(1) Reset_empty [OF m(4), of "memory c"] by (auto simp: CommitCommands_def)
    moreover have "in_memory held hs ?c (cs @ [x]) p"
      using arena_rotate [OF arena_replace [OF a l(1) m(3,2)] l] l by (simp add: in_memory_def)
    ultimately show ?thesis by (auto simp: other_fields_def)
  qed
qed

text \<open>Moving the pending commands away, and destroying commands.\<close>

lemma move_pending:
  assumes "in_memory held hs c cs p"
  shows "\<exists>a rest. CommandAllocator_move (mPendingCommands c) (memory c) = ok (a, rest, memory c) \<and>
           in_memory (held @ [a]) (hs @ [p]) (c\<lparr>mPendingCommands := rest, memory := memory c\<rparr>) cs []"
proof -
  have l: "length held = length hs" "length (mAllocators c) = length cs" using assms by (simp_all add: in_memory_def)
  have a: "arena (memory c) ((held @ mAllocators c) @ [mPendingCommands c]) ((hs @ cs) @ [p])"
    "length (held @ mAllocators c) = length (hs @ cs)"
    using assms by (simp_all add: in_memory_def)
  obtain a' rest where m: "CommandAllocator_move (mPendingCommands c) (memory c) = ok (a', rest, memory c)"
    "mBlocks a' = mBlocks (mPendingCommands c)" "keeps (memory c) a' p" "keeps (memory c) rest []"
    using move_keeps [OF arena_nth [OF a]] by blast
  have "arena (memory c) (held @ mAllocators c @ a' # [rest]) (hs @ cs @ p # [[]])"
    using arena_replace [OF a m(3,2)] m(4) l arena_empty [of "memory c" "held @ mAllocators c @ [a']" "[]" "hs @ cs @ [p]" "[]" rest]
    by simp
  then have "in_memory (held @ [a']) (hs @ [p]) (c\<lparr>mPendingCommands := rest, memory := memory c\<rparr>) cs []"
    using arena_front [OF _ l] l by (simp add: in_memory_def)
  with m(1) show ?thesis by blast
qed

lemma commit_pending_ok:
  assumes "in_memory held hs c cs p"
  shows "\<exists>c' cs'. commit_pending c = ok c' \<and> other_fields c' = other_fields c \<and>
           in_memory held hs c' cs' [] \<and> concat cs' = concat cs @ p"
proof -
  obtain a rest where m: "CommandAllocator_move (mPendingCommands c) (memory c) = ok (a, rest, memory c)"
    "in_memory (held @ [a]) (hs @ [p]) (c\<lparr>mPendingCommands := rest, memory := memory c\<rparr>) cs []"
    using move_pending [OF assms] by blast
  from CommitCommands_ok [OF m(2)] show ?thesis using m(1) by (auto simp: commit_pending_def other_fields_def)
qed

lemma free_command_blocks_ok:
  assumes "distinct (numbers blocks)" "\<And>n p. (n, p) \<in> set blocks \<Longrightarrow> \<exists>b. p = Heap b 0 \<and> live h b \<noteq> None"
  shows "free_command_blocks blocks h = ok (h\<lparr>live := (\<lambda>b. if b \<in> set (numbers blocks) then None else live h b)\<rparr>)"
  using assms
proof (induction blocks arbitrary: h)
  case (Cons block blocks)
  obtain n p where "block = (n, p)" by (cases block)
  then obtain b where b: "block = (n, Heap b 0)" "live h b \<noteq> None" using Cons.prems(2) by fastforce
  let ?h = "h\<lparr>live := (live h)(b := None)\<rparr>"
  have "free_command_blocks blocks ?h = ok (?h\<lparr>live := (\<lambda>c. if c \<in> set (numbers blocks) then None else live ?h c)\<rparr>)"
  proof (rule Cons.IH)
    show "distinct (numbers blocks)" using Cons.prems(1) by (simp add: comp_def)
    fix m q assume mq: "(m, q) \<in> set blocks"
    then obtain c where c: "q = Heap c 0" "live h c \<noteq> None" using Cons.prems(2) by fastforce
    moreover have "c \<noteq> b" using Cons.prems(1) mq c(1) b(1) by force
    ultimately show "\<exists>b. q = Heap b 0 \<and> live ?h b \<noteq> None" by auto
  qed
  moreover have "(\<lambda>c. if c \<in> set (numbers blocks) then None else live ?h c) =
      (\<lambda>c. if c \<in> set (numbers (block # blocks)) then None else live h c)"
    using b(1) by (auto simp: fun_eq_iff)
  ultimately show ?case using b by (simp add: free_command_blocks_def)
qed (simp add: free_command_blocks_def)

lemma keeps_blocks:
  assumes "keeps h a x" "(n, p) \<in> set (mBlocks a)"
  shows "\<exists>b. p = Heap b 0 \<and> live h b \<noteq> None"
proof -
  obtain log where "holds h a log" using assms(1) by (auto simp: keeps_def)
  then obtain parts where parts: "list_all2 (\<lambda>block es. \<exists>e. open_block h block es e) (mBlocks a) parts" by (rule holds_parts)
  obtain k where "k < length (mBlocks a)" "mBlocks a ! k = (n, p)" using assms(2) by (auto simp: in_set_conv_nth)
  then show ?thesis using list_all2_nthD [OF parts, of k] by (auto simp: open_block_def)
qed

lemma Reset_arena:
  assumes "arena h (as @ a # bs) (xs @ x # ys)" "length as = length xs"
  shows "\<exists>a' h'. Allocator_Reset a h = ok (a', h') \<and> arena h' (as @ bs) (xs @ ys)"
proof -
  let ?h = "h\<lparr>live := (\<lambda>b. if b \<in> set (numbers (mBlocks a)) then None else live h b)\<rparr>"
  have d: "distinct (blocks_of as @ numbers (mBlocks a) @ blocks_of bs)"
    using assms(1) unfolding arena_def blocks_of_simps by blast
  then have "distinct (numbers (mBlocks a))" by (simp only: distinct_append)
  then have "free_command_blocks (mBlocks a) h = ok ?h"
    using keeps_blocks [OF arena_nth [OF assms]] by (intro free_command_blocks_ok) auto
  then have "\<exists>a'. Allocator_Reset a h = ok (a', ?h)" by (simp add: Allocator_Reset_def)
  moreover have "arena ?h (as @ bs) (xs @ ys)"
  proof -
    have r: "arena h (as @ bs) (xs @ ys)" by (rule arena_drop [OF assms])
    have "list_all2 (keeps ?h) (as @ bs) (xs @ ys)"
    proof (rule list.rel_mono_strong [of "keeps h"])
      show "list_all2 (keeps h) (as @ bs) (xs @ ys)" using r unfolding arena_def by blast
      fix a0 x0 assume a0: "a0 \<in> set (as @ bs)" "keeps h a0 x0"
      show "keeps ?h a0 x0"
      proof (rule keeps_other [OF a0(2)])
        fix c assume "c \<in> set (numbers (mBlocks a0))"
        then have "c \<in> set (blocks_of (as @ bs))" by (rule blocks_of_member [OF a0(1)])
        then have "c \<notin> set (numbers (mBlocks a))" using d unfolding blocks_of_simps distinct_append set_append by blast
        then show "same_block h ?h {} c" by (simp add: same_block_def)
      qed
    qed
    then show ?thesis using r by (auto simp: arena_def plenty_def heap_ok_def simp del: distinct_append concat_append map_append)
  qed
  ultimately show ?thesis by blast
qed

section \<open>The specification\<close>

text \<open>
  The calls of an application on a command encoder and its passes; every encoder object has its own
  number. A call has the outcome of its own checks and the commands that it records. When a render
  pass ends, the calls that validate its indirect draws are made; they may fail, and change
  the usages of the pass. \<open>DeletePass\<close> is the destruction of a pass encoder, \<open>DestroyEncoder\<close> that of the
  command encoder. An entry point that makes calls of its own after recording, as the conversion of
  resolved timestamps does, is the sequence of these calls.
\<close>

datatype simple_call =
    Encode nat maybe_error "command_spec list"
  | BeginCompute nat command_spec
  | EndCompute nat maybe_error command_spec compute_usage

datatype call =
    Simple simple_call
  | BeginRender nat maybe_error maybe_error command_spec
  | EndRender nat maybe_error command_spec render_tracker "simple_call list" maybe_error render_tracker
  | PushGroup nat string
  | PopGroup nat
  | DeletePass nat
  | Inject string
  | DestroyEncoder

fun run_simple :: "nat \<Rightarrow> simple_call \<Rightarrow> encoding_context \<Rightarrow> encoding_context res" where
  "run_simple self (Encode e check specs) c = bindR (TryEncode e (checked_commands check specs) c) (\<lambda>(_, c). ok c)"
| "run_simple self (BeginCompute pass begin1) c = bindR (APIBeginComputePass self pass begin1 c) (\<lambda>(_, c). ok c)"
| "run_simple self (EndCompute pass check end1 usages) c = Compute_APIEndPass pass check end1 usages c"

definition validate_draws :: "nat \<Rightarrow> simple_call list \<Rightarrow> maybe_error \<Rightarrow> render_tracker \<Rightarrow> render_tracker \<Rightarrow>
    encoding_context \<Rightarrow> (maybe_error \<times> render_tracker \<times> encoding_context) res" where
  "validate_draws self calls1 failure tracker' tracker c =
     bindR (foldR (run_simple self) calls1 c) (\<lambda>c. ok (failure, tracker', c))"

text \<open>The state of a run has the depth of the debug groups of every encoder.\<close>

fun run_encoder_call :: "nat \<Rightarrow> call \<Rightarrow> (nat \<Rightarrow> nat) \<times> encoding_context \<Rightarrow> ((nat \<Rightarrow> nat) \<times> encoding_context) res" where
  "run_encoder_call self (Simple s) (g, c) = bindR (run_simple self s c) (\<lambda>c. ok (g, c))"
| "run_encoder_call self (BeginRender pass check late_check begin1) (g, c) =
     bindR (APIBeginRenderPass self pass check late_check begin1 c) (\<lambda>(_, c). ok (g, c))"
| "run_encoder_call self (EndRender pass check end1 tracker calls1 failure tracker') (g, c) =
     bindR (Render_APIEndPass pass check end1 tracker (validate_draws self calls1 failure tracker') c) (\<lambda>c. ok (g, c))"
| "run_encoder_call self (PushGroup e label) (g, c) = bindR (APIPushDebugGroup e label (g e) c) (\<lambda>(n, c). ok (g(e := n), c))"
| "run_encoder_call self (PopGroup e) (g, c) = bindR (APIPopDebugGroup e (g e) c) (\<lambda>(n, c). ok (g(e := n), c))"
| "run_encoder_call self (DeletePass pass) (g, c) = bindR (EnsurePassExited pass c) (\<lambda>c. ok (g, c))"
| "run_encoder_call self (Inject message) (g, c) = bindR (APIInjectValidationError self message c) (\<lambda>c. ok (g, c))"
| "run_encoder_call self DestroyEncoder (g, c) = bindR (Context_Destroy c) (\<lambda>c. ok (g, c))"

text \<open>The state of the specification: the commands so far, the open pass with the commands of a render
  pass, the first error, the usages of the passes that have ended and the labels of the open debug
  groups.\<close>

record encoding_spec =
  spec_done :: "command_spec list"
  spec_pass :: "(nat \<times> command_spec list) option"
  spec_error :: maybe_error
  spec_render :: "render_usage list"
  spec_compute :: "compute_usage list"
  spec_labels :: "string list"
  spec_destroyed :: bool

definition spec_start :: encoding_spec where
  "spec_start = \<lparr>spec_done = [], spec_pass = None, spec_error = None, spec_render = [], spec_compute = [],
     spec_labels = [], spec_destroyed = False\<rparr>"

definition spec_current :: "nat \<Rightarrow> encoding_spec \<Rightarrow> nat" where
  "spec_current self st = (case spec_pass st of None \<Rightarrow> self | Some (q, _) \<Rightarrow> q)"

text \<open>The first error is kept, with the open debug groups, innermost first. An error of another kind
  than validation trips an assertion.\<close>

definition spec_fail :: "error_data \<Rightarrow> encoding_spec \<Rightarrow> encoding_spec res" where
  "spec_fail e st =
     (case e of (type1, message, groups) \<Rightarrow>
        if type1 \<noteq> Validation then undef
        else if spec_error st = None then ok (st\<lparr>spec_error := Some (type1, message, groups @ rev (spec_labels st))\<rparr>)
        else ok st)"

definition spec_wrong :: "encoding_spec \<Rightarrow> encoding_spec res" where
  "spec_wrong st =
     spec_fail (validation_failure (if spec_pass st \<noteq> None then ''Command cannot be recorded while a pass is active.''
                                    else ''Recording in an error or already ended encoder.'')) st"

definition spec_add :: "(nat \<Rightarrow> bool) \<Rightarrow> command_spec list \<Rightarrow> encoding_spec \<Rightarrow> encoding_spec" where
  "spec_add render specs st =
     (case spec_pass st of
        Some (q, ps) \<Rightarrow> if render q then st\<lparr>spec_pass := Some (q, ps @ specs)\<rparr> else st\<lparr>spec_done := spec_done st @ specs\<rparr>
      | None \<Rightarrow> st\<lparr>spec_done := spec_done st @ specs\<rparr>)"

text \<open>A call on an encoder that is not current is an error; so is a call whose check fails.\<close>

definition spec_try :: "bool \<Rightarrow> maybe_error \<Rightarrow> (encoding_spec \<Rightarrow> encoding_spec res) \<Rightarrow> encoding_spec \<Rightarrow> encoding_spec res" where
  "spec_try current check f st =
     (if \<not> current then spec_wrong st else case check of Some e \<Rightarrow> spec_fail e st | None \<Rightarrow> f st)"

fun spec_simple :: "nat \<Rightarrow> (nat \<Rightarrow> bool) \<Rightarrow> simple_call \<Rightarrow> encoding_spec \<Rightarrow> encoding_spec res" where
  "spec_simple self render (Encode e check specs) st =
     spec_try (e = spec_current self st) check (\<lambda>st. ok (spec_add render specs st)) st"
| "spec_simple self render (BeginCompute pass begin1) st =
     spec_try (self = spec_current self st) None (\<lambda>st. ok ((spec_add render [begin1] st)\<lparr>spec_pass := Some (pass, [])\<rparr>)) st"
| "spec_simple self render (EndCompute pass check end1 usages) st =
     spec_try (pass = spec_current self st) check
       (\<lambda>st. ok ((spec_add render [end1] st)\<lparr>spec_pass := None, spec_compute := spec_compute st @ [usages]\<rparr>)) st"

text \<open>The commands of a render pass come after those that validate it.\<close>

definition spec_end_render :: "nat \<Rightarrow> (nat \<Rightarrow> bool) \<Rightarrow> bool \<Rightarrow> command_spec \<Rightarrow> render_tracker \<Rightarrow> simple_call list \<Rightarrow>
    maybe_error \<Rightarrow> render_tracker \<Rightarrow> encoding_spec \<Rightarrow> encoding_spec res" where
  "spec_end_render self render valid end1 tracker calls1 failure tracker' st =
     (let ps = (case spec_pass st of None \<Rightarrow> [] | Some (q, ps) \<Rightarrow> ps) @ [end1];
          st = st\<lparr>spec_pass := None\<rparr>
      in if \<not> valid then ok (st\<lparr>spec_done := spec_done st @ ps,
                        spec_render := spec_render st @ [fst (Render_AcquireResourceUsage tracker)]\<rparr>)
         else bindR (foldR (spec_simple self render) calls1 st) (\<lambda>st.
           case failure of
              Some e \<Rightarrow> spec_fail e st
            | None \<Rightarrow> ok (st\<lparr>spec_done := spec_done st @ ps,
                         spec_render := spec_render st @ [fst (Render_AcquireResourceUsage tracker')]\<rparr>)))"

text \<open>Closing a debug group when none is open is an error if the device validates; otherwise the list of
  labels may have no last element.\<close>

abbreviation pop_check :: "bool \<Rightarrow> nat \<Rightarrow> maybe_error" where
  "pop_check valid n \<equiv>
     if valid \<and> n = 0 then Some (validation_failure ''PopDebugGroup called when no debug groups are currently pushed.'') else None"

fun spec_step :: "nat \<Rightarrow> (nat \<Rightarrow> bool) \<Rightarrow> bool \<Rightarrow> (nat \<Rightarrow> nat) \<Rightarrow> call \<Rightarrow> encoding_spec \<Rightarrow> encoding_spec res" where
  "spec_step self render valid g (Simple s) st = spec_simple self render s st"
| "spec_step self render valid g (BeginRender pass check late_check begin1) st =
     spec_try (self = spec_current self st) check
       (\<lambda>st. case late_check of
          Some e \<Rightarrow> spec_fail e (st\<lparr>spec_done := spec_done st @ [begin1]\<rparr>)
        | None \<Rightarrow> ok (st\<lparr>spec_pass := Some (pass, [begin1])\<rparr>)) st"
| "spec_step self render valid g (EndRender pass check end1 tracker calls1 failure tracker') st =
     spec_try (pass = spec_current self st) check (spec_end_render self render valid end1 tracker calls1 failure tracker') st"
| "spec_step self render valid g (PushGroup e label) st =
     spec_try (e = spec_current self st) None
       (\<lambda>st. ok ((spec_add render (push_group_commands label) st)\<lparr>spec_labels := spec_labels st @ [label]\<rparr>)) st"
| "spec_step self render valid g (PopGroup e) st =
     spec_try (e = spec_current self st) (pop_check valid (g e))
       (\<lambda>st. if spec_labels st = [] then undef
             else ok ((spec_add render [pop_group_command] st)\<lparr>spec_labels := butlast (spec_labels st)\<rparr>)) st"
| "spec_step self render valid g (DeletePass pass) st =
     (case spec_pass st of
        Some (q, ps) \<Rightarrow>
          if q = pass
          then spec_fail (validation_failure ''Command buffer recording ended before the pass was ended.'')
                 (st\<lparr>spec_done := spec_done st @ ps, spec_pass := None\<rparr>)
          else ok st
      | None \<Rightarrow> ok st)"
| "spec_step self render valid g (Inject message) st =
     spec_try (self = spec_current self st) (Some (validation_failure message)) ok st"
| "spec_step self render valid g DestroyEncoder st =
     bindR (spec_fail (validation_failure ''Destroyed encoder cannot be finished.'') st) (\<lambda>st. ok (st\<lparr>spec_destroyed := True\<rparr>))"

fun spec_depth :: "nat \<Rightarrow> bool \<Rightarrow> encoding_spec \<Rightarrow> call \<Rightarrow> (nat \<Rightarrow> nat) \<Rightarrow> nat \<Rightarrow> nat" where
  "spec_depth self valid st (PushGroup e label) g = (if e = spec_current self st then g(e := (g e + 1) mod 2 ^ 64) else g)"
| "spec_depth self valid st (PopGroup e) g =
     (if e = spec_current self st \<and> pop_check valid (g e) = None then g(e := (g e + 2 ^ 64 - 1) mod 2 ^ 64) else g)"
| "spec_depth self valid st _ g = g"

text \<open>A destroyed encoder has an error, and takes no more calls.\<close>

definition spec_call :: "nat \<Rightarrow> (nat \<Rightarrow> bool) \<Rightarrow> bool \<Rightarrow> call \<Rightarrow> (nat \<Rightarrow> nat) \<times> encoding_spec \<Rightarrow> ((nat \<Rightarrow> nat) \<times> encoding_spec) res" where
  "spec_call self render valid x = (\<lambda>(g, st).
     if spec_destroyed st then ok (g, st)
     else bindR (spec_step self render valid g x st) (\<lambda>st'. ok (spec_depth self valid st x g, st')))"

text \<open>An encoder is the command encoder, a render pass or a compute pass. The sizes of commands
  are those of types and data that the address space can hold.\<close>

fun simple_ok :: "nat \<Rightarrow> (nat \<Rightarrow> bool) \<Rightarrow> simple_call \<Rightarrow> bool" where
  "simple_ok self render (Encode e check specs) = list_all spec_ok specs"
| "simple_ok self render (BeginCompute pass begin1) = (pass \<noteq> self \<and> \<not> render pass \<and> spec_ok begin1)"
| "simple_ok self render (EndCompute pass check end1 usages) = (pass \<noteq> self \<and> \<not> render pass \<and> spec_ok end1)"

fun encoder_call_ok :: "nat \<Rightarrow> (nat \<Rightarrow> bool) \<Rightarrow> call \<Rightarrow> bool" where
  "encoder_call_ok self render (Simple s) = simple_ok self render s"
| "encoder_call_ok self render (BeginRender pass check late_check begin1) = (pass \<noteq> self \<and> render pass \<and> spec_ok begin1)"
| "encoder_call_ok self render (EndRender pass check end1 tracker calls1 failure tracker') =
     (pass \<noteq> self \<and> render pass \<and> spec_ok end1 \<and> list_all (simple_ok self render) calls1)"
| "encoder_call_ok self render (PushGroup e label) = (length label + 1 + kWorstCaseAdditionalSize < 2 ^ 64)"
| "encoder_call_ok self render _ = True"

text \<open>Calls whose checks give no errors but those of validation.\<close>

definition check_ok :: "maybe_error \<Rightarrow> bool" where
  "check_ok check = (case check of Some (t, m, g) \<Rightarrow> t = Validation | None \<Rightarrow> True)"

fun simple_checks_ok :: "simple_call \<Rightarrow> bool" where
  "simple_checks_ok (Encode e check specs) = check_ok check"
| "simple_checks_ok (BeginCompute pass begin1) = True"
| "simple_checks_ok (EndCompute pass check end1 usages) = check_ok check"

fun call_checks_ok :: "call \<Rightarrow> bool" where
  "call_checks_ok (Simple s) = simple_checks_ok s"
| "call_checks_ok (BeginRender pass check late_check begin1) = (check_ok check \<and> check_ok late_check)"
| "call_checks_ok (EndRender pass check end1 tracker calls1 failure tracker') =
     (check_ok check \<and> list_all simple_checks_ok calls1 \<and> check_ok failure)"
| "call_checks_ok _ = True"

section \<open>The simulation\<close>

text \<open>The code is undefined where the specification is, and otherwise ends in a related state.\<close>

definition sim :: "('a \<Rightarrow> 'b \<Rightarrow> bool) \<Rightarrow> 'a res \<Rightarrow> 'b res \<Rightarrow> bool" where
  "sim R r s \<longleftrightarrow> (case s of Inr y \<Rightarrow> \<exists>x. r = ok x \<and> R x y | Inl e \<Rightarrow> e = UB \<and> r = undef)"

lemma sim_simps [simp]: "sim R r (ok y) \<longleftrightarrow> (\<exists>x. r = ok x \<and> R x y)" "sim R r undef \<longleftrightarrow> r = undef"
  by (simp_all add: sim_def)

lemma sim_cases:
  assumes "sim R r s"
  obtains "r = undef" "s = undef" | x y where "r = ok x" "s = ok y" "R x y"
  using assms by (auto simp: sim_def split: sum.splits)

lemma sim_bind:
  assumes "sim R r s" "\<And>x y. R x y \<Longrightarrow> sim S (f x) (g y)"
  shows "sim S (bindR r f) (bindR s g)"
  using assms by (elim sim_cases) simp_all

lemma sim_mono: "sim R r s \<Longrightarrow> (\<And>x y. R x y \<Longrightarrow> S x y) \<Longrightarrow> sim S r s"
  by (elim sim_cases) auto

lemma sim_foldR:
  assumes "R a b" "list_all P xs" "\<And>x a b. P x \<Longrightarrow> R a b \<Longrightarrow> sim R (f x a) (g x b)"
  shows "sim R (foldR f xs a) (foldR g xs b)"
  using assms(1,2)
proof (induction xs arbitrary: a b)
  case (Cons x xs)
  show ?case unfolding foldR.simps
  proof (rule sim_bind)
    show "sim R (f x a) (g x b)" using assms(3) Cons.prems by simp
  qed (use Cons in simp)
qed simp

lemma bindR_ok_right [simp]: "bindR r ok = r"
  by (cases r) auto

abbreviation pass_commands :: "encoding_spec \<Rightarrow> command_spec list" where
  "pass_commands st \<equiv> case spec_pass st of None \<Rightarrow> [] | Some (q, ps) \<Rightarrow> ps"

definition empty_iterator :: command_iterator where
  "empty_iterator = \<lparr>iBlocks = [(4, Own 0)], iCurrentPtr = Own 0, iCurrentBlock = 0, iEndOfBlock = kEndOfBlock\<rparr>"

text \<open>The fields of the context but its commands.\<close>

definition control :: "nat \<Rightarrow> bool \<Rightarrow> encoding_context \<Rightarrow> encoding_spec \<Rightarrow> bool" where
  "control self valid c st \<longleftrightarrow>
     validation c = valid \<and> \<not> spec_destroyed st \<and>
     mTopLevelEncoder c = Some self \<and> mCurrentEncoder c = Some (spec_current self st) \<and> mError c = spec_error st \<and>
     mRenderPassUsages c = spec_render st \<and> mComputePassUsages c = spec_compute st \<and>
     \<not> mWereRenderPassUsagesAcquired c \<and> \<not> mWereComputePassUsagesAcquired c \<and> mIterator c = empty_iterator \<and>
     \<not> mWasMovedToIterator c \<and> \<not> mWereCommandsAcquired c \<and> \<not> mDestroyed c \<and> mDebugGroupLabels c = spec_labels st"

text \<open>The commands of a render pass are those pending, if the device validates.\<close>

definition pass_ok :: "(nat \<Rightarrow> bool) \<Rightarrow> bool \<Rightarrow> command_spec list \<Rightarrow> encoding_spec \<Rightarrow> bool" where
  "pass_ok render valid p st =
     (case spec_pass st of None \<Rightarrow> True | Some (q, ps) \<Rightarrow> if render q then valid \<longrightarrow> p = ps else ps = [])"

definition commands_match :: "command_allocator list \<Rightarrow> command_spec list list \<Rightarrow> (nat \<Rightarrow> bool) \<Rightarrow> encoding_context \<Rightarrow> encoding_spec \<Rightarrow> bool" where
  "commands_match held hs render c st \<longleftrightarrow>
     (\<exists>cs p. in_memory held hs c cs p \<and> concat cs @ p = spec_done st @ pass_commands st \<and> pass_ok render (validation c) p st)"

definition represents :: "command_allocator list \<Rightarrow> command_spec list list \<Rightarrow> nat \<Rightarrow> (nat \<Rightarrow> bool) \<Rightarrow> bool \<Rightarrow> encoding_context \<Rightarrow> encoding_spec \<Rightarrow> bool" where
  "represents held hs self render valid c st \<longleftrightarrow>
     control self valid c st \<and> (\<forall>q ps. spec_pass st = Some (q, ps) \<longrightarrow> q \<noteq> self) \<and> commands_match held hs render c st"

lemma pass_current: "represents held hs self render valid c st \<Longrightarrow> spec_current self st = self \<longleftrightarrow> spec_pass st = None"
  by (auto simp: represents_def spec_current_def split: option.splits)

lemma represents_valid: "represents held hs self render valid c st \<Longrightarrow> validation c = valid"
  by (simp add: represents_def control_def)

lemma commands_match_cong:
  assumes "memory c' = memory c" "mAllocators c' = mAllocators c" "mPendingCommands c' = mPendingCommands c"
    "validation c' = validation c" "spec_done st' = spec_done st" "spec_pass st' = spec_pass st"
  shows "commands_match held hs render c' st' = commands_match held hs render c st"
  using assms by (simp add: commands_match_def in_memory_def pass_ok_def)

lemma represents_cong:
  assumes "represents held hs self render valid c st" "control self valid c' st'"
    and "memory c' = memory c" "mAllocators c' = mAllocators c" "mPendingCommands c' = mPendingCommands c"
    "spec_done st' = spec_done st" "spec_pass st' = spec_pass st"
  shows "represents held hs self render valid c' st'"
proof -
  have "validation c' = validation c" using assms(1,2) by (simp add: represents_def control_def)
  then show ?thesis using assms commands_match_cong [of c' c st' st held hs render] by (simp add: represents_def)
qed

lemma HandleError_sim:
  assumes "represents held hs self render valid c st"
  shows "sim (represents held hs self render valid) (HandleError e c) (spec_fail e st)"
proof -
  obtain t m g where e: "e = (t, m, g)" by (cases e)
  have c: "control self valid c st" using assms by (simp add: represents_def)
  let ?e = "(t, m, g @ rev (spec_labels st))"
  let ?c = "if mError c = None then c\<lparr>mError := Some ?e\<rparr> else c" and ?st = "if spec_error st = None then st\<lparr>spec_error := Some ?e\<rparr> else st"
  have "control self valid ?c ?st" using c by (simp add: control_def spec_current_def)
  then have "represents held hs self render valid ?c ?st" by (rule represents_cong [OF assms]) simp_all
  moreover have "spec_fail e st = (if t = Validation then ok ?st else undef)" by (simp add: spec_fail_def e)
  ultimately show ?thesis
    using c by (auto simp: HandleError_def IsFinished_def control_def e assertR_def)
qed

lemma spec_fail_validation: "\<exists>st'. spec_fail (validation_failure m) st = ok st'"
  by (simp add: spec_fail_def validation_failure_def)

lemma try_wrong:
  assumes "represents held hs self render valid c st" "e \<noteq> spec_current self st"
  shows "\<exists>c' st'. (\<forall>f. TryEncode e f c = ok (False, c')) \<and> CheckCurrentEncoder e c = ok (False, c') \<and>
           spec_wrong st = ok st' \<and> represents held hs self render valid c' st'"
proof -
  let ?m = "validation_failure (if spec_pass st \<noteq> None then ''Command cannot be recorded while a pass is active.''
                                    else ''Recording in an error or already ended encoder.'')"
  have c: "control self valid c st" using assms(1) by (simp add: represents_def)
  have cur: "mCurrentEncoder c \<noteq> mTopLevelEncoder c \<longleftrightarrow> spec_pass st \<noteq> None"
    using c pass_current [OF assms(1)] by (simp add: control_def)
  obtain st' where st': "spec_fail ?m st = ok st'" using spec_fail_validation by blast
  then obtain c' where c': "HandleError ?m c = ok c'" "represents held hs self render valid c' st'"
    using HandleError_sim [OF assms(1), of ?m] by auto
  have "CheckCurrentEncoder e c = ok (False, c')"
    using c assms(2) c'(1) cur by (cases "spec_pass st = None") (auto simp: CheckCurrentEncoder_def control_def)
  then show ?thesis using c'(2) st' by (auto simp: TryEncode_def spec_wrong_def)
qed

lemma try_current:
  assumes "represents held hs self render valid c st"
  shows "CheckCurrentEncoder (spec_current self st) c = ok (True, c)"
    and "TryEncode (spec_current self st) f c =
           bindR (f c) (\<lambda>(e, c). bindR (Context_ConsumedError e c) (\<lambda>(consumed, c). ok (\<not> consumed, c)))"
  using assms by (simp_all add: TryEncode_def CheckCurrentEncoder_def represents_def control_def)

text \<open>An entry point that records with \<open>F\<close> and, if that succeeds, goes on with \<open>K\<close>.\<close>

lemma try_sim:
  assumes "represents held hs self render valid c st"
    and "\<And>er. check = Some er \<Longrightarrow> F c = ok (check, c)"
    and "e = spec_current self st \<Longrightarrow> check = None \<Longrightarrow>
      sim (represents held hs self render valid) (bindR (F c) (\<lambda>(er, c). case er of Some er \<Rightarrow> HandleError er c | None \<Rightarrow> K c)) (f st)"
  shows "sim (represents held hs self render valid) (bindR (TryEncode e F c) (\<lambda>(success, c). if success then K c else ok c))
    (spec_try (e = spec_current self st) check f st)"
proof (cases "e = spec_current self st")
  case False
  then show ?thesis using try_wrong [OF assms(1) False] by (auto simp: spec_try_def)
next
  case True
  have "bindR (TryEncode e F c) (\<lambda>(success, c). if success then K c else ok c) =
      bindR (F c) (\<lambda>(er, c). case er of Some er \<Rightarrow> HandleError er c | None \<Rightarrow> K c)"
    unfolding True try_current(2) [OF assms(1)] Context_ConsumedError_def
    by (cases "F c") (auto split: option.splits simp: bindR_assoc)
  then show ?thesis
    using True assms(2,3) HandleError_sim [OF assms(1)] by (cases check) (simp_all add: spec_try_def)
qed

lemma record_represents:
  assumes "represents held hs self render valid c st" "list_all spec_ok specs"
  shows "\<exists>c'. record_commands specs c = ok c' \<and> represents held hs self render valid c' (spec_add render specs st)"
proof -
  obtain cs p where m: "in_memory held hs c cs p" "concat cs @ p = spec_done st @ pass_commands st"
    "pass_ok render (validation c) p st"
    using assms(1) by (auto simp: represents_def commands_match_def)
  obtain c' where c': "record_commands specs c = ok c'" "other_fields c' = other_fields c" "in_memory held hs c' cs (p @ specs)"
    using record_commands_ok [OF m(1) assms(2)] by blast
  note o = other_fields_eq [OF c'(2)]
  have "control self valid c' (spec_add render specs st)"
    using assms(1) o by (auto simp: represents_def control_def spec_add_def spec_current_def split: option.splits)
  moreover have "commands_match held hs render c' (spec_add render specs st)"
    unfolding commands_match_def using m(2,3) o(1) c'(3)
    by (intro exI [of _ cs] exI [of _ "p @ specs"]) (auto simp: spec_add_def pass_ok_def split: option.splits if_splits)
  ultimately show ?thesis
    using c'(1) assms(1) by (auto simp: represents_def spec_add_def split: option.splits if_splits)
qed

lemma checked_commands_Some: "check = Some er \<Longrightarrow> checked_commands check specs c = ok (check, c)"
  by (simp add: checked_commands_def)

lemma enter_compute:
  assumes "represents held hs self render valid c st" "spec_pass st = None" "pass \<noteq> self" "\<not> render pass"
  shows "\<exists>c'. EnterPass pass c = ok c' \<and> represents held hs self render valid c' (st\<lparr>spec_pass := Some (pass, [])\<rparr>)"
  using assms by (auto simp: EnterPass_def represents_def control_def commands_match_def pass_ok_def spec_current_def)

lemma exit_compute:
  assumes "represents held hs self render valid c st" "spec_pass st = Some (pass, ps)" "\<not> render pass"
  shows "\<exists>c'. ExitComputePass pass usages c = ok c' \<and>
           represents held hs self render valid c' (st\<lparr>spec_pass := None, spec_compute := spec_compute st @ [usages]\<rparr>)"
proof -
  let ?c = "c\<lparr>mCurrentEncoder := mTopLevelEncoder c, mComputePassUsages := mComputePassUsages c @ [usages]\<rparr>"
  have ctl: "control self valid c st" "pass \<noteq> self" using assms(1,2) by (simp_all add: represents_def)
  obtain cs p where m: "in_memory held hs c cs p" "concat cs @ p = spec_done st"
    using assms by (auto simp: represents_def commands_match_def pass_ok_def)
  have "represents held hs self render valid ?c (st\<lparr>spec_pass := None, spec_compute := spec_compute st @ [usages]\<rparr>)"
    unfolding represents_def commands_match_def
  proof (intro conjI exI)
    show "in_memory held hs ?c cs p" using m(1) by simp
  qed (use ctl m(2) in \<open>simp_all add: control_def spec_current_def pass_ok_def\<close>)
  moreover have "ExitComputePass pass usages c = ok ?c"
    using ctl assms(2) by (simp add: ExitComputePass_def control_def spec_current_def)
  ultimately show ?thesis by blast
qed

lemma run_simple_sim:
  assumes "represents held hs self render valid c st" "simple_ok self render s"
  shows "sim (represents held hs self render valid) (run_simple self s c) (spec_simple self render s st)"
proof (cases s)
  case (Encode e check specs)
  have "run_simple self s c = bindR (TryEncode e (checked_commands check specs) c) (\<lambda>(success, c). if success then ok c else ok c)"
    by (simp add: Encode)
  also have "sim (represents held hs self render valid) \<dots> (spec_simple self render s st)"
    unfolding Encode spec_simple.simps
  proof (rule try_sim [OF assms(1)])
    assume "check = None"
    then show "sim (represents held hs self render valid) (bindR (checked_commands check specs c)
        (\<lambda>(er, c). case er of Some er \<Rightarrow> HandleError er c | None \<Rightarrow> ok c)) (ok (spec_add render specs st))"
      using record_represents [OF assms(1), of specs] assms(2) Encode by (auto simp: checked_commands_def)
  qed (rule checked_commands_Some)
  finally show ?thesis .
next
  case (BeginCompute pass begin1)
  have ok1: "pass \<noteq> self" "\<not> render pass" "list_all spec_ok [begin1]" using assms(2) BeginCompute by auto
  have "run_simple self s c = bindR (TryEncode self (checked_commands None [begin1]) c) (\<lambda>(success, c). if success then EnterPass pass c else ok c)"
    by (auto simp: BeginCompute APIBeginComputePass_def bindR_assoc bindR_ok_right intro!: arg_cong2 [of _ _ _ _ bindR])
  also have "sim (represents held hs self render valid) \<dots> (spec_simple self render s st)"
    unfolding BeginCompute spec_simple.simps
  proof (rule try_sim [OF assms(1)])
    assume "self = spec_current self st"
    then have none: "spec_pass st = None" using pass_current [OF assms(1)] by simp
    obtain c1 where c1: "record_commands [begin1] c = ok c1" "represents held hs self render valid c1 (spec_add render [begin1] st)"
      using record_represents [OF assms(1) ok1(3)] by blast
    moreover have "spec_pass (spec_add render [begin1] st) = None" using none by (simp add: spec_add_def)
    ultimately show "sim (represents held hs self render valid) (bindR (checked_commands None [begin1] c)
        (\<lambda>(er, c). case er of Some er \<Rightarrow> HandleError er c | None \<Rightarrow> EnterPass pass c))
        (ok ((spec_add render [begin1] st)\<lparr>spec_pass := Some (pass, [])\<rparr>))"
      using enter_compute [OF c1(2) _ ok1(1,2)] by (simp add: checked_commands_def)
  qed simp
  finally show ?thesis .
next
  case (EndCompute pass check end1 usages)
  have ok1: "pass \<noteq> self" "\<not> render pass" "list_all spec_ok [end1]" using assms(2) EndCompute by auto
  have "run_simple self s c = bindR (TryEncode pass (checked_commands check [end1]) c)
      (\<lambda>(success, c). if success then ExitComputePass pass usages c else ok c)"
    by (simp add: EndCompute Compute_APIEndPass_def)
  also have "sim (represents held hs self render valid) \<dots> (spec_simple self render s st)"
    unfolding EndCompute spec_simple.simps
  proof (rule try_sim [OF assms(1)])
    assume cur: "pass = spec_current self st" and none: "check = None"
    obtain ps where "spec_pass st = Some (pass, ps)" using cur ok1(1) by (auto simp: spec_current_def split: option.splits)
    then have ps: "spec_pass (spec_add render [end1] st) = Some (pass, ps)" "spec_compute (spec_add render [end1] st) = spec_compute st"
      using ok1(2) by (simp_all add: spec_add_def)
    obtain c1 where c1: "record_commands [end1] c = ok c1" "represents held hs self render valid c1 (spec_add render [end1] st)"
      using record_represents [OF assms(1) ok1(3)] by blast
    then show "sim (represents held hs self render valid) (bindR (checked_commands check [end1] c)
        (\<lambda>(er, c). case er of Some er \<Rightarrow> HandleError er c | None \<Rightarrow> ExitComputePass pass usages c))
        (ok ((spec_add render [end1] st)\<lparr>spec_pass := None, spec_compute := spec_compute st @ [usages]\<rparr>))"
      using exit_compute [OF c1(2) ps(1) ok1(2), of usages] ps(2) none by (simp add: checked_commands_def)
  qed (rule checked_commands_Some)
  finally show ?thesis .
qed

lemma run_simples_sim:
  assumes "represents held hs self render valid c st" "list_all (simple_ok self render) ss"
  shows "sim (represents held hs self render valid) (foldR (run_simple self) ss c) (foldR (spec_simple self render) ss st)"
  by (rule sim_foldR [where R = "represents held hs self render valid", OF assms]) (rule run_simple_sim)

text \<open>The beginning of a render pass.\<close>

lemma begin_render_sim:
  assumes "represents held hs self render valid c st" "pass \<noteq> self" "render pass" "spec_ok begin1"
  shows "sim (represents held hs self render valid) (bindR (APIBeginRenderPass self pass check late_check begin1 c) (\<lambda>(_, c). ok c))
    (spec_step self render valid g (BeginRender pass check late_check begin1) st)"
proof -
  let ?f = "begin_render_commands check late_check begin1"
  have "bindR (APIBeginRenderPass self pass check late_check begin1 c) (\<lambda>(_, c). ok c) =
      bindR (TryEncode self ?f c) (\<lambda>(success, c). if success then EnterPass pass c else ok c)"
    by (auto simp: APIBeginRenderPass_def bindR_assoc bindR_ok_right intro!: arg_cong2 [of _ _ _ _ bindR])
  also have "sim (represents held hs self render valid) \<dots> (spec_step self render valid g (BeginRender pass check late_check begin1) st)"
    unfolding spec_step.simps
  proof (rule try_sim [OF assms(1)])
    show "?f c = ok (check, c)" if "check = Some er" for er using that by (simp add: begin_render_commands_def)
    assume cur: "self = spec_current self st" and none: "check = None"
    have pass: "spec_pass st = None" using cur pass_current [OF assms(1)] by simp
    have ctl: "control self valid c st" using assms(1) by (simp add: represents_def)
    obtain cs p where m: "in_memory held hs c cs p" "concat cs @ p = spec_done st"
      using assms(1) pass by (auto simp: represents_def commands_match_def)
    have "\<exists>c1 cs1 p1. WillBeginRenderPass c = ok c1 \<and> other_fields c1 = other_fields c \<and> in_memory held hs c1 cs1 p1 \<and>
        concat cs1 @ p1 = spec_done st \<and> (validation c \<longrightarrow> p1 = [])"
      using m commit_pending_ok [OF m(1)] ctl pass
      by (cases "validation c") (fastforce simp: WillBeginRenderPass_def control_def spec_current_def)+
    then obtain c1 cs1 p1 where c1: "WillBeginRenderPass c = ok c1" "other_fields c1 = other_fields c" "in_memory held hs c1 cs1 p1"
      "concat cs1 @ p1 = spec_done st" "validation c \<longrightarrow> p1 = []"
      by blast
    obtain c2 where c2: "record_commands [begin1] c1 = ok c2" "other_fields c2 = other_fields c1" "in_memory held hs c2 cs1 (p1 @ [begin1])"
      using record_commands_ok [OF c1(3), of "[begin1]"] assms(4) by auto
    then have f: "?f c = ok (late_check, c2)" using c1(1) none by (simp add: begin_render_commands_def)
    have o: "other_fields c2 = other_fields c" using c1(2) c2(2) by simp
    note o2 = other_fields_eq [OF o]
    have "represents held hs self render valid c2 (st\<lparr>spec_done := spec_done st @ [begin1]\<rparr>)"
      unfolding represents_def commands_match_def
      using ctl pass o2 c1(4) c2(3) by (auto simp: control_def spec_current_def pass_ok_def intro!: exI [of _ cs1] exI [of _ "p1 @ [begin1]"])
    moreover have "represents held hs self render valid (c2\<lparr>mCurrentEncoder := Some pass\<rparr>) (st\<lparr>spec_pass := Some (pass, [begin1])\<rparr>)"
      unfolding represents_def commands_match_def
      using ctl o2 c1(4,5) c2(3) assms(2,3)
      by (auto simp: control_def spec_current_def pass_ok_def intro!: exI [of _ cs1] exI [of _ "p1 @ [begin1]"])
    moreover have "EnterPass pass c2 = ok (c2\<lparr>mCurrentEncoder := Some pass\<rparr>)"
      using ctl pass o2 by (simp add: EnterPass_def control_def spec_current_def)
    ultimately show "sim (represents held hs self render valid) (bindR (?f c) (\<lambda>(er, c). case er of Some er \<Rightarrow> HandleError er c | None \<Rightarrow> EnterPass pass c))
        (case late_check of Some e \<Rightarrow> spec_fail e (st\<lparr>spec_done := spec_done st @ [begin1]\<rparr>) | None \<Rightarrow> ok (st\<lparr>spec_pass := Some (pass, [begin1])\<rparr>))"
      using HandleError_sim f by (cases late_check) auto
  qed
  finally show ?thesis .
qed

lemma spec_fail_result: "spec_fail e st = undef \<or> (\<exists>st'. spec_fail e st = ok st')"
  by (cases e) (simp add: spec_fail_def)

lemma spec_try_result:
  "\<forall>st. f st = undef \<or> (\<exists>st'. f st = ok st') \<Longrightarrow> spec_try current check f st = undef \<or> (\<exists>st'. spec_try current check f st = ok st')"
  using spec_fail_result by (simp add: spec_try_def spec_wrong_def split: option.split)

lemma spec_simples_result:
  "foldR (spec_simple self render) ss st = undef \<or> (\<exists>st'. foldR (spec_simple self render) ss st = ok st')"
proof (induction ss arbitrary: st)
  case (Cons s ss)
  have "spec_simple self render s st = undef \<or> (\<exists>st'. spec_simple self render s st = ok st')"
    by (cases s) (simp_all add: spec_try_result del: not_None_eq)
  then show ?case
  proof
    assume "\<exists>st'. spec_simple self render s st = ok st'"
    then show ?case using Cons.IH by fastforce
  qed simp
qed simp

text \<open>The end of a render pass. The calls that validate it open no render pass.\<close>

definition no_render :: "(nat \<Rightarrow> bool) \<Rightarrow> encoding_spec \<Rightarrow> bool" where
  "no_render render st = (case spec_pass st of None \<Rightarrow> True | Some (q, _) \<Rightarrow> \<not> render q)"

lemma no_render_fail: "spec_fail e st = ok st' \<Longrightarrow> no_render render st' = no_render render st"
  by (auto simp: no_render_def spec_fail_def split: if_splits prod.splits)

lemma no_render_simps [simp]:
  "no_render render (spec_add render specs st) = no_render render st" "no_render render (st\<lparr>spec_pass := None\<rparr>)"
  "no_render render (st\<lparr>spec_compute := us\<rparr>) = no_render render st"
  "no_render render (st\<lparr>spec_pass := Some (q, ps)\<rparr>) = (\<not> render q)"
  by (auto simp: no_render_def spec_add_def split: option.splits)

lemma spec_simple_no_render:
  assumes "no_render render st" "simple_ok self render s" "spec_simple self render s st = ok st'"
  shows "no_render render st'"
  using assms by (cases s) (auto simp: spec_try_def spec_wrong_def no_render_fail split: option.splits if_splits)

lemma spec_simples_no_render:
  "no_render render st \<Longrightarrow> list_all (simple_ok self render) ss \<Longrightarrow> foldR (spec_simple self render) ss st = ok st' \<Longrightarrow> no_render render st'"
  by (induction ss arbitrary: st) (auto simp: bindR_Inr_iff intro: spec_simple_no_render)

lemma represents_held:
  assumes "represents held hs self render valid c st" "no_render render st"
    and "in_memory held' hs' c' cs p" "concat cs @ p = spec_done st' @ pass_commands st'" "control self valid c' st'"
    and "spec_pass st' = spec_pass st"
  shows "represents held' hs' self render valid c' st'"
proof -
  have "pass_ok render (validation c') p st'"
    using assms(1,2,6) by (auto simp: represents_def commands_match_def no_render_def pass_ok_def split: option.splits)
  then have "commands_match held' hs' render c' st'" unfolding commands_match_def using assms(3,4) by blast
  then show ?thesis using assms(1,5,6) by (simp add: represents_def)
qed

lemma exit_render:
  assumes "control self valid c st" "in_memory held hs c cs ps" "spec_pass st = Some (pass, ps)" "concat cs = spec_done st"
    and "validation c" "pass \<noteq> self" "list_all (simple_ok self render) ss"
    and st2: "foldR (spec_simple self render) ss (st\<lparr>spec_pass := None\<rparr>) = ok st2"
  shows "\<exists>c'. ExitRenderPass pass tracker (validate_draws self ss failure tracker') c = ok (failure, c') \<and>
           represents held hs self render valid c'
             (if failure = None then st2\<lparr>spec_done := spec_done st2 @ ps,
                spec_render := spec_render st2 @ [fst (Render_AcquireResourceUsage tracker')]\<rparr> else st2)"
proof -
  let ?c = "c\<lparr>mCurrentEncoder := mTopLevelEncoder c\<rparr>"
  obtain a rest where m: "CommandAllocator_move (mPendingCommands ?c) (memory ?c) = ok (a, rest, memory ?c)"
    "in_memory (held @ [a]) (hs @ [ps]) (?c\<lparr>mPendingCommands := rest, memory := memory ?c\<rparr>) cs []"
    using move_pending [of held hs ?c cs ps] assms(2) by auto
  let ?c1 = "?c\<lparr>mPendingCommands := rest, memory := memory ?c\<rparr>"
  have "represents (held @ [a]) (hs @ [ps]) self render valid ?c1 (st\<lparr>spec_pass := None\<rparr>)"
    unfolding represents_def commands_match_def
  proof (intro conjI exI)
    show "in_memory (held @ [a]) (hs @ [ps]) ?c1 cs []" by (rule m(2))
  qed (use assms(1,4) in \<open>simp_all add: control_def spec_current_def pass_ok_def\<close>)
  from run_simples_sim [OF this assms(7)] obtain c2 where c2: "foldR (run_simple self) ss ?c1 = ok c2"
    "represents (held @ [a]) (hs @ [ps]) self render valid c2 st2" "validation c2"
    using assms(1,5) represents_valid by (auto simp: st2 control_def)
  have nr: "no_render render st2"
    by (rule spec_simples_no_render [OF _ assms(7) st2]) (simp add: no_render_def)
  obtain cs2 p2 where m2: "in_memory (held @ [a]) (hs @ [ps]) c2 cs2 p2" "concat cs2 @ p2 = spec_done st2 @ pass_commands st2"
    "pass_ok render True p2 st2"
    using c2(2,3) by (auto simp: represents_def commands_match_def)
  then have done2: "concat cs2 @ p2 = spec_done st2" "pass_commands st2 = []"
    using nr by (auto simp: no_render_def pass_ok_def split: option.splits)
  have ctl2: "control self valid c2 st2" using c2(2) by (simp add: represents_def)
  have cur: "mCurrentEncoder c \<noteq> mTopLevelEncoder c" "mCurrentEncoder c = Some pass"
    using assms(1,3,6) by (simp_all add: control_def spec_current_def)
  show ?thesis
  proof (cases failure)
    case (Some e)
    have l: "length held = length hs" "length (mAllocators c2) = length cs2" using m2(1) by (simp_all add: in_memory_def)
    have "arena (memory c2) (held @ a # mAllocators c2 @ [mPendingCommands c2]) (hs @ ps # cs2 @ [p2])"
      using m2(1) by (simp add: in_memory_def)
    then obtain a' h where r: "Allocator_Reset a (memory c2) = ok (a', h)"
      "arena h (held @ mAllocators c2 @ [mPendingCommands c2]) (hs @ cs2 @ [p2])"
      using Reset_arena l(1) by blast
    then have "in_memory held hs (c2\<lparr>memory := h\<rparr>) cs2 p2" using l by (simp add: in_memory_def)
    then have "represents held hs self render valid (c2\<lparr>memory := h\<rparr>) st2"
      using ctl2 done2 m2(2) by (intro represents_held [OF c2(2) nr]) (auto simp: control_def)
    moreover have "ExitRenderPass pass tracker (validate_draws self ss failure tracker') c = ok (failure, c2\<lparr>memory := h\<rparr>)"
      using cur m(1) c2(1) r(1) Some assms(5) by (simp add: ExitRenderPass_def validate_draws_def)
    ultimately show ?thesis using Some by auto
  next
    case None
    obtain c3 cs3 where c3: "commit_pending c2 = ok c3" "other_fields c3 = other_fields c2"
      "in_memory (held @ [a]) (hs @ [ps]) c3 cs3 []" "concat cs3 = concat cs2 @ p2"
      using commit_pending_ok [OF m2(1)] by blast
    have l: "length held = length hs" using m2(1) by (simp add: in_memory_def)
    have a3: "arena (memory c3) (held @ a # mAllocators c3 @ [mPendingCommands c3]) (hs @ ps # cs3 @ [[]])"
      using c3(3) by (simp add: in_memory_def)
    obtain b rest2 where b: "CommandAllocator_move a (memory c3) = ok (b, rest2, memory c3)" "mBlocks b = mBlocks a"
      "keeps (memory c3) b ps" "mBlocks rest2 = []"
      using move_keeps [OF arena_nth [OF a3 l]] by blast
    have "in_memory (held @ [b]) (hs @ [ps]) (c3\<lparr>memory := memory c3\<rparr>) cs3 []"
      using arena_replace [OF a3 l b(3,2)] c3(3) by (simp add: in_memory_def)
    then obtain c4 cs4 where c4: "CommitCommands b (c3\<lparr>memory := memory c3\<rparr>) = ok c4"
      "other_fields c4 = other_fields (c3\<lparr>memory := memory c3\<rparr>)" "in_memory held hs c4 cs4 []" "concat cs4 = concat cs3 @ ps"
      using CommitCommands_ok by blast
    have o: "other_fields c4 = other_fields c2" using c3(2) c4(2) by (simp add: other_fields_def)
    note o4 = other_fields_eq [OF o]
    obtain a5 where "Allocator_Reset rest2 (memory c4) = ok (a5, memory c4)" using Reset_empty [OF b(4)] by blast
    moreover define c5 where "c5 = c4\<lparr>memory := memory c4,
        mRenderPassUsages := mRenderPassUsages c4 @ [fst (Render_AcquireResourceUsage tracker')]\<rparr>"
    ultimately have "ExitRenderPass pass tracker (validate_draws self ss failure tracker') c = ok (None, c5)"
      using cur m(1) c2(1) c3(1) b(1) c4(1) None assms(5) by (simp add: ExitRenderPass_def validate_draws_def)
    moreover have "in_memory held hs c5 cs4 []" using c4(3) by (simp add: c5_def in_memory_def)
    then have "represents held hs self render valid c5 (st2\<lparr>spec_done := spec_done st2 @ ps,
        spec_render := spec_render st2 @ [fst (Render_AcquireResourceUsage tracker')]\<rparr>)"
      using ctl2 done2 c3(4) c4(4) o4
      by (intro represents_held [OF c2(2) nr]) (auto simp: control_def spec_current_def c5_def)
    ultimately show ?thesis using None by auto
  qed
qed

lemma exit_render_unchecked:
  assumes "represents held hs self render valid c st" "spec_pass st = Some (pass, ps)" "\<not> validation c" "pass \<noteq> self"
  shows "\<exists>c'. ExitRenderPass pass tracker enc c = ok (None, c') \<and>
           represents held hs self render valid c' (st\<lparr>spec_pass := None, spec_done := spec_done st @ ps,
             spec_render := spec_render st @ [fst (Render_AcquireResourceUsage tracker)]\<rparr>)"
proof -
  let ?c = "c\<lparr>mCurrentEncoder := mTopLevelEncoder c,
    mRenderPassUsages := mRenderPassUsages c @ [fst (Render_AcquireResourceUsage tracker)]\<rparr>"
  have ctl: "control self valid c st" using assms(1) by (simp add: represents_def)
  obtain cs p where m: "in_memory held hs c cs p" "concat cs @ p = spec_done st @ ps"
    using assms(1,2) by (auto simp: represents_def commands_match_def)
  have "ExitRenderPass pass tracker enc c = ok (None, ?c)"
    using ctl assms(2-4) by (simp add: ExitRenderPass_def control_def spec_current_def)
  moreover have "represents held hs self render valid ?c (st\<lparr>spec_pass := None, spec_done := spec_done st @ ps,
      spec_render := spec_render st @ [fst (Render_AcquireResourceUsage tracker)]\<rparr>)"
    unfolding represents_def commands_match_def
  proof (intro conjI exI)
    show "in_memory held hs ?c cs p" using m(1) by simp
  qed (use ctl m(2) in \<open>simp_all add: control_def spec_current_def pass_ok_def\<close>)
  ultimately show ?thesis by auto
qed

lemma exit_render_undef:
  assumes "control self valid c st" "in_memory held hs c cs ps" "spec_pass st = Some (pass, ps)" "concat cs = spec_done st"
    and "validation c" "pass \<noteq> self" "list_all (simple_ok self render) ss"
    and "foldR (spec_simple self render) ss (st\<lparr>spec_pass := None\<rparr>) = undef"
  shows "ExitRenderPass pass tracker (validate_draws self ss failure tracker') c = undef"
proof -
  let ?c = "c\<lparr>mCurrentEncoder := mTopLevelEncoder c\<rparr>"
  obtain a rest where m: "CommandAllocator_move (mPendingCommands ?c) (memory ?c) = ok (a, rest, memory ?c)"
    "in_memory (held @ [a]) (hs @ [ps]) (?c\<lparr>mPendingCommands := rest, memory := memory ?c\<rparr>) cs []"
    using move_pending [of held hs ?c cs ps] assms(2) by auto
  let ?c1 = "?c\<lparr>mPendingCommands := rest, memory := memory ?c\<rparr>"
  have "represents (held @ [a]) (hs @ [ps]) self render valid ?c1 (st\<lparr>spec_pass := None\<rparr>)"
    unfolding represents_def commands_match_def
  proof (intro conjI exI)
    show "in_memory (held @ [a]) (hs @ [ps]) ?c1 cs []" by (rule m(2))
  qed (use assms(1,4) in \<open>simp_all add: control_def spec_current_def pass_ok_def\<close>)
  from run_simples_sim [OF this assms(7)] have "foldR (run_simple self) ss ?c1 = undef" using assms(8) by simp
  then show ?thesis using assms(1,3,5,6) m(1) by (simp add: ExitRenderPass_def validate_draws_def control_def spec_current_def)
qed

lemma end_render_sim:
  assumes "represents held hs self render valid c st" "pass \<noteq> self" "render pass" "spec_ok end1" "list_all (simple_ok self render) ss"
  shows "sim (represents held hs self render valid) (Render_APIEndPass pass check end1 tracker (validate_draws self ss failure tracker') c)
    (spec_step self render valid g (EndRender pass check end1 tracker ss failure tracker') st)"
proof -
  let ?enc = "validate_draws self ss failure tracker'"
  let ?f = "end_render_commands pass check end1 tracker ?enc"
  have "Render_APIEndPass pass check end1 tracker ?enc c = bindR (TryEncode pass ?f c) (\<lambda>(success, c). if success then ok c else ok c)"
    by (simp add: Render_APIEndPass_def)
  also have "sim (represents held hs self render valid) \<dots> (spec_step self render valid g (EndRender pass check end1 tracker ss failure tracker') st)"
    unfolding spec_step.simps
  proof (rule try_sim [OF assms(1)])
    show "?f c = ok (check, c)" if "check = Some er" for er using that by (simp add: end_render_commands_def)
    assume cur: "pass = spec_current self st" and none: "check = None"
    obtain ps where ps: "spec_pass st = Some (pass, ps)" using cur assms(2) by (auto simp: spec_current_def split: option.splits)
    let ?st = "st\<lparr>spec_pass := Some (pass, ps @ [end1])\<rparr>"
    obtain c1 where c1: "record_commands [end1] c = ok c1" "represents held hs self render valid c1 ?st"
      using record_represents [OF assms(1), of "[end1]"] assms(3,4) ps by (auto simp: spec_add_def)
    then have f: "?f c = ExitRenderPass pass tracker ?enc c1" using none by (simp add: end_render_commands_def)
    have ctl: "control self valid c1 ?st" "validation c1 = valid" using c1(2) by (simp_all add: represents_def control_def)
    show "sim (represents held hs self render valid) (bindR (?f c) (\<lambda>(er, c). case er of Some er \<Rightarrow> HandleError er c | None \<Rightarrow> ok c))
        (spec_end_render self render valid end1 tracker ss failure tracker' st)"
    proof (cases valid)
      case False
      then show ?thesis using exit_render_unchecked [OF c1(2) _ _ assms(2), of "ps @ [end1]" tracker ?enc] ctl(2) ps
        by (auto simp: f spec_end_render_def)
    next
      case True
      obtain cs where m: "in_memory held hs c1 cs (ps @ [end1])" "concat cs = spec_done ?st"
        using c1(2) ctl(2) True assms(3) by (auto simp: represents_def commands_match_def pass_ok_def)
      have v: "validation c1" "spec_pass ?st = Some (pass, ps @ [end1])" using True ctl(2) by simp_all
      consider st2 where "foldR (spec_simple self render) ss (st\<lparr>spec_pass := None\<rparr>) = ok st2"
        | "foldR (spec_simple self render) ss (st\<lparr>spec_pass := None\<rparr>) = undef"
        using spec_simples_result by blast
      then show ?thesis
      proof cases
        case 1
        obtain c2 where "?f c = ok (failure, c2)" "represents held hs self render valid c2
             (if failure = None then st2\<lparr>spec_done := spec_done st2 @ ps @ [end1],
                spec_render := spec_render st2 @ [fst (Render_AcquireResourceUsage tracker')]\<rparr> else st2)"
          using exit_render [OF ctl(1) m(1) v(2) m(2) v(1) assms(2,5), of st2 tracker failure tracker'] 1 f by auto
        then show ?thesis using 1 True ps HandleError_sim by (cases failure) (auto simp: spec_end_render_def)
      next
        case 2
        then show ?thesis using exit_render_undef [OF ctl(1) m(1) v(2) m(2) v(1) assms(2,5)] f ps True
          by (simp add: spec_end_render_def)
      qed
    qed
  qed
  finally show ?thesis .
qed

text \<open>Debug groups.\<close>

lemma push_group_ok: "encoder_call_ok self render (PushGroup e label) \<Longrightarrow> list_all spec_ok (push_group_commands label)"
  by (auto simp: push_group_commands_def spec_ok_def alignment_ok_def command_sizes)

lemma represents_labels:
  assumes "represents held hs self render valid c st"
  shows "represents held hs self render valid (c\<lparr>mDebugGroupLabels := ls\<rparr>) (st\<lparr>spec_labels := ls\<rparr>)"
  using assms by (rule represents_cong) (use assms in \<open>simp_all add: represents_def control_def spec_current_def\<close>)
lemma push_group_sim:
  assumes "represents held hs self render valid c st" "encoder_call_ok self render (PushGroup e label)"
  shows "sim (\<lambda>(g1, c) (g2, st). g1 = g2 \<and> represents held hs self render valid c st) (run_encoder_call self (PushGroup e label) (g, c))
    (bindR (spec_step self render valid g (PushGroup e label) st) (\<lambda>st'. ok (spec_depth self valid st (PushGroup e label) g, st')))"
proof (cases "e = spec_current self st")
  case False
  then show ?thesis using try_wrong [OF assms(1) False] by (auto simp: APIPushDebugGroup_def spec_try_def)
next
  case True
  obtain c1 where c1: "record_commands (push_group_commands label) c = ok c1"
    "represents held hs self render valid c1 (spec_add render (push_group_commands label) st)"
    using record_represents [OF assms(1) push_group_ok [OF assms(2)]] by blast
  have "mDebugGroupLabels c1 = spec_labels st"
    using c1(2) by (auto simp: represents_def control_def spec_add_def split: option.splits if_splits)
  then show ?thesis using True c1(1) represents_labels [OF c1(2), of "spec_labels st @ [label]"] try_current(2) [OF assms(1)]
    by (simp add: APIPushDebugGroup_def spec_try_def Context_ConsumedError_def PushDebugGroupLabel_def)
qed

lemma pop_group_sim:
  assumes "represents held hs self render valid c st"
  shows "sim (\<lambda>(g1, c) (g2, st). g1 = g2 \<and> represents held hs self render valid c st) (run_encoder_call self (PopGroup e) (g, c))
    (bindR (spec_step self render valid g (PopGroup e) st) (\<lambda>st'. ok (spec_depth self valid st (PopGroup e) g, st')))"
proof (cases "e = spec_current self st")
  case False
  then show ?thesis using try_wrong [OF assms(1) False] by (auto simp: APIPopDebugGroup_def spec_try_def)
next
  case True
  note v = represents_valid [OF assms]
  show ?thesis
  proof (cases "valid \<and> g e = 0")
    case bad: True
    let ?e = "validation_failure ''PopDebugGroup called when no debug groups are currently pushed.''"
    have "sim (represents held hs self render valid) (HandleError ?e c) (spec_fail ?e st)" by (rule HandleError_sim [OF assms])
    then show ?thesis using True bad v try_current(2) [OF assms(1)]
      by (elim sim_cases) (simp_all add: APIPopDebugGroup_def spec_try_def Context_ConsumedError_def fun_upd_idem)
  next
    case good: False
    have "spec_ok pop_group_command" by (simp add: pop_group_command_def spec_ok_def alignment_ok_def command_sizes)
    then obtain c1 where c1: "record_commands [pop_group_command] c = ok c1"
      "represents held hs self render valid c1 (spec_add render [pop_group_command] st)"
      using record_represents [OF assms(1), of "[pop_group_command]"] by auto
    have "mDebugGroupLabels c1 = spec_labels st"
      using c1(2) by (auto simp: represents_def control_def spec_add_def split: option.splits if_splits)
    then show ?thesis
      using True good v c1(1) represents_labels [OF c1(2), of "butlast (spec_labels st)"] try_current(2) [OF assms(1)]
      by (cases "spec_labels st = []") (auto simp: APIPopDebugGroup_def spec_try_def Context_ConsumedError_def PopDebugGroupLabel_def)
  qed
qed

lemma delete_pass_sim:
  assumes "represents held hs self render valid c st"
  shows "sim (represents held hs self render valid) (EnsurePassExited pass c) (spec_step self render valid g (DeletePass pass) st)"
proof (cases "\<exists>ps. spec_pass st = Some (pass, ps)")
  case True
  then obtain ps where ps: "spec_pass st = Some (pass, ps)" by blast
  let ?st = "st\<lparr>spec_done := spec_done st @ ps, spec_pass := None\<rparr>"
  obtain cs p where m: "in_memory held hs c cs p" "concat cs @ p = spec_done st @ ps"
    using assms ps by (auto simp: represents_def commands_match_def)
  have r: "represents held hs self render valid (c\<lparr>mCurrentEncoder := mTopLevelEncoder c\<rparr>) ?st"
    unfolding represents_def commands_match_def
  proof (intro conjI exI)
    show "in_memory held hs (c\<lparr>mCurrentEncoder := mTopLevelEncoder c\<rparr>) cs p" using m(1) by simp
  qed (use assms m(2) in \<open>simp_all add: represents_def control_def spec_current_def pass_ok_def\<close>)
  have "mCurrentEncoder c \<noteq> mTopLevelEncoder c \<and> mCurrentEncoder c = Some pass"
    using assms ps by (simp add: represents_def control_def spec_current_def)
  then have "EnsurePassExited pass c = HandleError (validation_failure ''Command buffer recording ended before the pass was ended.'')
      (c\<lparr>mCurrentEncoder := mTopLevelEncoder c\<rparr>)"
    unfolding EnsurePassExited_def by (rule if_P)
  then show ?thesis using HandleError_sim [OF r] ps by simp
next
  case False
  have "\<not> (mCurrentEncoder c \<noteq> mTopLevelEncoder c \<and> mCurrentEncoder c = Some pass)"
    using assms False by (auto simp: represents_def control_def spec_current_def split: option.splits)
  then show ?thesis using assms False by (auto simp: EnsurePassExited_def split: option.splits)
qed

lemma inject_sim:
  assumes "represents held hs self render valid c st"
  shows "sim (represents held hs self render valid) (APIInjectValidationError self message c) (spec_step self render valid g (Inject message) st)"
proof (cases "self = spec_current self st")
  case True
  then show ?thesis
    using try_current(1) [OF assms] HandleError_sim [OF assms] by (simp add: APIInjectValidationError_def spec_try_def)
next
  case False
  then show ?thesis using try_wrong [OF assms False] by (auto simp: APIInjectValidationError_def spec_try_def)
qed

section \<open>Moving the commands to an iterator\<close>

text \<open>The iterator returns the commands, which have their contents in memory.\<close>

definition reads :: "heap \<Rightarrow> command_iterator \<Rightarrow> command_spec list \<Rightarrow> bool" where
  "reads h it specs \<longleftrightarrow>
     (\<exists>log. list_all2 (stored h) specs log \<and> read_commands (map shape log) it h = ok (map found log, it))"

lemma closed_numbers:
  assumes "list_all2 (closed h) blocks parts" "heap_ok h" "b \<in> set (numbers blocks)"
  shows "b < calls h"
proof -
  obtain k where k: "k < length blocks" "b = block_of (snd (blocks ! k))"
    using assms(3) by (auto simp del: set_map simp: in_set_conv_nth)
  obtain e where "open_block h (blocks ! k) (parts ! k) e" using list_all2_nthD [OF assms(1) k(1)] by (auto simp: closed_def)
  then show ?thesis using open_block_live assms(2) k(2) by (auto simp: heap_ok_def)
qed

lemma acquire_all:
  assumes "arena h as xs" "list_all2 (closed h) blocks parts" "list_all2 (stored h) specs (concat parts)"
    and "set (numbers blocks) \<inter> set (blocks_of as) = {}"
  shows "\<exists>h' blocks' parts'. foldR acquire_step as (blocks, h) = ok (blocks', h') \<and> list_all2 (closed h') blocks' parts' \<and>
           list_all2 (stored h') (specs @ concat xs) (concat parts') \<and> plenty h' \<and> numbers blocks' = numbers blocks @ blocks_of as"
  using assms
proof (induction as arbitrary: h xs blocks parts specs)
  case Nil
  then show ?case by (auto simp: arena_def)
next
  case (Cons a as)
  obtain x ys where xs: "xs = x # ys" using Cons.prems(1) by (auto simp: arena_def list_all2_Cons1)
  have k: "plenty h" "keeps h a x" "list_all2 (keeps h) as ys" "distinct (blocks_of as)"
    "set (numbers (mBlocks a)) \<inter> set (blocks_of as) = {}"
    using Cons.prems(1) unfolding xs arena_def by simp_all
  obtain log where log: "holds h a log" "list_all2 (stored h) x log" using k(2) by (auto simp: keeps_def)
  obtain a' h1 parts1 where q: "AcquireBlocks a h = ok (mBlocks a, a', h1)" "log = concat parts1"
    "list_all2 (closed h1) (mBlocks a) parts1" "frame log a h a h1" "live h1 = live h" "calls h1 = calls h"
    using AcquireBlocks_ok [OF log(1)] by blast
  have ok1: "heap_ok h" using k(1) by (simp add: plenty_def)
  have same: "same_block h h1 {} b" if "b < calls h" "b \<notin> set (numbers (mBlocks a))" for b
    using q(4) that unfolding frame_def by blast
  have old: "same_block h h1 {} b" if b: "b \<in> set (numbers blocks)" for b
  proof (rule same)
    show "b < calls h" by (rule closed_numbers [OF Cons.prems(2) ok1 b])
    show "b \<notin> set (numbers (mBlocks a))" using Cons.prems(4) b unfolding blocks_of_simps set_append by blast
  qed
  have "list_all2 (stored h1) x log"
    using q(4) unfolding frame_def by (intro list.rel_mono_strong [OF log(2)]) (rule stored_cong, assumption, blast)
  moreover have "list_all2 (stored h1) specs (concat parts)"
    by (rule stored_other [OF closed_open [OF Cons.prems(2)] Cons.prems(3) old])
  ultimately have st: "list_all2 (stored h1) (specs @ x) (concat (parts @ parts1))"
    using q(2) by (simp add: list_all2_appendI)
  have cl: "list_all2 (closed h1) (blocks @ mBlocks a) (parts @ parts1)"
    using closed_all_cong [OF Cons.prems(2) old] q(3) by (rule list_all2_appendI)
  have "list_all2 (keeps h1) as ys"
  proof (rule list.rel_mono_strong [OF k(3)])
    fix a0 x0 assume a0: "a0 \<in> set as" "keeps h a0 x0"
    show "keeps h1 a0 x0"
    proof (rule keeps_other [OF a0(2) same])
      fix b assume b: "b \<in> set (numbers (mBlocks a0))"
      then show "b < calls h" by (rule keeps_numbers [OF a0(2) ok1])
      show "b \<notin> set (numbers (mBlocks a))" using blocks_of_member [OF a0(1) b] k(5) by blast
    qed
  qed
  moreover have "plenty h1" using k(1) q(4-6) by (simp add: plenty_def heap_ok_def frame_def)
  ultimately have ar: "arena h1 as ys" using k(4) by (simp add: arena_def)
  have "set (numbers (blocks @ mBlocks a)) \<inter> set (blocks_of as) = {}"
    using Cons.prems(4) k(5) unfolding blocks_of_simps set_append by blast
  from Cons.IH [OF ar cl st this] q(1) show ?case by (auto simp: acquire_step_def xs)
qed

lemma MoveToIterator_ok:
  assumes "in_memory [] [] c cs p" "mIterator c = empty_iterator" "\<not> mWasMovedToIterator c"
  shows "\<exists>c' h blocks parts. MoveToIterator c = ok c' \<and> memory c' = h \<and>
           other_fields c' = other_fields (c\<lparr>mIterator := mIterator c', mWasMovedToIterator := True\<rparr>) \<and>
           list_all2 (closed h) blocks parts \<and> list_all2 (stored h) (concat cs @ p) (concat parts) \<and> distinct (numbers blocks) \<and>
           iBlocks (mIterator c') = (if blocks = [] then [(4, Own 0)] else blocks) \<and> plenty h \<and>
           mAllocators c' = [] \<and> keeps h (mPendingCommands c') []"
proof -
  obtain c1 cs1 where c1: "commit_pending c = ok c1" "other_fields c1 = other_fields c" "in_memory [] [] c1 cs1 []" "concat cs1 = concat cs @ p"
    using commit_pending_ok [OF assms(1)] by auto
  note o = other_fields_eq [OF c1(2)]
  have ar: "arena (memory c1) (mAllocators c1) cs1"
    using c1(3) arena_drop [of "memory c1" "mAllocators c1" "mPendingCommands c1" "[]" cs1 "[]" "[]"] by (simp add: in_memory_def)
  obtain h blocks parts where q: "foldR acquire_step (mAllocators c1) ([], memory c1) = ok (blocks, h)"
    "list_all2 (closed h) blocks parts" "list_all2 (stored h) (concat cs @ p) (concat parts)" "plenty h" "numbers blocks = blocks_of (mAllocators c1)"
    using acquire_all [OF ar, of "[]" "[]" "[]"] c1(4) by auto
  obtain it0 where it0: "Iterator_Reset (empty_iterator\<lparr>iBlocks := blocks\<rparr>) = ok it0"
    "iBlocks it0 = (if blocks = [] then [(4, Own 0)] else blocks)"
    using read_all [OF q(2), of "empty_iterator\<lparr>iBlocks := blocks\<rparr>"] by (auto simp: empty_iterator_def)
  let ?c = "c1\<lparr>mIterator := it0, memory := h, mAllocators := [], mWasMovedToIterator := True\<rparr>"
  have "Iterator_IsEmpty empty_iterator = ok True" by (simp add: Iterator_IsEmpty_def empty_iterator_def vec_at_def)
  then have "MoveToIterator c = ok ?c"
    using c1(1) o q(1) it0(1) assms(2,3) by (simp add: MoveToIterator_def AcquireCommandBlocks_def)
  moreover have "other_fields ?c = other_fields (c\<lparr>mIterator := mIterator ?c, mWasMovedToIterator := True\<rparr>)"
    using c1(2) by (simp add: other_fields_def)
  moreover have "distinct (numbers blocks)" using ar q(5) by (simp only: arena_def)
  moreover have "keeps h (mPendingCommands ?c) []"
    using c1(3) arena_nth [of "memory c1" "mAllocators c1" "mPendingCommands c1" "[]" cs1 "[]" "[]"] by (simp add: in_memory_def keeps_Nil)
  ultimately show ?thesis using q(2-4) it0(2) by (intro exI [of _ ?c] exI [of _ h] exI [of _ blocks] exI [of _ parts]) simp
qed

lemma first_block:
  assumes "list_all2 (closed h) (block1 # blocks) parts"
  obtains n b where "block1 = (n, Heap b 0)"
  using assms by (auto simp: list_all2_Cons1 closed_def open_block_def)

lemma AcquireCommands_reads:
  assumes "in_memory [] [] c cs []" "mIterator c = empty_iterator" "\<not> mWasMovedToIterator c" "\<not> mWereCommandsAcquired c"
  shows "\<exists>it c'. AcquireCommands c = ok (it, c') \<and> reads (memory c') it (concat cs) \<and>
           mRenderPassUsages c' = mRenderPassUsages c \<and> mComputePassUsages c' = mComputePassUsages c \<and>
           mWereRenderPassUsagesAcquired c' = mWereRenderPassUsagesAcquired c \<and>
           mWereComputePassUsagesAcquired c' = mWereComputePassUsagesAcquired c"
proof -
  obtain c1 h blocks parts where q: "MoveToIterator c = ok c1" "memory c1 = h"
    "other_fields c1 = other_fields (c\<lparr>mIterator := mIterator c1, mWasMovedToIterator := True\<rparr>)"
    "list_all2 (closed h) blocks parts" "list_all2 (stored h) (concat cs) (concat parts)"
    "iBlocks (mIterator c1) = (if blocks = [] then [(4, Own 0)] else blocks)"
    using MoveToIterator_ok [OF assms(1-3)] by auto
  note o = other_fields_eq [OF q(3)]
  obtain it1 where it1: "Iterator_Reset (blank_iterator\<lparr>iBlocks := blocks\<rparr>) = ok it1"
    "read_commands (map shape (concat parts)) it1 h = ok (map found (concat parts), it1)"
    using read_all [OF q(4), of "blank_iterator\<lparr>iBlocks := blocks\<rparr>"] by auto
  have "\<exists>left1. CommandIterator_move (mIterator c1) = ok (it1, left1)"
  proof (cases blocks)
    case Nil
    then show ?thesis using q(6) it1(1) by (simp add: CommandIterator_move_def take_blocks_def Iterator_IsEmpty_def vec_at_def)
  next
    case (Cons block1 bs)
    then obtain n b where "block1 = (n, Heap b 0)" using first_block q(4) by blast
    then show ?thesis using q(6) it1(1) Cons
      by (auto simp: CommandIterator_move_def take_blocks_def Iterator_IsEmpty_def vec_at_def Iterator_Reset_def)
  qed
  then obtain left1 where "CommandIterator_move (mIterator c1) = ok (it1, left1)" by blast
  then have "AcquireCommands c = ok (it1, c1\<lparr>mWereCommandsAcquired := True, mIterator := left1\<rparr>)"
    using q(1) o(11) assms(4) by (simp add: AcquireCommands_def)
  moreover have "reads h it1 (concat cs)" unfolding reads_def using q(5) it1(2) by blast
  ultimately show ?thesis using o(5-8) q(2) by (intro exI conjI) (assumption, simp_all)
qed

section \<open>Destruction\<close>

definition destroyed :: "nat \<Rightarrow> encoding_context \<Rightarrow> encoding_spec \<Rightarrow> bool" where
  "destroyed self c st \<longleftrightarrow> spec_destroyed st \<and> encoding_context.mDestroyed c \<and> mTopLevelEncoder c = Some self \<and> mCurrentEncoder c = None \<and>
     mError c = spec_error st \<and> spec_error st \<noteq> None \<and> (\<exists>cs p. in_memory [] [] c cs p)"

lemma free_commands_ok:
  assumes "list_all2 (closed (memory c)) blocks parts" "distinct (numbers blocks)" "plenty (memory c)"
    and "iBlocks (mIterator c) = (if blocks = [] then [(4, Own 0)] else blocks)"
  shows "\<exists>h it. free_commands c = ok (c\<lparr>mIterator := it, memory := h\<rparr>) \<and> plenty h"
proof (cases blocks)
  case Nil
  have "AlignPtr 0 4 = ok 0" by (simp add: AlignPtr_def assert_pow2_def IsPowerOfTwo_def)
  with Nil show ?thesis using assms(3,4)
    by (intro exI [of _ "memory c"] exI) (simp add: free_commands_def Iterator_Reset_def MakeEmptyAsDataWasDestroyed_def Iterator_IsEmpty_def vec_at_def)
next
  case (Cons block1 bs)
  then obtain n b where b: "block1 = (n, Heap b 0)" using first_block assms(1) by blast
  have "\<exists>b. q = Heap b 0 \<and> live (memory c) b \<noteq> None" if mq: "(m, q) \<in> set blocks" for m q
  proof -
    obtain k where "k < length blocks" "blocks ! k = (m, q)" using mq by (auto simp: in_set_conv_nth)
    then show ?thesis using list_all2_nthD [OF assms(1), of k] by (auto simp: closed_def open_block_def)
  qed
  note blocks_live = this
  define h where "h = (memory c)\<lparr>live := (\<lambda>b. if b \<in> set (numbers blocks) then None else live (memory c) b)\<rparr>"
  have free: "free_command_blocks blocks (memory c) = ok h"
    unfolding h_def by (rule free_command_blocks_ok [OF assms(2)]) (rule blocks_live)
  have "plenty h" using assms(3) by (auto simp: h_def plenty_def heap_ok_def)
  moreover have "AlignPtr 0 4 = ok 0" by (simp add: AlignPtr_def assert_pow2_def IsPowerOfTwo_def)
  moreover have "iBlocks (mIterator c) = blocks" "blocks = (n, Heap b 0) # bs" using assms(4) b Cons by simp_all
  ultimately show ?thesis using free
    by (intro exI [of _ h] exI) (simp add: free_commands_def Iterator_Reset_def MakeEmptyAsDataWasDestroyed_def Iterator_IsEmpty_def vec_at_def)
qed

lemma destroy_sim:
  assumes "represents [] [] self render valid c st"
  shows "sim (destroyed self) (Context_Destroy c) (spec_step self render valid g DestroyEncoder st)"
proof -
  let ?m = "validation_failure ''Destroyed encoder cannot be finished.''"
  have ctl: "control self valid c st" using assms by (simp add: represents_def)
  obtain cs p where m: "in_memory [] [] c cs p" using assms by (auto simp: represents_def commands_match_def)
  obtain c1 h blocks parts where q: "MoveToIterator c = ok c1" "memory c1 = h"
    "other_fields c1 = other_fields (c\<lparr>mIterator := mIterator c1, mWasMovedToIterator := True\<rparr>)"
    "list_all2 (closed h) blocks parts" "distinct (numbers blocks)"
    "iBlocks (mIterator c1) = (if blocks = [] then [(4, Own 0)] else blocks)" "plenty h"
    "mAllocators c1 = []" "keeps h (mPendingCommands c1) []"
    using MoveToIterator_ok [OF m] ctl by (auto simp: control_def)
  note o = other_fields_eq [OF q(3)]
  obtain h2 it where f: "free_commands c1 = ok (c1\<lparr>mIterator := it, memory := h2\<rparr>)" "plenty h2"
    using free_commands_ok [of c1 blocks parts] q by auto
  let ?c2 = "c1\<lparr>mIterator := it, memory := h2\<rparr>"
  have mem: "in_memory [] [] ?c2 [] []" using q(8,9) f(2) by (simp add: in_memory_def arena_def keeps_Nil)
  have it: "GetIterator c = ok c1" using q(1) o(11) ctl by (simp add: GetIterator_def control_def)
  let ?e = "if mError c = None then Some (Validation, ''Destroyed encoder cannot be finished.'', rev (spec_labels st)) else mError c"
  have "HandleError ?m ?c2 = ok (?c2\<lparr>mError := ?e\<rparr>)"
    using o ctl by (auto simp: HandleError_def IsFinished_def control_def validation_failure_def)
  then have "Context_Destroy c = ok (?c2\<lparr>mError := ?e, mDestroyed := True, mCurrentEncoder := None\<rparr>)"
    using ctl it f(1) o(3) by (simp add: Context_Destroy_def control_def IsFinished_def)
  moreover have "in_memory [] [] (?c2\<lparr>mError := ?e, mDestroyed := True, mCurrentEncoder := None\<rparr>) [] []"
    using mem q(8) by (simp add: in_memory_def)
  then have "destroyed self (?c2\<lparr>mError := ?e, mDestroyed := True, mCurrentEncoder := None\<rparr>) (st\<lparr>spec_error := ?e, spec_destroyed := True\<rparr>)"
    unfolding destroyed_def using o(3) ctl by (intro conjI exI) (assumption | simp add: control_def)+
  moreover have "spec_step self render valid g DestroyEncoder st = ok (st\<lparr>spec_error := ?e, spec_destroyed := True\<rparr>)"
    using ctl by (simp add: spec_fail_def validation_failure_def control_def)
  ultimately show ?thesis by auto
qed

lemma destroyed_ignores:
  assumes "destroyed self c st"
  shows "run_encoder_call self x (g, c) = ok (g, c)"
proof -
  have h: "HandleError (validation_failure m) c = ok c" for m
    using assms by (simp add: HandleError_def IsFinished_def destroyed_def validation_failure_def)
  then have check: "CheckCurrentEncoder e c = ok (False, c)" for e
    using assms by (simp add: CheckCurrentEncoder_def destroyed_def)
  then have refused: "TryEncode e f c = ok (False, c)" for e f by (simp add: TryEncode_def)
  show ?thesis
  proof (cases x)
    case (Simple s)
    then show ?thesis using refused by (cases s) (simp_all add: APIBeginComputePass_def Compute_APIEndPass_def)
  qed (use refused check assms in \<open>simp_all add: APIBeginRenderPass_def Render_APIEndPass_def APIPushDebugGroup_def APIPopDebugGroup_def
      EnsurePassExited_def APIInjectValidationError_def Context_Destroy_def destroyed_def\<close>)
qed

section \<open>Runs\<close>

definition encodes :: "nat \<Rightarrow> (nat \<Rightarrow> bool) \<Rightarrow> bool \<Rightarrow> (nat \<Rightarrow> nat) \<times> encoding_context \<Rightarrow> (nat \<Rightarrow> nat) \<times> encoding_spec \<Rightarrow> bool" where
  "encodes self render valid = (\<lambda>(g1, c) (g2, st). g1 = g2 \<and> (destroyed self c st \<or> represents [] [] self render valid c st))"

lemma sim_groups:
  assumes "sim R r s" "\<And>c st. R c st \<Longrightarrow> destroyed self c st \<or> represents [] [] self render valid c st"
  shows "sim (encodes self render valid) (bindR r (\<lambda>c. ok (g, c))) (bindR s (\<lambda>st. ok (g, st)))"
  using assms(1) by (elim sim_cases) (auto simp: encodes_def dest: assms(2))

lemma run_call_sim:
  assumes "encodes self render valid a b" "encoder_call_ok self render x"
  shows "sim (encodes self render valid) (run_encoder_call self x a) (spec_call self render valid x b)"
proof -
  obtain g c st where ab: "a = (g, c)" "b = (g, st)" and e: "destroyed self c st \<or> represents [] [] self render valid c st"
    using assms(1) by (cases a; cases b) (auto simp: encodes_def)
  from e show ?thesis
  proof
    assume d: "destroyed self c st"
    then show ?thesis using destroyed_ignores [OF d] by (simp add: ab spec_call_def encodes_def destroyed_def)
  next
    assume r: "represents [] [] self render valid c st"
    let ?e = "\<lambda>(g1, c) (g2, st). g1 = g2 \<and> represents [] [] self render valid c st"
    have s: "spec_call self render valid x b = bindR (spec_step self render valid g x st) (\<lambda>st'. ok (spec_depth self valid st x g, st'))"
      using r by (simp add: ab spec_call_def represents_def control_def)
    have mono: "sim (encodes self render valid) r s" if "sim ?e r s" for r s
      using that by (rule sim_mono) (auto simp: encodes_def)
    note groups = sim_groups [where R = "represents [] [] self render valid"]
    show ?thesis
    proof (cases x)
      case (Simple s1)
      then show ?thesis unfolding s using groups [OF run_simple_sim [OF r, of s1]] assms(2) by (simp add: ab)
    next
      case (BeginRender pass check late_check begin1)
      have "run_encoder_call self x a = bindR (bindR (APIBeginRenderPass self pass check late_check begin1 c) (\<lambda>(_, c). ok c)) (\<lambda>c. ok (g, c))"
        by (auto simp: BeginRender ab bindR_assoc intro!: arg_cong2 [of _ _ _ _ bindR])
      then show ?thesis unfolding s using groups [OF begin_render_sim [OF r]] assms(2) by (simp add: BeginRender)
    next
      case (EndRender pass check end1 tracker ss failure tracker')
      then show ?thesis unfolding s using groups [OF end_render_sim [OF r]] assms(2) by (simp add: ab)
    next
      case (PushGroup e label)
      show ?thesis unfolding s using mono [OF push_group_sim [OF r assms(2) [unfolded PushGroup]]] by (simp only: ab PushGroup)
    next
      case (PopGroup e)
      show ?thesis unfolding s using mono [OF pop_group_sim [OF r]] by (simp only: ab PopGroup)
    next
      case (DeletePass pass)
      then show ?thesis unfolding s using groups [OF delete_pass_sim [OF r]] by (simp add: ab)
    next
      case (Inject message)
      then show ?thesis unfolding s using groups [OF inject_sim [OF r]] by (simp add: ab)
    next
      case DestroyEncoder
      then show ?thesis unfolding s using sim_groups [OF destroy_sim [OF r]] by (simp add: ab)
    qed
  qed
qed

lemma run_calls_sim:
  assumes "encodes self render valid a b" "list_all (encoder_call_ok self render) xs"
  shows "sim (encodes self render valid) (foldR (run_encoder_call self) xs a) (foldR (spec_call self render valid) xs b)"
  by (rule sim_foldR [where R = "encodes self render valid", OF assms]) (rule run_call_sim)

text \<open>With validation, and with checks that give validation errors only, no call is undefined: an
  encoder that closes a debug group has opened one.\<close>

definition groups_open :: "(nat \<Rightarrow> nat) \<Rightarrow> nat \<Rightarrow> bool" where
  "groups_open g n \<longleftrightarrow> (\<exists>F. finite F \<and> (\<forall>e. e \<notin> F \<longrightarrow> g e = 0) \<and> sum g F \<le> n)"

lemma groups_open_split:
  assumes "groups_open g n"
  obtains F where "finite F" "e \<notin> F" "\<forall>e'. e' \<notin> insert e F \<longrightarrow> g e' = 0" "g e + sum g F \<le> n"
proof -
  obtain F where F: "finite F" "\<forall>e. e \<notin> F \<longrightarrow> g e = 0" "sum g F \<le> n" using assms by (auto simp: groups_open_def)
  have "g e + sum g (F - {e}) \<le> n"
  proof (cases "e \<in> F")
    case True
    then show ?thesis using F(3) sum.remove [OF F(1) True, of g] by simp
  next
    case False
    then have "g e = 0" "F - {e} = F" using F(2) by auto
    then show ?thesis using F(3) by simp
  qed
  then show thesis using F(1,2) that [of "F - {e}"] by simp
qed

lemma groups_open_update:
  assumes "groups_open g n" "\<And>k. g e + k \<le> n \<Longrightarrow> m + k \<le> n'"
  shows "groups_open (g(e := m)) n'"
proof -
  obtain F where F: "finite F" "e \<notin> F" "\<forall>e'. e' \<notin> insert e F \<longrightarrow> g e' = 0" "g e + sum g F \<le> n"
    using assms(1) by (rule groups_open_split)
  have "sum (g(e := m)) (insert e F) = m + sum g F"
    using F(1,2) by (auto intro!: sum.cong)
  then show ?thesis unfolding groups_open_def using F(1,3) assms(2) [OF F(4)] by (intro exI [of _ "insert e F"]) simp
qed

lemma spec_labels_add [simp]: "spec_labels (spec_add render specs st) = spec_labels st"
  by (simp add: spec_add_def split: option.split)

lemma spec_fail_defined: "check_ok (Some e) \<Longrightarrow> \<exists>st'. spec_fail e st = ok st' \<and> spec_labels st' = spec_labels st"
  by (cases e) (simp add: spec_fail_def check_ok_def)

lemma spec_try_defined:
  assumes "check_ok check" "current \<Longrightarrow> check = None \<Longrightarrow> \<exists>st'. f st = ok st' \<and> spec_labels st' = spec_labels st"
  shows "\<exists>st'. spec_try current check f st = ok st' \<and> spec_labels st' = spec_labels st"
proof (cases current)
  case True
  then show ?thesis using assms spec_fail_defined by (cases check) (simp_all add: spec_try_def)
next
  case False
  then show ?thesis by (simp add: spec_try_def spec_wrong_def spec_fail_defined check_ok_def validation_failure_def)
qed

lemma check_ok_simps [simp]: "check_ok None" "check_ok (Some (validation_failure m))"
  by (simp_all add: check_ok_def validation_failure_def)

lemma spec_simple_defined:
  "simple_checks_ok s \<Longrightarrow> \<exists>st'. spec_simple self render s st = ok st' \<and> spec_labels st' = spec_labels st"
  by (cases s) (auto intro!: spec_try_defined)

lemma spec_simples_defined:
  "list_all simple_checks_ok ss \<Longrightarrow> \<exists>st'. foldR (spec_simple self render) ss st = ok st' \<and> spec_labels st' = spec_labels st"
proof (induction ss arbitrary: st)
  case (Cons s ss)
  then show ?case using spec_simple_defined [of s self render st] by fastforce
qed simp

lemma spec_end_render_defined:
  assumes "list_all simple_checks_ok ss" "check_ok failure"
  shows "\<exists>st'. spec_end_render self render valid end1 tracker ss failure tracker' st = ok st' \<and> spec_labels st' = spec_labels st"
proof -
  obtain st2 where st2: "foldR (spec_simple self render) ss (st\<lparr>spec_pass := None\<rparr>) = ok st2" "spec_labels st2 = spec_labels st"
    using spec_simples_defined [OF assms(1), of self render "st\<lparr>spec_pass := None\<rparr>"] by auto
  then show ?thesis
    using spec_fail_defined [of _ st2] assms(2) by (cases failure) (auto simp: spec_end_render_def Let_def)
qed

lemma spec_call_defined:
  assumes "groups_open g (length (spec_labels st))" "call_checks_ok x"
  shows "\<exists>g' st'. spec_call self render True x (g, st) = ok (g', st') \<and> groups_open g' (length (spec_labels st'))"
proof (cases "spec_destroyed st")
  case True
  then show ?thesis using assms(1) by (simp add: spec_call_def)
next
  case False
  have same: ?thesis if "\<exists>st'. spec_step self render True g x st = ok st' \<and> spec_labels st' = spec_labels st"
    "spec_depth self True st x g = g"
    using that False assms(1) by (auto simp: spec_call_def)
  show ?thesis
  proof (cases x)
    case (PushGroup e label)
    show ?thesis
    proof (cases "e = spec_current self st")
      case True
      have "groups_open (g(e := (g e + 1) mod 2 ^ 64)) (length (spec_labels st) + 1)"
        using mod_less_eq_dividend [of "g e + 1" "2 ^ 64"] by (intro groups_open_update [OF assms(1)]) linarith
      then show ?thesis using True False PushGroup by (simp add: spec_call_def spec_try_def)
    next
      case False
      then show ?thesis using PushGroup by (intro same) (auto intro!: spec_try_defined)
    qed
  next
    case (PopGroup e)
    show ?thesis
    proof (cases "e = spec_current self st \<and> g e \<noteq> 0")
      case True
      obtain F where "g e + sum g F \<le> length (spec_labels st)" using assms(1) by (rule groups_open_split)
      then have ne: "spec_labels st \<noteq> []" using True by auto
      have "(g e + 2 ^ 64 - 1) mod 2 ^ 64 \<le> g e - 1"
      proof -
        have "g e + 2 ^ 64 - 1 = (g e - 1) + 2 ^ 64" using True by linarith
        then have "(g e + 2 ^ 64 - 1) mod 2 ^ 64 = (g e - 1) mod 2 ^ 64" by (simp only: mod_add_self2)
        then show ?thesis by simp
      qed
      then have "groups_open (g(e := (g e + 2 ^ 64 - 1) mod 2 ^ 64)) (length (spec_labels st) - 1)"
        using True by (intro groups_open_update [OF assms(1)]) linarith
      then show ?thesis using True False PopGroup ne by (auto simp: spec_call_def spec_try_def)
    next
      case False
      then show ?thesis using PopGroup by (intro same) (auto intro!: spec_try_defined)
    qed
  next
    case (DeletePass pass)
    then show ?thesis by (intro same) (auto simp: spec_fail_def validation_failure_def split: option.split)
  next
    case (BeginRender pass check late_check begin1)
    then show ?thesis using assms(2)
      by (intro same) (auto simp: spec_fail_def check_ok_def intro!: spec_try_defined split: option.split)
  next
    case (EndRender pass check end1 tracker ss failure tracker')
    then show ?thesis using assms(2) by (intro same) (auto intro!: spec_try_defined spec_end_render_defined)
  next
    case DestroyEncoder
    then show ?thesis using spec_fail_defined [of "validation_failure ''Destroyed encoder cannot be finished.''" st]
      by (intro same) auto
  qed (use assms(2) in \<open>intro same; auto intro!: spec_try_defined spec_simple_defined\<close>)+
qed

lemma spec_calls_defined:
  "groups_open g (length (spec_labels st)) \<Longrightarrow> list_all call_checks_ok xs \<Longrightarrow>
   \<exists>g' st'. foldR (spec_call self render True) xs (g, st) = ok (g', st')"
proof (induction xs arbitrary: g st)
  case (Cons x xs)
  then show ?case using spec_call_defined [of g st x self render] by fastforce
qed simp

section \<open>Finishing\<close>

lemma start_represents:
  assumes "plenty h"
  shows "\<exists>c. EncodingContext valid self h = ok c \<and> represents [] [] self render valid c spec_start"
proof -
  have it: "CommandIterator = ok empty_iterator" by (simp add: CommandIterator_def Iterator_Reset_def empty_iterator_def)
  have "keeps h CommandAllocator []" "mBlocks CommandAllocator = []"
    by (simp_all add: keeps_Nil CommandAllocator_def ResetPointers_def)
  then have ar: "arena h [CommandAllocator] [[]]" using assms by (simp add: arena_def)
  define c where "c = \<lparr>memory = h, validation = valid, reported = [],
      mTopLevelEncoder = Some self, mCurrentEncoder = Some self,
      mRenderPassUsages = [], mWereRenderPassUsagesAcquired = False,
      mComputePassUsages = [], mWereComputePassUsagesAcquired = False,
      mPendingCommands = CommandAllocator, mAllocators = [], mIterator = empty_iterator,
      mWasMovedToIterator = False, mWereCommandsAcquired = False, mDestroyed = False,
      mError = None, mDebugGroupLabels = []\<rparr>"
  have c: "EncodingContext valid self h = ok c" unfolding EncodingContext_def it by (simp add: c_def)
  have "in_memory [] [] c [] []" using ar by (simp add: in_memory_def c_def)
  then have "commands_match [] [] render c spec_start"
    unfolding commands_match_def by (intro exI [of _ "[]"]) (simp add: spec_start_def pass_ok_def)
  then show ?thesis
    using c by (auto simp: represents_def control_def spec_start_def spec_current_def c_def)
qed

definition spec_usages :: "nat list \<times> nat list \<times> nat list \<Rightarrow> encoding_spec \<Rightarrow> command_usages" where
  "spec_usages tops st =
     \<lparr>renderPasses = spec_render st, computePasses = spec_compute st, topLevelBuffers = fst tops,
      topLevelTextures = fst (snd tops), usedQuerySets = snd (snd tops)\<rparr>"

definition spec_finish :: "encoding_spec \<Rightarrow> maybe_error" where
  "spec_finish st =
     (if spec_error st \<noteq> None then spec_error st
      else if spec_pass st \<noteq> None
      then Some (validation_failure ''Command buffer recording ended before the pass was ended.'')
      else None)"

lemma Finish_ok:
  assumes "represents [] [] self render valid c st"
  shows "\<exists>c1. Finish c = ok (spec_finish st, c1) \<and> IsFinished c1 \<and> mCurrentEncoder c1 = None \<and> validation c1 = valid \<and>
           mRenderPassUsages c1 = spec_render st \<and> mComputePassUsages c1 = spec_compute st \<and>
           \<not> mWereRenderPassUsagesAcquired c1 \<and> \<not> mWereComputePassUsagesAcquired c1 \<and>
           (spec_finish st = None \<longrightarrow> (\<exists>it c2. AcquireCommands c1 = ok (it, c2) \<and> reads (memory c2) it (spec_done st) \<and>
              mRenderPassUsages c2 = spec_render st \<and> mComputePassUsages c2 = spec_compute st \<and>
              \<not> mWereRenderPassUsagesAcquired c2 \<and> \<not> mWereComputePassUsagesAcquired c2))"
proof -
  let ?c = "c\<lparr>mCurrentEncoder := None, mTopLevelEncoder := None\<rparr>"
  have ctl: "control self valid c st" using assms by (simp add: represents_def)
  obtain cs p where m: "in_memory [] [] ?c cs p" "concat cs @ p = spec_done st @ pass_commands st"
    using assms by (auto simp: represents_def commands_match_def)
  obtain c1 cs1 where c1: "commit_pending ?c = ok c1" "other_fields c1 = other_fields ?c" "in_memory [] [] c1 cs1 []"
    "concat cs1 = concat cs @ p"
    using commit_pending_ok [OF m(1)] by blast
  note o = other_fields_eq [OF c1(2)]
  define c2 where "c2 = (if spec_error st \<noteq> None then c1\<lparr>mError := None\<rparr> else c1)"
  have "Finish c = ok (spec_finish st, c2)"
    using ctl c1(1) o(13) pass_current [OF assms]
    by (simp add: Finish_def IsFinished_def control_def spec_finish_def c2_def)
  moreover have "\<exists>it c3. AcquireCommands c2 = ok (it, c3) \<and> reads (memory c3) it (spec_done st) \<and>
      mRenderPassUsages c3 = spec_render st \<and> mComputePassUsages c3 = spec_compute st \<and>
      \<not> mWereRenderPassUsagesAcquired c3 \<and> \<not> mWereComputePassUsagesAcquired c3" if "spec_finish st = None"
  proof -
    have none: "spec_error st = None" "spec_pass st = None" using that by (cases "spec_error st"; cases "spec_pass st"; simp add: spec_finish_def)+
    then have "concat cs1 = spec_done st" "c2 = c1" using m(2) c1(4) by (simp_all add: c2_def)
    then show ?thesis using AcquireCommands_reads [OF c1(3)] o ctl by (simp add: control_def)
  qed
  ultimately show ?thesis using ctl o by (auto simp: c2_def IsFinished_def control_def)
qed

lemma Finish_destroyed:
  assumes "destroyed self c st"
  shows "\<exists>c1. Finish c = ok (spec_finish st, c1) \<and> IsFinished c1 \<and> mCurrentEncoder c1 = None"
proof -
  let ?c = "c\<lparr>mCurrentEncoder := None, mTopLevelEncoder := None\<rparr>"
  obtain cs p where m: "in_memory [] [] ?c cs p" using assms by (auto simp: destroyed_def)
  obtain c1 where c1: "commit_pending ?c = ok c1" "other_fields c1 = other_fields ?c" using commit_pending_ok [OF m] by blast
  note o = other_fields_eq [OF c1(2)]
  have "Finish c = ok (spec_finish st, c1\<lparr>mError := None\<rparr>)"
    using assms c1(1) o(13) by (simp add: Finish_def IsFinished_def destroyed_def spec_finish_def)
  then show ?thesis using o by (simp add: IsFinished_def)
qed

text \<open>A run from the creation of a command encoder to its end, and what the specification says of it.\<close>

definition run_encoding :: "nat \<Rightarrow> bool \<Rightarrow> bool \<Rightarrow> nat list \<times> nat list \<times> nat list \<Rightarrow> call list \<Rightarrow> heap \<Rightarrow>
    ((error_data + command_iterator \<times> command_usages) \<times> encoding_context) res" where
  "run_encoding self valid alive tops calls1 h =
     bindR (EncodingContext valid self h) (\<lambda>c.
     bindR (foldR (run_encoder_call self) calls1 (\<lambda>_. 0, c)) (\<lambda>(g, c). FinishInternal alive (g self) tops c))"

definition spec_finish_internal :: "bool \<Rightarrow> bool \<Rightarrow> nat \<Rightarrow> nat list \<times> nat list \<times> nat list \<Rightarrow> encoding_spec \<Rightarrow>
    (error_data + command_spec list \<times> command_usages) res" where
  "spec_finish_internal valid alive depth1 tops st =
     (case spec_finish st of
        Some e \<Rightarrow> ok (Inl e)
      | None \<Rightarrow>
          if \<not> alive then ok (Inl (validation_failure ''The device is lost.''))
          else (case if valid then ValidateFinish False depth1 (spec_usages tops st) else ok () of
                  Inl UB \<Rightarrow> undef
                | Inl (Error t m) \<Rightarrow> ok (Inl (t, m, []))
                | Inr _ \<Rightarrow> ok (Inr (spec_done st, spec_usages tops st))))"

definition spec_encoding :: "nat \<Rightarrow> (nat \<Rightarrow> bool) \<Rightarrow> bool \<Rightarrow> bool \<Rightarrow> nat list \<times> nat list \<times> nat list \<Rightarrow> call list \<Rightarrow>
    (error_data + command_spec list \<times> command_usages) res" where
  "spec_encoding self render valid alive tops calls1 =
     bindR (foldR (spec_call self render valid) calls1 (\<lambda>_. 0, spec_start)) (\<lambda>(g, st).
       spec_finish_internal valid alive (g self) tops st)"

definition delivers :: "(error_data + command_iterator \<times> command_usages) \<times> encoding_context \<Rightarrow>
    error_data + command_spec list \<times> command_usages \<Rightarrow> bool" where
  "delivers = (\<lambda>(r, c) s.
     case s of Inl e \<Rightarrow> r = Inl e
     | Inr (specs, us) \<Rightarrow> \<exists>it. r = Inr (it, us) \<and> reads (memory c) it specs)"

lemma FinishInternal_destroyed:
  assumes "destroyed self c st"
  shows "sim delivers (FinishInternal alive depth1 tops c) (spec_finish_internal valid alive depth1 tops st)"
proof -
  obtain c1 where "Finish c = ok (spec_finish st, c1)" using Finish_destroyed [OF assms] by blast
  moreover obtain e where "spec_finish st = Some e" using assms by (auto simp: spec_finish_def destroyed_def)
  ultimately show ?thesis by (simp add: FinishInternal_def spec_finish_internal_def delivers_def)
qed

lemma FinishInternal_sim:
  assumes "represents [] [] self render valid c st"
  shows "sim delivers (FinishInternal alive depth1 tops c) (spec_finish_internal valid alive depth1 tops st)"
proof -
  obtain c1 where c1: "Finish c = ok (spec_finish st, c1)" "validation c1 = valid"
    "mRenderPassUsages c1 = spec_render st" "mComputePassUsages c1 = spec_compute st"
    "\<not> mWereRenderPassUsagesAcquired c1" "\<not> mWereComputePassUsagesAcquired c1"
    "spec_finish st = None \<longrightarrow> (\<exists>it c2. AcquireCommands c1 = ok (it, c2) \<and> reads (memory c2) it (spec_done st) \<and>
              mRenderPassUsages c2 = spec_render st \<and> mComputePassUsages c2 = spec_compute st \<and>
              \<not> mWereRenderPassUsagesAcquired c2 \<and> \<not> mWereComputePassUsagesAcquired c2)"
    using Finish_ok [OF assms] by (elim exE conjE) (rule that, assumption+)
  let ?v = "if valid then ValidateFinish False depth1 (spec_usages tops st) else ok ()"
  have vf: "(if \<not> validation c1 then ok () else bindR (GetRenderPassUsages c1) (\<lambda>rs. bindR (GetComputePassUsages c1) (\<lambda>us.
      ValidateFinish False depth1 \<lparr>renderPasses = rs, computePasses = us, topLevelBuffers = fst tops,
        topLevelTextures = fst (snd tops), usedQuerySets = snd (snd tops)\<rparr>))) = ?v"
    using c1(2-6) by (simp add: GetRenderPassUsages_def GetComputePassUsages_def spec_usages_def)
  have fin: "FinishInternal alive depth1 tops c = (case spec_finish st of Some e \<Rightarrow> ok (Inl e, c1)
    | None \<Rightarrow> if \<not> alive then ok (Inl (validation_failure ''The device is lost.''), c1)
       else case ?v of Inl UB \<Rightarrow> undef | Inl (Error t m) \<Rightarrow> ok (Inl (t, m, []), c1)
         | Inr _ \<Rightarrow> bindR (AcquireCommands c1) (\<lambda>(it, c). bindR (AcquireRenderPassUsages c) (\<lambda>(rs, c).
             bindR (AcquireComputePassUsages c) (\<lambda>(us, c). ok (Inr (it, \<lparr>renderPasses = rs, computePasses = us,
               topLevelBuffers = fst tops, topLevelTextures = fst (snd tops), usedQuerySets = snd (snd tops)\<rparr>), c)))))"
    by (simp only: FinishInternal_def c1(1) vf bindR.simps prod.case)
  consider (err) e where "spec_finish st = Some e" | (lost) "spec_finish st = None" "\<not> alive"
    | (undefined) "spec_finish st = None" alive "?v = undef"
    | (invalid) t m where "spec_finish st = None" alive "?v = Inl (Error t m)" | (good) x where "spec_finish st = None" alive "?v = ok x"
    by (metis fault.exhaust option.exhaust sum.exhaust)
  then show ?thesis
  proof cases
    case good
    then obtain it c2 where c2: "AcquireCommands c1 = ok (it, c2)" "reads (memory c2) it (spec_done st)"
      "mRenderPassUsages c2 = spec_render st" "mComputePassUsages c2 = spec_compute st"
      "\<not> mWereRenderPassUsagesAcquired c2" "\<not> mWereComputePassUsagesAcquired c2"
      using c1(7) by blast
    then have "\<exists>c3. FinishInternal alive depth1 tops c = ok (Inr (it, spec_usages tops st), c3) \<and> memory c3 = memory c2"
      using good unfolding fin
      by (simp add: AcquireRenderPassUsages_def AcquireComputePassUsages_def spec_usages_def)
    then show ?thesis using c2(2) good by (auto simp: spec_finish_internal_def delivers_def)
  next
    case err
    with fin have "FinishInternal alive depth1 tops c = ok (Inl e, c1)" by simp
    with err show ?thesis by (simp add: spec_finish_internal_def delivers_def)
  next
    case lost
    with fin have "FinishInternal alive depth1 tops c = ok (Inl (validation_failure ''The device is lost.''), c1)" by simp
    with lost show ?thesis by (simp add: spec_finish_internal_def delivers_def)
  next
    case undefined
    then have "FinishInternal alive depth1 tops c = undef" unfolding fin by simp
    with undefined show ?thesis by (simp add: spec_finish_internal_def)
  next
    case invalid
    then have "FinishInternal alive depth1 tops c = ok (Inl (t, m, []), c1)" unfolding fin by simp
    with invalid show ?thesis by (simp add: spec_finish_internal_def delivers_def)
  qed
qed

lemma run_related:
  assumes "plenty h" "list_all (encoder_call_ok self render) calls1" "EncodingContext valid self h = ok c0"
    and "foldR (run_encoder_call self) calls1 (\<lambda>_. 0, c0) = ok (g, c)"
  obtains st where "destroyed self c st \<or> represents [] [] self render valid c st"
proof -
  have "represents [] [] self render valid c0 spec_start"
    using start_represents [OF assms(1), of valid self render] assms(3) by auto
  then have "encodes self render valid (\<lambda>_. 0, c0) (\<lambda>_. 0, spec_start)" by (simp add: encodes_def)
  from run_calls_sim [OF this assms(2)] show thesis
    unfolding assms(4) by (elim sim_cases) (auto simp: encodes_def intro: that)
qed

lemma encoding_sim:
  assumes "plenty h" "list_all (encoder_call_ok self render) calls1"
  shows "sim delivers (run_encoding self valid alive tops calls1 h) (spec_encoding self render valid alive tops calls1)"
proof -
  obtain c0 where c0: "EncodingContext valid self h = ok c0" "represents [] [] self render valid c0 spec_start"
    using start_represents [OF assms(1)] by blast
  then have "encodes self render valid (\<lambda>_. 0, c0) (\<lambda>_. 0, spec_start)" by (simp add: encodes_def)
  from run_calls_sim [OF this assms(2)] show ?thesis
    unfolding run_encoding_def spec_encoding_def c0(1) bindR.simps
    by (rule sim_bind) (auto simp: encodes_def intro: FinishInternal_destroyed FinishInternal_sim)
qed

lemma calls_defined:
  assumes "plenty h" "list_all (encoder_call_ok self render) calls1" "list_all call_checks_ok calls1"
  shows "\<exists>c0 g c. EncodingContext True self h = ok c0 \<and> foldR (run_encoder_call self) calls1 (\<lambda>_. 0, c0) = ok (g, c)"
proof -
  obtain c0 where c0: "EncodingContext True self h = ok c0" "represents [] [] self render True c0 spec_start"
    using start_represents [OF assms(1)] by blast
  then have e: "encodes self render True (\<lambda>_. 0, c0) (\<lambda>_. 0, spec_start)" by (simp add: encodes_def)
  have "groups_open (\<lambda>_. 0) (length (spec_labels spec_start))" by (auto simp: groups_open_def)
  from spec_calls_defined [OF this assms(3), of self render] obtain g st
    where "foldR (spec_call self render True) calls1 (\<lambda>_. 0, spec_start) = ok (g, st)" by blast
  with run_calls_sim [OF e assms(2)] c0(1) show ?thesis by auto
qed

text \<open>
  C25. Encoding refines lists of commands. Let memory never run out. Whatever sequence of calls an application
  makes on a command encoder and its passes, opening and closing debug groups, deleting a pass
  and destroying the encoder included, and then finishing: the outcome is that of the specification.
  It is the first error of the calls with the open debug groups, or that a pass is open, or
  that the device is lost, or what the validation of the usages found; otherwise it is the usages
  of the passes in order and an iterator that returns exactly the commands that the calls recorded
  with their contents, in the order of the calls, where the commands that validate a render pass come
  directly before those of the pass. It is undefined exactly where the specification is: when a
  call on the current encoder fails with an error that is not one of validation, which an assertion forbids,
  when without validation a debug group is closed and none is open, or when the validation of the
  usages is. With validation, and checks that give validation errors only, no call is undefined.
\<close>

theorem encoder_refines_spec:
  assumes "plenty h" "list_all (encoder_call_ok self render) calls1"
  shows "(case spec_encoding self render valid alive tops calls1 of
            Inl _ \<Rightarrow> run_encoding self valid alive tops calls1 h = undef
          | Inr (Inl e) \<Rightarrow> \<exists>c. run_encoding self valid alive tops calls1 h = ok (Inl e, c)
          | Inr (Inr (specs, us)) \<Rightarrow>
              \<exists>it c. run_encoding self valid alive tops calls1 h = ok (Inr (it, us), c) \<and> reads (memory c) it specs) \<and>
         (valid \<and> list_all call_checks_ok calls1 \<longrightarrow>
            (\<exists>c0 g c. EncodingContext valid self h = ok c0 \<and> foldR (run_encoder_call self) calls1 (\<lambda>_. 0, c0) = ok (g, c)))"
proof
  show "valid \<and> list_all call_checks_ok calls1 \<longrightarrow>
      (\<exists>c0 g c. EncodingContext valid self h = ok c0 \<and> foldR (run_encoder_call self) calls1 (\<lambda>_. 0, c0) = ok (g, c))"
    using calls_defined [OF assms] by auto
qed (use encoding_sim [OF assms, of valid alive tops] in \<open>auto simp: sim_def delivers_def split: sum.splits prod.splits\<close>)

definition sample_spec :: "nat \<Rightarrow> command_spec" where
  "sample_spec id1 = (True, id1, 12, 4, (\<lambda>j. j))"

definition sample_tracker :: render_tracker where
  "sample_tracker = \<lparr>rt_scope = \<lparr>mBufferUsages = [], mTextureUsages = [], mExternalTextureUsages = []\<rparr>, mQueryAvailabilities = []\<rparr>"

text \<open>A render pass with a draw inside a debug group, for whose validation a compute pass is recorded.\<close>

definition sample_encoding :: "call list" where
  "sample_encoding =
     [Simple (Encode 0 None [sample_spec 5]), PushGroup 0 ''pass'', BeginRender 2 None None (sample_spec 6), Simple (Encode 2 None [sample_spec 7]),
      EndRender 2 None (sample_spec 8) sample_tracker
        [BeginCompute 1 (sample_spec 9), EndCompute 1 None (sample_spec 10) \<lparr>dispatchUsages = [], referencedBuffers = [], referencedTextures = [], referencedExternalTextures = []\<rparr>]
        None sample_tracker,
      PopGroup 0]"

lemmas sample_simps = sample_encoding_def sample_spec_def sample_tracker_def

lemma sample_encoding_ok: "list_all (encoder_call_ok 0 (\<lambda>q. q = 2)) sample_encoding" "list_all call_checks_ok sample_encoding"
  by (simp_all add: sample_simps check_ok_def spec_ok_def alignment_ok_def command_sizes)

lemma sample_plenty: "plenty sample_heap"
  by (simp add: plenty_def heap_ok_def sample_heap_def)

lemmas spec_run_simps = spec_encoding_def spec_call_def sample_simps spec_start_def spec_try_def spec_current_def spec_add_def
  spec_end_render_def spec_finish_def spec_finish_internal_def spec_usages_def Render_AcquireResourceUsage_def AcquireSyncScopeUsage_def
  sync_scope.defs ValidateFinish_def ValidateSyncScopeResourceUsage_def

lemma sample_run:
  "\<exists>us. spec_encoding 0 (\<lambda>q. q = 2) True True ([], [], []) sample_encoding =
     ok (Inr ([sample_spec 5] @ push_group_commands ''pass'' @
       [sample_spec 9, sample_spec 10, sample_spec 6, sample_spec 7, sample_spec 8, pop_group_command], us))"
  by (simp add: spec_run_simps)

theorem encoder_refines_spec_witness:
  "\<exists>it us c. run_encoding 0 True True ([], [], []) sample_encoding sample_heap = ok (Inr (it, us), c) \<and>
     reads (memory c) it ([sample_spec 5] @ push_group_commands ''pass'' @
       [sample_spec 9, sample_spec 10, sample_spec 6, sample_spec 7, sample_spec 8, pop_group_command])"
proof -
  obtain us where "spec_encoding 0 (\<lambda>q. q = 2) True True ([], [], []) sample_encoding =
     ok (Inr ([sample_spec 5] @ push_group_commands ''pass'' @
       [sample_spec 9, sample_spec 10, sample_spec 6, sample_spec 7, sample_spec 8, pop_group_command], us))"
    using sample_run by blast
  with encoder_refines_spec [OF sample_plenty sample_encoding_ok(1), of True True "([], [], [])"] show ?thesis by auto
qed

text \<open>
  C28. A finished encoder is closed. After finishing, with or without an error, every attempt to
  record is refused with one error that goes to the device, and changes nothing else; finishing
  again is an error.
\<close>

theorem finished_encoder_is_closed:
  assumes "plenty h" "list_all (encoder_call_ok self render) calls1" "EncodingContext valid self h = ok c0"
    and "foldR (run_encoder_call self) calls1 (\<lambda>_. 0, c0) = ok (g, c)" "Finish c = ok (e, c1)"
  shows "(\<exists>error. fst error = Validation \<and>
            TryEncode encoder f c1 = ok (False, c1\<lparr>reported := reported c1 @ [error]\<rparr>)) \<and>
         (\<exists>error. Finish c1 = ok (Some error, c1))"
proof -
  obtain st where "destroyed self c st \<or> represents [] [] self render valid c st" using assms(1-4) by (rule run_related)
  then have fin: "IsFinished c1" "mCurrentEncoder c1 = None" using Finish_ok Finish_destroyed assms(5) by fastforce+
  then have "\<exists>error. fst error = Validation \<and>
      TryEncode encoder f c1 = ok (False, c1\<lparr>reported := reported c1 @ [error]\<rparr>)"
    by (auto simp: TryEncode_def CheckCurrentEncoder_def HandleError_def validation_failure_def)
  moreover have "Finish c1 = ok (Some (validation_failure ''Command encoding already finished.''), c1)"
    using fin(1) by (simp add: Finish_def)
  ultimately show ?thesis by blast
qed

lemma encoder_finishes:
  assumes "plenty h" "list_all (encoder_call_ok self render) calls1" "list_all call_checks_ok calls1"
  shows "\<exists>c0 g c e c1. EncodingContext True self h = ok c0 \<and> foldR (run_encoder_call self) calls1 (\<lambda>_. 0, c0) = ok (g, c) \<and> Finish c = ok (e, c1)"
proof -
  obtain c0 g c where c: "EncodingContext True self h = ok c0" "foldR (run_encoder_call self) calls1 (\<lambda>_. 0, c0) = ok (g, c)"
    using calls_defined [OF assms] by blast
  obtain st where "destroyed self c st \<or> represents [] [] self render True c st" using assms(1,2) c by (rule run_related)
  then show ?thesis using Finish_ok Finish_destroyed c by metis
qed

theorem finished_encoder_is_closed_witness:
  "\<exists>c0 g c e c1 c2. EncodingContext True 0 sample_heap = ok c0 \<and> foldR (run_encoder_call 0) sample_encoding (\<lambda>_. 0, c0) = ok (g, c) \<and>
     Finish c = ok (e, c1) \<and> TryEncode 2 (checked_commands None [sample_spec 7]) c1 = ok (False, c2)"
proof -
  obtain c0 g c e c1 where c: "EncodingContext True 0 sample_heap = ok c0" "foldR (run_encoder_call 0) sample_encoding (\<lambda>_. 0, c0) = ok (g, c)"
    "Finish c = ok (e, c1)"
    using encoder_finishes [OF sample_plenty sample_encoding_ok] by blast
  with finished_encoder_is_closed [OF sample_plenty sample_encoding_ok(1) c, of 2 "checked_commands None [sample_spec 7]"]
  show ?thesis by blast
qed

end
