(* ===== verification/Spec2Isabelle.thy ===== *)
theory Spec2Isabelle
  imports Builder_Invariant Graph_Build_Spec Buddy_Memory Buffer_Spec Sync_Scope_Spec Upload_Path Bit_Iteration Encoding_Spec
begin

text \<open>
  A verification library for webnn-native: the WebNN front end under
  \<open>src/webnn/src/webnn_native/\<close> and the part of Dawn it is built with, under
  \<open>src/src/common/\<close> and \<open>src/src/dawn_native/\<close>.

  \<^bold>\<open>The program.\<close> An application creates a context, builds a graph of operators with a graph
  builder, compiles the graph on a backend and computes it with named inputs and outputs. A call
  that is invalid does not raise an exception: the error goes to the innermost matching error
  scope of the context, and the call returns an error object that poisons what is built from it.
  Dawn, the WebGPU implementation in the same repository, supplies the error machinery and the
  GPU objects: buffers that are mapped and unmapped, textures and views on them, encoders that
  record copies and passes, and a queue that writes data and submits command buffers. Below them
  are its allocators and containers.

  \<^bold>\<open>Conventions\<close> (theory \<open>Prelude\<close>). A function of the sources becomes a function of the same name
  (with a prefix or suffix where HOL or another class has the name). A function that may fail
  returns \<open>res\<close>: \<open>ok\<close> of a value, an error with its kind and message, or \<open>undef\<close> for what C++ leaves
  undefined and for a failing \<open>ASSERT\<close> or \<open>UNREACHABLE\<close>. So a theorem that a result is \<open>ok\<close> also says
  that the code ran into none of these. Integers are \<open>nat\<close> or \<open>int\<close> with the wrap-around, the
  narrowing or the check for overflow of the source written out; bit masks are naturals or words
  with bit operations. State is passed explicitly: a record for a class, a numbered store where
  the code shares objects through pointers (operands and operators, the blocks of the buddy
  allocator), a log of events for callbacks. A loop whose end is not evident returns an
  option, and its theorems say that it returns. A virtual method of a backend, \<open>malloc\<close>, a
  driver or an application callback is an argument.

  \<^bold>\<open>WebNN.\<close>

  \<^item> \<open>Error_Scopes\<close>: \<open>Context.cpp\<close>, \<open>Error.cpp\<close> and Dawn's \<open>ErrorScope.cpp\<close>. The stack of scopes, the
    error conversions and the entry points of the context. An error is captured by the innermost
    scope with its filter, which keeps the first one; a lost error is captured by none.

  \<^item> \<open>Operands\<close>, \<open>Ops_Elementwise\<close>, \<open>Ops_Conv\<close>, \<open>Ops_Layout\<close>, \<open>Ops_Misc\<close>: \<open>Operand.h\<close>, \<open>Operator.cpp\<close>,
    \<open>Utils.cpp\<close> and \<open>ops/\<close>. Constructors, validation and shape inference of every operator, in the
    32-bit arithmetic of the sources. Broadcasting is compared with its definition by dimensions
    counted from the right, convolutions with the count of window positions and their transposed
    form as an inverse, concatenation with splitting, type checks included; reshape keeps the number of elements as long
    as nothing wraps.

  \<^item> \<open>Op_Contract\<close>: the locales \<open>inference\<close> and \<open>checked_inference\<close> say what the builder relies on,
    and every operator class interprets one of them.

  \<^item> \<open>Named_Records\<close>: the string-keyed maps of inputs and outputs, with the locale \<open>name_map\<close>.

  \<^item> \<open>Graph_Builder\<close>, \<open>Builder_Invariant\<close>: all entry points of \<open>GraphBuilder.cpp\<close>. Every store they
    reach is well formed: inputs come from earlier operators, so graphs have no cycles, and an
    error operand leads to error operands and error arrays only.

  \<^item> \<open>Graph_Build\<close>, \<open>Graph_Build_Spec\<close>: the topological sort, \<open>APIBuild\<close>, \<open>Graph.cpp\<close> and the null
    backend. The sort ends, lists what the outputs depend on once each and in order of
    dependency, and the backend sees exactly that run of operators. The locale \<open>graph_backend\<close> is
    the promise of a backend, interpreted on the null backend.

  \<^bold>\<open>Arithmetic, containers and allocators of Dawn.\<close>

  \<^item> \<open>Dawn_Math\<close>: the helpers of \<open>Math.cpp\<close> and \<open>Math.h\<close> (powers of two, logarithms, alignment).

  \<^item> \<open>Bit_Iteration\<close>: \<open>BitSetIterator.h\<close> and \<open>EnumMaskIterator.h\<close>; the loops visit the set bits in
    ascending order.

  \<^item> \<open>Serial_Storage\<close>: \<open>SerialQueue.h\<close> and \<open>SerialMap.h\<close>, two interpretations of \<open>serial_storage\<close>.

  \<^item> \<open>Allocator_Contract\<close>: the locale \<open>range_allocator\<close>, live blocks inside the memory and apart.
    \<open>Ring_Buffer\<close> and \<open>Buddy_Spec\<close> interpret it. \<open>Buddy\<close> works on a store of linked blocks;
    \<open>Buddy_Lists\<close>, \<open>Buddy_Tree\<close> and \<open>Buddy_Core\<close> relate the store to a tree with one free list per
    level. Allocation succeeds exactly when an aligned free range exists, and release merges.

  \<^item> \<open>Buddy_Memory\<close>: \<open>BuddyMemoryAllocator.cpp\<close>, the pool of heaps and \<open>ResourceMemoryAllocation\<close>.
    The locale \<open>heap_allocator\<close> is what a backend promises, interpreted on an allocator that
    numbers its heaps and on the pool on top of another allocator.

  \<^item> \<open>Dynamic_Uploader\<close>: \<open>DynamicUploader.cpp\<close> over ring buffers and a serial queue; staging ranges
    that are in use by the device are not handed out again.

  \<^bold>\<open>Resources of Dawn.\<close>

  \<^item> \<open>Buffer_Map\<close>, \<open>Buffer_Spec\<close>: \<open>Buffer.cpp\<close>, and the tasks of \<open>Queue.cpp\<close> and \<open>Device.cpp\<close> that end a
    mapping. Mapped ranges lie in the buffer, whatever the callbacks of the application do. The
    callbacks follow a script of calls that may nest to any depth \<open>n\<close> (\<open>behave\<close>; a run that nests
    deeper does not return, so no depth is excluded); the locale \<open>application\<close> is what the operations
    rely on in them. Every map request is answered once, if no callback that is told of
    unmapping or destruction asks for the next mapping; an example shows a request that is lost
    otherwise.

  \<^item> \<open>Formats\<close>, \<open>Formats_Spec\<close>: the table of \<open>Format.cpp\<close> for every set of features.

  \<^item> \<open>Subresource\<close>, \<open>Subresource_Storage\<close>, \<open>Subresource_Spec\<close>, \<open>Subresource_Table\<close>, \<open>Subresource_Calls\<close>:
    aspects, ranges and the compressed storage of \<open>SubresourceStorage.h\<close>. \<open>Update\<close> and \<open>Merge\<close> refine
    point-wise updates of a plain table, and the closures see disjoint ranges.

  \<^item> \<open>Texture\<close>, \<open>Texture_Spec\<close>: validation and creation of textures and views, the sizes of levels and
    the record of initialised subresources.

  \<^item> \<open>Sync_Scope\<close>, \<open>Sync_Scope_Spec\<close>: \<open>PassResourceUsageTracker.cpp\<close>, the rules on synchronisation
    scopes in \<open>CommandValidation.cpp\<close> and \<open>ValidateSubmit\<close>. The locale \<open>pointwise_table\<close> connects the
    tracker with the storage of a texture; a scope is accepted exactly when each buffer and each
    subresource is only read, or used in one way that writes.

  \<^item> \<open>Command_Allocator\<close>, \<open>Command_Spec\<close>: \<open>CommandAllocator.cpp\<close> over memory with explicit bytes, where
    any call of \<open>malloc\<close> may fail. Commands are aligned, inside blocks and apart, and the iterator
    reads back what was recorded; its assertions hold.

  \<^item> \<open>Encoding_Context\<close>, \<open>Encoding_Spec\<close>: \<open>EncodingContext.cpp\<close> and the calls of the encoders that begin
    and end passes, open and close debug groups, destroy and finish. They refine a specification on
    lists of commands: an encoder that finishes without error hands over its commands in the order
    of the calls, each render pass behind the commands that validate it, and a finished encoder
    records no more. The specification is undefined where a check fails with an error that is not one
    of validation, which the code asserts never to happen, where without validation a debug group is
    closed and none is open, and where the validation of the usages is. The locale \<open>command_recorder\<close> is
    what recording a command promises to the calls. The theorems assume that memory is not exhausted
    (\<open>plenty\<close>).

  \<^item> \<open>Copy_Commands\<close>, \<open>Copy_Spec\<close>: the rules on copies in \<open>CommandValidation.cpp\<close>, the copy, clear,
    resolve and marker commands of \<open>CommandEncoder.cpp\<close> and the writes of \<open>Queue.cpp\<close>. The blocks of
    an accepted copy lie inside the linear data and do not overlap, and its texels lie inside the
    subresource, although sizes are computed in 32 and 64 bits.

  \<^item> \<open>Texture_Write\<close>, \<open>Upload_Path\<close>: how the queue stages data. \<open>Upload_Path\<close> composes copies with the
    uploader: what lies in the granted range is the data of the write, row by row.

  \<^bold>\<open>Bounds.\<close> Theorems state the sizes they need. Textures have at most 65536 texels in each
  direction, which the limits of a device guarantee; alignments of staging memory are at most
  2 to the power 20, as those of formats and backends are; the serials given to the uploader and
  to the queues do not decrease, as those of a device. What a texture write stages is stated for
  images that are less than 4 GiB apart, because the code multiplies their distance in 32 bits (with a
  larger distance the staged bytes are wrong). No definition of the code takes fuel: the loops over iterators, free lists and
  blocks and the topological sort are partial functions, and the theorems on them show that they
  return on every state that satisfies the invariant of their component.

  \<^bold>\<open>Not modelled.\<close> The WebNN backends on DirectML, oneDNN and OpenVINO and the Dawn backends on
  D3D12, Metal, OpenGL and Vulkan are sequences of calls to libraries that are not in the
  repository. Pipelines, shader modules and bind group layouts depend on shader reflection by such
  a library; so do render bundles and the other calls of pass encoders. The wire is generated code around a
  transport. Device discovery, reference counts, object caches, worker threads, windows, labels
  and the text of formatted messages are left out, since no modelled decision reads them. In
  the modelled parts the bytes of GPU memory are not represented, except those that a texture
  write stages; the half-float and sRGB conversions of \<open>Math.cpp\<close> are left out.
\<close>

end
